(* ===== verification/PT_Prelude.thy ===== *)
theory PT_Prelude
  imports
    Complex_Main
    "HOL-Library.AList"
    "HOL-Library.Char_ord"
    "HOL-Library.List_Lexorder"
    "HOL-Library.Product_Lexorder"
    "HOL-Library.Multiset"
begin

text \<open>
  Shared vocabulary of the development: the types of the standard library the Rust sources
  use, and the generic facts the component theories rest on.

  \<^item> Time: an \<open>Instant\<close> and a \<open>Duration\<close> are a number of nanoseconds, as in the standard
    library, so \<open>saturating_duration_since\<close> is truncated subtraction. The one conversion
    of the sources that can panic, \<open>Duration::from_secs_f64\<close>, returns a sum.
  \<^item> Numbers: \<open>f64\<close> is \<open>real\<close> (arithmetic is exact: rounding, infinities and
    NaN are not modelled, except where a source tests \<open>is_finite\<close>, which has the type
    \<open>f64_wire\<close>); \<open>u32\<close> and \<open>u64\<close> are \<open>nat\<close>, with the wrap-around of a release
    build written out by \<open>u32_add\<close> and \<open>u64_mul\<close> where a result can leave the width.
  \<^item> Maps: a \<open>HashMap\<close> is an association list in some order, a \<open>BTreeMap\<close> one kept
    sorted by key.
\<close>

named_theorems pt_time "unfoldings of the time conversions"
named_theorems pt_width "unfoldings of the fixed-width integer operations"

section \<open>Time\<close>

type_synonym instant = nat
type_synonym duration = nat

abbreviation nanos_per_sec :: nat where
  "nanos_per_sec \<equiv> 1000000000"

definition from_secs :: "nat \<Rightarrow> duration" where
  [pt_time]: "from_secs s = s * 1000000000"

definition from_millis :: "nat \<Rightarrow> duration" where
  [pt_time]: "from_millis m = m * 1000000"

definition as_secs_f64 :: "duration \<Rightarrow> real" where
  [pt_time]: "as_secs_f64 d = real d / 1000000000"

definition as_millis :: "duration \<Rightarrow> nat" where
  [pt_time]: "as_millis d = d div 1000000"

definition saturating_duration_since :: "instant \<Rightarrow> instant \<Rightarrow> duration" where
  [pt_time]: "saturating_duration_since now earlier = now - earlier"

text \<open>Round to the nearest integer, ties to even: the rounding of \<open>from_secs_f64\<close>.\<close>

definition round_ties_even :: "real \<Rightarrow> int" where
  "round_ties_even x =
     (let f = \<lfloor>x\<rfloor>; r = x - of_int f
      in if r < 1/2 then f else if 1/2 < r then f + 1 else if even f then f else f + 1)"

datatype panic = NegativeDuration | DurationOverflow

text \<open>
  \<open>Duration::from_secs_f64\<close>: panics for a negative number of seconds and for one whose
  nearest nanosecond count is beyond \<open>u64::MAX\<close> seconds.
\<close>

definition from_secs_f64 :: "real \<Rightarrow> panic + duration" where
  "from_secs_f64 s =
     (if s < 0 then Inl NegativeDuration
      else let n = round_ties_even (s * 1000000000)
           in if 18446744073709551616 * 1000000000 \<le> n then Inl DurationOverflow
              else Inr (nat n))"

lemma round_ties_even_bounds:
  "x - 1/2 \<le> of_int (round_ties_even x)" "of_int (round_ties_even x) \<le> x + 1/2"
proof -
  have f: "of_int \<lfloor>x\<rfloor> \<le> x" "x < of_int \<lfloor>x\<rfloor> + 1" by linarith+
  show "x - 1/2 \<le> of_int (round_ties_even x)"
    unfolding round_ties_even_def Let_def using f by (simp split: if_split) linarith
  show "of_int (round_ties_even x) \<le> x + 1/2"
    unfolding round_ties_even_def Let_def using f by (simp split: if_split) linarith
qed

lemma round_ties_even_nonneg: "0 \<le> x \<Longrightarrow> 0 \<le> round_ties_even x"
proof -
  assume "0 \<le> x"
  then have "0 \<le> \<lfloor>x\<rfloor>" by simp
  then show ?thesis unfolding round_ties_even_def Let_def by (simp split: if_split)
qed

lemma round_ties_even_of_int [simp]: "round_ties_even (of_int z) = z"
  by (simp add: round_ties_even_def)

lemma from_secs_f64_InrD:
  assumes "from_secs_f64 s = Inr d"
  shows "0 \<le> s" "s * 1000000000 - 1/2 \<le> real d" "real d \<le> s * 1000000000 + 1/2"
proof -
  from assms show s: "0 \<le> s"
    by (auto simp: from_secs_f64_def split: if_splits)
  let ?n = "round_ties_even (s * 1000000000)"
  from assms s have d: "d = nat ?n"
    by (auto simp: from_secs_f64_def Let_def split: if_splits)
  have "0 \<le> ?n" using s by (intro round_ties_even_nonneg) simp
  with d have "real d = of_int ?n" by simp
  then show "s * 1000000000 - 1/2 \<le> real d" "real d \<le> s * 1000000000 + 1/2"
    using round_ties_even_bounds[of "s * 1000000000"] by simp_all
qed

lemma from_secs_f64_overflow:
  assumes "18446744073709551616 \<le> s"
  shows "from_secs_f64 s = Inl DurationOverflow"
proof -
  let ?n = "round_ties_even (s * 1000000000)"
  have "18446744073709551616000000000 - 1/2 \<le> (of_int ?n :: real)"
    using round_ties_even_bounds(1)[of "s * 1000000000"] assms by simp
  then have "(18446744073709551616000000000 :: int) \<le> ?n" by linarith
  then show ?thesis using assms by (simp add: from_secs_f64_def)
qed

lemma from_secs_f64_fits:
  assumes "0 \<le> s" "s < 18446744073709551615"
  shows "\<exists>d. from_secs_f64 s = Inr d"
proof -
  let ?n = "round_ties_even (s * 1000000000)"
  have "of_int ?n \<le> s * 1000000000 + 1/2" by (rule round_ties_even_bounds)
  also have "\<dots> < 18446744073709551616000000000" using assms(2) by simp
  finally have "?n < 18446744073709551616000000000" by linarith
  then show ?thesis using assms(1) by (auto simp: from_secs_f64_def Let_def)
qed

section \<open>Numbers\<close>

text \<open>\<open>f64::EPSILON\<close>, two to the power of minus 52.\<close>

definition f64_epsilon :: real where
  "f64_epsilon = 1 / 4503599627370496"

lemma f64_epsilon_pos [simp]: "0 < f64_epsilon"
  by (simp add: f64_epsilon_def)

text \<open>A number that a source tests with \<open>is_finite\<close> before it uses it.\<close>

datatype f64_wire = Finite real | NonFinite

text \<open>\<open>if x.is_finite() { x.max(0.0) } else { 0.0 }\<close>\<close>

definition finite_max0 :: "f64_wire \<Rightarrow> real" where
  "finite_max0 x = (case x of Finite r \<Rightarrow> max r 0 | NonFinite \<Rightarrow> 0)"

lemma finite_max0_nonneg [simp]: "0 \<le> finite_max0 x"
  by (simp add: finite_max0_def split: f64_wire.split)

definition clamp :: "'a::linorder \<Rightarrow> 'a \<Rightarrow> 'a \<Rightarrow> 'a" where
  "clamp lo hi x = (if x < lo then lo else if hi < x then hi else x)"

lemma clamp_bounds: "lo \<le> hi \<Longrightarrow> lo \<le> clamp lo hi x \<and> clamp lo hi x \<le> hi"
  by (auto simp: clamp_def)

definition u32_max :: nat where
  [pt_width]: "u32_max = 4294967295"

definition u64_max :: nat where
  [pt_width]: "u64_max = 18446744073709551615"

text \<open>Addition and multiplication at the width, as in a build without overflow checks.\<close>

definition u32_add :: "nat \<Rightarrow> nat \<Rightarrow> nat" where
  [pt_width]: "u32_add a b = (a + b) mod 4294967296"

definition u64_add :: "nat \<Rightarrow> nat \<Rightarrow> nat" where
  [pt_width]: "u64_add a b = (a + b) mod 18446744073709551616"

definition u64_sum :: "nat list \<Rightarrow> nat" where
  "u64_sum xs = foldl u64_add 0 xs"

definition u64_mul :: "nat \<Rightarrow> nat \<Rightarrow> nat" where
  [pt_width]: "u64_mul a b = (a * b) mod 18446744073709551616"

definition u64_saturating_add :: "nat \<Rightarrow> nat \<Rightarrow> nat" where
  [pt_width]: "u64_saturating_add a b = min (a + b) 18446744073709551615"

lemma u32_add_exact: "a + b < 4294967296 \<Longrightarrow> u32_add a b = a + b"
  by (simp add: u32_add_def)

lemma u64_add_exact: "a + b < 18446744073709551616 \<Longrightarrow> u64_add a b = a + b"
  by (simp add: u64_add_def)

lemma u64_sum_exact: "sum_list xs < 18446744073709551616 \<Longrightarrow> u64_sum xs = sum_list xs"
proof -
  have "foldl u64_add a xs = a + sum_list xs" if "a + sum_list xs < 18446744073709551616" for a
    using that by (induction xs arbitrary: a) (simp_all add: u64_add_def)
  then show "sum_list xs < 18446744073709551616 \<Longrightarrow> u64_sum xs = sum_list xs" by (simp add: u64_sum_def)
qed

lemma u64_mul_exact: "a * b < 18446744073709551616 \<Longrightarrow> u64_mul a b = a * b"
  by (simp add: u64_mul_def)

text \<open>The saturating casts \<open>as u32\<close> and \<open>as u64\<close> from a float.\<close>

definition f64_as_u32 :: "real \<Rightarrow> nat" where
  [pt_width]: "f64_as_u32 x = min (nat \<lfloor>x\<rfloor>) 4294967295"

definition f64_as_u64 :: "real \<Rightarrow> nat" where
  [pt_width]: "f64_as_u64 x = min (nat \<lfloor>x\<rfloor>) 18446744073709551615"

definition u64_div_ceil :: "nat \<Rightarrow> nat \<Rightarrow> nat" where
  "u64_div_ceil a b = (if a mod b = 0 then a div b else a div b + 1)"

lemma u64_div_ceil_bounds:
  assumes "0 < b"
  shows "a \<le> u64_div_ceil a b * b" "u64_div_ceil a b * b < a + b"
proof -
  define q r where "q = a div b" and "r = a mod b"
  have a: "a = q * b + r" unfolding q_def r_def by simp
  have r: "r < b" unfolding r_def using assms by simp
  have c: "u64_div_ceil a b = (if r = 0 then q else q + 1)"
    by (simp add: u64_div_ceil_def q_def r_def)
  show "a \<le> u64_div_ceil a b * b" "u64_div_ceil a b * b < a + b"
    unfolding c using a r by (auto simp: add_mult_distrib)
qed

section \<open>Strings\<close>

text \<open>\<open>str::trim\<close> on ASCII and \<open>str::strip_prefix\<close>.\<close>

definition is_space :: "char \<Rightarrow> bool" where
  "is_space c \<longleftrightarrow> of_char c \<in> {9, 10, 11, 12, 13, 32 :: nat}"

definition trim :: "string \<Rightarrow> string" where
  "trim s = rev (dropWhile is_space (rev (dropWhile is_space s)))"

definition strip_prefix :: "string \<Rightarrow> string \<Rightarrow> string option" where
  "strip_prefix p s = (if take (length p) s = p then Some (drop (length p) s) else None)"

definition split_once :: "char \<Rightarrow> string \<Rightarrow> (string \<times> string) option" where
  "split_once c s =
     (let a = takeWhile (\<lambda>x. x \<noteq> c) s; b = dropWhile (\<lambda>x. x \<noteq> c) s
      in case b of [] \<Rightarrow> None | _ # rest \<Rightarrow> Some (a, rest))"

text \<open>Decimal rendering of a \<open>u64\<close>, and the number a string of digits denotes.\<close>

definition digit_char :: "nat \<Rightarrow> char" where
  "digit_char d = char_of (48 + d)"

fun to_string :: "nat \<Rightarrow> string" where
  "to_string n = (if n < 10 then [digit_char n] else to_string (n div 10) @ [digit_char (n mod 10)])"

declare to_string.simps [simp del]

definition decimal_value :: "string \<Rightarrow> nat" where
  "decimal_value s = foldl (\<lambda>a c. 10 * a + (of_char c - 48)) 0 s"

lemma of_char_digit_char: "d < 10 \<Longrightarrow> of_char (digit_char d) = 48 + d"
  by (simp add: digit_char_def)

lemma decimal_value_to_string [simp]: "decimal_value (to_string n) = n"
proof (induction n rule: to_string.induct)
  case (1 n)
  show ?case
  proof (cases "n < 10")
    case True
    then show ?thesis by (simp add: to_string.simps[of n] decimal_value_def of_char_digit_char)
  next
    case False
    then have "decimal_value (to_string n) = 10 * decimal_value (to_string (n div 10)) + n mod 10"
      by (simp add: to_string.simps[of n] decimal_value_def of_char_digit_char)
    then show ?thesis using 1 False by simp
  qed
qed

lemma to_string_inject [simp]: "to_string m = to_string n \<longleftrightarrow> m = n"
  by (metis decimal_value_to_string)

section \<open>Iterator methods\<close>

text \<open>
  \<open>position\<close> and \<open>rposition\<close>: the first and the last index whose element satisfies the
  predicate. \<open>max_by\<close> returns the last of several maxima, \<open>min_by\<close> the first of
  several minima.
\<close>

fun position :: "('a \<Rightarrow> bool) \<Rightarrow> 'a list \<Rightarrow> nat option" where
  "position p [] = None"
| "position p (x # xs) = (if p x then Some 0 else map_option Suc (position p xs))"

fun rposition :: "('a \<Rightarrow> bool) \<Rightarrow> 'a list \<Rightarrow> nat option" where
  "rposition p [] = None"
| "rposition p (x # xs) =
     (case rposition p xs of Some i \<Rightarrow> Some (Suc i) | None \<Rightarrow> if p x then Some 0 else None)"

definition max_by_key :: "('a \<Rightarrow> 'b::linorder) \<Rightarrow> 'a list \<Rightarrow> 'a option" where
  "max_by_key f xs =
     (case xs of [] \<Rightarrow> None | x # ys \<Rightarrow> Some (foldl (\<lambda>b y. if f b \<le> f y then y else b) x ys))"

definition min_by_key :: "('a \<Rightarrow> 'b::linorder) \<Rightarrow> 'a list \<Rightarrow> 'a option" where
  "min_by_key f xs =
     (case xs of [] \<Rightarrow> None | x # ys \<Rightarrow> Some (foldl (\<lambda>b y. if f y < f b then y else b) x ys))"

lemma position_SomeD:
  "position p xs = Some i \<Longrightarrow> i < length xs \<and> p (xs ! i) \<and> (\<forall>j<i. \<not> p (xs ! j))"
proof (induction xs arbitrary: i)
  case Nil
  then show ?case by simp
next
  case (Cons x xs)
  then show ?case
    by (auto split: if_splits simp: nth_Cons split: nat.split)
qed

lemma position_None_iff: "position p xs = None \<longleftrightarrow> (\<forall>x\<in>set xs. \<not> p x)"
  by (induction xs) auto

lemma rposition_SomeD:
  "rposition p xs = Some i \<Longrightarrow> i < length xs \<and> p (xs ! i) \<and> (\<forall>j. i < j \<and> j < length xs \<longrightarrow> \<not> p (xs ! j))"
proof (induction xs arbitrary: i)
  case Nil
  then show ?case by simp
next
  case (Cons x xs)
  show ?case
  proof (cases "rposition p xs")
    case None
    have none: "\<forall>y\<in>set xs. \<not> p y"
      using None by (induction xs) (auto split: option.splits if_splits)
    with Cons.prems None show ?thesis
      by (auto split: if_splits simp: nth_Cons split: nat.split)
  next
    case (Some k)
    with Cons.IH[OF Some] Cons.prems show ?thesis
      by (auto simp: nth_Cons split: nat.split)
  qed
qed

lemma rposition_None_iff: "rposition p xs = None \<longleftrightarrow> (\<forall>x\<in>set xs. \<not> p x)"
  by (induction xs) (auto split: option.splits)

lemma foldl_max_by:
  fixes f :: "'a \<Rightarrow> 'b::linorder"
  defines "g \<equiv> \<lambda>b y. if f b \<le> f y then y else b"
  shows "foldl g x ys \<in> insert x (set ys) \<and> f x \<le> f (foldl g x ys) \<and> (\<forall>y\<in>set ys. f y \<le> f (foldl g x ys))"
proof (induction ys arbitrary: x)
  case Nil
  then show ?case by simp
next
  case (Cons y ys)
  from Cons.IH[of "g x y"] show ?case
    by (auto simp: g_def split: if_splits intro: order_trans)
qed

lemma foldl_min_by:
  fixes f :: "'a \<Rightarrow> 'b::linorder"
  defines "g \<equiv> \<lambda>b y. if f y < f b then y else b"
  shows "foldl g x ys \<in> insert x (set ys) \<and> f (foldl g x ys) \<le> f x \<and> (\<forall>y\<in>set ys. f (foldl g x ys) \<le> f y)"
proof (induction ys arbitrary: x)
  case Nil
  then show ?case by simp
next
  case (Cons y ys)
  from Cons.IH[of "g x y"] show ?case
    by (auto simp: g_def split: if_splits intro: order_trans)
qed

lemma max_by_key_SomeD:
  "max_by_key f xs = Some m \<Longrightarrow> m \<in> set xs \<and> (\<forall>x\<in>set xs. f x \<le> f m)"
  using foldl_max_by[of f] by (cases xs) (auto simp: max_by_key_def)

lemma min_by_key_SomeD:
  "min_by_key f xs = Some m \<Longrightarrow> m \<in> set xs \<and> (\<forall>x\<in>set xs. f m \<le> f x)"
  using foldl_min_by[of f] by (cases xs) (auto simp: min_by_key_def)

lemma max_by_key_None_iff [simp]: "max_by_key f xs = None \<longleftrightarrow> xs = []"
  by (cases xs) (auto simp: max_by_key_def)

lemma min_by_key_None_iff [simp]: "min_by_key f xs = None \<longleftrightarrow> xs = []"
  by (cases xs) (auto simp: min_by_key_def)

lemma map_filter_filter: "List.map_filter f (filter P xs) = List.map_filter (\<lambda>x. if P x then f x else None) xs"
  by (induction xs) (auto simp: List.map_filter_def)

lemma set_map_filter: "set (List.map_filter f xs) = {y. \<exists>x\<in>set xs. f x = Some y}"
  by (force simp: List.map_filter_def)

lemma map_filter_eq_append_Cons:
  assumes "List.map_filter f xs = ys @ y # zs"
  shows "\<exists>as a bs. xs = as @ a # bs \<and> f a = Some y \<and> List.map_filter f as = ys \<and> List.map_filter f bs = zs"
  using assms
proof (induction xs arbitrary: ys)
  case Nil
  then show ?case by (simp add: List.map_filter_def)
next
  case (Cons x xs)
  show ?case
  proof (cases "f x")
    case None
    with Cons.prems have "List.map_filter f xs = ys @ y # zs" by (simp add: List.map_filter_def)
    from Cons.IH[OF this] obtain as a bs where "xs = as @ a # bs" "f a = Some y"
      "List.map_filter f as = ys" "List.map_filter f bs = zs" by blast
    then show ?thesis using None by (intro exI[of _ "x # as"] exI[of _ a] exI[of _ bs]) (simp add: List.map_filter_def)
  next
    case (Some v)
    show ?thesis
    proof (cases ys)
      case Nil
      with Some Cons.prems show ?thesis
        by (intro exI[of _ "[]"] exI[of _ x] exI[of _ xs]) (simp add: List.map_filter_def)
    next
      case (Cons w ws)
      with Some Cons.prems have "List.map_filter f xs = ws @ y # zs" "w = v" by (simp_all add: List.map_filter_def)
      with Cons.IH[of ws] obtain as a bs where "xs = as @ a # bs" "f a = Some y"
        "List.map_filter f as = ws" "List.map_filter f bs = zs" by blast
      then show ?thesis using Some Cons \<open>w = v\<close>
        by (intro exI[of _ "x # as"] exI[of _ a] exI[of _ bs]) (simp add: List.map_filter_def)
    qed
  qed
qed

lemma foldl_invariant: "P s \<Longrightarrow> (\<And>s x. P s \<Longrightarrow> P (f s x)) \<Longrightarrow> P (foldl f s xs)"
  by (induction xs arbitrary: s) auto

section \<open>Maps\<close>

text \<open>
  \<open>BTreeMap::insert\<close> on a list sorted by key. A lookup is \<open>map_of\<close>, a removal
  \<open>AList.delete\<close>, \<open>retain\<close> is \<open>filter\<close>. A \<open>HashMap\<close> is updated with
  \<open>AList.update\<close>.
\<close>

fun bt_put :: "'k::linorder \<Rightarrow> 'v \<Rightarrow> ('k \<times> 'v) list \<Rightarrow> ('k \<times> 'v) list" where
  "bt_put k v [] = [(k, v)]"
| "bt_put k v ((k', v') # xs) =
     (if k = k' then (k, v) # xs
      else if k < k' then (k, v) # (k', v') # xs
      else (k', v') # bt_put k v xs)"

lemma map_of_bt_put [simp]:
  "sorted (map fst xs) \<Longrightarrow> distinct (map fst xs) \<Longrightarrow> map_of (bt_put k v xs) = (map_of xs)(k \<mapsto> v)"
  by (induction xs rule: bt_put.induct) auto

lemma set_keys_bt_put [simp]: "set (map fst (bt_put k v xs)) = insert k (set (map fst xs))"
  by (induction xs rule: bt_put.induct) auto

lemma fst_set_bt_put: "fst ` set (bt_put k v xs) = insert k (fst ` set xs)"
  using set_keys_bt_put[of k v xs] by (simp del: set_keys_bt_put)

lemma sorted_distinct_bt_put:
  "sorted (map fst xs) \<and> distinct (map fst xs) \<Longrightarrow>
   sorted (map fst (bt_put k v xs)) \<and> distinct (map fst (bt_put k v xs))"
proof (induction xs)
  case Nil
  then show ?case by simp
next
  case (Cons a xs)
  obtain k' v' where a: "a = (k', v')" by (cases a)
  from Cons.prems a have "sorted (map fst xs) \<and> distinct (map fst xs)" by simp
  then have IH: "sorted (map fst (bt_put k v xs)) \<and> distinct (map fst (bt_put k v xs))"
    by (rule Cons.IH)
  show ?case
    using IH Cons.prems a by (force simp: fst_set_bt_put)
qed

lemma map_of_filter_key:
  "distinct (map fst xs) \<Longrightarrow>
   map_of (filter p xs) k = (case map_of xs k of None \<Rightarrow> None | Some v \<Rightarrow> if p (k, v) then Some v else None)"
  by (induction xs) (auto split: option.splits simp: map_of_eq_None_iff dest!: map_of_SomeD intro: rev_image_eqI)

lemma distinct_keys_filter: "distinct (map fst xs) \<Longrightarrow> distinct (map fst (filter p xs))"
  by (induction xs) auto

lemma sorted_keys_filter: "sorted (map fst xs) \<Longrightarrow> sorted (map fst (filter p xs))"
  by (induction xs) auto

lemma in_alist_update:
  "distinct (map fst xs) \<Longrightarrow> (i, v') \<in> set (AList.update k v xs) \<Longrightarrow> (i = k \<and> v' = v) \<or> (i \<noteq> k \<and> (i, v') \<in> set xs)"
  by (metis distinct_update fun_upd_apply map_of_SomeD map_of_is_SomeI option.inject update_conv')

section \<open>Sums over lists\<close>

lemma sum_list_nonneg_real: "(\<And>x. x \<in> set xs \<Longrightarrow> 0 \<le> f x) \<Longrightarrow> 0 \<le> (\<Sum>x\<leftarrow>xs. f x :: real)"
  by (rule sum_list_nonneg) auto

lemma sum_list_filter_split:
  fixes f :: "'a \<Rightarrow> 'b::comm_monoid_add"
  shows "(\<Sum>x\<leftarrow>filter p xs. f x) + (\<Sum>x\<leftarrow>filter (\<lambda>x. \<not> p x) xs. f x) = (\<Sum>x\<leftarrow>xs. f x)"
  by (induction xs) (auto simp: ac_simps)

lemma sum_list_filter_le:
  fixes f :: "'a \<Rightarrow> real"
  assumes "\<And>x. x \<in> set xs \<Longrightarrow> p x \<Longrightarrow> q x" "\<And>x. x \<in> set xs \<Longrightarrow> 0 \<le> f x"
  shows "(\<Sum>x\<leftarrow>filter p xs. f x) \<le> (\<Sum>x\<leftarrow>filter q xs. f x)"
  using assms
proof (induction xs)
  case Nil
  then show ?case by simp
next
  case (Cons a xs)
  have "(\<Sum>x\<leftarrow>filter p xs. f x) \<le> (\<Sum>x\<leftarrow>filter q xs. f x)"
    using Cons.prems by (intro Cons.IH) auto
  moreover have "p a \<Longrightarrow> q a" "0 \<le> f a" using Cons.prems by auto
  ultimately show ?case by auto
qed

lemma sum_mset_nonneg_real: "(\<And>x. x \<in># M \<Longrightarrow> 0 \<le> f x) \<Longrightarrow> 0 \<le> (\<Sum>x\<in>#M. f x :: real)"
  by (induction M) (auto intro!: add_nonneg_nonneg)

lemma length_filter_update:
  assumes "i < length xs"
  shows "length (filter p (xs[i := y])) + (if p (xs ! i) then 1 else 0)
       = length (filter p xs) + (if p y then 1 else 0)"
  using assms
proof (induction xs arbitrary: i)
  case Nil
  then show ?case by simp
next
  case (Cons a xs)
  show ?case
  proof (cases i)
    case 0
    then show ?thesis by simp
  next
    case (Suc j)
    then show ?thesis using Cons.IH[of j] Cons.prems by simp
  qed
qed

end
