(* ===== verification/PT_Core.thy ===== *)
theory PT_Core
  imports PT_Prelude
begin

text \<open>
  The crate \<open>pt-core\<close>: the work-unit cost model (\<open>cost.rs\<close>), tiers and prices
  (\<open>tier.rs\<close>), the declared shape (\<open>shape.rs\<close>), term lengths (\<open>term.rs\<close>), token
  counting (\<open>tokens.rs\<close>) and the usage record (\<open>usage.rs\<close>). The lemmas show that the
  cost is monotone and never rewards splitting a request, that prices add up, and that the
  serialised forms are read back.
\<close>

section \<open>Tiers and prices (tier.rs)\<close>

datatype tier = Interactive | Agentic | Standard

fun tier_as_str :: "tier \<Rightarrow> string" where
  "tier_as_str Interactive = ''interactive''"
| "tier_as_str Agentic = ''agentic''"
| "tier_as_str Standard = ''standard''"

fun tpot_target_s :: "tier \<Rightarrow> real" where
  "tpot_target_s Interactive = 40 / 1000"
| "tpot_target_s Agentic = 30 / 1000"
| "tpot_target_s Standard = 80 / 1000"

fun ttft_target_ms :: "tier \<Rightarrow> nat \<Rightarrow> nat \<Rightarrow> real" where
  "ttft_target_ms Interactive input_tokens cached_tokens =
     (let extra_blocks = u64_div_ceil (input_tokens - 8192) 8192
      in 800 + 100 * real extra_blocks)"
| "ttft_target_ms Agentic input_tokens cached_tokens =
     (if input_tokens \<le> u64_mul cached_tokens 2 \<and> 0 < input_tokens then 500 else 1500)"
| "ttft_target_ms Standard input_tokens cached_tokens = 3000"

fun tpot_target_ms :: "tier \<Rightarrow> nat \<Rightarrow> real" where
  "tpot_target_ms Interactive output_tokens = (if output_tokens \<le> 64 then 30 else 40)"
| "tpot_target_ms Agentic output_tokens = (if output_tokens \<le> 64 then 20 else 30)"
| "tpot_target_ms Standard output_tokens = 80"

fun price_multiplier :: "tier \<Rightarrow> real" where
  "price_multiplier Standard = 1"
| "price_multiplier Interactive = 5/4"
| "price_multiplier Agentic = 3/2"

datatype pool_isolation = Shared | Dedicated | StrictDedicated

definition strict_dedicated_surcharge :: real where
  "strict_dedicated_surcharge = 3/10"

definition multi_region_surcharge :: real where
  "multi_region_surcharge = 2/10"

definition cu_price_multiplier :: "tier \<Rightarrow> pool_isolation \<Rightarrow> bool \<Rightarrow> real" where
  "cu_price_multiplier t isolation multi_region =
     (let isolation_surcharge =
            (case isolation of StrictDedicated \<Rightarrow> strict_dedicated_surcharge
                             | Shared \<Rightarrow> 0 | Dedicated \<Rightarrow> 0);
          sku_surcharge = (if multi_region then multi_region_surcharge else 0)
      in price_multiplier t + isolation_surcharge + sku_surcharge)"

section \<open>Cost model (cost.rs)\<close>

record coefficients =
  coef_a :: real
  coef_b :: real
  coef_c :: real
  coef_d :: real

record tier_capacity =
  cap_interactive :: real
  cap_agentic :: real
  cap_standard :: real

definition for_tier :: "tier_capacity \<Rightarrow> tier \<Rightarrow> real" where
  "for_tier c t = (case t of Interactive \<Rightarrow> cap_interactive c
                           | Agentic \<Rightarrow> cap_agentic c
                           | Standard \<Rightarrow> cap_standard c)"

record performance_profile =
  prof_name :: string
  prof_coefficients :: coefficients
  prof_capacity_wu_per_s :: tier_capacity

record work_breakdown =
  uncached_prefill_tokens :: nat
  cached_prefill_tokens :: nat
  decode_tokens :: nat
  kv_token_seconds :: real
  decode_modifier :: real

definition work_breakdown_new :: "nat \<Rightarrow> nat \<Rightarrow> nat \<Rightarrow> real \<Rightarrow> work_breakdown" where
  "work_breakdown_new uncached cached decode kv =
     \<lparr>uncached_prefill_tokens = uncached, cached_prefill_tokens = cached,
      decode_tokens = decode, kv_token_seconds = kv, decode_modifier = 1\<rparr>"

definition prompt_tokens :: "work_breakdown \<Rightarrow> nat" where
  "prompt_tokens w = uncached_prefill_tokens w + cached_prefill_tokens w"

definition work_units :: "performance_profile \<Rightarrow> work_breakdown \<Rightarrow> real" where
  "work_units p w =
     (let k = prof_coefficients p
      in coef_a k * real (uncached_prefill_tokens w)
         + coef_b k * real (cached_prefill_tokens w)
         + coef_c k * real (decode_tokens w) * decode_modifier w
         + coef_d k * kv_token_seconds w)"

definition estimate_kv_token_seconds :: "nat \<Rightarrow> nat \<Rightarrow> real \<Rightarrow> real" where
  "estimate_kv_token_seconds input_tokens decode tpot_s =
     (let avg_resident = real input_tokens + real decode / 2
      in avg_resident * real decode * tpot_s)"

definition measured_kv_token_seconds :: "nat \<Rightarrow> nat \<Rightarrow> real \<Rightarrow> real" where
  "measured_kv_token_seconds input_tokens decode decode_duration_s =
     (let avg_resident = real input_tokens + real decode / 2
      in avg_resident * max decode_duration_s 0)"

section \<open>Declared shape (shape.rs)\<close>

record shape =
  input_p95 :: nat
  input_max :: nat
  output_p95 :: nat
  context_ceiling :: nat
  cache_hit_ratio :: real
  burst_factor :: real

definition is_in_shape :: "shape \<Rightarrow> nat \<Rightarrow> nat \<Rightarrow> bool" where
  "is_in_shape s input_tokens max_output_tokens \<longleftrightarrow>
     input_tokens \<le> input_max s \<and>
     u64_saturating_add input_tokens max_output_tokens \<le> context_ceiling s"

section \<open>Term lengths (term.rs)\<close>

datatype term_months = One | Three | Six

fun months :: "term_months \<Rightarrow> nat" where
  "months One = 1"
| "months Three = 3"
| "months Six = 6"

definition term_try_from :: "nat \<Rightarrow> nat + term_months" where
  "term_try_from v =
     (if v = 1 then Inr One else if v = 3 then Inr Three else if v = 6 then Inr Six else Inl v)"

section \<open>Token counting (tokens.rs)\<close>

definition message_overhead :: nat where
  "message_overhead = 3"

definition count_message :: "(string \<Rightarrow> nat) \<Rightarrow> string \<Rightarrow> string \<Rightarrow> nat" where
  "count_message counter role content = message_overhead + counter role + counter content"

text \<open>\<open>ApproxTokenCounter\<close>: four bytes per token; a \<open>string\<close> is a list of bytes.\<close>

definition approx_count :: "string \<Rightarrow> nat" where
  "approx_count txt = u64_div_ceil (length txt) 4"

section \<open>Usage record (usage.rs)\<close>

datatype traffic_class = Provisioned | Burst | Spillover | Payg

fun traffic_class_as_str :: "traffic_class \<Rightarrow> string" where
  "traffic_class_as_str Provisioned = ''provisioned''"
| "traffic_class_as_str Burst = ''burst''"
| "traffic_class_as_str Spillover = ''spillover''"
| "traffic_class_as_str Payg = ''payg''"

text \<open>The derived \<open>Ord\<close> follows the order of the variants.\<close>

instantiation traffic_class :: linorder
begin

fun traffic_rank :: "traffic_class \<Rightarrow> nat" where
  "traffic_rank Provisioned = 0"
| "traffic_rank Burst = 1"
| "traffic_rank Spillover = 2"
| "traffic_rank Payg = 3"

definition less_eq_traffic_class :: "traffic_class \<Rightarrow> traffic_class \<Rightarrow> bool" where
  "a \<le> b \<longleftrightarrow> traffic_rank a \<le> traffic_rank b"

definition less_traffic_class :: "traffic_class \<Rightarrow> traffic_class \<Rightarrow> bool" where
  "a < b \<longleftrightarrow> traffic_rank a < traffic_rank b"

instance
proof
  fix a b c :: traffic_class
  show "a \<le> b \<Longrightarrow> b \<le> a \<Longrightarrow> a = b"
    by (cases a; cases b) (simp_all add: less_eq_traffic_class_def)
qed (auto simp: less_eq_traffic_class_def less_traffic_class_def)

end

datatype reject_reason =
  EntitlementExhausted | QueueDeadline | QueueFull | DeploymentCapExhausted

fun reject_reason_as_str :: "reject_reason \<Rightarrow> string" where
  "reject_reason_as_str EntitlementExhausted = ''entitlement_exhausted''"
| "reject_reason_as_str QueueDeadline = ''queue_deadline''"
| "reject_reason_as_str QueueFull = ''queue_full''"
| "reject_reason_as_str DeploymentCapExhausted = ''deployment_cap_exhausted''"

datatype outcome = Ok | Rejected reject_reason | ClientCancelled | OutcomeError string

record token_breakdown =
  tb_uncached_prefill :: nat
  tb_cached_prefill :: nat
  tb_decode :: nat

record timings =
  queue_ms :: real
  ttft_ms :: "real option"
  total_ms :: real
  tpot_ms :: "real option"

record usage_record =
  ur_request_id :: string
  ur_received_at_ms :: nat
  ur_tenant :: string
  ur_reservation :: string
  ur_deployment :: string
  ur_class :: "traffic_class option"
  ur_session_id :: "string option"
  ur_tokens :: token_breakdown
  ur_kv_token_seconds :: real
  ur_wu_estimated :: real
  ur_wu_actual :: real
  ur_timings :: timings
  ur_in_shape :: bool
  ur_outcome :: outcome
  ur_profile :: string

section \<open>Properties of the cost model\<close>

definition coefficients_ok :: "coefficients \<Rightarrow> bool" where
  "coefficients_ok k \<longleftrightarrow> 0 \<le> coef_b k \<and> coef_b k \<le> coef_a k \<and> 0 \<le> coef_c k \<and> 0 \<le> coef_d k"

lemma estimate_kv_superadditive:
  assumes "0 \<le> tpot"
  shows "estimate_kv_token_seconds i1 d1 tpot + estimate_kv_token_seconds i2 d2 tpot
       \<le> estimate_kv_token_seconds (i1 + i2) (d1 + d2) tpot"
proof -
  let ?e = "\<lambda>i d. (real i + real d / 2) * real d"
  have "?e (i1 + i2) (d1 + d2) - (?e i1 d1 + ?e i2 d2)
      = real i1 * real d2 + real i2 * real d1 + real d1 * real d2"
    by (simp add: algebra_simps)
  moreover have "0 \<le> real i1 * real d2 + real i2 * real d1 + real d1 * real d2" by simp
  ultimately have "?e i1 d1 + ?e i2 d2 \<le> ?e (i1 + i2) (d1 + d2)" by linarith
  then have "(?e i1 d1 + ?e i2 d2) * tpot \<le> ?e (i1 + i2) (d1 + d2) * tpot"
    using assms by (rule mult_right_mono)
  then show ?thesis by (simp add: estimate_kv_token_seconds_def distrib_right)
qed

lemma work_units_new:
  "work_units p (work_breakdown_new u c d kv) =
     coef_a (prof_coefficients p) * real u + coef_b (prof_coefficients p) * real c
     + coef_c (prof_coefficients p) * real d + coef_d (prof_coefficients p) * kv"
  by (simp add: work_units_def work_breakdown_new_def Let_def)

lemma work_units_join:
  assumes "coefficients_ok (prof_coefficients p)" and "0 \<le> tpot"
  shows "work_units p (work_breakdown_new u1 c1 d1 (estimate_kv_token_seconds (u1 + c1) d1 tpot))
         + work_units p (work_breakdown_new u2 c2 d2 (estimate_kv_token_seconds (u2 + c2) d2 tpot))
         \<le> work_units p (work_breakdown_new (u1 + u2) (c1 + c2) (d1 + d2)
               (estimate_kv_token_seconds (u1 + c1 + (u2 + c2)) (d1 + d2) tpot))"
proof -
  let ?d = "coef_d (prof_coefficients p)"
  have "?d * (estimate_kv_token_seconds (u1 + c1) d1 tpot + estimate_kv_token_seconds (u2 + c2) d2 tpot)
      \<le> ?d * estimate_kv_token_seconds (u1 + c1 + (u2 + c2)) (d1 + d2) tpot"
    using assms by (intro mult_left_mono estimate_kv_superadditive) (simp_all add: coefficients_ok_def)
  then show ?thesis by (simp add: work_units_new algebra_simps)
qed

lemma work_units_cached_le:
  assumes "coefficients_ok (prof_coefficients p)"
  shows "work_units p (work_breakdown_new u (c + m) d kv) \<le> work_units p (work_breakdown_new (u + m) c d kv)"
proof -
  let ?k = "prof_coefficients p"
  have "coef_b ?k * real m \<le> coef_a ?k * real m"
    using assms by (simp add: coefficients_ok_def mult_right_mono)
  then show ?thesis by (simp add: work_units_new algebra_simps)
qed

text \<open>
  Splitting a request never makes its estimate cheaper, and a prompt token served from
  the prefix cache never costs more than one that is not: with a calibrated profile, the
  estimated work units of two requests priced apart are at most those of the one request
  with their tokens joined, and moving \<open>m\<close> prompt tokens from uncached to cached never
  raises the cost.
\<close>

theorem work_units_split_and_cache:
  assumes "coefficients_ok (prof_coefficients p)" and "0 \<le> tpot"
  shows "work_units p (work_breakdown_new u1 c1 d1 (estimate_kv_token_seconds (u1 + c1) d1 tpot))
         + work_units p (work_breakdown_new u2 c2 d2 (estimate_kv_token_seconds (u2 + c2) d2 tpot))
         \<le> work_units p (work_breakdown_new (u1 + u2) (c1 + c2) (d1 + d2)
               (estimate_kv_token_seconds (u1 + c1 + (u2 + c2)) (d1 + d2) tpot))
         \<and> work_units p (work_breakdown_new u1 (c1 + m) d1 kv)
            \<le> work_units p (work_breakdown_new (u1 + m) c1 d1 kv)"
  using work_units_join[OF assms] work_units_cached_le[OF assms(1)] by blast

definition example_profile :: performance_profile where
  "example_profile =
     \<lparr>prof_name = ''test'',
      prof_coefficients = \<lparr>coef_a = 1, coef_b = 1/10, coef_c = 3, coef_d = 1/1000\<rparr>,
      prof_capacity_wu_per_s =
        \<lparr>cap_interactive = 30000, cap_agentic = 35500, cap_standard = 58000\<rparr>\<rparr>"

theorem work_units_split_and_cache_witness:
  "work_units example_profile (work_breakdown_new 1000 500 100 (estimate_kv_token_seconds 1500 100 (1/25)))
   + work_units example_profile (work_breakdown_new 1000 500 100 (estimate_kv_token_seconds 1500 100 (1/25)))
   \<le> work_units example_profile (work_breakdown_new 2000 1000 200 (estimate_kv_token_seconds 3000 200 (1/25)))
   \<and> work_units example_profile (work_breakdown_new 1000 600 100 0)
      \<le> work_units example_profile (work_breakdown_new 1100 500 100 0)"
  using work_units_split_and_cache[of example_profile "1/25" 1000 500 100 1000 500 100 100 0]
  by (simp add: example_profile_def coefficients_ok_def)

text \<open>
  The serialised term length is read back: a term's number of months parses to that term,
  and any number that parses is the number of months of the term it parses to, so only 1, 3
  and 6 are accepted.
\<close>

theorem term_roundtrip:
  "term_try_from (months t) = Inr t \<and> (term_try_from v = Inr t \<longleftrightarrow> v = months t)"
  by (cases t) (auto simp: term_try_from_def)

end
