(* ===== verification/Bucket.thy ===== *)
theory Bucket
  imports PT_Core
begin

text \<open>
  The debt bucket, the burst bank and the boundary policy of \<open>pt-admission\<close>
  (\<open>bucket.rs\<close>, \<open>burst.rs\<close>, \<open>policy.rs\<close>). A bucket refills at the entitlement rate,
  admits on an estimate, may go into bounded debt and is settled with the actual cost. The
  locale \<open>entitlement_meter\<close> states what its clients (the limiter for the provisioned
  bucket, the burst bank for its rate ceiling) rely on, and proves the long-run bound on
  what a bucket lets through; the debt bucket is its instance.
\<close>

section \<open>Debt bucket (bucket.rs)\<close>

record debt_bucket =
  bk_rate :: real
  bk_capacity :: real
  bk_max_debt :: real
  bk_level :: real
  bk_last :: instant

definition max_wait :: duration where
  "max_wait = from_secs 60"

definition bucket_new :: "real \<Rightarrow> real \<Rightarrow> real \<Rightarrow> instant \<Rightarrow> debt_bucket" where
  "bucket_new rate capacity max_debt now =
     \<lparr>bk_rate = rate, bk_capacity = capacity, bk_max_debt = max_debt,
      bk_level = capacity, bk_last = now\<rparr>"

definition refill :: "debt_bucket \<Rightarrow> instant \<Rightarrow> real \<times> debt_bucket" where
  "refill b now =
     (let dt = as_secs_f64 (saturating_duration_since now (bk_last b));
          filled = bk_level b + bk_rate b * dt;
          overflow = max (filled - max (bk_capacity b) (bk_level b)) 0
      in (overflow, b\<lparr>bk_last := max (bk_last b) now, bk_level := min filled (bk_capacity b)\<rparr>))"

definition bucket_level :: "debt_bucket \<Rightarrow> instant \<Rightarrow> real \<times> debt_bucket" where
  "bucket_level b now = (let b' = snd (refill b now) in (bk_level b', b'))"

definition can_admit :: "debt_bucket \<Rightarrow> real \<Rightarrow> bool" where
  "can_admit b wu \<longleftrightarrow>
     0 < bk_level b \<and> (- bk_max_debt b \<le> bk_level b - wu \<or> bk_capacity b \<le> bk_level b)"

definition time_until_admit :: "debt_bucket \<Rightarrow> real \<Rightarrow> panic + duration" where
  "time_until_admit b wu =
     (if can_admit b wu then Inr 0
      else if bk_rate b \<le> 0 then Inr max_wait
      else let target = max (min (wu - bk_max_debt b) (bk_capacity b)) f64_epsilon;
               secs = max ((target - bk_level b) / bk_rate b) 0
           in case from_secs_f64 secs of Inl e \<Rightarrow> Inl e | Inr d \<Rightarrow> Inr (min d max_wait))"

definition set_level :: "debt_bucket \<Rightarrow> real \<Rightarrow> debt_bucket" where
  "set_level b lvl = b\<lparr>bk_level := min lvl (bk_capacity b)\<rparr>"

definition debit :: "debt_bucket \<Rightarrow> real \<Rightarrow> debt_bucket" where
  "debit b wu = b\<lparr>bk_level := bk_level b - wu\<rparr>"

definition bucket_settle :: "debt_bucket \<Rightarrow> real \<Rightarrow> debt_bucket" where
  "bucket_settle b delta = b\<lparr>bk_level := min (bk_level b - delta) (bk_capacity b)\<rparr>"

definition can_take_strict :: "debt_bucket \<Rightarrow> real \<Rightarrow> bool" where
  "can_take_strict b wu \<longleftrightarrow> min wu (bk_capacity b) \<le> bk_level b"

section \<open>Boundary policy (policy.rs)\<close>

record burst_policy =
  max_credit_seconds :: real
  max_rate_multiple :: real
  continuation_reserve :: real

record queue_policy =
  deadline_ms :: nat
  max_depth_wu_seconds :: real

record boundary_policy =
  bp_burst :: "burst_policy option"
  bp_queue :: "queue_policy option"
  bp_spillover :: bool

definition burst_policy_default :: burst_policy where
  "burst_policy_default =
     \<lparr>max_credit_seconds = 60, max_rate_multiple = 2, continuation_reserve = 1/4\<rparr>"

definition queue_policy_default :: queue_policy where
  "queue_policy_default = \<lparr>deadline_ms = 2000, max_depth_wu_seconds = 5\<rparr>"

definition boundary_policy_default :: boundary_policy where
  "boundary_policy_default = \<lparr>bp_burst = None, bp_queue = None, bp_spillover = False\<rparr>"

section \<open>Burst bank (burst.rs)\<close>

record burst_bank =
  bb_credit :: real
  bb_max_credit :: real
  bb_reserve :: real
  bb_ceiling :: debt_bucket

definition burst_new :: "real \<Rightarrow> burst_policy \<Rightarrow> instant \<Rightarrow> burst_bank" where
  "burst_new entitlement_wu_s policy now =
     (let max_credit = entitlement_wu_s * max_credit_seconds policy;
          extra_rate = entitlement_wu_s * max (max_rate_multiple policy - 1) 0
      in \<lparr>bb_credit = 0, bb_max_credit = max_credit,
          bb_reserve = max_credit * clamp 0 1 (continuation_reserve policy),
          bb_ceiling = bucket_new extra_rate extra_rate 0 now\<rparr>)"

text \<open>
  \<open>rescaled\<close> also refills the old bank's ceiling; the caller replaces the old bank by the
  result, so only the result is returned.
\<close>

definition burst_rescaled :: "burst_bank \<Rightarrow> real \<Rightarrow> burst_policy \<Rightarrow> instant \<Rightarrow> burst_bank" where
  "burst_rescaled old entitlement_wu_s policy now =
     (let b = burst_new entitlement_wu_s policy now;
          b = b\<lparr>bb_credit := min (bb_credit old) (bb_max_credit b)\<rparr>
      in b\<lparr>bb_ceiling := set_level (bb_ceiling b) (fst (bucket_level (bb_ceiling old) now))\<rparr>)"

definition burst_accrue :: "burst_bank \<Rightarrow> real \<Rightarrow> burst_bank" where
  "burst_accrue b wu = b\<lparr>bb_credit := min (bb_credit b + wu) (bb_max_credit b)\<rparr>"

definition can_draw :: "burst_bank \<Rightarrow> real \<Rightarrow> bool \<Rightarrow> instant \<Rightarrow> bool \<times> burst_bank" where
  "can_draw b wu continuation now =
     (let b' = b\<lparr>bb_ceiling := snd (refill (bb_ceiling b) now)\<rparr>;
          usable = (if continuation then bb_credit b' else bb_credit b' - bb_reserve b')
      in (wu \<le> usable \<and> can_take_strict (bb_ceiling b') wu, b'))"

definition burst_draw :: "burst_bank \<Rightarrow> real \<Rightarrow> burst_bank" where
  "burst_draw b wu = b\<lparr>bb_credit := bb_credit b - wu, bb_ceiling := debit (bb_ceiling b) wu\<rparr>"

definition burst_settle :: "burst_bank \<Rightarrow> real \<Rightarrow> burst_bank" where
  "burst_settle b delta = b\<lparr>bb_credit := min (bb_credit b - delta) (bb_max_credit b)\<rparr>"

section \<open>The meter contract\<close>

text \<open>
  What a client of a bucket relies on: a refill neither loses nor creates entitlement, a
  debit and a settlement charge exactly their amount (a refund stops at capacity), and
  nothing but a refill moves the clock.
\<close>

datatype meter_op = Refill instant | Debit real | Settle real

fun charged :: "meter_op \<Rightarrow> real" where
  "charged (Refill t) = 0"
| "charged (Debit wu) = wu"
| "charged (Settle delta) = delta"

locale entitlement_meter =
  fixes lvl cap rate :: "'s \<Rightarrow> real"
    and clk :: "'s \<Rightarrow> instant"
    and fill :: "'s \<Rightarrow> instant \<Rightarrow> real \<times> 's"
    and take_wu put_delta :: "'s \<Rightarrow> real \<Rightarrow> 's"
  assumes fill_conserves:
      "lvl s \<le> cap s \<Longrightarrow>
       lvl (snd (fill s t)) + fst (fill s t) = lvl s + rate s * as_secs_f64 (t - clk s)"
    and fill_overflow: "0 \<le> fst (fill s t)"
    and fill_cap: "lvl (snd (fill s t)) \<le> cap s"
    and fill_frame:
      "cap (snd (fill s t)) = cap s" "rate (snd (fill s t)) = rate s"
      "clk (snd (fill s t)) = max (clk s) t"
    and take_lvl: "lvl (take_wu s w) = lvl s - w"
    and take_frame: "cap (take_wu s w) = cap s" "rate (take_wu s w) = rate s" "clk (take_wu s w) = clk s"
    and put_lvl: "lvl (put_delta s d) = min (lvl s - d) (cap s)"
    and put_frame: "cap (put_delta s d) = cap s" "rate (put_delta s d) = rate s" "clk (put_delta s d) = clk s"
begin

lemmas meter_frame = fill_frame take_frame put_frame

definition meter_step :: "'s \<Rightarrow> meter_op \<Rightarrow> 's" where
  "meter_step s m = (case m of Refill t \<Rightarrow> snd (fill s t) | Debit w \<Rightarrow> take_wu s w | Settle d \<Rightarrow> put_delta s d)"

lemma meter_step_frame:
  "cap (meter_step s m) = cap s" "rate (meter_step s m) = rate s" "clk s \<le> clk (meter_step s m)"
  by (cases m; simp add: meter_step_def meter_frame)+

lemma meter_run_frame:
  "cap (foldl meter_step s ops) = cap s" "rate (foldl meter_step s ops) = rate s"
  "clk s \<le> clk (foldl meter_step s ops)"
  by (induction ops arbitrary: s) (auto simp: meter_step_frame intro: order_trans[OF meter_step_frame(3)])

lemma as_secs_add: "c \<le> b \<Longrightarrow> b \<le> a \<Longrightarrow> as_secs_f64 (a - c) = as_secs_f64 (a - b) + as_secs_f64 (b - c)"
  by (simp add: as_secs_f64_def of_nat_diff field_simps)

lemma meter_step_bound:
  assumes "lvl s \<le> cap s" and "\<forall>w. m = Debit w \<longrightarrow> 0 \<le> w"
  shows "lvl (meter_step s m) \<le> cap s"
    and "charged m + lvl (meter_step s m) \<le> lvl s + rate s * as_secs_f64 (clk (meter_step s m) - clk s)"
proof -
  show "lvl (meter_step s m) \<le> cap s"
    using assms by (cases m) (auto simp: meter_step_def fill_cap take_lvl put_lvl)
  show "charged m + lvl (meter_step s m) \<le> lvl s + rate s * as_secs_f64 (clk (meter_step s m) - clk s)"
  proof (cases m)
    case (Refill t)
    have "max (clk s) t - clk s = t - clk s" by simp
    then show ?thesis
      using Refill fill_conserves[OF assms(1), of t] fill_overflow[of s t]
      by (simp add: meter_step_def fill_frame)
  qed (simp_all add: meter_step_def meter_frame take_lvl put_lvl as_secs_f64_def)
qed

lemma meter_run_bound:
  assumes "lvl s \<le> cap s" and "\<forall>w. Debit w \<in> set ops \<longrightarrow> 0 \<le> w"
  shows "lvl (foldl meter_step s ops) \<le> cap s \<and>
         (\<Sum>m\<leftarrow>ops. charged m) + lvl (foldl meter_step s ops)
         \<le> lvl s + rate s * as_secs_f64 (clk (foldl meter_step s ops) - clk s)"
  using assms
proof (induction ops arbitrary: s)
  case Nil
  then show ?case by (simp add: as_secs_f64_def)
next
  case (Cons m ops s)
  let ?s1 = "meter_step s m"
  let ?s2 = "foldl meter_step ?s1 ops"
  have s1: "lvl ?s1 \<le> cap s"
    and step: "charged m + lvl ?s1 \<le> lvl s + rate s * as_secs_f64 (clk ?s1 - clk s)"
    using Cons.prems meter_step_bound[of s m] by auto
  have IH: "lvl ?s2 \<le> cap s \<and> (\<Sum>m\<leftarrow>ops. charged m) + lvl ?s2 \<le> lvl ?s1 + rate s * as_secs_f64 (clk ?s2 - clk ?s1)"
    using Cons.IH[of ?s1] s1 Cons.prems by (simp add: meter_step_frame)
  moreover have "as_secs_f64 (clk ?s2 - clk s) = as_secs_f64 (clk ?s2 - clk ?s1) + as_secs_f64 (clk ?s1 - clk s)"
    by (intro as_secs_add meter_step_frame meter_run_frame)
  ultimately show ?case using step by (simp add: distrib_left)
qed

end

interpretation bucket: entitlement_meter bk_level bk_capacity bk_rate bk_last refill debit bucket_settle
proof unfold_locales
  fix s :: debt_bucket and t :: instant
  assume "bk_level s \<le> bk_capacity s"
  then show "bk_level (snd (refill s t)) + fst (refill s t)
           = bk_level s + bk_rate s * as_secs_f64 (t - bk_last s)"
    by (simp add: refill_def saturating_duration_since_def Let_def min_def max_def)
qed (simp_all add: refill_def debit_def bucket_settle_def Let_def)

definition bucket_run :: "debt_bucket \<Rightarrow> meter_op list \<Rightarrow> debt_bucket" where
  "bucket_run b ops =
     foldl (\<lambda>s m. case m of Refill t \<Rightarrow> snd (refill s t) | Debit w \<Rightarrow> debit s w
                          | Settle d \<Rightarrow> bucket_settle s d) b ops"

lemma bucket_run_meter: "bucket_run b ops = foldl bucket.meter_step b ops"
  by (simp add: bucket_run_def bucket.meter_step_def[abs_def])

section \<open>Properties of the bucket\<close>

lemma refill_level: "bk_level (snd (refill b now)) =
    min (bk_level b + bk_rate b * as_secs_f64 (now - bk_last b)) (bk_capacity b)"
  by (simp add: refill_def saturating_duration_since_def Let_def)

lemma refill_frame [simp]:
  "bk_capacity (snd (refill b now)) = bk_capacity b"
  "bk_rate (snd (refill b now)) = bk_rate b"
  "bk_max_debt (snd (refill b now)) = bk_max_debt b"
  "bk_last (snd (refill b now)) = max (bk_last b) now"
  by (simp_all add: refill_def Let_def)

lemma debit_frame [simp]:
  "bk_capacity (debit b w) = bk_capacity b" "bk_rate (debit b w) = bk_rate b"
  "bk_max_debt (debit b w) = bk_max_debt b" "bk_last (debit b w) = bk_last b"
  "bk_level (debit b w) = bk_level b - w"
  by (simp_all add: debit_def)

lemma bucket_settle_frame [simp]:
  "bk_capacity (bucket_settle b d) = bk_capacity b" "bk_rate (bucket_settle b d) = bk_rate b"
  "bk_max_debt (bucket_settle b d) = bk_max_debt b" "bk_last (bucket_settle b d) = bk_last b"
  "bk_level (bucket_settle b d) = min (bk_level b - d) (bk_capacity b)"
  by (simp_all add: bucket_settle_def)

lemma bucket_new_frame [simp]:
  "bk_rate (bucket_new r c m t) = r" "bk_capacity (bucket_new r c m t) = c"
  "bk_max_debt (bucket_new r c m t) = m" "bk_level (bucket_new r c m t) = c"
  "bk_last (bucket_new r c m t) = t"
  by (simp_all add: bucket_new_def)

lemma set_level_frame [simp]:
  "bk_rate (set_level b l) = bk_rate b" "bk_capacity (set_level b l) = bk_capacity b"
  "bk_max_debt (set_level b l) = bk_max_debt b" "bk_last (set_level b l) = bk_last b"
  "bk_level (set_level b l) = min l (bk_capacity b)"
  by (simp_all add: set_level_def)

text \<open>
  A request is only admitted on entitlement that has been earned: after any sequence of
  refills, charges and settlements on a bucket that started full at \<open>t0\<close>, if the bucket
  can admit a request, then everything charged so far (estimates plus settlements) is below
  one bucket of capacity plus the rate times the elapsed time; and admitting it leaves the
  level at or above the debt bound, or above capacity minus the request for one that needed
  a full bucket.
\<close>

theorem bucket_admits_within_entitlement:
  assumes "0 \<le> capacity" and "\<forall>w. Debit w \<in> set ops \<longrightarrow> 0 \<le> w"
    and "b = bucket_run (bucket_new rate capacity max_debt t0) ops" and "can_admit b wu"
  shows "(\<Sum>m\<leftarrow>ops. charged m) < capacity + rate * as_secs_f64 (bk_last b - t0)
         \<and> min (- max_debt) (capacity - wu) \<le> bk_level (debit b wu)"
proof
  let ?b0 = "bucket_new rate capacity max_debt t0"
  have run: "b = foldl bucket.meter_step ?b0 ops" using assms(3) by (simp add: bucket_run_meter)
  have "(\<Sum>m\<leftarrow>ops. charged m) + bk_level b \<le> capacity + rate * as_secs_f64 (bk_last b - t0)"
    using bucket.meter_run_bound[of ?b0 ops] assms(2) by (simp add: run)
  then show "(\<Sum>m\<leftarrow>ops. charged m) < capacity + rate * as_secs_f64 (bk_last b - t0)"
    using assms(4) by (simp add: can_admit_def)
  have cap: "bk_capacity b = capacity" using bucket.meter_run_frame(1)[of ?b0 ops] by (simp add: run)
  have "bk_max_debt (foldl bucket.meter_step c ops) = bk_max_debt c" for c
    by (induction ops arbitrary: c) (auto simp: bucket.meter_step_def split: meter_op.split)
  then have "bk_max_debt b = max_debt" by (simp add: run)
  then show "min (- max_debt) (capacity - wu) \<le> bk_level (debit b wu)"
    using assms(4) cap by (auto simp: can_admit_def)
qed

theorem bucket_admits_within_entitlement_witness:
  "(80 - 30 :: real) < 100 + 100 * as_secs_f64 500000000
   \<and> min (- 200) (100 - 250) \<le>
       bk_level (debit (bucket_run (bucket_new 100 100 200 0) [Debit 80, Settle (- 30), Refill 500000000]) 250)"
  using bucket_admits_within_entitlement
    [of 100 "[Debit 80, Settle (- 30), Refill 500000000]" _ 100 200 0 250, OF _ _ refl]
  by (simp add: bucket_run_def bucket_new_def debit_def bucket_settle_def refill_def can_admit_def
      saturating_duration_since_def as_secs_f64_def)

lemma time_until_admit_InrD:
  assumes "time_until_admit b wu = Inr d" and "\<not> can_admit b wu" and "0 < bk_rate b"
  obtains e secs where "secs = max ((max (min (wu - bk_max_debt b) (bk_capacity b)) f64_epsilon - bk_level b) / bk_rate b) 0"
    and "from_secs_f64 secs = Inr e" and "d = min e max_wait"
  using assms by (auto simp: time_until_admit_def Let_def split: if_splits sum.splits)

lemma not_admit_below_target:
  assumes "f64_epsilon \<le> min (wu - bk_max_debt b) (bk_capacity b)"
    and "bk_level b < min (wu - bk_max_debt b) (bk_capacity b)"
  shows "\<not> can_admit b wu"
  using assms by (auto simp: can_admit_def)

lemma admit_at_target:
  assumes "f64_epsilon \<le> bk_capacity b"
    and "min (max (min (wu - bk_max_debt b) (bk_capacity b)) f64_epsilon) (bk_capacity b) \<le> bk_level b"
  shows "can_admit b wu"
proof -
  have "0 < bk_level b" using assms f64_epsilon_pos by linarith
  then show ?thesis using assms by (auto simp: can_admit_def)
qed

text \<open>
  The announced wait is right to the nanosecond: for a bucket that cannot admit a request
  now and whose threshold is at least \<open>f64::EPSILON\<close>, no refill before the wait has passed
  admits it, and every refill one nanosecond after a wait below the 60 s cap does. (The
  conversion to whole nanoseconds may round the wait down by half of one.)
\<close>

theorem time_until_admit_exact:
  assumes "time_until_admit b wu = Inr d" and "\<not> can_admit b wu" and "0 < bk_rate b"
    and "f64_epsilon \<le> min (wu - bk_max_debt b) (bk_capacity b)"
  shows "(\<forall>now. now < bk_last b + d \<longrightarrow> \<not> can_admit (snd (refill b now)) wu)
         \<and> (\<forall>now. bk_last b + d < now \<and> d < max_wait \<longrightarrow> can_admit (snd (refill b now)) wu)"
proof -
  define target where "target = min (wu - bk_max_debt b) (bk_capacity b)"
  from assms(1-3) obtain e secs where secs: "secs = max ((max target f64_epsilon - bk_level b) / bk_rate b) 0"
    and e: "from_secs_f64 secs = Inr e" and d: "d = min e max_wait"
    unfolding target_def by (elim time_until_admit_InrD)
  have tgt: "max target f64_epsilon = target" using assms(4) by (simp add: target_def)
  have below: "bk_level b < target"
  proof (rule ccontr)
    assume "\<not> bk_level b < target"
    then have "can_admit b wu"
      using tgt assms(4) by (intro admit_at_target) (auto simp: target_def)
    with assms(2) show False by simp
  qed
  with tgt have secs': "secs * bk_rate b = target - bk_level b" and pos: "0 < secs"
    using secs assms(3) by auto
  have early: "\<not> can_admit (snd (refill b now)) wu" if "now < bk_last b + d" for now
  proof -
    have "real (now - bk_last b) < secs * 1000000000"
    proof (cases "now \<le> bk_last b")
      case True
      then show ?thesis using pos by simp
    next
      case False
      with that have "real (now - bk_last b) \<le> real d - 1" by linarith
      also have "\<dots> < secs * 1000000000" using from_secs_f64_InrD(3)[OF e] d by (simp add: min_def)
      finally show ?thesis .
    qed
    then have "as_secs_f64 (now - bk_last b) < secs" by (simp add: as_secs_f64_def)
    then have "as_secs_f64 (now - bk_last b) * bk_rate b < secs * bk_rate b"
      using assms(3) by (rule mult_strict_right_mono)
    then have "bk_rate b * as_secs_f64 (now - bk_last b) < target - bk_level b"
      using secs' by (simp add: mult.commute)
    then show ?thesis
      using assms(4) by (intro not_admit_below_target) (auto simp: target_def refill_level)
  qed
  have late: "can_admit (snd (refill b now)) wu" if "bk_last b + d < now" "d < max_wait" for now
  proof -
    have "e = d" using that(2) d by simp
    then have "secs * 1000000000 < real d + 1" using from_secs_f64_InrD(2)[OF e] by simp
    also have "\<dots> \<le> real (now - bk_last b)" using that(1) by linarith
    finally have "secs \<le> as_secs_f64 (now - bk_last b)" by (simp add: as_secs_f64_def)
    then have "bk_rate b * secs \<le> bk_rate b * as_secs_f64 (now - bk_last b)"
      using assms(3) by simp
    then have "target \<le> bk_level b + bk_rate b * as_secs_f64 (now - bk_last b)"
      using secs' by (simp add: mult.commute)
    then show ?thesis
      using assms(4) tgt by (intro admit_at_target) (auto simp: target_def refill_level)
  qed
  from early late show ?thesis by blast
qed

definition drained_bucket :: debt_bucket where
  "drained_bucket = debit (bucket_new 100 100 0 0) 200"

theorem time_until_admit_exact_witness:
  "time_until_admit drained_bucket 50 = Inr 1500000000
   \<and> \<not> can_admit (snd (refill drained_bucket 1499999999)) 50
   \<and> can_admit (snd (refill drained_bucket 1500000001)) 50"
proof -
  have w: "time_until_admit drained_bucket 50 = Inr 1500000000"
    by (simp add: time_until_admit_def drained_bucket_def debit_def bucket_new_def can_admit_def
        f64_epsilon_def from_secs_f64_def round_ties_even_def max_wait_def from_secs_def Let_def max_def)
  have n: "\<not> can_admit drained_bucket 50" "0 < bk_rate drained_bucket"
    "f64_epsilon \<le> min (50 - bk_max_debt drained_bucket) (bk_capacity drained_bucket)"
    by (simp_all add: drained_bucket_def debit_def bucket_new_def can_admit_def f64_epsilon_def)
  have "bk_last drained_bucket = 0" by (simp add: drained_bucket_def)
  with time_until_admit_exact[OF w n] w show ?thesis
    by (simp add: max_wait_def from_secs_def)
qed

text \<open>
  The 60 s cap on a wait does not protect the conversion it is applied after: whenever the
  projected wait is at least two to the 64 seconds (a tiny rate against a deep debt),
  computing the wait panics, although the cap is there so that tiny or zero rates never
  overflow a duration. A zero rate is handled, and below that bound there is no panic.
\<close>

theorem time_until_admit_panics_iff_too_far:
  defines "secs \<equiv> \<lambda>b wu. (max (min (wu - bk_max_debt b) (bk_capacity b)) f64_epsilon - bk_level b) / bk_rate b"
  shows "(\<not> can_admit b wu \<and> 0 < bk_rate b \<and> 18446744073709551616 \<le> secs b wu
            \<longrightarrow> time_until_admit b wu = Inl DurationOverflow)
         \<and> (bk_rate b \<le> 0 \<or> secs b wu < 18446744073709551615
            \<longrightarrow> (\<exists>d. time_until_admit b wu = Inr d \<and> d \<le> max_wait))"
proof (intro conjI impI)
  assume h: "\<not> can_admit b wu \<and> 0 < bk_rate b \<and> 18446744073709551616 \<le> secs b wu"
  then have "max (secs b wu) 0 = secs b wu" by simp
  then show "time_until_admit b wu = Inl DurationOverflow"
    using h from_secs_f64_overflow[of "secs b wu"]
    by (simp add: time_until_admit_def secs_def Let_def)
next
  assume h: "bk_rate b \<le> 0 \<or> secs b wu < 18446744073709551615"
  show "\<exists>d. time_until_admit b wu = Inr d \<and> d \<le> max_wait"
  proof (cases "can_admit b wu \<or> bk_rate b \<le> 0")
    case True
    then show ?thesis by (auto simp: time_until_admit_def)
  next
    case False
    with h obtain d where "from_secs_f64 (max (secs b wu) 0) = Inr d"
      using from_secs_f64_fits[of "max (secs b wu) 0"] by auto
    with False show ?thesis by (simp add: time_until_admit_def secs_def Let_def)
  qed
qed

theorem time_until_admit_panics_witness:
  "time_until_admit (debit (bucket_new (1 / 10 ^ 18) 100 0 0) 200) 50 = Inl DurationOverflow"
  using time_until_admit_panics_iff_too_far[of "debit (bucket_new (1 / 10 ^ 18) 100 0 0) 200" 50]
  by (simp add: debit_def bucket_new_def can_admit_def f64_epsilon_def max_def)

section \<open>Properties of the burst bank\<close>

text \<open>What happens to a bank between resizes, with the WU drawn so far.\<close>

datatype burst_event = BDraw instant real bool | BAccrue real | BSettle real

fun burst_step :: "burst_bank \<times> real \<Rightarrow> burst_event \<Rightarrow> burst_bank \<times> real" where
  "burst_step (b, spent) (BDraw now wu cont) =
     (case can_draw b wu cont now of
        (True, b') \<Rightarrow> (burst_draw b' wu, spent + wu)
      | (False, b') \<Rightarrow> (b', spent))"
| "burst_step (b, spent) (BAccrue wu) = (burst_accrue b wu, spent)"
| "burst_step (b, spent) (BSettle delta) = (burst_settle b delta, spent)"

definition ceiling_inv :: "instant \<Rightarrow> real \<Rightarrow> debt_bucket \<Rightarrow> real \<Rightarrow> bool" where
  "ceiling_inv t0 r c spent \<longleftrightarrow>
     bk_rate c = r \<and> bk_capacity c = r \<and> 0 \<le> bk_level c \<and> bk_level c \<le> r \<and> t0 \<le> bk_last c \<and>
     spent + bk_level c \<le> r + r * as_secs_f64 (bk_last c - t0)"

lemma ceiling_inv_refill:
  assumes "ceiling_inv t0 r c spent" and "0 \<le> r"
  shows "ceiling_inv t0 r (snd (refill c now)) spent"
proof -
  have "bk_level (snd (refill c now)) \<le> bk_level c + r * as_secs_f64 (now - bk_last c)"
    using assms by (simp add: refill_level ceiling_inv_def)
  moreover have "as_secs_f64 (max (bk_last c) now - t0) = as_secs_f64 (bk_last c - t0) + as_secs_f64 (now - bk_last c)"
    using assms by (auto simp: ceiling_inv_def as_secs_f64_def max_def of_nat_diff field_simps)
  moreover have "0 \<le> r * as_secs_f64 (now - bk_last c)" using assms(2) by (simp add: as_secs_f64_def)
  ultimately show ?thesis
    using assms unfolding ceiling_inv_def by (simp add: refill_level distrib_left) linarith
qed

lemma ceiling_inv_debit:
  assumes "ceiling_inv t0 r c spent" and "can_take_strict c wu" and "0 \<le> wu" and "wu \<le> r"
  shows "ceiling_inv t0 r (debit c wu) (spent + wu)"
  using assms by (auto simp: ceiling_inv_def can_take_strict_def)

lemma burst_step_ceiling:
  assumes "ceiling_inv t0 r (bb_ceiling b) spent" and "0 \<le> r"
    and "\<forall>now wu cont. ev = BDraw now wu cont \<longrightarrow> 0 \<le> wu \<and> wu \<le> r"
    and "burst_step (b, spent) ev = (b', spent')"
  shows "ceiling_inv t0 r (bb_ceiling b') spent'"
proof (cases ev)
  case (BDraw now wu cont)
  have "ceiling_inv t0 r (snd (refill (bb_ceiling b) now)) spent"
    by (rule ceiling_inv_refill[OF assms(1,2)])
  then show ?thesis
    using assms(3,4) BDraw
    by (auto simp: can_draw_def Let_def burst_draw_def split: if_splits bool.splits intro: ceiling_inv_debit)
qed (use assms in \<open>auto simp: burst_accrue_def burst_settle_def\<close>)

text \<open>
  The burst rate ceiling holds: starting from a new bank, over any sequence of draw
  attempts (each of at most one second of the extra rate), credit accruals and settlements,
  the WU drawn are at most one second of the extra rate plus the extra rate times the time
  to the last attempt, where the extra rate is the entitlement times the rate multiple less
  one. Attempts may come in any order of instants.
\<close>

theorem burst_rate_ceiling:
  assumes "extra = entitlement * max (max_rate_multiple policy - 1) 0" and "0 \<le> extra"
    and "\<forall>now wu cont. BDraw now wu cont \<in> set evs \<longrightarrow> 0 \<le> wu \<and> wu \<le> extra"
    and "foldl burst_step (burst_new entitlement policy t0, 0) evs = (b, spent)"
  shows "spent \<le> extra + extra * as_secs_f64 (bk_last (bb_ceiling b) - t0)"
proof -
  have "ceiling_inv t0 extra (bb_ceiling b') spent'"
    if "ceiling_inv t0 extra (bb_ceiling c) s" "foldl burst_step (c, s) evs = (b', spent')"
    for c s b' spent'
    using that assms(3)
  proof (induction evs arbitrary: c s)
    case (Cons ev evs)
    obtain c1 s1 where st: "burst_step (c, s) ev = (c1, s1)" by (cases "burst_step (c, s) ev")
    then have "ceiling_inv t0 extra (bb_ceiling c1) s1"
      using Cons.prems by (intro burst_step_ceiling[OF Cons.prems(1) assms(2) _ st]) auto
    then show ?case using Cons.IH[of c1 s1] Cons.prems st by auto
  qed simp
  moreover have "ceiling_inv t0 extra (bb_ceiling (burst_new entitlement policy t0)) 0"
    using assms(1,2) by (simp add: ceiling_inv_def burst_new_def Let_def as_secs_f64_def)
  ultimately have "ceiling_inv t0 extra (bb_ceiling b) spent" using assms(4) by blast
  then show ?thesis by (simp add: ceiling_inv_def)
qed

theorem burst_rate_ceiling_witness:
  "snd (foldl burst_step (burst_new 100 burst_policy_default 0, 0)
         [BAccrue 1000, BDraw 0 100 True, BDraw 0 10 True, BDraw 100000000 10 True]) = 110
   \<and> (110 :: real) \<le> 100 + 100 * as_secs_f64 100000000"
  using burst_rate_ceiling[of 100 100 burst_policy_default
      "[BAccrue 1000, BDraw 0 100 True, BDraw 0 10 True, BDraw 100000000 10 True]" 0]
  by (simp add: burst_policy_default_def burst_new_def burst_accrue_def can_draw_def burst_draw_def
      can_take_strict_def debit_def refill_def bucket_new_def saturating_duration_since_def
      as_secs_f64_def clamp_def Let_def)

text \<open>
  Credit is protected: a draw that is allowed leaves at least the continuation reserve for a
  new session and at least zero for a continuation; and a resize keeps credit and ceiling,
  so it never raises either.
\<close>

theorem burst_credit_protected:
  assumes "can_draw b wu cont now = (True, b')"
  shows "(if cont then 0 else bb_reserve b) \<le> bb_credit (burst_draw b' wu)
         \<and> bb_credit (burst_rescaled b e policy t) \<le> bb_credit b
         \<and> bk_level (bb_ceiling (burst_rescaled b e policy t)) \<le> bk_level (snd (refill (bb_ceiling b) t))"
  using assms
  by (auto simp: can_draw_def burst_draw_def burst_rescaled_def burst_new_def bucket_level_def Let_def)

theorem burst_credit_protected_witness:
  "fst (can_draw ((burst_new 100 burst_policy_default 0)\<lparr>bb_credit := 1600\<rparr>) 50 False 0)
   \<and> 1500 \<le> bb_credit (burst_draw (snd (can_draw ((burst_new 100 burst_policy_default 0)\<lparr>bb_credit := 1600\<rparr>) 50 False 0)) 50)"
proof -
  let ?b = "(burst_new 100 burst_policy_default 0)\<lparr>bb_credit := 1600\<rparr>"
  have ok: "fst (can_draw ?b 50 False 0)"
    by (simp add: burst_policy_default_def burst_new_def can_draw_def can_take_strict_def
        refill_def bucket_new_def saturating_duration_since_def as_secs_f64_def clamp_def Let_def)
  then have "can_draw ?b 50 False 0 = (True, snd (can_draw ?b 50 False 0))"
    by (cases "can_draw ?b 50 False 0") simp
  from burst_credit_protected[OF this] ok show ?thesis
    by (simp add: burst_policy_default_def burst_new_def clamp_def Let_def)
qed

text \<open>
  With a rate multiple of exactly one (which validation accepts) the extra rate is zero, yet
  a fresh bank still lets a single draw of any size through as soon as it has the credit:
  the ceiling's level is zero, its capacity is zero, and the strict check only asks for the
  smaller of request and capacity. So provisioned plus burst can exceed the entitlement.
\<close>

theorem burst_multiple_one_lets_one_through:
  assumes "max_rate_multiple policy = 1" and "0 \<le> wu" and "wu \<le> entitlement * max_credit_seconds policy"
  shows "fst (can_draw (burst_accrue (burst_new entitlement policy t0) wu) wu True now)
         \<and> bk_rate (bb_ceiling (burst_new entitlement policy t0)) = 0"
  using assms
  by (simp add: can_draw_def burst_accrue_def burst_new_def can_take_strict_def refill_level Let_def)

theorem burst_multiple_one_lets_one_through_witness:
  "fst (can_draw (burst_accrue (burst_new 100 (burst_policy_default\<lparr>max_rate_multiple := 1\<rparr>) 0) 6000) 6000 True 0)
   \<and> bk_rate (bb_ceiling (burst_new 100 (burst_policy_default\<lparr>max_rate_multiple := 1\<rparr>) 0)) = 0"
  by (rule burst_multiple_one_lets_one_through) (simp_all add: burst_policy_default_def)

end
