(* ===== verification/Limiter.thy ===== *)
theory Limiter
  imports Bucket
begin

text \<open>
  Per-reservation admission (\<open>limiter.rs\<close> of \<open>pt-admission\<close>): the provisioned bucket and
  the chain of boundary policies burst, queue, spillover, reject. Every method takes the
  lock for its whole body, so each is one atomic step; the operations are state-passing
  functions, and \<open>admit\<close> returns the panic of \<open>time_until_admit\<close> as a value beside the
  state it leaves behind (the lock recovers from poisoning). The step relation at the end
  interleaves them with the queue slots callers hold.
\<close>

section \<open>Model (limiter.rs)\<close>

record limiter_config =
  entitlement_wu_s :: real
  capacity_s :: real
  max_debt_s :: real

definition limiter_config_new :: "real \<Rightarrow> limiter_config" where
  "limiter_config_new e = \<lparr>entitlement_wu_s = e, capacity_s = 1, max_debt_s = 2\<rparr>"

record admit_request =
  estimated_wu :: real
  continuation :: bool
  received_at :: instant

record admit_ticket =
  tk_class :: traffic_class
  tk_estimated_wu :: real
  tk_queued_for :: duration

record queue_slot =
  slot_wait :: duration
  slot_wu :: real

datatype decision = Admit admit_ticket | Queue queue_slot | Reject reject_reason duration

record limiter_status =
  ls_entitlement_wu_s :: real
  ls_level_wu :: real
  ls_burst_credit_wu :: "real option"
  ls_queued_wu :: real

record limiter_state =
  lm_config :: limiter_config
  lm_policy :: boundary_policy
  lm_provisioned :: debt_bucket
  lm_burst :: "burst_bank option"
  lm_queued_wu :: real
  lm_attempted_wu :: real

definition state_refill :: "limiter_state \<Rightarrow> instant \<Rightarrow> limiter_state" where
  "state_refill st now =
     (let (overflow, prov) = refill (lm_provisioned st) now
      in st\<lparr>lm_provisioned := prov,
            lm_burst := map_option (\<lambda>b. burst_accrue b overflow) (lm_burst st)\<rparr>)"

definition limiter_new :: "limiter_config \<Rightarrow> boundary_policy \<Rightarrow> instant \<Rightarrow> limiter_state" where
  "limiter_new config policy now =
     (let rate = entitlement_wu_s config
      in \<lparr>lm_config = config, lm_policy = policy,
          lm_provisioned = bucket_new rate (rate * capacity_s config) (rate * max_debt_s config) now,
          lm_burst = map_option (\<lambda>p. burst_new rate p now) (bp_burst policy),
          lm_queued_wu = 0, lm_attempted_wu = 0\<rparr>)"

definition reconfigure :: "limiter_state \<Rightarrow> limiter_config \<Rightarrow> boundary_policy \<Rightarrow> instant \<Rightarrow> limiter_state" where
  "reconfigure st config policy now =
     (if lm_config st = config \<and> lm_policy st = policy then st
      else let st = state_refill st now;
               rate = entitlement_wu_s config;
               (lvl, old) = bucket_level (lm_provisioned st) now;
               provisioned = set_level (bucket_new rate (rate * capacity_s config)
                                          (rate * max_debt_s config) now) lvl;
               burst = (case (lm_burst st, bp_burst policy) of
                          (Some old, Some p) \<Rightarrow> Some (burst_rescaled old rate p now)
                        | (None, Some p) \<Rightarrow> Some (burst_new rate p now)
                        | (_, None) \<Rightarrow> None)
           in st\<lparr>lm_provisioned := provisioned, lm_burst := burst,
                 lm_config := config, lm_policy := policy\<rparr>)"

definition take_attempted_wu :: "limiter_state \<Rightarrow> real \<times> limiter_state" where
  "take_attempted_wu st = (lm_attempted_wu st, st\<lparr>lm_attempted_wu := 0\<rparr>)"

text \<open>\<open>impl Drop for QueueSlot\<close>: leaving the queue releases the slot's depth.\<close>

definition drop_slot :: "limiter_state \<Rightarrow> queue_slot \<Rightarrow> limiter_state" where
  "drop_slot st s = st\<lparr>lm_queued_wu := max (lm_queued_wu st - slot_wu s) 0\<rparr>"

definition admitted :: "traffic_class \<Rightarrow> real \<Rightarrow> duration \<Rightarrow> decision" where
  "admitted cls wu queued_for =
     Admit \<lparr>tk_class = cls, tk_estimated_wu = wu, tk_queued_for = queued_for\<rparr>"

text \<open>The tail of \<open>admit\<close>, once neither bucket nor burst credit covers the request.\<close>

definition spill_or_reject :: "limiter_state \<Rightarrow> real \<Rightarrow> duration \<Rightarrow> reject_reason \<Rightarrow> duration \<Rightarrow> decision" where
  "spill_or_reject st wu queued_for reason retry_after =
     (if bp_spillover (lm_policy st) then admitted Spillover wu queued_for
      else Reject reason retry_after)"

definition over_entitlement ::
  "limiter_state \<Rightarrow> admit_request \<Rightarrow> instant \<Rightarrow> duration \<Rightarrow> duration \<Rightarrow> decision \<times> limiter_state" where
  "over_entitlement st req now queued_for retry_after =
     (let wu = estimated_wu req in
      case bp_queue (lm_policy st) of
        None \<Rightarrow> (spill_or_reject st wu queued_for EntitlementExhausted retry_after, st)
      | Some q \<Rightarrow>
          (let deadline = received_at req + from_millis (deadline_ms q);
               remaining = saturating_duration_since deadline now;
               max_depth = max_depth_wu_seconds q * entitlement_wu_s (lm_config st)
           in if remaining < retry_after
              then (spill_or_reject st wu queued_for QueueDeadline retry_after, st)
              else if max_depth < lm_queued_wu st + wu
              then (spill_or_reject st wu queued_for QueueFull retry_after, st)
              else (Queue \<lparr>slot_wait = max (min retry_after (from_millis 50)) (from_millis 1),
                           slot_wu = wu\<rparr>,
                    st\<lparr>lm_queued_wu := lm_queued_wu st + wu\<rparr>)))"

text \<open>
  \<open>admit\<close> leaves the queue first, refills and counts a first attempt; then it walks the
  policy chain on that state.
\<close>

definition admit_pre :: "limiter_state \<Rightarrow> admit_request \<Rightarrow> queue_slot option \<Rightarrow> instant \<Rightarrow> limiter_state" where
  "admit_pre st req slot now =
     (let st = (case slot of Some s \<Rightarrow> drop_slot st s | None \<Rightarrow> st);
          st = state_refill st now
      in if slot = None then st\<lparr>lm_attempted_wu := lm_attempted_wu st + estimated_wu req\<rparr> else st)"

definition admit_chain :: "limiter_state \<Rightarrow> admit_request \<Rightarrow> instant \<Rightarrow> (panic + decision) \<times> limiter_state" where
  "admit_chain st req now =
     (let queued_for = saturating_duration_since now (received_at req);
          wu = estimated_wu req
      in if can_admit (lm_provisioned st) wu
         then (Inr (admitted Provisioned wu queued_for),
               st\<lparr>lm_provisioned := debit (lm_provisioned st) wu\<rparr>)
         else case map_option (\<lambda>b. can_draw b wu (continuation req) now) (lm_burst st) of
           Some (True, b) \<Rightarrow>
             (Inr (admitted Burst wu queued_for), st\<lparr>lm_burst := Some (burst_draw b wu)\<rparr>)
         | other \<Rightarrow>
             (let st = (case other of Some (_, b) \<Rightarrow> st\<lparr>lm_burst := Some b\<rparr> | None \<Rightarrow> st)
              in case time_until_admit (lm_provisioned st) wu of
                   Inl e \<Rightarrow> (Inl e, st)
                 | Inr retry_after \<Rightarrow>
                     (let (d, st) = over_entitlement st req now queued_for retry_after
                      in (Inr d, st))))"

definition admit ::
  "limiter_state \<Rightarrow> admit_request \<Rightarrow> queue_slot option \<Rightarrow> instant \<Rightarrow> (panic + decision) \<times> limiter_state" where
  "admit st req slot now = admit_chain (admit_pre st req slot now) req now"

definition limiter_settle :: "limiter_state \<Rightarrow> admit_ticket \<Rightarrow> real \<Rightarrow> instant \<Rightarrow> limiter_state" where
  "limiter_settle st ticket actual_wu now =
     (let delta = actual_wu - tk_estimated_wu ticket;
          st = state_refill st now
      in case tk_class ticket of
           Provisioned \<Rightarrow> st\<lparr>lm_provisioned := bucket_settle (lm_provisioned st) delta\<rparr>
         | Burst \<Rightarrow> st\<lparr>lm_burst := map_option (\<lambda>b. burst_settle b delta) (lm_burst st)\<rparr>
         | Spillover \<Rightarrow> st
         | Payg \<Rightarrow> st)"

definition limiter_status :: "limiter_state \<Rightarrow> instant \<Rightarrow> limiter_status \<times> limiter_state" where
  "limiter_status st now =
     (let st = state_refill st now;
          (lvl, prov) = bucket_level (lm_provisioned st) now;
          st = st\<lparr>lm_provisioned := prov\<rparr>
      in (\<lparr>ls_entitlement_wu_s = entitlement_wu_s (lm_config st), ls_level_wu = lvl,
           ls_burst_credit_wu = map_option bb_credit (lm_burst st),
           ls_queued_wu = lm_queued_wu st\<rparr>, st))"

section \<open>What a decision charges\<close>

lemma state_refill_sel [simp]:
  "lm_config (state_refill st now) = lm_config st"
  "lm_policy (state_refill st now) = lm_policy st"
  "lm_queued_wu (state_refill st now) = lm_queued_wu st"
  "lm_attempted_wu (state_refill st now) = lm_attempted_wu st"
  "lm_provisioned (state_refill st now) = snd (refill (lm_provisioned st) now)"
  by (simp_all add: state_refill_def split_beta)

lemma refill_twice [simp]: "refill (snd (refill b now)) now = (0, snd (refill b now))"
  by (simp add: refill_def saturating_duration_since_def as_secs_f64_def Let_def min_def)

lemma over_entitlement_frame:
  assumes "over_entitlement st req now qf ra = (d, st')"
  shows "st' = st\<lparr>lm_queued_wu := lm_queued_wu st'\<rparr>"
    and "lm_queued_wu st' = (case d of Queue s \<Rightarrow> lm_queued_wu st + slot_wu s | _ \<Rightarrow> lm_queued_wu st)"
    and "\<And>s. d = Queue s \<Longrightarrow> slot_wu s = estimated_wu req"
  using assms
  by (auto simp: over_entitlement_def spill_or_reject_def admitted_def Let_def split: option.splits if_splits)

lemma over_entitlement_class:
  assumes "over_entitlement st req now qf ra = (d, st')"
  shows "d = Admit tk \<Longrightarrow> tk_class tk = Spillover \<and> bp_spillover (lm_policy st)"
    and "d = Reject r w \<Longrightarrow> \<not> bp_spillover (lm_policy st) \<and> w = ra"
  using assms
  by (auto simp: over_entitlement_def spill_or_reject_def admitted_def Let_def split: option.splits if_splits)

text \<open>The cases of \<open>admit\<close>: who took the request on the state before the chain.\<close>

lemma admit_cases:
  assumes "admit st req slot now = (r, st')"
  defines "st0 \<equiv> admit_pre st req slot now" and "qf \<equiv> now - received_at req" and "wu \<equiv> estimated_wu req"
  obtains
    (prov) "can_admit (lm_provisioned st0) wu" "r = Inr (admitted Provisioned wu qf)"
      "st' = st0\<lparr>lm_provisioned := debit (lm_provisioned st0) wu\<rparr>"
  | (burst) b b' where "\<not> can_admit (lm_provisioned st0) wu" "lm_burst st0 = Some b"
      "can_draw b wu (continuation req) now = (True, b')" "r = Inr (admitted Burst wu qf)"
      "st' = st0\<lparr>lm_burst := Some (burst_draw b' wu)\<rparr>"
  | (panic) e st1 where "\<not> can_admit (lm_provisioned st0) wu"
      "st1 = st0\<lparr>lm_burst := map_option (\<lambda>b. snd (can_draw b wu (continuation req) now)) (lm_burst st0)\<rparr>"
      "time_until_admit (lm_provisioned st0) wu = Inl e" "r = Inl e" "st' = st1"
  | (over) ra d st1 where "\<not> can_admit (lm_provisioned st0) wu"
      "st1 = st0\<lparr>lm_burst := map_option (\<lambda>b. snd (can_draw b wu (continuation req) now)) (lm_burst st0)\<rparr>"
      "time_until_admit (lm_provisioned st0) wu = Inr ra"
      "over_entitlement st1 req now qf ra = (d, st')" "r = Inr d"
      "\<And>b. lm_burst st0 = Some b \<Longrightarrow> \<not> fst (can_draw b wu (continuation req) now)"
proof -
  have ch: "admit_chain st0 req now = (r, st')" using assms(1) by (simp add: admit_def st0_def)
  let ?st1 = "st0\<lparr>lm_burst := map_option (\<lambda>b. snd (can_draw b wu (continuation req) now)) (lm_burst st0)\<rparr>"
  let ?draw = "\<exists>b. lm_burst st0 = Some b \<and> fst (can_draw b wu (continuation req) now)"
  consider (p) "can_admit (lm_provisioned st0) wu"
    | (b) "\<not> can_admit (lm_provisioned st0) wu" ?draw
    | (o) "\<not> can_admit (lm_provisioned st0) wu" "\<not> ?draw" by blast
  then show ?thesis
  proof cases
    case p
    then show ?thesis
      using ch by (intro prov) (auto simp: admit_chain_def saturating_duration_since_def qf_def wu_def Let_def)
  next
    case b
    then obtain bk b' where bk: "lm_burst st0 = Some bk" "can_draw bk wu (continuation req) now = (True, b')"
      by (metis prod.collapse)
    then show ?thesis
      using ch b(1)
      by (intro burst[OF b(1) bk]) (auto simp: admit_chain_def saturating_duration_since_def qf_def wu_def Let_def)
  next
    case o
    have eq: "(r, st') = (case time_until_admit (lm_provisioned st0) wu of
        Inl e \<Rightarrow> (Inl e, ?st1)
      | Inr ra \<Rightarrow> (let (d, st) = over_entitlement ?st1 req now qf ra in (Inr d, st)))"
    proof (cases "lm_burst st0")
      case None
      then have st1: "?st1 = st0" by simp
      show ?thesis
        unfolding st1 using None o ch
        by (auto simp: admit_chain_def Let_def saturating_duration_since_def qf_def wu_def split: sum.splits)
    next
      case (Some bk)
      with o obtain b' where "can_draw bk wu (continuation req) now = (False, b')"
        by (cases "can_draw bk wu (continuation req) now") auto
      with Some o ch show ?thesis
        by (auto simp: admit_chain_def Let_def saturating_duration_since_def qf_def wu_def split: sum.splits)
    qed
    show ?thesis
    proof (cases "time_until_admit (lm_provisioned st0) wu")
      case (Inl e)
      show ?thesis by (rule panic[OF o(1) refl Inl]) (use eq Inl in simp_all)
    next
      case (Inr ra)
      obtain d s2 where ov: "over_entitlement ?st1 req now qf ra = (d, s2)" by fastforce
      show ?thesis by (rule over[OF o(1) refl Inr]) (use eq Inr ov o(2) in auto)
    qed
  qed
qed

lemma admit_pre_sel [simp]:
  "lm_config (admit_pre st req slot now) = lm_config st"
  "lm_policy (admit_pre st req slot now) = lm_policy st"
  "lm_provisioned (admit_pre st req slot now) = snd (refill (lm_provisioned st) now)"
  "lm_queued_wu (admit_pre st req slot now) =
     (case slot of Some s \<Rightarrow> max (lm_queued_wu st - slot_wu s) 0 | None \<Rightarrow> lm_queued_wu st)"
  "lm_attempted_wu (admit_pre st req slot now) =
     lm_attempted_wu st + (if slot = None then estimated_wu req else 0)"
  "lm_burst (admit_pre st req slot now) = lm_burst (state_refill st now)"
  by (simp_all add: admit_pre_def drop_slot_def state_refill_def split_beta Let_def split: option.split)

lemma can_draw_credit [simp]: "bb_credit (snd (can_draw b wu c now)) = bb_credit b"
  by (simp add: can_draw_def Let_def)

definition credit_of :: "limiter_state \<Rightarrow> real option" where
  "credit_of st = map_option bb_credit (lm_burst st)"

text \<open>
  Each admission decision charges exactly one account, by exactly the estimate: a
  provisioned admission the bucket, a burst admission the credit, and queueing, spilling or
  rejecting neither (relative to the state refilled to now). Spillover happens only when
  the policy allows it, a rejection only when it does not, and the demand signal counts a
  request on its first attempt and on no re-check.
\<close>

theorem admit_charges_one_account:
  assumes "admit st req slot now = (Inr d, st')"
  defines "lvl \<equiv> bk_level (snd (refill (lm_provisioned st) now))"
    and "cr \<equiv> credit_of (state_refill st now)" and "wu \<equiv> estimated_wu req"
  shows "lm_attempted_wu st' = lm_attempted_wu st + (if slot = None then wu else 0)
    \<and> (case d of
         Admit tk \<Rightarrow> tk_estimated_wu tk = wu \<and>
           (case tk_class tk of
              Provisioned \<Rightarrow> bk_level (lm_provisioned st') = lvl - wu \<and> credit_of st' = cr
            | Burst \<Rightarrow> bk_level (lm_provisioned st') = lvl \<and> credit_of st' = map_option (\<lambda>c. c - wu) cr \<and> cr \<noteq> None
            | Spillover \<Rightarrow> bk_level (lm_provisioned st') = lvl \<and> credit_of st' = cr \<and> bp_spillover (lm_policy st)
            | Payg \<Rightarrow> False)
       | Queue s \<Rightarrow> bk_level (lm_provisioned st') = lvl \<and> credit_of st' = cr \<and> slot_wu s = wu
       | Reject r w \<Rightarrow> bk_level (lm_provisioned st') = lvl \<and> credit_of st' = cr \<and> \<not> bp_spillover (lm_policy st))"
  using assms(1)
proof (cases rule: admit_cases)
  case prov
  then show ?thesis by (simp add: admitted_def lvl_def cr_def credit_of_def wu_def)
next
  case (burst b b')
  have "bb_credit b' = bb_credit b" using can_draw_credit[of b wu "continuation req" now] burst(3) by (simp add: wu_def)
  with burst show ?thesis by (simp add: admitted_def lvl_def cr_def credit_of_def wu_def burst_draw_def)
next
  case (over ra d' st1)
  have cr: "credit_of st1 = cr"
    using over(2) by (simp add: cr_def credit_of_def option.map_comp comp_def)
  note fr = over_entitlement_frame[OF over(4)] and cl = over_entitlement_class[OF over(4)]
  have st': "lm_provisioned st' = lm_provisioned st1" "lm_burst st' = lm_burst st1"
    "lm_attempted_wu st' = lm_attempted_wu st1"
    by (subst fr(1), simp)+
  have "credit_of st' = cr" using cr st' by (simp add: credit_of_def)
  moreover have "tk_estimated_wu tk = wu" if "d' = Admit tk" for tk
    using over(4) that
    by (auto simp: over_entitlement_def spill_or_reject_def admitted_def Let_def wu_def split: option.splits if_splits)
  ultimately show ?thesis
    using st' over(2,5) fr(3) cl by (auto simp: lvl_def wu_def split: decision.split)
qed simp

definition example_limiter :: limiter_state where
  "example_limiter = limiter_new (limiter_config_new 100) boundary_policy_default 0"

definition example_request :: "real \<Rightarrow> admit_request" where
  "example_request wu = \<lparr>estimated_wu = wu, continuation = False, received_at = 0\<rparr>"

lemmas limiter_eval =
  example_limiter_def example_request_def limiter_new_def limiter_config_new_def boundary_policy_default_def
  admit_def admit_pre_def admit_chain_def state_refill_def admitted_def can_admit_def refill_def
  bucket_new_def debit_def saturating_duration_since_def as_secs_f64_def Let_def

theorem admit_charges_one_account_witness:
  "fst (admit example_limiter (example_request 80) None 0)
     = Inr (Admit \<lparr>tk_class = Provisioned, tk_estimated_wu = 80, tk_queued_for = 0\<rparr>)
   \<and> bk_level (lm_provisioned (snd (admit example_limiter (example_request 80) None 0))) = 100 - 80"
proof -
  let ?d = "Admit \<lparr>tk_class = Provisioned, tk_estimated_wu = 80, tk_queued_for = 0\<rparr>"
  have "admit example_limiter (example_request 80) None 0
      = (Inr ?d, snd (admit example_limiter (example_request 80) None 0))"
    by (simp add: limiter_eval)
  from admit_charges_one_account[OF this] this show ?thesis
    by (simp add: limiter_eval)
qed

section \<open>Interleaved use\<close>

text \<open>
  The limiter with the queue slots its callers hold and, as a ghost, the WU charged to the
  provisioned bucket so far. Each method is one step; \<open>reconfigure\<close> is a step when
  \<open>allow\<close> is set.
\<close>

record limiter_sys =
  sys_st :: limiter_state
  sys_slots :: "queue_slot multiset"
  sys_charged :: real

definition after_admit :: "limiter_sys \<Rightarrow> panic + decision \<Rightarrow> limiter_state \<Rightarrow> queue_slot multiset \<Rightarrow> limiter_sys" where
  "after_admit s r st' M =
     \<lparr>sys_st = st',
      sys_slots = (case r of Inr (Queue q) \<Rightarrow> add_mset q M | _ \<Rightarrow> M),
      sys_charged = sys_charged s
        + (case r of Inr (Admit tk) \<Rightarrow> (if tk_class tk = Provisioned then tk_estimated_wu tk else 0) | _ \<Rightarrow> 0)\<rparr>"

inductive limiter_step :: "bool \<Rightarrow> limiter_sys \<Rightarrow> limiter_sys \<Rightarrow> bool" for allow where
  first: "0 \<le> estimated_wu req \<Longrightarrow> admit (sys_st s) req None now = (r, st') \<Longrightarrow>
    limiter_step allow s (after_admit s r st' (sys_slots s))"
| again: "sl \<in># sys_slots s \<Longrightarrow> 0 \<le> estimated_wu req \<Longrightarrow> admit (sys_st s) req (Some sl) now = (r, st') \<Longrightarrow>
    limiter_step allow s (after_admit s r st' (sys_slots s - {#sl#}))"
| drop: "sl \<in># sys_slots s \<Longrightarrow>
    limiter_step allow s (s\<lparr>sys_st := drop_slot (sys_st s) sl, sys_slots := sys_slots s - {#sl#}\<rparr>)"
| settle: "limiter_step allow s
    (s\<lparr>sys_st := limiter_settle (sys_st s) tk actual now,
       sys_charged := sys_charged s + (if tk_class tk = Provisioned then actual - tk_estimated_wu tk else 0)\<rparr>)"
| status: "limiter_step allow s (s\<lparr>sys_st := snd (limiter_status (sys_st s) now)\<rparr>)"
| take_attempted: "limiter_step allow s (s\<lparr>sys_st := snd (take_attempted_wu (sys_st s))\<rparr>)"
| reconf: "allow \<Longrightarrow> limiter_step allow s (s\<lparr>sys_st := reconfigure (sys_st s) config policy now\<rparr>)"

inductive limiter_reach :: "bool \<Rightarrow> limiter_config \<Rightarrow> boundary_policy \<Rightarrow> instant \<Rightarrow> limiter_sys \<Rightarrow> bool"
  for allow config policy t0 where
  start: "limiter_reach allow config policy t0
            \<lparr>sys_st = limiter_new config policy t0, sys_slots = {#}, sys_charged = 0\<rparr>"
| step: "limiter_reach allow config policy t0 s \<Longrightarrow> limiter_step allow s s' \<Longrightarrow>
           limiter_reach allow config policy t0 s'"

definition slots_inv :: "limiter_sys \<Rightarrow> bool" where
  "slots_inv s \<longleftrightarrow> lm_queued_wu (sys_st s) = (\<Sum>q\<in>#sys_slots s. slot_wu q) \<and> (\<forall>q\<in>#sys_slots s. 0 \<le> slot_wu q)"

lemma slot_release:
  assumes "slots_inv s" and "sl \<in># sys_slots s"
  shows "max (lm_queued_wu (sys_st s) - slot_wu sl) 0 = (\<Sum>q\<in>#sys_slots s - {#sl#}. slot_wu q)"
proof -
  have "(\<Sum>q\<in>#sys_slots s. slot_wu q) = slot_wu sl + (\<Sum>q\<in>#sys_slots s - {#sl#}. slot_wu q)"
    using assms(2) by (metis insert_DiffM image_mset_add_mset sum_mset.add_mset)
  moreover have "0 \<le> (\<Sum>q\<in>#sys_slots s - {#sl#}. slot_wu q)"
    using assms(1) by (intro sum_mset_nonneg_real) (auto simp: slots_inv_def dest: in_diffD)
  ultimately show ?thesis using assms(1) by (simp add: slots_inv_def)
qed

lemma admit_queued:
  assumes "admit st req slot now = (r, st')"
  shows "lm_queued_wu st' = lm_queued_wu (admit_pre st req slot now)
           + (case r of Inr (Queue q) \<Rightarrow> slot_wu q | _ \<Rightarrow> 0)"
    and "r = Inr (Queue q) \<Longrightarrow> slot_wu q = estimated_wu req"
proof -
  from assms show "lm_queued_wu st' = lm_queued_wu (admit_pre st req slot now)
           + (case r of Inr (Queue q) \<Rightarrow> slot_wu q | _ \<Rightarrow> 0)"
  proof (cases rule: admit_cases)
    case (over ra d st1)
    then show ?thesis using over_entitlement_frame(2)[OF over(4)] by (auto split: decision.split)
  qed (simp_all add: admitted_def)
  assume q: "r = Inr (Queue q)"
  from assms show "slot_wu q = estimated_wu req"
  proof (cases rule: admit_cases)
    case (over ra d st1)
    then show ?thesis using over_entitlement_frame(3)[OF over(4)] q by auto
  qed (use q in \<open>simp_all add: admitted_def\<close>)
qed

lemma other_ops_queued [simp]:
  "lm_queued_wu (limiter_settle st tk a now) = lm_queued_wu st"
  "lm_queued_wu (snd (limiter_status st now)) = lm_queued_wu st"
  "lm_queued_wu (snd (take_attempted_wu st)) = lm_queued_wu st"
  "lm_queued_wu (reconfigure st config policy now) = lm_queued_wu st"
  by (simp_all add: limiter_settle_def limiter_status_def take_attempted_wu_def reconfigure_def
      split_beta Let_def split: traffic_class.split)

lemma slots_inv_step:
  assumes "limiter_step allow s s'" and "slots_inv s"
  shows "slots_inv s'"
  using assms
proof (induction rule: limiter_step.induct)
  case (first req s now r st')
  then show ?case
    using admit_queued[OF first(2)]
    by (auto simp: slots_inv_def after_admit_def split: sum.splits decision.splits)
next
  case (again sl s req now r st')
  then show ?case
    using admit_queued[OF again(3)] slot_release[OF again(4) again(1)]
    by (auto simp: slots_inv_def after_admit_def split: sum.splits decision.splits dest: in_diffD)
next
  case (drop sl s)
  then show ?case
    using slot_release[OF drop(2) drop(1)] by (auto simp: slots_inv_def drop_slot_def dest: in_diffD)
qed (auto simp: slots_inv_def)

lemma slots_inv_reach: "limiter_reach allow config policy t0 s \<Longrightarrow> slots_inv s"
  by (induction rule: limiter_reach.induct)
    (auto simp: slots_inv_def[of "\<lparr>sys_st = _, sys_slots = _, sys_charged = _\<rparr>"] limiter_new_def Let_def intro: slots_inv_step)

text \<open>
  The queue depth is accounted exactly: in every reachable state of the limiter, whatever
  the interleaving of attempts, re-checks, dropped slots, settlements and resizes, the
  queued WU equal the sum over the slots that callers hold (so the guard of a dropped slot
  against going below zero never acts), and a decision to queue keeps the depth within the
  policy's limit.
\<close>

theorem queue_depth_exact:
  assumes "limiter_reach allow config policy t0 s"
  shows "lm_queued_wu (sys_st s) = (\<Sum>q\<in>#sys_slots s. slot_wu q)
    \<and> (\<forall>req slot now sl st'. admit (sys_st s) req slot now = (Inr (Queue sl), st') \<longrightarrow>
         (\<exists>q. bp_queue (lm_policy (sys_st s)) = Some q \<and>
              lm_queued_wu st' \<le> max_depth_wu_seconds q * entitlement_wu_s (lm_config (sys_st s))))"
proof (intro conjI allI impI)
  show "lm_queued_wu (sys_st s) = (\<Sum>q\<in>#sys_slots s. slot_wu q)"
    using slots_inv_reach[OF assms] by (simp add: slots_inv_def)
next
  fix req slot now sl st'
  assume "admit (sys_st s) req slot now = (Inr (Queue sl), st')"
  then show "\<exists>q. bp_queue (lm_policy (sys_st s)) = Some q \<and>
              lm_queued_wu st' \<le> max_depth_wu_seconds q * entitlement_wu_s (lm_config (sys_st s))"
  proof (cases rule: admit_cases)
    case (over ra d st1)
    then show ?thesis
      by (auto simp: over_entitlement_def spill_or_reject_def admitted_def Let_def split: option.splits if_splits)
  qed (simp_all add: admitted_def)
qed

definition do_first :: "limiter_sys \<Rightarrow> admit_request \<Rightarrow> instant \<Rightarrow> limiter_sys" where
  "do_first s req now =
     after_admit s (fst (admit (sys_st s) req None now)) (snd (admit (sys_st s) req None now)) (sys_slots s)"

lemma do_first_step: "0 \<le> estimated_wu req \<Longrightarrow> limiter_step allow s (do_first s req now)"
  unfolding do_first_def by (rule limiter_step.first) simp_all

definition queued_limiter :: limiter_sys where
  "queued_limiter =
     do_first (do_first \<lparr>sys_st = limiter_new (limiter_config_new 100)
                           (boundary_policy_default\<lparr>bp_queue := Some queue_policy_default\<rparr>) 0,
                         sys_slots = {#}, sys_charged = 0\<rparr>
                        (example_request 250) 0) (example_request 50) 0"

lemmas queue_eval =
  queued_limiter_def do_first_def over_entitlement_def spill_or_reject_def time_until_admit_def queue_policy_default_def
  after_admit_def from_secs_f64_def round_ties_even_def max_wait_def from_secs_def from_millis_def f64_epsilon_def

lemma queued_limiter_reach:
  "limiter_reach True (limiter_config_new 100)
     (boundary_policy_default\<lparr>bp_queue := Some queue_policy_default\<rparr>) 0 queued_limiter"
  unfolding queued_limiter_def
  by (rule limiter_reach.step[OF limiter_reach.step[OF limiter_reach.start do_first_step] do_first_step])
    (simp_all add: example_request_def)

theorem queue_depth_exact_witness:
  "sys_slots queued_limiter = {#\<lparr>slot_wait = 50000000, slot_wu = 50\<rparr>#}
   \<and> lm_queued_wu (sys_st queued_limiter) = 50"
proof -
  have "sys_slots queued_limiter = {#\<lparr>slot_wait = 50000000, slot_wu = 50\<rparr>#}"
    by (simp add: limiter_eval queue_eval max_def min_def)
  with queue_depth_exact[OF queued_limiter_reach] show ?thesis by simp
qed

section \<open>The entitlement bound\<close>

definition meter_inv :: "instant \<Rightarrow> debt_bucket \<Rightarrow> real \<Rightarrow> bool" where
  "meter_inv t0 b c \<longleftrightarrow>
     bk_level b \<le> bk_capacity b \<and> t0 \<le> bk_last b \<and>
     c + bk_level b \<le> bk_capacity b + bk_rate b * as_secs_f64 (bk_last b - t0)"

lemma meter_inv_run:
  assumes "meter_inv t0 b c" and "\<forall>w. Debit w \<in> set ops \<longrightarrow> 0 \<le> w"
  shows "meter_inv t0 (bucket_run b ops) (c + (\<Sum>m\<leftarrow>ops. charged m))"
proof -
  let ?b = "foldl bucket.meter_step b ops"
  have b: "bk_level b \<le> bk_capacity b" "t0 \<le> bk_last b" using assms(1) by (simp_all add: meter_inv_def)
  note run = bucket.meter_run_bound[OF b(1) assms(2)]
  note fr = bucket.meter_run_frame[of b ops]
  have "as_secs_f64 (bk_last ?b - t0) = as_secs_f64 (bk_last ?b - bk_last b) + as_secs_f64 (bk_last b - t0)"
    by (rule bucket.as_secs_add[OF b(2) fr(3)])
  then show ?thesis
    using run fr b assms(1) by (simp add: meter_inv_def bucket_run_meter distrib_left)
qed

lemma admit_provisioned_run:
  assumes "admit st req slot now = (r, st')"
  shows "lm_provisioned st' = bucket_run (lm_provisioned st)
           (case r of Inr (Admit tk) \<Rightarrow> if tk_class tk = Provisioned then [Refill now, Debit (estimated_wu req)] else [Refill now]
                    | _ \<Rightarrow> [Refill now])"
    and "r = Inr (Admit tk) \<Longrightarrow> tk_class tk = Provisioned \<Longrightarrow>
         tk_estimated_wu tk = estimated_wu req \<and> can_admit (snd (refill (lm_provisioned st) now)) (estimated_wu req)"
proof -
  have ov: "lm_provisioned s' = lm_provisioned s" if "over_entitlement s req now qf ra = (d, s')" for s s' qf ra d
    by (subst over_entitlement_frame(1)[OF that]) simp
  from assms show "lm_provisioned st' = bucket_run (lm_provisioned st)
           (case r of Inr (Admit tk) \<Rightarrow> if tk_class tk = Provisioned then [Refill now, Debit (estimated_wu req)] else [Refill now]
                    | _ \<Rightarrow> [Refill now])"
  proof (cases rule: admit_cases)
    case (over ra d st1)
    then show ?thesis
      using ov[OF over(4)] over_entitlement_class(1)[OF over(4)]
      by (auto simp: bucket_run_def split: decision.split)
  qed (simp_all add: bucket_run_def admitted_def)
  assume r: "r = Inr (Admit tk)" "tk_class tk = Provisioned"
  from assms show "tk_estimated_wu tk = estimated_wu req \<and> can_admit (snd (refill (lm_provisioned st) now)) (estimated_wu req)"
  proof (cases rule: admit_cases)
    case (over ra d st1)
    then show ?thesis using over_entitlement_class(1)[OF over(4)] r by auto
  qed (use r in \<open>simp_all add: admitted_def\<close>)
qed

lemma other_ops_provisioned:
  "lm_provisioned (limiter_settle st tk a now) = bucket_run (lm_provisioned st)
     (if tk_class tk = Provisioned then [Refill now, Settle (a - tk_estimated_wu tk)] else [Refill now])"
  "lm_provisioned (snd (limiter_status st now)) = bucket_run (lm_provisioned st) [Refill now]"
  "lm_provisioned (snd (take_attempted_wu st)) = bucket_run (lm_provisioned st) []"
  "lm_provisioned (drop_slot st sl) = bucket_run (lm_provisioned st) []"
  by (simp_all add: limiter_settle_def limiter_status_def take_attempted_wu_def drop_slot_def bucket_level_def
      bucket_run_def split_beta Let_def split: traffic_class.split)

lemma limiter_step_meter:
  assumes "limiter_step False s s'"
  shows "\<exists>ops. lm_provisioned (sys_st s') = bucket_run (lm_provisioned (sys_st s)) ops
           \<and> sys_charged s' = sys_charged s + (\<Sum>m\<leftarrow>ops. charged m)
           \<and> (\<forall>w. Debit w \<in> set ops \<longrightarrow> 0 \<le> w)"
  using assms
proof (induction rule: limiter_step.induct)
  case (first req s now r st')
  from admit_provisioned_run(1)[OF first(2)] show ?case
    using first(1) admit_provisioned_run(2)[OF first(2)]
    by (intro exI conjI; assumption?) (auto simp: after_admit_def split: sum.splits decision.splits if_splits)
next
  case (again sl s req now r st')
  from admit_provisioned_run(1)[OF again(3)] show ?case
    using again(2) admit_provisioned_run(2)[OF again(3)]
    by (intro exI conjI; assumption?) (auto simp: after_admit_def split: sum.splits decision.splits if_splits)
next
  case (drop sl s)
  show ?case by (rule exI[of _ "[]"]) (simp add: other_ops_provisioned)
next
  case (settle s tk actual now)
  show ?case
    by (rule exI[of _ "if tk_class tk = Provisioned then [Refill now, Settle (actual - tk_estimated_wu tk)] else [Refill now]"])
      (simp add: other_ops_provisioned)
next
  case (status s now)
  show ?case by (rule exI[of _ "[Refill now]"]) (simp add: other_ops_provisioned)
next
  case (take_attempted s)
  show ?case by (rule exI[of _ "[]"]) (simp add: other_ops_provisioned)
qed simp

lemma limiter_step_frame:
  assumes "limiter_step False s s'"
  shows "bk_rate (lm_provisioned (sys_st s')) = bk_rate (lm_provisioned (sys_st s))"
    and "bk_capacity (lm_provisioned (sys_st s')) = bk_capacity (lm_provisioned (sys_st s))"
  using limiter_step_meter[OF assms] by (auto simp: bucket_run_meter bucket.meter_run_frame)

lemma limiter_reach_meter:
  assumes "limiter_reach False config policy t0 s"
  shows "meter_inv t0 (lm_provisioned (sys_st s)) (sys_charged s)
    \<and> bk_rate (lm_provisioned (sys_st s)) = entitlement_wu_s config
    \<and> bk_capacity (lm_provisioned (sys_st s)) = entitlement_wu_s config * capacity_s config"
  using assms
proof (induction rule: limiter_reach.induct)
  case start
  show ?case by (simp add: limiter_new_def meter_inv_def as_secs_f64_def Let_def)
next
  case (step s s')
  then show ?case
    using limiter_step_meter[OF step(2)] limiter_step_frame[OF step(2)] meter_inv_run by metis
qed

text \<open>
  C7. A reservation cannot consume beyond its entitlement: in every state reachable without a
  resize, the WU charged to the provisioned bucket (estimates of provisioned admissions plus
  settlements) plus the bucket's level are at most one bucket plus the rate times the time
  since the limiter was created; so whenever a request is admitted as provisioned, the
  charges before it are strictly below that entitlement at the instant of admission.
\<close>

theorem limiter_within_entitlement:
  assumes "limiter_reach False config policy t0 s"
    and "admit (sys_st s) req slot now = (Inr (Admit tk), st')" and "tk_class tk = Provisioned"
  shows "sys_charged s < entitlement_wu_s config * capacity_s config
     + entitlement_wu_s config * as_secs_f64 (max (bk_last (lm_provisioned (sys_st s))) now - t0)"
proof -
  let ?b = "lm_provisioned (sys_st s)"
  note inv = limiter_reach_meter[OF assms(1)]
  have "meter_inv t0 (bucket_run ?b [Refill now]) (sys_charged s + (\<Sum>m\<leftarrow>[Refill now]. charged m))"
    using inv by (intro meter_inv_run) simp_all
  then have "meter_inv t0 (snd (refill ?b now)) (sys_charged s)" by (simp add: bucket_run_def)
  moreover have "can_admit (snd (refill ?b now)) (estimated_wu req)"
    using admit_provisioned_run(2)[OF assms(2) refl assms(3)] by simp
  ultimately show ?thesis using inv by (simp add: meter_inv_def can_admit_def)
qed

definition busy_limiter :: limiter_sys where
  "busy_limiter = do_first \<lparr>sys_st = example_limiter, sys_slots = {#}, sys_charged = 0\<rparr> (example_request 80) 0"

theorem limiter_within_entitlement_witness:
  "sys_charged busy_limiter = 80 \<and> (80 :: real) < 100 * 1 + 100 * as_secs_f64 0"
proof -
  have reach: "limiter_reach False (limiter_config_new 100) boundary_policy_default 0 busy_limiter"
    unfolding busy_limiter_def example_limiter_def
    by (rule limiter_reach.step[OF limiter_reach.start do_first_step]) (simp add: example_request_def)
  have adm: "admit (sys_st busy_limiter) (example_request 10) None 0 =
      (Inr (Admit \<lparr>tk_class = Provisioned, tk_estimated_wu = 10, tk_queued_for = 0\<rparr>),
       snd (admit (sys_st busy_limiter) (example_request 10) None 0))"
    by (simp add: busy_limiter_def do_first_def after_admit_def limiter_eval)
  have "sys_charged busy_limiter = 80" "bk_last (lm_provisioned (sys_st busy_limiter)) = 0"
    by (simp_all add: busy_limiter_def do_first_def after_admit_def limiter_eval)
  with limiter_within_entitlement[OF reach adm] show ?thesis
    by (simp add: limiter_config_new_def)
qed

text \<open>
  A resize never hands out a fresh bucket: after a reconfiguration to another entitlement or
  policy the level (debt included) and the burst credit are the old ones refilled to now,
  clamped to the new limits, and the queue depth and demand signal are untouched.
\<close>

theorem reconfigure_keeps_level:
  assumes "lm_config st \<noteq> config \<or> lm_policy st \<noteq> policy"
  shows "bk_level (lm_provisioned (reconfigure st config policy now))
           = min (bk_level (snd (refill (lm_provisioned st) now))) (entitlement_wu_s config * capacity_s config)
    \<and> lm_queued_wu (reconfigure st config policy now) = lm_queued_wu st
    \<and> lm_attempted_wu (reconfigure st config policy now) = lm_attempted_wu st
    \<and> (\<forall>p c. bp_burst policy = Some p \<and> credit_of (state_refill st now) = Some c \<longrightarrow>
         credit_of (reconfigure st config policy now) = Some (min c (entitlement_wu_s config * max_credit_seconds p)))"
  using assms
  by (auto simp: reconfigure_def bucket_level_def credit_of_def burst_rescaled_def burst_new_def Let_def
      split_beta split: option.splits)

theorem reconfigure_keeps_level_witness:
  "bk_level (lm_provisioned (reconfigure (sys_st busy_limiter) (limiter_config_new 200) boundary_policy_default 0)) = 20"
proof -
  have "lm_config (sys_st busy_limiter) \<noteq> limiter_config_new 200 \<or> lm_policy (sys_st busy_limiter) \<noteq> boundary_policy_default"
    by (simp add: busy_limiter_def do_first_def after_admit_def limiter_eval)
  from reconfigure_keeps_level[OF this, of 0] show ?thesis
    by (simp add: busy_limiter_def do_first_def after_admit_def limiter_eval)
qed

end
