(* ===== verification/Prefix_Cache.thy ===== *)
theory Prefix_Cache
  imports PT_Core "HOL-Library.AList"
begin

text \<open>
  Expected prefix-cache hits (\<open>prefix.rs\<close>): the prefixes a gateway sent recently, with eviction,
  and the hit rate learned per model. The cache refines a history of writes: it remembers the
  last write of every prefix written recently enough, within its capacity. The hash of a scope
  and messages is a parameter.
\<close>

section \<open>Definitions\<close>

definition ALPHA :: real where
  "ALPHA = 1/10"

record prefix_cache_config =
  xc_capacity :: nat
  xc_ttl :: duration
  xc_initial_hit_rate :: real

definition prefix_cache_config_default :: prefix_cache_config where
  "prefix_cache_config_default = \<lparr>xc_capacity = 200000, xc_ttl = from_secs 600, xc_initial_hit_rate = 1/2\<rparr>"

record prediction =
  pd_matched_tokens :: nat
  pd_expected_cached :: nat

record hit_rate =
  hr_rate :: real
  hr_observations :: nat
  hr_matched_tokens :: nat
  hr_engine_cached_tokens :: nat
  hr_unpredicted_cached_tokens :: nat

record prefix_cache =
  pc_config :: prefix_cache_config
  pc_seen :: "(nat \<times> (instant \<times> nat)) list"
  pc_order :: "(nat \<times> nat) list"
  pc_generation :: nat
  pc_rates :: "(string \<times> hit_rate) list"

definition prefix_cache_new :: "prefix_cache_config \<Rightarrow> prefix_cache" where
  "prefix_cache_new config =
     \<lparr>pc_config = config, pc_seen = [], pc_order = [], pc_generation = 0, pc_rates = []\<rparr>"

text \<open>One hash per message, over the scope and every message up to it.\<close>

definition prefix_keys :: "(string \<Rightarrow> (string \<times> string) list \<Rightarrow> nat) \<Rightarrow> string \<Rightarrow> (string \<times> string) list \<Rightarrow> nat list" where
  "prefix_keys hasher scope messages = map (\<lambda>i. hasher scope (take (i + 1) messages)) [0..<length messages]"

definition prefix_fresh :: "prefix_cache \<Rightarrow> nat \<Rightarrow> instant \<Rightarrow> bool" where
  "prefix_fresh c key now =
     (case map_of (pc_seen c) key of
        None \<Rightarrow> False | Some (t, _) \<Rightarrow> saturating_duration_since now t < xc_ttl (pc_config c))"

definition prefix_rate :: "prefix_cache \<Rightarrow> string \<Rightarrow> real" where
  "prefix_rate c model =
     (case map_of (pc_rates c) model of None \<Rightarrow> xc_initial_hit_rate (pc_config c) | Some r \<Rightarrow> hr_rate r)"

definition predict :: "prefix_cache \<Rightarrow> string \<Rightarrow> nat list \<Rightarrow> nat list \<Rightarrow> instant \<Rightarrow> prediction" where
  "predict c model keys per_message now =
     (case rposition (\<lambda>k. prefix_fresh c k now) keys of
        None \<Rightarrow> \<lparr>pd_matched_tokens = 0, pd_expected_cached = 0\<rparr>
      | Some i \<Rightarrow>
          let total = u64_sum per_message;
              matched = min (u64_sum (take (i + 1) per_message)) (total - 1)
          in \<lparr>pd_matched_tokens = matched, pd_expected_cached = f64_as_u64 (of_int \<lfloor>real matched * prefix_rate c model\<rfloor>)\<rparr>)"

definition prefix_write :: "instant \<Rightarrow> prefix_cache \<Rightarrow> nat \<Rightarrow> prefix_cache" where
  "prefix_write now c k =
     (let g = pc_generation c + 1
      in c\<lparr>pc_generation := g, pc_seen := AList.update k (now, g) (pc_seen c), pc_order := pc_order c @ [(k, g)]\<rparr>)"

text \<open>The eviction loop; it stops at an empty order.\<close>

fun prefix_evict ::
  "nat \<Rightarrow> (nat \<times> (instant \<times> nat)) list \<Rightarrow> (nat \<times> nat) list \<Rightarrow> (nat \<times> (instant \<times> nat)) list \<times> (nat \<times> nat) list" where
  "prefix_evict capacity seen [] = (seen, [])"
| "prefix_evict capacity seen ((k, g) # order) =
     (if capacity < length seen \<or> 2 * capacity < Suc (length order)
      then prefix_evict capacity
             (if (case map_of seen k of None \<Rightarrow> False | Some (_, g') \<Rightarrow> g' = g) then AList.delete k seen else seen) order
      else (seen, (k, g) # order))"

definition prefix_record :: "prefix_cache \<Rightarrow> nat list \<Rightarrow> instant \<Rightarrow> prefix_cache" where
  "prefix_record c keys now =
     (if xc_capacity (pc_config c) = 0 then c
      else
        let c = foldl (prefix_write now) c keys;
            (seen, order) = prefix_evict (xc_capacity (pc_config c)) (pc_seen c) (pc_order c)
        in c\<lparr>pc_seen := seen, pc_order := order\<rparr>)"

definition prefix_observe :: "prefix_cache \<Rightarrow> string \<Rightarrow> nat \<Rightarrow> nat \<Rightarrow> prefix_cache" where
  "prefix_observe c model matched engine_cached =
     (let r = (case map_of (pc_rates c) model of
                 Some r \<Rightarrow> r
               | None \<Rightarrow> \<lparr>hr_rate = xc_initial_hit_rate (pc_config c), hr_observations = 0, hr_matched_tokens = 0,
                          hr_engine_cached_tokens = 0, hr_unpredicted_cached_tokens = 0\<rparr>);
          r' = (if matched = 0 then r\<lparr>hr_unpredicted_cached_tokens := u64_add (hr_unpredicted_cached_tokens r) engine_cached\<rparr>
                else
                  let seen = min (real engine_cached / real matched) 1
                  in r\<lparr>hr_rate := (if hr_observations r = 0 then seen else hr_rate r + ALPHA * (seen - hr_rate r)),
                       hr_observations := hr_observations r + 1,
                       hr_matched_tokens := u64_add (hr_matched_tokens r) matched,
                       hr_engine_cached_tokens := u64_add (hr_engine_cached_tokens r) engine_cached\<rparr>)
      in c\<lparr>pc_rates := AList.update model r' (pc_rates c)\<rparr>)"

record model_hit_rate =
  mh_model :: string
  mh_hit_rate :: real
  mh_observations :: nat
  mh_matched_tokens :: nat
  mh_engine_cached_tokens :: nat
  mh_unpredicted_cached_tokens :: nat

record prefix_cache_status =
  xs_prefixes :: nat
  xs_prefix_capacity :: nat
  xs_ttl_secs :: nat
  xs_models :: "model_hit_rate list"

definition prefix_status :: "prefix_cache \<Rightarrow> prefix_cache_status" where
  "prefix_status c =
     \<lparr>xs_prefixes = length (pc_seen c), xs_prefix_capacity = xc_capacity (pc_config c),
      xs_ttl_secs = xc_ttl (pc_config c) div 1000000000,
      xs_models = sort_key mh_model (map (\<lambda>(mo, r). \<lparr>mh_model = mo, mh_hit_rate = hr_rate r, mh_observations = hr_observations r,
        mh_matched_tokens = hr_matched_tokens r, mh_engine_cached_tokens = hr_engine_cached_tokens r,
        mh_unpredicted_cached_tokens = hr_unpredicted_cached_tokens r\<rparr>) (pc_rates c))\<rparr>"

section \<open>The history of writes\<close>

text \<open>
  The history lists the keys written with their times; the generation of a write is its position,
  from one. A cache keeps the history from position \<open>d\<close> on: its order is that end of the history,
  and it maps exactly the keys whose last write is there.
\<close>

type_synonym writes = "(nat \<times> instant) list"

definition last_write :: "writes \<Rightarrow> nat \<Rightarrow> nat option" where
  "last_write H k = rposition (\<lambda>w. fst w = k) H"

definition seen_from :: "writes \<Rightarrow> nat \<Rightarrow> nat \<Rightarrow> (instant \<times> nat) option" where
  "seen_from H d k =
     (case last_write H k of None \<Rightarrow> None | Some i \<Rightarrow> if d \<le> i then Some (snd (H ! i), Suc i) else None)"

definition order_from :: "writes \<Rightarrow> nat \<Rightarrow> (nat \<times> nat) list" where
  "order_from H d = map (\<lambda>i. (fst (H ! i), Suc i)) [d..<length H]"

definition keeps :: "writes \<Rightarrow> nat \<Rightarrow> (nat \<times> (instant \<times> nat)) list \<Rightarrow> bool" where
  "keeps H d seen \<longleftrightarrow> distinct (map fst seen) \<and> map_of seen = seen_from H d"

lemma rposition_snoc: "rposition p (xs @ [x]) = (if p x then Some (length xs) else rposition p xs)"
  by (induction xs) auto

lemma last_write_snoc: "last_write (H @ [(k, t)]) k' = (if k' = k then Some (length H) else last_write H k')"
  by (auto simp: last_write_def rposition_snoc)

lemma last_write_bound: "last_write H k = Some i \<Longrightarrow> i < length H \<and> fst (H ! i) = k"
  using rposition_SomeD by (fastforce simp: last_write_def)

lemma seen_from_snoc:
  "d \<le> length H \<Longrightarrow> seen_from (H @ [(k, t)]) d = (seen_from H d)(k \<mapsto> (t, Suc (length H)))"
  by (rule ext) (auto simp: seen_from_def last_write_snoc nth_append dest: last_write_bound split: option.split)

lemma order_from_snoc: "d \<le> length H \<Longrightarrow> order_from (H @ [(k, t)]) d = order_from H d @ [(k, Suc (length H))]"
  by (simp add: order_from_def nth_append)

definition cache_keeps :: "writes \<Rightarrow> nat \<Rightarrow> prefix_cache \<Rightarrow> bool" where
  "cache_keeps H d c \<longleftrightarrow> d \<le> length H \<and> pc_generation c = length H \<and> pc_order c = order_from H d \<and> keeps H d (pc_seen c)"

lemma write_keeps:
  assumes "cache_keeps H d c"
  shows "cache_keeps (H @ [(k, now)]) d (prefix_write now c k)"
  using assms
  by (auto simp: cache_keeps_def prefix_write_def Let_def order_from_snoc keeps_def seen_from_snoc update_conv distinct_update)

lemma writes_keep:
  "cache_keeps H d c \<Longrightarrow> cache_keeps (H @ map (\<lambda>k. (k, now)) keys) d (foldl (prefix_write now) c keys)"
proof (induction keys arbitrary: H c)
  case (Cons k keys)
  from Cons.IH[OF write_keeps[OF Cons.prems]] show ?case by simp
qed simp

lemma seen_length: "keeps H d seen \<Longrightarrow> length seen \<le> length H - d"
proof -
  assume k: "keeps H d seen"
  then have "length seen = card (fst ` set seen)" by (metis distinct_card keeps_def length_map list.set_map)
  also have "fst ` set seen \<subseteq> (\<lambda>i. fst (H ! i)) ` {d..<length H}"
  proof
    fix x assume "x \<in> fst ` set seen"
    then obtain y where "map_of seen x = Some y" by (metis map_of_eq_None_iff not_None_eq)
    then have "seen_from H d x = Some y" using k by (simp add: keeps_def)
    then show "x \<in> (\<lambda>i. fst (H ! i)) ` {d..<length H}"
      by (force simp: seen_from_def dest: last_write_bound split: option.splits if_splits)
  qed
  then have "card (fst ` set seen) \<le> card ((\<lambda>i. fst (H ! i)) ` {d..<length H})" by (intro card_mono) auto
  also have "\<dots> \<le> length H - d" using card_image_le[of "{d..<length H}"] by simp
  finally show ?thesis by simp
qed

lemma drop_keeps:
  assumes "keeps H d seen" and "d < length H"
  shows "keeps H (Suc d)
    (if (case map_of seen (fst (H ! d)) of None \<Rightarrow> False | Some (_, g') \<Rightarrow> g' = Suc d) then AList.delete (fst (H ! d)) seen else seen)"
proof (cases "last_write H (fst (H ! d)) = Some d")
  case True
  then have "map_of seen (fst (H ! d)) = Some (snd (H ! d), Suc d)" using assms(1) by (simp add: keeps_def seen_from_def)
  moreover have "(map_of seen)(fst (H ! d) := None) = seen_from H (Suc d)"
    using assms(1) True by (auto simp: keeps_def seen_from_def fun_eq_iff Suc_le_eq dest: last_write_bound split: option.split)
  ultimately show ?thesis using assms(1) by (simp add: keeps_def delete_conv' distinct_delete)
next
  case False
  then have "seen_from H (Suc d) = seen_from H d"
    by (auto simp: seen_from_def fun_eq_iff Suc_le_eq le_less dest: last_write_bound split: option.split)
  moreover have "\<not> (case map_of seen (fst (H ! d)) of None \<Rightarrow> False | Some (_, g') \<Rightarrow> g' = Suc d)"
    using assms(1) False by (auto simp: keeps_def seen_from_def split: option.splits)
  ultimately show ?thesis using assms(1) by (simp add: keeps_def)
qed

lemma order_from_Cons: "d < length H \<Longrightarrow> order_from H d = (fst (H ! d), Suc d) # order_from H (Suc d)"
  by (simp add: order_from_def upt_conv_Cons)

lemma length_order_from [simp]: "length (order_from H d) = length H - d"
  by (simp add: order_from_def)

text \<open>Eviction drops the oldest writes, only while there are too many, and never the last \<open>capacity\<close> ones.\<close>

lemma evict_keeps:
  assumes "keeps H d seen" and "d \<le> length H" and "prefix_evict capacity seen (order_from H d) = (seen', order')"
  shows "\<exists>d'\<ge>d. d' \<le> length H \<and> keeps H d' seen' \<and> order' = order_from H d' \<and> length seen' \<le> capacity \<and> length order' \<le> 2 * capacity
    \<and> (d' = d \<or> capacity \<le> length H - d')"
  using assms
proof (induction "length H - d" arbitrary: d seen)
  case 0
  then have d: "order_from H d = []" "d = length H" by (simp_all add: order_from_def)
  then have "length seen = 0" using seen_length[OF "0.prems"(1)] by simp
  then show ?case using 0 d by auto
next
  case (Suc n)
  then have lt: "d < length H" by simp
  show ?case
  proof (cases "capacity < length seen \<or> 2 * capacity < length H - d")
    case True
    let ?seen = "if (case map_of seen (fst (H ! d)) of None \<Rightarrow> False | Some (_, g') \<Rightarrow> g' = Suc d) then AList.delete (fst (H ! d)) seen else seen"
    have step: "prefix_evict capacity ?seen (order_from H (Suc d)) = (seen', order')"
      using Suc.prems(3) True lt by (simp add: order_from_Cons Suc_diff_Suc)
    have "n = length H - Suc d" "Suc d \<le> length H" using Suc.hyps(2) lt by simp_all
    from Suc.hyps(1)[OF this(1) drop_keeps[OF Suc.prems(1) lt] this(2) step] obtain d' where
      d': "Suc d \<le> d'" "d' \<le> length H" "keeps H d' seen'" "order' = order_from H d'" "length seen' \<le> capacity" "length order' \<le> 2 * capacity"
      "d' = Suc d \<or> capacity \<le> length H - d'" by blast
    have "capacity \<le> length H - Suc d" using True seen_length[OF Suc.prems(1)] by linarith
    then show ?thesis using d' by (intro exI[of _ d']) auto
  next
    case False
    then have "seen' = seen" "order' = order_from H d" using Suc.prems(3) lt by (simp_all add: order_from_Cons Suc_diff_Suc)
    then show ?thesis using Suc.prems False lt by (intro exI[of _ d]) auto
  qed
qed

section \<open>Any sequence of operations\<close>

datatype cache_op =
    CacheRecord "nat list" instant
  | CacheObserve string nat nat

fun cache_step :: "prefix_cache \<Rightarrow> cache_op \<Rightarrow> prefix_cache" where
  "cache_step c (CacheRecord keys now) = prefix_record c keys now"
| "cache_step c (CacheObserve model matched engine) = prefix_observe c model matched engine"

fun op_writes :: "cache_op \<Rightarrow> writes" where
  "op_writes (CacheRecord keys now) = map (\<lambda>k. (k, now)) keys"
| "op_writes (CacheObserve model matched engine) = []"

definition cache_ok :: "prefix_cache_config \<Rightarrow> writes \<Rightarrow> prefix_cache \<Rightarrow> bool" where
  "cache_ok config H c \<longleftrightarrow> pc_config c = config
     \<and> (\<exists>d. cache_keeps H d c \<and> (d = 0 \<or> xc_capacity config \<le> length H - d))
     \<and> length (pc_seen c) \<le> xc_capacity config \<and> length (pc_order c) \<le> 2 * xc_capacity config"

lemma writes_config: "pc_config (foldl (prefix_write now) c keys) = pc_config c"
  by (induction keys arbitrary: c) (simp_all add: prefix_write_def Let_def)

lemma record_ok:
  assumes "cache_ok config H c" and "0 < xc_capacity config"
  shows "cache_ok config (H @ map (\<lambda>k. (k, now)) keys) (prefix_record c keys now)"
proof -
  obtain d where d: "cache_keeps H d c" "d = 0 \<or> xc_capacity config \<le> length H - d" using assms(1) by (auto simp: cache_ok_def)
  let ?H = "H @ map (\<lambda>k. (k, now)) keys" and ?c = "foldl (prefix_write now) c keys"
  have cfg: "pc_config c = config" using assms(1) by (simp add: cache_ok_def)
  have k: "cache_keeps ?H d ?c" by (rule writes_keep[OF d(1)])
  obtain seen order where e: "prefix_evict (xc_capacity config) (pc_seen ?c) (order_from ?H d) = (seen, order)" by (cases "prefix_evict (xc_capacity config) (pc_seen ?c) (order_from ?H d)")
  obtain d' where d': "d \<le> d'" "d' \<le> length ?H" "keeps ?H d' seen" "order = order_from ?H d'" "length seen \<le> xc_capacity config"
    "length order \<le> 2 * xc_capacity config" "d' = d \<or> xc_capacity config \<le> length ?H - d'"
    using evict_keeps[OF _ _ e] k unfolding cache_keeps_def by blast
  have "prefix_record c keys now = ?c\<lparr>pc_seen := seen, pc_order := order\<rparr>"
    using assms(2) e k by (simp add: prefix_record_def cfg writes_config cache_keeps_def)
  moreover have "cache_keeps ?H d' (?c\<lparr>pc_seen := seen, pc_order := order\<rparr>)" using k d' by (simp add: cache_keeps_def)
  moreover have "d' = 0 \<or> xc_capacity config \<le> length ?H - d'" using d(2) d'(7) by auto
  ultimately show ?thesis using d' by (auto simp: cache_ok_def writes_config cfg)
qed

lemma observe_ok: "cache_ok config H c \<Longrightarrow> cache_ok config H (prefix_observe c model matched engine)"
  by (simp add: cache_ok_def prefix_observe_def Let_def cache_keeps_def)

lemma run_ok:
  assumes "0 < xc_capacity config"
  shows "cache_ok config (concat (map op_writes ops)) (foldl cache_step (prefix_cache_new config) ops)"
proof (induction ops rule: rev_induct)
  case Nil
  have "cache_keeps [] 0 (prefix_cache_new config)"
    by (simp add: cache_keeps_def prefix_cache_new_def order_from_def keeps_def seen_from_def last_write_def fun_eq_iff)
  then show ?case using assms by (auto simp: cache_ok_def prefix_cache_new_def)
next
  case (snoc op ops)
  then show ?case using record_ok[OF _ assms] observe_ok by (cases op) simp_all
qed

text \<open>
  C35. The cache refines the history of writes. After any operations it remembers at most its
  capacity of prefixes and twice as many writes; a prefix is fresh only if its last write is
  less than the lifetime ago; and a prefix written so recently that its last write is among the
  last \<open>capacity\<close> ones is fresh exactly then.
\<close>

theorem cache_refines_history:
  fixes config :: prefix_cache_config and ops :: "cache_op list" and k :: nat and now :: instant
  assumes "0 < xc_capacity config"
  defines "c \<equiv> foldl cache_step (prefix_cache_new config) ops" and "H \<equiv> concat (map op_writes ops)"
  shows "length (pc_seen c) \<le> xc_capacity config \<and> length (pc_order c) \<le> 2 * xc_capacity config
    \<and> (prefix_fresh c k now \<longrightarrow>
         (\<exists>i. rposition (\<lambda>w. fst w = k) H = Some i \<and> saturating_duration_since now (snd (H ! i)) < xc_ttl config))
    \<and> (\<forall>i. rposition (\<lambda>w. fst w = k) H = Some i \<longrightarrow> length H \<le> i + xc_capacity config \<longrightarrow>
         (prefix_fresh c k now \<longleftrightarrow> saturating_duration_since now (snd (H ! i)) < xc_ttl config))"
proof -
  have ok: "cache_ok config H c" unfolding c_def H_def by (rule run_ok[OF assms(1)])
  then obtain d where d: "cache_keeps H d c" "d = 0 \<or> xc_capacity config \<le> length H - d" and cfg: "pc_config c = config"
    by (auto simp: cache_ok_def)
  have seen: "map_of (pc_seen c) k = seen_from H d k" using d(1) by (simp add: cache_keeps_def keeps_def)
  have fresh: "prefix_fresh c k now \<longleftrightarrow> (case last_write H k of None \<Rightarrow> False | Some i \<Rightarrow> d \<le> i \<and> saturating_duration_since now (snd (H ! i)) < xc_ttl config)"
    by (simp add: prefix_fresh_def seen seen_from_def cfg split: option.split)
  have recent: "d \<le> i" if "last_write H k = Some i" "length H \<le> i + xc_capacity config" for i
    using that d(2) last_write_bound[OF that(1)] d(1) by (auto simp: cache_keeps_def)
  show ?thesis
    using ok recent unfolding fresh last_write_def[symmetric] by (auto simp: cache_ok_def split: option.split)
qed

section \<open>Predictions\<close>

definition rates_ok :: "prefix_cache \<Rightarrow> bool" where
  "rates_ok c \<longleftrightarrow> 0 \<le> xc_initial_hit_rate (pc_config c) \<and> xc_initial_hit_rate (pc_config c) \<le> 1
     \<and> (\<forall>m r. map_of (pc_rates c) m = Some r \<longrightarrow> 0 \<le> hr_rate r \<and> hr_rate r \<le> 1)"

lemma blend_bounds:
  assumes "0 \<le> r" "r \<le> (1 :: real)" "0 \<le> x" "x \<le> 1"
  shows "0 \<le> r + ALPHA * (x - r)" "r + ALPHA * (x - r) \<le> 1"
  using assms by (simp_all add: ALPHA_def field_simps)

lemma observe_rates: "rates_ok c \<Longrightarrow> rates_ok (prefix_observe c model matched engine)"
  unfolding rates_ok_def prefix_observe_def Let_def
  by (auto simp: update_conv blend_bounds split: option.splits if_splits)

lemma record_rates: "rates_ok c \<Longrightarrow> rates_ok (prefix_record c keys now)"
proof -
  have "pc_rates (foldl (prefix_write now) c keys) = pc_rates c" by (induction keys arbitrary: c) (simp_all add: prefix_write_def Let_def)
  then show "rates_ok c \<Longrightarrow> rates_ok (prefix_record c keys now)"
    by (simp add: rates_ok_def prefix_record_def Let_def writes_config case_prod_unfold)
qed

lemma run_rates:
  assumes "0 \<le> xc_initial_hit_rate config" "xc_initial_hit_rate config \<le> 1"
  shows "rates_ok (foldl cache_step (prefix_cache_new config) ops)"
proof (induction ops rule: rev_induct)
  case (snoc op ops)
  then show ?case using record_rates observe_rates by (cases op) simp_all
qed (use assms in \<open>simp add: rates_ok_def prefix_cache_new_def\<close>)

text \<open>
  A prediction stays within the prompt. After any operations, with an initial hit rate between
  zero and one, the expected cached tokens are at most the matched ones, which leave at least
  the last prompt token to compute, and nothing is expected when no prefix is fresh.
\<close>

theorem prediction_within_prompt:
  fixes config :: prefix_cache_config and ops :: "cache_op list"
  assumes "0 \<le> xc_initial_hit_rate config" "xc_initial_hit_rate config \<le> 1" and "sum_list per_message < 2 ^ 64"
  defines "c \<equiv> foldl cache_step (prefix_cache_new config) ops"
  shows "pd_expected_cached (predict c model keys per_message now) \<le> pd_matched_tokens (predict c model keys per_message now)
    \<and> pd_matched_tokens (predict c model keys per_message now) \<le> sum_list per_message - 1
    \<and> (0 < pd_matched_tokens (predict c model keys per_message now) \<longrightarrow> list_ex (\<lambda>k. prefix_fresh c k now) keys)"
proof -
  have "rates_ok c" unfolding c_def by (rule run_rates[OF assms(1,2)])
  then have r: "0 \<le> prefix_rate c model" "prefix_rate c model \<le> 1" by (auto simp: prefix_rate_def rates_ok_def split: option.split)
  have cast: "f64_as_u64 (of_int \<lfloor>real n * prefix_rate c model\<rfloor>) \<le> n" for n
  proof -
    have "real n * prefix_rate c model \<le> real n" using r by (intro mult_left_le) auto
    then have "nat \<lfloor>real n * prefix_rate c model\<rfloor> \<le> n" by (simp add: nat_le_iff floor_le_iff)
    then show ?thesis by (simp add: f64_as_u64_def)
  qed
  have total: "u64_sum per_message = sum_list per_message" using assms(3) by (intro u64_sum_exact) simp
  show ?thesis
  proof (cases "rposition (\<lambda>k. prefix_fresh c k now) keys")
    case (Some i)
    then have "list_ex (\<lambda>k. prefix_fresh c k now) keys" using rposition_SomeD[OF Some] by (auto simp: list_ex_iff)
    moreover define matched where "matched = min (u64_sum (take (i + 1) per_message)) (sum_list per_message - 1)"
    ultimately show ?thesis using Some cast[of matched] unfolding predict_def option.case Let_def total by (simp add: matched_def[symmetric])
  qed (simp add: predict_def)
qed

definition demo_cache :: prefix_cache_config where
  "demo_cache = \<lparr>xc_capacity = 2, xc_ttl = 100, xc_initial_hit_rate = 1/2\<rparr>"

theorem cache_refines_history_witness:
  "prefix_fresh (foldl cache_step (prefix_cache_new demo_cache) [CacheRecord [1, 2, 3] 10, CacheRecord [2] 20]) 3 50
   \<and> length (pc_seen (foldl cache_step (prefix_cache_new demo_cache) [CacheRecord [1, 2, 3] 10, CacheRecord [2] 20])) \<le> 2"
  using cache_refines_history[of demo_cache "[CacheRecord [1, 2, 3] 10, CacheRecord [2] 20]" 3 50]
  by (simp add: demo_cache_def saturating_duration_since_def)

theorem prediction_within_prompt_witness:
  "pd_matched_tokens (predict (foldl cache_step (prefix_cache_new demo_cache) [CacheRecord [1, 2] 10]) ''m'' [1, 2, 3] [5, 7, 4] 50) = 12
   \<and> pd_expected_cached (predict (foldl cache_step (prefix_cache_new demo_cache) [CacheRecord [1, 2] 10]) ''m'' [1, 2, 3] [5, 7, 4] 50) \<le> 12"
  using prediction_within_prompt[of demo_cache "[5, 7, 4]" "[CacheRecord [1, 2] 10]" "''m''" "[1, 2, 3]" 50]
  by (simp add: demo_cache_def predict_def prefix_cache_new_def prefix_record_def prefix_write_def prefix_fresh_def saturating_duration_since_def
      u64_sum_def u64_add_def Let_def)

end
