(* ===== verification/Output_Estimate.thy ===== *)
theory Output_Estimate
  imports PT_Core "HOL-Library.Multiset"
begin

text \<open>
  Output-length prediction (\<open>estimator.rs\<close>): a log-bucketed quantile sketch and the predictor of
  a deployment that reads its ninetieth percentile. The sketch is shown to be within its relative
  accuracy of the exact quantile of the values added, and the predictor with it.
\<close>

section \<open>Definitions\<close>

record quantile_sketch =
  qk_gamma_ln :: real
  qk_buckets :: "(int \<times> nat) list"
  qk_zeros :: nat
  qk_count :: nat

definition sketch_new :: "real \<Rightarrow> quantile_sketch" where
  "sketch_new relative_accuracy =
     (let gamma = (1 + relative_accuracy) / (1 - relative_accuracy)
      in \<lparr>qk_gamma_ln = ln gamma, qk_buckets = [], qk_zeros = 0, qk_count = 0\<rparr>)"

text \<open>A saturating cast, and \<open>*buckets.entry(idx).or_insert(0) += 1\<close> on a map in key order.\<close>

definition f64_as_i32 :: "real \<Rightarrow> int" where
  "f64_as_i32 x = max (- 2147483648) (min 2147483647 (if 0 \<le> x then \<lfloor>x\<rfloor> else \<lceil>x\<rceil>))"

fun bucket_inc :: "int \<Rightarrow> (int \<times> nat) list \<Rightarrow> (int \<times> nat) list" where
  "bucket_inc i [] = [(i, 1)]"
| "bucket_inc i ((j, n) # bs) =
     (if i < j then (i, 1) # (j, n) # bs else if i = j then (j, n + 1) # bs else (j, n) # bucket_inc i bs)"

definition sketch_index :: "real \<Rightarrow> real \<Rightarrow> int" where
  "sketch_index gamma_ln value = f64_as_i32 (of_int \<lceil>ln value / gamma_ln\<rceil>)"

definition sketch_add :: "quantile_sketch \<Rightarrow> real \<Rightarrow> quantile_sketch" where
  "sketch_add s value =
     (let s = s\<lparr>qk_count := qk_count s + 1\<rparr>
      in if value \<le> 0 then s\<lparr>qk_zeros := qk_zeros s + 1\<rparr>
         else s\<lparr>qk_buckets := bucket_inc (sketch_index (qk_gamma_ln s) value) (qk_buckets s)\<rparr>)"

text \<open>The loop over the buckets: the first one at which more than \<open>rank\<close> values are seen.\<close>

fun quantile_scan :: "nat \<Rightarrow> nat \<Rightarrow> (int \<times> nat) list \<Rightarrow> int option" where
  "quantile_scan rank seen [] = None"
| "quantile_scan rank seen ((i, n) # bs) =
     (if rank < seen + n then Some i else quantile_scan rank (seen + n) bs)"

definition bucket_value :: "real \<Rightarrow> int \<Rightarrow> real" where
  "bucket_value gamma_ln i = 2 * exp (of_int i * gamma_ln) / (exp gamma_ln + 1)"

definition sketch_quantile :: "quantile_sketch \<Rightarrow> real \<Rightarrow> real option" where
  "sketch_quantile s q =
     (if qk_count s = 0 then None
      else
        let rank = f64_as_u64 (of_int \<lfloor>clamp 0 1 q * real (qk_count s - 1)\<rfloor>)
        in if rank < qk_zeros s then Some 0
           else map_option (bucket_value (qk_gamma_ln s)) (quantile_scan rank (qk_zeros s) (qk_buckets s)))"

record output_estimator =
  oe_sketch :: quantile_sketch
  oe_fallback :: nat
  oe_min_samples :: nat
  oe_quantile :: real

definition estimator_new :: "nat \<Rightarrow> output_estimator" where
  "estimator_new fallback =
     \<lparr>oe_sketch = sketch_new (2/100), oe_fallback = fallback, oe_min_samples = 20, oe_quantile = 9/10\<rparr>"

definition estimator_record :: "output_estimator \<Rightarrow> nat \<Rightarrow> output_estimator" where
  "estimator_record e output_tokens = e\<lparr>oe_sketch := sketch_add (oe_sketch e) (real output_tokens)\<rparr>"

definition estimate :: "output_estimator \<Rightarrow> nat option \<Rightarrow> nat" where
  "estimate e max_tokens =
     (let predicted =
            (if oe_min_samples e \<le> qk_count (oe_sketch e)
             then (case sketch_quantile (oe_sketch e) (oe_quantile e) of
                     None \<Rightarrow> oe_fallback e | Some v \<Rightarrow> f64_as_u64 (of_int \<lceil>v\<rceil>))
             else oe_fallback e)
      in case max_tokens of None \<Rightarrow> predicted | Some m \<Rightarrow> min predicted m)"

section \<open>Buckets\<close>

text \<open>The indices of the values added, with their multiplicity and in order.\<close>

definition spread :: "(int \<times> nat) list \<Rightarrow> int list" where
  "spread bs = concat (map (\<lambda>(i, n). replicate n i) bs)"

lemma spread_simps [simp]: "spread [] = []" "spread ((i, n) # bs) = replicate n i @ spread bs"
  by (simp_all add: spread_def)

definition bucket_keys :: "(int \<times> nat) list \<Rightarrow> bool" where
  "bucket_keys bs \<longleftrightarrow> sorted_wrt (\<lambda>a b. fst a < fst b) bs"

lemma bucket_inc_keys: "fst ` set (bucket_inc i bs) = insert i (fst ` set bs)"
  by (induction i bs rule: bucket_inc.induct) auto

lemma bucket_inc_ok: "bucket_keys bs \<Longrightarrow> bucket_keys (bucket_inc i bs)"
proof (induction i bs rule: bucket_inc.induct)
  case (2 i j n bs)
  then have "bucket_keys bs" "\<forall>k\<in>fst ` set bs. j < k" by (auto simp: bucket_keys_def)
  then have "bucket_keys (bucket_inc i bs)" if "j < i" using 2 that by auto
  moreover have "\<forall>k\<in>fst ` set (bucket_inc i bs). j < k" if "j < i"
    using that \<open>\<forall>k\<in>fst ` set bs. j < k\<close> by (simp add: bucket_inc_keys)
  ultimately show ?case using 2(2) by (auto simp: bucket_keys_def)
qed (simp add: bucket_keys_def)

lemma mset_spread_inc: "mset (spread (bucket_inc i bs)) = add_mset i (mset (spread bs))"
  by (induction i bs rule: bucket_inc.induct) auto

lemma spread_sorted: "bucket_keys bs \<Longrightarrow> sorted (spread bs)"
proof (induction bs)
  case (Cons b bs)
  obtain i n where b: "b = (i, n)" by (cases b)
  have "\<forall>k\<in>set (spread bs). i \<le> k" using Cons.prems b by (fastforce simp: bucket_keys_def spread_def)
  then show ?case using Cons b by (simp add: sorted_append bucket_keys_def)
qed simp

lemma scan_spread:
  "seen \<le> rank \<Longrightarrow> rank < seen + length (spread bs) \<Longrightarrow> quantile_scan rank seen bs = Some (spread bs ! (rank - seen))"
proof (induction rank seen bs rule: quantile_scan.induct)
  case (2 rank seen i n bs)
  show ?case
  proof (cases "rank < seen + n")
    case False
    then have "\<not> rank - seen < n" by linarith
    then show ?thesis using 2 False by (simp add: nth_append)
  qed (use 2 in \<open>auto simp: nth_append\<close>)
qed simp

section \<open>Accuracy\<close>

definition raw_index :: "real \<Rightarrow> real \<Rightarrow> int" where
  "raw_index gl v = \<lceil>ln v / gl\<rceil>"

definition index_fits :: "real \<Rightarrow> real \<Rightarrow> bool" where
  "index_fits gl v \<longleftrightarrow> - 2147483648 \<le> raw_index gl v \<and> raw_index gl v \<le> 2147483647"

lemma sketch_index_fits: "index_fits gl v \<Longrightarrow> sketch_index gl v = raw_index gl v"
  by (simp add: sketch_index_def f64_as_i32_def index_fits_def raw_index_def)

lemma gamma_pos:
  fixes a :: real
  assumes "0 < a" "a < 1"
  shows "0 < ln ((1 + a) / (1 - a))" "exp (ln ((1 + a) / (1 - a))) = (1 + a) / (1 - a)"
proof -
  have "1 < (1 + a) / (1 - a)" using assms by (simp add: pos_less_divide_eq)
  then show "0 < ln ((1 + a) / (1 - a))" "exp (ln ((1 + a) / (1 - a))) = (1 + a) / (1 - a)" by simp_all
qed

lemma raw_index_mono: "0 < gl \<Longrightarrow> 0 < v \<Longrightarrow> v \<le> w \<Longrightarrow> raw_index gl v \<le> raw_index gl w"
  unfolding raw_index_def by (intro ceiling_mono divide_right_mono) auto

text \<open>The value of a bucket is within the accuracy of every value that falls into it.\<close>

lemma bucket_value_accurate:
  assumes "0 < a" "a < 1" "0 < v"
  defines "gl \<equiv> ln ((1 + a) / (1 - a))"
  shows "\<bar>bucket_value gl (raw_index gl v) - v\<bar> \<le> a * v"
proof -
  note g = gamma_pos[OF assms(1,2), folded gl_def]
  define i where "i = raw_index gl v"
  have i: "of_int i - 1 < ln v / gl" "ln v / gl \<le> of_int i" unfolding i_def raw_index_def by linarith+
  then have "(of_int i - 1) * gl < ln v" "ln v \<le> of_int i * gl" using g(1) by (simp_all add: pos_less_divide_eq pos_divide_le_eq)
  then have "exp ((of_int i - 1) * gl) < exp (ln v)" "exp (ln v) \<le> exp (of_int i * gl)" by simp_all
  then have b: "exp ((of_int i - 1) * gl) < v" "v \<le> exp (of_int i * gl)" using assms(3) by simp_all
  have e: "exp (of_int i * gl) = (1 + a) / (1 - a) * exp ((of_int i - 1) * gl)"
    unfolding g(2)[symmetric] by (simp add: exp_add[symmetric] algebra_simps)
  have "exp gl + 1 = 2 / (1 - a)" using g(2) assms(2) by (simp add: field_simps)
  then have v: "bucket_value gl i = (1 - a) * exp (of_int i * gl)" using assms(2) by (simp add: bucket_value_def)
  have "bucket_value gl i = (1 + a) * exp ((of_int i - 1) * gl)" unfolding v e using assms(2) by simp
  also have "\<dots> \<le> (1 + a) * v" using b(1) assms(1) by (intro mult_left_mono) auto
  finally have "bucket_value gl i - v \<le> a * v" by (simp add: algebra_simps)
  moreover have "(1 - a) * v \<le> bucket_value gl i" unfolding v using b(2) assms(2) by (intro mult_left_mono) auto
  then have "v - bucket_value gl i \<le> a * v" by (simp add: algebra_simps)
  ultimately show ?thesis unfolding i_def by (simp add: abs_le_iff)
qed

section \<open>A sketch after a stream of values\<close>

abbreviation sketch_of :: "real \<Rightarrow> real list \<Rightarrow> quantile_sketch" where
  "sketch_of a vs \<equiv> foldl sketch_add (sketch_new a) vs"

lemma sketch_of_fields:
  "qk_gamma_ln (sketch_of a vs) = ln ((1 + a) / (1 - a))" "qk_count (sketch_of a vs) = length vs"
  "qk_zeros (sketch_of a vs) = length (filter (\<lambda>v. v \<le> 0) vs)" "bucket_keys (qk_buckets (sketch_of a vs))"
  "mset (spread (qk_buckets (sketch_of a vs))) = mset (map (sketch_index (ln ((1 + a) / (1 - a)))) (filter (\<lambda>v. 0 < v) vs))"
proof (induction vs rule: rev_induct)
  case Nil
  { case 1 show ?case by (simp add: sketch_new_def) next case 2 show ?case by (simp add: sketch_new_def)
  next case 3 show ?case by (simp add: sketch_new_def) next case 4 show ?case by (simp add: sketch_new_def bucket_keys_def)
  next case 5 show ?case by (simp add: sketch_new_def) }
next
  case (snoc v vs)
  { case 1 show ?case using snoc(1) by (simp add: sketch_add_def Let_def)
  next case 2 show ?case using snoc(2) by (simp add: sketch_add_def Let_def)
  next case 3 show ?case using snoc(3) by (simp add: sketch_add_def Let_def)
  next case 4 show ?case using snoc(4) by (simp add: sketch_add_def Let_def bucket_inc_ok)
  next case 5 show ?case using snoc(1,5) by (simp add: sketch_add_def Let_def mset_spread_inc) }
qed

lemma sort_split_zeros:
  fixes vs :: "real list"
  assumes "\<forall>v\<in>set vs. 0 \<le> v"
  shows "sort vs = replicate (length (filter (\<lambda>v. v \<le> 0) vs)) 0 @ sort (filter (\<lambda>v. 0 < v) vs)"
proof (rule properties_for_sort)
  have "filter (\<lambda>v. v \<le> 0) vs = replicate (length (filter (\<lambda>v. v \<le> 0) vs)) 0"
    using assms by (intro replicate_eqI) auto
  then have "mset (replicate (length (filter (\<lambda>v. v \<le> 0) vs)) 0) = filter_mset (\<lambda>v. v \<le> 0) (mset vs)" by (metis mset_filter)
  moreover have "filter_mset (\<lambda>v. 0 < v) (mset vs) = filter_mset (\<lambda>v. \<not> v \<le> 0) (mset vs)" by (simp add: not_le)
  ultimately show "mset (replicate (length (filter (\<lambda>v. v \<le> 0) vs)) 0 @ sort (filter (\<lambda>v. 0 < v) vs)) = mset vs"
    by (simp add: multiset_partition[symmetric])
  show "sorted (replicate (length (filter (\<lambda>v. v \<le> 0) vs)) 0 @ sort (filter (\<lambda>v. 0 < v) vs))"
    by (auto simp: sorted_append)
qed

text \<open>The buckets, spread out, are the indices of the values in order.\<close>

lemma spread_is_sorted_indices:
  assumes "0 < a" "a < 1" and "\<forall>v\<in>set vs. 0 < v \<longrightarrow> index_fits (ln ((1 + a) / (1 - a))) v"
  shows "spread (qk_buckets (sketch_of a vs)) = map (raw_index (ln ((1 + a) / (1 - a)))) (sort (filter (\<lambda>v. 0 < v) vs))"
proof -
  let ?gl = "ln ((1 + a) / (1 - a))" and ?pos = "filter (\<lambda>v. 0 < v) vs"
  have "sorted_wrt (\<lambda>v w. raw_index ?gl v \<le> raw_index ?gl w) (sort ?pos)"
    by (rule sorted_wrt_mono_rel[where P = "(\<le>)"]) (use raw_index_mono[OF gamma_pos(1)[OF assms(1,2)]] in auto)
  then have "sorted (map (raw_index ?gl) (sort ?pos))" by (simp add: sorted_map)
  moreover have "map (sketch_index ?gl) ?pos = map (raw_index ?gl) ?pos" using assms(3) sketch_index_fits by auto
  then have "mset (spread (qk_buckets (sketch_of a vs))) = mset (map (raw_index ?gl) ?pos)" using sketch_of_fields(5)[of a vs] by (simp only:)
  then have "mset (spread (qk_buckets (sketch_of a vs))) = mset (map (raw_index ?gl) (sort ?pos))" by simp
  ultimately show ?thesis
    using spread_sorted[OF sketch_of_fields(4)] by (metis properties_for_sort sorted_sort_id)
qed

text \<open>
  The sketch keeps its accuracy. After any stream of values that are not negative and whose
  buckets have an index, a quantile is answered and is within the relative accuracy of the
  value at that rank of the sorted stream.
\<close>

lemma sketch_within_accuracy:
  assumes "0 < a" "a < 1" "vs \<noteq> []" "length vs < 2 ^ 64" "0 \<le> q" "q \<le> 1"
    and "\<forall>v\<in>set vs. 0 \<le> v \<and> (0 < v \<longrightarrow> index_fits (ln ((1 + a) / (1 - a))) v)"
  shows "\<exists>v. sketch_quantile (foldl sketch_add (sketch_new a) vs) q = Some v
     \<and> \<bar>v - sort vs ! nat \<lfloor>q * real (length vs - 1)\<rfloor>\<bar> \<le> a * sort vs ! nat \<lfloor>q * real (length vs - 1)\<rfloor>"
proof -
  let ?gl = "ln ((1 + a) / (1 - a))" and ?pos = "filter (\<lambda>v. 0 < v) vs" and ?z = "length (filter (\<lambda>v. v \<le> 0) vs)"
  define rank where "rank = nat \<lfloor>q * real (length vs - 1)\<rfloor>"
  have le: "q * real (length vs - 1) \<le> real (length vs - 1)" using assms(5,6) by (intro mult_left_le_one_le) auto
  then have rank: "rank \<le> length vs - 1" unfolding rank_def by (simp add: floor_le_iff nat_le_iff)
  then have lt: "rank < length vs" using assms(3) by (cases vs) auto
  have u: "f64_as_u64 (of_int \<lfloor>clamp 0 1 q * real (qk_count (sketch_of a vs) - 1)\<rfloor>) = rank"
  proof -
    have c: "clamp 0 1 q = q" using assms(5,6) by (simp add: clamp_def)
    show ?thesis unfolding sketch_of_fields c f64_as_u64_def floor_of_int rank_def[symmetric] using lt assms(4) by simp
  qed
  have len: "length (spread (qk_buckets (sketch_of a vs))) = length ?pos"
    using sketch_of_fields(5)[of a vs] by (metis length_map size_mset)
  have total: "?z + length ?pos = length vs" using sum_length_filter_compl[of "\<lambda>v. v \<le> 0" vs] by (simp add: not_le)
  have zeros: "sort vs = replicate ?z 0 @ sort ?pos" by (rule sort_split_zeros) (use assms(7) in blast)
  have ne: "qk_count (sketch_of a vs) \<noteq> 0" using assms(3) by (simp add: sketch_of_fields)
  show ?thesis
  proof (cases "rank < ?z")
    case True
    then have "sort vs ! rank = 0" unfolding zeros by (simp add: nth_append)
    then show ?thesis using True ne unfolding sketch_quantile_def Let_def u by (simp add: sketch_of_fields rank_def)
  next
    case False
    define x where "x = sort ?pos ! (rank - ?z)"
    have "rank - ?z < length (sort ?pos)" using False lt total by simp
    then have "x \<in> set (sort ?pos)" unfolding x_def by (rule nth_mem)
    then have "0 < x" by simp
    have "quantile_scan rank ?z (qk_buckets (sketch_of a vs)) = Some (spread (qk_buckets (sketch_of a vs)) ! (rank - ?z))"
      by (rule scan_spread) (use False lt total len in auto)
    also have "spread (qk_buckets (sketch_of a vs)) ! (rank - ?z) = raw_index ?gl x"
      unfolding x_def using spread_is_sorted_indices[OF assms(1,2), of vs] assms(7) \<open>rank - ?z < length (sort ?pos)\<close> by simp
    finally have "sketch_quantile (sketch_of a vs) q = Some (bucket_value ?gl (raw_index ?gl x))"
      using False ne unfolding sketch_quantile_def Let_def u by (simp add: sketch_of_fields)
    moreover have "sort vs ! rank = x" unfolding zeros x_def using False by (simp add: nth_append)
    ultimately show ?thesis using bucket_value_accurate[OF assms(1,2) \<open>0 < x\<close>] unfolding rank_def by simp
  qed
qed

section \<open>The predictor\<close>

lemma token_index_fits:
  assumes "0 < n" "n < 2 ^ 64"
  shows "index_fits (ln (51 / 49)) (real n)"
proof -
  have "real n \<le> 2 ^ 64" using assms(2) by (metis less_imp_le of_nat_le_iff of_nat_numeral of_nat_power)
  then have "ln (real n) \<le> ln (2 ^ 64)" using assms(1) by (subst ln_le_cancel_iff) auto
  also have "\<dots> = 64 * ln (2 :: real)" by (subst ln_realpow) simp_all
  also have "\<dots> \<le> 64" using ln_le_minus_one[of "2 :: real"] by simp
  finally have n: "ln (real n) \<le> 64" .
  have "ln (49/51 :: real) \<le> 49/51 - 1" by (rule ln_le_minus_one) simp
  moreover have "ln (51/49 :: real) = - ln (49/51)" by (simp add: ln_div)
  ultimately have g: "2/51 \<le> ln (51/49 :: real)" by simp
  have "0 \<le> ln (real n)" using assms(1) by simp
  then have "0 \<le> ln (real n) / ln (51/49)" using g by (intro divide_nonneg_nonneg) auto
  moreover have "ln (real n) / ln (51/49) \<le> 64 / (2/51)" using n g \<open>0 \<le> ln (real n)\<close> by (intro frac_le) auto
  ultimately show ?thesis unfolding index_fits_def raw_index_def by (simp add: ceiling_le_iff le_ceiling_iff)
qed

lemma estimator_of:
  "oe_sketch (foldl estimator_record (estimator_new f) outs) = sketch_of (2/100) (map real outs)"
  "oe_fallback (foldl estimator_record (estimator_new f) outs) = f" "oe_min_samples (foldl estimator_record (estimator_new f) outs) = 20"
  "oe_quantile (foldl estimator_record (estimator_new f) outs) = 9/10"
  by (induction outs rule: rev_induct) (simp_all add: estimator_record_def estimator_new_def)

lemma sort_map_real: "sort (map real ns) = map real (sort ns)"
  by (rule properties_for_sort) (simp_all add: sorted_map)

text \<open>
  C34. The predicted output length. With fewer than twenty samples it is the declared fallback; from
  then on it is within two percent, and the rounding up, of the ninetieth percentile of the
  outputs recorded; and it never exceeds the limit of the request.
\<close>

theorem output_estimate_accurate:
  fixes fallback m :: nat and outs :: "nat list"
  assumes "length outs < 2 ^ 64" and "\<forall>n\<in>set outs. n < 2 ^ 63"
  defines "e \<equiv> foldl estimator_record (estimator_new fallback) outs"
    and "x \<equiv> sort outs ! nat \<lfloor>9/10 * real (length outs - 1)\<rfloor>"
  shows "estimate e (Some m) = min (estimate e None) m
     \<and> (length outs < 20 \<longrightarrow> estimate e None = fallback)
     \<and> (20 \<le> length outs \<longrightarrow> 98/100 * real x \<le> real (estimate e None) \<and> real (estimate e None) \<le> 102/100 * real x + 1)"
proof -
  have gl: "(1 + 2/100) / (1 - 2/100) = (51/49 :: real)" by simp
  have "98/100 * real x \<le> real (estimate e None) \<and> real (estimate e None) \<le> 102/100 * real x + 1" if n: "20 \<le> length outs"
  proof -
    have fits: "\<forall>v\<in>set (map real outs). 0 \<le> v \<and> (0 < v \<longrightarrow> index_fits (ln ((1 + 2/100) / (1 - 2/100))) v)"
      unfolding gl using token_index_fits assms(2) by fastforce
    obtain v where v: "sketch_quantile (sketch_of (2/100) (map real outs)) (9/10) = Some v"
      "\<bar>v - sort (map real outs) ! nat \<lfloor>9/10 * real (length (map real outs) - 1)\<rfloor>\<bar>
         \<le> 2/100 * sort (map real outs) ! nat \<lfloor>9/10 * real (length (map real outs) - 1)\<rfloor>"
    proof -
      have "map real outs \<noteq> []" "length (map real outs) < 2 ^ 64" using n assms(1) by auto
      from sketch_within_accuracy[OF _ _ this _ _ fits, of "9/10"] show ?thesis using that by auto
    qed
    have idx: "nat \<lfloor>9/10 * real (length outs - 1)\<rfloor> < length outs"
    proof -
      have "nat \<lfloor>9/10 * real (length outs - 1)\<rfloor> \<le> length outs - 1" by (simp add: nat_le_iff floor_le_iff)
      then show ?thesis using n by linarith
    qed
    then have "sort (map real outs) ! nat \<lfloor>9/10 * real (length (map real outs) - 1)\<rfloor> = real x"
      unfolding sort_map_real x_def length_map by (intro nth_map) (simp only: length_sort)
    then have near: "\<bar>v - real x\<bar> \<le> 2/100 * real x" using v(2) by (simp only:)
    have "x \<in> set (sort outs)" unfolding x_def using idx by (intro nth_mem) (simp only: length_sort)
    then have "x < 2 ^ 63" using assms(2) by simp
    then have "real x < 9223372036854775808" by simp
    then have "v \<le> 18446744073709551615" using near by linarith
    then have c: "\<lceil>v\<rceil> \<le> 18446744073709551615" by (simp add: ceiling_le_iff)
    have pos: "0 \<le> v" using near by linarith
    have "estimate e None = nat \<lceil>v\<rceil>"
      using n c pos v(1) by (simp add: estimate_def e_def estimator_of sketch_of_fields f64_as_u64_def)
    moreover have "v \<le> real (nat \<lceil>v\<rceil>)" "real (nat \<lceil>v\<rceil>) \<le> v + 1" using pos by linarith+
    ultimately show ?thesis using near by linarith
  qed
  then show ?thesis by (simp add: estimate_def e_def estimator_of sketch_of_fields Let_def)
qed

theorem output_estimate_accurate_witness:
  "real (estimate (foldl estimator_record (estimator_new 100) (replicate 20 50)) None) \<le> 52
   \<and> estimate (foldl estimator_record (estimator_new 100) [1, 2]) None = 100"
  using output_estimate_accurate[of "replicate 20 50" 100 0] output_estimate_accurate[of "[1, 2]" 100 0]
  by (simp add: sorted_sort_id)

end
