(* ===== verification/Quota.thy ===== *)
theory Quota
  imports PT_Core
begin

text \<open>
  The Quota Coordinator (crate \<open>pt-quota\<close>): splitting one reservation's entitlement over
  the gateways that serve it (\<open>allocator.rs\<close>), and the leases with which they are granted
  their shares (\<open>coordinator.rs\<close>, \<open>wire.rs\<close>). The allocator's promise to the
  coordinator (shares of the right number, never negative, together at most the entitlement)
  is the locale \<open>share_allocator\<close>; \<open>allocate\<close> is its instance. The coordinator's maps are
  association lists, the gateways of a reservation sorted by id as in the source's
  \<open>BTreeMap\<close>. The two \<open>expect\<close> calls of a renewal are the result \<open>None\<close>, which the
  theorems exclude.
\<close>

section \<open>Allocator (allocator.rs)\<close>

fun water_fill :: "real list \<Rightarrow> nat list \<Rightarrow> real list \<Rightarrow> real \<Rightarrow> real list \<times> real" where
  "water_fill demands [] fair remaining = (fair, remaining)"
| "water_fill demands (i # order) fair remaining =
     (let equal = remaining / real (length (i # order));
          give = min (max (demands ! i) 0) equal
      in water_fill demands order (fair[i := give]) (remaining - give))"

definition allocate :: "real \<Rightarrow> real \<Rightarrow> real list \<Rightarrow> real list" where
  "allocate entitlement floor_fraction demands =
     (let n = length demands
      in if n = 0 \<or> entitlement \<le> 0 then replicate n 0
         else let floor_fraction = clamp 0 1 floor_fraction;
                  flr = entitlement * floor_fraction / real n;
                  pool = entitlement * (1 - floor_fraction);
                  order = sort_key (\<lambda>i. demands ! i) [0..<n];
                  (fair, remaining) = water_fill demands order (replicate n 0) pool;
                  leftover_each = remaining / real n
              in map (\<lambda>f. flr + f + leftover_each) fair)"

section \<open>Messages (wire.rs)\<close>

record reservation_demand =
  rd_id :: string
  rd_entitlement_wu_s :: real
  rd_snapshot_version :: nat
  rd_demand_wu_s :: f64_wire
  rd_held_wu_s :: f64_wire

record renew_request =
  rq_gateway_id :: string
  rq_reservations :: "reservation_demand list"

record lease =
  ls_id :: string
  ls_rate_wu_s :: real
  ls_active_gateways :: nat

record renew_response =
  rs_warming_up :: bool
  rs_ttl_ms :: nat
  rs_leases :: "lease list"

section \<open>Coordinator (coordinator.rs)\<close>

record coordinator_config =
  lease_ttl :: duration
  floor_fraction :: real

definition grant_hold :: "coordinator_config \<Rightarrow> duration" where
  "grant_hold c = lease_ttl c * 3 div 2"

definition coordinator_config_default :: coordinator_config where
  "coordinator_config_default = \<lparr>lease_ttl = from_secs 1, floor_fraction = 1/10\<rparr>"

record gateway =
  gw_demand :: real
  gw_last_seen :: instant
  gw_grant :: real
  gw_grant_expires :: instant

record reservation =
  rv_entitlement :: real
  rv_version :: nat
  rv_gateways :: "(string \<times> gateway) list"

definition reservation_default :: reservation where
  "reservation_default = \<lparr>rv_entitlement = 0, rv_version = 0, rv_gateways = []\<rparr>"

record coordinator =
  co_config :: coordinator_config
  co_reservations :: "(string \<times> reservation) list"
  co_warm_until :: "instant option"

record gateway_view =
  gv_id :: string
  gv_demand_wu_s :: real
  gv_grant_wu_s :: real

record reservation_view =
  rvw_id :: string
  rvw_entitlement_wu_s :: real
  rvw_snapshot_version :: nat
  rvw_granted_wu_s :: real
  rvw_gateways :: "gateway_view list"

definition coordinator_new :: "coordinator_config \<Rightarrow> coordinator" where
  "coordinator_new config = \<lparr>co_config = config, co_reservations = [], co_warm_until = None\<rparr>"

definition begin_term :: "coordinator \<Rightarrow> instant \<Rightarrow> bool \<Rightarrow> coordinator" where
  "begin_term c now warm_up =
     c\<lparr>co_reservations := [],
       co_warm_until := (if warm_up then Some (now + grant_hold (co_config c)) else None)\<rparr>"

definition warming_up :: "coordinator \<Rightarrow> instant \<Rightarrow> bool" where
  "warming_up c now = (case co_warm_until c of Some u \<Rightarrow> now < u | None \<Rightarrow> False)"

text \<open>Sum of the grants not yet expired, of all gateways that satisfy a predicate.\<close>

definition granted_sum :: "(string \<Rightarrow> bool) \<Rightarrow> instant \<Rightarrow> (string \<times> gateway) list \<Rightarrow> real" where
  "granted_sum p now gws = (\<Sum>(i, g)\<leftarrow>filter (\<lambda>(i, g). p i \<and> now < gw_grant_expires g) gws. gw_grant g)"

definition prune :: "duration \<Rightarrow> instant \<Rightarrow> (string \<times> gateway) list \<Rightarrow> (string \<times> gateway) list" where
  "prune hold now gws = filter (\<lambda>(i, g). saturating_duration_since now (gw_last_seen g) \<le> hold) gws"

text \<open>
  The body of the renewal loop for one reservation of the request: take over a newer
  entitlement, note the gateway and forget silent ones, compute the grant, and record it.
\<close>

definition renew_snapshot :: "reservation \<Rightarrow> reservation_demand \<Rightarrow> reservation" where
  "renew_snapshot r d =
     (if rv_version r \<le> rd_snapshot_version d
      then r\<lparr>rv_entitlement := max (rd_entitlement_wu_s d) 0, rv_version := rd_snapshot_version d\<rparr>
      else r)"

definition renew_touch ::
  "duration \<Rightarrow> string \<Rightarrow> instant \<Rightarrow> real \<Rightarrow> (string \<times> gateway) list \<Rightarrow> (string \<times> gateway) list" where
  "renew_touch hold gid now demand gws =
     (let g = (case map_of gws gid of
                 Some g \<Rightarrow> g
               | None \<Rightarrow> \<lparr>gw_demand = demand, gw_last_seen = now, gw_grant = 0, gw_grant_expires = now\<rparr>);
          g = g\<lparr>gw_demand := demand, gw_last_seen := now\<rparr>
      in prune hold now (bt_put gid g gws))"

definition renew_grant ::
  "coordinator_config \<Rightarrow> bool \<Rightarrow> string \<Rightarrow> instant \<Rightarrow> f64_wire \<Rightarrow> real \<Rightarrow> (string \<times> gateway) list \<Rightarrow> nat \<Rightarrow> real" where
  "renew_grant config warming gid now held entitlement gws pos =
     (let targets = allocate entitlement (floor_fraction config) (map (gw_demand \<circ> snd) gws);
          others = granted_sum (\<lambda>i. i \<noteq> gid) now gws;
          grant = min (targets ! pos) (max (entitlement - others) 0)
      in if warming then min grant (finite_max0 held) else grant)"

definition renew_one ::
  "coordinator_config \<Rightarrow> bool \<Rightarrow> string \<Rightarrow> instant \<Rightarrow> reservation \<Rightarrow> reservation_demand
   \<Rightarrow> (reservation \<times> lease option) option" where
  "renew_one config warming gid now r d =
     (let hold = grant_hold config;
          r = renew_snapshot r d;
          demand = finite_max0 (rd_demand_wu_s d);
          gws = renew_touch hold gid now demand (rv_gateways r)
      in case position (\<lambda>i. i = gid) (map fst gws) of
           None \<Rightarrow> None
         | Some pos \<Rightarrow>
             (let grant = renew_grant config warming gid now (rd_held_wu_s d) (rv_entitlement r) gws pos;
                  active = length gws
              in case map_of gws gid of
                   None \<Rightarrow> None
                 | Some g \<Rightarrow>
                     (let g = g\<lparr>gw_grant := grant, gw_grant_expires := now + hold\<rparr>;
                          r = r\<lparr>rv_gateways := bt_put gid g gws\<rparr>
                      in Some (r, if warming \<and> grant \<le> 0 then None
                                  else Some \<lparr>ls_id = rd_id d, ls_rate_wu_s = grant,
                                             ls_active_gateways = active\<rparr>))))"

fun renew_loop ::
  "coordinator_config \<Rightarrow> bool \<Rightarrow> string \<Rightarrow> instant \<Rightarrow> reservation_demand list
   \<Rightarrow> (string \<times> reservation) list \<Rightarrow> lease list \<Rightarrow> ((string \<times> reservation) list \<times> lease list) option" where
  "renew_loop config warming gid now [] all leases = Some (all, leases)"
| "renew_loop config warming gid now (d # ds) all leases =
     (let r = (case map_of all (rd_id d) of Some r \<Rightarrow> r | None \<Rightarrow> reservation_default)
      in case renew_one config warming gid now r d of
           None \<Rightarrow> None
         | Some (r', l) \<Rightarrow>
             renew_loop config warming gid now ds (AList.update (rd_id d) r' all)
               (case l of Some l \<Rightarrow> leases @ [l] | None \<Rightarrow> leases))"

definition renew :: "coordinator \<Rightarrow> renew_request \<Rightarrow> instant \<Rightarrow> (coordinator \<times> renew_response) option" where
  "renew c req now =
     (let hold = grant_hold (co_config c);
          warming = warming_up c now
      in case renew_loop (co_config c) warming (rq_gateway_id req) now (rq_reservations req) (co_reservations c) [] of
           None \<Rightarrow> None
         | Some (all, leases) \<Rightarrow>
             (let all = map (\<lambda>(i, r). (i, r\<lparr>rv_gateways := prune hold now (rv_gateways r)\<rparr>)) all;
                  all = filter (\<lambda>(i, r). rv_gateways r \<noteq> []) all
              in Some (c\<lparr>co_reservations := all\<rparr>,
                       \<lparr>rs_warming_up = warming, rs_ttl_ms = as_millis (lease_ttl (co_config c)),
                        rs_leases = leases\<rparr>)))"

definition view :: "coordinator \<Rightarrow> instant \<Rightarrow> reservation_view list" where
  "view c now =
     sort_key rvw_id
       (map (\<lambda>(i, r). \<lparr>rvw_id = i, rvw_entitlement_wu_s = rv_entitlement r, rvw_snapshot_version = rv_version r,
                        rvw_granted_wu_s = granted_sum (\<lambda>_. True) now (rv_gateways r),
                        rvw_gateways = map (\<lambda>(gi, g). \<lparr>gv_id = gi, gv_demand_wu_s = gw_demand g,
                            gv_grant_wu_s = (if now < gw_grant_expires g then gw_grant g else 0)\<rparr>) (rv_gateways r)\<rparr>)
            (co_reservations c))"

section \<open>Properties of the allocator\<close>

text \<open>
  Water-filling over distinct indices that still hold zero: it only moves the pool into the
  list, leaves other indices alone, and never gives more than demanded or than an equal part.
\<close>

lemma water_fill_frame:
  "water_fill demands order fair remaining = (fair', remaining') \<Longrightarrow>
   length fair' = length fair \<and> (\<forall>i. i \<notin> set order \<longrightarrow> fair' ! i = fair ! i)"
proof (induction demands order fair remaining rule: water_fill.induct)
  case (1 demands fair remaining)
  then show ?case by simp
next
  case (2 demands i order fair remaining)
  from "2.IH"[OF refl refl] "2.prems" show ?case by (auto simp: Let_def)
qed

lemma sum_list_update_real:
  fixes xs :: "real list"
  assumes "i < length xs"
  shows "sum_list (xs[i := y]) = sum_list xs - xs ! i + y"
  using assms by (induction xs arbitrary: i) (auto split: nat.split simp: nth_Cons list_update.simps)

lemma water_fill_sum:
  assumes "water_fill demands order fair remaining = (fair', remaining')"
    and "distinct order" and "\<forall>i\<in>set order. i < length fair \<and> fair ! i = 0"
  shows "sum_list fair' + remaining' = sum_list fair + remaining"
  using assms
proof (induction demands order fair remaining rule: water_fill.induct)
  case (1 demands fair remaining)
  then show ?case by simp
next
  case (2 demands i order fair remaining)
  define give where "give = min (max (demands ! i) 0) (remaining / real (length (i # order)))"
  have "sum_list fair' + remaining' = sum_list (fair[i := give]) + (remaining - give)"
    using "2.IH"[OF refl refl] "2.prems" by (auto simp: give_def Let_def nth_list_update)
  moreover have "sum_list (fair[i := give]) = sum_list fair + give"
    using "2.prems"(3) by (simp add: sum_list_update_real)
  ultimately show ?case by simp
qed

lemma water_fill_nonneg:
  assumes "water_fill demands order fair remaining = (fair', remaining')"
    and "0 \<le> remaining" and "\<forall>x\<in>set fair. 0 \<le> x"
  shows "0 \<le> remaining' \<and> (\<forall>x\<in>set fair'. 0 \<le> x)"
  using assms
proof (induction demands order fair remaining rule: water_fill.induct)
  case (1 demands fair remaining)
  then show ?case by simp
next
  case (2 demands i order fair remaining)
  define give where "give = min (max (demands ! i) 0) (remaining / real (length (i # order)))"
  have part: "0 \<le> remaining / real (length (i # order))" "remaining / real (length (i # order)) \<le> remaining"
    using "2.prems"(2) divide_left_mono[of 1 "real (length (i # order))" remaining] by simp_all
  have give: "0 \<le> give" "0 \<le> remaining - give"
    unfolding give_def using part by linarith+
  have "\<forall>x\<in>set (fair[i := give]). 0 \<le> x"
    using "2.prems"(3) give(1) set_update_subset_insert[of fair i give] by blast
  moreover have "water_fill demands order (fair[i := give]) (remaining - give) = (fair', remaining')"
    using "2.prems"(1) by (simp add: give_def Let_def)
  ultimately show ?case
    using "2.IH"[OF refl refl, folded give_def] give(2) by blast
qed

lemma water_fill_step:
  assumes "water_fill demands (i # order) fair remaining = (fair', remaining')"
  obtains give where "give = min (max (demands ! i) 0) (remaining / real (length (i # order)))"
    and "water_fill demands order (fair[i := give]) (remaining - give) = (fair', remaining')"
  using assms by (auto simp: Let_def)

lemma water_fill_head:
  assumes "water_fill demands (i # order) fair remaining = (fair', remaining')"
    and "i \<notin> set order" and "i < length fair"
  shows "fair' ! i = min (max (demands ! i) 0) (remaining / real (length (i # order)))"
proof -
  from assms(1) obtain give
    where give: "give = min (max (demands ! i) 0) (remaining / real (length (i # order)))"
      and rec: "water_fill demands order (fair[i := give]) (remaining - give) = (fair', remaining')"
    by (rule water_fill_step)
  have "fair' ! i = fair[i := give] ! i" using water_fill_frame[OF rec] assms(2) by blast
  then show ?thesis using assms(3) give by simp
qed

lemma equal_part_grows:
  fixes remaining :: real
  assumes "give \<le> remaining / real (Suc m)" and "0 < m"
  shows "remaining / real (Suc m) \<le> (remaining - give) / real m"
proof -
  define x where "x = remaining / real (Suc m)"
  have "remaining = x * real (Suc m)" by (simp add: x_def)
  also have "\<dots> = x + x * real m" by (simp add: algebra_simps)
  finally have "x * real m \<le> remaining - give" using assms(1) unfolding x_def[symmetric] by linarith
  then have "x \<le> (remaining - give) / real m" using assms(2) by (simp add: pos_le_divide_eq)
  then show ?thesis by (simp add: x_def)
qed

text \<open>Once the equal part is below every demand left, everyone left gets the equal part.\<close>

lemma water_fill_equal:
  assumes "water_fill demands order fair remaining = (fair', remaining')"
    and "distinct order" and "\<forall>i\<in>set order. i < length fair" and "order \<noteq> []"
    and "remaining = real (length order) * q" and "\<forall>i\<in>set order. q \<le> max (demands ! i) 0"
  shows "remaining' = 0 \<and> (\<forall>i\<in>set order. fair' ! i = q)"
  using assms
proof (induction order arbitrary: fair remaining)
  case Nil
  then show ?case by simp
next
  case (Cons i order)
  from Cons.prems(1) obtain give
    where give: "give = min (max (demands ! i) 0) (remaining / real (length (i # order)))"
      and rec: "water_fill demands order (fair[i := give]) (remaining - give) = (fair', remaining')"
    by (rule water_fill_step)
  have q: "remaining / real (length (i # order)) = q" using Cons.prems(5) by simp
  have g: "give = q" unfolding give q using Cons.prems(6) by simp
  have hd: "fair' ! i = q" using water_fill_head[OF Cons.prems(1)] Cons.prems(2,3) g give by simp
  show ?case
  proof (cases "order = []")
    case True
    then show ?thesis using rec Cons.prems(5) g hd by simp
  next
    case False
    have "remaining - give = real (length order) * q" using Cons.prems(5) g by (simp add: algebra_simps)
    then have "remaining' = 0 \<and> (\<forall>j\<in>set order. fair' ! j = q)"
      using Cons.IH[OF rec] Cons.prems(2,3,6) False by simp
    with hd show ?thesis by simp
  qed
qed

lemma water_fill_lower:
  assumes "water_fill demands order fair remaining = (fair', remaining')"
    and "distinct order" and "\<forall>i\<in>set order. i < length fair" and "i \<in> set order"
  shows "min (max (demands ! i) 0) (remaining / real (length order)) \<le> fair' ! i
    \<and> fair' ! i \<le> max (demands ! i) 0"
  using assms
proof (induction order arbitrary: fair remaining)
  case Nil
  then show ?case by simp
next
  case (Cons k order)
  from Cons.prems(1) obtain give
    where give: "give = min (max (demands ! k) 0) (remaining / real (length (k # order)))"
      and rec: "water_fill demands order (fair[k := give]) (remaining - give) = (fair', remaining')"
    by (rule water_fill_step)
  show ?case
  proof (cases "i = k")
    case True
    then show ?thesis using water_fill_head[OF Cons.prems(1)] Cons.prems(2,3) by simp
  next
    case False
    then have i: "i \<in> set order" using Cons.prems(4) by simp
    then have "remaining / real (length (k # order)) \<le> (remaining - give) / real (length order)"
      using equal_part_grows[of give remaining "length order"] give by (cases order) auto
    moreover have "min (max (demands ! i) 0) ((remaining - give) / real (length order)) \<le> fair' ! i
        \<and> fair' ! i \<le> max (demands ! i) 0"
      using Cons.IH[OF rec] Cons.prems(2,3) i by simp
    ultimately show ?thesis by linarith
  qed
qed

lemma water_fill_max_min:
  assumes "water_fill demands order fair remaining = (fair', remaining')"
    and "distinct order" and "\<forall>i\<in>set order. i < length fair"
    and "sorted (map (\<lambda>i. demands ! i) order)"
    and "i \<in> set order" and "fair' ! i < max (demands ! i) 0"
  shows "remaining' = 0 \<and> (\<forall>j\<in>set order. fair' ! j \<le> fair' ! i)"
  using assms
proof (induction order arbitrary: fair remaining)
  case Nil
  then show ?case by simp
next
  case (Cons k order)
  from Cons.prems(1) obtain give
    where give: "give = min (max (demands ! k) 0) (remaining / real (length (k # order)))"
      and rec: "water_fill demands order (fair[k := give]) (remaining - give) = (fair', remaining')"
    by (rule water_fill_step)
  have hd: "fair' ! k = give"
    using water_fill_head[OF Cons.prems(1)] Cons.prems(2,3) give by simp
  let ?q = "remaining / real (length (k # order))"
  show ?case
  proof (cases "i = k")
    case True
    have "give < max (demands ! k) 0" using Cons.prems(6) True hd by simp
    then have gd: "?q < max (demands ! k) 0" by (simp add: give min_less_iff_disj)
    have "?q \<le> max (demands ! j) 0" if "j \<in> set (k # order)" for j
    proof -
      have "demands ! k \<le> demands ! j" using that Cons.prems(4) by auto
      then show ?thesis using gd by linarith
    qed
    then have all: "\<forall>j\<in>set (k # order). ?q \<le> max (demands ! j) 0" by blast
    have "remaining = real (length (k # order)) * ?q" by simp
    from water_fill_equal[OF Cons.prems(1,2,3) _ this all]
    have "remaining' = 0 \<and> (\<forall>j\<in>set (k # order). fair' ! j = ?q)" by blast
    then show ?thesis using True by simp
  next
    case False
    then have i: "i \<in> set order" using Cons.prems(5) by simp
    have IH: "remaining' = 0 \<and> (\<forall>j\<in>set order. fair' ! j \<le> fair' ! i)"
      using Cons.IH[OF rec] Cons.prems(2,3,4,6) i by simp
    have "?q \<le> (remaining - give) / real (length order)"
      using equal_part_grows[of give remaining "length order"] give i by (cases order) auto
    moreover have "min (max (demands ! i) 0) ((remaining - give) / real (length order)) \<le> fair' ! i"
      using water_fill_lower[OF rec _ _ i] Cons.prems(2,3) by simp
    ultimately have "fair' ! k \<le> fair' ! i" using Cons.prems(6) hd give by linarith
    with IH show ?thesis by simp
  qed
qed

lemma allocate_unfold:
  assumes "0 < entitlement" and "demands \<noteq> []"
  obtains flr fair left where
    "flr = entitlement * clamp 0 1 ff / real (length demands)"
    "allocate entitlement ff demands = map (\<lambda>f. flr + f + left / real (length demands)) fair"
    "length fair = length demands" "sum_list fair + left = entitlement * (1 - clamp 0 1 ff)"
    "0 \<le> left" "\<forall>x\<in>set fair. 0 \<le> x"
    "\<And>i j. i < length demands \<Longrightarrow> j < length demands \<Longrightarrow> fair ! i < max (demands ! i) 0 \<Longrightarrow>
       left = 0 \<and> fair ! j \<le> fair ! i"
proof -
  let ?n = "length demands"
  let ?order = "sort_key (\<lambda>i. demands ! i) [0..<?n]"
  let ?pool = "entitlement * (1 - clamp 0 1 ff)"
  obtain fair left where wf: "water_fill demands ?order (replicate ?n 0) ?pool = (fair, left)"
    by fastforce
  have ord: "distinct ?order" "\<forall>i\<in>set ?order. i < length (replicate ?n 0) \<and> replicate ?n 0 ! i = (0::real)"
    "set ?order = {0..<?n}"
    by auto
  have srt: "sorted (map (\<lambda>i. demands ! i) ?order)" by (rule sorted_sort_key)
  have pool: "0 \<le> ?pool" using assms(1) by (auto simp: clamp_def)
  have sum: "sum_list fair + left = ?pool"
    using water_fill_sum[OF wf ord(1,2)] by (simp add: sum_list_replicate)
  have nn: "0 \<le> left \<and> (\<forall>x\<in>set fair. 0 \<le> x)"
    using water_fill_nonneg[OF wf pool] by simp
  have mm: "left = 0 \<and> fair ! j \<le> fair ! i"
    if "i < ?n" "j < ?n" "fair ! i < max (demands ! i) 0" for i j
    using water_fill_max_min[OF wf ord(1) _ srt] ord that by auto
  have "allocate entitlement ff demands
      = map (\<lambda>f. entitlement * clamp 0 1 ff / real ?n + f + left / real ?n) fair"
    using assms wf by (simp add: allocate_def Let_def)
  moreover have "length fair = ?n" using water_fill_frame[OF wf] by simp
  ultimately show ?thesis using that[OF refl] sum nn mm by blast
qed


text \<open>
  What the coordinator relies on in the allocator: one share per demand, no negative share,
  and shares that use up a positive entitlement exactly.
\<close>

locale share_allocator =
  fixes alloc :: "real \<Rightarrow> real list \<Rightarrow> real list"
  assumes length_alloc: "length (alloc e ds) = length ds"
    and alloc_nonneg: "x \<in> set (alloc e ds) \<Longrightarrow> 0 \<le> x"
    and alloc_sum: "0 < e \<Longrightarrow> ds \<noteq> [] \<Longrightarrow> sum_list (alloc e ds) = e"
begin

lemma alloc_sum_le:
  assumes "0 \<le> e"
  shows "sum_list (alloc e ds) \<le> e \<or> e = 0"
  using alloc_sum[of e ds] length_alloc[of e ds] assms by (cases "ds = []") (auto simp: less_eq_real_def)

text \<open>The grant: at most the target, at most what the others leave free.\<close>

lemma grant_nonneg:
  assumes "i < length ds"
  shows "0 \<le> min (alloc e ds ! i) (max (e - others) 0)"
  using alloc_nonneg[of "alloc e ds ! i" e ds] assms length_alloc[of e ds] by simp

lemma grant_fits: "min (alloc e ds ! i) (max (e - others) 0) + others \<le> max e others"
  by linarith

lemma grant_reaches:
  assumes "0 < e" and "i < length ds" and "others + alloc e ds ! i \<le> sum_list (alloc e ds)"
  shows "min (alloc e ds ! i) (max (e - others) 0) = alloc e ds ! i"
proof -
  have "ds \<noteq> []" using assms(2) by auto
  then have "sum_list (alloc e ds) = e" using assms(1) alloc_sum by blast
  then show ?thesis using assms(3) by linarith
qed

lemma sole_demand_gets_all:
  assumes "0 < e"
  shows "alloc e [d] = [e]"
  using alloc_sum[OF assms, of "[d]"] length_alloc[of e "[d]"] by (cases "alloc e [d]") auto

end

lemma sum_list_add_const:
  fixes xs :: "real list"
  shows "(\<Sum>f\<leftarrow>xs. a + f + b) = sum_list xs + real (length xs) * (a + b)"
  by (induction xs) (auto simp: algebra_simps)

lemma length_allocate: "length (allocate e ff ds) = length ds"
proof (cases "ds = [] \<or> e \<le> 0")
  case True
  then show ?thesis by (auto simp: allocate_def Let_def)
next
  case False
  then obtain flr fair left where
    "allocate e ff ds = map (\<lambda>f. flr + f + left / real (length ds)) fair" "length fair = length ds"
    using allocate_unfold[of e ds ff] by (metis not_le)
  then show ?thesis by simp
qed

lemma allocate_sum:
  assumes "0 < e" and "ds \<noteq> []"
  shows "sum_list (allocate e ff ds) = e"
proof -
  let ?n = "real (length ds)"
  obtain flr fair left where a: "flr = e * clamp 0 1 ff / ?n"
    "allocate e ff ds = map (\<lambda>f. flr + f + left / ?n) fair"
    "length fair = length ds" "sum_list fair + left = e * (1 - clamp 0 1 ff)"
    using allocate_unfold[OF assms] by metis
  have n: "0 < ?n" using assms(2) by simp
  have "sum_list (allocate e ff ds) = sum_list fair + ?n * (flr + left / ?n)"
    by (simp add: a(2,3) sum_list_add_const)
  also have "?n * (flr + left / ?n) = e * clamp 0 1 ff + left"
    using n by (simp add: a(1) distrib_left)
  also have "sum_list fair + (e * clamp 0 1 ff + left) = e"
    using a(4) by (simp add: algebra_simps)
  finally show ?thesis .
qed

lemma allocate_floor:
  assumes "0 < e" and "x \<in> set (allocate e ff ds)"
  shows "e * clamp 0 1 ff / real (length ds) \<le> x"
proof -
  have ne: "ds \<noteq> []" using assms(2) length_allocate[of e ff ds] by auto
  obtain flr fair left where a: "flr = e * clamp 0 1 ff / real (length ds)"
    "allocate e ff ds = map (\<lambda>f. flr + f + left / real (length ds)) fair"
    "0 \<le> left" "\<forall>x\<in>set fair. 0 \<le> x"
    using allocate_unfold[OF assms(1) ne, of ff] by metis
  from assms(2) obtain f where "f \<in> set fair" "x = flr + f + left / real (length ds)"
    unfolding a(2) by auto
  moreover have "0 \<le> left / real (length ds)" using a(3) by simp
  ultimately show ?thesis using a(1,4) by fastforce
qed

lemma allocate_nonneg: "x \<in> set (allocate e ff ds) \<Longrightarrow> 0 \<le> x"
proof (cases "0 < e")
  case True
  assume "x \<in> set (allocate e ff ds)"
  then have "e * clamp 0 1 ff / real (length ds) \<le> x" by (rule allocate_floor[OF True])
  moreover have "0 \<le> e * clamp 0 1 ff / real (length ds)"
    using True clamp_bounds[of 0 "1::real" ff] by simp
  ultimately show ?thesis by linarith
next
  case False
  assume "x \<in> set (allocate e ff ds)"
  then show ?thesis using False by (auto simp: allocate_def Let_def)
qed

lemma allocate_max_min:
  assumes "0 < e" and "i < length ds" and "j < length ds"
    and "allocate e ff ds ! i < e * clamp 0 1 ff / real (length ds) + max (ds ! i) 0"
  shows "allocate e ff ds ! j \<le> allocate e ff ds ! i"
proof -
  have ne: "ds \<noteq> []" using assms(2) by auto
  obtain flr fair left where a: "flr = e * clamp 0 1 ff / real (length ds)"
    "allocate e ff ds = map (\<lambda>f. flr + f + left / real (length ds)) fair"
    "length fair = length ds" "0 \<le> left"
    "\<And>i j. i < length ds \<Longrightarrow> j < length ds \<Longrightarrow> fair ! i < max (ds ! i) 0 \<Longrightarrow> left = 0 \<and> fair ! j \<le> fair ! i"
    using allocate_unfold[OF assms(1) ne, of ff] by metis
  have "0 \<le> left / real (length ds)" using a(4) by simp
  then have "fair ! i < max (ds ! i) 0" using assms(2,4) unfolding a(1,2)[symmetric] by (simp add: a(2,3))
  then have "left = 0 \<and> fair ! j \<le> fair ! i" using a(5) assms(2,3) by blast
  then show ?thesis using assms(2,3) by (simp add: a(2,3))
qed

interpretation shares: share_allocator "\<lambda>e ds. allocate e ff ds" for ff
  by unfold_locales (auto simp: length_allocate allocate_sum allocate_nonneg)

text \<open>
  C18. The split of a positive entitlement over at least one gateway is exact and max-min fair:
  the shares add up to the entitlement, every gateway keeps its equal part of the floor, and
  a gateway whose demand is not met in full on top of the floor has a share that no other
  exceeds.
\<close>

theorem allocate_exact_and_fair:
  assumes "0 < entitlement" and "demands \<noteq> []"
  shows "length (allocate entitlement ff demands) = length demands
    \<and> sum_list (allocate entitlement ff demands) = entitlement
    \<and> (\<forall>x\<in>set (allocate entitlement ff demands). entitlement * clamp 0 1 ff / real (length demands) \<le> x)
    \<and> (\<forall>i j. i < length demands \<and> j < length demands
          \<and> allocate entitlement ff demands ! i < entitlement * clamp 0 1 ff / real (length demands) + max (demands ! i) 0
        \<longrightarrow> allocate entitlement ff demands ! j \<le> allocate entitlement ff demands ! i)"
  using assms allocate_floor allocate_max_min shares.length_alloc shares.alloc_sum by blast

text \<open>Three gateways, one of them idle, one asking for more than there is.\<close>

theorem allocate_exact_and_fair_witness:
  "sum_list (allocate 1000 (1/10) [0, 100, 5000]) = 1000
    \<and> allocate 1000 (1/10) [0, 100, 5000] ! 2 = 100 / 3 + 800"
proof
  show "sum_list (allocate 1000 (1/10) [0, 100, 5000]) = 1000"
    using allocate_exact_and_fair[of 1000 "[0, 100, 5000]" "1/10"] by simp
  show "allocate 1000 (1/10) [0, 100, 5000] ! 2 = 100 / 3 + 800"
    by (simp add: allocate_def clamp_def Let_def upt_rec eval_nat_numeral)
qed

section \<open>Properties of the coordinator\<close>

text \<open>
  The invariant of a reservation: gateways in key order without duplicates, and every grant
  non-negative and counted until exactly one hold after its gateway was last seen. The last
  part is why forgetting a silent gateway never forgets a live grant.
\<close>

definition reservation_ok :: "duration \<Rightarrow> reservation \<Rightarrow> bool" where
  "reservation_ok hold r \<longleftrightarrow>
     sorted (map fst (rv_gateways r)) \<and> distinct (map fst (rv_gateways r))
   \<and> (\<forall>(i, g)\<in>set (rv_gateways r). 0 \<le> gw_grant g \<and> gw_grant_expires g = gw_last_seen g + hold)"

definition coordinator_ok :: "coordinator \<Rightarrow> bool" where
  "coordinator_ok c \<longleftrightarrow>
     distinct (map fst (co_reservations c))
   \<and> (\<forall>(i, r)\<in>set (co_reservations c). reservation_ok (grant_hold (co_config c)) r)"

lemma granted_sum_Nil [simp]: "granted_sum p t [] = 0"
  by (simp add: granted_sum_def)

lemma granted_sum_Cons [simp]:
  "granted_sum p t ((i, g) # gws) = (if p i \<and> t < gw_grant_expires g then gw_grant g else 0) + granted_sum p t gws"
  by (simp add: granted_sum_def)

lemma granted_sum_nonneg:
  "\<forall>(i, g)\<in>set gws. 0 \<le> gw_grant g \<Longrightarrow> 0 \<le> granted_sum p t gws"
  by (induction gws) auto

lemma granted_sum_absent:
  "gid \<notin> fst ` set gws \<Longrightarrow> granted_sum (\<lambda>i. p i \<and> i \<noteq> gid) t gws = granted_sum p t gws"
  by (induction gws) auto

lemma granted_sum_bt_put:
  assumes "sorted (map fst gws)" and "distinct (map fst gws)"
  shows "granted_sum p t (bt_put gid g gws)
    = granted_sum (\<lambda>i. p i \<and> i \<noteq> gid) t gws + (if p gid \<and> t < gw_grant_expires g then gw_grant g else 0)"
  using assms
proof (induction gws)
  case Nil
  then show ?case by simp
next
  case (Cons a gws)
  obtain k h where a: "a = (k, h)" by (cases a)
  have "gid < k \<Longrightarrow> gid \<notin> fst ` set gws" "gid = k \<Longrightarrow> gid \<notin> fst ` set gws"
    using Cons.prems a by auto
  then show ?case using Cons a granted_sum_absent[of gid gws p t] by auto
qed

lemma granted_sum_antimono:
  assumes "\<forall>(i, g)\<in>set gws. 0 \<le> gw_grant g" and "t \<le> t'" and "\<And>i. q i \<Longrightarrow> p i"
  shows "granted_sum q t' gws \<le> granted_sum p t gws"
  using assms by (induction gws) auto

text \<open>Pruning at \<open>now\<close> changes no sum of unexpired grants from \<open>now\<close> on.\<close>

lemma granted_sum_prune:
  assumes "\<forall>(i, g)\<in>set gws. p i \<longrightarrow> gw_grant_expires g \<le> gw_last_seen g + hold" and "now \<le> t"
  shows "granted_sum p t (prune hold now gws) = granted_sum p t gws"
  using assms
  by (induction gws) (auto simp: prune_def saturating_duration_since_def)

lemma prune_ok:
  "reservation_ok hold r \<Longrightarrow> reservation_ok hold (r\<lparr>rv_gateways := prune hold' now (rv_gateways r)\<rparr>)"
  by (auto simp: reservation_ok_def prune_def distinct_keys_filter sorted_keys_filter)

lemma in_bt_putD: "x \<in> set (bt_put k v xs) \<Longrightarrow> x = (k, v) \<or> x \<in> set xs"
  by (induction xs rule: bt_put.induct) (auto split: if_splits)

lemma bt_put_in: "(k, v) \<in> set (bt_put k v xs)"
  by (induction xs rule: bt_put.induct) auto

text \<open>The gateways after noting the calling one: it is there, the others are the unpruned ones.\<close>

lemma sorted_distinct_renew_touch:
  assumes "sorted (map fst gws) \<and> distinct (map fst gws)"
  shows "sorted (map fst (renew_touch hold gid now demand gws)) \<and> distinct (map fst (renew_touch hold gid now demand gws))"
  using sorted_distinct_bt_put[OF assms]
  by (simp add: renew_touch_def Let_def prune_def distinct_keys_filter sorted_keys_filter)

lemma map_of_renew_touch:
  assumes "sorted (map fst gws) \<and> distinct (map fst gws)"
  obtains g where "map_of (renew_touch hold gid now demand gws) gid = Some g"
    and "gw_demand g = demand" "gw_last_seen g = now"
proof -
  let ?g = "(case map_of gws gid of Some g \<Rightarrow> g
     | None \<Rightarrow> \<lparr>gw_demand = demand, gw_last_seen = now, gw_grant = 0, gw_grant_expires = now\<rparr>)
       \<lparr>gw_demand := demand, gw_last_seen := now\<rparr>"
  have "map_of (bt_put gid ?g gws) gid = Some ?g" using assms by simp
  then have "map_of (renew_touch hold gid now demand gws) gid = Some ?g"
    using sorted_distinct_bt_put[OF assms, of gid ?g]
    by (simp add: renew_touch_def Let_def prune_def map_of_filter_key saturating_duration_since_def)
  then show thesis by (rule that) simp_all
qed

lemma in_renew_touch:
  "x \<in> set (renew_touch hold gid now demand gws) \<Longrightarrow> fst x \<noteq> gid \<Longrightarrow> x \<in> set (prune hold now gws)"
  by (auto simp: renew_touch_def Let_def prune_def dest!: in_bt_putD)

lemma granted_sum_renew_touch:
  assumes "sorted (map fst gws)" "distinct (map fst gws)"
    and "\<forall>(i, g)\<in>set gws. gw_grant_expires g = gw_last_seen g + hold" and "now \<le> t"
  shows "granted_sum (\<lambda>i. i \<noteq> gid) t (renew_touch hold gid now demand gws) = granted_sum (\<lambda>i. i \<noteq> gid) t gws"
proof -
  let ?g = "(case map_of gws gid of Some g \<Rightarrow> g
     | None \<Rightarrow> \<lparr>gw_demand = demand, gw_last_seen = now, gw_grant = 0, gw_grant_expires = now\<rparr>)
       \<lparr>gw_demand := demand, gw_last_seen := now\<rparr>"
  have "\<forall>(i, g)\<in>set (bt_put gid ?g gws). i \<noteq> gid \<longrightarrow> gw_grant_expires g \<le> gw_last_seen g + hold"
    using assms(3) in_bt_putD[of _ gid ?g gws] by fastforce
  from granted_sum_prune[OF this assms(4)]
  show ?thesis by (simp add: renew_touch_def Let_def granted_sum_bt_put[OF assms(1,2)])
qed

lemma position_of_key:
  assumes "map_of gws gid = Some g"
  obtains pos where "position (\<lambda>i. i = gid) (map fst gws) = Some pos" "pos < length gws" "fst (gws ! pos) = gid"
proof -
  have "gid \<in> set (map fst gws)" using assms by (metis map_of_eq_None_iff option.distinct(1) list.set_map)
  then obtain pos where pos: "position (\<lambda>i. i = gid) (map fst gws) = Some pos"
    using position_None_iff[of "\<lambda>i. i = gid" "map fst gws"] by (metis option.exhaust)
  then show thesis using that[OF pos] position_SomeD[OF pos] by (metis length_map nth_map)
qed

lemma renew_grant_bounds:
  assumes "pos < length gws"
  shows "0 \<le> renew_grant config warming gid now held e gws pos"
    and "renew_grant config warming gid now held e gws pos \<le> max (e - granted_sum (\<lambda>i. i \<noteq> gid) now gws) 0"
    and "warming \<Longrightarrow> renew_grant config warming gid now held e gws pos \<le> finite_max0 held"
  using shares.grant_nonneg[of pos "map (gw_demand \<circ> snd) gws"] assms
  by (auto simp: renew_grant_def Let_def finite_max0_def split: f64_wire.split)

text \<open>The reservation with the grant recorded.\<close>

lemma in_bt_put_distinct:
  "sorted (map fst xs) \<Longrightarrow> distinct (map fst xs) \<Longrightarrow> (i, v') \<in> set (bt_put k v xs) \<Longrightarrow>
   (i = k \<and> v' = v) \<or> (i \<noteq> k \<and> (i, v') \<in> set xs)"
  using map_of_bt_put[of xs k v] sorted_distinct_bt_put[of xs k v]
  by (metis (no_types, lifting) fun_upd_apply map_of_SomeD map_of_is_SomeI option.inject)

text \<open>
  One reservation of a renewal: it never reaches an \<open>expect\<close>, keeps the invariant, and grants
  the calling gateway at most its target and at most what the others' live grants leave free.
\<close>

lemma renew_one_Some:
  assumes ok: "reservation_ok (grant_hold config) r"
  obtains gws pos grant g' where
    "gws = renew_touch (grant_hold config) gid now (finite_max0 (rd_demand_wu_s d)) (rv_gateways r)"
    "pos < length gws" "fst (gws ! pos) = gid" "sorted (map fst gws) \<and> distinct (map fst gws)"
    "grant = renew_grant config warming gid now (rd_held_wu_s d) (rv_entitlement (renew_snapshot r d)) gws pos"
    "g' = \<lparr>gw_demand = finite_max0 (rd_demand_wu_s d), gw_last_seen = now, gw_grant = grant,
           gw_grant_expires = now + grant_hold config\<rparr>"
    "renew_one config warming gid now r d = Some ((renew_snapshot r d)\<lparr>rv_gateways := bt_put gid g' gws\<rparr>,
       if warming \<and> grant \<le> 0 then None
       else Some \<lparr>ls_id = rd_id d, ls_rate_wu_s = grant, ls_active_gateways = length gws\<rparr>)"
proof -
  let ?demand = "finite_max0 (rd_demand_wu_s d)"
  let ?gws = "renew_touch (grant_hold config) gid now ?demand (rv_gateways r)"
  have same: "rv_gateways (renew_snapshot r d) = rv_gateways r" by (simp add: renew_snapshot_def)
  have sd: "sorted (map fst (rv_gateways r)) \<and> distinct (map fst (rv_gateways r))"
    using ok by (simp add: reservation_ok_def)
  obtain g where g: "map_of ?gws gid = Some g" "gw_demand g = ?demand" "gw_last_seen g = now"
    using map_of_renew_touch[OF sd] by blast
  obtain pos where pos: "position (\<lambda>i. i = gid) (map fst ?gws) = Some pos" "pos < length ?gws" "fst (?gws ! pos) = gid"
    using position_of_key[OF g(1)] by blast
  have upd: "g\<lparr>gw_grant := x, gw_grant_expires := y\<rparr>
      = \<lparr>gw_demand = ?demand, gw_last_seen = now, gw_grant = x, gw_grant_expires = y\<rparr>" for x y
    using g(2,3) by simp
  show thesis
    using that[OF refl pos(2,3) sorted_distinct_renew_touch[OF sd] refl refl] pos(1) g(1)
    by (simp add: renew_one_def Let_def same upd)
qed

lemma renew_one_ok:
  fixes r
  assumes ok: "reservation_ok hold r" and hold: "hold = grant_hold config"
    and run: "renew_one config warming gid now r d = Some (r', l)"
  shows "reservation_ok hold r'"
    and "rv_entitlement r' = rv_entitlement (renew_snapshot r d)"
    and "\<exists>grant. 0 \<le> grant \<and> (warming \<longrightarrow> grant \<le> finite_max0 (rd_held_wu_s d))
      \<and> grant \<le> max (rv_entitlement r' - granted_sum (\<lambda>i. i \<noteq> gid) now (rv_gateways r)) 0
      \<and> (\<forall>t\<ge>now. granted_sum (\<lambda>_. True) t (rv_gateways r')
           = granted_sum (\<lambda>i. i \<noteq> gid) t (rv_gateways r) + (if t < now + hold then grant else 0))
      \<and> (case l of None \<Rightarrow> warming \<and> grant = 0 | Some l \<Rightarrow> ls_rate_wu_s l = grant \<and> ls_id l = rd_id d)"
proof -
  have sd: "sorted (map fst (rv_gateways r))" "distinct (map fst (rv_gateways r))"
    "\<forall>(i, g)\<in>set (rv_gateways r). gw_grant_expires g = gw_last_seen g + hold"
    using ok by (auto simp: reservation_ok_def)
  obtain gws pos grant g' where
    u: "gws = renew_touch hold gid now (finite_max0 (rd_demand_wu_s d)) (rv_gateways r)"
      "pos < length gws" "fst (gws ! pos) = gid" "sorted (map fst gws) \<and> distinct (map fst gws)"
      "grant = renew_grant config warming gid now (rd_held_wu_s d) (rv_entitlement (renew_snapshot r d)) gws pos"
      "g' = \<lparr>gw_demand = finite_max0 (rd_demand_wu_s d), gw_last_seen = now, gw_grant = grant,
             gw_grant_expires = now + hold\<rparr>"
    and eq: "renew_one config warming gid now r d = Some ((renew_snapshot r d)\<lparr>rv_gateways := bt_put gid g' gws\<rparr>,
       if warming \<and> grant \<le> 0 then None
       else Some \<lparr>ls_id = rd_id d, ls_rate_wu_s = grant, ls_active_gateways = length gws\<rparr>)"
    unfolding hold by (rule renew_one_Some[OF ok[unfolded hold]])
  have r': "r' = (renew_snapshot r d)\<lparr>rv_gateways := bt_put gid g' gws\<rparr>"
    and l: "l = (if warming \<and> grant \<le> 0 then None
       else Some \<lparr>ls_id = rd_id d, ls_rate_wu_s = grant, ls_active_gateways = length gws\<rparr>)"
    using run eq by simp_all
  note gb = renew_grant_bounds[OF u(2), where config = config and warming = warming and gid = gid and now = now
      and held = "rd_held_wu_s d" and e = "rv_entitlement (renew_snapshot r d)", folded u(5)]
  have inner: "0 \<le> gw_grant g \<and> gw_grant_expires g = gw_last_seen g + hold"
    if "(i, g) \<in> set gws" "i \<noteq> gid" for i g
  proof -
    have "(i, g) \<in> set (prune hold now (rv_gateways r))"
      using in_renew_touch[of "(i, g)" hold gid now] that unfolding u(1) by simp
    then show ?thesis using ok by (auto simp: prune_def reservation_ok_def)
  qed
  show "reservation_ok hold r'"
    using sorted_distinct_bt_put[OF u(4)] in_bt_put_distinct[of gws] u(4,6) gb(1) inner
    by (fastforce simp: reservation_ok_def r')
  show "rv_entitlement r' = rv_entitlement (renew_snapshot r d)" by (simp add: r')
  have oth: "granted_sum (\<lambda>i. i \<noteq> gid) t gws = granted_sum (\<lambda>i. i \<noteq> gid) t (rv_gateways r)" if "now \<le> t" for t
    unfolding u(1) by (rule granted_sum_renew_touch[OF sd that])
  have "\<forall>t\<ge>now. granted_sum (\<lambda>_. True) t (rv_gateways r')
      = granted_sum (\<lambda>i. i \<noteq> gid) t (rv_gateways r) + (if t < now + hold then grant else 0)"
    using u(4) oth by (simp add: r' granted_sum_bt_put u(6))
  then show "\<exists>grant. 0 \<le> grant \<and> (warming \<longrightarrow> grant \<le> finite_max0 (rd_held_wu_s d))
      \<and> grant \<le> max (rv_entitlement r' - granted_sum (\<lambda>i. i \<noteq> gid) now (rv_gateways r)) 0
      \<and> (\<forall>t\<ge>now. granted_sum (\<lambda>_. True) t (rv_gateways r')
           = granted_sum (\<lambda>i. i \<noteq> gid) t (rv_gateways r) + (if t < now + hold then grant else 0))
      \<and> (case l of None \<Rightarrow> warming \<and> grant = 0 | Some l \<Rightarrow> ls_rate_wu_s l = grant \<and> ls_id l = rd_id d)"
    using gb oth[of now] by (intro exI[of _ grant]) (auto simp: l r')
qed

text \<open>
  The whole renewal. \<open>grants_within B T\<close> says that no reservation's entitlement, and from \<open>T\<close> on
  no reservation's live grants, exceed the bound \<open>B\<close> of that reservation.
\<close>

definition grants_within :: "(string \<Rightarrow> real) \<Rightarrow> instant \<Rightarrow> (string \<times> reservation) list \<Rightarrow> bool" where
  "grants_within B T all \<longleftrightarrow> (\<forall>(i, r)\<in>set all. rv_entitlement r \<le> B i
     \<and> (\<forall>t\<ge>T. granted_sum (\<lambda>_. True) t (rv_gateways r) \<le> B i))"

definition table_ok :: "duration \<Rightarrow> (string \<times> reservation) list \<Rightarrow> bool" where
  "table_ok hold all \<longleftrightarrow> distinct (map fst all) \<and> (\<forall>(i, r)\<in>set all. reservation_ok hold r)"

lemma reservation_default_ok [simp]: "reservation_ok hold reservation_default"
  by (simp add: reservation_ok_def reservation_default_def)

lemma grants_within_update:
  assumes "grants_within B T all" "distinct (map fst all)" "T \<le> T'"
    and "\<And>t. T' \<le> t \<Longrightarrow> rv_entitlement r \<le> B k \<and> granted_sum (\<lambda>_. True) t (rv_gateways r) \<le> B k"
  shows "grants_within B T' (AList.update k r all)"
  unfolding grants_within_def
proof clarify
  fix i r' assume "(i, r') \<in> set (AList.update k r all)"
  then consider "i = k" "r' = r" | "(i, r') \<in> set all" using in_alist_update[OF assms(2)] by blast
  then show "rv_entitlement r' \<le> B i \<and> (\<forall>t\<ge>T'. granted_sum (\<lambda>_. True) t (rv_gateways r') \<le> B i)"
  proof cases
    case 1
    then show ?thesis using assms(4) by blast
  next
    case 2
    then show ?thesis using assms(1,3) by (auto simp: grants_within_def)
  qed
qed

lemma renew_one_within:
  assumes ok: "reservation_ok hold r" and hold: "hold = grant_hold config"
    and run: "renew_one config warming gid now r d = Some (r', l)"
    and b: "rv_entitlement r \<le> b" "max (rd_entitlement_wu_s d) 0 \<le> b"
      "\<forall>t\<ge>T. granted_sum (\<lambda>_. True) t (rv_gateways r) \<le> b"
    and T: "T \<le> t" "now \<le> t"
  shows "rv_entitlement r' \<le> b \<and> granted_sum (\<lambda>_. True) t (rv_gateways r') \<le> b"
proof -
  note o = renew_one_ok[OF ok hold run]
  have nn: "\<forall>(i, g)\<in>set (rv_gateways r). 0 \<le> gw_grant g" using ok by (auto simp: reservation_ok_def)
  have e: "rv_entitlement r' \<le> b" using o(2) b(1,2) by (auto simp: renew_snapshot_def)
  let ?o = "\<lambda>t. granted_sum (\<lambda>i. i \<noteq> gid) t (rv_gateways r)"
  obtain grant where g: "0 \<le> grant" "grant \<le> max (rv_entitlement r' - ?o now) 0"
    "granted_sum (\<lambda>_. True) t (rv_gateways r') = ?o t + (if t < now + hold then grant else 0)"
    using o(3) T by blast
  have "?o t \<le> ?o now" "?o t \<le> granted_sum (\<lambda>_. True) t (rv_gateways r)"
    using granted_sum_antimono[OF nn] T by simp_all
  moreover have "granted_sum (\<lambda>_. True) t (rv_gateways r) \<le> b" using b(3) T by simp
  ultimately have "?o t + grant \<le> b" using g(1,2) e by linarith
  then show ?thesis using e g by auto
qed

lemma renew_loop_ok:
  assumes "table_ok hold all" and hold: "hold = grant_hold config"
  shows "\<exists>all' ls. renew_loop config warming gid now ds all leases = Some (all', leases @ ls)
    \<and> table_ok hold all'
    \<and> (\<forall>B T. grants_within B T all \<longrightarrow> (\<forall>d\<in>set ds. max (rd_entitlement_wu_s d) 0 \<le> B (rd_id d)) \<longrightarrow> grants_within B (max T now) all')
    \<and> (\<forall>l\<in>set ls. \<exists>d\<in>set ds. ls_id l = rd_id d \<and> 0 \<le> ls_rate_wu_s l
         \<and> (warming \<longrightarrow> ls_rate_wu_s l \<le> finite_max0 (rd_held_wu_s d)))"
  using assms(1)
proof (induction ds arbitrary: all leases)
  case Nil
  then show ?case by (auto simp: grants_within_def)
next
  case (Cons d ds)
  define r where "r = (case map_of all (rd_id d) of Some r \<Rightarrow> r | None \<Rightarrow> reservation_default)"
  have ok: "reservation_ok hold r"
    using Cons.prems by (auto simp: r_def table_ok_def split: option.split dest!: map_of_SomeD)
  obtain r' l where run: "renew_one config warming gid now r d = Some (r', l)"
    using renew_one_Some[OF ok[unfolded hold]] by metis
  note o = renew_one_ok[OF ok hold run]
  let ?all = "AList.update (rd_id d) r' all"
  let ?leases = "case l of Some l \<Rightarrow> leases @ [l] | None \<Rightarrow> leases"
  have "table_ok hold ?all"
    using Cons.prems o(1) in_alist_update[of all] by (fastforce simp: table_ok_def distinct_update)
  from Cons.IH[OF this, of ?leases] obtain all' ls where
    IH: "renew_loop config warming gid now ds ?all ?leases = Some (all', ?leases @ ls)" "table_ok hold all'"
      "\<And>B T. grants_within B T ?all \<Longrightarrow> \<forall>d\<in>set ds. max (rd_entitlement_wu_s d) 0 \<le> B (rd_id d) \<Longrightarrow> grants_within B (max T now) all'"
      "\<forall>l\<in>set ls. \<exists>d\<in>set ds. ls_id l = rd_id d \<and> 0 \<le> ls_rate_wu_s l
         \<and> (warming \<longrightarrow> ls_rate_wu_s l \<le> finite_max0 (rd_held_wu_s d))"
    by blast
  have eq: "renew_loop config warming gid now (d # ds) all leases = Some (all', leases @ ((case l of Some l \<Rightarrow> [l] | None \<Rightarrow> []) @ ls))"
    using run IH(1) by (simp add: r_def[symmetric] split: option.splits)
  have w: "grants_within B (max T now) all'"
    if "grants_within B T all" "\<forall>d\<in>set (d # ds). max (rd_entitlement_wu_s d) 0 \<le> B (rd_id d)" for B T
  proof -
    have bd: "max (rd_entitlement_wu_s d) 0 \<le> B (rd_id d)" using that(2) by simp
    have "rv_entitlement r \<le> B (rd_id d)" "\<forall>t\<ge>T. granted_sum (\<lambda>_. True) t (rv_gateways r) \<le> B (rd_id d)"
      using that by (auto simp: r_def grants_within_def reservation_default_def split: option.split dest!: map_of_SomeD)
    then have "rv_entitlement r' \<le> B (rd_id d) \<and> granted_sum (\<lambda>_. True) t (rv_gateways r') \<le> B (rd_id d)"
      if "max T now \<le> t" for t
      using renew_one_within[OF ok hold run, of "B (rd_id d)" T t] that bd by simp
    then have "grants_within B (max T now) ?all"
      using that(1) Cons.prems by (intro grants_within_update[of B T]) (auto simp: table_ok_def)
    then have "grants_within B (max (max T now) now) all'" using IH(3)[of B "max T now"] that(2) by simp
    then show ?thesis by simp
  qed
  have "\<forall>l'\<in>set ((case l of Some l \<Rightarrow> [l] | None \<Rightarrow> []) @ ls). \<exists>d\<in>set (d # ds). ls_id l' = rd_id d \<and> 0 \<le> ls_rate_wu_s l'
         \<and> (warming \<longrightarrow> ls_rate_wu_s l' \<le> finite_max0 (rd_held_wu_s d))"
    using IH(4) o(3) by (auto split: option.splits)
  then show ?case using eq IH(2) w by blast
qed

text \<open>The final sweep over all reservations keeps the invariant and every live grant.\<close>

definition sweep :: "duration \<Rightarrow> instant \<Rightarrow> (string \<times> reservation) list \<Rightarrow> (string \<times> reservation) list" where
  "sweep hold now all =
     filter (\<lambda>(i, r). rv_gateways r \<noteq> []) (map (\<lambda>(i, r). (i, r\<lparr>rv_gateways := prune hold now (rv_gateways r)\<rparr>)) all)"

lemma sweep_ok:
  assumes "table_ok hold all"
  shows "table_ok hold (sweep hold now all)"
    and "grants_within B T all \<Longrightarrow> now \<le> T \<Longrightarrow> grants_within B T (sweep hold now all)"
proof -
  let ?f = "\<lambda>(i, r). (i, r\<lparr>rv_gateways := prune hold now (rv_gateways r)\<rparr>)"
  have "map fst (map ?f all) = map fst all" by auto
  then have "distinct (map fst (sweep hold now all))"
    using assms unfolding sweep_def table_ok_def by (metis (no_types, lifting) distinct_keys_filter)
  moreover have "reservation_ok hold r" if "(i, r) \<in> set (sweep hold now all)" for i r
    using that assms prune_ok by (fastforce simp: sweep_def table_ok_def)
  ultimately show "table_ok hold (sweep hold now all)" by (auto simp: table_ok_def)
  assume w: "grants_within B T all" and T: "now \<le> T"
  have "granted_sum (\<lambda>_. True) t (prune hold now (rv_gateways r)) = granted_sum (\<lambda>_. True) t (rv_gateways r)"
    if "(i, r) \<in> set all" "T \<le> t" for i r t
    using that assms T by (intro granted_sum_prune) (fastforce simp: table_ok_def reservation_ok_def)+
  with w show "grants_within B T (sweep hold now all)"
    by (fastforce simp: grants_within_def sweep_def)
qed

lemma renew_unfold:
  "renew c req now =
     (case renew_loop (co_config c) (warming_up c now) (rq_gateway_id req) now (rq_reservations req) (co_reservations c) [] of
        None \<Rightarrow> None
      | Some (all, leases) \<Rightarrow>
          Some (c\<lparr>co_reservations := sweep (grant_hold (co_config c)) now all\<rparr>,
                \<lparr>rs_warming_up = warming_up c now, rs_ttl_ms = as_millis (lease_ttl (co_config c)), rs_leases = leases\<rparr>))"
  by (simp add: renew_def sweep_def Let_def split: option.splits prod.splits)

lemma coordinator_ok_table: "coordinator_ok c \<longleftrightarrow> table_ok (grant_hold (co_config c)) (co_reservations c)"
  by (simp add: coordinator_ok_def table_ok_def)

lemma renew_ok:
  assumes "coordinator_ok c"
  obtains c' resp where "renew c req now = Some (c', resp)"
    and "coordinator_ok c'" "co_config c' = co_config c"
    and "\<And>B T. grants_within B T (co_reservations c) \<Longrightarrow>
          \<forall>d\<in>set (rq_reservations req). max (rd_entitlement_wu_s d) 0 \<le> B (rd_id d) \<Longrightarrow>
          grants_within B (max T now) (co_reservations c')"
    and "rs_warming_up resp = warming_up c now"
    and "\<forall>l\<in>set (rs_leases resp). \<exists>d\<in>set (rq_reservations req). ls_id l = rd_id d \<and> 0 \<le> ls_rate_wu_s l
         \<and> (warming_up c now \<longrightarrow> ls_rate_wu_s l \<le> finite_max0 (rd_held_wu_s d))"
proof -
  let ?hold = "grant_hold (co_config c)"
  obtain all' ls where l:
    "renew_loop (co_config c) (warming_up c now) (rq_gateway_id req) now (rq_reservations req) (co_reservations c) [] = Some (all', ls)"
    "table_ok ?hold all'"
    "\<And>B T. grants_within B T (co_reservations c) \<Longrightarrow> \<forall>d\<in>set (rq_reservations req). max (rd_entitlement_wu_s d) 0 \<le> B (rd_id d)
       \<Longrightarrow> grants_within B (max T now) all'"
    "\<forall>l\<in>set ls. \<exists>d\<in>set (rq_reservations req). ls_id l = rd_id d \<and> 0 \<le> ls_rate_wu_s l
         \<and> (warming_up c now \<longrightarrow> ls_rate_wu_s l \<le> finite_max0 (rd_held_wu_s d))"
    using renew_loop_ok[OF assms[unfolded coordinator_ok_table] refl, where leases = "[]"] unfolding append_Nil by blast
  show thesis
  proof (rule that)
    show "renew c req now = Some (c\<lparr>co_reservations := sweep ?hold now all'\<rparr>,
        \<lparr>rs_warming_up = warming_up c now, rs_ttl_ms = as_millis (lease_ttl (co_config c)), rs_leases = ls\<rparr>)"
      by (simp add: renew_unfold l(1))
    show "coordinator_ok (c\<lparr>co_reservations := sweep ?hold now all'\<rparr>)"
      using sweep_ok(1)[OF l(2)] by (simp add: coordinator_ok_table)
  next
    fix B T
    assume "grants_within B T (co_reservations c)"
      "\<forall>d\<in>set (rq_reservations req). max (rd_entitlement_wu_s d) 0 \<le> B (rd_id d)"
    then show "grants_within B (max T now) (co_reservations (c\<lparr>co_reservations := sweep ?hold now all'\<rparr>))"
      using sweep_ok(2)[OF l(2) l(3)] by simp
  qed (use l(4) in simp_all)
qed

text \<open>
  Every history of a coordinator replica: renewals and new terms in any order. \<open>T\<close> is the
  latest instant at which a renewal was computed; the instants need not be in order, since the
  handler reads the clock before it takes the lock.
\<close>

inductive quota_reach :: "coordinator_config \<Rightarrow> (string \<Rightarrow> real) \<Rightarrow> coordinator \<Rightarrow> instant \<Rightarrow> bool"
  for config :: coordinator_config and B :: "string \<Rightarrow> real" where
  fresh: "quota_reach config B (coordinator_new config) 0"
| new_term: "quota_reach config B c T \<Longrightarrow> quota_reach config B (begin_term c now warm_up) T"
| renewal: "quota_reach config B c T \<Longrightarrow>
    \<forall>d\<in>set (rq_reservations req). max (rd_entitlement_wu_s d) 0 \<le> B (rd_id d) \<Longrightarrow>
    renew c req now = Some (c', resp) \<Longrightarrow> quota_reach config B c' (max T now)"

lemma quota_reach_inv:
  "quota_reach config B c T \<Longrightarrow>
   coordinator_ok c \<and> co_config c = config \<and> grants_within B T (co_reservations c)"
proof (induction rule: quota_reach.induct)
  case fresh
  then show ?case by (simp add: coordinator_ok_def coordinator_new_def grants_within_def)
next
  case (new_term c T now warm_up)
  then show ?case by (simp add: coordinator_ok_def begin_term_def grants_within_def)
next
  case (renewal c T req now c' resp)
  then show ?case using renew_ok[of c req now] by (metis option.inject prod.inject)
qed

lemma view_granted:
  assumes "v \<in> set (view c now)"
  obtains i r where "(i, r) \<in> set (co_reservations c)" "rvw_id v = i" "rvw_entitlement_wu_s v = rv_entitlement r"
    "rvw_granted_wu_s v = granted_sum (\<lambda>_. True) now (rv_gateways r)"
    "rvw_granted_wu_s v = (\<Sum>g\<leftarrow>rvw_gateways v. gv_grant_wu_s g)"
proof -
  from assms obtain i r where ir: "(i, r) \<in> set (co_reservations c)"
    and v: "v = \<lparr>rvw_id = i, rvw_entitlement_wu_s = rv_entitlement r, rvw_snapshot_version = rv_version r,
                 rvw_granted_wu_s = granted_sum (\<lambda>_. True) now (rv_gateways r),
                 rvw_gateways = map (\<lambda>(gi, g). \<lparr>gv_id = gi, gv_demand_wu_s = gw_demand g,
                     gv_grant_wu_s = (if now < gw_grant_expires g then gw_grant g else 0)\<rparr>) (rv_gateways r)\<rparr>"
    by (auto simp: view_def)
  have "granted_sum (\<lambda>_. True) now gws
      = (\<Sum>g\<leftarrow>map (\<lambda>(gi, g). \<lparr>gv_id = gi, gv_demand_wu_s = gw_demand g,
           gv_grant_wu_s = (if now < gw_grant_expires g then gw_grant g else 0)\<rparr>) gws. gv_grant_wu_s g)" for gws
    by (induction gws) auto
  then show thesis using that[OF ir] by (simp add: v)
qed

lemmas quota_eval =
  renew_def renew_one_def renew_snapshot_def renew_touch_def renew_grant_def warming_up_def coordinator_new_def
  coordinator_config_default_def reservation_default_def grant_hold_def prune_def granted_sum_def
  saturating_duration_since_def finite_max0_def allocate_def clamp_def from_secs_def begin_term_def
  Let_def upt_rec view_def

definition demo_renewal :: "string \<Rightarrow> real \<Rightarrow> nat \<Rightarrow> real \<Rightarrow> real \<Rightarrow> renew_request" where
  "demo_renewal gw e version demand held =
     \<lparr>rq_gateway_id = gw, rq_reservations = [\<lparr>rd_id = ''r'', rd_entitlement_wu_s = e, rd_snapshot_version = version,
        rd_demand_wu_s = Finite demand, rd_held_wu_s = Finite held\<rparr>]\<rparr>"

definition demo_one :: coordinator where
  "demo_one = \<lparr>co_config = coordinator_config_default,
     co_reservations = [(''r'', \<lparr>rv_entitlement = 1000, rv_version = 1,
       rv_gateways = [(''a'', \<lparr>gw_demand = 800, gw_last_seen = 0, gw_grant = 1000, gw_grant_expires = 1500000000\<rparr>)]\<rparr>)],
     co_warm_until = None\<rparr>"

lemma demo_first:
  "renew (coordinator_new coordinator_config_default) (demo_renewal ''a'' 1000 1 800 0) 0
    = Some (demo_one, \<lparr>rs_warming_up = False, rs_ttl_ms = 1000,
        rs_leases = [\<lparr>ls_id = ''r'', ls_rate_wu_s = 1000, ls_active_gateways = 1\<rparr>]\<rparr>)"
  by (simp add: quota_eval demo_renewal_def demo_one_def as_millis_def)

lemma demo_one_reach:
  assumes "B ''r'' = 1000"
  shows "quota_reach coordinator_config_default B demo_one 0"
  using quota_reach.renewal[OF quota_reach.fresh _ demo_first] assms by (simp add: demo_renewal_def)

text \<open>
  C4. Capacity is never sold twice: after any history of renewals and terms in which gateways
  report entitlements of at most \<open>B\<close> for a reservation, the live grants of that reservation
  together stay at most \<open>B\<close> from the last renewal on, whatever the order in which the
  renewals' clocks were read, and the next renewal is answered (neither \<open>expect\<close> of the handler
  fails).
\<close>

theorem quota_never_oversold:
  assumes "quota_reach config B c T" and "T \<le> now"
  shows "renew c req now \<noteq> None
    \<and> (\<forall>v\<in>set (view c now). rvw_granted_wu_s v \<le> B (rvw_id v) \<and> rvw_entitlement_wu_s v \<le> B (rvw_id v)
         \<and> rvw_granted_wu_s v = (\<Sum>g\<leftarrow>rvw_gateways v. gv_grant_wu_s g))"
proof -
  have inv: "coordinator_ok c" "grants_within B T (co_reservations c)" using quota_reach_inv[OF assms(1)] by simp_all
  have "renew c req now \<noteq> None" using renew_ok[OF inv(1)] by (metis option.distinct(1))
  moreover have "rvw_granted_wu_s v \<le> B (rvw_id v) \<and> rvw_entitlement_wu_s v \<le> B (rvw_id v)
      \<and> rvw_granted_wu_s v = (\<Sum>g\<leftarrow>rvw_gateways v. gv_grant_wu_s g)" if mem: "v \<in> set (view c now)" for v
  proof -
    obtain i r where v: "(i, r) \<in> set (co_reservations c)" "rvw_id v = i" "rvw_entitlement_wu_s v = rv_entitlement r"
      "rvw_granted_wu_s v = granted_sum (\<lambda>_. True) now (rv_gateways r)"
      "rvw_granted_wu_s v = (\<Sum>g\<leftarrow>rvw_gateways v. gv_grant_wu_s g)"
      using view_granted[OF mem] by blast
    have "rv_entitlement r \<le> B i \<and> granted_sum (\<lambda>_. True) now (rv_gateways r) \<le> B i"
      using inv(2) v(1) assms(2) unfolding grants_within_def by blast
    then show ?thesis unfolding v(5)[symmetric] by (simp add: v(2,3,4))
  qed
  ultimately show ?thesis by blast
qed

text \<open>One gateway holds the whole entitlement; a second one joins and gets nothing yet.\<close>

theorem quota_never_oversold_witness:
  "renew demo_one (demo_renewal ''b'' 1000 1 800 0) 10000000 \<noteq> None
    \<and> list_all (\<lambda>v. rvw_granted_wu_s v \<le> 1000) (view demo_one 10000000)
    \<and> map rvw_granted_wu_s (view demo_one 10000000) = [1000]"
  using quota_never_oversold[OF demo_one_reach[of "\<lambda>_. 1000"], of 10000000 "demo_renewal ''b'' 1000 1 800 0"]
  by (auto simp: demo_one_def view_def granted_sum_def list_all_iff)

text \<open>
  After a take-over with warm-up, a gateway is granted at most the lease it reports holding
  from the previous leader, for one full grant hold after the term began, and a gateway that
  holds nothing gets no lease.
\<close>

theorem warm_up_leases_within_held:
  assumes "quota_reach config B c T" and "now < start + grant_hold config"
    and "renew (begin_term c start True) req now = Some (c', resp)"
  shows "rs_warming_up resp \<and> warming_up (begin_term c start True) now
    \<and> (\<forall>l\<in>set (rs_leases resp). 0 \<le> ls_rate_wu_s l
         \<and> (\<exists>d\<in>set (rq_reservations req). ls_id l = rd_id d \<and> ls_rate_wu_s l \<le> finite_max0 (rd_held_wu_s d)))"
proof -
  have inv: "coordinator_ok (begin_term c start True)" "co_config c = config"
    using quota_reach_inv[OF quota_reach.new_term[OF assms(1)]] quota_reach_inv[OF assms(1)] by simp_all
  have w: "warming_up (begin_term c start True) now"
    using assms(2) inv(2) by (simp add: warming_up_def begin_term_def)
  from renew_ok[OF inv(1), of req now] w show ?thesis
    unfolding assms(3) by (metis (no_types, lifting) option.inject prod.inject)
qed

theorem warm_up_leases_within_held_witness:
  "\<exists>c' resp. renew (begin_term demo_one 100 True) (demo_renewal ''a'' 1000 1 800 300) 200 = Some (c', resp)
    \<and> rs_warming_up resp \<and> map ls_rate_wu_s (rs_leases resp) = [300]"
proof -
  obtain c' resp where r: "renew (begin_term demo_one 100 True) (demo_renewal ''a'' 1000 1 800 300) 200 = Some (c', resp)"
    and l: "map ls_rate_wu_s (rs_leases resp) = [300]"
    by (simp add: quota_eval demo_renewal_def demo_one_def)
  moreover have "rs_warming_up resp"
    using warm_up_leases_within_held[OF demo_one_reach[of "\<lambda>_. 1000"] _ r] by (simp add: quota_eval)
  ultimately show ?thesis by (intro exI conjI)
qed

lemma others_leave_target:
  assumes "list_all2 (\<lambda>(i, g) x. 0 \<le> x \<and> (i \<noteq> gid \<and> now < gw_grant_expires g \<longrightarrow> gw_grant g \<le> x)) gws ts"
  shows "granted_sum (\<lambda>i. i \<noteq> gid) now gws \<le> sum_list ts
    \<and> (\<forall>pos<length gws. fst (gws ! pos) = gid \<longrightarrow> granted_sum (\<lambda>i. i \<noteq> gid) now gws + ts ! pos \<le> sum_list ts)"
  using assms
proof (induction rule: list_all2_induct)
  case Nil
  then show ?case by simp
next
  case (Cons a gws x ts)
  obtain i g where a: "a = (i, g)" by (cases a)
  from Cons a show ?case
    by (auto simp: less_Suc_eq_0_disj)
qed

text \<open>
  A renewal reaches its target in one step once the others have shrunk to theirs: outside
  warm-up, when no other gateway holds a live grant above its own share, the calling gateway
  is granted exactly its share of the entitlement, so shares are reached without ever
  overselling.
\<close>

theorem renewal_reaches_target:
  fixes r d gid now and config :: coordinator_config
  defines "e \<equiv> rv_entitlement (renew_snapshot r d)"
    and "gws \<equiv> renew_touch (grant_hold config) gid now (finite_max0 (rd_demand_wu_s d)) (rv_gateways r)"
  defines "targets \<equiv> allocate e (floor_fraction config) (map (gw_demand \<circ> snd) gws)"
  assumes "reservation_ok (grant_hold config) r" and "0 < e"
    and "\<forall>j<length gws. fst (gws ! j) \<noteq> gid \<and> now < gw_grant_expires (snd (gws ! j)) \<longrightarrow> gw_grant (snd (gws ! j)) \<le> targets ! j"
  shows "\<exists>r' l pos. renew_one config False gid now r d = Some (r', Some l)
    \<and> pos < length gws \<and> fst (gws ! pos) = gid \<and> ls_rate_wu_s l = targets ! pos"
proof -
  obtain gws' pos grant g' where u: "gws' = gws" "pos < length gws'" "fst (gws' ! pos) = gid"
    and grant: "grant = renew_grant config False gid now (rd_held_wu_s d) e gws' pos"
    and eq: "renew_one config False gid now r d = Some ((renew_snapshot r d)\<lparr>rv_gateways := bt_put gid g' gws'\<rparr>,
       if False \<and> grant \<le> 0 then None
       else Some \<lparr>ls_id = rd_id d, ls_rate_wu_s = grant, ls_active_gateways = length gws'\<rparr>)"
    unfolding gws_def e_def by (rule renew_one_Some[OF assms(4)])
  have "list_all2 (\<lambda>(i, g) x. 0 \<le> x \<and> (i \<noteq> gid \<and> now < gw_grant_expires g \<longrightarrow> gw_grant g \<le> x)) gws targets"
    using assms(6)
    by (auto simp: list_all2_conv_all_nth targets_def split_beta shares.length_alloc
        intro!: shares.alloc_nonneg[OF nth_mem])
  then have "granted_sum (\<lambda>i. i \<noteq> gid) now gws + targets ! pos \<le> sum_list targets"
    using others_leave_target u by blast
  then have "renew_grant config False gid now (rd_held_wu_s d) e gws pos = targets ! pos"
    unfolding targets_def renew_grant_def Let_def using assms(5) u(1,2)
    by (simp add: shares.grant_reaches)
  then show ?thesis using eq u grant by auto
qed

text \<open>Two gateways with live grants at their shares: the second renews and keeps 500.\<close>

theorem renewal_reaches_target_witness:
  "\<exists>r' l. renew_one coordinator_config_default False ''b'' 260000000
      \<lparr>rv_entitlement = 1000, rv_version = 1,
       rv_gateways = [(''a'', \<lparr>gw_demand = 800, gw_last_seen = 250000000, gw_grant = 500, gw_grant_expires = 1750000000\<rparr>)]\<rparr>
      \<lparr>rd_id = ''r'', rd_entitlement_wu_s = 1000, rd_snapshot_version = 1, rd_demand_wu_s = Finite 800, rd_held_wu_s = NonFinite\<rparr>
      = Some (r', Some l) \<and> ls_rate_wu_s l = 500"
proof -
  let ?a = "(''a'', \<lparr>gw_demand = 800, gw_last_seen = 250000000, gw_grant = 500, gw_grant_expires = 1750000000\<rparr>)"
  let ?r = "\<lparr>rv_entitlement = 1000, rv_version = 1, rv_gateways = [?a]\<rparr>"
  let ?d = "\<lparr>rd_id = ''r'', rd_entitlement_wu_s = 1000, rd_snapshot_version = 1, rd_demand_wu_s = Finite 800, rd_held_wu_s = NonFinite\<rparr>"
  let ?b = "(''b'', \<lparr>gw_demand = 800, gw_last_seen = 260000000, gw_grant = 0, gw_grant_expires = 260000000\<rparr>)"
  have ok: "reservation_ok (grant_hold coordinator_config_default) ?r"
    by (simp add: reservation_ok_def quota_eval)
  have touch: "renew_touch (grant_hold coordinator_config_default) ''b'' 260000000 (finite_max0 (rd_demand_wu_s ?d)) (rv_gateways ?r)
      = [?a, ?b]"
    by (simp add: quota_eval)
  have e: "rv_entitlement (renew_snapshot ?r ?d) = 1000" by (simp add: renew_snapshot_def)
  have t: "allocate 1000 (floor_fraction coordinator_config_default) (map (gw_demand \<circ> snd) [?a, ?b]) = [500, 500]"
    by (simp add: quota_eval)
  have "\<exists>r' l pos. renew_one coordinator_config_default False ''b'' 260000000 ?r ?d = Some (r', Some l)
      \<and> pos < length [?a, ?b] \<and> fst ([?a, ?b] ! pos) = ''b'' \<and> ls_rate_wu_s l = [500, 500] ! pos"
    using renewal_reaches_target[OF ok, where gid = "''b''" and now = 260000000 and d = ?d, unfolded touch e t]
    by (simp add: less_Suc_eq_0_disj)
  then show ?thesis by (auto simp: less_Suc_eq_0_disj)
qed

text \<open>
  The sum of live grants is not bounded by the current entitlement: one gateway holds a
  lease of 1,000 WU/s, a second one reports a newer snapshot in which the entitlement is 500,
  and the view shows 1,000 granted of 500 until the first lease runs out or is renewed. The
  new gateway is granted nothing meanwhile.
\<close>

theorem entitlement_shrink_outlives_grants:
  "\<exists>c' resp. renew demo_one (demo_renewal ''b'' 500 2 800 0) 10000000 = Some (c', resp)
    \<and> map (\<lambda>v. (rvw_entitlement_wu_s v, rvw_granted_wu_s v)) (view c' 10000000) = [(500, 1000)]
    \<and> map ls_rate_wu_s (rs_leases resp) = [0]"
  by (simp add: quota_eval demo_renewal_def demo_one_def)

end
