(* ===== verification/Election.thy ===== *)
theory Election
  imports PT_Prelude
begin

text \<open>
  Leader election on one lease record (crate \<open>pt-election\<close>), used by the Quota Coordinator and
  the capacity controller. The backend trait is the locale \<open>lease_backend\<close>, with the
  compare-and-swap laws as its assumptions and \<open>MemoryLease\<close> as its instance. \<open>Elector::step\<close>
  awaits twice (a read and a write); it is split at these points into \<open>step_get\<close> and
  \<open>step_put\<close>, so that the same definitions make up the sequential \<open>step\<close> of the source and the
  interleaved machine in which replicas race, messages are slow and acknowledgements are lost.
\<close>

section \<open>Lease records and backends\<close>

record lease_record =
  lr_holder :: "string option"
  lr_version :: string

datatype election_error = Backend string

text \<open>The in-process lease: holder and version.\<close>

type_synonym memory_lease = "(string option \<times> nat) option"

definition lease_get :: "memory_lease \<Rightarrow> lease_record option" where
  "lease_get r = map_option (\<lambda>(holder, v). \<lparr>lr_holder = holder, lr_version = to_string v\<rparr>) r"

definition lease_put :: "memory_lease \<Rightarrow> string option \<Rightarrow> string option \<Rightarrow> memory_lease \<times> bool" where
  "lease_put r holder expected =
     (let next = (case (r, expected) of
                    (None, None) \<Rightarrow> Some 1
                  | (Some (_, v), Some e) \<Rightarrow> if to_string v = e then Some (v + 1) else None
                  | _ \<Rightarrow> None)
      in case next of None \<Rightarrow> (r, False) | Some n \<Rightarrow> (Some (holder, n), True))"

text \<open>
  The contract of \<open>LeaseBackend\<close>: a write is a compare-and-swap on the version, an accepted
  write is what the next read returns, and versions only grow, so none is ever seen again.
\<close>

locale lease_backend =
  fixes get :: "'s \<Rightarrow> lease_record option"
    and put :: "'s \<Rightarrow> string option \<Rightarrow> string option \<Rightarrow> 's \<times> bool"
    and rank :: "string \<Rightarrow> nat"
  assumes put_accepts: "snd (put s h e) \<longleftrightarrow> map_option lr_version (get s) = e"
    and put_reject: "\<not> snd (put s h e) \<Longrightarrow> fst (put s h e) = s"
    and put_stores: "snd (put s h e) \<Longrightarrow> map_option lr_holder (get (fst (put s h e))) = Some h"
    and put_fresh: "snd (put s h e) \<Longrightarrow> get s = Some r \<Longrightarrow> get (fst (put s h e)) = Some r'
      \<Longrightarrow> rank (lr_version r) < rank (lr_version r')"
begin

text \<open>Of two writers that read the same record, at most one wins.\<close>

lemma second_writer_loses:
  assumes "snd (put s h1 e)"
  shows "\<not> snd (put (fst (put s h1 e)) h2 e)"
proof
  assume again: "snd (put (fst (put s h1 e)) h2 e)"
  have e: "map_option lr_version (get s) = e" using assms put_accepts by blast
  obtain r' where r': "get (fst (put s h1 e)) = Some r'" using put_stores[OF assms] by blast
  have e': "map_option lr_version (get (fst (put s h1 e))) = e" using again put_accepts by blast
  then obtain v where v: "e = Some v" "lr_version r' = v" using r' by auto
  then obtain r where r: "get s = Some r" "lr_version r = v" using e by auto
  show False using put_fresh[OF assms r(1) r'] r(2) v(2) by simp
qed

lemma written_is_read:
  assumes "snd (put s h e)"
  obtains r where "get (fst (put s h e)) = Some r" "lr_holder r = h"
  using put_stores[OF assms] by auto

end

interpretation memory_backend: lease_backend lease_get lease_put decimal_value
proof unfold_locales
  fix s :: memory_lease and h e r r'
  show "snd (lease_put s h e) \<longleftrightarrow> map_option lr_version (lease_get s) = e"
    by (auto simp: lease_put_def lease_get_def split: option.splits prod.splits)
  show "\<not> snd (lease_put s h e) \<Longrightarrow> fst (lease_put s h e) = s"
    by (auto simp: lease_put_def Let_def split: option.splits prod.splits if_splits)
  show "snd (lease_put s h e) \<Longrightarrow> map_option lr_holder (lease_get (fst (lease_put s h e))) = Some h"
    by (auto simp: lease_put_def lease_get_def Let_def split: option.splits prod.splits if_splits)
  show "snd (lease_put s h e) \<Longrightarrow> lease_get s = Some r \<Longrightarrow> lease_get (fst (lease_put s h e)) = Some r'
      \<Longrightarrow> decimal_value (lr_version r) < decimal_value (lr_version r')"
    by (auto simp: lease_put_def lease_get_def Let_def split: option.splits prod.splits if_splits)
qed

section \<open>Configuration\<close>

record election_config =
  identity :: string
  lease_duration :: duration
  renew_deadline :: duration
  retry_period :: duration

datatype election_config_error = EmptyIdentity | BadRetryPeriod | BadRenewDeadline | GapTooShort

definition election_validate :: "election_config \<Rightarrow> duration \<Rightarrow> election_config_error + unit" where
  "election_validate c min_gap =
     (if identity c = [] then Inl EmptyIdentity
      else if retry_period c = 0 \<or> renew_deadline c \<le> retry_period c then Inl BadRetryPeriod
      else if lease_duration c \<le> renew_deadline c then Inl BadRenewDeadline
      else if lease_duration c - renew_deadline c < min_gap then Inl GapTooShort
      else Inr ())"

section \<open>Elector\<close>

datatype change = NoChange | Acquired bool | Resumed | Lost

record elector =
  el_config :: election_config
  el_observed :: "(string \<times> instant) option"
  el_last_renew :: "instant option"

definition elector_new :: "election_config \<Rightarrow> elector" where
  "elector_new config = \<lparr>el_config = config, el_observed = None, el_last_renew = None\<rparr>"

definition leader_until :: "elector \<Rightarrow> instant option" where
  "leader_until e = map_option (\<lambda>t. t + renew_deadline (el_config e)) (el_last_renew e)"

definition is_leader :: "elector \<Rightarrow> instant \<Rightarrow> bool" where
  "is_leader e now = (case leader_until e of Some u \<Rightarrow> now < u | None \<Rightarrow> False)"

definition acquired :: "elector \<Rightarrow> instant \<Rightarrow> elector" where
  "acquired e now = e\<lparr>el_last_renew := Some now, el_observed := None\<rparr>"

text \<open>
  What a step still has to do after its read: nothing, or one write, with what an accepted and
  a refused write mean. \<open>Renew\<close> is the branch that found its own record.
\<close>

datatype put_kind = Create | Renew | TakeReleased | TakeOver

datatype step_plan =
    Finished change
  | Write put_kind "string option" change

definition step_get :: "elector \<Rightarrow> instant \<Rightarrow> lease_record option \<Rightarrow> elector \<times> step_plan" where
  "step_get e now got =
     (let me = identity (el_config e);
          was = is_leader e now
      in case got of
           None \<Rightarrow> (e, Write Create None NoChange)
         | Some rec \<Rightarrow>
             (case lr_holder rec of
                None \<Rightarrow> (e, Write TakeReleased (Some (lr_version rec)) NoChange)
              | Some h \<Rightarrow>
                  if h = me then (e, Write Renew (Some (lr_version rec)) NoChange)
                  else
                    (let since = (case el_observed e of
                                    Some (v, t) \<Rightarrow> if v = lr_version rec then t else now
                                  | None \<Rightarrow> now);
                         e = e\<lparr>el_last_renew := None, el_observed := Some (lr_version rec, since)\<rparr>;
                         otherwise = (if was then Lost else NoChange)
                     in if lease_duration (el_config e) \<le> saturating_duration_since now since
                        then (e, Write TakeOver (Some (lr_version rec)) otherwise)
                        else (e, Finished otherwise))))"

text \<open>The rest of a step once its write was accepted; \<open>was\<close> is leadership at the start.\<close>

definition step_put :: "elector \<Rightarrow> instant \<Rightarrow> bool \<Rightarrow> put_kind \<Rightarrow> elector \<times> change" where
  "step_put e now was kind =
     (case kind of
        Create \<Rightarrow> (acquired e now, Acquired False)
      | Renew \<Rightarrow> (e\<lparr>el_last_renew := Some now\<rparr>, if was then NoChange else Resumed)
      | TakeReleased \<Rightarrow> (acquired e now, Acquired True)
      | TakeOver \<Rightarrow> (acquired e now, Acquired False))"

text \<open>
  The sequential step and tick over any backend: \<open>get\<close> and \<open>put\<close> may fail (\<open>Inl\<close>), after
  which the elector keeps what it changed before.
\<close>

definition step ::
  "('s \<Rightarrow> election_error + lease_record option)
   \<Rightarrow> ('s \<Rightarrow> string option \<Rightarrow> string option \<Rightarrow> 's \<times> (election_error + bool))
   \<Rightarrow> elector \<Rightarrow> 's \<Rightarrow> instant \<Rightarrow> (elector \<times> 's) \<times> (election_error + change)" where
  "step get put e s now =
     (let me = identity (el_config e);
          was = is_leader e now
      in case get s of
           Inl err \<Rightarrow> ((e, s), Inl err)
         | Inr got \<Rightarrow>
             (case step_get e now got of
                (e, Finished c) \<Rightarrow> ((e, s), Inr c)
              | (e, Write kind expected refused) \<Rightarrow>
                  (case put s (Some me) expected of
                     (s, Inl err) \<Rightarrow> ((e, s), Inl err)
                   | (s, Inr False) \<Rightarrow> ((e, s), Inr refused)
                   | (s, Inr True) \<Rightarrow>
                       (case step_put e now was kind of (e, c) \<Rightarrow> ((e, s), Inr c)))))"

definition tick ::
  "('s \<Rightarrow> election_error + lease_record option)
   \<Rightarrow> ('s \<Rightarrow> string option \<Rightarrow> string option \<Rightarrow> 's \<times> (election_error + bool))
   \<Rightarrow> elector \<Rightarrow> 's \<Rightarrow> instant \<Rightarrow> (elector \<times> 's) \<times> (election_error + change)" where
  "tick get put e s now =
     (let was = is_leader e now
      in case step get put e s now of
           ((e, s), Inl err) \<Rightarrow> ((e, s), if was \<and> \<not> is_leader e now then Inr Lost else Inl err)
         | ((e, s), Inr c) \<Rightarrow>
             ((e, s), Inr (if c = NoChange \<and> was \<and> \<not> is_leader e now then Lost else c)))"

definition release ::
  "('s \<Rightarrow> election_error + lease_record option)
   \<Rightarrow> ('s \<Rightarrow> string option \<Rightarrow> string option \<Rightarrow> 's \<times> (election_error + bool))
   \<Rightarrow> elector \<Rightarrow> 's \<Rightarrow> (elector \<times> 's) \<times> (election_error + unit)" where
  "release get put e s =
     (if el_last_renew e = None then ((e, s), Inr ())
      else let e = e\<lparr>el_last_renew := None\<rparr>
           in case get s of
                Inl err \<Rightarrow> ((e, s), Inl err)
              | Inr None \<Rightarrow> ((e, s), Inr ())
              | Inr (Some rec) \<Rightarrow>
                  if lr_holder rec = Some (identity (el_config e))
                  then (case put s None (Some (lr_version rec)) of
                          (s, Inl err) \<Rightarrow> ((e, s), Inl err)
                        | (s, Inr _) \<Rightarrow> ((e, s), Inr ()))
                  else ((e, s), Inr ()))"

text \<open>\<open>MemoryLease\<close> as a backend of \<open>tick\<close> and \<open>release\<close>: it never fails.\<close>

definition memory_get :: "memory_lease \<Rightarrow> election_error + lease_record option" where
  "memory_get s = Inr (lease_get s)"

definition memory_put :: "memory_lease \<Rightarrow> string option \<Rightarrow> string option \<Rightarrow> memory_lease \<times> (election_error + bool)" where
  "memory_put s h e = (case lease_put s h e of (s', ok) \<Rightarrow> (s', Inr ok))"

section \<open>Leadership gate\<close>

type_synonym leadership = "instant option option"

definition leadership_always :: leadership where
  "leadership_always = None"

definition leadership_elected :: leadership where
  "leadership_elected = Some None"

definition leadership_set :: "leadership \<Rightarrow> instant option \<Rightarrow> leadership" where
  "leadership_set l until = (case l of None \<Rightarrow> None | Some _ \<Rightarrow> Some until)"

definition serving :: "leadership \<Rightarrow> instant \<Rightarrow> bool" where
  "serving l now =
     (case l of None \<Rightarrow> True | Some until \<Rightarrow> (case until of Some u \<Rightarrow> now < u | None \<Rightarrow> False))"

section \<open>Racing replicas\<close>

text \<open>
  The interleaved machine: replicas named by their identity share one lease and one clock.
  A replica's election task is idle, awaiting its read, awaiting its write, between the
  write's effect and its acknowledgement, or releasing. The gate is the instant in the
  replica's \<open>Leadership\<close>, set when a tick returns. \<open>wo_wtime\<close> remembers when the current record
  was written; no step depends on it. A read takes at most \<open>L\<close>; writes and acknowledgements take
  arbitrarily long or get lost, and a replica may crash and restart at any time.
\<close>

datatype phase =
    Idle
  | Reading instant
  | Writing instant bool put_kind "string option" change
  | Wrote instant bool put_kind
  | Releasing
  | ReleaseWriting string

record world =
  wo_now :: instant
  wo_lease :: memory_lease
  wo_wtime :: instant
  wo_el :: "string \<Rightarrow> elector"
  wo_gate :: "string \<Rightarrow> instant option"
  wo_phase :: "string \<Rightarrow> phase"

definition world_init :: "(string \<Rightarrow> election_config) \<Rightarrow> world" where
  "world_init cfg = \<lparr>wo_now = 0, wo_lease = None, wo_wtime = 0, wo_el = (\<lambda>i. elector_new (cfg i)),
     wo_gate = (\<lambda>_. None), wo_phase = (\<lambda>_. Idle)\<rparr>"

text \<open>The end of a tick: the elector, the gate that follows it, and an idle task.\<close>

definition tick_done :: "world \<Rightarrow> string \<Rightarrow> elector \<Rightarrow> world" where
  "tick_done w i e = w\<lparr>wo_el := (wo_el w)(i := e), wo_gate := (wo_gate w)(i := leader_until e),
     wo_phase := (wo_phase w)(i := Idle)\<rparr>"

definition set_phase :: "world \<Rightarrow> string \<Rightarrow> phase \<Rightarrow> world" where
  "set_phase w i p = w\<lparr>wo_phase := (wo_phase w)(i := p)\<rparr>"

inductive election_step :: "(string \<Rightarrow> election_config) \<Rightarrow> duration \<Rightarrow> world \<Rightarrow> world \<Rightarrow> bool"
  for cfg :: "string \<Rightarrow> election_config" and L :: duration where
  pass: "election_step cfg L w (w\<lparr>wo_now := wo_now w + d\<rparr>)"
| tick_begin: "wo_phase w i = Idle \<Longrightarrow> election_step cfg L w (set_phase w i (Reading (wo_now w)))"
| read_finished: "wo_phase w i = Reading start \<Longrightarrow> wo_now w \<le> start + L \<Longrightarrow>
    step_get (wo_el w i) start (lease_get (wo_lease w)) = (e, Finished c) \<Longrightarrow>
    election_step cfg L w (tick_done w i e)"
| read_write: "wo_phase w i = Reading start \<Longrightarrow> wo_now w \<le> start + L \<Longrightarrow>
    step_get (wo_el w i) start (lease_get (wo_lease w)) = (e, Write k x c) \<Longrightarrow>
    election_step cfg L w
      (set_phase (w\<lparr>wo_el := (wo_el w)(i := e)\<rparr>) i (Writing start (is_leader (wo_el w i) start) k x c))"
| read_failed: "wo_phase w i = Reading start \<Longrightarrow> election_step cfg L w (tick_done w i (wo_el w i))"
| write_applied: "wo_phase w i = Writing start was k x c \<Longrightarrow>
    lease_put (wo_lease w) (Some i) x = (lease', True) \<Longrightarrow>
    election_step cfg L w (set_phase (w\<lparr>wo_lease := lease', wo_wtime := wo_now w\<rparr>) i (Wrote start was k))"
| write_refused: "wo_phase w i = Writing start was k x c \<Longrightarrow>
    lease_put (wo_lease w) (Some i) x = (lease', False) \<Longrightarrow> election_step cfg L w (tick_done w i (wo_el w i))"
| write_failed: "wo_phase w i = Writing start was k x c \<Longrightarrow> election_step cfg L w (tick_done w i (wo_el w i))"
| acknowledged: "wo_phase w i = Wrote start was k \<Longrightarrow>
    election_step cfg L w (tick_done w i (fst (step_put (wo_el w i) start was k)))"
| ack_lost: "wo_phase w i = Wrote start was k \<Longrightarrow> election_step cfg L w (tick_done w i (wo_el w i))"
| shutdown: "wo_phase w i = Idle \<Longrightarrow>
    election_step cfg L w
      (set_phase (tick_done w i ((wo_el w i)\<lparr>el_last_renew := None\<rparr>)) i
        (if el_last_renew (wo_el w i) = None then Idle else Releasing))"
| release_read: "wo_phase w i = Releasing \<Longrightarrow>
    election_step cfg L w
      (set_phase w i (case lease_get (wo_lease w) of
                        Some rec \<Rightarrow> if lr_holder rec = Some i then ReleaseWriting (lr_version rec) else Idle
                      | None \<Rightarrow> Idle))"
| release_applied: "wo_phase w i = ReleaseWriting v \<Longrightarrow>
    lease_put (wo_lease w) None (Some v) = (lease', True) \<Longrightarrow>
    election_step cfg L w (set_phase (w\<lparr>wo_lease := lease', wo_wtime := wo_now w\<rparr>) i Idle)"
| release_failed: "wo_phase w i = ReleaseWriting v \<Longrightarrow> election_step cfg L w (set_phase w i Idle)"
| restart: "election_step cfg L w (tick_done w i (elector_new (cfg i)))"

inductive election_reach :: "(string \<Rightarrow> election_config) \<Rightarrow> duration \<Rightarrow> world \<Rightarrow> bool"
  for cfg :: "string \<Rightarrow> election_config" and L :: duration where
  reach_init: "election_reach cfg L (world_init cfg)"
| reach_step: "election_reach cfg L w \<Longrightarrow> election_step cfg L w w' \<Longrightarrow> election_reach cfg L w'"

inductive_cases phase_stepE: "election_step cfg L w w'"

text \<open>The replica answers requests now.\<close>

definition serves :: "world \<Rightarrow> string \<Rightarrow> bool" where
  "serves w i = serving (Some (wo_gate w i)) (wo_now w)"

section \<open>At most one leader\<close>

definition lease_holder :: "memory_lease \<Rightarrow> string option" where
  "lease_holder l = (case l of None \<Rightarrow> None | Some (h, n) \<Rightarrow> h)"

definition lease_rank :: "memory_lease \<Rightarrow> nat" where
  "lease_rank l = (case l of None \<Rightarrow> 0 | Some (h, n) \<Rightarrow> n)"

definition current_version :: "memory_lease \<Rightarrow> string \<Rightarrow> bool" where
  "current_version l v \<longleftrightarrow> (\<exists>h n. l = Some (h, n) \<and> v = to_string n)"

text \<open>Everything in a replica that is or may become a claim to serve until \<open>u\<close>.\<close>

definition claim_until :: "elector \<Rightarrow> instant option \<Rightarrow> phase \<Rightarrow> instant \<Rightarrow> bool" where
  "claim_until e g p u \<longleftrightarrow> leader_until e = Some u \<or> g = Some u
     \<or> (\<exists>start was k. p = Wrote start was k \<and> u = start + renew_deadline (el_config e))"

definition seen :: "memory_lease \<Rightarrow> string \<Rightarrow> bool" where
  "seen l v \<longleftrightarrow> 1 \<le> decimal_value v \<and> decimal_value v \<le> lease_rank l"

text \<open>
  The invariant of one replica: every unexpired claim is backed by holding the record and is
  no older than its last write; what it observed or is about to overwrite was written before
  it started watching plus the read's latency.
\<close>

definition phase_ok :: "duration \<Rightarrow> election_config \<Rightarrow> string \<Rightarrow> instant \<Rightarrow> memory_lease \<Rightarrow> instant \<Rightarrow> elector
    \<Rightarrow> instant option \<Rightarrow> phase \<Rightarrow> bool" where
  "phase_ok L c i now l wt e g p =
     (case p of
        Idle \<Rightarrow> True
      | Reading start \<Rightarrow> start \<le> now
      | Writing start was k x r \<Rightarrow> start \<le> now
          \<and> (case x of None \<Rightarrow> k = Create
             | Some v \<Rightarrow> seen l v \<and> (current_version l v \<longrightarrow>
                 (case k of Create \<Rightarrow> False | Renew \<Rightarrow> lease_holder l = Some i | TakeReleased \<Rightarrow> lease_holder l = None
                  | TakeOver \<Rightarrow> wt + lease_duration c \<le> start + L)))
      | Wrote start was k \<Rightarrow> start \<le> now
      | Releasing \<Rightarrow> el_last_renew e = None \<and> g = None
      | ReleaseWriting v \<Rightarrow> el_last_renew e = None \<and> g = None \<and> seen l v
          \<and> (current_version l v \<longrightarrow> lease_holder l = Some i))"

definition replica_ok :: "duration \<Rightarrow> election_config \<Rightarrow> string \<Rightarrow> instant \<Rightarrow> memory_lease \<Rightarrow> instant \<Rightarrow> elector
    \<Rightarrow> instant option \<Rightarrow> phase \<Rightarrow> bool" where
  "replica_ok L c i now l wt e g p \<longleftrightarrow>
     el_config e = c
   \<and> (\<forall>u. claim_until e g p u \<longrightarrow> u \<le> now \<or> (lease_holder l = Some i \<and> u \<le> wt + renew_deadline c))
   \<and> (\<forall>v t. el_observed e = Some (v, t) \<longrightarrow> seen l v \<and> (current_version l v \<longrightarrow> wt \<le> t + L))
   \<and> phase_ok L c i now l wt e g p"

definition election_inv :: "(string \<Rightarrow> election_config) \<Rightarrow> duration \<Rightarrow> world \<Rightarrow> bool" where
  "election_inv cfg L w \<longleftrightarrow>
     wo_wtime w \<le> wo_now w \<and> (wo_lease w \<noteq> None \<longrightarrow> 1 \<le> lease_rank (wo_lease w))
   \<and> (\<forall>i. replica_ok L (cfg i) i (wo_now w) (wo_lease w) (wo_wtime w) (wo_el w i) (wo_gate w i) (wo_phase w i))"

text \<open>Time passing, and a write by someone else, keep a replica's invariant.\<close>

lemma replica_ok_pass:
  "replica_ok L c i now l wt e g p \<Longrightarrow> replica_ok L c i (now + d) l wt e g p"
  by (auto simp: replica_ok_def phase_ok_def split: phase.splits option.splits put_kind.splits intro: trans_le_add1)

lemma lease_put_True:
  assumes "lease_put l h x = (l', True)"
  shows "l' = Some (h, lease_rank l + 1)"
    and "x = None \<Longrightarrow> l = None" and "x = Some v \<Longrightarrow> current_version l v"
  using assms
  by (auto simp: lease_put_def lease_rank_def current_version_def Let_def split: option.splits prod.splits if_splits)

lemma not_current_after_write:
  "seen l v \<Longrightarrow> \<not> current_version (Some (h, lease_rank l + 1)) v"
  by (auto simp: seen_def current_version_def)

lemma seen_after_write: "seen l v \<Longrightarrow> seen (Some (h, lease_rank l + 1)) v"
  by (auto simp: seen_def lease_rank_def)

lemma replica_ok_other_write:
  assumes "replica_ok L c i now l wt e g p"
    and "\<And>u. claim_until e g p u \<Longrightarrow> u \<le> now"
  shows "replica_ok L c i now (Some (h, lease_rank l + 1)) now e g p"
  using assms not_current_after_write[of l] seen_after_write[of l]
  unfolding replica_ok_def phase_ok_def
  by (auto split: phase.splits option.splits put_kind.splits)

text \<open>A replica's own steps: only its part of the world changes.\<close>

lemma election_inv_replica:
  assumes "election_inv cfg L w"
    and "replica_ok L (cfg i) i (wo_now w) (wo_lease w) (wo_wtime w) e g p"
  shows "election_inv cfg L (w\<lparr>wo_el := (wo_el w)(i := e), wo_gate := (wo_gate w)(i := g), wo_phase := (wo_phase w)(i := p)\<rparr>)"
  using assms by (auto simp: election_inv_def)

lemma election_inv_set_phase:
  assumes "election_inv cfg L w"
    and "replica_ok L (cfg i) i (wo_now w) (wo_lease w) (wo_wtime w) (wo_el w i) (wo_gate w i) p"
  shows "election_inv cfg L (set_phase w i p)"
  using election_inv_replica[OF assms] by (simp add: set_phase_def)

lemma replica_of_inv:
  "election_inv cfg L w \<Longrightarrow>
   replica_ok L (cfg i) i (wo_now w) (wo_lease w) (wo_wtime w) (wo_el w i) (wo_gate w i) (wo_phase w i)"
  by (simp add: election_inv_def)

lemma observed_of_inv:
  "election_inv cfg L w \<Longrightarrow> el_observed (wo_el w i) = Some (v, t) \<Longrightarrow>
   seen (wo_lease w) v \<and> (current_version (wo_lease w) v \<longrightarrow> wo_wtime w \<le> t + L)"
  using replica_of_inv[of cfg L w i] by (simp add: replica_ok_def)

lemma claim_of_inv:
  "election_inv cfg L w \<Longrightarrow> claim_until (wo_el w i) (wo_gate w i) (wo_phase w i) u \<Longrightarrow>
   u \<le> wo_now w \<or> (lease_holder (wo_lease w) = Some i \<and> u \<le> wo_wtime w + renew_deadline (cfg i))"
  using replica_of_inv[of cfg L w i] by (simp add: replica_ok_def)

lemma config_of_inv: "election_inv cfg L w \<Longrightarrow> el_config (wo_el w i) = cfg i"
  using replica_of_inv[of cfg L w i] by (simp add: replica_ok_def)

lemma phase_of_inv:
  "election_inv cfg L w \<Longrightarrow>
   phase_ok L (cfg i) i (wo_now w) (wo_lease w) (wo_wtime w) (wo_el w i) (wo_gate w i) (wo_phase w i)"
  using replica_of_inv[of cfg L w i] by (simp add: replica_ok_def)

lemma election_inv_tick_done:
  assumes inv: "election_inv cfg L w" and c: "el_config e = cfg i"
    and claim: "\<And>u. leader_until e = Some u \<Longrightarrow> claim_until (wo_el w i) (wo_gate w i) (wo_phase w i) u"
    and obs: "\<And>v t. el_observed e = Some (v, t) \<Longrightarrow>
      seen (wo_lease w) v \<and> (current_version (wo_lease w) v \<longrightarrow> wo_wtime w \<le> t + L)"
  shows "election_inv cfg L (tick_done w i e)"
proof -
  have "replica_ok L (cfg i) i (wo_now w) (wo_lease w) (wo_wtime w) e (leader_until e) Idle"
    unfolding replica_ok_def
  proof (intro conjI allI impI)
    fix u assume "claim_until e (leader_until e) Idle u"
    then have "leader_until e = Some u" by (simp add: claim_until_def)
    then show "u \<le> wo_now w \<or> (lease_holder (wo_lease w) = Some i \<and> u \<le> wo_wtime w + renew_deadline (cfg i))"
      by (rule claim_of_inv[OF inv claim])
  qed (use c obs in \<open>simp_all add: phase_ok_def\<close>)
  then show ?thesis using election_inv_replica[OF inv] by (simp add: tick_done_def)
qed

text \<open>The read: what it observes was written by now, so at most a latency after the tick began.\<close>

lemma step_get_ok:
  assumes ok: "replica_ok L c i now l wt e g (Reading start)" and me: "identity c = i"
    and lat: "now \<le> start + L" and wt: "wt \<le> now" and rank: "l \<noteq> None \<longrightarrow> 1 \<le> lease_rank l"
    and get: "step_get e start (lease_get l) = (e', plan)"
  shows "el_config e' = c" and "leader_until e' = Some u \<Longrightarrow> leader_until e = Some u"
    and "el_observed e' = Some (v, t) \<Longrightarrow> seen l v \<and> (current_version l v \<longrightarrow> wt \<le> t + L)"
    and "plan = Write k x r \<Longrightarrow> replica_ok L c i now l wt e' g (Writing start was k x r)"
proof -
  have cfg: "el_config e = c" and start: "start \<le> now"
    and obs: "\<And>v t. el_observed e = Some (v, t) \<Longrightarrow> seen l v \<and> (current_version l v \<longrightarrow> wt \<le> t + L)"
    and cl: "\<And>u. claim_until e g (Reading start) u \<Longrightarrow> u \<le> now \<or> (lease_holder l = Some i \<and> u \<le> wt + renew_deadline c)"
    using ok by (auto simp: replica_ok_def phase_ok_def)
  show c': "el_config e' = c"
    using get cfg by (auto simp: step_get_def Let_def split: option.splits if_splits)
  have lu: "leader_until e' = Some u \<Longrightarrow> leader_until e = Some u" for u
    using get by (auto simp: step_get_def Let_def leader_until_def split: option.splits if_splits)
  then show "leader_until e' = Some u \<Longrightarrow> leader_until e = Some u" .
  have cur: "current_version l (lr_version rec) \<and> seen l (lr_version rec)" if "lease_get l = Some rec" for rec
    using that rank by (auto simp: lease_get_def current_version_def seen_def lease_rank_def split: option.splits prod.splits)
  have obs': "seen l v \<and> (current_version l v \<longrightarrow> wt \<le> t + L)" if "el_observed e' = Some (v, t)" for v t
    using get that obs cur lat wt
    by (auto simp: step_get_def Let_def split: option.splits if_splits)
  then show "el_observed e' = Some (v, t) \<Longrightarrow> seen l v \<and> (current_version l v \<longrightarrow> wt \<le> t + L)" .
  assume plan: "plan = Write k x r"
  have "phase_ok L c i now l wt e' g (Writing start was k x r)"
    using get start cur obs obs' me cfg lat wt unfolding plan
    by (auto simp: step_get_def phase_ok_def lease_holder_def lease_get_def saturating_duration_since_def Let_def
        split: option.splits if_splits)
  moreover have "claim_until e' g (Writing start was k x r) u \<Longrightarrow> claim_until e g (Reading start) u" for u
    using lu by (auto simp: claim_until_def)
  ultimately show "replica_ok L c i now l wt e' g (Writing start was k x r)"
    using c' obs' cl unfolding replica_ok_def by blast
qed

text \<open>
  A write: when it is accepted, no other replica has an unexpired claim. For a take-over this
  is where the timing matters: the record was written at most a latency after the candidate
  began to watch it.
\<close>

definition timings_ok :: "(string \<Rightarrow> election_config) \<Rightarrow> duration \<Rightarrow> bool" where
  "timings_ok cfg L \<longleftrightarrow> (\<forall>i. identity (cfg i) = i) \<and> (\<forall>i j. L + renew_deadline (cfg i) \<le> lease_duration (cfg j))"

lemma accepted_write_expires_others:
  assumes inv: "election_inv cfg L w" and tm: "timings_ok cfg L"
    and ph: "wo_phase w i = Writing start was k x r" and put: "lease_put (wo_lease w) (Some i) x = (l', True)"
    and "j \<noteq> i" and cl: "claim_until (wo_el w j) (wo_gate w j) (wo_phase w j) u"
  shows "u \<le> wo_now w"
proof (rule ccontr)
  assume late: "\<not> u \<le> wo_now w"
  then have h: "lease_holder (wo_lease w) = Some j" "u \<le> wo_wtime w + renew_deadline (cfg j)"
    using claim_of_inv[OF inv cl] by blast+
  have p: "phase_ok L (cfg i) i (wo_now w) (wo_lease w) (wo_wtime w) (wo_el w i) (wo_gate w i) (Writing start was k x r)"
    using phase_of_inv[OF inv, of i] ph by simp
  obtain v where v: "x = Some v" using lease_put_True(2)[OF put] h(1) by (cases x) (auto simp: lease_holder_def)
  have "current_version (wo_lease w) v" using lease_put_True(3)[OF put v] .
  then have "k = TakeOver \<and> wo_wtime w + lease_duration (cfg i) \<le> start + L \<and> start \<le> wo_now w"
    using p v h(1) \<open>j \<noteq> i\<close> by (cases k) (auto simp: phase_ok_def)
  moreover have "L + renew_deadline (cfg j) \<le> lease_duration (cfg i)" using tm by (simp add: timings_ok_def)
  ultimately show False using late h(2) by linarith
qed

lemma inv_write:
  assumes inv: "election_inv cfg L w"
    and oth: "\<And>j u. j \<noteq> i \<Longrightarrow> claim_until (wo_el w j) (wo_gate w j) (wo_phase w j) u \<Longrightarrow> u \<le> wo_now w"
    and own: "replica_ok L (cfg i) i (wo_now w) (Some (h, lease_rank (wo_lease w) + 1)) (wo_now w) (wo_el w i) (wo_gate w i) p"
  shows "election_inv cfg L
    (set_phase (w\<lparr>wo_lease := Some (h, lease_rank (wo_lease w) + 1), wo_wtime := wo_now w\<rparr>) i p)"
  unfolding election_inv_def
proof (intro conjI allI impI)
  fix j
  let ?w = "set_phase (w\<lparr>wo_lease := Some (h, lease_rank (wo_lease w) + 1), wo_wtime := wo_now w\<rparr>) i p"
  show "replica_ok L (cfg j) j (wo_now ?w) (wo_lease ?w) (wo_wtime ?w) (wo_el ?w j) (wo_gate ?w j) (wo_phase ?w j)"
    using own replica_ok_other_write[OF replica_of_inv[OF inv, of j] oth] by (cases "j = i") (auto simp: set_phase_def)
qed (simp_all add: set_phase_def lease_rank_def)

lemma own_write_ok:
  assumes inv: "election_inv cfg L w" and "start \<le> wo_now w"
  shows "replica_ok L (cfg i) i (wo_now w) (Some (Some i, lease_rank (wo_lease w) + 1)) (wo_now w)
    (wo_el w i) (wo_gate w i) (Wrote start was k)"
proof -
  let ?l = "Some (Some i, lease_rank (wo_lease w) + 1)"
  have "u \<le> wo_now w \<or> (lease_holder ?l = Some i \<and> u \<le> wo_now w + renew_deadline (cfg i))"
    if "claim_until (wo_el w i) (wo_gate w i) (Wrote start was k) u" for u
  proof -
    have "claim_until (wo_el w i) (wo_gate w i) (wo_phase w i) u \<or> u = start + renew_deadline (cfg i)"
      using that config_of_inv[OF inv, of i] by (auto simp: claim_until_def)
    then show ?thesis
      using claim_of_inv[OF inv] assms(2) inv by (fastforce simp: lease_holder_def election_inv_def)
  qed
  moreover have "seen ?l v \<and> \<not> current_version ?l v" if "el_observed (wo_el w i) = Some (v, t)" for v t
    using observed_of_inv[OF inv that] seen_after_write not_current_after_write by blast
  ultimately show ?thesis
    using assms(2) config_of_inv[OF inv] by (simp add: replica_ok_def phase_ok_def)
qed

lemma inv_release_applied:
  assumes inv: "election_inv cfg L w" and ph: "wo_phase w i = ReleaseWriting v"
    and put: "lease_put (wo_lease w) None (Some v) = (l', True)"
  shows "election_inv cfg L (set_phase (w\<lparr>wo_lease := l', wo_wtime := wo_now w\<rparr>) i Idle)"
proof -
  have p: "el_last_renew (wo_el w i) = None" "wo_gate w i = None" "lease_holder (wo_lease w) = Some i"
    using phase_of_inv[OF inv, of i] ph lease_put_True(3)[OF put] by (auto simp: phase_ok_def)
  have none: "\<not> claim_until (wo_el w i) (wo_gate w i) Idle u" for u
    using p by (simp add: claim_until_def leader_until_def)
  have "replica_ok L (cfg i) i (wo_now w) (wo_lease w) (wo_wtime w) (wo_el w i) (wo_gate w i) Idle"
    using replica_of_inv[OF inv, of i] none by (simp add: replica_ok_def phase_ok_def)
  then have "replica_ok L (cfg i) i (wo_now w) (Some (None, lease_rank (wo_lease w) + 1)) (wo_now w) (wo_el w i) (wo_gate w i) Idle"
    by (rule replica_ok_other_write) (simp add: none)
  moreover have "u \<le> wo_now w" if "j \<noteq> i" "claim_until (wo_el w j) (wo_gate w j) (wo_phase w j) u" for j u
    using claim_of_inv[OF inv that(2)] p(3) that(1) by auto
  ultimately show ?thesis using inv_write[OF inv] lease_put_True(1)[OF put] by blast
qed

text \<open>Every step keeps the invariant.\<close>

lemma inv_read:
  assumes inv: "election_inv cfg L w" and me: "identity (cfg i) = i" and ph: "wo_phase w i = Reading start"
    and lat: "wo_now w \<le> start + L" and get: "step_get (wo_el w i) start (lease_get (wo_lease w)) = (e, plan)"
  shows "plan = Finished c \<Longrightarrow> election_inv cfg L (tick_done w i e)"
    and "plan = Write k x r \<Longrightarrow>
      election_inv cfg L (set_phase (w\<lparr>wo_el := (wo_el w)(i := e)\<rparr>) i (Writing start was k x r))"
proof -
  have wt: "wo_wtime w \<le> wo_now w" "wo_lease w \<noteq> None \<longrightarrow> 1 \<le> lease_rank (wo_lease w)"
    using inv by (auto simp: election_inv_def)
  note g = step_get_ok[OF replica_of_inv[OF inv, of i, unfolded ph] me lat wt get]
  show "election_inv cfg L (tick_done w i e)"
    using g(1,2,3) by (intro election_inv_tick_done[OF inv]) (auto simp: claim_until_def)
  assume "plan = Write k x r"
  from election_inv_replica[OF inv g(4)[OF this]]
  show "election_inv cfg L (set_phase (w\<lparr>wo_el := (wo_el w)(i := e)\<rparr>) i (Writing start was k x r))"
    by (simp add: set_phase_def fun_upd_idem)
qed

lemma inv_tick_kept: "election_inv cfg L w \<Longrightarrow> election_inv cfg L (tick_done w i (wo_el w i))"
  by (intro election_inv_tick_done) (auto simp: config_of_inv claim_until_def dest: observed_of_inv)

lemma inv_acknowledged:
  assumes inv: "election_inv cfg L w" and ph: "wo_phase w i = Wrote start was k"
  shows "election_inv cfg L (tick_done w i (fst (step_put (wo_el w i) start was k)))"
proof (rule election_inv_tick_done[OF inv])
  show "el_config (fst (step_put (wo_el w i) start was k)) = cfg i"
    using config_of_inv[OF inv] by (cases k) (simp_all add: step_put_def acquired_def)
  show "claim_until (wo_el w i) (wo_gate w i) (wo_phase w i) u"
    if "leader_until (fst (step_put (wo_el w i) start was k)) = Some u" for u
    using that ph by (cases k) (auto simp: step_put_def acquired_def leader_until_def claim_until_def)
  show "seen (wo_lease w) v \<and> (current_version (wo_lease w) v \<longrightarrow> wo_wtime w \<le> t + L)"
    if "el_observed (fst (step_put (wo_el w i) start was k)) = Some (v, t)" for v t
    using that observed_of_inv[OF inv, of i v t] by (cases k) (auto simp: step_put_def acquired_def)
qed

lemma inv_shutdown:
  assumes inv: "election_inv cfg L w"
  shows "election_inv cfg L (set_phase (tick_done w i ((wo_el w i)\<lparr>el_last_renew := None\<rparr>)) i
    (if b then Idle else Releasing))"
proof (rule election_inv_set_phase)
  let ?w = "tick_done w i ((wo_el w i)\<lparr>el_last_renew := None\<rparr>)"
  show inv': "election_inv cfg L ?w"
    by (rule election_inv_tick_done[OF inv])
      (auto simp: config_of_inv[OF inv] leader_until_def dest: observed_of_inv[OF inv])
  have "wo_phase ?w i = Idle" "wo_gate ?w i = None" "el_last_renew (wo_el ?w i) = None"
    by (simp_all add: tick_done_def leader_until_def)
  with replica_of_inv[OF inv', of i]
  show "replica_ok L (cfg i) i (wo_now ?w) (wo_lease ?w) (wo_wtime ?w) (wo_el ?w i) (wo_gate ?w i) (if b then Idle else Releasing)"
    by (simp add: replica_ok_def phase_ok_def claim_until_def leader_until_def)
qed

lemma inv_release_read:
  assumes inv: "election_inv cfg L w" and ph: "wo_phase w i = Releasing"
  shows "election_inv cfg L (set_phase w i (case lease_get (wo_lease w) of
     Some rec \<Rightarrow> if lr_holder rec = Some i then ReleaseWriting (lr_version rec) else Idle | None \<Rightarrow> Idle))"
proof (rule election_inv_set_phase[OF inv])
  have p: "el_last_renew (wo_el w i) = None" "wo_gate w i = None"
    using phase_of_inv[OF inv, of i] ph by (auto simp: phase_ok_def)
  have rank: "wo_lease w \<noteq> None \<longrightarrow> 1 \<le> lease_rank (wo_lease w)" using inv by (simp add: election_inv_def)
  from p rank replica_of_inv[OF inv, of i] ph
  show "replica_ok L (cfg i) i (wo_now w) (wo_lease w) (wo_wtime w) (wo_el w i) (wo_gate w i)
     (case lease_get (wo_lease w) of
        Some rec \<Rightarrow> if lr_holder rec = Some i then ReleaseWriting (lr_version rec) else Idle | None \<Rightarrow> Idle)"
    by (auto simp: replica_ok_def phase_ok_def claim_until_def lease_get_def seen_def lease_rank_def lease_holder_def
        split: option.splits prod.splits)
qed

lemma election_step_inv:
  assumes "election_step cfg L w w'" and inv: "election_inv cfg L w" and tm: "timings_ok cfg L"
  shows "election_inv cfg L w'"
  using assms(1)
proof cases
  case (pass d)
  then show ?thesis using inv replica_ok_pass by (simp add: election_inv_def trans_le_add1)
next
  case (tick_begin i)
  have "replica_ok L (cfg i) i (wo_now w) (wo_lease w) (wo_wtime w) (wo_el w i) (wo_gate w i) (Reading (wo_now w))"
    using replica_of_inv[OF inv, of i] tick_begin by (simp add: replica_ok_def phase_ok_def claim_until_def)
  then show ?thesis using tick_begin election_inv_set_phase[OF inv] by simp
next
  case (write_applied i start was k x c lease')
  have "start \<le> wo_now w" using phase_of_inv[OF inv, of i] write_applied by (simp add: phase_ok_def)
  then show ?thesis
    using inv_write[OF inv accepted_write_expires_others[OF inv tm write_applied(2,3)] own_write_ok[OF inv]]
      lease_put_True(1)[OF write_applied(3)] write_applied(1) by simp
next
  case (release_failed i v)
  have "replica_ok L (cfg i) i (wo_now w) (wo_lease w) (wo_wtime w) (wo_el w i) (wo_gate w i) Idle"
    using replica_of_inv[OF inv, of i] release_failed by (simp add: replica_ok_def phase_ok_def claim_until_def)
  then show ?thesis using release_failed election_inv_set_phase[OF inv] by simp
next
  case (restart i)
  show ?thesis unfolding restart
    by (rule election_inv_tick_done[OF inv]) (simp_all add: elector_new_def leader_until_def)
qed (use tm inv_read[OF inv] inv_tick_kept[OF inv] inv_acknowledged[OF inv] inv_shutdown[OF inv]
      inv_release_read[OF inv] inv_release_applied[OF inv] in \<open>simp_all add: timings_ok_def\<close>)

lemma election_reach_inv:
  assumes "election_reach cfg L w" and "timings_ok cfg L"
  shows "election_inv cfg L w"
  using assms
proof (induction rule: election_reach.induct)
  case reach_init
  then show ?case
    by (simp add: election_inv_def world_init_def replica_ok_def phase_ok_def claim_until_def elector_new_def leader_until_def)
next
  case (reach_step w w')
  then show ?case using election_step_inv by blast
qed

lemma serves_claim:
  assumes inv: "election_inv cfg L w" and "serves w i"
  shows "lease_holder (wo_lease w) = Some i" and "wo_now w < wo_wtime w + renew_deadline (cfg i)"
proof -
  obtain u where "wo_gate w i = Some u" "wo_now w < u"
    using assms(2) by (auto simp: serves_def serving_def split: option.splits)
  then have "lease_holder (wo_lease w) = Some i \<and> u \<le> wo_wtime w + renew_deadline (cfg i)"
    using claim_of_inv[OF inv, of i u] by (auto simp: claim_until_def)
  then show "lease_holder (wo_lease w) = Some i" "wo_now w < wo_wtime w + renew_deadline (cfg i)"
    using \<open>wo_now w < u\<close> by auto
qed

text \<open>Two named replicas, for concrete histories.\<close>

definition demo_config :: "string \<Rightarrow> election_config" where
  "demo_config i = \<lparr>identity = i, lease_duration = 5, renew_deadline = 3, retry_period = 1\<rparr>"

definition duo :: "instant \<Rightarrow> memory_lease \<Rightarrow> instant \<Rightarrow> elector \<Rightarrow> elector \<Rightarrow> instant option \<Rightarrow> instant option
    \<Rightarrow> phase \<Rightarrow> phase \<Rightarrow> world" where
  "duo now l wt ea eb ga gb pa pb =
     \<lparr>wo_now = now, wo_lease = l, wo_wtime = wt,
      wo_el = (\<lambda>i. elector_new (demo_config i))(''a'' := ea, ''b'' := eb),
      wo_gate = (\<lambda>_. None)(''a'' := ga, ''b'' := gb),
      wo_phase = (\<lambda>_. Idle)(''a'' := pa, ''b'' := pb)\<rparr>"

lemma duo_simps:
  "wo_now (duo now l wt ea eb ga gb pa pb) = now"
  "wo_lease (duo now l wt ea eb ga gb pa pb) = l"
  "wo_el (duo now l wt ea eb ga gb pa pb) ''a'' = ea" "wo_el (duo now l wt ea eb ga gb pa pb) ''b'' = eb"
  "wo_gate (duo now l wt ea eb ga gb pa pb) ''a'' = ga" "wo_gate (duo now l wt ea eb ga gb pa pb) ''b'' = gb"
  "wo_phase (duo now l wt ea eb ga gb pa pb) ''a'' = pa" "wo_phase (duo now l wt ea eb ga gb pa pb) ''b'' = pb"
  "set_phase (duo now l wt ea eb ga gb pa pb) ''a'' p = duo now l wt ea eb ga gb p pb"
  "set_phase (duo now l wt ea eb ga gb pa pb) ''b'' p = duo now l wt ea eb ga gb pa p"
  "tick_done (duo now l wt ea eb ga gb pa pb) ''a'' e = duo now l wt e eb (leader_until e) gb Idle pb"
  "tick_done (duo now l wt ea eb ga gb pa pb) ''b'' e = duo now l wt ea e ga (leader_until e) pa Idle"
  "(duo now l wt ea eb ga gb pa pb)\<lparr>wo_now := now'\<rparr> = duo now' l wt ea eb ga gb pa pb"
  "set_phase ((duo now l wt ea eb ga gb pa pb)\<lparr>wo_lease := l', wo_wtime := wt'\<rparr>) ''a'' p = duo now l' wt' ea eb ga gb p pb"
  "set_phase ((duo now l wt ea eb ga gb pa pb)\<lparr>wo_lease := l', wo_wtime := wt'\<rparr>) ''b'' p = duo now l' wt' ea eb ga gb pa p"
  "set_phase ((duo now l wt ea eb ga gb pa pb)\<lparr>wo_el := (wo_el (duo now l wt ea eb ga gb pa pb))(''a'' := e)\<rparr>) ''a'' p
     = duo now l wt e eb ga gb p pb"
  "set_phase ((duo now l wt ea eb ga gb pa pb)\<lparr>wo_el := (wo_el (duo now l wt ea eb ga gb pa pb))(''b'' := e)\<rparr>) ''b'' p
     = duo now l wt ea e ga gb pa p"
  by (simp_all add: duo_def set_phase_def tick_done_def fun_upd_twist)

text \<open>One whole successful tick of a replica, with all its latency before the read.\<close>

lemma duo_tick_a:
  assumes "election_reach demo_config L (duo now l wt ea eb ga gb Idle pb)"
    and "step_get ea now (lease_get l) = (ea', Write k x c)"
    and "lease_put l (Some ''a'') x = (l', True)"
  shows "election_reach demo_config L (duo now l' now (fst (step_put ea' now (is_leader ea now) k)) eb
    (leader_until (fst (step_put ea' now (is_leader ea now) k))) gb Idle pb)"
proof -
  let ?r = "election_reach demo_config L"
  have "?r (duo now l wt ea eb ga gb (Reading now) pb)"
    using reach_step[OF assms(1) tick_begin[of _ "''a''"]] by (simp add: duo_simps)
  from reach_step[OF this read_write[of _ "''a''" now]] assms(2)
  have "?r (duo now l wt ea' eb ga gb (Writing now (is_leader ea now) k x c) pb)" by (simp add: duo_simps)
  from reach_step[OF this write_applied[of _ "''a''"]] assms(3)
  have "?r (duo now l' now ea' eb ga gb (Wrote now (is_leader ea now) k) pb)" by (simp add: duo_simps)
  from reach_step[OF this acknowledged[of _ "''a''"]] show ?thesis by (simp add: duo_simps)
qed

lemma duo_tick_b:
  assumes "election_reach demo_config L (duo now l wt ea eb ga gb pa Idle)"
    and "step_get eb now (lease_get l) = (eb', Write k x c)"
    and "lease_put l (Some ''b'') x = (l', True)"
  shows "election_reach demo_config L (duo now l' now ea (fst (step_put eb' now (is_leader eb now) k))
    ga (leader_until (fst (step_put eb' now (is_leader eb now) k))) pa Idle)"
proof -
  let ?r = "election_reach demo_config L"
  have "?r (duo now l wt ea eb ga gb pa (Reading now))"
    using reach_step[OF assms(1) tick_begin[of _ "''b''"]] by (simp add: duo_simps)
  from reach_step[OF this read_write[of _ "''b''" now]] assms(2)
  have "?r (duo now l wt ea eb' ga gb pa (Writing now (is_leader eb now) k x c))" by (simp add: duo_simps)
  from reach_step[OF this write_applied[of _ "''b''"]] assms(3)
  have "?r (duo now l' now ea eb' ga gb pa (Wrote now (is_leader eb now) k))" by (simp add: duo_simps)
  from reach_step[OF this acknowledged[of _ "''b''"]] show ?thesis by (simp add: duo_simps)
qed

lemma duo_init: "world_init demo_config = duo 0 None 0 (elector_new (demo_config ''a'')) (elector_new (demo_config ''b'')) None None Idle Idle"
  by (simp add: world_init_def duo_def fun_eq_iff)

lemmas election_eval =
  step_get_def step_put_def lease_get_def lease_put_def elector_new_def demo_config_def acquired_def leader_until_def
  is_leader_def saturating_duration_since_def Let_def

text \<open>Replica a creates the record at time 0 and leads.\<close>

definition demo_leader :: elector where
  "demo_leader = \<lparr>el_config = demo_config ''a'', el_observed = None, el_last_renew = Some 0\<rparr>"

lemma demo_leader_reach:
  "election_reach demo_config L
     (duo 0 (Some (Some ''a'', 1)) 0 demo_leader (elector_new (demo_config ''b'')) (Some 3) None Idle Idle)"
  using duo_tick_a[OF reach_init[of demo_config L, unfolded duo_init], of "elector_new (demo_config ''a'')" Create None NoChange]
  by (simp add: election_eval demo_leader_def)

text \<open>
  C5. At most one replica answers requests at any moment, under every interleaving of ticks,
  slow writes, lost acknowledgements, releases, crashes and restarts, provided a read of the
  lease takes at most \<open>L\<close> and the configured lease duration exceeds every renew deadline by at
  least \<open>L\<close>.
\<close>

theorem at_most_one_leader:
  assumes "election_reach cfg L w" and "timings_ok cfg L" and "serves w i" and "serves w j"
  shows "i = j"
  using serves_claim(1)[OF election_reach_inv[OF assms(1,2)] assms(3)]
    serves_claim(1)[OF election_reach_inv[OF assms(1,2)] assms(4)] by simp

theorem at_most_one_leader_witness:
  "serves (duo 0 (Some (Some ''a'', 1)) 0 demo_leader (elector_new (demo_config ''b'')) (Some 3) None Idle Idle) ''a''
   \<and> \<not> serves (duo 0 (Some (Some ''a'', 1)) 0 demo_leader (elector_new (demo_config ''b'')) (Some 3) None Idle Idle) ''b''"
proof -
  let ?w = "duo 0 (Some (Some ''a'', 1)) 0 demo_leader (elector_new (demo_config ''b'')) (Some 3) None Idle Idle"
  have a: "serves ?w ''a''" by (simp add: serves_def serving_def duo_simps)
  have "timings_ok demo_config 2" by (simp add: timings_ok_def demo_config_def)
  from at_most_one_leader[OF demo_leader_reach this a, of "''b''"] a show ?thesis by auto
qed

text \<open>
  C19. The bound on the read's latency is needed: with a configuration that passes validation
  (lease duration 5, renew deadline 3) and a read that takes 3, two replicas serve at once. The
  candidate dates its observation from before its read, while the leader renews in between.
\<close>

theorem slow_read_gives_two_leaders:
  "election_validate (demo_config ''a'') 2 = Inr () \<and> election_validate (demo_config ''b'') 2 = Inr ()
   \<and> (\<exists>w. election_reach demo_config 3 w \<and> serves w ''a'' \<and> serves w ''b'')"
proof (intro conjI)
  show "election_validate (demo_config ''a'') 2 = Inr ()" "election_validate (demo_config ''b'') 2 = Inr ()"
    by (simp_all add: election_validate_def demo_config_def)
  let ?r = "election_reach demo_config 3"
  let ?b = "elector_new (demo_config ''b'')"
  let ?w = "duo 5 (Some (Some ''b'', 3)) 5 (demo_leader\<lparr>el_last_renew := Some 3\<rparr>)
      (?b\<lparr>el_last_renew := Some 5\<rparr>) (Some 6) (Some 8) Idle Idle"
  from reach_step[OF demo_leader_reach[of 3] tick_begin[of _ "''b''"]]
  have "?r (duo 0 (Some (Some ''a'', 1)) 0 demo_leader ?b (Some 3) None Idle (Reading 0))" by (simp add: duo_simps)
  from reach_step[OF this pass[of _ _ _ 3]]
  have "?r (duo 3 (Some (Some ''a'', 1)) 0 demo_leader ?b (Some 3) None Idle (Reading 0))" by (simp add: duo_simps)
  from duo_tick_a[OF this, of demo_leader Renew "Some (to_string 1)" NoChange]
  have "?r (duo 3 (Some (Some ''a'', 2)) 3 (demo_leader\<lparr>el_last_renew := Some 3\<rparr>) ?b (Some 6) None Idle (Reading 0))"
    by (simp add: election_eval demo_leader_def numeral_2_eq_2)
  from reach_step[OF this read_finished[of _ "''b''" 0]]
  have "?r (duo 3 (Some (Some ''a'', 2)) 3 (demo_leader\<lparr>el_last_renew := Some 3\<rparr>)
      (?b\<lparr>el_observed := Some (to_string 2, 0)\<rparr>) (Some 6) None Idle Idle)"
    by (simp add: duo_simps election_eval)
  from reach_step[OF this pass[of _ _ _ 2]]
  have "?r (duo 5 (Some (Some ''a'', 2)) 3 (demo_leader\<lparr>el_last_renew := Some 3\<rparr>)
      (?b\<lparr>el_observed := Some (to_string 2, 0)\<rparr>) (Some 6) None Idle Idle)"
    by (simp add: duo_simps)
  from duo_tick_b[OF this, of "?b\<lparr>el_observed := Some (to_string 2, 0)\<rparr>" TakeOver "Some (to_string 2)" NoChange]
  have "?r ?w" by (simp add: election_eval)
  moreover have "serves ?w ''a'' \<and> serves ?w ''b''" by (simp add: serves_def serving_def duo_simps)
  ultimately show "\<exists>w. ?r w \<and> serves w ''a'' \<and> serves w ''b''" by blast
qed

lemma election_step_wtime:
  "election_step cfg L w w' \<Longrightarrow> election_inv cfg L w \<Longrightarrow> wo_wtime w \<le> wo_wtime w'"
  by (cases rule: election_step.cases) (auto simp: set_phase_def tick_done_def election_inv_def)

lemma election_path:
  assumes "(election_step cfg L)\<^sup>*\<^sup>* w w'" and "election_reach cfg L w" and "timings_ok cfg L"
  shows "election_reach cfg L w' \<and> wo_wtime w \<le> wo_wtime w'"
  using assms(1)
proof (induction rule: rtranclp_induct)
  case base
  then show ?case using assms(2) by simp
next
  case (step y z)
  then show ?case
    using election_step_wtime[OF _ election_reach_inv[OF _ assms(3)]] reach_step by (meson order_trans)
qed

text \<open>
  Taking over a dead leader leaves a gap: when a candidate's take-over of another's record is
  accepted, every instant at which anyone served before lies at least the lease duration less
  the renew deadline and the read's latency before the start of the candidate's tick.
\<close>

lemma takeover_gap:
  assumes "election_reach cfg L w" and "timings_ok cfg L" and "serves w i"
    and "(election_step cfg L)\<^sup>*\<^sup>* w w'"
    and "wo_phase w' j = Writing start was TakeOver x c"
    and "snd (lease_put (wo_lease w') (Some j) x)"
  shows "wo_now w + lease_duration (cfg j) < start + L + renew_deadline (cfg i)"
proof -
  have w': "election_reach cfg L w'" "wo_wtime w \<le> wo_wtime w'"
    using election_path[OF assms(4,1,2)] by simp_all
  have inv: "election_inv cfg L w'" by (rule election_reach_inv[OF w'(1) assms(2)])
  obtain l' where put: "lease_put (wo_lease w') (Some j) x = (l', True)"
    using assms(6) by (cases "lease_put (wo_lease w') (Some j) x") auto
  have p: "phase_ok L (cfg j) j (wo_now w') (wo_lease w') (wo_wtime w') (wo_el w' j) (wo_gate w' j) (Writing start was TakeOver x c)"
    using phase_of_inv[OF inv, of j] assms(5) by simp
  then obtain v where v: "x = Some v" by (auto simp: phase_ok_def split: option.splits)
  have "wo_wtime w' + lease_duration (cfg j) \<le> start + L"
    using p v lease_put_True(3)[OF put v] by (simp add: phase_ok_def)
  moreover have "wo_now w < wo_wtime w + renew_deadline (cfg i)"
    by (rule serves_claim(2)[OF election_reach_inv[OF assms(1,2)] assms(3)])
  ultimately show ?thesis using w'(2) by linarith
qed

text \<open>A led at time 0 and died; b watched the record from 0 and takes it over at 5.\<close>

lemma demo_takeover:
  "\<exists>w'. (election_step demo_config 2)\<^sup>*\<^sup>*
       (duo 0 (Some (Some ''a'', 1)) 0 demo_leader (elector_new (demo_config ''b'')) (Some 3) None Idle Idle) w'
     \<and> wo_phase w' ''b'' = Writing 5 False TakeOver (Some (to_string 1)) NoChange
     \<and> wo_lease w' = Some (Some ''a'', 1)"
proof -
  let ?b = "elector_new (demo_config ''b'')"
  let ?o = "?b\<lparr>el_observed := Some (to_string 1, 0)\<rparr>"
  let ?w = "duo 0 (Some (Some ''a'', 1)) 0 demo_leader ?b (Some 3) None Idle Idle"
  let ?w' = "duo 5 (Some (Some ''a'', 1)) 0 demo_leader ?o (Some 3) None Idle
    (Writing 5 False TakeOver (Some (to_string 1)) NoChange)"
  let ?p = "(election_step demo_config 2)\<^sup>*\<^sup>* ?w"
  have "?p (duo 0 (Some (Some ''a'', 1)) 0 demo_leader ?b (Some 3) None Idle (Reading 0))"
    using tick_begin[of ?w "''b''" demo_config 2] by (simp add: duo_simps r_into_rtranclp)
  moreover have "step_get ?b 0 (lease_get (Some (Some ''a'', 1))) = (?o, Finished NoChange)"
    and "leader_until ?o = None" by (simp_all add: election_eval)
  with read_finished[of "duo 0 (Some (Some ''a'', 1)) 0 demo_leader ?b (Some 3) None Idle (Reading 0)" "''b''" 0 2 ?o NoChange demo_config]
  have "election_step demo_config 2 (duo 0 (Some (Some ''a'', 1)) 0 demo_leader ?b (Some 3) None Idle (Reading 0))
      (duo 0 (Some (Some ''a'', 1)) 0 demo_leader ?o (Some 3) None Idle Idle)" by (simp add: duo_simps)
  ultimately have "?p (duo 0 (Some (Some ''a'', 1)) 0 demo_leader ?o (Some 3) None Idle Idle)"
    by (rule rtranclp.rtrancl_into_rtrancl)
  from rtranclp.rtrancl_into_rtrancl[OF this pass[of _ _ _ 5]]
  have "?p (duo 5 (Some (Some ''a'', 1)) 0 demo_leader ?o (Some 3) None Idle Idle)" by (simp add: duo_simps)
  from rtranclp.rtrancl_into_rtrancl[OF this tick_begin[of _ "''b''"]]
  have "?p (duo 5 (Some (Some ''a'', 1)) 0 demo_leader ?o (Some 3) None Idle (Reading 5))" by (simp add: duo_simps)
  moreover have "step_get ?o 5 (lease_get (Some (Some ''a'', 1))) = (?o, Write TakeOver (Some (to_string 1)) NoChange)"
    and "\<not> is_leader ?o 5" by (simp_all add: election_eval)
  with read_write[of "duo 5 (Some (Some ''a'', 1)) 0 demo_leader ?o (Some 3) None Idle (Reading 5)" "''b''" 5 2 ?o
      TakeOver "Some (to_string 1)" NoChange demo_config]
  have "election_step demo_config 2 (duo 5 (Some (Some ''a'', 1)) 0 demo_leader ?o (Some 3) None Idle (Reading 5)) ?w'"
    by (simp add: duo_simps)
  ultimately have p: "?p ?w'" by (rule rtranclp.rtrancl_into_rtrancl)
  then show ?thesis by (intro exI[where x = ?w']) (simp add: duo_simps)
qed

text \<open>
  A replica claims leadership only by an accepted write: after a tick on the in-process
  lease, its last renewal is unchanged or cleared, or it is this tick's start and the record
  names it with a new version; acquiring with warm-up happens exactly on a released record, and
  the backend's refusals and losses surface as \<open>NoChange\<close> or \<open>Lost\<close>, never as an error.
\<close>

theorem tick_claims_by_writing:
  assumes "tick memory_get memory_put e s now = ((e', s'), res)"
  shows "(el_last_renew e' \<in> {None, el_last_renew e} \<and> s' = s \<and> res \<in> {Inr NoChange, Inr Lost}
      \<or> el_last_renew e' = Some now \<and> s' = Some (Some (identity (el_config e)), lease_rank s + 1)
        \<and> (res = Inr (Acquired True) \<longleftrightarrow> s \<noteq> None \<and> lease_holder s = None)
        \<and> (res = Inr (Acquired False) \<longleftrightarrow> s = None \<or> lease_holder s \<notin> {None, Some (identity (el_config e))}))
    \<and> el_config e' = el_config e"
proof (cases s)
  case None
  then show ?thesis
    using assms
    by (auto simp: tick_def step_def step_get_def step_put_def memory_get_def memory_put_def lease_get_def lease_put_def
        acquired_def lease_rank_def lease_holder_def Let_def split: if_splits)
next
  case (Some hn)
  obtain h n where hn: "hn = (h, n)" by (cases hn)
  show ?thesis
  proof (cases h)
    case None
    then show ?thesis
      using assms Some hn
      by (auto simp: tick_def step_def step_get_def step_put_def memory_get_def memory_put_def lease_get_def lease_put_def
          acquired_def lease_rank_def lease_holder_def Let_def split: if_splits)
  next
    case (Some o)
    then show ?thesis
      using assms \<open>s = Some hn\<close> hn
      by (auto simp: tick_def step_def step_get_def step_put_def memory_get_def memory_put_def lease_get_def lease_put_def
          acquired_def lease_rank_def lease_holder_def Let_def is_leader_def leader_until_def split: if_splits option.splits)
  qed
qed

theorem tick_claims_by_writing_witness:
  "el_last_renew (fst (fst (tick memory_get memory_put (elector_new (demo_config ''b'')) (Some (None, 7)) 40))) = Some 40
   \<and> snd (tick memory_get memory_put (elector_new (demo_config ''b'')) (Some (None, 7)) 40) = Inr (Acquired True)"
proof -
  let ?t = "tick memory_get memory_put (elector_new (demo_config ''b'')) (Some (None, 7)) 40"
  have r: "snd ?t = Inr (Acquired True)"
    by (simp add: tick_def step_def memory_get_def memory_put_def election_eval)
  have t: "?t = ((fst (fst ?t), snd (fst ?t)), snd ?t)" by simp
  from tick_claims_by_writing[OF t] r show ?thesis by auto
qed

end
