(* ===== verification/Quota_Service.thy ===== *)
theory Quota_Service
  imports Quota Election
begin

text \<open>
  The Quota Coordinator as a service: the HTTP handlers of \<open>api.rs\<close>, the configuration checks of
  \<open>config.rs\<close>, and \<open>election.rs\<close>, which starts a term on the coordinator when the election
  says so. The JSON parser is a parameter of the renewal handler. The theorems here join the
  coordinator's and the election's: only a serving leader grants, and grants of a dead leader
  run out before its successor serves.
\<close>

section \<open>HTTP handlers (api.rs)\<close>

record quota_ctx =
  cx_coordinator :: coordinator
  cx_leadership :: leadership
  cx_token :: string

datatype api_response =
    ApiError nat string string
  | ApiLeases renew_response
  | ApiView bool bool "reservation_view list"
  | ApiText nat string

text \<open>The header is \<open>None\<close> when it is missing or not visible ASCII.\<close>

definition authorized :: "quota_ctx \<Rightarrow> string option \<Rightarrow> bool" where
  "authorized ctx auth =
     (case auth of
        None \<Rightarrow> False
      | Some v \<Rightarrow> (case strip_prefix ''Bearer '' v of None \<Rightarrow> False | Some t \<Rightarrow> trim t = cx_token ctx))"

text \<open>\<open>None\<close> is a panic of the coordinator.\<close>

definition api_renew ::
  "(string \<Rightarrow> string + renew_request) \<Rightarrow> quota_ctx \<Rightarrow> string option \<Rightarrow> string \<Rightarrow> instant
   \<Rightarrow> (quota_ctx \<times> api_response) option" where
  "api_renew from_slice ctx auth body now =
     (if \<not> authorized ctx auth
      then Some (ctx, ApiError 401 ''invalid_token'' ''Invalid or missing gateway token.'')
      else case from_slice body of
             Inl e \<Rightarrow> Some (ctx, ApiError 422 ''invalid_json'' e)
           | Inr req \<Rightarrow>
               if rq_gateway_id req = []
               then Some (ctx, ApiError 422 ''invalid_request'' ''gateway_id is required.'')
               else if \<not> serving (cx_leadership ctx) now
               then Some (ctx, ApiError 503 ''not_leader'' ''This coordinator is a standby. Try another replica.'')
               else case renew (cx_coordinator ctx) req now of
                      None \<Rightarrow> None
                    | Some (c, resp) \<Rightarrow> Some (ctx\<lparr>cx_coordinator := c\<rparr>, ApiLeases resp))"

definition api_leases :: "quota_ctx \<Rightarrow> string option \<Rightarrow> instant \<Rightarrow> api_response" where
  "api_leases ctx auth now =
     (if \<not> authorized ctx auth
      then ApiError 401 ''invalid_token'' ''Invalid or missing gateway token.''
      else ApiView (serving (cx_leadership ctx) now) (warming_up (cx_coordinator ctx) now) (view (cx_coordinator ctx) now))"

definition api_leader :: "quota_ctx \<Rightarrow> instant \<Rightarrow> api_response" where
  "api_leader ctx now =
     (if serving (cx_leadership ctx) now then ApiText 200 ''leader'' else ApiText 503 ''standby'')"

section \<open>Configuration (config.rs)\<close>

record election_settings =
  es_identity :: "string option"
  es_lease_duration_ms :: nat
  es_renew_deadline_ms :: nat
  es_retry_period_ms :: nat

record quota_config =
  qc_lease_ttl_ms :: nat
  qc_floor_fraction :: real
  qc_election :: "election_settings option"

datatype quota_config_error =
  LeaseTtlTooShort | FloorFractionRange | NoIdentity | ElectionTimings election_config_error

text \<open>\<open>POD_NAME\<close> and \<open>HOSTNAME\<close> of the environment are arguments.\<close>

definition settings_config ::
  "string option \<Rightarrow> string option \<Rightarrow> election_settings \<Rightarrow> quota_config_error + election_config" where
  "settings_config pod_name hostname s =
     (let named = (case es_identity s of Some i \<Rightarrow> Some i
                   | None \<Rightarrow> (case pod_name of Some p \<Rightarrow> Some p | None \<Rightarrow> hostname))
      in case named of
           None \<Rightarrow> Inl NoIdentity
         | Some i \<Rightarrow> Inr \<lparr>identity = i, lease_duration = from_millis (es_lease_duration_ms s),
                          renew_deadline = from_millis (es_renew_deadline_ms s),
                          retry_period = from_millis (es_retry_period_ms s)\<rparr>)"

definition quota_coordinator_config :: "quota_config \<Rightarrow> coordinator_config" where
  "quota_coordinator_config c =
     \<lparr>lease_ttl = from_millis (qc_lease_ttl_ms c), floor_fraction = qc_floor_fraction c\<rparr>"

definition quota_config_check ::
  "string option \<Rightarrow> string option \<Rightarrow> quota_config \<Rightarrow> quota_config_error + quota_config" where
  "quota_config_check pod_name hostname c =
     (if qc_lease_ttl_ms c < 100 then Inl LeaseTtlTooShort
      else if \<not> (0 \<le> qc_floor_fraction c \<and> qc_floor_fraction c < 1) then Inl FloorFractionRange
      else case qc_election c of
             None \<Rightarrow> Inr c
           | Some s \<Rightarrow>
               (case settings_config pod_name hostname s of
                  Inl e \<Rightarrow> Inl e
                | Inr ec \<Rightarrow>
                    (case election_validate ec (grant_hold (quota_coordinator_config c)) of
                       Inl e \<Rightarrow> Inl (ElectionTimings e)
                     | Inr _ \<Rightarrow> Inr c)))"

section \<open>Terms (election.rs, main.rs)\<close>

definition quota_on_change :: "coordinator \<Rightarrow> change \<Rightarrow> instant \<Rightarrow> coordinator" where
  "quota_on_change c ch now = (case ch of Acquired warm_up \<Rightarrow> begin_term c now warm_up | _ \<Rightarrow> c)"

text \<open>Start-up: without election the replica always serves and warms up.\<close>

definition quota_start :: "quota_config \<Rightarrow> instant \<Rightarrow> coordinator \<times> leadership" where
  "quota_start c now =
     (let co = coordinator_new (quota_coordinator_config c)
      in case qc_election c of
           None \<Rightarrow> (begin_term co now True, leadership_always)
         | Some _ \<Rightarrow> (co, leadership_elected))"

text \<open>One round of \<open>run\<close>: tick, pass the change on, and let the gate follow the elector.\<close>

definition election_round ::
  "('s \<Rightarrow> election_error + lease_record option)
   \<Rightarrow> ('s \<Rightarrow> string option \<Rightarrow> string option \<Rightarrow> 's \<times> (election_error + bool))
   \<Rightarrow> elector \<Rightarrow> 's \<Rightarrow> coordinator \<Rightarrow> leadership \<Rightarrow> instant \<Rightarrow> elector \<times> 's \<times> coordinator \<times> leadership" where
  "election_round get put e s c l now =
     (case tick get put e s now of
        ((e, s), res) \<Rightarrow>
          (e, s, case res of Inl _ \<Rightarrow> c | Inr ch \<Rightarrow> quota_on_change c ch now, leadership_set l (leader_until e)))"

section \<open>Properties\<close>

text \<open>
  A renewal changes the coordinator only when it is authorised, well formed and reaches a
  serving replica; then the answer is the coordinator's. Every other request is answered with
  401, 422 or 503 and leaves the coordinator as it was, and no reachable state makes it panic.
\<close>

theorem only_a_serving_leader_grants:
  assumes "quota_reach config B (cx_coordinator ctx) T"
  shows "\<exists>ctx' resp. api_renew from_slice ctx auth body now = Some (ctx', resp)
    \<and> (case resp of
         ApiLeases r \<Rightarrow> authorized ctx auth \<and> serving (cx_leadership ctx) now
           \<and> (\<exists>req. from_slice body = Inr req \<and> rq_gateway_id req \<noteq> []
                 \<and> renew (cx_coordinator ctx) req now = Some (cx_coordinator ctx', r))
       | ApiError status _ _ \<Rightarrow> ctx' = ctx \<and> status \<in> {401, 422, 503}
           \<and> (status = 503 \<longrightarrow> \<not> serving (cx_leadership ctx) now) \<and> (status = 401 \<longleftrightarrow> \<not> authorized ctx auth)
       | _ \<Rightarrow> False)"
proof -
  have ok: "coordinator_ok (cx_coordinator ctx)" using quota_reach_inv[OF assms] by blast
  show ?thesis
  proof (cases "from_slice body")
    case (Inl e)
    then show ?thesis by (simp add: api_renew_def)
  next
    case (Inr req)
    obtain c r where "renew (cx_coordinator ctx) req now = Some (c, r)"
      using renew_ok[OF ok, of req now] by metis
    with Inr show ?thesis by (simp add: api_renew_def)
  qed
qed

theorem only_a_serving_leader_grants_witness:
  "\<exists>ctx' r. api_renew (\<lambda>_. Inr (demo_renewal ''b'' 1000 1 800 0))
      \<lparr>cx_coordinator = demo_one, cx_leadership = leadership_always, cx_token = ''t''\<rparr> (Some ''Bearer t'') ''{}'' 10000000
    = Some (ctx', ApiLeases r) \<and> map ls_rate_wu_s (rs_leases r) = [0]"
proof -
  let ?ctx = "\<lparr>cx_coordinator = demo_one, cx_leadership = leadership_always, cx_token = ''t''\<rparr>"
  let ?p = "\<lambda>_. Inr (demo_renewal ''b'' 1000 1 800 0)"
  have reach: "quota_reach coordinator_config_default (\<lambda>_. 1000) (cx_coordinator ?ctx) 0"
    using demo_one_reach[of "\<lambda>_. 1000"] by simp
  from only_a_serving_leader_grants[OF reach, of ?p "Some ''Bearer t''" "''{}''" 10000000]
  obtain ctx' resp where r: "api_renew ?p ?ctx (Some ''Bearer t'') ''{}'' 10000000 = Some (ctx', resp)" by blast
  then show ?thesis
    by (auto simp: api_renew_def authorized_def strip_prefix_def trim_def is_space_def leadership_always_def serving_def
        quota_eval demo_renewal_def demo_one_def)
qed

text \<open>
  C17. A checked configuration with election waits out a dead leader's grants: between the last
  instant at which any replica served and the start of the tick with which a candidate takes
  over its record there is more than one grant hold, less the latency of a lease read. With
  instantaneous reads every grant has expired when the new leader begins its term.
\<close>

theorem takeover_after_grants_expire:
  assumes "\<forall>i. cfg i = ec\<lparr>identity := i\<rparr>" and "election_validate ec (grant_hold qc) = Inr ()"
    and "L + renew_deadline ec \<le> lease_duration ec"
    and "election_reach cfg L w" and "serves w i" and "(election_step cfg L)\<^sup>*\<^sup>* w w'"
    and "wo_phase w' j = Writing start was TakeOver x c"
    and "snd (lease_put (wo_lease w') (Some j) x)"
  shows "wo_now w + grant_hold qc < start + L"
proof -
  have tm: "timings_ok cfg L" using assms(1,3) by (simp add: timings_ok_def)
  have "wo_now w + lease_duration (cfg j) < start + L + renew_deadline (cfg i)"
    by (rule takeover_gap[OF assms(4) tm assms(5-8)])
  moreover have "lease_duration ec - renew_deadline ec \<ge> grant_hold qc" "renew_deadline ec < lease_duration ec"
    using assms(2) by (simp_all add: election_validate_def split: if_splits)
  ultimately show ?thesis using assms(1) by simp
qed

text \<open>Replica a served at time 0 and died; b takes over with a tick that starts at 5.\<close>

theorem takeover_after_grants_expire_witness:
  "\<exists>w w' start. serves w ''a'' \<and> (election_step demo_config 2)\<^sup>*\<^sup>* w w'
     \<and> wo_phase w' ''b'' = Writing start False TakeOver (Some (to_string 1)) NoChange
     \<and> wo_now w + grant_hold \<lparr>lease_ttl = 1, floor_fraction = 0\<rparr> < start + 2"
proof -
  let ?w = "duo 0 (Some (Some ''a'', 1)) 0 demo_leader (elector_new (demo_config ''b'')) (Some 3) None Idle Idle"
  let ?qc = "\<lparr>lease_ttl = 1, floor_fraction = 0\<rparr>"
  obtain w' where p: "(election_step demo_config 2)\<^sup>*\<^sup>* ?w w'"
    "wo_phase w' ''b'' = Writing 5 False TakeOver (Some (to_string 1)) NoChange" "wo_lease w' = Some (Some ''a'', 1)"
    using demo_takeover by blast
  have s: "serves ?w ''a''" by (simp add: serves_def serving_def duo_simps)
  have v: "\<forall>i. demo_config i = (demo_config ''x'')\<lparr>identity := i\<rparr>"
    "election_validate (demo_config ''x'') (grant_hold ?qc) = Inr ()"
    "2 + renew_deadline (demo_config ''x'') \<le> lease_duration (demo_config ''x'')"
    by (simp_all add: demo_config_def election_validate_def grant_hold_def)
  have "snd (lease_put (wo_lease w') (Some ''b'') (Some (to_string 1)))" by (simp add: p(3) lease_put_def)
  from takeover_after_grants_expire[OF v demo_leader_reach s p(1,2) this]
  show ?thesis using p s by blast
qed

text \<open>
  C20. A leader that restarts under the same name skips the warm-up: its first tick finds its own
  name in the record and reports \<open>Resumed\<close>, on which no term begins, although its state is gone.
  Here the restarted coordinator grants the whole entitlement to a second gateway while the
  first one still holds the whole entitlement from before the restart.
\<close>

theorem restart_resumes_without_warm_up:
  "(\<forall>ec v c l now. snd (tick memory_get memory_put (elector_new ec) (Some (Some (identity ec), v)) now) = Inr Resumed
      \<and> fst (snd (snd (election_round memory_get memory_put (elector_new ec) (Some (Some (identity ec), v)) c l now))) = c)
   \<and> granted_sum (\<lambda>_. True) 200 (rv_gateways (snd (hd (co_reservations demo_one)))) = 1000
   \<and> (\<exists>c' resp. renew (coordinator_new coordinator_config_default) (demo_renewal ''b'' 1000 1 800 0) 200 = Some (c', resp)
        \<and> map ls_rate_wu_s (rs_leases resp) = [1000])"
proof (intro conjI allI)
  fix ec v c l now
  show "snd (tick memory_get memory_put (elector_new ec) (Some (Some (identity ec), v)) now) = Inr Resumed"
    and "fst (snd (snd (election_round memory_get memory_put (elector_new ec) (Some (Some (identity ec), v)) c l now))) = c"
    by (simp_all add: election_round_def quota_on_change_def tick_def step_def step_get_def step_put_def memory_get_def
        memory_put_def lease_get_def lease_put_def elector_new_def is_leader_def leader_until_def)
qed (simp_all add: quota_eval demo_renewal_def demo_one_def)

end
