(* ===== verification/Scheduler.thy ===== *)
theory Scheduler
  imports PT_Core
begin

text \<open>
  Request ordering of the router (crate \<open>pt-router\<close>, \<open>scheduler.rs\<close>): strict priority classes,
  then self-clocked weighted fair queuing over the reservations of a class. The four class
  queues are a function of the class, the flows of a class an association list in the map's
  iteration order. What the dispatcher relies on, that the scheduler neither loses nor invents
  requests, is the locale \<open>request_bag\<close>.
\<close>

section \<open>State\<close>

definition CLASSES :: "traffic_class list" where
  "CLASSES = [Provisioned, Burst, Spillover, Payg]"

record 'a item =
  it_id :: nat
  it_flow :: string
  it_class :: traffic_class
  it_wu :: real
  it_weight :: real
  it_deadline :: instant
  it_payload :: 'a

record 'a queued =
  q_id :: nat
  q_flow :: string
  q_class :: traffic_class
  q_wu :: real
  q_deadline :: instant
  q_payload :: 'a
  q_finish :: real

record 'a flow =
  fl_last_finish :: real
  fl_queue :: "'a queued list"

record 'a class_queue =
  cq_virtual_time :: real
  cq_flows :: "(string \<times> 'a flow) list"
  cq_len :: nat

definition class_queue_default :: "'a class_queue" where
  "class_queue_default = \<lparr>cq_virtual_time = 0, cq_flows = [], cq_len = 0\<rparr>"

record handle =
  h_class :: traffic_class
  h_flow :: string
  h_id :: nat

record 'a scheduler =
  sc_classes :: "traffic_class \<Rightarrow> 'a class_queue"
  sc_since_payg :: nat
  sc_payg_guard_every :: nat

definition scheduler_new :: "nat \<Rightarrow> 'a scheduler" where
  "scheduler_new payg_guard_every =
     \<lparr>sc_classes = (\<lambda>_. class_queue_default), sc_since_payg = 0, sc_payg_guard_every = payg_guard_every\<rparr>"

definition scheduler_len :: "'a scheduler \<Rightarrow> nat" where
  "scheduler_len s = (\<Sum>c\<leftarrow>CLASSES. cq_len (sc_classes s c))"

definition len_of :: "'a scheduler \<Rightarrow> traffic_class \<Rightarrow> nat" where
  "len_of s c = cq_len (sc_classes s c)"

section \<open>Operations\<close>

text \<open>The queued request that an item becomes, with its finish tag.\<close>

definition finish_tag :: "'a class_queue \<Rightarrow> 'a item \<Rightarrow> real" where
  "finish_tag cq item =
     (let last = (case map_of (cq_flows cq) (it_flow item) of Some f \<Rightarrow> fl_last_finish f | None \<Rightarrow> 0);
          start = max (cq_virtual_time cq) last
      in start + max (it_wu item) 0 / max (it_weight item) (1 / 1000000000))"

definition queued_of :: "'a scheduler \<Rightarrow> 'a item \<Rightarrow> 'a queued" where
  "queued_of s item =
     \<lparr>q_id = it_id item, q_flow = it_flow item, q_class = it_class item, q_wu = it_wu item,
      q_deadline = it_deadline item, q_payload = it_payload item,
      q_finish = finish_tag (sc_classes s (it_class item)) item\<rparr>"

definition sched_enqueue :: "'a scheduler \<Rightarrow> 'a item \<Rightarrow> 'a scheduler" where
  "sched_enqueue s item =
     (let cq = sc_classes s (it_class item);
          f = (case map_of (cq_flows cq) (it_flow item) of
                 Some f \<Rightarrow> f | None \<Rightarrow> \<lparr>fl_last_finish = 0, fl_queue = []\<rparr>);
          finish = finish_tag cq item;
          f = \<lparr>fl_last_finish = finish, fl_queue = fl_queue f @ [queued_of s item]\<rparr>;
          cq = cq\<lparr>cq_flows := AList.update (it_flow item) f (cq_flows cq), cq_len := cq_len cq + 1\<rparr>
      in s\<lparr>sc_classes := (sc_classes s)(it_class item := cq)\<rparr>)"

definition heads :: "'a class_queue \<Rightarrow> 'a queued list" where
  "heads cq = map hd (filter (\<lambda>q. q \<noteq> []) (map (fl_queue \<circ> snd) (cq_flows cq)))"

definition handle_of :: "'a queued \<Rightarrow> handle" where
  "handle_of q = \<lparr>h_class = q_class q, h_flow = q_flow q, h_id = q_id q\<rparr>"

definition payg_starved :: "'a scheduler \<Rightarrow> bool" where
  "payg_starved s \<longleftrightarrow> 0 < sc_payg_guard_every s \<and> sc_payg_guard_every s \<le> sc_since_payg s
     \<and> 0 < cq_len (sc_classes s Payg)"

definition class_order :: "'a scheduler \<Rightarrow> traffic_class list" where
  "class_order s = (if payg_starved s then [Payg, Provisioned, Burst, Spillover] else CLASSES)"

definition candidates :: "'a scheduler \<Rightarrow> handle list" where
  "candidates s =
     concat (map (\<lambda>c. map handle_of (sort_key (\<lambda>q. (q_finish q, q_id q)) (heads (sc_classes s c)))) (class_order s))"

definition peek :: "'a scheduler \<Rightarrow> handle \<Rightarrow> 'a queued option" where
  "peek s h =
     (case map_of (cq_flows (sc_classes s (h_class h))) (h_flow h) of
        None \<Rightarrow> None
      | Some f \<Rightarrow> (case fl_queue f of [] \<Rightarrow> None | q # _ \<Rightarrow> if q_id q = h_id h then Some q else None))"

definition sched_take :: "'a scheduler \<Rightarrow> handle \<Rightarrow> 'a scheduler \<times> 'a queued option" where
  "sched_take s h =
     (let cq = sc_classes s (h_class h)
      in case map_of (cq_flows cq) (h_flow h) of
           None \<Rightarrow> (s, None)
         | Some f \<Rightarrow>
             (case fl_queue f of
                [] \<Rightarrow> (s, None)
              | q # rest \<Rightarrow>
                  if q_id q \<noteq> h_id h then (s, None)
                  else let vt = max (cq_virtual_time cq) (q_finish q);
                           flows = (if rest = [] \<and> fl_last_finish f \<le> vt
                                    then AList.delete (h_flow h) (cq_flows cq)
                                    else AList.update (h_flow h) (f\<lparr>fl_queue := rest\<rparr>) (cq_flows cq));
                           cq = cq\<lparr>cq_flows := flows, cq_len := cq_len cq - 1, cq_virtual_time := vt\<rparr>
                       in (s\<lparr>sc_classes := (sc_classes s)(h_class h := cq),
                             sc_since_payg := (if h_class h = Payg then 0 else sc_since_payg s + 1)\<rparr>, Some q)))"

text \<open>\<open>remove\<close> and \<open>expire\<close> walk the classes in order and the flows in map order.\<close>

definition remove_at :: "nat \<Rightarrow> 'a list \<Rightarrow> 'a list" where
  "remove_at pos xs = take pos xs @ drop (Suc pos) xs"

fun remove_flows :: "nat \<Rightarrow> (string \<times> 'a flow) list \<Rightarrow> ((string \<times> 'a flow) list \<times> 'a queued) option" where
  "remove_flows i [] = None"
| "remove_flows i ((k, f) # fs) =
     (case position (\<lambda>q. q_id q = i) (fl_queue f) of
        Some pos \<Rightarrow> Some ((k, f\<lparr>fl_queue := remove_at pos (fl_queue f)\<rparr>) # fs, fl_queue f ! pos)
      | None \<Rightarrow> map_option (\<lambda>(fs', q). ((k, f) # fs', q)) (remove_flows i fs))"

fun remove_classes :: "nat \<Rightarrow> traffic_class list \<Rightarrow> 'a scheduler \<Rightarrow> 'a scheduler \<times> 'a queued option" where
  "remove_classes i [] s = (s, None)"
| "remove_classes i (c # cs) s =
     (case remove_flows i (cq_flows (sc_classes s c)) of
        Some (fs, q) \<Rightarrow>
          (s\<lparr>sc_classes := (sc_classes s)
               (c := (sc_classes s c)\<lparr>cq_flows := fs, cq_len := cq_len (sc_classes s c) - 1\<rparr>)\<rparr>, Some q)
      | None \<Rightarrow> remove_classes i cs s)"

definition sched_remove :: "'a scheduler \<Rightarrow> nat \<Rightarrow> 'a scheduler \<times> 'a queued option" where
  "sched_remove s i = remove_classes i CLASSES s"

definition expire_class :: "instant \<Rightarrow> 'a class_queue \<Rightarrow> 'a class_queue \<times> 'a queued list" where
  "expire_class now cq =
     (let gone = concat (map (\<lambda>(k, f). filter (\<lambda>q. \<not> now < q_deadline q) (fl_queue f)) (cq_flows cq))
      in (cq\<lparr>cq_flows := map (\<lambda>(k, f). (k, f\<lparr>fl_queue := filter (\<lambda>q. now < q_deadline q) (fl_queue f)\<rparr>)) (cq_flows cq),
             cq_len := cq_len cq - length gone\<rparr>, gone))"

definition sched_expire :: "'a scheduler \<Rightarrow> instant \<Rightarrow> 'a scheduler \<times> 'a queued list" where
  "sched_expire s now =
     (s\<lparr>sc_classes := (\<lambda>c. fst (expire_class now (sc_classes s c)))\<rparr>,
      concat (map (\<lambda>c. snd (expire_class now (sc_classes s c))) CLASSES))"

section \<open>Contents and invariant\<close>

definition flows_mset :: "(string \<times> 'a flow) list \<Rightarrow> 'a queued multiset" where
  "flows_mset fs = (\<Sum>(k, f)\<leftarrow>fs. mset (fl_queue f))"

definition contents :: "'a scheduler \<Rightarrow> 'a queued multiset" where
  "contents s = (\<Sum>c\<leftarrow>CLASSES. flows_mset (cq_flows (sc_classes s c)))"

text \<open>
  Every flow of a class holds only its own requests, tagged in non-decreasing order up to the
  flow's last tag, flows are keyed once, and the counter counts.
\<close>

definition flow_ok :: "traffic_class \<Rightarrow> string \<Rightarrow> 'a flow \<Rightarrow> bool" where
  "flow_ok c k f \<longleftrightarrow> (\<forall>q\<in>set (fl_queue f). q_class q = c \<and> q_flow q = k \<and> q_finish q \<le> fl_last_finish f)
     \<and> sorted (map q_finish (fl_queue f))"

definition class_ok :: "traffic_class \<Rightarrow> 'a class_queue \<Rightarrow> bool" where
  "class_ok c cq \<longleftrightarrow> distinct (map fst (cq_flows cq)) \<and> (\<forall>(k, f)\<in>set (cq_flows cq). flow_ok c k f)
     \<and> cq_len cq = size (flows_mset (cq_flows cq)) \<and> 0 \<le> cq_virtual_time cq"

definition sched_ok :: "'a scheduler \<Rightarrow> bool" where
  "sched_ok s \<longleftrightarrow> (\<forall>c. class_ok c (sc_classes s c))"

lemma flows_mset_simps [simp]:
  "flows_mset [] = {#}" "flows_mset ((k, f) # fs) = mset (fl_queue f) + flows_mset fs"
  by (simp_all add: flows_mset_def)

lemma in_flows_mset: "q \<in># flows_mset fs \<longleftrightarrow> (\<exists>(k, f)\<in>set fs. q \<in> set (fl_queue f))"
  by (induction fs) auto

lemma flows_mset_update:
  assumes "distinct (map fst fs)"
  shows "flows_mset (AList.update k f fs) + (case map_of fs k of Some g \<Rightarrow> mset (fl_queue g) | None \<Rightarrow> {#})
    = flows_mset fs + mset (fl_queue f)"
  using assms
proof (induction fs)
  case Nil
  then show ?case by simp
next
  case (Cons a fs)
  obtain k' g where a: "a = (k', g)" by (cases a)
  show ?case using Cons a by (auto simp: map_of_eq_None_iff[symmetric] ac_simps split: option.splits)
qed

lemma flows_mset_delete:
  assumes "distinct (map fst fs)" and "map_of fs k = Some f" and "fl_queue f = [q]"
  shows "flows_mset (AList.delete k fs) + {#q#} = flows_mset fs"
  using assms
proof (induction fs)
  case Nil
  then show ?case by simp
next
  case (Cons a fs)
  obtain k' g where a: "a = (k', g)" by (cases a)
  show ?case
  proof (cases "k = k'")
    case True
    then have "AList.delete k fs = fs" using Cons.prems(1) a by (simp add: delete_idem)
    then show ?thesis using Cons.prems a True by (simp add: ac_simps)
  next
    case False
    then show ?thesis using Cons a by (auto simp: ac_simps)
  qed
qed

lemma sum_classes_update:
  fixes g :: "'a class_queue \<Rightarrow> 'b multiset"
  shows "(\<Sum>c\<leftarrow>CLASSES. g ((f(c0 := y)) c)) + g (f c0) = (\<Sum>c\<leftarrow>CLASSES. g (f c)) + g y"
  by (cases c0) (simp_all add: CLASSES_def ac_simps)

text \<open>Changing one class changes the contents by that class's difference.\<close>

lemma contents_update:
  "contents (s\<lparr>sc_classes := (sc_classes s)(c := cq)\<rparr>) + flows_mset (cq_flows (sc_classes s c))
    = contents s + flows_mset (cq_flows cq)"
  using sum_classes_update[of "\<lambda>cq. flows_mset (cq_flows cq)" "sc_classes s" c cq] by (simp add: contents_def)

lemma contents_since_payg [simp]: "contents (s\<lparr>sc_since_payg := n\<rparr>) = contents s"
  by (simp add: contents_def)

lemma sched_ok_since_payg [simp]: "sched_ok (s\<lparr>sc_since_payg := n\<rparr>) = sched_ok s"
  by (simp add: sched_ok_def)

lemma sched_ok_update:
  "sched_ok s \<Longrightarrow> class_ok c cq \<Longrightarrow> sched_ok (s\<lparr>sc_classes := (sc_classes s)(c := cq)\<rparr>)"
  by (simp add: sched_ok_def)

lemma class_of_ok: "sched_ok s \<Longrightarrow> class_ok c (sc_classes s c)"
  by (simp add: sched_ok_def)

lemma flow_of_ok:
  "class_ok c cq \<Longrightarrow> map_of (cq_flows cq) k = Some f \<Longrightarrow> flow_ok c k f"
  by (auto simp: class_ok_def dest: map_of_SomeD)

lemma class_ok_update_flow:
  assumes ok: "class_ok c cq" and f: "flow_ok c k f" and "0 \<le> vt"
    and len: "n = size (flows_mset (AList.update k f (cq_flows cq)))"
  shows "class_ok c (cq\<lparr>cq_flows := AList.update k f (cq_flows cq), cq_len := n, cq_virtual_time := vt\<rparr>)"
proof -
  have d: "distinct (map fst (cq_flows cq))" using ok by (simp add: class_ok_def)
  have "flow_ok c k' f'" if "(k', f') \<in> set (AList.update k f (cq_flows cq))" for k' f'
    using in_alist_update[OF d that] f ok by (auto simp: class_ok_def)
  then show ?thesis using d assms(3) len by (auto simp: class_ok_def distinct_update)
qed

lemma finish_tag_ge:
  "class_ok c cq \<Longrightarrow> cq_virtual_time cq \<le> finish_tag cq item
    \<and> (map_of (cq_flows cq) (it_flow item) = Some f \<longrightarrow> fl_last_finish f \<le> finish_tag cq item)"
proof -
  have "0 \<le> max (it_wu item) 0 / max (it_weight item) (1 / 1000000000)" by simp
  then show ?thesis unfolding finish_tag_def Let_def by (auto simp: le_max_iff_disj add_increasing2)
qed

lemma enqueue_ok:
  assumes ok: "sched_ok s"
  shows "sched_ok (sched_enqueue s item)" and "contents (sched_enqueue s item) = contents s + {#queued_of s item#}"
proof -
  let ?c = "it_class item" and ?k = "it_flow item"
  let ?cq = "sc_classes s ?c"
  define f where "f = (case map_of (cq_flows ?cq) ?k of Some f \<Rightarrow> f | None \<Rightarrow> \<lparr>fl_last_finish = 0, fl_queue = []\<rparr>)"
  define f' where "f' = \<lparr>fl_last_finish = finish_tag ?cq item, fl_queue = fl_queue f @ [queued_of s item]\<rparr>"
  let ?fs = "AList.update ?k f' (cq_flows ?cq)"
  have cok: "class_ok ?c ?cq" by (rule class_of_ok[OF ok])
  have eq: "sched_enqueue s item = s\<lparr>sc_classes := (sc_classes s)
      (?c := ?cq\<lparr>cq_flows := ?fs, cq_len := cq_len ?cq + 1, cq_virtual_time := cq_virtual_time ?cq\<rparr>)\<rparr>"
    by (simp add: sched_enqueue_def Let_def f_def f'_def)
  have old: "mset (fl_queue f) = (case map_of (cq_flows ?cq) ?k of Some g \<Rightarrow> mset (fl_queue g) | None \<Rightarrow> {#})"
    by (simp add: f_def split: option.split)
  have m: "flows_mset ?fs = flows_mset (cq_flows ?cq) + {#queued_of s item#}"
    using flows_mset_update[of "cq_flows ?cq" ?k f'] cok old[symmetric] by (simp add: class_ok_def f'_def)
  have "flow_ok ?c ?k f \<and> (map_of (cq_flows ?cq) ?k = None \<longrightarrow> fl_queue f = [])
      \<and> (fl_queue f \<noteq> [] \<longrightarrow> fl_last_finish f \<le> finish_tag ?cq item)"
    using flow_of_ok[OF cok] finish_tag_ge[OF cok] by (auto simp: f_def flow_ok_def split: option.split)
  then have "flow_ok ?c ?k f'"
    by (fastforce simp: flow_ok_def f'_def queued_of_def sorted_append)
  then show "sched_ok (sched_enqueue s item)"
    unfolding eq using cok m
    by (intro sched_ok_update[OF ok] class_ok_update_flow[OF cok]) (auto simp: class_ok_def)
  show "contents (sched_enqueue s item) = contents s + {#queued_of s item#}"
    using contents_update[of s ?c "?cq\<lparr>cq_flows := ?fs, cq_len := cq_len ?cq + 1, cq_virtual_time := cq_virtual_time ?cq\<rparr>"]
    unfolding eq by (simp add: m)
qed

text \<open>Taking a head: only that request leaves, and the invariant holds afterwards.\<close>

lemma sched_take_None: "sched_take s h = (s', None) \<Longrightarrow> s' = s"
  by (auto simp: sched_take_def Let_def split: option.splits list.splits if_splits)

lemma class_ok_delete:
  assumes "class_ok c cq" and "map_of (cq_flows cq) k = Some f" and "fl_queue f = [q]" and "0 \<le> vt"
  shows "class_ok c (cq\<lparr>cq_flows := AList.delete k (cq_flows cq), cq_len := cq_len cq - 1, cq_virtual_time := vt\<rparr>)"
proof -
  have d: "distinct (map fst (cq_flows cq))" using assms(1) by (simp add: class_ok_def)
  have "size (flows_mset (AList.delete k (cq_flows cq))) + 1 = size (flows_mset (cq_flows cq))"
    using flows_mset_delete[OF d assms(2,3)] by (metis size_union size_single)
  then show ?thesis
    using assms(1,4) d by (auto simp: class_ok_def AList.delete_eq distinct_keys_filter)
qed

lemma take_some_ok:
  assumes ok: "sched_ok s" and t: "sched_take s h = (s', Some q)"
  shows "sched_ok s'" and "contents s' + {#q#} = contents s" and "handle_of q = h"
    and "sc_since_payg s' = (if h_class h = Payg then 0 else sc_since_payg s + 1)"
    and "sc_payg_guard_every s' = sc_payg_guard_every s"
proof -
  let ?cq = "sc_classes s (h_class h)"
  from t obtain f rest where f: "map_of (cq_flows ?cq) (h_flow h) = Some f" "fl_queue f = q # rest" "q_id q = h_id h"
    by (auto simp: sched_take_def Let_def split: option.splits list.splits if_splits)
  define vt where "vt = max (cq_virtual_time ?cq) (q_finish q)"
  define flows where "flows = (if rest = [] \<and> fl_last_finish f \<le> vt then AList.delete (h_flow h) (cq_flows ?cq)
     else AList.update (h_flow h) (f\<lparr>fl_queue := rest\<rparr>) (cq_flows ?cq))"
  have s': "s' = s\<lparr>sc_classes := (sc_classes s)(h_class h := ?cq\<lparr>cq_flows := flows, cq_len := cq_len ?cq - 1, cq_virtual_time := vt\<rparr>),
      sc_since_payg := (if h_class h = Payg then 0 else sc_since_payg s + 1)\<rparr>"
    using t f by (simp add: sched_take_def Let_def vt_def flows_def)
  have cok: "class_ok (h_class h) ?cq" by (rule class_of_ok[OF ok])
  have d: "distinct (map fst (cq_flows ?cq))" using cok by (simp add: class_ok_def)
  have fok: "flow_ok (h_class h) (h_flow h) f" by (rule flow_of_ok[OF cok f(1)])
  have vt0: "0 \<le> vt" using cok by (auto simp: vt_def class_ok_def le_max_iff_disj)
  have m: "flows_mset flows + {#q#} = flows_mset (cq_flows ?cq)"
    using flows_mset_delete[OF d f(1)] flows_mset_update[OF d, of "h_flow h" "f\<lparr>fl_queue := rest\<rparr>"] f
    by (auto simp: flows_def)
  have "flow_ok (h_class h) (h_flow h) (f\<lparr>fl_queue := rest\<rparr>)"
    using fok f(2) by (auto simp: flow_ok_def)
  moreover have "cq_len ?cq - 1 = size (flows_mset flows)"
    using cok m by (metis class_ok_def add_diff_cancel_right' size_single size_union)
  ultimately have "class_ok (h_class h) (?cq\<lparr>cq_flows := flows, cq_len := cq_len ?cq - 1, cq_virtual_time := vt\<rparr>)"
    using class_ok_delete[OF cok f(1) _ vt0, of q] class_ok_update_flow[OF cok _ vt0] f(2)
    by (auto simp: flows_def)
  then show "sched_ok s'" unfolding s' using sched_ok_update[OF ok] by simp
  show "contents s' + {#q#} = contents s"
  proof -
    let ?new = "?cq\<lparr>cq_flows := flows, cq_len := cq_len ?cq - 1, cq_virtual_time := vt\<rparr>"
    let ?s = "s\<lparr>sc_classes := (sc_classes s)(h_class h := ?new)\<rparr>"
    have "contents s' = contents ?s" by (simp add: s' contents_def)
    moreover have "contents ?s + {#q#} + flows_mset flows = contents s + flows_mset flows"
      using contents_update[of s "h_class h" ?new] unfolding m[symmetric] by (simp add: ac_simps)
    ultimately show ?thesis by simp
  qed
  show "handle_of q = h" using fok f by (cases h) (simp add: handle_of_def flow_ok_def)
  show "sc_since_payg s' = (if h_class h = Payg then 0 else sc_since_payg s + 1)"
    and "sc_payg_guard_every s' = sc_payg_guard_every s" by (simp_all add: s')
qed

lemma remove_at_spec:
  assumes "pos < length xs"
  shows "mset (remove_at pos xs) + {#xs ! pos#} = mset xs" and "set (remove_at pos xs) \<subseteq> set xs"
    and "sorted (map f xs) \<Longrightarrow> sorted (map f (remove_at pos xs))"
proof -
  have x: "xs = take pos xs @ xs ! pos # drop (Suc pos) xs" by (rule id_take_nth_drop[OF assms])
  show "mset (remove_at pos xs) + {#xs ! pos#} = mset xs"
    using arg_cong[OF x, of mset] by (simp add: remove_at_def)
  show "set (remove_at pos xs) \<subseteq> set xs"
    unfolding remove_at_def using set_take_subset set_drop_subset by fastforce
  show "sorted (map f (remove_at pos xs))" if "sorted (map f xs)"
  proof -
    have "sorted (map f (take pos xs) @ f (xs ! pos) # map f (drop (Suc pos) xs))"
      using that by (subst (asm) x) simp
    then show ?thesis unfolding remove_at_def by (auto simp: sorted_append)
  qed
qed

lemma remove_flows_Some:
  "remove_flows i fs = Some (fs', q) \<Longrightarrow>
   q_id q = i \<and> flows_mset fs' + {#q#} = flows_mset fs \<and> map fst fs' = map fst fs
   \<and> ((\<forall>(k, f)\<in>set fs. flow_ok c k f) \<longrightarrow> (\<forall>(k, f)\<in>set fs'. flow_ok c k f))"
proof (induction fs arbitrary: fs')
  case Nil
  then show ?case by simp
next
  case (Cons a fs)
  obtain k f where a: "a = (k, f)" by (cases a)
  show ?case
  proof (cases "position (\<lambda>q. q_id q = i) (fl_queue f)")
    case None
    with Cons.prems a obtain fs'' where r: "remove_flows i fs = Some (fs'', q)" "fs' = (k, f) # fs''" by auto
    from Cons.IH[OF r(1)] r(2) a show ?thesis by (simp add: ac_simps)
  next
    case (Some pos)
    then have p: "pos < length (fl_queue f)" "q_id (fl_queue f ! pos) = i" using position_SomeD by fastforce+
    have eq: "fs' = (k, f\<lparr>fl_queue := remove_at pos (fl_queue f)\<rparr>) # fs" "q = fl_queue f ! pos"
      using Cons.prems a Some by auto
    note ra = remove_at_spec[OF p(1)]
    have "flow_ok c k f \<Longrightarrow> flow_ok c k (f\<lparr>fl_queue := remove_at pos (fl_queue f)\<rparr>)"
      using ra(2,3) by (auto simp: flow_ok_def)
    then show ?thesis using a p eq ra(1) by (auto simp: ac_simps)
  qed
qed

lemma remove_flows_None: "remove_flows i fs = None \<Longrightarrow> \<forall>q\<in>#flows_mset fs. q_id q \<noteq> i"
  by (induction fs) (auto simp: position_None_iff split: option.splits)

lemma remove_classes_spec:
  assumes "sched_ok s" and "remove_classes i cs s = (s', r)"
  shows "sched_ok s' \<and> (case r of
      None \<Rightarrow> s' = s \<and> (\<forall>c\<in>set cs. \<forall>q\<in>#flows_mset (cq_flows (sc_classes s c)). q_id q \<noteq> i)
    | Some q \<Rightarrow> q_id q = i \<and> contents s' + {#q#} = contents s)"
  using assms(2)
proof (induction cs)
  case Nil
  then show ?case using assms(1) by auto
next
  case (Cons c cs)
  let ?cq = "sc_classes s c"
  show ?case
  proof (cases "remove_flows i (cq_flows ?cq)")
    case None
    then show ?thesis using Cons remove_flows_None[OF None] by (auto split: option.splits)
  next
    case (Some fq)
    obtain fs q where fq: "fq = (fs, q)" by (cases fq)
    let ?new = "?cq\<lparr>cq_flows := fs, cq_len := cq_len ?cq - 1\<rparr>"
    have s': "s' = s\<lparr>sc_classes := (sc_classes s)(c := ?new)\<rparr>" "r = Some q" using Cons.prems Some fq by auto
    have cok: "class_ok c ?cq" by (rule class_of_ok[OF assms(1)])
    note rf = remove_flows_Some[OF Some[unfolded fq], of c]
    have "size (flows_mset fs) + 1 = size (flows_mset (cq_flows ?cq))" using rf by (metis size_union size_single)
    then have "class_ok c ?new" using cok rf by (auto simp: class_ok_def)
    then have "sched_ok s'" using sched_ok_update[OF assms(1)] s'(1) by simp
    moreover have "contents s' + {#q#} + flows_mset fs = contents s + flows_mset fs"
    proof -
      have m: "flows_mset (cq_flows ?cq) = flows_mset fs + {#q#}" using rf by simp
      show ?thesis using contents_update[of s c ?new] unfolding s'(1) m by (simp add: ac_simps)
    qed
    ultimately show ?thesis using rf s'(2) by simp
  qed
qed

lemma expire_flows:
  "flows_mset (map (\<lambda>(k, f). (k, f\<lparr>fl_queue := filter p (fl_queue f)\<rparr>)) fs)
     + mset (concat (map (\<lambda>(k, f). filter (\<lambda>q. \<not> p q) (fl_queue f)) fs)) = flows_mset fs"
proof (induction fs)
  case Nil
  then show ?case by simp
next
  case (Cons a fs)
  have "mset xs = filter_mset p (mset xs) + filter_mset (\<lambda>x. \<not> p x) (mset xs)" for xs :: "'a queued list"
    by (rule multiset_partition)
  then show ?case using Cons by (cases a) (simp add: ac_simps)
qed

lemma expire_class_spec:
  assumes "class_ok c cq" and "expire_class now cq = (cq', gone)"
  shows "class_ok c cq'" and "flows_mset (cq_flows cq') + mset gone = flows_mset (cq_flows cq)"
    and "\<forall>q\<in>set gone. q_deadline q \<le> now" and "\<forall>q\<in>#flows_mset (cq_flows cq'). now < q_deadline q"
proof -
  let ?f = "\<lambda>(k, f). (k, f\<lparr>fl_queue := filter (\<lambda>q. now < q_deadline q) (fl_queue f)\<rparr>)"
  have cq': "cq' = cq\<lparr>cq_flows := map ?f (cq_flows cq), cq_len := cq_len cq - length gone\<rparr>"
    and gone: "gone = concat (map (\<lambda>(k, f). filter (\<lambda>q. \<not> now < q_deadline q) (fl_queue f)) (cq_flows cq))"
    using assms(2) unfolding expire_class_def Let_def by (blast dest: prod.inject[THEN iffD1])+
  show m: "flows_mset (cq_flows cq') + mset gone = flows_mset (cq_flows cq)"
    using expire_flows[of "\<lambda>q. now < q_deadline q" "cq_flows cq"] by (simp add: cq' gone)
  define fs where "fs = map ?f (cq_flows cq)"
  have "map fst fs = map fst (cq_flows cq)" by (auto simp: fs_def)
  moreover have "flow_ok c k f" if "(k, f) \<in> set fs" for k f
    using that assms(1) by (auto simp: fs_def class_ok_def flow_ok_def sorted_filter)
  moreover have "cq_len cq - length gone = size (flows_mset fs)"
  proof -
    have "size (flows_mset fs) + length gone = cq_len cq"
      using assms(1) arg_cong[OF m, of size] by (simp add: class_ok_def cq' fs_def)
    then show ?thesis by simp
  qed
  moreover have "cq' = cq\<lparr>cq_flows := fs, cq_len := cq_len cq - length gone\<rparr>" by (simp add: cq' fs_def)
  ultimately show "class_ok c cq'" using assms(1) by (auto simp: class_ok_def)
  show "\<forall>q\<in>set gone. q_deadline q \<le> now" by (auto simp: gone)
  show "\<forall>q\<in>#flows_mset (cq_flows cq'). now < q_deadline q" by (auto simp: cq' in_flows_mset)
qed

lemma expire_ok:
  assumes ok: "sched_ok s" and e: "sched_expire s now = (s', gone)"
  shows "sched_ok s'" and "contents s' + mset gone = contents s"
    and "\<forall>q\<in>set gone. q_deadline q \<le> now" and "\<forall>q\<in>#contents s'. now < q_deadline q"
proof -
  let ?e = "\<lambda>c. expire_class now (sc_classes s c)"
  have s': "s' = s\<lparr>sc_classes := (\<lambda>c. fst (?e c))\<rparr>" and gone: "gone = concat (map (\<lambda>c. snd (?e c)) CLASSES)"
    using e by (simp_all add: sched_expire_def)
  note c = expire_class_spec[OF class_of_ok[OF ok] surjective_pairing]
  show "sched_ok s'" using c(1) by (simp add: sched_ok_def s')
  show "contents s' + mset gone = contents s"
    using c(2)[of now Provisioned] c(2)[of now Burst] c(2)[of now Spillover] c(2)[of now Payg]
    by (simp add: contents_def s' gone CLASSES_def ac_simps)
  show "\<forall>q\<in>set gone. q_deadline q \<le> now" using c(3) by (auto simp: gone CLASSES_def)
  show "\<forall>q\<in>#contents s'. now < q_deadline q" using c(4) by (auto simp: contents_def s' CLASSES_def)
qed

section \<open>Requests are neither lost nor invented\<close>

text \<open>
  One interface for every operation: a step takes some requests in and lets some out. A bag
  with such steps accounts for every request over any sequence of operations.
\<close>

fun run_steps :: "('s \<Rightarrow> 'o \<Rightarrow> 's \<times> 'q list \<times> 'q list) \<Rightarrow> 'o list \<Rightarrow> 's \<Rightarrow> 's \<times> 'q list \<times> 'q list" where
  "run_steps step [] s = (s, [], [])"
| "run_steps step (x # xs) s =
     (case step s x of (s1, ins, outs) \<Rightarrow>
        (case run_steps step xs s1 of (s2, ins', outs') \<Rightarrow> (s2, ins @ ins', outs @ outs')))"

locale request_bag =
  fixes ok :: "'s \<Rightarrow> bool" and bag :: "'s \<Rightarrow> 'q multiset" and step :: "'s \<Rightarrow> 'o \<Rightarrow> 's \<times> 'q list \<times> 'q list"
  assumes step_ok: "ok s \<Longrightarrow> step s x = (s', ins, outs) \<Longrightarrow> ok s'"
    and step_bag: "ok s \<Longrightarrow> step s x = (s', ins, outs) \<Longrightarrow> bag s' + mset outs = bag s + mset ins"
begin

lemma run_conserves:
  "ok s \<Longrightarrow> run_steps step xs s = (s', ins, outs) \<Longrightarrow> ok s' \<and> bag s' + mset outs = bag s + mset ins"
proof (induction xs arbitrary: s s' ins outs)
  case Nil
  then show ?case by simp
next
  case (Cons x xs)
  obtain s1 i1 o1 where 1: "step s x = (s1, i1, o1)" by (cases "step s x")
  obtain s2 i2 o2 where 2: "run_steps step xs s1 = (s2, i2, o2)" by (cases "run_steps step xs s1")
  have "ok s1" by (rule step_ok[OF Cons.prems(1) 1])
  from Cons.IH[OF this 2] have IH: "ok s2" "bag s2 + mset o2 = bag s1 + mset i2" by simp_all
  have r: "s' = s2" "ins = i1 @ i2" "outs = o1 @ o2" using Cons.prems(2) 1 2 by simp_all
  have "bag s2 + mset (o1 @ o2) = bag s1 + mset o1 + mset i2" using IH(2) by (simp add: ac_simps)
  also have "\<dots> = bag s + mset (i1 @ i2)" using step_bag[OF Cons.prems(1) 1] by (simp add: ac_simps)
  finally show ?case using IH(1) r by simp
qed

lemma drained_run_returns_all:
  assumes "ok s" and "run_steps step xs s = (s', ins, outs)" and "bag s = {#}" and "bag s' = {#}"
  shows "mset outs = mset ins"
  using run_conserves[OF assms(1,2)] assms(3,4) by simp

end

datatype 'a sched_op = Enqueue "'a item" | Take handle | Remove nat | Expire instant

fun sched_step :: "'a scheduler \<Rightarrow> 'a sched_op \<Rightarrow> 'a scheduler \<times> 'a queued list \<times> 'a queued list" where
  "sched_step s (Enqueue it) = (sched_enqueue s it, [queued_of s it], [])"
| "sched_step s (Take h) = (case sched_take s h of (s', r) \<Rightarrow> (s', [], case r of None \<Rightarrow> [] | Some q \<Rightarrow> [q]))"
| "sched_step s (Remove i) = (case sched_remove s i of (s', r) \<Rightarrow> (s', [], case r of None \<Rightarrow> [] | Some q \<Rightarrow> [q]))"
| "sched_step s (Expire now) = (case sched_expire s now of (s', gone) \<Rightarrow> (s', [], gone))"

lemma sched_step_spec:
  assumes ok: "sched_ok s" and st: "sched_step s x = (s', ins, outs)"
  shows "sched_ok s' \<and> contents s' + mset outs = contents s + mset ins"
proof (cases x)
  case (Enqueue it)
  then show ?thesis using st enqueue_ok[OF ok] by auto
next
  case (Take h)
  obtain s1 r where t: "sched_take s h = (s1, r)" by (cases "sched_take s h")
  show ?thesis
  proof (cases r)
    case None
    then show ?thesis using st Take t sched_take_None ok by auto
  next
    case (Some q)
    then show ?thesis using st Take t take_some_ok(1,2)[OF ok] by auto
  qed
next
  case (Remove i)
  obtain s1 r where t: "remove_classes i CLASSES s = (s1, r)" by (cases "remove_classes i CLASSES s")
  from remove_classes_spec[OF ok t] show ?thesis
    using st Remove t by (auto simp: sched_remove_def split: option.splits)
next
  case (Expire now)
  then show ?thesis using st expire_ok(1,2)[OF ok] by (auto split: prod.splits)
qed

interpretation sched_bag: request_bag sched_ok contents sched_step
  by unfold_locales (use sched_step_spec in blast)+

lemma scheduler_new_ok [simp]: "sched_ok (scheduler_new g)" "contents (scheduler_new g) = {#}"
  by (simp_all add: sched_ok_def class_ok_def scheduler_new_def class_queue_default_def contents_def CLASSES_def)

section \<open>Dispatch order\<close>

lemma heads_flow:
  assumes "class_ok c cq" and "q \<in> set (heads cq)"
  obtains f rest where "map_of (cq_flows cq) (q_flow q) = Some f" "fl_queue f = q # rest" "q_class q = c"
proof -
  from assms(2) obtain k f where kf: "(k, f) \<in> set (cq_flows cq)" "fl_queue f \<noteq> []" "q = hd (fl_queue f)"
    by (auto simp: heads_def)
  have "flow_ok c k f" "distinct (map fst (cq_flows cq))" using assms(1) kf(1) by (auto simp: class_ok_def)
  moreover from kf(2,3) have q: "fl_queue f = q # tl (fl_queue f)" by simp
  ultimately have "q_flow q = k" "q_class q = c" by (metis flow_ok_def list.set_intros(1))+
  moreover have "map_of (cq_flows cq) k = Some f" using kf(1) assms(1) by (simp add: class_ok_def)
  ultimately show thesis using that q by blast
qed

lemma heads_empty_iff:
  assumes "class_ok c cq"
  shows "heads cq = [] \<longleftrightarrow> cq_len cq = 0"
proof -
  have "map hd (filter (\<lambda>q. q \<noteq> []) (map (fl_queue \<circ> snd) fs)) = [] \<longleftrightarrow> flows_mset fs = {#}" for fs :: "(string \<times> 'a flow) list"
    by (induction fs) auto
  then have "heads cq = [] \<longleftrightarrow> flows_mset (cq_flows cq) = {#}" by (simp add: heads_def)
  then show ?thesis using assms by (simp add: class_ok_def)
qed

lemma take_head:
  assumes ok: "sched_ok s" and q: "q \<in> set (heads (sc_classes s c))"
  shows "peek s (handle_of q) = Some q" and "\<exists>s'. sched_take s (handle_of q) = (s', Some q)"
proof -
  obtain f rest where f: "map_of (cq_flows (sc_classes s c)) (q_flow q) = Some f" "fl_queue f = q # rest" "q_class q = c"
    using heads_flow[OF class_of_ok[OF ok] q] .
  then show "peek s (handle_of q) = Some q" by (simp add: peek_def handle_of_def)
  show "\<exists>s'. sched_take s (handle_of q) = (s', Some q)"
    using f by (simp add: sched_take_def handle_of_def Let_def)
qed

lemma set_class_order: "set (class_order s) = UNIV"
  using traffic_class.nchotomy by (auto simp: class_order_def CLASSES_def)

lemma in_candidates:
  "h \<in> set (candidates s) \<longleftrightarrow> (\<exists>c. \<exists>q\<in>set (heads (sc_classes s c)). h = handle_of q)"
  using set_class_order[of s] by (auto simp: candidates_def)

text \<open>Position of a class in the dispatch order.\<close>

definition priority :: "'a scheduler \<Rightarrow> traffic_class \<Rightarrow> nat" where
  "priority s c = (if payg_starved s then (case c of Payg \<Rightarrow> 0 | Provisioned \<Rightarrow> 1 | Burst \<Rightarrow> 2 | Spillover \<Rightarrow> 3)
     else (case c of Provisioned \<Rightarrow> 0 | Burst \<Rightarrow> 1 | Spillover \<Rightarrow> 2 | Payg \<Rightarrow> 3))"

definition dispatch_le :: "'a scheduler \<Rightarrow> 'a queued \<Rightarrow> 'a queued \<Rightarrow> bool" where
  "dispatch_le s q r \<longleftrightarrow> priority s (q_class q) < priority s (q_class r)
     \<or> q_class q = q_class r \<and> (q_finish q, q_id q) \<le> (q_finish r, q_id r)"

definition ordered_heads :: "'a scheduler \<Rightarrow> 'a queued list" where
  "ordered_heads s =
     concat (map (\<lambda>c. sort_key (\<lambda>q. (q_finish q, q_id q)) (heads (sc_classes s c))) (class_order s))"

lemma candidates_heads: "candidates s = map handle_of (ordered_heads s)"
  by (simp add: candidates_def ordered_heads_def map_concat comp_def)

lemma class_of_head: "sched_ok s \<Longrightarrow> q \<in> set (heads (sc_classes s c)) \<Longrightarrow> q_class q = c"
  by (rule heads_flow[OF class_of_ok])

lemma class_block_sorted:
  assumes "sched_ok s"
  shows "sorted_wrt (dispatch_le s) (sort_key (\<lambda>q. (q_finish q, q_id q)) (heads (sc_classes s c)))"
proof -
  let ?l = "sort_key (\<lambda>q. (q_finish q, q_id q)) (heads (sc_classes s c))"
  have srt: "sorted_wrt (\<lambda>q r. (q_finish q, q_id q) \<le> (q_finish r, q_id r)) ?l"
    using sorted_sort_key[of "\<lambda>q. (q_finish q, q_id q)" "heads (sc_classes s c)"] by (simp add: sorted_map)
  have imp: "dispatch_le s q r" if "q \<in> set ?l" "r \<in> set ?l" "(q_finish q, q_id q) \<le> (q_finish r, q_id r)" for q r
    using that class_of_head[OF assms] by (simp add: dispatch_le_def)
  show ?thesis by (rule sorted_wrt_mono_rel[OF imp srt])
qed

lemma ordered_heads_sorted:
  assumes "sched_ok s"
  shows "sorted_wrt (dispatch_le s) (ordered_heads s)"
proof -
  note c = class_of_head[OF assms]
  have lt: "dispatch_le s q r" if "q \<in> set (heads (sc_classes s c))" "r \<in> set (heads (sc_classes s d))"
    "priority s c < priority s d" for q r c d
    using c[OF that(1)] c[OF that(2)] that(3) by (simp add: dispatch_le_def)
  note blk = class_block_sorted[OF assms]
  show ?thesis
  proof (cases "payg_starved s")
    case True
    then show ?thesis
      using blk by (simp add: ordered_heads_def class_order_def sorted_wrt_append ball_Un)
        (intro conjI ballI; erule (1) lt; simp add: priority_def)
  next
    case False
    then show ?thesis
      using blk by (simp add: ordered_heads_def class_order_def CLASSES_def sorted_wrt_append ball_Un)
        (intro conjI ballI; erule (1) lt; simp add: priority_def)
  qed
qed

lemma set_ordered_heads: "set (ordered_heads s) = (\<Union>c. set (heads (sc_classes s c)))"
  using set_class_order[of s] by (auto simp: ordered_heads_def)

lemma scheduler_len_contents: "sched_ok s \<Longrightarrow> scheduler_len s = size (contents s)"
  by (auto simp: scheduler_len_def contents_def CLASSES_def sched_ok_def class_ok_def)

text \<open>
  No request is lost, duplicated or invented by the scheduler: over any sequence of
  enqueues, takes, removals and expiries from an empty scheduler, what was enqueued is exactly
  what is still queued plus what was handed out, and the length it reports is the number still
  queued.
\<close>

theorem scheduler_conserves_requests:
  assumes "run_steps sched_step ops (scheduler_new g) = (s, ins, outs)"
  shows "contents s + mset outs = mset ins \<and> scheduler_len s = size (contents s) \<and> sched_ok s"
  using sched_bag.run_conserves[OF scheduler_new_ok(1) assms] scheduler_len_contents by auto

definition demo_item :: "nat \<Rightarrow> string \<Rightarrow> traffic_class \<Rightarrow> real \<Rightarrow> real \<Rightarrow> nat item" where
  "demo_item i f c wu w = \<lparr>it_id = i, it_flow = f, it_class = c, it_wu = wu, it_weight = w, it_deadline = 100, it_payload = 0\<rparr>"

lemmas sched_eval =
  sched_enqueue_def finish_tag_def queued_of_def scheduler_new_def class_queue_default_def demo_item_def
  sched_take_def sched_remove_def sched_expire_def expire_class_def candidates_def heads_def handle_of_def
  class_order_def payg_starved_def CLASSES_def remove_at_def Let_def

theorem scheduler_conserves_requests_witness:
  "\<exists>s ins outs. run_steps sched_step
      [Enqueue (demo_item 1 ''a'' Provisioned 10 2), Enqueue (demo_item 2 ''b'' Payg 10 2),
       Take \<lparr>h_class = Provisioned, h_flow = ''a'', h_id = 1\<rparr>, Remove 2] (scheduler_new 8) = (s, ins, outs)
    \<and> contents s + mset outs = mset ins \<and> map q_id outs = [1, 2] \<and> scheduler_len s = 0"
proof -
  let ?ops = "[Enqueue (demo_item 1 ''a'' Provisioned 10 2), Enqueue (demo_item 2 ''b'' Payg 10 2),
       Take \<lparr>h_class = Provisioned, h_flow = ''a'', h_id = 1\<rparr>, Remove 2]"
  obtain s ins outs where r: "run_steps sched_step ?ops (scheduler_new 8) = (s, ins, outs)"
    by (cases "run_steps sched_step ?ops (scheduler_new 8)")
  then have "map q_id outs = [1, 2] \<and> scheduler_len s = 0"
    by (auto simp: sched_eval scheduler_len_def)
  then have "map q_id outs = [1, 2]" "scheduler_len s = 0" "contents s + mset outs = mset ins"
    using scheduler_conserves_requests[OF r] by blast+
  with r show ?thesis by (intro exI[of _ s] exI[of _ ins] exI[of _ outs] conjI)
qed

text \<open>
  Dispatch order: every candidate can be peeked and taken, there is a candidate whenever
  anything is queued, and candidates come in strict class priority (pay-as-you-go first only
  when starved), within a class by finish tag, then by id.
\<close>

theorem candidates_in_dispatch_order:
  assumes "sched_ok s"
  shows "(\<forall>h\<in>set (candidates s). \<exists>q s'. peek s h = Some q \<and> sched_take s h = (s', Some q))
    \<and> (candidates s = [] \<longleftrightarrow> scheduler_len s = 0)
    \<and> sorted_wrt (\<lambda>g h. \<exists>q r. peek s g = Some q \<and> peek s h = Some r \<and> dispatch_le s q r) (candidates s)"
proof (intro conjI)
  have pk: "peek s (handle_of q) = Some q \<and> (\<exists>s'. sched_take s (handle_of q) = (s', Some q))"
    if "q \<in> set (ordered_heads s)" for q
    using that take_head[OF assms] by (auto simp: set_ordered_heads)
  then show "\<forall>h\<in>set (candidates s). \<exists>q s'. peek s h = Some q \<and> sched_take s h = (s', Some q)"
    by (fastforce simp: candidates_heads)
  have "candidates s = [] \<longleftrightarrow> (\<forall>c. cq_len (sc_classes s c) = 0)"
    using heads_empty_iff[OF class_of_ok[OF assms]] set_ordered_heads[of s] by (auto simp: candidates_heads)
  also have "\<dots> \<longleftrightarrow> scheduler_len s = 0"
    using traffic_class.nchotomy by (auto simp: scheduler_len_def CLASSES_def) metis
  finally show "candidates s = [] \<longleftrightarrow> scheduler_len s = 0" .
  show "sorted_wrt (\<lambda>g h. \<exists>q r. peek s g = Some q \<and> peek s h = Some r \<and> dispatch_le s q r) (candidates s)"
    unfolding candidates_heads sorted_wrt_map
    by (rule sorted_wrt_mono_rel[OF _ ordered_heads_sorted[OF assms]]) (use pk in blast)
qed

theorem candidates_in_dispatch_order_witness:
  "candidates (sched_enqueue (sched_enqueue (scheduler_new 8) (demo_item 1 ''a'' Payg 10 2)) (demo_item 2 ''b'' Provisioned 10 2))
    = [\<lparr>h_class = Provisioned, h_flow = ''b'', h_id = 2\<rparr>, \<lparr>h_class = Payg, h_flow = ''a'', h_id = 1\<rparr>]
   \<and> peek (sched_enqueue (sched_enqueue (scheduler_new 8) (demo_item 1 ''a'' Payg 10 2)) (demo_item 2 ''b'' Provisioned 10 2))
      \<lparr>h_class = Provisioned, h_flow = ''b'', h_id = 2\<rparr> \<noteq> None"
proof
  let ?s = "sched_enqueue (sched_enqueue (scheduler_new 8) (demo_item 1 ''a'' Payg 10 2)) (demo_item 2 ''b'' Provisioned 10 2)"
  show c: "candidates ?s = [\<lparr>h_class = Provisioned, h_flow = ''b'', h_id = 2\<rparr>, \<lparr>h_class = Payg, h_flow = ''a'', h_id = 1\<rparr>]"
    by (simp add: sched_eval)
  have "sched_ok ?s" by (intro enqueue_ok scheduler_new_ok)
  from candidates_in_dispatch_order[OF this] c
  show "peek ?s \<lparr>h_class = Provisioned, h_flow = ''b'', h_id = 2\<rparr> \<noteq> None" by auto
qed

section \<open>The pay-as-you-go guard\<close>

text \<open>Dispatching the first candidate again and again, as a dispatcher with room does.\<close>

fun drain :: "nat \<Rightarrow> 'a scheduler \<Rightarrow> handle list" where
  "drain 0 s = []"
| "drain (Suc n) s = (case candidates s of [] \<Rightarrow> [] | h # _ \<Rightarrow> h # drain n (fst (sched_take s h)))"

lemma take_other_class:
  "sched_take s h = (s', r) \<Longrightarrow> h_class h \<noteq> c \<Longrightarrow> sc_classes s' c = sc_classes s c"
  by (auto simp: sched_take_def Let_def split: option.splits list.splits if_splits)

lemma starved_head:
  assumes "sched_ok s" and "payg_starved s"
  obtains h hs where "candidates s = h # hs" "h_class h = Payg"
proof -
  have ne: "heads (sc_classes s Payg) \<noteq> []"
    using heads_empty_iff[OF class_of_ok[OF assms(1)]] assms(2) by (auto simp: payg_starved_def)
  let ?l = "sort_key (\<lambda>q. (q_finish q, q_id q)) (heads (sc_classes s Payg))"
  obtain q qs where q: "?l = q # qs" using ne by (cases ?l) (auto dest: arg_cong[of _ _ set])
  then have "q \<in> set (heads (sc_classes s Payg))" by (metis list.set_intros(1) set_sort)
  then have "q_class q = Payg" by (rule class_of_head[OF assms(1)])
  then show thesis
    using that assms(2) q by (simp add: candidates_def class_order_def handle_of_def)
qed

lemma drain_reaches_payg:
  assumes "sched_ok s" and "0 < sc_payg_guard_every s" and "0 < len_of s Payg"
    and "sc_payg_guard_every s \<le> sc_since_payg s + k"
  shows "\<exists>h\<in>set (drain (Suc k) s). h_class h = Payg"
  using assms
proof (induction k arbitrary: s)
  case 0
  then have "payg_starved s" by (simp add: payg_starved_def len_of_def)
  then obtain h hs where "candidates s = h # hs" "h_class h = Payg" by (rule starved_head[OF 0(1)])
  then show ?case by simp
next
  case (Suc k)
  have "candidates s \<noteq> []"
  proof -
    have "heads (sc_classes s Payg) \<noteq> []"
      using heads_empty_iff[OF class_of_ok[OF Suc.prems(1)], of Payg] Suc.prems(3) by (simp add: len_of_def)
    then show ?thesis using set_ordered_heads[of s] by (cases "heads (sc_classes s Payg)") (auto simp: candidates_heads)
  qed
  then obtain h hs where c: "candidates s = h # hs" by (cases "candidates s") auto
  then have "h \<in> set (candidates s)" by simp
  then obtain q cl where q: "q \<in> set (heads (sc_classes s cl))" "h = handle_of q" using in_candidates by blast
  obtain s' where t: "sched_take s h = (s', Some q)" using take_head(2)[OF Suc.prems(1) q(1)] q(2) by blast
  note tk = take_some_ok[OF Suc.prems(1) t]
  show ?case
  proof (cases "h_class h = Payg")
    case True
    then show ?thesis using c by simp
  next
    case False
    have "0 < len_of s' Payg" using take_other_class[OF t False] Suc.prems(3) by (simp add: len_of_def)
    moreover have "sc_payg_guard_every s' \<le> sc_since_payg s' + k" using tk(4,5) False Suc.prems(4) by simp
    ultimately have "\<exists>h\<in>set (drain (Suc k) s'). h_class h = Payg"
      using Suc.IH[OF tk(1)] tk(5) Suc.prems(2) by simp
    then show ?thesis using c t by simp
  qed
qed

text \<open>
  C14. Pay-as-you-go traffic is not starved: with a guard of \<open>g > 0\<close> and at least one such
  request waiting, one is dispatched within the next \<open>g + 1\<close> dispatches of the first candidate,
  however much higher-priority work is queued.
\<close>

theorem payg_not_starved:
  assumes "sched_ok s" and "0 < sc_payg_guard_every s" and "0 < len_of s Payg"
  shows "\<exists>h\<in>set (drain (Suc (sc_payg_guard_every s)) s). h_class h = Payg"
  by (rule drain_reaches_payg[OF assms]) simp

theorem payg_not_starved_witness:
  "\<exists>h\<in>set (drain 2 (sched_enqueue (sched_enqueue (sched_enqueue (scheduler_new 1) (demo_item 1 ''a'' Provisioned 10 2))
      (demo_item 2 ''a'' Provisioned 10 2)) (demo_item 3 ''p'' Payg 10 2))). h_class h = Payg"
proof -
  let ?s = "sched_enqueue (sched_enqueue (sched_enqueue (scheduler_new 1) (demo_item 1 ''a'' Provisioned 10 2))
      (demo_item 2 ''a'' Provisioned 10 2)) (demo_item 3 ''p'' Payg 10 2) :: nat scheduler"
  have "sched_ok ?s" by (intro enqueue_ok scheduler_new_ok)
  moreover have "sc_payg_guard_every ?s = 1" "len_of ?s Payg = 1" by (simp_all add: sched_eval len_of_def)
  ultimately show ?thesis using payg_not_starved[of ?s] by (simp add: numeral_2_eq_2)
qed

end
