(* ===== verification/Workers.thy ===== *)
theory Workers
  imports PT_Core
begin

text \<open>
  Worker state and selection of the router (crate \<open>pt-router\<close>, \<open>workers.rs\<close>): which workers
  placement rules allow, which of them has room, which is best, and which running
  pay-as-you-go request to abort when none has. The maps of the source are association lists
  (allocations, KV held per reservation) and partial functions (prefix hashes, sessions); 32-bit
  sums wrap.
\<close>

section \<open>State\<close>

record placement =
  pl_reservation :: string
  pl_class :: traffic_class
  pl_kv_blocks :: nat
  pl_prefixes :: "(nat \<times> nat) list"
  pl_prompt_tokens :: nat
  pl_session :: "string option"

record allocation =
  al_wu_per_sec :: real
  al_kv_share :: "real option"
  al_dedicated_workers :: "string list"

type_synonym allocations = "(string \<times> allocation) list"

record worker =
  wk_id :: string
  wk_url :: string
  wk_slots :: nat
  wk_kv_blocks :: nat
  wk_slots_used :: nat
  wk_kv_used :: nat
  wk_kv_by_reservation :: "(string \<times> nat) list"
  wk_hot_spare :: bool
  wk_backfill_slots :: nat
  wk_backfill_kv :: nat
  wk_retired :: bool

definition worker_new :: "string \<Rightarrow> string \<Rightarrow> nat \<Rightarrow> nat \<Rightarrow> worker" where
  "worker_new i url slots kv_blocks =
     \<lparr>wk_id = i, wk_url = url, wk_slots = slots, wk_kv_blocks = kv_blocks, wk_slots_used = 0, wk_kv_used = 0,
      wk_kv_by_reservation = [], wk_hot_spare = False, wk_backfill_slots = 0, wk_backfill_kv = 0, wk_retired = False\<rparr>"

definition with_hot_spare :: "worker \<Rightarrow> bool \<Rightarrow> worker" where
  "with_hot_spare w b = w\<lparr>wk_hot_spare := b\<rparr>"

definition has_credit :: "worker \<Rightarrow> nat \<Rightarrow> bool" where
  "has_credit w blocks \<longleftrightarrow> wk_slots_used w < wk_slots w \<and> u32_add (wk_kv_used w) blocks \<le> wk_kv_blocks w"

definition backfill_fits :: "worker \<Rightarrow> nat \<Rightarrow> real \<Rightarrow> bool" where
  "backfill_fits w blocks ratio =
     (if wk_hot_spare w then True
      else let slots = f64_as_u32 (of_int \<lfloor>ratio * real (wk_slots w)\<rfloor>);
               kv = f64_as_u32 (of_int \<lfloor>ratio * real (wk_kv_blocks w)\<rfloor>)
           in wk_backfill_slots w < slots \<and> (wk_backfill_kv w = 0 \<or> u32_add (wk_backfill_kv w) blocks \<le> kv))"

definition worker_load :: "worker \<Rightarrow> real" where
  "worker_load w =
     (let s = real (wk_slots_used w) / real (max (wk_slots w) 1);
          k = real (wk_kv_used w) / real (max (wk_kv_blocks w) 1)
      in (s + k) / 2)"

section \<open>Prefix index\<close>

record prefix_index =
  px_by_hash :: "nat \<rightharpoonup> nat set"
  px_order :: "nat list"
  px_capacity :: nat

definition prefix_index_new :: "nat \<Rightarrow> prefix_index" where
  "prefix_index_new capacity = \<lparr>px_by_hash = Map.empty, px_order = [], px_capacity = capacity\<rparr>"

fun px_insert :: "(nat \<times> nat) list \<Rightarrow> nat \<Rightarrow> (nat \<rightharpoonup> nat set) \<Rightarrow> nat list \<Rightarrow> (nat \<rightharpoonup> nat set) \<times> nat list" where
  "px_insert [] worker by_hash order = (by_hash, order)"
| "px_insert ((h, _) # ps) worker by_hash order =
     (let set = (case by_hash h of Some s \<Rightarrow> s | None \<Rightarrow> {});
          order = (if set = {} then order @ [h] else order)
      in px_insert ps worker (by_hash(h \<mapsto> insert worker set)) order)"

fun px_trim :: "nat \<Rightarrow> (nat \<rightharpoonup> nat set) \<Rightarrow> nat list \<Rightarrow> (nat \<rightharpoonup> nat set) \<times> nat list" where
  "px_trim capacity by_hash [] = (by_hash, [])"
| "px_trim capacity by_hash (old # order) =
     (if length (old # order) > capacity then px_trim capacity (by_hash(old := None)) order
      else (by_hash, old # order))"

definition px_record :: "prefix_index \<Rightarrow> (nat \<times> nat) list \<Rightarrow> nat \<Rightarrow> prefix_index" where
  "px_record ix prefixes worker =
     (case px_insert prefixes worker (px_by_hash ix) (px_order ix) of
        (by_hash, order) \<Rightarrow>
          (case px_trim (px_capacity ix) by_hash order of
             (by_hash, order) \<Rightarrow> ix\<lparr>px_by_hash := by_hash, px_order := order\<rparr>))"

definition px_forget :: "prefix_index \<Rightarrow> nat \<Rightarrow> prefix_index" where
  "px_forget ix worker = ix\<lparr>px_by_hash := (\<lambda>h. map_option (\<lambda>s. s - {worker}) (px_by_hash ix h))\<rparr>"

definition px_knows :: "prefix_index \<Rightarrow> nat \<Rightarrow> nat \<Rightarrow> bool" where
  "px_knows ix worker h = (case px_by_hash ix h of Some s \<Rightarrow> worker \<in> s | None \<Rightarrow> False)"

definition px_overlap :: "prefix_index \<Rightarrow> (nat \<times> nat) list \<Rightarrow> nat \<Rightarrow> nat" where
  "px_overlap ix prefixes worker =
     (let seen = takeWhile (\<lambda>(h, _). px_knows ix worker h) prefixes
      in if seen = [] then 0 else snd (last seen))"

section \<open>Selection\<close>

record weights =
  ws_overlap :: real
  ws_load :: real
  ws_session :: real
  ws_kv_overcommit :: real
  ws_spare :: real
  ws_backfill_ratio :: real

definition default_backfill_ratio :: real where
  "default_backfill_ratio = 1/2"

definition weights_default :: weights where
  "weights_default = \<lparr>ws_overlap = 1, ws_load = 1, ws_session = 1/2, ws_kv_overcommit = 12/10, ws_spare = 1/4,
     ws_backfill_ratio = default_backfill_ratio\<rparr>"

datatype no_worker = Busy | KvBudget | NoEligible | TooLarge

definition is_backfill :: "placement \<Rightarrow> bool" where
  "is_backfill p \<longleftrightarrow> pl_class p \<in> {Payg, Spillover}"

text \<open>A worker named by several allocations belongs to the one collected last.\<close>

definition dedicated_to :: "allocations \<Rightarrow> string \<Rightarrow> string option" where
  "dedicated_to allocs =
     map_of (rev (concat (map (\<lambda>(res, a). map (\<lambda>w. (w, res)) (al_dedicated_workers a)) allocs)))"

definition eligible_worker :: "allocations \<Rightarrow> placement \<Rightarrow> worker \<Rightarrow> bool" where
  "eligible_worker allocs p w =
     (let payg = is_backfill p;
          owner_ok = (case dedicated_to allocs (wk_id w) of Some owner \<Rightarrow> owner = pl_reservation p \<or> payg | None \<Rightarrow> True);
          own_set_ok = (case map_of allocs (pl_reservation p) of
                          Some a \<Rightarrow> if al_dedicated_workers a \<noteq> [] \<and> \<not> payg then wk_id w \<in> set (al_dedicated_workers a) else True
                        | None \<Rightarrow> True)
      in if wk_retired w then False else owner_ok \<and> own_set_ok)"

definition eligible :: "worker list \<Rightarrow> allocations \<Rightarrow> placement \<Rightarrow> nat list" where
  "eligible workers allocs p = filter (\<lambda>i. eligible_worker allocs p (workers ! i)) [0..<length workers]"

definition feasible :: "worker list \<Rightarrow> allocations \<Rightarrow> placement \<Rightarrow> no_worker + unit" where
  "feasible workers allocs p =
     (let e = eligible workers allocs p
      in if e = [] then Inl NoEligible
         else if list_all (\<lambda>i. wk_kv_blocks (workers ! i) < pl_kv_blocks p) e then Inl TooLarge
         else Inr ())"

definition within_budget :: "worker \<Rightarrow> allocations \<Rightarrow> weights \<Rightarrow> placement \<Rightarrow> bool" where
  "within_budget w allocs ws p =
     (case Option.bind (map_of allocs (pl_reservation p)) al_kv_share of
        None \<Rightarrow> True
      | Some share \<Rightarrow>
          (let budget = f64_as_u32 (of_int \<lfloor>share * real (wk_kv_blocks w) * ws_kv_overcommit ws\<rfloor>);
               held = (case map_of (wk_kv_by_reservation w) (pl_reservation p) of Some h \<Rightarrow> h | None \<Rightarrow> 0)
           in held = 0 \<or> u32_add held (pl_kv_blocks p) \<le> budget))"

text \<open>The guards of the selection loop up to the budget, and the cost of a worker.\<close>

definition open_for :: "weights \<Rightarrow> placement \<Rightarrow> bool \<Rightarrow> worker \<Rightarrow> bool" where
  "open_for ws p fence w \<longleftrightarrow>
     \<not> (fence \<and> pl_class p = Payg \<and> wk_hot_spare w)
   \<and> has_credit w (pl_kv_blocks p)
   \<and> \<not> (is_backfill p \<and> \<not> backfill_fits w (pl_kv_blocks p) (ws_backfill_ratio ws))"

definition worker_cost :: "prefix_index \<Rightarrow> (string \<rightharpoonup> nat) \<Rightarrow> weights \<Rightarrow> placement \<Rightarrow> nat \<Rightarrow> worker \<Rightarrow> real" where
  "worker_cost ix sessions ws p i w =
     (let overlap = (if pl_prompt_tokens p > 0
                     then real (px_overlap ix (pl_prefixes p) i) / real (pl_prompt_tokens p) else 0);
          session = (case pl_session p of Some s \<Rightarrow> if sessions s = Some i then 1 else 0 | None \<Rightarrow> 0);
          misplaced = (if is_backfill p \<noteq> wk_hot_spare w then 1 else 0)
      in ws_load ws * worker_load w - ws_overlap ws * overlap - ws_session ws * session + ws_spare ws * misplaced)"

fun select_scan ::
  "worker list \<Rightarrow> allocations \<Rightarrow> prefix_index \<Rightarrow> (string \<rightharpoonup> nat) \<Rightarrow> weights \<Rightarrow> placement \<Rightarrow> bool
   \<Rightarrow> nat list \<Rightarrow> (nat \<times> real) option \<Rightarrow> bool \<Rightarrow> (nat \<times> real) option \<times> bool" where
  "select_scan workers allocs ix sessions ws p fence [] best blocked = (best, blocked)"
| "select_scan workers allocs ix sessions ws p fence (i # is) best blocked =
     (let w = workers ! i
      in if \<not> open_for ws p fence w
         then select_scan workers allocs ix sessions ws p fence is best blocked
         else if \<not> within_budget w allocs ws p
         then select_scan workers allocs ix sessions ws p fence is best True
         else let cost = worker_cost ix sessions ws p i w;
                  better = (case best of None \<Rightarrow> True | Some (_, c) \<Rightarrow> cost < c)
              in select_scan workers allocs ix sessions ws p fence is (if better then Some (i, cost) else best) blocked)"

definition select ::
  "worker list \<Rightarrow> allocations \<Rightarrow> prefix_index \<Rightarrow> (string \<rightharpoonup> nat) \<Rightarrow> weights \<Rightarrow> placement \<Rightarrow> bool
   \<Rightarrow> no_worker + nat" where
  "select workers allocs ix sessions ws p fence =
     (case feasible workers allocs p of
        Inl e \<Rightarrow> Inl e
      | Inr _ \<Rightarrow>
          (case select_scan workers allocs ix sessions ws p fence (eligible workers allocs p) None False of
             (Some (i, _), _) \<Rightarrow> Inr i
           | (None, blocked) \<Rightarrow> Inl (if blocked then KvBudget else Busy)))"

section \<open>Preemption\<close>

record running =
  rn_id :: nat
  rn_worker :: nat
  rn_class :: traffic_class
  rn_kv_blocks :: nat
  rn_started :: nat
  rn_preempting :: bool

definition u32_sum :: "nat list \<Rightarrow> nat" where
  "u32_sum xs = sum_list xs mod 4294967296"

definition fits_without :: "worker list \<Rightarrow> allocations \<Rightarrow> weights \<Rightarrow> placement \<Rightarrow> nat \<Rightarrow> running list \<Rightarrow> bool" where
  "fits_without workers allocs ws p i freed =
     (let w = workers ! i;
          slots = wk_slots_used w - length freed mod 4294967296;
          kv = wk_kv_used w - u32_sum (map rn_kv_blocks freed)
      in slots < wk_slots w \<and> u32_add kv (pl_kv_blocks p) \<le> wk_kv_blocks w \<and> within_budget w allocs ws p)"

definition pending :: "running list \<Rightarrow> nat \<Rightarrow> running list" where
  "pending rs i = filter (\<lambda>r. rn_worker r = i \<and> rn_preempting r) rs"

definition preemption_victim ::
  "worker list \<Rightarrow> allocations \<Rightarrow> weights \<Rightarrow> running list \<Rightarrow> placement \<Rightarrow> nat option" where
  "preemption_victim workers allocs ws rs p =
     (let e = eligible workers allocs p
      in if list_ex (\<lambda>i. fits_without workers allocs ws p i (pending rs i)) e then None
         else map_option rn_id
           (max_by_key (\<lambda>r. (wk_hot_spare (workers ! rn_worker r), rn_started r))
             (filter (\<lambda>r. fits_without workers allocs ws p (rn_worker r) (pending rs (rn_worker r) @ [r]))
               (concat (map (\<lambda>i. filter (\<lambda>r. rn_worker r = i \<and> rn_class r = Payg \<and> \<not> rn_preempting r) rs) e)))))"

section \<open>Selection is sound, complete and cheapest\<close>

lemma in_eligible: "i \<in> set (eligible workers allocs p) \<longleftrightarrow> i < length workers \<and> eligible_worker allocs p (workers ! i)"
  by (auto simp: eligible_def)

definition usable :: "allocations \<Rightarrow> weights \<Rightarrow> placement \<Rightarrow> bool \<Rightarrow> worker \<Rightarrow> bool" where
  "usable allocs ws p fence w \<longleftrightarrow> open_for ws p fence w \<and> within_budget w allocs ws p"

lemma select_scan_spec:
  "select_scan workers allocs ix sessions ws p fence is best blocked = (best', blocked') \<Longrightarrow>
   (blocked' \<longleftrightarrow> blocked \<or> (\<exists>i\<in>set is. open_for ws p fence (workers ! i) \<and> \<not> within_budget (workers ! i) allocs ws p))
   \<and> (case best' of
        None \<Rightarrow> best = None \<and> (\<forall>i\<in>set is. \<not> usable allocs ws p fence (workers ! i))
      | Some (i, c) \<Rightarrow>
          (best = Some (i, c) \<or> i \<in> set is \<and> usable allocs ws p fence (workers ! i) \<and> c = worker_cost ix sessions ws p i (workers ! i))
        \<and> (\<forall>j\<in>set is. usable allocs ws p fence (workers ! j) \<longrightarrow> c \<le> worker_cost ix sessions ws p j (workers ! j))
        \<and> (\<forall>b cb. best = Some (b, cb) \<longrightarrow> c \<le> cb))"
proof (induction "is" arbitrary: best blocked)
  case Nil
  then show ?case by (auto split: option.splits)
next
  case (Cons i "is")
  let ?w = "workers ! i"
  let ?cost = "worker_cost ix sessions ws p i ?w"
  consider (shut) "\<not> open_for ws p fence ?w" | (budget) "open_for ws p fence ?w" "\<not> within_budget ?w allocs ws p"
    | (use) "open_for ws p fence ?w" "within_budget ?w allocs ws p" by blast
  then show ?case
  proof cases
    case shut
    then show ?thesis using Cons.prems Cons.IH[of best blocked] by (auto simp: usable_def split: option.splits)
  next
    case budget
    then show ?thesis using Cons.prems Cons.IH[of best True] by (auto simp: usable_def split: option.splits)
  next
    case use
    let ?best = "if (case best of None \<Rightarrow> True | Some (_, c) \<Rightarrow> ?cost < c) then Some (i, ?cost) else best"
    have "select_scan workers allocs ix sessions ws p fence is ?best blocked = (best', blocked')"
      using Cons.prems use by (simp add: Let_def)
    from Cons.IH[OF this] use show ?thesis
      by (auto simp: usable_def split: option.splits prod.splits if_splits)
  qed
qed

lemma feasible_Inr:
  assumes "feasible workers allocs p = Inr u"
  obtains j where "j < length workers" "eligible_worker allocs p (workers ! j)" "pl_kv_blocks p \<le> wk_kv_blocks (workers ! j)"
  using assms
  by (auto simp: feasible_def Let_def list_all_iff in_eligible not_less split: if_splits)

lemma select_Inr:
  assumes "select workers allocs ix sessions ws p fence = Inr i"
  shows "i < length workers" and "eligible_worker allocs p (workers ! i)" and "usable allocs ws p fence (workers ! i)"
    and "j < length workers \<Longrightarrow> eligible_worker allocs p (workers ! j) \<Longrightarrow> usable allocs ws p fence (workers ! j) \<Longrightarrow>
      worker_cost ix sessions ws p i (workers ! i) \<le> worker_cost ix sessions ws p j (workers ! j)"
    and "\<exists>j<length workers. pl_kv_blocks p \<le> wk_kv_blocks (workers ! j)"
proof -
  let ?e = "eligible workers allocs p"
  obtain best blocked where sc: "select_scan workers allocs ix sessions ws p fence ?e None False = (best, blocked)"
    by fastforce
  obtain u c where u: "feasible workers allocs p = Inr u" "best = Some (i, c)"
    using assms sc by (auto simp: select_def split: sum.splits option.splits)
  have "i \<in> set ?e \<and> usable allocs ws p fence (workers ! i) \<and> c = worker_cost ix sessions ws p i (workers ! i)
     \<and> (\<forall>j\<in>set ?e. usable allocs ws p fence (workers ! j) \<longrightarrow> c \<le> worker_cost ix sessions ws p j (workers ! j))"
    using select_scan_spec[OF sc] by (auto simp: u(2))
  then show "i < length workers" "eligible_worker allocs p (workers ! i)" "usable allocs ws p fence (workers ! i)"
    and "j < length workers \<Longrightarrow> eligible_worker allocs p (workers ! j) \<Longrightarrow> usable allocs ws p fence (workers ! j) \<Longrightarrow>
      worker_cost ix sessions ws p i (workers ! i) \<le> worker_cost ix sessions ws p j (workers ! j)"
    by (auto simp: in_eligible)
  show "\<exists>j<length workers. pl_kv_blocks p \<le> wk_kv_blocks (workers ! j)"
    using feasible_Inr[OF u(1)] by blast
qed

lemma select_Inl:
  assumes "select workers allocs ix sessions ws p fence = Inl e" and "feasible workers allocs p = Inr ()"
    and "j < length workers" and "eligible_worker allocs p (workers ! j)"
  shows "\<not> usable allocs ws p fence (workers ! j)"
    and "e = Busy \<Longrightarrow> \<not> open_for ws p fence (workers ! j)" and "e = Busy \<or> e = KvBudget"
proof -
  let ?e = "eligible workers allocs p"
  obtain best blocked where sc: "select_scan workers allocs ix sessions ws p fence ?e None False = (best, blocked)"
    by fastforce
  have b: "best = None" "e = (if blocked then KvBudget else Busy)"
    using assms(1,2) sc by (auto simp: select_def split: option.splits if_splits)
  have j: "j \<in> set ?e" using assms(3,4) by (simp add: in_eligible)
  show "\<not> usable allocs ws p fence (workers ! j)" and "e = Busy \<Longrightarrow> \<not> open_for ws p fence (workers ! j)"
    using select_scan_spec[OF sc] b j by (auto simp: usable_def split: if_splits)
  show "e = Busy \<or> e = KvBudget" using b by simp
qed

text \<open>Worker sizes and blocks in use below half the 32-bit range, so that no sum wraps.\<close>

definition worker_sane :: "worker \<Rightarrow> bool" where
  "worker_sane w \<longleftrightarrow> wk_kv_used w < 2147483648 \<and> wk_kv_blocks w < 2147483648 \<and> wk_slots w < 4294967296"

lemma selected_worker_fits:
  assumes "select workers allocs ix sessions ws p fence = Inr i" and "\<forall>w\<in>set workers. worker_sane w"
  shows "wk_slots_used (workers ! i) < wk_slots (workers ! i)"
    and "wk_kv_used (workers ! i) + pl_kv_blocks p \<le> wk_kv_blocks (workers ! i)"
proof -
  note s = select_Inr[OF assms(1)]
  obtain j where j: "j < length workers" "pl_kv_blocks p \<le> wk_kv_blocks (workers ! j)" using s(5) by blast
  have "worker_sane (workers ! i)" "worker_sane (workers ! j)" using assms(2) s(1) j(1) by simp_all
  then have nw: "u32_add (wk_kv_used (workers ! i)) (pl_kv_blocks p) = wk_kv_used (workers ! i) + pl_kv_blocks p"
    using j(2) by (intro u32_add_exact) (simp add: worker_sane_def)
  then show "wk_slots_used (workers ! i) < wk_slots (workers ! i)"
    and "wk_kv_used (workers ! i) + pl_kv_blocks p \<le> wk_kv_blocks (workers ! i)"
    using s(3) by (auto simp: usable_def open_for_def has_credit_def)
qed

text \<open>
  C21. Worker selection is sound, complete and cheapest. A selected worker is known, not retired,
  allowed by the dedicated-worker rules, has a free slot and enough free KV blocks without
  wrap-around, is not a fenced hot spare for pay-as-you-go, respects the backfill share and the
  reservation's KV budget, and no other worker that qualifies costs less. A refusal of a feasible
  request is \<open>Busy\<close> or \<open>KvBudget\<close>, no eligible worker qualifies, and \<open>Busy\<close> means that none was
  even open.
\<close>

theorem select_sound_and_cheapest:
  assumes "\<forall>w\<in>set workers. worker_sane w"
  shows "case select workers allocs ix sessions ws p fence of
      Inr i \<Rightarrow> i < length workers \<and> \<not> wk_retired (workers ! i) \<and> eligible_worker allocs p (workers ! i)
        \<and> wk_slots_used (workers ! i) < wk_slots (workers ! i)
        \<and> wk_kv_used (workers ! i) + pl_kv_blocks p \<le> wk_kv_blocks (workers ! i)
        \<and> \<not> (fence \<and> pl_class p = Payg \<and> wk_hot_spare (workers ! i))
        \<and> (is_backfill p \<longrightarrow> backfill_fits (workers ! i) (pl_kv_blocks p) (ws_backfill_ratio ws))
        \<and> within_budget (workers ! i) allocs ws p
        \<and> (\<forall>j<length workers. eligible_worker allocs p (workers ! j) \<and> usable allocs ws p fence (workers ! j) \<longrightarrow>
             worker_cost ix sessions ws p i (workers ! i) \<le> worker_cost ix sessions ws p j (workers ! j))
    | Inl e \<Rightarrow> feasible workers allocs p = Inr () \<longrightarrow> e \<in> {Busy, KvBudget}
        \<and> (\<forall>j<length workers. eligible_worker allocs p (workers ! j) \<longrightarrow>
             \<not> usable allocs ws p fence (workers ! j) \<and> (e = Busy \<longrightarrow> \<not> open_for ws p fence (workers ! j)))"
proof (cases "select workers allocs ix sessions ws p fence")
  case (Inr i)
  note s = select_Inr[OF Inr] selected_worker_fits[OF Inr assms]
  have "\<not> wk_retired (workers ! i)" using s(2) by (auto simp: eligible_worker_def Let_def)
  then show ?thesis using s by (auto simp: Inr usable_def open_for_def)
next
  case (Inl e)
  have "e \<in> {Busy, KvBudget}" if "feasible workers allocs p = Inr ()"
    using Inl that by (auto simp: select_def split: option.splits prod.splits if_splits)
  then show ?thesis using select_Inl[OF Inl] by (auto simp: Inl)
qed

definition demo_placement :: "traffic_class \<Rightarrow> nat \<Rightarrow> placement" where
  "demo_placement c kv = \<lparr>pl_reservation = ''r'', pl_class = c, pl_kv_blocks = kv, pl_prefixes = [], pl_prompt_tokens = 0,
     pl_session = None\<rparr>"

definition demo_workers :: "worker list" where
  "demo_workers = [(worker_new ''w0'' ''u'' 1 10)\<lparr>wk_slots_used := 1, wk_kv_used := 4\<rparr>, worker_new ''w1'' ''u'' 2 10]"

lemmas worker_eval =
  select_def feasible_def eligible_def eligible_worker_def dedicated_to_def open_for_def has_credit_def within_budget_def
  worker_cost_def worker_load_def is_backfill_def backfill_fits_def demo_placement_def demo_workers_def worker_new_def
  weights_default_def default_backfill_ratio_def prefix_index_new_def u32_add_def Let_def upt_rec

theorem select_sound_and_cheapest_witness:
  "select demo_workers [] (prefix_index_new 9) Map.empty weights_default (demo_placement Provisioned 3) False = Inr 1
   \<and> wk_kv_used (demo_workers ! 1) + 3 \<le> wk_kv_blocks (demo_workers ! 1)"
proof -
  have r: "select demo_workers [] (prefix_index_new 9) Map.empty weights_default (demo_placement Provisioned 3) False = Inr 1"
    by (simp add: worker_eval)
  have "\<forall>w\<in>set demo_workers. worker_sane w" by (simp add: demo_workers_def worker_sane_def worker_new_def)
  from select_sound_and_cheapest[OF this, where allocs = "[]" and ix = "prefix_index_new 9" and sessions = Map.empty
      and ws = weights_default and p = "demo_placement Provisioned 3" and fence = False] r
  show ?thesis by (simp add: demo_placement_def)
qed

section \<open>Preemption makes room\<close>

lemma preemption_victim_running:
  assumes "preemption_victim workers allocs ws rs p = Some v"
  shows "\<exists>r\<in>set rs. rn_id r = v \<and> rn_class r = Payg \<and> \<not> rn_preempting r"
proof -
  obtain r where r: "max_by_key (\<lambda>r. (wk_hot_spare (workers ! rn_worker r), rn_started r))
      (filter (\<lambda>r. fits_without workers allocs ws p (rn_worker r) (pending rs (rn_worker r) @ [r]))
        (concat (map (\<lambda>i. filter (\<lambda>r. rn_worker r = i \<and> rn_class r = Payg \<and> \<not> rn_preempting r) rs) (eligible workers allocs p))))
      = Some r" "rn_id r = v"
    using assms by (auto simp: preemption_victim_def Let_def split: if_splits)
  from conjunct1[OF max_by_key_SomeD[OF r(1)]] r(2) show ?thesis by auto
qed

text \<open>
  A preemption victim is a running pay-as-you-go request, not already being aborted, on a
  worker eligible for the waiting request, whose release together with those already on the way
  makes the waiting request fit there; no eligible worker would fit without it, and among all
  such requests it is on a hot spare if any is, then the one started last. When no victim is
  named, either room is already on its way or no single such request makes enough room.
\<close>

theorem preemption_victim_sound:
  shows "case preemption_victim workers allocs ws rs p of
      Some v \<Rightarrow> (\<exists>r\<in>set rs. rn_id r = v \<and> rn_class r = Payg \<and> \<not> rn_preempting r
          \<and> rn_worker r \<in> set (eligible workers allocs p)
          \<and> fits_without workers allocs ws p (rn_worker r) (pending rs (rn_worker r) @ [r])
          \<and> (\<forall>r'\<in>set rs. rn_class r' = Payg \<and> \<not> rn_preempting r' \<and> rn_worker r' \<in> set (eligible workers allocs p)
               \<and> fits_without workers allocs ws p (rn_worker r') (pending rs (rn_worker r') @ [r'])
              \<longrightarrow> (wk_hot_spare (workers ! rn_worker r'), rn_started r') \<le> (wk_hot_spare (workers ! rn_worker r), rn_started r)))
        \<and> (\<forall>i\<in>set (eligible workers allocs p). \<not> fits_without workers allocs ws p i (pending rs i))
    | None \<Rightarrow> (\<exists>i\<in>set (eligible workers allocs p). fits_without workers allocs ws p i (pending rs i))
        \<or> (\<forall>r\<in>set rs. rn_class r = Payg \<and> \<not> rn_preempting r \<and> rn_worker r \<in> set (eligible workers allocs p)
              \<longrightarrow> \<not> fits_without workers allocs ws p (rn_worker r) (pending rs (rn_worker r) @ [r]))"
proof -
  let ?e = "eligible workers allocs p"
  let ?c = "filter (\<lambda>r. fits_without workers allocs ws p (rn_worker r) (pending rs (rn_worker r) @ [r]))
     (concat (map (\<lambda>i. filter (\<lambda>r. rn_worker r = i \<and> rn_class r = Payg \<and> \<not> rn_preempting r) rs) ?e))"
  let ?k = "\<lambda>r. (wk_hot_spare (workers ! rn_worker r), rn_started r)"
  have inc: "r \<in> set ?c \<longleftrightarrow> r \<in> set rs \<and> rn_class r = Payg \<and> \<not> rn_preempting r \<and> rn_worker r \<in> set ?e
      \<and> fits_without workers allocs ws p (rn_worker r) (pending rs (rn_worker r) @ [r])" for r
    by auto
  show ?thesis
  proof (cases "list_ex (\<lambda>i. fits_without workers allocs ws p i (pending rs i)) ?e")
    case True
    then show ?thesis by (auto simp: preemption_victim_def list_ex_iff)
  next
    case False
    then have n: "\<forall>i\<in>set ?e. \<not> fits_without workers allocs ws p i (pending rs i)" by (simp add: list_ex_iff)
    show ?thesis
    proof (cases "max_by_key ?k ?c")
      case None
      then have c: "?c = []" by (simp only: max_by_key_None_iff)
      have no: "r \<notin> set ?c" for r unfolding c by simp
      have v: "preemption_victim workers allocs ws rs p = None"
        unfolding preemption_victim_def Let_def using False None by (simp only: if_False option.map)
      show ?thesis unfolding v option.case using no[unfolded inc] by (intro disjI2 ballI impI) metis
    next
      case (Some r)
      have m: "r \<in> set ?c" "x \<in> set ?c \<Longrightarrow> ?k x \<le> ?k r" for x
        by (rule conjunct1[OF max_by_key_SomeD[OF Some]], rule bspec[OF conjunct2[OF max_by_key_SomeD[OF Some]]])
      have v: "preemption_victim workers allocs ws rs p = Some (rn_id r)"
        unfolding preemption_victim_def Let_def using False Some by (simp only: if_False option.map)
      show ?thesis unfolding v option.case
        using m(1)[unfolded inc] m(2)[unfolded inc] n by (intro conjI bexI[of _ r] ballI impI) simp_all
    qed
  qed
qed

theorem preemption_victim_sound_witness:
  "preemption_victim [(worker_new ''w0'' ''u'' 1 10)\<lparr>wk_slots_used := 1, wk_kv_used := 4\<rparr>] [] weights_default
     [\<lparr>rn_id = 7, rn_worker = 0, rn_class = Payg, rn_kv_blocks = 4, rn_started = 1, rn_preempting = False\<rparr>]
     (demo_placement Provisioned 8) = Some 7
   \<and> fits_without [(worker_new ''w0'' ''u'' 1 10)\<lparr>wk_slots_used := 1, wk_kv_used := 4\<rparr>] [] weights_default
       (demo_placement Provisioned 8) 0
       [\<lparr>rn_id = 7, rn_worker = 0, rn_class = Payg, rn_kv_blocks = 4, rn_started = 1, rn_preempting = False\<rparr>]"
proof -
  let ?w = "[(worker_new ''w0'' ''u'' 1 10)\<lparr>wk_slots_used := 1, wk_kv_used := 4\<rparr>]"
  let ?rs = "[\<lparr>rn_id = 7, rn_worker = 0, rn_class = Payg, rn_kv_blocks = 4, rn_started = 1, rn_preempting = False\<rparr>]"
  have r: "preemption_victim ?w [] weights_default ?rs (demo_placement Provisioned 8) = Some 7"
    by (simp add: preemption_victim_def fits_without_def pending_def max_by_key_def u32_sum_def worker_eval)
  from preemption_victim_sound[where workers = ?w and allocs = "[]" and ws = weights_default and rs = ?rs
      and p = "demo_placement Provisioned 8"] r
  show ?thesis by (simp add: pending_def)
qed

end
