(* ===== verification/Dispatch.thy ===== *)
theory Dispatch
  imports Scheduler Workers Complex_Main
begin

text \<open>
  The dispatcher of the router (crate \<open>pt-router\<close>, \<open>dispatch.rs\<close>): scheduler order plus worker
  selection, with the accounting of slots and KV blocks, preemption during a region failover,
  the adaptive backfill share and changes of the worker set. The dispatch loop is a recursive
  function that terminates because every round takes a queued request. The one \<open>expect\<close> of the
  loop is the result \<open>None\<close>.
\<close>

section \<open>State\<close>

definition SCAN_LIMIT :: nat where "SCAN_LIMIT = 64"
definition MAX_SESSIONS :: nat where "MAX_SESSIONS = 100000"
definition LEARN :: real where "LEARN = 5/100"

record 'a assignment =
  as_id :: nat
  as_worker :: nat
  as_placement :: placement
  as_payload :: 'a

record class_counts =
  cc_provisioned :: nat
  cc_burst :: nat
  cc_spillover :: nat
  cc_payg :: nat

definition class_counts_default :: class_counts where
  "class_counts_default = \<lparr>cc_provisioned = 0, cc_burst = 0, cc_spillover = 0, cc_payg = 0\<rparr>"

definition bump :: "class_counts \<Rightarrow> traffic_class \<Rightarrow> class_counts" where
  "bump cc c =
     (case c of
        Provisioned \<Rightarrow> cc\<lparr>cc_provisioned := cc_provisioned cc + 1\<rparr>
      | Burst \<Rightarrow> cc\<lparr>cc_burst := cc_burst cc + 1\<rparr>
      | Spillover \<Rightarrow> cc\<lparr>cc_spillover := cc_spillover cc + 1\<rparr>
      | Payg \<Rightarrow> cc\<lparr>cc_payg := cc_payg cc + 1\<rparr>)"

record adaptive_backfill =
  ab_headroom :: real
  ab_min_ratio :: real
  ab_max_ratio :: real
  ab_half_life :: duration

definition adaptive_backfill_default :: adaptive_backfill where
  "adaptive_backfill_default = \<lparr>ab_headroom = 125/100, ab_min_ratio = 1/10, ab_max_ratio = 9/10, ab_half_life = from_secs 60\<rparr>"

record active =
  ac_worker :: nat
  ac_placement :: placement
  ac_seq :: nat
  ac_preempting :: bool
  ac_wu :: real
  ac_started :: instant

record 'a dispatcher =
  dp_scheduler :: "(placement \<times> instant \<times> 'a) scheduler"
  dp_running :: "(nat \<times> active) list"
  dp_seq :: nat
  dp_failover_until :: "instant option"
  dp_preempted :: nat
  dp_workers :: "worker list"
  dp_allocations :: allocations
  dp_index :: prefix_index
  dp_sessions :: "string \<rightharpoonup> nat"
  dp_session_order :: "string list"
  dp_weights :: weights
  dp_next_id :: nat
  dp_dispatched :: class_counts
  dp_adaptive :: "adaptive_backfill option"
  dp_fixed_ratio :: real
  dp_slot_secs_per_wu :: "real option"
  dp_peak :: real
  dp_peak_at :: "instant option"

record dispatch_status =
  ds_queued :: class_counts
  ds_dispatched :: class_counts
  ds_preempted :: nat
  ds_failover_active :: bool
  ds_backfill_ratio :: real
  ds_expected_provisioned_slots :: "real option"
  ds_peak_provisioned_slots :: real
  ds_workers :: "worker list"

definition dispatcher_new :: "worker list \<Rightarrow> allocations \<Rightarrow> weights \<Rightarrow> nat \<Rightarrow> 'a dispatcher" where
  "dispatcher_new workers allocs ws payg_guard_every =
     \<lparr>dp_scheduler = scheduler_new payg_guard_every, dp_running = [], dp_seq = 0, dp_failover_until = None,
      dp_preempted = 0, dp_workers = workers, dp_allocations = allocs, dp_index = prefix_index_new 100000,
      dp_sessions = Map.empty, dp_session_order = [], dp_weights = ws, dp_next_id = 1,
      dp_dispatched = class_counts_default, dp_adaptive = None, dp_fixed_ratio = ws_backfill_ratio ws,
      dp_slot_secs_per_wu = None, dp_peak = 0, dp_peak_at = None\<rparr>"

definition with_adaptive_backfill :: "'a dispatcher \<Rightarrow> adaptive_backfill \<Rightarrow> 'a dispatcher" where
  "with_adaptive_backfill d a = d\<lparr>dp_adaptive := Some a\<rparr>"

section \<open>Adaptive backfill\<close>

definition is_floor_provisioned :: "'a dispatcher \<Rightarrow> active \<Rightarrow> bool" where
  "is_floor_provisioned d a \<longleftrightarrow> \<not> is_backfill (ac_placement a) \<and> \<not> wk_hot_spare (dp_workers d ! ac_worker a)"

definition track_peak :: "'a dispatcher \<Rightarrow> instant \<Rightarrow> 'a dispatcher" where
  "track_peak d now =
     (case dp_adaptive d of
        None \<Rightarrow> d
      | Some a \<Rightarrow>
          (let current = real (length (filter (\<lambda>(i, r). is_floor_provisioned d r) (dp_running d)));
               decayed = (case dp_peak_at d of
                            Some t \<Rightarrow> dp_peak d * (1/2) powr (as_secs_f64 (saturating_duration_since now t)
                                          / max (as_secs_f64 (ab_half_life a)) (1/1000))
                          | None \<Rightarrow> 0)
           in d\<lparr>dp_peak := max current decayed, dp_peak_at := Some now\<rparr>))"

definition expected_slots :: "'a dispatcher \<Rightarrow> real option" where
  "expected_slots d =
     (case dp_slot_secs_per_wu d of
        None \<Rightarrow> None
      | Some per_wu \<Rightarrow>
          (let wu = (\<Sum>(r, a)\<leftarrow>dp_allocations d. al_wu_per_sec a)
           in if wu > 0 then Some (wu * per_wu) else None))"

definition backfill_ratio :: "'a dispatcher \<Rightarrow> real" where
  "backfill_ratio d =
     (case dp_adaptive d of
        None \<Rightarrow> dp_fixed_ratio d
      | Some a \<Rightarrow>
          (let expected = expected_slots d
           in if expected = None \<and> dp_peak d = 0 then dp_fixed_ratio d
              else let flr = u32_sum (map wk_slots (filter (\<lambda>w. \<not> wk_hot_spare w \<and> \<not> wk_retired w) (dp_workers d)))
                   in if flr = 0 then dp_fixed_ratio d
                      else let reserve = max (case expected of Some x \<Rightarrow> x | None \<Rightarrow> 0) (dp_peak d) * ab_headroom a
                           in clamp (ab_min_ratio a) (ab_max_ratio a) (1 - reserve / real flr)))"

section \<open>Queueing, failover and capacity\<close>

definition dispatch_enqueue ::
  "'a dispatcher \<Rightarrow> placement \<Rightarrow> real \<Rightarrow> real option \<Rightarrow> instant \<Rightarrow> instant \<Rightarrow> 'a \<Rightarrow> 'a dispatcher \<times> (no_worker + nat)" where
  "dispatch_enqueue d p wu fallback_weight now deadline payload =
     (case feasible (dp_workers d) (dp_allocations d) p of
        Inl e \<Rightarrow> (d, Inl e)
      | Inr _ \<Rightarrow>
          (let own = (case map_of (dp_allocations d) (pl_reservation p) of
                        Some a \<Rightarrow> if al_wu_per_sec a > 0 then Some (al_wu_per_sec a) else None
                      | None \<Rightarrow> None);
               fallback = (case fallback_weight of Some w \<Rightarrow> if w > 0 then Some w else None | None \<Rightarrow> None);
               weight = (case own of Some w \<Rightarrow> w | None \<Rightarrow> (case fallback of Some w \<Rightarrow> w | None \<Rightarrow> 1));
               i = dp_next_id d
           in (d\<lparr>dp_next_id := i + 1,
                 dp_scheduler := sched_enqueue (dp_scheduler d)
                   \<lparr>it_id = i, it_flow = pl_reservation p, it_class = pl_class p, it_wu = wu, it_weight = weight,
                    it_deadline = deadline, it_payload = (p, now, payload)\<rparr>\<rparr>, Inr i)))"

definition note_failover :: "'a dispatcher \<Rightarrow> instant \<Rightarrow> 'a dispatcher" where
  "note_failover d until =
     d\<lparr>dp_failover_until := Some (case dp_failover_until d of None \<Rightarrow> until | Some u \<Rightarrow> max u until)\<rparr>"

definition failover_active :: "'a dispatcher \<Rightarrow> instant \<Rightarrow> bool" where
  "failover_active d now = (case dp_failover_until d of Some u \<Rightarrow> now < u | None \<Rightarrow> False)"

text \<open>The worker's side of a reservation, and its release.\<close>

definition worker_reserve :: "worker \<Rightarrow> placement \<Rightarrow> worker" where
  "worker_reserve w p =
     (let kv = pl_kv_blocks p;
          w = w\<lparr>wk_slots_used := u32_add (wk_slots_used w) 1, wk_kv_used := u32_add (wk_kv_used w) kv\<rparr>;
          w = (if is_backfill p
               then w\<lparr>wk_backfill_slots := u32_add (wk_backfill_slots w) 1, wk_backfill_kv := u32_add (wk_backfill_kv w) kv\<rparr>
               else w);
          held = (case map_of (wk_kv_by_reservation w) (pl_reservation p) of Some h \<Rightarrow> h | None \<Rightarrow> 0)
      in w\<lparr>wk_kv_by_reservation := AList.update (pl_reservation p) (u32_add held kv) (wk_kv_by_reservation w)\<rparr>)"

definition worker_release :: "worker \<Rightarrow> placement \<Rightarrow> worker" where
  "worker_release w p =
     (let kv = pl_kv_blocks p;
          w = w\<lparr>wk_slots_used := wk_slots_used w - 1, wk_kv_used := wk_kv_used w - kv\<rparr>;
          w = (if is_backfill p
               then w\<lparr>wk_backfill_slots := wk_backfill_slots w - 1, wk_backfill_kv := wk_backfill_kv w - kv\<rparr>
               else w)
      in case map_of (wk_kv_by_reservation w) (pl_reservation p) of
           None \<Rightarrow> w
         | Some held \<Rightarrow>
             if held - kv = 0 then w\<lparr>wk_kv_by_reservation := AList.delete (pl_reservation p) (wk_kv_by_reservation w)\<rparr>
             else w\<lparr>wk_kv_by_reservation := AList.update (pl_reservation p) (held - kv) (wk_kv_by_reservation w)\<rparr>)"

fun session_trim :: "(string \<rightharpoonup> nat) \<Rightarrow> string list \<Rightarrow> (string \<rightharpoonup> nat) \<times> string list" where
  "session_trim sessions [] = (sessions, [])"
| "session_trim sessions (old # order) =
     (if length (old # order) > MAX_SESSIONS then session_trim (sessions(old := None)) order else (sessions, old # order))"

definition reserve_session :: "(string \<rightharpoonup> nat) \<Rightarrow> string list \<Rightarrow> string option \<Rightarrow> nat \<Rightarrow> (string \<rightharpoonup> nat) \<times> string list" where
  "reserve_session sessions order session w =
     (case session of
        None \<Rightarrow> (sessions, order)
      | Some s \<Rightarrow>
          if sessions s = None then session_trim (sessions(s \<mapsto> w)) (order @ [s]) else (sessions(s \<mapsto> w), order))"

definition dispatch_reserve :: "'a dispatcher \<Rightarrow> nat \<Rightarrow> placement \<Rightarrow> 'a dispatcher" where
  "dispatch_reserve d w p =
     (case reserve_session (dp_sessions d) (dp_session_order d) (pl_session p) w of
        (sessions, order) \<Rightarrow>
          d\<lparr>dp_workers := (dp_workers d)[w := worker_reserve (dp_workers d ! w) p],
            dp_index := px_record (dp_index d) (pl_prefixes p) w,
            dp_sessions := sessions, dp_session_order := order\<rparr>)"

section \<open>The dispatch loop\<close>

definition placeable :: "'a dispatcher \<Rightarrow> bool \<Rightarrow> handle \<Rightarrow> nat option" where
  "placeable d fence h =
     (case peek (dp_scheduler d) h of
        None \<Rightarrow> None
      | Some q \<Rightarrow>
          (case select (dp_workers d) (dp_allocations d) (dp_index d) (dp_sessions d) (dp_weights d) (fst (q_payload q)) fence of
             Inr w \<Rightarrow> Some w
           | Inl _ \<Rightarrow> None))"

fun first_placed :: "'a dispatcher \<Rightarrow> bool \<Rightarrow> handle list \<Rightarrow> (handle \<times> nat) option" where
  "first_placed d fence [] = None"
| "first_placed d fence (h # hs) =
     (case placeable d fence h of Some w \<Rightarrow> Some (h, w) | None \<Rightarrow> first_placed d fence hs)"

definition dispatch_find :: "'a dispatcher \<Rightarrow> bool \<Rightarrow> (handle \<times> nat) option" where
  "dispatch_find d fence = first_placed d fence (take SCAN_LIMIT (candidates (dp_scheduler d)))"

text \<open>What a round does once request and worker are chosen.\<close>

definition dispatch_assign ::
  "'a dispatcher \<Rightarrow> instant \<Rightarrow> (placement \<times> instant \<times> 'a) scheduler \<Rightarrow> (placement \<times> instant \<times> 'a) queued \<Rightarrow> nat
   \<Rightarrow> 'a dispatcher \<times> 'a assignment" where
  "dispatch_assign d now s q w =
     (case q_payload q of (p, _, payload) \<Rightarrow>
        (let d = dispatch_reserve (d\<lparr>dp_scheduler := s\<rparr>) w p;
             d = d\<lparr>dp_dispatched := bump (dp_dispatched d) (pl_class p), dp_seq := dp_seq d + 1\<rparr>;
             d = d\<lparr>dp_running := AList.update (q_id q)
                    \<lparr>ac_worker = w, ac_placement = p, ac_seq = dp_seq d, ac_preempting = False, ac_wu = q_wu q, ac_started = now\<rparr>
                    (dp_running d)\<rparr>
         in (track_peak d now, \<lparr>as_id = q_id q, as_worker = w, as_placement = p, as_payload = payload\<rparr>)))"

lemma flows_shrink:
  assumes "map_of fs k = Some f" and "fl_queue f = q # rest"
  shows "size (flows_mset (AList.update k (f\<lparr>fl_queue := rest\<rparr>) fs)) < size (flows_mset fs)"
    and "size (flows_mset (AList.delete k fs)) < size (flows_mset fs)"
proof -
  have del: "size (flows_mset (AList.delete k gs)) \<le> size (flows_mset gs)" for gs :: "(string \<times> 'a flow) list"
    by (induction gs) auto
  show "size (flows_mset (AList.update k (f\<lparr>fl_queue := rest\<rparr>) fs)) < size (flows_mset fs)"
    using assms by (induction fs) (auto split: if_splits)
  show "size (flows_mset (AList.delete k fs)) < size (flows_mset fs)"
    using assms
  proof (induction fs)
    case Nil
    then show ?case by simp
  next
    case (Cons a fs)
    then show ?case using del[of fs] by (cases a) (auto split: if_splits)
  qed
qed

lemma size_contents_update:
  "size (contents (s\<lparr>sc_classes := (sc_classes s)(c := cq)\<rparr>)) + size (flows_mset (cq_flows (sc_classes s c)))
    = size (contents s) + size (flows_mset (cq_flows cq))"
  using arg_cong[OF contents_update[of s c cq], of size] by simp

lemma sched_take_shrinks:
  assumes "sched_take s h = (s', Some q)"
  shows "size (contents s') < size (contents s)"
proof -
  let ?cq = "sc_classes s (h_class h)"
  obtain f rest where f: "map_of (cq_flows ?cq) (h_flow h) = Some f" "fl_queue f = q # rest"
    using assms by (auto simp: sched_take_def Let_def split: option.splits list.splits if_splits)
  obtain cq n where s': "s' = s\<lparr>sc_classes := (sc_classes s)(h_class h := cq), sc_since_payg := n\<rparr>"
    and cq: "cq_flows cq \<in> {AList.delete (h_flow h) (cq_flows ?cq), AList.update (h_flow h) (f\<lparr>fl_queue := rest\<rparr>) (cq_flows ?cq)}"
    using assms f by (auto simp: sched_take_def Let_def split: if_splits)
  have "size (flows_mset (cq_flows cq)) < size (flows_mset (cq_flows ?cq))" using flows_shrink[OF f] cq by auto
  moreover have "contents s' = contents (s\<lparr>sc_classes := (sc_classes s)(h_class h := cq)\<rparr>)" by (simp add: s' contents_def)
  ultimately show ?thesis using size_contents_update[of s "h_class h" cq] by simp
qed

lemma dispatch_assign_scheduler: "dp_scheduler (fst (dispatch_assign d now s q w)) = s"
  by (simp add: dispatch_assign_def dispatch_reserve_def track_peak_def Let_def split: prod.splits option.splits)

function dispatch_loop ::
  "'a dispatcher \<Rightarrow> bool \<Rightarrow> instant \<Rightarrow> 'a assignment list \<Rightarrow> ('a dispatcher \<times> 'a assignment list) option" where
  "dispatch_loop d fence now out =
     (case dispatch_find d fence of
        None \<Rightarrow> Some (d, out)
      | Some (h, w) \<Rightarrow>
          (case sched_take (dp_scheduler d) h of
             (_, None) \<Rightarrow> None
           | (s, Some q) \<Rightarrow>
               (let r = dispatch_assign d now s q w
                in dispatch_loop (fst r) fence now (out @ [snd r]))))"
  by pat_completeness auto

termination
  by (relation "measure (\<lambda>(d, fence, now, out). size (contents (dp_scheduler d)))")
    (auto simp: dispatch_assign_scheduler intro: sched_take_shrinks[OF sym])

declare dispatch_loop.simps [simp del]

definition dispatch :: "'a dispatcher \<Rightarrow> instant \<Rightarrow> ('a dispatcher \<times> 'a assignment list) option" where
  "dispatch d now =
     (let fence = failover_active d now;
          d = track_peak d now;
          d = d\<lparr>dp_weights := (dp_weights d)\<lparr>ws_backfill_ratio := backfill_ratio d\<rparr>\<rparr>
      in dispatch_loop d fence now [])"

section \<open>Preemption, completion and cancellation\<close>

definition running_view :: "(nat \<times> active) list \<Rightarrow> running list" where
  "running_view rs = map (\<lambda>(i, a). \<lparr>rn_id = i, rn_worker = ac_worker a, rn_class = pl_class (ac_placement a),
     rn_kv_blocks = pl_kv_blocks (ac_placement a), rn_started = ac_seq a, rn_preempting = ac_preempting a\<rparr>) rs"

definition mark_preempting :: "nat \<Rightarrow> (nat \<times> active) list \<Rightarrow> (nat \<times> active) list" where
  "mark_preempting i rs =
     (case map_of rs i of Some a \<Rightarrow> AList.update i (a\<lparr>ac_preempting := True\<rparr>) rs | None \<Rightarrow> rs)"

fun preempt_scan :: "'a dispatcher \<Rightarrow> instant \<Rightarrow> duration \<Rightarrow> handle list \<Rightarrow> nat list \<Rightarrow> 'a dispatcher \<times> nat list" where
  "preempt_scan d now grace [] victims = (d, victims)"
| "preempt_scan d now grace (h # hs) victims =
     (case peek (dp_scheduler d) h of
        None \<Rightarrow> preempt_scan d now grace hs victims
      | Some q \<Rightarrow>
          (case q_payload q of (p, queued_at, _) \<Rightarrow>
             if q_class q \<noteq> Provisioned \<or> saturating_duration_since now queued_at < grace
             then preempt_scan d now grace hs victims
             else (case preemption_victim (dp_workers d) (dp_allocations d) (dp_weights d) (running_view (dp_running d)) p of
                     None \<Rightarrow> preempt_scan d now grace hs victims
                   | Some i \<Rightarrow>
                       preempt_scan (d\<lparr>dp_running := mark_preempting i (dp_running d), dp_preempted := dp_preempted d + 1\<rparr>)
                         now grace hs (victims @ [i]))))"

definition preempt :: "'a dispatcher \<Rightarrow> instant \<Rightarrow> duration \<Rightarrow> 'a dispatcher \<times> nat list" where
  "preempt d now grace =
     (if \<not> failover_active d now then (d, [])
      else preempt_scan d now grace (take SCAN_LIMIT (candidates (dp_scheduler d))) [])"

definition dispatch_release :: "'a dispatcher \<Rightarrow> nat \<Rightarrow> 'a dispatcher \<times> bool" where
  "dispatch_release d i =
     (case map_of (dp_running d) i of
        None \<Rightarrow> (d, False)
      | Some a \<Rightarrow>
          (d\<lparr>dp_running := AList.delete i (dp_running d),
             dp_workers := (dp_workers d)[ac_worker a := worker_release (dp_workers d ! ac_worker a) (ac_placement a)]\<rparr>, True))"

definition learn :: "'a dispatcher \<Rightarrow> nat \<Rightarrow> instant \<Rightarrow> real option" where
  "learn d i now =
     (case map_of (dp_running d) i of
        Some a \<Rightarrow>
          if dp_adaptive d \<noteq> None \<and> is_floor_provisioned d a \<and> ac_wu a > 0
          then let secs = as_secs_f64 (saturating_duration_since now (ac_started a));
                   seen = secs / ac_wu a
               in Some (case dp_slot_secs_per_wu d of Some p \<Rightarrow> p + LEARN * (seen - p) | None \<Rightarrow> seen)
          else dp_slot_secs_per_wu d
      | None \<Rightarrow> dp_slot_secs_per_wu d)"

definition finish :: "'a dispatcher \<Rightarrow> nat \<Rightarrow> instant \<Rightarrow> 'a dispatcher \<times> bool" where
  "finish d i now =
     (case dispatch_release (d\<lparr>dp_slot_secs_per_wu := learn d i now\<rparr>) i of
        (d, released) \<Rightarrow> (track_peak d now, released))"

definition cancel :: "'a dispatcher \<Rightarrow> nat \<Rightarrow> 'a dispatcher \<times> bool" where
  "cancel d i = (case sched_remove (dp_scheduler d) i of (s, r) \<Rightarrow> (d\<lparr>dp_scheduler := s\<rparr>, r \<noteq> None))"

section \<open>Changes of the worker set\<close>

record worker_spec =
  sp_id :: string
  sp_url :: string
  sp_slots :: nat
  sp_kv_blocks :: nat
  sp_hot_spare :: bool

record worker_changes =
  ch_added :: "string list"
  ch_retired :: "string list"
  ch_spare_changed :: "string list"

definition worker_changes_empty :: "worker_changes \<Rightarrow> bool" where
  "worker_changes_empty c \<longleftrightarrow> ch_added c = [] \<and> ch_retired c = [] \<and> ch_spare_changed c = []"

definition wanted_by_id :: "worker_spec list \<Rightarrow> string \<Rightarrow> worker_spec option" where
  "wanted_by_id want = map_of (rev (map (\<lambda>s. (sp_id s, s)) want))"

definition refresh_worker :: "(string \<Rightarrow> worker_spec option) \<Rightarrow> worker \<Rightarrow> worker" where
  "refresh_worker wanted w =
     (case wanted (wk_id w) of
        Some spec \<Rightarrow> w\<lparr>wk_retired := False, wk_hot_spare := sp_hot_spare spec, wk_url := sp_url spec,
                       wk_slots := sp_slots spec, wk_kv_blocks := sp_kv_blocks spec\<rparr>
      | None \<Rightarrow> w\<lparr>wk_retired := True\<rparr>)"

fun refresh_changes :: "(string \<Rightarrow> worker_spec option) \<Rightarrow> worker list \<Rightarrow> worker_changes \<Rightarrow> worker_changes" where
  "refresh_changes wanted [] c = c"
| "refresh_changes wanted (w # ws) c =
     refresh_changes wanted ws
       (case wanted (wk_id w) of
          Some spec \<Rightarrow>
            if wk_retired w then c\<lparr>ch_added := ch_added c @ [wk_id w]\<rparr>
            else if wk_hot_spare w \<noteq> sp_hot_spare spec then c\<lparr>ch_spare_changed := ch_spare_changed c @ [wk_id w]\<rparr>
            else c
        | None \<Rightarrow> if \<not> wk_retired w then c\<lparr>ch_retired := ch_retired c @ [wk_id w]\<rparr> else c)"

definition add_worker :: "(string \<Rightarrow> worker_spec option) \<Rightarrow> worker_spec \<Rightarrow> 'a dispatcher \<Rightarrow> 'a dispatcher" where
  "add_worker wanted spec d =
     (let fresh = with_hot_spare (worker_new (sp_id spec) (sp_url spec) (sp_slots spec) (sp_kv_blocks spec)) (sp_hot_spare spec)
      in case position (\<lambda>w. wk_retired w \<and> wk_slots_used w = 0 \<and> wanted (wk_id w) = None) (dp_workers d) of
           Some i \<Rightarrow>
             d\<lparr>dp_index := px_forget (dp_index d) i,
               dp_sessions := (\<lambda>s. case dp_sessions d s of Some w \<Rightarrow> if w \<noteq> i then Some w else None | None \<Rightarrow> None),
               dp_workers := (dp_workers d)[i := fresh]\<rparr>
         | None \<Rightarrow> d\<lparr>dp_workers := dp_workers d @ [fresh]\<rparr>)"

fun add_workers ::
  "(string \<Rightarrow> worker_spec option) \<Rightarrow> worker_spec list \<Rightarrow> 'a dispatcher \<Rightarrow> worker_changes \<Rightarrow> 'a dispatcher \<times> worker_changes" where
  "add_workers wanted [] d c = (d, c)"
| "add_workers wanted (spec # specs) d c =
     (if list_ex (\<lambda>w. wk_id w = sp_id spec) (dp_workers d) then add_workers wanted specs d c
      else add_workers wanted specs (add_worker wanted spec d) (c\<lparr>ch_added := ch_added c @ [sp_id spec]\<rparr>))"

definition set_workers :: "'a dispatcher \<Rightarrow> worker_spec list \<Rightarrow> 'a dispatcher \<times> worker_changes" where
  "set_workers d want =
     (let wanted = wanted_by_id want;
          c = refresh_changes wanted (dp_workers d) \<lparr>ch_added = [], ch_retired = [], ch_spare_changed = []\<rparr>
      in add_workers wanted want (d\<lparr>dp_workers := map (refresh_worker wanted) (dp_workers d)\<rparr>) c)"

definition dispatch_status_of :: "'a dispatcher \<Rightarrow> instant \<Rightarrow> dispatch_status" where
  "dispatch_status_of d now =
     \<lparr>ds_queued = \<lparr>cc_provisioned = len_of (dp_scheduler d) Provisioned, cc_burst = len_of (dp_scheduler d) Burst,
                   cc_spillover = len_of (dp_scheduler d) Spillover, cc_payg = len_of (dp_scheduler d) Payg\<rparr>,
      ds_dispatched = dp_dispatched d, ds_preempted = dp_preempted d, ds_failover_active = failover_active d now,
      ds_backfill_ratio = backfill_ratio d, ds_expected_provisioned_slots = expected_slots d,
      ds_peak_provisioned_slots = dp_peak d, ds_workers = dp_workers d\<rparr>"

section \<open>Accounting invariant\<close>

text \<open>What the running requests on a worker, or of a reservation there, use together.\<close>

definition usage :: "(nat \<Rightarrow> placement \<Rightarrow> bool) \<Rightarrow> (placement \<Rightarrow> nat) \<Rightarrow> (nat \<times> active) list \<Rightarrow> nat" where
  "usage P f rs = (\<Sum>(k, a)\<leftarrow>rs. if P (ac_worker a) (ac_placement a) then f (ac_placement a) else 0)"

definition held_by :: "worker \<Rightarrow> string \<Rightarrow> nat" where
  "held_by w r = (case map_of (wk_kv_by_reservation w) r of Some h \<Rightarrow> h | None \<Rightarrow> 0)"

definition worker_counts :: "nat \<Rightarrow> (nat \<times> active) list \<Rightarrow> worker \<Rightarrow> bool" where
  "worker_counts i rs w \<longleftrightarrow>
     wk_slots_used w = usage (\<lambda>j p. j = i) (\<lambda>_. 1) rs
   \<and> wk_kv_used w = usage (\<lambda>j p. j = i) pl_kv_blocks rs
   \<and> wk_backfill_slots w = usage (\<lambda>j p. j = i \<and> is_backfill p) (\<lambda>_. 1) rs
   \<and> wk_backfill_kv w = usage (\<lambda>j p. j = i \<and> is_backfill p) pl_kv_blocks rs
   \<and> (\<forall>r. held_by w r = usage (\<lambda>j p. j = i \<and> pl_reservation p = r) pl_kv_blocks rs)"

definition ids_ok :: "'a dispatcher \<Rightarrow> bool" where
  "ids_ok d \<longleftrightarrow>
     distinct (map fst (dp_running d)) \<and> (\<forall>k\<in>fst ` set (dp_running d). k < dp_next_id d)
   \<and> (\<forall>q\<in>#contents (dp_scheduler d). q_id q < dp_next_id d \<and> q_id q \<notin> fst ` set (dp_running d))
   \<and> (\<forall>i. count (image_mset q_id (contents (dp_scheduler d))) i \<le> 1)"

definition disp_inv :: "'a dispatcher \<Rightarrow> bool" where
  "disp_inv d \<longleftrightarrow>
     sched_ok (dp_scheduler d) \<and> ids_ok d
   \<and> (\<forall>(k, a)\<in>set (dp_running d). ac_worker a < length (dp_workers d))
   \<and> (\<forall>i<length (dp_workers d). worker_counts i (dp_running d) (dp_workers d ! i) \<and> worker_sane (dp_workers d ! i))"

lemma usage_Nil [simp]: "usage P f [] = 0"
  by (simp add: usage_def)

lemma usage_Cons [simp]:
  "usage P f ((k, a) # rs) = (if P (ac_worker a) (ac_placement a) then f (ac_placement a) else 0) + usage P f rs"
  by (simp add: usage_def)

lemma usage_insert:
  "k \<notin> fst ` set rs \<Longrightarrow>
   usage P f (AList.update k a rs) = usage P f rs + (if P (ac_worker a) (ac_placement a) then f (ac_placement a) else 0)"
  by (induction rs) auto

lemma usage_delete:
  "distinct (map fst rs) \<Longrightarrow> map_of rs k = Some a \<Longrightarrow>
   usage P f rs = usage P f (AList.delete k rs) + (if P (ac_worker a) (ac_placement a) then f (ac_placement a) else 0)"
  by (induction rs) (auto split: if_splits)

lemma usage_same:
  "ac_worker a = ac_worker b \<Longrightarrow> ac_placement a = ac_placement b \<Longrightarrow> map_of rs k = Some b \<Longrightarrow>
   usage P f (AList.update k a rs) = usage P f rs"
  by (induction rs) auto

lemma usage_mono: "(\<And>j p. P j p \<Longrightarrow> Q j p) \<Longrightarrow> usage P f rs \<le> usage Q f rs"
  by (induction rs) (auto intro: add_mono)

lemma usage_zero: "(\<forall>(k, a)\<in>set rs. \<not> P (ac_worker a) (ac_placement a)) \<Longrightarrow> usage P f rs = 0"
  by (induction rs) auto

lemma usage_one_zero: "usage P (\<lambda>_. 1) rs = 0 \<longleftrightarrow> (\<forall>(k, a)\<in>set rs. \<not> P (ac_worker a) (ac_placement a))"
  by (induction rs) auto

text \<open>Reserving on a worker that has room, and releasing, keep its counts.\<close>

lemma held_by_update:
  "held_by (w\<lparr>wk_kv_by_reservation := AList.update k v (wk_kv_by_reservation w)\<rparr>) r = (if r = k then v else held_by w r)"
  by (simp add: held_by_def update_conv')

lemma worker_reserve_counts:
  assumes c: "worker_counts i rs w" and fresh: "k \<notin> fst ` set rs" and a: "ac_worker a = i" "ac_placement a = p"
    and fit: "wk_slots_used w < wk_slots w" "wk_kv_used w + pl_kv_blocks p \<le> wk_kv_blocks w" and sane: "worker_sane w"
  shows "worker_counts i (AList.update k a rs) (worker_reserve w p)" and "worker_sane (worker_reserve w p)"
    and "wk_slots_used (worker_reserve w p) \<le> wk_slots w" and "wk_kv_used (worker_reserve w p) \<le> wk_kv_blocks w"
    and "wk_backfill_slots (worker_reserve w p) = wk_backfill_slots w + (if is_backfill p then 1 else 0)"
proof -
  have le: "wk_backfill_slots w \<le> wk_slots_used w" "wk_backfill_kv w \<le> wk_kv_used w" "held_by w r \<le> wk_kv_used w" for r
    using c usage_mono[of "\<lambda>j p. j = i \<and> is_backfill p" "\<lambda>j p. j = i"]
      usage_mono[of "\<lambda>j p. j = i \<and> pl_reservation p = r" "\<lambda>j p. j = i"] by (auto simp: worker_counts_def)
  have b: "wk_slots_used w + 1 < 4294967296" "wk_kv_used w + pl_kv_blocks p < 4294967296"
    using fit sane by (auto simp: worker_sane_def)
  have ex: "u32_add (wk_slots_used w) 1 = wk_slots_used w + 1"
    "u32_add (wk_kv_used w) (pl_kv_blocks p) = wk_kv_used w + pl_kv_blocks p"
    "u32_add (wk_backfill_slots w) 1 = wk_backfill_slots w + 1"
    "u32_add (wk_backfill_kv w) (pl_kv_blocks p) = wk_backfill_kv w + pl_kv_blocks p"
    "u32_add (held_by w (pl_reservation p)) (pl_kv_blocks p) = held_by w (pl_reservation p) + pl_kv_blocks p"
    using b le(1,2) le(3)[of "pl_reservation p"] by (simp_all add: u32_add_def)
  define w1 where "w1 = w\<lparr>wk_slots_used := wk_slots_used w + 1, wk_kv_used := wk_kv_used w + pl_kv_blocks p,
     wk_backfill_slots := wk_backfill_slots w + (if is_backfill p then 1 else 0),
     wk_backfill_kv := wk_backfill_kv w + (if is_backfill p then pl_kv_blocks p else 0)\<rparr>"
  have wr: "worker_reserve w p = w1\<lparr>wk_kv_by_reservation :=
      AList.update (pl_reservation p) (held_by w (pl_reservation p) + pl_kv_blocks p) (wk_kv_by_reservation w1)\<rparr>"
    using ex by (simp add: worker_reserve_def w1_def Let_def held_by_def)
  have h: "held_by (worker_reserve w p) r = held_by w r + (if pl_reservation p = r then pl_kv_blocks p else 0)" for r
    unfolding wr held_by_update by (simp add: held_by_def w1_def)
  show "worker_counts i (AList.update k a rs) (worker_reserve w p)"
    using c h unfolding worker_counts_def usage_insert[OF fresh] by (simp add: wr w1_def a)
  show "worker_sane (worker_reserve w p)" "wk_slots_used (worker_reserve w p) \<le> wk_slots w"
    "wk_kv_used (worker_reserve w p) \<le> wk_kv_blocks w"
    "wk_backfill_slots (worker_reserve w p) = wk_backfill_slots w + (if is_backfill p then 1 else 0)"
    using fit sane by (auto simp: wr w1_def worker_sane_def)
qed

lemma worker_counts_other:
  "worker_counts i rs w \<Longrightarrow> k \<notin> fst ` set rs \<Longrightarrow> ac_worker a \<noteq> i \<Longrightarrow> worker_counts i (AList.update k a rs) w"
  by (simp add: worker_counts_def usage_insert)

lemma worker_release_counts:
  assumes c: "worker_counts i rs w" and d: "distinct (map fst rs)" and k: "map_of rs k = Some a"
    and a: "ac_worker a = i" "ac_placement a = p"
  shows "worker_counts i (AList.delete k rs) (worker_release w p)"
proof -
  note u = usage_delete[OF d k, unfolded a]
  have h: "held_by (worker_release w p) r = held_by w r - (if r = pl_reservation p then pl_kv_blocks p else 0)" for r
    by (auto simp: worker_release_def Let_def held_by_def delete_conv' update_conv' split: option.splits)
  show ?thesis
    using c u h unfolding worker_counts_def
    by (auto simp: worker_release_def Let_def split: option.splits)
qed

text \<open>Bookkeeping that the invariant does not depend on.\<close>

lemma track_peak_simps [simp]:
  "dp_scheduler (track_peak d now) = dp_scheduler d" "dp_running (track_peak d now) = dp_running d"
  "dp_workers (track_peak d now) = dp_workers d" "dp_next_id (track_peak d now) = dp_next_id d"
  "dp_allocations (track_peak d now) = dp_allocations d" "dp_weights (track_peak d now) = dp_weights d"
  "dp_index (track_peak d now) = dp_index d" "dp_sessions (track_peak d now) = dp_sessions d"
  "dp_failover_until (track_peak d now) = dp_failover_until d"
  by (simp_all add: track_peak_def Let_def split: option.splits)

lemma dispatch_assign_simps [simp]:
  "dp_scheduler (fst (dispatch_assign d now s q w)) = s"
  "dp_running (fst (dispatch_assign d now s q w)) = AList.update (q_id q)
     \<lparr>ac_worker = w, ac_placement = fst (q_payload q), ac_seq = dp_seq d + 1, ac_preempting = False, ac_wu = q_wu q,
      ac_started = now\<rparr> (dp_running d)"
  "dp_workers (fst (dispatch_assign d now s q w))
     = (dp_workers d)[w := worker_reserve (dp_workers d ! w) (fst (q_payload q))]"
  "dp_next_id (fst (dispatch_assign d now s q w)) = dp_next_id d"
  "dp_allocations (fst (dispatch_assign d now s q w)) = dp_allocations d"
  "dp_weights (fst (dispatch_assign d now s q w)) = dp_weights d"
  "as_id (snd (dispatch_assign d now s q w)) = q_id q" "as_worker (snd (dispatch_assign d now s q w)) = w"
  "as_placement (snd (dispatch_assign d now s q w)) = fst (q_payload q)"
  by (simp_all add: dispatch_assign_def dispatch_reserve_def Let_def split: prod.splits)

lemma worker_reserve_static [simp]:
  "wk_slots (worker_reserve w p) = wk_slots w" "wk_kv_blocks (worker_reserve w p) = wk_kv_blocks w"
  "wk_hot_spare (worker_reserve w p) = wk_hot_spare w" "wk_retired (worker_reserve w p) = wk_retired w"
  "wk_id (worker_reserve w p) = wk_id w"
  by (simp_all add: worker_reserve_def Let_def)

text \<open>One round: the request and the worker it found.\<close>

lemma first_placed_Some:
  "first_placed d fence hs = Some (h, w) \<Longrightarrow> h \<in> set hs \<and> placeable d fence h = Some w"
  by (induction hs) (auto split: option.splits)

lemma first_placed_None: "first_placed d fence hs = None \<longleftrightarrow> (\<forall>h\<in>set hs. placeable d fence h = None)"
  by (induction hs) (auto split: option.splits)

lemma dispatch_find_Some:
  assumes "dispatch_find d fence = Some (h, w)"
  obtains q s where "sched_take (dp_scheduler d) h = (s, Some q)"
    and "select (dp_workers d) (dp_allocations d) (dp_index d) (dp_sessions d) (dp_weights d) (fst (q_payload q)) fence = Inr w"
proof -
  have pl: "placeable d fence h = Some w" using assms first_placed_Some by (fastforce simp: dispatch_find_def)
  then obtain q where q: "peek (dp_scheduler d) h = Some q"
    "select (dp_workers d) (dp_allocations d) (dp_index d) (dp_sessions d) (dp_weights d) (fst (q_payload q)) fence = Inr w"
    by (auto simp: placeable_def split: option.splits sum.splits)
  from q(1) obtain s where "sched_take (dp_scheduler d) h = (s, Some q)"
    by (auto simp: peek_def sched_take_def Let_def split: option.splits list.splits if_splits)
  then show thesis using q(2) that by blast
qed

lemma ids_ok_take:
  assumes ids: "ids_ok d" and c: "contents s + {#q#} = contents (dp_scheduler d)"
  shows "q_id q \<notin> fst ` set (dp_running d)" and "q_id q < dp_next_id d"
    and "q' \<in># contents s \<Longrightarrow> q_id q' \<noteq> q_id q \<and> q_id q' < dp_next_id d \<and> q_id q' \<notin> fst ` set (dp_running d)"
    and "count (image_mset q_id (contents s)) i \<le> 1"
proof -
  have q: "q \<in># contents (dp_scheduler d)" and sub: "\<And>x. x \<in># contents s \<Longrightarrow> x \<in># contents (dp_scheduler d)"
    unfolding c[symmetric] by simp_all
  show "q_id q \<notin> fst ` set (dp_running d)" "q_id q < dp_next_id d" using ids q by (auto simp: ids_ok_def)
  have cnt: "count (image_mset q_id (contents s)) j + (if j = q_id q then 1 else 0) \<le> 1" for j
  proof -
    have "count (image_mset q_id (contents (dp_scheduler d))) j \<le> 1" using ids by (simp add: ids_ok_def)
    then show ?thesis unfolding c[symmetric] by (auto split: if_splits)
  qed
  show "count (image_mset q_id (contents s)) i \<le> 1" using cnt[of i] by simp
  assume q': "q' \<in># contents s"
  then have "q_id q' \<in># image_mset q_id (contents s)" by simp
  then have pos: "0 < count (image_mset q_id (contents s)) (q_id q')" by (simp only: count_greater_zero_iff)
  have "q_id q' \<noteq> q_id q"
  proof
    assume e: "q_id q' = q_id q"
    have "count (image_mset q_id (contents s)) (q_id q') + 1 \<le> 1" using cnt[of "q_id q'"] by (simp only: e if_True simp_thms)
    then show False using pos by linarith
  qed
  then show "q_id q' \<noteq> q_id q \<and> q_id q' < dp_next_id d \<and> q_id q' \<notin> fst ` set (dp_running d)"
    using ids sub[OF q'] by (auto simp: ids_ok_def)
qed

lemma fst_set_alist_update: "fst ` set (AList.update k v xs) = insert k (fst ` set xs)"
  by (induction xs) auto

lemma dispatch_assign_inv:
  assumes inv: "disp_inv d" and t: "sched_take (dp_scheduler d) h = (s, Some q)"
    and sel: "select (dp_workers d) (dp_allocations d) (dp_index d) (dp_sessions d) (dp_weights d) (fst (q_payload q)) fence = Inr w"
  shows "disp_inv (fst (dispatch_assign d now s q w))"
proof -
  let ?d = "fst (dispatch_assign d now s q w)"
  let ?a = "\<lparr>ac_worker = w, ac_placement = fst (q_payload q), ac_seq = dp_seq d + 1, ac_preempting = False, ac_wu = q_wu q, ac_started = now\<rparr>"
  have sok: "sched_ok (dp_scheduler d)" and ids: "ids_ok d" using inv by (auto simp: disp_inv_def)
  note tk = take_some_ok[OF sok t]
  note i = ids_ok_take[OF ids tk(2)]
  have san: "\<forall>x\<in>set (dp_workers d). worker_sane x" using inv by (auto simp: disp_inv_def in_set_conv_nth)
  have w: "w < length (dp_workers d)" by (rule select_Inr(1)[OF sel])
  note fit = selected_worker_fits[OF sel san]
  have "worker_counts j (dp_running ?d) (dp_workers ?d ! j) \<and> worker_sane (dp_workers ?d ! j)"
    if "j < length (dp_workers d)" for j
  proof -
    have c: "worker_counts j (dp_running d) (dp_workers d ! j)" "worker_sane (dp_workers d ! j)"
      using inv that by (auto simp: disp_inv_def)
    show ?thesis
    proof (cases "j = w")
      case True
      then show ?thesis using worker_reserve_counts(1,2)[OF _ i(1) _ _ fit, where a = ?a] c w by simp
    next
      case False
      then show ?thesis using worker_counts_other[OF c(1) i(1)] c(2) by simp
    qed
  qed
  moreover have "ids_ok ?d"
    using ids i(2-4) unfolding ids_ok_def by (auto simp: distinct_update fst_set_alist_update)
  moreover have "ac_worker a < length (dp_workers d)" if "(k, a) \<in> set (dp_running ?d)" for k a
    using that in_alist_update[of "dp_running d" k a "q_id q" ?a] w inv ids by (auto simp: disp_inv_def ids_ok_def)
  ultimately show ?thesis using tk(1) by (auto simp: disp_inv_def)
qed

section \<open>Dispatching never overcommits\<close>

text \<open>How a worker may change while requests are placed on it.\<close>

definition grown :: "real \<Rightarrow> worker \<Rightarrow> worker \<Rightarrow> bool" where
  "grown ratio w w' \<longleftrightarrow>
     wk_slots w' = wk_slots w \<and> wk_kv_blocks w' = wk_kv_blocks w \<and> wk_hot_spare w' = wk_hot_spare w
   \<and> wk_retired w' = wk_retired w \<and> wk_id w' = wk_id w
   \<and> wk_slots_used w \<le> wk_slots_used w' \<and> wk_slots_used w' \<le> max (wk_slots_used w) (wk_slots w)
   \<and> wk_kv_used w' \<le> max (wk_kv_used w) (wk_kv_blocks w)
   \<and> (\<not> wk_hot_spare w \<longrightarrow>
        wk_backfill_slots w' \<le> max (wk_backfill_slots w) (f64_as_u32 (of_int \<lfloor>ratio * real (wk_slots w)\<rfloor>)))
   \<and> (wk_retired w \<longrightarrow> w' = w)"

lemma grown_refl [simp]: "grown ratio w w"
  by (simp add: grown_def)

lemma grown_trans: "grown ratio a b \<Longrightarrow> grown ratio b c \<Longrightarrow> grown ratio a c"
  unfolding grown_def by (auto simp: max_def split: if_splits)

text \<open>An assignment respects the placement rules that were in force.\<close>

definition assignment_ok :: "bool \<Rightarrow> allocations \<Rightarrow> worker list \<Rightarrow> 'a assignment \<Rightarrow> bool" where
  "assignment_ok fence allocs workers x \<longleftrightarrow>
     as_worker x < length workers \<and> \<not> wk_retired (workers ! as_worker x)
   \<and> eligible_worker allocs (as_placement x) (workers ! as_worker x)
   \<and> \<not> (fence \<and> pl_class (as_placement x) = Payg \<and> wk_hot_spare (workers ! as_worker x))"

lemma eligible_worker_cong:
  "wk_id w = wk_id w' \<Longrightarrow> wk_retired w = wk_retired w' \<Longrightarrow> eligible_worker allocs p w = eligible_worker allocs p w'"
  by (simp add: eligible_worker_def cong: option.case_cong)

lemma assignment_ok_grown:
  assumes "assignment_ok fence allocs workers' x" and "list_all2 (grown ratio) workers workers'"
  shows "assignment_ok fence allocs workers x"
proof -
  have i: "as_worker x < length workers" using assms by (auto simp: assignment_ok_def list_all2_lengthD)
  then have "grown ratio (workers ! as_worker x) (workers' ! as_worker x)" using assms(2) list_all2_nthD by blast
  then show ?thesis
    using assms(1) i eligible_worker_cong[of "workers ! as_worker x" "workers' ! as_worker x" allocs "as_placement x"]
    by (simp add: assignment_ok_def grown_def)
qed

lemma dispatch_assign_grown:
  assumes inv: "disp_inv d" and t: "sched_take (dp_scheduler d) h = (s, Some q)"
    and sel: "select (dp_workers d) (dp_allocations d) (dp_index d) (dp_sessions d) (dp_weights d) (fst (q_payload q)) fence = Inr w"
  shows "list_all2 (grown (ws_backfill_ratio (dp_weights d))) (dp_workers d) (dp_workers (fst (dispatch_assign d now s q w)))"
    and "assignment_ok fence (dp_allocations d) (dp_workers d) (snd (dispatch_assign d now s q w))"
proof -
  let ?w = "dp_workers d ! w" and ?p = "fst (q_payload q)" and ?r = "ws_backfill_ratio (dp_weights d)"
  have san: "\<forall>x\<in>set (dp_workers d). worker_sane x" using inv by (auto simp: disp_inv_def in_set_conv_nth)
  note s = select_Inr[OF sel] and fit = selected_worker_fits[OF sel san]
  have use: "open_for (dp_weights d) ?p fence ?w" using s(3) by (simp add: usable_def)
  have nr: "\<not> wk_retired ?w" using s(2) by (auto simp: eligible_worker_def Let_def)
  have c: "worker_counts w (dp_running d) ?w" "worker_sane ?w" using inv s(1) by (auto simp: disp_inv_def)
  have ids: "q_id q \<notin> fst ` set (dp_running d)"
    using inv take_some_ok(2)[OF _ t] ids_ok_take(1) by (auto simp: disp_inv_def)
  note wr = worker_reserve_counts[OF c(1) ids _ _ fit c(2), where a = "\<lparr>ac_worker = w, ac_placement = ?p, ac_seq = 0, ac_preempting = False, ac_wu = 0, ac_started = 0\<rparr>"]
  have su: "wk_slots_used ?w \<le> wk_slots_used (worker_reserve ?w ?p)"
    using fit(1) c(2) by (simp add: worker_reserve_def Let_def u32_add_def worker_sane_def)
  have "is_backfill ?p \<longrightarrow> \<not> wk_hot_spare ?w \<longrightarrow> wk_backfill_slots ?w < f64_as_u32 (of_int \<lfloor>?r * real (wk_slots ?w)\<rfloor>)"
    using use by (auto simp: open_for_def backfill_fits_def Let_def)
  then have "grown ?r ?w (worker_reserve ?w ?p)"
    using wr(3,4,5) su nr by (auto simp: grown_def)
  then have "grown ?r (dp_workers d ! j) ((dp_workers d)[w := worker_reserve ?w ?p] ! j)" if "j < length (dp_workers d)" for j
    using that by (cases "j = w") simp_all
  then show "list_all2 (grown ?r) (dp_workers d) (dp_workers (fst (dispatch_assign d now s q w)))"
    by (simp add: list_all2_conv_all_nth)
  show "assignment_ok fence (dp_allocations d) (dp_workers d) (snd (dispatch_assign d now s q w))"
    using s(1,2) nr use by (simp add: assignment_ok_def open_for_def)
qed

lemma grown_trans_list:
  "list_all2 (grown r) xs ys \<Longrightarrow> list_all2 (grown r) ys zs \<Longrightarrow> list_all2 (grown r) xs zs"
  by (rule list_all2_trans[OF grown_trans])

lemma dispatch_loop_spec:
  assumes "disp_inv d"
  shows "\<exists>d' new. dispatch_loop d fence now out = Some (d', out @ new) \<and> disp_inv d'
    \<and> list_all2 (grown (ws_backfill_ratio (dp_weights d))) (dp_workers d) (dp_workers d')
    \<and> (\<forall>x\<in>set new. assignment_ok fence (dp_allocations d) (dp_workers d) x)
    \<and> image_mset q_id (contents (dp_scheduler d)) = image_mset q_id (contents (dp_scheduler d')) + mset (map as_id new)
    \<and> fst ` set (dp_running d') = fst ` set (dp_running d) \<union> set (map as_id new)
    \<and> dispatch_find d' fence = None"
  using assms
proof (induction d fence now out rule: dispatch_loop.induct)
  case (1 d fence now out)
  show ?case
  proof (cases "dispatch_find d fence")
    case None
    then show ?thesis
      using 1(2) by (intro exI[of _ d] exI[of _ "[]"]) (simp add: dispatch_loop.simps[of d] list_all2_refl)
  next
    case (Some hw)
    obtain h w where hw: "hw = (h, w)" by (cases hw)
    obtain q s where qs: "sched_take (dp_scheduler d) h = (s, Some q)"
      "select (dp_workers d) (dp_allocations d) (dp_index d) (dp_sessions d) (dp_weights d) (fst (q_payload q)) fence = Inr w"
      using dispatch_find_Some[OF Some[unfolded hw]] .
    let ?r = "dispatch_assign d now s q w"
    have inv': "disp_inv (fst ?r)" by (rule dispatch_assign_inv[OF 1(2) qs])
    have eq: "dispatch_loop d fence now out = dispatch_loop (fst ?r) fence now (out @ [snd ?r])"
      using Some hw qs(1) by (subst dispatch_loop.simps) (simp add: Let_def)
    obtain d' new where IH: "dispatch_loop (fst ?r) fence now (out @ [snd ?r]) = Some (d', (out @ [snd ?r]) @ new)"
      "disp_inv d'" "list_all2 (grown (ws_backfill_ratio (dp_weights d))) (dp_workers (fst ?r)) (dp_workers d')"
      "\<forall>x\<in>set new. assignment_ok fence (dp_allocations d) (dp_workers (fst ?r)) x"
      "image_mset q_id (contents s) = image_mset q_id (contents (dp_scheduler d')) + mset (map as_id new)"
      "fst ` set (dp_running d') = fst ` set (dp_running (fst ?r)) \<union> set (map as_id new)"
      "dispatch_find d' fence = None"
      using 1(1)[OF Some hw[symmetric] qs(1)[symmetric] refl refl inv'] by auto
    note g = dispatch_assign_grown[OF 1(2) qs]
    have sok: "sched_ok (dp_scheduler d)" using 1(2) by (simp add: disp_inv_def)
    have c: "contents s + {#q#} = contents (dp_scheduler d)" by (rule take_some_ok(2)[OF sok qs(1)])
    have "list_all2 (grown (ws_backfill_ratio (dp_weights d))) (dp_workers d) (dp_workers d')"
      using grown_trans_list g(1) IH(3) by blast
    moreover have "\<forall>x\<in>set (snd ?r # new). assignment_ok fence (dp_allocations d) (dp_workers d) x"
      using g IH(4) assignment_ok_grown by fastforce
    moreover have "image_mset q_id (contents (dp_scheduler d))
        = image_mset q_id (contents (dp_scheduler d')) + mset (map as_id (snd ?r # new))"
      unfolding c[symmetric] using IH(5) by simp
    moreover have "fst ` set (dp_running d') = fst ` set (dp_running d) \<union> set (map as_id (snd ?r # new))"
      using IH(6) by (auto simp: fst_set_alist_update)
    ultimately show ?thesis
      using eq IH(1,2,7) by (intro exI[of _ d'] exI[of _ "snd ?r # new"]) simp
  qed
qed

section \<open>Every operation keeps the accounts\<close>

lemma enqueue_inv:
  assumes inv: "disp_inv d"
  shows "disp_inv (fst (dispatch_enqueue d p wu fw now deadline payload))"
proof (cases "feasible (dp_workers d) (dp_allocations d) p")
  case (Inl e)
  then show ?thesis using inv by (simp add: dispatch_enqueue_def)
next
  case (Inr u)
  obtain it where it: "it_id it = dp_next_id d"
    and d': "fst (dispatch_enqueue d p wu fw now deadline payload)
      = d\<lparr>dp_next_id := dp_next_id d + 1, dp_scheduler := sched_enqueue (dp_scheduler d) it\<rparr>"
    using Inr by (force simp: dispatch_enqueue_def Let_def)
  have sok: "sched_ok (dp_scheduler d)" and ids: "ids_ok d" using inv by (auto simp: disp_inv_def)
  note e = enqueue_ok[OF sok, of it]
  have q: "q_id (queued_of (dp_scheduler d) it) = dp_next_id d" by (simp add: queued_of_def it)
  have cnt: "count (image_mset q_id (contents (dp_scheduler d))) (dp_next_id d) = 0"
    using ids by (auto simp: ids_ok_def count_eq_zero_iff)
  have "ids_ok (d\<lparr>dp_next_id := dp_next_id d + 1, dp_scheduler := sched_enqueue (dp_scheduler d) it\<rparr>)"
    using ids cnt q by (auto simp: ids_ok_def e(2) less_Suc_eq)
  then show ?thesis using inv e(1) unfolding d' by (simp add: disp_inv_def)
qed

lemma ids_okD:
  assumes "ids_ok d"
  shows "k \<in> fst ` set (dp_running d) \<Longrightarrow> k < dp_next_id d"
    and "q \<in># contents (dp_scheduler d) \<Longrightarrow> q_id q < dp_next_id d"
    and "q \<in># contents (dp_scheduler d) \<Longrightarrow> q_id q \<notin> fst ` set (dp_running d)"
    and "count (image_mset q_id (contents (dp_scheduler d))) i \<le> 1"
  using assms unfolding ids_ok_def by auto

lemma shrink_ids_ok:
  assumes "ids_ok d" and "contents s \<subseteq># contents (dp_scheduler d)" and "fst ` set rs \<subseteq> fst ` set (dp_running d)"
    and "distinct (map fst rs)"
  shows "ids_ok (d\<lparr>dp_scheduler := s, dp_running := rs\<rparr>)"
proof -
  have "count (image_mset q_id (contents s)) i \<le> count (image_mset q_id (contents (dp_scheduler d))) i" for i
    by (rule mset_subset_eq_count[OF image_mset_subseteq_mono[OF assms(2)]])
  then have "count (image_mset q_id (contents s)) i \<le> 1" for i
    using ids_okD(4)[OF assms(1)] by (rule order_trans)
  moreover have "k \<in> fst ` set rs \<Longrightarrow> k < dp_next_id d" for k
    by (rule ids_okD(1)[OF assms(1) subsetD[OF assms(3)]])
  moreover have "q_id q < dp_next_id d" "q_id q \<notin> fst ` set rs" if "q \<in># contents s" for q
    using ids_okD(2,3)[OF assms(1) mset_subset_eqD[OF assms(2) that]] subsetD[OF assms(3), of "q_id q"] by metis+
  ultimately show ?thesis using assms(4) by (simp add: ids_ok_def)
qed

lemma cancel_inv:
  assumes inv: "disp_inv d"
  shows "disp_inv (fst (cancel d i))"
proof -
  have sok: "sched_ok (dp_scheduler d)" and ids: "ids_ok d" using inv by (auto simp: disp_inv_def)
  obtain s r where sr: "remove_classes i CLASSES (dp_scheduler d) = (s, r)" by fastforce
  note rc = remove_classes_spec[OF sok sr]
  have "contents s \<subseteq># contents (dp_scheduler d)"
  proof (cases r)
    case None
    then show ?thesis using rc by simp
  next
    case (Some q)
    then show ?thesis using rc mset_subset_eq_add_left[of "contents s" "{#q#}"] by simp
  qed
  then have "ids_ok (d\<lparr>dp_scheduler := s, dp_running := dp_running d\<rparr>)"
    using ids by (intro shrink_ids_ok) (auto simp: ids_ok_def)
  then show ?thesis using inv rc sr by (simp add: cancel_def sched_remove_def disp_inv_def)
qed

lemma release_inv:
  assumes inv: "disp_inv d"
  shows "disp_inv (fst (dispatch_release d i))"
proof (cases "map_of (dp_running d) i")
  case None
  then show ?thesis using inv by (simp add: dispatch_release_def)
next
  case (Some a)
  let ?rs = "AList.delete i (dp_running d)"
  let ?ws = "(dp_workers d)[ac_worker a := worker_release (dp_workers d ! ac_worker a) (ac_placement a)]"
  have ids: "ids_ok d" and dist: "distinct (map fst (dp_running d))" using inv by (auto simp: disp_inv_def ids_ok_def)
  have sub: "set ?rs \<subseteq> set (dp_running d)" by (auto simp: AList.delete_eq)
  have aw: "ac_worker a < length (dp_workers d)" using inv map_of_SomeD[OF Some] by (auto simp: disp_inv_def)
  have "worker_counts j ?rs (?ws ! j) \<and> worker_sane (?ws ! j)" if j: "j < length (dp_workers d)" for j
  proof -
    have c: "worker_counts j (dp_running d) (dp_workers d ! j)" "worker_sane (dp_workers d ! j)"
      using inv j by (auto simp: disp_inv_def)
    show ?thesis
    proof (cases "j = ac_worker a")
      case True
      have "worker_sane (worker_release (dp_workers d ! j) (ac_placement a))"
        using c(2) by (auto simp: worker_release_def worker_sane_def Let_def split: option.splits)
      then show ?thesis using worker_release_counts[OF c(1) dist Some] True aw by simp
    next
      case False
      have "usage P f (dp_running d) = usage P f ?rs" if "\<not> P (ac_worker a) (ac_placement a)" for P f
        using usage_delete[OF dist Some, of P f] that by simp
      then have "worker_counts j ?rs (dp_workers d ! j)" using c(1) False by (simp add: worker_counts_def)
      then show ?thesis using False c(2) by simp
    qed
  qed
  moreover have "ids_ok (d\<lparr>dp_scheduler := dp_scheduler d, dp_running := ?rs\<rparr>)"
    using sub dist by (intro shrink_ids_ok[OF ids]) (auto simp: distinct_delete)
  ultimately show ?thesis using inv sub Some by (auto simp: dispatch_release_def disp_inv_def ids_ok_def)
qed

lemma track_peak_inv [simp]: "disp_inv (track_peak d now) = disp_inv d"
  by (simp add: disp_inv_def ids_ok_def)

lemma finish_inv: "disp_inv d \<Longrightarrow> disp_inv (fst (finish d i now))"
proof -
  assume inv: "disp_inv d"
  then have "disp_inv (d\<lparr>dp_slot_secs_per_wu := learn d i now\<rparr>)" by (simp add: disp_inv_def ids_ok_def)
  from release_inv[OF this, of i] show ?thesis
    by (simp add: finish_def split_beta)
qed

lemma mark_preempting_keys [simp]: "map fst (mark_preempting i rs) = map fst rs"
proof (cases "map_of rs i")
  case None
  then show ?thesis by (simp add: mark_preempting_def)
next
  case (Some a)
  then have "i \<in> set (map fst rs)" by (metis map_of_eq_None_iff option.distinct(1) list.set_map)
  then show ?thesis using Some by (simp add: mark_preempting_def update_keys)
qed

lemma mark_preempting_usage [simp]: "usage P f (mark_preempting i rs) = usage P f rs"
  by (auto simp: mark_preempting_def usage_same split: option.splits)

lemma mark_preempting_in:
  "distinct (map fst rs) \<Longrightarrow> (k, a) \<in> set (mark_preempting i rs) \<Longrightarrow> \<exists>b. (k, b) \<in> set rs \<and> ac_worker a = ac_worker b"
  by (auto simp: mark_preempting_def split: option.splits dest!: in_alist_update dest: map_of_SomeD)

lemma mark_preempting_inv:
  assumes "disp_inv d"
  shows "disp_inv (d\<lparr>dp_running := mark_preempting i (dp_running d), dp_preempted := n\<rparr>)"
proof -
  let ?rs = "mark_preempting i (dp_running d)"
  have k: "fst ` set ?rs = fst ` set (dp_running d)" by (metis mark_preempting_keys list.set_map)
  have ids: "ids_ok d" and dist: "distinct (map fst (dp_running d))" using assms by (auto simp: disp_inv_def ids_ok_def)
  have "ids_ok (d\<lparr>dp_scheduler := dp_scheduler d, dp_running := ?rs\<rparr>)"
    using k dist by (intro shrink_ids_ok[OF ids]) simp_all
  moreover have "ac_worker a < length (dp_workers d)" if "(k, a) \<in> set ?rs" for k a
    using mark_preempting_in[OF dist that] assms by (auto simp: disp_inv_def)
  ultimately show ?thesis using assms by (auto simp: disp_inv_def ids_ok_def worker_counts_def)
qed

lemma preempt_scan_inv: "disp_inv d \<Longrightarrow> disp_inv (fst (preempt_scan d now grace hs victims))"
proof (induction hs arbitrary: d victims)
  case Nil
  then show ?case by simp
next
  case (Cons h hs)
  then show ?case by (auto split: option.splits prod.splits intro: mark_preempting_inv)
qed

text \<open>
  Changes of the worker set: refreshing keeps every count, a reused slot had nothing running
  (so nothing is charged to the fresh worker there), and a new slot has nothing either.
\<close>

definition spec_sane :: "worker_spec \<Rightarrow> bool" where
  "spec_sane sp \<longleftrightarrow> sp_kv_blocks sp < 2147483648 \<and> sp_slots sp < 4294967296"

lemma wanted_in: "wanted_by_id want k = Some sp \<Longrightarrow> sp \<in> set want"
  by (auto simp: wanted_by_id_def dest!: map_of_SomeD)

lemma refresh_worker_counts:
  assumes "worker_counts i rs w" "worker_sane w" "\<And>k sp. wanted k = Some sp \<Longrightarrow> spec_sane sp"
  shows "worker_counts i rs (refresh_worker wanted w) \<and> worker_sane (refresh_worker wanted w)"
  using assms
  by (auto simp: refresh_worker_def worker_counts_def held_by_def worker_sane_def spec_sane_def split: option.splits)

lemma fresh_worker_counts:
  assumes "usage (\<lambda>j p. j = i) (\<lambda>_. 1) rs = 0" and "spec_sane sp"
  shows "worker_counts i rs (with_hot_spare (worker_new a b (sp_slots sp) (sp_kv_blocks sp)) c)
    \<and> worker_sane (with_hot_spare (worker_new a b (sp_slots sp) (sp_kv_blocks sp)) c)"
proof -
  have none: "\<forall>(k, a)\<in>set rs. ac_worker a \<noteq> i" using iffD1[OF usage_one_zero assms(1)] by simp
  have "usage (\<lambda>j p. j = i \<and> Q p) f rs = 0" for Q f using none by (intro usage_zero) auto
  moreover have "usage (\<lambda>j p. j = i) f rs = 0" for f using none by (intro usage_zero) auto
  ultimately show ?thesis
    using assms(2) by (simp add: worker_counts_def worker_new_def with_hot_spare_def held_by_def worker_sane_def spec_sane_def)
qed

lemma add_worker_inv:
  assumes inv: "disp_inv d" and sp: "spec_sane spec"
  shows "disp_inv (add_worker wanted spec d)"
proof -
  let ?fresh = "with_hot_spare (worker_new (sp_id spec) (sp_url spec) (sp_slots spec) (sp_kv_blocks spec)) (sp_hot_spare spec)"
  let ?P = "\<lambda>w. wk_retired w \<and> wk_slots_used w = 0 \<and> wanted (wk_id w) = None"
  have c: "worker_counts j (dp_running d) (dp_workers d ! j)" "worker_sane (dp_workers d ! j)"
    if "j < length (dp_workers d)" for j using inv that by (auto simp: disp_inv_def)
  have r: "\<forall>(k, a)\<in>set (dp_running d). ac_worker a < length (dp_workers d)" using inv by (simp add: disp_inv_def)
  show ?thesis
  proof (cases "position ?P (dp_workers d)")
    case None
    have "usage (\<lambda>j p. j = length (dp_workers d)) (\<lambda>_. 1) (dp_running d) = 0" using r by (intro usage_zero) auto
    note f = fresh_worker_counts[OF this sp]
    have "worker_counts j (dp_running d) ((dp_workers d @ [?fresh]) ! j) \<and> worker_sane ((dp_workers d @ [?fresh]) ! j)"
      if "j < length (dp_workers d @ [?fresh])" for j
      using that c f by (cases "j < length (dp_workers d)") (auto simp: nth_append less_Suc_eq)
    then show ?thesis using inv r None by (auto simp: add_worker_def disp_inv_def ids_ok_def)
  next
    case (Some i)
    then have i: "i < length (dp_workers d)" "wk_slots_used (dp_workers d ! i) = 0" using position_SomeD[OF Some] by auto
    have "usage (\<lambda>j p. j = i) (\<lambda>_. 1) (dp_running d) = 0" using c(1)[OF i(1)] i(2) by (simp add: worker_counts_def)
    note f = fresh_worker_counts[OF this sp]
    have "worker_counts j (dp_running d) ((dp_workers d)[i := ?fresh] ! j) \<and> worker_sane ((dp_workers d)[i := ?fresh] ! j)"
      if "j < length (dp_workers d)" for j
      using that c f by (cases "j = i") auto
    then show ?thesis using inv Some by (simp add: add_worker_def disp_inv_def ids_ok_def)
  qed
qed

lemma add_workers_inv:
  "disp_inv d \<Longrightarrow> \<forall>sp\<in>set specs. spec_sane sp \<Longrightarrow> disp_inv (fst (add_workers wanted specs d c))"
  by (induction wanted specs d c rule: add_workers.induct) (auto intro: add_worker_inv)

lemma set_workers_inv:
  assumes inv: "disp_inv d" and sp: "\<forall>sp\<in>set want. spec_sane sp"
  shows "disp_inv (fst (set_workers d want))"
proof -
  let ?wanted = "wanted_by_id want"
  have ws: "\<And>k sp. ?wanted k = Some sp \<Longrightarrow> spec_sane sp" using wanted_in sp by metis
  have "disp_inv (d\<lparr>dp_workers := map (refresh_worker ?wanted) (dp_workers d)\<rparr>)"
    using inv refresh_worker_counts[where wanted = ?wanted, OF _ _ ws] by (auto simp: disp_inv_def ids_ok_def)
  from add_workers_inv[OF this sp] show ?thesis by (simp add: set_workers_def Let_def)
qed

lemma dispatch_inv:
  assumes "disp_inv d"
  obtains d' out where "dispatch d now = Some (d', out)" "disp_inv d'"
proof -
  let ?d = "(track_peak d now)\<lparr>dp_weights := (dp_weights (track_peak d now))\<lparr>ws_backfill_ratio := backfill_ratio (track_peak d now)\<rparr>\<rparr>"
  have "disp_inv ?d" using assms track_peak_inv[of d now] by (simp add: disp_inv_def ids_ok_def del: track_peak_inv)
  from dispatch_loop_spec[OF this, of "failover_active d now" now "[]"] that show thesis
    by (auto simp: dispatch_def Let_def)
qed

section \<open>Histories of a dispatcher\<close>

inductive disp_reach :: "'a dispatcher \<Rightarrow> bool" where
  started: "\<forall>w\<in>set workers. worker_sane w \<and> (\<exists>i u n kv b. w = with_hot_spare (worker_new i u n kv) b) \<Longrightarrow>
    disp_reach (dispatcher_new workers allocs ws g)"
| adaptive: "disp_reach d \<Longrightarrow> disp_reach (with_adaptive_backfill d a)"
| enqueued: "disp_reach d \<Longrightarrow> disp_reach (fst (dispatch_enqueue d p wu fw now deadline payload))"
| dispatched: "disp_reach d \<Longrightarrow> dispatch d now = Some (d', out) \<Longrightarrow> disp_reach d'"
| failover: "disp_reach d \<Longrightarrow> disp_reach (note_failover d until)"
| preempted: "disp_reach d \<Longrightarrow> disp_reach (fst (preempt d now grace))"
| released: "disp_reach d \<Longrightarrow> disp_reach (fst (dispatch_release d i))"
| finished: "disp_reach d \<Longrightarrow> disp_reach (fst (finish d i now))"
| cancelled: "disp_reach d \<Longrightarrow> disp_reach (fst (cancel d i))"
| discovered: "disp_reach d \<Longrightarrow> \<forall>sp\<in>set want. spec_sane sp \<Longrightarrow> disp_reach (fst (set_workers d want))"

lemma dispatcher_new_inv:
  assumes "\<forall>w\<in>set workers. worker_sane w \<and> (\<exists>i u n kv b. w = with_hot_spare (worker_new i u n kv) b)"
  shows "disp_inv (dispatcher_new workers allocs ws g)"
proof -
  have "worker_counts i [] w \<and> worker_sane w" if "w \<in> set workers" for i w
    using assms that by (auto simp: worker_counts_def held_by_def with_hot_spare_def worker_new_def)
  then show ?thesis by (simp add: disp_inv_def ids_ok_def dispatcher_new_def)
qed

lemma flag_inv: "disp_inv d \<Longrightarrow> disp_inv (with_adaptive_backfill d a)" "disp_inv d \<Longrightarrow> disp_inv (note_failover d until)"
  by (simp_all add: with_adaptive_backfill_def note_failover_def disp_inv_def ids_ok_def)

lemma disp_reach_inv: "disp_reach d \<Longrightarrow> disp_inv d"
proof (induction rule: disp_reach.induct)
  case (started workers allocs ws g)
  then show ?case by (rule dispatcher_new_inv)
next
  case (dispatched d now d' out)
  then show ?case using dispatch_inv[of d now] by (metis option.inject prod.inject)
next
  case (preempted d now grace)
  then show ?case by (simp add: preempt_def preempt_scan_inv)
qed (simp_all add: enqueue_inv release_inv finish_inv cancel_inv set_workers_inv flag_inv)

text \<open>
  C12. The accounts are exact in every history of a dispatcher, across dispatches, completions,
  preemptions, cancellations and changes of the worker set: a worker's slots and KV blocks in
  use, its backfill share of both, and the blocks each reservation holds there are exactly the
  sums over the requests running on it.
\<close>

theorem accounts_exact:
  assumes "disp_reach d" and "i < length (dp_workers d)"
  shows "wk_slots_used (dp_workers d ! i) = usage (\<lambda>j p. j = i) (\<lambda>_. 1) (dp_running d)
    \<and> wk_kv_used (dp_workers d ! i) = usage (\<lambda>j p. j = i) pl_kv_blocks (dp_running d)
    \<and> wk_backfill_slots (dp_workers d ! i) = usage (\<lambda>j p. j = i \<and> is_backfill p) (\<lambda>_. 1) (dp_running d)
    \<and> wk_backfill_kv (dp_workers d ! i) = usage (\<lambda>j p. j = i \<and> is_backfill p) pl_kv_blocks (dp_running d)
    \<and> (\<forall>r. held_by (dp_workers d ! i) r = usage (\<lambda>j p. j = i \<and> pl_reservation p = r) pl_kv_blocks (dp_running d))"
proof -
  have "worker_counts i (dp_running d) (dp_workers d ! i)" using disp_reach_inv[OF assms(1)] assms(2) by (simp add: disp_inv_def)
  then show ?thesis unfolding worker_counts_def .
qed

definition demo_dispatcher :: "nat dispatcher" where
  "demo_dispatcher = dispatcher_new [worker_new ''w0'' ''u'' 1 10] [] weights_default 8"

definition demo_queued :: "nat dispatcher" where
  "demo_queued = fst (dispatch_enqueue demo_dispatcher (demo_placement Provisioned 3) 5 None 0 100 0)"

lemma demo_reach: "disp_reach demo_dispatcher" "disp_reach demo_queued"
proof -
  show d: "disp_reach demo_dispatcher"
    unfolding demo_dispatcher_def
    by (rule started) (auto simp: worker_sane_def worker_new_def with_hot_spare_def)
  show "disp_reach demo_queued" unfolding demo_queued_def by (rule enqueued[OF d])
qed

lemmas dispatch_eval =
  dispatch_def dispatch_find_def placeable_def dispatch_enqueue_def dispatch_assign_def dispatch_reserve_def
  worker_reserve_def reserve_session_def track_peak_def backfill_ratio_def failover_active_def dispatcher_new_def
  demo_dispatcher_def demo_queued_def SCAN_LIMIT_def px_record_def bump_def class_counts_default_def peek_def
  worker_eval sched_eval

lemma dispatch_loop_single:
  assumes "dispatch_find d fence = Some (h, w)" and "sched_take (dp_scheduler d) h = (s, Some q)"
    and "dispatch_find (fst (dispatch_assign d now s q w)) fence = None"
  shows "dispatch_loop d fence now out = Some (fst (dispatch_assign d now s q w), out @ [snd (dispatch_assign d now s q w)])"
  using assms by (simp add: dispatch_loop.simps[of d] dispatch_loop.simps[of "fst (dispatch_assign d now s q w)"] Let_def)

lemma demo_dispatch:
  obtains d' out where "dispatch demo_queued 0 = Some (d', out)" "map as_worker out = [0]" "length (dp_workers d') = 1"
    "wk_slots_used (dp_workers d' ! 0) = 1" "wk_kv_used (dp_workers d' ! 0) = 3"
proof -
  let ?d = "demo_queued\<lparr>dp_weights := (dp_weights demo_queued)\<lparr>ws_backfill_ratio := 1/2\<rparr>\<rparr>"
  let ?h = "\<lparr>h_class = Provisioned, h_flow = ''r'', h_id = 1\<rparr>"
  have eq: "dispatch demo_queued 0 = dispatch_loop ?d False 0 []"
    by (simp add: dispatch_eval)
  have f: "dispatch_find ?d False = Some (?h, 0)" by (simp add: dispatch_eval)
  obtain s q where t: "sched_take (dp_scheduler ?d) ?h = (s, Some q)" by (simp add: dispatch_eval)
  have q: "fst (q_payload q) = demo_placement Provisioned 3" and s: "candidates s = []"
    using t by (auto simp: dispatch_eval)
  have "dispatch_find (fst (dispatch_assign ?d 0 s q 0)) False = None" using s by (simp add: dispatch_find_def)
  note l = dispatch_loop_single[OF f t this, of "[]"]
  have w: "dp_workers ?d = [worker_new ''w0'' ''u'' 1 10]" by (simp add: dispatch_eval)
  show thesis
  proof (rule that[of "fst (dispatch_assign ?d 0 s q 0)" "[snd (dispatch_assign ?d 0 s q 0)]"])
    show "dispatch demo_queued 0 = Some (fst (dispatch_assign ?d 0 s q 0), [snd (dispatch_assign ?d 0 s q 0)])"
      using eq l by simp
  qed (use w q in \<open>simp_all add: worker_reserve_def worker_new_def demo_placement_def u32_add_def is_backfill_def Let_def\<close>)
qed

theorem accounts_exact_witness:
  "\<exists>d' out. dispatch demo_queued 0 = Some (d', out) \<and> wk_kv_used (dp_workers d' ! 0) = 3
     \<and> usage (\<lambda>j p. j = 0) pl_kv_blocks (dp_running d') = 3"
proof -
  obtain d' out where d: "dispatch demo_queued 0 = Some (d', out)" "length (dp_workers d') = 1" "wk_kv_used (dp_workers d' ! 0) = 3"
    by (rule demo_dispatch)
  have "wk_kv_used (dp_workers d' ! 0) = usage (\<lambda>j p. j = 0) pl_kv_blocks (dp_running d')"
    using accounts_exact[OF dispatched[OF demo_reach(2) d(1)], of 0] d(2) by simp
  with d show ?thesis by (intro exI[of _ d'] exI[of _ out]) simp
qed

text \<open>
  C6. A dispatch is safe and leaves nothing it could place. In every history it returns (the
  request it peeked is there to take); no worker ends above its slots, its KV blocks or, on the
  floor, the backfill share in force, unless it was above before; retired workers are untouched;
  every assignment respects the dedicated-worker rules and the failover fence; every queued
  request is either still queued or assigned exactly once and now running; and afterwards none of
  the first 64 candidates could be placed.
\<close>

theorem dispatch_safe_and_complete:
  assumes "disp_reach d"
  shows "\<exists>d' out. dispatch d now = Some (d', out) \<and> disp_reach d'
    \<and> list_all2 (grown (backfill_ratio (track_peak d now))) (dp_workers d) (dp_workers d')
    \<and> (\<forall>x\<in>set out. assignment_ok (failover_active d now) (dp_allocations d) (dp_workers d) x)
    \<and> image_mset q_id (contents (dp_scheduler d)) = image_mset q_id (contents (dp_scheduler d')) + mset (map as_id out)
    \<and> fst ` set (dp_running d') = fst ` set (dp_running d) \<union> set (map as_id out)
    \<and> dispatch_find d' (failover_active d now) = None"
proof -
  let ?t = "track_peak d now"
  let ?d = "?t\<lparr>dp_weights := (dp_weights ?t)\<lparr>ws_backfill_ratio := backfill_ratio ?t\<rparr>\<rparr>"
  have "disp_inv ?t" using disp_reach_inv[OF assms] by simp
  then have inv: "disp_inv ?d" unfolding disp_inv_def ids_ok_def by simp
  obtain d' out where s: "dispatch_loop ?d (failover_active d now) now [] = Some (d', [] @ out)"
    "list_all2 (grown (ws_backfill_ratio (dp_weights ?d))) (dp_workers ?d) (dp_workers d')"
    "\<forall>x\<in>set out. assignment_ok (failover_active d now) (dp_allocations ?d) (dp_workers ?d) x"
    "image_mset q_id (contents (dp_scheduler ?d)) = image_mset q_id (contents (dp_scheduler d')) + mset (map as_id out)"
    "fst ` set (dp_running d') = fst ` set (dp_running ?d) \<union> set (map as_id out)"
    "dispatch_find d' (failover_active d now) = None"
    using dispatch_loop_spec[OF inv] by metis
  have "dispatch d now = Some (d', out)" using s(1) by (simp add: dispatch_def Let_def)
  then show ?thesis
    using s(2-6) dispatched[OF assms] by (intro exI[of _ d'] exI[of _ out]) simp
qed

theorem dispatch_safe_and_complete_witness:
  "\<exists>d' out. dispatch demo_queued 0 = Some (d', out) \<and> map as_worker out = [0]
     \<and> list_all (assignment_ok False [] (dp_workers demo_queued)) out \<and> dispatch_find d' False = None"
proof -
  obtain d' out where d: "dispatch demo_queued 0 = Some (d', out)" "map as_worker out = [0]" by (rule demo_dispatch)
  have f: "failover_active demo_queued 0 = False" "dp_allocations demo_queued = []" by (simp_all add: dispatch_eval)
  from dispatch_safe_and_complete[OF demo_reach(2), of 0] d(1)
  have "list_all (assignment_ok False [] (dp_workers demo_queued)) out \<and> dispatch_find d' False = None"
    unfolding f by (auto simp: list_all_iff)
  with d show ?thesis by (intro exI[of _ d'] exI[of _ out] conjI) simp_all
qed

section \<open>Preemption and discovery\<close>

lemma victim_is_running_payg:
  assumes "distinct (map fst rs)" and "preemption_victim ws al wt (running_view rs) p = Some i"
  obtains a where "map_of rs i = Some a" "pl_class (ac_placement a) = Payg" "\<not> ac_preempting a"
proof -
  have "\<exists>r\<in>set (running_view rs). rn_id r = i \<and> rn_class r = Payg \<and> \<not> rn_preempting r"
    using preemption_victim_running[OF assms(2)] .
  then obtain k a where "(k, a) \<in> set rs" "k = i" "pl_class (ac_placement a) = Payg" "\<not> ac_preempting a"
    by (auto simp: running_view_def)
  then show thesis using that assms(1) by (metis map_of_is_SomeI)
qed

definition preempt_effect :: "'a dispatcher \<Rightarrow> 'a dispatcher \<Rightarrow> nat list \<Rightarrow> bool" where
  "preempt_effect d d' new \<longleftrightarrow>
     distinct new \<and> dp_preempted d' = dp_preempted d + length new
   \<and> (\<forall>v\<in>set new. \<exists>a. map_of (dp_running d) v = Some a \<and> pl_class (ac_placement a) = Payg \<and> \<not> ac_preempting a
        \<and> map_of (dp_running d') v = Some (a\<lparr>ac_preempting := True\<rparr>))
   \<and> (\<forall>k. k \<notin> set new \<longrightarrow> map_of (dp_running d') k = map_of (dp_running d) k)
   \<and> dp_scheduler d' = dp_scheduler d \<and> dp_workers d' = dp_workers d"

lemma preempt_effect_refl [simp]: "preempt_effect d d []"
  by (simp add: preempt_effect_def)

lemma preempt_effect_step:
  assumes a: "map_of (dp_running d) i = Some a" "pl_class (ac_placement a) = Payg" "\<not> ac_preempting a"
    and e: "preempt_effect (d\<lparr>dp_running := mark_preempting i (dp_running d), dp_preempted := dp_preempted d + 1\<rparr>) d' new"
  shows "preempt_effect d d' (i # new)"
proof -
  have m: "map_of (mark_preempting i (dp_running d)) k = (if k = i then Some (a\<lparr>ac_preempting := True\<rparr>) else map_of (dp_running d) k)" for k
    using a(1) by (simp add: mark_preempting_def update_conv')
  have "i \<notin> set new"
  proof
    assume "i \<in> set new"
    then obtain b where "map_of (mark_preempting i (dp_running d)) i = Some b" "\<not> ac_preempting b"
      using e by (auto simp: preempt_effect_def)
    then show False by (auto simp: m)
  qed
  then show ?thesis using e a unfolding preempt_effect_def by (auto simp: m split: if_splits)
qed

lemma preempt_scan_spec:
  assumes "distinct (map fst (dp_running d))"
  shows "\<exists>d' new. preempt_scan d now grace hs vs = (d', vs @ new) \<and> preempt_effect d d' new"
  using assms
proof (induction hs arbitrary: d vs)
  case Nil
  then show ?case by (intro exI[of _ d] exI[of _ "[]"]) simp
next
  case (Cons h hs)
  have skip: ?case if "preempt_scan d now grace (h # hs) vs = preempt_scan d now grace hs vs"
    using Cons.IH[OF Cons.prems, of vs] that by simp
  show ?case
  proof (cases "peek (dp_scheduler d) h")
    case None
    then show ?thesis by (intro skip) simp
  next
    case (Some q)
    obtain p t x where pl: "q_payload q = (p, t, x)" by (cases "q_payload q")
    show ?thesis
    proof (cases "(q_class q \<noteq> Provisioned \<or> saturating_duration_since now t < grace)
        \<or> preemption_victim (dp_workers d) (dp_allocations d) (dp_weights d) (running_view (dp_running d)) p = None")
      case True
      then show ?thesis using Some pl by (intro skip) auto
    next
      case False
      then obtain i where i: "preemption_victim (dp_workers d) (dp_allocations d) (dp_weights d) (running_view (dp_running d)) p = Some i"
        by auto
      let ?d = "d\<lparr>dp_running := mark_preempting i (dp_running d), dp_preempted := dp_preempted d + 1\<rparr>"
      obtain a where a: "map_of (dp_running d) i = Some a" "pl_class (ac_placement a) = Payg" "\<not> ac_preempting a"
        by (rule victim_is_running_payg[OF Cons.prems i])
      have "preempt_scan d now grace (h # hs) vs = preempt_scan ?d now grace hs (vs @ [i])"
        using Some pl False i by simp
      moreover obtain d' new where "preempt_scan ?d now grace hs (vs @ [i]) = (d', (vs @ [i]) @ new)" "preempt_effect ?d d' new"
        using Cons.IH[of ?d "vs @ [i]"] Cons.prems by auto
      ultimately show ?thesis using preempt_effect_step[OF a] by (intro exI[of _ d'] exI[of _ "i # new"]) simp
    qed
  qed
qed

text \<open>
  Preemption aborts only running pay-as-you-go requests, only while a failover is active, and
  names each at most once: outside a failover nothing changes; otherwise the victims are
  distinct, each was running, pay-as-you-go and not yet marked, is marked afterwards, the count
  grows by their number, and no other request, queue or worker changes.
\<close>

theorem preempt_only_payg_in_failover:
  assumes "disp_reach d" and "preempt d now grace = (d', victims)"
  shows "(\<not> failover_active d now \<longrightarrow> victims = [] \<and> d' = d) \<and> preempt_effect d d' victims"
proof (cases "failover_active d now")
  case False
  then show ?thesis using assms(2) by (simp add: preempt_def)
next
  case True
  have "distinct (map fst (dp_running d))" using disp_reach_inv[OF assms(1)] by (simp add: disp_inv_def ids_ok_def)
  from preempt_scan_spec[OF this, of now grace "take SCAN_LIMIT (candidates (dp_scheduler d))" "[]"]
  show ?thesis using True assms(2) by (auto simp: preempt_def)
qed

theorem preempt_only_payg_in_failover_witness:
  "fst (preempt demo_queued 5 0) = demo_queued \<and> preempt_effect demo_queued demo_queued []"
proof -
  have p: "preempt demo_queued 5 0 = (demo_queued, [])" by (simp add: preempt_def dispatch_eval)
  from preempt_only_payg_in_failover[OF demo_reach(2) p] p show ?thesis by simp
qed

text \<open>
  After discovery, exactly the listed workers are in service, and every running request is still
  on the worker it was sent to.
\<close>

definition in_service :: "worker list \<Rightarrow> string set" where
  "in_service ws = {wk_id w | w. w \<in> set ws \<and> \<not> wk_retired w}"

definition retired_unlisted :: "(string \<Rightarrow> worker_spec option) \<Rightarrow> worker list \<Rightarrow> bool" where
  "retired_unlisted wanted ws \<longleftrightarrow> (\<forall>w\<in>set ws. wk_retired w \<longleftrightarrow> wanted (wk_id w) = None)"

lemma add_worker_effect:
  assumes inv: "disp_inv d" and ru: "retired_unlisted wanted (dp_workers d)" and sp: "wanted (sp_id spec) \<noteq> None"
  shows "retired_unlisted wanted (dp_workers (add_worker wanted spec d))"
    and "wk_id ` set (dp_workers (add_worker wanted spec d)) \<supseteq> insert (sp_id spec) {wk_id w | w. w \<in> set (dp_workers d) \<and> \<not> wk_retired w}"
    and "dp_running (add_worker wanted spec d) = dp_running d"
    and "(k, a) \<in> set (dp_running d) \<Longrightarrow> wk_id (dp_workers (add_worker wanted spec d) ! ac_worker a) = wk_id (dp_workers d ! ac_worker a)"
proof -
  let ?fresh = "with_hot_spare (worker_new (sp_id spec) (sp_url spec) (sp_slots spec) (sp_kv_blocks spec)) (sp_hot_spare spec)"
  have fresh: "wk_id ?fresh = sp_id spec" "\<not> wk_retired ?fresh" by (simp_all add: with_hot_spare_def worker_new_def)
  consider (app) "dp_workers (add_worker wanted spec d) = dp_workers d @ [?fresh]"
    | (reuse) i where "dp_workers (add_worker wanted spec d) = (dp_workers d)[i := ?fresh]" "i < length (dp_workers d)"
        "wk_retired (dp_workers d ! i)" "wk_slots_used (dp_workers d ! i) = 0"
    using position_SomeD by (fastforce simp: add_worker_def Let_def split: option.splits)
  then have "retired_unlisted wanted (dp_workers (add_worker wanted spec d))
     \<and> insert (sp_id spec) {wk_id w | w. w \<in> set (dp_workers d) \<and> \<not> wk_retired w} \<subseteq> wk_id ` set (dp_workers (add_worker wanted spec d))
     \<and> ((k, a) \<in> set (dp_running d) \<longrightarrow> wk_id (dp_workers (add_worker wanted spec d) ! ac_worker a) = wk_id (dp_workers d ! ac_worker a))"
  proof cases
    case app
    then show ?thesis
      using ru sp fresh inv by (auto simp: retired_unlisted_def disp_inv_def nth_append)
  next
    case reuse
    have "usage (\<lambda>j p. j = i) (\<lambda>_. 1) (dp_running d) = 0"
      using inv reuse(2,4) by (simp add: disp_inv_def worker_counts_def)
    from iffD1[OF usage_one_zero this] have "(k, a) \<in> set (dp_running d) \<Longrightarrow> ac_worker a \<noteq> i" by auto
    moreover have "wk_id w \<in> wk_id ` set ((dp_workers d)[i := ?fresh])" if "w \<in> set (dp_workers d)" "\<not> wk_retired w" for w
    proof -
      obtain j where j: "j < length (dp_workers d)" "dp_workers d ! j = w" using \<open>w \<in> _\<close> by (auto simp: in_set_conv_nth)
      then have "j \<noteq> i" using that(2) reuse(3) by auto
      then have "(dp_workers d)[i := ?fresh] ! j = w" using j by simp
      then show ?thesis using j(1) by (metis image_eqI length_list_update nth_mem)
    qed
    moreover have "?fresh \<in> set ((dp_workers d)[i := ?fresh])" using reuse(2) by (rule set_update_memI)
    moreover have "retired_unlisted wanted ((dp_workers d)[i := ?fresh])"
      using ru sp fresh set_update_subset_insert[of "dp_workers d" i ?fresh] by (auto simp: retired_unlisted_def)
    ultimately show ?thesis using reuse(1) fresh(1) by (auto intro: rev_image_eqI)
  qed
  then show "retired_unlisted wanted (dp_workers (add_worker wanted spec d))"
    and "wk_id ` set (dp_workers (add_worker wanted spec d)) \<supseteq> insert (sp_id spec) {wk_id w | w. w \<in> set (dp_workers d) \<and> \<not> wk_retired w}"
    and "(k, a) \<in> set (dp_running d) \<Longrightarrow> wk_id (dp_workers (add_worker wanted spec d) ! ac_worker a) = wk_id (dp_workers d ! ac_worker a)"
    by blast+
  show "dp_running (add_worker wanted spec d) = dp_running d" by (simp add: add_worker_def Let_def split: option.splits)
qed

lemma in_service_listed:
  "retired_unlisted wanted ws \<Longrightarrow> in_service ws = {k \<in> wk_id ` set ws. wanted k \<noteq> None}"
  by (auto simp: in_service_def retired_unlisted_def)

lemma add_workers_effect:
  assumes "disp_inv d" and "retired_unlisted wanted (dp_workers d)"
    and "\<forall>sp\<in>set specs. spec_sane sp \<and> wanted (sp_id sp) \<noteq> None"
  shows "retired_unlisted wanted (dp_workers (fst (add_workers wanted specs d c)))
    \<and> in_service (dp_workers d) \<union> sp_id ` set specs \<subseteq> in_service (dp_workers (fst (add_workers wanted specs d c)))
    \<and> dp_running (fst (add_workers wanted specs d c)) = dp_running d
    \<and> ((k, a) \<in> set (dp_running d) \<longrightarrow>
        wk_id (dp_workers (fst (add_workers wanted specs d c)) ! ac_worker a) = wk_id (dp_workers d ! ac_worker a))"
  using assms
proof (induction specs arbitrary: d c)
  case Nil
  then show ?case by simp
next
  case (Cons spec specs)
  show ?case
  proof (cases "list_ex (\<lambda>w. wk_id w = sp_id spec) (dp_workers d)")
    case True
    then have "sp_id spec \<in> in_service (dp_workers d)"
      using Cons.prems(2,3) unfolding in_service_listed[OF Cons.prems(2)] by (auto simp: list_ex_iff intro: rev_image_eqI)
    then show ?thesis using Cons.IH[OF Cons.prems(1,2), of c] Cons.prems(3) True by auto
  next
    case False
    let ?d = "add_worker wanted spec d"
    have sp: "spec_sane spec" "wanted (sp_id spec) \<noteq> None" using Cons.prems(3) by auto
    note e = add_worker_effect[OF Cons.prems(1,2) sp(2)]
    have inv': "disp_inv ?d" by (rule add_worker_inv[OF Cons.prems(1) sp(1)])
    have sub: "insert (sp_id spec) (in_service (dp_workers d)) \<subseteq> in_service (dp_workers ?d)"
      using e(2) sp(2) Cons.prems(2) unfolding in_service_listed[OF e(1)] by (auto simp: in_service_def retired_unlisted_def)
    have r: "\<forall>sp\<in>set specs. spec_sane sp \<and> wanted (sp_id sp) \<noteq> None" using Cons.prems(3) by simp
    from Cons.IH[OF inv' e(1) r, of "c\<lparr>ch_added := ch_added c @ [sp_id spec]\<rparr>"] sub e(3,4) False
    show ?thesis by auto
  qed
qed

text \<open>
  Discovery is followed exactly: after \<open>set_workers\<close> the workers in service are those listed,
  no more and no fewer, and no running request's slot was given to another worker, so its
  release is charged to the worker it runs on.
\<close>

theorem set_workers_follows_discovery:
  assumes "disp_reach d" and "\<forall>sp\<in>set want. spec_sane sp" and "set_workers d want = (d', changes)"
  shows "in_service (dp_workers d') = sp_id ` set want
    \<and> dp_running d' = dp_running d
    \<and> (\<forall>(k, a)\<in>set (dp_running d). wk_id (dp_workers d' ! ac_worker a) = wk_id (dp_workers d ! ac_worker a))"
proof -
  let ?wanted = "wanted_by_id want"
  let ?d = "d\<lparr>dp_workers := map (refresh_worker ?wanted) (dp_workers d)\<rparr>"
  have inv: "disp_inv d" by (rule disp_reach_inv[OF assms(1)])
  have w: "?wanted k \<noteq> None \<longleftrightarrow> k \<in> sp_id ` set want" for k
    by (auto simp: wanted_by_id_def map_of_eq_None_iff image_image)
  have ws: "\<And>k sp. ?wanted k = Some sp \<Longrightarrow> spec_sane sp" using wanted_in assms(2) by metis
  have inv': "disp_inv ?d"
    using inv refresh_worker_counts[where wanted = ?wanted, OF _ _ ws] by (auto simp: disp_inv_def ids_ok_def)
  have id: "wk_id (refresh_worker ?wanted x) = wk_id x" for x by (simp add: refresh_worker_def split: option.splits)
  have ru: "retired_unlisted ?wanted (dp_workers ?d)"
    by (auto simp: retired_unlisted_def refresh_worker_def split: option.splits)
  have r: "\<forall>sp\<in>set want. spec_sane sp \<and> ?wanted (sp_id sp) \<noteq> None" using assms(2) w by blast
  have d': "d' = fst (add_workers ?wanted want ?d (refresh_changes ?wanted (dp_workers d) \<lparr>ch_added = [], ch_retired = [], ch_spare_changed = []\<rparr>))"
    using assms(3) by (metis fst_conv set_workers_def)
  have e: "retired_unlisted ?wanted (dp_workers d')" "sp_id ` set want \<subseteq> in_service (dp_workers d')"
    "dp_running d' = dp_running d"
    "(k, a) \<in> set (dp_running d) \<longrightarrow> wk_id (dp_workers d' ! ac_worker a) = wk_id (dp_workers ?d ! ac_worker a)" for k a
    using add_workers_effect[OF inv' ru r, of "refresh_changes ?wanted (dp_workers d) \<lparr>ch_added = [], ch_retired = [], ch_spare_changed = []\<rparr>" k a,
        folded d'] by simp_all
  have "in_service (dp_workers d') \<subseteq> sp_id ` set want"
    unfolding in_service_listed[OF e(1)] w by auto
  moreover have "wk_id (dp_workers ?d ! ac_worker a) = wk_id (dp_workers d ! ac_worker a)" if "(k, a) \<in> set (dp_running d)" for k a
    using inv that id by (auto simp: disp_inv_def)
  ultimately show ?thesis using e(2-4) by auto
qed

theorem set_workers_follows_discovery_witness:
  "in_service (dp_workers (fst (set_workers demo_queued
     [\<lparr>sp_id = ''w1'', sp_url = ''u'', sp_slots = 2, sp_kv_blocks = 10, sp_hot_spare = False\<rparr>]))) = {''w1''}"
proof -
  let ?want = "[\<lparr>sp_id = ''w1'', sp_url = ''u'', sp_slots = 2, sp_kv_blocks = 10, sp_hot_spare = False\<rparr>]"
  obtain d' c where r: "set_workers demo_queued ?want = (d', c)" by fastforce
  have "\<forall>sp\<in>set ?want. spec_sane sp" by (simp add: spec_sane_def)
  from set_workers_follows_discovery[OF demo_reach(2) this r] r show ?thesis by simp
qed

end
