(* ===== verification/Operator.thy ===== *)
theory Operator
  imports PT_Core
begin

text \<open>
  The capacity controller \<open>pt-operator\<close>: sizing a pool from its allocations
  (\<open>sizing.rs\<close>), the surge during a drain (\<open>drain.rs\<close>) and the labelling of hot spares
  (\<open>spares.rs\<close>), over the resource types of \<open>pt-crds\<close> (\<open>pool.rs\<close>, \<open>profile.rs\<close>,
  \<open>allocation.rs\<close>). Floats are reals; replica counts are 32-bit, and their sums wrap. The lemmas
  show that the sized floor carries the allocated demand at the target utilisation; that the role
  counts add up and respect the cap, that warm spares are held and bounded and that a surge never
  exceeds the cap, all as long as floor and headroom fit the width; and that spares are taken only
  beyond what must stay available.
\<close>

section \<open>Resources (pool.rs, profile.rs, allocation.rs)\<close>

record role_replicas =
  rr_aggregated :: nat
  rr_prefill :: nat
  rr_decode :: nat
  rr_total :: nat

definition rr_default :: role_replicas where
  "rr_default = \<lparr>rr_aggregated = 0, rr_prefill = 0, rr_decode = 0, rr_total = 0\<rparr>"

definition aggregated :: "nat \<Rightarrow> role_replicas" where
  "aggregated n = \<lparr>rr_aggregated = n, rr_prefill = 0, rr_decode = 0, rr_total = n\<rparr>"

definition disaggregated :: "nat \<Rightarrow> nat \<Rightarrow> role_replicas" where
  "disaggregated prefill decode =
     \<lparr>rr_aggregated = 0, rr_prefill = prefill, rr_decode = decode, rr_total = u32_add prefill decode\<rparr>"

record disaggregation =
  da_enabled :: bool
  da_conditional :: bool
  da_prefill_share :: real
  da_prefill_replicas_min :: nat
  da_decode_replicas_min :: nat

definition disaggregation_default :: disaggregation where
  "disaggregation_default = \<lparr>da_enabled = False, da_conditional = True, da_prefill_share = 3/10,
     da_prefill_replicas_min = 0, da_decode_replicas_min = 0\<rparr>"

record pool_headroom =
  failure_domain_k :: nat
  maintenance_slots :: nat
  hot_spares :: nat
  warm_spares :: nat

definition headroom_default :: pool_headroom where
  "headroom_default = \<lparr>failure_domain_k = 1, maintenance_slots = 1, hot_spares = 0, warm_spares = 0\<rparr>"

text \<open>The fields of \<open>ModelPoolSpec\<close> that sizing reads.\<close>

record model_pool_spec =
  mp_disaggregation :: disaggregation
  mp_headroom :: pool_headroom
  mp_target_utilization :: real
  mp_burst_z :: real
  mp_max_replicas :: "nat option"

record role_capacity =
  rcap_prefill :: tier_capacity
  rcap_decode :: tier_capacity

text \<open>The fields of \<open>PerformanceProfileSpec\<close> that sizing reads.\<close>

record profile_spec =
  pf_capacity :: tier_capacity
  pf_role_capacity :: "role_capacity option"

section \<open>Sizing (sizing.rs)\<close>

text \<open>A demand's WU/s is tested with \<open>is_finite\<close> before it is used.\<close>

record demand =
  dm_wu_per_sec :: f64_wire
  dm_tier :: tier
  dm_burst_factor :: real

record shortfall =
  sf_needed :: nat
  sf_max :: nat

record sizing =
  sz_floor :: role_replicas
  sz_desired :: role_replicas
  sz_min_available :: role_replicas
  sz_allocated_wu_per_sec :: f64_wire
  sz_shortfall :: "shortfall option"
  sz_warm_loaded :: role_replicas
  sz_failover_shortfall :: nat

datatype sizing_error =
    NoCapacity string tier
  | BadUtilization real
  | BadPrefillShare real
  | BadDemand f64_wire

text \<open>The loop of \<open>role_floor\<close>: the sums of the replica-equivalents and of the squared bursts.\<close>

fun role_loop ::
  "demand list \<Rightarrow> real \<Rightarrow> tier_capacity \<Rightarrow> string \<Rightarrow> real \<Rightarrow> real \<Rightarrow> sizing_error + real \<times> real" where
  "role_loop [] share capacity role units burst_sq = Inr (units, burst_sq)"
| "role_loop (d # ds) share capacity role units burst_sq =
     (case dm_wu_per_sec d of
        NonFinite \<Rightarrow> Inl (BadDemand NonFinite)
      | Finite wu \<Rightarrow>
          if wu < 0 then Inl (BadDemand (Finite wu))
          else if wu = 0 then role_loop ds share capacity role units burst_sq
          else let cap = for_tier capacity (dm_tier d)
               in if cap \<le> 0 then Inl (NoCapacity role (dm_tier d))
                  else let u = wu * share / cap
                       in role_loop ds share capacity role (units + u)
                            (burst_sq + (u * max (dm_burst_factor d - 1) 0)\<^sup>2))"

definition role_floor ::
  "demand list \<Rightarrow> real \<Rightarrow> tier_capacity \<Rightarrow> string \<Rightarrow> real \<Rightarrow> real \<Rightarrow> sizing_error + nat" where
  "role_floor demands share capacity role target_util z =
     (case role_loop demands share capacity role 0 0 of
        Inl e \<Rightarrow> Inl e
      | Inr (units, burst_sq) \<Rightarrow>
          let needed = (units + z * sqrt burst_sq) / target_util
          in Inr (f64_as_u32 (max (of_int \<lceil>needed - 1 / 1000000000\<rceil>) 0)))"

text \<open>Scaling down to a cap; \<open>round\<close> of a non-negative float is \<open>\<lfloor>x + 1/2\<rfloor>\<close>.\<close>

definition cap_total :: "role_replicas \<Rightarrow> nat \<Rightarrow> role_replicas" where
  "cap_total r mx =
     (if 0 < rr_aggregated r \<or> (rr_prefill r = 0 \<and> rr_decode r = 0)
      then aggregated (min (rr_aggregated r) mx)
      else let prefill = f64_as_u32 (of_int \<lfloor>real (rr_prefill r) / real (rr_total r) * real mx + 1/2\<rfloor>);
               prefill = clamp (if 2 \<le> mx then 1 else 0) (max (mx - 1) 1) prefill
           in disaggregated (min prefill mx) (mx - prefill))"

definition apply_max_replicas :: "model_pool_spec \<Rightarrow> sizing \<Rightarrow> sizing" where
  "apply_max_replicas pool s =
     (case mp_max_replicas pool of
        None \<Rightarrow> s
      | Some mx \<Rightarrow> if mx < rr_total (sz_desired s)
                  then s\<lparr>sz_shortfall := Some \<lparr>sf_needed = rr_total (sz_desired s), sf_max = mx\<rparr>,
                         sz_desired := cap_total (sz_desired s) mx\<rparr>
                  else s)"

definition wire_add :: "f64_wire \<Rightarrow> f64_wire \<Rightarrow> f64_wire" where
  "wire_add a b = (case (a, b) of (Finite x, Finite y) \<Rightarrow> Finite (x + y) | _ \<Rightarrow> NonFinite)"

definition allocated_of :: "demand list \<Rightarrow> f64_wire" where
  "allocated_of demands = foldl (\<lambda>acc d. wire_add acc (dm_wu_per_sec d)) (Finite 0) demands"

definition size_roles ::
  "model_pool_spec \<Rightarrow> profile_spec \<Rightarrow> demand list \<Rightarrow> sizing_error + role_replicas \<times> role_replicas \<times> role_replicas" where
  "size_roles pool profile demands =
     (let util = mp_target_utilization pool; h = mp_headroom pool; d = mp_disaggregation pool
      in if da_enabled d then
           if \<not> (0 < da_prefill_share d \<and> da_prefill_share d < 1) then Inl (BadPrefillShare (da_prefill_share d))
           else let (pcap, dcap) = (case pf_role_capacity profile of
                       Some rc \<Rightarrow> (rcap_prefill rc, rcap_decode rc)
                     | None \<Rightarrow> (pf_capacity profile, pf_capacity profile))
                in (case role_floor demands (da_prefill_share d) pcap ''prefill'' util (mp_burst_z pool) of
                      Inl e \<Rightarrow> Inl e
                    | Inr p0 \<Rightarrow>
                        (case role_floor demands (1 - da_prefill_share d) dcap ''decode'' util (mp_burst_z pool) of
                           Inl e \<Rightarrow> Inl e
                         | Inr d0 \<Rightarrow>
                             let p = max p0 (da_prefill_replicas_min d); dd = max d0 (da_decode_replicas_min d);
                                 extra = u32_add (u32_add (failure_domain_k h) (maintenance_slots h)) (hot_spares h)
                             in Inr (disaggregated p dd, disaggregated (u32_add p extra) (u32_add dd extra),
                                     disaggregated (u32_add p (failure_domain_k h)) (u32_add dd (failure_domain_k h)))))
         else (case role_floor demands 1 (pf_capacity profile) ''aggregated'' util (mp_burst_z pool) of
                 Inl e \<Rightarrow> Inl e
               | Inr n \<Rightarrow> Inr (aggregated n,
                    aggregated (u32_add (u32_add (u32_add n (failure_domain_k h)) (maintenance_slots h)) (hot_spares h)),
                    aggregated (u32_add n (failure_domain_k h)))))"

definition size_pool :: "model_pool_spec \<Rightarrow> profile_spec \<Rightarrow> demand list \<Rightarrow> sizing_error + sizing" where
  "size_pool pool profile demands =
     (let util = mp_target_utilization pool
      in if \<not> (0 < util \<and> util \<le> 1) then Inl (BadUtilization util)
         else case size_roles pool profile demands of
           Inl e \<Rightarrow> Inl e
         | Inr (fl, desired, min_available) \<Rightarrow>
             Inr (apply_max_replicas pool
               \<lparr>sz_floor = fl, sz_desired = desired, sz_min_available = min_available,
                sz_allocated_wu_per_sec = allocated_of demands, sz_shortfall = None,
                sz_warm_loaded = rr_default, sz_failover_shortfall = 0\<rparr>))"

text \<open>\<open>.filter(|e| e.is_finite() && **e > 0.0)\<close>\<close>

definition extra_of :: "f64_wire \<Rightarrow> real" where
  "extra_of e = (case e of Finite x \<Rightarrow> if 0 < x then x else 0 | NonFinite \<Rightarrow> 0)"

definition with_extra :: "demand list \<Rightarrow> f64_wire list \<Rightarrow> demand list" where
  "with_extra demands extra =
     map (\<lambda>(i, d). d\<lparr>dm_wu_per_sec := wire_add (dm_wu_per_sec d)
              (Finite (if i < length extra then extra_of (extra ! i) else 0))\<rparr>)
       (enumerate 0 demands)"

text \<open>The closure \<open>role\<close>: what to load, and what is missing beyond the warm spares.\<close>

definition warm_role :: "pool_headroom \<Rightarrow> nat \<Rightarrow> nat \<Rightarrow> nat \<Rightarrow> nat \<times> nat" where
  "warm_role h base fo prev =
     (let needed = fo - base - hot_spares h
      in (max (min needed (warm_spares h)) (min prev (warm_spares h)), needed - warm_spares h))"

definition u32_sub :: "nat \<Rightarrow> nat \<Rightarrow> nat" where
  "u32_sub a b = (a + (4294967296 - b)) mod 4294967296"

lemma u32_sub_exact: "b \<le> a \<Longrightarrow> a < 4294967296 \<Longrightarrow> u32_sub a b = a - b"
proof -
  assume "b \<le> a" "a < 4294967296"
  then have "a + (4294967296 - b) = 4294967296 + (a - b)" by linarith
  then show ?thesis unfolding u32_sub_def using \<open>a < 4294967296\<close> by (simp only: mod_add_self1) simp
qed

definition base_desired :: "pool_headroom \<Rightarrow> nat \<Rightarrow> nat" where
  "base_desired h fl = u32_add (u32_add (u32_add fl (failure_domain_k h)) (maintenance_slots h)) (hot_spares h)"

definition size_with_failover ::
  "model_pool_spec \<Rightarrow> profile_spec \<Rightarrow> demand list \<Rightarrow> f64_wire list \<Rightarrow> role_replicas \<Rightarrow> sizing_error + sizing" where
  "size_with_failover pool profile demands extra previous =
     (case size_pool pool profile demands of
        Inl e \<Rightarrow> Inl e
      | Inr base \<Rightarrow>
          if sum_list (map extra_of extra) \<le> 0 then Inr base
          else case size_pool pool profile (with_extra demands extra) of
            Inl e \<Rightarrow> Inl e
          | Inr failover \<Rightarrow>
              let h = mp_headroom pool;
                  (fl, loaded, desired, min_available, short) =
                    (if da_enabled (mp_disaggregation pool) then
                       let (bp, bd) = (rr_prefill (sz_floor base), rr_decode (sz_floor base));
                           (fp, fd) = (rr_prefill (sz_floor failover), rr_decode (sz_floor failover));
                           (lp, sp) = warm_role h bp fp (rr_prefill previous);
                           (ld, sd) = warm_role h bd fd (rr_decode previous);
                           (dp, dd) = (u32_add (base_desired h bp) lp, u32_add (base_desired h bd) ld)
                       in (sz_floor base, disaggregated lp ld, disaggregated dp dd,
                           disaggregated (min (u32_add fp (failure_domain_k h)) (u32_sub dp (maintenance_slots h)))
                             (min (u32_add fd (failure_domain_k h)) (u32_sub dd (maintenance_slots h))), u32_add sp sd)
                     else
                       let b = rr_aggregated (sz_floor base); f = rr_aggregated (sz_floor failover);
                           (l, s) = warm_role h b f (rr_aggregated previous);
                           d = u32_add (base_desired h b) l
                       in (sz_floor base, aggregated l, aggregated d,
                           aggregated (min (u32_add f (failure_domain_k h)) (u32_sub d (maintenance_slots h))), s))
              in Inr (apply_max_replicas pool
                   \<lparr>sz_floor = fl, sz_desired = desired, sz_min_available = min_available,
                    sz_allocated_wu_per_sec = sz_allocated_wu_per_sec base, sz_shortfall = None,
                    sz_warm_loaded = loaded, sz_failover_shortfall = short\<rparr>))"

section \<open>Drains (drain.rs)\<close>

datatype role = Aggregated | Prefill | Decode

fun role_as_str :: "role \<Rightarrow> string" where
  "role_as_str Aggregated = ''aggregated''"
| "role_as_str Prefill = ''prefill''"
| "role_as_str Decode = ''decode''"

definition role_parse :: "string \<Rightarrow> role option" where
  "role_parse s = (if s = ''aggregated'' then Some Aggregated else if s = ''prefill'' then Some Prefill
     else if s = ''decode'' then Some Decode else None)"

record worker_pod =
  wp_node :: string
  wp_role :: role
  wp_terminating :: bool
  wp_ready :: bool

record node_state =
  nd_unschedulable :: bool
  nd_expedite :: bool

record drain =
  dn_surge :: role_replicas
  dn_nodes :: "string list"
  dn_expedited :: "string list"

definition drain_active :: "drain \<Rightarrow> bool" where
  "drain_active d \<longleftrightarrow> dn_nodes d \<noteq> []"

definition surge_for :: "role_replicas \<Rightarrow> role \<Rightarrow> role_replicas" where
  "surge_for s r =
     (case r of Aggregated \<Rightarrow> s\<lparr>rr_aggregated := u32_add (rr_aggregated s) 1, rr_total := u32_add (rr_total s) 1\<rparr>
              | Prefill \<Rightarrow> s\<lparr>rr_prefill := u32_add (rr_prefill s) 1, rr_total := u32_add (rr_total s) 1\<rparr>
              | Decode \<Rightarrow> s\<lparr>rr_decode := u32_add (rr_decode s) 1, rr_total := u32_add (rr_total s) 1\<rparr>)"

text \<open>A \<open>BTreeSet\<close> is kept as a sorted list.\<close>

definition btree_insert :: "string \<Rightarrow> string list \<Rightarrow> string list" where
  "btree_insert x xs = (if x \<in> set xs then xs else insort x xs)"

definition assess_pod ::
  "(string \<rightharpoonup> node_state) \<Rightarrow> role_replicas \<times> string list \<times> string list \<Rightarrow> worker_pod
   \<Rightarrow> role_replicas \<times> string list \<times> string list" where
  "assess_pod nodes st p =
     (case st of (surge, draining, expedited) \<Rightarrow>
        (case nodes (wp_node p) of
           None \<Rightarrow> st
         | Some nd \<Rightarrow>
             if \<not> nd_unschedulable nd then st
             else if nd_expedite nd
             then (surge, btree_insert (wp_node p) draining, btree_insert (wp_node p) expedited)
             else (surge_for surge (wp_role p), btree_insert (wp_node p) draining, expedited)))"

definition assess :: "worker_pod list \<Rightarrow> (string \<rightharpoonup> node_state) \<Rightarrow> drain" where
  "assess pods nodes =
     (let (surge, draining, expedited) =
        foldl (assess_pod nodes) (rr_default, [], []) (filter (\<lambda>p. \<not> wp_terminating p) pods)
      in \<lparr>dn_surge = surge, dn_nodes = draining, dn_expedited = expedited\<rparr>)"

definition add_surge ::
  "role_replicas \<Rightarrow> role_replicas \<Rightarrow> nat option \<Rightarrow> role_replicas \<times> role_replicas" where
  "add_surge desired surge mx =
     (let room = (case mx of None \<Rightarrow> u32_max | Some n \<Rightarrow> n - rr_total desired);
          decode = min (rr_decode surge) room; room = room - decode;
          prefill = min (rr_prefill surge) room; room = room - prefill;
          aggregated = min (rr_aggregated surge) room;
          added = \<lparr>rr_aggregated = aggregated, rr_prefill = prefill, rr_decode = decode,
                   rr_total = u32_add (u32_add aggregated prefill) decode\<rparr>
      in (\<lparr>rr_aggregated = u32_add (rr_aggregated desired) aggregated, rr_prefill = u32_add (rr_prefill desired) prefill,
           rr_decode = u32_add (rr_decode desired) decode, rr_total = u32_add (rr_total desired) (rr_total added)\<rparr>, added))"

datatype sales_hold = Place | Lift | Nothing

definition sales_hold_of :: "drain \<Rightarrow> bool \<Rightarrow> sales_hold" where
  "sales_hold_of d was_expedited =
     (if dn_expedited d \<noteq> [] then Place else if was_expedited then Lift else Nothing)"

section \<open>Hot spares (spares.rs)\<close>

definition FLOOR :: string where
  "FLOOR = ''floor''"

definition SPARE :: string where
  "SPARE = ''spare''"

record pod_serving =
  pd_name :: string
  pd_role :: role
  pd_ready :: bool
  pd_terminating :: bool
  pd_serving :: "string option"

definition is_spare :: "pod_serving \<Rightarrow> bool" where
  "is_spare p \<longleftrightarrow> pd_serving p = Some SPARE"

definition pod_up :: "pod_serving \<Rightarrow> bool" where
  "pod_up p \<longleftrightarrow> pd_ready p \<and> \<not> pd_terminating p"

text \<open>The \<open>BTreeMap\<close> from the role's name to its pods, in pod order.\<close>

definition by_role :: "pod_serving list \<Rightarrow> (string \<times> pod_serving list) list" where
  "by_role pods =
     foldl (\<lambda>m p. let k = role_as_str (pd_role p)
                  in bt_put k ((case map_of m k of None \<Rightarrow> [] | Some ps \<Rightarrow> ps) @ [p]) m) [] pods"

text \<open>The promotion loop over the pods from the last name to the first.\<close>

fun promote :: "nat \<Rightarrow> pod_serving list \<Rightarrow> string list \<Rightarrow> string list" where
  "promote want [] spares = spares"
| "promote want (p # ps) spares =
     (if want \<le> length spares then spares
      else if \<not> is_spare p then promote want ps (spares @ [pd_name p])
      else promote want ps spares)"

definition serving_pods :: "pod_serving list \<Rightarrow> pod_serving list" where
  "serving_pods pods = sort_key pd_name (filter pod_up pods)"

definition choose_spares :: "nat \<Rightarrow> nat \<Rightarrow> pod_serving list \<Rightarrow> string list" where
  "choose_spares hot min_avail serving =
     (let beyond = length serving - min_avail; want = min hot beyond
      in promote want (rev serving) (take want (map pd_name (filter is_spare serving))))"

definition role_changes :: "nat \<Rightarrow> nat \<Rightarrow> pod_serving list \<Rightarrow> (string \<times> string) list" where
  "role_changes hot min_avail pods =
     (let serving = serving_pods pods;
          spares = choose_spares hot min_avail serving
      in List.map_filter (\<lambda>p. let tgt = (if pd_name p \<in> set spares then SPARE else FLOOR)
             in if pd_serving p \<noteq> Some tgt then Some (pd_name p, tgt) else None) serving
         @ map (\<lambda>p. (pd_name p, FLOOR)) (filter (\<lambda>p. \<not> pod_up p \<and> is_spare p) pods))"

definition assign :: "pod_serving list \<Rightarrow> nat \<Rightarrow> (role \<Rightarrow> nat) \<Rightarrow> (string \<times> string) list" where
  "assign pods hot min_available =
     sort (concat (map (\<lambda>(_, ps). role_changes hot (min_available (pd_role (hd ps))) ps) (by_role pods)))"

definition spares_after :: "pod_serving list \<Rightarrow> (string \<times> string) list \<Rightarrow> string list" where
  "spares_after pods changes =
     sort (map pd_name
       (filter (\<lambda>p. case find (\<lambda>c. fst c = pd_name p) changes of
                      Some (_, v) \<Rightarrow> v = SPARE | None \<Rightarrow> is_spare p)
         (filter pod_up pods)))"

section \<open>The floor carries the demand\<close>

definition unit_of :: "real \<Rightarrow> tier_capacity \<Rightarrow> demand \<Rightarrow> real" where
  "unit_of share cap d =
     (case dm_wu_per_sec d of Finite wu \<Rightarrow> wu * share / for_tier cap (dm_tier d) | NonFinite \<Rightarrow> 0)"

definition burst_of :: "real \<Rightarrow> tier_capacity \<Rightarrow> demand \<Rightarrow> real" where
  "burst_of share cap d = (unit_of share cap d * max (dm_burst_factor d - 1) 0)\<^sup>2"

text \<open>The replica-equivalents of the demands with the correlated-burst allowance.\<close>

definition replicas_needed :: "demand list \<Rightarrow> real \<Rightarrow> tier_capacity \<Rightarrow> real \<Rightarrow> real" where
  "replicas_needed ds share cap z =
     (\<Sum>d\<leftarrow>ds. unit_of share cap d) + z * sqrt (\<Sum>d\<leftarrow>ds. burst_of share cap d)"

definition demand_ok :: "tier_capacity \<Rightarrow> demand \<Rightarrow> bool" where
  "demand_ok cap d \<longleftrightarrow>
     (case dm_wu_per_sec d of NonFinite \<Rightarrow> False
      | Finite wu \<Rightarrow> 0 \<le> wu \<and> (wu = 0 \<or> 0 < for_tier cap (dm_tier d)))"

lemma role_loop_spec:
  "role_loop ds share cap role u b =
     (if list_all (demand_ok cap) ds
      then Inr (u + (\<Sum>d\<leftarrow>ds. unit_of share cap d), b + (\<Sum>d\<leftarrow>ds. burst_of share cap d))
      else Inl (case find (\<lambda>d. \<not> demand_ok cap d) ds of
             None \<Rightarrow> BadDemand NonFinite
           | Some d \<Rightarrow> (case dm_wu_per_sec d of
               NonFinite \<Rightarrow> BadDemand NonFinite
             | Finite wu \<Rightarrow> if wu < 0 then BadDemand (Finite wu) else NoCapacity role (dm_tier d))))"
proof (induction ds arbitrary: u b)
  case Nil
  then show ?case by simp
next
  case (Cons d ds)
  show ?case
  proof (cases "dm_wu_per_sec d")
    case NonFinite
    then show ?thesis by (simp add: demand_ok_def[of cap d])
  next
    case (Finite wu)
    then consider "wu < 0" | "wu = 0" | "0 < wu" "for_tier cap (dm_tier d) \<le> 0" | "0 < wu" "0 < for_tier cap (dm_tier d)"
      by linarith
    then show ?thesis
      using Finite Cons.IH
      by cases (simp_all add: demand_ok_def[of cap d] unit_of_def[of share cap d] burst_of_def[of share cap d] Let_def)
  qed
qed

lemma role_floor_ok:
  assumes "role_floor ds share cap role util z = Inr n"
  shows "list_all (demand_ok cap) ds"
    "n = f64_as_u32 (max (of_int \<lceil>replicas_needed ds share cap z / util - 1 / 1000000000\<rceil>) 0)"
  using assms by (auto simp: role_floor_def role_loop_spec replicas_needed_def Let_def split: if_splits)

lemma floor_bounds:
  assumes "n = f64_as_u32 (max (of_int \<lceil>x\<rceil>) 0)" and "n < u32_max"
  shows "x \<le> real n" "0 < n \<Longrightarrow> real n - 1 < x"
proof -
  have f: "\<lfloor>max (of_int \<lceil>x\<rceil> :: real) 0\<rfloor> = max \<lceil>x\<rceil> 0" by (simp add: max_def)
  with assms have n: "n = nat (max \<lceil>x\<rceil> 0)" by (simp add: f64_as_u32_def u32_max_def min_def split: if_splits)
  then show "x \<le> real n" using le_of_int_ceiling[of x] by (simp add: max_def split: if_splits)
  show "real n - 1 < x" if "0 < n"
    using that n ceiling_correct[of x] by (simp add: max_def split: if_splits)
qed

text \<open>
  The floor of a role is the least number of replicas that carries its demands at the
  target utilisation, burst allowance included, up to the tolerance of one billionth; a
  demand is refused exactly when it is negative, not finite, or has no capacity at its tier.
\<close>

theorem role_floor_exact:
  assumes "0 < util"
  shows "((\<exists>n. role_floor ds share cap role util z = Inr n) \<longleftrightarrow> list_all (demand_ok cap) ds)
    \<and> (role_floor ds share cap role util z = Inr n \<longrightarrow> n < u32_max \<longrightarrow>
        replicas_needed ds share cap z \<le> (real n + 1 / 1000000000) * util
        \<and> (0 < n \<longrightarrow> (real n - 1 + 1 / 1000000000) * util < replicas_needed ds share cap z))"
proof (intro conjI impI)
  show "(\<exists>n. role_floor ds share cap role util z = Inr n) \<longleftrightarrow> list_all (demand_ok cap) ds"
    by (auto simp: role_floor_def role_loop_spec Let_def)
  assume r: "role_floor ds share cap role util z = Inr n" and n: "n < u32_max"
  note b = floor_bounds[OF role_floor_ok(2)[OF r] n]
  show "replicas_needed ds share cap z \<le> (real n + 1 / 1000000000) * util"
    using b(1) assms by (simp add: field_simps)
  show "(real n - 1 + 1 / 1000000000) * util < replicas_needed ds share cap z" if "0 < n"
    using b(2)[OF that] assms by (simp add: field_simps)
qed

definition demo_demand :: demand where
  "demo_demand = \<lparr>dm_wu_per_sec = Finite 116000, dm_tier = Standard, dm_burst_factor = 1\<rparr>"

definition demo_cap :: tier_capacity where
  "demo_cap = \<lparr>cap_interactive = 30000, cap_agentic = 35500, cap_standard = 58000\<rparr>"

lemma demo_role_floor: "role_floor [demo_demand] 1 demo_cap ''aggregated'' (8/10) 2 = Inr 3"
proof -
  have "\<lceil>(5/2 - 1 / 1000000000 :: real)\<rceil> = 3" by (rule ceiling_unique) simp_all
  then show ?thesis
    by (simp add: role_floor_def demo_demand_def demo_cap_def for_tier_def f64_as_u32_def Let_def)
qed

theorem role_floor_exact_witness:
  "replicas_needed [demo_demand] 1 demo_cap 2 \<le> (3 + 1 / 1000000000) * (8/10)
   \<and> (2 + 1 / 1000000000) * (8/10) < replicas_needed [demo_demand] 1 demo_cap 2"
  using role_floor_exact[of "8/10" "[demo_demand]" 1 demo_cap "''aggregated''" 2 3] demo_role_floor
  by (simp add: u32_max_def)

section \<open>Sizing grows with the demand\<close>

definition more_demand :: "demand \<Rightarrow> demand \<Rightarrow> bool" where
  "more_demand d d' \<longleftrightarrow> dm_tier d' = dm_tier d \<and> dm_burst_factor d' = dm_burst_factor d
     \<and> (\<forall>x y. dm_wu_per_sec d = Finite x \<and> dm_wu_per_sec d' = Finite y \<longrightarrow> x \<le> y)"

lemma unit_of_mono:
  assumes "more_demand d d'" and "demand_ok cap d" and "demand_ok cap d'" and "0 \<le> share"
  shows "0 \<le> unit_of share cap d \<and> unit_of share cap d \<le> unit_of share cap d' \<and> burst_of share cap d \<le> burst_of share cap d'"
proof -
  from assms(2,3) obtain x y where wu: "dm_wu_per_sec d = Finite x" "dm_wu_per_sec d' = Finite y"
    by (auto simp: demand_ok_def split: f64_wire.splits)
  have t: "dm_tier d' = dm_tier d" "dm_burst_factor d' = dm_burst_factor d" and xy: "x \<le> y"
    using assms(1) wu by (auto simp: more_demand_def)
  have x0: "0 \<le> x" and cap: "y = 0 \<or> 0 < for_tier cap (dm_tier d)"
    using assms(2,3) wu t by (auto simp: demand_ok_def)
  have u: "0 \<le> unit_of share cap d \<and> unit_of share cap d \<le> unit_of share cap d'"
  proof (cases "y = 0")
    case True
    then show ?thesis using wu xy x0 by (simp add: unit_of_def)
  next
    case False
    then have "0 < for_tier cap (dm_tier d)" using cap by simp
    then show ?thesis using wu xy x0 t assms(4) by (auto simp: unit_of_def divide_right_mono mult_right_mono)
  qed
  then have "burst_of share cap d \<le> burst_of share cap d'"
    unfolding burst_of_def t by (intro power_mono mult_right_mono) auto
  with u show ?thesis by blast
qed

lemma replicas_needed_mono:
  assumes "list_all2 more_demand ds ds'" and "list_all (demand_ok cap) ds" and "list_all (demand_ok cap) ds'"
    and "0 \<le> share" and "0 \<le> z"
  shows "replicas_needed ds share cap z \<le> replicas_needed ds' share cap z"
proof -
  have "(\<Sum>d\<leftarrow>ds. unit_of share cap d) \<le> (\<Sum>d\<leftarrow>ds'. unit_of share cap d)
      \<and> (\<Sum>d\<leftarrow>ds. burst_of share cap d) \<le> (\<Sum>d\<leftarrow>ds'. burst_of share cap d)"
    using assms(1-3)
  proof (induction rule: list_all2_induct)
    case (Cons d ds d' ds')
    then show ?case using unit_of_mono[OF Cons.hyps(1) _ _ assms(4), of cap] by force
  qed simp
  then show ?thesis unfolding replicas_needed_def using assms(5)
    by (intro add_mono mult_left_mono real_sqrt_le_mono) auto
qed

lemma role_floor_mono:
  assumes "role_floor ds share cap role util z = Inr n" and "role_floor ds' share cap role util z = Inr n'"
    and "list_all2 more_demand ds ds'" and "0 \<le> share" and "0 \<le> z" and "0 < util"
  shows "n \<le> n'"
proof -
  let ?x = "replicas_needed ds share cap z / util - 1 / 1000000000"
  let ?y = "replicas_needed ds' share cap z / util - 1 / 1000000000"
  have "replicas_needed ds share cap z \<le> replicas_needed ds' share cap z"
    by (rule replicas_needed_mono) (use assms role_floor_ok(1) in auto)
  then have "?x \<le> ?y" using assms(6) by (simp add: divide_right_mono)
  then have "\<lceil>?x\<rceil> \<le> \<lceil>?y\<rceil>" by (rule ceiling_mono)
  then have "\<lfloor>max (of_int \<lceil>?x\<rceil> :: real) 0\<rfloor> \<le> \<lfloor>max (of_int \<lceil>?y\<rceil> :: real) 0\<rfloor>" by (intro floor_mono) auto
  then show ?thesis
    unfolding role_floor_ok(2)[OF assms(1)] role_floor_ok(2)[OF assms(2)] f64_as_u32_def
    by (intro min.mono nat_mono order_refl)
qed

section \<open>Role counts add up\<close>

definition rr_ok :: "role_replicas \<Rightarrow> bool" where
  "rr_ok r \<longleftrightarrow> rr_total r = rr_aggregated r + rr_prefill r + rr_decode r"

definition role_count :: "role_replicas \<Rightarrow> role \<Rightarrow> nat" where
  "role_count r x = (case x of Aggregated \<Rightarrow> rr_aggregated r | Prefill \<Rightarrow> rr_prefill r | Decode \<Rightarrow> rr_decode r)"

definition pool_role :: "model_pool_spec \<Rightarrow> role \<Rightarrow> bool" where
  "pool_role pool x \<longleftrightarrow> (if da_enabled (mp_disaggregation pool) then x \<noteq> Aggregated else x = Aggregated)"

lemma rr_ok_simps [simp]: "rr_ok (aggregated n)" "p + d < 4294967296 \<Longrightarrow> rr_ok (disaggregated p d)" "rr_ok rr_default"
  by (simp_all add: rr_ok_def aggregated_def disaggregated_def rr_default_def u32_add_exact)

text \<open>
  The width: the replicas of a floor, with the headroom of both roles on top, fit 32 bits. A floor
  saturates at the largest 32-bit number, so a large demand or headroom can exceed this.
\<close>

definition roles_of :: "role_replicas \<Rightarrow> nat" where
  "roles_of r = rr_aggregated r + rr_prefill r + rr_decode r"

definition headroom_of :: "pool_headroom \<Rightarrow> nat" where
  "headroom_of h = failure_domain_k h + maintenance_slots h + hot_spares h + warm_spares h"

definition sizing_fits :: "model_pool_spec \<Rightarrow> profile_spec \<Rightarrow> demand list \<Rightarrow> bool" where
  "sizing_fits pool profile demands \<longleftrightarrow>
     (case mp_max_replicas pool of None \<Rightarrow> True | Some mx \<Rightarrow> mx < 4294967296)
     \<and> (case size_pool pool profile demands of
          Inl _ \<Rightarrow> True | Inr s \<Rightarrow> roles_of (sz_floor s) + 2 * headroom_of (mp_headroom pool) < 4294967296)"

lemma roles_of_simps [simp]: "roles_of (aggregated n) = n" "roles_of (disaggregated p d) = p + d"
  by (simp_all add: roles_of_def aggregated_def disaggregated_def)

lemma role_count_simps [simp]:
  "role_count (aggregated n) Aggregated = n" "role_count (aggregated n) Prefill = 0" "role_count (aggregated n) Decode = 0"
  "role_count (disaggregated p d) Aggregated = 0" "role_count (disaggregated p d) Prefill = p"
  "role_count (disaggregated p d) Decode = d"
  "role_count rr_default x = 0"
  by (simp_all add: role_count_def aggregated_def disaggregated_def rr_default_def split: role.split)

lemma cap_total_ok:
  assumes "mx < 4294967296"
  shows "rr_ok (cap_total r mx) \<and> rr_total (cap_total r mx) \<le> mx"
proof (cases "0 < rr_aggregated r \<or> (rr_prefill r = 0 \<and> rr_decode r = 0)")
  case True
  then show ?thesis by (simp add: cap_total_def) (simp add: aggregated_def)
next
  case False
  define q where "q = clamp (if 2 \<le> mx then 1 else 0) (max (mx - 1) 1)
     (f64_as_u32 (of_int \<lfloor>real (rr_prefill r) / real (rr_total r) * real mx + 1/2\<rfloor>))"
  have q: "q \<le> max (mx - 1) 1" by (auto simp: q_def clamp_def)
  have "cap_total r mx = disaggregated (min q mx) (mx - q)"
    unfolding cap_total_def Let_def q_def by (rule if_not_P[OF False])
  moreover have "min q mx + (mx - q) = mx" using q by linarith
  ultimately show ?thesis using assms by (simp add: disaggregated_def rr_ok_def u32_add_exact)
qed

definition sizing_ok :: "model_pool_spec \<Rightarrow> sizing \<Rightarrow> bool" where
  "sizing_ok pool s \<longleftrightarrow> rr_ok (sz_floor s) \<and> rr_ok (sz_desired s) \<and> rr_ok (sz_min_available s) \<and> rr_ok (sz_warm_loaded s)
     \<and> (\<forall>mx. mp_max_replicas pool = Some mx \<longrightarrow> rr_total (sz_desired s) \<le> mx)
     \<and> (\<forall>f. sz_shortfall s = Some f \<longrightarrow> mp_max_replicas pool = Some (sf_max f) \<and> sf_max f < sf_needed f)"

lemma apply_max_ok:
  assumes "rr_ok (sz_floor s)" "rr_ok (sz_desired s)" "rr_ok (sz_min_available s)" "rr_ok (sz_warm_loaded s)"
    and "sz_shortfall s = None" and "case mp_max_replicas pool of None \<Rightarrow> True | Some mx \<Rightarrow> mx < 4294967296"
  shows "sizing_ok pool (apply_max_replicas pool s)"
    "sz_floor (apply_max_replicas pool s) = sz_floor s" "sz_min_available (apply_max_replicas pool s) = sz_min_available s"
    "sz_warm_loaded (apply_max_replicas pool s) = sz_warm_loaded s"
    "sz_failover_shortfall (apply_max_replicas pool s) = sz_failover_shortfall s"
    "sz_shortfall (apply_max_replicas pool s) = None \<Longrightarrow> sz_desired (apply_max_replicas pool s) = sz_desired s"
  using assms cap_total_ok by (auto simp: apply_max_replicas_def sizing_ok_def split: option.splits)

lemma size_roles_ok:
  assumes "size_roles pool profile ds = Inr (f, d, m)" and "roles_of f + 2 * headroom_of (mp_headroom pool) < 4294967296"
  shows "rr_ok f \<and> rr_ok d \<and> rr_ok m"
proof (cases "da_enabled (mp_disaggregation pool)")
  case True
  let ?h = "mp_headroom pool"
  let ?extra = "u32_add (u32_add (failure_domain_k ?h) (maintenance_slots ?h)) (hot_spares ?h)"
  obtain p q where r: "f = disaggregated p q" "d = disaggregated (u32_add p ?extra) (u32_add q ?extra)"
    "m = disaggregated (u32_add p (failure_domain_k ?h)) (u32_add q (failure_domain_k ?h))"
    using assms(1) True by (auto simp: size_roles_def Let_def split: if_splits sum.splits option.splits)
  have "p + q + 2 * (failure_domain_k ?h + maintenance_slots ?h + hot_spares ?h + warm_spares ?h) < 4294967296"
    using assms(2) unfolding r(1) headroom_of_def by simp
  then show ?thesis unfolding r by (simp add: u32_add_exact)
next
  case False
  then show ?thesis using assms by (auto simp: size_roles_def Let_def split: sum.splits)
qed

lemma size_pool_ok:
  assumes "size_pool pool profile ds = Inr b" and "sizing_fits pool profile ds"
  shows "sizing_ok pool b"
proof -
  obtain f d m where r: "size_roles pool profile ds = Inr (f, d, m)"
    and b: "b = apply_max_replicas pool \<lparr>sz_floor = f, sz_desired = d, sz_min_available = m,
                sz_allocated_wu_per_sec = allocated_of ds, sz_shortfall = None,
                sz_warm_loaded = rr_default, sz_failover_shortfall = 0\<rparr>"
    using assms(1) by (auto simp: size_pool_def Let_def split: if_splits sum.splits)
  have w: "case mp_max_replicas pool of None \<Rightarrow> True | Some mx \<Rightarrow> mx < 4294967296"
    "roles_of (sz_floor b) + 2 * headroom_of (mp_headroom pool) < 4294967296"
    using assms unfolding sizing_fits_def by simp_all
  have "sz_floor b = f" unfolding b apply_max_replicas_def by (simp split: option.split)
  then have "rr_ok f \<and> rr_ok d \<and> rr_ok m" using size_roles_ok[OF r] w(2) by simp
  then show ?thesis unfolding b by (intro apply_max_ok(1)) (use w(1) in simp_all)
qed

text \<open>The replicas a failover sizing gives one role, exact when they fit.\<close>

lemma warm_role_spec:
  assumes "warm_role h b f prev = (l, sh)"
  shows "l \<le> warm_spares h" "sh \<le> f" "min prev (warm_spares h) \<le> l" "b \<le> f \<Longrightarrow> sh = 0 \<Longrightarrow> f \<le> b + hot_spares h + l"
  using assms by (auto simp: warm_role_def Let_def)

definition warm_desired :: "pool_headroom \<Rightarrow> nat \<Rightarrow> nat \<Rightarrow> nat" where
  "warm_desired h b l = b + failure_domain_k h + maintenance_slots h + hot_spares h + l"

lemma desired_exact:
  assumes "l \<le> warm_spares h" and "b + headroom_of h < 4294967296"
  shows "u32_add (base_desired h b) l = warm_desired h b l"
    and "u32_sub (u32_add (base_desired h b) l) (maintenance_slots h) = warm_desired h b l - maintenance_slots h"
    and "warm_desired h b l \<le> b + headroom_of h"
proof -
  have b: "base_desired h b = b + failure_domain_k h + maintenance_slots h + hot_spares h"
    using assms(2) by (simp add: base_desired_def headroom_of_def u32_add_exact)
  then show d: "u32_add (base_desired h b) l = warm_desired h b l"
    using assms by (simp add: warm_desired_def headroom_of_def u32_add_exact)
  show "warm_desired h b l \<le> b + headroom_of h" using assms(1) by (simp add: warm_desired_def headroom_of_def)
  then have "warm_desired h b l < 4294967296" "maintenance_slots h \<le> warm_desired h b l"
    using assms(2) by (simp_all add: warm_desired_def)
  then show "u32_sub (u32_add (base_desired h b) l) (maintenance_slots h) = warm_desired h b l - maintenance_slots h"
    unfolding d by (intro u32_sub_exact)
qed

text \<open>A failover sizing before the cap is applied, role by role.\<close>

definition failover_role :: "pool_headroom \<Rightarrow> role_replicas \<Rightarrow> role_replicas \<Rightarrow> role_replicas \<Rightarrow> role \<Rightarrow> nat \<times> nat \<times> nat \<times> nat" where
  "failover_role h base fo previous x =
     (let (l, sh) = warm_role h (role_count base x) (role_count fo x) (role_count previous x);
          d = u32_add (base_desired h (role_count base x)) l
      in (l, sh, d, min (u32_add (role_count fo x) (failure_domain_k h)) (u32_sub d (maintenance_slots h))))"

definition failover_sizing :: "model_pool_spec \<Rightarrow> sizing \<Rightarrow> (role \<Rightarrow> nat \<times> nat \<times> nat \<times> nat) \<Rightarrow> sizing" where
  "failover_sizing pool base r =
     (let pick = (\<lambda>sel. if da_enabled (mp_disaggregation pool) then disaggregated (sel (r Prefill)) (sel (r Decode)) else aggregated (sel (r Aggregated)))
      in \<lparr>sz_floor = sz_floor base, sz_desired = pick (fst \<circ> snd \<circ> snd), sz_min_available = pick (snd \<circ> snd \<circ> snd),
          sz_allocated_wu_per_sec = sz_allocated_wu_per_sec base, sz_shortfall = None, sz_warm_loaded = pick fst,
          sz_failover_shortfall = (if da_enabled (mp_disaggregation pool) then u32_add (fst (snd (r Prefill))) (fst (snd (r Decode)))
            else fst (snd (r Aggregated)))\<rparr>)"

lemma size_with_failover_cases:
  assumes "size_with_failover pool profile demands extra previous = Inr s"
  obtains base where "size_pool pool profile demands = Inr base" "sum_list (map extra_of extra) \<le> 0" "s = base"
  | base fo where "size_pool pool profile demands = Inr base" "\<not> sum_list (map extra_of extra) \<le> 0"
      "size_pool pool profile (with_extra demands extra) = Inr fo"
      "s = apply_max_replicas pool (failover_sizing pool base (failover_role (mp_headroom pool) (sz_floor base) (sz_floor fo) previous))"
proof -
  from assms obtain base where b: "size_pool pool profile demands = Inr base"
    by (auto simp: size_with_failover_def split: sum.splits)
  show thesis
  proof (cases "sum_list (map extra_of extra) \<le> 0")
    case True
    then show ?thesis using that(1) assms b by (simp add: size_with_failover_def)
  next
    case False
    with assms b obtain fo where fo: "size_pool pool profile (with_extra demands extra) = Inr fo"
      by (auto simp: size_with_failover_def split: sum.splits)
    have "s = apply_max_replicas pool (failover_sizing pool base (failover_role (mp_headroom pool) (sz_floor base) (sz_floor fo) previous))"
      using assms b fo False
      by (cases "da_enabled (mp_disaggregation pool)")
        (simp_all add: size_with_failover_def failover_sizing_def failover_role_def role_count_def Let_def split_beta)
    then show ?thesis using that(2) b fo False by blast
  qed
qed

lemma failover_role_bounds:
  assumes "failover_role h base fo previous x = (l, sh, d, m)" and "role_count base x + headroom_of h < 4294967296"
  shows "l \<le> warm_spares h" "m \<le> d" "d \<le> role_count base x + headroom_of h"
proof -
  obtain l' sh' where w: "warm_role h (role_count base x) (role_count fo x) (role_count previous x) = (l', sh')" by fastforce
  show l: "l \<le> warm_spares h" using assms(1) w warm_role_spec(1)[OF w] by (simp add: failover_role_def Let_def)
  have "d = warm_desired h (role_count base x) l" "m \<le> warm_desired h (role_count base x) l - maintenance_slots h"
    using assms(1) w desired_exact(1,2)[OF warm_role_spec(1)[OF w] assms(2)] by (auto simp: failover_role_def Let_def)
  then show "m \<le> d" "d \<le> role_count base x + headroom_of h" using desired_exact(3)[OF l assms(2)] by simp_all
qed

lemma failover_sizing_ok:
  fixes fo previous :: role_replicas
  assumes "rr_ok (sz_floor base)" and "roles_of (sz_floor base) + 2 * headroom_of (mp_headroom pool) < 4294967296"
  defines "r \<equiv> failover_role (mp_headroom pool) (sz_floor base) fo previous"
  shows "rr_ok (sz_desired (failover_sizing pool base r))" "rr_ok (sz_min_available (failover_sizing pool base r))"
    "rr_ok (sz_warm_loaded (failover_sizing pool base r))"
proof -
  let ?h = "mp_headroom pool" and ?b = "\<lambda>x. role_count (sz_floor base) x"
  have fits: "?b x + headroom_of ?h < 4294967296" for x using assms(2) by (cases x) (simp_all add: roles_of_def role_count_def)
  have b: "fst (r x) \<le> warm_spares ?h" "snd (snd (snd (r x))) \<le> fst (snd (snd (r x)))" "fst (snd (snd (r x))) \<le> ?b x + headroom_of ?h" for x
    using failover_role_bounds[of ?h "sz_floor base" fo previous x, OF _ fits] unfolding r_def by (metis prod.collapse)+
  have d: "fst (snd (snd (r Prefill))) + fst (snd (snd (r Decode))) < 4294967296"
    using b(3)[of Prefill] b(3)[of Decode] assms(2) by (simp add: roles_of_def role_count_def)
  moreover have "snd (snd (snd (r Prefill))) + snd (snd (snd (r Decode))) < 4294967296" using d b(2)[of Prefill] b(2)[of Decode] by linarith
  moreover have "fst (r Prefill) + fst (r Decode) < 4294967296"
    using b(1)[of Prefill] b(1)[of Decode] assms(2) by (simp add: headroom_of_def)
  ultimately show "rr_ok (sz_desired (failover_sizing pool base r))" "rr_ok (sz_min_available (failover_sizing pool base r))"
    "rr_ok (sz_warm_loaded (failover_sizing pool base r))"
    by (simp_all add: failover_sizing_def Let_def)
qed

lemma size_with_failover_ok:
  assumes "size_with_failover pool profile demands extra previous = Inr s" and "sizing_fits pool profile demands"
  shows "sizing_ok pool s"
  using assms(1)
proof (cases rule: size_with_failover_cases)
  case (1 base)
  then show ?thesis using size_pool_ok assms(2) by simp
next
  case (2 base fo)
  have w: "case mp_max_replicas pool of None \<Rightarrow> True | Some mx \<Rightarrow> mx < 4294967296"
    "roles_of (sz_floor base) + 2 * headroom_of (mp_headroom pool) < 4294967296"
    using assms(2) 2(1) unfolding sizing_fits_def by simp_all
  have f: "rr_ok (sz_floor base)" using size_pool_ok[OF 2(1) assms(2)] by (simp add: sizing_ok_def)
  show ?thesis unfolding 2(4)
    by (rule apply_max_ok(1)) (use failover_sizing_ok[OF f w(2)] f w(1) in \<open>simp_all add: failover_sizing_def Let_def\<close>)
qed

lemma add_surge_exact:
  assumes "add_surge desired surge mx = (out, added)" and "rr_ok desired" and "rr_ok surge"
    and "rr_total desired + rr_total surge < 4294967296"
  shows "rr_ok out \<and> rr_ok added" and "role_count added x \<le> role_count surge x"
    and "role_count out x = role_count desired x + role_count added x"
    and "rr_total out \<le> rr_total desired + (case mx of None \<Rightarrow> u32_max | Some n \<Rightarrow> n - rr_total desired)"
proof -
  define room where "room = (case mx of None \<Rightarrow> u32_max | Some n \<Rightarrow> n - rr_total desired)"
  define d p a where "d = min (rr_decode surge) room" and "p = min (rr_prefill surge) (room - d)"
    and "a = min (rr_aggregated surge) (room - d - p)"
  have "d \<le> room" "p \<le> room - d" "a \<le> room - d - p" by (simp_all add: d_def p_def a_def)
  then have b: "d \<le> rr_decode surge" "p \<le> rr_prefill surge" "a \<le> rr_aggregated surge" "a + p + d \<le> room"
    by (simp add: d_def, simp add: p_def, simp add: a_def, linarith)
  have w: "rr_aggregated desired + rr_prefill desired + rr_decode desired + (rr_aggregated surge + rr_prefill surge + rr_decode surge) < 4294967296"
    using assms(2-4) by (simp add: rr_ok_def)
  have sums: "u32_add (u32_add a p) d = a + p + d" "u32_add (rr_aggregated desired) a = rr_aggregated desired + a"
    "u32_add (rr_prefill desired) p = rr_prefill desired + p" "u32_add (rr_decode desired) d = rr_decode desired + d"
    "u32_add (rr_total desired) (a + p + d) = rr_total desired + (a + p + d)"
    using b(1-3) w assms(2) by (simp_all add: u32_add_exact rr_ok_def)
  have added: "added = \<lparr>rr_aggregated = a, rr_prefill = p, rr_decode = d, rr_total = a + p + d\<rparr>"
    and out: "out = \<lparr>rr_aggregated = rr_aggregated desired + a, rr_prefill = rr_prefill desired + p, rr_decode = rr_decode desired + d,
      rr_total = rr_total desired + (a + p + d)\<rparr>"
    using assms(1) sums unfolding add_surge_def Let_def room_def[symmetric] d_def[symmetric] p_def[symmetric] a_def[symmetric] by auto
  show "rr_ok out \<and> rr_ok added" "role_count out x = role_count desired x + role_count added x" "role_count added x \<le> role_count surge x"
    "rr_total out \<le> rr_total desired + (case mx of None \<Rightarrow> u32_max | Some n \<Rightarrow> n - rr_total desired)"
    using assms(2) b unfolding room_def[symmetric] out added by (auto simp: rr_ok_def role_count_def split: role.split)
qed

text \<open>
  C22. Role counts are consistent as long as they fit 32 bits. When the replicas of the floor, with the
  pool's headroom for two roles on top, fit the width of the counters, each total of a sizing, with
  or without a failover, is the sum of its roles, the desired total respects the pool's cap, and a
  shortfall is reported only with that cap and a larger need; adding a drain surge with which the
  desired total still fits keeps all of this, and never adds more than the surge asks for. Without
  these conditions the sums wrap.
\<close>

theorem sizing_well_formed:
  assumes "size_with_failover pool profile demands extra previous = Inr s" and "sizing_fits pool profile demands"
    and "rr_ok surge" and "add_surge (sz_desired s) surge (mp_max_replicas pool) = (out, added)"
    and "rr_total (sz_desired s) + rr_total surge < 4294967296"
  shows "sizing_ok pool s \<and> rr_ok out \<and> rr_ok added
    \<and> (\<forall>mx. mp_max_replicas pool = Some mx \<longrightarrow> rr_total out \<le> mx)
    \<and> role_count added x \<le> role_count surge x
    \<and> role_count out x = role_count (sz_desired s) x + role_count added x"
proof -
  have s: "sizing_ok pool s" by (rule size_with_failover_ok[OF assms(1,2)])
  then have d: "rr_ok (sz_desired s)" "\<And>mx. mp_max_replicas pool = Some mx \<Longrightarrow> rr_total (sz_desired s) \<le> mx"
    by (auto simp: sizing_ok_def)
  note a = add_surge_exact[OF assms(4) d(1) assms(3,5)]
  have "rr_total out \<le> mx" if "mp_max_replicas pool = Some mx" for mx
    using a(4) d(2)[OF that] that by simp
  then show ?thesis using s a(1-3) by blast
qed

text \<open>A floor that saturates: the headroom wraps and the pool is sized to two replicas.\<close>

lemma sizing_wraps:
  assumes "role_floor demands 1 (pf_capacity profile) ''aggregated'' (mp_target_utilization pool) (mp_burst_z pool) = Inr u32_max"
    and "\<not> da_enabled (mp_disaggregation pool)"
    and "failure_domain_k (mp_headroom pool) + maintenance_slots (mp_headroom pool) + hot_spares (mp_headroom pool) = 3"
  shows "\<exists>f m. size_roles pool profile demands = Inr (f, aggregated 2, m)"
proof -
  let ?h = "mp_headroom pool"
  have "u32_add (u32_add (u32_add u32_max (failure_domain_k ?h)) (maintenance_slots ?h)) (hot_spares ?h) = (u32_max + 3) mod 4294967296"
    using assms(3) by (simp add: u32_add_def mod_add_left_eq add.assoc)
  also have "\<dots> = 2" by (simp add: u32_max_def)
  finally show ?thesis using assms(1,2) by (simp add: size_roles_def Let_def)
qed

section \<open>Failover sizing\<close>

lemma with_extra_more: "list_all2 more_demand demands (with_extra demands extra)"
proof -
  have e: "0 \<le> extra_of e" for e by (simp add: extra_of_def split: f64_wire.split)
  show ?thesis
    unfolding with_extra_def list_all2_conv_all_nth
    by (auto simp: nth_enumerate_eq more_demand_def wire_add_def e split: f64_wire.splits)
qed

lemma size_pool_floor:
  assumes "size_pool pool profile ds = Inr s"
  shows "\<exists>d m. size_roles pool profile ds = Inr (sz_floor s, d, m)" "0 < mp_target_utilization pool"
  using assms
  by (auto simp: size_pool_def apply_max_replicas_def Let_def split: if_splits sum.splits option.splits)

lemma size_floor_mono:
  assumes "size_pool pool profile ds = Inr a" and "size_pool pool profile ds' = Inr b"
    and "list_all2 more_demand ds ds'" and "0 \<le> mp_burst_z pool"
  shows "role_count (sz_floor a) x \<le> role_count (sz_floor b) x"
proof -
  let ?d = "mp_disaggregation pool"
  obtain d m d' m' where r: "size_roles pool profile ds = Inr (sz_floor a, d, m)"
    "size_roles pool profile ds' = Inr (sz_floor b, d', m')" and u: "0 < mp_target_utilization pool"
    using size_pool_floor assms(1,2) by metis
  note mono = role_floor_mono[OF _ _ assms(3) _ assms(4) u]
  show ?thesis
  proof (cases "da_enabled ?d")
    case False
    then obtain n n' where
      "role_floor ds 1 (pf_capacity profile) ''aggregated'' (mp_target_utilization pool) (mp_burst_z pool) = Inr n"
      "role_floor ds' 1 (pf_capacity profile) ''aggregated'' (mp_target_utilization pool) (mp_burst_z pool) = Inr n'"
      "sz_floor a = aggregated n" "sz_floor b = aggregated n'"
      using r by (auto simp: size_roles_def Let_def split: sum.splits)
    then show ?thesis using mono[of 1] by (cases x) simp_all
  next
    case True
    define pc where "pc = (case pf_role_capacity profile of Some rc \<Rightarrow> rcap_prefill rc | None \<Rightarrow> pf_capacity profile)"
    define dc where "dc = (case pf_role_capacity profile of Some rc \<Rightarrow> rcap_decode rc | None \<Rightarrow> pf_capacity profile)"
    have sh: "0 < da_prefill_share ?d" "da_prefill_share ?d < 1" using r True by (auto simp: size_roles_def Let_def split: if_splits)
    obtain p q p' q' where
      f: "role_floor ds (da_prefill_share ?d) pc ''prefill'' (mp_target_utilization pool) (mp_burst_z pool) = Inr p"
      "role_floor ds (1 - da_prefill_share ?d) dc ''decode'' (mp_target_utilization pool) (mp_burst_z pool) = Inr q"
      "role_floor ds' (da_prefill_share ?d) pc ''prefill'' (mp_target_utilization pool) (mp_burst_z pool) = Inr p'"
      "role_floor ds' (1 - da_prefill_share ?d) dc ''decode'' (mp_target_utilization pool) (mp_burst_z pool) = Inr q'"
      and fl: "sz_floor a = disaggregated (max p (da_prefill_replicas_min ?d)) (max q (da_decode_replicas_min ?d))"
        "sz_floor b = disaggregated (max p' (da_prefill_replicas_min ?d)) (max q' (da_decode_replicas_min ?d))"
      using r True sh unfolding size_roles_def pc_def dc_def Let_def
      by (auto split: sum.splits option.splits)
    have "p \<le> p'" "q \<le> q'" using mono[OF f(1,3)] mono[OF f(2,4)] sh by auto
    then show ?thesis unfolding fl by (cases x) auto
  qed
qed

text \<open>One role of a failover sizing.\<close>

definition role_sized :: "pool_headroom \<Rightarrow> nat \<Rightarrow> nat \<Rightarrow> nat \<Rightarrow> nat \<Rightarrow> nat \<Rightarrow> nat \<Rightarrow> nat \<Rightarrow> bool" where
  "role_sized h b f prev l sh d m \<longleftrightarrow>
     l \<le> warm_spares h \<and> min prev (warm_spares h) \<le> l \<and> b + failure_domain_k h \<le> m
     \<and> (sh = 0 \<longrightarrow> m = f + failure_domain_k h) \<and> m + maintenance_slots h \<le> d"

lemma role_sizedI:
  assumes "failover_role h base fo previous x = (l, sh, d, m)" and "role_count base x \<le> role_count fo x"
    and "role_count fo x + headroom_of h < 4294967296"
  shows "role_sized h (role_count base x) (role_count fo x) (role_count previous x) l sh d m" and "sh \<le> role_count fo x"
proof -
  let ?b = "role_count base x" and ?f = "role_count fo x"
  obtain l' sh' where w: "warm_role h ?b ?f (role_count previous x) = (l', sh')" by fastforce
  have b: "?b + headroom_of h < 4294967296" using assms(2,3) by linarith
  have "u32_add ?f (failure_domain_k h) = ?f + failure_domain_k h" using assms(3) by (simp add: headroom_of_def u32_add_exact)
  then have eq: "l = l'" "sh = sh'" "d = warm_desired h ?b l" "m = min (?f + failure_domain_k h) (warm_desired h ?b l - maintenance_slots h)"
    using assms(1) w desired_exact(1,2)[OF warm_role_spec(1)[OF w] b] by (auto simp: failover_role_def Let_def)
  then show "role_sized h ?b ?f (role_count previous x) l sh d m" "sh \<le> ?f"
    using warm_role_spec[OF w] assms(2) by (auto simp: role_sized_def warm_desired_def)
qed

lemma failover_sizing_roles:
  assumes "size_with_failover pool profile demands extra previous = Inr s"
    and "size_pool pool profile demands = Inr base" and "size_pool pool profile (with_extra demands extra) = Inr fo"
    and "0 < sum_list (map extra_of extra)" and "pool_role pool x"
    and le: "\<And>x. role_count (sz_floor base) x \<le> role_count (sz_floor fo) x"
    and fits: "sizing_fits pool profile demands" "sizing_fits pool profile (with_extra demands extra)"
  shows "\<exists>sh d. role_sized (mp_headroom pool) (role_count (sz_floor base) x) (role_count (sz_floor fo) x)
       (role_count previous x) (role_count (sz_warm_loaded s) x) sh d (role_count (sz_min_available s) x)
     \<and> (sz_failover_shortfall s = 0 \<longrightarrow> sh = 0)
     \<and> (sz_shortfall s = None \<longrightarrow> d = role_count (sz_desired s) x)"
proof -
  let ?h = "mp_headroom pool"
  let ?r = "failover_role ?h (sz_floor base) (sz_floor fo) previous"
  let ?s0 = "failover_sizing pool base ?r"
  have s: "s = apply_max_replicas pool ?s0" using size_with_failover_cases[OF assms(1)] assms(2-4) by force
  have w: "case mp_max_replicas pool of None \<Rightarrow> True | Some mx \<Rightarrow> mx < 4294967296"
    "roles_of (sz_floor base) + 2 * headroom_of ?h < 4294967296" "roles_of (sz_floor fo) + 2 * headroom_of ?h < 4294967296"
    using fits assms(2,3) unfolding sizing_fits_def by simp_all
  have f: "rr_ok (sz_floor base)" using size_pool_ok[OF assms(2) fits(1)] by (simp add: sizing_ok_def)
  have a: "sz_warm_loaded s = sz_warm_loaded ?s0" "sz_failover_shortfall s = sz_failover_shortfall ?s0"
    "sz_min_available s = sz_min_available ?s0" "sz_shortfall s = None \<Longrightarrow> sz_desired s = sz_desired ?s0"
    unfolding s using apply_max_ok(3-6)[of ?s0 pool] failover_sizing_ok[OF f w(2), of "sz_floor fo" previous] f w(1)
    by (simp_all add: failover_sizing_def Let_def)
  have fo: "role_count (sz_floor fo) y + headroom_of ?h < 4294967296" for y
    using w(3) by (cases y) (simp_all add: roles_of_def role_count_def)
  have rs: "role_sized ?h (role_count (sz_floor base) y) (role_count (sz_floor fo) y) (role_count previous y) (fst (?r y)) (fst (snd (?r y)))
      (fst (snd (snd (?r y)))) (snd (snd (snd (?r y))))" "fst (snd (?r y)) \<le> role_count (sz_floor fo) y" for y
    using role_sizedI[of ?h "sz_floor base" "sz_floor fo" previous y, OF _ le fo] by (metis prod.collapse)+
  have "u32_add (fst (snd (?r Prefill))) (fst (snd (?r Decode))) = fst (snd (?r Prefill)) + fst (snd (?r Decode))"
    using rs(2)[of Prefill] rs(2)[of Decode] w(3) by (intro u32_add_exact) (simp add: roles_of_def role_count_def)
  then have "role_count (sz_warm_loaded ?s0) x = fst (?r x) \<and> role_count (sz_min_available ?s0) x = snd (snd (snd (?r x)))
      \<and> role_count (sz_desired ?s0) x = fst (snd (snd (?r x))) \<and> (sz_failover_shortfall ?s0 = 0 \<longrightarrow> fst (snd (?r x)) = 0)"
    using assms(5) by (cases x) (auto simp: failover_sizing_def pool_role_def split: if_splits)
  then show ?thesis using rs(1)[of x] a by (intro exI[of _ "fst (snd (?r x))"] exI[of _ "fst (snd (snd (?r x)))"]) auto
qed

text \<open>
  Failover sizing holds the floor and covers the failover. With extra failover demand, for
  each role of the pool: the warm spares loaded are at most those the pool has and never
  fewer than were loaded before; the minimum kept available is at least the floor plus the
  failure-domain headroom, and when no failover shortfall is reported it is exactly the floor
  sized for the failover demand plus that headroom; and unless the replica cap bites, the
  desired replicas leave the maintenance slots free above that minimum. Both floors, with the
  headroom, fit 32 bits.
\<close>

theorem failover_sizing_covers:
  assumes "size_with_failover pool profile demands extra previous = Inr s"
    and "size_pool pool profile demands = Inr base" and "size_pool pool profile (with_extra demands extra) = Inr fo"
    and "0 < sum_list (map extra_of extra)" and "pool_role pool x" and "0 \<le> mp_burst_z pool"
    and "sizing_fits pool profile demands" and "sizing_fits pool profile (with_extra demands extra)"
  defines "h \<equiv> mp_headroom pool"
  shows "role_count (sz_warm_loaded s) x \<le> warm_spares h
    \<and> min (role_count previous x) (warm_spares h) \<le> role_count (sz_warm_loaded s) x
    \<and> role_count (sz_floor base) x + failure_domain_k h \<le> role_count (sz_min_available s) x
    \<and> (sz_failover_shortfall s = 0 \<longrightarrow>
         role_count (sz_min_available s) x = role_count (sz_floor fo) x + failure_domain_k h)
    \<and> (sz_shortfall s = None \<longrightarrow>
         role_count (sz_min_available s) x + maintenance_slots h \<le> role_count (sz_desired s) x)"
proof -
  have "role_count (sz_floor base) y \<le> role_count (sz_floor fo) y" for y
    by (rule size_floor_mono[OF assms(2,3) with_extra_more assms(6)])
  from failover_sizing_roles[OF assms(1-5) this assms(7,8)] show ?thesis
    unfolding h_def role_sized_def by auto
qed

definition demo_pool_spec :: model_pool_spec where
  "demo_pool_spec = \<lparr>mp_disaggregation = disaggregation_default,
     mp_headroom = \<lparr>failure_domain_k = 1, maintenance_slots = 1, hot_spares = 1, warm_spares = 2\<rparr>,
     mp_target_utilization = 8/10, mp_burst_z = 2, mp_max_replicas = Some 20\<rparr>"

definition demo_profile_spec :: profile_spec where
  "demo_profile_spec = \<lparr>pf_capacity = demo_cap, pf_role_capacity = None\<rparr>"

definition demo_sizing :: "nat \<Rightarrow> sizing" where
  "demo_sizing n = \<lparr>sz_floor = aggregated n, sz_desired = aggregated (n + 3), sz_min_available = aggregated (n + 1),
     sz_allocated_wu_per_sec = Finite (if n = 3 then 116000 else 232000), sz_shortfall = None,
     sz_warm_loaded = rr_default, sz_failover_shortfall = 0\<rparr>"

definition demo_failover_sizing :: sizing where
  "demo_failover_sizing = (demo_sizing 3)\<lparr>sz_desired := aggregated 7, sz_min_available := aggregated 6,
     sz_warm_loaded := aggregated 1\<rparr>"

lemma demo_role_floor_double:
  "role_floor [demo_demand\<lparr>dm_wu_per_sec := Finite 232000\<rparr>] 1 demo_cap ''aggregated'' (8/10) 2 = Inr 5"
proof -
  have "\<lceil>(5 - 1 / 1000000000 :: real)\<rceil> = 5" by (rule ceiling_unique) simp_all
  then show ?thesis
    by (simp add: role_floor_def demo_demand_def demo_cap_def for_tier_def f64_as_u32_def Let_def)
qed

lemmas sizing_eval = size_pool_def size_roles_def demo_pool_spec_def demo_profile_spec_def disaggregation_default_def
  apply_max_replicas_def demo_sizing_def allocated_of_def wire_add_def u32_add_def

lemma demo_size:
  "size_pool demo_pool_spec demo_profile_spec [demo_demand] = Inr (demo_sizing 3)"
  "size_pool demo_pool_spec demo_profile_spec [demo_demand\<lparr>dm_wu_per_sec := Finite 232000\<rparr>] = Inr (demo_sizing 5)"
  using demo_role_floor demo_role_floor_double
  by (simp_all add: sizing_eval) (simp_all add: aggregated_def demo_demand_def)

lemma demo_with_extra: "with_extra [demo_demand] [Finite 116000] = [demo_demand\<lparr>dm_wu_per_sec := Finite 232000\<rparr>]"
  by (simp add: with_extra_def extra_of_def wire_add_def demo_demand_def enumerate_eq_zip)

lemma demo_failover:
  "size_with_failover demo_pool_spec demo_profile_spec [demo_demand] [Finite 116000] rr_default = Inr demo_failover_sizing"
proof -
  have w: "base_desired (mp_headroom demo_pool_spec) 3 = 6" "u32_add 6 (Suc 0) = 7" "u32_sub 7 (Suc 0) = 6" "u32_add 5 (Suc 0) = 6"
    by (simp_all add: base_desired_def demo_pool_spec_def u32_add_exact u32_sub_exact)
  have "warm_role (mp_headroom demo_pool_spec) 3 5 0 = (1, 0)" by (simp add: warm_role_def demo_pool_spec_def)
  moreover have "rr_aggregated (sz_floor (demo_sizing n)) = n" "rr_aggregated rr_default = 0" for n
    by (simp_all add: demo_sizing_def aggregated_def rr_default_def)
  moreover have "\<not> da_enabled (mp_disaggregation demo_pool_spec)" "failure_domain_k (mp_headroom demo_pool_spec) = 1"
    "maintenance_slots (mp_headroom demo_pool_spec) = 1" "mp_max_replicas demo_pool_spec = Some 20"
    by (simp_all add: demo_pool_spec_def disaggregation_default_def)
  ultimately show ?thesis unfolding size_with_failover_def demo_size demo_with_extra Let_def
    by (simp add: w extra_of_def apply_max_replicas_def demo_failover_sizing_def aggregated_def) (simp add: demo_sizing_def)
qed

lemma demo_fits:
  "sizing_fits demo_pool_spec demo_profile_spec [demo_demand]"
  "sizing_fits demo_pool_spec demo_profile_spec (with_extra [demo_demand] [Finite 116000])"
  unfolding sizing_fits_def demo_with_extra demo_size
  by (simp_all add: demo_pool_spec_def demo_sizing_def headroom_of_def)

theorem failover_sizing_covers_witness:
  "role_count (sz_min_available demo_failover_sizing) Aggregated = role_count (sz_floor (demo_sizing 5)) Aggregated + 1
   \<and> role_count (sz_min_available demo_failover_sizing) Aggregated + 1 \<le> role_count (sz_desired demo_failover_sizing) Aggregated"
  using failover_sizing_covers[OF demo_failover demo_size(1) demo_size(2)[folded demo_with_extra] _ _ _ demo_fits, of Aggregated]
  by (simp add: extra_of_def pool_role_def demo_pool_spec_def disaggregation_default_def demo_failover_sizing_def demo_sizing_def)

theorem sizing_well_formed_witness:
  "sizing_ok demo_pool_spec demo_failover_sizing
   \<and> rr_ok (fst (add_surge (sz_desired demo_failover_sizing) (aggregated 2) (mp_max_replicas demo_pool_spec)))
   \<and> rr_total (fst (add_surge (sz_desired demo_failover_sizing) (aggregated 2) (mp_max_replicas demo_pool_spec))) \<le> 20"
proof -
  have "rr_total (sz_desired demo_failover_sizing) + rr_total (aggregated 2) < 4294967296" "mp_max_replicas demo_pool_spec = Some 20"
    by (simp_all add: demo_failover_sizing_def aggregated_def demo_pool_spec_def)
  with sizing_well_formed[OF demo_failover demo_fits(1) rr_ok_simps(1) prod.collapse[symmetric], of 2] show ?thesis by simp
qed

section \<open>Spares beyond the floor\<close>

lemma promote_eq:
  "promote want ps spares = spares @ take (want - length spares) (map pd_name (filter (\<lambda>p. \<not> is_spare p) ps))"
proof (induction ps arbitrary: spares)
  case (Cons p ps)
  show ?case
  proof (cases "length spares < want")
    case True
    then have "want - length spares = Suc (want - Suc (length spares))" by simp
    then show ?thesis using True Cons.IH by simp
  qed simp
qed simp

lemma filter_partition_length: "length (filter P xs) + length (filter (\<lambda>x. \<not> P x) xs) = length xs"
  by (induction xs) auto

text \<open>What \<open>choose_spares\<close> picks: as many as wanted, all serving, current spares first.\<close>

lemma choose_spares_spec:
  fixes hot min_avail :: nat
  assumes "distinct (map pd_name serving)"
  defines "want \<equiv> min hot (length serving - min_avail)"
  shows "distinct (choose_spares hot min_avail serving)" "length (choose_spares hot min_avail serving) = want"
    "set (choose_spares hot min_avail serving) \<subseteq> pd_name ` set serving"
    "length (filter is_spare serving) \<le> want \<Longrightarrow> p \<in> set serving \<Longrightarrow> is_spare p \<Longrightarrow>
       pd_name p \<in> set (choose_spares hot min_avail serving)"
    "want \<le> length (filter is_spare serving) \<Longrightarrow>
       choose_spares hot min_avail serving = take want (map pd_name (filter is_spare serving))"
proof -
  let ?sp = "map pd_name (filter is_spare serving)"
  let ?rest = "map pd_name (filter (\<lambda>p. \<not> is_spare p) (rev serving))"
  let ?a = "take want ?sp" and ?b = "take (want - length (take want ?sp)) ?rest"
  have eq: "choose_spares hot min_avail serving = ?a @ ?b"
    by (simp add: choose_spares_def promote_eq want_def Let_def)
  have inj: "inj_on pd_name (set serving)" and d: "distinct serving"
    using assms(1) by (simp_all add: distinct_map)
  have "set ?sp \<inter> set ?rest = {}" using inj by (auto dest: inj_onD)
  moreover have "set ?a \<subseteq> set ?sp" "set ?b \<subseteq> set ?rest" using set_take_subset by fastforce+
  ultimately have "set ?a \<inter> set ?b = {}" by blast
  moreover have "distinct ?sp" "distinct ?rest"
    using inj d by (auto simp: distinct_map intro: inj_on_subset)
  ultimately show "distinct (choose_spares hot min_avail serving)"
    unfolding eq by simp
  have len: "length ?sp + length ?rest = length serving"
    using filter_partition_length[of is_spare serving] by (simp add: rev_filter[symmetric])
  show "length (choose_spares hot min_avail serving) = want"
    unfolding eq using len by (simp add: want_def) arith
  show "set (choose_spares hot min_avail serving) \<subseteq> pd_name ` set serving"
    unfolding eq by (auto dest!: in_set_takeD)
  show "pd_name p \<in> set (choose_spares hot min_avail serving)"
    if "length (filter is_spare serving) \<le> want" "p \<in> set serving" "is_spare p"
    unfolding eq using that by simp
  show "choose_spares hot min_avail serving = take want (map pd_name (filter is_spare serving))"
    if "want \<le> length (filter is_spare serving)" unfolding eq using that by simp
qed

lemma by_role_spec:
  "sorted (map fst (by_role pods)) \<and> distinct (map fst (by_role pods))
   \<and> map_of (by_role pods) k = (if filter (\<lambda>p. role_as_str (pd_role p) = k) pods = [] then None
                               else Some (filter (\<lambda>p. role_as_str (pd_role p) = k) pods))"
proof (induction pods arbitrary: k rule: rev_induct)
  case Nil
  then show ?case by (simp add: by_role_def)
next
  case (snoc p pods)
  let ?m = "by_role pods" and ?k = "role_as_str (pd_role p)"
  let ?v = "(case map_of ?m ?k of None \<Rightarrow> [] | Some ps \<Rightarrow> ps) @ [p]"
  have step: "by_role (pods @ [p]) = bt_put ?k ?v ?m" by (simp add: by_role_def Let_def)
  have IH: "sorted (map fst ?m) \<and> distinct (map fst ?m)" using snoc.IH by blast
  have "?v = filter (\<lambda>q. role_as_str (pd_role q) = ?k) pods @ [p]" using snoc.IH[of ?k] by simp
  moreover have "map_of (by_role (pods @ [p])) = (map_of ?m)(?k \<mapsto> ?v)"
    unfolding step using IH by (intro map_of_bt_put) auto
  ultimately show ?case
    using sorted_distinct_bt_put[OF IH, of ?k ?v] snoc.IH[of k] unfolding step by auto
qed

lemma role_as_str_inject: "role_as_str a = role_as_str b \<longleftrightarrow> a = b"
  by (cases a; cases b) simp_all

text \<open>The pods of a role, and the label the assignment aims at for a serving pod.\<close>

definition role_pods :: "role \<Rightarrow> pod_serving list \<Rightarrow> pod_serving list" where
  "role_pods r pods = filter (\<lambda>p. pd_role p = r) pods"

definition aim :: "nat \<Rightarrow> (role \<Rightarrow> nat) \<Rightarrow> pod_serving list \<Rightarrow> pod_serving \<Rightarrow> string" where
  "aim hot ma pods p =
     (if pd_name p \<in> set (choose_spares hot (ma (pd_role p)) (serving_pods (role_pods (pd_role p) pods)))
      then SPARE else FLOOR)"

lemma in_by_role:
  "(k, ps) \<in> set (by_role pods) \<longleftrightarrow> (\<exists>r. k = role_as_str r \<and> ps = role_pods r pods \<and> ps \<noteq> [])"
proof -
  have eq: "role_pods r pods = filter (\<lambda>p. role_as_str (pd_role p) = role_as_str r) pods" for r
    by (simp add: role_pods_def role_as_str_inject)
  have "(k, ps) \<in> set (by_role pods) \<longleftrightarrow> map_of (by_role pods) k = Some ps"
    using by_role_spec[of pods k] by (intro map_of_eq_Some_iff[symmetric]) blast
  also have "\<dots> \<longleftrightarrow> ps = filter (\<lambda>p. role_as_str (pd_role p) = k) pods \<and> ps \<noteq> []"
    using by_role_spec[of pods k] by auto
  also have "\<dots> \<longleftrightarrow> (\<exists>r. k = role_as_str r \<and> ps = role_pods r pods \<and> ps \<noteq> [])"
  proof
    assume a: "ps = filter (\<lambda>p. role_as_str (pd_role p) = k) pods \<and> ps \<noteq> []"
    then obtain p where "p \<in> set ps" using list.set_sel(1) by blast
    then have "k = role_as_str (pd_role p)" using a by auto
    then show "\<exists>r. k = role_as_str r \<and> ps = role_pods r pods \<and> ps \<noteq> []" using a unfolding eq by blast
  qed (auto simp: eq)
  finally show ?thesis .
qed

lemma in_role_changes:
  "(n, v) \<in> set (role_changes hot m ps) \<longleftrightarrow>
   (\<exists>p\<in>set ps. n = pd_name p \<and>
      (if pod_up p then v = (if n \<in> set (choose_spares hot m (serving_pods ps)) then SPARE else FLOOR) \<and> pd_serving p \<noteq> Some v
       else is_spare p \<and> v = FLOOR))"
  by (auto simp: role_changes_def set_map_filter serving_pods_def Let_def split: if_splits)

lemma in_assign:
  "(n, v) \<in> set (assign pods hot ma) \<longleftrightarrow>
   (\<exists>p\<in>set pods. n = pd_name p \<and>
      (if pod_up p then v = aim hot ma pods p \<and> pd_serving p \<noteq> Some v else is_spare p \<and> v = FLOOR))"
proof -
  have hd: "pd_role (hd (role_pods r pods)) = r" if "role_pods r pods \<noteq> []" for r
    using list.set_sel(1)[OF that] by (simp add: role_pods_def)
  have "(n, v) \<in> set (assign pods hot ma) \<longleftrightarrow>
     (\<exists>k ps. (k, ps) \<in> set (by_role pods) \<and> (n, v) \<in> set (role_changes hot (ma (pd_role (hd ps))) ps))"
    unfolding assign_def set_sort set_concat set_map by auto
  also have "\<dots> \<longleftrightarrow> (\<exists>r. role_pods r pods \<noteq> [] \<and> (n, v) \<in> set (role_changes hot (ma r) (role_pods r pods)))"
    unfolding in_by_role by (metis hd)
  also have "\<dots> \<longleftrightarrow> (\<exists>r. \<exists>p\<in>set (role_pods r pods). n = pd_name p \<and>
      (if pod_up p then v = aim hot ma pods p \<and> pd_serving p \<noteq> Some v else is_spare p \<and> v = FLOOR))"
  proof (rule ex_cong1)
    fix r
    have "(n, v) \<in> set (role_changes hot (ma r) (role_pods r pods)) \<longleftrightarrow> (\<exists>p\<in>set (role_pods r pods). n = pd_name p \<and>
      (if pod_up p then v = aim hot ma pods p \<and> pd_serving p \<noteq> Some v else is_spare p \<and> v = FLOOR))"
      unfolding in_role_changes by (rule bex_cong) (simp_all add: role_pods_def aim_def cong: conj_cong)
    then show "(role_pods r pods \<noteq> [] \<and> (n, v) \<in> set (role_changes hot (ma r) (role_pods r pods)))
      \<longleftrightarrow> (\<exists>p\<in>set (role_pods r pods). n = pd_name p \<and>
        (if pod_up p then v = aim hot ma pods p \<and> pd_serving p \<noteq> Some v else is_spare p \<and> v = FLOOR))"
      by (metis empty_iff list.set(1))
  qed
  finally show ?thesis by (simp add: role_pods_def) blast
qed

lemma FLOOR_SPARE [simp]: "FLOOR \<noteq> SPARE" "SPARE \<noteq> FLOOR"
  by (simp_all add: FLOOR_def SPARE_def)

lemma aim_cases: "aim hot ma pods p = SPARE \<or> aim hot ma pods p = FLOOR"
  by (simp add: aim_def)

lemma spare_after_iff:
  assumes "distinct (map pd_name pods)" and "p \<in> set pods" and "pod_up p"
  shows "pd_name p \<in> set (spares_after pods (assign pods hot ma)) \<longleftrightarrow> aim hot ma pods p = SPARE"
proof -
  let ?ch = "assign pods hot ma"
  have same: "q = p" if "q \<in> set pods" "pd_name q = pd_name p" for q
    using that assms(1,2) by (auto simp: distinct_map dest: inj_onD)
  have ch: "(pd_name p, v) \<in> set ?ch \<longleftrightarrow> v = aim hot ma pods p \<and> pd_serving p \<noteq> Some v" for v
  proof -
    have "(pd_name p, v) \<in> set ?ch \<longleftrightarrow> (\<exists>q\<in>set pods. pd_name p = pd_name q \<and> q = p \<and>
      (if pod_up q then v = aim hot ma pods q \<and> pd_serving q \<noteq> Some v else is_spare q \<and> v = FLOOR))"
      unfolding in_assign by (rule bex_cong) (use same in auto)
    then show ?thesis using assms(2,3) by simp
  qed
  have label: "(case find (\<lambda>c. fst c = pd_name p) ?ch of Some (_, v) \<Rightarrow> v = SPARE | None \<Rightarrow> is_spare p)
      \<longleftrightarrow> aim hot ma pods p = SPARE"
  proof (cases "find (\<lambda>c. fst c = pd_name p) ?ch")
    case None
    then have "\<And>v. (pd_name p, v) \<notin> set ?ch" by (auto simp: find_None_iff)
    then have "pd_serving p = Some (aim hot ma pods p)" using ch by blast
    then show ?thesis using None by (simp add: is_spare_def)
  next
    case (Some c)
    then have "c \<in> set ?ch" "fst c = pd_name p" by (auto simp: find_Some_iff)
    then have "snd c = aim hot ma pods p" using ch[of "snd c"] by (metis prod.collapse)
    then show ?thesis using Some by (simp add: split_beta)
  qed
  have "pd_name p \<in> set (spares_after pods ?ch) \<longleftrightarrow> (\<exists>q\<in>set pods. pod_up q \<and> pd_name p = pd_name q
      \<and> (case find (\<lambda>c. fst c = pd_name q) ?ch of Some (_, v) \<Rightarrow> v = SPARE | None \<Rightarrow> is_spare q))"
    by (simp add: spares_after_def image_iff) blast
  also have "\<dots> \<longleftrightarrow> (case find (\<lambda>c. fst c = pd_name p) ?ch of Some (_, v) \<Rightarrow> v = SPARE | None \<Rightarrow> is_spare p)"
    using same assms(2,3) by metis
  finally show ?thesis using label by simp
qed

lemma length_filter_names:
  assumes "distinct (map f xs)" and "distinct ns" and "set ns \<subseteq> f ` set xs"
  shows "length (filter (\<lambda>x. f x \<in> set ns) xs) = length ns"
proof -
  have "length (filter (\<lambda>x. f x \<in> set ns) xs) = card (f ` set (filter (\<lambda>x. f x \<in> set ns) xs))"
    using assms(1) by (metis card_image distinct_card distinct_filter distinct_map inj_on_subset filter_is_subset)
  also have "f ` set (filter (\<lambda>x. f x \<in> set ns) xs) = set ns" using assms(3) by auto
  also have "card (set ns) = length ns" using assms(2) by (rule distinct_card)
  finally show ?thesis .
qed

definition up_pods :: "role \<Rightarrow> pod_serving list \<Rightarrow> pod_serving list" where
  "up_pods r pods = filter pod_up (role_pods r pods)"

lemma serving_pods_perm: "mset (serving_pods ps) = mset (filter pod_up ps)"
  by (simp add: serving_pods_def)

text \<open>
  C15. Spares come only from what is beyond the floor, and the choice is stable. For pods with
  distinct names and each role, after the label changes the number of Ready spares is the
  wanted number of hot spares, or what is beyond the role's minimum when that is less, so at
  least the minimum serves as floor whenever that many are up; a pod that is a spare stays one
  unless there are more spares than wanted, and then only current spares remain; and a pod
  that is not up is never counted.
\<close>

theorem spares_beyond_floor:
  fixes hot :: nat and ma :: "role \<Rightarrow> nat" and r :: role
  assumes "distinct (map pd_name pods)"
  defines "spares \<equiv> spares_after pods (assign pods hot ma)"
    and "ups \<equiv> up_pods r pods"
  defines "want \<equiv> min hot (length ups - ma r)"
  shows "length (filter (\<lambda>p. pd_name p \<in> set spares) ups) = want
    \<and> min (ma r) (length ups) \<le> length (filter (\<lambda>p. pd_name p \<notin> set spares) ups)
    \<and> (if length (filter is_spare ups) \<le> want
       then list_all (\<lambda>p. is_spare p \<longrightarrow> pd_name p \<in> set spares) ups
       else list_all (\<lambda>p. pd_name p \<in> set spares \<longrightarrow> is_spare p) ups)
    \<and> set spares \<subseteq> pd_name ` set (filter pod_up pods)"
proof -
  let ?sv = "serving_pods (role_pods r pods)"
  let ?ch = "choose_spares hot (ma r) ?sv"
  have m: "mset ?sv = mset ups" by (simp add: serving_pods_perm ups_def up_pods_def)
  have len: "length ?sv = length ups" and sets: "set ?sv = set ups"
    and lsp: "length (filter is_spare ?sv) = length (filter is_spare ups)"
    using m by (metis size_mset, metis mset_eq_setD, metis mset_filter size_mset)
  have du: "distinct (map pd_name ups)"
    using assms(1) by (auto simp: ups_def up_pods_def role_pods_def distinct_map intro: inj_on_subset)
  have dsv: "distinct (map pd_name ?sv)" using du m by (metis mset_eq_imp_distinct_iff mset_map)
  note ch = choose_spares_spec[OF dsv, where hot = hot and min_avail = "ma r", unfolded len lsp sets, folded want_def]
  have iff: "pd_name p \<in> set spares \<longleftrightarrow> pd_name p \<in> set ?ch" if "p \<in> set ups" for p
  proof -
    have p: "p \<in> set pods" "pod_up p" "pd_role p = r" using that by (auto simp: ups_def up_pods_def role_pods_def)
    show ?thesis using spare_after_iff[OF assms(1) p(1,2), of hot ma] p(3) by (simp add: spares_def aim_def)
  qed
  have "filter (\<lambda>p. pd_name p \<in> set spares) ups = filter (\<lambda>p. pd_name p \<in> set ?ch) ups"
    using iff by (intro filter_cong) auto
  moreover have "length (filter (\<lambda>p. pd_name p \<in> set ?ch) ups) = want"
    using length_filter_names[OF du ch(1,3)] ch(2) by simp
  ultimately have count: "length (filter (\<lambda>p. pd_name p \<in> set spares) ups) = want" by simp
  have "min (ma r) (length ups) \<le> length (filter (\<lambda>p. pd_name p \<notin> set spares) ups)"
    using filter_partition_length[of "\<lambda>p. pd_name p \<in> set spares" ups] count by (simp add: want_def)
  moreover have "list_all (\<lambda>p. is_spare p \<longrightarrow> pd_name p \<in> set spares) ups" if "length (filter is_spare ups) \<le> want"
    using ch(4)[OF that] iff by (auto simp: list_all_iff)
  moreover have "list_all (\<lambda>p. pd_name p \<in> set spares \<longrightarrow> is_spare p) ups" if "\<not> length (filter is_spare ups) \<le> want"
  proof -
    have "is_spare p" if p: "p \<in> set ups" "pd_name p \<in> set ?ch" for p
    proof -
      from p(2) ch(5) \<open>\<not> length (filter is_spare ups) \<le> want\<close> obtain q where "q \<in> set ?sv" "is_spare q" "pd_name q = pd_name p"
        by (auto dest!: in_set_takeD)
      then show ?thesis using p(1) du sets by (auto simp: distinct_map dest: inj_onD)
    qed
    then show ?thesis using iff by (auto simp: list_all_iff)
  qed
  moreover have "set spares \<subseteq> pd_name ` set (filter pod_up pods)" by (auto simp: spares_def spares_after_def)
  ultimately show ?thesis using count by simp
qed

definition demo_pods :: "pod_serving list" where
  "demo_pods =
     [\<lparr>pd_name = ''a'', pd_role = Decode, pd_ready = True, pd_terminating = False, pd_serving = Some FLOOR\<rparr>,
      \<lparr>pd_name = ''b'', pd_role = Decode, pd_ready = True, pd_terminating = False, pd_serving = Some SPARE\<rparr>,
      \<lparr>pd_name = ''c'', pd_role = Decode, pd_ready = False, pd_terminating = False, pd_serving = Some SPARE\<rparr>,
      \<lparr>pd_name = ''d'', pd_role = Decode, pd_ready = True, pd_terminating = False, pd_serving = None\<rparr>]"

theorem spares_beyond_floor_witness:
  "length (filter (\<lambda>p. pd_name p \<in> set (spares_after demo_pods (assign demo_pods 2 (\<lambda>_. 1)))) (up_pods Decode demo_pods)) = 2
   \<and> set (spares_after demo_pods (assign demo_pods 2 (\<lambda>_. 1))) \<subseteq> pd_name ` set (filter pod_up demo_pods)"
proof -
  have d: "distinct (map pd_name demo_pods)" by (simp add: demo_pods_def)
  have u: "length (up_pods Decode demo_pods) = 3" by (simp add: up_pods_def role_pods_def demo_pods_def pod_up_def)
  show ?thesis using spares_beyond_floor[OF d, of 2 "\<lambda>_. 1" Decode] unfolding u by simp
qed

section \<open>Drains\<close>

text \<open>The surge has one replica per worker that a plain drain will evict, in its role.\<close>

definition surged :: "(string \<rightharpoonup> node_state) \<Rightarrow> worker_pod \<Rightarrow> bool" where
  "surged nodes p \<longleftrightarrow> \<not> wp_terminating p
     \<and> (\<exists>nd. nodes (wp_node p) = Some nd \<and> nd_unschedulable nd \<and> \<not> nd_expedite nd)"

lemma assess_pod_surge:
  assumes "assess_pod nodes (surge0, dr, ex) p = (s1, d1, e1)" and "rr_ok surge0" and "rr_total surge0 + 1 < 4294967296"
  shows "rr_ok s1" "rr_total s1 \<le> rr_total surge0 + 1"
    "\<not> wp_terminating p \<Longrightarrow> role_count s1 x = role_count surge0 x + (if surged nodes p \<and> wp_role p = x then 1 else 0)"
proof -
  have w: "u32_add (rr_total surge0) 1 = rr_total surge0 + 1" "u32_add (rr_aggregated surge0) 1 = rr_aggregated surge0 + 1"
    "u32_add (rr_prefill surge0) 1 = rr_prefill surge0 + 1" "u32_add (rr_decode surge0) 1 = rr_decode surge0 + 1"
    using assms(2,3) by (simp_all add: u32_add_exact rr_ok_def)
  have surge: "rr_ok (surge_for surge0 r)" "rr_total (surge_for surge0 r) = rr_total surge0 + 1"
    "role_count (surge_for surge0 r) x = role_count surge0 x + (if r = x then 1 else 0)" for r
    using assms(2) unfolding surge_for_def w by (cases r; cases x; simp add: rr_ok_def role_count_def)+
  show "rr_ok s1" "rr_total s1 \<le> rr_total surge0 + 1"
    "\<not> wp_terminating p \<Longrightarrow> role_count s1 x = role_count surge0 x + (if surged nodes p \<and> wp_role p = x then 1 else 0)"
    using assms(1,2) surge[of "wp_role p"] by (auto simp: assess_pod_def surged_def split: option.splits if_splits)
qed

lemma assess_fold:
  assumes "rr_ok surge0" and "rr_total surge0 + length pods < 4294967296"
  shows "case foldl (assess_pod nodes) (surge0, dr, ex) pods of (surge, _, _) \<Rightarrow>
    rr_ok surge \<and> (list_all (\<lambda>p. \<not> wp_terminating p) pods \<longrightarrow>
      role_count surge x = role_count surge0 x + length (filter (\<lambda>p. surged nodes p \<and> wp_role p = x) pods))"
  using assms
proof (induction pods arbitrary: surge0 dr ex)
  case (Cons p pods)
  obtain s1 d1 e1 where s1: "assess_pod nodes (surge0, dr, ex) p = (s1, d1, e1)" by (metis prod_cases3)
  have "rr_total surge0 + 1 < 4294967296" using Cons.prems(2) by simp
  note one = assess_pod_surge[OF s1 Cons.prems(1) this]
  have "rr_total s1 + length pods < 4294967296" using one(2) Cons.prems(2) by simp
  from Cons.IH[OF one(1) this, of d1 e1] s1 one(3) show ?case by (auto split: prod.splits)
qed simp

text \<open>With fewer pods than the counters can hold the surge is exact.\<close>

lemma assess_surge:
  assumes "length pods < 4294967296"
  shows "role_count (dn_surge (assess pods nodes)) x = length (filter (\<lambda>p. surged nodes p \<and> wp_role p = x) pods)
   \<and> rr_ok (dn_surge (assess pods nodes))"
proof -
  let ?ps = "filter (\<lambda>p. \<not> wp_terminating p) pods"
  have "filter (\<lambda>p. surged nodes p \<and> wp_role p = x) ?ps = filter (\<lambda>p. surged nodes p \<and> wp_role p = x) pods"
    by (auto simp: surged_def intro: filter_cong)
  moreover have "rr_total rr_default + length ?ps < 4294967296"
    using le_less_trans[OF length_filter_le assms] by (simp add: rr_default_def)
  ultimately show ?thesis
    using assess_fold[where ?surge0.0 = rr_default and nodes = nodes and dr = "[]" and ex = "[]" and pods = ?ps and x = x]
    by (auto simp: assess_def list_all_iff split: prod.splits)
qed

end
