(* ===== verification/Model.thy ===== *)
theory Model
  imports Bucket
begin

text \<open>
  The reservation resource of the control plane (\<open>model.rs\<close> of \<open>pt-control-plane\<close>): shares
  of regions, states, scheduled changes, prices, the audit and billing trail, deployments
  and their keys, the request bodies of the API, and the invoices of \<open>billing.rs\<close>. A \<open>Timestamp\<close> and a
  \<open>SignedDuration\<close> are integers of nanoseconds.
\<close>

type_synonym timestamp = int

record region_share =
  rs_region :: string
  rs_cus :: nat

definition total_cus :: "region_share list \<Rightarrow> nat" where
  "total_cus regions = sum_list (map rs_cus regions)"

datatype sku = Regional | MultiRegion

datatype reservation_state = Scheduled | Active | PendingCancellation | Ended | Cancelled

definition is_live :: "reservation_state \<Rightarrow> bool" where
  "is_live s \<longleftrightarrow> s = Scheduled \<or> s = Active \<or> s = PendingCancellation"

record pending_changes =
  pc_tier :: "tier option"
  pc_regions :: "region_share list option"
  pc_effective_at :: timestamp

record price =
  pr_currency :: string
  pr_per_cu_monthly :: nat
  pr_monthly :: nat

record endpoint =
  ep_region :: string
  ep_url :: string

datatype event_kind =
    EvCreated nat nat
  | EvActivated "nat option" "tier option" "nat option"
  | EvCapacityIncreased string nat nat nat "nat option" "nat option"
  | EvChangeScheduled "tier option" "region_share list option"
  | EvChangeApplied tier "region_share list" "nat option"
  | EvScheduledChangeFailed string
  | EvShapeUpdated
  | EvBoundaryPolicyUpdated
  | EvRenamed string
  | EvAutoRenewChanged bool
  | EvSplitRebalanced "region_share list" "region_share list"
  | EvRebalanceChanged bool
  | EvRelocated string
  | EvCancellationRequested timestamp
  | EvCancellationWithdrawn
  | EvKeyRotated string string string "timestamp option"
  | EvKeyRevoked string string
  | EvKeyExpired string string
  | EvDeploymentCreated string string "real option"
  | EvDeploymentUpdated string string "real option"
  | EvDeploymentDeleted string
  | EvRenewed timestamp timestamp nat
  | EvEnded
  | EvCancelled

record event =
  ev_at :: timestamp
  ev_kind :: event_kind

record api_key =
  ak_id :: string
  ak_prefix :: string
  ak_sha256 :: string
  ak_created_at :: timestamp
  ak_expires_at :: "timestamp option"

definition is_current :: "api_key \<Rightarrow> bool" where
  "is_current k \<longleftrightarrow> ak_expires_at k = None"

record deployment =
  dp_id :: string
  dp_name :: string
  dp_max_share :: "real option"
  dp_api_keys :: "api_key list"
  dp_created_at :: timestamp

definition current_key :: "deployment \<Rightarrow> api_key option" where
  "current_key d = find is_current (dp_api_keys d)"

record placement =
  pl_region :: string
  pl_pool :: string

record provisioned_throughput =
  pt_id :: string
  pt_tenant :: string
  pt_name :: string
  pt_model :: string
  pt_tier :: tier
  pt_regions :: "region_share list"
  pt_cus :: nat
  pt_sku :: sku
  pt_isolation :: pool_isolation
  pt_shape :: shape
  pt_boundary_policy :: boundary_policy
  pt_term_months :: term_months
  pt_term_start :: timestamp
  pt_term_end :: timestamp
  pt_auto_renew :: bool
  pt_state :: reservation_state
  pt_pending_changes :: "pending_changes option"
  pt_endpoints :: "endpoint list"
  pt_price :: price
  pt_failover_headroom :: "region_share list"
  pt_rebalance :: bool
  pt_effective_regions :: "region_share list"
  pt_placements :: "placement list"
  pt_deployments :: "deployment list"
  pt_version :: nat
  pt_created_at :: timestamp
  pt_updated_at :: timestamp
  pt_events :: "event list"

definition pt_effective :: "provisioned_throughput \<Rightarrow> region_share list" where
  "pt_effective pt = (if pt_effective_regions pt = [] then pt_regions pt else pt_effective_regions pt)"

record create_request =
  cr_name :: string
  cr_model :: string
  cr_tier :: tier
  cr_regions :: "region_share list"
  cr_sku :: sku
  cr_isolation :: pool_isolation
  cr_term_months :: term_months
  cr_start_at :: "timestamp option"
  cr_auto_renew :: bool
  cr_shape :: shape
  cr_boundary_policy :: boundary_policy
  cr_rebalance :: bool

record update_request =
  up_name :: "string option"
  up_tier :: "tier option"
  up_regions :: "region_share list option"
  up_shape :: "shape option"
  up_boundary_policy :: "boundary_policy option"
  up_auto_renew :: "bool option"
  up_rebalance :: "bool option"

definition update_request_default :: update_request where
  "update_request_default =
     \<lparr>up_name = None, up_tier = None, up_regions = None, up_shape = None, up_boundary_policy = None,
      up_auto_renew = None, up_rebalance = None\<rparr>"

section \<open>Invoices (billing.rs)\<close>

datatype invoice_status = Draft | Final

datatype line_kind = ReservationFee | SpilloverLine | SlaCredit

record invoice_line =
  il_kind :: line_kind
  il_reservation :: string
  il_reservation_name :: string
  il_description :: string
  il_from :: timestamp
  il_to :: timestamp
  il_quantity :: real
  il_unit :: string
  il_unit_price :: int
  il_amount :: int

record invoice =
  iv_id :: string
  iv_tenant :: string
  iv_period :: string
  iv_period_start :: timestamp
  iv_period_end :: timestamp
  iv_currency :: string
  iv_status :: invoice_status
  iv_lines :: "invoice_line list"
  iv_subtotal :: int
  iv_credits :: int
  iv_total :: int
  iv_generated_at :: timestamp
  iv_finalized_at :: "timestamp option"

section \<open>Shared helpers\<close>

text \<open>\<open>pt.events.push(Event { at, kind })\<close>\<close>

definition push_event :: "timestamp \<Rightarrow> event_kind \<Rightarrow> provisioned_throughput \<Rightarrow> provisioned_throughput" where
  "push_event start kind pt = pt\<lparr>pt_events := pt_events pt @ [\<lparr>ev_at = start, ev_kind = kind\<rparr>]\<rparr>"

text \<open>\<open>.find(|r| r.region == region).map_or(0, |r| r.cus)\<close>\<close>

definition share_of :: "region_share list \<Rightarrow> string \<Rightarrow> nat" where
  "share_of rs region = (case find (\<lambda>r. rs_region r = region) rs of None \<Rightarrow> 0 | Some r \<Rightarrow> rs_cus r)"

text \<open>A small reservation the witnesses of the component theories start from.\<close>

definition demo_reservation :: provisioned_throughput where
  "demo_reservation =
     \<lparr>pt_id = ''pt-1'', pt_tenant = ''acme'', pt_name = ''agents'', pt_model = ''m'', pt_tier = Standard,
      pt_regions = [\<lparr>rs_region = ''eu'', rs_cus = 2\<rparr>], pt_cus = 2, pt_sku = Regional, pt_isolation = Shared,
      pt_shape = \<lparr>input_p95 = 1, input_max = 1, output_p95 = 1, context_ceiling = 1, cache_hit_ratio = 0,
                  burst_factor = 1\<rparr>,
      pt_boundary_policy = boundary_policy_default, pt_term_months = One, pt_term_start = 0, pt_term_end = 30,
      pt_auto_renew = True, pt_state = Active, pt_pending_changes = None, pt_endpoints = [],
      pt_price = \<lparr>pr_currency = ''USD'', pr_per_cu_monthly = 100, pr_monthly = 200\<rparr>,
      pt_failover_headroom = [], pt_rebalance = True, pt_effective_regions = [], pt_placements = [],
      pt_deployments = [], pt_version = 1, pt_created_at = 0, pt_updated_at = 0, pt_events = []\<rparr>"

lemma share_of_Cons:
  "share_of (r # rs) region = (if rs_region r = region then rs_cus r else share_of rs region)"
  by (simp add: share_of_def)

lemma share_of_Nil [simp]: "share_of [] region = 0"
  by (simp add: share_of_def)

end
