(* ===== verification/Regions.thy ===== *)
theory Regions
  imports Model
begin

text \<open>
  Reservations over several regions, from \<open>pt-control-plane\<close>: moving a split toward demand
  (\<open>rebalance.rs\<close>) and region failures
  (\<open>failover.rs\<close>): failover targets and headroom, heartbeats and health, and DNS steering.
  A \<open>Timestamp\<close> and a \<open>SignedDuration\<close> are integers of nanoseconds. The lemmas show that
  rebalancing keeps the total, stays within the allowed shift and never raises the highest
  load, that the headroom covers any single region's failure and is no larger than that
  needs, and that steering sends a region no more than its footprint holds.
\<close>

section \<open>Rebalancing (rebalance.rs)\<close>

definition MIN_GAIN :: real where
  "MIN_GAIN = 11/10"

definition attempted_wu :: "usage_record \<Rightarrow> real" where
  "attempted_wu r =
     (case ur_outcome r of
        Rejected _ \<Rightarrow> ur_wu_estimated r
      | _ \<Rightarrow> if 0 < ur_wu_actual r then ur_wu_actual r else ur_wu_estimated r)"

definition demand_of :: "(string \<rightharpoonup> real) \<Rightarrow> region_share \<Rightarrow> real" where
  "demand_of demand r = max (case demand (rs_region r) of None \<Rightarrow> 0 | Some x \<Rightarrow> x) 0"

definition load_of :: "(string \<rightharpoonup> real) \<Rightarrow> region_share \<Rightarrow> real" where
  "load_of demand r = demand_of demand r / real (rs_cus r)"

definition receiver ::
  "region_share list \<Rightarrow> (string \<rightharpoonup> real) \<Rightarrow> nat \<Rightarrow> region_share list \<Rightarrow> nat option" where
  "receiver contract demand max_shift split =
     max_by_key (\<lambda>i. load_of demand (split ! i))
       (filter (\<lambda>i. rs_cus (split ! i) < u32_add (share_of contract (rs_region (split ! i))) max_shift)
         [0..<length split])"

definition donor ::
  "region_share list \<Rightarrow> (string \<rightharpoonup> real) \<Rightarrow> nat \<Rightarrow> region_share list \<Rightarrow> nat \<Rightarrow> nat option" where
  "donor contract demand max_shift split r =
     min_by_key (\<lambda>i. load_of demand (split ! i))
       (filter (\<lambda>i. max (share_of contract (rs_region (split ! i)) - max_shift) 1 < rs_cus (split ! i))
         (filter (\<lambda>i. i \<noteq> r) [0..<length split]))"

definition move_cu :: "region_share list \<Rightarrow> nat \<Rightarrow> nat \<Rightarrow> region_share list" where
  "move_cu split r k =
     (let split' = split[r := (split ! r)\<lparr>rs_cus := rs_cus (split ! r) + 1\<rparr>]
      in split'[k := (split' ! k)\<lparr>rs_cus := rs_cus (split' ! k) - 1\<rparr>])"

text \<open>The \<open>while moved < max_shift\<close> loop; the last argument is \<open>max_shift - moved\<close>.\<close>

fun split_loop ::
  "region_share list \<Rightarrow> (string \<rightharpoonup> real) \<Rightarrow> nat \<Rightarrow> region_share list \<Rightarrow> nat \<Rightarrow> region_share list" where
  "split_loop contract demand max_shift split 0 = split"
| "split_loop contract demand max_shift split (Suc n) =
     (case receiver contract demand max_shift split of
        None \<Rightarrow> split
      | Some r \<Rightarrow>
          (case donor contract demand max_shift split r of
             None \<Rightarrow> split
           | Some k \<Rightarrow>
               (let receiver_load = load_of demand (split ! r);
                    donor_after = demand_of demand (split ! k) / real (rs_cus (split ! k) - 1)
                in if receiver_load \<le> donor_after * MIN_GAIN then split
                   else split_loop contract demand max_shift (move_cu split r k) n)))"

definition target_split :: "region_share list \<Rightarrow> (string \<rightharpoonup> real) \<Rightarrow> nat \<Rightarrow> region_share list" where
  "target_split contract demand max_shift = split_loop contract demand max_shift contract max_shift"

section \<open>Failover targets and headroom (failover.rs)\<close>

record region_config =
  rc_name :: string
  rc_pair :: "string option"
  rc_residency :: "string option"

definition config_region :: "region_config list \<Rightarrow> string \<Rightarrow> region_config option" where
  "config_region config name = find (\<lambda>r. rc_name r = name) config"

text \<open>\<open>max_by\<close> with a comparison: the last of several maxima.\<close>

definition max_by :: "('a \<Rightarrow> 'a \<Rightarrow> bool) \<Rightarrow> 'a list \<Rightarrow> 'a option" where
  "max_by le xs = (case xs of [] \<Rightarrow> None | x # ys \<Rightarrow> Some (foldl (\<lambda>b y. if le b y then y else b) x ys))"

definition smaller_share :: "region_share \<Rightarrow> region_share \<Rightarrow> bool" where
  "smaller_share a b \<longleftrightarrow> rs_cus a < rs_cus b \<or> (rs_cus a = rs_cus b \<and> rs_region b \<le> rs_region a)"

definition failover_target ::
  "region_config list \<Rightarrow> region_share list \<Rightarrow> region_share \<Rightarrow> string option" where
  "failover_target config regions from =
     (let paired = (case config_region config (rs_region from) of
                      None \<Rightarrow> None
                    | Some c \<Rightarrow> (case rc_pair c of
                        None \<Rightarrow> None
                      | Some p \<Rightarrow> if list_ex (\<lambda>r. rs_region r = p) regions then Some p else None))
      in case paired of
           Some p \<Rightarrow> Some p
         | None \<Rightarrow> map_option rs_region
             (max_by smaller_share (filter (\<lambda>r. rs_region r \<noteq> rs_region from) regions)))"

definition failover_targets :: "region_config list \<Rightarrow> region_share list \<Rightarrow> (string \<times> string) list" where
  "failover_targets config regions =
     List.map_filter (\<lambda>from. map_option (Pair (rs_region from)) (failover_target config regions from)) regions"

fun headroom_put :: "string \<Rightarrow> nat \<Rightarrow> region_share list \<Rightarrow> region_share list" where
  "headroom_put to cus [] = [\<lparr>rs_region = to, rs_cus = cus\<rparr>]"
| "headroom_put to cus (r # rs) =
     (if rs_region r = to then r\<lparr>rs_cus := max (rs_cus r) cus\<rparr> # rs else r # headroom_put to cus rs)"

definition headroom :: "region_config list \<Rightarrow> sku \<Rightarrow> region_share list \<Rightarrow> region_share list" where
  "headroom config s regions =
     (if s \<noteq> MultiRegion then []
      else sort_key rs_region
        (foldl (\<lambda>out (from, to). headroom_put to (share_of regions from) out) []
          (failover_targets config regions)))"

fun footprint_put :: "region_share \<Rightarrow> region_share list \<Rightarrow> region_share list" where
  "footprint_put h [] = [h]"
| "footprint_put h (r # rs) =
     (if rs_region r = rs_region h then r\<lparr>rs_cus := rs_cus r + rs_cus h\<rparr> # rs else r # footprint_put h rs)"

definition footprint :: "region_share list \<Rightarrow> region_share list \<Rightarrow> region_share list" where
  "footprint regions hs = foldl (\<lambda>out h. footprint_put h out) regions hs"

definition growth :: "region_share list \<Rightarrow> region_share list \<Rightarrow> region_share list" where
  "growth old new =
     List.map_filter (\<lambda>n. let before = share_of old (rs_region n)
        in if before < rs_cus n then Some \<lparr>rs_region = rs_region n, rs_cus = rs_cus n - before\<rparr> else None) new"

section \<open>Heartbeats and health (failover.rs)\<close>

datatype health = Unknown | Serving | Down

record heartbeat =
  hb_gateway_id :: string
  hb_serving :: bool
  hb_snapshot_version :: nat
  hb_key_id :: "string option"

record gateway_heartbeat =
  gh_region :: string
  gh_gateway_id :: string
  gh_last_seen :: int
  gh_serving :: bool
  gh_key_id :: "string option"
  gh_last_serving_at :: "int option"
  gh_serving_since :: "int option"

record region_status =
  st_region :: string
  st_health :: health
  st_gateways :: nat
  st_serving_gateways :: nat
  st_last_serving_at :: "int option"
  st_serving_since :: "int option"
  st_snapshot_key_ids :: "(string \<times> nat) list"

definition HEARTBEAT_RETENTION :: int where
  "HEARTBEAT_RETENTION = 24 * 3600 * 1000000000"

definition next_heartbeat ::
  "gateway_heartbeat option \<Rightarrow> string \<Rightarrow> heartbeat \<Rightarrow> int \<Rightarrow> int \<Rightarrow> gateway_heartbeat" where
  "next_heartbeat prev region hb now timeout =
     (let last_serving = Option.bind prev gh_last_serving_at;
          (last_serving_at, serving_since) =
            (if hb_serving hb
             then let unbroken = (case last_serving of None \<Rightarrow> False | Some t \<Rightarrow> now - t \<le> timeout);
                      since = (if unbroken
                               then (case Option.bind prev gh_serving_since of None \<Rightarrow> now | Some s \<Rightarrow> s)
                               else now)
                  in (Some now, Some since)
             else (last_serving, Option.bind prev gh_serving_since))
      in \<lparr>gh_region = region, gh_gateway_id = hb_gateway_id hb, gh_last_seen = now, gh_serving = hb_serving hb,
          gh_key_id = hb_key_id hb, gh_last_serving_at = last_serving_at, gh_serving_since = serving_since\<rparr>)"

definition count_key :: "(string \<times> nat) list \<Rightarrow> string \<Rightarrow> (string \<times> nat) list" where
  "count_key ids k = bt_put k ((case map_of ids k of None \<Rightarrow> 0 | Some n \<Rightarrow> n) + 1) ids"

definition region_status_of :: "string \<Rightarrow> gateway_heartbeat list \<Rightarrow> int \<Rightarrow> int \<Rightarrow> region_status" where
  "region_status_of region gateways now timeout =
     (let mine = filter (\<lambda>g. gh_region g = region) gateways;
          fresh = (\<lambda>t. now - t \<le> timeout);
          recent = filter (\<lambda>g. fresh (gh_last_seen g)) mine;
          key_ids = foldl (\<lambda>ids g. count_key ids
             (case gh_key_id g of None \<Rightarrow> ''unknown'' | Some k \<Rightarrow> k)) [] recent;
          serving_now = filter (\<lambda>g. case gh_last_serving_at g of None \<Rightarrow> False | Some t \<Rightarrow> fresh t) mine
      in \<lparr>st_region = region,
          st_health = (if mine = [] then Unknown else if serving_now = [] then Down else Serving),
          st_gateways = length recent,
          st_serving_gateways = length (filter gh_serving recent),
          st_last_serving_at = max_by_key (\<lambda>t. t) (List.map_filter gh_last_serving_at mine),
          st_serving_since = min_by_key (\<lambda>t. t) (List.map_filter gh_serving_since serving_now),
          st_snapshot_key_ids = key_ids\<rparr>)"

section \<open>Steering (failover.rs)\<close>

datatype incident_source = Operator | Automatic

record region_incident =
  ri_id :: string
  ri_region :: string
  ri_started_at :: int
  ri_ended_at :: "int option"
  ri_description :: string
  ri_declared_at :: int
  ri_source :: incident_source

definition incident_weight :: "region_incident \<Rightarrow> int \<Rightarrow> int \<Rightarrow> real" where
  "incident_weight i now ramp =
     (case ri_ended_at i of
        None \<Rightarrow> 0
      | Some e \<Rightarrow> if now \<le> e then 0 else if ramp = 0 then 1
                 else min (real_of_int (now - e) / real_of_int ramp) 1)"

definition region_weight ::
  "string \<Rightarrow> region_incident list \<Rightarrow> int \<Rightarrow> int \<Rightarrow> real \<times> string option" where
  "region_weight region incidents now ramp =
     foldl (\<lambda>(weight, cause) i.
         let w = incident_weight i now ramp
         in if w < weight then (w, Some (ri_id i)) else (weight, cause)) (1, None)
       (filter (\<lambda>i. ri_region i = region \<and> ri_started_at i \<le> now) incidents)"

record target =
  tg_region :: string
  tg_endpoint :: string
  tg_weight :: real

text \<open>\<open>str::replace\<close> of a non-empty pattern: \<open>skip\<close> counts the bytes of a match still to drop.\<close>

fun str_replace :: "string \<Rightarrow> string \<Rightarrow> nat \<Rightarrow> string \<Rightarrow> string" where
  "str_replace pat rep skip [] = []"
| "str_replace pat rep (Suc n) (c # cs) = str_replace pat rep n cs"
| "str_replace pat rep 0 (c # cs) =
     (if take (length pat) (c # cs) = pat then rep @ str_replace pat rep (length pat - 1) cs
      else c # str_replace pat rep 0 cs)"

fun add_weight :: "string \<Rightarrow> real \<Rightarrow> (string \<times> real) list \<Rightarrow> (string \<times> real) list" where
  "add_weight to moved [] = []"
| "add_weight to moved ((r, x) # w) = (if r = to then (r, x + moved) # w else (r, x) # add_weight to moved w)"

definition steered_weights ::
  "region_config list \<Rightarrow> provisioned_throughput \<Rightarrow> (string \<Rightarrow> real) \<Rightarrow> (string \<times> real) list" where
  "steered_weights config pt weight_of =
     (let w = map (\<lambda>r. (rs_region r, real (rs_cus r) * weight_of (rs_region r))) (pt_effective pt)
      in if pt_sku pt = MultiRegion
         then foldl (\<lambda>w (from, to).
                let moved = real (share_of (pt_effective pt) from) * (1 - weight_of from)
                in if 0 < weight_of to then add_weight to moved w else w)
              w (failover_targets config (pt_effective pt))
         else w)"

text \<open>\<open>f64::round\<close>: half away from zero.\<close>

definition f64_round :: "real \<Rightarrow> real" where
  "f64_round x = (if 0 \<le> x then of_int \<lfloor>x + 1/2\<rfloor> else of_int \<lceil>x - 1/2\<rceil>)"

definition reservation_targets ::
  "region_config list \<Rightarrow> string \<Rightarrow> provisioned_throughput \<Rightarrow> (string \<Rightarrow> real) \<Rightarrow> target list" where
  "reservation_targets config endpoint_template pt weight_of =
     (let w = steered_weights config pt weight_of;
          total = sum_list (map snd w)
      in if total \<le> 0 then []
         else map (\<lambda>(region, x). \<lparr>tg_region = region,
                  tg_endpoint = str_replace ''{region}'' region 0 endpoint_template,
                  tg_weight = f64_round (x / total * 10000) / 10000\<rparr>)
                (filter (\<lambda>(_, x). 0 < x) w))"

section \<open>Rebalancing keeps the contract\<close>

text \<open>CUs moved away from the contract: what the regions above their contract have in excess.\<close>

definition moved_cus :: "region_share list \<Rightarrow> region_share list \<Rightarrow> nat" where
  "moved_cus contract split = (\<Sum>i<length contract. rs_cus (split ! i) - rs_cus (contract ! i))"

definition split_inv ::
  "region_share list \<Rightarrow> (string \<rightharpoonup> real) \<Rightarrow> nat \<Rightarrow> real \<Rightarrow> region_share list \<Rightarrow> bool" where
  "split_inv contract demand max_shift peak split \<longleftrightarrow>
     map rs_region split = map rs_region contract \<and> total_cus split = total_cus contract
     \<and> (\<forall>i<length contract. 1 \<le> rs_cus (split ! i)
          \<and> rs_cus (split ! i) \<le> rs_cus (contract ! i) + max_shift
          \<and> rs_cus (contract ! i) \<le> rs_cus (split ! i) + max_shift
          \<and> load_of demand (split ! i) \<le> peak)"

lemma share_of_nth:
  assumes "distinct (map rs_region rs)" and "i < length rs"
  shows "share_of rs (rs_region (rs ! i)) = rs_cus (rs ! i)"
proof -
  have "find (\<lambda>r. rs_region r = rs_region (rs ! i)) rs = Some (rs ! i)"
    using assms by (auto simp: find_Some_iff distinct_conv_nth intro!: exI[of _ i])
  then show ?thesis by (simp add: share_of_def)
qed

lemma sum_move_one:
  assumes "finite A" "r \<in> A" "k \<in> A" "r \<noteq> k" "0 < f k"
    and "f' r = f r + 1" "f' k + 1 = (f k :: nat)" "\<And>i. i \<in> A \<Longrightarrow> i \<noteq> r \<Longrightarrow> i \<noteq> k \<Longrightarrow> f' i = f i"
  shows "sum f' A = sum f A"
proof -
  let ?B = "A - {r} - {k}"
  have "sum g A = g r + (g k + sum g ?B)" for g :: "_ \<Rightarrow> nat"
    using assms(1-4) by (simp add: sum.remove[of A r] sum.remove[of "A - {r}" k])
  moreover have "sum f' ?B = sum f ?B" using assms(8) by (intro sum.cong) auto
  ultimately show ?thesis using assms(5-7) by simp
qed

lemma sum_move_bound:
  assumes "finite A" "r \<in> A" "f' r \<le> f r + 1" "\<And>i. i \<in> A \<Longrightarrow> i \<noteq> r \<Longrightarrow> f' i \<le> (f i :: nat)"
  shows "sum f' A \<le> sum f A + 1"
proof -
  have "sum f' (A - {r}) \<le> sum f (A - {r})" using assms(4) by (intro sum_mono) auto
  then show ?thesis using assms(1-3) by (simp add: sum.remove[of A r])
qed

lemma move_cu_nth:
  assumes "r < length split" "k < length split" "r \<noteq> k"
  shows "length (move_cu split r k) = length split"
    "i < length split \<Longrightarrow> move_cu split r k ! i = (split ! i)\<lparr>rs_cus :=
       (if i = r then rs_cus (split ! i) + 1 else if i = k then rs_cus (split ! i) - 1 else rs_cus (split ! i))\<rparr>"
  using assms by (auto simp: move_cu_def Let_def nth_list_update)

lemma receiver_SomeD:
  assumes "receiver contract demand max_shift split = Some r"
  shows "r < length split" "rs_cus (split ! r) < share_of contract (rs_region (split ! r)) + max_shift"
  using max_by_key_SomeD[OF assms[unfolded receiver_def]]
  by (auto simp: u32_add_def elim: less_le_trans)

lemma donor_SomeD:
  assumes "donor contract demand max_shift split r = Some k"
  shows "k < length split" "k \<noteq> r" "share_of contract (rs_region (split ! k)) - max_shift < rs_cus (split ! k)"
    "1 < rs_cus (split ! k)"
  using min_by_key_SomeD[OF assms[unfolded donor_def]] by auto

lemma demand_of_nonneg [simp]: "0 \<le> demand_of demand r"
  by (simp add: demand_of_def)

lemma demand_of_cus [simp]: "demand_of demand (r\<lparr>rs_cus := n\<rparr>) = demand_of demand r"
  by (simp add: demand_of_def)

lemma load_of_more: "0 < rs_cus r \<Longrightarrow> load_of demand (r\<lparr>rs_cus := rs_cus r + 1\<rparr>) \<le> load_of demand r"
  by (simp add: load_of_def frac_le)

lemma split_inv_move:
  assumes inv: "split_inv contract demand max_shift peak split" and dist: "distinct (map rs_region contract)"
    and r: "receiver contract demand max_shift split = Some r"
    and k: "donor contract demand max_shift split r = Some k"
    and gain: "demand_of demand (split ! k) / real (rs_cus (split ! k) - 1) * MIN_GAIN < load_of demand (split ! r)"
  shows "split_inv contract demand max_shift peak (move_cu split r k)"
    "moved_cus contract (move_cu split r k) \<le> moved_cus contract split + 1"
proof -
  have len: "length split = length contract" using inv unfolding split_inv_def by (metis length_map)
  note rD = receiver_SomeD[OF r] and kD = donor_SomeD[OF k]
  have rk: "r < length contract" "k < length contract" "r \<noteq> k" using rD kD len by auto
  note nth = move_cu_nth[of r split k, unfolded len, OF rk]
  have base: "share_of contract (rs_region (split ! i)) = rs_cus (contract ! i)" if "i < length contract" for i
    using share_of_nth[OF dist that] inv that len unfolding split_inv_def by (metis nth_map)
  have old: "1 \<le> rs_cus (split ! i)" "rs_cus (split ! i) \<le> rs_cus (contract ! i) + max_shift"
      "rs_cus (contract ! i) \<le> rs_cus (split ! i) + max_shift" "load_of demand (split ! i) \<le> peak"
    if "i < length contract" for i using inv that unfolding split_inv_def by blast+
  have "map rs_region (move_cu split r k) = map rs_region split"
    using nth len by (intro nth_equalityI) auto
  then have names: "map rs_region (move_cu split r k) = map rs_region contract"
    using inv unfolding split_inv_def by simp
  have "(\<Sum>i<length contract. rs_cus (move_cu split r k ! i)) = (\<Sum>i<length contract. rs_cus (split ! i))"
    by (rule sum_move_one[of _ r k]) (use rk kD nth in auto)
  then have total: "total_cus (move_cu split r k) = total_cus contract"
    using inv nth(1) len unfolding split_inv_def total_cus_def by (simp add: sum_list_sum_nth atLeast0LessThan)
  let ?x = "demand_of demand (split ! k) / real (rs_cus (split ! k) - 1)"
  have "?x * 1 \<le> ?x * MIN_GAIN" by (intro mult_left_mono) (simp_all add: MIN_GAIN_def)
  then have "?x \<le> ?x * MIN_GAIN" by simp
  also note less_imp_le[OF gain]
  also note old(4)[OF rk(1)]
  finally have donor_load: "?x \<le> peak" .
  have "1 \<le> rs_cus (move_cu split r k ! i) \<and> rs_cus (move_cu split r k ! i) \<le> rs_cus (contract ! i) + max_shift
      \<and> rs_cus (contract ! i) \<le> rs_cus (move_cu split r k ! i) + max_shift
      \<and> load_of demand (move_cu split r k ! i) \<le> peak" if i: "i < length contract" for i
  proof -
    consider "i = r" | "i = k" | "i \<noteq> r" "i \<noteq> k" by blast
    then show ?thesis
    proof cases
      case 1
      then show ?thesis
        using nth(2)[OF i] old[OF i] rD(2) base[OF i] load_of_more[of "split ! r" demand] by auto
    next
      case 2
      then show ?thesis
        using nth(2)[OF i] old[OF i] kD base[OF i] rk(3) donor_load by (auto simp: load_of_def)
    next
      case 3
      then show ?thesis using nth(2)[OF i] old[OF i] by simp
    qed
  qed
  with names total show "split_inv contract demand max_shift peak (move_cu split r k)"
    unfolding split_inv_def by blast
  show "moved_cus contract (move_cu split r k) \<le> moved_cus contract split + 1"
    unfolding moved_cus_def by (rule sum_move_bound[of _ r]) (use rk nth in auto)
qed

lemma split_loop_inv:
  assumes "split_inv contract demand max_shift peak split" and "distinct (map rs_region contract)"
  shows "split_inv contract demand max_shift peak (split_loop contract demand max_shift split n)
    \<and> moved_cus contract (split_loop contract demand max_shift split n) \<le> moved_cus contract split + n"
  using assms(1)
proof (induction n arbitrary: split)
  case (Suc n)
  show ?case
  proof (cases "split_loop contract demand max_shift split (Suc n) = split")
    case True
    then show ?thesis using Suc.prems by simp
  next
    case False
    then obtain r k where r: "receiver contract demand max_shift split = Some r"
      and k: "donor contract demand max_shift split r = Some k"
      and gain: "demand_of demand (split ! k) / real (rs_cus (split ! k) - 1) * MIN_GAIN < load_of demand (split ! r)"
      and eq: "split_loop contract demand max_shift split (Suc n) = split_loop contract demand max_shift (move_cu split r k) n"
      by (auto simp: Let_def split: option.splits if_splits)
    note mv = split_inv_move[OF Suc.prems assms(2) r k gain]
    from Suc.IH[OF mv(1)] mv(2) show ?thesis unfolding eq by simp
  qed
qed simp

text \<open>
  Rebalancing keeps the contract. For a contract with one positive share per region, the
  target split has the same regions in the same order and the same total; every region keeps
  at least one CU and stays within \<open>max_shift\<close> CUs of its contract, no more than \<open>max_shift\<close>
  CUs are moved in all, and no region ends up busier per CU than the busiest region of the
  contract is.
\<close>

theorem rebalance_keeps_contract:
  assumes "distinct (map rs_region contract)" and "\<forall>r\<in>set contract. 1 \<le> rs_cus r"
    and "\<forall>r\<in>set contract. load_of demand r \<le> peak"
  shows "split_inv contract demand max_shift peak (target_split contract demand max_shift)
    \<and> moved_cus contract (target_split contract demand max_shift) \<le> max_shift"
proof -
  have "split_inv contract demand max_shift peak contract" using assms by (simp add: split_inv_def)
  from split_loop_inv[OF this assms(1), of max_shift] show ?thesis
    by (simp add: target_split_def moved_cus_def)
qed

definition demo_split :: "region_share list" where
  "demo_split = [\<lparr>rs_region = ''eu'', rs_cus = 5\<rparr>, \<lparr>rs_region = ''us'', rs_cus = 5\<rparr>]"

theorem rebalance_keeps_contract_witness:
  "target_split demo_split [''eu'' \<mapsto> 90, ''us'' \<mapsto> 10] 2
     = [\<lparr>rs_region = ''eu'', rs_cus = 7\<rparr>, \<lparr>rs_region = ''us'', rs_cus = 3\<rparr>]
   \<and> split_inv demo_split [''eu'' \<mapsto> 90, ''us'' \<mapsto> 10] 2 18 (target_split demo_split [''eu'' \<mapsto> 90, ''us'' \<mapsto> 10] 2)
   \<and> moved_cus demo_split (target_split demo_split [''eu'' \<mapsto> 90, ''us'' \<mapsto> 10] 2) \<le> 2"
proof (intro conjI)
  show "target_split demo_split [''eu'' \<mapsto> 90, ''us'' \<mapsto> 10] 2
     = [\<lparr>rs_region = ''eu'', rs_cus = 7\<rparr>, \<lparr>rs_region = ''us'', rs_cus = 3\<rparr>]"
    by (simp add: target_split_def demo_split_def numeral_2_eq_2 receiver_def donor_def max_by_key_def min_by_key_def
        load_of_def demand_of_def share_of_def u32_add_def move_cu_def MIN_GAIN_def upt_rec)
  have "split_inv demo_split [''eu'' \<mapsto> 90, ''us'' \<mapsto> 10] 2 18 (target_split demo_split [''eu'' \<mapsto> 90, ''us'' \<mapsto> 10] 2)
     \<and> moved_cus demo_split (target_split demo_split [''eu'' \<mapsto> 90, ''us'' \<mapsto> 10] 2) \<le> 2"
    by (rule rebalance_keeps_contract) (simp_all add: demo_split_def load_of_def demand_of_def)
  then show "split_inv demo_split [''eu'' \<mapsto> 90, ''us'' \<mapsto> 10] 2 18 (target_split demo_split [''eu'' \<mapsto> 90, ''us'' \<mapsto> 10] 2)"
    "moved_cus demo_split (target_split demo_split [''eu'' \<mapsto> 90, ''us'' \<mapsto> 10] 2) \<le> 2" by blast+
qed

section \<open>Headroom covers a region's failure\<close>

text \<open>Configuration validation: a region pairs with another one.\<close>

definition pairs_ok :: "region_config list \<Rightarrow> bool" where
  "pairs_ok config \<longleftrightarrow> (\<forall>c\<in>set config. rc_pair c \<noteq> Some (rc_name c))"

lemma max_by_in: "max_by le xs = Some m \<Longrightarrow> m \<in> set xs"
proof -
  have "foldl (\<lambda>b y. if le b y then y else b) x ys \<in> insert x (set ys)" for x ys
    by (induction ys arbitrary: x) auto
  then show "max_by le xs = Some m \<Longrightarrow> m \<in> set xs" by (auto simp: max_by_def split: list.splits)
qed

lemma max_by_None_iff [simp]: "max_by le xs = None \<longleftrightarrow> xs = []"
  by (simp add: max_by_def split: list.split)

lemma failover_target_some:
  assumes "pairs_ok config" and "failover_target config regions from = Some to"
  shows "to \<noteq> rs_region from \<and> to \<in> rs_region ` set regions"
proof (cases "case config_region config (rs_region from) of None \<Rightarrow> None | Some c \<Rightarrow> (case rc_pair c of None \<Rightarrow> None
      | Some p \<Rightarrow> if list_ex (\<lambda>r. rs_region r = p) regions then Some p else None)")
  case None
  with assms(2) show ?thesis
    by (auto simp: failover_target_def dest!: max_by_in)
next
  case (Some p)
  then obtain c where "find (\<lambda>r. rc_name r = rs_region from) config = Some c" and c: "rc_pair c = Some p"
    "list_ex (\<lambda>r. rs_region r = p) regions"
    by (auto simp: config_region_def split: option.splits if_splits)
  then have "c \<in> set config" "rc_name c = rs_region from" by (auto simp: find_Some_iff)
  with assms(1) c have "p \<noteq> rs_region from" by (auto simp: pairs_ok_def)
  moreover from c(2) have "p \<in> rs_region ` set regions" by (auto simp: list_ex_iff)
  ultimately show ?thesis using assms(2) Some by (simp add: failover_target_def)
qed

lemma failover_target_exists:
  assumes "r \<in> set regions" and "rs_region r \<noteq> rs_region from"
  shows "\<exists>to. failover_target config regions from = Some to"
proof -
  have "filter (\<lambda>r. rs_region r \<noteq> rs_region from) regions \<noteq> []" using assms by (auto simp: filter_empty_conv)
  then obtain m where "max_by smaller_share (filter (\<lambda>r. rs_region r \<noteq> rs_region from) regions) = Some m"
    using max_by_None_iff by (metis option.exhaust)
  then show ?thesis by (auto simp: failover_target_def Let_def split: option.split)
qed

lemma in_failover_targets:
  "(f, to) \<in> set (failover_targets config regions) \<longleftrightarrow>
   (\<exists>from\<in>set regions. f = rs_region from \<and> failover_target config regions from = Some to)"
  by (auto simp: failover_targets_def set_map_filter)

text \<open>The value held for a region by a list with one entry per region.\<close>

lemma share_of_headroom_put:
  "share_of (headroom_put to cus rs) region = (if region = to then max (share_of rs to) cus else share_of rs region)"
  by (induction rs) (auto simp: share_of_Cons share_of_def[of "[]"])

lemma headroom_put_regions:
  "map rs_region (headroom_put to cus rs) = (if to \<in> rs_region ` set rs then map rs_region rs else map rs_region rs @ [to])"
  by (induction rs) auto

lemma share_of_in:
  assumes "distinct (map rs_region rs)" and "r \<in> set rs"
  shows "share_of rs (rs_region r) = rs_cus r"
  using assms share_of_nth by (metis in_set_conv_nth)

lemma share_of_absent: "region \<notin> rs_region ` set rs \<Longrightarrow> share_of rs region = 0"
  by (induction rs) (auto simp: share_of_def)

lemma distinct_map_perm: "mset xs = mset ys \<Longrightarrow> distinct (map f xs) \<longleftrightarrow> distinct (map f ys)"
  by (rule mset_eq_imp_distinct_iff) simp

lemma share_of_perm:
  assumes "distinct (map rs_region rs)" and "mset rs' = mset rs"
  shows "share_of rs' region = share_of rs region"
proof -
  have d: "distinct (map rs_region rs')" using distinct_map_perm[OF assms(2)] assms(1) by blast
  have s: "set rs' = set rs" using assms(2) by (rule mset_eq_setD)
  show ?thesis
  proof (cases "region \<in> rs_region ` set rs")
    case True
    then obtain r where "r \<in> set rs" "region = rs_region r" by auto
    then show ?thesis using share_of_in[OF d] share_of_in[OF assms(1)] s by simp
  next
    case False
    then show ?thesis using s by (simp add: share_of_absent)
  qed
qed

lemma headroom_fold:
  fixes regions :: "region_share list"
  assumes "distinct (map rs_region out)"
  defines "f \<equiv> \<lambda>out (from, to). headroom_put to (share_of regions from) out"
  shows "distinct (map rs_region (foldl f out ts))
    \<and> share_of (foldl f out ts) region = Max (insert (share_of out region) {share_of regions fr | fr. (fr, region) \<in> set ts})"
  using assms(1)
proof (induction ts arbitrary: out)
  case Nil
  then show ?case by simp
next
  case (Cons t ts)
  obtain a b where t: "t = (a, b)" by (cases t)
  have d: "distinct (map rs_region (f out t))"
    using Cons.prems t by (simp add: f_def headroom_put_regions)
  have fin: "finite {share_of regions fr | fr. (fr, region) \<in> set ts}"
    by (rule finite_subset[of _ "(\<lambda>p. share_of regions (fst p)) ` set ts"]) (auto intro: rev_image_eqI)
  have split: "{share_of regions fr | fr. (fr, region) \<in> set (t # ts)}
     = (if b = region then {share_of regions a} else {}) \<union> {share_of regions fr | fr. (fr, region) \<in> set ts}"
    using t by auto
  have "Max (insert (share_of (f out t) region) {share_of regions fr | fr. (fr, region) \<in> set ts})
      = Max (insert (share_of out region) {share_of regions fr | fr. (fr, region) \<in> set (t # ts)})"
  proof (cases "b = region")
    case True
    have "Max (insert (max x y) S) = Max (insert x (insert y S))" if "finite S" for x y :: nat and S
      using that by (cases "S = {}") (simp_all add: max.assoc)
    then show ?thesis using True t fin unfolding split by (simp add: f_def share_of_headroom_put)
  next
    case False
    then show ?thesis using t unfolding split by (simp add: f_def share_of_headroom_put)
  qed
  with Cons.IH[OF d] show ?case by simp
qed

text \<open>The headroom of a region is the largest share that fails over to it, or none.\<close>

lemma headroom_share:
  "distinct (map rs_region (headroom config MultiRegion regions))
   \<and> share_of (headroom config MultiRegion regions) region
     = Max (insert 0 {share_of regions fr | fr. (fr, region) \<in> set (failover_targets config regions)})"
proof -
  let ?out = "foldl (\<lambda>out (from, to). headroom_put to (share_of regions from) out) [] (failover_targets config regions)"
  note h = headroom_fold[of "[]" regions "failover_targets config regions" region]
  have m: "mset (headroom config MultiRegion regions) = mset ?out" by (simp add: headroom_def)
  have "distinct (map rs_region (headroom config MultiRegion regions))"
    using h distinct_map_perm[OF m, of rs_region] by simp
  then show ?thesis using h share_of_perm[OF _ m] by (simp add: share_of_def[of "[]"])
qed

lemma share_of_footprint_put:
  "share_of (footprint_put h rs) region = share_of rs region + (if region = rs_region h then rs_cus h else 0)"
  by (induction rs) (auto simp: share_of_Cons share_of_def[of "[]"])

lemma share_of_footprint:
  assumes "distinct (map rs_region hs)"
  shows "share_of (footprint rs hs) region = share_of rs region + share_of hs region"
  using assms unfolding footprint_def
proof (induction hs arbitrary: rs)
  case (Cons h hs)
  have "share_of (foldl (\<lambda>out h. footprint_put h out) (footprint_put h rs) hs) region
      = share_of (footprint_put h rs) region + share_of hs region"
    using Cons.prems by (intro Cons.IH) simp
  moreover have "share_of hs (rs_region h) = 0" using Cons.prems by (intro share_of_absent) simp
  ultimately show ?case by (auto simp: share_of_footprint_put share_of_Cons)
qed (simp add: share_of_def)

lemma finite_failing: "finite {share_of regions fr | fr. (fr, region) \<in> set ts}"
  by (rule finite_subset[of _ "(\<lambda>p. share_of regions (fst p)) ` set ts"]) (auto intro: rev_image_eqI)

lemma headroom_covers:
  assumes "(fr, to) \<in> set (failover_targets config regions)"
  shows "share_of regions fr \<le> share_of (headroom config MultiRegion regions) to"
proof -
  have "share_of regions fr \<in> insert 0 {share_of regions fr | fr. (fr, to) \<in> set (failover_targets config regions)}"
    using assms by blast
  then show ?thesis
    using headroom_share[of config regions to] finite_failing[of regions to "failover_targets config regions"]
    by (simp add: Max_ge_iff)
qed

lemma headroom_tight:
  assumes "share_of (headroom config MultiRegion regions) region \<noteq> 0"
  shows "\<exists>fr. (fr, region) \<in> set (failover_targets config regions)
           \<and> share_of (headroom config MultiRegion regions) region = share_of regions fr"
proof -
  let ?S = "insert 0 {share_of regions fr | fr. (fr, region) \<in> set (failover_targets config regions)}"
  have "Max ?S \<in> ?S" by (rule Max_in) (simp_all add: finite_failing)
  then show ?thesis using assms headroom_share[of config regions region] by auto
qed

text \<open>
  The headroom of a Multi-region reservation covers the failure of any one of its regions
  and no more than that. With two or more regions, each region's share has a failover target
  in another region of the reservation, whose footprint holds its own share and the failed
  one; and a region's headroom is zero or exactly one share that fails over to it, so several
  regions with one target share the largest headroom.
\<close>

theorem headroom_covers_single_failure:
  assumes "pairs_ok config" and "distinct (map rs_region regions)" and "r \<in> set regions" and "q \<in> set regions"
    and "rs_region q \<noteq> rs_region r"
  shows "(\<exists>to. (rs_region r, to) \<in> set (failover_targets config regions) \<and> to \<noteq> rs_region r
            \<and> to \<in> rs_region ` set regions
            \<and> share_of regions to + rs_cus r \<le> share_of (footprint regions (headroom config MultiRegion regions)) to)
    \<and> (share_of (headroom config MultiRegion regions) region = 0
       \<or> (\<exists>fr. (fr, region) \<in> set (failover_targets config regions)
             \<and> share_of (headroom config MultiRegion regions) region = share_of regions fr))"
proof
  from failover_target_exists[OF assms(4,5)] obtain to where to: "failover_target config regions r = Some to" by blast
  then have t: "(rs_region r, to) \<in> set (failover_targets config regions)"
    using assms(3) by (auto simp: in_failover_targets)
  have "rs_cus r \<le> share_of (headroom config MultiRegion regions) to"
    using headroom_covers[OF t] share_of_in[OF assms(2,3)] by simp
  moreover have "distinct (map rs_region (headroom config MultiRegion regions))" using headroom_share by blast
  ultimately have "share_of regions to + rs_cus r \<le> share_of (footprint regions (headroom config MultiRegion regions)) to"
    by (simp add: share_of_footprint)
  then show "\<exists>to. (rs_region r, to) \<in> set (failover_targets config regions) \<and> to \<noteq> rs_region r
      \<and> to \<in> rs_region ` set regions
      \<and> share_of regions to + rs_cus r \<le> share_of (footprint regions (headroom config MultiRegion regions)) to"
    using t failover_target_some[OF assms(1) to] by blast
  show "share_of (headroom config MultiRegion regions) region = 0
       \<or> (\<exists>fr. (fr, region) \<in> set (failover_targets config regions)
             \<and> share_of (headroom config MultiRegion regions) region = share_of regions fr)"
    using headroom_tight by blast
qed

definition demo_regions :: "region_share list" where
  "demo_regions = [\<lparr>rs_region = ''eu'', rs_cus = 6\<rparr>, \<lparr>rs_region = ''us'', rs_cus = 4\<rparr>, \<lparr>rs_region = ''ap'', rs_cus = 2\<rparr>]"

lemma demo_headroom:
  "headroom [] MultiRegion demo_regions = [\<lparr>rs_region = ''eu'', rs_cus = 4\<rparr>, \<lparr>rs_region = ''us'', rs_cus = 6\<rparr>]"
  by (simp add: headroom_def failover_targets_def failover_target_def config_region_def max_by_def smaller_share_def
      List.map_filter_def share_of_def demo_regions_def)

theorem headroom_covers_single_failure_witness:
  "\<exists>to. (''eu'', to) \<in> set (failover_targets [] demo_regions) \<and> to \<noteq> ''eu'' \<and> to \<in> rs_region ` set demo_regions
     \<and> share_of demo_regions to + 6 \<le> share_of (footprint demo_regions (headroom [] MultiRegion demo_regions)) to"
  using headroom_covers_single_failure[of "[]" demo_regions "\<lparr>rs_region = ''eu'', rs_cus = 6\<rparr>"
      "\<lparr>rs_region = ''us'', rs_cus = 4\<rparr>"]
  by (simp add: pairs_ok_def demo_regions_def)

section \<open>Steering stays within the footprint\<close>

lemma map_of_add_weight:
  "map_of (add_weight to moved w) r = (if r = to then map_option (\<lambda>x. x + moved) (map_of w r) else map_of w r)"
  by (induction to moved w rule: add_weight.induct) auto

lemma keys_add_weight [simp]: "map fst (add_weight to moved w) = map fst w"
  by (induction to moved w rule: add_weight.induct) auto

lemma sum_add_weight:
  "sum_list (map snd (add_weight to moved w)) = sum_list (map snd w) + (if to \<in> fst ` set w then moved else 0)"
  by (induction to moved w rule: add_weight.induct) auto

definition steer_fold ::
  "(string \<Rightarrow> real) \<Rightarrow> (string \<Rightarrow> real) \<Rightarrow> (string \<times> real) list \<Rightarrow> (string \<times> string) list \<Rightarrow> (string \<times> real) list" where
  "steer_fold weight_of moved w ts =
     foldl (\<lambda>w (from, to). if 0 < weight_of to then add_weight to (moved from) w else w) w ts"

lemma steer_fold_keys [simp]: "map fst (steer_fold weight_of moved w ts) = map fst w"
  unfolding steer_fold_def by (induction ts arbitrary: w) (auto split: prod.split)

text \<open>With a single failing region only its own pair moves anything.\<close>

lemma steer_fold_single:
  assumes "distinct (map fst ts)" and "\<And>fr. fr \<noteq> d \<Longrightarrow> moved fr = 0"
    and "\<And>to. (d, to) \<in> set ts \<Longrightarrow> 0 < weight_of to"
  shows "map_of (steer_fold weight_of moved w ts) r
      = map_option (\<lambda>x. x + (if (d, r) \<in> set ts then moved d else 0)) (map_of w r)
    \<and> sum_list (map snd (steer_fold weight_of moved w ts)) = sum_list (map snd w)
      + (if \<exists>to\<in>fst ` set w. (d, to) \<in> set ts then moved d else 0)"
  using assms
proof (induction ts arbitrary: w)
  case Nil
  then show ?case by (simp add: steer_fold_def option.map_ident)
next
  case (Cons t ts)
  obtain f to where t: "t = (f, to)" by (cases t)
  let ?w = "if 0 < weight_of to then add_weight to (moved f) w else w"
  have step: "steer_fold weight_of moved w ((f, to) # ts) = steer_fold weight_of moved ?w ts" by (simp add: steer_fold_def)
  have "map fst ?w = map fst w" by simp
  then have keys: "fst ` set ?w = fst ` set w" by (metis list.set_map)
  have IH: "map_of (steer_fold weight_of moved ?w ts) r
      = map_option (\<lambda>x. x + (if (d, r) \<in> set ts then moved d else 0)) (map_of ?w r)
    \<and> sum_list (map snd (steer_fold weight_of moved ?w ts)) = sum_list (map snd ?w)
      + (if \<exists>to\<in>fst ` set ?w. (d, to) \<in> set ts then moved d else 0)"
    using Cons.prems by (intro Cons.IH) auto
  show ?case
  proof (cases "f = d")
    case True
    then have none: "\<And>x. (d, x) \<notin> set ts" using Cons.prems(1) t by (auto intro: rev_image_eqI)
    have "0 < weight_of to" using Cons.prems(3) t True by simp
    then show ?thesis
      using IH True none keys unfolding t step
      by (auto simp: map_of_add_weight sum_add_weight option.map_comp comp_def option.map_ident)
  next
    case False
    then have m: "moved f = 0" using Cons.prems(2) by blast
    have "map_of ?w r = map_of w r" "sum_list (map snd ?w) = sum_list (map snd w)"
      using m by (auto simp: map_of_add_weight sum_add_weight option.map_ident)
    then show ?thesis using IH False keys unfolding t step by simp
  qed
qed

definition single_failure :: "(string \<Rightarrow> real) \<Rightarrow> string \<Rightarrow> bool" where
  "single_failure weight_of d \<longleftrightarrow> 0 \<le> weight_of d \<and> weight_of d \<le> 1 \<and> (\<forall>r. r \<noteq> d \<longrightarrow> weight_of r = 1)"

lemma failover_targets_fst:
  assumes "distinct (map rs_region regions)"
  shows "distinct (map fst (failover_targets config regions))"
  using assms
proof -
  have "distinct (map fst (List.map_filter (\<lambda>from. map_option (Pair (rs_region from)) (g from)) rs))
      \<and> fst ` set (List.map_filter (\<lambda>from. map_option (Pair (rs_region from)) (g from)) rs) \<subseteq> rs_region ` set rs"
    if "distinct (map rs_region rs)" for rs and g :: "region_share \<Rightarrow> string option"
    using that by (induction rs) (auto simp: List.map_filter_def split: option.splits)
  then show ?thesis using assms unfolding failover_targets_def by blast
qed

lemma steered_weights_fold:
  assumes "pt_sku pt = MultiRegion"
  shows "steered_weights config pt weight_of = steer_fold weight_of
     (\<lambda>fr. real (share_of (pt_effective pt) fr) * (1 - weight_of fr))
     (map (\<lambda>r. (rs_region r, real (rs_cus r) * weight_of (rs_region r))) (pt_effective pt))
     (failover_targets config (pt_effective pt))"
  using assms by (simp add: steered_weights_def steer_fold_def Let_def)

lemma sum_weighted_shares:
  assumes "distinct (map rs_region rs)" and "single_failure weight_of d"
  shows "(\<Sum>r\<leftarrow>rs. real (rs_cus r) * weight_of (rs_region r)) + real (share_of rs d) * (1 - weight_of d) = real (total_cus rs)"
  using assms(1)
proof (induction rs)
  case (Cons r rs)
  have IH: "(\<Sum>r\<leftarrow>rs. real (rs_cus r) * weight_of (rs_region r)) + real (share_of rs d) * (1 - weight_of d) = real (total_cus rs)"
    using Cons by simp
  show ?case
  proof (cases "rs_region r = d")
    case True
    then have "share_of rs d = 0" using Cons.prems by (intro share_of_absent) auto
    then show ?thesis using IH True by (simp add: share_of_Cons total_cus_def algebra_simps)
  next
    case False
    then have "weight_of (rs_region r) = 1" using assms(2) by (simp add: single_failure_def)
    then show ?thesis using IH False by (simp add: share_of_Cons total_cus_def)
  qed
qed (simp add: share_of_def total_cus_def)

lemma map_of_shares:
  assumes "distinct (map rs_region rs)" and "r \<in> set rs"
  shows "map_of (map (\<lambda>r. (rs_region r, f r)) rs) (rs_region r) = Some (f r)"
  using assms by (induction rs) (auto intro: rev_image_eqI)

text \<open>
  C13. Steering stays within what the reservation holds. While one region of a Multi-region
  reservation is drained (weight below one) and the others serve fully, no traffic share is
  lost: the weights still add up to the reservation's CUs; and each region is sent at most
  the CUs of its footprint, its own share plus its failover headroom.
\<close>

theorem steering_within_footprint:
  assumes "pt_sku pt = MultiRegion" and "pairs_ok config" and "distinct (map rs_region (pt_effective pt))"
    and "single_failure weight_of d" and "r \<in> set (pt_effective pt)" and "q \<in> set (pt_effective pt)"
    and "rs_region q \<noteq> d"
  shows "sum_list (map snd (steered_weights config pt weight_of)) = real (total_cus (pt_effective pt))
    \<and> (\<exists>x. map_of (steered_weights config pt weight_of) (rs_region r) = Some x
        \<and> x \<le> real (share_of (footprint (pt_effective pt) (headroom config MultiRegion (pt_effective pt))) (rs_region r)))"
proof -
  let ?e = "pt_effective pt"
  let ?ts = "failover_targets config ?e"
  let ?w = "map (\<lambda>r. (rs_region r, real (rs_cus r) * weight_of (rs_region r))) ?e"
  define moved where "moved = (\<lambda>fr. real (share_of ?e fr) * (1 - weight_of fr))"
  have w: "0 \<le> weight_of d" "weight_of d \<le> 1" "\<And>r. r \<noteq> d \<Longrightarrow> weight_of r = 1"
    using assms(4) by (auto simp: single_failure_def)
  have to: "to \<noteq> d \<and> to \<in> rs_region ` set ?e" if "(d, to) \<in> set ?ts" for to
    using that failover_target_some[OF assms(2)] by (auto simp: in_failover_targets)
  have fold: "map_of (steered_weights config pt weight_of) r'
      = map_option (\<lambda>x. x + (if (d, r') \<in> set ?ts then moved d else 0)) (map_of ?w r')
    \<and> sum_list (map snd (steered_weights config pt weight_of)) = sum_list (map snd ?w)
      + (if \<exists>to\<in>fst ` set ?w. (d, to) \<in> set ?ts then moved d else 0)" for r'
    unfolding steered_weights_fold[OF assms(1)] moved_def[symmetric]
    by (rule steer_fold_single) (use failover_targets_fst[OF assms(3)] w to in \<open>auto simp: moved_def\<close>)
  have "moved d = 0" if "d \<notin> rs_region ` set ?e" using that by (simp add: moved_def share_of_absent)
  moreover have "\<exists>to\<in>fst ` set ?w. (d, to) \<in> set ?ts" if "d \<in> rs_region ` set ?e"
  proof -
    from that obtain p where p: "p \<in> set ?e" "rs_region p = d" by blast
    from failover_target_exists[OF assms(6), of p config] p assms(7) obtain t where
      "failover_target config ?e p = Some t" by auto
    then have "(d, t) \<in> set ?ts" using p by (auto simp: in_failover_targets)
    then show ?thesis using to by (force simp: image_image)
  qed
  ultimately have "sum_list (map snd (steered_weights config pt weight_of)) = sum_list (map snd ?w) + moved d"
    using fold by auto
  also have "\<dots> = real (total_cus ?e)"
    using sum_weighted_shares[OF assms(3,4)] by (simp add: moved_def comp_def)
  finally have total: "sum_list (map snd (steered_weights config pt weight_of)) = real (total_cus ?e)" .
  let ?x = "real (rs_cus r) * weight_of (rs_region r) + (if (d, rs_region r) \<in> set ?ts then moved d else 0)"
  have x: "map_of (steered_weights config pt weight_of) (rs_region r) = Some ?x"
    using fold[of "rs_region r"] map_of_shares[OF assms(3,5), of "\<lambda>r. real (rs_cus r) * weight_of (rs_region r)"] by simp
  have own: "real (rs_cus r) * weight_of (rs_region r) \<le> real (share_of ?e (rs_region r))"
    using w(1,2) w(3)[of "rs_region r"] share_of_in[OF assms(3,5)]
    by (cases "rs_region r = d") (auto simp: mult_left_le)
  have "moved d \<le> real (share_of ?e d)" using w(1) by (simp add: moved_def mult_left_le)
  then have "(if (d, rs_region r) \<in> set ?ts then moved d else 0)
      \<le> real (share_of (headroom config MultiRegion ?e) (rs_region r))"
    using headroom_covers[of d "rs_region r" config ?e] by (auto intro: order_trans)
  with own have "?x \<le> real (share_of (footprint ?e (headroom config MultiRegion ?e)) (rs_region r))"
    using headroom_share[of config ?e] by (simp add: share_of_footprint)
  with total x show ?thesis by blast
qed

definition demo_pt :: provisioned_throughput where
  "demo_pt = demo_reservation\<lparr>pt_sku := MultiRegion, pt_regions := demo_regions\<rparr>"

definition eu_down :: "string \<Rightarrow> real" where
  "eu_down r = (if r = ''eu'' then 0 else 1)"

theorem steering_within_footprint_witness:
  "sum_list (map snd (steered_weights [] demo_pt eu_down)) = 12
   \<and> (\<exists>x. map_of (steered_weights [] demo_pt eu_down) ''us'' = Some x
        \<and> x \<le> real (share_of (footprint demo_regions (headroom [] MultiRegion demo_regions)) ''us''))"
  using steering_within_footprint[of demo_pt "[]" eu_down "''eu''" "\<lparr>rs_region = ''us'', rs_cus = 4\<rparr>"
      "\<lparr>rs_region = ''us'', rs_cus = 4\<rparr>"]
  by (simp add: demo_pt_def demo_reservation_def demo_regions_def pt_effective_def pairs_ok_def single_failure_def eu_down_def total_cus_def)

section \<open>Health\<close>

text \<open>A region's health, and the serving run of one gateway over a sequence of heartbeats.\<close>

lemma region_health:
  "st_health (region_status_of region gateways now timeout) =
     (if \<forall>g\<in>set gateways. gh_region g \<noteq> region then Unknown
      else if \<exists>g\<in>set gateways. gh_region g = region \<and> (\<exists>t. gh_last_serving_at g = Some t \<and> now - t \<le> timeout)
      then Serving else Down)"
proof -
  have a: "filter (\<lambda>g. gh_region g = region) gateways = [] \<longleftrightarrow> (\<forall>g\<in>set gateways. gh_region g \<noteq> region)"
    by (simp add: filter_empty_conv)
  have b: "filter (\<lambda>g. case gh_last_serving_at g of None \<Rightarrow> False | Some t \<Rightarrow> now - t \<le> timeout)
        (filter (\<lambda>g. gh_region g = region) gateways) = []
      \<longleftrightarrow> \<not> (\<exists>g\<in>set gateways. gh_region g = region \<and> (\<exists>t. gh_last_serving_at g = Some t \<and> now - t \<le> timeout))"
    by (auto simp: filter_empty_conv split: option.splits)
  show ?thesis unfolding region_status_of_def Let_def a b by simp
qed

definition heartbeats ::
  "string \<Rightarrow> int \<Rightarrow> (heartbeat \<times> int) list \<Rightarrow> gateway_heartbeat option \<Rightarrow> gateway_heartbeat option" where
  "heartbeats region timeout hbs prev =
     foldl (\<lambda>prev (hb, now). Some (next_heartbeat prev region hb now timeout)) prev hbs"

text \<open>The times of the serving heartbeats from a record's \<open>serving_since\<close> on, newest first.\<close>

inductive serving_run :: "(heartbeat \<times> int) list \<Rightarrow> int \<Rightarrow> int \<Rightarrow> int \<Rightarrow> bool" for hbs timeout where
  run_start: "(hb, t) \<in> set hbs \<Longrightarrow> hb_serving hb \<Longrightarrow> serving_run hbs timeout t t"
| run_on: "serving_run hbs timeout s t \<Longrightarrow> (hb, u) \<in> set hbs \<Longrightarrow> hb_serving hb \<Longrightarrow> u - t \<le> timeout
    \<Longrightarrow> serving_run hbs timeout s u"

lemma serving_run_mono: "serving_run hbs timeout s t \<Longrightarrow> set hbs \<subseteq> set hbs' \<Longrightarrow> serving_run hbs' timeout s t"
  by (induction rule: serving_run.induct) (auto intro: serving_run.intros)

lemma heartbeats_serving_run:
  "heartbeats region timeout hbs None = Some g \<Longrightarrow>
   (gh_last_serving_at g = None \<longleftrightarrow> gh_serving_since g = None)
   \<and> (\<forall>s t. gh_serving_since g = Some s \<and> gh_last_serving_at g = Some t \<longrightarrow> serving_run hbs timeout s t)"
proof (induction hbs arbitrary: g rule: rev_induct)
  case Nil
  then show ?case by (simp add: heartbeats_def)
next
  case (snoc x hbs)
  obtain hb now where x: "x = (hb, now)" by (cases x)
  let ?prev = "heartbeats region timeout hbs None"
  have g: "g = next_heartbeat ?prev region hb now timeout" using snoc.prems x by (simp add: heartbeats_def)
  have start: "serving_run (hbs @ [x]) timeout now now" if "hb_serving hb"
    using that x by (intro run_start[of hb]) simp_all
  show ?case
  proof (cases ?prev)
    case None
    then show ?thesis using start unfolding g next_heartbeat_def by (simp add: Let_def)
  next
    case (Some p)
    note IH = snoc.IH[OF Some]
    have old: "serving_run (hbs @ [x]) timeout s t"
      if "gh_serving_since p = Some s" "gh_last_serving_at p = Some t" for s t
      using IH that by (auto intro: serving_run_mono)
    have on: "serving_run (hbs @ [x]) timeout s now"
      if "gh_serving_since p = Some s" "gh_last_serving_at p = Some t" "now - t \<le> timeout" "hb_serving hb" for s t
      using old[OF that(1,2)] that x by (intro run_on[of _ _ s t hb now]) simp_all
    show ?thesis
      using Some IH start old on unfolding g next_heartbeat_def
      by (cases "gh_last_serving_at p"; cases "gh_serving_since p") (auto simp: Let_def)
  qed
qed

end
