(* ===== verification/Store.thy ===== *)
theory Store
  imports Regions
begin

text \<open>
  The control plane's store (\<open>store.rs\<close> of \<open>pt-control-plane\<close>): the in-memory backend,
  whose every method holds one lock. A hash map is an association list in some order, so
  \<open>list_live\<close> is in that order. What the service relies on is the locale
  \<open>reservation_store\<close>: an insert adds a reservation, an update replaces exactly the version
  it expected, and a failed write changes nothing. Component reports, whose body is any JSON
  value, are not modelled.
\<close>

section \<open>Model (store.rs)\<close>

record store_lease =
  sl_name :: string
  sl_holder :: string
  sl_expires_at :: timestamp

datatype store_error =
    AlreadyExists string
  | VersionConflict string
  | StoreNotFound string
  | StoreUnavailable string

record sales_hold =
  sh_region :: string
  sh_model :: string
  sh_source :: string
  sh_reason :: string
  sh_expires_at :: timestamp

record idempotency_record =
  id_resource_id :: string
  id_fingerprint :: string

record memory_store =
  ms_by_id :: "(string \<times> provisioned_throughput) list"
  ms_idempotency :: "((string \<times> string) \<times> idempotency_record) list"
  ms_incidents :: "region_incident list"
  ms_invoices :: "((string \<times> string) \<times> invoice) list"
  ms_version :: nat
  ms_heartbeats :: "((string \<times> string) \<times> gateway_heartbeat) list"
  ms_leases :: "(string \<times> store_lease) list"
  ms_holds :: "((string \<times> string \<times> string) \<times> sales_hold) list"

definition store_starting_at :: "nat \<Rightarrow> memory_store" where
  "store_starting_at version =
     \<lparr>ms_by_id = [], ms_idempotency = [], ms_incidents = [], ms_invoices = [], ms_version = version,
      ms_heartbeats = [], ms_leases = [], ms_holds = []\<rparr>"

definition store_insert :: "memory_store \<Rightarrow> provisioned_throughput \<Rightarrow> store_error + memory_store" where
  "store_insert st pt =
     (if map_of (ms_by_id st) (pt_id pt) \<noteq> None then Inl (AlreadyExists (pt_id pt))
      else Inr (st\<lparr>ms_by_id := AList.update (pt_id pt) pt (ms_by_id st)\<rparr>))"

definition store_get :: "memory_store \<Rightarrow> string \<Rightarrow> string \<Rightarrow> provisioned_throughput option" where
  "store_get st tenant pid =
     (case map_of (ms_by_id st) pid of
        None \<Rightarrow> None
      | Some pt \<Rightarrow> if pt_tenant pt = tenant then Some pt else None)"

definition store_list :: "memory_store \<Rightarrow> string \<Rightarrow> provisioned_throughput list" where
  "store_list st tenant =
     sort_key (\<lambda>pt. (pt_created_at pt, pt_id pt))
       (filter (\<lambda>pt. pt_tenant pt = tenant) (map snd (ms_by_id st)))"

definition list_live :: "memory_store \<Rightarrow> provisioned_throughput list" where
  "list_live st = filter (\<lambda>pt. is_live (pt_state pt)) (map snd (ms_by_id st))"

definition store_update ::
  "memory_store \<Rightarrow> provisioned_throughput \<Rightarrow> nat \<Rightarrow> store_error + memory_store" where
  "store_update st pt expected_version =
     (case map_of (ms_by_id st) (pt_id pt) of
        None \<Rightarrow> Inl (StoreNotFound (pt_id pt))
      | Some current \<Rightarrow>
          if pt_version current \<noteq> expected_version then Inl (VersionConflict (pt_id pt))
          else Inr (st\<lparr>ms_by_id := AList.update (pt_id pt) pt (ms_by_id st)\<rparr>))"

definition idempotency_get :: "memory_store \<Rightarrow> string \<Rightarrow> string \<Rightarrow> idempotency_record option" where
  "idempotency_get st tenant key = map_of (ms_idempotency st) (tenant, key)"

definition idempotency_put ::
  "memory_store \<Rightarrow> string \<Rightarrow> string \<Rightarrow> idempotency_record \<Rightarrow> store_error + memory_store" where
  "idempotency_put st tenant key rec =
     (if map_of (ms_idempotency st) (tenant, key) \<noteq> None
      then Inl (AlreadyExists (''idempotency key '' @ key))
      else Inr (st\<lparr>ms_idempotency := AList.update (tenant, key) rec (ms_idempotency st)\<rparr>))"

text \<open>\<open>partition_point\<close> on a partitioned list is the length of the prefix that satisfies the test.\<close>

definition insert_incident :: "memory_store \<Rightarrow> region_incident \<Rightarrow> store_error + memory_store" where
  "insert_incident st incident =
     (if list_ex (\<lambda>i. ri_id i = ri_id incident) (ms_incidents st)
      then Inl (AlreadyExists (ri_id incident))
      else let before = (\<lambda>i. ri_started_at i \<le> ri_started_at incident)
           in Inr (st\<lparr>ms_incidents := takeWhile before (ms_incidents st) @ incident
                                       # dropWhile before (ms_incidents st)\<rparr>))"

fun replace_incident :: "region_incident \<Rightarrow> region_incident list \<Rightarrow> region_incident list" where
  "replace_incident incident [] = []"
| "replace_incident incident (i # is) =
     (if ri_id i = ri_id incident then incident # is else i # replace_incident incident is)"

definition update_incident :: "memory_store \<Rightarrow> region_incident \<Rightarrow> store_error + memory_store" where
  "update_incident st incident =
     (if list_ex (\<lambda>i. ri_id i = ri_id incident) (ms_incidents st)
      then Inr (st\<lparr>ms_incidents := replace_incident incident (ms_incidents st)\<rparr>)
      else Inl (StoreNotFound (ri_id incident)))"

definition insert_invoice :: "memory_store \<Rightarrow> invoice \<Rightarrow> store_error + memory_store" where
  "insert_invoice st iv =
     (if map_of (ms_invoices st) (iv_tenant iv, iv_period iv) \<noteq> None then Inl (AlreadyExists (iv_id iv))
      else Inr (st\<lparr>ms_invoices := AList.update (iv_tenant iv, iv_period iv) iv (ms_invoices st)\<rparr>))"

definition get_invoice :: "memory_store \<Rightarrow> string \<Rightarrow> string \<Rightarrow> invoice option" where
  "get_invoice st tenant period = map_of (ms_invoices st) (tenant, period)"

text \<open>Newest period first: a stable sort in decreasing order.\<close>

definition sort_newest :: "invoice list \<Rightarrow> invoice list" where
  "sort_newest xs = rev (sort_key iv_period (rev xs))"

definition list_invoices :: "memory_store \<Rightarrow> string \<Rightarrow> invoice list" where
  "list_invoices st tenant = sort_newest (filter (\<lambda>i. iv_tenant i = tenant) (map snd (ms_invoices st)))"

definition bump_version :: "memory_store \<Rightarrow> nat \<Rightarrow> nat \<times> memory_store" where
  "bump_version st at_least =
     (let v = max (ms_version st + 1) at_least in (v, st\<lparr>ms_version := v\<rparr>))"

definition record_heartbeat ::
  "memory_store \<Rightarrow> string \<Rightarrow> heartbeat \<Rightarrow> timestamp \<Rightarrow> int \<Rightarrow> memory_store" where
  "record_heartbeat st region hb now timeout =
     (let key = (region, hb_gateway_id hb);
          next_hb = next_heartbeat (map_of (ms_heartbeats st) key) region hb now timeout
      in st\<lparr>ms_heartbeats := AList.update key next_hb (ms_heartbeats st)\<rparr>)"

definition gateway_heartbeats :: "memory_store \<Rightarrow> gateway_heartbeat list" where
  "gateway_heartbeats st = map snd (ms_heartbeats st)"

definition prune_heartbeats :: "memory_store \<Rightarrow> timestamp \<Rightarrow> nat \<times> memory_store" where
  "prune_heartbeats st before =
     (let kept = filter (\<lambda>(_, h). before \<le> gh_last_seen h) (ms_heartbeats st)
      in (length (ms_heartbeats st) - length kept, st\<lparr>ms_heartbeats := kept\<rparr>))"

definition try_lease :: "memory_store \<Rightarrow> string \<Rightarrow> string \<Rightarrow> timestamp \<Rightarrow> int \<Rightarrow> bool \<times> memory_store" where
  "try_lease st name holder now ttl =
     (let free = (case map_of (ms_leases st) name of
                    None \<Rightarrow> True
                  | Some l \<Rightarrow> sl_holder l = holder \<or> sl_expires_at l \<le> now)
      in (free,
          if free
          then st\<lparr>ms_leases := AList.update name
                   \<lparr>sl_name = name, sl_holder = holder, sl_expires_at = now + ttl\<rparr> (ms_leases st)\<rparr>
          else st))"

definition get_lease :: "memory_store \<Rightarrow> string \<Rightarrow> store_lease option" where
  "get_lease st name = map_of (ms_leases st) name"

definition put_hold :: "memory_store \<Rightarrow> sales_hold \<Rightarrow> memory_store" where
  "put_hold st h =
     st\<lparr>ms_holds := AList.update (sh_region h, sh_model h, sh_source h) h (ms_holds st)\<rparr>"

definition delete_hold :: "memory_store \<Rightarrow> string \<Rightarrow> string \<Rightarrow> string \<Rightarrow> bool \<times> memory_store" where
  "delete_hold st region model source =
     (map_of (ms_holds st) (region, model, source) \<noteq> None,
      st\<lparr>ms_holds := AList.delete (region, model, source) (ms_holds st)\<rparr>)"

definition holds :: "memory_store \<Rightarrow> timestamp \<Rightarrow> sales_hold list" where
  "holds st now =
     sort_key (\<lambda>h. (sh_region h, sh_model h, sh_source h))
       (filter (\<lambda>h. now < sh_expires_at h) (map snd (ms_holds st)))"

section \<open>What the service relies on\<close>

text \<open>
  A store of reservations by id. \<open>entry\<close> is what is stored under an id, \<open>lives\<close> the live
  reservations. The sum of a quantity over the live reservations is what the capacity
  accounts compare with.
\<close>

locale reservation_store =
  fixes ins :: "'s \<Rightarrow> provisioned_throughput \<Rightarrow> 'e + 's"
    and upd :: "'s \<Rightarrow> provisioned_throughput \<Rightarrow> nat \<Rightarrow> 'e + 's"
    and entry :: "'s \<Rightarrow> string \<Rightarrow> provisioned_throughput option"
    and lives :: "'s \<Rightarrow> provisioned_throughput list"
    and store_ok :: "'s \<Rightarrow> bool"
  assumes lives_iff: "store_ok s \<Longrightarrow> pt \<in> set (lives s) \<longleftrightarrow> entry s (pt_id pt) = Some pt \<and> is_live (pt_state pt)"
    and lives_distinct: "store_ok s \<Longrightarrow> distinct (map pt_id (lives s))"
    and insert_done: "store_ok s \<Longrightarrow> ins s pt = Inr s' \<Longrightarrow>
          store_ok s' \<and> entry s (pt_id pt) = None \<and> entry s' = (entry s)(pt_id pt \<mapsto> pt)"
    and update_done: "store_ok s \<Longrightarrow> upd s pt v = Inr s' \<Longrightarrow>
          store_ok s' \<and> (\<exists>old. entry s (pt_id pt) = Some old \<and> pt_version old = v)
          \<and> entry s' = (entry s)(pt_id pt \<mapsto> pt)"
begin

definition live_sum :: "(provisioned_throughput \<Rightarrow> nat) \<Rightarrow> 's \<Rightarrow> nat" where
  "live_sum f s = (\<Sum>pt\<leftarrow>lives s. f pt)"

definition live_part :: "(provisioned_throughput \<Rightarrow> nat) \<Rightarrow> provisioned_throughput \<Rightarrow> nat" where
  "live_part f pt = (if is_live (pt_state pt) then f pt else 0)"

lemma live_sum_set:
  assumes "store_ok s"
  shows "live_sum f s = (\<Sum>pt\<in>{pt. entry s (pt_id pt) = Some pt \<and> is_live (pt_state pt)}. f pt)"
proof -
  have "distinct (lives s)" using lives_distinct[OF assms] by (simp add: distinct_map)
  then have "live_sum f s = (\<Sum>pt\<in>set (lives s). f pt)"
    by (simp add: live_sum_def sum_list_distinct_conv_sum_set)
  also have "set (lives s) = {pt. entry s (pt_id pt) = Some pt \<and> is_live (pt_state pt)}"
    using lives_iff[OF assms] by blast
  finally show ?thesis .
qed

lemma live_finite:
  assumes "store_ok s"
  shows "finite {pt. entry s (pt_id pt) = Some pt \<and> is_live (pt_state pt)}"
proof -
  have "{pt. entry s (pt_id pt) = Some pt \<and> is_live (pt_state pt)} = set (lives s)"
    using lives_iff[OF assms] by blast
  then show ?thesis by simp
qed

text \<open>Storing a reservation under its id exchanges its predecessor's part of every sum for its own.\<close>

lemma live_sum_put:
  assumes "store_ok s" and "store_ok s'" and "entry s' = (entry s)(pt_id pt \<mapsto> pt)"
  shows "live_sum f s' + (case entry s (pt_id pt) of None \<Rightarrow> 0 | Some old \<Rightarrow> if pt_id old = pt_id pt then live_part f old else 0)
       = live_sum f s + live_part f pt"
proof -
  let ?L = "\<lambda>s. {q. entry s (pt_id q) = Some q \<and> is_live (pt_state q)}"
  define R where "R = {q \<in> ?L s. pt_id q \<noteq> pt_id pt}"
  have fin: "finite R" unfolding R_def by (rule finite_subset[OF _ live_finite[OF assms(1)]]) blast
  have apart: "q \<notin> R" if "pt_id q = pt_id pt" for q using that by (simp add: R_def)
  have new: "?L s' = R \<union> (if is_live (pt_state pt) then {pt} else {})"
    using assms(3) by (auto simp: R_def split: if_splits)
  have "(\<Sum>q\<in>?L s'. f q) = (\<Sum>q\<in>R. f q) + live_part f pt"
    unfolding new using fin apart[of pt] by (simp add: live_part_def)
  moreover have "(\<Sum>q\<in>?L s. f q) = (\<Sum>q\<in>R. f q)
      + (case entry s (pt_id pt) of None \<Rightarrow> 0 | Some old \<Rightarrow> if pt_id old = pt_id pt then live_part f old else 0)"
  proof -
    have old: "?L s = R \<union> (case entry s (pt_id pt) of None \<Rightarrow> {}
        | Some old \<Rightarrow> if pt_id old = pt_id pt \<and> is_live (pt_state old) then {old} else {})"
      by (auto simp: R_def split: option.splits)
    show ?thesis
      using fin apart by (subst old) (auto simp: live_part_def split: option.splits)
  qed
  ultimately show ?thesis
    by (simp add: live_sum_set[OF assms(1)] live_sum_set[OF assms(2)])
qed

lemma live_sum_insert:
  assumes "store_ok s" and "ins s pt = Inr s'"
  shows "live_sum f s' = live_sum f s + live_part f pt"
proof -
  note d = insert_done[OF assms]
  from live_sum_put[of s s' pt f] d assms(1) show ?thesis by simp
qed

lemma live_sum_update:
  assumes "store_ok s" and "upd s pt v = Inr s'" and "entry s (pt_id pt) = Some old" and "pt_id old = pt_id pt"
  shows "live_sum f s' + live_part f old = live_sum f s + live_part f pt"
proof -
  note d = update_done[OF assms(1,2)]
  from live_sum_put[of s s' pt f] d assms(1,3,4) show ?thesis by simp
qed

end

section \<open>The in-memory store keeps the contract\<close>

text \<open>Every reservation is stored once, under its own id.\<close>

definition store_ok :: "memory_store \<Rightarrow> bool" where
  "store_ok st \<longleftrightarrow> distinct (map fst (ms_by_id st)) \<and> (\<forall>(k, pt)\<in>set (ms_by_id st). pt_id pt = k)"

definition store_entry :: "memory_store \<Rightarrow> string \<Rightarrow> provisioned_throughput option" where
  "store_entry st = map_of (ms_by_id st)"

lemma store_ok_starting_at: "store_ok (store_starting_at v)"
  by (simp add: store_ok_def store_starting_at_def)

lemma store_ok_put:
  assumes "store_ok st"
  shows "store_ok (st\<lparr>ms_by_id := AList.update (pt_id pt) pt (ms_by_id st)\<rparr>)"
  using assms by (auto simp: store_ok_def distinct_update dest: in_alist_update)

lemma list_live_iff:
  assumes "store_ok st"
  shows "pt \<in> set (list_live st) \<longleftrightarrow> store_entry st (pt_id pt) = Some pt \<and> is_live (pt_state pt)"
proof -
  have "pt \<in> snd ` set (ms_by_id st) \<longleftrightarrow> (pt_id pt, pt) \<in> set (ms_by_id st)"
    using assms by (force simp: store_ok_def)
  then show ?thesis using assms by (auto simp: list_live_def store_entry_def store_ok_def)
qed

lemma list_live_distinct:
  assumes "store_ok st"
  shows "distinct (map pt_id (list_live st))"
proof -
  have "map pt_id (map snd (ms_by_id st)) = map fst (ms_by_id st)"
    using assms by (auto simp: store_ok_def)
  moreover have "distinct (map fst (ms_by_id st))" using assms by (simp add: store_ok_def)
  ultimately have "distinct (map pt_id (map snd (ms_by_id st)))" by (simp only:)
  then show ?thesis by (auto simp: list_live_def distinct_map inj_on_def)
qed

interpretation mem_store: reservation_store store_insert store_update store_entry list_live store_ok
proof
  fix s s' :: memory_store and pt v
  assume ok: "store_ok s"
  show "pt \<in> set (list_live s) \<longleftrightarrow> store_entry s (pt_id pt) = Some pt \<and> is_live (pt_state pt)"
    by (rule list_live_iff[OF ok])
  show "distinct (map pt_id (list_live s))" by (rule list_live_distinct[OF ok])
  show "store_ok s' \<and> store_entry s (pt_id pt) = None \<and> store_entry s' = (store_entry s)(pt_id pt \<mapsto> pt)"
    if "store_insert s pt = Inr s'"
    using that store_ok_put[OF ok, of pt]
    by (auto simp: store_insert_def store_entry_def update_conv' split: if_splits)
  show "store_ok s' \<and> (\<exists>old. store_entry s (pt_id pt) = Some old \<and> pt_version old = v)
      \<and> store_entry s' = (store_entry s)(pt_id pt \<mapsto> pt)"
    if "store_update s pt v = Inr s'"
    using that store_ok_put[OF ok, of pt]
    by (auto simp: store_update_def store_entry_def update_conv' split: if_splits option.splits)
qed

end
