(* ===== verification/Planner.thy ===== *)
theory Planner
  imports Model
begin

text \<open>
  Capacity that may be sold: \<open>capacity.rs\<close> (what a CU costs a pool at each tier, and the
  replicas scheduled to arrive) and \<open>planner.rs\<close> (placement of a claim on one pool, and
  the in-memory counters) of \<open>pt-control-plane\<close>. A \<open>Timestamp\<close> is a number of
  nanoseconds; its minimum belongs to the time library and is an argument. Counters are
  natural numbers, the product of a CU's cost and a number of CUs is taken at 64 bits. The
  lemmas show that placement is a best fit, that a reservation is all or nothing, that no
  sequence of sales and releases holds more on a pool at any moment than the pool has at that
  moment, also in the throughput the replicas deliver, and that a drift is corrected exactly
  when two runs in a row see it.
\<close>

type_synonym pool_key = "string \<times> string"

section \<open>Configuration (config.rs, the parts the planner reads)\<close>

record capacity_config =
  cc_region :: string
  cc_model :: string
  cc_pool :: "string option"
  cc_replicas :: nat
  cc_max_context :: nat
  cc_profile :: string

definition pool_id :: "capacity_config \<Rightarrow> string" where
  "pool_id c = (case cc_pool c of Some p \<Rightarrow> p | None \<Rightarrow> cc_model c)"

record capacity_change =
  ch_region :: string
  ch_model :: string
  ch_pool :: "string option"
  ch_add_replicas :: nat
  ch_from :: timestamp

record control_plane_config =
  cp_capacity :: "capacity_config list"
  cp_capacity_changes :: "capacity_change list"
  cp_profiles :: "performance_profile list"
  cp_wu_per_cu :: real

definition config_profile :: "control_plane_config \<Rightarrow> string \<Rightarrow> performance_profile option" where
  "config_profile config name = find (\<lambda>p. prof_name p = name) (cp_profiles config)"

definition pools_for :: "control_plane_config \<Rightarrow> string \<Rightarrow> string \<Rightarrow> capacity_config list" where
  "pools_for config region model =
     filter (\<lambda>c. cc_region c = region \<and> cc_model c = model) (cp_capacity config)"

definition capacity_for :: "control_plane_config \<Rightarrow> string \<Rightarrow> string \<Rightarrow> capacity_config option" where
  "capacity_for config region model =
     (let pools = pools_for config region model
      in case find (\<lambda>c. pool_id c = model) pools of
           Some c \<Rightarrow> Some c
         | None \<Rightarrow> (case pools of [] \<Rightarrow> None | c # _ \<Rightarrow> Some c))"

definition config_pool :: "control_plane_config \<Rightarrow> string \<Rightarrow> string \<Rightarrow> capacity_config option" where
  "config_pool config region pool =
     find (\<lambda>c. cc_region c = region \<and> pool_id c = pool) (cp_capacity config)"

definition regions_for :: "control_plane_config \<Rightarrow> string \<Rightarrow> string list" where
  "regions_for config model =
     foldl (\<lambda>out c. if cc_region c \<in> set out then out else out @ [cc_region c]) []
       (filter (\<lambda>c. cc_model c = model) (cp_capacity config))"

section \<open>Costs and schedule (capacity.rs)\<close>

definition MICRO :: nat where
  "MICRO = 1000000"

text \<open>\<open>TARGET_UTILISATION\<close> of \<open>quote.rs\<close>.\<close>

definition TARGET_UTILISATION :: real where
  "TARGET_UTILISATION = 8/10"

definition micro_per_cu :: "real \<Rightarrow> real \<Rightarrow> nat" where
  "micro_per_cu wu_per_cu capacity_wu_per_s =
     f64_as_u64 (of_int \<lceil>real MICRO * wu_per_cu / (capacity_wu_per_s * TARGET_UTILISATION)\<rceil>)"

type_synonym costs = "string \<times> string \<times> tier \<rightharpoonup> nat"

definition TIERS :: "tier list" where
  "TIERS = [Interactive, Agentic, Standard]"

definition costs_insert :: "costs \<Rightarrow> string \<Rightarrow> string \<Rightarrow> tier \<Rightarrow> nat \<Rightarrow> costs" where
  "costs_insert costs region pool t n = costs((region, pool, t) \<mapsto> n)"

definition costs_of_tier ::
  "real \<Rightarrow> capacity_config \<Rightarrow> performance_profile \<Rightarrow> costs \<Rightarrow> tier \<Rightarrow> costs" where
  "costs_of_tier wu_per_cu c profile costs t =
     (let cap = for_tier (prof_capacity_wu_per_s profile) t
      in if 0 < cap then costs_insert costs (cc_region c) (pool_id c) t (micro_per_cu wu_per_cu cap)
         else costs)"

definition costs_from_config :: "control_plane_config \<Rightarrow> costs" where
  "costs_from_config config =
     foldl (\<lambda>costs c. case config_profile config (cc_profile c) of
                None \<Rightarrow> costs
              | Some profile \<Rightarrow> foldl (costs_of_tier (cp_wu_per_cu config) c profile) costs TIERS)
       Map.empty (cp_capacity config)"

definition per_cu :: "costs \<Rightarrow> string \<Rightarrow> string \<Rightarrow> tier \<Rightarrow> nat option" where
  "per_cu costs region pool t = costs (region, pool, t)"

record pool_share =
  ps_region :: string
  ps_pool :: string
  ps_cus :: nat

definition costs_share :: "costs \<Rightarrow> tier \<Rightarrow> pool_share \<Rightarrow> nat option" where
  "costs_share costs t share =
     map_option (\<lambda>c. u64_mul c (ps_cus share)) (per_cu costs (ps_region share) (ps_pool share) t)"

definition cus_in :: "costs \<Rightarrow> string \<Rightarrow> string \<Rightarrow> tier \<Rightarrow> nat \<Rightarrow> nat option" where
  "cus_in costs region pool t micro =
     map_option (\<lambda>c. min (micro div c) u32_max) (per_cu costs region pool t)"

type_synonym schedule = "pool_key \<rightharpoonup> (timestamp \<times> nat) list"

definition schedule_push :: "schedule \<Rightarrow> pool_key \<Rightarrow> timestamp \<Rightarrow> nat \<Rightarrow> schedule" where
  "schedule_push added key from replicas =
     added(key \<mapsto> (case added key of None \<Rightarrow> [] | Some v \<Rightarrow> v) @ [(from, u64_mul replicas MICRO)])"

definition schedule_from_config :: "control_plane_config \<Rightarrow> schedule" where
  "schedule_from_config config =
     (let added = foldl (\<lambda>added c.
            (case (case ch_pool c of
                     Some p \<Rightarrow> Some p
                   | None \<Rightarrow> map_option pool_id (capacity_for config (ch_region c) (ch_model c))) of
               None \<Rightarrow> added
             | Some pool \<Rightarrow> schedule_push added (ch_region c, pool) (ch_from c) (ch_add_replicas c)))
            Map.empty (cp_capacity_changes config)
      in (\<lambda>key. map_option (sort_key fst) (added key)))"

definition schedule_add :: "schedule \<Rightarrow> string \<Rightarrow> string \<Rightarrow> timestamp \<Rightarrow> nat \<Rightarrow> schedule" where
  "schedule_add added region pool from replicas =
     (let v = (case added (region, pool) of None \<Rightarrow> [] | Some v \<Rightarrow> v)
      in added((region, pool) \<mapsto> sort_key fst (v @ [(from, u64_mul replicas MICRO)])))"

definition arrivals :: "schedule \<Rightarrow> string \<Rightarrow> string \<Rightarrow> (timestamp \<times> nat) list" where
  "arrivals added region pool = (case added (region, pool) of None \<Rightarrow> [] | Some v \<Rightarrow> v)"

definition added_by :: "schedule \<Rightarrow> string \<Rightarrow> string \<Rightarrow> timestamp \<Rightarrow> nat" where
  "added_by added region pool start =
     sum_list (map snd (filter (\<lambda>a. fst a \<le> start) (arrivals added region pool)))"

definition dates_after :: "schedule \<Rightarrow> string \<Rightarrow> string \<Rightarrow> timestamp \<Rightarrow> timestamp list" where
  "dates_after added region pool after =
     filter (\<lambda>t. after < t) (map fst (arrivals added region pool))"

section \<open>Placement (planner.rs)\<close>

datatype plan_error =
    NotOffered string string
  | CapacityUnavailable string string tier nat nat "timestamp option"
  | ShapeUnsupported string string nat nat
  | Unavailable string

record claim =
  cl_region :: string
  cl_pool :: "string option"
  cl_cus :: nat

record pool_view =
  pv_region :: string
  pv_pool :: string
  pv_model :: string
  pv_capacity :: nat
  pv_reserved :: nat
  pv_max_context :: nat

definition pool_view_from_config :: "capacity_config \<Rightarrow> pool_view" where
  "pool_view_from_config c =
     \<lparr>pv_region = cc_region c, pv_pool = pool_id c, pv_model = cc_model c,
      pv_capacity = u64_mul (cc_replicas c) MICRO, pv_reserved = 0,
      pv_max_context = cc_max_context c\<rparr>"

definition free_at :: "pool_view \<Rightarrow> schedule \<Rightarrow> timestamp \<Rightarrow> nat" where
  "free_at p sched start =
     pv_capacity p + added_by sched (pv_region p) (pv_pool p) start - pv_reserved p"

definition fits_from ::
  "schedule \<Rightarrow> string \<Rightarrow> string \<Rightarrow> timestamp \<Rightarrow> nat \<Rightarrow> nat \<Rightarrow> timestamp option" where
  "fits_from sched region pool start free need =
     (let now_added = added_by sched region pool start
      in find (\<lambda>d. need \<le> free + (added_by sched region pool d - now_added))
           (dates_after sched region pool start))"

definition place_candidates :: "claim \<Rightarrow> string \<Rightarrow> pool_view list \<Rightarrow> pool_view list" where
  "place_candidates c model pools =
     filter (\<lambda>p. case cl_pool c of None \<Rightarrow> True | Some n \<Rightarrow> n = pv_pool p)
       (filter (\<lambda>p. pv_region p = cl_region c \<and> pv_model p = model) pools)"

definition place_costed :: "costs \<Rightarrow> tier \<Rightarrow> pool_view list \<Rightarrow> (pool_view \<times> nat) list" where
  "place_costed costs t serving =
     List.map_filter (\<lambda>p. map_option (Pair p) (per_cu costs (pv_region p) (pv_pool p) t)) serving"

text \<open>The loop over the costed pools: \<open>best\<close> is the pool, what it needs, and what stays free.\<close>

fun place_best ::
  "schedule \<Rightarrow> timestamp \<Rightarrow> nat \<Rightarrow> (pool_view \<times> nat) list \<Rightarrow> (pool_view \<times> nat \<times> nat) option
   \<Rightarrow> (pool_view \<times> nat \<times> nat) option" where
  "place_best sched start cus [] best = best"
| "place_best sched start cus ((p, per) # rest) best =
     (let need = u64_mul per cus; free = free_at p sched start
      in if free < need then place_best sched start cus rest best
         else let slack = free - need
              in if (case best of None \<Rightarrow> True | Some (_, _, s) \<Rightarrow> slack < s)
                 then place_best sched start cus rest (Some (p, need, slack))
                 else place_best sched start cus rest best)"

definition iter_max :: "nat list \<Rightarrow> nat option" where
  "iter_max xs = max_by_key (\<lambda>x. x) xs"

definition place_unavailable ::
  "claim \<Rightarrow> string \<Rightarrow> tier \<Rightarrow> timestamp \<Rightarrow> (pool_view \<times> nat) list \<Rightarrow> costs \<Rightarrow> schedule \<Rightarrow> plan_error" where
  "place_unavailable c model t start costed costs sched =
     (let available = (case iter_max (map (\<lambda>(p, _).
              case cus_in costs (pv_region p) (pv_pool p) t (free_at p sched start) of
                None \<Rightarrow> 0 | Some n \<Rightarrow> n) costed) of None \<Rightarrow> 0 | Some n \<Rightarrow> n);
          available_from = min_by_key (\<lambda>x. x) (List.map_filter (\<lambda>(p, per).
              fits_from sched (pv_region p) (pv_pool p) start (free_at p sched start) (u64_mul per (cl_cus c))) costed)
      in CapacityUnavailable (cl_region c) model t (cl_cus c) available available_from)"

definition place ::
  "claim \<Rightarrow> string \<Rightarrow> tier \<Rightarrow> shape \<Rightarrow> timestamp option \<Rightarrow> pool_view list \<Rightarrow> costs \<Rightarrow> schedule
   \<Rightarrow> plan_error + (string \<times> nat) option" where
  "place c model t sh at_opt pools costs sched =
     (let not_offered = NotOffered (cl_region c) model;
          candidates = place_candidates c model pools;
          serving = filter (\<lambda>p. context_ceiling sh \<le> pv_max_context p) candidates
      in if candidates = [] then Inl not_offered
         else if serving = [] then
           Inl (ShapeUnsupported (cl_region c) model
                  (case iter_max (map pv_max_context candidates) of None \<Rightarrow> 0 | Some n \<Rightarrow> n)
                  (context_ceiling sh))
         else case at_opt of
           None \<Rightarrow> Inr None
         | Some start \<Rightarrow>
             (let costed = place_costed costs t serving
              in if costed = [] then Inl not_offered
                 else case place_best sched start (cl_cus c) costed None of
                   Some (p, need, _) \<Rightarrow> Inr (Some (pv_pool p, need))
                 | None \<Rightarrow> Inl (place_unavailable c model t start costed costs sched)))"

definition largest_free_cus ::
  "pool_view list \<Rightarrow> string \<Rightarrow> string \<Rightarrow> tier \<Rightarrow> timestamp \<Rightarrow> costs \<Rightarrow> schedule \<Rightarrow> nat option" where
  "largest_free_cus pools region model t start costs sched =
     iter_max (List.map_filter (\<lambda>p. cus_in costs (pv_region p) (pv_pool p) t (free_at p sched start))
       (filter (\<lambda>p. pv_region p = region \<and> pv_model p = model) pools))"

section \<open>Drift (planner.rs)\<close>

record drift =
  dr_region :: string
  dr_pool :: string
  dr_reserved :: nat
  dr_expected :: nat
  dr_corrected :: bool

record held =
  hd_tier :: tier
  hd_shares :: "pool_share list"

type_synonym pending_drift = "pool_key \<rightharpoonup> nat \<times> nat"

definition judge_drift ::
  "pending_drift \<Rightarrow> pool_key \<Rightarrow> nat \<Rightarrow> nat \<Rightarrow> (drift \<times> bool) option \<times> pending_drift" where
  "judge_drift pend key reserved expected =
     (if reserved = expected then (None, pend(key := None))
      else let fixed = (pend key = Some (reserved, expected));
               pend' = (if fixed then pend(key := None) else pend(key \<mapsto> (reserved, expected)))
           in (Some (\<lparr>dr_region = fst key, dr_pool = snd key, dr_reserved = reserved,
                      dr_expected = expected, dr_corrected = fixed\<rparr>, fixed), pend'))"

text \<open>One share added to the expected total of its pool; a share without a cost is skipped.\<close>

definition expect_share ::
  "costs \<Rightarrow> tier \<Rightarrow> (pool_key \<times> nat) list \<Rightarrow> pool_share \<Rightarrow> (pool_key \<times> nat) list" where
  "expect_share costs t out s =
     (case costs_share costs t s of
        None \<Rightarrow> out
      | Some n \<Rightarrow> (let key = (ps_region s, ps_pool s)
                 in AList.update key ((case map_of out key of None \<Rightarrow> 0 | Some v \<Rightarrow> v) + n) out))"

definition expected_micro :: "costs \<Rightarrow> held list \<Rightarrow> (pool_key \<times> nat) list" where
  "expected_micro costs hs = foldl (\<lambda>out h. foldl (expect_share costs (hd_tier h)) out (hd_shares h)) [] hs"

section \<open>The in-memory planner (planner.rs)\<close>

record memory_planner =
  mp_pools :: "pool_view list"
  mp_costs :: costs
  mp_schedule :: schedule
  mp_pending :: pending_drift

definition memory_planner_new :: "capacity_config list \<Rightarrow> costs \<Rightarrow> schedule \<Rightarrow> memory_planner" where
  "memory_planner_new capacity costs sched =
     \<lparr>mp_pools = map pool_view_from_config capacity, mp_costs = costs, mp_schedule = sched,
      mp_pending = Map.empty\<rparr>"

definition planner_available_at ::
  "memory_planner \<Rightarrow> string \<Rightarrow> string \<Rightarrow> tier \<Rightarrow> timestamp \<Rightarrow> nat option" where
  "planner_available_at mp region model t start =
     largest_free_cus (mp_pools mp) region model t start (mp_costs mp) (mp_schedule mp)"

definition planner_available ::
  "timestamp \<Rightarrow> memory_planner \<Rightarrow> string \<Rightarrow> string \<Rightarrow> tier \<Rightarrow> nat option" where
  "planner_available timestamp_min mp region model t = planner_available_at mp region model t timestamp_min"

definition available_cus ::
  "memory_planner \<Rightarrow> string \<Rightarrow> string \<Rightarrow> tier \<Rightarrow> timestamp \<Rightarrow> nat option" where
  "available_cus mp region model t start = planner_available_at mp region model t start"

definition is_pool :: "string \<Rightarrow> string \<Rightarrow> pool_view \<Rightarrow> bool" where
  "is_pool region pool p \<longleftrightarrow> pv_region p = region \<and> pv_pool p = pool"

definition available_micro :: "memory_planner \<Rightarrow> string \<Rightarrow> string \<Rightarrow> nat option" where
  "available_micro mp region pool =
     map_option (\<lambda>p. pv_capacity p - pv_reserved p) (find (is_pool region pool) (mp_pools mp))"

definition pool_micro :: "memory_planner \<Rightarrow> string \<Rightarrow> string \<Rightarrow> (nat \<times> nat) option" where
  "pool_micro mp region pool =
     map_option (\<lambda>p. (pv_capacity p, pv_reserved p)) (find (is_pool region pool) (mp_pools mp))"

text \<open>\<open>pools.iter_mut().find(..)\<close> followed by an assignment to \<open>reserved\<close>.\<close>

fun update_pool :: "string \<Rightarrow> string \<Rightarrow> (nat \<Rightarrow> nat) \<Rightarrow> pool_view list \<Rightarrow> pool_view list" where
  "update_pool region pool f [] = []"
| "update_pool region pool f (p # ps) =
     (if is_pool region pool p then p\<lparr>pv_reserved := f (pv_reserved p)\<rparr> # ps
      else p # update_pool region pool f ps)"

text \<open>
  The loop of \<open>reserve\<close> over the claims, on the scratch copy. None is the panic of
  \<open>expect("placement with a start date")\<close>.
\<close>

fun reserve_loop ::
  "memory_planner \<Rightarrow> string \<Rightarrow> tier \<Rightarrow> shape \<Rightarrow> timestamp \<Rightarrow> claim list \<Rightarrow> pool_view list
   \<Rightarrow> pool_share list \<Rightarrow> (plan_error + pool_share list \<times> pool_view list) option" where
  "reserve_loop mp model t sh start [] scratch placed = Some (Inr (placed, scratch))"
| "reserve_loop mp model t sh start (c # cs) scratch placed =
     (case place c model t sh (Some start) scratch (mp_costs mp) (mp_schedule mp) of
        Inl e \<Rightarrow> Some (Inl e)
      | Inr None \<Rightarrow> None
      | Inr (Some (pool, need)) \<Rightarrow>
          reserve_loop mp model t sh start cs
            (update_pool (cl_region c) pool (\<lambda>r. r + need) scratch)
            (placed @ [\<lparr>ps_region = cl_region c, ps_pool = pool, ps_cus = cl_cus c\<rparr>]))"

definition planner_reserve ::
  "memory_planner \<Rightarrow> string \<Rightarrow> tier \<Rightarrow> claim list \<Rightarrow> shape \<Rightarrow> timestamp
   \<Rightarrow> ((plan_error + pool_share list) \<times> memory_planner) option" where
  "planner_reserve mp model t claims sh start =
     (case reserve_loop mp model t sh start claims (mp_pools mp) [] of
        None \<Rightarrow> None
      | Some (Inl e) \<Rightarrow> Some (Inl e, mp)
      | Some (Inr (placed, scratch)) \<Rightarrow> Some (Inr placed, mp\<lparr>mp_pools := scratch\<rparr>))"

definition release_share :: "costs \<Rightarrow> tier \<Rightarrow> pool_view list \<Rightarrow> pool_share \<Rightarrow> pool_view list" where
  "release_share costs t pools s =
     (let need = (case costs_share costs t s of None \<Rightarrow> 0 | Some n \<Rightarrow> n)
      in update_pool (ps_region s) (ps_pool s) (\<lambda>r. r - need) pools)"

definition planner_release :: "memory_planner \<Rightarrow> tier \<Rightarrow> pool_share list \<Rightarrow> memory_planner" where
  "planner_release mp t shares =
     mp\<lparr>mp_pools := foldl (release_share (mp_costs mp) t) (mp_pools mp) shares\<rparr>"

fun check_shape :: "memory_planner \<Rightarrow> string \<Rightarrow> claim list \<Rightarrow> shape \<Rightarrow> plan_error + unit" where
  "check_shape mp model [] sh = Inr ()"
| "check_shape mp model (c # cs) sh =
     (case place c model Standard sh None (mp_pools mp) (mp_costs mp) (mp_schedule mp) of
        Inl e \<Rightarrow> Inl e
      | Inr _ \<Rightarrow> check_shape mp model cs sh)"

definition planner_restore :: "memory_planner \<Rightarrow> held list \<Rightarrow> memory_planner" where
  "planner_restore mp live =
     mp\<lparr>mp_pools := foldl (\<lambda>pools ((region, pool), micro). update_pool region pool (\<lambda>r. r + micro) pools)
                      (mp_pools mp) (expected_micro (mp_costs mp) live)\<rparr>"

fun reconcile_loop ::
  "(pool_key \<times> nat) list \<Rightarrow> pool_view list \<Rightarrow> pending_drift \<Rightarrow> drift list \<times> pool_view list \<times> pending_drift" where
  "reconcile_loop expected [] pend = ([], [], pend)"
| "reconcile_loop expected (p # ps) pend =
     (let key = (pv_region p, pv_pool p);
          want = (case map_of expected key of None \<Rightarrow> 0 | Some n \<Rightarrow> n);
          (judged, pend') = judge_drift pend key (pv_reserved p) want;
          p' = (case judged of Some (_, True) \<Rightarrow> p\<lparr>pv_reserved := want\<rparr> | _ \<Rightarrow> p);
          (ds, ps', pend'') = reconcile_loop expected ps pend'
      in (case judged of Some (d, _) \<Rightarrow> d # ds | None \<Rightarrow> ds, p' # ps', pend''))"

definition planner_reconcile ::
  "memory_planner \<Rightarrow> (pool_key \<times> nat) list \<Rightarrow> (plan_error + drift list) \<times> memory_planner" where
  "planner_reconcile mp expected =
     (let (ds, ps, pend) = reconcile_loop expected (mp_pools mp) (mp_pending mp)
      in (Inr ds, mp\<lparr>mp_pools := ps, mp_pending := pend\<rparr>))"

section \<open>Placement is a best fit\<close>

definition fits_cus :: "schedule \<Rightarrow> timestamp \<Rightarrow> nat \<Rightarrow> pool_view \<times> nat \<Rightarrow> bool" where
  "fits_cus sched start cus x \<longleftrightarrow> u64_mul (snd x) cus \<le> free_at (fst x) sched start"

definition slack_cus :: "schedule \<Rightarrow> timestamp \<Rightarrow> nat \<Rightarrow> pool_view \<times> nat \<Rightarrow> nat" where
  "slack_cus sched start cus x = free_at (fst x) sched start - u64_mul (snd x) cus"

text \<open>\<open>l\<close> beats everything in \<open>ys\<close> and is at least as good as everything in \<open>zs\<close>.\<close>

definition tightest :: "('a \<Rightarrow> bool) \<Rightarrow> ('a \<Rightarrow> nat) \<Rightarrow> 'a list \<Rightarrow> nat \<Rightarrow> 'a list \<Rightarrow> bool" where
  "tightest fit f ys l zs \<longleftrightarrow> (\<forall>x\<in>set ys. fit x \<longrightarrow> l < f x) \<and> (\<forall>x\<in>set zs. fit x \<longrightarrow> l \<le> f x)"

lemma place_best_some:
  assumes "place_best sched start cus xs best = Some (p, need, slack)"
  shows "(best = Some (p, need, slack)
          \<and> (\<forall>x\<in>set xs. fits_cus sched start cus x \<longrightarrow> slack \<le> slack_cus sched start cus x))
       \<or> (\<exists>ys per zs. xs = ys @ (p, per) # zs \<and> fits_cus sched start cus (p, per) \<and> need = u64_mul per cus
          \<and> slack = slack_cus sched start cus (p, per)
          \<and> tightest (fits_cus sched start cus) (slack_cus sched start cus) ys slack zs
          \<and> (\<forall>q n s. best = Some (q, n, s) \<longrightarrow> slack < s))"
  using assms
proof (induction xs arbitrary: best)
  case Nil
  then show ?case by simp
next
  case (Cons x xs)
  let ?f = "fits_cus sched start cus"
  let ?s = "slack_cus sched start cus"
  obtain q per where x: "x = (q, per)" by (cases x)
  let ?better = "case best of None \<Rightarrow> True | Some (_, _, s) \<Rightarrow> ?s x < s"
  consider (skip) "\<not> ?f x" | (keep) "?f x" "\<not> ?better" | (take) "?f x" "?better" by blast
  then show ?case
  proof cases
    case skip
    then have "place_best sched start cus xs best = Some (p, need, slack)"
      using Cons.prems x by (simp add: fits_cus_def Let_def not_le)
    from Cons.IH[OF this] show ?thesis
    proof (elim disjE exE conjE)
      fix ys per zs
      assume "xs = ys @ (p, per) # zs" "?f (p, per)" "need = u64_mul per cus" "slack = ?s (p, per)"
        "tightest ?f ?s ys slack zs" "\<forall>q n s. best = Some (q, n, s) \<longrightarrow> slack < s"
      then show ?thesis using skip
        by (intro disjI2 exI[of _ "x # ys"] exI[of _ per] exI[of _ zs]) (auto simp: tightest_def)
    qed (use skip in auto)
  next
    case keep
    then obtain q' n' s' where b: "best = Some (q', n', s')" "s' \<le> ?s x" by (cases best) auto
    from keep have "place_best sched start cus xs best = Some (p, need, slack)"
      using Cons.prems x b by (simp add: fits_cus_def slack_cus_def Let_def not_less)
    from Cons.IH[OF this] show ?thesis
    proof (elim disjE exE conjE)
      fix ys per zs
      assume a: "xs = ys @ (p, per) # zs" "?f (p, per)" "need = u64_mul per cus" "slack = ?s (p, per)"
        "tightest ?f ?s ys slack zs" "\<forall>q n s. best = Some (q, n, s) \<longrightarrow> slack < s"
      then have "slack < ?s x" using b by auto
      then show ?thesis using a
        by (intro disjI2 exI[of _ "x # ys"] exI[of _ per] exI[of _ zs]) (auto simp: tightest_def)
    qed (use b in auto)
  next
    case take
    from take have "place_best sched start cus xs (Some (q, u64_mul per cus, ?s x)) = Some (p, need, slack)"
      using Cons.prems x by (cases best) (auto simp: fits_cus_def slack_cus_def Let_def not_less)
    from Cons.IH[OF this] show ?thesis
    proof (elim disjE exE conjE)
      assume a: "Some (q, u64_mul per cus, ?s x) = Some (p, need, slack)"
        "\<forall>x\<in>set xs. ?f x \<longrightarrow> slack \<le> ?s x"
      show ?thesis using a take x
        by (intro disjI2 exI[of _ "[]"] exI[of _ per] exI[of _ xs]) (auto simp: tightest_def)
    next
      fix ys per' zs
      assume a: "xs = ys @ (p, per') # zs" "?f (p, per')" "need = u64_mul per' cus" "slack = ?s (p, per')"
        "tightest ?f ?s ys slack zs"
        "\<forall>q' n s. Some (q, u64_mul per cus, ?s x) = Some (q', n, s) \<longrightarrow> slack < s"
      then have "slack < ?s x" by simp
      then show ?thesis using a take
        by (intro disjI2 exI[of _ "x # ys"] exI[of _ per'] exI[of _ zs])
          (auto simp: tightest_def intro: less_trans)
    qed
  qed
qed

lemma place_best_none:
  "place_best sched start cus xs best = None \<longleftrightarrow> best = None \<and> (\<forall>x\<in>set xs. \<not> fits_cus sched start cus x)"
proof (induction xs arbitrary: best)
  case Nil
  then show ?case by simp
next
  case (Cons x xs)
  then show ?case
    by (cases x; cases best) (auto simp: fits_cus_def Let_def not_le simp del: not_None_eq)
qed

text \<open>
  What a pool must satisfy to take a claim at a start date: the claim's region, model and
  pool, a context window the shape fits in, a cost for the tier, and room for the need.
\<close>

definition can_take_claim ::
  "claim \<Rightarrow> string \<Rightarrow> tier \<Rightarrow> shape \<Rightarrow> timestamp \<Rightarrow> costs \<Rightarrow> schedule \<Rightarrow> pool_view \<Rightarrow> bool" where
  "can_take_claim c model t sh start costs sched p \<longleftrightarrow>
     pv_region p = cl_region c \<and> pv_model p = model \<and> (cl_pool c = None \<or> cl_pool c = Some (pv_pool p))
     \<and> context_ceiling sh \<le> pv_max_context p
     \<and> (\<exists>per. per_cu costs (pv_region p) (pv_pool p) t = Some per
            \<and> u64_mul per (cl_cus c) \<le> free_at p sched start)"

definition claim_need :: "claim \<Rightarrow> tier \<Rightarrow> costs \<Rightarrow> pool_view \<Rightarrow> nat" where
  "claim_need c t costs p =
     (case per_cu costs (pv_region p) (pv_pool p) t of None \<Rightarrow> 0 | Some per \<Rightarrow> u64_mul per (cl_cus c))"

definition place_serving :: "claim \<Rightarrow> string \<Rightarrow> shape \<Rightarrow> pool_view list \<Rightarrow> pool_view list" where
  "place_serving c model sh pools =
     filter (\<lambda>p. context_ceiling sh \<le> pv_max_context p) (place_candidates c model pools)"

lemma place_with_start:
  "place c model t sh (Some start) pools costs sched =
     (if place_candidates c model pools = [] then Inl (NotOffered (cl_region c) model)
      else if place_serving c model sh pools = [] then
        Inl (ShapeUnsupported (cl_region c) model
               (case iter_max (map pv_max_context (place_candidates c model pools)) of None \<Rightarrow> 0 | Some n \<Rightarrow> n)
               (context_ceiling sh))
      else let costed = place_costed costs t (place_serving c model sh pools)
           in if costed = [] then Inl (NotOffered (cl_region c) model)
              else case place_best sched start (cl_cus c) costed None of
                Some (p, need, _) \<Rightarrow> Inr (Some (pv_pool p, need))
              | None \<Rightarrow> Inl (place_unavailable c model t start costed costs sched))"
  by (simp add: place_def place_serving_def Let_def)

lemma set_place_costed:
  "(p, per) \<in> set (place_costed costs t serving) \<longleftrightarrow>
   p \<in> set serving \<and> per_cu costs (pv_region p) (pv_pool p) t = Some per"
  by (force simp: place_costed_def List.map_filter_def)

lemma set_place_serving:
  "p \<in> set (place_serving c model sh pools) \<longleftrightarrow>
   p \<in> set pools \<and> pv_region p = cl_region c \<and> pv_model p = model
   \<and> (cl_pool c = None \<or> cl_pool c = Some (pv_pool p)) \<and> context_ceiling sh \<le> pv_max_context p"
  by (auto simp: place_serving_def place_candidates_def split: option.splits)

lemma can_take_claim_iff:
  "p \<in> set pools \<and> can_take_claim c model t sh start costs sched p \<longleftrightarrow>
   (\<exists>per. (p, per) \<in> set (place_costed costs t (place_serving c model sh pools))
          \<and> fits_cus sched start (cl_cus c) (p, per))"
  by (auto simp: can_take_claim_def set_place_costed set_place_serving fits_cus_def)

lemma place_error_iff:
  "(\<exists>e. place c model t sh (Some start) pools costs sched = Inl e) \<longleftrightarrow>
   \<not> (\<exists>p\<in>set pools. can_take_claim c model t sh start costs sched p)"
proof -
  let ?xs = "place_costed costs t (place_serving c model sh pools)"
  let ?b = "place_best sched start (cl_cus c) ?xs None"
  have "(\<exists>e. place c model t sh (Some start) pools costs sched = Inl e) \<longleftrightarrow> ?b = None"
  proof (cases "place_candidates c model pools = [] \<or> place_serving c model sh pools = [] \<or> ?xs = []")
    case True
    then have "place_serving c model sh pools = [] \<or> ?xs = []" by (auto simp: place_serving_def)
    then have "?xs = []" by (auto simp: place_costed_def)
    then have "?b = None" by simp
    moreover have "\<exists>e. place c model t sh (Some start) pools costs sched = Inl e"
      using True by (auto simp: place_with_start Let_def)
    ultimately show ?thesis by simp
  next
    case False
    then show ?thesis by (auto simp: place_with_start Let_def split: option.splits)
  qed
  also have "\<dots> \<longleftrightarrow> (\<forall>x\<in>set ?xs. \<not> fits_cus sched start (cl_cus c) x)" by (simp add: place_best_none)
  also have "\<dots> \<longleftrightarrow> \<not> (\<exists>p\<in>set pools. can_take_claim c model t sh start costs sched p)"
    using can_take_claim_iff[of _ pools c model t sh start costs sched] by (metis prod.collapse)
  finally show ?thesis .
qed

lemma place_never_none: "place c model t sh (Some start) pools costs sched \<noteq> Inr None"
  by (auto simp: place_with_start Let_def split: option.splits prod.splits)

lemma place_some_obtains:
  assumes "place c model t sh (Some start) pools costs sched = Inr (Some (pool, need))"
  obtains ys p per zs where
    "place_costed costs t (place_serving c model sh pools) = ys @ (p, per) # zs"
    "pool = pv_pool p" "need = u64_mul per (cl_cus c)" "fits_cus sched start (cl_cus c) (p, per)"
    "tightest (fits_cus sched start (cl_cus c)) (slack_cus sched start (cl_cus c)) ys
       (slack_cus sched start (cl_cus c) (p, per)) zs"
proof -
  let ?xs = "place_costed costs t (place_serving c model sh pools)"
  from assms obtain p slack where
    "place_best sched start (cl_cus c) ?xs None = Some (p, need, slack)" and p: "pool = pv_pool p"
    by (auto simp: place_with_start Let_def split: if_splits option.splits)
  from place_best_some[OF this(1)] p that show thesis by auto
qed

definition costed_of ::
  "claim \<Rightarrow> string \<Rightarrow> tier \<Rightarrow> shape \<Rightarrow> costs \<Rightarrow> pool_view \<Rightarrow> (pool_view \<times> nat) option" where
  "costed_of c model t sh costs p =
     (if pv_region p = cl_region c \<and> pv_model p = model \<and> (cl_pool c = None \<or> cl_pool c = Some (pv_pool p))
         \<and> context_ceiling sh \<le> pv_max_context p
      then map_option (Pair p) (per_cu costs (pv_region p) (pv_pool p) t) else None)"

lemma place_costed_serving:
  "place_costed costs t (place_serving c model sh pools) = List.map_filter (costed_of c model t sh costs) pools"
  unfolding place_costed_def place_serving_def place_candidates_def map_filter_filter
  by (rule arg_cong[where f = "\<lambda>f. List.map_filter f pools"])
    (auto simp: fun_eq_iff costed_of_def split: option.splits)

lemma tightest_pools:
  assumes "tightest (fits_cus sched start (cl_cus c)) (slack_cus sched start (cl_cus c))
             (List.map_filter (costed_of c model t sh costs) as) l
             (List.map_filter (costed_of c model t sh costs) bs)"
  shows "tightest (can_take_claim c model t sh start costs sched)
           (\<lambda>q. free_at q sched start - claim_need c t costs q) as l bs"
proof -
  have "\<exists>per. costed_of c model t sh costs q = Some (q, per) \<and> fits_cus sched start (cl_cus c) (q, per)
          \<and> slack_cus sched start (cl_cus c) (q, per) = free_at q sched start - claim_need c t costs q"
    if "can_take_claim c model t sh start costs sched q" for q
    using that by (auto simp: can_take_claim_def costed_of_def fits_cus_def slack_cus_def claim_need_def)
  then show ?thesis
    using assms unfolding tightest_def set_map_filter by fastforce
qed

lemma place_some_best:
  assumes "place c model t sh (Some start) pools costs sched = Inr (Some (pool, need))"
  obtains ys p zs where "pools = ys @ p # zs" "pool = pv_pool p" "need = claim_need c t costs p"
    "can_take_claim c model t sh start costs sched p"
    "tightest (can_take_claim c model t sh start costs sched)
       (\<lambda>q. free_at q sched start - claim_need c t costs q) ys (free_at p sched start - need) zs"
proof -
  from assms obtain ys p per zs where
    a: "List.map_filter (costed_of c model t sh costs) pools = ys @ (p, per) # zs"
      "pool = pv_pool p" "need = u64_mul per (cl_cus c)" "fits_cus sched start (cl_cus c) (p, per)"
      "tightest (fits_cus sched start (cl_cus c)) (slack_cus sched start (cl_cus c)) ys
         (slack_cus sched start (cl_cus c) (p, per)) zs"
    by (rule place_some_obtains) (simp add: place_costed_serving)
  from map_filter_eq_append_Cons[OF a(1)] obtain as q bs where
    b: "pools = as @ q # bs" "costed_of c model t sh costs q = Some (p, per)"
      "List.map_filter (costed_of c model t sh costs) as = ys"
      "List.map_filter (costed_of c model t sh costs) bs = zs" by blast
  from b(2) have q: "q = p" "claim_need c t costs p = need"
    "can_take_claim c model t sh start costs sched p"
    using a(3,4) by (auto simp: costed_of_def claim_need_def can_take_claim_def fits_cus_def split: if_splits)
  have l: "slack_cus sched start (cl_cus c) (p, per) = free_at p sched start - need"
    using a(3) by (simp add: slack_cus_def)
  have "tightest (can_take_claim c model t sh start costs sched)
       (\<lambda>q. free_at q sched start - claim_need c t costs q) as (free_at p sched start - need) bs"
    by (rule tightest_pools) (use a(5) in \<open>simp only: b(3,4) l\<close>)
  from that[OF _ a(2) _ q(3) this] b(1) q show thesis by simp
qed

text \<open>
  Placement is a best fit: with a start date \<open>place\<close> always answers; it fails exactly
  when no pool of the region, model and (if the claim names one) pool can serve the shape,
  has a cost for the tier and has room for the claim at that date; and otherwise it names a
  pool that can take the claim, with what the claim needs there, and no other pool that can
  would be left with less: pools listed before it would be left with strictly more.
\<close>

theorem place_best_fit:
  "place c model t sh (Some start) pools costs sched \<noteq> Inr None
   \<and> ((\<exists>e. place c model t sh (Some start) pools costs sched = Inl e) \<longleftrightarrow>
        \<not> (\<exists>p\<in>set pools. can_take_claim c model t sh start costs sched p))
   \<and> (place c model t sh (Some start) pools costs sched = Inr (Some (pool, need)) \<longrightarrow>
        (\<exists>ys p zs. pools = ys @ p # zs \<and> pool = pv_pool p \<and> need = claim_need c t costs p
           \<and> can_take_claim c model t sh start costs sched p
           \<and> tightest (can_take_claim c model t sh start costs sched)
               (\<lambda>q. free_at q sched start - claim_need c t costs q) ys (free_at p sched start - need) zs))"
proof (intro conjI impI)
  show "place c model t sh (Some start) pools costs sched \<noteq> Inr None" by (rule place_never_none)
  show "(\<exists>e. place c model t sh (Some start) pools costs sched = Inl e) \<longleftrightarrow>
        \<not> (\<exists>p\<in>set pools. can_take_claim c model t sh start costs sched p)" by (rule place_error_iff)
  assume "place c model t sh (Some start) pools costs sched = Inr (Some (pool, need))"
  then show "\<exists>ys p zs. pools = ys @ p # zs \<and> pool = pv_pool p \<and> need = claim_need c t costs p
           \<and> can_take_claim c model t sh start costs sched p
           \<and> tightest (can_take_claim c model t sh start costs sched)
               (\<lambda>q. free_at q sched start - claim_need c t costs q) ys (free_at p sched start - need) zs"
    by (rule place_some_best) (intro exI conjI)
qed

section \<open>Scheduled arrivals\<close>

lemma added_by_mono:
  assumes "s \<le> u"
  shows "added_by sched region pool s \<le> added_by sched region pool u"
proof -
  have "sum_list (map snd (filter (\<lambda>a. fst a \<le> s) xs)) \<le> sum_list (map snd (filter (\<lambda>a. fst a \<le> u) xs))"
    for xs :: "(timestamp \<times> nat) list"
    using assms by (induction xs) auto
  then show ?thesis by (simp add: added_by_def)
qed

definition schedule_sorted :: "schedule \<Rightarrow> bool" where
  "schedule_sorted sched \<longleftrightarrow> (\<forall>key. sorted (map fst (case sched key of None \<Rightarrow> [] | Some v \<Rightarrow> v)))"

lemma schedule_from_config_sorted: "schedule_sorted (schedule_from_config config)"
  by (auto simp: schedule_sorted_def schedule_from_config_def Let_def split: option.splits)

lemma schedule_add_sorted:
  "schedule_sorted sched \<Longrightarrow> schedule_sorted (schedule_add sched region pool from replicas)"
  by (simp add: schedule_sorted_def schedule_add_def Let_def)

lemma find_first_sorted:
  assumes "sorted xs" and "find P xs = Some d" and "x \<in> set xs" and "x < d"
  shows "\<not> P (x :: 'a :: linorder)"
  using assms by (induction xs) (auto split: if_splits)

lemma filter_le_cong_max:
  assumes "\<And>x. x \<in> set xs \<Longrightarrow> f x \<le> u \<longleftrightarrow> f x \<le> (v :: int)"
  shows "filter (\<lambda>a. f a \<le> u) xs = filter (\<lambda>a. f a \<le> v) xs"
  using assms by (induction xs) auto

text \<open>Between two dates the capacity is that of the last arrival, or none arrived.\<close>

lemma added_by_last_arrival:
  assumes "start \<le> u"
  shows "added_by sched region pool u = added_by sched region pool start
       \<or> (\<exists>x\<in>set (dates_after sched region pool start). x \<le> u \<and> added_by sched region pool x = added_by sched region pool u)"
proof -
  let ?v = "arrivals sched region pool"
  let ?D = "{x \<in> fst ` set ?v. start < x \<and> x \<le> u}"
  show ?thesis
  proof (cases "?D = {}")
    case True
    then have "filter (\<lambda>a. fst a \<le> u) ?v = filter (\<lambda>a. fst a \<le> start) ?v"
      using assms by (intro filter_le_cong_max) force
    then show ?thesis by (simp add: added_by_def)
  next
    case False
    let ?m = "Max ?D"
    have m: "?m \<in> ?D" using False by (intro Max_in) auto
    have "fst a \<le> ?m" if "a \<in> set ?v" "fst a \<le> u" for a
      using that m by (cases "start < fst a") (auto intro: Max_ge)
    with m have "filter (\<lambda>a. fst a \<le> ?m) ?v = filter (\<lambda>a. fst a \<le> u) ?v"
      by (intro filter_le_cong_max) auto
    then have "added_by sched region pool ?m = added_by sched region pool u" by (simp add: added_by_def)
    moreover from m have "?m \<in> set (dates_after sched region pool start)" "?m \<le> u"
      by (auto simp: dates_after_def)
    ultimately show ?thesis by blast
  qed
qed

lemma free_at_later:
  assumes "pv_reserved p \<le> pv_capacity p + added_by sched (pv_region p) (pv_pool p) start" and "start \<le> u"
  shows "free_at p sched u = free_at p sched start
           + (added_by sched (pv_region p) (pv_pool p) u - added_by sched (pv_region p) (pv_pool p) start)"
  using assms added_by_mono[OF assms(2), of sched "pv_region p" "pv_pool p"] by (simp add: free_at_def)

text \<open>
  The date \<open>fits_from\<close> gives is the first at which the pool has room, for a pool whose
  reservations fit what it has at the start.
\<close>

lemma fits_from_exact:
  assumes "schedule_sorted sched"
    and "pv_reserved p \<le> pv_capacity p + added_by sched (pv_region p) (pv_pool p) start"
    and "fits_from sched (pv_region p) (pv_pool p) start (free_at p sched start) need = Some d"
    and "free_at p sched start < need"
  shows "start < d \<and> need \<le> free_at p sched d \<and> (\<forall>u. start \<le> u \<and> u < d \<longrightarrow> free_at p sched u < need)"
proof -
  let ?D = "dates_after sched (pv_region p) (pv_pool p) start"
  let ?P = "\<lambda>d. need \<le> free_at p sched start
     + (added_by sched (pv_region p) (pv_pool p) d - added_by sched (pv_region p) (pv_pool p) start)"
  from assms(3) have f: "find ?P ?D = Some d" by (simp add: fits_from_def Let_def)
  then have d: "d \<in> set ?D" "?P d" by (auto simp: find_Some_iff)
  then have sd: "start < d" by (simp add: dates_after_def)
  have "sorted (map fst (arrivals sched (pv_region p) (pv_pool p)))"
    using assms(1) unfolding schedule_sorted_def arrivals_def by blast
  then have srt: "sorted ?D" unfolding dates_after_def by (rule sorted_wrt_filter)
  have "free_at p sched u < need" if u: "start \<le> u" "u < d" for u
    using added_by_last_arrival[OF u(1), of sched "pv_region p" "pv_pool p"]
  proof (elim disjE bexE conjE)
    assume "added_by sched (pv_region p) (pv_pool p) u = added_by sched (pv_region p) (pv_pool p) start"
    then show ?thesis using free_at_later[OF assms(2) u(1)] assms(4) by simp
  next
    fix x
    assume x: "x \<in> set ?D" "x \<le> u"
      "added_by sched (pv_region p) (pv_pool p) x = added_by sched (pv_region p) (pv_pool p) u"
    with u have "x < d" by simp
    from find_first_sorted[OF srt f x(1) this] x(3) free_at_later[OF assms(2) u(1)]
    show ?thesis by simp
  qed
  then show ?thesis using sd d(2) free_at_later[OF assms(2), of d] by simp
qed

section \<open>Counters of the in-memory planner\<close>

definition pool_key_of :: "pool_view \<Rightarrow> pool_key" where
  "pool_key_of p = (pv_region p, pv_pool p)"

text \<open>Configuration validation makes a pool's id unique in its region.\<close>

definition pools_distinct :: "pool_view list \<Rightarrow> bool" where
  "pools_distinct ps \<longleftrightarrow> distinct (map pool_key_of ps)"

definition reserved_in :: "pool_view list \<Rightarrow> pool_key \<Rightarrow> nat" where
  "reserved_in ps key = (\<Sum>p\<leftarrow>filter (\<lambda>p. pool_key_of p = key) ps. pv_reserved p)"

definition capacity_in :: "pool_view list \<Rightarrow> pool_key \<Rightarrow> nat" where
  "capacity_in ps key = (\<Sum>p\<leftarrow>filter (\<lambda>p. pool_key_of p = key) ps. pv_capacity p)"

text \<open>Everything of the pools but the reserved counters.\<close>

definition pools_fixed :: "pool_view list \<Rightarrow> pool_view list" where
  "pools_fixed ps = map (\<lambda>p. p\<lparr>pv_reserved := 0\<rparr>) ps"

lemma is_pool_key: "is_pool region pool p \<longleftrightarrow> pool_key_of p = (region, pool)"
  by (simp add: is_pool_def pool_key_of_def)

lemma pool_key_of_reserved [simp]: "pool_key_of (p\<lparr>pv_reserved := n\<rparr>) = pool_key_of p"
  by (simp add: pool_key_of_def)

lemma update_pool_fixed [simp]: "pools_fixed (update_pool region pool f ps) = pools_fixed ps"
  by (induction ps) (auto simp: pools_fixed_def)

lemma pools_fixed_keys:
  assumes "pools_fixed ps = pools_fixed qs"
  shows "map pool_key_of ps = map pool_key_of qs"
proof -
  have "map pool_key_of (pools_fixed xs) = map pool_key_of xs" for xs
    by (simp add: pools_fixed_def)
  then show ?thesis using assms by metis
qed

lemma pools_fixed_capacity:
  assumes "pools_fixed ps = pools_fixed qs"
  shows "capacity_in ps = capacity_in qs"
proof -
  have "capacity_in (pools_fixed xs) key = capacity_in xs key" for xs key
    by (induction xs) (auto simp: pools_fixed_def capacity_in_def)
  then show ?thesis using assms by (metis ext)
qed

lemma pools_fixed_distinct: "pools_fixed ps = pools_fixed qs \<Longrightarrow> pools_distinct ps \<longleftrightarrow> pools_distinct qs"
  unfolding pools_distinct_def by (metis pools_fixed_keys)

lemma reserved_in_Cons:
  "reserved_in (q # qs) key = (if pool_key_of q = key then pv_reserved q else 0) + reserved_in qs key"
  by (simp add: reserved_in_def)

lemma reserved_in_absent: "key \<notin> pool_key_of ` set ps \<Longrightarrow> reserved_in ps key = 0"
  by (induction ps) (auto simp: reserved_in_def)

lemma reserved_in_update:
  assumes "pools_distinct ps"
  shows "reserved_in (update_pool region pool f ps) key =
     (if key = (region, pool) \<and> key \<in> pool_key_of ` set ps then f (reserved_in ps key) else reserved_in ps key)"
  using assms
proof (induction ps)
  case Nil
  then show ?case by (simp add: reserved_in_def)
next
  case (Cons p ps)
  have IH: "reserved_in (update_pool region pool f ps) key =
     (if key = (region, pool) \<and> key \<in> pool_key_of ` set ps then f (reserved_in ps key) else reserved_in ps key)"
    using Cons.prems by (intro Cons.IH) (simp add: pools_distinct_def)
  show ?case
  proof (cases "is_pool region pool p")
    case True
    then have "(region, pool) \<notin> pool_key_of ` set ps"
      using Cons.prems by (simp add: pools_distinct_def is_pool_key)
    then show ?thesis using True by (auto simp: reserved_in_Cons is_pool_key reserved_in_absent)
  next
    case False
    then show ?thesis using IH by (auto simp: reserved_in_Cons is_pool_key reserved_in_absent)
  qed
qed

lemma reserved_in_member:
  assumes "pools_distinct ps" and "p \<in> set ps"
  shows "reserved_in ps (pool_key_of p) = pv_reserved p" "capacity_in ps (pool_key_of p) = pv_capacity p"
proof -
  have "filter (\<lambda>q. pool_key_of q = pool_key_of p) ps = [p]"
    using assms
  proof (induction ps)
    case (Cons a ps)
    show ?case
    proof (cases "a = p")
      case True
      with Cons.prems(1) have "\<forall>q\<in>set ps. pool_key_of q \<noteq> pool_key_of p"
        by (metis distinct.simps(2) image_eqI list.map(2) list.set_map pools_distinct_def)
      with True show ?thesis by (simp add: filter_empty_conv)
    next
      case False
      with Cons show ?thesis by (auto simp: pools_distinct_def)
    qed
  qed simp
  then show "reserved_in ps (pool_key_of p) = pv_reserved p" "capacity_in ps (pool_key_of p) = pv_capacity p"
    by (simp_all add: reserved_in_def capacity_in_def)
qed

declare split_paired_All [simp del]

section \<open>The planner's contract\<close>

text \<open>
  What the service holds: a lot is a share sold at a tier from a start date. A step sells
  (and books the shares the planner placed) or gives back lots that are held; a refused sale
  changes nothing.
\<close>

datatype lot = Lot (lot_tier: tier) (lot_start: timestamp) (lot_share: pool_share)

datatype sale_op =
    Sell string tier "claim list" shape timestamp
  | GiveBack tier timestamp "pool_share list"

type_synonym 'p planner_reserve_op =
  "'p \<Rightarrow> string \<Rightarrow> tier \<Rightarrow> claim list \<Rightarrow> shape \<Rightarrow> timestamp
   \<Rightarrow> ((plan_error + pool_share list) \<times> 'p) option"

definition share_key :: "pool_share \<Rightarrow> pool_key" where
  "share_key s = (ps_region s, ps_pool s)"

definition booked :: "tier \<Rightarrow> timestamp \<Rightarrow> pool_share list \<Rightarrow> lot multiset" where
  "booked t start shs = mset (map (Lot t start) shs)"

fun sale_step ::
  "'p planner_reserve_op \<Rightarrow> ('p \<Rightarrow> tier \<Rightarrow> pool_share list \<Rightarrow> 'p) \<Rightarrow> 'p \<times> lot multiset \<Rightarrow> sale_op
   \<Rightarrow> 'p \<times> lot multiset" where
  "sale_step rsv rel (p, L) (Sell model t cs sh start) =
     (case rsv p model t cs sh start of
        Some (Inr shs, p') \<Rightarrow> (p', L + booked t start shs)
      | _ \<Rightarrow> (p, L))"
| "sale_step rsv rel (p, L) (GiveBack t start shs) =
     (if booked t start shs \<subseteq># L then (rel p t shs, L - booked t start shs) else (p, L))"

text \<open>What the lots on a pool cost, those that have started by \<open>u\<close> or all of them.\<close>

definition lot_cost :: "(tier \<Rightarrow> pool_share \<Rightarrow> nat) \<Rightarrow> pool_key \<Rightarrow> lot multiset \<Rightarrow> nat" where
  "lot_cost cost key L =
     (\<Sum>l\<in>#filter_mset (\<lambda>l. share_key (lot_share l) = key) L. cost (lot_tier l) (lot_share l))"

definition started :: "timestamp \<Rightarrow> lot multiset \<Rightarrow> lot multiset" where
  "started u L = filter_mset (\<lambda>l. lot_start l \<le> u) L"

definition shares_cost :: "(tier \<Rightarrow> pool_share \<Rightarrow> nat) \<Rightarrow> tier \<Rightarrow> pool_share list \<Rightarrow> pool_key \<Rightarrow> nat" where
  "shares_cost cost t shs key = (\<Sum>s\<leftarrow>filter (\<lambda>s. share_key s = key) shs. cost t s)"

lemma lot_cost_add [simp]: "lot_cost cost key (L + M) = lot_cost cost key L + lot_cost cost key M"
  by (simp add: lot_cost_def)

lemma lot_cost_booked [simp]: "lot_cost cost key (booked t start shs) = shares_cost cost t shs key"
  by (induction shs) (auto simp: lot_cost_def booked_def shares_cost_def)

lemma lot_cost_empty [simp]: "lot_cost cost key {#} = 0"
  by (simp add: lot_cost_def)

lemma lot_cost_mono: "L \<subseteq># M \<Longrightarrow> lot_cost cost key L \<le> lot_cost cost key M"
  by (metis le_add1 lot_cost_add subset_mset.add_diff_inverse)

lemma lot_cost_diff: "M \<subseteq># L \<Longrightarrow> lot_cost cost key (L - M) = lot_cost cost key L - lot_cost cost key M"
  by (metis add_diff_cancel_left' lot_cost_add subset_mset.add_diff_inverse)

lemma started_add [simp]: "started u (L + M) = started u L + started u M"
  by (simp add: started_def)

lemma started_subset: "started u L \<subseteq># L"
  by (simp add: started_def)

lemma started_booked [simp]: "started u (booked t start shs) = (if start \<le> u then booked t start shs else {#})"
  by (induction shs) (auto simp: started_def booked_def)

locale capacity_planner =
  fixes rsv :: "'p planner_reserve_op"
    and rel :: "'p \<Rightarrow> tier \<Rightarrow> pool_share list \<Rightarrow> 'p"
    and reserved_at :: "'p \<Rightarrow> pool_key \<Rightarrow> nat"
    and room :: "'p \<Rightarrow> pool_key \<Rightarrow> timestamp \<Rightarrow> nat"
    and cost :: "'p \<Rightarrow> tier \<Rightarrow> pool_share \<Rightarrow> nat"
    and planner_ok :: "'p \<Rightarrow> bool"
  assumes reserve_returns: "planner_ok p \<Longrightarrow> rsv p model t cs sh start \<noteq> None"
    and reserve_refused: "rsv p model t cs sh start = Some (Inl e, p') \<Longrightarrow> p' = p"
    and reserve_done: "planner_ok p \<Longrightarrow> rsv p model t cs sh start = Some (Inr shs, p') \<Longrightarrow>
          planner_ok p' \<and> room p' = room p \<and> cost p' = cost p
          \<and> reserved_at p' key = reserved_at p key + shares_cost (cost p) t shs key
          \<and> (shares_cost (cost p) t shs key = 0 \<or> reserved_at p' key \<le> room p key start)"
    and release_done: "planner_ok p \<Longrightarrow>
          planner_ok (rel p t shs) \<and> room (rel p t shs) = room p \<and> cost (rel p t shs) = cost p
          \<and> reserved_at (rel p t shs) key = reserved_at p key - shares_cost (cost p) t shs key"
    and room_mono: "s \<le> u \<Longrightarrow> room p key s \<le> room p key u"
begin

definition sold_ok :: "'p \<Rightarrow> 'p \<times> lot multiset \<Rightarrow> bool" where
  "sold_ok p\<^sub>0 st \<longleftrightarrow> planner_ok (fst st) \<and> room (fst st) = room p\<^sub>0 \<and> cost (fst st) = cost p\<^sub>0
     \<and> (\<forall>key. reserved_at (fst st) key = lot_cost (cost p\<^sub>0) key (snd st))
     \<and> (\<forall>key u. lot_cost (cost p\<^sub>0) key (started u (snd st)) \<le> room p\<^sub>0 key u)"

lemma sold_okD:
  assumes "sold_ok p\<^sub>0 (p, L)"
  shows "planner_ok p" "room p = room p\<^sub>0" "cost p = cost p\<^sub>0"
    "reserved_at p key = lot_cost (cost p\<^sub>0) key L"
    "lot_cost (cost p\<^sub>0) key (started u L) \<le> room p\<^sub>0 key u"
  using assms by (simp_all add: sold_ok_def del: split_paired_All)

lemma sold_ok_sell:
  assumes "sold_ok p\<^sub>0 (p, L)" and r: "rsv p model t cs sh start = Some (Inr shs, p')"
  shows "sold_ok p\<^sub>0 (p', L + booked t start shs)"
proof -
  note p = sold_okD[OF assms(1)]
  note d = reserve_done[OF p(1) r]
  have "lot_cost (cost p\<^sub>0) key (started u (L + booked t start shs)) \<le> room p\<^sub>0 key u" for key u
  proof (cases "start \<le> u \<and> shares_cost (cost p\<^sub>0) t shs key \<noteq> 0")
    case True
    have "lot_cost (cost p\<^sub>0) key (started u L) \<le> lot_cost (cost p\<^sub>0) key L"
      by (intro lot_cost_mono started_subset)
    moreover have "reserved_at p' key \<le> room p\<^sub>0 key start"
      and "reserved_at p' key = lot_cost (cost p\<^sub>0) key L + shares_cost (cost p\<^sub>0) t shs key"
      using d[of key] True p by auto
    moreover have "room p\<^sub>0 key start \<le> room p\<^sub>0 key u" using True by (intro room_mono) simp
    ultimately show ?thesis using True by simp
  next
    case False
    then have "lot_cost (cost p\<^sub>0) key (started u (L + booked t start shs)) = lot_cost (cost p\<^sub>0) key (started u L)"
      by (cases "start \<le> u") simp_all
    then show ?thesis using p(5) by simp
  qed
  then show ?thesis using d p by (simp add: sold_ok_def)
qed

lemma sold_ok_give_back:
  assumes "sold_ok p\<^sub>0 (p, L)" and sub: "booked t start shs \<subseteq># L"
  shows "sold_ok p\<^sub>0 (rel p t shs, L - booked t start shs)"
proof -
  note p = sold_okD[OF assms(1)]
  note d = release_done[OF p(1), of t shs]
  have "lot_cost (cost p\<^sub>0) key (started u (L - booked t start shs)) \<le> lot_cost (cost p\<^sub>0) key (started u L)" for key u
    by (intro lot_cost_mono) (simp add: started_def multiset_filter_mono)
  then have "lot_cost (cost p\<^sub>0) key (started u (L - booked t start shs)) \<le> room p\<^sub>0 key u" for key u
    using p(5) order_trans by blast
  then show ?thesis using d p lot_cost_diff[OF sub] by (simp add: sold_ok_def)
qed

lemma sold_ok_step: "sold_ok p\<^sub>0 st \<Longrightarrow> sold_ok p\<^sub>0 (sale_step rsv rel st oper)"
  by (cases st; cases oper)
    (auto split: option.splits sum.splits intro: sold_ok_sell sold_ok_give_back)

lemma sold_ok_run:
  assumes "planner_ok p\<^sub>0" and "\<And>key. reserved_at p\<^sub>0 key = 0"
  shows "sold_ok p\<^sub>0 (foldl (sale_step rsv rel) (p\<^sub>0, {#}) ops)"
proof -
  have "sold_ok p\<^sub>0 (p\<^sub>0, {#})" using assms by (simp add: sold_ok_def lot_cost_def started_def)
  then show ?thesis
    by (rule foldl_invariant) (rule sold_ok_step)
qed

text \<open>Giving back what was just sold restores every counter.\<close>

lemma reserve_then_release:
  assumes "planner_ok p" and "rsv p model t cs sh start = Some (Inr shs, p')"
  shows "reserved_at (rel p' t shs) = reserved_at p"
proof
  fix key
  note d = reserve_done[OF assms, of key]
  show "reserved_at (rel p' t shs) key = reserved_at p key"
    using release_done[of p' t shs key] d by simp
qed

end

section \<open>The in-memory planner keeps the contract\<close>

definition planner_cost :: "memory_planner \<Rightarrow> tier \<Rightarrow> pool_share \<Rightarrow> nat" where
  "planner_cost mp t s = (case costs_share (mp_costs mp) t s of None \<Rightarrow> 0 | Some n \<Rightarrow> n)"

definition planner_reserved :: "memory_planner \<Rightarrow> pool_key \<Rightarrow> nat" where
  "planner_reserved mp = reserved_in (mp_pools mp)"

text \<open>What a pool has at a moment: its configured capacity and the arrivals by then.\<close>

definition planner_room :: "memory_planner \<Rightarrow> pool_key \<Rightarrow> timestamp \<Rightarrow> nat" where
  "planner_room mp key u = capacity_in (mp_pools mp) key + added_by (mp_schedule mp) (fst key) (snd key) u"

definition planner_ok :: "memory_planner \<Rightarrow> bool" where
  "planner_ok mp \<longleftrightarrow> pools_distinct (mp_pools mp)"

definition claim_share :: "claim \<Rightarrow> string \<Rightarrow> pool_share" where
  "claim_share c pool = \<lparr>ps_region = cl_region c, ps_pool = pool, ps_cus = cl_cus c\<rparr>"

lemma shares_cost_Cons:
  "shares_cost cost t (s # shs) key = (if share_key s = key then cost t s else 0) + shares_cost cost t shs key"
  by (simp add: shares_cost_def)

lemma place_share:
  assumes "place c model t sh (Some start) ps (mp_costs mp) (mp_schedule mp) = Inr (Some (pool, need))"
    and "pools_distinct ps"
  defines "key \<equiv> (cl_region c, pool)"
  shows "key \<in> pool_key_of ` set ps" "need = planner_cost mp t (claim_share c pool)"
    "cl_pool c = None \<or> cl_pool c = Some pool"
    "need = 0 \<or> reserved_in ps key + need \<le> capacity_in ps key + added_by (mp_schedule mp) (cl_region c) pool start"
proof -
  from assms(1) obtain ys p zs where p: "ps = ys @ p # zs" "pool = pv_pool p"
    "need = claim_need c t (mp_costs mp) p"
    "can_take_claim c model t sh start (mp_costs mp) (mp_schedule mp) p"
    by (rule place_some_best) metis
  have key: "key = pool_key_of p" and pin: "p \<in> set ps"
    using p by (auto simp: key_def pool_key_of_def can_take_claim_def)
  then show "key \<in> pool_key_of ` set ps" by simp
  show "need = planner_cost mp t (claim_share c pool)"
    using p by (simp add: planner_cost_def claim_share_def claim_need_def costs_share_def can_take_claim_def
        split: option.split)
  show "cl_pool c = None \<or> cl_pool c = Some pool" using p by (simp add: can_take_claim_def)
  have "need \<le> free_at p (mp_schedule mp) start"
    using p by (auto simp: claim_need_def can_take_claim_def)
  then show "need = 0 \<or> reserved_in ps key + need
      \<le> capacity_in ps key + added_by (mp_schedule mp) (cl_region c) pool start"
    using key reserved_in_member[OF assms(2) pin] p
    by (auto simp: free_at_def can_take_claim_def)
qed

text \<open>How the shares a reservation returns answer its claims, in the same order.\<close>

definition answers :: "claim \<Rightarrow> pool_share \<Rightarrow> bool" where
  "answers c s \<longleftrightarrow> ps_region s = cl_region c \<and> ps_cus s = cl_cus c
     \<and> (cl_pool c = None \<or> cl_pool c = Some (ps_pool s))"

definition reserved_for ::
  "memory_planner \<Rightarrow> tier \<Rightarrow> timestamp \<Rightarrow> pool_view list \<Rightarrow> pool_share list \<Rightarrow> pool_view list \<Rightarrow> bool" where
  "reserved_for mp t start ps shs ps' \<longleftrightarrow> pools_fixed ps' = pools_fixed ps
     \<and> (\<forall>key. reserved_in ps' key = reserved_in ps key + shares_cost (planner_cost mp) t shs key)
     \<and> (\<forall>key. shares_cost (planner_cost mp) t shs key = 0
            \<or> reserved_in ps' key \<le> capacity_in ps key + added_by (mp_schedule mp) (fst key) (snd key) start)"

lemma reserved_for_Cons:
  assumes "place c model t sh (Some start) ps (mp_costs mp) (mp_schedule mp) = Inr (Some (pool, need))"
    and "pools_distinct ps"
    and "reserved_for mp t start (update_pool (cl_region c) pool (\<lambda>r. r + need) ps) shs ps'"
  shows "reserved_for mp t start ps (claim_share c pool # shs) ps'"
proof -
  note pl = place_share[OF assms(1,2)]
  let ?qs = "update_pool (cl_region c) pool (\<lambda>r. r + need) ps"
  have q: "reserved_in ?qs key = reserved_in ps key + (if share_key (claim_share c pool) = key then need else 0)" for key
    using pl(1) by (auto simp: reserved_in_update[OF assms(2)] share_key_def claim_share_def)
  have cap: "capacity_in ?qs = capacity_in ps" by (rule pools_fixed_capacity) simp
  have total: "reserved_in ps' key = reserved_in ps key + shares_cost (planner_cost mp) t (claim_share c pool # shs) key" for key
    using assms(3) q[of key] pl(2) unfolding reserved_for_def shares_cost_Cons by auto
  have "shares_cost (planner_cost mp) t (claim_share c pool # shs) key = 0
      \<or> reserved_in ps' key \<le> capacity_in ps key + added_by (mp_schedule mp) (fst key) (snd key) start" for key
  proof (cases "shares_cost (planner_cost mp) t shs key = 0")
    case True
    then show ?thesis
      using total[of key] pl(2,4) by (auto simp: shares_cost_Cons share_key_def claim_share_def)
  next
    case False
    then show ?thesis using assms(3) cap unfolding reserved_for_def by metis
  qed
  then show ?thesis using assms(3) total unfolding reserved_for_def by simp
qed

lemma reserve_loop_done:
  assumes "reserve_loop mp model t sh start cs ps placed = Some (Inr (placed', ps'))" and "pools_distinct ps"
  shows "\<exists>shs. placed' = placed @ shs \<and> reserved_for mp t start ps shs ps' \<and> list_all2 answers cs shs"
  using assms
proof (induction cs arbitrary: ps placed)
  case Nil
  then show ?case by (simp add: reserved_for_def shares_cost_def)
next
  case (Cons c cs)
  from Cons.prems(1) obtain pool need where
    pl: "place c model t sh (Some start) ps (mp_costs mp) (mp_schedule mp) = Inr (Some (pool, need))"
    and rest: "reserve_loop mp model t sh start cs (update_pool (cl_region c) pool (\<lambda>r. r + need) ps)
                 (placed @ [claim_share c pool]) = Some (Inr (placed', ps'))"
    by (auto simp: claim_share_def split: sum.splits option.splits)
  have "pools_distinct (update_pool (cl_region c) pool (\<lambda>r. r + need) ps)"
    using Cons.prems(2) by (simp cong: pools_fixed_distinct[OF update_pool_fixed])
  from Cons.IH[OF rest this] obtain shs where
    "placed' = placed @ claim_share c pool # shs"
    "reserved_for mp t start (update_pool (cl_region c) pool (\<lambda>r. r + need) ps) shs ps'" "list_all2 answers cs shs"
    by auto
  moreover have "answers c (claim_share c pool)"
    using place_share(3)[OF pl Cons.prems(2)] by (simp add: answers_def claim_share_def)
  ultimately show ?case
    using reserved_for_Cons[OF pl Cons.prems(2)]
    by (intro exI[of _ "claim_share c pool # shs"]) simp
qed

lemma reserve_loop_returns: "reserve_loop mp model t sh start cs ps placed \<noteq> None"
proof (induction cs arbitrary: ps placed)
  case (Cons c cs)
  then show ?case using place_never_none[of c model t sh start ps] by (auto split: sum.splits option.splits)
qed simp

lemma planner_reserve_done:
  assumes "planner_ok mp" and "planner_reserve mp model t cs sh start = Some (Inr shs, mp')"
  shows "reserved_for mp t start (mp_pools mp) shs (mp_pools mp')" "mp' = mp\<lparr>mp_pools := mp_pools mp'\<rparr>"
    "list_all2 answers cs shs"
proof -
  from assms(2) obtain ps' where ps:
    "reserve_loop mp model t sh start cs (mp_pools mp) [] = Some (Inr (shs, ps'))" and mp': "mp' = mp\<lparr>mp_pools := ps'\<rparr>"
    by (auto simp: planner_reserve_def split: option.splits sum.splits)
  from reserve_loop_done[OF ps] assms(1) mp'
  show "reserved_for mp t start (mp_pools mp) shs (mp_pools mp')" "mp' = mp\<lparr>mp_pools := mp_pools mp'\<rparr>"
    "list_all2 answers cs shs"
    by (auto simp: planner_ok_def)
qed

lemma release_shares:
  assumes "pools_distinct ps"
  shows "pools_fixed (foldl (release_share costs t) ps shs) = pools_fixed ps
    \<and> reserved_in (foldl (release_share costs t) ps shs) key
      = reserved_in ps key - shares_cost (\<lambda>t s. case costs_share costs t s of None \<Rightarrow> 0 | Some n \<Rightarrow> n) t shs key"
  using assms
proof (induction shs arbitrary: ps)
  case Nil
  then show ?case by (simp add: shares_cost_def)
next
  case (Cons s shs)
  let ?ps = "release_share costs t ps s"
  have f: "pools_fixed ?ps = pools_fixed ps" by (simp add: release_share_def Let_def)
  have r: "reserved_in ?ps key = reserved_in ps key
     - (if share_key s = key then (case costs_share costs t s of None \<Rightarrow> 0 | Some n \<Rightarrow> n) else 0)"
    using Cons.prems reserved_in_absent[of key ps]
    by (auto simp: release_share_def reserved_in_update Let_def share_key_def)
  from Cons.IH[of ?ps] Cons.prems pools_fixed_distinct[OF f] f r
  show ?case by (simp add: shares_cost_Cons)
qed

lemma planner_view_eq:
  assumes "capacity_in (mp_pools p') = capacity_in (mp_pools p)" and "mp_schedule p' = mp_schedule p"
    and "mp_costs p' = mp_costs p"
  shows "planner_room p' = planner_room p" "planner_cost p' = planner_cost p"
  by (rule ext, rule ext, simp add: assms planner_room_def planner_cost_def)+

lemma planner_release_done:
  assumes "planner_ok p"
  shows "planner_ok (planner_release p t shs)" "planner_room (planner_release p t shs) = planner_room p"
    "planner_cost (planner_release p t shs) = planner_cost p"
    "planner_reserved (planner_release p t shs) key
       = planner_reserved p key - shares_cost (planner_cost p) t shs key"
proof -
  let ?p = "planner_release p t shs"
  have d: "pools_distinct (mp_pools p)" using assms by (simp add: planner_ok_def)
  have sel: "mp_pools ?p = foldl (release_share (mp_costs p) t) (mp_pools p) shs"
    "mp_schedule ?p = mp_schedule p" "mp_costs ?p = mp_costs p"
    by (simp_all add: planner_release_def)
  note r = release_shares[OF d, of "mp_costs p" t shs]
  have f: "pools_fixed (mp_pools ?p) = pools_fixed (mp_pools p)" using r sel(1) by simp
  show "planner_ok ?p" using d pools_fixed_distinct[OF f] by (simp add: planner_ok_def)
  show "planner_room ?p = planner_room p" "planner_cost ?p = planner_cost p"
    by (rule planner_view_eq[OF pools_fixed_capacity[OF f] sel(2,3)])+
  have "planner_cost p = (\<lambda>t s. case costs_share (mp_costs p) t s of None \<Rightarrow> 0 | Some n \<Rightarrow> n)"
    by (rule ext)+ (simp add: planner_cost_def)
  then show "planner_reserved ?p key = planner_reserved p key - shares_cost (planner_cost p) t shs key"
    using r[of key] sel(1) by (simp add: planner_reserved_def)
qed

interpretation mem_planner: capacity_planner planner_reserve planner_release planner_reserved planner_room
  planner_cost planner_ok
proof
  fix p p' :: memory_planner and model t cs sh start e shs key and s u :: timestamp
  show "planner_reserve p model t cs sh start \<noteq> None"
    using reserve_loop_returns[of p model t sh start cs "mp_pools p" "[]"]
    by (auto simp: planner_reserve_def split: option.splits sum.splits)
  show "planner_reserve p model t cs sh start = Some (Inl e, p') \<Longrightarrow> p' = p"
    by (auto simp: planner_reserve_def split: option.splits sum.splits)
  show "planner_room p key s \<le> planner_room p key u" if "s \<le> u"
    using that by (simp add: planner_room_def added_by_mono)
  {
    assume ok: "planner_ok p" and r: "planner_reserve p model t cs sh start = Some (Inr shs, p')"
    note d = planner_reserve_done[OF ok r]
    from d(2) have eq: "mp_schedule p' = mp_schedule p" "mp_costs p' = mp_costs p"
      by (metis memory_planner.select_convs memory_planner.surjective memory_planner.update_convs(1))+
    from d(1) have f: "pools_fixed (mp_pools p') = pools_fixed (mp_pools p)" by (simp add: reserved_for_def)
    show "planner_ok p' \<and> planner_room p' = planner_room p \<and> planner_cost p' = planner_cost p
        \<and> planner_reserved p' key = planner_reserved p key + shares_cost (planner_cost p) t shs key
        \<and> (shares_cost (planner_cost p) t shs key = 0 \<or> planner_reserved p' key \<le> planner_room p key start)"
      unfolding planner_view_eq[OF pools_fixed_capacity[OF f] eq]
      using d(1) ok pools_fixed_distinct[OF f]
      unfolding reserved_for_def planner_ok_def planner_reserved_def planner_room_def by auto
  }
  show "planner_ok (planner_release p t shs) \<and> planner_room (planner_release p t shs) = planner_room p
      \<and> planner_cost (planner_release p t shs) = planner_cost p
      \<and> planner_reserved (planner_release p t shs) key
        = planner_reserved p key - shares_cost (planner_cost p) t shs key" if "planner_ok p"
    using planner_release_done[OF that] by simp
qed

definition config_keys_distinct :: "capacity_config list \<Rightarrow> bool" where
  "config_keys_distinct capacity \<longleftrightarrow> distinct (map (\<lambda>c. (cc_region c, pool_id c)) capacity)"

lemma planner_new_ok:
  assumes "config_keys_distinct capacity"
  shows "planner_ok (memory_planner_new capacity costs sched)"
    "planner_reserved (memory_planner_new capacity costs sched) key = 0"
proof -
  have "pool_key_of \<circ> pool_view_from_config = (\<lambda>c. (cc_region c, pool_id c))"
    by (simp add: fun_eq_iff pool_key_of_def pool_view_from_config_def)
  then show "planner_ok (memory_planner_new capacity costs sched)"
    using assms by (simp add: planner_ok_def pools_distinct_def memory_planner_new_def config_keys_distinct_def)
  show "planner_reserved (memory_planner_new capacity costs sched) key = 0"
    by (auto simp: planner_reserved_def memory_planner_new_def reserved_in_def pool_view_from_config_def)
qed

text \<open>
  C11. The planner never oversells: after any sequence of sales and releases, each reserved
  counter is exactly what the lots still held on that pool cost, and at every moment what
  the lots started by then cost is within the pool's configured capacity plus the replicas
  scheduled to have arrived by that moment. So a sale that starts later may use capacity
  that arrives later, and never takes it from one that starts earlier.
\<close>

theorem planner_never_oversells:
  assumes "config_keys_distinct capacity"
    and "foldl (sale_step planner_reserve planner_release) (memory_planner_new capacity costs sched, {#}) ops = (mp, L)"
  shows "planner_reserved mp key = lot_cost (planner_cost mp) key L
    \<and> lot_cost (planner_cost mp) key (started u L) \<le> planner_room (memory_planner_new capacity costs sched) key u"
proof -
  have "mem_planner.sold_ok (memory_planner_new capacity costs sched) (mp, L)"
    using mem_planner.sold_ok_run[OF planner_new_ok[OF assms(1)], of costs sched ops] assms(2) by simp
  from mem_planner.sold_okD[OF this] show ?thesis by simp
qed

section \<open>Sales within what the replicas deliver\<close>

lemma micro_per_cu_covers:
  assumes "0 < wu" and "0 < cap" and "micro_per_cu wu cap < 4294967296"
  shows "real MICRO * wu / (cap * TARGET_UTILISATION) \<le> real (micro_per_cu wu cap)"
proof -
  let ?x = "real MICRO * wu / (cap * TARGET_UTILISATION)"
  have pos: "0 < ?x" using assms by (simp add: MICRO_def TARGET_UTILISATION_def)
  then have c: "0 < \<lceil>?x\<rceil>" by simp
  from assms(3) have "micro_per_cu wu cap = nat \<lceil>?x\<rceil>"
    by (simp add: micro_per_cu_def f64_as_u64_def min_def split: if_splits)
  then have "real (micro_per_cu wu cap) = of_int \<lceil>?x\<rceil>" using c by simp
  then show ?thesis using le_of_int_ceiling[of ?x] by simp
qed

lemma costs_of_tiers:
  assumes "foldl (costs_of_tier wu c profile) costs ts (region, pool, t) = Some v"
  shows "costs (region, pool, t) = Some v
    \<or> (region = cc_region c \<and> pool = pool_id c \<and> 0 < for_tier (prof_capacity_wu_per_s profile) t
       \<and> v = micro_per_cu wu (for_tier (prof_capacity_wu_per_s profile) t))"
  using assms
proof (induction ts arbitrary: costs)
  case (Cons t' ts)
  from Cons.IH[of "costs_of_tier wu c profile costs t'"] Cons.prems
  show ?case by (auto simp: costs_of_tier_def costs_insert_def Let_def split: if_splits)
qed simp

lemma costs_from_config_some:
  assumes "costs_from_config config (region, pool, t) = Some v"
  shows "\<exists>c profile. c \<in> set (cp_capacity config) \<and> cc_region c = region \<and> pool_id c = pool
    \<and> config_profile config (cc_profile c) = Some profile \<and> 0 < for_tier (prof_capacity_wu_per_s profile) t
    \<and> v = micro_per_cu (cp_wu_per_cu config) (for_tier (prof_capacity_wu_per_s profile) t)"
proof -
  let ?f = "\<lambda>costs c. case config_profile config (cc_profile c) of None \<Rightarrow> costs
      | Some profile \<Rightarrow> foldl (costs_of_tier (cp_wu_per_cu config) c profile) costs TIERS"
  have "foldl ?f costs cs (region, pool, t) = Some v \<Longrightarrow> costs (region, pool, t) = Some v
     \<or> (\<exists>c profile. c \<in> set cs \<and> cc_region c = region \<and> pool_id c = pool
        \<and> config_profile config (cc_profile c) = Some profile \<and> 0 < for_tier (prof_capacity_wu_per_s profile) t
        \<and> v = micro_per_cu (cp_wu_per_cu config) (for_tier (prof_capacity_wu_per_s profile) t))" for costs cs
  proof (induction cs arbitrary: costs)
    case (Cons c cs)
    from Cons.IH[of "?f costs c"] Cons.prems
    have "?f costs c (region, pool, t) = Some v \<or> (\<exists>c profile. c \<in> set cs \<and> cc_region c = region \<and> pool_id c = pool
        \<and> config_profile config (cc_profile c) = Some profile \<and> 0 < for_tier (prof_capacity_wu_per_s profile) t
        \<and> v = micro_per_cu (cp_wu_per_cu config) (for_tier (prof_capacity_wu_per_s profile) t))" by simp
    then show ?case
    proof
      assume "?f costs c (region, pool, t) = Some v"
      then show ?thesis
        using costs_of_tiers[of "cp_wu_per_cu config" c _ costs TIERS region pool t v]
        by (cases "config_profile config (cc_profile c)") auto
    qed auto
  qed simp
  from this[of Map.empty "cp_capacity config"] assms show ?thesis by (simp add: costs_from_config_def)
qed

text \<open>Every lot was placed on a pool with a cost for its tier.\<close>

lemma placed_costed:
  assumes "reserve_loop mp model t sh start cs ps placed = Some (Inr (placed', ps'))"
    and "\<forall>s\<in>set placed. costs_share (mp_costs mp) t s \<noteq> None"
  shows "\<forall>s\<in>set placed'. costs_share (mp_costs mp) t s \<noteq> None"
  using assms
proof (induction cs arbitrary: ps placed)
  case (Cons c cs)
  from Cons.prems(1) obtain pool need where
    pl: "place c model t sh (Some start) ps (mp_costs mp) (mp_schedule mp) = Inr (Some (pool, need))"
    and rest: "reserve_loop mp model t sh start cs (update_pool (cl_region c) pool (\<lambda>r. r + need) ps)
                 (placed @ [claim_share c pool]) = Some (Inr (placed', ps'))"
    by (auto simp: claim_share_def split: sum.splits option.splits)
  from pl have "costs_share (mp_costs mp) t (claim_share c pool) \<noteq> None"
    by (rule place_some_best) (auto simp: can_take_claim_def costs_share_def claim_share_def)
  with Cons.prems(2) show ?case by (intro Cons.IH[OF rest]) simp
qed simp

definition lots_costed :: "costs \<Rightarrow> memory_planner \<times> lot multiset \<Rightarrow> bool" where
  "lots_costed costs st \<longleftrightarrow> mp_costs (fst st) = costs
     \<and> (\<forall>l\<in>#snd st. costs_share costs (lot_tier l) (lot_share l) \<noteq> None)"

lemma lots_costed_run:
  "lots_costed costs (foldl (sale_step planner_reserve planner_release) (memory_planner_new capacity costs sched, {#}) ops)"
proof (rule foldl_invariant)
  show "lots_costed costs (memory_planner_new capacity costs sched, {#})"
    by (simp add: lots_costed_def memory_planner_new_def)
  fix st oper
  assume st: "lots_costed costs st"
  show "lots_costed costs (sale_step planner_reserve planner_release st oper)"
  proof (cases oper)
    case (Sell model t cs sh start)
    obtain p L where [simp]: "st = (p, L)" by (cases st)
    show ?thesis
    proof (cases "\<exists>shs ps'. reserve_loop p model t sh start cs (mp_pools p) [] = Some (Inr (shs, ps'))")
      case True
      then obtain shs ps' where r: "reserve_loop p model t sh start cs (mp_pools p) [] = Some (Inr (shs, ps'))" by blast
      from placed_costed[OF r] st Sell r show ?thesis
        by (auto simp: lots_costed_def planner_reserve_def booked_def)
    next
      case False
      with st Sell show ?thesis
        by (auto simp: lots_costed_def planner_reserve_def split: option.splits sum.splits)
    qed
  next
    case (GiveBack t start shs)
    with st show ?thesis
      by (cases st) (auto simp: lots_costed_def planner_release_def dest: in_diffD)
  qed
qed

lemma sum_mset_scale: "(\<Sum>x\<in>#M. a * real (f x)) = a * real (\<Sum>x\<in>#M. f x)"
  by (induction M) (simp_all add: distrib_left)

lemma planner_room_new:
  assumes "config_keys_distinct capacity" and "c \<in> set capacity" and "cc_replicas c \<le> u32_max"
  shows "planner_room (memory_planner_new capacity costs sched) (cc_region c, pool_id c) u
       = cc_replicas c * MICRO + added_by sched (cc_region c) (pool_id c) u"
proof -
  let ?ps = "map pool_view_from_config capacity"
  have d: "pools_distinct ?ps"
    using planner_new_ok(1)[OF assms(1), of costs sched] by (simp add: planner_ok_def memory_planner_new_def)
  have m: "pool_view_from_config c \<in> set ?ps" using assms(2) by simp
  have "cc_replicas c * MICRO < 18446744073709551616"
    using assms(3) by (simp add: u32_max_def MICRO_def)
  then have "capacity_in ?ps (cc_region c, pool_id c) = cc_replicas c * MICRO"
    using reserved_in_member(2)[OF d m] by (simp add: pool_key_of_def pool_view_from_config_def u64_mul_exact)
  then show ?thesis by (simp add: planner_room_def memory_planner_new_def)
qed

text \<open>The replicas a lot keeps busy: its WU/s over what a replica delivers at its tier.\<close>

definition lot_replicas :: "real \<Rightarrow> tier_capacity \<Rightarrow> lot \<Rightarrow> real" where
  "lot_replicas wu_per_cu cap l = real (ps_cus (lot_share l)) * wu_per_cu / for_tier cap (lot_tier l)"

definition lots_replicas :: "real \<Rightarrow> tier_capacity \<Rightarrow> pool_key \<Rightarrow> lot multiset \<Rightarrow> real" where
  "lots_replicas wu_per_cu cap key L =
     (\<Sum>l\<in>#filter_mset (\<lambda>l. share_key (lot_share l) = key) L. lot_replicas wu_per_cu cap l)"

definition widths_ok :: "costs \<Rightarrow> lot multiset \<Rightarrow> bool" where
  "widths_ok costs L \<longleftrightarrow> (\<forall>k v. costs k = Some v \<longrightarrow> v < 4294967296)
     \<and> (\<forall>l. l \<in># L \<longrightarrow> ps_cus (lot_share l) < 4294967296)"

lemma planner_cost_covers:
  assumes "config_keys_distinct (cp_capacity config)" and "c \<in> set (cp_capacity config)"
    and "config_profile config (cc_profile c) = Some profile" and "0 < cp_wu_per_cu config"
    and "widths_ok (costs_from_config config) L" and "l \<in># L" and "mp_costs mp = costs_from_config config"
    and "share_key (lot_share l) = (cc_region c, pool_id c)"
    and "costs_share (mp_costs mp) (lot_tier l) (lot_share l) \<noteq> None"
  shows "real MICRO * lot_replicas (cp_wu_per_cu config) (prof_capacity_wu_per_s profile) l
         \<le> TARGET_UTILISATION * real (planner_cost mp (lot_tier l) (lot_share l))"
proof -
  let ?s = "lot_share l"
  let ?cap = "for_tier (prof_capacity_wu_per_s profile) (lot_tier l)"
  let ?wu = "cp_wu_per_cu config"
  have key: "ps_region ?s = cc_region c" "ps_pool ?s = pool_id c" using assms(8) by (simp_all add: share_key_def)
  from assms(7,9) key obtain v where v: "costs_from_config config (cc_region c, pool_id c, lot_tier l) = Some v"
    by (auto simp: costs_share_def per_cu_def)
  from costs_from_config_some[OF this] obtain c' profile' where
    c': "c' \<in> set (cp_capacity config)" "cc_region c' = cc_region c" "pool_id c' = pool_id c"
      "config_profile config (cc_profile c') = Some profile'"
      "0 < for_tier (prof_capacity_wu_per_s profile') (lot_tier l)"
      "v = micro_per_cu ?wu (for_tier (prof_capacity_wu_per_s profile') (lot_tier l))" by blast
  have "c' = c"
    using assms(1,2) c'(1-3) unfolding config_keys_distinct_def distinct_map by (auto dest: inj_onD)
  with c' assms(3) have cap: "0 < ?cap" "v = micro_per_cu ?wu ?cap" by auto
  from assms(5,6) v have w: "v < 4294967296" "ps_cus ?s < 4294967296" unfolding widths_ok_def by blast+
  have "real MICRO * ?wu / (?cap * TARGET_UTILISATION) \<le> real v"
    using micro_per_cu_covers[OF assms(4) cap(1)] cap(2) w(1) by simp
  then have "real MICRO * ?wu / ?cap \<le> TARGET_UTILISATION * real v"
    using cap(1) by (simp add: TARGET_UTILISATION_def field_simps)
  then have le: "real (ps_cus ?s) * (real MICRO * ?wu / ?cap) \<le> real (ps_cus ?s) * (TARGET_UTILISATION * real v)"
    by (rule mult_left_mono) simp
  have "v * ps_cus ?s < 18446744073709551616"
    using mult_strict_mono[OF w] by simp
  then have "planner_cost mp (lot_tier l) ?s = v * ps_cus ?s"
    using v key assms(7) by (simp add: planner_cost_def costs_share_def per_cu_def u64_mul_exact)
  then show ?thesis using le by (simp add: lot_replicas_def mult_ac)
qed

text \<open>
  C16. What is sold fits what the replicas deliver: with the costs and the schedule read from
  the configuration, after any sequence of sales and releases and at every moment, the lots
  started by then on a pool keep at most the target utilisation of its replicas busy, those
  configured and those scheduled to have arrived, each lot at the throughput a replica has at
  the lot's tier. Rounding a CU's cost up makes this exact in spite of integer counters.
\<close>

theorem sales_fit_throughput:
  assumes "config_keys_distinct (cp_capacity config)" and "c \<in> set (cp_capacity config)"
    and "config_profile config (cc_profile c) = Some profile" and "0 < cp_wu_per_cu config"
    and "cc_replicas c \<le> u32_max"
    and "foldl (sale_step planner_reserve planner_release)
          (memory_planner_new (cp_capacity config) (costs_from_config config) (schedule_from_config config), {#}) ops = (mp, L)"
    and "widths_ok (costs_from_config config) L"
  shows "lots_replicas (cp_wu_per_cu config) (prof_capacity_wu_per_s profile) (cc_region c, pool_id c) (started u L)
    \<le> TARGET_UTILISATION * (real (cc_replicas c)
         + real (added_by (schedule_from_config config) (cc_region c) (pool_id c) u) / real MICRO)"
proof -
  let ?mp0 = "memory_planner_new (cp_capacity config) (costs_from_config config) (schedule_from_config config)"
  let ?key = "(cc_region c, pool_id c)"
  let ?M = "filter_mset (\<lambda>l. share_key (lot_share l) = ?key) (started u L)"
  let ?a = "added_by (schedule_from_config config) (cc_region c) (pool_id c) u"
  have ok: "mem_planner.sold_ok ?mp0 (mp, L)"
    using mem_planner.sold_ok_run[OF planner_new_ok[OF assms(1)], of "costs_from_config config" "schedule_from_config config" ops]
      assms(6) by simp
  have costed: "lots_costed (costs_from_config config) (mp, L)"
    using lots_costed_run[of "costs_from_config config" "cp_capacity config" "schedule_from_config config" ops] assms(6) by simp
  have "real MICRO * lot_replicas (cp_wu_per_cu config) (prof_capacity_wu_per_s profile) l
         \<le> TARGET_UTILISATION * real (planner_cost mp (lot_tier l) (lot_share l))" if "l \<in># ?M" for l
    using that costed started_subset[of u L]
    by (intro planner_cost_covers[OF assms(1-4,7)]) (auto simp: lots_costed_def dest: mset_subset_eqD)
  then have "(\<Sum>l\<in>#?M. real MICRO * lot_replicas (cp_wu_per_cu config) (prof_capacity_wu_per_s profile) l)
      \<le> (\<Sum>l\<in>#?M. TARGET_UTILISATION * real (planner_cost mp (lot_tier l) (lot_share l)))"
    by (rule sum_mset_mono)
  also have "\<dots> = TARGET_UTILISATION * real (lot_cost (planner_cost mp) ?key (started u L))"
    by (simp add: lot_cost_def sum_mset_scale)
  also have "\<dots> \<le> TARGET_UTILISATION * real (planner_room ?mp0 ?key u)"
    using mem_planner.sold_okD(3,5)[OF ok] by (simp add: TARGET_UTILISATION_def)
  also have "planner_room ?mp0 ?key u = cc_replicas c * MICRO + ?a"
    using planner_room_new[OF assms(1,2,5)] by simp
  finally have "real MICRO * lots_replicas (cp_wu_per_cu config) (prof_capacity_wu_per_s profile) ?key (started u L)
      \<le> TARGET_UTILISATION * real (cc_replicas c * MICRO + ?a)"
    by (simp add: lots_replicas_def sum_mset_distrib_left)
  then show ?thesis by (simp add: MICRO_def TARGET_UTILISATION_def field_simps)
qed

section \<open>Examples\<close>

definition demo_pool :: capacity_config where
  "demo_pool = \<lparr>cc_region = ''eu'', cc_model = ''m'', cc_pool = None, cc_replicas = 1,
     cc_max_context = 8192, cc_profile = ''test''\<rparr>"

definition demo_plan_config :: control_plane_config where
  "demo_plan_config = \<lparr>cp_capacity = [demo_pool],
     cp_capacity_changes =
       [\<lparr>ch_region = ''eu'', ch_model = ''m'', ch_pool = None, ch_add_replicas = 1, ch_from = 200\<rparr>,
        \<lparr>ch_region = ''eu'', ch_model = ''m'', ch_pool = None, ch_add_replicas = 1, ch_from = 100\<rparr>],
     cp_profiles = [example_profile], cp_wu_per_cu = 1000\<rparr>"

definition demo_shape :: shape where
  "demo_shape = \<lparr>input_p95 = 1000, input_max = 2000, output_p95 = 100, context_ceiling = 4096,
     cache_hit_ratio = 0, burst_factor = 1\<rparr>"

definition demo_claim :: "nat \<Rightarrow> claim" where
  "demo_claim n = \<lparr>cl_region = ''eu'', cl_pool = None, cl_cus = n\<rparr>"

lemma micro_per_cu_demo:
  "micro_per_cu 1000 30000 = 41667" "micro_per_cu 1000 35500 = 35212" "micro_per_cu 1000 58000 = 21552"
proof -
  have "\<lceil>1000000 * 1000 / (30000 * (8/10)) :: real\<rceil> = 41667"
    "\<lceil>1000000 * 1000 / (35500 * (8/10)) :: real\<rceil> = 35212"
    "\<lceil>1000000 * 1000 / (58000 * (8/10)) :: real\<rceil> = 21552"
    by (rule ceiling_unique; simp)+
  then show "micro_per_cu 1000 30000 = 41667" "micro_per_cu 1000 35500 = 35212" "micro_per_cu 1000 58000 = 21552"
    by (simp_all add: micro_per_cu_def MICRO_def TARGET_UTILISATION_def f64_as_u64_def)
qed

lemma demo_costs:
  "costs_from_config demo_plan_config =
     [(''eu'', ''m'', Interactive) \<mapsto> 41667, (''eu'', ''m'', Agentic) \<mapsto> 35212, (''eu'', ''m'', Standard) \<mapsto> 21552]"
  by (simp add: costs_from_config_def demo_plan_config_def demo_pool_def config_profile_def example_profile_def
      TIERS_def costs_of_tier_def costs_insert_def for_tier_def pool_id_def micro_per_cu_demo)

lemma demo_schedule:
  "schedule_from_config demo_plan_config = [(''eu'', ''m'') \<mapsto> [(100, 1000000), (200, 1000000)]]"
  by (rule ext) (simp add: schedule_from_config_def demo_plan_config_def demo_pool_def schedule_push_def
      capacity_for_def pools_for_def pool_id_def u64_mul_def MICRO_def sort_key_def)

definition demo_planner :: memory_planner where
  "demo_planner = memory_planner_new (cp_capacity demo_plan_config) (costs_from_config demo_plan_config)
     (schedule_from_config demo_plan_config)"

lemma demo_planner_eq:
  "demo_planner = \<lparr>mp_pools = [\<lparr>pv_region = ''eu'', pv_pool = ''m'', pv_model = ''m'', pv_capacity = 1000000,
       pv_reserved = 0, pv_max_context = 8192\<rparr>],
     mp_costs = [(''eu'', ''m'', Interactive) \<mapsto> 41667, (''eu'', ''m'', Agentic) \<mapsto> 35212, (''eu'', ''m'', Standard) \<mapsto> 21552],
     mp_schedule = [(''eu'', ''m'') \<mapsto> [(100, 1000000), (200, 1000000)]], mp_pending = Map.empty\<rparr>"
  by (simp add: demo_planner_def memory_planner_new_def demo_costs demo_schedule)
    (simp add: demo_plan_config_def demo_pool_def pool_view_from_config_def pool_id_def u64_mul_def MICRO_def)

lemmas planner_eval = demo_planner_eq planner_reserve_def place_def place_candidates_def place_costed_def
  per_cu_def free_at_def added_by_def arrivals_def u64_mul_def demo_shape_def demo_claim_def is_pool_def
  place_unavailable_def iter_max_def max_by_key_def min_by_key_def cus_in_def u32_max_def fits_from_def
  dates_after_def booked_def

definition demo_lots :: "lot multiset" where
  "demo_lots = {#Lot Standard 0 (claim_share (demo_claim 46) ''m''), Lot Standard 100 (claim_share (demo_claim 46) ''m'')#}"

definition demo_sold :: memory_planner where
  "demo_sold = demo_planner\<lparr>mp_pools := [\<lparr>pv_region = ''eu'', pv_pool = ''m'', pv_model = ''m'', pv_capacity = 1000000,
       pv_reserved = 1982784, pv_max_context = 8192\<rparr>]\<rparr>"

definition demo_ops :: "sale_op list" where
  "demo_ops = [Sell ''m'' Standard [demo_claim 46] demo_shape 0, Sell ''m'' Standard [demo_claim 46] demo_shape 50,
     Sell ''m'' Standard [demo_claim 46] demo_shape 100]"

lemma demo_run:
  "foldl (sale_step planner_reserve planner_release) (demo_planner, {#}) demo_ops = (demo_sold, demo_lots)"
  by (simp add: planner_eval demo_ops_def demo_sold_def demo_lots_def claim_share_def)

theorem place_best_fit_witness:
  "\<exists>ys p zs. mp_pools demo_planner = ys @ p # zs \<and> ''m'' = pv_pool p
     \<and> 991392 = claim_need (demo_claim 46) Standard (mp_costs demo_planner) p
     \<and> can_take_claim (demo_claim 46) ''m'' Standard demo_shape 0 (mp_costs demo_planner) (mp_schedule demo_planner) p
     \<and> tightest (can_take_claim (demo_claim 46) ''m'' Standard demo_shape 0 (mp_costs demo_planner) (mp_schedule demo_planner))
         (\<lambda>q. free_at q (mp_schedule demo_planner) 0 - claim_need (demo_claim 46) Standard (mp_costs demo_planner) q)
         ys (free_at p (mp_schedule demo_planner) 0 - 991392) zs"
proof -
  have "place (demo_claim 46) ''m'' Standard demo_shape (Some 0) (mp_pools demo_planner) (mp_costs demo_planner)
      (mp_schedule demo_planner) = Inr (Some (''m'', 991392))"
    by (simp add: planner_eval)
  with place_best_fit[of "demo_claim 46" "''m''" Standard demo_shape 0 "mp_pools demo_planner" "mp_costs demo_planner"
      "mp_schedule demo_planner" "''m''" 991392]
  show ?thesis by simp
qed

lemma demo_keys: "config_keys_distinct (cp_capacity demo_plan_config)"
  by (simp add: config_keys_distinct_def demo_plan_config_def)

theorem planner_never_oversells_witness:
  "planner_reserved demo_sold (''eu'', ''m'') = lot_cost (planner_cost demo_sold) (''eu'', ''m'') demo_lots
   \<and> lot_cost (planner_cost demo_sold) (''eu'', ''m'') (started 99 demo_lots) \<le> planner_room demo_planner (''eu'', ''m'') 99"
  using planner_never_oversells[OF demo_keys demo_run[unfolded demo_planner_def], of "(''eu'', ''m'')" 99]
  unfolding demo_planner_def .

lemma demo_widths: "widths_ok (costs_from_config demo_plan_config) demo_lots"
  by (auto simp: widths_ok_def demo_costs demo_lots_def claim_share_def demo_claim_def split: if_splits)

theorem sales_fit_throughput_witness:
  "lots_replicas 1000 (prof_capacity_wu_per_s example_profile) (''eu'', ''m'') (started 100 demo_lots)
   \<le> TARGET_UTILISATION * (1 + real (added_by (schedule_from_config demo_plan_config) ''eu'' ''m'' 100) / real MICRO)"
  using sales_fit_throughput[OF demo_keys _ _ _ _ demo_run[unfolded demo_planner_def] demo_widths, of demo_pool example_profile 100]
  by (simp add: demo_plan_config_def demo_pool_def pool_id_def config_profile_def example_profile_def u32_max_def)

text \<open>
  The date announced with a refusal may be one at which the claim still does not fit: the
  pool has one replica sold now and one, arriving at 100, sold from 100. A claim for a start
  at 50 is refused with "fits from 100", and the same claim for a start at 100 is refused
  with "fits from 200". The free capacity at 50 is zero after saturating, not minus what is
  sold ahead, and \<open>fits_from\<close> adds the arrivals to that zero.
\<close>

theorem announced_date_may_not_fit:
  "planner_reserve demo_sold ''m'' Standard [demo_claim 46] demo_shape 50
     = Some (Inl (CapacityUnavailable ''eu'' ''m'' Standard 46 0 (Some 100)), demo_sold)
   \<and> planner_reserve demo_sold ''m'' Standard [demo_claim 46] demo_shape 100
     = Some (Inl (CapacityUnavailable ''eu'' ''m'' Standard 46 0 (Some 200)), demo_sold)
   \<and> (\<exists>ops. foldl (sale_step planner_reserve planner_release) (demo_planner, {#}) ops = (demo_sold, demo_lots))"
proof (intro conjI)
  show "planner_reserve demo_sold ''m'' Standard [demo_claim 46] demo_shape 50
     = Some (Inl (CapacityUnavailable ''eu'' ''m'' Standard 46 0 (Some 100)), demo_sold)"
    by (simp add: planner_eval demo_sold_def)
  show "planner_reserve demo_sold ''m'' Standard [demo_claim 46] demo_shape 100
     = Some (Inl (CapacityUnavailable ''eu'' ''m'' Standard 46 0 (Some 200)), demo_sold)"
    by (simp add: planner_eval demo_sold_def)
  show "\<exists>ops. foldl (sale_step planner_reserve planner_release) (demo_planner, {#}) ops = (demo_sold, demo_lots)"
    using demo_run by blast
qed

section \<open>Restoring and reconciling the counters\<close>

definition wanted :: "(pool_key \<times> nat) list \<Rightarrow> pool_key \<Rightarrow> nat" where
  "wanted expected key = (case map_of expected key of None \<Rightarrow> 0 | Some n \<Rightarrow> n)"

lemma expect_share_wanted:
  assumes "distinct (map fst out)"
  shows "distinct (map fst (expect_share costs t out s))"
    "wanted (expect_share costs t out s) key = wanted out key
       + (if share_key s = key then (case costs_share costs t s of None \<Rightarrow> 0 | Some n \<Rightarrow> n) else 0)"
  using assms
  by (cases "costs_share costs t s"; cases "share_key s = key";
      simp add: expect_share_def wanted_def share_key_def Let_def distinct_update update_conv')+

lemma expect_shares_wanted:
  assumes "distinct (map fst out)"
  shows "distinct (map fst (foldl (expect_share costs t) out shs))
    \<and> wanted (foldl (expect_share costs t) out shs) key = wanted out key
       + shares_cost (\<lambda>t s. case costs_share costs t s of None \<Rightarrow> 0 | Some n \<Rightarrow> n) t shs key"
  using assms
proof (induction shs arbitrary: out)
  case (Cons s shs)
  from Cons.IH[of "expect_share costs t out s"] expect_share_wanted[OF Cons.prems]
  show ?case by (simp add: shares_cost_Cons)
qed (simp add: shares_cost_def)

text \<open>What all live reservations hold on a pool.\<close>

definition held_cost :: "memory_planner \<Rightarrow> held list \<Rightarrow> pool_key \<Rightarrow> nat" where
  "held_cost mp hs key = (\<Sum>h\<leftarrow>hs. shares_cost (planner_cost mp) (hd_tier h) (hd_shares h) key)"

lemma expected_micro_wanted:
  "distinct (map fst (expected_micro (mp_costs mp) hs))
   \<and> wanted (expected_micro (mp_costs mp) hs) key = held_cost mp hs key"
proof -
  let ?f = "\<lambda>out h. foldl (expect_share (mp_costs mp) (hd_tier h)) out (hd_shares h)"
  have c: "planner_cost mp = (\<lambda>t s. case costs_share (mp_costs mp) t s of None \<Rightarrow> 0 | Some n \<Rightarrow> n)"
    by (rule ext)+ (simp add: planner_cost_def)
  have "distinct (map fst out) \<Longrightarrow> distinct (map fst (foldl ?f out hs))
     \<and> wanted (foldl ?f out hs) key = wanted out key + held_cost mp hs key" for out
  proof (induction hs arbitrary: out)
    case (Cons h hs)
    from Cons.IH[of "?f out h"] expect_shares_wanted[OF Cons.prems, of "mp_costs mp" "hd_tier h" "hd_shares h" key]
    show ?case by (simp add: held_cost_def c)
  qed (simp add: held_cost_def)
  from this[of "[]"] show ?thesis by (simp add: expected_micro_def wanted_def)
qed

lemma restore_pools:
  assumes "pools_distinct ps" and "distinct (map fst xs)"
  defines "f \<equiv> \<lambda>pools ((region, pool), micro). update_pool region pool (\<lambda>r. r + micro) pools"
  shows "pools_fixed (foldl f ps xs) = pools_fixed ps
    \<and> reserved_in (foldl f ps xs) key
      = reserved_in ps key + (if key \<in> pool_key_of ` set ps then wanted xs key else 0)"
  using assms(1,2)
proof (induction xs arbitrary: ps)
  case Nil
  then show ?case by (simp add: wanted_def)
next
  case (Cons x xs)
  obtain region pool n where x: "x = ((region, pool), n)" by (metis prod.exhaust)
  let ?ps = "update_pool region pool (\<lambda>r. r + n) ps"
  have keys: "pool_key_of ` set ?ps = pool_key_of ` set ps"
    using pools_fixed_keys[OF update_pool_fixed] by (metis list.set_map)
  have d: "pools_distinct ?ps" using Cons.prems(1) pools_fixed_distinct[OF update_pool_fixed] by blast
  have "(region, pool) \<notin> fst ` set xs" using Cons.prems(2) x by simp
  then have w: "wanted xs (region, pool) = 0"
    by (simp add: wanted_def map_of_eq_None_iff[THEN iffD2])
  have w': "wanted (x # xs) key = (if key = (region, pool) then n else 0) + wanted xs key" for key
    using w x by (auto simp: wanted_def)
  from Cons.IH[OF d] Cons.prems(2) show ?case
    using x keys w' by (simp add: f_def reserved_in_update[OF Cons.prems(1)])
qed

lemma planner_restore_reserved:
  assumes "planner_ok mp"
  shows "planner_reserved (planner_restore mp live) key
    = planner_reserved mp key + (if key \<in> pool_key_of ` set (mp_pools mp) then held_cost mp live key else 0)"
  using restore_pools[of "mp_pools mp" "expected_micro (mp_costs mp) live" key] expected_micro_wanted[of mp live key] assms
  by (simp add: planner_restore_def planner_reserved_def planner_ok_def)

text \<open>What one run does to a pool and to the pending drift of its key.\<close>

definition drifted :: "(pool_key \<times> nat) list \<Rightarrow> pool_view \<Rightarrow> bool" where
  "drifted expected p \<longleftrightarrow> pv_reserved p \<noteq> wanted expected (pool_key_of p)"

definition corrected :: "(pool_key \<times> nat) list \<Rightarrow> pending_drift \<Rightarrow> pool_view \<Rightarrow> bool" where
  "corrected expected pend p \<longleftrightarrow> drifted expected p
     \<and> pend (pool_key_of p) = Some (pv_reserved p, wanted expected (pool_key_of p))"

definition reconciled :: "(pool_key \<times> nat) list \<Rightarrow> pending_drift \<Rightarrow> pool_view \<Rightarrow> pool_view" where
  "reconciled expected pend p =
     (if corrected expected pend p then p\<lparr>pv_reserved := wanted expected (pool_key_of p)\<rparr> else p)"

definition drift_of :: "(pool_key \<times> nat) list \<Rightarrow> pending_drift \<Rightarrow> pool_view \<Rightarrow> drift" where
  "drift_of expected pend p =
     \<lparr>dr_region = pv_region p, dr_pool = pv_pool p, dr_reserved = pv_reserved p,
      dr_expected = wanted expected (pool_key_of p), dr_corrected = corrected expected pend p\<rparr>"

definition pending_after :: "(pool_key \<times> nat) list \<Rightarrow> pending_drift \<Rightarrow> pool_view \<Rightarrow> (nat \<times> nat) option" where
  "pending_after expected pend p =
     (if drifted expected p \<and> \<not> corrected expected pend p
      then Some (pv_reserved p, wanted expected (pool_key_of p)) else None)"

lemma judge_drift_pool:
  "judge_drift pend (pool_key_of p) (pv_reserved p) (wanted expected (pool_key_of p)) =
     (if drifted expected p then Some (drift_of expected pend p, corrected expected pend p) else None,
      pend(pool_key_of p := pending_after expected pend p))"
  by (auto simp: judge_drift_def drifted_def corrected_def drift_of_def pending_after_def pool_key_of_def Let_def
      fun_upd_def)

lemma reconcile_loop_Cons:
  "reconcile_loop expected (p # ps) pend =
     (let (ds, ps', pend') = reconcile_loop expected ps (pend(pool_key_of p := pending_after expected pend p))
      in ((if drifted expected p then [drift_of expected pend p] else []) @ ds, reconciled expected pend p # ps', pend'))"
proof -
  have "(case map_of expected (pv_region p, pv_pool p) of None \<Rightarrow> 0 | Some n \<Rightarrow> n) = wanted expected (pool_key_of p)"
    by (simp add: wanted_def pool_key_of_def)
  moreover have "(pv_region p, pv_pool p) = pool_key_of p" by (simp add: pool_key_of_def)
  ultimately show ?thesis
    by (simp add: judge_drift_pool reconciled_def corrected_def Let_def split_beta split: bool.split)
qed

lemma reconcile_loop_spec:
  assumes "pools_distinct ps"
  shows "reconcile_loop expected ps pend =
    (map (drift_of expected pend) (filter (drifted expected) ps), map (reconciled expected pend) ps,
     \<lambda>key. case find (\<lambda>p. pool_key_of p = key) ps of None \<Rightarrow> pend key | Some p \<Rightarrow> pending_after expected pend p)"
  using assms
proof (induction ps arbitrary: pend)
  case Nil
  then show ?case by simp
next
  case (Cons p ps)
  let ?pend = "pend(pool_key_of p := pending_after expected pend p)"
  have ps: "pools_distinct ps" and fresh: "\<And>q. q \<in> set ps \<Longrightarrow> pool_key_of q \<noteq> pool_key_of p"
    using Cons.prems by (auto simp: pools_distinct_def) (metis image_eqI)
  have same: "corrected expected ?pend q = corrected expected pend q" if "q \<in> set ps" for q
    using fresh[OF that] by (simp add: corrected_def)
  have "map (drift_of expected ?pend) (filter (drifted expected) ps) = map (drift_of expected pend) (filter (drifted expected) ps)"
    "map (reconciled expected ?pend) ps = map (reconciled expected pend) ps"
    using same by (auto simp: drift_of_def reconciled_def)
  moreover have "(case find (\<lambda>p. pool_key_of p = key) ps of None \<Rightarrow> ?pend key | Some p \<Rightarrow> pending_after expected ?pend p)
      = (case find (\<lambda>p. pool_key_of p = key) (p # ps) of None \<Rightarrow> pend key | Some p \<Rightarrow> pending_after expected pend p)" for key
  proof (cases "find (\<lambda>p. pool_key_of p = key) ps")
    case None
    then show ?thesis by simp
  next
    case (Some q)
    then have q: "q \<in> set ps" "pool_key_of q = key" by (auto simp: find_Some_iff)
    then have "pool_key_of p \<noteq> key" using fresh by metis
    then show ?thesis using Some same[OF q(1)] by (simp add: pending_after_def)
  qed
  ultimately show ?case
    unfolding reconcile_loop_Cons Cons.IH[OF ps] by (simp add: Let_def)
qed

lemma planner_reconcile_spec:
  assumes "planner_ok mp"
  shows "planner_reconcile mp expected =
    (Inr (map (drift_of expected (mp_pending mp)) (filter (drifted expected) (mp_pools mp))),
     mp\<lparr>mp_pools := map (reconciled expected (mp_pending mp)) (mp_pools mp),
        mp_pending := \<lambda>key. case find (\<lambda>p. pool_key_of p = key) (mp_pools mp) of
           None \<Rightarrow> mp_pending mp key | Some p \<Rightarrow> pending_after expected (mp_pending mp) p\<rparr>)"
  using assms reconcile_loop_spec[of "mp_pools mp"] by (simp add: planner_reconcile_def planner_ok_def)

lemma find_distinct_key:
  assumes "pools_distinct ps" and "p \<in> set ps"
  shows "find (\<lambda>q. pool_key_of q = pool_key_of p) ps = Some p"
  using assms by (induction ps) (force simp: pools_distinct_def)+

text \<open>A planner started again from the live reservations sees no drift against them.\<close>

lemma restore_then_reconcile_clean:
  fixes costs :: costs and sched :: schedule and live :: "held list"
  assumes "config_keys_distinct capacity"
  defines "mp \<equiv> planner_restore (memory_planner_new capacity costs sched) live"
  shows "fst (planner_reconcile mp (expected_micro costs live)) = Inr []"
proof -
  let ?mp0 = "memory_planner_new capacity costs sched"
  have ok0: "planner_ok ?mp0" by (rule planner_new_ok(1)[OF assms(1)])
  have f: "pools_fixed (mp_pools mp) = pools_fixed (mp_pools ?mp0)"
    using restore_pools[of "mp_pools ?mp0" "expected_micro (mp_costs ?mp0) live"] ok0 expected_micro_wanted[of ?mp0 live]
    by (simp add: mp_def planner_restore_def planner_ok_def)
  have ok: "planner_ok mp" using ok0 pools_fixed_distinct[OF f] by (simp add: planner_ok_def)
  have "\<not> drifted (expected_micro costs live) p" if p: "p \<in> set (mp_pools mp)" for p
  proof -
    have "pool_key_of p \<in> pool_key_of ` set (mp_pools ?mp0)"
      using p pools_fixed_keys[OF f] by (metis image_eqI list.set_map)
    then have "planner_reserved mp (pool_key_of p) = held_cost ?mp0 live (pool_key_of p)"
      unfolding mp_def planner_restore_reserved[OF ok0] planner_new_ok(2)[OF assms(1)] by simp
    moreover have "planner_reserved mp (pool_key_of p) = pv_reserved p"
      using reserved_in_member(1)[OF _ p] ok by (simp add: planner_reserved_def planner_ok_def)
    moreover have "wanted (expected_micro costs live) (pool_key_of p) = held_cost ?mp0 live (pool_key_of p)"
      using expected_micro_wanted[of ?mp0 live] by (simp add: memory_planner_new_def)
    ultimately show ?thesis by (simp add: drifted_def)
  qed
  then show ?thesis by (simp add: planner_reconcile_spec[OF ok] filter_empty_conv)
qed

lemma reconcile_reserved:
  assumes "planner_ok mp" and "p \<in> set (mp_pools mp)" and "planner_reconcile mp expected = (r, mp')"
  shows "planner_reserved mp' (pool_key_of p) = pv_reserved (reconciled expected (mp_pending mp) p)"
    "mp_pending mp' (pool_key_of p) = pending_after expected (mp_pending mp) p"
proof -
  have d: "pools_distinct (mp_pools mp)" using assms(1) by (simp add: planner_ok_def)
  have mp': "mp_pools mp' = map (reconciled expected (mp_pending mp)) (mp_pools mp)"
    "mp_pending mp' (pool_key_of p) = pending_after expected (mp_pending mp) p"
    using assms(3) find_distinct_key[OF d assms(2)] by (auto simp: planner_reconcile_spec[OF assms(1)])
  show "mp_pending mp' (pool_key_of p) = pending_after expected (mp_pending mp) p" by (rule mp'(2))
  have k: "pool_key_of (reconciled expected pend q) = pool_key_of q" for pend q by (simp add: reconciled_def)
  have "pools_distinct (mp_pools mp')" using d mp'(1) by (simp add: pools_distinct_def comp_def k)
  from reserved_in_member(1)[OF this, of "reconciled expected (mp_pending mp) p"] assms(2)
  show "planner_reserved mp' (pool_key_of p) = pv_reserved (reconciled expected (mp_pending mp) p)"
    by (simp add: planner_reserved_def k mp'(1))
qed

text \<open>
  A drift is corrected on the second run that sees it, and only then. From a planner
  without pending drifts, a first reconcile changes no counter. A second one, after whatever
  the counters did in between, sets a pool's counter to the expected value exactly when both
  the counter and the expected value are what the first run saw, and leaves it alone
  otherwise: a sale in flight between the runs is not undone.
\<close>

theorem drift_corrected_on_second_run:
  assumes "planner_ok mp" and "mp_pending mp = Map.empty" and "planner_reconcile mp expected = (r, mp1)"
    and "planner_ok mp1'" and "mp_pending mp1' = mp_pending mp1" and "planner_reconcile mp1' expected' = (r', mp2)"
    and "p \<in> set (mp_pools mp)" and "p' \<in> set (mp_pools mp1')" and "pool_key_of p' = pool_key_of p"
  shows "planner_reserved mp1 (pool_key_of p) = pv_reserved p
    \<and> planner_reserved mp2 (pool_key_of p) =
        (if pv_reserved p' = pv_reserved p \<and> wanted expected' (pool_key_of p) = wanted expected (pool_key_of p)
         then wanted expected (pool_key_of p) else pv_reserved p')"
proof -
  note one = reconcile_reserved[OF assms(1,7,3)]
  have "mp_pending mp1' (pool_key_of p) = pending_after expected Map.empty p" using one(2) assms(2,5) by simp
  then have "planner_reserved mp2 (pool_key_of p) = (if pv_reserved p' = pv_reserved p
      \<and> wanted expected' (pool_key_of p) = wanted expected (pool_key_of p)
      then wanted expected (pool_key_of p) else pv_reserved p')"
    using reconcile_reserved(1)[OF assms(4,8,6)] assms(9)
    by (auto simp: reconciled_def corrected_def drifted_def pending_after_def split: if_splits)
  moreover have "planner_reserved mp1 (pool_key_of p) = pv_reserved p"
    using one(1) assms(2) by (simp add: reconciled_def corrected_def)
  ultimately show ?thesis by simp
qed

lemma demo_sold_ok: "planner_ok demo_sold"
  by (simp add: demo_sold_def demo_planner_eq planner_ok_def pools_distinct_def)

theorem drift_corrected_on_second_run_witness:
  "planner_reserved (snd (planner_reconcile (snd (planner_reconcile demo_sold [((''eu'', ''m''), 991392)])) [((''eu'', ''m''), 991392)]))
     (''eu'', ''m'') = 991392"
proof -
  let ?E = "[((''eu'', ''m''), 991392)]"
  define mp1 where "mp1 = snd (planner_reconcile demo_sold ?E)"
  define p where "p = hd (mp_pools demo_sold)"
  have r1: "planner_reconcile demo_sold ?E = (fst (planner_reconcile demo_sold ?E), mp1)" by (simp add: mp1_def)
  have p: "p \<in> set (mp_pools demo_sold)" "pool_key_of p = (''eu'', ''m'')" "mp_pending demo_sold = Map.empty"
    by (simp_all add: p_def demo_sold_def demo_planner_eq pool_key_of_def)
  have mp1: "mp_pools mp1 = mp_pools demo_sold" "planner_ok mp1"
    by (simp_all add: mp1_def planner_reconcile_spec[OF demo_sold_ok] reconciled_def corrected_def p(3) map_idI)
      (simp add: demo_sold_def demo_planner_eq planner_ok_def pools_distinct_def)
  have r2: "planner_reconcile mp1 ?E = (fst (planner_reconcile mp1 ?E), snd (planner_reconcile mp1 ?E))" by simp
  from drift_corrected_on_second_run[OF demo_sold_ok p(3) r1 mp1(2) refl r2 p(1), of p] p mp1
  show ?thesis by (simp add: wanted_def mp1_def)
qed

end
