(* ===== verification/Validate.thy ===== *)
theory Validate
  imports Store Planner
begin

text \<open>
  What the service checks and charges before it touches capacity, from \<open>pt-control-plane\<close>:
  the configuration it reads (\<open>config.rs\<close>), its errors (\<open>service.rs\<close>), request validation
  (\<open>validate.rs\<close>) and prices (\<open>pricing.rs\<close>). An error keeps the field or code the API
  returns; message texts are dropped.
\<close>

section \<open>Configuration (config.rs)\<close>

record model_config =
  mc_id :: string
  mc_max_context :: nat
  mc_tiers :: "tier list"

record failover_config =
  fc_auto_declare :: bool
  fc_heartbeat_timeout_seconds :: nat
  fc_recovery_seconds :: nat
  fc_return_ramp_minutes :: nat

record rebalance_config =
  rb_enabled :: bool
  rb_window_minutes :: nat
  rb_cooldown_minutes :: nat
  rb_max_shift_fraction :: real
  rb_min_requests :: nat

record pricing_config =
  pg_currency :: string
  pg_base_cu_price_per_month_cents :: nat

text \<open>The sections of \<open>ControlPlaneConfig\<close>; \<open>sc_plan\<close> holds those the planner reads.\<close>

record service_config =
  sc_plan :: control_plane_config
  sc_models :: "model_config list"
  sc_regions :: "region_config list"
  sc_pricing :: pricing_config
  sc_endpoint_template :: string
  sc_failover :: failover_config
  sc_rebalance :: rebalance_config

definition config_model :: "service_config \<Rightarrow> string \<Rightarrow> model_config option" where
  "config_model config mid = find (\<lambda>m. mc_id m = mid) (sc_models config)"

section \<open>Errors (service.rs)\<close>

datatype service_error =
    NotFound
  | Validation string
  | Capacity plan_error
  | Conflict string
  | PreconditionFailed nat nat
  | ServiceUnavailable string

fun from_store_error :: "store_error \<Rightarrow> service_error" where
  "from_store_error (StoreNotFound _) = NotFound"
| "from_store_error (VersionConflict _) = Conflict ''concurrent_modification''"
| "from_store_error (AlreadyExists _) = Conflict ''already_exists''"
| "from_store_error (StoreUnavailable m) = ServiceUnavailable m"

section \<open>Request validation (validate.rs)\<close>

definition MAX_REGIONS :: nat where
  "MAX_REGIONS = 8"

definition name_byte :: "char \<Rightarrow> bool" where
  "name_byte b \<longleftrightarrow> (CHR ''a'' \<le> b \<and> b \<le> CHR ''z'') \<or> (CHR ''0'' \<le> b \<and> b \<le> CHR ''9'') \<or> b = CHR ''-''"

definition validate_name :: "string \<Rightarrow> service_error + unit" where
  "validate_name name =
     (if name \<noteq> [] \<and> length name \<le> 63 \<and> list_all name_byte name
         \<and> hd name \<noteq> CHR ''-'' \<and> last name \<noteq> CHR ''-''
      then Inr () else Inl (Validation ''name''))"

definition validate_model :: "service_config \<Rightarrow> string \<Rightarrow> service_error + model_config" where
  "validate_model config mid =
     (case config_model config mid of None \<Rightarrow> Inl (Validation ''model'') | Some m \<Rightarrow> Inr m)"

definition validate_tier :: "model_config \<Rightarrow> tier \<Rightarrow> service_error + unit" where
  "validate_tier model t = (if t \<in> set (mc_tiers model) then Inr () else Inl (Validation ''tier''))"

text \<open>The loop over the regions; \<open>seen\<close> is the set of the regions before.\<close>

fun validate_shares :: "string list \<Rightarrow> string list \<Rightarrow> region_share list \<Rightarrow> service_error + unit" where
  "validate_shares offered seen [] = Inr ()"
| "validate_shares offered seen (r # rs) =
     (if rs_region r \<in> set seen then Inl (Validation ''regions'')
      else if rs_cus r < 1 then Inl (Validation ''regions'')
      else if rs_region r \<notin> set offered then Inl (Validation ''regions'')
      else validate_shares offered (rs_region r # seen) rs)"

definition residency_zone :: "service_config \<Rightarrow> region_share \<Rightarrow> string option" where
  "residency_zone config r = Option.bind (config_region (sc_regions config) (rs_region r)) rc_residency"

definition validate_regions ::
  "service_config \<Rightarrow> string \<Rightarrow> sku \<Rightarrow> region_share list \<Rightarrow> service_error + unit" where
  "validate_regions config model sk regions =
     (if regions = [] \<or> MAX_REGIONS < length regions then Inl (Validation ''regions'')
      else case validate_shares (regions_for (sc_plan config) model) [] regions of
        Inl e \<Rightarrow> Inl e
      | Inr _ \<Rightarrow>
          if sk = MultiRegion \<and> length regions < 2 then Inl (Validation ''sku'')
          else if sk = MultiRegion
            \<and> list_ex (\<lambda>r. residency_zone config r \<noteq> residency_zone config (hd regions)) regions
          then Inl (Validation ''regions'')
          else Inr ())"

definition validate_shape :: "model_config \<Rightarrow> shape \<Rightarrow> service_error + unit" where
  "validate_shape model s =
     (if input_max s < input_p95 s then Inl (Validation ''shape'')
      else if context_ceiling s < input_max s then Inl (Validation ''shape'')
      else if output_p95 s = 0 \<or> context_ceiling s < output_p95 s then Inl (Validation ''shape'')
      else if mc_max_context model < context_ceiling s then Inl (Validation ''shape'')
      else if \<not> (0 \<le> cache_hit_ratio s \<and> cache_hit_ratio s \<le> 1) then Inl (Validation ''shape'')
      else if \<not> (1 \<le> burst_factor s \<and> burst_factor s \<le> 20) then Inl (Validation ''shape'')
      else Inr ())"

definition validate_boundary_policy :: "boundary_policy \<Rightarrow> service_error + unit" where
  "validate_boundary_policy p =
     (if (case bp_burst p of
            None \<Rightarrow> False
          | Some b \<Rightarrow> \<not> (0 \<le> max_credit_seconds b \<and> max_credit_seconds b \<le> 3600)
              \<or> \<not> (1 \<le> max_rate_multiple b \<and> max_rate_multiple b \<le> 10)
              \<or> \<not> (0 \<le> continuation_reserve b \<and> continuation_reserve b \<le> 1))
      then Inl (Validation ''boundary_policy'')
      else if (case bp_queue p of
            None \<Rightarrow> False
          | Some q \<Rightarrow> deadline_ms q = 0 \<or> 30000 < deadline_ms q
              \<or> \<not> (0 < max_depth_wu_seconds q \<and> max_depth_wu_seconds q \<le> 60))
      then Inl (Validation ''boundary_policy'')
      else Inr ())"

text \<open>\<open>check ?; rest\<close>\<close>

definition check_then :: "'e + 'a \<Rightarrow> 'e + 'b \<Rightarrow> 'e + 'b" where
  "check_then c rest = (case c of Inl e \<Rightarrow> Inl e | Inr _ \<Rightarrow> rest)"

definition validate_create :: "service_config \<Rightarrow> create_request \<Rightarrow> service_error + unit" where
  "validate_create config req =
     check_then (validate_name (cr_name req))
       (case validate_model config (cr_model req) of
          Inl e \<Rightarrow> Inl e
        | Inr m \<Rightarrow>
            check_then (validate_tier m (cr_tier req))
              (check_then (validate_regions config (cr_model req) (cr_sku req) (cr_regions req))
                (check_then (validate_shape m (cr_shape req))
                  (validate_boundary_policy (cr_boundary_policy req)))))"

section \<open>Prices (pricing.rs)\<close>

definition per_cu_monthly :: "nat \<Rightarrow> tier \<Rightarrow> pool_isolation \<Rightarrow> sku \<Rightarrow> nat" where
  "per_cu_monthly base t isolation sk =
     f64_as_u64 (f64_round (real base * cu_price_multiplier t isolation (sk = MultiRegion)))"

definition price_for :: "string \<Rightarrow> nat \<Rightarrow> tier \<Rightarrow> pool_isolation \<Rightarrow> sku \<Rightarrow> nat \<Rightarrow> price" where
  "price_for currency base t isolation sk cus =
     (let cu = per_cu_monthly base t isolation sk
      in \<lparr>pr_currency = currency, pr_per_cu_monthly = cu, pr_monthly = u64_mul cu cus\<rparr>)"

definition span_secs :: "timestamp \<Rightarrow> timestamp \<Rightarrow> real" where
  "span_secs from to = real_of_int (to - from) / 1000000000"

definition prorated_increase ::
  "nat \<Rightarrow> nat \<Rightarrow> nat \<Rightarrow> timestamp \<Rightarrow> timestamp \<Rightarrow> timestamp \<Rightarrow> nat" where
  "prorated_increase per_cu_price added_cus term_len term_start term_end now =
     (let t = span_secs term_start term_end
      in if t \<le> 0 then 0
         else let remaining = clamp 0 t (span_secs now term_end);
                  full_term = real per_cu_price * real added_cus * real term_len
              in f64_as_u64 (f64_round (full_term * remaining / t)))"

section \<open>What passes validation\<close>

lemma check_then_Inr [simp]: "check_then c rest = Inr x \<longleftrightarrow> (\<exists>y. c = Inr y) \<and> rest = Inr x"
  by (cases c) (simp_all add: check_then_def)

lemma validate_shares_Inr:
  "validate_shares offered seen rs = Inr () \<longleftrightarrow>
     distinct (map rs_region rs) \<and> set seen \<inter> rs_region ` set rs = {}
     \<and> (\<forall>r\<in>set rs. 1 \<le> rs_cus r \<and> rs_region r \<in> set offered)"
proof (induction rs arbitrary: seen)
  case (Cons r rs)
  show ?case
    by (subst validate_shares.simps, simp only: Cons.IH split: if_split) (auto simp: Suc_le_eq)
qed simp

lemma validate_regions_Inr:
  assumes "validate_regions config model sk rs = Inr ()"
  shows "rs \<noteq> []" "length rs \<le> 8" "distinct (map rs_region rs)" "\<forall>r\<in>set rs. 1 \<le> rs_cus r"
    "\<forall>r\<in>set rs. rs_region r \<in> set (regions_for (sc_plan config) model)"
    "sk = MultiRegion \<Longrightarrow> 2 \<le> length rs"
  using assms
  by (auto simp: validate_regions_def validate_shares_Inr MAX_REGIONS_def split: if_splits sum.splits)

end
