(* ===== verification/Service.thy ===== *)
theory Service
  imports Validate
begin

text \<open>
  The business rules of a reservation (\<open>service.rs\<close> of \<open>pt-control-plane\<close>) over the store and
  the planner: create, update, delete, moving capacity between pools, and the lifecycle loop.
  Each request is one function of the service's state. The parameters of \<open>service_ctx\<close> are
  the calendar of the time library and the text of a planner error. A write to the store
  takes a \<open>fault\<close>: \<open>Some e\<close> when another instance's write came first or the store failed, in
  which case nothing is written; planner calls already made are undone.
\<close>

section \<open>Context and state\<close>

record service_ctx =
  cx_config :: service_config
  cx_add_months :: "timestamp \<Rightarrow> nat \<Rightarrow> timestamp"
  cx_timestamp_max :: timestamp
  cx_plan_error_text :: "plan_error \<Rightarrow> string"

record service =
  sv_store :: memory_store
  sv_planner :: memory_planner
  sv_changes :: nat

text \<open>\<open>t.as_millisecond().max(0) as u64\<close>\<close>

definition ms_of :: "timestamp \<Rightarrow> nat" where
  "ms_of t = nat (t div 1000000)"

definition svc_bump :: "timestamp \<Rightarrow> service \<Rightarrow> service" where
  "svc_bump now sv =
     (let (v, st) = bump_version (sv_store sv) (ms_of now)
      in sv\<lparr>sv_store := st, sv_changes := max (sv_changes sv) v\<rparr>)"

text \<open>
  The planner's answer. Its one panic, a placement without a start date, cannot happen
  (\<open>place_never_none\<close>), so the last case is never taken.
\<close>

definition plan_reserve ::
  "memory_planner \<Rightarrow> string \<Rightarrow> tier \<Rightarrow> claim list \<Rightarrow> shape \<Rightarrow> timestamp
   \<Rightarrow> (plan_error + pool_share list) \<times> memory_planner" where
  "plan_reserve p model t cs sh start =
     (case planner_reserve p model t cs sh start of Some r \<Rightarrow> r | None \<Rightarrow> (Inl (Unavailable []), p))"

section \<open>What a reservation holds\<close>

datatype plan_op = Reserved tier "pool_share list" | Released tier "pool_share list"

definition as_claims :: "pool_share list \<Rightarrow> claim list" where
  "as_claims shares =
     map (\<lambda>s. \<lparr>cl_region = ps_region s, cl_pool = Some (ps_pool s), cl_cus = ps_cus s\<rparr>) shares"

definition unplaced :: "region_share list \<Rightarrow> claim list" where
  "unplaced shares = map (\<lambda>s. \<lparr>cl_region = rs_region s, cl_pool = None, cl_cus = rs_cus s\<rparr>) shares"

fun put_placement :: "placement list \<Rightarrow> pool_share \<Rightarrow> placement list" where
  "put_placement [] s = [\<lparr>pl_region = ps_region s, pl_pool = ps_pool s\<rparr>]"
| "put_placement (p # ps) s =
     (if pl_region p = ps_region s then p\<lparr>pl_pool := ps_pool s\<rparr> # ps else p # put_placement ps s)"

definition record_placements :: "pool_share list \<Rightarrow> provisioned_throughput \<Rightarrow> provisioned_throughput" where
  "record_placements placed pt =
     pt\<lparr>pt_placements := sort_key pl_region (foldl put_placement (pt_placements pt) placed)\<rparr>"

definition held_shares :: "provisioned_throughput \<Rightarrow> region_share list" where
  "held_shares pt = footprint (pt_effective pt) (pt_failover_headroom pt)"

definition tidy_placements :: "provisioned_throughput \<Rightarrow> provisioned_throughput" where
  "tidy_placements pt =
     pt\<lparr>pt_placements := filter (\<lambda>p. pl_region p \<in> set (map rs_region (held_shares pt))) (pt_placements pt)\<rparr>"

definition pool_of :: "service_ctx \<Rightarrow> provisioned_throughput \<Rightarrow> string \<Rightarrow> string option" where
  "pool_of ctx pt region =
     (case find (\<lambda>p. pl_region p = region) (pt_placements pt) of
        Some p \<Rightarrow> Some (pl_pool p)
      | None \<Rightarrow> map_option pool_id (capacity_for (sc_plan (cx_config ctx)) region (pt_model pt)))"

definition on_pools ::
  "service_ctx \<Rightarrow> provisioned_throughput \<Rightarrow> region_share list \<Rightarrow> pool_share list" where
  "on_pools ctx pt shares =
     List.map_filter (\<lambda>s. map_option (\<lambda>pool. \<lparr>ps_region = rs_region s, ps_pool = pool, ps_cus = rs_cus s\<rparr>)
       (pool_of ctx pt (rs_region s))) shares"

definition pooled :: "service_ctx \<Rightarrow> provisioned_throughput \<Rightarrow> pool_share list" where
  "pooled ctx pt = on_pools ctx pt (held_shares pt)"

definition claims_for ::
  "service_ctx \<Rightarrow> provisioned_throughput \<Rightarrow> region_share list \<Rightarrow> claim list" where
  "claims_for ctx pt shares =
     map (\<lambda>s. \<lparr>cl_region = rs_region s,
              cl_pool = (if list_ex (\<lambda>h. rs_region h = rs_region s) (held_shares pt)
                         then pool_of ctx pt (rs_region s) else None),
              cl_cus = rs_cus s\<rparr>) shares"

definition holding :: "service_ctx \<Rightarrow> provisioned_throughput \<Rightarrow> held" where
  "holding ctx pt = \<lparr>hd_tier = pt_tier pt, hd_shares = pooled ctx pt\<rparr>"

fun increases_loop :: "region_share list \<Rightarrow> region_share list \<Rightarrow> region_share list option" where
  "increases_loop current [] = Some []"
| "increases_loop current (n # ns) =
     (case find (\<lambda>c. rs_region c = rs_region n) current of
        None \<Rightarrow> None
      | Some c \<Rightarrow>
          if rs_cus n < rs_cus c then None
          else case increases_loop current ns of
            None \<Rightarrow> None
          | Some ds \<Rightarrow> Some ((if rs_cus c < rs_cus n
               then [\<lparr>rs_region = rs_region n, rs_cus = rs_cus n - rs_cus c\<rparr>] else []) @ ds))"

definition increases_only :: "region_share list \<Rightarrow> region_share list \<Rightarrow> region_share list option" where
  "increases_only current new =
     (if length current \<noteq> length new then None else increases_loop current new)"

definition check_version :: "provisioned_throughput \<Rightarrow> nat option \<Rightarrow> service_error + unit" where
  "check_version pt if_match =
     (case if_match of
        Some v \<Rightarrow> if v \<noteq> pt_version pt then Inl (PreconditionFailed v (pt_version pt)) else Inr ()
      | None \<Rightarrow> Inr ())"

definition svc_price :: "service_ctx \<Rightarrow> tier \<Rightarrow> pool_isolation \<Rightarrow> sku \<Rightarrow> nat \<Rightarrow> price" where
  "svc_price ctx t isolation sk cus =
     (let p = sc_pricing (cx_config ctx)
      in price_for (pg_currency p) (pg_base_cu_price_per_month_cents p) t isolation sk cus)"

definition svc_endpoints :: "service_ctx \<Rightarrow> region_share list \<Rightarrow> endpoint list" where
  "svc_endpoints ctx regions =
     map (\<lambda>r. \<lparr>ep_region = rs_region r,
              ep_url = str_replace ''{region}'' (rs_region r) 0 (sc_endpoint_template (cx_config ctx))\<rparr>) regions"

definition svc_headroom :: "service_ctx \<Rightarrow> sku \<Rightarrow> region_share list \<Rightarrow> region_share list" where
  "svc_headroom ctx sk regions = headroom (sc_regions (cx_config ctx)) sk regions"

section \<open>Moving capacity\<close>

text \<open>
  What a request has in hand: the reservation it changes, the planner, and the planner calls
  it made, oldest first. \<open>and_then\<close> is the operator \<open>?\<close>.
\<close>

record work =
  wk_pt :: provisioned_throughput
  wk_planner :: memory_planner
  wk_ops :: "plan_op list"

definition and_then ::
  "(service_error + 'a) \<times> work \<Rightarrow> ('a \<Rightarrow> work \<Rightarrow> (service_error + 'b) \<times> work) \<Rightarrow> (service_error + 'b) \<times> work" where
  "and_then r f = (case r of (Inl e, w) \<Rightarrow> (Inl e, w) | (Inr x, w) \<Rightarrow> f x w)"

definition work_release :: "tier \<Rightarrow> pool_share list \<Rightarrow> work \<Rightarrow> work" where
  "work_release t shares w =
     w\<lparr>wk_planner := planner_release (wk_planner w) t shares, wk_ops := wk_ops w @ [Released t shares]\<rparr>"

definition work_reserve ::
  "string \<Rightarrow> tier \<Rightarrow> claim list \<Rightarrow> shape \<Rightarrow> timestamp \<Rightarrow> work \<Rightarrow> (plan_error + pool_share list) \<times> work" where
  "work_reserve model t cs sh start w =
     (case plan_reserve (wk_planner w) model t cs sh start of
        (Inl e, p) \<Rightarrow> (Inl e, w\<lparr>wk_planner := p\<rparr>)
      | (Inr placed, p) \<Rightarrow>
          (Inr placed, w\<lparr>wk_planner := p, wk_ops := wk_ops w @ [Reserved t placed]\<rparr>))"

definition relocate ::
  "service_ctx \<Rightarrow> timestamp \<Rightarrow> string \<Rightarrow> nat \<Rightarrow> string option \<Rightarrow> shape \<Rightarrow> timestamp \<Rightarrow> work
   \<Rightarrow> (service_error + unit) \<times> work" where
  "relocate ctx now region sized to sh start w =
     (let pt = wk_pt w;
          old = on_pools ctx pt (filter (\<lambda>s. rs_region s = region) (held_shares pt));
          claim = [\<lparr>cl_region = region, cl_pool = to, cl_cus = sized\<rparr>]
      in case work_reserve (pt_model pt) (pt_tier pt) claim sh start w of
           (Inl e, w) \<Rightarrow> (Inl (Capacity e), w)
         | (Inr placed, w) \<Rightarrow>
             let w = (if old = [] then w else work_release (pt_tier pt) old w)
             in (Inr (), w\<lparr>wk_pt := push_event now (EvRelocated region) (record_placements placed pt)\<rparr>))"

fun capacity_unavailable :: "plan_error \<Rightarrow> bool" where
  "capacity_unavailable (CapacityUnavailable _ _ _ _ _ _) = True"
| "capacity_unavailable _ = False"

fun grow_each ::
  "service_ctx \<Rightarrow> timestamp \<Rightarrow> region_share list \<Rightarrow> shape \<Rightarrow> timestamp \<Rightarrow> region_share list \<Rightarrow> work
   \<Rightarrow> (service_error + unit) \<times> work" where
  "grow_each ctx now target sh start [] w = (Inr (), w)"
| "grow_each ctx now target sh start (g # gs) w =
     (let pt = wk_pt w; claim = claims_for ctx pt [g]
      in case work_reserve (pt_model pt) (pt_tier pt) claim sh start w of
           (Inr placed, w) \<Rightarrow>
             grow_each ctx now target sh start gs (w\<lparr>wk_pt := record_placements placed pt\<rparr>)
         | (Inl e, w) \<Rightarrow>
             if capacity_unavailable e \<and> cl_pool (hd claim) \<noteq> None
             then let sized = (case find (\<lambda>t. rs_region t = rs_region g) target of
                                 None \<Rightarrow> rs_cus g | Some t \<Rightarrow> rs_cus t)
                  in and_then (relocate ctx now (rs_region g) sized None sh start w)
                       (\<lambda>_. grow_each ctx now target sh start gs)
             else (Inl (Capacity e), w))"

definition move_capacity ::
  "service_ctx \<Rightarrow> timestamp \<Rightarrow> region_share list \<Rightarrow> shape \<Rightarrow> work \<Rightarrow> (service_error + unit) \<times> work" where
  "move_capacity ctx now target sh w =
     (let before = held_shares (wk_pt w);
          start = max (pt_term_start (wk_pt w)) now
      in and_then (grow_each ctx now target sh start (growth before target) w)
           (\<lambda>_ w. let shrink = on_pools ctx (wk_pt w) (growth target before)
                  in (Inr (), if shrink = [] then w else work_release (pt_tier (wk_pt w)) shrink w)))"

fun undo_op :: "service_ctx \<Rightarrow> string \<Rightarrow> shape \<Rightarrow> plan_op \<Rightarrow> memory_planner \<Rightarrow> memory_planner" where
  "undo_op ctx model sh (Reserved t shares) p = planner_release p t shares"
| "undo_op ctx model sh (Released t shares) p =
     snd (plan_reserve p model t (as_claims shares) sh (cx_timestamp_max ctx))"

text \<open>The newest call is undone first.\<close>

definition undo :: "service_ctx \<Rightarrow> string \<Rightarrow> shape \<Rightarrow> plan_op list \<Rightarrow> memory_planner \<Rightarrow> memory_planner" where
  "undo ctx model sh ops p = foldr (undo_op ctx model sh) ops p"

section \<open>Keys\<close>

text \<open>
  A new inference key. The secret is the concatenation of two random identifiers, the key's
  id a prefix of a third; the hash is a parameter.
\<close>

definition issue_key :: "(string \<Rightarrow> string) \<Rightarrow> string \<times> string \<times> string \<Rightarrow> timestamp \<Rightarrow> string \<times> api_key" where
  "issue_key sha256_hex ids now =
     (case ids of (u1, u2, u3) \<Rightarrow>
        let secret = ''ptk_'' @ u1 @ u2
        in (secret, \<lparr>ak_id = ''key-'' @ take 12 u3, ak_prefix = take 12 secret, ak_sha256 = sha256_hex secret,
                    ak_created_at = now, ak_expires_at = None\<rparr>))"

definition key_live :: "timestamp \<Rightarrow> api_key \<Rightarrow> bool" where
  "key_live now k \<longleftrightarrow> (case ak_expires_at k of None \<Rightarrow> True | Some e \<Rightarrow> now < e)"

definition prune_expired_keys :: "timestamp \<Rightarrow> provisioned_throughput \<Rightarrow> provisioned_throughput \<times> bool" where
  "prune_expired_keys now pt =
     (let expired = concat (map (\<lambda>d. map (\<lambda>k. (dp_id d, ak_id k))
            (filter (\<lambda>k. \<not> key_live now k) (dp_api_keys d))) (pt_deployments pt));
          pt = pt\<lparr>pt_deployments :=
                 map (\<lambda>d. d\<lparr>dp_api_keys := filter (key_live now) (dp_api_keys d)\<rparr>) (pt_deployments pt)\<rparr>
      in (foldl (\<lambda>pt (d, k). push_event now (EvKeyExpired d k) pt) pt expired, expired \<noteq> []))"

section \<open>Create\<close>

definition START_SKEW :: int where
  "START_SKEW = 5 * 60 * 1000000000"

definition MAX_START_AHEAD :: int where
  "MAX_START_AHEAD = 24 * 90 * 3600 * 1000000000"

definition sales_open :: "memory_store \<Rightarrow> timestamp \<Rightarrow> string \<Rightarrow> region_share list \<Rightarrow> service_error + unit" where
  "sales_open st now model regions =
     (case find (\<lambda>h. sh_model h = model \<and> list_ex (\<lambda>r. rs_region r = sh_region h) regions) (holds st now) of
        Some h \<Rightarrow> Inl (Conflict ''sales_paused'')
      | None \<Rightarrow> Inr ())"

definition ensure_name_free :: "memory_store \<Rightarrow> string \<Rightarrow> string \<Rightarrow> string option \<Rightarrow> service_error + unit" where
  "ensure_name_free st tenant name except =
     (if list_ex (\<lambda>pt. is_live (pt_state pt) \<and> pt_name pt = name \<and> Some (pt_id pt) \<noteq> except) (store_list st tenant)
      then Inl (Conflict ''name_taken'') else Inr ())"

definition create_start :: "timestamp \<Rightarrow> timestamp option \<Rightarrow> service_error + timestamp" where
  "create_start now start_at =
     (case start_at of
        None \<Rightarrow> Inr now
      | Some t \<Rightarrow>
          if t < now - START_SKEW then Inl (Validation ''start_at'')
          else if now + MAX_START_AHEAD < t then Inl (Validation ''start_at'')
          else Inr (max t now))"

definition new_reservation ::
  "service_ctx \<Rightarrow> timestamp \<Rightarrow> string \<Rightarrow> string \<Rightarrow> api_key \<Rightarrow> timestamp \<Rightarrow> create_request \<Rightarrow> provisioned_throughput" where
  "new_reservation ctx now suffix tenant key start req =
     (let cus = total_cus (cr_regions req);
          price = svc_price ctx (cr_tier req) (cr_isolation req) (cr_sku req) cus;
          state = (if start \<le> now then Active else Scheduled);
          events = \<lparr>ev_at = now, ev_kind = EvCreated cus (pr_monthly price)\<rparr>
            # (if state = Active
               then [\<lparr>ev_at = now, ev_kind = EvActivated (Some cus) (Some (cr_tier req)) (Some (pr_monthly price))\<rparr>]
               else [])
      in \<lparr>pt_id = ''pt-'' @ take 16 suffix, pt_tenant = tenant, pt_name = cr_name req, pt_model = cr_model req,
          pt_tier = cr_tier req, pt_regions = cr_regions req, pt_cus = cus, pt_sku = cr_sku req,
          pt_isolation = cr_isolation req, pt_shape = cr_shape req, pt_boundary_policy = cr_boundary_policy req,
          pt_term_months = cr_term_months req, pt_term_start = start,
          pt_term_end = cx_add_months ctx start (months (cr_term_months req)),
          pt_auto_renew = cr_auto_renew req, pt_state = state, pt_pending_changes = None,
          pt_endpoints = svc_endpoints ctx (cr_regions req), pt_price = price,
          pt_failover_headroom = svc_headroom ctx (cr_sku req) (cr_regions req), pt_rebalance = cr_rebalance req,
          pt_effective_regions = [], pt_placements = [],
          pt_deployments = [\<lparr>dp_id = ''dep-'' @ drop 16 suffix, dp_name = ''default'', dp_max_share = None,
                             dp_api_keys = [key], dp_created_at = now\<rparr>],
          pt_version = 1, pt_created_at = now, pt_updated_at = now, pt_events = events\<rparr>)"

record create_outcome =
  co_resource :: provisioned_throughput
  co_api_key :: "string option"
  co_replayed :: bool

text \<open>What an idempotency key already seen answers; None for a new request.\<close>

definition create_replay ::
  "memory_store \<Rightarrow> string \<Rightarrow> string option \<Rightarrow> string \<Rightarrow> (service_error + create_outcome) option" where
  "create_replay st tenant idempotency_key fingerprint =
     (case Option.bind idempotency_key (idempotency_get st tenant) of
        None \<Rightarrow> None
      | Some rec \<Rightarrow> Some (
          if id_fingerprint rec \<noteq> fingerprint then Inl (Conflict ''idempotency_key_reused'')
          else case store_get st tenant (id_resource_id rec) of
            None \<Rightarrow> Inl NotFound
          | Some pt \<Rightarrow> Inr \<lparr>co_resource = pt, co_api_key = None, co_replayed = True\<rparr>))"

definition create_checks ::
  "service_ctx \<Rightarrow> memory_store \<Rightarrow> timestamp \<Rightarrow> string \<Rightarrow> create_request \<Rightarrow> service_error + timestamp" where
  "create_checks ctx st now tenant req =
     check_then (validate_create (cx_config ctx) req)
       (check_then (sales_open st now (cr_model req) (cr_regions req))
         (case create_start now (cr_start_at req) of
            Inl e \<Rightarrow> Inl e
          | Inr start \<Rightarrow> check_then (ensure_name_free st tenant (cr_name req) None) (Inr start)))"

definition svc_create ::
  "service_ctx \<Rightarrow> (string \<Rightarrow> string) \<Rightarrow> service \<Rightarrow> timestamp \<Rightarrow> string \<Rightarrow> string \<times> string \<times> string \<Rightarrow> string
   \<Rightarrow> string option \<Rightarrow> string \<Rightarrow> create_request \<Rightarrow> store_error option
   \<Rightarrow> (service_error + create_outcome) \<times> service" where
  "svc_create ctx sha256_hex sv now suffix ids tenant idempotency_key fingerprint req fault =
     (case create_replay (sv_store sv) tenant idempotency_key fingerprint of
        Some r \<Rightarrow> (r, sv)
      | None \<Rightarrow>
     (case create_checks ctx (sv_store sv) now tenant req of
        Inl e \<Rightarrow> (Inl e, sv)
      | Inr start \<Rightarrow>
     (case plan_reserve (sv_planner sv) (cr_model req) (cr_tier req)
             (unplaced (footprint (cr_regions req) (svc_headroom ctx (cr_sku req) (cr_regions req))))
             (cr_shape req) start of
        (Inl e, p) \<Rightarrow> (Inl (Capacity e), sv\<lparr>sv_planner := p\<rparr>)
      | (Inr placed, p) \<Rightarrow>
          (let (secret, key) = issue_key sha256_hex ids now;
               pt = record_placements placed (new_reservation ctx now suffix tenant key start req)
           in case (case fault of Some e \<Rightarrow> Inl e | None \<Rightarrow> store_insert (sv_store sv) pt) of
                Inl e \<Rightarrow>
                  (Inl (case e of AlreadyExists _ \<Rightarrow> Conflict ''name_taken'' | _ \<Rightarrow> from_store_error e),
                   sv\<lparr>sv_planner := planner_release p (pt_tier pt) placed\<rparr>)
              | Inr st \<Rightarrow>
                  (let st = (case idempotency_key of
                               None \<Rightarrow> st
                             | Some k \<Rightarrow>
                                 (case idempotency_put st tenant k
                                         \<lparr>id_resource_id = pt_id pt, id_fingerprint = fingerprint\<rparr> of
                                    Inl _ \<Rightarrow> st
                                  | Inr st' \<Rightarrow> st'))
                   in (Inr \<lparr>co_resource = pt, co_api_key = Some secret, co_replayed = False\<rparr>,
                       svc_bump now (sv\<lparr>sv_store := st, sv_planner := p\<rparr>)))))))"

section \<open>Update\<close>

definition upd_name :: "timestamp \<Rightarrow> update_request \<Rightarrow> provisioned_throughput \<Rightarrow> provisioned_throughput" where
  "upd_name now req pt =
     (case up_name req of
        None \<Rightarrow> pt
      | Some n \<Rightarrow> if n \<noteq> pt_name pt then push_event now (EvRenamed n) (pt\<lparr>pt_name := n\<rparr>) else pt)"

definition upd_boundary_policy :: "timestamp \<Rightarrow> update_request \<Rightarrow> provisioned_throughput \<Rightarrow> provisioned_throughput" where
  "upd_boundary_policy now req pt =
     (case up_boundary_policy req of
        None \<Rightarrow> pt
      | Some p \<Rightarrow> if p \<noteq> pt_boundary_policy pt
          then push_event now EvBoundaryPolicyUpdated (pt\<lparr>pt_boundary_policy := p\<rparr>) else pt)"

definition upd_auto_renew :: "timestamp \<Rightarrow> update_request \<Rightarrow> provisioned_throughput \<Rightarrow> provisioned_throughput" where
  "upd_auto_renew now req pt =
     (case up_auto_renew req of
        None \<Rightarrow> pt
      | Some v \<Rightarrow>
          if v \<and> pt_state pt = PendingCancellation
          then push_event now EvCancellationWithdrawn (pt\<lparr>pt_state := Active, pt_auto_renew := True\<rparr>)
          else if v \<noteq> pt_auto_renew pt
          then push_event now (EvAutoRenewChanged v) (pt\<lparr>pt_auto_renew := v\<rparr>)
          else pt)"

definition upd_rebalance ::
  "service_ctx \<Rightarrow> timestamp \<Rightarrow> update_request \<Rightarrow> work \<Rightarrow> (service_error + unit) \<times> work" where
  "upd_rebalance ctx now req w =
     (case up_rebalance req of
        None \<Rightarrow> (Inr (), w)
      | Some v \<Rightarrow>
          if v = pt_rebalance (wk_pt w) then (Inr (), w)
          else
            let pt = push_event now (EvRebalanceChanged v) ((wk_pt w)\<lparr>pt_rebalance := v\<rparr>);
                w = w\<lparr>wk_pt := pt\<rparr>
            in if \<not> v \<and> pt_effective_regions pt \<noteq> []
               then let hr = svc_headroom ctx (pt_sku pt) (pt_regions pt)
                    in and_then (move_capacity ctx now (footprint (pt_regions pt) hr) (pt_shape pt) w)
                         (\<lambda>_ w. let pt = wk_pt w
                                in (Inr (), w\<lparr>wk_pt := push_event now
                                      (EvSplitRebalanced (pt_effective_regions pt) (pt_regions pt))
                                      (pt\<lparr>pt_effective_regions := [], pt_failover_headroom := hr\<rparr>)\<rparr>))
               else (Inr (), w))"

text \<open>The value is what the tier's schedule becomes: nothing to do, drop it, or a new tier.\<close>

definition upd_tier ::
  "service_ctx \<Rightarrow> bool \<Rightarrow> shape \<Rightarrow> update_request \<Rightarrow> work \<Rightarrow> (service_error + tier option option) \<times> work" where
  "upd_tier ctx not_started sh req w =
     (case up_tier req of
        None \<Rightarrow> (Inr None, w)
      | Some t \<Rightarrow>
          let pt = wk_pt w
          in if not_started
             then if t \<noteq> pt_tier pt
               then let current = pooled ctx pt
                    in (case work_reserve (pt_model pt) t (as_claims current) sh (pt_term_start pt)
                               (work_release (pt_tier pt) current w) of
                          (Inl e, w) \<Rightarrow> (Inl (Capacity e), w)
                        | (Inr placed, w) \<Rightarrow> (Inr None, w\<lparr>wk_pt := pt\<lparr>pt_tier := t\<rparr>\<rparr>))
               else (Inr None, w)
             else (Inr (Some (if t \<noteq> pt_tier pt then Some t else None)), w))"

fun push_increases ::
  "timestamp \<Rightarrow> nat \<Rightarrow> nat \<Rightarrow> region_share list \<Rightarrow> provisioned_throughput \<Rightarrow> provisioned_throughput" where
  "push_increases now cu running [] pt = pt"
| "push_increases now cu running (d # ds) pt =
     (let running = running + rs_cus d;
          from = share_of (pt_regions pt) (rs_region d);
          charge = prorated_increase cu (rs_cus d) (months (pt_term_months pt)) (pt_term_start pt) (pt_term_end pt) now
      in push_increases now cu running ds
           (push_event now (EvCapacityIncreased (rs_region d) from (from + rs_cus d) charge
              (Some running) (Some (u64_mul cu running))) pt))"

definition apply_increases ::
  "service_ctx \<Rightarrow> timestamp \<Rightarrow> shape \<Rightarrow> region_share list \<Rightarrow> region_share list \<Rightarrow> work
   \<Rightarrow> (service_error + unit) \<times> work" where
  "apply_increases ctx now sh new deltas w =
     (if deltas = [] then (Inr (), w)
      else let hr = svc_headroom ctx (pt_sku (wk_pt w)) new
           in and_then (move_capacity ctx now (footprint new hr) sh w)
                (\<lambda>_ w. let pt = (wk_pt w)\<lparr>pt_effective_regions := [], pt_failover_headroom := hr\<rparr>;
                           cu = pr_per_cu_monthly (svc_price ctx (pt_tier pt) (pt_isolation pt) (pt_sku pt) 1)
                       in (Inr (), w\<lparr>wk_pt := (push_increases now cu (pt_cus pt) deltas pt)\<lparr>pt_regions := new\<rparr>\<rparr>)))"

text \<open>Before the term starts, a change of regions gives back everything and reserves anew.\<close>

definition replace_regions ::
  "service_ctx \<Rightarrow> shape \<Rightarrow> region_share list \<Rightarrow> work \<Rightarrow> (service_error + unit) \<times> work" where
  "replace_regions ctx sh new w =
     (let pt = wk_pt w;
          before = pooled ctx pt;
          hr = svc_headroom ctx (pt_sku pt) new;
          after = claims_for ctx pt (footprint new hr)
      in case work_reserve (pt_model pt) (pt_tier pt) after sh (pt_term_start pt)
                (work_release (pt_tier pt) before w) of
           (Inl e, w) \<Rightarrow> (Inl (Capacity e), w)
         | (Inr placed, w) \<Rightarrow>
             (Inr (), w\<lparr>wk_pt := (record_placements placed pt)
                \<lparr>pt_regions := new, pt_effective_regions := [], pt_failover_headroom := hr\<rparr>\<rparr>))"

definition upd_regions ::
  "service_ctx \<Rightarrow> memory_store \<Rightarrow> timestamp \<Rightarrow> bool \<Rightarrow> shape \<Rightarrow> update_request \<Rightarrow> work
   \<Rightarrow> (service_error + region_share list option option) \<times> work" where
  "upd_regions ctx st now not_started sh req w =
     (case up_regions req of
        None \<Rightarrow> (Inr None, w)
      | Some new \<Rightarrow>
          let pt = wk_pt w;
              growing = filter (\<lambda>n. share_of (pt_regions pt) (rs_region n) < rs_cus n) new
          in (case sales_open st now (pt_model pt) growing of
                Inl e \<Rightarrow> (Inl e, w)
              | Inr _ \<Rightarrow>
                  if not_started
                  then and_then (if new \<noteq> pt_regions pt then replace_regions ctx sh new w else (Inr (), w))
                         (\<lambda>_ w. (Inr None, w))
                  else (case increases_only (pt_regions pt) new of
                          Some deltas \<Rightarrow>
                            and_then (apply_increases ctx now sh new deltas w)
                              (\<lambda>_ w. (Inr (if Option.bind (pt_pending_changes (wk_pt w)) pc_regions \<noteq> None
                                           then Some None else None), w))
                        | None \<Rightarrow> (Inr (Some (Some new)), w))))"

definition upd_shape ::
  "service_ctx \<Rightarrow> timestamp \<Rightarrow> update_request \<Rightarrow> work \<Rightarrow> (service_error + unit) \<times> work" where
  "upd_shape ctx now req w =
     (case up_shape req of
        None \<Rightarrow> (Inr (), w)
      | Some s \<Rightarrow>
          let pt = wk_pt w
          in if s \<noteq> pt_shape pt
             then (case check_shape (wk_planner w) (pt_model pt) (claims_for ctx pt (held_shares pt)) s of
                     Inl e \<Rightarrow> (Inl (Capacity e), w)
                   | Inr _ \<Rightarrow> (Inr (), w\<lparr>wk_pt := push_event now EvShapeUpdated (pt\<lparr>pt_shape := s\<rparr>)\<rparr>))
             else (Inr (), w))"

definition upd_schedule ::
  "timestamp \<Rightarrow> tier option option \<Rightarrow> region_share list option option \<Rightarrow> work
   \<Rightarrow> (service_error + unit) \<times> work" where
  "upd_schedule now schedule_tier schedule_regions w =
     (if schedule_tier = None \<and> schedule_regions = None then (Inr (), w)
      else
        let pt = wk_pt w;
            wants_change = (schedule_tier \<noteq> None \<and> schedule_tier \<noteq> Some None)
              \<or> (schedule_regions \<noteq> None \<and> schedule_regions \<noteq> Some None)
        in if wants_change \<and> pt_state pt = PendingCancellation then (Inl (Conflict ''no_next_term''), w)
           else
             let pend = (case pt_pending_changes pt of
                           Some p \<Rightarrow> p
                         | None \<Rightarrow> \<lparr>pc_tier = None, pc_regions = None, pc_effective_at = pt_term_end pt\<rparr>);
                 pend = (case schedule_tier of None \<Rightarrow> pend | Some t \<Rightarrow> pend\<lparr>pc_tier := t\<rparr>);
                 pend = (case schedule_regions of
                           None \<Rightarrow> pend
                         | Some r \<Rightarrow> pend\<lparr>pc_regions := (case r of
                             None \<Rightarrow> None
                           | Some rs \<Rightarrow> if rs \<noteq> pt_regions pt then Some rs else None)\<rparr>);
                 pend = pend\<lparr>pc_effective_at := pt_term_end pt\<rparr>;
                 pt = pt\<lparr>pt_pending_changes := None\<rparr>
             in (Inr (), w\<lparr>wk_pt := (if pc_tier pend \<noteq> None \<or> pc_regions pend \<noteq> None
                   then (push_event now (EvChangeScheduled (pc_tier pend) (pc_regions pend)) pt)
                          \<lparr>pt_pending_changes := Some pend\<rparr>
                   else pt)\<rparr>))"

definition refresh_totals :: "service_ctx \<Rightarrow> provisioned_throughput \<Rightarrow> provisioned_throughput" where
  "refresh_totals ctx pt =
     (let cus = total_cus (pt_regions pt)
      in pt\<lparr>pt_cus := cus, pt_endpoints := svc_endpoints ctx (pt_regions pt),
            pt_price := svc_price ctx (pt_tier pt) (pt_isolation pt) (pt_sku pt) cus\<rparr>)"

definition apply_update ::
  "service_ctx \<Rightarrow> memory_store \<Rightarrow> timestamp \<Rightarrow> update_request \<Rightarrow> work \<Rightarrow> (service_error + unit) \<times> work" where
  "apply_update ctx st now req w =
     (let not_started = (pt_state (wk_pt w) = Scheduled);
          w = w\<lparr>wk_pt := upd_auto_renew now req (upd_boundary_policy now req (upd_name now req (wk_pt w)))\<rparr>
      in and_then (upd_rebalance ctx now req w) (\<lambda>_ w.
         let sh = (case up_shape req of Some s \<Rightarrow> s | None \<Rightarrow> pt_shape (wk_pt w))
         in and_then (upd_tier ctx not_started sh req w) (\<lambda>schedule_tier w.
            and_then (upd_regions ctx st now not_started sh req w) (\<lambda>schedule_regions w.
            and_then (upd_shape ctx now req w) (\<lambda>_ w.
            and_then (upd_schedule now schedule_tier schedule_regions w) (\<lambda>_ w.
              (Inr (), w\<lparr>wk_pt := refresh_totals ctx (wk_pt w)\<rparr>)))))))"

definition option_check :: "('a \<Rightarrow> service_error + unit) \<Rightarrow> 'a option \<Rightarrow> service_error + unit" where
  "option_check f x = (case x of None \<Rightarrow> Inr () | Some v \<Rightarrow> f v)"

definition update_checks ::
  "service_ctx \<Rightarrow> memory_store \<Rightarrow> string \<Rightarrow> nat option \<Rightarrow> update_request \<Rightarrow> provisioned_throughput
   \<Rightarrow> service_error + unit" where
  "update_checks ctx st tenant if_match req pt =
     check_then (check_version pt if_match)
       (if \<not> is_live (pt_state pt) then Inl (Conflict ''inactive'')
        else case validate_model (cx_config ctx) (pt_model pt) of
          Inl e \<Rightarrow> Inl e
        | Inr model \<Rightarrow>
            check_then (option_check validate_name (up_name req))
             (check_then (option_check (validate_tier model) (up_tier req))
               (check_then (option_check (validate_regions (cx_config ctx) (pt_model pt) (pt_sku pt)) (up_regions req))
                 (check_then (option_check (validate_shape model) (up_shape req))
                   (check_then (option_check validate_boundary_policy (up_boundary_policy req))
                     (option_check (\<lambda>n. if n \<noteq> pt_name pt then ensure_name_free st tenant n (Some (pt_id pt))
                                        else Inr ()) (up_name req)))))))"

definition store_write ::
  "store_error option \<Rightarrow> memory_store \<Rightarrow> provisioned_throughput \<Rightarrow> nat \<Rightarrow> store_error + memory_store" where
  "store_write fault st pt expected = (case fault of Some e \<Rightarrow> Inl e | None \<Rightarrow> store_update st pt expected)"

definition touched :: "timestamp \<Rightarrow> provisioned_throughput \<Rightarrow> provisioned_throughput" where
  "touched now pt = pt\<lparr>pt_version := pt_version pt + 1, pt_updated_at := now\<rparr>"

definition start_work :: "service \<Rightarrow> provisioned_throughput \<Rightarrow> work" where
  "start_work sv pt = \<lparr>wk_pt = pt, wk_planner = sv_planner sv, wk_ops = []\<rparr>"

definition svc_update ::
  "service_ctx \<Rightarrow> service \<Rightarrow> timestamp \<Rightarrow> string \<Rightarrow> string \<Rightarrow> nat option \<Rightarrow> update_request \<Rightarrow> store_error option
   \<Rightarrow> (service_error + provisioned_throughput) \<times> service" where
  "svc_update ctx sv now tenant pid if_match req fault =
     (case store_get (sv_store sv) tenant pid of
        None \<Rightarrow> (Inl NotFound, sv)
      | Some before \<Rightarrow>
     (case update_checks ctx (sv_store sv) tenant if_match req before of
        Inl e \<Rightarrow> (Inl e, sv)
      | Inr _ \<Rightarrow>
     (case apply_update ctx (sv_store sv) now req (start_work sv before) of
        (Inl e, w) \<Rightarrow>
          (Inl e, sv\<lparr>sv_planner := undo ctx (pt_model (wk_pt w)) (pt_shape (wk_pt w)) (wk_ops w) (wk_planner w)\<rparr>)
      | (Inr _, w) \<Rightarrow>
          if wk_pt w = before then (Inr before, sv\<lparr>sv_planner := wk_planner w\<rparr>)
          else
            let pt = touched now (tidy_placements (wk_pt w))
            in (case store_write fault (sv_store sv) pt (pt_version before) of
                  Inr st \<Rightarrow> (Inr pt, svc_bump now (sv\<lparr>sv_store := st, sv_planner := wk_planner w\<rparr>))
                | Inl e \<Rightarrow>
                    (Inl (from_store_error e),
                     sv\<lparr>sv_planner := undo ctx (pt_model pt) (pt_shape pt) (wk_ops w) (wk_planner w)\<rparr>)))))"

section \<open>Delete\<close>

datatype delete_effect = CancelledNow | EndsAtTermEnd | AlreadyInactive

definition svc_delete ::
  "service_ctx \<Rightarrow> service \<Rightarrow> timestamp \<Rightarrow> string \<Rightarrow> string \<Rightarrow> nat option \<Rightarrow> store_error option
   \<Rightarrow> (service_error + provisioned_throughput \<times> delete_effect) \<times> service" where
  "svc_delete ctx sv now tenant pid if_match fault =
     (case store_get (sv_store sv) tenant pid of
        None \<Rightarrow> (Inl NotFound, sv)
      | Some pt \<Rightarrow>
     (case check_version pt if_match of
        Inl e \<Rightarrow> (Inl e, sv)
      | Inr _ \<Rightarrow>
          if pt_state pt = Ended \<or> pt_state pt = Cancelled then (Inr (pt, AlreadyInactive), sv)
          else if pt_state pt = PendingCancellation then (Inr (pt, EndsAtTermEnd), sv)
          else
            let (new, effect) =
                  (if pt_state pt = Scheduled
                   then (push_event now EvCancelled (pt\<lparr>pt_state := Cancelled, pt_pending_changes := None\<rparr>), CancelledNow)
                   else (push_event now (EvCancellationRequested (pt_term_end pt))
                           (pt\<lparr>pt_state := PendingCancellation, pt_auto_renew := False, pt_pending_changes := None\<rparr>),
                         EndsAtTermEnd));
                new = touched now new
            in (case store_write fault (sv_store sv) new (pt_version pt) of
                  Inl e \<Rightarrow> (Inl (from_store_error e), sv)
                | Inr st \<Rightarrow>
                    (Inr (new, effect),
                     svc_bump now (sv\<lparr>sv_store := st,
                       sv_planner := (if effect = CancelledNow
                         then planner_release (sv_planner sv) (pt_tier new) (pooled ctx new)
                         else sv_planner sv)\<rparr>)))))"

section \<open>Lifecycle\<close>

record lifecycle_report =
  lr_activated :: nat
  lr_renewed :: nat
  lr_ended :: nat
  lr_conflicts :: nat

definition renew_regions :: "service_ctx \<Rightarrow> timestamp \<Rightarrow> pending_changes \<Rightarrow> work \<Rightarrow> work" where
  "renew_regions ctx now pend w =
     (let pt = wk_pt w
      in case pc_regions pend of
           None \<Rightarrow> w
         | Some new \<Rightarrow>
             if new = pt_regions pt then w
             else
               let before = pooled ctx pt;
                   hr = svc_headroom ctx (pt_sku pt) new;
                   after = claims_for ctx pt (footprint new hr);
                   p = planner_release (wk_planner w) (pt_tier pt) before
               in (case plan_reserve p (pt_model pt) (pt_tier pt) after (pt_shape pt) (pt_term_end pt) of
                     (Inr placed, p) \<Rightarrow>
                       w\<lparr>wk_planner := p,
                         wk_ops := wk_ops w @ [Released (pt_tier pt) before, Reserved (pt_tier pt) placed],
                         wk_pt := (record_placements placed pt)
                           \<lparr>pt_regions := new, pt_effective_regions := [], pt_failover_headroom := hr\<rparr>\<rparr>
                   | (Inl e, p) \<Rightarrow>
                       w\<lparr>wk_planner := snd (plan_reserve p (pt_model pt) (pt_tier pt) (as_claims before) (pt_shape pt)
                                            (cx_timestamp_max ctx)),
                         wk_pt := push_event now (EvScheduledChangeFailed (cx_plan_error_text ctx e)) pt\<rparr>))"

definition renew_tier :: "service_ctx \<Rightarrow> timestamp \<Rightarrow> pending_changes \<Rightarrow> work \<Rightarrow> work" where
  "renew_tier ctx now pend w =
     (let pt = wk_pt w
      in case pc_tier pend of
           None \<Rightarrow> w
         | Some t \<Rightarrow>
             if t = pt_tier pt then w
             else
               let current = pooled ctx pt;
                   p = planner_release (wk_planner w) (pt_tier pt) current
               in (case plan_reserve p (pt_model pt) t (as_claims current) (pt_shape pt) (pt_term_end pt) of
                     (Inr placed, p) \<Rightarrow>
                       w\<lparr>wk_planner := p,
                         wk_ops := wk_ops w @ [Released (pt_tier pt) current, Reserved t placed],
                         wk_pt := pt\<lparr>pt_tier := t\<rparr>\<rparr>
                   | (Inl e, p) \<Rightarrow>
                       w\<lparr>wk_planner := snd (plan_reserve p (pt_model pt) (pt_tier pt) (as_claims current) (pt_shape pt)
                                            (cx_timestamp_max ctx)),
                         wk_pt := push_event now (EvScheduledChangeFailed (cx_plan_error_text ctx e)) pt\<rparr>))"

definition renew_changes :: "service_ctx \<Rightarrow> timestamp \<Rightarrow> work \<Rightarrow> work" where
  "renew_changes ctx now w =
     (case pt_pending_changes (wk_pt w) of
        None \<Rightarrow> w
      | Some pend \<Rightarrow>
          let w = renew_tier ctx now pend (renew_regions ctx now pend
                    (w\<lparr>wk_pt := (wk_pt w)\<lparr>pt_pending_changes := None\<rparr>\<rparr>));
              pt = wk_pt w;
              monthly = pr_monthly (svc_price ctx (pt_tier pt) (pt_isolation pt) (pt_sku pt) (total_cus (pt_regions pt)))
          in w\<lparr>wk_pt := push_event (pt_term_end pt) (EvChangeApplied (pt_tier pt) (pt_regions pt) (Some monthly)) pt\<rparr>)"

definition next_term :: "service_ctx \<Rightarrow> provisioned_throughput \<Rightarrow> provisioned_throughput" where
  "next_term ctx pt =
     (let start = pt_term_end pt;
          pt = refresh_totals ctx
                 (pt\<lparr>pt_term_start := start, pt_term_end := cx_add_months ctx start (months (pt_term_months pt))\<rparr>)
      in push_event start (EvRenewed start (pt_term_end pt) (pr_monthly (pt_price pt))) pt)"

definition renew :: "service_ctx \<Rightarrow> timestamp \<Rightarrow> work \<Rightarrow> work" where
  "renew ctx now w = (let w = renew_changes ctx now w in w\<lparr>wk_pt := next_term ctx (wk_pt w)\<rparr>)"

definition end_term :: "service_ctx \<Rightarrow> work \<Rightarrow> work" where
  "end_term ctx w =
     (let pt = wk_pt w; w = work_release (pt_tier pt) (pooled ctx pt) w
      in w\<lparr>wk_pt := push_event (pt_term_end pt) EvEnded (pt\<lparr>pt_state := Ended, pt_pending_changes := None\<rparr>)\<rparr>)"

definition term_due :: "timestamp \<Rightarrow> provisioned_throughput \<Rightarrow> bool" where
  "term_due now pt \<longleftrightarrow> (pt_state pt = Active \<or> pt_state pt = PendingCancellation) \<and> pt_term_end pt \<le> now"

definition lifecycle_turn :: "service_ctx \<Rightarrow> timestamp \<Rightarrow> work \<times> lifecycle_report \<Rightarrow> work \<times> lifecycle_report" where
  "lifecycle_turn ctx now s =
     (case s of (w, rep) \<Rightarrow>
        if pt_state (wk_pt w) = Active \<and> pt_auto_renew (wk_pt w)
        then (renew ctx now w, rep\<lparr>lr_renewed := lr_renewed rep + 1\<rparr>)
        else (end_term ctx w, rep\<lparr>lr_ended := lr_ended rep + 1\<rparr>))"

text \<open>The \<open>while\<close> loop over the terms that have run out; None is a loop that does not end.\<close>

partial_function (option) lifecycle_loop ::
  "service_ctx \<Rightarrow> timestamp \<Rightarrow> work \<times> lifecycle_report \<Rightarrow> (work \<times> lifecycle_report) option" where
  "lifecycle_loop ctx now s =
     (if term_due now (wk_pt (fst s)) then lifecycle_loop ctx now (lifecycle_turn ctx now s) else Some s)"

definition activate :: "timestamp \<Rightarrow> provisioned_throughput \<Rightarrow> provisioned_throughput" where
  "activate now pt =
     (if pt_state pt = Scheduled \<and> pt_term_start pt \<le> now
      then push_event (pt_term_start pt)
             (EvActivated (Some (pt_cus pt)) (Some (pt_tier pt)) (Some (pr_monthly (pt_price pt))))
             (pt\<lparr>pt_state := Active\<rparr>)
      else pt)"

definition lifecycle_one ::
  "service_ctx \<Rightarrow> timestamp \<Rightarrow> (string \<Rightarrow> store_error option) \<Rightarrow> provisioned_throughput \<Rightarrow> service \<times> lifecycle_report
   \<Rightarrow> (service \<times> lifecycle_report) option" where
  "lifecycle_one ctx now fault pt\<^sub>0 s =
     (case s of (sv, rep) \<Rightarrow>
       let (pt, pruned) = prune_expired_keys now pt\<^sub>0;
           started = (pt_state pt = Scheduled \<and> pt_term_start pt \<le> now);
           rep = (if started then rep\<lparr>lr_activated := lr_activated rep + 1\<rparr> else rep);
           pt = activate now pt
       in (case lifecycle_loop ctx now (start_work sv pt, rep) of
             None \<Rightarrow> None
           | Some (w, rep) \<Rightarrow>
               if \<not> pruned \<and> \<not> started \<and> \<not> term_due now pt then Some (sv, rep)
               else
                 let new = touched now (tidy_placements (wk_pt w))
                 in (case store_write (fault (pt_id pt)) (sv_store sv) new (pt_version pt\<^sub>0) of
                       Inl e \<Rightarrow>
                         Some (sv\<lparr>sv_planner := undo ctx (pt_model new) (pt_shape new) (wk_ops w) (wk_planner w)\<rparr>,
                               rep\<lparr>lr_conflicts := lr_conflicts rep + 1\<rparr>)
                     | Inr st \<Rightarrow> Some (svc_bump now (sv\<lparr>sv_store := st, sv_planner := wk_planner w\<rparr>), rep))))"

fun lifecycle_each ::
  "service_ctx \<Rightarrow> timestamp \<Rightarrow> (string \<Rightarrow> store_error option) \<Rightarrow> provisioned_throughput list
   \<Rightarrow> service \<times> lifecycle_report \<Rightarrow> (service \<times> lifecycle_report) option" where
  "lifecycle_each ctx now fault [] s = Some s"
| "lifecycle_each ctx now fault (pt # pts) s =
     Option.bind (lifecycle_one ctx now fault pt s) (lifecycle_each ctx now fault pts)"

definition svc_lifecycle ::
  "service_ctx \<Rightarrow> timestamp \<Rightarrow> (string \<Rightarrow> store_error option) \<Rightarrow> service \<Rightarrow> (service \<times> lifecycle_report) option" where
  "svc_lifecycle ctx now fault sv =
     lifecycle_each ctx now fault (list_live (sv_store sv))
       (sv, \<lparr>lr_activated = 0, lr_renewed = 0, lr_ended = 0, lr_conflicts = 0\<rparr>)"

section \<open>Operators\<close>

definition find_live :: "memory_store \<Rightarrow> string \<Rightarrow> provisioned_throughput option" where
  "find_live st pid = find (\<lambda>pt. pt_id pt = pid) (list_live st)"

definition svc_persist ::
  "service \<Rightarrow> timestamp \<Rightarrow> provisioned_throughput \<Rightarrow> nat \<Rightarrow> store_error option
   \<Rightarrow> (service_error + provisioned_throughput) \<times> service" where
  "svc_persist sv now pt expected fault =
     (let pt = touched now (tidy_placements pt)
      in case store_write fault (sv_store sv) pt expected of
           Inl e \<Rightarrow> (Inl (from_store_error e), sv)
         | Inr st \<Rightarrow> (Inr pt, svc_bump now (sv\<lparr>sv_store := st\<rparr>)))"

definition svc_move_to_pool ::
  "service_ctx \<Rightarrow> service \<Rightarrow> timestamp \<Rightarrow> string \<Rightarrow> string \<Rightarrow> string \<Rightarrow> store_error option
   \<Rightarrow> (service_error + pool_share list) \<times> service" where
  "svc_move_to_pool ctx sv now pid region pool fault =
     (case find_live (sv_store sv) pid of
        None \<Rightarrow> (Inl NotFound, sv)
      | Some pt \<Rightarrow>
     (case find (\<lambda>s. rs_region s = region) (held_shares pt) of
        None \<Rightarrow> (Inl (Validation ''region''), sv)
      | Some share \<Rightarrow>
          if \<not> list_ex (\<lambda>c. pool_id c = pool) (pools_for (sc_plan (cx_config ctx)) region (pt_model pt))
          then (Inl (Validation ''pool''), sv)
          else if pool_of ctx pt region = Some pool then (Inr (pooled ctx pt), sv)
          else
            (case relocate ctx now region (rs_cus share) (Some pool) (pt_shape pt) (max (pt_term_start pt) now)
                    (start_work sv pt) of
               (Inl e, w) \<Rightarrow>
                 (Inl e, sv\<lparr>sv_planner := undo ctx (pt_model pt) (pt_shape pt) (wk_ops w) (wk_planner w)\<rparr>)
             | (Inr _, w) \<Rightarrow>
                 (case svc_persist (sv\<lparr>sv_planner := wk_planner w\<rparr>) now (wk_pt w) (pt_version pt) fault of
                    (Inr new, sv') \<Rightarrow> (Inr (pooled ctx new), sv')
                  | (Inl e, _) \<Rightarrow>
                      (Inl e, sv\<lparr>sv_planner := undo ctx (pt_model pt) (pt_shape pt) (wk_ops w) (wk_planner w)\<rparr>)))))"

definition svc_restore :: "service_ctx \<Rightarrow> service \<Rightarrow> service" where
  "svc_restore ctx sv =
     sv\<lparr>sv_planner := planner_restore (sv_planner sv) (map (holding ctx) (list_live (sv_store sv)))\<rparr>"

definition svc_reconcile :: "service_ctx \<Rightarrow> costs \<Rightarrow> service \<Rightarrow> (plan_error + drift list) \<times> service" where
  "svc_reconcile ctx costs sv =
     (let live = map (holding ctx) (list_live (sv_store sv));
          (r, p) = planner_reconcile (sv_planner sv) (expected_micro costs live)
      in (r, sv\<lparr>sv_planner := p\<rparr>))"

section \<open>Start-up (lib.rs)\<close>

definition planner_start :: "service_ctx \<Rightarrow> memory_planner" where
  "planner_start ctx =
     (let plan = sc_plan (cx_config ctx)
      in memory_planner_new (cp_capacity plan) (costs_from_config plan) (schedule_from_config plan))"

text \<open>\<open>now.as_millisecond().max(1) as u64\<close>\<close>

definition start_ms :: "timestamp \<Rightarrow> nat" where
  "start_ms now = nat (max (now div 1000000) 1)"

definition svc_new :: "service_ctx \<Rightarrow> timestamp \<Rightarrow> memory_store \<Rightarrow> service" where
  "svc_new ctx now st = \<lparr>sv_store = st, sv_planner = planner_start ctx, sv_changes = start_ms now\<rparr>"

definition in_memory :: "service_ctx \<Rightarrow> timestamp \<Rightarrow> service" where
  "in_memory ctx now = svc_new ctx now (store_starting_at (start_ms now))"

definition init_version :: "timestamp \<Rightarrow> service \<Rightarrow> nat \<times> service" where
  "init_version now sv =
     (let (v, st) = bump_version (sv_store sv) (start_ms now)
      in (v, sv\<lparr>sv_store := st, sv_changes := max (sv_changes sv) v\<rparr>))"

definition sync_version :: "service \<Rightarrow> nat \<times> service" where
  "sync_version sv =
     (let v = max (sv_changes sv) (ms_version (sv_store sv)) in (v, sv\<lparr>sv_changes := v\<rparr>))"

definition with_store :: "service_ctx \<Rightarrow> timestamp \<Rightarrow> memory_store \<Rightarrow> service" where
  "with_store ctx now st = snd (init_version now (svc_restore ctx (svc_new ctx now st)))"

end
