(* ===== verification/Rollback.thy ===== *)
theory Rollback
  imports Service
begin

text \<open>
  Undoing planner calls: a release undoes a reservation exactly, and reserving released shares
  again at the far end of time undoes the release, as long as their pools still serve the
  shape. So \<open>undo\<close> restores the planner a request started from, whatever calls it made.
\<close>

declare split_paired_All [simp del] split_paired_Ex [simp del]

section \<open>Equal planners\<close>

lemma pool_view_eqI: "p\<lparr>pv_reserved := 0\<rparr> = q\<lparr>pv_reserved := 0\<rparr> \<Longrightarrow> pv_reserved p = pv_reserved q \<Longrightarrow> p = (q :: pool_view)"
  by (cases p; cases q) simp

lemma pools_eqI:
  assumes "pools_fixed ps = pools_fixed qs" and "pools_distinct ps"
    and "\<And>key. reserved_in ps key = reserved_in qs key"
  shows "ps = qs"
proof (rule nth_equalityI)
  have len: "length ps = length qs" using assms(1) unfolding pools_fixed_def by (metis length_map)
  then show "length ps = length qs" .
  have dq: "pools_distinct qs" using assms(1,2) pools_fixed_distinct by blast
  fix i assume i: "i < length ps"
  have fixd: "(ps ! i)\<lparr>pv_reserved := 0\<rparr> = (qs ! i)\<lparr>pv_reserved := 0\<rparr>"
    using assms(1) i len unfolding pools_fixed_def by (metis nth_map)
  have key: "pool_key_of (ps ! i) = pool_key_of (qs ! i)"
    using fixd by (metis pool_key_of_reserved)
  have "pv_reserved (ps ! i) = pv_reserved (qs ! i)"
    using reserved_in_member(1)[OF assms(2), of "ps ! i"] reserved_in_member(1)[OF dq, of "qs ! i"] assms(3) key i len
    by simp
  with fixd show "ps ! i = qs ! i" by (rule pool_view_eqI)
qed

text \<open>A planner that differs from another only in its counters.\<close>

definition same_plan :: "memory_planner \<Rightarrow> memory_planner \<Rightarrow> bool" where
  "same_plan p q \<longleftrightarrow> pools_fixed (mp_pools p) = pools_fixed (mp_pools q) \<and> mp_costs p = mp_costs q
     \<and> mp_schedule p = mp_schedule q \<and> mp_pending p = mp_pending q"

lemma same_plan_refl [simp]: "same_plan p p"
  by (simp add: same_plan_def)

lemma same_plan_sym: "same_plan p q \<Longrightarrow> same_plan q p"
  by (simp add: same_plan_def)

lemma same_plan_trans: "same_plan p q \<Longrightarrow> same_plan q r \<Longrightarrow> same_plan p r"
  by (simp add: same_plan_def)

lemma same_plan_view:
  assumes "same_plan p q"
  shows "planner_cost p = planner_cost q" "planner_room p = planner_room q" "planner_ok p = planner_ok q"
proof -
  have f: "pools_fixed (mp_pools p) = pools_fixed (mp_pools q)" "mp_costs p = mp_costs q" "mp_schedule p = mp_schedule q"
    using assms by (simp_all add: same_plan_def)
  show "planner_room p = planner_room q" "planner_cost p = planner_cost q"
    by (rule planner_view_eq[OF pools_fixed_capacity[OF f(1)] f(3,2)])+
  show "planner_ok p = planner_ok q"
    unfolding planner_ok_def by (rule pools_fixed_distinct[OF f(1)])
qed

lemma planner_eqI:
  assumes "same_plan p q" and "planner_ok p" and "\<And>key. planner_reserved p key = planner_reserved q key"
  shows "p = q"
proof -
  have "mp_pools p = mp_pools q"
  proof (rule pools_eqI)
    show "pools_fixed (mp_pools p) = pools_fixed (mp_pools q)" using assms(1) by (simp add: same_plan_def)
    show "pools_distinct (mp_pools p)" using assms(2) by (simp add: planner_ok_def)
    show "reserved_in (mp_pools p) key = reserved_in (mp_pools q) key" for key
      using assms(3)[of key] unfolding planner_reserved_def .
  qed
  moreover have "mp_costs p = mp_costs q" "mp_schedule p = mp_schedule q" "mp_pending p = mp_pending q"
    using assms(1) by (simp_all add: same_plan_def)
  ultimately show ?thesis by (cases p; cases q) simp
qed

lemma release_same_plan: "planner_ok p \<Longrightarrow> same_plan (planner_release p t shs) p"
  by (auto simp: same_plan_def planner_release_def planner_ok_def release_shares)

lemma reserve_same_plan:
  assumes "planner_ok p" and "planner_reserve p model t cs sh start = Some (Inr shs, p')"
  shows "same_plan p' p"
proof -
  note d = planner_reserve_done[OF assms]
  have "pools_fixed (mp_pools p') = pools_fixed (mp_pools p)" using d(1) by (simp add: reserved_for_def)
  moreover obtain ps where "p' = p\<lparr>mp_pools := ps\<rparr>" using d(2) by blast
  ultimately show ?thesis by (simp add: same_plan_def)
qed

section \<open>Pools that can take a share back\<close>

definition seat :: "memory_planner \<Rightarrow> string \<Rightarrow> nat \<Rightarrow> tier \<Rightarrow> pool_key \<Rightarrow> bool" where
  "seat p model ctx_len t key \<longleftrightarrow>
     (\<exists>pv\<in>set (mp_pools p). pool_key_of pv = key \<and> pv_model pv = model \<and> ctx_len \<le> pv_max_context pv)
     \<and> per_cu (mp_costs p) (fst key) (snd key) t \<noteq> None"

lemma pool_in_fixed:
  assumes "pools_fixed ps = pools_fixed qs" and "pv \<in> set ps"
  shows "\<exists>q\<in>set qs. pool_key_of q = pool_key_of pv \<and> pv_model q = pv_model pv \<and> pv_max_context q = pv_max_context pv
           \<and> pv_capacity q = pv_capacity pv"
proof -
  from assms have "pv\<lparr>pv_reserved := 0\<rparr> \<in> (\<lambda>p. p\<lparr>pv_reserved := 0\<rparr>) ` set qs"
    unfolding pools_fixed_def by (metis image_eqI list.set_map)
  then obtain q where q: "q \<in> set qs" and e: "pv\<lparr>pv_reserved := 0\<rparr> = q\<lparr>pv_reserved := 0\<rparr>" by auto
  from e have "pool_key_of q = pool_key_of pv \<and> pv_model q = pv_model pv \<and> pv_max_context q = pv_max_context pv
      \<and> pv_capacity q = pv_capacity pv"
    by (cases pv; cases q) (simp add: pool_key_of_def)
  with q show ?thesis by blast
qed

lemma seat_same_plan: "same_plan p q \<Longrightarrow> seat p model ctx_len t key \<Longrightarrow> seat q model ctx_len t key"
  unfolding seat_def same_plan_def using pool_in_fixed[of "mp_pools p" "mp_pools q"] by metis

lemma seat_ceiling: "seat p model ctx_len t key \<Longrightarrow> c \<le> ctx_len \<Longrightarrow> seat p model c t key"
  unfolding seat_def by (meson le_trans)

text \<open>A claim that names its pool is placed there, if the pool serves it and has the room.\<close>

lemma place_pinned:
  assumes "pools_distinct ps" and "pv \<in> set ps" and "pool_key_of pv = (cl_region c, pool)"
    and "cl_pool c = Some pool" and "pv_model pv = model" and "context_ceiling sh \<le> pv_max_context pv"
    and "per_cu costs (cl_region c) pool t = Some cu" and "u64_mul cu (cl_cus c) \<le> free_at pv sched start"
  shows "place c model t sh (Some start) ps costs sched = Inr (Some (pool, u64_mul cu (cl_cus c)))"
proof -
  have k: "pv_region pv = cl_region c" "pv_pool pv = pool" using assms(3) by (simp_all add: pool_key_of_def)
  have "can_take_claim c model t sh start costs sched pv"
    using assms(4-8) k by (simp add: can_take_claim_def)
  then obtain r where r: "place c model t sh (Some start) ps costs sched = Inr r"
    using place_error_iff[of c model t sh start ps costs sched] assms(2)
    by (cases "place c model t sh (Some start) ps costs sched") auto
  then obtain pool' need where r': "r = Some (pool', need)"
    using place_never_none[of c model t sh start ps costs sched] by (cases r) auto
  from r r' have "place c model t sh (Some start) ps costs sched = Inr (Some (pool', need))" by simp
  then obtain q where q: "pool' = pv_pool q" "need = claim_need c t costs q"
    "can_take_claim c model t sh start costs sched q"
    by (rule place_some_best)
  then have "pool' = pool" "need = u64_mul cu (cl_cus c)"
    using assms(4,7) by (auto simp: can_take_claim_def claim_need_def)
  with r r' show ?thesis by simp
qed

text \<open>Every reservation is placed on pools that serve it.\<close>

lemma place_seat:
  assumes "place c model t sh (Some start) ps costs sched = Inr (Some (pool, need))"
  shows "\<exists>pv\<in>set ps. pool_key_of pv = (cl_region c, pool) \<and> pv_model pv = model
           \<and> context_ceiling sh \<le> pv_max_context pv \<and> per_cu costs (cl_region c) pool t \<noteq> None"
proof -
  from assms obtain ys q zs where q: "ps = ys @ q # zs" "pool = pv_pool q"
    "can_take_claim c model t sh start costs sched q"
    by (rule place_some_best)
  then have "q \<in> set ps" "pool_key_of q = (cl_region c, pool)" "pv_model q = model"
    "context_ceiling sh \<le> pv_max_context q" "per_cu costs (cl_region c) pool t \<noteq> None"
    by (auto simp: can_take_claim_def pool_key_of_def)
  then show ?thesis by blast
qed

lemma reserve_loop_seats:
  assumes "reserve_loop p model t sh start cs ps placed = Some (Inr (placed', ps'))"
    and "pools_fixed ps = pools_fixed (mp_pools p)"
    and "\<forall>s\<in>set placed. seat p model (context_ceiling sh) t (share_key s)"
  shows "\<forall>s\<in>set placed'. seat p model (context_ceiling sh) t (share_key s)"
  using assms
proof (induction cs arbitrary: ps placed)
  case Nil
  then show ?case by simp
next
  case (Cons c cs)
  from Cons.prems(1) obtain pool need where
    pl: "place c model t sh (Some start) ps (mp_costs p) (mp_schedule p) = Inr (Some (pool, need))"
    and rest: "reserve_loop p model t sh start cs (update_pool (cl_region c) pool (\<lambda>r. r + need) ps)
                 (placed @ [claim_share c pool]) = Some (Inr (placed', ps'))"
    by (auto simp: claim_share_def split: sum.splits option.splits)
  from place_seat[OF pl] obtain pv where pv: "pv \<in> set ps" "pool_key_of pv = (cl_region c, pool)"
    "pv_model pv = model" "context_ceiling sh \<le> pv_max_context pv"
    "per_cu (mp_costs p) (cl_region c) pool t \<noteq> None" by blast
  have "seat p model (context_ceiling sh) t (share_key (claim_share c pool))"
    using pool_in_fixed[OF Cons.prems(2) pv(1)] pv(2-5)
    by (auto simp: seat_def share_key_def claim_share_def)
  then have "\<forall>s\<in>set (placed @ [claim_share c pool]). seat p model (context_ceiling sh) t (share_key s)"
    using Cons.prems(3) by simp
  moreover have "pools_fixed (update_pool (cl_region c) pool (\<lambda>r. r + need) ps) = pools_fixed (mp_pools p)"
    using Cons.prems(2) by simp
  ultimately show ?case by (rule Cons.IH[OF rest, rotated])
qed

lemma planner_reserve_seats:
  assumes "planner_reserve p model t cs sh start = Some (Inr shs, p')"
  shows "\<forall>s\<in>set shs. seat p model (context_ceiling sh) t (share_key s)"
proof -
  from assms obtain ps' where
    "reserve_loop p model t sh start cs (mp_pools p) [] = Some (Inr (shs, ps'))"
    by (auto simp: planner_reserve_def split: option.splits sum.splits)
  from reserve_loop_seats[OF this] show ?thesis by simp
qed

section \<open>Exact inverses\<close>

lemma reserve_then_release_same:
  assumes "planner_ok p" and "planner_reserve p model t cs sh start = Some (Inr shs, p')"
  shows "planner_release p' t shs = p"
proof (rule planner_eqI)
  have s: "same_plan p' p" by (rule reserve_same_plan[OF assms])
  have ok: "planner_ok p'" using same_plan_view(3)[OF s] assms(1) by simp
  show "same_plan (planner_release p' t shs) p"
    using release_same_plan[OF ok] s by (rule same_plan_trans)
  show "planner_ok (planner_release p' t shs)" using planner_release_done(1)[OF ok] .
  show "planner_reserved (planner_release p' t shs) key = planner_reserved p key" for key
    by (rule fun_cong[OF mem_planner.reserve_then_release[OF assms]])
qed

text \<open>The room a planner has at the far end of time, when all scheduled replicas have arrived.\<close>

definition within_final :: "timestamp \<Rightarrow> memory_planner \<Rightarrow> bool" where
  "within_final tmax p \<longleftrightarrow> (\<forall>key. planner_reserved p key \<le> planner_room p key tmax)"

lemma pool_share_eta: "\<lparr>ps_region = ps_region s, ps_pool = ps_pool s, ps_cus = ps_cus s\<rparr> = s"
  by (cases s) simp

lemma reserve_loop_pinned:
  assumes "pools_distinct ps" and "pools_fixed ps = pools_fixed (mp_pools p)"
    and "\<forall>s\<in>set shs. seat p model (context_ceiling sh) t (share_key s)"
    and "\<And>key. reserved_in ps key + shares_cost (planner_cost p) t shs key
            \<le> capacity_in ps key + added_by (mp_schedule p) (fst key) (snd key) start"
  shows "\<exists>ps'. reserve_loop p model t sh start (as_claims shs) ps placed = Some (Inr (placed @ shs, ps'))"
  using assms
proof (induction shs arbitrary: ps placed)
  case Nil
  then show ?case by (simp add: as_claims_def)
next
  case (Cons s shs)
  let ?c = "\<lparr>cl_region = ps_region s, cl_pool = Some (ps_pool s), cl_cus = ps_cus s\<rparr>"
  from Cons.prems(3) obtain v cu where
    v: "v \<in> set (mp_pools p)" "pool_key_of v = share_key s" "pv_model v = model" "context_ceiling sh \<le> pv_max_context v"
    and cu: "per_cu (mp_costs p) (ps_region s) (ps_pool s) t = Some cu"
    by (auto simp: seat_def share_key_def)
  from pool_in_fixed[OF Cons.prems(2)[symmetric] v(1)] obtain pv where
    pv: "pv \<in> set ps" "pool_key_of pv = share_key s" "pv_model pv = model" "context_ceiling sh \<le> pv_max_context pv"
    using v by auto
  have need: "planner_cost p t s = u64_mul cu (ps_cus s)" using cu by (simp add: planner_cost_def costs_share_def)
  have k: "pv_region pv = ps_region s" "pv_pool pv = ps_pool s" using pv(2) by (simp_all add: pool_key_of_def share_key_def)
  have fits: "u64_mul cu (ps_cus s) \<le> free_at pv (mp_schedule p) start"
    using Cons.prems(4)[of "share_key s"] reserved_in_member[OF Cons.prems(1) pv(1)] pv(2) need k
    by (simp add: shares_cost_Cons free_at_def share_key_def)
  have pl: "place ?c model t sh (Some start) ps (mp_costs p) (mp_schedule p) = Inr (Some (ps_pool s, u64_mul cu (ps_cus s)))"
    using place_pinned[of ps pv ?c "ps_pool s" model sh "mp_costs p" t cu "mp_schedule p" start]
      Cons.prems(1) pv cu fits by (simp add: share_key_def)
  let ?qs = "update_pool (ps_region s) (ps_pool s) (\<lambda>r. r + u64_mul cu (ps_cus s)) ps"
  have "\<exists>ps'. reserve_loop p model t sh start (as_claims shs) ?qs (placed @ [s]) = Some (Inr ((placed @ [s]) @ shs, ps'))"
  proof (rule Cons.IH)
    show "pools_distinct ?qs" using Cons.prems(1) by (simp cong: pools_fixed_distinct[OF update_pool_fixed])
    show "pools_fixed ?qs = pools_fixed (mp_pools p)" using Cons.prems(2) by simp
    show "\<forall>s\<in>set shs. seat p model (context_ceiling sh) t (share_key s)" using Cons.prems(3) by simp
    fix key
    have "share_key s \<in> pool_key_of ` set ps" using pv by force
    then have "reserved_in ?qs key = reserved_in ps key + (if share_key s = key then planner_cost p t s else 0)"
      using need by (auto simp: reserved_in_update[OF Cons.prems(1)] share_key_def)
    moreover have "capacity_in ?qs = capacity_in ps" by (rule pools_fixed_capacity) simp
    ultimately show "reserved_in ?qs key + shares_cost (planner_cost p) t shs key
        \<le> capacity_in ?qs key + added_by (mp_schedule p) (fst key) (snd key) start"
      using Cons.prems(4)[of key] by (simp add: shares_cost_Cons)
  qed
  then show ?case using pl by (simp add: as_claims_def pool_share_eta)
qed

lemma release_then_reserve_same:
  assumes "planner_ok p" and "within_final tmax p"
    and "\<forall>s\<in>set shs. seat p model (context_ceiling sh) t (share_key s)"
    and "\<And>key. shares_cost (planner_cost p) t shs key \<le> planner_reserved p key"
  shows "planner_reserve (planner_release p t shs) model t (as_claims shs) sh tmax = Some (Inr shs, p)"
proof -
  let ?q = "planner_release p t shs"
  have sq: "same_plan ?q p" by (rule release_same_plan[OF assms(1)])
  have ok: "planner_ok ?q" using planner_release_done(1)[OF assms(1)] .
  note view = same_plan_view[OF sq]
  have res: "planner_reserved ?q key + shares_cost (planner_cost p) t shs key = planner_reserved p key" for key
    using planner_release_done(4)[OF assms(1), of t shs key] assms(4)[of key] by simp
  have "\<exists>ps'. reserve_loop ?q model t sh tmax (as_claims shs) (mp_pools ?q) [] = Some (Inr ([] @ shs, ps'))"
  proof (rule reserve_loop_pinned)
    show "pools_distinct (mp_pools ?q)" using ok by (simp add: planner_ok_def)
    show "pools_fixed (mp_pools ?q) = pools_fixed (mp_pools ?q)" by simp
    show "\<forall>s\<in>set shs. seat ?q model (context_ceiling sh) t (share_key s)"
      using assms(3) seat_same_plan[OF same_plan_sym[OF sq]] by blast
    fix key
    have "planner_reserved ?q key + shares_cost (planner_cost ?q) t shs key \<le> planner_room ?q key tmax"
      using res[of key] assms(2) view by (simp add: within_final_def)
    then show "reserved_in (mp_pools ?q) key + shares_cost (planner_cost ?q) t shs key
        \<le> capacity_in (mp_pools ?q) key + added_by (mp_schedule ?q) (fst key) (snd key) tmax"
      by (simp add: planner_reserved_def planner_room_def)
  qed
  then obtain p' where r: "planner_reserve ?q model t (as_claims shs) sh tmax = Some (Inr shs, p')"
    by (auto simp: planner_reserve_def)
  have "p' = p"
  proof (rule planner_eqI)
    show "same_plan p' p" using reserve_same_plan[OF ok r] sq by (rule same_plan_trans)
    then show "planner_ok p'" using same_plan_view(3) assms(1) by blast
    show "planner_reserved p' key = planner_reserved p key" for key
      using mem_planner.reserve_done[OF ok r, of key] res[of key] view(1) by simp
  qed
  with r show ?thesis by simp
qed

section \<open>Undoing a request\<close>

text \<open>A planner whose counters fit what it will have, with every arrival dated within the calendar.\<close>

definition plan_good :: "timestamp \<Rightarrow> memory_planner \<Rightarrow> bool" where
  "plan_good tmax p \<longleftrightarrow> planner_ok p \<and> within_final tmax p
     \<and> (\<forall>region pool. \<forall>a\<in>set (arrivals (mp_schedule p) region pool). fst a \<le> tmax)"

lemma plan_good_room:
  assumes "plan_good tmax p"
  shows "planner_room p key start \<le> planner_room p key tmax"
proof -
  have "filter (\<lambda>a. fst a \<le> tmax) xs = xs" if "\<forall>a\<in>set xs. fst a \<le> tmax" for xs :: "(timestamp \<times> nat) list"
    using that by (simp add: filter_id_conv)
  then have "added_by (mp_schedule p) (fst key) (snd key) tmax = sum_list (map snd (arrivals (mp_schedule p) (fst key) (snd key)))"
    using assms unfolding plan_good_def added_by_def by simp
  moreover have "sum_list (map snd (filter (\<lambda>a. fst a \<le> start) xs)) \<le> sum_list (map snd xs)"
    for xs :: "(timestamp \<times> nat) list"
    by (induction xs) auto
  ultimately show ?thesis by (simp add: planner_room_def added_by_def)
qed

lemma plan_good_same_plan:
  assumes "plan_good tmax p" and "same_plan q p" and "\<And>key. planner_reserved q key \<le> planner_room p key tmax"
  shows "plan_good tmax q"
proof -
  have "mp_schedule q = mp_schedule p" using assms(2) by (simp add: same_plan_def)
  then show ?thesis
    using assms same_plan_view[OF assms(2)] by (simp add: plan_good_def within_final_def)
qed

lemma plan_good_release: "plan_good tmax p \<Longrightarrow> plan_good tmax (planner_release p t shs)"
proof -
  assume g: "plan_good tmax p"
  then have ok: "planner_ok p" by (simp add: plan_good_def)
  show ?thesis
  proof (rule plan_good_same_plan[OF g release_same_plan[OF ok]])
    fix key
    have "planner_reserved (planner_release p t shs) key \<le> planner_reserved p key"
      using planner_release_done(4)[OF ok, of t shs key] by simp
    also have "\<dots> \<le> planner_room p key tmax" using g by (simp add: plan_good_def within_final_def)
    finally show "planner_reserved (planner_release p t shs) key \<le> planner_room p key tmax" .
  qed
qed

lemma plan_good_reserve:
  assumes g: "plan_good tmax p" and r: "planner_reserve p model t cs sh start = Some (Inr shs, p')"
  shows "plan_good tmax p'"
proof -
  have ok: "planner_ok p" using g by (simp add: plan_good_def)
  show ?thesis
  proof (rule plan_good_same_plan[OF g reserve_same_plan[OF ok r]])
    fix key
    note d = mem_planner.reserve_done[OF ok r, of key]
    have w: "planner_reserved p key \<le> planner_room p key tmax" using g by (simp add: plan_good_def within_final_def)
    show "planner_reserved p' key \<le> planner_room p key tmax"
    proof (cases "shares_cost (planner_cost p) t shs key = 0")
      case True
      then show ?thesis using d w by simp
    next
      case False
      then have "planner_reserved p' key \<le> planner_room p key start" using d by simp
      also have "\<dots> \<le> planner_room p key tmax" by (rule plan_good_room[OF g])
      finally show ?thesis .
    qed
  qed
qed

text \<open>
  The planner calls of a request, oldest first: reservations of any kind, and releases of
  shares that are counted and whose pools serve contexts up to \<open>c\<close>.
\<close>

inductive traced :: "string \<Rightarrow> nat \<Rightarrow> memory_planner \<Rightarrow> plan_op list \<Rightarrow> memory_planner \<Rightarrow> bool"
  for model :: string and c :: nat and p\<^sub>0 :: memory_planner where
  traced_start: "traced model c p\<^sub>0 [] p\<^sub>0"
| traced_reserved: "traced model c p\<^sub>0 ops p \<Longrightarrow> planner_reserve p m t cs sh start = Some (Inr shs, p')
    \<Longrightarrow> traced model c p\<^sub>0 (ops @ [Reserved t shs]) p'"
| traced_released: "traced model c p\<^sub>0 ops p \<Longrightarrow> \<forall>s\<in>set shs. seat p model c t (share_key s)
    \<Longrightarrow> \<forall>key. shares_cost (planner_cost p) t shs key \<le> planner_reserved p key
    \<Longrightarrow> traced model c p\<^sub>0 (ops @ [Released t shs]) (planner_release p t shs)"

lemma traced_good:
  assumes "traced model c p\<^sub>0 ops p" and "plan_good tmax p\<^sub>0"
  shows "plan_good tmax p" "same_plan p p\<^sub>0"
proof -
  have "plan_good tmax p \<and> same_plan p p\<^sub>0"
    using assms
  proof induction
    case traced_start
    then show ?case by simp
  next
    case (traced_reserved ops p m t cs sh start shs p')
    then have g: "plan_good tmax p" and s: "same_plan p p\<^sub>0" by simp_all
    have "planner_ok p" using g by (simp add: plan_good_def)
    then show ?case
      using plan_good_reserve[OF g traced_reserved.hyps(2)]
        same_plan_trans[OF reserve_same_plan[OF _ traced_reserved.hyps(2)] s] by simp
  next
    case (traced_released ops p shs t)
    then have g: "plan_good tmax p" and s: "same_plan p p\<^sub>0" by simp_all
    have "planner_ok p" using g by (simp add: plan_good_def)
    then show ?case using plan_good_release[OF g] same_plan_trans[OF release_same_plan s] by simp
  qed
  then show "plan_good tmax p" "same_plan p p\<^sub>0" by simp_all
qed

lemma plan_reserve_Some:
  assumes "planner_reserve p model t cs sh start = Some r"
  shows "plan_reserve p model t cs sh start = r"
  using assms by (simp add: plan_reserve_def)

lemma undo_restores:
  assumes "traced model c p\<^sub>0 ops p" and "plan_good (cx_timestamp_max ctx) p\<^sub>0" and "context_ceiling sh \<le> c"
  shows "undo ctx model sh ops p = p\<^sub>0"
  using assms(1)
proof induction
  case traced_start
  then show ?case by (simp add: undo_def)
next
  case (traced_reserved ops p m t cs sh' start shs p')
  have "planner_ok p" using traced_good(1)[OF traced_reserved.hyps(1) assms(2)] by (simp add: plan_good_def)
  from reserve_then_release_same[OF this traced_reserved.hyps(2)] traced_reserved.IH
  show ?case by (simp add: undo_def)
next
  case (traced_released ops p shs t)
  note g = traced_good(1)[OF traced_released.hyps(1) assms(2)]
  have "planner_reserve (planner_release p t shs) model t (as_claims shs) sh (cx_timestamp_max ctx) = Some (Inr shs, p)"
  proof (rule release_then_reserve_same)
    show "planner_ok p" "within_final (cx_timestamp_max ctx) p" using g by (simp_all add: plan_good_def)
    show "\<forall>s\<in>set shs. seat p model (context_ceiling sh) t (share_key s)"
      using traced_released.hyps(2) seat_ceiling assms(3) by blast
    show "shares_cost (planner_cost p) t shs key \<le> planner_reserved p key" for key
      using traced_released.hyps(3) by blast
  qed
  from plan_reserve_Some[OF this] traced_released.IH show ?case by (simp add: undo_def)
qed

lemma plan_reserve_cases:
  assumes "planner_ok p"
  obtains e where "plan_reserve p model t cs sh start = (Inl e, p)"
  | shs p' where "plan_reserve p model t cs sh start = (Inr shs, p')"
      "planner_reserve p model t cs sh start = Some (Inr shs, p')"
proof -
  obtain r p' where r: "planner_reserve p model t cs sh start = Some (r, p')"
    using mem_planner.reserve_returns[OF assms, of model t cs sh start] by auto
  show thesis
  proof (cases r)
    case (Inl e)
    then have "p' = p" using mem_planner.reserve_refused r by blast
    then show thesis using that(1) r Inl plan_reserve_Some[OF r] by simp
  next
    case (Inr shs)
    then show thesis using that(2) r plan_reserve_Some[OF r] by simp
  qed
qed

end
