(* ===== verification/Accounts.thy ===== *)
theory Accounts
  imports Rollback
begin

text \<open>
  The capacity accounts of the service: what the planner has reserved on a pool is what the
  live reservations hold there. Every request keeps that, whether it succeeds, is refused
  half-way or loses its write to another instance.
\<close>

declare split_paired_All [simp del] split_paired_Ex [simp del]

section \<open>Placements\<close>

lemma find_hd_filter: "find P xs = (case filter P xs of [] \<Rightarrow> None | x # _ \<Rightarrow> Some x)"
  by (induction xs) auto

lemma find_SomeD: "find P xs = Some y \<Longrightarrow> y \<in> set xs \<and> P y"
  by (induction xs) (auto split: if_splits)

lemma find_sort_key: "find (\<lambda>x. f x = a) (sort_key f xs) = find (\<lambda>x. f x = a) xs"
  unfolding find_hd_filter by (simp add: sort_key_stable)

definition placed_at :: "placement list \<Rightarrow> string \<Rightarrow> string option" where
  "placed_at ps region = map_option pl_pool (find (\<lambda>p. pl_region p = region) ps)"

lemma placed_at_put:
  "placed_at (put_placement ps s) region = (if region = ps_region s then Some (ps_pool s) else placed_at ps region)"
  by (induction ps) (auto simp: placed_at_def)

lemma placed_at_foldl:
  "placed_at (foldl put_placement ps shs) region =
     (case find (\<lambda>s. ps_region s = region) (rev shs) of Some s \<Rightarrow> Some (ps_pool s) | None \<Rightarrow> placed_at ps region)"
  by (induction shs rule: rev_induct) (auto simp: placed_at_put)

lemma placed_at_record:
  "placed_at (pt_placements (record_placements shs pt)) region =
     (case find (\<lambda>s. ps_region s = region) (rev shs) of Some s \<Rightarrow> Some (ps_pool s)
      | None \<Rightarrow> placed_at (pt_placements pt) region)"
proof -
  have "placed_at (sort_key pl_region ps) region = placed_at ps region" for ps
    by (simp add: placed_at_def find_sort_key)
  then show ?thesis by (simp add: record_placements_def placed_at_foldl)
qed

lemma pool_of_placed:
  "pool_of ctx pt region = (case placed_at (pt_placements pt) region of Some p \<Rightarrow> Some p
     | None \<Rightarrow> map_option pool_id (capacity_for (sc_plan (cx_config ctx)) region (pt_model pt)))"
  by (simp add: pool_of_def placed_at_def split: option.split)

lemma pool_of_cong:
  "pt_placements a = pt_placements b \<Longrightarrow> pt_model a = pt_model b \<Longrightarrow> pool_of ctx a = pool_of ctx b"
  by (rule ext) (simp add: pool_of_def split: option.split)

lemma find_rev_distinct:
  assumes "distinct (map f xs)" and "x \<in> set xs"
  shows "find (\<lambda>y. f y = f x) (rev xs) = Some x"
proof -
  obtain y where y: "find (\<lambda>y. f y = f x) (rev xs) = Some y"
    using assms(2) by (cases "find (\<lambda>y. f y = f x) (rev xs)") (auto simp: find_None_iff)
  from find_SomeD[OF y] have "y \<in> set xs" "f y = f x" by simp_all
  then have "y = x" using assms by (auto simp: distinct_map inj_on_def)
  with y show ?thesis by simp
qed

lemma pool_of_record:
  assumes "distinct (map ps_region shs)"
  shows "s \<in> set shs \<Longrightarrow> pool_of ctx (record_placements shs pt) (ps_region s) = Some (ps_pool s)"
    and "region \<notin> ps_region ` set shs \<Longrightarrow> pool_of ctx (record_placements shs pt) region = pool_of ctx pt region"
proof -
  show "pool_of ctx (record_placements shs pt) (ps_region s) = Some (ps_pool s)" if "s \<in> set shs"
    using find_rev_distinct[OF assms that] by (simp add: pool_of_placed placed_at_record)
  show "pool_of ctx (record_placements shs pt) region = pool_of ctx pt region" if "region \<notin> ps_region ` set shs"
  proof -
    have "find (\<lambda>s. ps_region s = region) (rev shs) = None" using that by (auto simp: find_None_iff)
    then show ?thesis by (simp add: pool_of_placed placed_at_record split: option.split) (simp add: record_placements_def)
  qed
qed

lemma pool_of_tidy:
  assumes "region \<in> rs_region ` set (held_shares pt)"
  shows "pool_of ctx (tidy_placements pt) region = pool_of ctx pt region"
proof -
  have "placed_at (filter (\<lambda>p. pl_region p \<in> rs_region ` set (held_shares pt)) ps) region = placed_at ps region" for ps
    using assms by (induction ps) (auto simp: placed_at_def)
  then have "placed_at (pt_placements (tidy_placements pt)) region = placed_at (pt_placements pt) region"
    by (simp add: tidy_placements_def)
  moreover have "pt_model (tidy_placements pt) = pt_model pt" by (simp add: tidy_placements_def)
  ultimately show ?thesis unfolding pool_of_placed by (simp split: option.split)
qed

section \<open>What shares cost on their pools\<close>

definition narrow_costs :: "memory_planner \<Rightarrow> bool" where
  "narrow_costs p \<longleftrightarrow> (\<forall>k c. mp_costs p k = Some c \<longrightarrow> c < 4294967296)"

definition share_cost :: "memory_planner \<Rightarrow> tier \<Rightarrow> string \<Rightarrow> string \<Rightarrow> nat \<Rightarrow> nat" where
  "share_cost p t region pool cus = planner_cost p t \<lparr>ps_region = region, ps_pool = pool, ps_cus = cus\<rparr>"

lemma share_cost_zero [simp]: "share_cost p t region pool 0 = 0"
  by (simp add: share_cost_def planner_cost_def costs_share_def u64_mul_def split: option.split)

lemma share_cost_add:
  assumes "narrow_costs p" and "a + b \<le> u32_max"
  shows "share_cost p t region pool (a + b) = share_cost p t region pool a + share_cost p t region pool b"
proof (cases "per_cu (mp_costs p) region pool t")
  case None
  then show ?thesis by (simp add: share_cost_def planner_cost_def costs_share_def)
next
  case (Some c)
  then have c: "c < 4294967296" using assms(1) by (simp add: narrow_costs_def per_cu_def)
  have small: "c * n < 18446744073709551616" if "n \<le> u32_max" for n
  proof -
    have "c * n \<le> 4294967295 * 4294967295" using c that by (intro mult_mono) (simp_all add: u32_max_def)
    then show ?thesis by simp
  qed
  have "c * (a + b) < 18446744073709551616" "c * a < 18446744073709551616" "c * b < 18446744073709551616"
    using small assms(2) by simp_all
  then show ?thesis
    using Some by (simp add: share_cost_def planner_cost_def costs_share_def u64_mul_def distrib_left)
qed

text \<open>What one share per region costs: at most one share matters to a pool.\<close>

definition hold_at ::
  "service_ctx \<Rightarrow> memory_planner \<Rightarrow> provisioned_throughput \<Rightarrow> (string \<Rightarrow> nat) \<Rightarrow> pool_key \<Rightarrow> nat" where
  "hold_at ctx p pt f key =
     (if pool_of ctx pt (fst key) = Some (snd key) then share_cost p (pt_tier pt) (fst key) (snd key) (f (fst key)) else 0)"

lemma on_pools_Cons:
  "on_pools ctx pt (s # ss) =
     (case pool_of ctx pt (rs_region s) of None \<Rightarrow> [] | Some pool \<Rightarrow> [\<lparr>ps_region = rs_region s, ps_pool = pool, ps_cus = rs_cus s\<rparr>])
     @ on_pools ctx pt ss"
  by (simp add: on_pools_def List.map_filter_simps split: option.split)

lemma on_pools_Nil [simp]: "on_pools ctx pt [] = []"
  by (simp add: on_pools_def List.map_filter_simps)

lemma shares_cost_append: "shares_cost cost t (xs @ ys) key = shares_cost cost t xs key + shares_cost cost t ys key"
  by (simp add: shares_cost_def)

lemma shares_cost_Nil [simp]: "shares_cost cost t [] key = 0"
  by (simp add: shares_cost_def)

lemma on_pools_cost:
  assumes "distinct (map rs_region ss)"
  shows "shares_cost (planner_cost p) (pt_tier pt) (on_pools ctx pt ss) key = hold_at ctx p pt (share_of ss) key"
  using assms
proof (induction ss)
  case Nil
  then show ?case by (simp add: hold_at_def)
next
  case (Cons s ss)
  obtain region pool where key: "key = (region, pool)" by (cases key)
  show ?case
  proof (cases "rs_region s = region")
    case True
    with Cons.prems have "share_of ss region = 0" by (auto intro: share_of_absent)
    then show ?thesis
      using Cons True key share_cost_zero[of p "pt_tier pt" region pool]
      by (auto simp: on_pools_Cons shares_cost_append shares_cost_Cons share_key_def hold_at_def share_cost_def
          share_of_Cons split: option.split)
  next
    case False
    then show ?thesis
      using Cons key
      by (auto simp: on_pools_Cons shares_cost_append shares_cost_Cons share_key_def hold_at_def
          share_of_Cons split: option.split)
  qed
qed

lemma set_on_pools:
  "s \<in> set (on_pools ctx pt ss) \<longleftrightarrow>
   (\<exists>r\<in>set ss. pool_of ctx pt (rs_region r) = Some (ps_pool s) \<and> ps_region s = rs_region r \<and> ps_cus s = rs_cus r)"
  by (induction ss) (auto simp: on_pools_Cons split: option.splits)

lemma on_pools_regions_distinct:
  "distinct (map rs_region ss) \<Longrightarrow> distinct (map ps_region (on_pools ctx pt ss))"
proof (induction ss)
  case (Cons s ss)
  have "rs_region s \<notin> ps_region ` set (on_pools ctx pt ss)"
    using Cons.prems by (auto simp: set_on_pools)
  then show ?case using Cons by (auto simp: on_pools_Cons split: option.splits)
qed simp

section \<open>Growth\<close>

lemma growth_Cons:
  "growth old (n # ns) = (if share_of old (rs_region n) < rs_cus n
      then [\<lparr>rs_region = rs_region n, rs_cus = rs_cus n - share_of old (rs_region n)\<rparr>] else []) @ growth old ns"
  by (simp add: growth_def List.map_filter_simps Let_def)

lemma growth_Nil [simp]: "growth old [] = []"
  by (simp add: growth_def List.map_filter_simps)

lemma growth_regions: "rs_region ` set (growth old new) \<subseteq> rs_region ` set new"
  by (induction new) (auto simp: growth_Cons)

lemma growth_distinct: "distinct (map rs_region new) \<Longrightarrow> distinct (map rs_region (growth old new))"
  using growth_regions by (induction new) (auto simp: growth_Cons)

lemma share_of_growth:
  "distinct (map rs_region new) \<Longrightarrow> share_of (growth old new) region = share_of new region - share_of old region"
proof (induction new)
  case (Cons n ns)
  have "rs_region n \<notin> rs_region ` set (growth old ns)"
    using Cons.prems growth_regions[of old ns] by auto
  then show ?case
    using Cons share_of_absent[of "rs_region n" "growth old ns"]
    by (auto simp: growth_Cons share_of_Cons)
qed simp

lemma growth_member:
  assumes "distinct (map rs_region new)" and "g \<in> set (growth old new)"
  shows "share_of new (rs_region g) = share_of old (rs_region g) + rs_cus g"
    "find (\<lambda>t. rs_region t = rs_region g) new \<noteq> None"
proof -
  have "share_of (growth old new) (rs_region g) = rs_cus g"
    by (rule share_of_in[OF growth_distinct[OF assms(1)] assms(2)])
  moreover have "0 < rs_cus g" using assms(2) by (induction new) (auto simp: growth_Cons split: if_splits)
  ultimately show "share_of new (rs_region g) = share_of old (rs_region g) + rs_cus g"
    using share_of_growth[OF assms(1), of old "rs_region g"] by simp
  have "rs_region g \<in> rs_region ` set new" using assms(2) growth_regions[of old new] by blast
  then show "find (\<lambda>t. rs_region t = rs_region g) new \<noteq> None" by (auto simp: find_None_iff)
qed

lemma footprint_put_distinct:
  "distinct (map rs_region rs) \<Longrightarrow> distinct (map rs_region (footprint_put h rs))
     \<and> rs_region ` set (footprint_put h rs) = insert (rs_region h) (rs_region ` set rs)"
  by (induction rs) auto

lemma footprint_distinct:
  assumes "distinct (map rs_region rs)"
  shows "distinct (map rs_region (footprint rs hs))"
    "rs_region ` set (footprint rs hs) = rs_region ` set rs \<union> rs_region ` set hs"
proof -
  have "distinct (map rs_region (footprint rs hs))
      \<and> rs_region ` set (footprint rs hs) = rs_region ` set rs \<union> rs_region ` set hs"
    using assms unfolding footprint_def
  proof (induction hs arbitrary: rs)
    case (Cons h hs)
    from footprint_put_distinct[OF Cons.prems, of h] Cons.IH[of "footprint_put h rs"]
    show ?case by auto
  qed simp
  then show "distinct (map rs_region (footprint rs hs))"
    "rs_region ` set (footprint rs hs) = rs_region ` set rs \<union> rs_region ` set hs" by simp_all
qed

section \<open>Requests in progress\<close>

text \<open>
  What stays true of a request at every moment: its reservation's model, and that its planner
  calls are recorded and can be undone for shapes up to \<open>c\<close>.
\<close>

definition session :: "string \<Rightarrow> nat \<Rightarrow> memory_planner \<Rightarrow> work \<Rightarrow> bool" where
  "session model c p\<^sub>0 w \<longleftrightarrow> pt_model (wk_pt w) = model \<and> traced model c p\<^sub>0 (wk_ops w) (wk_planner w)"

lemma session_view:
  assumes "session model c p\<^sub>0 w" and "plan_good tmax p\<^sub>0"
  shows "plan_good tmax (wk_planner w)" "planner_ok (wk_planner w)" "same_plan (wk_planner w) p\<^sub>0"
    "planner_cost (wk_planner w) = planner_cost p\<^sub>0"
proof -
  have t: "traced model c p\<^sub>0 (wk_ops w) (wk_planner w)" using assms(1) by (simp add: session_def)
  show g: "plan_good tmax (wk_planner w)" "same_plan (wk_planner w) p\<^sub>0" by (rule traced_good[OF t assms(2)])+
  then show "planner_ok (wk_planner w)" by (simp add: plan_good_def)
  show "planner_cost (wk_planner w) = planner_cost p\<^sub>0" by (rule same_plan_view(1)[OF g(2)])
qed

lemma session_pt: "session model c p\<^sub>0 w \<Longrightarrow> pt_model pt = model \<Longrightarrow> session model c p\<^sub>0 (w\<lparr>wk_pt := pt\<rparr>)"
  by (simp add: session_def)

lemma session_start: "pt_model pt = model \<Longrightarrow> session model c (sv_planner sv) (start_work sv pt)"
  by (simp add: session_def start_work_def traced_start)

lemma work_reserve_cases:
  assumes "session model c p\<^sub>0 w" and "plan_good tmax p\<^sub>0"
  obtains e where "work_reserve m t cs sh start w = (Inl e, w)"
  | shs w' where "work_reserve m t cs sh start w = (Inr shs, w')" "session model c p\<^sub>0 w'" "wk_pt w' = wk_pt w"
      "planner_reserve (wk_planner w) m t cs sh start = Some (Inr shs, wk_planner w')"
      "list_all2 answers cs shs" "\<forall>s\<in>set shs. seat p\<^sub>0 m (context_ceiling sh) t (share_key s)"
      "\<And>key. planner_reserved (wk_planner w') key = planner_reserved (wk_planner w) key + shares_cost (planner_cost p\<^sub>0) t shs key"
proof -
  note v = session_view[OF assms]
  from plan_reserve_cases[OF v(2), of m t cs sh start] show thesis
  proof cases
    case (1 e)
    then have "work_reserve m t cs sh start w = (Inl e, w)" by (simp add: work_reserve_def)
    then show thesis by (rule that(1))
  next
    case (2 shs p')
    let ?w = "w\<lparr>wk_planner := p', wk_ops := wk_ops w @ [Reserved t shs]\<rparr>"
    have "traced model c p\<^sub>0 (wk_ops w @ [Reserved t shs]) p'"
      using assms(1) 2(2) traced_reserved[of model c p\<^sub>0 "wk_ops w" "wk_planner w"] by (simp add: session_def)
    then have s: "session model c p\<^sub>0 ?w" using assms(1) by (simp add: session_def)
    have seats: "\<forall>s\<in>set shs. seat p\<^sub>0 m (context_ceiling sh) t (share_key s)"
      using planner_reserve_seats[OF 2(2)] seat_same_plan[OF v(3)] by blast
    have sum: "planner_reserved p' key = planner_reserved (wk_planner w) key + shares_cost (planner_cost p\<^sub>0) t shs key" for key
      using mem_planner.reserve_done[OF v(2) 2(2), of key] v(4) by simp
    show thesis
      by (rule that(2)[of shs ?w]) (use 2 s seats sum planner_reserve_done(3)[OF v(2) 2(2)] in \<open>simp_all add: work_reserve_def\<close>)
  qed
qed

lemma work_release_session:
  assumes "session model c p\<^sub>0 w" and "plan_good tmax p\<^sub>0"
    and "\<forall>s\<in>set shs. seat p\<^sub>0 model c t (share_key s)"
    and "\<And>key. shares_cost (planner_cost p\<^sub>0) t shs key \<le> planner_reserved (wk_planner w) key"
  shows "session model c p\<^sub>0 (work_release t shs w)" "wk_pt (work_release t shs w) = wk_pt w"
    "planner_reserved (wk_planner (work_release t shs w)) key + shares_cost (planner_cost p\<^sub>0) t shs key
       = planner_reserved (wk_planner w) key"
proof -
  note v = session_view[OF assms(1,2)]
  have "traced model c p\<^sub>0 (wk_ops w @ [Released t shs]) (planner_release (wk_planner w) t shs)"
  proof (rule traced_released)
    show "traced model c p\<^sub>0 (wk_ops w) (wk_planner w)" using assms(1) by (simp add: session_def)
    show "\<forall>s\<in>set shs. seat (wk_planner w) model c t (share_key s)"
      using assms(3) seat_same_plan[OF same_plan_sym[OF v(3)]] by blast
    show "\<forall>key. shares_cost (planner_cost (wk_planner w)) t shs key \<le> planner_reserved (wk_planner w) key"
      using assms(4) v(4) by simp
  qed
  then show "session model c p\<^sub>0 (work_release t shs w)" "wk_pt (work_release t shs w) = wk_pt w"
    using assms(1) by (simp_all add: session_def work_release_def)
  show "planner_reserved (wk_planner (work_release t shs w)) key + shares_cost (planner_cost p\<^sub>0) t shs key
       = planner_reserved (wk_planner w) key"
    using planner_release_done(4)[OF v(2), of t shs key] assms(4)[of key] v(4) by (simp add: work_release_def)
qed

text \<open>A charge of \<open>n\<close> on one pool.\<close>

definition charge :: "pool_key \<Rightarrow> nat \<Rightarrow> pool_key \<Rightarrow> nat" where
  "charge k n key = (if key = k then n else 0)"

lemma shares_cost_single:
  "shares_cost (planner_cost p) t [\<lparr>ps_region = r, ps_pool = q, ps_cus = n\<rparr>] key = charge (r, q) (share_cost p t r q n) key"
  by (simp add: shares_cost_def share_key_def charge_def share_cost_def)

lemma answers_single:
  assumes "list_all2 answers [\<lparr>cl_region = r, cl_pool = to, cl_cus = n\<rparr>] shs"
  obtains q where "shs = [\<lparr>ps_region = r, ps_pool = q, ps_cus = n\<rparr>]" "to = None \<or> to = Some q"
proof -
  from assms obtain s where s: "shs = [s]" "ps_region s = r" "ps_cus s = n" "to = None \<or> to = Some (ps_pool s)"
    by (auto simp: list_all2_Cons1 answers_def)
  then show thesis using that[of "ps_pool s"] pool_share_eta[of s] by auto
qed

lemma held_filter:
  assumes "distinct (map rs_region hs)" and "region \<in> rs_region ` set hs" and "pool_of ctx pt region = Some q"
  shows "on_pools ctx pt (filter (\<lambda>s. rs_region s = region) hs)
       = [\<lparr>ps_region = region, ps_pool = q, ps_cus = share_of hs region\<rparr>]"
  using assms
proof (induction hs)
  case (Cons h hs)
  show ?case
  proof (cases "rs_region h = region")
    case True
    then have "region \<notin> rs_region ` set hs" using Cons.prems(1) by simp
    then have "\<forall>x\<in>set hs. rs_region x \<noteq> region" by (metis imageI)
    then have "filter (\<lambda>s. rs_region s = region) hs = []" by (simp add: filter_empty_conv)
    then show ?thesis using True Cons.prems(3) by (simp add: on_pools_Cons share_of_Cons)
  next
    case False
    then show ?thesis using Cons by (simp add: share_of_Cons)
  qed
qed simp

lemma pt_record [simp]:
  "pt_model (record_placements shs pt) = pt_model pt" "pt_tier (record_placements shs pt) = pt_tier pt"
  "held_shares (record_placements shs pt) = held_shares pt"
  by (simp_all add: record_placements_def held_shares_def pt_effective_def)

lemma pt_push [simp]:
  "pt_model (push_event u k pt) = pt_model pt" "pt_tier (push_event u k pt) = pt_tier pt"
  "held_shares (push_event u k pt) = held_shares pt" "pt_placements (push_event u k pt) = pt_placements pt"
  by (simp_all add: push_event_def held_shares_def pt_effective_def)

lemma pool_of_push [simp]: "pool_of ctx (push_event u k pt) = pool_of ctx pt"
  by (rule pool_of_cong) simp_all

lemma relocate_effect:
  assumes s: "session model c p\<^sub>0 w" and g: "plan_good tmax p\<^sub>0"
    and held: "distinct (map rs_region (held_shares (wk_pt w)))" "region \<in> rs_region ` set (held_shares (wk_pt w))"
    and q: "pool_of ctx (wk_pt w) region = Some q" "seat p\<^sub>0 model c (pt_tier (wk_pt w)) (region, q)"
    and old: "n = share_cost p\<^sub>0 (pt_tier (wk_pt w)) region q (share_of (held_shares (wk_pt w)) region)"
      "n \<le> planner_reserved (wk_planner w) (region, q)"
  obtains e where "relocate ctx now region sized to sh start w = (Inl (Capacity e), w)"
  | q' w' where "relocate ctx now region sized to sh start w = (Inr (), w')" "session model c p\<^sub>0 w'"
      "wk_pt w' = push_event now (EvRelocated region)
         (record_placements [\<lparr>ps_region = region, ps_pool = q', ps_cus = sized\<rparr>] (wk_pt w))"
      "seat p\<^sub>0 model (context_ceiling sh) (pt_tier (wk_pt w)) (region, q')" "to = None \<or> to = Some q'"
      "\<And>key. planner_reserved (wk_planner w') key + charge (region, q) n key
         = planner_reserved (wk_planner w) key + charge (region, q') (share_cost p\<^sub>0 (pt_tier (wk_pt w)) region q' sized) key"
proof -
  let ?pt = "wk_pt w" and ?t = "pt_tier (wk_pt w)"
  let ?old = "[\<lparr>ps_region = region, ps_pool = q, ps_cus = share_of (held_shares ?pt) region\<rparr>]"
  have m: "pt_model ?pt = model" using s by (simp add: session_def)
  have o: "on_pools ctx ?pt (filter (\<lambda>s. rs_region s = region) (held_shares ?pt)) = ?old"
    by (rule held_filter[OF held q(1)])
  from work_reserve_cases[OF s g, of "pt_model ?pt" ?t "[\<lparr>cl_region = region, cl_pool = to, cl_cus = sized\<rparr>]" sh start]
  show thesis
  proof cases
    case (1 e)
    then show thesis using that(1)[of e] by (simp add: relocate_def Let_def)
  next
    case (2 shs w1)
    from answers_single[OF 2(5)] obtain q' where
      q': "shs = [\<lparr>ps_region = region, ps_pool = q', ps_cus = sized\<rparr>]" "to = None \<or> to = Some q'" by blast
    have r1: "planner_reserved (wk_planner w1) key = planner_reserved (wk_planner w) key
        + charge (region, q') (share_cost p\<^sub>0 ?t region q' sized) key" for key
      using 2(7)[of key] by (simp add: q'(1) shares_cost_single)
    have cost: "shares_cost (planner_cost p\<^sub>0) ?t ?old key = charge (region, q) n key" for key
      by (simp add: shares_cost_single old(1))
    have seats: "\<forall>s\<in>set ?old. seat p\<^sub>0 model c ?t (share_key s)" using q(2) by (simp add: share_key_def)
    have le: "shares_cost (planner_cost p\<^sub>0) ?t ?old key \<le> planner_reserved (wk_planner w1) key" for key
      using old(2) r1[of key] by (simp add: cost charge_def)
    note rel = work_release_session[OF 2(2) g seats le]
    let ?w2 = "(work_release ?t ?old w1)\<lparr>wk_pt := push_event now (EvRelocated region) (record_placements shs ?pt)\<rparr>"
    show thesis
    proof (rule that(2)[of ?w2 q'])
      show "relocate ctx now region sized to sh start w = (Inr (), ?w2)"
        using 2(1) by (simp add: relocate_def Let_def o)
      show "session model c p\<^sub>0 ?w2" by (rule session_pt[OF rel(1)]) (simp add: m)
      show "wk_pt ?w2 = push_event now (EvRelocated region)
          (record_placements [\<lparr>ps_region = region, ps_pool = q', ps_cus = sized\<rparr>] (wk_pt w))" by (simp add: q'(1))
      show "seat p\<^sub>0 model (context_ceiling sh) ?t (region, q')" using 2(6) m by (simp add: q'(1) share_key_def)
      show "to = None \<or> to = Some q'" by (rule q'(2))
      show "planner_reserved (wk_planner ?w2) key + charge (region, q) n key
         = planner_reserved (wk_planner w) key + charge (region, q') (share_cost p\<^sub>0 ?t region q' sized) key" for key
        using rel(3)[of key] r1[of key] by (simp add: cost)
    qed
  qed
qed

section \<open>Moving capacity\<close>

text \<open>
  The reservation of a request changes only in where it is placed and in its trail while its
  capacity moves.
\<close>

definition moved_from :: "provisioned_throughput \<Rightarrow> provisioned_throughput \<Rightarrow> bool" where
  "moved_from a b \<longleftrightarrow> b\<lparr>pt_placements := [], pt_events := []\<rparr> = a\<lparr>pt_placements := [], pt_events := []\<rparr>"

lemma moved_from_refl [simp]: "moved_from a a"
  by (simp add: moved_from_def)

lemma moved_from_step:
  assumes "moved_from a b"
  shows "moved_from a (record_placements shs b)" "moved_from a (push_event u k b)"
  using assms by (simp_all add: moved_from_def record_placements_def push_event_def)

lemma moved_from_field:
  assumes "moved_from a b" and "\<And>pt. f (pt\<lparr>pt_placements := [], pt_events := []\<rparr>) = f pt"
  shows "f b = f a"
  using arg_cong[OF assms(1)[unfolded moved_from_def], of f] by (simp only: assms(2))

lemma moved_fromD:
  assumes "moved_from a b"
  shows "pt_model b = pt_model a" "pt_tier b = pt_tier a" "held_shares b = held_shares a"
    "pt_regions b = pt_regions a" "pt_sku b = pt_sku a" "pt_shape b = pt_shape a" "pt_state b = pt_state a"
    "pt_pending_changes b = pt_pending_changes a" "pt_id b = pt_id a" "pt_version b = pt_version a"
  by (rule moved_from_field[OF assms]; simp add: held_shares_def pt_effective_def)+

text \<open>
  Progress of a move from \<open>before\<close> to \<open>target\<close>: in the regions \<open>ok\<close> the reservation holds its
  target on a pool that serves contexts up to \<open>cn\<close>, in the others what it held before.
\<close>

definition grown ::
  "service_ctx \<Rightarrow> string \<Rightarrow> nat \<Rightarrow> nat \<Rightarrow> memory_planner \<Rightarrow> memory_planner \<Rightarrow> provisioned_throughput
   \<Rightarrow> region_share list \<Rightarrow> string set \<Rightarrow> work \<Rightarrow> bool" where
  "grown ctx model c cn p\<^sub>0 pA ptA target ok w \<longleftrightarrow>
     session model c p\<^sub>0 w \<and> moved_from ptA (wk_pt w)
     \<and> (\<forall>r q. planner_reserved (wk_planner w) (r, q) + hold_at ctx p\<^sub>0 ptA (share_of (held_shares ptA)) (r, q)
          = planner_reserved pA (r, q)
            + hold_at ctx p\<^sub>0 (wk_pt w) (\<lambda>r. if r \<in> ok then share_of target r else share_of (held_shares ptA) r) (r, q))
     \<and> (\<forall>r. r \<notin> ok \<longrightarrow> pool_of ctx (wk_pt w) r = pool_of ctx ptA r)
     \<and> (\<forall>r\<in>ok. \<exists>q. pool_of ctx (wk_pt w) r = Some q \<and> seat p\<^sub>0 model cn (pt_tier ptA) (r, q))"

text \<open>The reservation's pools exist and serve contexts up to \<open>c\<close>.\<close>

definition seated :: "service_ctx \<Rightarrow> memory_planner \<Rightarrow> nat \<Rightarrow> provisioned_throughput \<Rightarrow> bool" where
  "seated ctx p c pt \<longleftrightarrow> (\<forall>r\<in>rs_region ` set (held_shares pt).
     \<exists>q. pool_of ctx pt r = Some q \<and> seat p (pt_model pt) c (pt_tier pt) (r, q))"

definition hold_cost :: "service_ctx \<Rightarrow> memory_planner \<Rightarrow> provisioned_throughput \<Rightarrow> pool_key \<Rightarrow> nat" where
  "hold_cost ctx p pt key = shares_cost (planner_cost p) (pt_tier pt) (pooled ctx pt) key"

definition backed :: "service_ctx \<Rightarrow> memory_planner \<Rightarrow> memory_planner \<Rightarrow> provisioned_throughput \<Rightarrow> bool" where
  "backed ctx p\<^sub>0 p pt \<longleftrightarrow> (\<forall>key. hold_cost ctx p\<^sub>0 pt key \<le> planner_reserved p key)"

lemma hold_cost_at:
  "distinct (map rs_region (held_shares pt)) \<Longrightarrow> hold_cost ctx p pt key = hold_at ctx p pt (share_of (held_shares pt)) key"
  by (simp add: hold_cost_def pooled_def on_pools_cost)

lemma grown_start:
  "session model c p\<^sub>0 w \<Longrightarrow> grown ctx model c cn p\<^sub>0 (wk_planner w) (wk_pt w) target {} w"
  by (simp add: grown_def)

text \<open>A region takes its target on the pool \<open>q'\<close>, in exchange for what it held.\<close>

lemma grown_insert:
  assumes gr: "grown ctx model c cn p\<^sub>0 pA ptA target ok w" and r: "r \<notin> ok"
    and w': "session model c p\<^sub>0 w'" "moved_from ptA (wk_pt w')"
      "pool_of ctx (wk_pt w') r = Some q'" "\<And>x. x \<noteq> r \<Longrightarrow> pool_of ctx (wk_pt w') x = pool_of ctx (wk_pt w) x"
      "seat p\<^sub>0 model cn (pt_tier ptA) (r, q')"
    and bal: "\<And>key. planner_reserved (wk_planner w') key
        + (if fst key = r then hold_at ctx p\<^sub>0 ptA (share_of (held_shares ptA)) key else 0)
      = planner_reserved (wk_planner w) key + charge (r, q') (share_cost p\<^sub>0 (pt_tier ptA) r q' (share_of target r)) key"
  shows "grown ctx model c cn p\<^sub>0 pA ptA target (insert r ok) w'"
proof -
  let ?H = "hold_at ctx p\<^sub>0 ptA (share_of (held_shares ptA))"
  let ?f = "\<lambda>ok r. if r \<in> ok then share_of target r else share_of (held_shares ptA) r"
  have t: "pt_tier (wk_pt w) = pt_tier ptA" "pt_tier (wk_pt w') = pt_tier ptA"
    using gr w'(2) moved_fromD(2) unfolding grown_def by blast+
  have old: "planner_reserved (wk_planner w) (x, y) + ?H (x, y)
      = planner_reserved pA (x, y) + hold_at ctx p\<^sub>0 (wk_pt w) (?f ok) (x, y)" for x y
    using gr unfolding grown_def by blast
  have same: "pool_of ctx (wk_pt w) x = pool_of ctx ptA x" if "x \<notin> ok" for x
    using gr that unfolding grown_def by blast
  have "planner_reserved (wk_planner w') (x, y) + ?H (x, y)
      = planner_reserved pA (x, y) + hold_at ctx p\<^sub>0 (wk_pt w') (?f (insert r ok)) (x, y)" for x y
  proof (cases "x = r")
    case True
    have "hold_at ctx p\<^sub>0 (wk_pt w) (?f ok) (r, y) = ?H (r, y)"
      using same[OF r] r t by (simp add: hold_at_def)
    then have "planner_reserved (wk_planner w) (r, y) = planner_reserved pA (r, y)" using old[of r y] by simp
    moreover have "hold_at ctx p\<^sub>0 (wk_pt w') (?f (insert r ok)) (r, y)
        = charge (r, q') (share_cost p\<^sub>0 (pt_tier ptA) r q' (share_of target r)) (r, y)"
      using w'(3) t by (simp add: hold_at_def charge_def)
    ultimately show ?thesis using bal[of "(r, y)"] True by simp
  next
    case False
    have "hold_at ctx p\<^sub>0 (wk_pt w') (?f (insert r ok)) (x, y) = hold_at ctx p\<^sub>0 (wk_pt w) (?f ok) (x, y)"
      using w'(4)[OF False] False t by (simp add: hold_at_def)
    moreover have "planner_reserved (wk_planner w') (x, y) = planner_reserved (wk_planner w) (x, y)"
      using bal[of "(x, y)"] False by (simp add: charge_def)
    ultimately show ?thesis using old[of x y] by simp
  qed
  moreover have "pool_of ctx (wk_pt w') x = pool_of ctx ptA x" if "x \<notin> insert r ok" for x
    using that w'(4)[of x] same[of x] by simp
  moreover have "\<exists>q. pool_of ctx (wk_pt w') x = Some q \<and> seat p\<^sub>0 model cn (pt_tier ptA) (x, q)" if "x \<in> insert r ok" for x
  proof (cases "x = r")
    case True
    then show ?thesis using w'(3,5) by blast
  next
    case False
    then show ?thesis using that w'(4)[OF False] gr unfolding grown_def by auto
  qed
  ultimately show ?thesis using w'(1,2) unfolding grown_def by blast
qed

text \<open>What a growing region asks for, and what it then holds.\<close>

definition growth_claim :: "service_ctx \<Rightarrow> provisioned_throughput \<Rightarrow> region_share \<Rightarrow> claim" where
  "growth_claim ctx pt g =
     \<lparr>cl_region = rs_region g,
      cl_pool = (if rs_region g \<in> rs_region ` set (held_shares pt) then pool_of ctx pt (rs_region g) else None),
      cl_cus = rs_cus g\<rparr>"

lemma list_ex_region: "list_ex (\<lambda>h. rs_region h = r) hs \<longleftrightarrow> r \<in> rs_region ` set hs"
  by (induction hs) auto

lemma claims_for_map: "claims_for ctx pt ss = map (growth_claim ctx pt) ss"
  by (simp add: claims_for_def growth_claim_def list_ex_region)

lemma claims_for_single: "claims_for ctx pt [g] = [growth_claim ctx pt g]"
  by (simp add: claims_for_map)

lemma target_fits:
  assumes "\<forall>s\<in>set target. rs_cus s \<le> u32_max"
  shows "share_of target r \<le> u32_max"
  using assms by (induction target) (auto simp: share_of_Cons)

lemma grow_balance:
  assumes "narrow_costs p\<^sub>0" and "share_of target r = share_of (held_shares ptA) r + n"
    and "share_of target r \<le> u32_max"
    and "r \<in> rs_region ` set (held_shares ptA) \<Longrightarrow> pool_of ctx ptA r = Some q"
  shows "charge (r, q) (share_cost p\<^sub>0 (pt_tier ptA) r q n) key
         + (if fst key = r then hold_at ctx p\<^sub>0 ptA (share_of (held_shares ptA)) key else 0)
       = charge (r, q) (share_cost p\<^sub>0 (pt_tier ptA) r q (share_of target r)) key"
proof (cases "r \<in> rs_region ` set (held_shares ptA)")
  case True
  then show ?thesis
    using assms(4) share_cost_add[OF assms(1), of "share_of (held_shares ptA) r" n "pt_tier ptA" r q] assms(2,3)
    by (cases key) (auto simp: charge_def hold_at_def)
next
  case False
  then have "share_of (held_shares ptA) r = 0" by (rule share_of_absent)
  then show ?thesis using assms(2) by (cases key) (auto simp: charge_def hold_at_def)
qed

lemma grow_each_grown:
  assumes good: "plan_good tmax p\<^sub>0" "narrow_costs p\<^sub>0"
    and A: "distinct (map rs_region (held_shares ptA))" "seated ctx p\<^sub>0 c ptA" "backed ctx p\<^sub>0 pA ptA"
    and target: "distinct (map rs_region target)" "\<forall>s\<in>set target. rs_cus s \<le> u32_max"
    and cn: "cn \<le> context_ceiling sh"
    and gr: "grown ctx model c cn p\<^sub>0 pA ptA target ok w"
    and gs: "distinct (map rs_region gs)" "set gs \<subseteq> set (growth (held_shares ptA) target)" "rs_region ` set gs \<inter> ok = {}"
  shows "\<exists>res w'. grow_each ctx now target sh start gs w = (res, w') \<and> session model c p\<^sub>0 w' \<and> moved_from ptA (wk_pt w')
           \<and> (res = Inr () \<longrightarrow> grown ctx model c cn p\<^sub>0 pA ptA target (ok \<union> rs_region ` set gs) w')"
  using gr gs
proof (induction gs arbitrary: ok w)
  case Nil
  then show ?case unfolding grown_def by auto
next
  case (Cons g gs)
  let ?r = "rs_region g" and ?pt = "wk_pt w"
  have s: "session model c p\<^sub>0 w" and mv: "moved_from ptA ?pt" using Cons.prems(1) unfolding grown_def by blast+
  note same = moved_fromD[OF mv]
  have m: "pt_model ?pt = model" "pt_model ptA = model" using s same(1) by (simp_all add: session_def)
  have r: "?r \<notin> ok" using Cons.prems(4) by auto
  then have pool: "pool_of ctx ?pt ?r = pool_of ctx ptA ?r" using Cons.prems(1) unfolding grown_def by blast
  have gm: "g \<in> set (growth (held_shares ptA) target)" using Cons.prems(3) by simp
  note tr = growth_member[OF target(1) gm]
  have fit: "share_of target ?r \<le> u32_max" by (rule target_fits[OF target(2)])
  have rest: "\<exists>res w'. grow_each ctx now target sh start gs v = (res, w') \<and> session model c p\<^sub>0 w' \<and> moved_from ptA (wk_pt w')
        \<and> (res = Inr () \<longrightarrow> grown ctx model c cn p\<^sub>0 pA ptA target (ok \<union> rs_region ` set (g # gs)) w')"
    if "grown ctx model c cn p\<^sub>0 pA ptA target (insert ?r ok) v" for v
    using Cons.IH[OF that] Cons.prems(2-4) by auto
  from work_reserve_cases[OF s good(1), of "pt_model ?pt" "pt_tier ?pt" "[growth_claim ctx ?pt g]" sh start]
  show ?case
  proof cases
    case (2 shs w1)
    from 2(5) obtain q where q: "shs = [\<lparr>ps_region = ?r, ps_pool = q, ps_cus = rs_cus g\<rparr>]"
      "cl_pool (growth_claim ctx ?pt g) = None \<or> cl_pool (growth_claim ctx ?pt g) = Some q"
      unfolding growth_claim_def by (rule answers_single) simp
    have pin: "pool_of ctx ptA ?r = Some q" if "?r \<in> rs_region ` set (held_shares ptA)"
      using that q(2) A(2) pool same(3) unfolding seated_def growth_claim_def by auto
    let ?v = "w1\<lparr>wk_pt := record_placements shs ?pt\<rparr>"
    have "grown ctx model c cn p\<^sub>0 pA ptA target (insert ?r ok) ?v"
    proof (rule grown_insert[OF Cons.prems(1) r, where q' = q])
      show "session model c p\<^sub>0 ?v" by (rule session_pt[OF 2(2)]) (simp add: m)
      show "moved_from ptA (wk_pt ?v)" using moved_from_step(1)[OF mv] by simp
      show "pool_of ctx (wk_pt ?v) ?r = Some q" using pool_of_record(1)[of shs "hd shs" ctx ?pt] by (simp add: q(1))
      show "pool_of ctx (wk_pt ?v) x = pool_of ctx ?pt x" if "x \<noteq> ?r" for x
        using pool_of_record(2)[of shs x ctx ?pt] that by (simp add: q(1))
      show "seat p\<^sub>0 model cn (pt_tier ptA) (?r, q)"
        using 2(6) seat_ceiling[OF _ cn] m same(2) by (simp add: q(1) share_key_def)
      show "planner_reserved (wk_planner ?v) key + (if fst key = ?r then hold_at ctx p\<^sub>0 ptA (share_of (held_shares ptA)) key else 0)
          = planner_reserved (wk_planner w) key + charge (?r, q) (share_cost p\<^sub>0 (pt_tier ptA) ?r q (share_of target ?r)) key" for key
        using 2(7)[of key] grow_balance[OF good(2) tr(1) fit pin, of key] same(2) by (simp add: q(1) shares_cost_single)
    qed
    from rest[OF this] show ?thesis using 2(1) by (simp add: claims_for_single Let_def)
  next
    case (1 e)
    show ?thesis
    proof (cases "capacity_unavailable e \<and> cl_pool (growth_claim ctx ?pt g) \<noteq> None")
      case False
      then show ?thesis using 1 s mv by (auto simp: claims_for_single)
    next
      case True
      then have held: "?r \<in> rs_region ` set (held_shares ?pt)" by (auto simp: growth_claim_def split: if_splits)
      with A(2) same(3) obtain q where q: "pool_of ctx ptA ?r = Some q" "seat p\<^sub>0 model c (pt_tier ptA) (?r, q)"
        unfolding seated_def using m(2) by auto
      let ?n = "share_cost p\<^sub>0 (pt_tier ptA) ?r q (share_of (held_shares ptA) ?r)"
      have H: "hold_at ctx p\<^sub>0 ptA (share_of (held_shares ptA)) (?r, y) = charge (?r, q) ?n (?r, y)" for y
        using q(1) by (simp add: hold_at_def charge_def)
      have "?n \<le> planner_reserved pA (?r, q)"
        using A(3) H[of q] hold_cost_at[OF A(1), of ctx p\<^sub>0 "(?r, q)"] unfolding backed_def by (metis charge_def)
      moreover have "planner_reserved (wk_planner w) (?r, q) = planner_reserved pA (?r, q)"
      proof -
        have "hold_at ctx p\<^sub>0 ?pt (\<lambda>r. if r \<in> ok then share_of target r else share_of (held_shares ptA) r) (?r, q)
            = hold_at ctx p\<^sub>0 ptA (share_of (held_shares ptA)) (?r, q)"
          using pool r same(2) by (simp add: hold_at_def)
        then show ?thesis using Cons.prems(1) unfolding grown_def by (metis add_right_cancel)
      qed
      ultimately have le: "?n \<le> planner_reserved (wk_planner w) (?r, q)" by simp
      have sized: "(case find (\<lambda>t. rs_region t = ?r) target of None \<Rightarrow> rs_cus g | Some t \<Rightarrow> rs_cus t) = share_of target ?r"
        using tr(2) by (auto simp: share_of_def)
      have pre: "distinct (map rs_region (held_shares ?pt))" "pool_of ctx ?pt ?r = Some q"
        "seat p\<^sub>0 model c (pt_tier ?pt) (?r, q)"
        "?n = share_cost p\<^sub>0 (pt_tier ?pt) ?r q (share_of (held_shares ?pt) ?r)"
        using A(1) same(2,3) q pool by simp_all
      from relocate_effect[OF s good(1) pre(1) held pre(2-4) le, of now "share_of target ?r" None sh start]
      show ?thesis
      proof cases
        case (1 e')
        then show ?thesis
          using \<open>work_reserve _ _ _ _ _ w = (Inl e, w)\<close> True s mv
          by (auto simp: claims_for_single Let_def and_then_def sized)
      next
        case (2 q' v)
        have "grown ctx model c cn p\<^sub>0 pA ptA target (insert ?r ok) v"
        proof (rule grown_insert[OF Cons.prems(1) r 2(2), where q' = q'])
          show "moved_from ptA (wk_pt v)" using moved_from_step[OF moved_from_step(1)[OF mv]] by (simp add: 2(3))
          show "pool_of ctx (wk_pt v) ?r = Some q'"
            using pool_of_record(1)[of "[\<lparr>ps_region = ?r, ps_pool = q', ps_cus = share_of target ?r\<rparr>]"
                "\<lparr>ps_region = ?r, ps_pool = q', ps_cus = share_of target ?r\<rparr>" ctx ?pt] by (simp add: 2(3))
          show "pool_of ctx (wk_pt v) x = pool_of ctx ?pt x" if "x \<noteq> ?r" for x
            using that pool_of_record(2)[of "[\<lparr>ps_region = ?r, ps_pool = q', ps_cus = share_of target ?r\<rparr>]" x ctx ?pt]
            by (simp add: 2(3))
          show "seat p\<^sub>0 model cn (pt_tier ptA) (?r, q')" using seat_ceiling[OF 2(4) cn] same(2) by simp
          show "planner_reserved (wk_planner v) key + (if fst key = ?r then hold_at ctx p\<^sub>0 ptA (share_of (held_shares ptA)) key else 0)
              = planner_reserved (wk_planner w) key + charge (?r, q') (share_cost p\<^sub>0 (pt_tier ptA) ?r q' (share_of target ?r)) key" for key
            using 2(6)[of key] H[of "snd key"] same(2) by (cases key) (auto simp: charge_def split: if_splits)
        qed
        from rest[OF this] show ?thesis
          using \<open>work_reserve _ _ _ _ _ w = (Inl e, w)\<close> True 2(1)
          by (simp add: claims_for_single Let_def and_then_def sized)
      qed
    qed
  qed
qed

text \<open>After every region has grown, what is left to give back.\<close>

lemma grown_shrink:
  assumes narrow: "narrow_costs p\<^sub>0"
    and A: "distinct (map rs_region (held_shares ptA))" "backed ctx p\<^sub>0 pA ptA" "\<forall>s\<in>set (held_shares ptA). rs_cus s \<le> u32_max"
    and target: "distinct (map rs_region target)"
    and gr: "grown ctx model c cn p\<^sub>0 pA ptA target (rs_region ` set (growth (held_shares ptA) target)) w"
  defines "diff \<equiv> \<lambda>r. share_of (held_shares ptA) r - share_of target r"
  shows "hold_at ctx p\<^sub>0 (wk_pt w) diff key \<le> planner_reserved (wk_planner w) key"
    "planner_reserved (wk_planner w) key + hold_at ctx p\<^sub>0 ptA (share_of (held_shares ptA)) key
       = planner_reserved pA key + hold_at ctx p\<^sub>0 (wk_pt w) (share_of target) key + hold_at ctx p\<^sub>0 (wk_pt w) diff key"
proof -
  let ?G = "rs_region ` set (growth (held_shares ptA) target)" and ?b = "share_of (held_shares ptA)"
  obtain r q where key: "key = (r, q)" by (cases key)
  have t: "pt_tier (wk_pt w) = pt_tier ptA" using gr moved_fromD(2) unfolding grown_def by blast
  have eq: "planner_reserved (wk_planner w) (r, q) + hold_at ctx p\<^sub>0 ptA ?b (r, q)
      = planner_reserved pA (r, q) + hold_at ctx p\<^sub>0 (wk_pt w) (\<lambda>r. if r \<in> ?G then share_of target r else ?b r) (r, q)"
    using gr unfolding grown_def by blast
  have le: "hold_at ctx p\<^sub>0 ptA ?b (r, q) \<le> planner_reserved pA (r, q)"
    using A(2) hold_cost_at[OF A(1), of ctx p\<^sub>0 "(r, q)"] unfolding backed_def by metis
  have "hold_at ctx p\<^sub>0 (wk_pt w) diff (r, q) \<le> planner_reserved (wk_planner w) (r, q)
    \<and> planner_reserved (wk_planner w) (r, q) + hold_at ctx p\<^sub>0 ptA ?b (r, q)
      = planner_reserved pA (r, q) + hold_at ctx p\<^sub>0 (wk_pt w) (share_of target) (r, q) + hold_at ctx p\<^sub>0 (wk_pt w) diff (r, q)"
  proof (cases "r \<in> ?G")
    case True
    then obtain g where "g \<in> set (growth (held_shares ptA) target)" "r = rs_region g" by blast
    then have "diff r = 0" using growth_member(1)[OF target] by (simp add: diff_def)
    then have "hold_at ctx p\<^sub>0 (wk_pt w) diff (r, q) = 0" by (simp add: hold_at_def)
    then show ?thesis using eq True by (simp add: hold_at_def)
  next
    case False
    then have "share_of (growth (held_shares ptA) target) r = 0" by (rule share_of_absent)
    then have sum: "?b r = share_of target r + diff r" using share_of_growth[OF target, of "held_shares ptA" r] by (simp add: diff_def)
    have pool: "pool_of ctx (wk_pt w) r = pool_of ctx ptA r" using gr False unfolding grown_def by blast
    have "share_cost p\<^sub>0 (pt_tier ptA) r q (?b r)
        = share_cost p\<^sub>0 (pt_tier ptA) r q (share_of target r) + share_cost p\<^sub>0 (pt_tier ptA) r q (diff r)"
      unfolding sum by (rule share_cost_add[OF narrow]) (use target_fits[OF A(3), of r] sum in simp)
    then have "hold_at ctx p\<^sub>0 ptA ?b (r, q)
        = hold_at ctx p\<^sub>0 (wk_pt w) (share_of target) (r, q) + hold_at ctx p\<^sub>0 (wk_pt w) diff (r, q)"
      using pool t by (simp add: hold_at_def)
    moreover have "hold_at ctx p\<^sub>0 (wk_pt w) (\<lambda>r. if r \<in> ?G then share_of target r else ?b r) (r, q) = hold_at ctx p\<^sub>0 ptA ?b (r, q)"
      using pool t False by (simp add: hold_at_def)
    ultimately show ?thesis using eq le by simp
  qed
  then show "hold_at ctx p\<^sub>0 (wk_pt w) diff key \<le> planner_reserved (wk_planner w) key"
    "planner_reserved (wk_planner w) key + hold_at ctx p\<^sub>0 ptA ?b key
       = planner_reserved pA key + hold_at ctx p\<^sub>0 (wk_pt w) (share_of target) key + hold_at ctx p\<^sub>0 (wk_pt w) diff key"
    unfolding key by simp_all
qed

text \<open>A move ends with the target held on pools that serve it, or leaves only recorded calls.\<close>

definition moved_to ::
  "service_ctx \<Rightarrow> string \<Rightarrow> nat \<Rightarrow> memory_planner \<Rightarrow> work \<Rightarrow> region_share list \<Rightarrow> work \<Rightarrow> bool" where
  "moved_to ctx model cn p\<^sub>0 w target w' \<longleftrightarrow>
     (\<forall>key. planner_reserved (wk_planner w') key + hold_cost ctx p\<^sub>0 (wk_pt w) key
        = planner_reserved (wk_planner w) key + hold_at ctx p\<^sub>0 (wk_pt w') (share_of target) key)
     \<and> (\<forall>r\<in>rs_region ` set target. \<exists>q. pool_of ctx (wk_pt w') r = Some q \<and> seat p\<^sub>0 model cn (pt_tier (wk_pt w)) (r, q))"

lemma grown_seats:
  assumes "seated ctx p\<^sub>0 c ptA" and "cn \<le> c" and "distinct (map rs_region target)" and "\<forall>s\<in>set target. 1 \<le> rs_cus s"
    and gr: "grown ctx model c cn p\<^sub>0 pA ptA target (rs_region ` set (growth (held_shares ptA) target)) w"
    and "pt_model ptA = model" and "r \<in> rs_region ` set target"
  shows "\<exists>q. pool_of ctx (wk_pt w) r = Some q \<and> seat p\<^sub>0 model cn (pt_tier ptA) (r, q)"
proof (cases "r \<in> rs_region ` set (growth (held_shares ptA) target)")
  case True
  then show ?thesis using gr unfolding grown_def by blast
next
  case False
  have "1 \<le> share_of target r" using assms(3,4,7) share_of_in[OF assms(3)] by auto
  moreover have "share_of target r - share_of (held_shares ptA) r = 0"
    using False share_of_growth[OF assms(3), of "held_shares ptA" r] share_of_absent[of r "growth (held_shares ptA) target"] by simp
  ultimately have "share_of (held_shares ptA) r \<noteq> 0" by simp
  then have "r \<in> rs_region ` set (held_shares ptA)"
    using share_of_absent[of r "held_shares ptA"] by (cases "r \<in> rs_region ` set (held_shares ptA)") simp_all
  then obtain q where "pool_of ctx ptA r = Some q" "seat p\<^sub>0 model c (pt_tier ptA) (r, q)"
    using assms(1,6) unfolding seated_def by blast
  moreover have "pool_of ctx (wk_pt w) r = pool_of ctx ptA r" using gr False unfolding grown_def by blast
  ultimately show ?thesis using seat_ceiling[OF _ assms(2)] by auto
qed

lemma move_capacity_moves:
  assumes good: "plan_good tmax p\<^sub>0" "narrow_costs p\<^sub>0" and s: "session model c p\<^sub>0 w"
    and A: "distinct (map rs_region (held_shares (wk_pt w)))" "seated ctx p\<^sub>0 c (wk_pt w)" "backed ctx p\<^sub>0 (wk_planner w) (wk_pt w)"
      "\<forall>s\<in>set (held_shares (wk_pt w)). rs_cus s \<le> u32_max"
    and target: "distinct (map rs_region target)" "\<forall>s\<in>set target. 1 \<le> rs_cus s \<and> rs_cus s \<le> u32_max"
    and cn: "cn \<le> c" "cn \<le> context_ceiling sh"
  shows "\<exists>res w'. move_capacity ctx now target sh w = (res, w') \<and> session model c p\<^sub>0 w' \<and> moved_from (wk_pt w) (wk_pt w')
           \<and> (res = Inr () \<longrightarrow> moved_to ctx model cn p\<^sub>0 w target w')"
proof -
  let ?A = "wk_pt w" and ?b = "held_shares (wk_pt w)"
  let ?start = "max (pt_term_start ?A) now"
  have m: "pt_model ?A = model" using s by (simp add: session_def)
  have fits: "\<forall>s\<in>set target. rs_cus s \<le> u32_max" "\<forall>s\<in>set target. 1 \<le> rs_cus s" using target(2) by simp_all
  have "\<exists>res w1. grow_each ctx now target sh ?start (growth ?b target) w = (res, w1) \<and> session model c p\<^sub>0 w1
      \<and> moved_from ?A (wk_pt w1)
      \<and> (res = Inr () \<longrightarrow> grown ctx model c cn p\<^sub>0 (wk_planner w) ?A target ({} \<union> rs_region ` set (growth ?b target)) w1)"
    by (rule grow_each_grown[OF good A(1-3) target(1) fits(1) cn(2) grown_start[OF s]])
      (simp_all add: growth_distinct[OF target(1)])
  then obtain res w1 where w1: "grow_each ctx now target sh ?start (growth ?b target) w = (res, w1)"
    "session model c p\<^sub>0 w1" "moved_from ?A (wk_pt w1)"
    "res = Inr () \<Longrightarrow> grown ctx model c cn p\<^sub>0 (wk_planner w) ?A target (rs_region ` set (growth ?b target)) w1" by auto
  show ?thesis
  proof (cases res)
    case (Inl e)
    then show ?thesis using w1 by (auto simp: move_capacity_def Let_def and_then_def)
  next
    case (Inr u)
    then have gr: "grown ctx model c cn p\<^sub>0 (wk_planner w) ?A target (rs_region ` set (growth ?b target)) w1" using w1(4) by simp
    note same = moved_fromD[OF w1(3)]
    let ?shrink = "on_pools ctx (wk_pt w1) (growth target ?b)"
    let ?diff = "\<lambda>r. share_of ?b r - share_of target r"
    have cost: "shares_cost (planner_cost p\<^sub>0) (pt_tier (wk_pt w1)) ?shrink key = hold_at ctx p\<^sub>0 (wk_pt w1) ?diff key" for key
      using on_pools_cost[OF growth_distinct[OF A(1)], of p\<^sub>0 "wk_pt w1" ctx target key] share_of_growth[OF A(1), of target]
      by (simp add: hold_at_def)
    note sh1 = grown_shrink[OF good(2) A(1,3,4) target(1) gr]
    have seats: "\<forall>s\<in>set ?shrink. seat p\<^sub>0 model c (pt_tier (wk_pt w1)) (share_key s)"
    proof
      fix s assume "s \<in> set ?shrink"
      then obtain d where d: "d \<in> set (growth target ?b)" "pool_of ctx (wk_pt w1) (rs_region d) = Some (ps_pool s)"
        "ps_region s = rs_region d" by (auto simp: set_on_pools)
      let ?r = "rs_region d"
      have held: "?r \<in> rs_region ` set ?b" using d(1) growth_regions[of target ?b] by blast
      have "share_of (growth target ?b) ?r = rs_cus d" by (rule share_of_in[OF growth_distinct[OF A(1)] d(1)])
      moreover have "0 < rs_cus d" using d(1) by (auto simp: growth_def List.map_filter_def Let_def split: if_splits)
      ultimately have "share_of target ?r < share_of ?b ?r" using share_of_growth[OF A(1), of target ?r] by simp
      then have "?r \<notin> rs_region ` set (growth ?b target)" using growth_member(1)[OF target(1)] by fastforce
      then have "pool_of ctx (wk_pt w1) ?r = pool_of ctx ?A ?r" using gr unfolding grown_def by blast
      then show "seat p\<^sub>0 model c (pt_tier (wk_pt w1)) (share_key s)"
        using A(2) held d m same(2) unfolding seated_def share_key_def by auto
    qed
    have le: "shares_cost (planner_cost p\<^sub>0) (pt_tier (wk_pt w1)) ?shrink key \<le> planner_reserved (wk_planner w1) key" for key
      using sh1(1)[of key] by (simp add: cost)
    let ?w2 = "if ?shrink = [] then w1 else work_release (pt_tier (wk_pt w1)) ?shrink w1"
    note rel = work_release_session[OF w1(2) good(1) seats le]
    have w2: "session model c p\<^sub>0 ?w2" "wk_pt ?w2 = wk_pt w1" using rel(1,2) w1(2) by simp_all
    have left: "planner_reserved (wk_planner ?w2) key + hold_at ctx p\<^sub>0 (wk_pt w1) ?diff key
        = planner_reserved (wk_planner w1) key" for key
    proof (cases "?shrink = []")
      case True
      then show ?thesis using cost[of key] by simp
    next
      case False
      then show ?thesis using rel(3)[of key] unfolding cost by simp
    qed
    have "moved_to ctx model cn p\<^sub>0 w target ?w2"
      unfolding moved_to_def
    proof (intro conjI allI ballI)
      show "planner_reserved (wk_planner ?w2) key + hold_cost ctx p\<^sub>0 ?A key
          = planner_reserved (wk_planner w) key + hold_at ctx p\<^sub>0 (wk_pt ?w2) (share_of target) key" for key
        using left[of key] sh1(2)[of key] hold_cost_at[OF A(1), of ctx p\<^sub>0 key] unfolding w2(2) by linarith
      show "\<exists>q. pool_of ctx (wk_pt ?w2) r = Some q \<and> seat p\<^sub>0 model cn (pt_tier ?A) (r, q)" if "r \<in> rs_region ` set target" for r
        unfolding w2(2) by (rule grown_seats[OF A(2) cn(1) target(1) fits(2) gr m that])
    qed
    moreover have "move_capacity ctx now target sh w = (Inr (), ?w2)"
      using w1(1) Inr by (simp add: move_capacity_def Let_def and_then_def)
    ultimately show ?thesis using w2(1,2) w1(3) by metis
  qed
qed

end
