(* ===== verification/Requests.thy ===== *)
theory Requests
  imports Accounts
begin

text \<open>
  The requests of the service keep the capacity accounts. A request's work is followed step by
  step: every step keeps what is reserved in balance with what the reservation holds, and a
  step that fails leaves only recorded calls, which \<open>undo\<close> takes back.
\<close>

declare split_paired_All [simp del] split_paired_Ex [simp del]

section \<open>Well-formed reservations\<close>

text \<open>A split whose footprint, failover headroom included, has positive 32-bit shares.\<close>

definition split_ok :: "service_ctx \<Rightarrow> sku \<Rightarrow> region_share list \<Rightarrow> bool" where
  "split_ok ctx sk regions \<longleftrightarrow> distinct (map rs_region regions)
     \<and> (\<forall>s\<in>set (footprint regions (svc_headroom ctx sk regions)). 1 \<le> rs_cus s \<and> rs_cus s \<le> u32_max)"

definition pending_ok :: "service_ctx \<Rightarrow> provisioned_throughput \<Rightarrow> bool" where
  "pending_ok ctx pt \<longleftrightarrow> (\<forall>new. Option.bind (pt_pending_changes pt) pc_regions = Some new \<longrightarrow> split_ok ctx (pt_sku pt) new)"

definition shares_ok :: "service_ctx \<Rightarrow> provisioned_throughput \<Rightarrow> bool" where
  "shares_ok ctx pt \<longleftrightarrow> split_ok ctx (pt_sku pt) (pt_regions pt) \<and> pending_ok ctx pt
     \<and> distinct (map rs_region (held_shares pt)) \<and> (\<forall>s\<in>set (held_shares pt). rs_cus s \<le> u32_max)"

definition reservation_ok :: "service_ctx \<Rightarrow> memory_planner \<Rightarrow> provisioned_throughput \<Rightarrow> bool" where
  "reservation_ok ctx p pt \<longleftrightarrow> shares_ok ctx pt \<and> seated ctx p (context_ceiling (pt_shape pt)) pt"

lemma headroom_put_pos:
  "\<forall>r\<in>set rs. 1 \<le> rs_cus r \<Longrightarrow> 1 \<le> n \<Longrightarrow> \<forall>r\<in>set (headroom_put to n rs). 1 \<le> rs_cus r"
  by (induction rs) (auto simp: le_max_iff_disj)

lemma headroom_pos:
  assumes "\<forall>r\<in>set regions. 1 \<le> rs_cus r"
  shows "\<forall>h\<in>set (headroom config sk regions). 1 \<le> rs_cus h"
proof -
  have pos: "1 \<le> share_of regions fr" if "fr \<in> rs_region ` set regions" for fr
    using that assms by (induction regions) (auto simp: share_of_Cons)
  have fold: "\<forall>h\<in>set (foldl (\<lambda>out (from, to). headroom_put to (share_of regions from) out) out ts). 1 \<le> rs_cus h"
    if "\<forall>(fr, to)\<in>set ts. fr \<in> rs_region ` set regions" "\<forall>h\<in>set out. 1 \<le> rs_cus h" for ts out
    using that
  proof (induction ts arbitrary: out)
    case (Cons x ts)
    obtain fr to where x: "x = (fr, to)" by (cases x)
    have "\<forall>h\<in>set (headroom_put to (share_of regions fr) out). 1 \<le> rs_cus h"
      using Cons.prems x pos by (intro headroom_put_pos) auto
    then show ?case using Cons x by simp
  qed simp
  have "\<forall>(fr, to)\<in>set (failover_targets config regions). fr \<in> rs_region ` set regions"
    by (auto simp: failover_targets_def set_map_filter)
  from fold[OF this, of "[]"] show ?thesis by (simp add: headroom_def)
qed

lemma footprint_pos:
  assumes "\<forall>r\<in>set rs. 1 \<le> rs_cus r" and "\<forall>h\<in>set hs. 1 \<le> rs_cus h"
  shows "\<forall>s\<in>set (footprint rs hs). 1 \<le> rs_cus s"
proof -
  have put: "\<forall>s\<in>set (footprint_put h rs). 1 \<le> rs_cus s" if "\<forall>r\<in>set rs. 1 \<le> rs_cus r" "1 \<le> rs_cus h" for h rs
    using that by (induction rs) auto
  show ?thesis
    using assms unfolding footprint_def
  proof (induction hs arbitrary: rs)
    case (Cons h hs)
    have "\<forall>s\<in>set (footprint_put h rs). 1 \<le> rs_cus s" by (rule put) (use Cons.prems in simp_all)
    moreover have "\<forall>h\<in>set hs. 1 \<le> rs_cus h" using Cons.prems(2) by simp
    ultimately show ?case unfolding foldl_Cons by (rule Cons.IH)
  qed simp
qed

text \<open>Requested shares that stay below 32 bits with their headroom.\<close>

definition fits_u32 :: "service_ctx \<Rightarrow> sku \<Rightarrow> region_share list \<Rightarrow> bool" where
  "fits_u32 ctx sk regions \<longleftrightarrow> (\<forall>s\<in>set (footprint regions (svc_headroom ctx sk regions)). rs_cus s \<le> u32_max)"

lemma validated_split_ok:
  assumes "validate_regions config model sk rs = Inr ()" and "fits_u32 ctx sk rs"
  shows "split_ok ctx sk rs"
proof -
  note v = validate_regions_Inr[OF assms(1)]
  show ?thesis
    using v(3) assms(2) footprint_pos[OF v(4) headroom_pos[OF v(4)], of "sc_regions (cx_config ctx)" sk]
    by (simp add: split_ok_def fits_u32_def svc_headroom_def)
qed

lemma split_ok_footprint:
  assumes "split_ok ctx sk rs"
  shows "distinct (map rs_region (footprint rs (svc_headroom ctx sk rs)))"
    "\<forall>s\<in>set (footprint rs (svc_headroom ctx sk rs)). 1 \<le> rs_cus s \<and> rs_cus s \<le> u32_max"
  using assms footprint_distinct(1) by (simp_all add: split_ok_def)

section \<open>Steps that keep the balance\<close>

text \<open>
  A request on the reservation \<open>a\<close> that started from the planner \<open>p\<^sub>0\<close>: its calls can be
  undone, what is reserved differs from the start by what the reservation now holds, and its
  pools serve contexts up to \<open>cs\<close>.
\<close>

definition balanced :: "service_ctx \<Rightarrow> nat \<Rightarrow> memory_planner \<Rightarrow> provisioned_throughput \<Rightarrow> nat \<Rightarrow> work \<Rightarrow> bool" where
  "balanced ctx c p\<^sub>0 a cs w \<longleftrightarrow> session (pt_model a) c p\<^sub>0 w
     \<and> pt_id (wk_pt w) = pt_id a \<and> pt_version (wk_pt w) = pt_version a \<and> pt_sku (wk_pt w) = pt_sku a
     \<and> is_live (pt_state (wk_pt w)) = is_live (pt_state a)
     \<and> (\<forall>key. planner_reserved (wk_planner w) key + hold_cost ctx p\<^sub>0 a key
          = planner_reserved p\<^sub>0 key + hold_cost ctx p\<^sub>0 (wk_pt w) key)
     \<and> shares_ok ctx (wk_pt w) \<and> seated ctx p\<^sub>0 cs (wk_pt w)"

lemma balancedD:
  assumes "balanced ctx c p\<^sub>0 a cs w"
  shows "session (pt_model a) c p\<^sub>0 w" "pt_model (wk_pt w) = pt_model a" "shares_ok ctx (wk_pt w)" "seated ctx p\<^sub>0 cs (wk_pt w)"
    "pt_id (wk_pt w) = pt_id a" "pt_version (wk_pt w) = pt_version a"
    "distinct (map rs_region (held_shares (wk_pt w)))" "pt_sku (wk_pt w) = pt_sku a"
    "is_live (pt_state (wk_pt w)) = is_live (pt_state a)"
  using assms unfolding balanced_def session_def shares_ok_def by blast+

lemma balanced_backed:
  assumes "balanced ctx c p\<^sub>0 a cs w" and "backed ctx p\<^sub>0 p\<^sub>0 a"
  shows "backed ctx p\<^sub>0 (wk_planner w) (wk_pt w)"
  unfolding backed_def
proof
  fix key
  have "hold_cost ctx p\<^sub>0 a key \<le> planner_reserved p\<^sub>0 key" using assms(2) by (simp add: backed_def)
  moreover have "planner_reserved (wk_planner w) key + hold_cost ctx p\<^sub>0 a key
      = planner_reserved p\<^sub>0 key + hold_cost ctx p\<^sub>0 (wk_pt w) key"
    using assms(1) unfolding balanced_def by blast
  ultimately show "hold_cost ctx p\<^sub>0 (wk_pt w) key \<le> planner_reserved (wk_planner w) key" by linarith
qed

text \<open>Fields that decide what a reservation holds; a change of the others is neutral.\<close>

definition neutral :: "provisioned_throughput \<Rightarrow> provisioned_throughput \<Rightarrow> bool" where
  "neutral a b \<longleftrightarrow> is_live (pt_state b) = is_live (pt_state a) \<and> pt_id b = pt_id a \<and> pt_version b = pt_version a \<and> pt_model b = pt_model a \<and> pt_tier b = pt_tier a
     \<and> pt_sku b = pt_sku a \<and> pt_regions b = pt_regions a \<and> pt_effective_regions b = pt_effective_regions a
     \<and> pt_failover_headroom b = pt_failover_headroom a \<and> pt_placements b = pt_placements a"

lemma neutral_refl [simp]: "neutral a a"
  by (simp add: neutral_def)

lemma neutral_trans: "neutral a b \<Longrightarrow> neutral b d \<Longrightarrow> neutral a d"
  by (simp add: neutral_def)

lemma neutral_push [simp]: "neutral a (push_event u k b) \<longleftrightarrow> neutral a b"
  by (simp add: neutral_def push_event_def)

lemma neutralD:
  assumes "neutral a b"
  shows "held_shares b = held_shares a" "pool_of ctx b = pool_of ctx a" "pooled ctx b = pooled ctx a"
    "hold_cost ctx p b = hold_cost ctx p a" "seated ctx p c b = seated ctx p c a"
proof -
  show h: "held_shares b = held_shares a" using assms by (simp add: neutral_def held_shares_def pt_effective_def)
  show q: "pool_of ctx b = pool_of ctx a" using assms by (intro pool_of_cong) (simp_all add: neutral_def)
  then show po: "pooled ctx b = pooled ctx a" using h by (simp add: pooled_def on_pools_def)
  show "hold_cost ctx p b = hold_cost ctx p a"
    using po assms by (intro ext) (simp add: hold_cost_def neutral_def)
  show "seated ctx p c b = seated ctx p c a" using h q assms by (simp add: seated_def neutral_def)
qed

lemma balanced_neutral:
  assumes "balanced ctx c p\<^sub>0 a cs w" and "neutral (wk_pt w) pt" and "pending_ok ctx pt"
  shows "balanced ctx c p\<^sub>0 a cs (w\<lparr>wk_pt := pt\<rparr>)"
proof -
  note n = neutralD[OF assms(2)]
  have "shares_ok ctx pt"
    using balancedD(3)[OF assms(1)] assms(2,3) n(1) by (simp add: shares_ok_def neutral_def)
  moreover have "session (pt_model a) c p\<^sub>0 (w\<lparr>wk_pt := pt\<rparr>)"
    using assms(1,2) by (intro session_pt) (simp_all add: balanced_def session_def neutral_def)
  ultimately show ?thesis
    using assms(1,2) n unfolding balanced_def by (simp add: neutral_def)
qed

lemma pending_ok_cong:
  "pt_pending_changes b = pt_pending_changes a \<Longrightarrow> pt_sku b = pt_sku a \<Longrightarrow> pending_ok ctx b = pending_ok ctx a"
  by (simp add: pending_ok_def)

lemma balanced_start:
  assumes "plan_good tmax (sv_planner sv)" and "reservation_ok ctx (sv_planner sv) a"
  shows "balanced ctx c (sv_planner sv) a (context_ceiling (pt_shape a)) (start_work sv a)"
  using assms session_start[of a "pt_model a" c sv]
  by (simp add: balanced_def reservation_ok_def start_work_def)

text \<open>A move whose target becomes what the reservation holds.\<close>

lemma moved_to_balanced:
  assumes b: "balanced ctx c p\<^sub>0 a cs w" and s: "session (pt_model a) c p\<^sub>0 w'" and mv: "moved_from (wk_pt w) (wk_pt w')"
    and to: "moved_to ctx (pt_model a) cn p\<^sub>0 w target w'"
    and pt: "held_shares pt = target" "pool_of ctx pt = pool_of ctx (wk_pt w')" "pt_tier pt = pt_tier (wk_pt w')"
      "pt_model pt = pt_model a" "pt_id pt = pt_id a" "pt_version pt = pt_version a" "pt_sku pt = pt_sku a" "shares_ok ctx pt"
      "is_live (pt_state pt) = is_live (pt_state a)"
  shows "balanced ctx c p\<^sub>0 a cn (w'\<lparr>wk_pt := pt\<rparr>)"
proof -
  have t: "pt_tier (wk_pt w') = pt_tier (wk_pt w)" by (rule moved_fromD(2)[OF mv])
  have d: "distinct (map rs_region (held_shares pt))" using pt(8) by (simp add: shares_ok_def)
  have h: "hold_cost ctx p\<^sub>0 pt key = hold_at ctx p\<^sub>0 (wk_pt w') (share_of target) key" for key
    unfolding hold_cost_at[OF d] using pt(1-3) by (simp add: hold_at_def)
  have r1: "planner_reserved (wk_planner w') key + hold_cost ctx p\<^sub>0 (wk_pt w) key
      = planner_reserved (wk_planner w) key + hold_at ctx p\<^sub>0 (wk_pt w') (share_of target) key" for key
    using to unfolding moved_to_def by blast
  have r0: "planner_reserved (wk_planner w) key + hold_cost ctx p\<^sub>0 a key
      = planner_reserved p\<^sub>0 key + hold_cost ctx p\<^sub>0 (wk_pt w) key" for key
    using b unfolding balanced_def by blast
  have "planner_reserved (wk_planner w') key + hold_cost ctx p\<^sub>0 a key
      = planner_reserved p\<^sub>0 key + hold_cost ctx p\<^sub>0 pt key" for key
    using r0[of key] r1[of key] h[of key] by linarith
  moreover have "seated ctx p\<^sub>0 cn pt"
    using to pt(1-4) t unfolding seated_def moved_to_def by simp
  ultimately show ?thesis
    using session_pt[OF s pt(4)] pt(5-9) by (simp add: balanced_def)
qed

section \<open>The steps of an update\<close>

text \<open>
  A step either succeeds in balance (and with \<open>P\<close>), or fails with calls that can be undone; the
  reservation's shape is the one it had or the requested one.
\<close>

definition shape_from :: "update_request \<Rightarrow> provisioned_throughput \<Rightarrow> provisioned_throughput \<Rightarrow> bool" where
  "shape_from req a pt \<longleftrightarrow> pt_shape pt = pt_shape a \<or> up_shape req = Some (pt_shape pt)"

definition step_fine ::
  "service_ctx \<Rightarrow> memory_planner \<Rightarrow> provisioned_throughput \<Rightarrow> update_request \<Rightarrow> nat \<Rightarrow> ('a \<Rightarrow> work \<Rightarrow> bool)
   \<Rightarrow> (service_error + 'a) \<times> work \<Rightarrow> bool" where
  "step_fine ctx p\<^sub>0 a req cs P r \<longleftrightarrow> session (pt_model a) (context_ceiling (pt_shape a)) p\<^sub>0 (snd r)
     \<and> shape_from req a (wk_pt (snd r))
     \<and> (\<forall>x. fst r = Inr x \<longrightarrow> balanced ctx (context_ceiling (pt_shape a)) p\<^sub>0 a cs (snd r) \<and> P x (snd r))"

lemma and_then_fine:
  assumes "step_fine ctx p\<^sub>0 a req cs P r"
    and "\<And>x w. balanced ctx (context_ceiling (pt_shape a)) p\<^sub>0 a cs w \<Longrightarrow> shape_from req a (wk_pt w) \<Longrightarrow> P x w
          \<Longrightarrow> step_fine ctx p\<^sub>0 a req cs' Q (f x w)"
  shows "step_fine ctx p\<^sub>0 a req cs' Q (and_then r f)"
proof -
  obtain res w where r: "r = (res, w)" by (cases r)
  show ?thesis
    using assms r by (cases res) (simp_all add: step_fine_def and_then_def)
qed

lemma step_fine_Inl:
  "session (pt_model a) (context_ceiling (pt_shape a)) p\<^sub>0 w \<Longrightarrow> shape_from req a (wk_pt w) \<Longrightarrow> step_fine ctx p\<^sub>0 a req cs P (Inl e, w)"
  by (simp add: step_fine_def)

lemma step_fine_Inr:
  "balanced ctx (context_ceiling (pt_shape a)) p\<^sub>0 a cs w \<Longrightarrow> shape_from req a (wk_pt w) \<Longrightarrow> P x w
   \<Longrightarrow> step_fine ctx p\<^sub>0 a req cs P (Inr x, w)"
  by (simp add: step_fine_def balancedD(1))

lemma step_fine_mono:
  "step_fine ctx p\<^sub>0 a req cs P r \<Longrightarrow> (\<And>x w. P x w \<Longrightarrow> Q x w) \<Longrightarrow> step_fine ctx p\<^sub>0 a req cs Q r"
  by (simp add: step_fine_def)

lemma seated_le: "seated ctx p c pt \<Longrightarrow> d \<le> c \<Longrightarrow> seated ctx p d pt"
  unfolding seated_def using seat_ceiling by blast

lemma balanced_le: "balanced ctx c p\<^sub>0 a cs w \<Longrightarrow> d \<le> cs \<Longrightarrow> balanced ctx c p\<^sub>0 a d w"
  unfolding balanced_def using seated_le by blast

text \<open>Moving to the footprint of \<open>new\<close>, which then is what the reservation holds.\<close>

lemma move_to_split:
  assumes good: "plan_good tmax p\<^sub>0" "narrow_costs p\<^sub>0" "backed ctx p\<^sub>0 p\<^sub>0 a"
    and b: "balanced ctx (context_ceiling (pt_shape a)) p\<^sub>0 a (context_ceiling (pt_shape a)) w"
    and shape: "pt_shape (wk_pt w) = pt_shape a" and new: "split_ok ctx (pt_sku (wk_pt w)) new"
    and cn: "cn \<le> context_ceiling (pt_shape a)" "cn \<le> context_ceiling sh"
    and hr: "hr = svc_headroom ctx (pt_sku (wk_pt w)) new"
    and finish: "\<And>w'. moved_from (wk_pt w) (wk_pt w') \<Longrightarrow>
        neutral ((wk_pt w')\<lparr>pt_regions := new, pt_effective_regions := [], pt_failover_headroom := hr\<rparr>) (fin w')
        \<and> pt_shape (fin w') = pt_shape a \<and> pending_ok ctx (fin w') \<and> P () (w'\<lparr>wk_pt := fin w'\<rparr>)"
  shows "step_fine ctx p\<^sub>0 a req cn P
    (and_then (move_capacity ctx now (footprint new hr) sh w) (\<lambda>_ w'. (Inr (), w'\<lparr>wk_pt := fin w'\<rparr>)))"
proof -
  let ?t = "footprint new hr"
  have sh: "shares_ok ctx (wk_pt w)" by (rule balancedD(3)[OF b])
  have fit: "\<forall>s\<in>set (held_shares (wk_pt w)). rs_cus s \<le> u32_max" using sh by (simp add: shares_ok_def)
  note t = split_ok_footprint[OF new, folded hr]
  from move_capacity_moves[OF good(1,2) balancedD(1,7,4)[OF b] balanced_backed[OF b good(3)] fit t cn, of now]
  obtain res w' where w': "move_capacity ctx now ?t sh w = (res, w')" "session (pt_model a) (context_ceiling (pt_shape a)) p\<^sub>0 w'"
    "moved_from (wk_pt w) (wk_pt w')" "res = Inr () \<Longrightarrow> moved_to ctx (pt_model a) cn p\<^sub>0 w ?t w'" by blast
  note same = moved_fromD[OF w'(3)]
  note fin = finish[OF w'(3)]
  show ?thesis
  proof (cases res)
    case (Inl e)
    then show ?thesis using w' same(6) shape by (simp add: and_then_def step_fine_def shape_from_def)
  next
    case (Inr u)
    let ?pt = "(wk_pt w')\<lparr>pt_regions := new, pt_effective_regions := [], pt_failover_headroom := hr\<rparr>"
    have to: "moved_to ctx (pt_model a) cn p\<^sub>0 w ?t w'" using Inr w'(4) by simp
    note nd = neutralD[of ?pt "fin w'"]
    have n: "neutral ?pt (fin w')" using fin by blast
    have held: "held_shares (fin w') = ?t" using nd(1)[OF n] by (simp add: held_shares_def pt_effective_def)
    have eqs: "pt_sku (fin w') = pt_sku (wk_pt w)" "pt_regions (fin w') = new" "pt_model (fin w') = pt_model a"
      "pt_tier (fin w') = pt_tier (wk_pt w')" "pt_id (fin w') = pt_id a" "pt_version (fin w') = pt_version a"
      "is_live (pt_state (fin w')) = is_live (pt_state (wk_pt w))"
      using n same balancedD(2,5,6)[OF b] by (simp_all add: neutral_def)
    have pool: "pool_of ctx (fin w') = pool_of ctx (wk_pt w')"
      using nd(2)[OF n, of ctx] pool_of_cong[of ?pt "wk_pt w'" ctx] by simp
    have "shares_ok ctx (fin w')" using fin new t held eqs(1,2) by (simp add: shares_ok_def)
    from moved_to_balanced[OF b w'(2,3) to held pool eqs(4,3,5,6) _ this] eqs(1,7) balancedD(8,9)[OF b]
    have "balanced ctx (context_ceiling (pt_shape a)) p\<^sub>0 a cn (w'\<lparr>wk_pt := fin w'\<rparr>)" by simp
    then have "step_fine ctx p\<^sub>0 a req cn P (Inr (), w'\<lparr>wk_pt := fin w'\<rparr>)"
      by (rule step_fine_Inr) (use fin in \<open>simp_all add: shape_from_def\<close>)
    then show ?thesis using w'(1) Inr by (simp add: and_then_def)
  qed
qed

lemma upd_rebalance_fine:
  assumes good: "plan_good tmax p\<^sub>0" "narrow_costs p\<^sub>0" "backed ctx p\<^sub>0 p\<^sub>0 a"
    and b: "balanced ctx (context_ceiling (pt_shape a)) p\<^sub>0 a (context_ceiling (pt_shape a)) w"
    and shape: "pt_shape (wk_pt w) = pt_shape a"
  shows "step_fine ctx p\<^sub>0 a req (context_ceiling (pt_shape a)) (\<lambda>_ w'. pt_shape (wk_pt w') = pt_shape a) (upd_rebalance ctx now req w)"
proof (cases "\<exists>v. up_rebalance req = Some v \<and> v \<noteq> pt_rebalance (wk_pt w)")
  case False
  then show ?thesis
    using step_fine_Inr[OF b, of req] shape by (auto simp: upd_rebalance_def shape_from_def split: option.split)
next
  case True
  then obtain v where v: "up_rebalance req = Some v" "v \<noteq> pt_rebalance (wk_pt w)" by blast
  define pt where "pt = push_event now (EvRebalanceChanged v) ((wk_pt w)\<lparr>pt_rebalance := v\<rparr>)"
  let ?w = "w\<lparr>wk_pt := pt\<rparr>"
  have pend: "pending_ok ctx (wk_pt w)" using balancedD(3)[OF b] by (simp add: shares_ok_def)
  have sel: "pt_shape pt = pt_shape a" "pt_sku pt = pt_sku (wk_pt w)" "pt_pending_changes pt = pt_pending_changes (wk_pt w)"
    "pt_regions pt = pt_regions (wk_pt w)" "neutral (wk_pt w) pt"
    using shape by (simp_all add: pt_def push_event_def neutral_def)
  have b': "balanced ctx (context_ceiling (pt_shape a)) p\<^sub>0 a (context_ceiling (pt_shape a)) ?w"
    by (rule balanced_neutral[OF b sel(5)]) (use pend pending_ok_cong[OF sel(3,2)] in simp)
  have unf: "upd_rebalance ctx now req w =
     (if \<not> v \<and> pt_effective_regions pt \<noteq> []
      then and_then (move_capacity ctx now (footprint (pt_regions pt) (svc_headroom ctx (pt_sku pt) (pt_regions pt))) (pt_shape pt) ?w)
        (\<lambda>_ w'. (Inr (), w'\<lparr>wk_pt := push_event now (EvSplitRebalanced (pt_effective_regions (wk_pt w')) (pt_regions (wk_pt w')))
             ((wk_pt w')\<lparr>pt_effective_regions := [], pt_failover_headroom := svc_headroom ctx (pt_sku pt) (pt_regions pt)\<rparr>)\<rparr>))
      else (Inr (), ?w))"
    unfolding upd_rebalance_def v(1) pt_def Let_def option.case if_not_P[OF v(2)] ..
  show ?thesis
  proof (cases "\<not> v \<and> pt_effective_regions pt \<noteq> []")
    case False
    show ?thesis
      unfolding unf if_not_P[OF False] by (rule step_fine_Inr[OF b']) (simp_all add: shape_from_def sel(1))
  next
    case True
    let ?hr = "svc_headroom ctx (pt_sku pt) (pt_regions pt)"
    have new: "split_ok ctx (pt_sku (wk_pt ?w)) (pt_regions pt)" using balancedD(3)[OF b'] by (simp add: shares_ok_def)
    have "step_fine ctx p\<^sub>0 a req (context_ceiling (pt_shape a)) (\<lambda>_ w'. pt_shape (wk_pt w') = pt_shape a)
      (and_then (move_capacity ctx now (footprint (pt_regions pt) ?hr) (pt_shape pt) ?w)
        (\<lambda>_ w'. (Inr (), w'\<lparr>wk_pt := push_event now (EvSplitRebalanced (pt_effective_regions (wk_pt w')) (pt_regions (wk_pt w')))
             ((wk_pt w')\<lparr>pt_effective_regions := [], pt_failover_headroom := ?hr\<rparr>)\<rparr>)))"
    proof (rule move_to_split[OF good b' _ new])
      fix w' assume mv: "moved_from (wk_pt ?w) (wk_pt w')"
      note same = moved_fromD[OF mv]
      let ?u = "(wk_pt w')\<lparr>pt_effective_regions := [], pt_failover_headroom := ?hr\<rparr>"
      have "pending_ok ctx ?u" using pend pending_ok_cong[of ?u "wk_pt w" ctx] same sel by simp
      then show "neutral ((wk_pt w')\<lparr>pt_regions := pt_regions pt, pt_effective_regions := [], pt_failover_headroom := ?hr\<rparr>)
            (push_event now (EvSplitRebalanced (pt_effective_regions (wk_pt w')) (pt_regions (wk_pt w'))) ?u)
        \<and> pt_shape (push_event now (EvSplitRebalanced (pt_effective_regions (wk_pt w')) (pt_regions (wk_pt w'))) ?u) = pt_shape a
        \<and> pending_ok ctx (push_event now (EvSplitRebalanced (pt_effective_regions (wk_pt w')) (pt_regions (wk_pt w'))) ?u)
        \<and> pt_shape (wk_pt (w'\<lparr>wk_pt := push_event now (EvSplitRebalanced (pt_effective_regions (wk_pt w')) (pt_regions (wk_pt w'))) ?u\<rparr>)) = pt_shape a"
        using same sel by (simp add: neutral_def push_event_def pending_ok_def)
    qed (use sel in simp_all)
    then show ?thesis unfolding unf using True by simp
  qed
qed

section \<open>Giving everything back and reserving anew\<close>

lemma answers_as_claims: "list_all2 answers (as_claims xs) ys \<Longrightarrow> ys = xs"
proof (induction xs arbitrary: ys)
  case Nil
  then show ?case by (simp add: as_claims_def)
next
  case (Cons x xs)
  let ?c = "\<lparr>cl_region = ps_region x, cl_pool = Some (ps_pool x), cl_cus = ps_cus x\<rparr>"
  from Cons.prems have "list_all2 answers (?c # as_claims xs) ys" by (simp add: as_claims_def)
  then obtain y zs where y: "ys = y # zs" "answers ?c y" "list_all2 answers (as_claims xs) zs"
    by (auto simp: list_all2_Cons1)
  have "y = x" using y(2) by (cases x; cases y) (simp add: answers_def)
  then show ?case using y(1) Cons.IH[OF y(3)] by simp
qed

lemma answers_regions:
  "list_all2 answers (map (growth_claim ctx pt) ss) placed \<Longrightarrow>
   map ps_region placed = map rs_region ss \<and> map ps_cus placed = map rs_cus ss"
proof (induction ss arbitrary: placed)
  case (Cons s ss)
  then obtain y zs where y: "placed = y # zs" "answers (growth_claim ctx pt s) y" "list_all2 answers (map (growth_claim ctx pt) ss) zs"
    by (auto simp: list_all2_Cons1)
  from y(2) have "ps_region y = rs_region s" "ps_cus y = rs_cus s" by (simp_all add: answers_def growth_claim_def)
  then show ?case using y(1) Cons.IH[OF y(3)] by simp
qed simp

lemma on_pools_placed:
  assumes "map ps_region placed = map rs_region ss" and "map ps_cus placed = map rs_cus ss"
    and "\<And>s. s \<in> set placed \<Longrightarrow> pool_of ctx pt (ps_region s) = Some (ps_pool s)"
  shows "on_pools ctx pt ss = placed"
  using assms
proof (induction ss arbitrary: placed)
  case (Cons s ss)
  then obtain y zs where y: "placed = y # zs" "ps_region y = rs_region s" "ps_cus y = rs_cus s"
    "map ps_region zs = map rs_region ss" "map ps_cus zs = map rs_cus ss"
    by (cases placed) auto
  have "on_pools ctx pt ss = zs" using y Cons.prems(3) by (intro Cons.IH) simp_all
  moreover have "pool_of ctx pt (rs_region s) = Some (ps_pool y)" using Cons.prems(3)[of y] y by simp
  moreover have "\<lparr>ps_region = rs_region s, ps_pool = ps_pool y, ps_cus = rs_cus s\<rparr> = y" using y(2,3) by (cases y) simp
  ultimately show ?case using y(1) by (simp add: on_pools_Cons)
qed simp

lemma pooled_seats:
  assumes "seated ctx p\<^sub>0 c pt" and "s \<in> set (pooled ctx pt)"
  shows "seat p\<^sub>0 (pt_model pt) c (pt_tier pt) (share_key s)"
  using assms unfolding seated_def pooled_def set_on_pools by (force simp: share_key_def)

lemma exchange_cases:
  assumes good: "plan_good tmax p\<^sub>0" "backed ctx p\<^sub>0 p\<^sub>0 a" and b: "balanced ctx c p\<^sub>0 a c w"
  defines "w1 \<equiv> work_release (pt_tier (wk_pt w)) (pooled ctx (wk_pt w)) w"
  obtains e where "work_reserve (pt_model (wk_pt w)) t cs sh start w1 = (Inl e, w1)" "session (pt_model a) c p\<^sub>0 w1" "wk_pt w1 = wk_pt w"
  | placed w2 where "work_reserve (pt_model (wk_pt w)) t cs sh start w1 = (Inr placed, w2)" "session (pt_model a) c p\<^sub>0 w2"
      "wk_pt w2 = wk_pt w" "list_all2 answers cs placed"
      "\<forall>s\<in>set placed. seat p\<^sub>0 (pt_model a) (context_ceiling sh) t (share_key s)"
      "\<And>key. planner_reserved (wk_planner w2) key + hold_cost ctx p\<^sub>0 a key
         = planner_reserved p\<^sub>0 key + shares_cost (planner_cost p\<^sub>0) t placed key"
proof -
  let ?pt = "wk_pt w"
  have m: "pt_model ?pt = pt_model a" by (rule balancedD(2)[OF b])
  have seats: "\<forall>s\<in>set (pooled ctx ?pt). seat p\<^sub>0 (pt_model a) c (pt_tier ?pt) (share_key s)"
    using pooled_seats[OF balancedD(4)[OF b]] m by simp
  have le: "shares_cost (planner_cost p\<^sub>0) (pt_tier ?pt) (pooled ctx ?pt) key \<le> planner_reserved (wk_planner w) key" for key
    using balanced_backed[OF b good(2)] by (simp add: backed_def hold_cost_def)
  note rel = work_release_session[OF balancedD(1)[OF b] good(1) seats le, folded w1_def]
  from work_reserve_cases[OF rel(1) good(1), of "pt_model ?pt" t cs sh start] show thesis
  proof cases
    case (1 e)
    then show thesis using that(1) rel(1,2) by blast
  next
    case (2 placed w2)
    have "planner_reserved (wk_planner w2) key + hold_cost ctx p\<^sub>0 a key
        = planner_reserved p\<^sub>0 key + shares_cost (planner_cost p\<^sub>0) t placed key" for key
    proof -
      have "planner_reserved (wk_planner w) key + hold_cost ctx p\<^sub>0 a key
          = planner_reserved p\<^sub>0 key + hold_cost ctx p\<^sub>0 ?pt key"
        using b unfolding balanced_def by blast
      then show ?thesis using 2(7)[of key] rel(3)[of key] by (simp add: hold_cost_def)
    qed
    then show thesis
      by (intro that(2)[OF 2(1,2) _ 2(5)]) (use 2(3,6) rel(2) m in simp_all)
  qed
qed

text \<open>The same shares at another tier.\<close>

lemma retier_balanced:
  assumes b: "balanced ctx c p\<^sub>0 a c w" and s: "session (pt_model a) c p\<^sub>0 w2" and "wk_pt w2 = wk_pt w"
    and seats: "\<forall>s\<in>set (pooled ctx (wk_pt w)). seat p\<^sub>0 (pt_model a) d t (share_key s)"
    and bal: "\<And>key. planner_reserved (wk_planner w2) key + hold_cost ctx p\<^sub>0 a key
         = planner_reserved p\<^sub>0 key + shares_cost (planner_cost p\<^sub>0) t (pooled ctx (wk_pt w)) key"
  shows "balanced ctx c p\<^sub>0 a c (w2\<lparr>wk_pt := (wk_pt w)\<lparr>pt_tier := t\<rparr>\<rparr>)"
proof -
  let ?pt = "(wk_pt w)\<lparr>pt_tier := t\<rparr>"
  have h: "held_shares ?pt = held_shares (wk_pt w)" by (simp add: held_shares_def pt_effective_def)
  have q: "pool_of ctx ?pt = pool_of ctx (wk_pt w)" by (rule pool_of_cong) simp_all
  have po: "pooled ctx ?pt = pooled ctx (wk_pt w)" using h q by (simp add: pooled_def on_pools_def)
  have m: "pt_model (wk_pt w) = pt_model a" by (rule balancedD(2)[OF b])
  have "seated ctx p\<^sub>0 c ?pt"
    unfolding seated_def
  proof
    fix r assume "r \<in> rs_region ` set (held_shares ?pt)"
    then obtain x where x: "x \<in> set (held_shares (wk_pt w))" "r = rs_region x" unfolding h by blast
    from balancedD(4)[OF b] x obtain pool where pool: "pool_of ctx (wk_pt w) r = Some pool"
      "seat p\<^sub>0 (pt_model a) c (pt_tier (wk_pt w)) (r, pool)" unfolding seated_def using m by auto
    have "\<lparr>ps_region = r, ps_pool = pool, ps_cus = rs_cus x\<rparr> \<in> set (pooled ctx (wk_pt w))"
      unfolding pooled_def set_on_pools using x pool(1) by auto
    then have "seat p\<^sub>0 (pt_model a) d t (r, pool)" using seats by (force simp: share_key_def)
    then have "seat p\<^sub>0 (pt_model a) c t (r, pool)" using pool(2) by (simp add: seat_def)
    then show "\<exists>q. pool_of ctx ?pt r = Some q \<and> seat p\<^sub>0 (pt_model ?pt) c (pt_tier ?pt) (r, q)"
      using pool(1) q m by simp
  qed
  moreover have "shares_ok ctx ?pt"
    using balancedD(3)[OF b] h by (simp add: shares_ok_def pending_ok_def)
  moreover have "hold_cost ctx p\<^sub>0 ?pt key = shares_cost (planner_cost p\<^sub>0) t (pooled ctx (wk_pt w)) key" for key
    using po by (simp add: hold_cost_def)
  ultimately show ?thesis
    using bal session_pt[OF s, of ?pt] balancedD(5,6,8,9)[OF b] m by (simp add: balanced_def)
qed

text \<open>A new split, on the pools the planner chose.\<close>

lemma resplit_balanced:
  assumes b: "balanced ctx c p\<^sub>0 a c w" and s: "session (pt_model a) c p\<^sub>0 w2" and "wk_pt w2 = wk_pt w"
    and new: "split_ok ctx (pt_sku (wk_pt w)) new" and hr: "hr = svc_headroom ctx (pt_sku (wk_pt w)) new"
    and ans: "list_all2 answers (claims_for ctx (wk_pt w) (footprint new hr)) placed"
    and seats: "\<forall>s\<in>set placed. seat p\<^sub>0 (pt_model a) d (pt_tier (wk_pt w)) (share_key s)"
    and bal: "\<And>key. planner_reserved (wk_planner w2) key + hold_cost ctx p\<^sub>0 a key
         = planner_reserved p\<^sub>0 key + shares_cost (planner_cost p\<^sub>0) (pt_tier (wk_pt w)) placed key"
  shows "balanced ctx c p\<^sub>0 a d (w2\<lparr>wk_pt := (record_placements placed (wk_pt w))
           \<lparr>pt_regions := new, pt_effective_regions := [], pt_failover_headroom := hr\<rparr>\<rparr>)"
proof -
  let ?t = "footprint new hr"
  let ?pt = "(record_placements placed (wk_pt w))\<lparr>pt_regions := new, pt_effective_regions := [], pt_failover_headroom := hr\<rparr>"
  note t = split_ok_footprint[OF new, folded hr]
  note same = answers_regions[OF ans[unfolded claims_for_map]]
  have d: "distinct (map ps_region placed)" using same t(1) by simp
  have m: "pt_model (wk_pt w) = pt_model a" by (rule balancedD(2)[OF b])
  have sel: "pt_model ?pt = pt_model a" "pt_tier ?pt = pt_tier (wk_pt w)" "pt_sku ?pt = pt_sku (wk_pt w)"
    "pt_id ?pt = pt_id (wk_pt w)" "pt_version ?pt = pt_version (wk_pt w)"
    "pt_pending_changes ?pt = pt_pending_changes (wk_pt w)" "held_shares ?pt = ?t" "pt_state ?pt = pt_state (wk_pt w)"
    by (simp_all add: record_placements_def held_shares_def pt_effective_def m)
  have pool: "pool_of ctx ?pt (ps_region x) = Some (ps_pool x)" if "x \<in> set placed" for x
    using pool_of_record(1)[OF d that, of ctx "wk_pt w"] pool_of_cong[of ?pt "record_placements placed (wk_pt w)" ctx] by simp
  have po: "pooled ctx ?pt = placed"
    unfolding pooled_def sel(7) by (rule on_pools_placed) (use same pool in simp_all)
  have "seated ctx p\<^sub>0 d ?pt"
    unfolding seated_def
  proof
    fix r assume "r \<in> rs_region ` set (held_shares ?pt)"
    then have "r \<in> ps_region ` set placed" unfolding sel(7) using same by (metis list.set_map)
    then obtain x where "x \<in> set placed" "r = ps_region x" by blast
    then show "\<exists>q. pool_of ctx ?pt r = Some q \<and> seat p\<^sub>0 (pt_model ?pt) d (pt_tier ?pt) (r, q)"
      using pool[of x] seats unfolding sel by (auto simp: share_key_def)
  qed
  moreover have "shares_ok ctx ?pt"
    using balancedD(3)[OF b] new t pending_ok_cong[OF sel(6,3)] unfolding shares_ok_def sel(7,3) by simp
  moreover have "hold_cost ctx p\<^sub>0 ?pt key = shares_cost (planner_cost p\<^sub>0) (pt_tier (wk_pt w)) placed key" for key
    using po sel(2) by (simp add: hold_cost_def)
  ultimately show ?thesis
    using bal session_pt[OF s sel(1)] balancedD(5,6,8,9)[OF b] sel(3-5,8) by (simp add: balanced_def)
qed

section \<open>An update keeps the balance\<close>

lemma upd_tier_fine:
  assumes good: "plan_good tmax p\<^sub>0" "backed ctx p\<^sub>0 p\<^sub>0 a"
    and b: "balanced ctx (context_ceiling (pt_shape a)) p\<^sub>0 a (context_ceiling (pt_shape a)) w"
    and shape: "pt_shape (wk_pt w) = pt_shape a"
  shows "step_fine ctx p\<^sub>0 a req (context_ceiling (pt_shape a)) (\<lambda>_ w'. pt_shape (wk_pt w') = pt_shape a) (upd_tier ctx ns sh req w)"
proof (cases "\<exists>t. up_tier req = Some t \<and> ns \<and> t \<noteq> pt_tier (wk_pt w)")
  case False
  then have "\<exists>x. upd_tier ctx ns sh req w = (Inr x, w)"
    by (auto simp: upd_tier_def Let_def split: option.split)
  then show ?thesis using step_fine_Inr[OF b] shape by (auto simp: shape_from_def)
next
  case True
  then obtain t where t: "up_tier req = Some t" "ns" "t \<noteq> pt_tier (wk_pt w)" by blast
  let ?pt = "wk_pt w"
  have unf: "upd_tier ctx ns sh req w =
      (case work_reserve (pt_model ?pt) t (as_claims (pooled ctx ?pt)) sh (pt_term_start ?pt)
              (work_release (pt_tier ?pt) (pooled ctx ?pt) w) of
         (Inl e, w) \<Rightarrow> (Inl (Capacity e), w)
       | (Inr placed, w) \<Rightarrow> (Inr None, w\<lparr>wk_pt := ?pt\<lparr>pt_tier := t\<rparr>\<rparr>))"
    using t by (simp add: upd_tier_def Let_def)
  from exchange_cases[OF good b, of t "as_claims (pooled ctx ?pt)" sh "pt_term_start ?pt"] show ?thesis
  proof cases
    case (1 e)
    then show ?thesis using shape by (simp add: unf step_fine_def shape_from_def)
  next
    case (2 placed w2)
    have pl: "placed = pooled ctx ?pt" by (rule answers_as_claims[OF 2(4)])
    have "balanced ctx (context_ceiling (pt_shape a)) p\<^sub>0 a (context_ceiling (pt_shape a)) (w2\<lparr>wk_pt := ?pt\<lparr>pt_tier := t\<rparr>\<rparr>)"
      by (rule retier_balanced[OF b 2(2,3) 2(5)[unfolded pl] 2(6)[unfolded pl]])
    then have "step_fine ctx p\<^sub>0 a req (context_ceiling (pt_shape a)) (\<lambda>_ w'. pt_shape (wk_pt w') = pt_shape a)
        (Inr None, w2\<lparr>wk_pt := ?pt\<lparr>pt_tier := t\<rparr>\<rparr>)"
      by (rule step_fine_Inr) (simp_all add: shape shape_from_def)
    then show ?thesis by (simp add: unf 2(1))
  qed
qed

text \<open>What the request asks for is well formed.\<close>

definition request_ok :: "service_ctx \<Rightarrow> provisioned_throughput \<Rightarrow> update_request \<Rightarrow> bool" where
  "request_ok ctx a req \<longleftrightarrow> (\<forall>new. up_regions req = Some new \<longrightarrow> split_ok ctx (pt_sku a) new)"

lemma push_increases_neutral:
  "neutral a (push_increases now cu n ds b) \<longleftrightarrow> neutral a b" "pt_shape (push_increases now cu n ds b) = pt_shape b"
  "pt_pending_changes (push_increases now cu n ds b) = pt_pending_changes b" "pt_sku (push_increases now cu n ds b) = pt_sku b"
  by (induction now cu n ds b rule: push_increases.induct) (simp_all add: Let_def push_event_def neutral_def)

lemma neutral_regions: "neutral a b \<Longrightarrow> neutral (a\<lparr>pt_regions := rs\<rparr>) (b\<lparr>pt_regions := rs\<rparr>)"
  by (simp add: neutral_def)

lemma replace_regions_fine:
  assumes good: "plan_good tmax p\<^sub>0" "backed ctx p\<^sub>0 p\<^sub>0 a"
    and b: "balanced ctx (context_ceiling (pt_shape a)) p\<^sub>0 a (context_ceiling (pt_shape a)) w"
    and shape: "pt_shape (wk_pt w) = pt_shape a" and new: "split_ok ctx (pt_sku (wk_pt w)) new"
  shows "step_fine ctx p\<^sub>0 a req (min (context_ceiling (pt_shape a)) (context_ceiling sh))
           (\<lambda>_ w'. pt_shape (wk_pt w') = pt_shape a \<and> pt_sku (wk_pt w') = pt_sku (wk_pt w)) (replace_regions ctx sh new w)"
proof -
  let ?pt = "wk_pt w" and ?hr = "svc_headroom ctx (pt_sku (wk_pt w)) new"
  let ?new = "\<lambda>placed. (record_placements placed ?pt)\<lparr>pt_regions := new, pt_effective_regions := [], pt_failover_headroom := ?hr\<rparr>"
  from exchange_cases[OF good b, of "pt_tier ?pt" "claims_for ctx ?pt (footprint new ?hr)" sh "pt_term_start ?pt"]
  show ?thesis
  proof cases
    case (1 e)
    then show ?thesis using shape by (simp add: replace_regions_def Let_def step_fine_def shape_from_def)
  next
    case (2 placed w2)
    have "balanced ctx (context_ceiling (pt_shape a)) p\<^sub>0 a (context_ceiling sh) (w2\<lparr>wk_pt := ?new placed\<rparr>)"
      by (rule resplit_balanced[OF b 2(2,3) new refl 2(4-6)])
    then have "balanced ctx (context_ceiling (pt_shape a)) p\<^sub>0 a (min (context_ceiling (pt_shape a)) (context_ceiling sh)) (w2\<lparr>wk_pt := ?new placed\<rparr>)"
      by (rule balanced_le) simp
    then have "step_fine ctx p\<^sub>0 a req (min (context_ceiling (pt_shape a)) (context_ceiling sh))
        (\<lambda>_ w'. pt_shape (wk_pt w') = pt_shape a \<and> pt_sku (wk_pt w') = pt_sku (wk_pt w)) (Inr (), w2\<lparr>wk_pt := ?new placed\<rparr>)"
      by (rule step_fine_Inr) (simp_all add: shape shape_from_def record_placements_def)
    then show ?thesis by (simp add: replace_regions_def Let_def 2(1))
  qed
qed

lemma apply_increases_fine:
  assumes good: "plan_good tmax p\<^sub>0" "narrow_costs p\<^sub>0" "backed ctx p\<^sub>0 p\<^sub>0 a"
    and b: "balanced ctx (context_ceiling (pt_shape a)) p\<^sub>0 a (context_ceiling (pt_shape a)) w"
    and shape: "pt_shape (wk_pt w) = pt_shape a" and new: "split_ok ctx (pt_sku (wk_pt w)) new"
  shows "step_fine ctx p\<^sub>0 a req (min (context_ceiling (pt_shape a)) (context_ceiling sh))
           (\<lambda>_ w'. pt_shape (wk_pt w') = pt_shape a \<and> pt_sku (wk_pt w') = pt_sku (wk_pt w)) (apply_increases ctx now sh new ds w)"
proof (cases "ds = []")
  case True
  have "balanced ctx (context_ceiling (pt_shape a)) p\<^sub>0 a (min (context_ceiling (pt_shape a)) (context_ceiling sh)) w"
    by (rule balanced_le[OF b]) simp
  then show ?thesis
    using True by (auto simp: apply_increases_def shape shape_from_def intro!: step_fine_Inr)
next
  case False
  let ?pt = "wk_pt w" and ?hr = "svc_headroom ctx (pt_sku (wk_pt w)) new"
  let ?u = "\<lambda>w'. (wk_pt w')\<lparr>pt_effective_regions := [], pt_failover_headroom := ?hr\<rparr>"
  let ?cu = "\<lambda>w'. pr_per_cu_monthly (svc_price ctx (pt_tier (?u w')) (pt_isolation (?u w')) (pt_sku (?u w')) 1)"
  let ?fin = "\<lambda>w'. (push_increases now (?cu w') (pt_cus (?u w')) ds (?u w'))\<lparr>pt_regions := new\<rparr>"
  have pend: "pending_ok ctx ?pt" using balancedD(3)[OF b] by (simp add: shares_ok_def)
  have "step_fine ctx p\<^sub>0 a req (min (context_ceiling (pt_shape a)) (context_ceiling sh))
     (\<lambda>_ w'. pt_shape (wk_pt w') = pt_shape a \<and> pt_sku (wk_pt w') = pt_sku (wk_pt w))
     (and_then (move_capacity ctx now (footprint new ?hr) sh w) (\<lambda>_ w'. (Inr (), w'\<lparr>wk_pt := ?fin w'\<rparr>)))"
  proof (rule move_to_split[OF good b shape new])
    fix w' assume mv: "moved_from ?pt (wk_pt w')"
    note same = moved_fromD[OF mv]
    have n: "neutral (?u w') (push_increases now (?cu w') (pt_cus (?u w')) ds (?u w'))" by (simp add: push_increases_neutral)
    have sel: "pt_shape (?fin w') = pt_shape a" "pt_pending_changes (?fin w') = pt_pending_changes ?pt" "pt_sku (?fin w') = pt_sku ?pt"
      using same shape by (simp_all add: push_increases_neutral)
    show "neutral ((wk_pt w')\<lparr>pt_regions := new, pt_effective_regions := [], pt_failover_headroom := ?hr\<rparr>) (?fin w')
        \<and> pt_shape (?fin w') = pt_shape a \<and> pending_ok ctx (?fin w')
        \<and> pt_shape (wk_pt (w'\<lparr>wk_pt := ?fin w'\<rparr>)) = pt_shape a \<and> pt_sku (wk_pt (w'\<lparr>wk_pt := ?fin w'\<rparr>)) = pt_sku ?pt"
    proof (intro conjI)
      show "neutral ((wk_pt w')\<lparr>pt_regions := new, pt_effective_regions := [], pt_failover_headroom := ?hr\<rparr>) (?fin w')"
        using n by (simp add: neutral_def)
      show "pending_ok ctx (?fin w')" using pending_ok_cong[OF sel(2,3)] pend by blast
      show "pt_shape (wk_pt (w'\<lparr>wk_pt := ?fin w'\<rparr>)) = pt_shape a" "pt_sku (wk_pt (w'\<lparr>wk_pt := ?fin w'\<rparr>)) = pt_sku ?pt"
        unfolding work.select_convs work.update_convs using sel by simp_all
    qed (rule sel)
  qed simp_all
  then show ?thesis using False by (simp add: apply_increases_def Let_def)
qed

lemma upd_regions_fine:
  assumes good: "plan_good tmax p\<^sub>0" "narrow_costs p\<^sub>0" "backed ctx p\<^sub>0 p\<^sub>0 a"
    and b: "balanced ctx (context_ceiling (pt_shape a)) p\<^sub>0 a (context_ceiling (pt_shape a)) w"
    and shape: "pt_shape (wk_pt w) = pt_shape a"
    and new: "\<And>new. up_regions req = Some new \<Longrightarrow> split_ok ctx (pt_sku (wk_pt w)) new"
  shows "step_fine ctx p\<^sub>0 a req (min (context_ceiling (pt_shape a)) (context_ceiling sh))
           (\<lambda>x w'. pt_shape (wk_pt w') = pt_shape a \<and> (\<forall>rs. x = Some (Some rs) \<longrightarrow> split_ok ctx (pt_sku (wk_pt w')) rs))
           (upd_regions ctx st now ns sh req w)"
proof -
  let ?cn = "min (context_ceiling (pt_shape a)) (context_ceiling sh)"
  have b': "balanced ctx (context_ceiling (pt_shape a)) p\<^sub>0 a ?cn w" by (rule balanced_le[OF b]) simp
  show ?thesis
  proof (cases "up_regions req")
    case None
    then show ?thesis using b' by (auto simp: upd_regions_def shape shape_from_def intro!: step_fine_Inr)
  next
    case (Some rs)
    note ok = new[OF Some]
    let ?pt = "wk_pt w" and ?growing = "filter (\<lambda>n. share_of (pt_regions (wk_pt w)) (rs_region n) < rs_cus n) rs"
    show ?thesis
    proof (cases "sales_open st now (pt_model ?pt) ?growing")
      case (Inl e)
      then show ?thesis
        using Some balancedD(1)[OF b] by (simp add: upd_regions_def Let_def step_fine_def shape shape_from_def)
    next
      case (Inr u)
      show ?thesis
      proof (cases ns)
        case True
        have "step_fine ctx p\<^sub>0 a req ?cn (\<lambda>_ w'. pt_shape (wk_pt w') = pt_shape a \<and> pt_sku (wk_pt w') = pt_sku (wk_pt w))
            (if rs \<noteq> pt_regions ?pt then replace_regions ctx sh rs w else (Inr (), w))"
          using replace_regions_fine[OF good(1,3) b shape ok] b'
          by (auto simp: shape shape_from_def intro!: step_fine_Inr)
        then have "step_fine ctx p\<^sub>0 a req ?cn
            (\<lambda>x w'. pt_shape (wk_pt w') = pt_shape a \<and> (\<forall>rs. x = Some (Some rs) \<longrightarrow> split_ok ctx (pt_sku (wk_pt w')) rs))
            (and_then (if rs \<noteq> pt_regions ?pt then replace_regions ctx sh rs w else (Inr (), w)) (\<lambda>_ w. (Inr None, w)))"
          by (rule and_then_fine) (simp add: step_fine_Inr)
        then show ?thesis using Some Inr True by (simp add: upd_regions_def Let_def)
      next
        case False
        show ?thesis
        proof (cases "increases_only (pt_regions ?pt) rs")
          case None
          have "step_fine ctx p\<^sub>0 a req ?cn
            (\<lambda>x w'. pt_shape (wk_pt w') = pt_shape a \<and> (\<forall>rs. x = Some (Some rs) \<longrightarrow> split_ok ctx (pt_sku (wk_pt w')) rs))
            (Inr (Some (Some rs)), w)"
            by (rule step_fine_Inr[OF b']) (simp_all add: shape shape_from_def ok)
          then show ?thesis using Some Inr False None by (simp add: upd_regions_def Let_def)
        next
          case (Some ds)
          have "step_fine ctx p\<^sub>0 a req ?cn
            (\<lambda>x w'. pt_shape (wk_pt w') = pt_shape a \<and> (\<forall>rs. x = Some (Some rs) \<longrightarrow> split_ok ctx (pt_sku (wk_pt w')) rs))
            (and_then (apply_increases ctx now sh rs ds w)
               (\<lambda>_ w. (Inr (if Option.bind (pt_pending_changes (wk_pt w)) pc_regions \<noteq> None then Some None else None), w)))"
            by (rule and_then_fine[OF apply_increases_fine[OF good b shape ok]]) (simp add: step_fine_Inr)
          then show ?thesis using \<open>up_regions req = Some rs\<close> Inr False Some by (simp add: upd_regions_def Let_def)
        qed
      qed
    qed
  qed
qed

end
