(* ===== verification/Ledger.thy ===== *)
theory Ledger
  imports Requests
begin

text \<open>
  The capacity ledger of the service. \<open>accounted\<close> says that what the planner counts on every
  pool is the sum of what the live reservations hold there. It is an invariant of every
  request, whether it succeeds or fails, and a request that fails changes nothing at all.
\<close>

declare split_paired_All [simp del] split_paired_Ex [simp del]

section \<open>The last steps of an update\<close>

lemma check_shape_seats:
  assumes "check_shape p model cs sh = Inr u" and "c \<in> set cs" and "cl_pool c = Some pool"
  shows "\<exists>pv\<in>set (mp_pools p). pool_key_of pv = (cl_region c, pool) \<and> pv_model pv = model \<and> context_ceiling sh \<le> pv_max_context pv"
  using assms
proof (induction cs)
  case (Cons d ds)
  show ?case
  proof (cases "c = d")
    case True
    from Cons.prems(1) True have "\<exists>r. place c model Standard sh None (mp_pools p) (mp_costs p) (mp_schedule p) = Inr r"
      by (auto split: sum.splits)
    then have "filter (\<lambda>p. context_ceiling sh \<le> pv_max_context p) (place_candidates c model (mp_pools p)) \<noteq> []"
      by (auto simp: place_def Let_def split: if_splits)
    then obtain pv where "pv \<in> set (place_candidates c model (mp_pools p))" "context_ceiling sh \<le> pv_max_context pv"
      by (auto simp: filter_empty_conv)
    then show ?thesis using Cons.prems(3) by (auto simp: place_candidates_def pool_key_of_def)
  next
    case False
    then show ?thesis using Cons by (auto split: sum.splits)
  qed
qed simp

lemma shape_seated:
  assumes "check_shape p (pt_model pt) (claims_for ctx pt (held_shares pt)) s = Inr u" and "seated ctx p c pt"
  shows "seated ctx p (context_ceiling s) pt"
  unfolding seated_def
proof
  fix r assume r: "r \<in> rs_region ` set (held_shares pt)"
  then obtain h where h: "h \<in> set (held_shares pt)" "r = rs_region h" by blast
  from assms(2) r obtain q where q: "pool_of ctx pt r = Some q" "seat p (pt_model pt) c (pt_tier pt) (r, q)"
    unfolding seated_def by blast
  have "growth_claim ctx pt h \<in> set (claims_for ctx pt (held_shares pt))" "cl_pool (growth_claim ctx pt h) = Some q"
    "cl_region (growth_claim ctx pt h) = r"
    using h q(1) by (auto simp: claims_for_map growth_claim_def)
  from check_shape_seats[OF assms(1) this(1,2)] this(3) q(2)
  have "seat p (pt_model pt) (context_ceiling s) (pt_tier pt) (r, q)" by (simp add: seat_def)
  with q(1) show "\<exists>q. pool_of ctx pt r = Some q \<and> seat p (pt_model pt) (context_ceiling s) (pt_tier pt) (r, q)" by blast
qed

lemma seated_same_plan: "same_plan p q \<Longrightarrow> seated ctx p c pt \<Longrightarrow> seated ctx q c pt"
  unfolding seated_def using seat_same_plan by blast

lemma upd_shape_fine:
  assumes good: "plan_good tmax p\<^sub>0"
    and b: "balanced ctx (context_ceiling (pt_shape a)) p\<^sub>0 a (min (context_ceiling (pt_shape a)) (context_ceiling sh)) w"
    and shape: "pt_shape (wk_pt w) = pt_shape a" and sh: "sh = (case up_shape req of Some s \<Rightarrow> s | None \<Rightarrow> pt_shape a)"
  shows "step_fine ctx p\<^sub>0 a req (context_ceiling sh) (\<lambda>_ w'. pt_shape (wk_pt w') = sh \<and> pt_sku (wk_pt w') = pt_sku (wk_pt w))
           (upd_shape ctx now req w)"
proof (cases "sh = pt_shape a")
  case True
  then have "upd_shape ctx now req w = (Inr (), w)"
    using sh shape by (auto simp: upd_shape_def Let_def split: option.splits)
  moreover have "balanced ctx (context_ceiling (pt_shape a)) p\<^sub>0 a (context_ceiling sh) w" using b True by simp
  ultimately show ?thesis using True shape by (auto simp: shape_from_def intro!: step_fine_Inr)
next
  case False
  then have s: "up_shape req = Some sh" using sh by (auto split: option.splits)
  let ?pt = "wk_pt w" and ?r = "check_shape (wk_planner w) (pt_model (wk_pt w)) (claims_for ctx (wk_pt w) (held_shares (wk_pt w))) sh"
  note v = session_view[OF balancedD(1)[OF b] good]
  show ?thesis
  proof (cases ?r)
    case (Inl e)
    then show ?thesis
      using s False shape balancedD(1)[OF b] by (simp add: upd_shape_def Let_def step_fine_def shape_from_def)
  next
    case (Inr u)
    let ?new = "push_event now EvShapeUpdated (?pt\<lparr>pt_shape := sh\<rparr>)"
    have "seated ctx (wk_planner w) (context_ceiling sh) ?pt"
      by (rule shape_seated[OF Inr seated_same_plan[OF same_plan_sym[OF v(3)] balancedD(4)[OF b]]])
    then have "seated ctx p\<^sub>0 (context_ceiling sh) ?pt" by (rule seated_same_plan[OF v(3)])
    then have b': "balanced ctx (context_ceiling (pt_shape a)) p\<^sub>0 a (context_ceiling sh) w"
      using b by (simp add: balanced_def)
    have pend: "pending_ok ctx ?pt" using balancedD(3)[OF b] by (simp add: shares_ok_def)
    have n: "neutral ?pt ?new" "pending_ok ctx ?new" using pend by (simp_all add: neutral_def push_event_def pending_ok_def)
    have "step_fine ctx p\<^sub>0 a req (context_ceiling sh) (\<lambda>_ w'. pt_shape (wk_pt w') = sh \<and> pt_sku (wk_pt w') = pt_sku (wk_pt w))
        (Inr (), w\<lparr>wk_pt := ?new\<rparr>)"
      by (rule step_fine_Inr[OF balanced_neutral[OF b' n]]) (simp_all add: shape_from_def s push_event_def)
    then show ?thesis using s False shape Inr by (simp add: upd_shape_def Let_def)
  qed
qed

lemma upd_schedule_cases:
  assumes "\<forall>rs. sr = Some (Some rs) \<longrightarrow> split_ok ctx (pt_sku (wk_pt w)) rs" and "pending_ok ctx (wk_pt w)"
  obtains e where "upd_schedule now st sr w = (Inl e, w)"
  | pt where "upd_schedule now st sr w = (Inr (), w\<lparr>wk_pt := pt\<rparr>)" "neutral (wk_pt w) pt" "pt_shape pt = pt_shape (wk_pt w)"
      "pending_ok ctx pt"
proof -
  let ?pt = "wk_pt w"
  let ?current = "case pt_pending_changes ?pt of Some p \<Rightarrow> p | None \<Rightarrow> \<lparr>pc_tier = None, pc_regions = None, pc_effective_at = pt_term_end ?pt\<rparr>"
  let ?tiered = "case st of None \<Rightarrow> ?current | Some t \<Rightarrow> ?current\<lparr>pc_tier := t\<rparr>"
  let ?pend = "(case sr of None \<Rightarrow> ?tiered
      | Some r \<Rightarrow> ?tiered\<lparr>pc_regions := (case r of None \<Rightarrow> None | Some rs \<Rightarrow> if rs \<noteq> pt_regions ?pt then Some rs else None)\<rparr>)
      \<lparr>pc_effective_at := pt_term_end ?pt\<rparr>"
  let ?new = "if pc_tier ?pend \<noteq> None \<or> pc_regions ?pend \<noteq> None
      then (push_event now (EvChangeScheduled (pc_tier ?pend) (pc_regions ?pend)) (?pt\<lparr>pt_pending_changes := None\<rparr>))
             \<lparr>pt_pending_changes := Some ?pend\<rparr>
      else ?pt\<lparr>pt_pending_changes := None\<rparr>"
  have old: "split_ok ctx (pt_sku ?pt) rs" if "pc_regions ?current = Some rs" for rs
    using that assms(2) by (auto simp: pending_ok_def split: option.splits)
  have one: "pc_regions ?tiered = pc_regions ?current" by (simp split: option.split)
  have pend: "split_ok ctx (pt_sku ?pt) rs" if "pc_regions ?pend = Some rs" for rs
  proof (cases "\<exists>xs. sr = Some (Some xs)")
    case True
    then obtain xs where xs: "sr = Some (Some xs)" by blast
    show ?thesis using that assms(1) xs by (cases "xs = pt_regions ?pt") simp_all
  next
    case False
    then have "pc_regions ?tiered = Some rs" using that by (auto split: option.splits)
    then show ?thesis using one old by simp
  qed
  show thesis
  proof (cases "st = None \<and> sr = None")
    case True
    then have "upd_schedule now st sr w = (Inr (), w\<lparr>wk_pt := ?pt\<rparr>)" by (simp add: upd_schedule_def)
    then show thesis by (rule that(2)) (use assms(2) in simp_all)
  next
    case False
    have unf: "upd_schedule now st sr w =
      (if ((st \<noteq> None \<and> st \<noteq> Some None) \<or> (sr \<noteq> None \<and> sr \<noteq> Some None)) \<and> pt_state ?pt = PendingCancellation
       then (Inl (Conflict ''no_next_term''), w) else (Inr (), w\<lparr>wk_pt := ?new\<rparr>))"
      unfolding upd_schedule_def if_not_P[OF False] Let_def ..
    have n: "neutral ?pt ?new" "pt_shape ?new = pt_shape ?pt"
      by (simp_all add: neutral_def push_event_def)
    have "pending_ok ctx ?new" using pend by (simp add: pending_ok_def push_event_def)
    with n have new: "neutral ?pt ?new" "pt_shape ?new = pt_shape ?pt" "pending_ok ctx ?new" by blast+
    show thesis
    proof (cases "((st \<noteq> None \<and> st \<noteq> Some None) \<or> (sr \<noteq> None \<and> sr \<noteq> Some None)) \<and> pt_state ?pt = PendingCancellation")
      case True
      show thesis by (rule that(1)) (unfold unf if_P[OF True], rule refl)
    next
      case False
      show thesis by (rule that(2)[OF _ new]) (unfold unf if_not_P[OF False], rule refl)
    qed
  qed
qed

text \<open>The whole of an update's work.\<close>

lemma upd_fields_neutral:
  fixes pt now req
  defines "new \<equiv> upd_auto_renew now req (upd_boundary_policy now req (upd_name now req pt))"
  shows "neutral pt new" "pt_shape new = pt_shape pt" "pt_pending_changes new = pt_pending_changes pt"
  unfolding new_def by (simp_all add: upd_auto_renew_def upd_boundary_policy_def upd_name_def neutral_def push_event_def is_live_def split: option.split)

lemma refresh_neutral: "neutral pt (refresh_totals ctx pt)"
  "pt_shape (refresh_totals ctx pt) = pt_shape pt" "pt_pending_changes (refresh_totals ctx pt) = pt_pending_changes pt"
  by (simp_all add: refresh_totals_def Let_def neutral_def)

definition requested_shape :: "update_request \<Rightarrow> provisioned_throughput \<Rightarrow> shape" where
  "requested_shape req a = (case up_shape req of Some s \<Rightarrow> s | None \<Rightarrow> pt_shape a)"

lemma schedule_fine:
  assumes b: "balanced ctx (context_ceiling (pt_shape a)) p\<^sub>0 a cs w" "shape_from req a (wk_pt w)"
    and sr: "\<forall>rs. sr = Some (Some rs) \<longrightarrow> split_ok ctx (pt_sku (wk_pt w)) rs" and sh: "pt_shape (wk_pt w) = sh"
  shows "step_fine ctx p\<^sub>0 a req cs (\<lambda>_ w'. pt_shape (wk_pt w') = sh)
     (and_then (upd_schedule now tsch sr w) (\<lambda>_ w. (Inr (), w\<lparr>wk_pt := refresh_totals ctx (wk_pt w)\<rparr>)))"
proof -
  have pend: "pending_ok ctx (wk_pt w)" using balancedD(3)[OF b(1)] by (simp add: shares_ok_def)
  from upd_schedule_cases[OF sr pend, where now = now and st = tsch] show ?thesis
  proof cases
    case (1 e)
    then show ?thesis using balancedD(1)[OF b(1)] b(2) by (simp add: and_then_def step_fine_def)
  next
    case (2 pt)
    let ?new = "refresh_totals ctx pt"
    have n: "neutral (wk_pt w) ?new" by (rule neutral_trans[OF 2(2) refresh_neutral(1)])
    have p: "pending_ok ctx ?new" using 2(4) refresh_neutral[where pt = pt] by (simp add: pending_ok_def neutral_def)
    have "shape_from req a ?new" "pt_shape ?new = sh" using b(2) 2(3) sh refresh_neutral(2)[where pt = pt] by (simp_all add: shape_from_def)
    then have "step_fine ctx p\<^sub>0 a req cs (\<lambda>_ w'. pt_shape (wk_pt w') = sh) (Inr (), w\<lparr>wk_pt := ?new\<rparr>)"
      by (intro step_fine_Inr balanced_neutral[OF b(1) n p]) simp_all
    then show ?thesis using 2(1) by (simp add: and_then_def)
  qed
qed

text \<open>The steps from the new shape on, from the new split on, and from the new tier on.\<close>

lemma from_shape_fine:
  assumes good: "plan_good tmax p\<^sub>0"
    and b: "balanced ctx (context_ceiling (pt_shape a)) p\<^sub>0 a (min (context_ceiling (pt_shape a)) (context_ceiling (requested_shape req a))) w"
    and shape: "pt_shape (wk_pt w) = pt_shape a"
    and sr: "\<forall>rs. sr = Some (Some rs) \<longrightarrow> split_ok ctx (pt_sku (wk_pt w)) rs"
  shows "step_fine ctx p\<^sub>0 a req (context_ceiling (requested_shape req a)) (\<lambda>_ w'. pt_shape (wk_pt w') = requested_shape req a)
     (and_then (upd_shape ctx now req w) (\<lambda>_ w.
      and_then (upd_schedule now tsch sr w) (\<lambda>_ w. (Inr (), w\<lparr>wk_pt := refresh_totals ctx (wk_pt w)\<rparr>))))"
  by (rule and_then_fine[OF upd_shape_fine[OF good b shape requested_shape_def]], rule schedule_fine)
    (use sr in simp_all)

lemma from_regions_fine:
  assumes good: "plan_good tmax p\<^sub>0" "narrow_costs p\<^sub>0" "backed ctx p\<^sub>0 p\<^sub>0 a"
    and b: "balanced ctx (context_ceiling (pt_shape a)) p\<^sub>0 a (context_ceiling (pt_shape a)) w"
    and shape: "pt_shape (wk_pt w) = pt_shape a" and req: "\<And>new. up_regions req = Some new \<Longrightarrow> split_ok ctx (pt_sku a) new"
  shows "step_fine ctx p\<^sub>0 a req (context_ceiling (requested_shape req a)) (\<lambda>_ w'. pt_shape (wk_pt w') = requested_shape req a)
     (and_then (upd_regions ctx st now ns (requested_shape req a) req w) (\<lambda>sr w.
      and_then (upd_shape ctx now req w) (\<lambda>_ w.
      and_then (upd_schedule now tsch sr w) (\<lambda>_ w. (Inr (), w\<lparr>wk_pt := refresh_totals ctx (wk_pt w)\<rparr>)))))"
proof -
  have new: "split_ok ctx (pt_sku (wk_pt w)) rs" if "up_regions req = Some rs" for rs
    using req[OF that] balancedD(8)[OF b] by simp
  show ?thesis
    by (rule and_then_fine[OF upd_regions_fine[OF good b shape new]], assumption, rule from_shape_fine[OF good(1)]) simp_all
qed

lemma from_tier_fine:
  assumes good: "plan_good tmax p\<^sub>0" "narrow_costs p\<^sub>0" "backed ctx p\<^sub>0 p\<^sub>0 a"
    and b: "balanced ctx (context_ceiling (pt_shape a)) p\<^sub>0 a (context_ceiling (pt_shape a)) w"
    and shape: "pt_shape (wk_pt w) = pt_shape a" and req: "\<And>new. up_regions req = Some new \<Longrightarrow> split_ok ctx (pt_sku a) new"
  shows "step_fine ctx p\<^sub>0 a req (context_ceiling (requested_shape req a)) (\<lambda>_ w'. pt_shape (wk_pt w') = requested_shape req a)
     (and_then (upd_tier ctx ns (requested_shape req a) req w) (\<lambda>tsch w.
      and_then (upd_regions ctx st now ns (requested_shape req a) req w) (\<lambda>sr w.
      and_then (upd_shape ctx now req w) (\<lambda>_ w.
      and_then (upd_schedule now tsch sr w) (\<lambda>_ w. (Inr (), w\<lparr>wk_pt := refresh_totals ctx (wk_pt w)\<rparr>))))))"
  by (rule and_then_fine[OF upd_tier_fine[OF good(1,3) b shape]], rule from_regions_fine[OF good]) (simp_all add: req)

lemma apply_update_fine:
  assumes good: "plan_good tmax p\<^sub>0" "narrow_costs p\<^sub>0" "backed ctx p\<^sub>0 p\<^sub>0 a"
    and b: "balanced ctx (context_ceiling (pt_shape a)) p\<^sub>0 a (context_ceiling (pt_shape a)) w"
    and w: "wk_pt w = a" and req: "\<And>new. up_regions req = Some new \<Longrightarrow> split_ok ctx (pt_sku a) new"
  shows "step_fine ctx p\<^sub>0 a req (context_ceiling (requested_shape req a)) (\<lambda>_ w'. pt_shape (wk_pt w') = requested_shape req a)
           (apply_update ctx st now req w)"
proof -
  let ?c = "context_ceiling (pt_shape a)"
  define w1 where "w1 = w\<lparr>wk_pt := upd_auto_renew now req (upd_boundary_policy now req (upd_name now req (wk_pt w)))\<rparr>"
  note n = upd_fields_neutral[where pt = "wk_pt w" and now = now and req = req]
  have "pending_ok ctx (wk_pt w1)"
    using balancedD(3)[OF b] n by (simp add: w1_def shares_ok_def pending_ok_def neutral_def)
  then have b1: "balanced ctx ?c p\<^sub>0 a ?c w1"
    unfolding w1_def using balanced_neutral[OF b n(1)] by simp
  have s1: "pt_shape (wk_pt w1) = pt_shape a" using n(2) w by (simp add: w1_def)
  have sh: "(case up_shape req of Some s \<Rightarrow> s | None \<Rightarrow> pt_shape (wk_pt w')) = requested_shape req a"
    if "pt_shape (wk_pt w') = pt_shape a" for w'
    using that by (simp add: requested_shape_def split: option.split)
  show ?thesis
    unfolding apply_update_def Let_def w1_def[symmetric]
    by (rule and_then_fine[OF upd_rebalance_fine[OF good b1 s1]], subst (1 2) sh) (auto intro!: from_tier_fine[OF good] simp: req)
qed

section \<open>The invariant\<close>

definition accounted :: "service_ctx \<Rightarrow> service \<Rightarrow> bool" where
  "accounted ctx sv \<longleftrightarrow> plan_good (cx_timestamp_max ctx) (sv_planner sv) \<and> narrow_costs (sv_planner sv) \<and> store_ok (sv_store sv)
     \<and> same_plan (sv_planner sv) (planner_start ctx)
     \<and> (\<forall>pt\<in>set (list_live (sv_store sv)). reservation_ok ctx (sv_planner sv) pt)
     \<and> (\<forall>key. planner_reserved (sv_planner sv) key
          = mem_store.live_sum (\<lambda>pt. hold_cost ctx (sv_planner sv) pt key) (sv_store sv))"

lemma accountedD:
  assumes "accounted ctx sv"
  shows "plan_good (cx_timestamp_max ctx) (sv_planner sv)" "narrow_costs (sv_planner sv)" "store_ok (sv_store sv)"
    "planner_ok (sv_planner sv)"
    "same_plan (sv_planner sv) (planner_start ctx)"
    "planner_reserved (sv_planner sv) key = mem_store.live_sum (\<lambda>pt. hold_cost ctx (sv_planner sv) pt key) (sv_store sv)"
  using assms by (simp_all add: accounted_def plan_good_def)

text \<open>What is stored under an id and live is well formed, and counted.\<close>

lemma accounted_entry:
  assumes "accounted ctx sv" and "store_entry (sv_store sv) pid = Some a"
  shows "pt_id a = pid" "is_live (pt_state a) \<Longrightarrow> reservation_ok ctx (sv_planner sv) a"
    "is_live (pt_state a) \<Longrightarrow> backed ctx (sv_planner sv) (sv_planner sv) a"
proof -
  note ok = accountedD(3)[OF assms(1)]
  from assms(2) have "(pid, a) \<in> set (ms_by_id (sv_store sv))" by (simp add: store_entry_def map_of_SomeD)
  then show i: "pt_id a = pid" using ok by (auto simp: store_ok_def)
  assume live: "is_live (pt_state a)"
  have a: "a \<in> set (list_live (sv_store sv))" using list_live_iff[OF ok] assms(2) i live by simp
  then show "reservation_ok ctx (sv_planner sv) a" using assms(1) by (simp add: accounted_def)
  show "backed ctx (sv_planner sv) (sv_planner sv) a"
    unfolding backed_def
  proof
    fix key
    have "hold_cost ctx (sv_planner sv) a key \<in> set (map (\<lambda>pt. hold_cost ctx (sv_planner sv) pt key) (list_live (sv_store sv)))"
      using a by simp
    then have "hold_cost ctx (sv_planner sv) a key \<le> mem_store.live_sum (\<lambda>pt. hold_cost ctx (sv_planner sv) pt key) (sv_store sv)"
      unfolding mem_store.live_sum_def by (rule member_le_sum_list) simp
    then show "hold_cost ctx (sv_planner sv) a key \<le> planner_reserved (sv_planner sv) key"
      using accountedD(6)[OF assms(1), of key] by simp
  qed
qed

lemma hold_cost_same_plan: "same_plan p q \<Longrightarrow> hold_cost ctx p pt = hold_cost ctx q pt"
  by (rule ext) (simp add: hold_cost_def same_plan_view(1))

lemma reservation_ok_same_plan: "same_plan p q \<Longrightarrow> reservation_ok ctx p pt \<Longrightarrow> reservation_ok ctx q pt"
  unfolding reservation_ok_def using seated_same_plan by blast

lemma narrow_costs_same_plan: "same_plan p q \<Longrightarrow> narrow_costs q \<Longrightarrow> narrow_costs p"
  by (simp add: narrow_costs_def same_plan_def)

text \<open>The one lemma behind every write: the planner moved as the stored reservation did.\<close>

lemma accounted_put:
  assumes acc: "accounted ctx sv" and p: "plan_good (cx_timestamp_max ctx) p" "same_plan p (sv_planner sv)"
    and st: "store_ok st" "store_entry st = (store_entry (sv_store sv))(pt_id pt \<mapsto> pt)"
    and ok: "is_live (pt_state pt) \<Longrightarrow> reservation_ok ctx (sv_planner sv) pt"
    and sum: "\<And>key f. f = (\<lambda>pt. hold_cost ctx (sv_planner sv) pt key) \<Longrightarrow>
        mem_store.live_sum f st + planner_reserved (sv_planner sv) key
        = mem_store.live_sum f (sv_store sv) + planner_reserved p key"
  shows "accounted ctx (sv\<lparr>sv_store := st, sv_planner := p\<rparr>)"
proof -
  note a = accountedD[OF acc]
  note same = same_plan_sym[OF p(2)]
  have "reservation_ok ctx p q" if q: "store_entry st (pt_id q) = Some q" "is_live (pt_state q)" for q
  proof (cases "pt_id q = pt_id pt")
    case True
    have "store_entry st (pt_id q) = Some pt" unfolding st(2) True by (rule fun_upd_same)
    with q(1) have "q = pt" by simp
    with q(2) show ?thesis using ok reservation_ok_same_plan[OF same] by blast
  next
    case False
    then have "store_entry (sv_store sv) (pt_id q) = Some q" using q(1) unfolding st(2) by simp
    with q(2) show ?thesis using accounted_entry(2)[OF acc] reservation_ok_same_plan[OF same] by blast
  qed
  moreover have "planner_reserved p key = mem_store.live_sum (\<lambda>pt. hold_cost ctx p pt key) st" for key
    unfolding hold_cost_same_plan[OF p(2)] using sum[OF refl, of key] a(6)[of key] by linarith
  ultimately show ?thesis
    using p st(1) a(2) narrow_costs_same_plan[OF p(2)] same_plan_trans[OF p(2) a(5)] list_live_iff[OF st(1)]
    by (simp add: accounted_def)
qed

lemma accounted_update:
  assumes acc: "accounted ctx sv" and p: "plan_good (cx_timestamp_max ctx) p" "same_plan p (sv_planner sv)"
    and st: "store_update (sv_store sv) pt v = Inr st" "store_entry (sv_store sv) (pt_id pt) = Some a"
    and ok: "is_live (pt_state pt) \<Longrightarrow> reservation_ok ctx (sv_planner sv) pt"
    and move: "\<And>key. planner_reserved p key + mem_store.live_part (\<lambda>pt. hold_cost ctx (sv_planner sv) pt key) a
        = planner_reserved (sv_planner sv) key + mem_store.live_part (\<lambda>pt. hold_cost ctx (sv_planner sv) pt key) pt"
  shows "accounted ctx (sv\<lparr>sv_store := st, sv_planner := p\<rparr>)"
proof (rule accounted_put[OF acc p _ _ ok])
  note d = mem_store.update_done[OF accountedD(3)[OF acc] st(1)]
  show "store_ok st" "store_entry st = (store_entry (sv_store sv))(pt_id pt \<mapsto> pt)" using d by blast+
  show "mem_store.live_sum f st + planner_reserved (sv_planner sv) key = mem_store.live_sum f (sv_store sv) + planner_reserved p key"
    if f: "f = (\<lambda>pt. hold_cost ctx (sv_planner sv) pt key)" for f key
    using mem_store.live_sum_update[OF accountedD(3)[OF acc] st accounted_entry(1)[OF acc st(2)], of f] move[of key]
    unfolding f by linarith
qed

lemma accounted_bump [simp]: "accounted ctx (svc_bump now sv) = accounted ctx sv"
proof -
  have "sv_planner (svc_bump now sv) = sv_planner sv" "ms_by_id (sv_store (svc_bump now sv)) = ms_by_id (sv_store sv)"
    by (simp_all add: svc_bump_def bump_version_def Let_def)
  then show ?thesis
    by (simp add: accounted_def store_ok_def list_live_def mem_store.live_sum_def)
qed

text \<open>What is written is the reservation, tidied and with a new version.\<close>

lemma touched_tidy:
  fixes pt now
  defines "new \<equiv> touched now (tidy_placements pt)"
  shows "held_shares new = held_shares pt" "pooled ctx new = pooled ctx pt" "hold_cost ctx p new = hold_cost ctx p pt"
    "reservation_ok ctx p new = reservation_ok ctx p pt" "pt_id new = pt_id pt" "pt_state new = pt_state pt"
    "pt_version new = pt_version pt + 1" "pt_model new = pt_model pt" "pt_shape new = pt_shape pt"
proof -
  have sel: "pt_placements new = pt_placements (tidy_placements pt)" "pt_model new = pt_model pt" "pt_tier new = pt_tier pt"
    "pt_sku new = pt_sku pt" "pt_regions new = pt_regions pt" "pt_pending_changes new = pt_pending_changes pt"
    by (simp_all add: new_def touched_def tidy_placements_def)
  show simps: "pt_id new = pt_id pt" "pt_state new = pt_state pt" "pt_version new = pt_version pt + 1"
    "pt_model new = pt_model pt" "pt_shape new = pt_shape pt"
    by (simp_all add: new_def touched_def tidy_placements_def)
  show h: "held_shares new = held_shares pt"
    by (simp add: new_def touched_def tidy_placements_def held_shares_def pt_effective_def)
  have m: "pt_model (tidy_placements pt) = pt_model pt" by (simp add: tidy_placements_def)
  have q: "pool_of ctx new r = pool_of ctx pt r" if "r \<in> rs_region ` set (held_shares pt)" for r
    using pool_of_tidy[OF that, of ctx] pool_of_cong[of new "tidy_placements pt" ctx] sel m by simp
  have "on_pools ctx new hs = on_pools ctx pt hs" if "set hs \<subseteq> set (held_shares pt)" for hs
    using that by (induction hs) (simp_all add: on_pools_Cons q)
  then show po: "pooled ctx new = pooled ctx pt" using h by (simp add: pooled_def)
  show "hold_cost ctx p new = hold_cost ctx p pt" using po sel by (intro ext) (simp add: hold_cost_def)
  show "reservation_ok ctx p new = reservation_ok ctx p pt"
    using h q sel simps by (simp add: reservation_ok_def shares_ok_def pending_ok_def seated_def)
qed

section \<open>Update\<close>

text \<open>A request whose shares, with their headroom, stay below 32 bits.\<close>

definition update_fits :: "service_ctx \<Rightarrow> provisioned_throughput \<Rightarrow> update_request \<Rightarrow> bool" where
  "update_fits ctx a req \<longleftrightarrow> (\<forall>new. up_regions req = Some new \<longrightarrow> fits_u32 ctx (pt_sku a) new)"

text \<open>A request that asks for no longer contexts than the reservation has.\<close>

definition update_narrows :: "provisioned_throughput \<Rightarrow> update_request \<Rightarrow> bool" where
  "update_narrows a req \<longleftrightarrow> context_ceiling (requested_shape req a) \<le> context_ceiling (pt_shape a)"

lemma update_checks_Inr:
  assumes "update_checks ctx st tenant if_match req a = Inr u"
  shows "is_live (pt_state a)" "update_fits ctx a req \<Longrightarrow> up_regions req = Some new \<Longrightarrow> split_ok ctx (pt_sku a) new"
proof -
  show "is_live (pt_state a)"
    using assms by (auto simp: update_checks_def split: if_splits)
  assume fits: "update_fits ctx a req" and new: "up_regions req = Some new"
  have "validate_regions (cx_config ctx) (pt_model a) (pt_sku a) new = Inr ()"
    using assms new by (auto simp: update_checks_def option_check_def split: if_splits sum.splits)
  then show "split_ok ctx (pt_sku a) new" using validated_split_ok fits new by (auto simp: update_fits_def)
qed

lemma session_undo:
  assumes "session model (context_ceiling sh') (sv_planner sv) w" and "plan_good (cx_timestamp_max ctx) (sv_planner sv)"
    and "context_ceiling sh \<le> context_ceiling sh'" and "model = model'"
  shows "undo ctx model' sh (wk_ops w) (wk_planner w) = sv_planner sv"
  using assms undo_restores unfolding session_def by blast

lemma balanced_same:
  assumes "balanced ctx c p\<^sub>0 a cs w" and "plan_good tmax p\<^sub>0" and "wk_pt w = a"
  shows "wk_planner w = p\<^sub>0"
proof (rule planner_eqI)
  note v = session_view[OF balancedD(1)[OF assms(1)] assms(2)]
  show "same_plan (wk_planner w) p\<^sub>0" "planner_ok (wk_planner w)" by (rule v(3), rule v(2))
  show "planner_reserved (wk_planner w) key = planner_reserved p\<^sub>0 key" for key
    using assms(1,3) by (simp add: balanced_def)
qed

text \<open>A balanced reservation that is written keeps the accounts.\<close>

lemma balanced_written:
  assumes acc: "accounted ctx sv" and a: "store_entry (sv_store sv) (pt_id a) = Some a" "is_live (pt_state a)"
    and b: "balanced ctx c (sv_planner sv) a (context_ceiling (pt_shape (wk_pt w))) w"
    and st: "store_write fault (sv_store sv) (touched now (tidy_placements (wk_pt w))) v = Inr st"
  shows "accounted ctx (sv\<lparr>sv_store := st, sv_planner := wk_planner w\<rparr>)"
proof -
  let ?new = "touched now (tidy_placements (wk_pt w))"
  note t = touched_tidy[where pt = "wk_pt w" and now = now]
  note v = session_view[OF balancedD(1)[OF b] accountedD(1)[OF acc]]
  have upd: "store_update (sv_store sv) ?new v = Inr st" using st by (simp add: store_write_def split: option.splits)
  show ?thesis
  proof (rule accounted_update[OF acc v(1,3) upd])
    show "store_entry (sv_store sv) (pt_id ?new) = Some a" using a(1) t(5) balancedD(5)[OF b] by simp
    show "reservation_ok ctx (sv_planner sv) ?new"
      using t(4) balancedD(3,4)[OF b] by (simp add: reservation_ok_def)
    fix key
    have "planner_reserved (wk_planner w) key + hold_cost ctx (sv_planner sv) a key
        = planner_reserved (sv_planner sv) key + hold_cost ctx (sv_planner sv) (wk_pt w) key"
      using b unfolding balanced_def by blast
    then show "planner_reserved (wk_planner w) key + mem_store.live_part (\<lambda>pt. hold_cost ctx (sv_planner sv) pt key) a
        = planner_reserved (sv_planner sv) key + mem_store.live_part (\<lambda>pt. hold_cost ctx (sv_planner sv) pt key) ?new"
      using a(2) t(3,6) balancedD(9)[OF b] by (simp add: mem_store.live_part_def)
  qed
qed

lemma store_get_entry: "store_get st tenant pid = Some a \<Longrightarrow> store_entry st pid = Some a"
  by (auto simp: store_get_def store_entry_def split: option.splits if_splits)

lemma svc_update_result:
  assumes acc: "accounted ctx sv" and a: "store_get (sv_store sv) tenant pid = Some a" and fits: "update_fits ctx a req"
    and r: "svc_update ctx sv now tenant pid if_match req fault = (r, sv')"
  shows "r = Inr pt \<Longrightarrow> accounted ctx sv'" and "r = Inl e \<Longrightarrow> update_narrows a req \<Longrightarrow> sv' = sv"
proof -
  note e = store_get_entry[OF a]
  note ids = accounted_entry[OF acc e]
  have "(\<forall>pt. r = Inr pt \<longrightarrow> accounted ctx sv') \<and> (\<forall>e. r = Inl e \<longrightarrow> update_narrows a req \<longrightarrow> sv' = sv)"
  proof (cases "update_checks ctx (sv_store sv) tenant if_match req a")
    case (Inl e)
    then show ?thesis using a r by (auto simp: svc_update_def)
  next
    case (Inr u)
    note live = update_checks_Inr(1)[OF Inr]
    note good = accountedD(1,2)[OF acc] ids(3)[OF live]
    let ?c = "context_ceiling (pt_shape a)"
    have b: "balanced ctx ?c (sv_planner sv) a ?c (start_work sv a)"
      by (rule balanced_start[OF good(1) ids(2)[OF live]])
    obtain res w where w: "apply_update ctx (sv_store sv) now req (start_work sv a) = (res, w)" by fastforce
    have f: "step_fine ctx (sv_planner sv) a req (context_ceiling (requested_shape req a))
        (\<lambda>_ w'. pt_shape (wk_pt w') = requested_shape req a) (res, w)"
      unfolding w[symmetric]
      by (rule apply_update_fine[OF good b]) (simp add: start_work_def, rule update_checks_Inr(2)[OF Inr fits])
    then have s: "session (pt_model a) ?c (sv_planner sv) w" and sh: "shape_from req a (wk_pt w)"
      by (simp_all add: step_fine_def)
    have undo: "undo ctx (pt_model (wk_pt w)) (pt_shape (wk_pt w)) (wk_ops w) (wk_planner w) = sv_planner sv" if "update_narrows a req"
    proof (rule session_undo[OF s good(1)])
      show "context_ceiling (pt_shape (wk_pt w)) \<le> ?c"
        using sh that by (auto simp: shape_from_def update_narrows_def requested_shape_def)
      show "pt_model a = pt_model (wk_pt w)" using s by (simp add: session_def)
    qed
    note unf = r[unfolded svc_update_def a option.case Inr sum.case w prod.case]
    show ?thesis
    proof (cases res)
      case (Inl e)
      then show ?thesis using unf undo by auto
    next
      case ok: (Inr x)
      have b': "balanced ctx ?c (sv_planner sv) a (context_ceiling (pt_shape (wk_pt w))) w"
        using f ok by (simp add: step_fine_def)
      show ?thesis
      proof (cases "wk_pt w = a")
        case True
        then have "sv' = sv" using unf ok balanced_same[OF b' good(1) True] by simp
        then show ?thesis using acc by simp
      next
        case False
        let ?new = "touched now (tidy_placements (wk_pt w))"
        note t = touched_tidy(8,9)[where pt = "wk_pt w" and now = now]
        show ?thesis
        proof (cases "store_write fault (sv_store sv) ?new (pt_version a)")
          case (Inl e)
          then show ?thesis using unf ok False undo t by (auto simp: Let_def)
        next
          case (Inr st)
          have "accounted ctx (sv\<lparr>sv_store := st, sv_planner := wk_planner w\<rparr>)"
            by (rule balanced_written[OF acc _ live b' Inr]) (use e ids(1) in simp)
          then show ?thesis using unf ok False Inr by (auto simp: Let_def)
        qed
      qed
    qed
  qed
  then show "r = Inr pt \<Longrightarrow> accounted ctx sv'" and "r = Inl e \<Longrightarrow> update_narrows a req \<Longrightarrow> sv' = sv" by blast+
qed

end
