(* ===== verification/Lifecycle.thy ===== *)
theory Lifecycle
  imports Ledger
begin

text \<open>
  The rest of the service's requests keep the capacity ledger: create, delete, an operator's
  move to another pool, and the lifecycle loop, which always ends.
\<close>

declare split_paired_All [simp del] split_paired_Ex [simp del]

section \<open>Create\<close>

definition create_fits :: "service_ctx \<Rightarrow> create_request \<Rightarrow> bool" where
  "create_fits ctx req \<longleftrightarrow> fits_u32 ctx (cr_sku req) (cr_regions req)"

lemma answers_fields:
  "list_all2 answers cs placed \<Longrightarrow> map ps_region placed = map cl_region cs \<and> map ps_cus placed = map cl_cus cs"
proof (induction cs arbitrary: placed)
  case (Cons c cs)
  then obtain y zs where y: "placed = y # zs" "answers c y" "list_all2 answers cs zs" by (auto simp: list_all2_Cons1)
  from y(2) have "ps_region y = cl_region c" "ps_cus y = cl_cus c" by (simp_all add: answers_def)
  then show ?case using y(1) Cons.IH[OF y(3)] by simp
qed simp

lemma unplaced_fields: "map cl_region (unplaced ss) = map rs_region ss" "map cl_cus (unplaced ss) = map rs_cus ss"
  by (simp_all add: unplaced_def)

lemma create_checks_Inr:
  assumes "create_checks ctx st now tenant req = Inr start"
  shows "validate_regions (cx_config ctx) (cr_model req) (cr_sku req) (cr_regions req) = Inr ()"
  using assms by (auto simp: create_checks_def validate_create_def split: sum.splits)

lemma new_reservation_fields:
  fixes ctx now suffix tenant key start req
  defines "n \<equiv> new_reservation ctx now suffix tenant key start req"
  shows "pt_model n = cr_model req" "pt_tier n = cr_tier req" "pt_sku n = cr_sku req" "pt_regions n = cr_regions req"
    "pt_shape n = cr_shape req" "pt_pending_changes n = None" "is_live (pt_state n)"
    "held_shares n = footprint (cr_regions req) (svc_headroom ctx (cr_sku req) (cr_regions req))"
  by (simp_all add: n_def new_reservation_def Let_def held_shares_def pt_effective_def is_live_def)

text \<open>A new reservation holds exactly what the planner placed for it.\<close>

lemma new_reservation_placed:
  fixes now suffix tenant key start
  assumes split: "split_ok ctx (cr_sku req) (cr_regions req)"
    and ans: "list_all2 answers (unplaced (footprint (cr_regions req) (svc_headroom ctx (cr_sku req) (cr_regions req)))) placed"
    and seats: "\<forall>s\<in>set placed. seat p (cr_model req) (context_ceiling (cr_shape req)) (cr_tier req) (share_key s)"
  defines "pt \<equiv> record_placements placed (new_reservation ctx now suffix tenant key start req)"
  shows "reservation_ok ctx p pt" "hold_cost ctx p pt key' = shares_cost (planner_cost p) (cr_tier req) placed key'"
    "is_live (pt_state pt)" "pt_tier pt = cr_tier req"
proof -
  let ?n = "new_reservation ctx now suffix tenant key start req"
    and ?t = "footprint (cr_regions req) (svc_headroom ctx (cr_sku req) (cr_regions req))"
  note n = new_reservation_fields[where ctx = ctx and now = now and suffix = suffix and tenant = tenant and key = key
      and start = start and req = req]
  note t = split_ok_footprint[OF split]
  have f: "map ps_region placed = map rs_region ?t" "map ps_cus placed = map rs_cus ?t"
    using answers_fields[OF ans] by (simp_all add: unplaced_fields)
  have d: "distinct (map ps_region placed)" using f t(1) by simp
  have sel: "pt_model pt = cr_model req" "pt_tier pt = cr_tier req" "pt_sku pt = cr_sku req" "pt_regions pt = cr_regions req"
    "pt_shape pt = cr_shape req" "pt_pending_changes pt = None" "is_live (pt_state pt)" "held_shares pt = ?t"
    using n by (simp_all add: pt_def) (simp_all add: record_placements_def)
  have pool: "pool_of ctx pt (ps_region s) = Some (ps_pool s)" if "s \<in> set placed" for s
    unfolding pt_def by (rule pool_of_record(1)[OF d that])
  have po: "pooled ctx pt = placed"
    unfolding pooled_def sel(8) by (rule on_pools_placed[OF f]) (rule pool)
  then show "hold_cost ctx p pt key' = shares_cost (planner_cost p) (cr_tier req) placed key'"
    using sel(2) by (simp add: hold_cost_def)
  have "seated ctx p (context_ceiling (pt_shape pt)) pt"
    unfolding seated_def sel(8)
  proof
    fix r assume "r \<in> rs_region ` set ?t"
    then have "r \<in> ps_region ` set placed" using f(1) by (metis list.set_map)
    then obtain s where "s \<in> set placed" "r = ps_region s" by blast
    then show "\<exists>q. pool_of ctx pt r = Some q \<and> seat p (pt_model pt) (context_ceiling (pt_shape pt)) (pt_tier pt) (r, q)"
      using pool[of s] seats unfolding sel by (auto simp: share_key_def)
  qed
  moreover have "shares_ok ctx pt" using split t sel by (simp add: shares_ok_def pending_ok_def)
  ultimately show "reservation_ok ctx p pt" by (simp add: reservation_ok_def)
  show "is_live (pt_state pt)" "pt_tier pt = cr_tier req" by (rule sel)+
qed

lemma accounted_insert:
  assumes acc: "accounted ctx sv" and p: "plan_good (cx_timestamp_max ctx) p" "same_plan p (sv_planner sv)"
    and st: "store_insert (sv_store sv) pt = Inr st"
    and ok: "reservation_ok ctx (sv_planner sv) pt" and live: "is_live (pt_state pt)"
    and grow: "\<And>key. planner_reserved p key = planner_reserved (sv_planner sv) key + hold_cost ctx (sv_planner sv) pt key"
  shows "accounted ctx (sv\<lparr>sv_store := st, sv_planner := p\<rparr>)"
proof (rule accounted_put[OF acc p _ _ ok])
  note d = mem_store.insert_done[OF accountedD(3)[OF acc] st]
  show "store_ok st" "store_entry st = (store_entry (sv_store sv))(pt_id pt \<mapsto> pt)" using d by blast+
  show "mem_store.live_sum f st + planner_reserved (sv_planner sv) key = mem_store.live_sum f (sv_store sv) + planner_reserved p key"
    if f: "f = (\<lambda>pt. hold_cost ctx (sv_planner sv) pt key)" for f key
    using mem_store.live_sum_insert[OF accountedD(3)[OF acc] st, of f] grow[of key] live
    unfolding f mem_store.live_part_def by simp
qed

lemma accounted_reservations:
  assumes "accounted ctx (sv\<lparr>sv_store := st, sv_planner := p\<rparr>)" and "ms_by_id st' = ms_by_id st"
  shows "accounted ctx (sv\<lparr>sv_store := st', sv_planner := p\<rparr>)"
  using assms by (simp add: accounted_def store_ok_def list_live_def mem_store.live_sum_def)

lemma idempotency_put_reservations: "idempotency_put st tenant k r = Inr st' \<Longrightarrow> ms_by_id st' = ms_by_id st"
  by (auto simp: idempotency_put_def split: if_splits)

lemma svc_create_result:
  assumes acc: "accounted ctx sv" and fits: "create_fits ctx req"
    and r: "svc_create ctx sha256_hex sv now suffix ids tenant idem fingerprint req fault = (r, sv')"
  shows "accounted ctx sv'" and "r = Inl e \<Longrightarrow> sv' = sv"
proof -
  have "accounted ctx sv' \<and> (\<forall>e. r = Inl e \<longrightarrow> sv' = sv)"
  proof (cases "create_replay (sv_store sv) tenant idem fingerprint")
    case (Some x)
    then show ?thesis using r acc by (auto simp: svc_create_def)
  next
    case None
    show ?thesis
    proof (cases "create_checks ctx (sv_store sv) now tenant req")
      case (Inl e)
      then show ?thesis using r acc None by (auto simp: svc_create_def)
    next
      case (Inr start)
      note unf = r[unfolded svc_create_def None option.case Inr sum.case]
      let ?claims = "unplaced (footprint (cr_regions req) (svc_headroom ctx (cr_sku req) (cr_regions req)))"
      note a = accountedD[OF acc]
      have split: "split_ok ctx (cr_sku req) (cr_regions req)"
        by (rule validated_split_ok[OF create_checks_Inr[OF Inr]]) (use fits in \<open>simp add: create_fits_def\<close>)
      from plan_reserve_cases[OF a(4), of "cr_model req" "cr_tier req" ?claims "cr_shape req" start] show ?thesis
      proof cases
        case (1 e)
        then show ?thesis using unf acc by auto
      next
        case (2 placed p)
        obtain secret key where k: "issue_key sha256_hex ids now = (secret, key)" by fastforce
        let ?pt = "record_placements placed (new_reservation ctx now suffix tenant key start req)"
        note good = plan_good_reserve[OF a(1) 2(2)] reserve_same_plan[OF a(4) 2(2)]
        note new = new_reservation_placed[OF split planner_reserve_done(3)[OF a(4) 2(2)] planner_reserve_seats[OF 2(2)],
            where now = now and suffix = suffix and tenant = tenant and key = key and start = start]
        note unf' = unf[unfolded 2(1) prod.case sum.case k Let_def]
        show ?thesis
        proof (cases "case fault of Some e \<Rightarrow> Inl e | None \<Rightarrow> store_insert (sv_store sv) ?pt")
          case (Inl e)
          have "planner_release p (pt_tier ?pt) placed = sv_planner sv"
            unfolding new(4) by (rule reserve_then_release_same[OF a(4) 2(2)])
          then show ?thesis using unf' Inl acc by auto
        next
          case ins: (Inr st)
          have grow: "planner_reserved p key = planner_reserved (sv_planner sv) key + hold_cost ctx (sv_planner sv) ?pt key" for key
            using mem_planner.reserve_done[OF a(4) 2(2), of key] new(2)[of key] by simp
          have "store_insert (sv_store sv) ?pt = Inr st" using ins by (simp split: option.splits)
          from accounted_insert[OF acc good this new(1,3) grow]
          have "accounted ctx (sv\<lparr>sv_store := st, sv_planner := p\<rparr>)" .
          then have "accounted ctx (sv\<lparr>sv_store := st', sv_planner := p\<rparr>)" if "ms_by_id st' = ms_by_id st" for st'
            using that by (rule accounted_reservations)
          then show ?thesis
            using unf' ins idempotency_put_reservations by (auto split: option.splits sum.splits)
        qed
      qed
    qed
  qed
  then show "accounted ctx sv'" and "r = Inl e \<Longrightarrow> sv' = sv" by blast+
qed

section \<open>Delete\<close>

text \<open>Fields that decide what is held and whether it is well formed.\<close>

lemma same_holding:
  assumes "pt_model b = pt_model a" "pt_tier b = pt_tier a" "pt_sku b = pt_sku a" "pt_regions b = pt_regions a"
    "pt_effective_regions b = pt_effective_regions a" "pt_failover_headroom b = pt_failover_headroom a"
    "pt_placements b = pt_placements a"
  shows "pooled ctx b = pooled ctx a" "hold_cost ctx p b = hold_cost ctx p a"
    "pt_shape b = pt_shape a \<Longrightarrow> pending_ok ctx b \<Longrightarrow> reservation_ok ctx p a \<Longrightarrow> reservation_ok ctx p b"
proof -
  have h: "held_shares b = held_shares a" using assms by (simp add: held_shares_def pt_effective_def)
  have q: "pool_of ctx b = pool_of ctx a" using assms by (intro pool_of_cong)
  show po: "pooled ctx b = pooled ctx a" using h q by (simp add: pooled_def on_pools_def)
  show "hold_cost ctx p b = hold_cost ctx p a" using po assms(2) by (intro ext) (simp add: hold_cost_def)
  show "reservation_ok ctx p b" if "pt_shape b = pt_shape a" "pending_ok ctx b" "reservation_ok ctx p a"
    using that assms h q by (simp add: reservation_ok_def shares_ok_def seated_def)
qed

lemma store_write_Inr: "store_write fault st pt v = Inr st' \<Longrightarrow> store_update st pt v = Inr st'"
  by (simp add: store_write_def split: option.splits)

lemma released_whole:
  assumes "accounted ctx sv" and "backed ctx (sv_planner sv) (sv_planner sv) a"
  defines "p \<equiv> planner_release (sv_planner sv) (pt_tier a) (pooled ctx a)"
  shows "plan_good (cx_timestamp_max ctx) p" "same_plan p (sv_planner sv)"
    "planner_reserved p key + hold_cost ctx (sv_planner sv) a key = planner_reserved (sv_planner sv) key"
proof -
  note a = accountedD[OF assms(1)]
  show "plan_good (cx_timestamp_max ctx) p" "same_plan p (sv_planner sv)"
    unfolding p_def by (rule plan_good_release[OF a(1)], rule release_same_plan[OF a(4)])
  have "hold_cost ctx (sv_planner sv) a key \<le> planner_reserved (sv_planner sv) key" using assms(2) by (simp add: backed_def)
  then show "planner_reserved p key + hold_cost ctx (sv_planner sv) a key = planner_reserved (sv_planner sv) key"
    using planner_release_done(4)[OF a(4), of "pt_tier a" "pooled ctx a" key] by (simp add: p_def hold_cost_def)
qed

lemma svc_delete_result:
  assumes acc: "accounted ctx sv" and r: "svc_delete ctx sv now tenant pid if_match fault = (r, sv')"
  shows "accounted ctx sv'" and "r = Inl e \<Longrightarrow> sv' = sv"
proof -
  have "accounted ctx sv' \<and> (\<forall>e. r = Inl e \<longrightarrow> sv' = sv)"
  proof (cases "store_get (sv_store sv) tenant pid")
    case None
    then show ?thesis using r acc by (auto simp: svc_delete_def)
  next
    case (Some a)
    note e = store_get_entry[OF Some]
    note ids = accounted_entry[OF acc e]
    show ?thesis
    proof (cases "check_version a if_match = Inr () \<and> (pt_state a = Scheduled \<or> pt_state a = Active)")
      case False
      then have "sv' = sv"
        using r Some by (cases "pt_state a") (auto simp: svc_delete_def split: sum.splits)
      then show ?thesis using acc by simp
    next
      case True
      then have live: "is_live (pt_state a)" by (auto simp: is_live_def)
      define new where "new = touched now (if pt_state a = Scheduled
          then push_event now EvCancelled (a\<lparr>pt_state := Cancelled, pt_pending_changes := None\<rparr>)
          else push_event now (EvCancellationRequested (pt_term_end a))
                 (a\<lparr>pt_state := PendingCancellation, pt_auto_renew := False, pt_pending_changes := None\<rparr>))"
      let ?p = "if pt_state a = Scheduled then planner_release (sv_planner sv) (pt_tier new) (pooled ctx new) else sv_planner sv"
      have sel: "pt_model new = pt_model a" "pt_tier new = pt_tier a" "pt_sku new = pt_sku a" "pt_regions new = pt_regions a"
        "pt_effective_regions new = pt_effective_regions a" "pt_failover_headroom new = pt_failover_headroom a"
        "pt_placements new = pt_placements a" "pt_id new = pid" "pt_shape new = pt_shape a" "pt_pending_changes new = None"
        "is_live (pt_state new) \<longleftrightarrow> pt_state a \<noteq> Scheduled"
        using ids(1) by (simp_all add: new_def touched_def push_event_def is_live_def)
      note same = same_holding[OF sel(1-7)]
      show ?thesis
      proof (cases "store_write fault (sv_store sv) new (pt_version a)")
        case (Inl e)
        then have "sv' = sv" using r Some True by (auto simp: svc_delete_def new_def Let_def split: sum.splits)
        then show ?thesis using acc by simp
      next
        case (Inr st)
        have sv': "sv' = svc_bump now (sv\<lparr>sv_store := st, sv_planner := ?p\<rparr>)" "\<exists>x. r = Inr x"
          using r Some True Inr by (auto simp: svc_delete_def new_def Let_def split: sum.splits)
        note rel = released_whole[OF acc ids(3)[OF live]]
        have ok: "reservation_ok ctx (sv_planner sv) new"
          by (rule same(3)[OF sel(9) _ ids(2)[OF live]]) (simp add: pending_ok_def sel(10))
        have "accounted ctx (sv\<lparr>sv_store := st, sv_planner := ?p\<rparr>)"
          by (rule accounted_update[OF acc _ _ store_write_Inr[OF Inr], where a = a])
            (use rel ok e sel same(1,2) live accountedD(1)[OF acc] in \<open>simp_all add: mem_store.live_part_def\<close>)
        then show ?thesis using sv' by auto
      qed
    qed
  qed
  then show "accounted ctx sv'" and "r = Inl e \<Longrightarrow> sv' = sv" by blast+
qed

section \<open>An operator's move\<close>

lemma relocate_balanced:
  assumes acc: "accounted ctx sv" and a: "reservation_ok ctx (sv_planner sv) a" "backed ctx (sv_planner sv) (sv_planner sv) a"
    and held: "find (\<lambda>s. rs_region s = region) (held_shares a) = Some share"
  obtains e where "relocate ctx now region (rs_cus share) to (pt_shape a) start (start_work sv a) = (Inl e, start_work sv a)"
  | w where "relocate ctx now region (rs_cus share) to (pt_shape a) start (start_work sv a) = (Inr (), w)"
      "balanced ctx (context_ceiling (pt_shape a)) (sv_planner sv) a (context_ceiling (pt_shape (wk_pt w))) w"
proof -
  let ?w = "start_work sv a" and ?c = "context_ceiling (pt_shape a)" and ?p = "sv_planner sv"
  note good = accountedD(1)[OF acc]
  have w: "wk_pt ?w = a" "wk_planner ?w = ?p" by (simp_all add: start_work_def)
  have b: "balanced ctx ?c ?p a ?c ?w" by (rule balanced_start[OF good a(1)])
  have d: "distinct (map rs_region (held_shares a))" using a(1) by (simp add: reservation_ok_def shares_ok_def)
  have reg: "region \<in> rs_region ` set (held_shares a)" "share_of (held_shares a) region = rs_cus share"
    using held find_SomeD[OF held] by (auto simp: share_of_def)
  from balancedD(4)[OF b] reg(1) obtain q where q: "pool_of ctx a region = Some q" "seat ?p (pt_model a) ?c (pt_tier a) (region, q)"
    unfolding seated_def w by blast
  let ?n = "share_cost ?p (pt_tier a) region q (rs_cus share)"
  have H: "hold_at ctx ?p a (share_of (held_shares a)) key = charge (region, q) ?n key" if "fst key = region" for key
    using that q(1) reg(2) by (cases key) (auto simp: hold_at_def charge_def)
  have le: "?n \<le> planner_reserved ?p (region, q)"
    using a(2) H[of "(region, q)"] unfolding backed_def hold_cost_at[OF d] by (simp add: charge_def) (metis)
  have n: "?n = share_cost ?p (pt_tier a) region q (share_of (held_shares a) region)" by (simp add: reg(2))
  from relocate_effect[OF balancedD(1)[OF b] good, unfolded w, OF d reg(1) q n le, of now "rs_cus share" to "pt_shape a" start]
  show thesis
  proof cases
    case (1 e)
    then show thesis using that(1) by blast
  next
    case (2 q' w')
    let ?shs = "[\<lparr>ps_region = region, ps_pool = q', ps_cus = rs_cus share\<rparr>]"
    have mv: "moved_from a (wk_pt w')" unfolding 2(3) by (intro moved_from_step moved_from_refl)
    note same = moved_fromD[OF mv]
    have pools: "pool_of ctx (wk_pt w') region = Some q'" "\<And>x. x \<noteq> region \<Longrightarrow> pool_of ctx (wk_pt w') x = pool_of ctx a x"
      using pool_of_record[of ?shs, where ctx = ctx and pt = a] by (simp_all add: 2(3))
    have "grown ctx (pt_model a) ?c ?c ?p ?p a (held_shares a) (insert region {}) w'"
    proof (rule grown_insert[OF grown_start[OF balancedD(1)[OF b], unfolded w] _ 2(2) mv pools(1) _ 2(4)])
      show "pool_of ctx (wk_pt w') x = pool_of ctx (wk_pt ?w) x" if "x \<noteq> region" for x using pools(2)[OF that] w by simp
      show "planner_reserved (wk_planner w') key + (if fst key = region then hold_at ctx ?p a (share_of (held_shares a)) key else 0)
          = planner_reserved (wk_planner ?w) key
            + charge (region, q') (share_cost ?p (pt_tier a) region q' (share_of (held_shares a) region)) key" for key
        using 2(6)[of key] H[of key] reg(2) w by (auto simp: charge_def split: if_splits)
    qed simp
    then have moved: "planner_reserved (wk_planner w') key + hold_at ctx ?p a (share_of (held_shares a)) key
        = planner_reserved ?p key + hold_at ctx ?p (wk_pt w') (share_of (held_shares a)) key" for key
      unfolding grown_def if_cancel by (cases key) blast
    have d': "distinct (map rs_region (held_shares (wk_pt w')))" using d same(3) by simp
    have "seated ctx ?p ?c (wk_pt w')"
      unfolding seated_def same(1-3)
    proof
      fix r assume r: "r \<in> rs_region ` set (held_shares a)"
      show "\<exists>q. pool_of ctx (wk_pt w') r = Some q \<and> seat ?p (pt_model a) ?c (pt_tier a) (r, q)"
        using pools 2(4) balancedD(4)[OF b] r unfolding seated_def w by (cases "r = region") auto
    qed
    moreover have "shares_ok ctx (wk_pt w')"
      using a(1) same by (simp add: reservation_ok_def shares_ok_def pending_ok_def)
    ultimately have "balanced ctx ?c ?p a ?c w'"
      using 2(2) moved same unfolding balanced_def hold_cost_at[OF d] hold_cost_at[OF d'] by simp
    then show thesis using that(2)[OF 2(1)] same(6) by simp
  qed
qed

lemma sv_swap: "sv\<lparr>sv_planner := p, sv_store := st\<rparr> = sv\<lparr>sv_store := st, sv_planner := p\<rparr>"
  by (cases sv) simp

lemma svc_move_to_pool_result:
  assumes acc: "accounted ctx sv" and r: "svc_move_to_pool ctx sv now pid region pool fault = (r, sv')"
  shows "accounted ctx sv'" and "r = Inl e \<Longrightarrow> sv' = sv"
proof -
  have "accounted ctx sv' \<and> (\<forall>e. r = Inl e \<longrightarrow> sv' = sv)"
  proof (cases "find_live (sv_store sv) pid")
    case None
    then show ?thesis using r acc by (auto simp: svc_move_to_pool_def)
  next
    case (Some a)
    have l: "a \<in> set (list_live (sv_store sv))" using find_SomeD[OF Some[unfolded find_live_def]] by simp
    then have e: "store_entry (sv_store sv) (pt_id a) = Some a" "is_live (pt_state a)"
      using list_live_iff[OF accountedD(3)[OF acc]] by simp_all
    note ids = accounted_entry[OF acc e(1)]
    show ?thesis
    proof (cases "find (\<lambda>s. rs_region s = region) (held_shares a)")
      case None
      then show ?thesis using r acc Some by (auto simp: svc_move_to_pool_def)
    next
      case share: (Some share)
      note unf = r[unfolded svc_move_to_pool_def Some option.case share]
      from relocate_balanced[OF acc ids(2)[OF e(2)] ids(3)[OF e(2)] share, of now "Some pool" "max (pt_term_start a) now"]
      show ?thesis
      proof cases
        case (1 e)
        have "undo ctx (pt_model a) (pt_shape a) (wk_ops (start_work sv a)) (wk_planner (start_work sv a)) = sv_planner sv"
          by (simp add: undo_def start_work_def)
        then show ?thesis using unf acc 1 by (auto split: if_splits)
      next
        case (2 w)
        note u = session_undo[OF balancedD(1)[OF 2(2)] accountedD(1)[OF acc] order_refl refl]
        show ?thesis
        proof (cases "store_write fault (sv_store sv) (touched now (tidy_placements (wk_pt w))) (pt_version a)")
          case (Inl e)
          then show ?thesis using unf acc 2(1) u by (auto simp: svc_persist_def Let_def split: if_splits)
        next
          case (Inr st)
          from balanced_written[OF acc e 2(2) Inr] show ?thesis
            using unf acc 2(1) Inr by (auto simp: svc_persist_def Let_def sv_swap split: if_splits)
        qed
      qed
    qed
  qed
  then show "accounted ctx sv'" and "r = Inl e \<Longrightarrow> sv' = sv" by blast+
qed

section \<open>The lifecycle loop ends\<close>

text \<open>The calendar of the time library: adding months to a date that has come leads forward.\<close>

definition forward_calendar :: "service_ctx \<Rightarrow> timestamp \<Rightarrow> bool" where
  "forward_calendar ctx now \<longleftrightarrow> (\<forall>t m. t \<le> now \<longrightarrow> 0 < m \<longrightarrow> t < cx_add_months ctx t m)"

lemma months_pos: "0 < months t"
  by (cases t) simp_all

lemma renew_regions_fields:
  "pt_term_end (wk_pt (renew_regions ctx now pend w)) = pt_term_end (wk_pt w)"
  "pt_term_months (wk_pt (renew_regions ctx now pend w)) = pt_term_months (wk_pt w)"
  "pt_state (wk_pt (renew_regions ctx now pend w)) = pt_state (wk_pt w)"
  by (simp_all add: renew_regions_def Let_def record_placements_def push_event_def split: option.split prod.split sum.split)

lemma renew_tier_fields:
  "pt_term_end (wk_pt (renew_tier ctx now pend w)) = pt_term_end (wk_pt w)"
  "pt_term_months (wk_pt (renew_tier ctx now pend w)) = pt_term_months (wk_pt w)"
  "pt_state (wk_pt (renew_tier ctx now pend w)) = pt_state (wk_pt w)"
  by (simp_all add: renew_tier_def Let_def push_event_def split: option.split prod.split sum.split)

lemma renew_fields:
  "pt_term_end (wk_pt (renew ctx now w)) = cx_add_months ctx (pt_term_end (wk_pt w)) (months (pt_term_months (wk_pt w)))"
  "pt_term_start (wk_pt (renew ctx now w)) = pt_term_end (wk_pt w)"
  "pt_state (wk_pt (renew ctx now w)) = pt_state (wk_pt w)"
proof -
  have c: "pt_term_end (wk_pt (renew_changes ctx now w)) = pt_term_end (wk_pt w)"
    "pt_term_months (wk_pt (renew_changes ctx now w)) = pt_term_months (wk_pt w)"
    "pt_state (wk_pt (renew_changes ctx now w)) = pt_state (wk_pt w)"
    by (simp_all add: renew_changes_def Let_def push_event_def renew_tier_fields renew_regions_fields split: option.split)
  show "pt_term_end (wk_pt (renew ctx now w)) = cx_add_months ctx (pt_term_end (wk_pt w)) (months (pt_term_months (wk_pt w)))"
    "pt_term_start (wk_pt (renew ctx now w)) = pt_term_end (wk_pt w)" "pt_state (wk_pt (renew ctx now w)) = pt_state (wk_pt w)"
    by (simp_all add: renew_def next_term_def refresh_totals_def Let_def push_event_def c)
qed

lemma end_term_fields: "pt_state (wk_pt (end_term ctx w)) = Ended"
  by (simp add: end_term_def Let_def push_event_def)

text \<open>Every turn ends the reservation or moves the end of its term forward.\<close>

lemma lifecycle_loop_rule:
  assumes cal: "forward_calendar ctx now" and I: "I w"
    and turn: "\<And>w rep. I w \<Longrightarrow> term_due now (wk_pt w) \<Longrightarrow> I (fst (lifecycle_turn ctx now (w, rep)))"
  shows "\<exists>w' rep'. lifecycle_loop ctx now (w, rep) = Some (w', rep') \<and> I w' \<and> \<not> term_due now (wk_pt w')"
  using I
proof (induction "nat (now - pt_term_end (wk_pt w) + 1)" arbitrary: w rep rule: less_induct)
  case less
  show ?case
  proof (cases "term_due now (wk_pt w)")
    case False
    then show ?thesis using less.prems by (simp add: lifecycle_loop.simps)
  next
    case True
    obtain w1 rep1 where w1: "lifecycle_turn ctx now (w, rep) = (w1, rep1)" by fastforce
    have I1: "I w1" using turn[OF less.prems True, of rep] w1 by simp
    have step: "lifecycle_loop ctx now (w, rep) = lifecycle_loop ctx now (w1, rep1)"
      using True w1 by (simp add: lifecycle_loop.simps)
    show ?thesis
    proof (cases "pt_state (wk_pt w) = Active \<and> pt_auto_renew (wk_pt w)")
      case renews: True
      then have "w1 = renew ctx now w" using w1 by (auto simp: lifecycle_turn_def)
      moreover have "pt_term_end (wk_pt w) < cx_add_months ctx (pt_term_end (wk_pt w)) (months (pt_term_months (wk_pt w)))"
        using cal True months_pos by (simp add: forward_calendar_def term_due_def)
      ultimately have "nat (now - pt_term_end (wk_pt w1) + 1) < nat (now - pt_term_end (wk_pt w) + 1)"
        using True by (simp add: renew_fields term_due_def)
      from less.hyps[OF this I1] show ?thesis unfolding step .
    next
      case False
      then have "w1 = end_term ctx w" using w1 by (auto simp: lifecycle_turn_def)
      then have "\<not> term_due now (wk_pt w1)" by (simp add: term_due_def end_term_fields)
      then show ?thesis using I1 unfolding step by (simp add: lifecycle_loop.simps)
    qed
  qed
qed

section \<open>A renewal keeps the balance\<close>

lemma retake_same:
  assumes b: "balanced ctx c p\<^sub>0 a c w" and good: "plan_good (cx_timestamp_max ctx) p\<^sub>0" "backed ctx p\<^sub>0 p\<^sub>0 a"
    and c: "context_ceiling (pt_shape (wk_pt w)) \<le> c"
  shows "snd (plan_reserve (planner_release (wk_planner w) (pt_tier (wk_pt w)) (pooled ctx (wk_pt w))) (pt_model (wk_pt w))
           (pt_tier (wk_pt w)) (as_claims (pooled ctx (wk_pt w))) (pt_shape (wk_pt w)) (cx_timestamp_max ctx)) = wk_planner w"
proof -
  let ?pt = "wk_pt w" and ?shs = "pooled ctx (wk_pt w)"
  note v = session_view[OF balancedD(1)[OF b] good(1)]
  have "planner_reserve (planner_release (wk_planner w) (pt_tier ?pt) ?shs) (pt_model ?pt) (pt_tier ?pt) (as_claims ?shs)
      (pt_shape ?pt) (cx_timestamp_max ctx) = Some (Inr ?shs, wk_planner w)"
  proof (rule release_then_reserve_same)
    show "planner_ok (wk_planner w)" "within_final (cx_timestamp_max ctx) (wk_planner w)" using v(1) by (simp_all add: plan_good_def)
    show "\<forall>s\<in>set ?shs. seat (wk_planner w) (pt_model ?pt) (context_ceiling (pt_shape ?pt)) (pt_tier ?pt) (share_key s)"
      using pooled_seats[OF balancedD(4)[OF b]] seat_ceiling[OF _ c] seat_same_plan[OF same_plan_sym[OF v(3)]] by blast
    show "shares_cost (planner_cost (wk_planner w)) (pt_tier ?pt) ?shs key \<le> planner_reserved (wk_planner w) key" for key
      using balanced_backed[OF b good(2)] v(4) by (simp add: backed_def hold_cost_def)
  qed
  from plan_reserve_Some[OF this] show ?thesis by simp
qed

text \<open>A running reservation in balance, with the shape it started with.\<close>

definition running :: "service_ctx \<Rightarrow> memory_planner \<Rightarrow> provisioned_throughput \<Rightarrow> work \<Rightarrow> bool" where
  "running ctx p\<^sub>0 a w \<longleftrightarrow> balanced ctx (context_ceiling (pt_shape a)) p\<^sub>0 a (context_ceiling (pt_shape a)) w
     \<and> pt_shape (wk_pt w) = pt_shape a"

lemma running_neutral:
  assumes "running ctx p\<^sub>0 a w" and "neutral (wk_pt w) pt" and "pending_ok ctx pt" and "pt_shape pt = pt_shape (wk_pt w)"
  shows "running ctx p\<^sub>0 a (w\<lparr>wk_pt := pt\<rparr>)"
  using assms balanced_neutral by (simp add: running_def)

lemma pending_ok_None: "pt_pending_changes pt = None \<Longrightarrow> pending_ok ctx pt"
  by (simp add: pending_ok_def)

lemma pushed_running:
  assumes "running ctx p\<^sub>0 a w" and "pt_pending_changes (wk_pt w) = None"
  shows "running ctx p\<^sub>0 a (w\<lparr>wk_pt := push_event t k (wk_pt w)\<rparr>)"
  by (rule running_neutral[OF assms(1)]) (use assms(2) in \<open>simp_all add: pending_ok_None push_event_def neutral_def\<close>)

lemma exchange_planner:
  assumes "work_reserve m t cs sh start (work_release t' shs w) = (r, w')"
  shows "r = Inl e \<Longrightarrow> w' = work_release t' shs w \<Longrightarrow>
      plan_reserve (planner_release (wk_planner w) t' shs) m t cs sh start = (Inl e, planner_release (wk_planner w) t' shs)"
    and "r = Inr placed \<Longrightarrow> \<exists>p. plan_reserve (planner_release (wk_planner w) t' shs) m t cs sh start = (Inr placed, p)
      \<and> w' = w\<lparr>wk_planner := p, wk_ops := wk_ops w @ [Released t' shs, Reserved t placed]\<rparr>"
  using assms by (cases w; auto simp: work_reserve_def work_release_def split: prod.splits sum.splits)+

lemma renew_regions_running:
  assumes run: "running ctx p\<^sub>0 a w" "pt_pending_changes (wk_pt w) = None"
    and good: "plan_good (cx_timestamp_max ctx) p\<^sub>0" "backed ctx p\<^sub>0 p\<^sub>0 a"
    and new: "\<And>new. pc_regions pend = Some new \<Longrightarrow> split_ok ctx (pt_sku (wk_pt w)) new"
  shows "running ctx p\<^sub>0 a (renew_regions ctx now pend w)" "pt_pending_changes (wk_pt (renew_regions ctx now pend w)) = None"
proof -
  let ?c = "context_ceiling (pt_shape a)" and ?pt = "wk_pt w" and ?w' = "renew_regions ctx now pend w"
  have b: "balanced ctx ?c p\<^sub>0 a ?c w" and sh: "pt_shape ?pt = pt_shape a" using run(1) by (simp_all add: running_def)
  have "running ctx p\<^sub>0 a ?w' \<and> pt_pending_changes (wk_pt ?w') = None"
  proof (cases "\<exists>rs. pc_regions pend = Some rs \<and> rs \<noteq> pt_regions ?pt")
    case False
    then have "?w' = w" by (auto simp: renew_regions_def Let_def split: option.split)
    then show ?thesis using run by simp
  next
    case True
    then obtain rs where rs: "pc_regions pend = Some rs" "rs \<noteq> pt_regions ?pt" by blast
    let ?hr = "svc_headroom ctx (pt_sku ?pt) rs"
    let ?cs = "claims_for ctx ?pt (footprint rs ?hr)"
    let ?new = "\<lambda>placed. (record_placements placed ?pt)\<lparr>pt_regions := rs, pt_effective_regions := [], pt_failover_headroom := ?hr\<rparr>"
    have unf: "?w' = (case plan_reserve (planner_release (wk_planner w) (pt_tier ?pt) (pooled ctx ?pt)) (pt_model ?pt) (pt_tier ?pt) ?cs
          (pt_shape ?pt) (pt_term_end ?pt) of
        (Inr placed, p) \<Rightarrow> w\<lparr>wk_planner := p, wk_ops := wk_ops w @ [Released (pt_tier ?pt) (pooled ctx ?pt), Reserved (pt_tier ?pt) placed],
            wk_pt := ?new placed\<rparr>
      | (Inl e, p) \<Rightarrow> w\<lparr>wk_planner := snd (plan_reserve p (pt_model ?pt) (pt_tier ?pt) (as_claims (pooled ctx ?pt)) (pt_shape ?pt)
              (cx_timestamp_max ctx)),
            wk_pt := push_event now (EvScheduledChangeFailed (cx_plan_error_text ctx e)) ?pt\<rparr>)"
      using rs by (simp add: renew_regions_def Let_def)
    from exchange_cases[OF good b, of "pt_tier ?pt" ?cs "pt_shape ?pt" "pt_term_end ?pt"] show ?thesis
    proof cases
      case (1 e)
      then have "plan_reserve (planner_release (wk_planner w) (pt_tier ?pt) (pooled ctx ?pt)) (pt_model ?pt) (pt_tier ?pt) ?cs
          (pt_shape ?pt) (pt_term_end ?pt) = (Inl e, planner_release (wk_planner w) (pt_tier ?pt) (pooled ctx ?pt))"
        using exchange_planner(1) by blast
      then have "?w' = w\<lparr>wk_pt := push_event now (EvScheduledChangeFailed (cx_plan_error_text ctx e)) ?pt\<rparr>"
        using unf retake_same[OF b good] sh by simp
      then show ?thesis using pushed_running[OF run] run(2) by (simp add: push_event_def)
    next
      case (2 placed w2)
      from exchange_planner(2)[OF 2(1) refl] have "?w' = w2\<lparr>wk_pt := ?new placed\<rparr>" unfolding unf by auto
      moreover have "balanced ctx ?c p\<^sub>0 a ?c (w2\<lparr>wk_pt := ?new placed\<rparr>)"
        using resplit_balanced[OF b 2(2,3) new[OF rs(1)] refl 2(4-6)] sh by simp
      ultimately show ?thesis using sh run(2) by (simp add: running_def record_placements_def)
    qed
  qed
  then show "running ctx p\<^sub>0 a ?w'" "pt_pending_changes (wk_pt ?w') = None" by blast+
qed

lemma renew_tier_running:
  assumes run: "running ctx p\<^sub>0 a w" "pt_pending_changes (wk_pt w) = None"
    and good: "plan_good (cx_timestamp_max ctx) p\<^sub>0" "backed ctx p\<^sub>0 p\<^sub>0 a"
  shows "running ctx p\<^sub>0 a (renew_tier ctx now pend w)" "pt_pending_changes (wk_pt (renew_tier ctx now pend w)) = None"
proof -
  let ?c = "context_ceiling (pt_shape a)" and ?pt = "wk_pt w" and ?w' = "renew_tier ctx now pend w"
  have b: "balanced ctx ?c p\<^sub>0 a ?c w" and sh: "pt_shape ?pt = pt_shape a" using run(1) by (simp_all add: running_def)
  have "running ctx p\<^sub>0 a ?w' \<and> pt_pending_changes (wk_pt ?w') = None"
  proof (cases "\<exists>t. pc_tier pend = Some t \<and> t \<noteq> pt_tier ?pt")
    case False
    then have "?w' = w" by (auto simp: renew_tier_def Let_def split: option.split)
    then show ?thesis using run by simp
  next
    case True
    then obtain t where t: "pc_tier pend = Some t" "t \<noteq> pt_tier ?pt" by blast
    let ?shs = "pooled ctx ?pt"
    have unf: "?w' = (case plan_reserve (planner_release (wk_planner w) (pt_tier ?pt) ?shs) (pt_model ?pt) t (as_claims ?shs)
          (pt_shape ?pt) (pt_term_end ?pt) of
        (Inr placed, p) \<Rightarrow> w\<lparr>wk_planner := p, wk_ops := wk_ops w @ [Released (pt_tier ?pt) ?shs, Reserved t placed], wk_pt := ?pt\<lparr>pt_tier := t\<rparr>\<rparr>
      | (Inl e, p) \<Rightarrow> w\<lparr>wk_planner := snd (plan_reserve p (pt_model ?pt) (pt_tier ?pt) (as_claims ?shs) (pt_shape ?pt) (cx_timestamp_max ctx)),
            wk_pt := push_event now (EvScheduledChangeFailed (cx_plan_error_text ctx e)) ?pt\<rparr>)"
      using t by (simp add: renew_tier_def Let_def)
    from exchange_cases[OF good b, of t "as_claims ?shs" "pt_shape ?pt" "pt_term_end ?pt"] show ?thesis
    proof cases
      case (1 e)
      then have "plan_reserve (planner_release (wk_planner w) (pt_tier ?pt) ?shs) (pt_model ?pt) t (as_claims ?shs)
          (pt_shape ?pt) (pt_term_end ?pt) = (Inl e, planner_release (wk_planner w) (pt_tier ?pt) ?shs)"
        using exchange_planner(1) by blast
      then have "?w' = w\<lparr>wk_pt := push_event now (EvScheduledChangeFailed (cx_plan_error_text ctx e)) ?pt\<rparr>"
        using unf retake_same[OF b good] sh by simp
      then show ?thesis using pushed_running[OF run] run(2) by (simp add: push_event_def)
    next
      case (2 placed w2)
      note pl = answers_as_claims[OF 2(4)]
      from exchange_planner(2)[OF 2(1) refl] have "?w' = w2\<lparr>wk_pt := ?pt\<lparr>pt_tier := t\<rparr>\<rparr>" unfolding unf by auto
      moreover have "balanced ctx ?c p\<^sub>0 a ?c (w2\<lparr>wk_pt := ?pt\<lparr>pt_tier := t\<rparr>\<rparr>)"
        by (rule retier_balanced[OF b 2(2,3) 2(5)[unfolded pl] 2(6)[unfolded pl]])
      ultimately show ?thesis using sh run(2) by (simp add: running_def)
    qed
  qed
  then show "running ctx p\<^sub>0 a ?w'" "pt_pending_changes (wk_pt ?w') = None" by blast+
qed

lemma renew_running:
  assumes run: "running ctx p\<^sub>0 a w" and good: "plan_good (cx_timestamp_max ctx) p\<^sub>0" "backed ctx p\<^sub>0 p\<^sub>0 a"
  shows "running ctx p\<^sub>0 a (renew ctx now w)"
proof -
  have shares: "shares_ok ctx (wk_pt w)" using run balancedD(3) unfolding running_def by blast
  have changes: "running ctx p\<^sub>0 a (renew_changes ctx now w) \<and> pt_pending_changes (wk_pt (renew_changes ctx now w)) = None"
  proof (cases "pt_pending_changes (wk_pt w)")
    case None
    then show ?thesis using run by (simp add: renew_changes_def)
  next
    case (Some pend)
    let ?w0 = "w\<lparr>wk_pt := (wk_pt w)\<lparr>pt_pending_changes := None\<rparr>\<rparr>"
    have run0: "running ctx p\<^sub>0 a ?w0"
      by (rule running_neutral[OF run]) (simp_all add: neutral_def pending_ok_None)
    have new: "split_ok ctx (pt_sku (wk_pt ?w0)) rs" if "pc_regions pend = Some rs" for rs
      using shares Some that by (simp add: shares_ok_def pending_ok_def)
    note r1 = renew_regions_running[OF run0 _ good new, where now = now]
    have r1': "running ctx p\<^sub>0 a (renew_regions ctx now pend ?w0)" "pt_pending_changes (wk_pt (renew_regions ctx now pend ?w0)) = None"
      by (rule r1; simp)+
    note r2 = renew_tier_running[OF r1' good, of now pend]
    show ?thesis
      unfolding renew_changes_def Some option.case Let_def using pushed_running[OF r2] r2(2) by (simp add: push_event_def)
  qed
  let ?w = "renew_changes ctx now w"
  have "pt_pending_changes (next_term ctx (wk_pt ?w)) = None" using changes
    by (simp add: next_term_def refresh_totals_def Let_def push_event_def)
  then show ?thesis
    unfolding renew_def Let_def using changes
    by (intro running_neutral pending_ok_None) (simp_all add: next_term_def refresh_totals_def Let_def push_event_def neutral_def)
qed

section \<open>The lifecycle pass\<close>

text \<open>A reservation that has ended has given back what it held.\<close>

definition gone :: "service_ctx \<Rightarrow> memory_planner \<Rightarrow> provisioned_throughput \<Rightarrow> work \<Rightarrow> bool" where
  "gone ctx p\<^sub>0 a w \<longleftrightarrow> session (pt_model a) (context_ceiling (pt_shape a)) p\<^sub>0 w \<and> \<not> is_live (pt_state (wk_pt w))
     \<and> pt_id (wk_pt w) = pt_id a \<and> pt_shape (wk_pt w) = pt_shape a
     \<and> (\<forall>key. planner_reserved (wk_planner w) key + hold_cost ctx p\<^sub>0 a key = planner_reserved p\<^sub>0 key)"

lemma end_term_gone:
  assumes run: "running ctx p\<^sub>0 a w" and good: "plan_good tmax p\<^sub>0" "backed ctx p\<^sub>0 p\<^sub>0 a"
  shows "gone ctx p\<^sub>0 a (end_term ctx w)"
proof -
  let ?c = "context_ceiling (pt_shape a)" and ?pt = "wk_pt w" and ?w1 = "work_release (pt_tier (wk_pt w)) (pooled ctx (wk_pt w)) w"
  have b: "balanced ctx ?c p\<^sub>0 a ?c w" and sh: "pt_shape ?pt = pt_shape a" using run by (simp_all add: running_def)
  have m: "pt_model ?pt = pt_model a" by (rule balancedD(2)[OF b])
  have seats: "\<forall>s\<in>set (pooled ctx ?pt). seat p\<^sub>0 (pt_model a) ?c (pt_tier ?pt) (share_key s)"
    using pooled_seats[OF balancedD(4)[OF b]] m by simp
  have le: "shares_cost (planner_cost p\<^sub>0) (pt_tier ?pt) (pooled ctx ?pt) key \<le> planner_reserved (wk_planner w) key" for key
    using balanced_backed[OF b good(2)] by (simp add: backed_def hold_cost_def)
  note rel = work_release_session[OF balancedD(1)[OF b] good(1) seats le]
  have "planner_reserved (wk_planner ?w1) key + hold_cost ctx p\<^sub>0 a key = planner_reserved p\<^sub>0 key" for key
  proof -
    have "planner_reserved (wk_planner w) key + hold_cost ctx p\<^sub>0 a key = planner_reserved p\<^sub>0 key + hold_cost ctx p\<^sub>0 ?pt key"
      using b unfolding balanced_def by blast
    then show ?thesis using rel(3)[of key] by (simp add: hold_cost_def)
  qed
  moreover have "session (pt_model a) ?c p\<^sub>0 (end_term ctx w)"
    unfolding end_term_def Let_def by (rule session_pt[OF rel(1)]) (simp add: m push_event_def)
  ultimately show ?thesis
    using sh balancedD(5)[OF b] by (simp add: gone_def end_term_def Let_def push_event_def is_live_def)
qed

lemma lifecycle_turn_kept:
  assumes "running ctx p\<^sub>0 a w \<or> gone ctx p\<^sub>0 a w" and "term_due now (wk_pt w)"
    and good: "plan_good (cx_timestamp_max ctx) p\<^sub>0" "backed ctx p\<^sub>0 p\<^sub>0 a"
  shows "running ctx p\<^sub>0 a (fst (lifecycle_turn ctx now (w, rep))) \<or> gone ctx p\<^sub>0 a (fst (lifecycle_turn ctx now (w, rep)))"
proof -
  have run: "running ctx p\<^sub>0 a w" using assms(1,2) by (auto simp: gone_def term_due_def is_live_def)
  show ?thesis
    using renew_running[OF run good] end_term_gone[OF run good] by (simp add: lifecycle_turn_def)
qed

text \<open>A reservation with nothing left to do: its term runs, or has not started, or it has ended.\<close>

definition caught_up :: "timestamp \<Rightarrow> provisioned_throughput \<Rightarrow> bool" where
  "caught_up now pt \<longleftrightarrow> \<not> term_due now pt \<and> \<not> (pt_state pt = Scheduled \<and> pt_term_start pt \<le> now)"

lemma expired_fields:
  fixes xs :: "(string \<times> string) list" and now :: timestamp
  defines "f \<equiv> foldl (\<lambda>pt (d, k). push_event now (EvKeyExpired d k) pt)"
  shows "neutral a (f b xs) = neutral a b" "pt_shape (f b xs) = pt_shape b" "pt_pending_changes (f b xs) = pt_pending_changes b"
    "pt_state (f b xs) = pt_state b" "pt_term_start (f b xs) = pt_term_start b" "pt_term_end (f b xs) = pt_term_end b"
proof -
  show "neutral a (f b xs) = neutral a b" unfolding f_def by (induction xs arbitrary: b) (simp_all add: case_prod_unfold)
  show "pt_shape (f b xs) = pt_shape b" "pt_pending_changes (f b xs) = pt_pending_changes b"
    "pt_state (f b xs) = pt_state b" "pt_term_start (f b xs) = pt_term_start b" "pt_term_end (f b xs) = pt_term_end b"
    unfolding f_def by (induction xs arbitrary: b) (simp_all add: push_event_def case_prod_unfold)
qed

lemma prune_fields:
  assumes "prune_expired_keys now a = (pt, pruned)"
  shows "neutral a pt" "pt_shape pt = pt_shape a" "pt_pending_changes pt = pt_pending_changes a" "pt_state pt = pt_state a"
    "pt_term_start pt = pt_term_start a" "pt_term_end pt = pt_term_end a"
proof -
  from assms obtain ds xs where pt: "pt = foldl (\<lambda>pt (d, k). push_event now (EvKeyExpired d k) pt) (a\<lparr>pt_deployments := ds\<rparr>) xs"
    unfolding prune_expired_keys_def Let_def by blast
  show "neutral a pt" "pt_shape pt = pt_shape a" "pt_pending_changes pt = pt_pending_changes a" "pt_state pt = pt_state a"
    "pt_term_start pt = pt_term_start a" "pt_term_end pt = pt_term_end a"
    unfolding pt expired_fields by (simp_all add: neutral_def)
qed

lemma activate_fields:
  "neutral pt (activate now pt)" "pt_shape (activate now pt) = pt_shape pt" "pt_pending_changes (activate now pt) = pt_pending_changes pt"
  "\<not> (pt_state (activate now pt) = Scheduled \<and> pt_term_start (activate now pt) \<le> now)"
  by (auto simp: activate_def neutral_def push_event_def is_live_def)

lemma renew_not_scheduled: "pt_state (wk_pt w) \<noteq> Scheduled \<or> now < pt_term_start (wk_pt w) \<Longrightarrow> term_due now (wk_pt w) \<Longrightarrow>
   pt_state (wk_pt (fst (lifecycle_turn ctx now (w, rep)))) \<noteq> Scheduled"
  by (auto simp: lifecycle_turn_def renew_fields end_term_fields term_due_def)

lemma store_entry_bump: "store_entry (sv_store (svc_bump now sv)) = store_entry (sv_store sv)"
  by (simp add: svc_bump_def bump_version_def Let_def store_entry_def)

lemma lifecycle_one_result:
  assumes acc: "accounted ctx sv" and a: "store_entry (sv_store sv) (pt_id a) = Some a" "is_live (pt_state a)"
    and cal: "forward_calendar ctx now"
  shows "\<exists>sv' rep'. lifecycle_one ctx now fault a (sv, rep) = Some (sv', rep') \<and> accounted ctx sv'
    \<and> (\<forall>x. x \<noteq> pt_id a \<longrightarrow> store_entry (sv_store sv') x = store_entry (sv_store sv) x)
    \<and> (fault (pt_id a) = None \<longrightarrow> (\<exists>b. store_entry (sv_store sv') (pt_id a) = Some b \<and> caught_up now b))
    \<and> (fault (pt_id a) \<noteq> None \<longrightarrow> sv' = sv)"
proof -
  note ids = accounted_entry[OF acc a(1)]
  note good = accountedD(1)[OF acc] ids(3)[OF a(2)]
  obtain pt1 pruned where pr: "prune_expired_keys now a = (pt1, pruned)" by fastforce
  define pt where "pt = activate now pt1"
  define started where "started \<longleftrightarrow> pt_state pt1 = Scheduled \<and> pt_term_start pt1 \<le> now"
  note p1 = prune_fields[OF pr] and p2 = activate_fields[where now = now and pt = pt1]
  have n: "neutral a pt" unfolding pt_def by (rule neutral_trans[OF p1(1) p2(1)])
  have sel: "pt_shape pt = pt_shape a" "pt_pending_changes pt = pt_pending_changes a" "pt_sku pt = pt_sku a" "pt_id pt = pt_id a"
    using p1(2,3) p2(2,3) n by (simp_all add: pt_def neutral_def)
  have pend: "pending_ok ctx pt" using ids(2)[OF a(2)] pending_ok_cong[OF sel(2,3)] by (simp add: reservation_ok_def shares_ok_def)
  have "running ctx (sv_planner sv) a (start_work sv a)"
    using balanced_start[OF good(1) ids(2)[OF a(2)]] by (simp add: running_def start_work_def)
  from running_neutral[OF this, of pt] n pend sel(1)
  have run: "running ctx (sv_planner sv) a (start_work sv pt)" by (simp add: start_work_def)
  let ?I = "\<lambda>w. (running ctx (sv_planner sv) a w \<or> gone ctx (sv_planner sv) a w)
      \<and> (pt_state (wk_pt w) = Scheduled \<longrightarrow> now < pt_term_start (wk_pt w))"
  define rep1 where "rep1 = (if started then rep\<lparr>lr_activated := lr_activated rep + 1\<rparr> else rep)"
  have I: "?I (start_work sv pt)" using run p2(4) by (auto simp: start_work_def pt_def)
  have turn: "?I (fst (lifecycle_turn ctx now (w, r)))" if "?I w" "term_due now (wk_pt w)" for w r
    using lifecycle_turn_kept[OF _ that(2) good] renew_not_scheduled[OF _ that(2)] that(1) by blast
  from lifecycle_loop_rule[where I = ?I, OF cal I turn, of rep1] obtain w rep2 where
    loop: "lifecycle_loop ctx now (start_work sv pt, rep1) = Some (w, rep2)" and Iw: "?I w" and due: "\<not> term_due now (wk_pt w)"
    by blast
  let ?new = "touched now (tidy_placements (wk_pt w))"
  note unf = lifecycle_one_def[of ctx now fault a "(sv, rep)", unfolded prod.case pr Let_def, folded started_def pt_def, folded rep1_def,
      unfolded loop option.case prod.case]
  have up: "caught_up now ?new"
    using Iw due by (auto simp: caught_up_def term_due_def touched_def tidy_placements_def)
  show ?thesis
  proof (cases "\<not> pruned \<and> \<not> started \<and> \<not> term_due now pt")
    case True
    have "pt = pt1" using True unfolding pt_def activate_def started_def by auto
    moreover have "caught_up now pt" using True \<open>pt = pt1\<close> by (simp add: caught_up_def started_def)
    ultimately have "caught_up now a"
      using p1(4-6) by (simp add: caught_up_def term_due_def)
    then show ?thesis using unf True acc a(1) by auto
  next
    case False
    have sv: "sv\<lparr>sv_planner := sv_planner sv\<rparr> = sv" by simp
    have sess: "session (pt_model a) (context_ceiling (pt_shape a)) (sv_planner sv) w" "pt_shape (wk_pt w) = pt_shape a" "pt_id (wk_pt w) = pt_id a"
      using Iw balancedD(1,5) by (auto simp: running_def gone_def)
    have u: "undo ctx (pt_model ?new) (pt_shape ?new) (wk_ops w) (wk_planner w) = sv_planner sv"
      by (rule session_undo[OF sess(1) good(1)]) (use sess touched_tidy(8,9)[where pt = "wk_pt w"] in \<open>simp_all add: session_def\<close>)
    have nid: "pt_id ?new = pt_id a" using touched_tidy(5)[where pt = "wk_pt w"] sess(3) by simp
    show ?thesis
    proof (cases "fault (pt_id a)")
      case (Some e)
      then have "store_write (fault (pt_id pt)) (sv_store sv) ?new (pt_version a) = Inl e" by (simp add: store_write_def sel(4))
      then show ?thesis using unf False u acc Some sv by auto
    next
      case None
      obtain st where st: "store_write (fault (pt_id pt)) (sv_store sv) ?new (pt_version a) = Inr st"
        using a(1) None nid by (auto simp: store_write_def store_update_def store_entry_def sel(4))
      note upd = mem_store.update_done[OF accountedD(3)[OF acc] store_write_Inr[OF st]]
      have "accounted ctx (sv\<lparr>sv_store := st, sv_planner := wk_planner w\<rparr>)"
        using Iw
      proof (elim conjE disjE)
        assume "running ctx (sv_planner sv) a w"
        then have "balanced ctx (context_ceiling (pt_shape a)) (sv_planner sv) a (context_ceiling (pt_shape (wk_pt w))) w"
          by (simp add: running_def)
        then show ?thesis by (rule balanced_written[OF acc a _ st])
      next
        assume g: "gone ctx (sv_planner sv) a w"
        note v = session_view[OF sess(1) good(1)]
        show ?thesis
          by (rule accounted_update[OF acc v(1,3) store_write_Inr[OF st], where a = a])
            (use a g nid touched_tidy(6)[where pt = "wk_pt w"] in \<open>auto simp: gone_def mem_store.live_part_def\<close>)
      qed
      then show ?thesis using unf False st None upd nid up by (auto simp: store_entry_bump)
    qed
  qed
qed

lemma lifecycle_each_result:
  assumes "accounted ctx sv" and "forward_calendar ctx now" and "distinct (map pt_id pts)"
    and "\<forall>a\<in>set pts. store_entry (sv_store sv) (pt_id a) = Some a \<and> is_live (pt_state a)"
  shows "\<exists>sv' rep'. lifecycle_each ctx now fault pts (sv, rep) = Some (sv', rep') \<and> accounted ctx sv'
    \<and> (\<forall>x. x \<notin> pt_id ` set pts \<longrightarrow> store_entry (sv_store sv') x = store_entry (sv_store sv) x)
    \<and> (\<forall>x\<in>pt_id ` set pts. fault x = None \<longrightarrow> (\<exists>b. store_entry (sv_store sv') x = Some b \<and> caught_up now b))"
  using assms
proof (induction pts arbitrary: sv rep)
  case (Cons a pts)
  have a: "store_entry (sv_store sv) (pt_id a) = Some a" "is_live (pt_state a)" using Cons.prems(4) by simp_all
  from lifecycle_one_result[OF Cons.prems(1) a Cons.prems(2), of fault rep] obtain sv1 rep1 where
    one: "lifecycle_one ctx now fault a (sv, rep) = Some (sv1, rep1)" "accounted ctx sv1"
    "\<forall>x. x \<noteq> pt_id a \<longrightarrow> store_entry (sv_store sv1) x = store_entry (sv_store sv) x"
    "fault (pt_id a) = None \<longrightarrow> (\<exists>b. store_entry (sv_store sv1) (pt_id a) = Some b \<and> caught_up now b)"
    by (elim exE conjE) (rule that)
  have new: "pt_id a \<notin> pt_id ` set pts" "distinct (map pt_id pts)" using Cons.prems(3) by simp_all
  have "\<forall>b\<in>set pts. store_entry (sv_store sv1) (pt_id b) = Some b \<and> is_live (pt_state b)"
  proof
    fix b assume b: "b \<in> set pts"
    then have "pt_id b \<noteq> pt_id a" using new(1) by (metis imageI)
    then have "store_entry (sv_store sv1) (pt_id b) = store_entry (sv_store sv) (pt_id b)" using one(3) by blast
    moreover have "store_entry (sv_store sv) (pt_id b) = Some b \<and> is_live (pt_state b)" using Cons.prems(4) b by simp
    ultimately show "store_entry (sv_store sv1) (pt_id b) = Some b \<and> is_live (pt_state b)" by (simp only:)
  qed
  from Cons.IH[OF one(2) Cons.prems(2) new(2) this, of rep1] obtain sv2 rep2 where
    two: "lifecycle_each ctx now fault pts (sv1, rep1) = Some (sv2, rep2)" "accounted ctx sv2"
    "\<forall>x. x \<notin> pt_id ` set pts \<longrightarrow> store_entry (sv_store sv2) x = store_entry (sv_store sv1) x"
    "\<forall>x\<in>pt_id ` set pts. fault x = None \<longrightarrow> (\<exists>b. store_entry (sv_store sv2) x = Some b \<and> caught_up now b)"
    by (elim exE conjE) (rule that)
  have "lifecycle_each ctx now fault (a # pts) (sv, rep) = Some (sv2, rep2)" using one(1) two(1) by simp
  moreover have "store_entry (sv_store sv2) x = store_entry (sv_store sv) x" if "x \<notin> pt_id ` set (a # pts)" for x
    using that one(3) two(3) by simp
  moreover have "\<exists>b. store_entry (sv_store sv2) x = Some b \<and> caught_up now b" if "x \<in> pt_id ` set (a # pts)" "fault x = None" for x
    using that one(4) two(3,4) new(1) by (cases "x = pt_id a") auto
  ultimately show ?case using two(2) by blast
qed simp

lemma svc_lifecycle_result:
  assumes acc: "accounted ctx sv" and cal: "forward_calendar ctx now"
  shows "\<exists>sv' rep. svc_lifecycle ctx now fault sv = Some (sv', rep) \<and> accounted ctx sv'
    \<and> (\<forall>pt\<in>set (list_live (sv_store sv')). fault (pt_id pt) = None \<longrightarrow> caught_up now pt)"
proof -
  note ok = accountedD(3)[OF acc]
  have "\<forall>a\<in>set (list_live (sv_store sv)). store_entry (sv_store sv) (pt_id a) = Some a \<and> is_live (pt_state a)"
    using list_live_iff[OF ok] by blast
  from lifecycle_each_result[OF acc cal list_live_distinct[OF ok] this, of fault] obtain sv' rep where
    r: "svc_lifecycle ctx now fault sv = Some (sv', rep)" "accounted ctx sv'"
    "\<forall>x. x \<notin> pt_id ` set (list_live (sv_store sv)) \<longrightarrow> store_entry (sv_store sv') x = store_entry (sv_store sv) x"
    "\<forall>x\<in>pt_id ` set (list_live (sv_store sv)). fault x = None \<longrightarrow> (\<exists>b. store_entry (sv_store sv') x = Some b \<and> caught_up now b)"
    unfolding svc_lifecycle_def by blast
  have "caught_up now pt" if pt: "pt \<in> set (list_live (sv_store sv'))" "fault (pt_id pt) = None" for pt
  proof -
    from pt(1) have e: "store_entry (sv_store sv') (pt_id pt) = Some pt" "is_live (pt_state pt)"
      using list_live_iff[OF accountedD(3)[OF r(2)]] by blast+
    have "pt_id pt \<in> pt_id ` set (list_live (sv_store sv))"
    proof (rule ccontr)
      assume n: "pt_id pt \<notin> pt_id ` set (list_live (sv_store sv))"
      then have "store_entry (sv_store sv) (pt_id pt) = Some pt" using r(3) e(1) by simp
      then have "pt \<in> set (list_live (sv_store sv))" using list_live_iff[OF ok] e(2) by blast
      with n show False by blast
    qed
    then show ?thesis using r(4) pt(2) e(1) by fastforce
  qed
  with r(1,2) show ?thesis by blast
qed

end
