(* ===== verification/Deployments.thy ===== *)
theory Deployments
  imports Service
begin

text \<open>
  Deployments of a reservation and their inference keys (\<open>service.rs\<close>): reading and listing
  reservations, adding, changing and removing deployments, rotating and revoking keys. A
  handler that indexes the deployments of a reservation panics on one without any; that
  panic is the value \<open>None\<close>. The lemmas show what each handler keeps of the invariant
  \<open>keys_ok\<close>: between one and ten deployments, with distinct ids and names, each with exactly
  one current key and at most two keys in their grace period.
\<close>

section \<open>Requests (model.rs) and limits\<close>

record create_deployment_request =
  cd_name :: string
  cd_max_share :: "real option"

text \<open>The outer option of \<open>max_share\<close> is whether the field is present, the inner one \<open>null\<close>.\<close>

record update_deployment_request =
  ud_name :: "string option"
  ud_max_share :: "real option option"

record rotate_key_request =
  rk_grace_minutes :: "nat option"

definition MAX_DEPLOYMENTS :: nat where
  "MAX_DEPLOYMENTS = 10"

definition DEFAULT_KEY_GRACE_MINUTES :: nat where
  "DEFAULT_KEY_GRACE_MINUTES = 60"

definition MAX_KEY_GRACE_MINUTES :: nat where
  "MAX_KEY_GRACE_MINUTES = 7 * 24 * 60"

definition MAX_PREVIOUS_KEYS :: nat where
  "MAX_PREVIOUS_KEYS = 2"

definition from_mins :: "nat \<Rightarrow> int" where
  "from_mins m = int m * 60 * 1000000000"

definition validate_max_share :: "real option \<Rightarrow> service_error + unit" where
  "validate_max_share share =
     (case share of
        Some s \<Rightarrow> if \<not> (0 < s \<and> s \<le> 1) then Inl (Validation ''max_share'') else Inr ()
      | None \<Rightarrow> Inr ())"

section \<open>Reading\<close>

definition svc_get :: "service \<Rightarrow> string \<Rightarrow> string \<Rightarrow> service_error + provisioned_throughput" where
  "svc_get sv tenant pid =
     (case store_get (sv_store sv) tenant pid of None \<Rightarrow> Inl NotFound | Some pt \<Rightarrow> Inr pt)"

definition svc_list :: "service \<Rightarrow> string \<Rightarrow> string option \<Rightarrow> bool \<Rightarrow> provisioned_throughput list" where
  "svc_list sv tenant model include_inactive =
     filter (\<lambda>pt. case model of None \<Rightarrow> True | Some m \<Rightarrow> pt_model pt = m)
       (filter (\<lambda>pt. include_inactive \<or> is_live (pt_state pt)) (store_list (sv_store sv) tenant))"

definition load_live :: "service \<Rightarrow> string \<Rightarrow> string \<Rightarrow> nat option \<Rightarrow> service_error + provisioned_throughput" where
  "load_live sv tenant pid if_match =
     (case svc_get sv tenant pid of
        Inl e \<Rightarrow> Inl e
      | Inr pt \<Rightarrow> check_then (check_version pt if_match)
                   (if \<not> is_live (pt_state pt) then Inl (Conflict ''inactive'') else Inr pt))"

definition deployment_index :: "provisioned_throughput \<Rightarrow> string option \<Rightarrow> service_error + nat" where
  "deployment_index pt dep =
     (case dep of
        None \<Rightarrow> Inr 0
      | Some d \<Rightarrow> (case position (\<lambda>x. dp_id x = d) (pt_deployments pt) of None \<Rightarrow> Inl NotFound | Some i \<Rightarrow> Inr i))"

definition ensure_deployment_name_free ::
  "provisioned_throughput \<Rightarrow> string \<Rightarrow> string option \<Rightarrow> service_error + unit" where
  "ensure_deployment_name_free pt name except =
     check_then (validate_name name)
       (if list_ex (\<lambda>d. dp_name d = name \<and> Some (dp_id d) \<noteq> except) (pt_deployments pt)
        then Inl (Conflict ''name_taken'') else Inr ())"

section \<open>Deployments\<close>

text \<open>The random id of a new deployment is \<open>uid\<close>; those of a new key are \<open>ids\<close>.\<close>

definition new_deployment ::
  "string \<Rightarrow> timestamp \<Rightarrow> api_key \<Rightarrow> create_deployment_request \<Rightarrow> deployment" where
  "new_deployment uid now key req =
     \<lparr>dp_id = ''dep-'' @ take 16 uid, dp_name = cd_name req, dp_max_share = cd_max_share req,
      dp_api_keys = [key], dp_created_at = now\<rparr>"

definition create_deployment ::
  "(string \<Rightarrow> string) \<Rightarrow> service \<Rightarrow> timestamp \<Rightarrow> string \<Rightarrow> string \<times> string \<times> string \<Rightarrow> string \<Rightarrow> string \<Rightarrow> nat option
   \<Rightarrow> create_deployment_request \<Rightarrow> store_error option
   \<Rightarrow> (service_error + provisioned_throughput \<times> deployment \<times> string) \<times> service" where
  "create_deployment sha256_hex sv now uid ids tenant pid if_match req fault =
     (case load_live sv tenant pid if_match of
        Inl e \<Rightarrow> (Inl e, sv)
      | Inr pt \<Rightarrow>
     (case ensure_deployment_name_free pt (cd_name req) None of
        Inl e \<Rightarrow> (Inl e, sv)
      | Inr _ \<Rightarrow>
     (case validate_max_share (cd_max_share req) of
        Inl e \<Rightarrow> (Inl e, sv)
      | Inr _ \<Rightarrow>
          if MAX_DEPLOYMENTS \<le> length (pt_deployments pt) then (Inl (Conflict ''too_many_deployments''), sv)
          else
            let (secret, key) = issue_key sha256_hex ids now;
                d = new_deployment uid now key req;
                new = push_event now (EvDeploymentCreated (dp_id d) (dp_name d) (dp_max_share d))
                        (pt\<lparr>pt_deployments := pt_deployments pt @ [d]\<rparr>)
            in (case svc_persist sv now new (pt_version pt) fault of
                  (Inl e, sv) \<Rightarrow> (Inl e, sv)
                | (Inr pt, sv) \<Rightarrow> (Inr (pt, d, secret), sv)))))"

definition changed_deployment :: "update_deployment_request \<Rightarrow> deployment \<Rightarrow> deployment" where
  "changed_deployment req d =
     d\<lparr>dp_name := (case ud_name req of None \<Rightarrow> dp_name d | Some n \<Rightarrow> n),
       dp_max_share := (case ud_max_share req of None \<Rightarrow> dp_max_share d | Some s \<Rightarrow> s)\<rparr>"

definition update_deployment ::
  "service \<Rightarrow> timestamp \<Rightarrow> string \<Rightarrow> string \<Rightarrow> string \<Rightarrow> nat option \<Rightarrow> update_deployment_request \<Rightarrow> store_error option
   \<Rightarrow> (service_error + provisioned_throughput) \<times> service" where
  "update_deployment sv now tenant pid dep if_match req fault =
     (case load_live sv tenant pid if_match of
        Inl e \<Rightarrow> (Inl e, sv)
      | Inr pt \<Rightarrow>
     (case deployment_index pt (Some dep) of
        Inl e \<Rightarrow> (Inl e, sv)
      | Inr i \<Rightarrow>
     (case check_then (option_check (\<lambda>n. ensure_deployment_name_free pt n (Some dep)) (ud_name req))
             (option_check validate_max_share (ud_max_share req)) of
        Inl e \<Rightarrow> (Inl e, sv)
      | Inr _ \<Rightarrow>
          let d = changed_deployment req (pt_deployments pt ! i);
              old = pt_deployments pt ! i
          in if dp_name d = dp_name old \<and> dp_max_share d = dp_max_share old
             then (Inr (pt\<lparr>pt_deployments := (pt_deployments pt)[i := d]\<rparr>), sv)
             else svc_persist sv now
                    (push_event now (EvDeploymentUpdated (dp_id d) (dp_name d) (dp_max_share d))
                       (pt\<lparr>pt_deployments := (pt_deployments pt)[i := d]\<rparr>)) (pt_version pt) fault)))"

text \<open>\<open>Vec::remove\<close>.\<close>

definition vec_remove :: "nat \<Rightarrow> 'a list \<Rightarrow> 'a list" where
  "vec_remove i xs = take i xs @ drop (Suc i) xs"

definition delete_deployment ::
  "service \<Rightarrow> timestamp \<Rightarrow> string \<Rightarrow> string \<Rightarrow> string \<Rightarrow> nat option \<Rightarrow> store_error option
   \<Rightarrow> (service_error + provisioned_throughput) \<times> service" where
  "delete_deployment sv now tenant pid dep if_match fault =
     (case load_live sv tenant pid if_match of
        Inl e \<Rightarrow> (Inl e, sv)
      | Inr pt \<Rightarrow>
     (case deployment_index pt (Some dep) of
        Inl e \<Rightarrow> (Inl e, sv)
      | Inr i \<Rightarrow>
          if length (pt_deployments pt) = 1 then (Inl (Conflict ''last_deployment''), sv)
          else svc_persist sv now
                 (push_event now (EvDeploymentDeleted (dp_id (pt_deployments pt ! i)))
                    (pt\<lparr>pt_deployments := vec_remove i (pt_deployments pt)\<rparr>)) (pt_version pt) fault))"

section \<open>Keys\<close>

fun expire_current :: "timestamp \<Rightarrow> api_key list \<Rightarrow> api_key list" where
  "expire_current t [] = []"
| "expire_current t (k # ks) =
     (if is_current k then k\<lparr>ak_expires_at := Some t\<rparr> # ks else k # expire_current t ks)"

text \<open>A stable sort, newest first: \<open>sort_by_key(|k| Reverse(k.created_at))\<close>.\<close>

definition newest_first :: "api_key list \<Rightarrow> api_key list" where
  "newest_first ks = rev (sort_key ak_created_at (rev ks))"

text \<open>The keys of a deployment after a rotation, and those it revokes.\<close>

definition rotate_keys :: "timestamp option \<Rightarrow> api_key \<Rightarrow> api_key list \<Rightarrow> api_key list \<times> api_key list" where
  "rotate_keys previous_expires_at new_key keys =
     (let previous_id = (case find is_current keys of Some k \<Rightarrow> ak_id k | None \<Rightarrow> []);
          keys = (case previous_expires_at of
                    Some t \<Rightarrow> expire_current t keys
                  | None \<Rightarrow> filter (\<lambda>k. ak_id k \<noteq> previous_id) keys);
          previous = newest_first keys
      in (sort_key ak_created_at (take MAX_PREVIOUS_KEYS previous @ [new_key]), drop MAX_PREVIOUS_KEYS previous))"

definition rotate_deployment ::
  "timestamp \<Rightarrow> timestamp option \<Rightarrow> api_key \<Rightarrow> nat \<Rightarrow> provisioned_throughput \<Rightarrow> provisioned_throughput" where
  "rotate_deployment now previous_expires_at new_key i pt =
     (let d = pt_deployments pt ! i;
          previous_id = (case current_key d of Some k \<Rightarrow> ak_id k | None \<Rightarrow> []);
          (keys, revoked) = rotate_keys previous_expires_at new_key (dp_api_keys d);
          pt = pt\<lparr>pt_deployments := (pt_deployments pt)[i := d\<lparr>dp_api_keys := keys\<rparr>]\<rparr>;
          pt = push_event now (EvKeyRotated (dp_id d) (ak_id new_key) previous_id previous_expires_at) pt
      in foldl (\<lambda>pt k. push_event now (EvKeyRevoked (dp_id d) (ak_id k)) pt) pt revoked)"

definition rotate_key ::
  "(string \<Rightarrow> string) \<Rightarrow> service \<Rightarrow> timestamp \<Rightarrow> string \<times> string \<times> string \<Rightarrow> string \<Rightarrow> string \<Rightarrow> string option \<Rightarrow> nat option
   \<Rightarrow> rotate_key_request \<Rightarrow> store_error option
   \<Rightarrow> ((service_error + provisioned_throughput \<times> string) \<times> service) option" where
  "rotate_key sha256_hex sv now ids tenant pid dep if_match req fault =
     (let grace = (case rk_grace_minutes req of None \<Rightarrow> DEFAULT_KEY_GRACE_MINUTES | Some g \<Rightarrow> g)
      in if MAX_KEY_GRACE_MINUTES < grace then Some (Inl (Validation ''grace_minutes''), sv)
         else case load_live sv tenant pid if_match of
           Inl e \<Rightarrow> Some (Inl e, sv)
         | Inr pt \<Rightarrow>
             (case deployment_index pt dep of
                Inl e \<Rightarrow> Some (Inl e, sv)
              | Inr i \<Rightarrow>
                  let pruned = fst (prune_expired_keys now pt);
                      (secret, new_key) = issue_key sha256_hex ids now;
                      expires = (if 0 < grace then Some (now + from_mins grace) else None)
                  in if length (pt_deployments pruned) \<le> i then None
                     else Some (case svc_persist sv now (rotate_deployment now expires new_key i pruned)
                                       (pt_version pt) fault of
                                  (Inl e, sv) \<Rightarrow> (Inl e, sv)
                                | (Inr pt, sv) \<Rightarrow> (Inr (pt, secret), sv))))"

definition revoke_key ::
  "service \<Rightarrow> timestamp \<Rightarrow> string \<Rightarrow> string \<Rightarrow> string option \<Rightarrow> string \<Rightarrow> nat option \<Rightarrow> store_error option
   \<Rightarrow> ((service_error + provisioned_throughput) \<times> service) option" where
  "revoke_key sv now tenant pid dep key_id if_match fault =
     (case svc_get sv tenant pid of
        Inl e \<Rightarrow> Some (Inl e, sv)
      | Inr pt \<Rightarrow>
     (case check_version pt if_match of
        Inl e \<Rightarrow> Some (Inl e, sv)
      | Inr _ \<Rightarrow>
     (case deployment_index pt dep of
        Inl e \<Rightarrow> Some (Inl e, sv)
      | Inr i \<Rightarrow>
          if length (pt_deployments pt) \<le> i then None
          else
            let d = pt_deployments pt ! i
            in (case find (\<lambda>k. ak_id k = key_id) (dp_api_keys d) of
                  None \<Rightarrow> Some (Inl (Validation ''key_id''), sv)
                | Some key \<Rightarrow>
                    if is_current key then Some (Inl (Conflict ''current_key''), sv)
                    else Some (svc_persist sv now
                      (push_event now (EvKeyRevoked (dp_id d) key_id)
                        (pt\<lparr>pt_deployments := (pt_deployments pt)
                             [i := d\<lparr>dp_api_keys := filter (\<lambda>k. ak_id k \<noteq> key_id) (dp_api_keys d)\<rparr>]\<rparr>))
                      (pt_version pt) fault)))))"

section \<open>What the handlers keep\<close>

definition deployment_ok :: "deployment \<Rightarrow> bool" where
  "deployment_ok d \<longleftrightarrow>
     length (filter is_current (dp_api_keys d)) = 1 \<and>
     length (dp_api_keys d) \<le> 1 + MAX_PREVIOUS_KEYS \<and>
     distinct (map ak_id (dp_api_keys d)) \<and>
     (case dp_max_share d of None \<Rightarrow> True | Some s \<Rightarrow> 0 < s \<and> s \<le> 1)"

definition keys_ok :: "provisioned_throughput \<Rightarrow> bool" where
  "keys_ok pt \<longleftrightarrow>
     1 \<le> length (pt_deployments pt) \<and> length (pt_deployments pt) \<le> MAX_DEPLOYMENTS \<and>
     distinct (map dp_id (pt_deployments pt)) \<and> distinct (map dp_name (pt_deployments pt)) \<and>
     list_all deployment_ok (pt_deployments pt)"

lemma keys_ok_cong: "pt_deployments pt = pt_deployments pt' \<Longrightarrow> keys_ok pt = keys_ok pt'"
  by (simp add: keys_ok_def)

lemma deployments_push [simp]: "pt_deployments (push_event t k pt) = pt_deployments pt"
  by (simp add: push_event_def)

lemma deployments_push_all [simp]:
  "pt_deployments (foldl (\<lambda>pt x. push_event t (f x) pt) pt xs) = pt_deployments pt"
  by (induction xs arbitrary: pt) simp_all

lemma length_filter_snoc_single:
  "length (filter p (xs @ [x])) = length (filter p xs) + (if p x then 1 else 0)"
  by simp

lemma prune_current:
  "filter is_current (filter (key_live now) ks) = filter is_current ks"
  by (induction ks) (auto simp: is_current_def key_live_def)

lemma prune_deployments:
  "pt_deployments (fst (prune_expired_keys now pt)) =
     map (\<lambda>d. d\<lparr>dp_api_keys := filter (key_live now) (dp_api_keys d)\<rparr>) (pt_deployments pt)"
proof -
  have "pt_deployments (foldl (\<lambda>pt (d, k). push_event now (EvKeyExpired d k) pt) pt xs) = pt_deployments pt" for pt xs
    by (induction xs arbitrary: pt) auto
  then show ?thesis by (simp add: prune_expired_keys_def Let_def)
qed

lemma prune_keys_ok: "keys_ok pt \<Longrightarrow> keys_ok (fst (prune_expired_keys now pt))"
proof -
  assume ok: "keys_ok pt"
  have "deployment_ok (d\<lparr>dp_api_keys := filter (key_live now) (dp_api_keys d)\<rparr>)" if "deployment_ok d" for d
    using that prune_current[of now "dp_api_keys d"]
    by (auto simp: deployment_ok_def distinct_map_filter intro: order_trans[OF length_filter_le] simp del: filter_filter)
  then show ?thesis using ok by (auto simp: keys_ok_def prune_deployments list_all_iff comp_def)
qed

lemma expire_current_fields:
  "map ak_id (expire_current t ks) = map ak_id ks"
  "map ak_created_at (expire_current t ks) = map ak_created_at ks"
  "length (expire_current t ks) = length ks"
  "length (filter is_current (expire_current t ks)) = length (filter is_current ks) - 1"
  by (induction ks) (auto simp: is_current_def)

lemma mset_newest_first [simp]: "mset (newest_first ks) = mset ks"
  by (simp add: newest_first_def)

lemma rotate_keys_ok:
  fixes e k ks
  assumes one: "length (filter is_current ks) = 1" and dist: "distinct (map ak_id ks)"
    and fresh: "ak_id k \<notin> ak_id ` set ks" and cur: "is_current k"
  defines "ks' \<equiv> fst (rotate_keys e k ks)"
  shows "filter is_current ks' = [k]" "length ks' \<le> 1 + MAX_PREVIOUS_KEYS" "distinct (map ak_id ks')"
    "set ks' \<subseteq> insert k (set (case e of Some t \<Rightarrow> expire_current t ks | None \<Rightarrow> ks))"
proof -
  define pid where "pid = (case find is_current ks of Some k \<Rightarrow> ak_id k | None \<Rightarrow> [])"
  define old where "old = (case e of Some t \<Rightarrow> expire_current t ks | None \<Rightarrow> filter (\<lambda>k. ak_id k \<noteq> pid) ks)"
  have none: "filter is_current old = []"
  proof (cases e)
    case None
    obtain c where c: "filter is_current ks = [c]" using one by (cases "filter is_current ks") auto
    have mem: "x \<in> set ks \<and> is_current x \<longleftrightarrow> x = c" for x
      using arg_cong[OF c, of set] by auto
    have "find is_current ks = Some c" using c by (induction ks) (auto split: if_splits)
    then have "pid = ak_id c" by (simp add: pid_def)
    then have "ak_id x = pid" if "x \<in> set ks" "is_current x" for x using mem[of x] that by blast
    then show ?thesis by (auto simp: old_def None filter_empty_conv)
  next
    case (Some t)
    then have "length (filter is_current old) = 0" using one by (simp add: old_def expire_current_fields)
    then show ?thesis by simp
  qed
  have ids: "distinct (map ak_id old)" "ak_id ` set old \<subseteq> ak_id ` set ks"
    using dist by (auto simp: old_def expire_current_fields distinct_map_filter split: option.split)
      (metis expire_current_fields(1) imageI list.set_map)
  let ?p = "take MAX_PREVIOUS_KEYS (newest_first old)"
  have sub: "set ?p \<subseteq> set old" using set_take_subset[of MAX_PREVIOUS_KEYS "newest_first old"]
    by (metis mset_newest_first set_mset_mset)
  have ks': "ks' = sort_key ak_created_at (?p @ [k])"
    unfolding ks'_def rotate_keys_def Let_def old_def pid_def by simp
  have m: "mset ks' = mset (k # ?p)" by (simp add: ks')
  have "filter is_current ?p = []" using none sub by (auto simp: filter_empty_conv)
  then have "filter is_current (k # ?p) = [k]" using cur by simp
  moreover have "mset (filter is_current ks') = mset (filter is_current (k # ?p))" unfolding mset_filter m ..
  ultimately have "mset (filter is_current ks') = {#k#}" by (simp only: mset.simps)
  then show "filter is_current ks' = [k]" by (simp only: mset_single_iff)
  show "length ks' \<le> 1 + MAX_PREVIOUS_KEYS" by (simp add: ks')
  have "distinct (map ak_id (newest_first old))"
    using ids(1) mset_eq_imp_distinct_iff[of "map ak_id (newest_first old)" "map ak_id old"] by simp
  then have dp: "distinct (map ak_id ?p)" by (metis distinct_take take_map)
  have "ak_id k \<notin> ak_id ` set ?p" using fresh ids(2) sub by blast
  then have "distinct (map ak_id (k # ?p))" using dp by simp
  moreover have "mset (map ak_id ks') = mset (map ak_id (k # ?p))" using m by (metis mset_map)
  ultimately show "distinct (map ak_id ks')" using mset_eq_imp_distinct_iff by blast
  have "set ks' = insert k (set ?p)" using arg_cong[OF m, of set_mset] by (simp only: set_mset_mset list.set(2))
  then show "set ks' \<subseteq> insert k (set (case e of Some t \<Rightarrow> expire_current t ks | None \<Rightarrow> ks))"
    using sub by (auto simp: old_def split: option.splits)
qed

lemma keys_ok_put:
  assumes ok: "keys_ok pt" and i: "i < length (pt_deployments pt)"
    and d: "deployment_ok d" "dp_id d = dp_id (pt_deployments pt ! i)"
    and name: "\<And>j. j < length (pt_deployments pt) \<Longrightarrow> j \<noteq> i \<Longrightarrow> dp_name (pt_deployments pt ! j) \<noteq> dp_name d"
  shows "keys_ok (pt\<lparr>pt_deployments := (pt_deployments pt)[i := d]\<rparr>)"
proof -
  let ?ds = "pt_deployments pt"
  have "map dp_id (?ds[i := d]) = map dp_id ?ds" using d(2) i by (simp add: map_update list_update_same_conv)
  moreover have "distinct (map dp_name (?ds[i := d]))"
    unfolding map_update
  proof (rule distinct_list_update)
    show "distinct (map dp_name ?ds)" using ok by (simp add: keys_ok_def)
    show "dp_name d \<notin> set (map dp_name ?ds) - {map dp_name ?ds ! i}"
      using name i by (auto simp: in_set_conv_nth) metis
  qed
  moreover have "list_all deployment_ok (?ds[i := d])"
    using ok d(1) set_update_subset_insert[of ?ds i d] by (auto simp: keys_ok_def list_all_iff)
  ultimately show ?thesis using ok by (simp add: keys_ok_def)
qed

lemma keys_ok_keys:
  assumes ok: "keys_ok pt" and i: "i < length (pt_deployments pt)"
    and d: "deployment_ok ((pt_deployments pt ! i)\<lparr>dp_api_keys := ks\<rparr>)"
  shows "keys_ok (pt\<lparr>pt_deployments := (pt_deployments pt)[i := (pt_deployments pt ! i)\<lparr>dp_api_keys := ks\<rparr>]\<rparr>)"
proof (rule keys_ok_put[OF ok i d])
  show "dp_name (pt_deployments pt ! j) \<noteq> dp_name ((pt_deployments pt ! i)\<lparr>dp_api_keys := ks\<rparr>)"
    if "j < length (pt_deployments pt)" "j \<noteq> i" for j
    using ok i that by (simp add: keys_ok_def distinct_conv_nth)
qed simp

lemma keys_ok_nth: "keys_ok pt \<Longrightarrow> i < length (pt_deployments pt) \<Longrightarrow> deployment_ok (pt_deployments pt ! i)"
  by (simp add: keys_ok_def list_all_length)

lemma keys_ok_snoc:
  assumes "keys_ok pt" "deployment_ok d" "length (pt_deployments pt) < MAX_DEPLOYMENTS"
    and "dp_id d \<notin> dp_id ` set (pt_deployments pt)" "dp_name d \<notin> dp_name ` set (pt_deployments pt)"
  shows "keys_ok (pt\<lparr>pt_deployments := pt_deployments pt @ [d]\<rparr>)"
  using assms by (simp add: keys_ok_def)

lemma keys_ok_remove:
  assumes ok: "keys_ok pt" and i: "i < length (pt_deployments pt)" and more: "length (pt_deployments pt) \<noteq> 1"
  shows "keys_ok (pt\<lparr>pt_deployments := vec_remove i (pt_deployments pt)\<rparr>)"
proof -
  let ?ds = "pt_deployments pt"
  have split: "?ds = take i ?ds @ ?ds ! i # drop (Suc i) ?ds" using i by (rule id_take_nth_drop)
  have ok': "distinct (map dp_id ?ds)" "distinct (map dp_name ?ds)" "list_all deployment_ok ?ds"
    "1 \<le> length ?ds" "length ?ds \<le> MAX_DEPLOYMENTS"
    using ok by (simp_all add: keys_ok_def)
  have "distinct (map f (vec_remove i ?ds))" if "distinct (map f ?ds)" for f :: "deployment \<Rightarrow> string"
    using that by (subst (asm) split) (auto simp: vec_remove_def)
  moreover have "list_all deployment_ok (vec_remove i ?ds)"
    using ok'(3) by (subst (asm) split) (auto simp: vec_remove_def)
  moreover have "length (vec_remove i ?ds) = length ?ds - 1" using i by (simp add: vec_remove_def)
  ultimately show ?thesis using ok' more by (simp add: keys_ok_def) linarith
qed

lemma issue_key_fields:
  assumes "issue_key sha256_hex ids now = (secret, k)"
  shows "is_current k" "ak_id k = ''key-'' @ take 12 (snd (snd ids))" "ak_created_at k = now"
  using assms by (auto simp: issue_key_def is_current_def Let_def split: prod.splits)

text \<open>
  What a handler of this theory does to the service: nothing, or one write of a reservation
  with other deployments and events, which keeps \<open>keys_ok\<close>.
\<close>

definition deployment_write ::
  "service \<Rightarrow> timestamp \<Rightarrow> string \<Rightarrow> string \<Rightarrow> store_error option \<Rightarrow> service \<Rightarrow> bool" where
  "deployment_write sv now tenant pid fault sv' \<longleftrightarrow>
     sv' = sv \<or>
     (\<exists>a ds es r. store_get (sv_store sv) tenant pid = Some a \<and>
        svc_persist sv now (a\<lparr>pt_deployments := ds, pt_events := es\<rparr>) (pt_version a) fault = (r, sv') \<and>
        (keys_ok a \<longrightarrow> keys_ok (a\<lparr>pt_deployments := ds\<rparr>)))"

lemma deployment_writeI:
  assumes "store_get (sv_store sv) tenant pid = Some a"
    and "svc_persist sv now b (pt_version a) fault = (r, sv')"
    and "b = a\<lparr>pt_deployments := pt_deployments b, pt_events := pt_events b\<rparr>"
    and "keys_ok a \<Longrightarrow> keys_ok b"
  shows "deployment_write sv now tenant pid fault sv'"
proof -
  have "keys_ok a \<longrightarrow> keys_ok (a\<lparr>pt_deployments := pt_deployments b\<rparr>)"
    using assms(4) keys_ok_cong[of b "a\<lparr>pt_deployments := pt_deployments b\<rparr>"] by simp
  then show ?thesis unfolding deployment_write_def using assms(1-3) by metis
qed

lemma load_live_Inr:
  assumes "load_live sv tenant pid if_match = Inr a"
  shows "store_get (sv_store sv) tenant pid = Some a" "is_live (pt_state a)"
  using assms by (auto simp: load_live_def svc_get_def check_then_def split: option.splits sum.splits if_splits)

lemma deployment_index_Inr:
  assumes "deployment_index pt (Some dep) = Inr i"
  shows "i < length (pt_deployments pt)" "dp_id (pt_deployments pt ! i) = dep"
  using assms by (auto simp: deployment_index_def split: option.splits dest!: position_SomeD)

lemma create_deployment_write:
  assumes r: "create_deployment sha256_hex sv now uid ids tenant pid if_match req fault = (r, sv')"
    and fresh: "\<And>a. store_get (sv_store sv) tenant pid = Some a \<Longrightarrow> ''dep-'' @ take 16 uid \<notin> dp_id ` set (pt_deployments a)"
  shows "deployment_write sv now tenant pid fault sv'"
proof (cases "load_live sv tenant pid if_match")
  case (Inl e)
  then show ?thesis using r by (auto simp: create_deployment_def deployment_write_def)
next
  case (Inr a)
  note a = load_live_Inr[OF Inr]
  let ?go = "ensure_deployment_name_free a (cd_name req) None = Inr () \<and> validate_max_share (cd_max_share req) = Inr ()
    \<and> \<not> MAX_DEPLOYMENTS \<le> length (pt_deployments a)"
  obtain secret k where key: "issue_key sha256_hex ids now = (secret, k)" by fastforce
  let ?d = "new_deployment uid now k req"
  let ?b = "push_event now (EvDeploymentCreated (dp_id ?d) (dp_name ?d) (dp_max_share ?d)) (a\<lparr>pt_deployments := pt_deployments a @ [?d]\<rparr>)"
  show ?thesis
  proof (cases ?go)
    case False
    then have "sv' = sv" using r Inr by (auto simp: create_deployment_def split: sum.splits if_splits)
    then show ?thesis by (simp add: deployment_write_def)
  next
    case True
    have "\<exists>x. svc_persist sv now ?b (pt_version a) fault = (x, sv')"
      using r Inr True key by (auto simp: create_deployment_def Let_def split: sum.splits prod.splits)
    then obtain x where x: "svc_persist sv now ?b (pt_version a) fault = (x, sv')" ..
    show ?thesis
    proof (rule deployment_writeI[OF a(1) x])
      assume ok: "keys_ok a"
      have "deployment_ok ?d" using True issue_key_fields[OF key]
        by (auto simp: deployment_ok_def new_deployment_def validate_max_share_def split: option.splits if_splits)
      moreover have "dp_name ?d \<notin> dp_name ` set (pt_deployments a)"
        using True by (auto simp: ensure_deployment_name_free_def check_then_def new_deployment_def list_ex_iff split: sum.splits if_splits)
      ultimately have "keys_ok (a\<lparr>pt_deployments := pt_deployments a @ [?d]\<rparr>)"
        using True fresh[OF a(1)] by (intro keys_ok_snoc[OF ok]) (simp_all add: new_deployment_def)
      then show "keys_ok ?b" by (simp cong: keys_ok_cong add: keys_ok_def)
    qed (simp add: push_event_def)
  qed
qed

lemma update_deployment_write:
  assumes r: "update_deployment sv now tenant pid dep if_match req fault = (r, sv')"
  shows "deployment_write sv now tenant pid fault sv'"
proof (cases "load_live sv tenant pid if_match")
  case (Inl e)
  then show ?thesis using r by (auto simp: update_deployment_def deployment_write_def)
next
  case (Inr a)
  note a = load_live_Inr[OF Inr]
  let ?chk = "check_then (option_check (\<lambda>n. ensure_deployment_name_free a n (Some dep)) (ud_name req))
             (option_check validate_max_share (ud_max_share req))"
  show ?thesis
  proof (cases "deployment_index a (Some dep)")
    case Inl': (Inl e)
    then show ?thesis using r Inr by (auto simp: update_deployment_def deployment_write_def)
  next
    case i: (Inr i)
    note idx = deployment_index_Inr[OF i]
    let ?old = "pt_deployments a ! i"
    let ?d = "changed_deployment req ?old"
    let ?b = "push_event now (EvDeploymentUpdated (dp_id ?d) (dp_name ?d) (dp_max_share ?d))
                (a\<lparr>pt_deployments := (pt_deployments a)[i := ?d]\<rparr>)"
    show ?thesis
    proof (cases "?chk = Inr () \<and> \<not> (dp_name ?d = dp_name ?old \<and> dp_max_share ?d = dp_max_share ?old)")
      case False
      then have "sv' = sv" using r Inr i by (auto simp: update_deployment_def Let_def split: sum.splits if_splits)
      then show ?thesis by (simp add: deployment_write_def)
    next
      case True
      then have go: "?chk = Inr ()" and new: "\<not> (dp_name ?d = dp_name ?old \<and> dp_max_share ?d = dp_max_share ?old)"
        by simp_all
      have x: "svc_persist sv now ?b (pt_version a) fault = (r, sv')"
        using r unfolding update_deployment_def Inr i sum.case go Let_def if_not_P[OF new] .
      show ?thesis
      proof (rule deployment_writeI[OF a(1) x])
        assume ok: "keys_ok a"
        have d: "dp_id ?d = dp_id ?old" "dp_api_keys ?d = dp_api_keys ?old" by (simp_all add: changed_deployment_def)
        have share: "case dp_max_share ?d of None \<Rightarrow> True | Some s \<Rightarrow> 0 < s \<and> s \<le> 1"
          using True keys_ok_nth[OF ok idx(1)]
          by (auto simp: changed_deployment_def deployment_ok_def check_then_def option_check_def validate_max_share_def
              split: option.splits sum.splits if_splits)
        have "keys_ok (a\<lparr>pt_deployments := (pt_deployments a)[i := ?d]\<rparr>)"
        proof (rule keys_ok_put[OF ok idx(1) _ d(1)])
          show "deployment_ok ?d" using keys_ok_nth[OF ok idx(1)] d share by (simp add: deployment_ok_def)
          fix j assume j: "j < length (pt_deployments a)" "j \<noteq> i"
          have ids: "dp_id (pt_deployments a ! j) \<noteq> dep" and names: "dp_name (pt_deployments a ! j) \<noteq> dp_name ?old"
            using ok j idx by (auto simp: keys_ok_def distinct_conv_nth)
          show "dp_name (pt_deployments a ! j) \<noteq> dp_name ?d"
          proof (cases "ud_name req")
            case None
            then show ?thesis using names by (simp add: changed_deployment_def)
          next
            case (Some n)
            then have "\<not> list_ex (\<lambda>x. dp_name x = n \<and> Some (dp_id x) \<noteq> Some dep) (pt_deployments a)"
              using True by (auto simp: check_then_def option_check_def ensure_deployment_name_free_def split: sum.splits if_splits)
            then have "dp_name (pt_deployments a ! j) \<noteq> n" using ids j(1) by (auto simp: list_ex_iff)
            then show ?thesis using Some by (simp add: changed_deployment_def)
          qed
        qed
        then show "keys_ok ?b" by (simp add: keys_ok_def)
      qed (simp add: push_event_def)
    qed
  qed
qed

lemma delete_deployment_write:
  assumes r: "delete_deployment sv now tenant pid dep if_match fault = (r, sv')"
  shows "deployment_write sv now tenant pid fault sv'"
proof (cases "load_live sv tenant pid if_match")
  case (Inl e)
  then show ?thesis using r by (auto simp: delete_deployment_def deployment_write_def)
next
  case (Inr a)
  note a = load_live_Inr[OF Inr]
  show ?thesis
  proof (cases "deployment_index a (Some dep)")
    case Inl': (Inl e)
    then show ?thesis using r Inr by (auto simp: delete_deployment_def deployment_write_def)
  next
    case i: (Inr i)
    show ?thesis
    proof (cases "length (pt_deployments a) = 1")
      case True
      then show ?thesis using r Inr i by (auto simp: delete_deployment_def deployment_write_def)
    next
      case False
      then have x: "svc_persist sv now (push_event now (EvDeploymentDeleted (dp_id (pt_deployments a ! i)))
          (a\<lparr>pt_deployments := vec_remove i (pt_deployments a)\<rparr>)) (pt_version a) fault = (r, sv')"
        using r Inr i by (simp add: delete_deployment_def)
      show ?thesis
      proof (rule deployment_writeI[OF a(1) x])
        assume "keys_ok a"
        from keys_ok_remove[OF this deployment_index_Inr(1)[OF i] False]
        show "keys_ok (push_event now (EvDeploymentDeleted (dp_id (pt_deployments a ! i)))
            (a\<lparr>pt_deployments := vec_remove i (pt_deployments a)\<rparr>))" by (simp add: keys_ok_def)
      qed (simp add: push_event_def)
    qed
  qed
qed

lemma push_all_edit:
  "foldl (\<lambda>pt x. push_event t (f x) pt) (a\<lparr>pt_deployments := ds, pt_events := es\<rparr>) xs
     = a\<lparr>pt_deployments := ds, pt_events := es @ map (\<lambda>x. \<lparr>ev_at = t, ev_kind = f x\<rparr>) xs\<rparr>"
  by (induction xs arbitrary: es) (simp_all add: push_event_def)

lemma prune_edit:
  "\<exists>es. fst (prune_expired_keys now a) = a\<lparr>pt_deployments :=
     map (\<lambda>d. d\<lparr>dp_api_keys := filter (key_live now) (dp_api_keys d)\<rparr>) (pt_deployments a), pt_events := es\<rparr>"
proof -
  have "\<exists>es. foldl (\<lambda>pt (d, k). push_event now (EvKeyExpired d k) pt) (a\<lparr>pt_deployments := ds\<rparr>) xs
      = a\<lparr>pt_deployments := ds, pt_events := es\<rparr>" for ds xs
    using push_all_edit[where t = now and f = "\<lambda>(d, k). EvKeyExpired d k" and a = a and ds = ds and es = "pt_events a" and xs = xs]
    by (auto simp: case_prod_unfold)
  then show ?thesis unfolding prune_expired_keys_def Let_def by simp
qed

lemma rotate_edit:
  "\<exists>es. rotate_deployment now e k i pt = pt\<lparr>pt_deployments := (pt_deployments pt)
     [i := (pt_deployments pt ! i)\<lparr>dp_api_keys := fst (rotate_keys e k (dp_api_keys (pt_deployments pt ! i)))\<rparr>], pt_events := es\<rparr>"
proof -
  have "\<exists>es. foldl (\<lambda>pt k. push_event now (EvKeyRevoked d (ak_id k)) pt) (push_event now kd (pt\<lparr>pt_deployments := ds\<rparr>)) xs
      = pt\<lparr>pt_deployments := ds, pt_events := es\<rparr>" for d kd ds xs
    using push_all_edit[where t = now and f = "\<lambda>k. EvKeyRevoked d (ak_id k)" and a = pt and ds = ds
        and es = "pt_events pt @ [\<lparr>ev_at = now, ev_kind = kd\<rparr>]" and xs = xs]
    by (auto simp: push_event_def)
  then show ?thesis unfolding rotate_deployment_def Let_def by (simp add: case_prod_unfold)
qed

lemma rotate_key_write:
  assumes r: "rotate_key sha256_hex sv now ids tenant pid dep if_match req fault = Some (r, sv')"
    and fresh: "\<And>a d. store_get (sv_store sv) tenant pid = Some a \<Longrightarrow> d \<in> set (pt_deployments a)
      \<Longrightarrow> ''key-'' @ take 12 (snd (snd ids)) \<notin> ak_id ` set (dp_api_keys d)"
  shows "deployment_write sv now tenant pid fault sv'"
proof -
  let ?grace = "case rk_grace_minutes req of None \<Rightarrow> DEFAULT_KEY_GRACE_MINUTES | Some g \<Rightarrow> g"
  let ?e = "if 0 < ?grace then Some (now + from_mins ?grace) else None"
  obtain secret k where key: "issue_key sha256_hex ids now = (secret, k)" by fastforce
  consider "sv' = sv" | a i x where "load_live sv tenant pid if_match = Inr a"
    "i < length (pt_deployments (fst (prune_expired_keys now a)))"
    "svc_persist sv now (rotate_deployment now ?e k i (fst (prune_expired_keys now a))) (pt_version a) fault = (x, sv')"
  proof -
    assume same: "sv' = sv \<Longrightarrow> thesis" and wrote: "\<And>a i x. load_live sv tenant pid if_match = Inr a \<Longrightarrow>
      i < length (pt_deployments (fst (prune_expired_keys now a))) \<Longrightarrow>
      svc_persist sv now (rotate_deployment now ?e k i (fst (prune_expired_keys now a))) (pt_version a) fault = (x, sv') \<Longrightarrow> thesis"
    show thesis
    proof (cases "MAX_KEY_GRACE_MINUTES < ?grace")
      case True
      then show thesis using r same by (simp add: rotate_key_def)
    next
      case g: False
      show thesis
      proof (cases "load_live sv tenant pid if_match")
        case (Inl e)
        then show thesis using r g same by (simp add: rotate_key_def)
      next
        case (Inr a)
        show thesis
        proof (cases "deployment_index a dep")
          case Inl': (Inl e)
          then show thesis using r g Inr same by (simp add: rotate_key_def)
        next
          case i: (Inr i)
          let ?p = "fst (prune_expired_keys now a)"
          obtain x sv1 where x: "svc_persist sv now (rotate_deployment now ?e k i ?p) (pt_version a) fault = (x, sv1)" by fastforce
          have "i < length (pt_deployments ?p) \<and> sv1 = sv'"
            using r g Inr i x by (cases x) (auto simp: rotate_key_def key Let_def split: if_splits)
          then show thesis using wrote[OF Inr, of i x] x by blast
        qed
      qed
    qed
  qed
  then show ?thesis
  proof cases
    case 1
    then show ?thesis by (simp add: deployment_write_def)
  next
    case (2 a i x)
    note a = load_live_Inr[OF 2(1)]
    let ?p = "fst (prune_expired_keys now a)"
    obtain es where p: "?p = a\<lparr>pt_deployments := map (\<lambda>d. d\<lparr>dp_api_keys := filter (key_live now) (dp_api_keys d)\<rparr>)
        (pt_deployments a), pt_events := es\<rparr>" using prune_edit by blast
    let ?d = "pt_deployments ?p ! i"
    obtain es' where b: "rotate_deployment now ?e k i ?p = ?p\<lparr>pt_deployments := (pt_deployments ?p)
        [i := ?d\<lparr>dp_api_keys := fst (rotate_keys ?e k (dp_api_keys ?d))\<rparr>], pt_events := es'\<rparr>"
      using rotate_edit by blast
    show ?thesis
    proof (rule deployment_writeI[OF a(1) 2(3)])
      show "rotate_deployment now ?e k i ?p = a\<lparr>pt_deployments := pt_deployments (rotate_deployment now ?e k i ?p),
          pt_events := pt_events (rotate_deployment now ?e k i ?p)\<rparr>"
        unfolding b unfolding p by simp
      assume "keys_ok a"
      then have okp: "keys_ok ?p" by (rule prune_keys_ok)
      note d = keys_ok_nth[OF okp 2(2)]
      have i: "i < length (pt_deployments a)" using 2(2) by (simp add: prune_deployments)
      have "set (dp_api_keys ?d) \<subseteq> set (dp_api_keys (pt_deployments a ! i))"
        using i by (auto simp: prune_deployments)
      then have new: "ak_id k \<notin> ak_id ` set (dp_api_keys ?d)"
        using fresh[OF a(1) nth_mem[OF i]] issue_key_fields(2)[OF key] by auto
      have rk: "filter is_current (fst (rotate_keys ?e k (dp_api_keys ?d))) = [k]"
        "length (fst (rotate_keys ?e k (dp_api_keys ?d))) \<le> 1 + MAX_PREVIOUS_KEYS"
        "distinct (map ak_id (fst (rotate_keys ?e k (dp_api_keys ?d))))"
        using rotate_keys_ok(1-3)[OF _ _ new issue_key_fields(1)[OF key]] d by (simp_all add: deployment_ok_def)
      have "keys_ok (?p\<lparr>pt_deployments := (pt_deployments ?p)[i := ?d\<lparr>dp_api_keys := fst (rotate_keys ?e k (dp_api_keys ?d))\<rparr>]\<rparr>)"
        by (rule keys_ok_keys[OF okp 2(2)]) (use d rk in \<open>simp add: deployment_ok_def\<close>)
      then show "keys_ok (rotate_deployment now ?e k i ?p)" unfolding b by (simp add: keys_ok_def)
    qed
  qed
qed

lemma revoke_key_write:
  assumes r: "revoke_key sv now tenant pid dep key_id if_match fault = Some (r, sv')"
  shows "deployment_write sv now tenant pid fault sv'"
proof -
  consider "sv' = sv" | a i key where "store_get (sv_store sv) tenant pid = Some a" "\<not> length (pt_deployments a) \<le> i"
    "find (\<lambda>k. ak_id k = key_id) (dp_api_keys (pt_deployments a ! i)) = Some key" "\<not> is_current key"
    "svc_persist sv now (push_event now (EvKeyRevoked (dp_id (pt_deployments a ! i)) key_id)
       (a\<lparr>pt_deployments := (pt_deployments a)[i := (pt_deployments a ! i)
          \<lparr>dp_api_keys := filter (\<lambda>k. ak_id k \<noteq> key_id) (dp_api_keys (pt_deployments a ! i))\<rparr>]\<rparr>)) (pt_version a) fault = (r, sv')"
    using r unfolding revoke_key_def svc_get_def Let_def
    by (simp only: split: if_splits sum.splits option.splits) (auto simp del: not_le)
  then show ?thesis
  proof cases
    case 1
    then show ?thesis by (simp add: deployment_write_def)
  next
    case (2 a i key)
    then have i: "i < length (pt_deployments a)" by simp
    let ?d = "pt_deployments a ! i" and ?ks = "filter (\<lambda>k. ak_id k \<noteq> key_id) (dp_api_keys (pt_deployments a ! i))"
    show ?thesis
    proof (rule deployment_writeI[OF 2(1) 2(5)])
      assume ok: "keys_ok a"
      note d = keys_ok_nth[OF ok i]
      have key: "key \<in> set (dp_api_keys ?d)" "ak_id key = key_id"
        using 2(3) by (auto simp: find_Some_iff)
      have "\<not> is_current k" if "k \<in> set (dp_api_keys ?d)" "ak_id k = key_id" for k
        using d key that 2(4) by (auto simp: deployment_ok_def distinct_map inj_on_def)
      then have "filter is_current ?ks = filter is_current (dp_api_keys ?d)" by (auto intro: filter_cong)
      then have "deployment_ok (?d\<lparr>dp_api_keys := ?ks\<rparr>)" using d
        by (auto simp: deployment_ok_def distinct_map_filter intro: order_trans[OF length_filter_le] simp del: filter_filter)
      from keys_ok_keys[OF ok i this]
      show "keys_ok (push_event now (EvKeyRevoked (dp_id ?d) key_id)
          (a\<lparr>pt_deployments := (pt_deployments a)[i := ?d\<lparr>dp_api_keys := ?ks\<rparr>]\<rparr>))" by (simp add: keys_ok_def)
    qed (simp add: push_event_def)
  qed
qed

end
