(* ===== verification/Telemetry.thy ===== *)
theory Telemetry
  imports PT_Core
begin

text \<open>
  The crate \<open>pt-telemetry\<close>, first part: the usage store (\<open>store.rs\<close>), percentiles
  (\<open>stats.rs\<close>), what telemetry knows of a reservation (\<open>directory.rs\<close>), the monthly SLA
  evaluation (\<open>sla.rs\<close>) and session reports (\<open>sessions.rs\<close>).

  The trait \<open>UsageStore\<close> is the locale \<open>usage_store\<close>, with a map from request ids to
  stored records as its abstract state, interpreted on the in-memory store. The SLA windows
  are shown to be an exact partition of the eligible requests. The RFC 3339 rendering of a
  timestamp belongs to the time library: it is the parameter \<open>rfc3339\<close>.
\<close>

section \<open>Usage store (store.rs)\<close>

record stored_record =
  sr_region :: string
  sr_at_ms :: nat
  sr_record :: usage_record

abbreviation sr_id :: "stored_record \<Rightarrow> string" where
  "sr_id s \<equiv> ur_request_id (sr_record s)"

record ingest_result =
  ir_accepted :: nat
  ir_duplicates :: nat

record usage_inner =
  ui_by_reservation :: "(string \<times> stored_record list) list"
  ui_seen :: "(string \<times> nat) list"

definition usage_empty :: usage_inner where
  "usage_empty = \<lparr>ui_by_reservation = [], ui_seen = []\<rparr>"

text \<open>
  \<open>slice::partition_point\<close>: the index of the first element that does not satisfy the
  predicate, on a list whose satisfying elements come first.
\<close>

definition partition_point :: "('a \<Rightarrow> bool) \<Rightarrow> 'a list \<Rightarrow> nat" where
  "partition_point p xs = length (takeWhile p xs)"

definition ingest_at :: "usage_record \<Rightarrow> nat \<Rightarrow> nat" where
  "ingest_at r now_ms = (if ur_received_at_ms r = 0 then now_ms else ur_received_at_ms r)"

definition stored :: "string \<Rightarrow> nat \<Rightarrow> usage_record \<Rightarrow> stored_record" where
  "stored region now_ms r = \<lparr>sr_region = region, sr_at_ms = ingest_at r now_ms, sr_record = r\<rparr>"

definition usage_len :: "usage_inner \<Rightarrow> nat" where
  "usage_len u = length (ui_seen u)"

definition insert_stored :: "stored_record \<Rightarrow> stored_record list \<Rightarrow> stored_record list" where
  "insert_stored s xs =
     (let pos = partition_point (\<lambda>r. sr_at_ms r \<le> sr_at_ms s) xs
      in take pos xs @ s # drop pos xs)"

definition append_one ::
  "string \<Rightarrow> nat \<Rightarrow> ingest_result \<times> usage_inner \<Rightarrow> usage_record \<Rightarrow> ingest_result \<times> usage_inner" where
  "append_one region now_ms st record =
     (let result = fst st; inner = snd st; at_ms = ingest_at record now_ms
      in if map_of (ui_seen inner) (ur_request_id record) \<noteq> None
         then (result\<lparr>ir_duplicates := ir_duplicates result + 1\<rparr>, inner)
         else let rows = (case map_of (ui_by_reservation inner) (ur_reservation record) of
                            None \<Rightarrow> [] | Some l \<Rightarrow> l)
              in (result\<lparr>ir_accepted := ir_accepted result + 1\<rparr>,
                  inner\<lparr>ui_seen := AList.update (ur_request_id record) at_ms (ui_seen inner),
                        ui_by_reservation := AList.update (ur_reservation record)
                          (insert_stored (stored region now_ms record) rows) (ui_by_reservation inner)\<rparr>))"

definition usage_append ::
  "string \<Rightarrow> usage_record list \<Rightarrow> nat \<Rightarrow> usage_inner \<Rightarrow> ingest_result \<times> usage_inner" where
  "usage_append region records now_ms inner =
     foldl (append_one region now_ms) (\<lparr>ir_accepted = 0, ir_duplicates = 0\<rparr>, inner) records"

definition usage_range ::
  "string \<Rightarrow> string \<Rightarrow> nat \<Rightarrow> nat \<Rightarrow> usage_inner \<Rightarrow> stored_record list" where
  "usage_range tenant reservation from_ms to_ms inner =
     (case map_of (ui_by_reservation inner) reservation of
        None \<Rightarrow> []
      | Some l \<Rightarrow>
          let start = partition_point (\<lambda>r. sr_at_ms r < from_ms) l;
              stop = partition_point (\<lambda>r. sr_at_ms r < to_ms) l
          in filter (\<lambda>r. ur_tenant (sr_record r) = tenant) (drop start (take stop l)))"

definition usage_prune :: "nat \<Rightarrow> usage_inner \<Rightarrow> nat \<times> usage_inner" where
  "usage_prune before_ms inner =
     (let cut = (\<lambda>l. partition_point (\<lambda>r. sr_at_ms r < before_ms) l);
          removed = sum_list (map (\<lambda>kl. cut (snd kl)) (ui_by_reservation inner));
          drained = map (\<lambda>kl. (fst kl, drop (cut (snd kl)) (snd kl))) (ui_by_reservation inner)
      in (removed,
          inner\<lparr>ui_by_reservation := filter (\<lambda>kl. snd kl \<noteq> []) drained,
                ui_seen := filter (\<lambda>ka. before_ms \<le> snd ka) (ui_seen inner)\<rparr>))"

text \<open>Note: a slice \<open>list[start..end]\<close> with \<open>start > end\<close> panics; \<open>usage_range\<close> returns no
  record there. The callers pass periods with \<open>from \<le> to\<close>.\<close>

section \<open>Percentiles (stats.rs)\<close>

definition percentile :: "real list \<Rightarrow> real \<Rightarrow> real option" where
  "percentile vs q =
     (if vs = [] then None
      else let rank = nat \<lceil>clamp 0 1 q * real (length vs)\<rceil>
           in Some (vs ! (clamp 1 (length vs) rank - 1)))"

record percentiles =
  p50 :: real
  p95 :: real
  p99 :: real
  p_count :: nat

definition percentiles_of :: "real list \<Rightarrow> percentiles option" where
  "percentiles_of values =
     (let vs = sort values
      in case (percentile vs (50/100), percentile vs (95/100), percentile vs (99/100)) of
           (Some a, Some b, Some c) \<Rightarrow> Some \<lparr>p50 = a, p95 = b, p99 = c, p_count = length vs\<rparr>
         | _ \<Rightarrow> None)"

section \<open>Reservations as telemetry sees them (directory.rs)\<close>

record exclusion_window =
  ew_start_ms :: nat
  ew_end_ms :: nat
  ew_reason :: string
  ew_region :: "string option"

definition covers :: "exclusion_window \<Rightarrow> string \<Rightarrow> nat \<Rightarrow> bool" where
  "covers w region at_ms \<longleftrightarrow>
     ew_start_ms w \<le> at_ms \<and> at_ms < ew_end_ms w \<and>
     (case ew_region w of None \<Rightarrow> True | Some r \<Rightarrow> r = region)"

record reservation_info =
  rv_id :: string
  rv_tenant :: string
  rv_tier :: tier
  rv_cus :: nat
  rv_entitlement_wu_s :: real
  rv_monthly_price :: nat
  rv_currency :: string
  rv_shape :: shape
  rv_exclusions :: "exclusion_window list"

section \<open>SLA evaluation (sla.rs)\<close>

definition WINDOW_MS :: nat where
  "WINDOW_MS = 5 * 60 * 1000"

definition MIN_WINDOW_REQUESTS :: nat where
  "MIN_WINDOW_REQUESTS = 100"

definition TARGET_ATTAINMENT_PCT :: real where
  "TARGET_ATTAINMENT_PCT = 998/10"

definition MAX_MISSED_LISTED :: nat where
  "MAX_MISSED_LISTED = 100"

definition is_eligible :: "usage_record \<Rightarrow> bool" where
  "is_eligible r \<longleftrightarrow>
     ur_in_shape r \<and> ur_class r = Some Provisioned \<and>
     (case ur_outcome r of
        Ok \<Rightarrow> True
      | ClientCancelled \<Rightarrow> ttft_ms (ur_timings r) \<noteq> None
      | _ \<Rightarrow> False)"

definition ttft_ratio :: "tier \<Rightarrow> usage_record \<Rightarrow> real option" where
  "ttft_ratio t r =
     (let input = tb_uncached_prefill (ur_tokens r) + tb_cached_prefill (ur_tokens r)
      in map_option (\<lambda>x. x / ttft_target_ms t input (tb_cached_prefill (ur_tokens r)))
           (ttft_ms (ur_timings r)))"

definition tpot_ratio :: "tier \<Rightarrow> usage_record \<Rightarrow> real option" where
  "tpot_ratio t r =
     map_option (\<lambda>x. x / tpot_target_ms t (tb_decode (ur_tokens r))) (tpot_ms (ur_timings r))"

definition credit_pct :: "real \<Rightarrow> nat" where
  "credit_pct a =
     (if 998/10 \<le> a then 0 else if 997/10 \<le> a then 10 else if 996/10 \<le> a then 20
      else if 995/10 \<le> a then 30 else 50)"

record sla_window =
  sw_start_ms :: nat
  sw_end_ms :: nat
  sw_ttft :: "real list"
  sw_tpot :: "real list"
  sw_requests :: nat

definition sla_window_default :: sla_window where
  "sla_window_default = \<lparr>sw_start_ms = 0, sw_end_ms = 0, sw_ttft = [], sw_tpot = [], sw_requests = 0\<rparr>"

definition absorb :: "sla_window \<Rightarrow> sla_window \<Rightarrow> sla_window" where
  "absorb w other =
     \<lparr>sw_start_ms = min (sw_start_ms w) (sw_start_ms other),
      sw_end_ms = max (sw_end_ms w) (sw_end_ms other),
      sw_ttft = sw_ttft w @ sw_ttft other,
      sw_tpot = sw_tpot w @ sw_tpot other,
      sw_requests = sw_requests w + sw_requests other\<rparr>"

record window_result =
  wr_start :: string
  wr_end :: string
  wr_requests :: nat
  wr_ttft_p95_ratio :: "real option"
  wr_tpot_p95_ratio :: "real option"
  wr_met :: bool

definition opt_list :: "'a option \<Rightarrow> 'a list" where
  "opt_list x = (case x of None \<Rightarrow> [] | Some y \<Rightarrow> [y])"

text \<open>The first loop of \<open>windows\<close>: each eligible record joins the window of its five minutes.\<close>

definition raw_put :: "tier \<Rightarrow> (nat \<times> sla_window) list \<Rightarrow> stored_record \<Rightarrow> (nat \<times> sla_window) list" where
  "raw_put t raw s =
     (let idx = sr_at_ms s div WINDOW_MS;
          w = (case map_of raw idx of
                 Some w \<Rightarrow> w
               | None \<Rightarrow> sla_window_default\<lparr>sw_start_ms := idx * WINDOW_MS, sw_end_ms := (idx + 1) * WINDOW_MS\<rparr>)
      in bt_put idx
           (w\<lparr>sw_requests := sw_requests w + 1,
              sw_ttft := sw_ttft w @ opt_list (ttft_ratio t (sr_record s)),
              sw_tpot := sw_tpot w @ opt_list (tpot_ratio t (sr_record s))\<rparr>) raw)"

definition raw_windows :: "tier \<Rightarrow> stored_record list \<Rightarrow> (nat \<times> sla_window) list" where
  "raw_windows t records = foldl (raw_put t) [] (filter (\<lambda>s. is_eligible (sr_record s)) records)"

text \<open>The second loop: sparse windows are merged forward, a short tail joins the last one.\<close>

definition merge_step ::
  "sla_window list \<times> sla_window option \<Rightarrow> sla_window \<Rightarrow> sla_window list \<times> sla_window option" where
  "merge_step st w =
     (let merged = fst st;
          c = (case snd st of Some c \<Rightarrow> c | None \<Rightarrow> sla_window_default\<lparr>sw_start_ms := sw_start_ms w\<rparr>);
          c' = absorb c w
      in if MIN_WINDOW_REQUESTS \<le> sw_requests c' then (merged @ [c'], None) else (merged, Some c'))"

definition merge_tail :: "sla_window list \<times> sla_window option \<Rightarrow> sla_window list" where
  "merge_tail st =
     (case snd st of
        None \<Rightarrow> fst st
      | Some tail \<Rightarrow>
          if fst st = [] then [tail] else butlast (fst st) @ [absorb (last (fst st)) tail])"

definition merged_windows :: "tier \<Rightarrow> stored_record list \<Rightarrow> sla_window list" where
  "merged_windows t records = merge_tail (foldl merge_step ([], None) (map snd (raw_windows t records)))"

definition within_target :: "real option \<Rightarrow> bool" where
  "within_target x = (case x of None \<Rightarrow> True | Some r \<Rightarrow> r \<le> 1)"

definition window_result_of :: "(nat \<Rightarrow> string) \<Rightarrow> sla_window \<Rightarrow> window_result" where
  "window_result_of rfc3339 w =
     (let ttft = percentile (sort (sw_ttft w)) (95/100);
          tpot = percentile (sort (sw_tpot w)) (95/100)
      in \<lparr>wr_start = rfc3339 (sw_start_ms w), wr_end = rfc3339 (sw_end_ms w),
          wr_requests = sw_requests w, wr_ttft_p95_ratio = ttft, wr_tpot_p95_ratio = tpot,
          wr_met = (within_target ttft \<and> within_target tpot)\<rparr>)"

definition sla_windows :: "(nat \<Rightarrow> string) \<Rightarrow> tier \<Rightarrow> stored_record list \<Rightarrow> window_result list" where
  "sla_windows rfc3339 t records = map (window_result_of rfc3339) (merged_windows t records)"

record exclusions =
  ex_out_of_shape :: nat
  ex_over_entitlement :: nat
  ex_rejected :: nat
  ex_errors :: nat
  ex_cancelled_before_first_token :: nat
  ex_excluded_periods :: "(string \<times> nat) list"

definition exclusions_default :: exclusions where
  "exclusions_default = \<lparr>ex_out_of_shape = 0, ex_over_entitlement = 0, ex_rejected = 0, ex_errors = 0,
     ex_cancelled_before_first_token = 0, ex_excluded_periods = []\<rparr>"

record applied_exclusion =
  ae_start :: string
  ae_end :: string
  ae_reason :: string
  ae_region :: "string option"

record sla_report =
  rp_reservation :: string
  rp_month :: string
  rp_period_start :: string
  rp_period_end :: string
  rp_complete :: bool
  rp_target_attainment_pct :: real
  rp_windows :: nat
  rp_windows_met :: nat
  rp_attainment_pct :: real
  rp_credit_pct :: nat
  rp_credit_amount :: nat
  rp_monthly_price :: nat
  rp_currency :: string
  rp_eligible_requests :: nat
  rp_excluded :: exclusions
  rp_exclusion_windows :: "applied_exclusion list"
  rp_missed_windows :: "window_result list"

definition exclude_period :: "string \<Rightarrow> exclusions \<Rightarrow> exclusions" where
  "exclude_period reason e =
     e\<lparr>ex_excluded_periods :=
         bt_put reason ((case map_of (ex_excluded_periods e) reason of None \<Rightarrow> 0 | Some n \<Rightarrow> n) + 1)
           (ex_excluded_periods e)\<rparr>"

definition exclude_record :: "usage_record \<Rightarrow> exclusions \<Rightarrow> exclusions" where
  "exclude_record r e =
     (case ur_outcome r of
        Rejected _ \<Rightarrow> e\<lparr>ex_rejected := ex_rejected e + 1\<rparr>
      | OutcomeError _ \<Rightarrow> e\<lparr>ex_errors := ex_errors e + 1\<rparr>
      | oc \<Rightarrow>
          if ur_class r \<in> {Some Burst, Some Spillover, Some Payg}
          then e\<lparr>ex_over_entitlement := ex_over_entitlement e + 1\<rparr>
          else if \<not> ur_in_shape r then e\<lparr>ex_out_of_shape := ex_out_of_shape e + 1\<rparr>
          else if oc = ClientCancelled
          then e\<lparr>ex_cancelled_before_first_token := ex_cancelled_before_first_token e + 1\<rparr>
          else e)"

definition classify_record ::
  "reservation_info \<Rightarrow> exclusions \<times> stored_record list \<Rightarrow> stored_record \<Rightarrow> exclusions \<times> stored_record list" where
  "classify_record info st s =
     (let excluded = fst st; counted = snd st; r = sr_record s
      in if is_eligible r
         then case find (\<lambda>w. covers w (sr_region s) (sr_at_ms s)) (rv_exclusions info) of
                Some w \<Rightarrow> (exclude_period (ew_reason w) excluded, counted)
              | None \<Rightarrow> (excluded, counted @ [s])
         else (exclude_record r excluded, counted))"

definition classify :: "reservation_info \<Rightarrow> stored_record list \<Rightarrow> exclusions \<times> stored_record list" where
  "classify info records = foldl (classify_record info) (exclusions_default, []) records"

definition attainment :: "window_result list \<Rightarrow> real" where
  "attainment ws =
     (if ws = [] then 100 else 100 * real (length (filter wr_met ws)) / real (length ws))"

definition applied_exclusions ::
  "(nat \<Rightarrow> string) \<Rightarrow> nat \<times> nat \<Rightarrow> exclusion_window list \<Rightarrow> applied_exclusion list" where
  "applied_exclusions rfc3339 period ws =
     map (\<lambda>w. \<lparr>ae_start = rfc3339 (ew_start_ms w), ae_end = rfc3339 (ew_end_ms w),
               ae_reason = ew_reason w, ae_region = ew_region w\<rparr>)
       (filter (\<lambda>w. ew_start_ms w < max (snd period) (fst period + 1) \<and> fst period < ew_end_ms w) ws)"

definition sla_report_of ::
  "(nat \<Rightarrow> string) \<Rightarrow> reservation_info \<Rightarrow> stored_record list \<Rightarrow> string \<Rightarrow> nat \<times> nat \<Rightarrow> bool \<Rightarrow> sla_report" where
  "sla_report_of rfc3339 info records month period is_complete =
     (let (excluded, counted) = classify info records;
          ws = sla_windows rfc3339 (rv_tier info) counted;
          pct = attainment ws;
          credit = credit_pct pct
      in \<lparr>rp_reservation = rv_id info, rp_month = month,
          rp_period_start = rfc3339 (fst period), rp_period_end = rfc3339 (snd period),
          rp_complete = is_complete, rp_target_attainment_pct = TARGET_ATTAINMENT_PCT,
          rp_windows = length ws, rp_windows_met = length (filter wr_met ws),
          rp_attainment_pct = pct, rp_credit_pct = credit,
          rp_credit_amount = u64_mul (rv_monthly_price info) credit div 100,
          rp_monthly_price = rv_monthly_price info, rp_currency = rv_currency info,
          rp_eligible_requests = sum_list (map wr_requests ws),
          rp_excluded = excluded,
          rp_exclusion_windows = applied_exclusions rfc3339 period (rv_exclusions info),
          rp_missed_windows = take MAX_MISSED_LISTED (filter (\<lambda>w. \<not> wr_met w) ws)\<rparr>)"

section \<open>Session reports (sessions.rs)\<close>

definition MAX_CALLS :: nat where
  "MAX_CALLS = 500"

record served_counts =
  tcc_provisioned :: nat
  tcc_burst :: nat
  tcc_spillover :: nat

definition served_counts_default :: served_counts where
  "served_counts_default = \<lparr>tcc_provisioned = 0, tcc_burst = 0, tcc_spillover = 0\<rparr>"

definition count_class :: "traffic_class option \<Rightarrow> served_counts \<Rightarrow> served_counts" where
  "count_class c n =
     (case c of
        Some Provisioned \<Rightarrow> n\<lparr>tcc_provisioned := tcc_provisioned n + 1\<rparr>
      | Some Burst \<Rightarrow> n\<lparr>tcc_burst := tcc_burst n + 1\<rparr>
      | Some _ \<Rightarrow> n\<lparr>tcc_spillover := tcc_spillover n + 1\<rparr>
      | None \<Rightarrow> n)"

definition is_rejected :: "outcome \<Rightarrow> bool" where
  "is_rejected oc = (case oc of Rejected _ \<Rightarrow> True | _ \<Rightarrow> False)"

definition input_of :: "usage_record \<Rightarrow> nat" where
  "input_of r = tb_uncached_prefill (ur_tokens r) + tb_cached_prefill (ur_tokens r)"

record session_call =
  scl_at :: string
  scl_request_id :: string
  scl_class :: "traffic_class option"
  scl_outcome :: outcome
  scl_ttft_ms :: "real option"
  scl_total_ms :: real
  scl_input_tokens :: nat
  scl_cached_tokens :: nat
  scl_output_tokens :: nat

record session_report =
  se_session_id :: string
  se_calls :: nat
  se_first_at :: string
  se_last_at :: string
  se_total_ms :: real
  se_ttft_ms :: "percentiles option"
  se_prompt_tokens :: nat
  se_cached_prompt_tokens :: nat
  se_cache_reuse :: "real option"
  se_output_tokens :: nat
  se_throttled :: nat
  se_classes :: served_counts
  se_events :: "session_call list"

definition session_call_of :: "(nat \<Rightarrow> string) \<Rightarrow> stored_record \<Rightarrow> session_call" where
  "session_call_of rfc3339 c =
     (let r = sr_record c
      in \<lparr>scl_at = rfc3339 (sr_at_ms c), scl_request_id = ur_request_id r, scl_class = ur_class r,
          scl_outcome = ur_outcome r, scl_ttft_ms = ttft_ms (ur_timings r), scl_total_ms = total_ms (ur_timings r),
          scl_input_tokens = input_of r, scl_cached_tokens = tb_cached_prefill (ur_tokens r),
          scl_output_tokens = tb_decode (ur_tokens r)\<rparr>)"

text \<open>The accumulators of the loop, folded one by one: each reads only its own record.\<close>

definition session_report_of :: "(nat \<Rightarrow> string) \<Rightarrow> string \<Rightarrow> stored_record list \<Rightarrow> session_report option" where
  "session_report_of rfc3339 session_id records =
     (let calls = filter (\<lambda>r. ur_session_id (sr_record r) = Some session_id) records;
          rs = map sr_record calls
      in if calls = [] then None
         else let prompt = sum_list (map input_of rs);
                  cached = sum_list (map (\<lambda>r. tb_cached_prefill (ur_tokens r)) rs)
              in Some \<lparr>se_session_id = session_id, se_calls = length calls,
                  se_first_at = rfc3339 (sr_at_ms (hd calls)), se_last_at = rfc3339 (sr_at_ms (last calls)),
                  se_total_ms = sum_list (map (\<lambda>r. total_ms (ur_timings r)) rs),
                  se_ttft_ms = percentiles_of (List.map_filter (\<lambda>r. ttft_ms (ur_timings r)) rs),
                  se_prompt_tokens = prompt, se_cached_prompt_tokens = cached,
                  se_cache_reuse = (if 0 < prompt then Some (real cached / real prompt) else None),
                  se_output_tokens = sum_list (map (\<lambda>r. tb_decode (ur_tokens r)) rs),
                  se_throttled = length (filter (\<lambda>r. is_rejected (ur_outcome r)) rs),
                  se_classes = foldl (\<lambda>n r. count_class (ur_class r) n) served_counts_default rs,
                  se_events = map (session_call_of rfc3339) (take MAX_CALLS calls)\<rparr>)"

section \<open>Partition points of sorted lists\<close>

lemma partition_point_split:
  assumes "sorted (map f xs)" and down: "\<And>x y. f x \<le> f y \<Longrightarrow> p y \<Longrightarrow> p x"
  shows "take (partition_point p xs) xs = filter p xs"
    and "drop (partition_point p xs) xs = filter (\<lambda>x. \<not> p x) xs"
proof -
  have stop: "\<not> p x" if "x \<in> set (dropWhile p xs)" for x
  proof -
    have ne: "dropWhile p xs \<noteq> []" using that by (auto simp del: dropWhile_eq_Nil_conv)
    have "sorted (map f (dropWhile p xs))"
      using assms(1) by (metis map_append sorted_append takeWhile_dropWhile_id)
    then have "f (hd (dropWhile p xs)) \<le> f x"
      using that ne by (cases "dropWhile p xs") auto
    then show ?thesis using hd_dropWhile[OF ne] down by blast
  qed
  have "takeWhile p xs = filter p xs" by (rule takeWhile_eq_filter) (rule stop)
  then show "take (partition_point p xs) xs = filter p xs"
    by (metis partition_point_def takeWhile_eq_take)
  have "filter (\<lambda>x. \<not> p x) xs = filter (\<lambda>x. \<not> p x) (takeWhile p xs @ dropWhile p xs)" by simp
  also have "\<dots> = filter (\<lambda>x. \<not> p x) (takeWhile p xs) @ filter (\<lambda>x. \<not> p x) (dropWhile p xs)" by (rule filter_append)
  also have "filter (\<lambda>x. \<not> p x) (takeWhile p xs) = []"
    by (auto simp: filter_empty_conv dest: set_takeWhileD)
  also have "filter (\<lambda>x. \<not> p x) (dropWhile p xs) = dropWhile p xs"
    by (rule filter_True) (use stop in blast)
  finally show "drop (partition_point p xs) xs = filter (\<lambda>x. \<not> p x) xs"
    by (simp add: partition_point_def flip: dropWhile_eq_drop)
qed

lemma partition_point_before:
  fixes xs :: "stored_record list"
  assumes "sorted (map sr_at_ms xs)"
  shows "take (partition_point (\<lambda>r. sr_at_ms r < a) xs) xs = filter (\<lambda>r. sr_at_ms r < a) xs"
    and "drop (partition_point (\<lambda>r. sr_at_ms r < a) xs) xs = filter (\<lambda>r. a \<le> sr_at_ms r) xs"
  using partition_point_split[OF assms, of "\<lambda>r. sr_at_ms r < a"] by (simp_all add: not_less)

lemma between_points:
  fixes xs :: "stored_record list"
  assumes "sorted (map sr_at_ms xs)"
  shows "drop (partition_point (\<lambda>r. sr_at_ms r < a) xs) (take (partition_point (\<lambda>r. sr_at_ms r < b) xs) xs)
       = filter (\<lambda>r. a \<le> sr_at_ms r \<and> sr_at_ms r < b) xs" (is "?l = ?r")
proof (cases "a \<le> b")
  case True
  have "drop (partition_point (\<lambda>r. sr_at_ms r < a) xs) (take (partition_point (\<lambda>r. sr_at_ms r < b) xs) xs)
      = take (partition_point (\<lambda>r. sr_at_ms r < b) xs - partition_point (\<lambda>r. sr_at_ms r < a) xs)
          (filter (\<lambda>r. a \<le> sr_at_ms r) xs)"
    by (subst drop_take) (simp only: partition_point_before(2)[OF assms])
  also have "partition_point (\<lambda>r. sr_at_ms r < b) xs - partition_point (\<lambda>r. sr_at_ms r < a) xs
      = partition_point (\<lambda>r. sr_at_ms r < b) (filter (\<lambda>r. a \<le> sr_at_ms r) xs)"
  proof -
    have len: "partition_point (\<lambda>r. sr_at_ms r < c) ys = length (filter (\<lambda>r. sr_at_ms r < c) ys)"
      if "sorted (map sr_at_ms ys)" for c and ys :: "stored_record list"
      using partition_point_before(1)[OF that, of c] unfolding partition_point_def
      by (metis takeWhile_eq_take)
    have "length (filter (\<lambda>r. sr_at_ms r < b) xs) =
        length (filter (\<lambda>r. sr_at_ms r < a) xs) + length (filter (\<lambda>r. a \<le> sr_at_ms r \<and> sr_at_ms r < b) xs)"
      using True by (induction xs) auto
    moreover have sf: "sorted (map sr_at_ms (filter (\<lambda>r. a \<le> sr_at_ms r) xs))"
      using assms by (rule sorted_filter)
    ultimately show ?thesis by (simp add: len[OF assms] len[OF sf] conj_commute)
  qed
  finally show ?thesis
    using partition_point_before(1)[OF sorted_filter[OF assms], of b "\<lambda>r. a \<le> sr_at_ms r"]
    by (simp add: conj_commute)
next
  case False
  have "length (takeWhile (\<lambda>r. sr_at_ms r < b) xs) \<le> length (takeWhile (\<lambda>r. sr_at_ms r < a) xs)"
    using False by (induction xs) auto
  then have "?l = []" by (simp add: partition_point_def)
  moreover have "?r = []" using False by (simp add: filter_empty_conv)
  ultimately show ?thesis by simp
qed

section \<open>The store keeps each request once\<close>

definition all_records :: "usage_inner \<Rightarrow> stored_record list" where
  "all_records u = concat (map snd (ui_by_reservation u))"

definition usage_abs :: "usage_inner \<Rightarrow> string \<Rightarrow> stored_record option" where
  "usage_abs u i = find (\<lambda>s. sr_id s = i) (all_records u)"

definition usage_ok :: "usage_inner \<Rightarrow> bool" where
  "usage_ok u \<longleftrightarrow>
     distinct (map fst (ui_by_reservation u)) \<and> distinct (map fst (ui_seen u)) \<and>
     (\<forall>(k, l) \<in> set (ui_by_reservation u).
        sorted (map sr_at_ms l) \<and> (\<forall>s\<in>set l. ur_reservation (sr_record s) = k)) \<and>
     distinct (map sr_id (all_records u)) \<and>
     set (ui_seen u) = (\<lambda>s. (sr_id s, sr_at_ms s)) ` set (all_records u)"

lemma usage_okD:
  assumes "usage_ok u"
  shows "distinct (map fst (ui_by_reservation u))" "distinct (map fst (ui_seen u))"
    and "(k, l) \<in> set (ui_by_reservation u) \<Longrightarrow> sorted (map sr_at_ms l)"
    and "(k, l) \<in> set (ui_by_reservation u) \<Longrightarrow> s \<in> set l \<Longrightarrow> ur_reservation (sr_record s) = k"
    and "distinct (map sr_id (all_records u))"
    and "set (ui_seen u) = (\<lambda>s. (sr_id s, sr_at_ms s)) ` set (all_records u)"
  using assms unfolding usage_ok_def by blast+

lemma usage_ok_seen:
  assumes "usage_ok u"
  shows "map_of (ui_seen u) i = None \<longleftrightarrow> i \<notin> sr_id ` set (all_records u)"
  unfolding map_of_eq_None_iff usage_okD(6)[OF assms] by force

lemma usage_abs_iff:
  assumes "distinct (map sr_id (all_records u))"
  shows "usage_abs u i = Some s \<longleftrightarrow> s \<in> set (all_records u) \<and> sr_id s = i"
proof -
  have "find (\<lambda>s. sr_id s = i) xs = Some s \<longleftrightarrow> s \<in> set xs \<and> sr_id s = i"
    if "distinct (map sr_id xs)" for xs
    using that by (induction xs) force+
  then show ?thesis unfolding usage_abs_def using assms by blast
qed

lemma usage_abs_None_iff: "usage_abs u i = None \<longleftrightarrow> i \<notin> sr_id ` set (all_records u)"
  by (auto simp: usage_abs_def find_None_iff)

lemma mset_insert_stored [simp]: "mset (insert_stored s xs) = add_mset s (mset xs)"
  by (simp add: insert_stored_def Let_def) (metis append_take_drop_id mset_append)

lemma set_insert_stored [simp]: "set (insert_stored s xs) = insert s (set xs)"
  by (metis mset_insert_stored set_mset_add_mset_insert set_mset_mset)

lemma sorted_insert_stored:
  assumes "sorted (map sr_at_ms xs)"
  shows "sorted (map sr_at_ms (insert_stored s xs))"
proof -
  let ?p = "\<lambda>r. sr_at_ms r \<le> sr_at_ms s"
  have "insert_stored s xs = filter ?p xs @ s # filter (\<lambda>r. \<not> ?p r) xs"
    using partition_point_split[OF assms, of ?p] by (simp add: insert_stored_def)
  then show ?thesis using assms by (auto simp: sorted_append sorted_filter)
qed

lemma mset_concat_update:
  assumes "distinct (map fst xs)"
  shows "mset (concat (map snd (AList.update k v xs))) + mset (case map_of xs k of None \<Rightarrow> [] | Some l \<Rightarrow> l)
       = mset (concat (map snd xs)) + mset v"
  using assms
proof (induction xs)
  case Nil
  then show ?case by simp
next
  case (Cons a xs)
  then show ?case
    by (cases a) (auto simp: map_of_eq_None_iff ac_simps split: option.splits)
qed

lemma set_update_new:
  "map_of xs k = None \<Longrightarrow> set (AList.update k v xs) = insert (k, v) (set xs)"
  by (induction xs) auto

lemma append_new:
  fixes region now r res u
  assumes "usage_ok u" and "map_of (ui_seen u) (ur_request_id r) = None"
  defines "s \<equiv> stored region now r"
    and "u' \<equiv> snd (append_one region now (res, u) r)"
  shows "mset (all_records u') = add_mset s (mset (all_records u))" "usage_ok u'"
proof -
  let ?by = "ui_by_reservation u"
  define rows where "rows = (case map_of ?by (ur_reservation r) of None \<Rightarrow> [] | Some l \<Rightarrow> l)"
  have u': "u' = u\<lparr>ui_seen := AList.update (ur_request_id r) (ingest_at r now) (ui_seen u),
      ui_by_reservation := AList.update (ur_reservation r) (insert_stored s rows) ?by\<rparr>"
    using assms(2) by (simp add: u'_def append_one_def s_def rows_def)
  note ok = usage_okD[OF assms(1)]
  have s: "sr_id s = ur_request_id r" "sr_at_ms s = ingest_at r now" "sr_record s = r"
    by (simp_all add: s_def stored_def)
  have "mset (all_records u') + mset rows = mset (all_records u) + add_mset s (mset rows)"
    using mset_concat_update[OF ok(1), of "ur_reservation r" "insert_stored s rows"]
    by (simp add: u' all_records_def rows_def)
  then show m: "mset (all_records u') = add_mset s (mset (all_records u))" by simp
  have sets: "set (all_records u') = insert s (set (all_records u))"
    by (metis m set_mset_add_mset_insert set_mset_mset)
  have new: "sr_id s \<notin> sr_id ` set (all_records u)"
    using assms(2) usage_ok_seen[OF assms(1)] s by blast
  have rows: "sorted (map sr_at_ms rows)" "\<And>x. x \<in> set rows \<Longrightarrow> ur_reservation (sr_record x) = ur_reservation r"
    using ok(3,4)[OF map_of_SomeD] by (force simp: rows_def split: option.splits)+
  have "mset (map sr_id (all_records u')) = mset (sr_id s # map sr_id (all_records u))"
    by (simp add: m)
  from mset_eq_imp_distinct_iff[OF this] new ok(5)
  have ids: "distinct (map sr_id (all_records u'))" by simp
  have keys: "distinct (map fst (ui_by_reservation u'))" "distinct (map fst (ui_seen u'))"
    using ok(1,2) by (simp_all add: u' distinct_update)
  have seen: "set (ui_seen u') = (\<lambda>s. (sr_id s, sr_at_ms s)) ` set (all_records u')"
    using set_update_new[OF assms(2)] ok(6) by (simp add: sets s) (simp add: u')
  have "sorted (map sr_at_ms l) \<and> (\<forall>x\<in>set l. ur_reservation (sr_record x) = k)"
    if "(k, l) \<in> set (ui_by_reservation u')" for k l
  proof -
    have "(k = ur_reservation r \<and> l = insert_stored s rows) \<or> (k, l) \<in> set ?by"
      using in_alist_update[OF ok(1), of k l "ur_reservation r" "insert_stored s rows"] that
      by (auto simp: u')
    then show ?thesis using rows s(3) ok(3,4) by (auto intro: sorted_insert_stored)
  qed
  then show "usage_ok u'" unfolding usage_ok_def using ids keys seen by blast
qed

text \<open>The abstract store: the first record of an id is kept.\<close>

definition ingest ::
  "string \<Rightarrow> nat \<Rightarrow> (string \<Rightarrow> stored_record option) \<Rightarrow> usage_record \<Rightarrow> string \<Rightarrow> stored_record option" where
  "ingest region now m r =
     (if m (ur_request_id r) = None then m(ur_request_id r \<mapsto> stored region now r) else m)"

lemma append_one_effect:
  fixes region now res u r
  assumes "usage_ok u"
  defines "st \<equiv> append_one region now (res, u) r"
  shows "usage_ok (snd st)"
    and "usage_abs (snd st) = ingest region now (usage_abs u) r"
    and "ir_accepted (fst st) = ir_accepted res + (if usage_abs u (ur_request_id r) = None then 1 else 0)"
    and "ir_accepted (fst st) + ir_duplicates (fst st) = ir_accepted res + ir_duplicates res + 1"
proof -
  note seen = usage_ok_seen[OF assms(1)] usage_abs_None_iff[of u]
  let ?i = "ur_request_id r"
  have "usage_ok (snd st) \<and> usage_abs (snd st) = ingest region now (usage_abs u) r"
  proof (cases "map_of (ui_seen u) ?i = None")
    case True
    note new = append_new[OF assms(1) True, of region now res, folded st_def]
    have mem: "set (all_records (snd st)) = insert (stored region now r) (set (all_records u))"
      by (metis new(1) set_mset_add_mset_insert set_mset_mset)
    have fresh: "?i \<notin> sr_id ` set (all_records u)" using True seen by blast
    have "usage_abs (snd st) i = Some x \<longleftrightarrow> ingest region now (usage_abs u) r i = Some x" for i x
      unfolding usage_abs_iff[OF usage_okD(5)[OF new(2)]] mem ingest_def
      using fresh by (auto simp: seen usage_abs_iff[OF usage_okD(5)[OF assms(1)]] stored_def intro: rev_image_eqI)
    then have "usage_abs (snd st) = ingest region now (usage_abs u) r"
      by (intro ext) (metis not_Some_eq)
    with new(2) show ?thesis by blast
  next
    case False
    then have "snd st = u" by (simp add: st_def append_one_def)
    moreover have "usage_abs u ?i \<noteq> None" using False seen by metis
    ultimately show ?thesis using assms(1) by (simp only: ingest_def if_False)
  qed
  then show "usage_ok (snd st)" "usage_abs (snd st) = ingest region now (usage_abs u) r" by blast+
  show "ir_accepted (fst st) = ir_accepted res + (if usage_abs u ?i = None then 1 else 0)"
    unfolding usage_abs_None_iff st_def append_one_def Let_def fst_conv snd_conv
    by (simp only: usage_ok_seen[OF assms(1)]) simp
  show "ir_accepted (fst st) + ir_duplicates (fst st) = ir_accepted res + ir_duplicates res + 1"
    by (simp add: st_def append_one_def Let_def)
qed

lemma append_effect:
  fixes region now res u rs
  assumes "usage_ok u"
  defines "st \<equiv> \<lambda>res. foldl (append_one region now) (res, u) rs"
  shows "usage_ok (snd (st res)) \<and> usage_abs (snd (st res)) = foldl (ingest region now) (usage_abs u) rs
       \<and> ir_accepted (fst (st res)) + ir_duplicates (fst (st res)) = ir_accepted res + ir_duplicates res + length rs
       \<and> (list_all (\<lambda>r. usage_abs u (ur_request_id r) \<noteq> None) rs \<longrightarrow> ir_accepted (fst (st res)) = ir_accepted res)"
  using assms(1) unfolding st_def
proof (induction rs arbitrary: u res)
  case Nil
  then show ?case by simp
next
  case (Cons r rs)
  obtain res' u' where st: "append_one region now (res, u) r = (res', u')" by fastforce
  note one = append_one_effect[OF Cons.prems, of region now res r, unfolded st fst_conv snd_conv]
  have keep: "usage_abs u' i \<noteq> None" if "usage_abs u i \<noteq> None" for i
    using that by (simp add: one(2) ingest_def)
  have "list_all (\<lambda>x. usage_abs u (ur_request_id x) \<noteq> None) (r # rs)
      \<Longrightarrow> list_all (\<lambda>x. usage_abs u' (ur_request_id x) \<noteq> None) rs \<and> ir_accepted res' = ir_accepted res"
    using keep one(3) by (auto simp: list_all_iff)
  then show ?case
    using Cons.IH[OF one(1), of res'] one(2,4) unfolding foldl_Cons st by auto
qed

lemma concat_snd_nonempty: "concat (map snd (filter (\<lambda>kl. snd kl \<noteq> []) xs)) = concat (map snd xs)"
  by (induction xs) auto

lemma prune_records:
  assumes "usage_ok u"
  shows "all_records (snd (usage_prune b u)) = filter (\<lambda>s. b \<le> sr_at_ms s) (all_records u)"
proof -
  let ?cut = "\<lambda>l. drop (partition_point (\<lambda>r. sr_at_ms r < b) l) l"
  have "all_records (snd (usage_prune b u)) = concat (map (\<lambda>kl. ?cut (snd kl)) (ui_by_reservation u))"
    by (simp add: all_records_def usage_prune_def Let_def concat_snd_nonempty comp_def)
  also have "\<dots> = concat (map (\<lambda>kl. filter (\<lambda>s. b \<le> sr_at_ms s) (snd kl)) (ui_by_reservation u))"
    using partition_point_before(2) usage_okD(3)[OF assms]
    by (intro arg_cong[of _ _ concat] map_cong refl) (metis prod.collapse)
  finally show ?thesis by (simp add: all_records_def filter_concat comp_def)
qed

lemma usage_prune_ok:
  assumes "usage_ok u"
  shows "usage_ok (snd (usage_prune b u))"
proof -
  let ?u = "snd (usage_prune b u)"
  let ?by = "map (\<lambda>kl. (fst kl, drop (partition_point (\<lambda>r. sr_at_ms r < b) (snd kl)) (snd kl)))
    (ui_by_reservation u)"
  note ok = usage_okD[OF assms]
  have by_u: "ui_by_reservation ?u = filter (\<lambda>kl. snd kl \<noteq> []) ?by"
    and seen_u: "ui_seen ?u = filter (\<lambda>ka. b \<le> snd ka) (ui_seen u)"
    by (simp_all add: usage_prune_def Let_def)
  have k: "distinct (map fst (ui_by_reservation ?u))"
    unfolding by_u by (rule distinct_keys_filter) (use ok(1) in \<open>simp add: comp_def\<close>)
  have k': "distinct (map fst (ui_seen ?u))"
    unfolding seen_u by (rule distinct_keys_filter[OF ok(2)])
  have "sorted (map sr_at_ms l) \<and> (\<forall>s\<in>set l. ur_reservation (sr_record s) = key)"
    if "(key, l) \<in> set (ui_by_reservation ?u)" for key l
  proof -
    from that obtain l' where l': "(key, l') \<in> set (ui_by_reservation u)"
      "l = drop (partition_point (\<lambda>r. sr_at_ms r < b) l') l'"
      unfolding by_u by auto
    then have "l = filter (\<lambda>s. b \<le> sr_at_ms s) l'" using partition_point_before(2) ok(3) by blast
    then show ?thesis using ok(3,4)[OF l'(1)] by (simp add: sorted_filter)
  qed
  moreover have "distinct (map sr_id (all_records ?u))"
    using ok(5) by (simp add: prune_records[OF assms] distinct_map_filter)
  moreover have "set (ui_seen ?u) = (\<lambda>s. (sr_id s, sr_at_ms s)) ` set (all_records ?u)"
    unfolding seen_u prune_records[OF assms] using ok(6) by auto
  ultimately show ?thesis unfolding usage_ok_def using k k' by blast
qed

lemma option_restrict_eq:
  assumes "\<And>x. a = Some x \<longleftrightarrow> b = Some x \<and> P x"
  shows "a = (case b of None \<Rightarrow> None | Some s \<Rightarrow> if P s then Some s else None)"
proof (cases a)
  case None
  then show ?thesis using assms[of "the b"] by (auto split: option.split)
next
  case (Some x)
  then show ?thesis using assms[of x] by simp
qed

lemma prune_abs:
  assumes "usage_ok u"
  shows "usage_abs (snd (usage_prune b u)) =
    (\<lambda>i. case usage_abs u i of None \<Rightarrow> None | Some s \<Rightarrow> if b \<le> sr_at_ms s then Some s else None)"
proof (rule ext)
  fix i
  let ?u = "snd (usage_prune b u)"
  have "usage_abs ?u i = Some x \<longleftrightarrow> usage_abs u i = Some x \<and> b \<le> sr_at_ms x" for x
    unfolding usage_abs_iff[OF usage_okD(5)[OF assms]] usage_abs_iff[OF usage_okD(5)[OF usage_prune_ok[OF assms]]]
      prune_records[OF assms] by auto
  then show "usage_abs ?u i = (case usage_abs u i of None \<Rightarrow> None | Some s \<Rightarrow> if b \<le> sr_at_ms s then Some s else None)"
    by (rule option_restrict_eq)
qed

lemma range_records:
  fixes u tenant reservation a b
  assumes "usage_ok u"
  defines "got \<equiv> usage_range tenant reservation a b u"
  shows "sorted (map sr_at_ms got)" "distinct (map sr_id got)"
    and "set got = {s. usage_abs u (sr_id s) = Some s \<and> ur_tenant (sr_record s) = tenant \<and>
           ur_reservation (sr_record s) = reservation \<and> a \<le> sr_at_ms s \<and> sr_at_ms s < b}"
proof -
  note ok = usage_okD[OF assms(1)]
  let ?in = "\<lambda>s. a \<le> sr_at_ms s \<and> sr_at_ms s < b"
  define l where "l = (case map_of (ui_by_reservation u) reservation of None \<Rightarrow> [] | Some l \<Rightarrow> l)"
  have sl: "sorted (map sr_at_ms l)"
    using ok(3)[OF map_of_SomeD] by (force simp: l_def split: option.splits)
  have got: "got = filter (\<lambda>s. ur_tenant (sr_record s) = tenant) (filter ?in l)"
    using between_points[OF sl, of a b]
    by (simp add: got_def usage_range_def l_def Let_def split: option.splits)
  show "sorted (map sr_at_ms got)" unfolding got by (intro sorted_filter sl)
  have mem: "set l = {s \<in> set (all_records u). ur_reservation (sr_record s) = reservation}"
  proof (cases "map_of (ui_by_reservation u) reservation")
    case None
    then have "reservation \<notin> fst ` set (ui_by_reservation u)" by (simp add: map_of_eq_None_iff)
    then show ?thesis using None ok(4) by (force simp: l_def all_records_def)
  next
    case (Some l')
    have "s \<in> set l' \<longleftrightarrow> s \<in> set (all_records u) \<and> ur_reservation (sr_record s) = reservation" for s
    proof
      assume "s \<in> set l'"
      then show "s \<in> set (all_records u) \<and> ur_reservation (sr_record s) = reservation"
        using ok(4)[OF map_of_SomeD[OF Some]] map_of_SomeD[OF Some] by (force simp: all_records_def)
    next
      assume s: "s \<in> set (all_records u) \<and> ur_reservation (sr_record s) = reservation"
      then obtain k l'' where kl: "(k, l'') \<in> set (ui_by_reservation u)" "s \<in> set l''"
        by (auto simp: all_records_def)
      then have "k = reservation" using ok(4) s by blast
      then show "s \<in> set l'" using Some kl map_of_is_SomeI[OF ok(1) kl(1)] by simp
    qed
    then show ?thesis using Some by (auto simp: l_def)
  qed
  show "set got = {s. usage_abs u (sr_id s) = Some s \<and> ur_tenant (sr_record s) = tenant \<and>
           ur_reservation (sr_record s) = reservation \<and> a \<le> sr_at_ms s \<and> sr_at_ms s < b}"
    unfolding got usage_abs_iff[OF ok(5)] by (auto simp: mem)
  have "distinct (map sr_id l)"
    using ok(5) map_of_SomeD[of "ui_by_reservation u" reservation]
    by (auto simp: l_def all_records_def split: option.splits dest!: split_list)
  then show "distinct (map sr_id got)" unfolding got by (simp add: distinct_map_filter)
qed

section \<open>Interface: the trait UsageStore\<close>

text \<open>
  What billing and the SLA evaluation rely on: ingestion keeps the first record of every
  request id, a range returns exactly the records of a reservation in a half-open period,
  oldest first and each id once, and pruning drops exactly the old records.
\<close>

locale usage_store =
  fixes put :: "string \<Rightarrow> usage_record list \<Rightarrow> nat \<Rightarrow> 's \<Rightarrow> ingest_result \<times> 's"
    and get :: "string \<Rightarrow> string \<Rightarrow> nat \<Rightarrow> nat \<Rightarrow> 's \<Rightarrow> stored_record list"
    and drop_old :: "nat \<Rightarrow> 's \<Rightarrow> nat \<times> 's"
    and ok :: "'s \<Rightarrow> bool"
    and records :: "'s \<Rightarrow> string \<Rightarrow> stored_record option"
  assumes put_ok: "ok s \<Longrightarrow> ok (snd (put region rs now s))"
    and put_records: "ok s \<Longrightarrow> records (snd (put region rs now s)) = foldl (ingest region now) (records s) rs"
    and put_total: "ok s \<Longrightarrow> ir_accepted (fst (put region rs now s)) + ir_duplicates (fst (put region rs now s)) = length rs"
    and put_known: "ok s \<Longrightarrow> list_all (\<lambda>r. records s (ur_request_id r) \<noteq> None) rs
                     \<Longrightarrow> ir_accepted (fst (put region rs now s)) = 0"
    and drop_ok: "ok s \<Longrightarrow> ok (snd (drop_old b s))"
    and drop_records: "ok s \<Longrightarrow> records (snd (drop_old b s)) =
                     (\<lambda>i. case records s i of None \<Rightarrow> None | Some x \<Rightarrow> if b \<le> sr_at_ms x then Some x else None)"
    and get_sorted: "ok s \<Longrightarrow> sorted (map sr_at_ms (get tenant res a b s))"
    and get_once: "ok s \<Longrightarrow> distinct (map sr_id (get tenant res a b s))"
    and get_set: "ok s \<Longrightarrow> set (get tenant res a b s) =
                     {x. records s (sr_id x) = Some x \<and> ur_tenant (sr_record x) = tenant \<and>
                         ur_reservation (sr_record x) = res \<and> a \<le> sr_at_ms x \<and> sr_at_ms x < b}"
begin

lemma ingest_all_known: "foldl (ingest region now) m rs (ur_request_id r) \<noteq> None" if "r \<in> set rs"
  using that
proof (induction rs arbitrary: m)
  case (Cons x rs)
  have keep: "foldl (ingest region now) m' rs i \<noteq> None" if "m' i \<noteq> None" for m' i
    using that by (induction rs arbitrary: m') (auto simp: ingest_def)
  show ?case
  proof (cases "r \<in> set rs")
    case False
    then have "r = x" using Cons.prems by simp
    then show ?thesis unfolding foldl_Cons by (intro keep) (simp add: ingest_def)
  qed (use Cons.IH in simp)
qed simp

lemma ingest_all_again:
  "list_all (\<lambda>r. m (ur_request_id r) \<noteq> None) rs \<Longrightarrow> foldl (ingest region now) m rs = m"
  by (induction rs) (auto simp: ingest_def)

text \<open>A batch sent again, later or from another region, changes nothing and is reported as
  duplicates.\<close>

lemma retry_harmless:
  fixes s region rs now
  assumes "ok s"
  defines "s' \<equiv> snd (put region rs now s)"
  shows "records (snd (put region' rs now' s')) = records s'"
    and "ir_accepted (fst (put region' rs now' s')) = 0"
    and "ir_duplicates (fst (put region' rs now' s')) = length rs"
proof -
  have s': "ok s'" unfolding s'_def by (rule put_ok[OF assms(1)])
  have known: "list_all (\<lambda>r. records s' (ur_request_id r) \<noteq> None) rs"
    unfolding s'_def put_records[OF assms(1)] list_all_iff using ingest_all_known by blast
  show "records (snd (put region' rs now' s')) = records s'"
    unfolding put_records[OF s'] by (rule ingest_all_again[OF known])
  show a: "ir_accepted (fst (put region' rs now' s')) = 0" by (rule put_known[OF s' known])
  show "ir_duplicates (fst (put region' rs now' s')) = length rs"
    using put_total[OF s', of region' rs now'] a by simp
qed

text \<open>Adjacent periods share no record and lose none.\<close>

lemma periods_split:
  assumes "ok s" "a \<le> b" "b \<le> c"
  shows "mset (get tenant res a c s) = mset (get tenant res a b s) + mset (get tenant res b c s)"
proof -
  have d: "distinct (get tenant res x y s)" for x y
    using get_once[OF assms(1)] by (simp add: distinct_map)
  have m: "mset (get tenant res x y s) = mset_set (set (get tenant res x y s))" for x y
    using d by (rule mset_set_set[symmetric])
  have un: "set (get tenant res a c s) = set (get tenant res a b s) \<union> set (get tenant res b c s)"
    unfolding get_set[OF assms(1)] using assms(2,3) by auto
  have "set (get tenant res a b s) \<inter> set (get tenant res b c s) = {}"
    unfolding get_set[OF assms(1)] by auto
  then show ?thesis unfolding m un by (intro mset_set_Union) auto
qed

end

interpretation mus: usage_store usage_append usage_range usage_prune usage_ok usage_abs
proof
  fix s region rs now b tenant res a
  assume ok: "usage_ok s"
  note app = append_effect[OF ok, of region now "\<lparr>ir_accepted = 0, ir_duplicates = 0\<rparr>" rs,
      folded usage_append_def]
  show "usage_ok (snd (usage_append region rs now s))"
    "usage_abs (snd (usage_append region rs now s)) = foldl (ingest region now) (usage_abs s) rs"
    "ir_accepted (fst (usage_append region rs now s)) + ir_duplicates (fst (usage_append region rs now s)) = length rs"
    using app by simp_all
  show "list_all (\<lambda>r. usage_abs s (ur_request_id r) \<noteq> None) rs
      \<Longrightarrow> ir_accepted (fst (usage_append region rs now s)) = 0"
    using app by simp
  show "usage_ok (snd (usage_prune b s))" by (rule usage_prune_ok[OF ok])
  show "usage_abs (snd (usage_prune b s)) =
      (\<lambda>i. case usage_abs s i of None \<Rightarrow> None | Some x \<Rightarrow> if b \<le> sr_at_ms x then Some x else None)"
    by (rule prune_abs[OF ok])
  show "sorted (map sr_at_ms (usage_range tenant res a b s))"
    "distinct (map sr_id (usage_range tenant res a b s))"
    "set (usage_range tenant res a b s) =
      {x. usage_abs s (sr_id x) = Some x \<and> ur_tenant (sr_record x) = tenant \<and>
          ur_reservation (sr_record x) = res \<and> a \<le> sr_at_ms x \<and> sr_at_ms x < b}"
    by (rule range_records[OF ok])+
qed

text \<open>The states of the store: any sequence of ingestions and prunings from the empty store.\<close>

datatype usage_op = UsageAppend string "usage_record list" nat | UsagePrune nat

fun usage_step :: "usage_inner \<Rightarrow> usage_op \<Rightarrow> usage_inner" where
  "usage_step u (UsageAppend region rs now) = snd (usage_append region rs now u)"
| "usage_step u (UsagePrune b) = snd (usage_prune b u)"

lemma usage_reachable_ok: "usage_ok (foldl usage_step usage_empty ops)"
proof (rule foldl_invariant)
  show "usage_ok usage_empty" by (simp add: usage_ok_def usage_empty_def all_records_def)
  show "usage_ok u \<Longrightarrow> usage_ok (usage_step u op)" for u op
    by (cases op) (simp_all add: mus.put_ok mus.drop_ok)
qed

text \<open>What a history should leave: the first record of each request id, until it is pruned.\<close>

fun usage_spec :: "(string \<Rightarrow> stored_record option) \<Rightarrow> usage_op \<Rightarrow> string \<Rightarrow> stored_record option" where
  "usage_spec m (UsageAppend region rs now) = foldl (ingest region now) m rs"
| "usage_spec m (UsagePrune b) = (\<lambda>i. case m i of None \<Rightarrow> None | Some x \<Rightarrow> if b \<le> sr_at_ms x then Some x else None)"

lemma usage_refines: "usage_abs (foldl usage_step usage_empty ops) = foldl usage_spec (\<lambda>_. None) ops"
proof -
  have step: "usage_abs (usage_step u op) = usage_spec (usage_abs u) op" if "usage_ok u" for u op
    using that by (cases op) (simp_all add: mus.put_records mus.drop_records)
  have ok: "usage_ok u \<Longrightarrow> usage_ok (usage_step u op)" for u op
    by (cases op) (simp_all add: mus.put_ok mus.drop_ok)
  have "usage_ok u \<Longrightarrow> usage_abs (foldl usage_step u ops) = foldl usage_spec (usage_abs u) ops" for u
    by (induction ops arbitrary: u) (simp_all add: step ok)
  moreover have "usage_abs usage_empty = (\<lambda>_. None)" by (intro ext) (simp add: usage_abs_def usage_empty_def all_records_def)
  ultimately show ?thesis using usage_reachable_ok[of "[]"] by simp
qed

text \<open>
  C27. Usage is counted exactly once. In every state the store reaches by any sequence of
  batches and prunings: what is stored is the first record received under each request id,
  unless it was pruned; the records read for a tenant, a reservation and a period are exactly the
  stored ones of that tenant, reservation and period, oldest first and each request id once;
  reading two adjacent periods gives the records of the joint period, none lost and none twice; and
  a batch that is sent again, later or through another region, leaves what is stored as it is and is
  reported as duplicates only.
\<close>

theorem usage_counted_once:
  fixes ops :: "usage_op list"
  defines "u \<equiv> foldl usage_step usage_empty ops"
  assumes "a \<le> b" "b \<le> c"
  shows "set (usage_range tenant res a c u)
           = {x. foldl usage_spec (\<lambda>_. None) ops (sr_id x) = Some x \<and> ur_tenant (sr_record x) = tenant
                 \<and> ur_reservation (sr_record x) = res \<and> a \<le> sr_at_ms x \<and> sr_at_ms x < c}
       \<and> sorted (map sr_at_ms (usage_range tenant res a c u))
       \<and> distinct (map sr_id (usage_range tenant res a c u))
       \<and> mset (usage_range tenant res a c u)
           = mset (usage_range tenant res a b u) + mset (usage_range tenant res b c u)
       \<and> (let u' = snd (usage_append region rs now u); again = usage_append region' rs now' u'
          in usage_abs (snd again) = usage_abs u' \<and> ir_accepted (fst again) = 0
             \<and> ir_duplicates (fst again) = length rs)"
proof -
  have ok: "usage_ok u" unfolding u_def by (rule usage_reachable_ok)
  have "usage_abs u = foldl usage_spec (\<lambda>_. None) ops" unfolding u_def by (rule usage_refines)
  then show ?thesis
    using mus.get_set[OF ok, of tenant res a c] mus.get_sorted[OF ok] mus.get_once[OF ok] mus.periods_split[OF ok assms(2,3)]
      mus.retry_harmless[OF ok] by (simp add: Let_def)
qed

definition demo_usage :: "string \<Rightarrow> nat \<Rightarrow> usage_record" where
  "demo_usage i t =
     \<lparr>ur_request_id = i, ur_received_at_ms = t, ur_tenant = ''acme'', ur_reservation = ''pt-1'',
      ur_deployment = ''d'', ur_class = Some Provisioned, ur_session_id = Some ''s'',
      ur_tokens = \<lparr>tb_uncached_prefill = 10, tb_cached_prefill = 5, tb_decode = 7\<rparr>,
      ur_kv_token_seconds = 0, ur_wu_estimated = 1, ur_wu_actual = 1,
      ur_timings = \<lparr>queue_ms = 0, ttft_ms = Some 100, total_ms = 500, tpot_ms = Some 10\<rparr>,
      ur_in_shape = True, ur_outcome = Ok, ur_profile = ''p''\<rparr>"

theorem usage_counted_once_witness:
  "mset (usage_range ''acme'' ''pt-1'' 0 9 (foldl usage_step usage_empty
       [UsageAppend ''eu'' [demo_usage ''b'' 7, demo_usage ''a'' 3] 9]))
     = mset (usage_range ''acme'' ''pt-1'' 0 5 (foldl usage_step usage_empty
         [UsageAppend ''eu'' [demo_usage ''b'' 7, demo_usage ''a'' 3] 9]))
     + mset (usage_range ''acme'' ''pt-1'' 5 9 (foldl usage_step usage_empty
         [UsageAppend ''eu'' [demo_usage ''b'' 7, demo_usage ''a'' 3] 9]))
   \<and> map sr_id (usage_range ''acme'' ''pt-1'' 0 9 (foldl usage_step usage_empty
       [UsageAppend ''eu'' [demo_usage ''b'' 7, demo_usage ''a'' 3] 9])) = [''a'', ''b'']"
  using usage_counted_once[of 0 5 9 "''acme''" "''pt-1''" "[UsageAppend ''eu'' [demo_usage ''b'' 7, demo_usage ''a'' 3] 9]"]
  by (simp add: usage_append_def append_one_def demo_usage_def ingest_at_def stored_def usage_empty_def
      usage_range_def insert_stored_def partition_point_def)

end
