(* ===== verification/Incidents.thy ===== *)
theory Incidents
  imports Deployments Telemetry
begin

text \<open>
  Regions, incidents and entitlement snapshots of the service (\<open>service.rs\<close>, \<open>failover.rs\<close>) and
  the snapshot types of \<open>pt-entitlement\<close>: sales holds, declaring and resolving incidents, the
  automatic failover check, DNS steering, the snapshot of a region, and the rebalancing pass
  over the usage store. Random identifiers and the rendering of a timestamp are parameters.
  A write takes a fault, as in \<open>Service\<close>; reads of the in-memory store cannot fail.
\<close>

section \<open>Entitlement snapshots (pt-entitlement)\<close>

record region_failover =
  rf_region :: string
  rf_incident :: string
  rf_started_at_ms :: nat
  rf_ended_at_ms :: "nat option"
  rf_return_ramp_ms :: nat

definition activation :: "region_failover \<Rightarrow> nat \<Rightarrow> real" where
  "activation f now_ms =
     (if now_ms < rf_started_at_ms f then 0
      else case rf_ended_at_ms f of
             None \<Rightarrow> 1
           | Some e \<Rightarrow> if now_ms \<le> e then 1
                       else if rf_return_ramp_ms f = 0 then 0
                       else max (1 - real (now_ms - e) / real (rf_return_ramp_ms f)) 0)"

record failover_share =
  fs_from_region :: string
  fs_cus :: nat

definition failover_cus :: "failover_share list \<Rightarrow> region_failover list \<Rightarrow> nat \<Rightarrow> real" where
  "failover_cus shares failovers now_ms =
     sum_list (map (\<lambda>s. real (fs_cus s) *
       foldl max 0 (map (\<lambda>f. activation f now_ms) (filter (\<lambda>f. rf_region f = fs_from_region s) failovers))) shares)"

record reservation_entitlement =
  re_id :: string
  re_tenant :: string
  re_model :: string
  re_cus :: nat
  re_tier :: tier
  re_profile :: string
  re_shape :: shape
  re_failover :: "failover_share list"

record previous_key =
  pk_api_key_sha256 :: string
  pk_expires_at_ms :: nat

record deployment_entitlement =
  de_id :: string
  de_reservation :: string
  de_api_key_sha256 :: string
  de_previous_keys :: "previous_key list"
  de_max_share :: "real option"
  de_boundary_policy :: boundary_policy

record snapshot =
  sn_region :: string
  sn_version :: nat
  sn_generated_at :: string
  sn_reservations :: "reservation_entitlement list"
  sn_deployments :: "deployment_entitlement list"
  sn_failovers :: "region_failover list"

definition effective_cus :: "snapshot \<Rightarrow> reservation_entitlement \<Rightarrow> nat \<Rightarrow> real" where
  "effective_cus sn r now_ms = real (re_cus r) + failover_cus (re_failover r) (sn_failovers sn) now_ms"

section \<open>Sales holds\<close>

definition hold_sales ::
  "service_ctx \<Rightarrow> service \<Rightarrow> timestamp \<Rightarrow> string \<Rightarrow> string \<Rightarrow> string \<Rightarrow> string \<Rightarrow> int \<Rightarrow> store_error option
   \<Rightarrow> (service_error + sales_hold) \<times> service" where
  "hold_sales ctx sv now region model source reason ttl fault =
     (if capacity_for (sc_plan (cx_config ctx)) region model = None then (Inl (Validation ''model''), sv)
      else if source = [] \<or> 128 < length source then (Inl (Validation ''source''), sv)
      else if ttl \<le> 0 \<or> 3600 * 1000000000 < ttl then (Inl (Validation ''ttl_seconds''), sv)
      else
        let hold = \<lparr>sh_region = region, sh_model = model, sh_source = source, sh_reason = take 256 reason,
                    sh_expires_at = now + ttl\<rparr>
        in (case fault of
              Some e \<Rightarrow> (Inl (from_store_error e), sv)
            | None \<Rightarrow> (Inr hold, sv\<lparr>sv_store := put_hold (sv_store sv) hold\<rparr>)))"

definition release_sales_hold :: "service \<Rightarrow> string \<Rightarrow> string \<Rightarrow> string \<Rightarrow> bool \<times> service" where
  "release_sales_hold sv region model source =
     (let (removed, st) = delete_hold (sv_store sv) region model source in (removed, sv\<lparr>sv_store := st\<rparr>))"

definition sales_holds :: "service \<Rightarrow> timestamp \<Rightarrow> sales_hold list" where
  "sales_holds sv now = holds (sv_store sv) now"

section \<open>Incidents\<close>

record declare_incident =
  di_region :: string
  di_started_at :: "timestamp option"
  di_description :: string

definition svc_incidents :: "service \<Rightarrow> region_incident list" where
  "svc_incidents sv = ms_incidents (sv_store sv)"

definition open_incident ::
  "service \<Rightarrow> timestamp \<Rightarrow> string \<Rightarrow> string \<Rightarrow> timestamp \<Rightarrow> string \<Rightarrow> incident_source \<Rightarrow> store_error option
   \<Rightarrow> (service_error + region_incident) \<times> service" where
  "open_incident sv now uid region started_at description source fault =
     (if list_ex (\<lambda>i. ri_region i = region \<and> ri_ended_at i = None) (svc_incidents sv)
      then (Inl (Conflict ''incident_open''), sv)
      else
        let incident = \<lparr>ri_id = ''inc-'' @ take 12 uid, ri_region = region, ri_started_at = started_at,
                        ri_ended_at = None, ri_description = description, ri_declared_at = now, ri_source = source\<rparr>
        in (case (case fault of Some e \<Rightarrow> Inl e | None \<Rightarrow> insert_incident (sv_store sv) incident) of
              Inl e \<Rightarrow> (Inl (case e of AlreadyExists _ \<Rightarrow> Conflict ''incident_open'' | _ \<Rightarrow> from_store_error e), sv)
            | Inr st \<Rightarrow> (Inr incident, svc_bump now (sv\<lparr>sv_store := st\<rparr>))))"

definition svc_declare_incident ::
  "service_ctx \<Rightarrow> service \<Rightarrow> timestamp \<Rightarrow> string \<Rightarrow> declare_incident \<Rightarrow> store_error option
   \<Rightarrow> (service_error + region_incident) \<times> service" where
  "svc_declare_incident ctx sv now uid req fault =
     (if \<not> list_ex (\<lambda>r. rc_name r = di_region req) (sc_regions (cx_config ctx))
      then (Inl (Validation ''region''), sv)
      else
        let description = trim (di_description req)
        in if description = [] \<or> 500 < length description then (Inl (Validation ''description''), sv)
           else
             let started_at = (case di_started_at req of None \<Rightarrow> now | Some t \<Rightarrow> t)
             in if now + from_mins 1 < started_at \<or> started_at < now - 24 * 3600 * 1000000000
                then (Inl (Validation ''started_at''), sv)
                else open_incident sv now uid (di_region req) started_at description Operator fault)"

definition resolve_incident ::
  "service \<Rightarrow> timestamp \<Rightarrow> string \<Rightarrow> timestamp option \<Rightarrow> store_error option
   \<Rightarrow> (service_error + region_incident) \<times> service" where
  "resolve_incident sv now iid req_ended_at fault =
     (case find (\<lambda>i. ri_id i = iid) (svc_incidents sv) of
        None \<Rightarrow> (Inl NotFound, sv)
      | Some incident \<Rightarrow>
          if ri_ended_at incident \<noteq> None then (Inl (Conflict ''already_resolved''), sv)
          else
            let ended_at = (case req_ended_at of None \<Rightarrow> now | Some t \<Rightarrow> t)
            in if ended_at < ri_started_at incident \<or> now + from_mins 1 < ended_at
               then (Inl (Validation ''ended_at''), sv)
               else
                 let incident = incident\<lparr>ri_ended_at := Some ended_at\<rparr>
                 in (case (case fault of Some e \<Rightarrow> Inl e | None \<Rightarrow> update_incident (sv_store sv) incident) of
                       Inl e \<Rightarrow> (Inl (from_store_error e), sv)
                     | Inr st \<Rightarrow> (Inr incident, svc_bump now (sv\<lparr>sv_store := st\<rparr>))))"

section \<open>Heartbeats and automatic failover\<close>

definition return_ramp :: "service_ctx \<Rightarrow> int" where
  "return_ramp ctx = from_mins (fc_return_ramp_minutes (sc_failover (cx_config ctx)))"

definition heartbeat_timeout :: "service_ctx \<Rightarrow> int" where
  "heartbeat_timeout ctx = int (fc_heartbeat_timeout_seconds (sc_failover (cx_config ctx))) * 1000000000"

definition svc_heartbeat :: "service_ctx \<Rightarrow> service \<Rightarrow> timestamp \<Rightarrow> string \<Rightarrow> heartbeat \<Rightarrow> service" where
  "svc_heartbeat ctx sv now region hb =
     sv\<lparr>sv_store := record_heartbeat (sv_store sv) region hb now (heartbeat_timeout ctx)\<rparr>"

definition region_statuses :: "service_ctx \<Rightarrow> service \<Rightarrow> timestamp \<Rightarrow> region_status list" where
  "region_statuses ctx sv now =
     map (\<lambda>r. region_status_of (rc_name r) (gateway_heartbeats (sv_store sv)) now (heartbeat_timeout ctx))
       (sc_regions (cx_config ctx))"

record failover_report =
  fr_declared :: "(string \<times> string) list"
  fr_resolved :: "(string \<times> string) list"

definition flowing :: "int \<Rightarrow> timestamp \<Rightarrow> region_status list \<Rightarrow> string \<Rightarrow> bool" where
  "flowing timeout now statuses except =
     list_ex (\<lambda>o'. st_region o' \<noteq> except \<and>
       (case st_serving_since o' of None \<Rightarrow> False | Some t \<Rightarrow> timeout \<le> now - t)) statuses"

text \<open>One turn of the loop: the incidents and statuses are those read before it.\<close>

definition failover_turn ::
  "service_ctx \<Rightarrow> timestamp \<Rightarrow> (string \<Rightarrow> string) \<Rightarrow> (string \<Rightarrow> store_error option) \<Rightarrow> (string \<Rightarrow> string)
   \<Rightarrow> region_status list \<Rightarrow> region_incident list \<Rightarrow> failover_report \<times> service \<Rightarrow> region_status
   \<Rightarrow> failover_report \<times> service" where
  "failover_turn ctx now uid fault describe statuses incidents st s =
     (case st of (rep, sv) \<Rightarrow>
       let opened = find (\<lambda>i. ri_region i = st_region s \<and> ri_ended_at i = None) incidents;
           recovery = int (fc_recovery_seconds (sc_failover (cx_config ctx))) * 1000000000
       in case (st_health s, opened) of
            (Down, None) \<Rightarrow>
              if flowing (heartbeat_timeout ctx) now statuses (st_region s)
              then let started_at = max (case st_last_serving_at s of None \<Rightarrow> now | Some t \<Rightarrow> t)
                                        (now - 24 * 3600 * 1000000000)
                   in (case open_incident sv now (uid (st_region s)) (st_region s) started_at
                              (describe (st_region s)) Automatic (fault (st_region s)) of
                         (Inr i, sv) \<Rightarrow> (rep\<lparr>fr_declared := fr_declared rep @ [(ri_id i, ri_region i)]\<rparr>, sv)
                       | (Inl _, sv) \<Rightarrow> (rep, sv))
              else (rep, sv)
          | (Serving, Some i) \<Rightarrow>
              if ri_source i = Automatic \<and>
                 (case st_serving_since s of None \<Rightarrow> False | Some t \<Rightarrow> recovery \<le> now - t)
              then (case resolve_incident sv now (ri_id i) (Some now) (fault (st_region s)) of
                      (Inr i, sv) \<Rightarrow> (rep\<lparr>fr_resolved := fr_resolved rep @ [(ri_id i, ri_region i)]\<rparr>, sv)
                    | (Inl _, sv) \<Rightarrow> (rep, sv))
              else (rep, sv)
          | _ \<Rightarrow> (rep, sv))"

definition run_failover ::
  "service_ctx \<Rightarrow> service \<Rightarrow> timestamp \<Rightarrow> (string \<Rightarrow> string) \<Rightarrow> (string \<Rightarrow> store_error option) \<Rightarrow> (string \<Rightarrow> string)
   \<Rightarrow> failover_report \<times> service" where
  "run_failover ctx sv now uid fault describe =
     (let empty_rep = \<lparr>fr_declared = [], fr_resolved = []\<rparr>
      in if \<not> fc_auto_declare (sc_failover (cx_config ctx)) then (empty_rep, sv)
         else let statuses = region_statuses ctx sv now
              in foldl (failover_turn ctx now uid fault describe statuses (svc_incidents sv)) (empty_rep, sv) statuses)"

section \<open>Steering\<close>

record region_steering =
  rst_status :: region_status
  rst_incident :: "string option"
  rst_weight :: real

record reservation_steering =
  rvs_id :: string
  rvs_sku :: sku
  rvs_targets :: "target list"

record steering =
  stg_generated_at :: timestamp
  stg_regions :: "region_steering list"
  stg_reservations :: "reservation_steering list"

definition serving_live :: "service \<Rightarrow> provisioned_throughput list" where
  "serving_live sv =
     sort_key pt_id (filter (\<lambda>pt. pt_state pt = Active \<or> pt_state pt = PendingCancellation) (list_live (sv_store sv)))"

text \<open>The weights are collected in a hash map: the last entry of a name wins.\<close>

definition svc_steering :: "service_ctx \<Rightarrow> service \<Rightarrow> timestamp \<Rightarrow> steering" where
  "svc_steering ctx sv now =
     (let incidents = svc_incidents sv;
          weights = foldl (\<lambda>w r. w(rc_name r \<mapsto> region_weight (rc_name r) incidents now (return_ramp ctx)))
            Map.empty (sc_regions (cx_config ctx));
          weight_of = (\<lambda>r. case weights r of None \<Rightarrow> 1 | Some w \<Rightarrow> fst w)
      in \<lparr>stg_generated_at = now,
          stg_regions = map (\<lambda>status.
              let (weight, incident) = (case weights (st_region status) of None \<Rightarrow> (1, None) | Some w \<Rightarrow> w)
              in \<lparr>rst_status = status, rst_incident = incident, rst_weight = f64_round (weight * 10000) / 10000\<rparr>)
            (region_statuses ctx sv now),
          stg_reservations = map (\<lambda>pt. \<lparr>rvs_id = pt_id pt, rvs_sku = pt_sku pt,
              rvs_targets = reservation_targets (sc_regions (cx_config ctx)) (sc_endpoint_template (cx_config ctx)) pt weight_of\<rparr>)
            (serving_live sv)\<rparr>)"

section \<open>Snapshots\<close>

definition failover_shares :: "service_ctx \<Rightarrow> provisioned_throughput \<Rightarrow> string \<Rightarrow> failover_share list" where
  "failover_shares ctx pt region =
     (if pt_sku pt \<noteq> MultiRegion then []
      else List.map_filter (\<lambda>(from, _).
             map_option (\<lambda>r. \<lparr>fs_from_region = from, fs_cus = rs_cus r\<rparr>)
               (find (\<lambda>r. rs_region r = from) (pt_effective pt)))
             (filter (\<lambda>(_, to). to = region) (failover_targets (sc_regions (cx_config ctx)) (pt_effective pt))))"

definition failover_in_force :: "int \<Rightarrow> timestamp \<Rightarrow> region_incident \<Rightarrow> bool" where
  "failover_in_force ramp now i = (case ri_ended_at i of None \<Rightarrow> True | Some e \<Rightarrow> now < e + ramp)"

definition svc_failovers :: "service_ctx \<Rightarrow> service \<Rightarrow> timestamp \<Rightarrow> region_failover list" where
  "svc_failovers ctx sv now =
     (let ramp = return_ramp ctx
      in sort_key rf_incident (map (\<lambda>i. \<lparr>rf_region = ri_region i, rf_incident = ri_id i,
             rf_started_at_ms = ms_of (ri_started_at i), rf_ended_at_ms = map_option ms_of (ri_ended_at i),
             rf_return_ramp_ms = ms_of ramp\<rparr>)
           (filter (failover_in_force ramp now) (svc_incidents sv))))"

definition deployment_entitlements ::
  "timestamp \<Rightarrow> provisioned_throughput \<Rightarrow> deployment_entitlement list" where
  "deployment_entitlements now pt =
     List.map_filter (\<lambda>d. map_option (\<lambda>current.
         \<lparr>de_id = dp_id d, de_reservation = pt_id pt, de_api_key_sha256 = ak_sha256 current,
          de_previous_keys = List.map_filter (\<lambda>k.
              case ak_expires_at k of
                None \<Rightarrow> None
              | Some e \<Rightarrow> if now < e then Some \<lparr>pk_api_key_sha256 = ak_sha256 k, pk_expires_at_ms = ms_of e\<rparr> else None)
            (dp_api_keys d),
          de_max_share = dp_max_share d, de_boundary_policy = pt_boundary_policy pt\<rparr>) (current_key d))
       (pt_deployments pt)"

definition reservation_entry ::
  "service_ctx \<Rightarrow> string \<Rightarrow> provisioned_throughput \<Rightarrow> reservation_entitlement option" where
  "reservation_entry ctx region pt =
     (case find (\<lambda>r. rs_region r = region) (pt_effective pt) of
        None \<Rightarrow> None
      | Some share \<Rightarrow>
          (case Option.bind (pool_of ctx pt region) (config_pool (sc_plan (cx_config ctx)) region) of
             None \<Rightarrow> None
           | Some capacity \<Rightarrow>
               Some \<lparr>re_id = pt_id pt, re_tenant = pt_tenant pt, re_model = pt_model pt, re_cus = rs_cus share,
                     re_tier = pt_tier pt, re_profile = cc_profile capacity, re_shape = pt_shape pt,
                     re_failover = failover_shares ctx pt region\<rparr>))"

definition svc_snapshot ::
  "service_ctx \<Rightarrow> (timestamp \<Rightarrow> string) \<Rightarrow> service \<Rightarrow> timestamp \<Rightarrow> string \<Rightarrow> snapshot option \<times> service" where
  "svc_snapshot ctx ts_string sv now region =
     (if \<not> list_ex (\<lambda>r. rc_name r = region) (sc_regions (cx_config ctx)) then (None, sv)
      else
        let (version, sv) = sync_version sv;
            entries = List.map_filter (\<lambda>pt. map_option (Pair pt) (reservation_entry ctx region pt)) (serving_live sv)
        in (Some \<lparr>sn_region = region, sn_version = version, sn_generated_at = ts_string now,
                  sn_reservations = map snd entries,
                  sn_deployments = concat (map (\<lambda>(pt, _). deployment_entitlements now pt) entries),
                  sn_failovers = svc_failovers ctx sv now\<rparr>, sv))"

section \<open>Rebalancing pass\<close>

record rebalance_report =
  rr_moved :: "(string \<times> region_share list) list"
  rr_no_capacity :: "string list"

definition rebalance_eligible ::
  "service_ctx \<Rightarrow> timestamp \<Rightarrow> string list \<Rightarrow> provisioned_throughput \<Rightarrow> bool" where
  "rebalance_eligible ctx now disturbed pt \<longleftrightarrow>
     pt_rebalance pt \<and> 2 \<le> length (pt_regions pt) \<and>
     (pt_state pt = Active \<or> pt_state pt = PendingCancellation) \<and>
     \<not> list_ex (\<lambda>r. rs_region r \<in> set disturbed) (pt_regions pt) \<and>
     \<not> list_ex (\<lambda>e. (case ev_kind e of EvSplitRebalanced _ _ \<Rightarrow> True | _ \<Rightarrow> False) \<and>
          now < ev_at e + from_mins (rb_cooldown_minutes (sc_rebalance (cx_config ctx)))) (pt_events pt)"

definition rebalance_demand :: "provisioned_throughput \<Rightarrow> stored_record list \<Rightarrow> string \<rightharpoonup> real" where
  "rebalance_demand pt records =
     foldl (\<lambda>m r. if list_ex (\<lambda>s. rs_region s = sr_region r) (pt_regions pt)
                   then m(sr_region r \<mapsto> (case m (sr_region r) of None \<Rightarrow> 0 | Some x \<Rightarrow> x) + attempted_wu (sr_record r))
                   else m) Map.empty records"

text \<open>
  One reservation of the pass. A move that does not fit returns with the planner as the
  attempt left it: what was reserved before the refusal is not given back.
\<close>

definition rebalance_one ::
  "service_ctx \<Rightarrow> usage_inner \<Rightarrow> timestamp \<Rightarrow> string list \<Rightarrow> (string \<Rightarrow> store_error option) \<Rightarrow> provisioned_throughput
   \<Rightarrow> rebalance_report \<times> service \<Rightarrow> (service_error + rebalance_report) \<times> service" where
  "rebalance_one ctx usage now disturbed fault pt st =
     (case st of (rep, sv) \<Rightarrow>
       let cfg = sc_rebalance (cx_config ctx)
       in if \<not> rebalance_eligible ctx now disturbed pt then (Inr rep, sv)
          else
            let records = usage_range (pt_tenant pt) (pt_id pt) (ms_of (now - from_mins (rb_window_minutes cfg))) (ms_of now) usage
            in if length records < rb_min_requests cfg then (Inr rep, sv)
               else
                 let max_shift = f64_as_u32 (real_of_int \<lfloor>real (pt_cus pt) * rb_max_shift_fraction cfg\<rfloor>);
                     target = target_split (pt_regions pt) (rebalance_demand pt records) max_shift
                 in if target = pt_effective pt then (Inr rep, sv)
                    else
                      let hr = svc_headroom ctx (pt_sku pt) target
                      in (case move_capacity ctx now (footprint target hr) (pt_shape pt) (start_work sv pt) of
                            (Inl (Capacity (Unavailable m)), w) \<Rightarrow>
                              (Inl (ServiceUnavailable m), sv\<lparr>sv_planner := wk_planner w\<rparr>)
                          | (Inl (Capacity _), w) \<Rightarrow>
                              (Inr (rep\<lparr>rr_no_capacity := rr_no_capacity rep @ [pt_id pt]\<rparr>), sv\<lparr>sv_planner := wk_planner w\<rparr>)
                          | (Inl e, w) \<Rightarrow> (Inl e, sv\<lparr>sv_planner := wk_planner w\<rparr>)
                          | (Inr _, w) \<Rightarrow>
                              let moved = wk_pt w;
                                  new = push_event now (EvSplitRebalanced (pt_effective moved) target)
                                    (moved\<lparr>pt_effective_regions := (if target = pt_regions moved then [] else target),
                                           pt_failover_headroom := hr\<rparr>)
                              in (case svc_persist (sv\<lparr>sv_planner := wk_planner w\<rparr>) now new (pt_version pt) (fault (pt_id pt)) of
                                    (Inr _, sv') \<Rightarrow> (Inr (rep\<lparr>rr_moved := rr_moved rep @ [(pt_id pt, target)]\<rparr>), sv')
                                  | (Inl e, _) \<Rightarrow>
                                      let sv' = sv\<lparr>sv_planner := undo ctx (pt_model pt) (pt_shape pt) (wk_ops w) (wk_planner w)\<rparr>
                                      in (case e of ServiceUnavailable _ \<Rightarrow> (Inl e, sv') | _ \<Rightarrow> (Inr rep, sv')))))"

fun rebalance_each ::
  "service_ctx \<Rightarrow> usage_inner \<Rightarrow> timestamp \<Rightarrow> string list \<Rightarrow> (string \<Rightarrow> store_error option) \<Rightarrow> provisioned_throughput list
   \<Rightarrow> rebalance_report \<times> service \<Rightarrow> (service_error + rebalance_report) \<times> service" where
  "rebalance_each ctx usage now disturbed fault [] (rep, sv) = (Inr rep, sv)"
| "rebalance_each ctx usage now disturbed fault (pt # pts) (rep, sv) =
     (case rebalance_one ctx usage now disturbed fault pt (rep, sv) of
        (Inl e, sv) \<Rightarrow> (Inl e, sv)
      | (Inr rep, sv) \<Rightarrow> rebalance_each ctx usage now disturbed fault pts (rep, sv))"

definition run_rebalance ::
  "service_ctx \<Rightarrow> usage_inner \<Rightarrow> service \<Rightarrow> timestamp \<Rightarrow> (string \<Rightarrow> store_error option)
   \<Rightarrow> (service_error + rebalance_report) \<times> service" where
  "run_rebalance ctx usage sv now fault =
     (let rep = \<lparr>rr_moved = [], rr_no_capacity = []\<rparr>
      in if \<not> rb_enabled (sc_rebalance (cx_config ctx)) then (Inr rep, sv)
         else let disturbed = map ri_region (filter (failover_in_force (return_ramp ctx) now) (svc_incidents sv))
              in rebalance_each ctx usage now disturbed fault (list_live (sv_store sv)) (rep, sv))"

end
