(* ===== verification/Reachable.thy ===== *)
theory Reachable
  imports Lifecycle Incidents
begin

text \<open>
  Every state the reservation service can reach: the step relation over its requests and
  background tasks, with the two invariants that hold in each reachable state. The planner's
  counters agree with what the stored reservations hold, and every deployment has exactly one
  current key.
\<close>

declare split_paired_All [simp del] split_paired_Ex [simp del]

section \<open>Writes that leave the capacity alone\<close>

lemma accounted_same_store:
  assumes "accounted ctx sv" and "ms_by_id st = ms_by_id (sv_store sv)"
  shows "accounted ctx (sv\<lparr>sv_store := st\<rparr>)"
  using assms by (simp add: accounted_def store_ok_def list_live_def mem_store.live_sum_def)

lemma accounted_persist:
  assumes acc: "accounted ctx sv" and e: "store_entry (sv_store sv) (pt_id a) = Some a"
    and r: "svc_persist sv now (a\<lparr>pt_deployments := ds, pt_events := es\<rparr>) v fault = (r, sv')"
  shows "accounted ctx sv'"
proof -
  let ?b = "a\<lparr>pt_deployments := ds, pt_events := es\<rparr>"
  let ?new = "touched now (tidy_placements ?b)"
  note t = touched_tidy[where pt = ?b and now = now]
  note same = same_holding[of ?b a ctx, simplified]
  have b: "hold_cost ctx p ?b = hold_cost ctx p a" for p by (rule same(2))
  have ok: "reservation_ok ctx p ?b" if "reservation_ok ctx p a" for p
    by (rule same(3)) (use that in \<open>auto simp: reservation_ok_def shares_ok_def pending_ok_def\<close>)
  show ?thesis
  proof (cases "store_write fault (sv_store sv) ?new v")
    case (Inl x)
    then have "sv' = sv" using r by (auto simp: svc_persist_def Let_def)
    then show ?thesis using acc by simp
  next
    case (Inr st)
    then have sv': "sv' = svc_bump now (sv\<lparr>sv_store := st\<rparr>)" using r by (auto simp: svc_persist_def Let_def)
    have "accounted ctx (sv\<lparr>sv_store := st, sv_planner := sv_planner sv\<rparr>)"
    proof (rule accounted_update[OF acc accountedD(1)[OF acc] _ store_write_Inr[OF Inr]])
      show "store_entry (sv_store sv) (pt_id ?new) = Some a" using e t(5) by simp
      show "reservation_ok ctx (sv_planner sv) ?new" if "is_live (pt_state ?new)"
        using that t(4,6) ok accounted_entry(2)[OF acc e] by simp
    qed (simp_all add: mem_store.live_part_def t(3,6) b)
    then show ?thesis using sv' by simp
  qed
qed

lemma accounted_deployment_write:
  assumes acc: "accounted ctx sv" and w: "deployment_write sv now tenant pid fault sv'"
  shows "accounted ctx sv'"
proof -
  consider "sv' = sv" | a ds es r where "store_get (sv_store sv) tenant pid = Some a"
    "svc_persist sv now (a\<lparr>pt_deployments := ds, pt_events := es\<rparr>) (pt_version a) fault = (r, sv')"
    using w unfolding deployment_write_def by blast
  then show ?thesis
  proof cases
    case 1
    then show ?thesis using acc by simp
  next
    case (2 a ds es r)
    note e = store_get_entry[OF 2(1)]
    show ?thesis using accounted_persist[OF acc _ 2(2)] e accounted_entry(1)[OF acc e] by simp
  qed
qed

text \<open>Sales holds, incidents and heartbeats are other parts of the store.\<close>

lemma other_parts:
  "ms_by_id (put_hold st h) = ms_by_id st" "ms_by_id (snd (delete_hold st region model source)) = ms_by_id st"
  "ms_by_id (record_heartbeat st region hb now timeout) = ms_by_id st"
  "insert_incident st i = Inr st' \<Longrightarrow> ms_by_id st' = ms_by_id st"
  "update_incident st i = Inr st' \<Longrightarrow> ms_by_id st' = ms_by_id st"
  by (auto simp: put_hold_def delete_hold_def record_heartbeat_def insert_incident_def update_incident_def Let_def
      split: if_splits option.splits)

section \<open>What a request keeps of a reservation\<close>

text \<open>
  Besides its keys, a stored reservation has the failover headroom of the split in effect.
\<close>

definition headroom_current :: "service_ctx \<Rightarrow> provisioned_throughput \<Rightarrow> bool" where
  "headroom_current ctx pt \<longleftrightarrow> pt_failover_headroom pt = svc_headroom ctx (pt_sku pt) (pt_effective pt)"

definition stored_ok :: "service_ctx \<Rightarrow> provisioned_throughput \<Rightarrow> bool" where
  "stored_ok ctx pt \<longleftrightarrow> keys_ok pt \<and> headroom_current ctx pt"

definition keyed :: "service_ctx \<Rightarrow> service \<Rightarrow> bool" where
  "keyed ctx sv \<longleftrightarrow> list_all (\<lambda>(_, pt). stored_ok ctx pt) (ms_by_id (sv_store sv))"

definition kept :: "service_ctx \<Rightarrow> service \<Rightarrow> service \<Rightarrow> bool" where
  "kept ctx sv sv' \<longleftrightarrow> (keyed ctx sv \<longrightarrow> keyed ctx sv') \<and> svc_incidents sv' = svc_incidents sv"

lemma kept_refl [simp, intro]: "kept ctx sv sv"
  by (simp add: kept_def)

lemma kept_trans: "kept ctx sv sv1 \<Longrightarrow> kept ctx sv1 sv2 \<Longrightarrow> kept ctx sv sv2"
  by (simp add: kept_def)

lemma kept_planner [simp]:
  "kept ctx sv (sv1\<lparr>sv_planner := p\<rparr>) = kept ctx sv sv1" "kept ctx (sv\<lparr>sv_planner := p\<rparr>) sv1 = kept ctx sv sv1"
  by (simp_all add: kept_def keyed_def svc_incidents_def)

lemma kept_bump [simp]: "kept ctx sv (svc_bump now sv1) = kept ctx sv sv1"
  by (simp add: kept_def keyed_def svc_incidents_def svc_bump_def bump_version_def Let_def)

lemma keyed_entry: "keyed ctx sv \<Longrightarrow> store_entry (sv_store sv) pid = Some pt \<Longrightarrow> stored_ok ctx pt"
  by (auto simp: keyed_def list_all_iff store_entry_def dest: map_of_SomeD)

lemma keyed_live: "keyed ctx sv \<Longrightarrow> pt \<in> set (list_live (sv_store sv)) \<Longrightarrow> stored_ok ctx pt"
  by (auto simp: keyed_def list_all_iff list_live_def)

lemma list_all_alist_update: "list_all P xs \<Longrightarrow> P (k, v) \<Longrightarrow> list_all P (AList.update k v xs)"
  by (induction xs) auto

lemma keyed_put:
  assumes "keyed ctx sv" and "stored_ok ctx pt" and "ms_by_id st = AList.update (pt_id pt) pt (ms_by_id (sv_store sv))"
  shows "keyed ctx (sv\<lparr>sv_store := st\<rparr>)"
  using assms list_all_alist_update[of "\<lambda>(_, pt). stored_ok ctx pt"] by (simp add: keyed_def)

lemma kept_write:
  assumes "store_write fault (sv_store sv) pt v = Inr st" and "keyed ctx sv \<Longrightarrow> stored_ok ctx pt"
  shows "kept ctx sv (sv\<lparr>sv_store := st\<rparr>)"
proof -
  from store_write_Inr[OF assms(1)] have "st = (sv_store sv)\<lparr>ms_by_id := AList.update (pt_id pt) pt (ms_by_id (sv_store sv))\<rparr>"
    by (auto simp: store_update_def split: option.splits if_splits)
  then show ?thesis using keyed_put[OF _ assms(2)] by (auto simp: kept_def svc_incidents_def)
qed

text \<open>The parts of a reservation that decide this.\<close>

definition parts ::
  "provisioned_throughput \<Rightarrow> deployment list \<times> sku \<times> region_share list \<times> region_share list \<times> region_share list" where
  "parts pt = (pt_deployments pt, pt_sku pt, pt_regions pt, pt_effective_regions pt, pt_failover_headroom pt)"

lemma stored_ok_parts: "parts a = parts b \<Longrightarrow> stored_ok ctx a = stored_ok ctx b"
  by (simp add: stored_ok_def keys_ok_def headroom_current_def pt_effective_def parts_def)

lemma parts_push [simp]: "parts (push_event t k pt) = parts pt"
  by (simp add: parts_def push_event_def)

lemma parts_helpers [simp]:
  "parts (record_placements placed pt) = parts pt" "parts (tidy_placements pt) = parts pt" "parts (touched now pt) = parts pt"
  "parts (refresh_totals ctx pt) = parts pt" "parts (activate now pt) = parts pt"
  by (simp_all add: parts_def record_placements_def tidy_placements_def touched_def refresh_totals_def activate_def push_event_def Let_def)

lemma parts_fields [simp]:
  "parts (pt\<lparr>pt_tier := t\<rparr>) = parts pt" "parts (pt\<lparr>pt_shape := sh\<rparr>) = parts pt" "parts (pt\<lparr>pt_pending_changes := pc\<rparr>) = parts pt"
  "parts (pt\<lparr>pt_name := n\<rparr>) = parts pt" "parts (pt\<lparr>pt_boundary_policy := b\<rparr>) = parts pt" "parts (pt\<lparr>pt_auto_renew := a\<rparr>) = parts pt"
  "parts (pt\<lparr>pt_state := st\<rparr>) = parts pt" "parts (pt\<lparr>pt_rebalance := r\<rparr>) = parts pt" "parts (pt\<lparr>pt_term_start := x\<rparr>) = parts pt"
  "parts (pt\<lparr>pt_term_end := x\<rparr>) = parts pt" "parts (pt\<lparr>pt_events := es\<rparr>) = parts pt"
  by (simp_all add: parts_def)

lemma stored_ok_written [simp]: "stored_ok ctx (touched now (tidy_placements pt)) = stored_ok ctx pt"
  by (rule stored_ok_parts) simp

lemma work_pt [simp]:
  "wk_pt (work_release t shares w) = wk_pt w" "wk_pt (snd (work_reserve model t cs sh start w)) = wk_pt w"
  by (simp_all add: work_release_def work_reserve_def split: prod.split sum.split)

lemma reserve_pt: "work_reserve model t cs sh start w = (r, w') \<Longrightarrow> wk_pt w' = wk_pt w"
  using work_pt(2)[of model t cs sh start w] by simp

lemma relocate_parts: "parts (wk_pt (snd (relocate ctx now region sized to sh start w))) = parts (wk_pt w)"
  by (auto simp: relocate_def Let_def reserve_pt split: prod.split sum.split)

text \<open>The two ways through \<open>?\<close>: what both calls keep, and what holds if both succeed.\<close>

lemma and_then_keeps:
  assumes "f (snd r) = x" and "\<And>y w. f w = x \<Longrightarrow> f (snd (g y w)) = x"
  shows "f (snd (and_then r g)) = x"
  using assms by (auto simp: and_then_def split: prod.split sum.split)

lemma and_then_Inr:
  assumes "and_then r g = (Inr y, w')"
  obtains x w where "r = (Inr x, w)" "g x w = (Inr y, w')"
  using assms by (auto simp: and_then_def split: prod.splits sum.splits)

lemma grow_each_parts: "parts (wk_pt (snd (grow_each ctx now target sh start gs w))) = parts (wk_pt w)"
proof (induction gs arbitrary: w)
  case (Cons g gs)
  obtain r w1 where r: "work_reserve (pt_model (wk_pt w)) (pt_tier (wk_pt w)) (claims_for ctx (wk_pt w) [g]) sh start w = (r, w1)"
    by fastforce
  note w1 = reserve_pt[OF r]
  have re: "parts (wk_pt (snd (and_then (relocate ctx now (rs_region g) sized None sh start w1)
      (\<lambda>_. grow_each ctx now target sh start gs)))) = parts (wk_pt w)" for sized
    by (rule and_then_keeps[where f = "\<lambda>w. parts (wk_pt w)"]) (simp_all add: relocate_parts w1 Cons.IH)
  show ?case using r w1 re Cons.IH by (cases r) (simp_all add: Let_def)
qed simp

lemma move_capacity_parts: "parts (wk_pt (snd (move_capacity ctx now target sh w))) = parts (wk_pt w)"
  unfolding move_capacity_def Let_def
  by (rule and_then_keeps[where f = "\<lambda>w. parts (wk_pt w)"]) (simp_all add: grow_each_parts)

lemma move_capacity_Inr: "move_capacity ctx now target sh w = (r, w') \<Longrightarrow> parts (wk_pt w') = parts (wk_pt w)"
  using move_capacity_parts[of ctx now target sh w] by simp

text \<open>Each part of an update leaves a reservation that was in order in order.\<close>

lemma stored_ok_resplit:
  assumes "stored_ok ctx a" "pt_deployments b = pt_deployments a"
    "pt_effective_regions b = []" "pt_failover_headroom b = svc_headroom ctx (pt_sku b) (pt_regions b)"
  shows "stored_ok ctx b"
  using assms by (simp add: stored_ok_def keys_ok_def headroom_current_def pt_effective_def)

lemma upd_rebalance_ok:
  assumes r: "upd_rebalance ctx now req w = (Inr u, w')" and ok: "stored_ok ctx (wk_pt w)"
  shows "stored_ok ctx (wk_pt w')"
proof -
  let ?pt = "\<lambda>v. push_event now (EvRebalanceChanged v) ((wk_pt w)\<lparr>pt_rebalance := v\<rparr>)"
  have p: "parts (?pt v) = parts (wk_pt w)" for v by simp
  have same: "stored_ok ctx (?pt v)" for v using stored_ok_parts[OF p] ok by blast
  have moved: "stored_ok ctx (wk_pt w')"
    if "and_then (move_capacity ctx now target sh (w\<lparr>wk_pt := ?pt v\<rparr>))
        (\<lambda>_ w. (Inr (), w\<lparr>wk_pt := push_event now (EvSplitRebalanced (pt_effective_regions (wk_pt w)) (pt_regions (wk_pt w)))
           ((wk_pt w)\<lparr>pt_effective_regions := [], pt_failover_headroom := svc_headroom ctx (pt_sku (?pt v)) (pt_regions (?pt v))\<rparr>)\<rparr>))
       = (Inr u, w')" for target sh v
  proof -
    from that obtain x w1 where m: "move_capacity ctx now target sh (w\<lparr>wk_pt := ?pt v\<rparr>) = (Inr x, w1)"
      and w': "w' = w1\<lparr>wk_pt := push_event now (EvSplitRebalanced (pt_effective_regions (wk_pt w1)) (pt_regions (wk_pt w1)))
           ((wk_pt w1)\<lparr>pt_effective_regions := [], pt_failover_headroom := svc_headroom ctx (pt_sku (?pt v)) (pt_regions (?pt v))\<rparr>)\<rparr>"
      by (auto elim!: and_then_Inr)
    have "parts (wk_pt w1) = parts (wk_pt w)" using move_capacity_Inr[OF m] by simp
    then show ?thesis unfolding w'
      by (intro stored_ok_resplit[OF ok]) (simp_all add: parts_def push_event_def)
  qed
  show ?thesis using r ok same moved
    by (auto simp: upd_rebalance_def Let_def split: option.splits if_splits)
qed

lemma upd_tier_parts: "upd_tier ctx ns sh req w = (r, w') \<Longrightarrow> parts (wk_pt w') = parts (wk_pt w)"
  by (auto simp: upd_tier_def Let_def reserve_pt split: option.splits prod.splits sum.splits if_splits)

lemma replace_regions_ok:
  assumes "replace_regions ctx sh new w = (Inr u, w')" and ok: "stored_ok ctx (wk_pt w)"
  shows "stored_ok ctx (wk_pt w')"
proof -
  from assms(1) obtain placed w1 where "wk_pt w' = (record_placements placed (wk_pt w))
      \<lparr>pt_regions := new, pt_effective_regions := [], pt_failover_headroom := svc_headroom ctx (pt_sku (wk_pt w)) new\<rparr>"
    by (auto simp: replace_regions_def Let_def split: prod.splits sum.splits)
  then show ?thesis by (intro stored_ok_resplit[OF ok]) (simp_all add: record_placements_def)
qed

lemma push_increases_parts: "parts (push_increases now cu n ds pt) = parts pt"
  by (induction ds arbitrary: n pt) (simp_all add: Let_def)

lemma apply_increases_ok:
  assumes r: "apply_increases ctx now sh new deltas w = (Inr u, w')" and ok: "stored_ok ctx (wk_pt w)"
  shows "stored_ok ctx (wk_pt w')"
proof (cases "deltas = []")
  case True
  then show ?thesis using assms by (simp add: apply_increases_def)
next
  case False
  let ?hr = "svc_headroom ctx (pt_sku (wk_pt w)) new"
  from r False obtain x w1 cu n where m: "move_capacity ctx now (footprint new ?hr) sh w = (Inr x, w1)"
    and w': "wk_pt w' = (push_increases now cu n deltas
        ((wk_pt w1)\<lparr>pt_effective_regions := [], pt_failover_headroom := ?hr\<rparr>))\<lparr>pt_regions := new\<rparr>"
    by (auto simp: apply_increases_def Let_def elim!: and_then_Inr)
  have "parts (wk_pt w1) = parts (wk_pt w)" using move_capacity_Inr[OF m] .
  moreover have "parts (push_increases now cu n deltas ((wk_pt w1)\<lparr>pt_effective_regions := [], pt_failover_headroom := ?hr\<rparr>))
      = parts ((wk_pt w1)\<lparr>pt_effective_regions := [], pt_failover_headroom := ?hr\<rparr>)" by (rule push_increases_parts)
  ultimately show ?thesis by (intro stored_ok_resplit[OF ok]) (simp_all add: w' parts_def)
qed

lemma upd_regions_ok:
  assumes "upd_regions ctx st now ns sh req w = (Inr u, w')" and ok: "stored_ok ctx (wk_pt w)"
  shows "stored_ok ctx (wk_pt w')"
  using assms by (auto simp: upd_regions_def Let_def elim!: and_then_Inr split: option.splits sum.splits if_splits
      dest: replace_regions_ok apply_increases_ok)

lemma upd_shape_parts: "upd_shape ctx now req w = (r, w') \<Longrightarrow> parts (wk_pt w') = parts (wk_pt w)"
  by (auto simp: upd_shape_def Let_def split: option.splits sum.splits if_splits)

lemma upd_schedule_parts: "upd_schedule now t r w = (x, w') \<Longrightarrow> parts (wk_pt w') = parts (wk_pt w)"
  by (auto simp: upd_schedule_def Let_def split: if_splits)

lemma apply_update_ok:
  assumes r: "apply_update ctx st now req w = (Inr u, w')" and ok: "stored_ok ctx (wk_pt w)"
  shows "stored_ok ctx (wk_pt w')"
proof -
  let ?pt = "upd_auto_renew now req (upd_boundary_policy now req (upd_name now req (wk_pt w)))"
  have "parts ?pt = parts (wk_pt w)"
    by (simp add: upd_auto_renew_def upd_boundary_policy_def upd_name_def split: option.split)
  then have 0: "stored_ok ctx ?pt" using ok stored_ok_parts by blast
  from r obtain x1 w1 x2 w2 x3 w3 x4 w4 x5 w5 ns sh where
    w1: "upd_rebalance ctx now req (w\<lparr>wk_pt := ?pt\<rparr>) = (Inr x1, w1)" and
    w2: "upd_tier ctx ns sh req w1 = (Inr x2, w2)" and
    w3: "upd_regions ctx st now ns sh req w2 = (Inr x3, w3)" and
    w4: "upd_shape ctx now req w3 = (Inr x4, w4)" and
    w5: "upd_schedule now x2 x3 w4 = (Inr x5, w5)" and
    w': "wk_pt w' = refresh_totals ctx (wk_pt w5)"
    unfolding apply_update_def Let_def by (fastforce elim!: and_then_Inr)
  have "stored_ok ctx (wk_pt w1)" using upd_rebalance_ok[OF w1] 0 by simp
  then have "stored_ok ctx (wk_pt w2)" using stored_ok_parts[OF upd_tier_parts[OF w2]] by blast
  from upd_regions_ok[OF w3 this] have "stored_ok ctx (wk_pt w5)"
    using stored_ok_parts[OF upd_shape_parts[OF w4]] stored_ok_parts[OF upd_schedule_parts[OF w5]] by blast
  then show ?thesis using stored_ok_parts[of "wk_pt w'" "wk_pt w5"] w' by simp
qed

lemma turn_ok:
  assumes ok: "stored_ok ctx (wk_pt w)"
  shows "stored_ok ctx (wk_pt (fst (lifecycle_turn ctx now (w, rep))))"
proof -
  have regions: "stored_ok ctx (wk_pt (renew_regions ctx now pend v))" if "stored_ok ctx (wk_pt v)" for pend v
    using that stored_ok_parts[OF parts_push]
    by (auto simp: renew_regions_def Let_def record_placements_def split: option.split prod.split sum.split
        intro: stored_ok_resplit)
  have tier: "parts (wk_pt (renew_tier ctx now pend v)) = parts (wk_pt v)" for pend v
    by (simp add: renew_tier_def Let_def split: option.split prod.split sum.split)
  have changes: "stored_ok ctx (wk_pt (renew_changes ctx now w))"
  proof (cases "pt_pending_changes (wk_pt w)")
    case (Some pend)
    let ?v = "w\<lparr>wk_pt := (wk_pt w)\<lparr>pt_pending_changes := None\<rparr>\<rparr>"
    have "stored_ok ctx (wk_pt ?v)" using ok stored_ok_parts[of "wk_pt ?v" "wk_pt w"] by simp
    from regions[OF this] have "stored_ok ctx (wk_pt (renew_regions ctx now pend ?v))" .
    moreover have "parts (wk_pt (renew_changes ctx now w)) = parts (wk_pt (renew_regions ctx now pend ?v))"
      using Some by (simp add: renew_changes_def Let_def tier)
    ultimately show ?thesis using stored_ok_parts by blast
  qed (simp add: renew_changes_def ok)
  have "parts (wk_pt (renew ctx now w)) = parts (wk_pt (renew_changes ctx now w))"
    by (simp add: renew_def next_term_def Let_def)
  from stored_ok_parts[OF this] changes have "stored_ok ctx (wk_pt (renew ctx now w))" by simp
  moreover have "parts (wk_pt (end_term ctx w)) = parts (wk_pt w)" by (simp add: end_term_def Let_def)
  from stored_ok_parts[OF this] ok have "stored_ok ctx (wk_pt (end_term ctx w))" by simp
  ultimately show ?thesis by (simp add: lifecycle_turn_def)
qed

lemma new_reservation_ok:
  assumes "issue_key sha256_hex ids now = (secret, key)"
  shows "stored_ok ctx (record_placements placed (new_reservation ctx now suffix tenant key start req))"
  using issue_key_fields[OF assms]
  by (simp add: stored_ok_def headroom_current_def pt_effective_def record_placements_def keys_ok_def new_reservation_def Let_def
      deployment_ok_def MAX_DEPLOYMENTS_def MAX_PREVIOUS_KEYS_def)

lemma kept_insert:
  assumes "store_insert (sv_store sv) pt = Inr st" and "stored_ok ctx pt"
    and "ms_by_id st' = ms_by_id st" "ms_incidents st' = ms_incidents st"
  shows "kept ctx sv (sv\<lparr>sv_store := st'\<rparr>)"
  using assms keyed_put[OF _ assms(2)] by (auto simp: store_insert_def kept_def svc_incidents_def split: if_splits)

lemma idempotency_put_incidents: "idempotency_put st tenant k r = Inr st' \<Longrightarrow> ms_incidents st' = ms_incidents st"
  by (auto simp: idempotency_put_def split: if_splits)

lemma svc_create_kept:
  assumes r: "svc_create ctx sha256_hex sv now suffix ids tenant idem fingerprint req fault = (r, sv')"
  shows "kept ctx sv sv'"
proof -
  obtain secret key where key: "issue_key sha256_hex ids now = (secret, key)" by fastforce
  let ?pt = "\<lambda>placed start. record_placements placed (new_reservation ctx now suffix tenant key start req)"
  have put: "kept ctx sv (sv\<lparr>sv_store := st'\<rparr>)"
    if "store_insert (sv_store sv) (?pt placed start) = Inr st" "st' = st \<or> idempotency_put st tenant k x = Inr st'"
    for placed start st k x st'
    using that(2) kept_insert[OF that(1) new_reservation_ok[OF key]]
    by (auto simp: idempotency_put_reservations idempotency_put_incidents)
  show ?thesis using r
    by (auto simp: svc_create_def Let_def key intro: put split: option.splits sum.splits prod.splits)
qed

lemma svc_update_kept:
  assumes r: "svc_update ctx sv now tenant pid if_match req fault = (r, sv')"
  shows "kept ctx sv sv'"
proof (cases "store_get (sv_store sv) tenant pid")
  case None
  then show ?thesis using r by (simp add: svc_update_def)
next
  case (Some a)
  obtain x w where w: "apply_update ctx (sv_store sv) now req (start_work sv a) = (x, w)" by fastforce
  have "stored_ok ctx (wk_pt w)" if "keyed ctx sv" "x = Inr u" for u
    using keyed_entry[OF that(1) store_get_entry[OF Some]] apply_update_ok[OF w[unfolded that(2)]] by (simp add: start_work_def)
  then have "kept ctx sv (sv\<lparr>sv_store := st\<rparr>)"
    if "x = Inr u" "store_write fault (sv_store sv) (touched now (tidy_placements (wk_pt w))) v = Inr st" for u v st
    using kept_write[OF that(2)] that(1) by simp
  then show ?thesis using r Some w
    by (auto simp: svc_update_def Let_def split: sum.splits if_splits)
qed

lemma svc_delete_kept:
  assumes r: "svc_delete ctx sv now tenant pid if_match fault = (r, sv')"
  shows "kept ctx sv sv'"
proof (cases "store_get (sv_store sv) tenant pid")
  case None
  then show ?thesis using r by (simp add: svc_delete_def)
next
  case (Some a)
  have put: "kept ctx sv (sv\<lparr>sv_store := st\<rparr>)"
    if "store_write fault (sv_store sv) (touched now b) v = Inr st" "parts b = parts a" for v st b
  proof (rule kept_write[OF that(1)])
    assume "keyed ctx sv"
    from keyed_entry[OF this store_get_entry[OF Some]] show "stored_ok ctx (touched now b)"
      using stored_ok_parts[of "touched now b" a] that(2) by simp
  qed
  show ?thesis using r Some
    by (auto simp: svc_delete_def Let_def intro!: put split: sum.splits if_splits)
qed

lemma persist_kept:
  assumes "svc_persist sv now b v fault = (r, sv')" and "keyed ctx sv \<Longrightarrow> stored_ok ctx b"
  shows "kept ctx sv sv'"
  using assms(1) kept_write[of fault sv "touched now (tidy_placements b)" v] assms(2)
  by (auto simp: svc_persist_def Let_def split: sum.splits)

lemma svc_move_to_pool_kept:
  assumes r: "svc_move_to_pool ctx sv now pid region pool fault = (r, sv')"
  shows "kept ctx sv sv'"
proof (cases "find_live (sv_store sv) pid")
  case None
  then show ?thesis using r by (simp add: svc_move_to_pool_def)
next
  case (Some a)
  then have a: "keyed ctx sv \<Longrightarrow> stored_ok ctx a" using keyed_live by (auto simp: find_live_def find_Some_iff)
  have put: "kept ctx sv sv1"
    if "svc_persist (sv\<lparr>sv_planner := p\<rparr>) now (wk_pt w) v fault = (x, sv1)"
      "relocate ctx now region cus to sh start (start_work sv a) = (y, w)" for p w v x sv1 cus to sh start y
  proof -
    have "parts (wk_pt w) = parts a"
      using relocate_parts[of ctx now region cus to sh start "start_work sv a"] that(2) by (simp add: start_work_def)
    from stored_ok_parts[OF this] show ?thesis using persist_kept[OF that(1)] a by (simp add: keyed_def)
  qed
  show ?thesis using r Some
    by (auto simp: svc_move_to_pool_def intro: put split: option.splits sum.splits prod.splits if_splits)
qed

lemma prune_stored_ok: "stored_ok ctx pt \<Longrightarrow> stored_ok ctx (fst (prune_expired_keys now pt))"
  using prune_keys_ok[of pt now] prune_edit[of now pt]
  by (auto simp: stored_ok_def headroom_current_def pt_effective_def)

lemma lifecycle_one_kept:
  assumes cal: "forward_calendar ctx now" and pt: "keyed ctx sv \<Longrightarrow> stored_ok ctx pt"
    and r: "lifecycle_one ctx now fault pt (sv, rep) = Some (sv', rep')"
  shows "kept ctx sv sv'"
proof -
  obtain b pruned where b: "prune_expired_keys now pt = (b, pruned)" by fastforce
  let ?b = "activate now b"
  let ?rep = "if pt_state b = Scheduled \<and> pt_term_start b \<le> now then rep\<lparr>lr_activated := lr_activated rep + 1\<rparr> else rep"
  have b_ok: "keyed ctx sv \<longrightarrow> stored_ok ctx ?b"
    using prune_stored_ok[OF pt, of now] b stored_ok_parts[of ?b b] by simp
  obtain w rep1 where w: "lifecycle_loop ctx now (start_work sv ?b, ?rep) = Some (w, rep1)"
    and ok: "keyed ctx sv \<longrightarrow> stored_ok ctx (wk_pt w)"
    using lifecycle_loop_rule[OF cal, of "\<lambda>w. keyed ctx sv \<longrightarrow> stored_ok ctx (wk_pt w)" "start_work sv ?b" ?rep] b_ok turn_ok
    by (auto simp: start_work_def)
  have "kept ctx sv (sv\<lparr>sv_store := st\<rparr>)"
    if "store_write x (sv_store sv) (touched now (tidy_placements (wk_pt w))) v = Inr st" for x v st
    using kept_write[OF that] ok by simp
  then show ?thesis using r b w
    by (auto simp: lifecycle_one_def Let_def split: sum.splits if_splits)
qed

lemma lifecycle_each_kept:
  "forward_calendar ctx now \<Longrightarrow> keyed ctx sv \<Longrightarrow> \<forall>pt\<in>set pts. stored_ok ctx pt \<Longrightarrow>
   lifecycle_each ctx now fault pts (sv, rep) = Some (sv', rep') \<Longrightarrow> kept ctx sv sv'"
proof (induction pts arbitrary: sv rep)
  case (Cons pt pts)
  from Cons.prems(4) obtain sv1 rep1 where one: "lifecycle_one ctx now fault pt (sv, rep) = Some (sv1, rep1)"
    and rest: "lifecycle_each ctx now fault pts (sv1, rep1) = Some (sv', rep')" by (auto simp: bind_eq_Some_conv)
  have k: "kept ctx sv sv1" by (rule lifecycle_one_kept[OF Cons.prems(1) _ one]) (use Cons.prems(3) in simp)
  then have "kept ctx sv1 sv'" using Cons.IH[OF Cons.prems(1) _ _ rest] Cons.prems(2,3) by (simp add: kept_def)
  with k show ?case by (rule kept_trans)
qed simp

lemma svc_lifecycle_kept:
  assumes "forward_calendar ctx now" and "keyed ctx sv" and "svc_lifecycle ctx now fault sv = Some (sv', rep)"
  shows "kept ctx sv sv'"
  by (rule lifecycle_each_kept[OF assms(1,2) _ assms(3)[unfolded svc_lifecycle_def]]) (use keyed_live assms(2) in blast)

lemma deployment_write_kept: "deployment_write sv now tenant pid fault sv' \<Longrightarrow> kept ctx sv sv'"
  unfolding deployment_write_def
proof (elim disjE exE conjE)
  fix a ds es r
  assume a: "store_get (sv_store sv) tenant pid = Some a" "keys_ok a \<longrightarrow> keys_ok (a\<lparr>pt_deployments := ds\<rparr>)"
    and p: "svc_persist sv now (a\<lparr>pt_deployments := ds, pt_events := es\<rparr>) (pt_version a) fault = (r, sv')"
  have "stored_ok ctx (a\<lparr>pt_deployments := ds, pt_events := es\<rparr>)" if "keyed ctx sv"
    using a(2) keyed_entry[OF that store_get_entry[OF a(1)]]
    by (simp add: stored_ok_def keys_ok_def headroom_current_def pt_effective_def)
  then show "kept ctx sv sv'" by (rule persist_kept[OF p])
qed simp

section \<open>Incidents\<close>

text \<open>
  Incident ids are distinct, a region has at most one open incident, and an incident ends no
  earlier than it started. A request outside the incidents keeps this because it keeps them.
\<close>

definition is_open :: "region_incident \<Rightarrow> bool" where
  "is_open i \<longleftrightarrow> ri_ended_at i = None"

definition incidents_ok :: "region_incident list \<Rightarrow> bool" where
  "incidents_ok xs \<longleftrightarrow> distinct (map ri_id xs) \<and> distinct (map ri_region (filter is_open xs)) \<and>
     list_all (\<lambda>i. case ri_ended_at i of None \<Rightarrow> True | Some e \<Rightarrow> ri_started_at i \<le> e) xs"

lemma incidents_ok_perm: "mset xs = mset ys \<Longrightarrow> incidents_ok xs = incidents_ok ys"
  unfolding incidents_ok_def list_all_iff
  by (metis mset_eq_imp_distinct_iff mset_eq_setD mset_filter mset_map)

lemma incidents_ok_insert:
  assumes "incidents_ok xs" and "ri_id i \<notin> ri_id ` set xs" and "is_open i"
    and "\<not> list_ex (\<lambda>j. ri_region j = ri_region i \<and> ri_ended_at j = None) xs"
  shows "incidents_ok (takeWhile P xs @ i # dropWhile P xs)"
proof -
  have "incidents_ok (i # xs)" using assms by (auto simp: incidents_ok_def is_open_def list_ex_iff)
  moreover have "mset (takeWhile P xs @ i # dropWhile P xs) = mset (i # xs)"
    using arg_cong[OF takeWhile_dropWhile_id[of P xs], of mset] by (simp del: takeWhile_dropWhile_id)
  ultimately show ?thesis using incidents_ok_perm by blast
qed

lemma replace_incident_ids: "map ri_id (replace_incident i xs) = map ri_id xs"
  by (induction xs) auto

lemma replace_incident_set: "set (replace_incident i xs) \<subseteq> insert i (set xs)"
  by (induction xs) auto

lemma replace_incident_open:
  assumes "\<not> is_open i"
  shows "set (map ri_region (filter is_open (replace_incident i xs))) \<subseteq> set (map ri_region (filter is_open xs))"
    and "distinct (map ri_region (filter is_open xs)) \<Longrightarrow> distinct (map ri_region (filter is_open (replace_incident i xs)))"
proof -
  show sub: "set (map ri_region (filter is_open (replace_incident i xs))) \<subseteq> set (map ri_region (filter is_open xs))" for xs
    using assms by (induction xs) auto
  show "distinct (map ri_region (filter is_open (replace_incident i xs)))" if "distinct (map ri_region (filter is_open xs))"
    using that
  proof (induction xs)
    case (Cons x xs)
    then have "ri_region x \<notin> set (map ri_region (filter is_open (replace_incident i xs)))" if "is_open x"
      using that sub[of xs] by auto
    then show ?case using assms Cons by (cases "is_open x") auto
  qed simp
qed

text \<open>What the incident handlers do to the service.\<close>

definition incident_write :: "service \<Rightarrow> service \<Rightarrow> bool" where
  "incident_write sv sv' \<longleftrightarrow> sv_planner sv' = sv_planner sv \<and> ms_by_id (sv_store sv') = ms_by_id (sv_store sv) \<and>
     (incidents_ok (svc_incidents sv) \<longrightarrow> incidents_ok (svc_incidents sv'))"

lemma incident_write_refl [simp, intro]: "incident_write sv sv"
  by (simp add: incident_write_def)

lemma incident_write_trans: "incident_write sv sv1 \<Longrightarrow> incident_write sv1 sv2 \<Longrightarrow> incident_write sv sv2"
  by (simp add: incident_write_def)

lemma incident_write_bump [simp]: "incident_write sv (svc_bump now sv1) = incident_write sv sv1"
  by (simp add: incident_write_def svc_incidents_def svc_bump_def bump_version_def Let_def)

lemma open_incident_write:
  assumes r: "open_incident sv now uid region started_at description source fault = (r, sv')"
  shows "incident_write sv sv'"
proof -
  let ?i = "\<lparr>ri_id = ''inc-'' @ take 12 uid, ri_region = region, ri_started_at = started_at,
              ri_ended_at = None, ri_description = description, ri_declared_at = now, ri_source = source\<rparr>"
  have put: "incident_write sv (sv\<lparr>sv_store := st\<rparr>)"
    if st: "insert_incident (sv_store sv) ?i = Inr st"
      and free: "\<not> list_ex (\<lambda>i. ri_region i = region \<and> ri_ended_at i = None) (svc_incidents sv)" for st
  proof -
    let ?P = "\<lambda>i. ri_started_at i \<le> started_at"
    from st have new: "ri_id ?i \<notin> ri_id ` set (svc_incidents sv)"
      and inc: "ms_incidents st = takeWhile ?P (svc_incidents sv) @ ?i # dropWhile ?P (svc_incidents sv)"
      by (auto simp: insert_incident_def svc_incidents_def list_ex_iff Let_def split: if_splits)
    have "incidents_ok (ms_incidents st)" if "incidents_ok (svc_incidents sv)"
      unfolding inc by (rule incidents_ok_insert[OF that new]) (use free in \<open>simp_all add: is_open_def\<close>)
    then show ?thesis using other_parts(4)[OF st] by (simp add: incident_write_def svc_incidents_def)
  qed
  show ?thesis using r put
    by (auto simp: open_incident_def Let_def split: if_splits sum.splits option.splits)
qed

lemma resolve_incident_write:
  assumes r: "resolve_incident sv now iid ended fault = (r, sv')"
  shows "incident_write sv sv'"
proof -
  have put: "incident_write sv (sv\<lparr>sv_store := st\<rparr>)"
    if st: "update_incident (sv_store sv) (i\<lparr>ri_ended_at := Some e\<rparr>) = Inr st"
      and i: "find (\<lambda>i. ri_id i = iid) (svc_incidents sv) = Some i" and e: "ri_started_at i \<le> e" for st i e
  proof -
    let ?i = "i\<lparr>ri_ended_at := Some e\<rparr>"
    have inc: "ms_incidents st = replace_incident ?i (svc_incidents sv)"
      using st by (auto simp: update_incident_def svc_incidents_def split: if_splits)
    have "incidents_ok (ms_incidents st)" if ok: "incidents_ok (svc_incidents sv)"
      using ok e replace_incident_open(2)[of ?i] replace_incident_set[of ?i "svc_incidents sv"]
      unfolding incidents_ok_def inc replace_incident_ids by (auto simp: is_open_def list_all_iff)
    then show ?thesis using other_parts(5)[OF st] by (simp add: incident_write_def svc_incidents_def)
  qed
  show ?thesis using r put
    by (auto simp: resolve_incident_def Let_def split: if_splits sum.splits option.splits)
qed

lemma declare_incident_write:
  assumes r: "svc_declare_incident ctx sv now uid req fault = (r, sv')"
  shows "incident_write sv sv'"
  using r open_incident_write by (auto simp: svc_declare_incident_def Let_def split: if_splits)

lemma failover_turn_write: "incident_write sv (snd (failover_turn ctx now uid fault describe statuses incidents (rep, sv) s))"
proof -
  have "incident_write sv sv1" if "open_incident sv now u r t d src f = (x, sv1)" for u r t d src f x sv1
    using open_incident_write[OF that] .
  moreover have "incident_write sv sv1" if "resolve_incident sv now i e f = (x, sv1)" for i e f x sv1
    using resolve_incident_write[OF that] .
  ultimately show ?thesis
    by (auto simp: failover_turn_def Let_def split: health.split option.split prod.split sum.split)
qed

lemma run_failover_write:
  assumes r: "run_failover ctx sv now uid fault describe = (rep, sv')"
  shows "incident_write sv sv'"
proof -
  have "incident_write sv (snd (foldl (failover_turn ctx now uid fault describe statuses incidents) (rep, sv) xs))"
    for statuses incidents rep xs
  proof (induction xs arbitrary: rep sv)
    case (Cons x xs)
    obtain rep1 sv1 where t: "failover_turn ctx now uid fault describe statuses incidents (rep, sv) x = (rep1, sv1)" by fastforce
    have "incident_write sv sv1" using failover_turn_write[of sv ctx now uid fault describe statuses incidents rep x] t by simp
    then show ?case using incident_write_trans Cons.IH[of sv1 rep1] t by auto
  qed simp
  from this[of "region_statuses ctx sv now" "svc_incidents sv" "\<lparr>fr_declared = [], fr_resolved = []\<rparr>" "region_statuses ctx sv now"]
  show ?thesis using r by (auto simp: run_failover_def Let_def split: if_splits)
qed

section \<open>Every state the service reaches\<close>

text \<open>
  One request or background task. A request is within the 32-bit widths of its shares. Every write
  may fail, but an update that fails asks for no longer contexts than the reservation has: the
  rollback of one that does can lose capacity, and so can a pass of \<open>run_rebalance\<close> that is refused
  capacity, which is therefore not a step either. The random identifiers of a new deployment and a
  new key are not in use on that reservation.
\<close>

definition dep_id_fresh :: "service \<Rightarrow> string \<Rightarrow> string \<Rightarrow> string \<Rightarrow> bool" where
  "dep_id_fresh sv tenant pid uid \<longleftrightarrow> (case store_get (sv_store sv) tenant pid of
     None \<Rightarrow> True | Some a \<Rightarrow> ''dep-'' @ take 16 uid \<notin> dp_id ` set (pt_deployments a))"

definition key_id_fresh :: "service \<Rightarrow> string \<Rightarrow> string \<Rightarrow> string \<Rightarrow> bool" where
  "key_id_fresh sv tenant pid uid \<longleftrightarrow> (case store_get (sv_store sv) tenant pid of
     None \<Rightarrow> True | Some a \<Rightarrow> list_all (\<lambda>d. ''key-'' @ take 12 uid \<notin> ak_id ` set (dp_api_keys d)) (pt_deployments a))"

inductive service_step :: "service_ctx \<Rightarrow> service \<Rightarrow> service \<Rightarrow> bool" for ctx where
  step_create: "create_fits ctx req \<Longrightarrow>
    svc_create ctx sha256_hex sv now suffix ids tenant idem fingerprint req fault = (r, sv') \<Longrightarrow> service_step ctx sv sv'"
| step_update: "store_get (sv_store sv) tenant pid = Some a \<Longrightarrow> update_fits ctx a req \<Longrightarrow> (\<And>e. r = Inl e \<Longrightarrow> update_narrows a req) \<Longrightarrow>
    svc_update ctx sv now tenant pid if_match req fault = (r, sv') \<Longrightarrow> service_step ctx sv sv'"
| step_delete: "svc_delete ctx sv now tenant pid if_match fault = (r, sv') \<Longrightarrow> service_step ctx sv sv'"
| step_move: "svc_move_to_pool ctx sv now pid region pool fault = (r, sv') \<Longrightarrow> service_step ctx sv sv'"
| step_lifecycle: "forward_calendar ctx now \<Longrightarrow> svc_lifecycle ctx now faults sv = Some (sv', rep) \<Longrightarrow> service_step ctx sv sv'"
| step_sync: "service_step ctx sv (snd (sync_version sv))"
| step_create_deployment: "dep_id_fresh sv tenant pid uid \<Longrightarrow>
    create_deployment sha256_hex sv now uid ids tenant pid if_match dreq fault = (dr, sv') \<Longrightarrow> service_step ctx sv sv'"
| step_update_deployment: "update_deployment sv now tenant pid dep if_match ureq fault = (ur, sv') \<Longrightarrow> service_step ctx sv sv'"
| step_delete_deployment: "delete_deployment sv now tenant pid dep if_match fault = (ur, sv') \<Longrightarrow> service_step ctx sv sv'"
| step_rotate_key: "key_id_fresh sv tenant pid (snd (snd ids)) \<Longrightarrow>
    rotate_key sha256_hex sv now ids tenant pid odep if_match rreq fault = Some (kr, sv') \<Longrightarrow> service_step ctx sv sv'"
| step_revoke_key: "revoke_key sv now tenant pid odep key_id if_match fault = Some (ur, sv') \<Longrightarrow> service_step ctx sv sv'"
| step_hold_sales: "hold_sales ctx sv now region model source reason ttl fault = (hr, sv') \<Longrightarrow> service_step ctx sv sv'"
| step_release_hold: "release_sales_hold sv region model source = (b, sv') \<Longrightarrow> service_step ctx sv sv'"
| step_declare: "svc_declare_incident ctx sv now uid ireq fault = (ir, sv') \<Longrightarrow> service_step ctx sv sv'"
| step_resolve: "resolve_incident sv now iid ended fault = (ir, sv') \<Longrightarrow> service_step ctx sv sv'"
| step_heartbeat: "service_step ctx sv (svc_heartbeat ctx sv now region hb)"
| step_failover: "run_failover ctx sv now uids faults describe = (frep, sv') \<Longrightarrow> service_step ctx sv sv'"
| step_snapshot: "svc_snapshot ctx ts_string sv now region = (snap, sv') \<Longrightarrow> service_step ctx sv sv'"

inductive_cases service_stepE: "service_step ctx sv sv'"

inductive service_reach :: "service_ctx \<Rightarrow> service \<Rightarrow> bool" for ctx where
  reach_start: "service_reach ctx (in_memory ctx now)"
| reach_step: "service_reach ctx sv \<Longrightarrow> service_step ctx sv sv' \<Longrightarrow> service_reach ctx sv'"

text \<open>A configuration with one entry per pool, costs below 32 bits and arrivals within the calendar.\<close>

definition config_ok :: "service_ctx \<Rightarrow> bool" where
  "config_ok ctx \<longleftrightarrow> config_keys_distinct (cp_capacity (sc_plan (cx_config ctx))) \<and> narrow_costs (planner_start ctx)
     \<and> (\<forall>region pool. \<forall>a\<in>set (arrivals (mp_schedule (planner_start ctx)) region pool). fst a \<le> cx_timestamp_max ctx)"

lemma accounted_start:
  assumes "config_ok ctx"
  shows "accounted ctx (in_memory ctx now)"
proof -
  have new: "planner_ok (planner_start ctx)" "planner_reserved (planner_start ctx) key = 0" for key
    using assms planner_new_ok by (simp_all add: config_ok_def planner_start_def Let_def)
  then have "plan_good (cx_timestamp_max ctx) (planner_start ctx)"
    using assms by (simp add: plan_good_def within_final_def config_ok_def)
  then show ?thesis
    using assms new by (simp add: accounted_def in_memory_def svc_new_def store_starting_at_def store_ok_def list_live_def
        mem_store.live_sum_def config_ok_def)
qed

text \<open>
  A step either moves capacity, and then keeps the accounts and what \<open>kept\<close> says, or it
  writes the deployments of one reservation, or it leaves reservations and planner alone.
\<close>

lemma hold_write:
  assumes "hold_sales ctx sv now region model source reason ttl fault = (r, sv')"
  shows "incident_write sv sv'"
  using assms by (auto simp: hold_sales_def Let_def incident_write_def svc_incidents_def put_hold_def split: if_splits option.splits)

lemma release_write:
  assumes "release_sales_hold sv region model source = (b, sv')"
  shows "incident_write sv sv'"
  using assms by (auto simp: release_sales_hold_def delete_hold_def incident_write_def svc_incidents_def)

lemma heartbeat_write: "incident_write sv (svc_heartbeat ctx sv now region hb)"
  by (simp add: svc_heartbeat_def record_heartbeat_def incident_write_def svc_incidents_def Let_def)

lemma sync_write: "incident_write sv (snd (sync_version sv))"
  by (simp add: sync_version_def incident_write_def svc_incidents_def Let_def)

lemma snapshot_write:
  assumes "svc_snapshot ctx ts_string sv now region = (snap, sv')"
  shows "incident_write sv sv'"
  using assms sync_write[of sv] by (auto simp: svc_snapshot_def Let_def split: if_splits prod.splits)

lemma step_shape:
  assumes "service_step ctx sv sv'"
  obtains (capacity) "accounted ctx sv \<Longrightarrow> accounted ctx sv'" "keyed ctx sv \<Longrightarrow> kept ctx sv sv'"
    | (deployment) now tenant pid fault where "deployment_write sv now tenant pid fault sv'"
    | (other) "incident_write sv sv'"
  using assms
proof (cases rule: service_step.cases)
  case (step_create req sha256_hex now suffix ids tenant idem fingerprint fault r)
  show thesis by (rule capacity) (rule svc_create_result(1)[OF _ step_create], assumption, rule svc_create_kept[OF step_create(2)])
next
  case (step_update tenant pid a req r now if_match fault)
  show thesis
  proof (rule capacity)
    show "kept ctx sv sv'" by (rule svc_update_kept[OF step_update(4)])
    assume acc: "accounted ctx sv"
    show "accounted ctx sv'" using svc_update_result[OF acc step_update(1,2,4)] step_update(3) acc by (cases r) auto
  qed
next
  case (step_delete now tenant pid if_match fault r)
  show thesis by (rule capacity) (rule svc_delete_result(1)[OF _ step_delete], assumption, rule svc_delete_kept[OF step_delete])
next
  case (step_move now pid region pool fault r)
  show thesis
    by (rule capacity) (rule svc_move_to_pool_result(1)[OF _ step_move], assumption, rule svc_move_to_pool_kept[OF step_move])
next
  case (step_lifecycle now faults rep)
  show thesis
  proof (rule capacity)
    show "accounted ctx sv'" if "accounted ctx sv" using svc_lifecycle_result[OF that step_lifecycle(1), of faults] step_lifecycle(2) by auto
    show "kept ctx sv sv'" if "keyed ctx sv" by (rule svc_lifecycle_kept[OF step_lifecycle(1) that step_lifecycle(2)])
  qed
next
  case (step_create_deployment tenant pid uid sha256_hex now ids if_match dreq fault dr)
  show thesis
    by (rule deployment, rule create_deployment_write[OF step_create_deployment(2)])
      (use step_create_deployment(1) in \<open>auto simp: dep_id_fresh_def split: option.splits\<close>)
next
  case (step_rotate_key tenant pid ids sha256_hex now odep if_match rreq fault kr)
  show thesis
    by (rule deployment, rule rotate_key_write[OF step_rotate_key(2)])
      (use step_rotate_key(1) in \<open>auto simp: key_id_fresh_def list_all_iff split: option.splits\<close>)
qed (auto intro: other deployment update_deployment_write delete_deployment_write revoke_key_write sync_write hold_write
    release_write declare_incident_write resolve_incident_write heartbeat_write run_failover_write snapshot_write)

lemma step_accounted:
  assumes "service_step ctx sv sv'" and acc: "accounted ctx sv"
  shows "accounted ctx sv'"
  using assms(1)
proof (cases rule: step_shape)
  case capacity
  then show ?thesis using acc by blast
next
  case (deployment now tenant pid fault)
  then show ?thesis using accounted_deployment_write[OF acc] by blast
next
  case other
  then show ?thesis using acc by (simp add: incident_write_def accounted_def store_ok_def list_live_def mem_store.live_sum_def)
qed

lemma step_keyed:
  assumes "service_step ctx sv sv'" and "keyed ctx sv" and "incidents_ok (svc_incidents sv)"
  shows "keyed ctx sv' \<and> incidents_ok (svc_incidents sv')"
  using assms(1)
proof (cases rule: step_shape)
  case capacity
  then show ?thesis using assms(2,3) by (simp add: kept_def)
next
  case (deployment now tenant pid fault)
  then show ?thesis using deployment_write_kept assms(2,3) by (fastforce simp: kept_def)
next
  case other
  then show ?thesis using assms(2,3) by (simp add: incident_write_def keyed_def)
qed

lemma reach_accounted: "service_reach ctx sv \<Longrightarrow> config_ok ctx \<Longrightarrow> accounted ctx sv"
  by (induction rule: service_reach.induct) (use accounted_start step_accounted in blast)+

lemma reach_keyed: "service_reach ctx sv \<Longrightarrow> keyed ctx sv \<and> incidents_ok (svc_incidents sv)"
proof (induction rule: service_reach.induct)
  case (reach_start now)
  then show ?case by (simp add: in_memory_def svc_new_def store_starting_at_def keyed_def svc_incidents_def incidents_ok_def)
qed (use step_keyed in blast)

end
