(* ===== verification/Service_Claims.thy ===== *)
theory Service_Claims
  imports Reachable
begin

text \<open>
  What the service guarantees about capacity in every state it reaches: the planner's counters
  are the sum of what is held, a failed request changes nothing, the lifecycle pass ends, and a
  restart rebuilds the counters. Last, the request that a failed write does not take back.
\<close>

declare split_paired_All [simp del] split_paired_Ex [simp del]

section \<open>Example\<close>

text \<open>One model in two regions; the pool in \<open>us\<close> serves shorter contexts.\<close>

definition two_pools :: control_plane_config where
  "two_pools = \<lparr>cp_capacity =
       [\<lparr>cc_region = ''eu'', cc_model = ''m'', cc_pool = None, cc_replicas = 1, cc_max_context = 8192, cc_profile = ''test''\<rparr>,
        \<lparr>cc_region = ''us'', cc_model = ''m'', cc_pool = None, cc_replicas = 1, cc_max_context = 4096, cc_profile = ''test''\<rparr>],
     cp_capacity_changes = [], cp_profiles = [example_profile], cp_wu_per_cu = 1000\<rparr>"

definition demo_service_config :: service_config where
  "demo_service_config = \<lparr>sc_plan = two_pools,
     sc_models = [\<lparr>mc_id = ''m'', mc_max_context = 8192, mc_tiers = [Standard]\<rparr>],
     sc_regions = [\<lparr>rc_name = ''eu'', rc_pair = None, rc_residency = None\<rparr>, \<lparr>rc_name = ''us'', rc_pair = None, rc_residency = None\<rparr>],
     sc_pricing = \<lparr>pg_currency = ''USD'', pg_base_cu_price_per_month_cents = 100\<rparr>, sc_endpoint_template = ''https'',
     sc_failover = \<lparr>fc_auto_declare = False, fc_heartbeat_timeout_seconds = 60, fc_recovery_seconds = 60, fc_return_ramp_minutes = 10\<rparr>,
     sc_rebalance = \<lparr>rb_enabled = False, rb_window_minutes = 60, rb_cooldown_minutes = 60, rb_max_shift_fraction = 0, rb_min_requests = 1\<rparr>\<rparr>"

text \<open>A calendar of months of 30 days.\<close>

definition demo_ctx :: service_ctx where
  "demo_ctx = \<lparr>cx_config = demo_service_config, cx_add_months = (\<lambda>t n. t + int n * 2592000000000000),
     cx_timestamp_max = 100000000000000000, cx_plan_error_text = (\<lambda>_. ''capacity'')\<rparr>"

definition demo_create :: create_request where
  "demo_create = \<lparr>cr_name = ''a'', cr_model = ''m'', cr_tier = Standard,
     cr_regions = [\<lparr>rs_region = ''eu'', rs_cus = 2\<rparr>, \<lparr>rs_region = ''us'', rs_cus = 3\<rparr>], cr_sku = Regional, cr_isolation = Shared,
     cr_term_months = One, cr_start_at = Some 1000, cr_auto_renew = True, cr_shape = demo_shape,
     cr_boundary_policy = boundary_policy_default, cr_rebalance = False\<rparr>"

definition demo_started :: service where
  "demo_started = snd (svc_create demo_ctx (\<lambda>s. s) (in_memory demo_ctx 0) 0 ''x'' (''a'', ''b'', ''c'') ''acme'' None ''f'' demo_create None)"

lemma two_pools_costs:
  "costs_from_config two_pools =
     [(''eu'', ''m'', Interactive) \<mapsto> 41667, (''eu'', ''m'', Agentic) \<mapsto> 35212, (''eu'', ''m'', Standard) \<mapsto> 21552,
      (''us'', ''m'', Interactive) \<mapsto> 41667, (''us'', ''m'', Agentic) \<mapsto> 35212, (''us'', ''m'', Standard) \<mapsto> 21552]"
  by (simp add: costs_from_config_def two_pools_def config_profile_def example_profile_def
      TIERS_def costs_of_tier_def costs_insert_def for_tier_def pool_id_def micro_per_cu_demo)

definition demo_pools :: "nat \<Rightarrow> nat \<Rightarrow> memory_planner" where
  "demo_pools eu us = \<lparr>mp_pools =
       [\<lparr>pv_region = ''eu'', pv_pool = ''m'', pv_model = ''m'', pv_capacity = 1000000, pv_reserved = eu, pv_max_context = 8192\<rparr>,
        \<lparr>pv_region = ''us'', pv_pool = ''m'', pv_model = ''m'', pv_capacity = 1000000, pv_reserved = us, pv_max_context = 4096\<rparr>],
     mp_costs = costs_from_config two_pools, mp_schedule = Map.empty, mp_pending = Map.empty\<rparr>"

lemma demo_planner_start: "planner_start demo_ctx = demo_pools 0 0"
  by (simp add: planner_start_def demo_ctx_def demo_service_config_def memory_planner_new_def demo_pools_def)
    (simp add: two_pools_def pool_view_from_config_def pool_id_def u64_mul_def MICRO_def schedule_from_config_def)

lemma demo_config_ok: "config_ok demo_ctx"
proof -
  have "narrow_costs (demo_pools 0 0)"
    by (auto simp: narrow_costs_def demo_pools_def two_pools_costs split: if_splits)
  moreover have "config_keys_distinct (cp_capacity (sc_plan (cx_config demo_ctx)))"
    by (simp add: demo_ctx_def demo_service_config_def two_pools_def config_keys_distinct_def)
  ultimately show ?thesis
    unfolding config_ok_def demo_planner_start by (simp add: demo_pools_def arrivals_def)
qed

lemma demo_calendar: "forward_calendar demo_ctx now"
  by (simp add: forward_calendar_def demo_ctx_def)

lemmas demo_plan_eval = demo_pools_def two_pools_costs plan_reserve_def planner_reserve_def place_def place_candidates_def place_costed_def
  per_cu_def free_at_def added_by_def arrivals_def u64_mul_def is_pool_def

lemma demo_svc_headroom: "svc_headroom demo_ctx Regional rs = []"
  by (simp add: svc_headroom_def headroom_def)

lemma demo_regions_for: "regions_for two_pools ''m'' = [''eu'', ''us'']"
  by (simp add: regions_for_def two_pools_def)

lemma demo_validate:
  "validate_name ''a'' = Inr ()"
  "validate_model (cx_config demo_ctx) ''m'' = Inr \<lparr>mc_id = ''m'', mc_max_context = 8192, mc_tiers = [Standard]\<rparr>"
  "validate_regions (cx_config demo_ctx) ''m'' Regional [\<lparr>rs_region = ''eu'', rs_cus = 2\<rparr>, \<lparr>rs_region = ''us'', rs_cus = 3\<rparr>] = Inr ()"
  "validate_regions (cx_config demo_ctx) ''m'' Regional [\<lparr>rs_region = ''eu'', rs_cus = 3\<rparr>] = Inr ()"
  "validate_boundary_policy boundary_policy_default = Inr ()"
  by (simp_all add: validate_name_def name_byte_def validate_model_def config_model_def demo_ctx_def demo_service_config_def
      validate_regions_def MAX_REGIONS_def demo_regions_for validate_boundary_policy_def boundary_policy_default_def)

lemma demo_shapes:
  "validate_shape \<lparr>mc_id = ''m'', mc_max_context = 8192, mc_tiers = [Standard]\<rparr> demo_shape = Inr ()"
  "validate_shape \<lparr>mc_id = ''m'', mc_max_context = 8192, mc_tiers = [Standard]\<rparr> (demo_shape\<lparr>context_ceiling := 8192\<rparr>) = Inr ()"
  by (simp_all add: validate_shape_def demo_shape_def)

lemma demo_create_checks: "create_checks demo_ctx (store_starting_at v) 0 ''acme'' demo_create = Inr 1000"
proof -
  have "validate_create (cx_config demo_ctx) demo_create = Inr ()"
    using demo_validate demo_shapes by (simp add: validate_create_def demo_create_def validate_tier_def check_then_def)
  then show ?thesis
    by (simp add: create_checks_def demo_create_def sales_open_def holds_def store_starting_at_def create_start_def
        START_SKEW_def MAX_START_AHEAD_def ensure_name_free_def store_list_def)
qed

text \<open>The reservation the example creates.\<close>

definition demo_held :: provisioned_throughput where
  "demo_held = record_placements [\<lparr>ps_region = ''eu'', ps_pool = ''m'', ps_cus = 2\<rparr>, \<lparr>ps_region = ''us'', ps_pool = ''m'', ps_cus = 3\<rparr>]
     (new_reservation demo_ctx 0 ''x'' ''acme'' (snd (issue_key (\<lambda>s. s) (''a'', ''b'', ''c'') 0)) 1000 demo_create)"

lemma demo_reserved:
  "plan_reserve (planner_start demo_ctx) ''m'' Standard
     (unplaced [\<lparr>rs_region = ''eu'', rs_cus = 2\<rparr>, \<lparr>rs_region = ''us'', rs_cus = 3\<rparr>]) demo_shape 1000
   = (Inr [\<lparr>ps_region = ''eu'', ps_pool = ''m'', ps_cus = 2\<rparr>, \<lparr>ps_region = ''us'', ps_pool = ''m'', ps_cus = 3\<rparr>], demo_pools 43104 64656)"
  by (simp add: demo_planner_start unplaced_def demo_plan_eval demo_shape_def)

lemma demo_started_eq: "sv_planner demo_started = demo_pools 43104 64656" "ms_by_id (sv_store demo_started) = [(''pt-x'', demo_held)]"
  "ms_holds (sv_store demo_started) = []"
proof -
  have id: "pt_id demo_held = ''pt-x''" by (simp add: demo_held_def new_reservation_def Let_def record_placements_def)
  have f: "footprint (cr_regions demo_create) (svc_headroom demo_ctx (cr_sku demo_create) (cr_regions demo_create))
      = [\<lparr>rs_region = ''eu'', rs_cus = 2\<rparr>, \<lparr>rs_region = ''us'', rs_cus = 3\<rparr>]"
    by (simp add: demo_create_def demo_svc_headroom footprint_def)
  have sel: "cr_model demo_create = ''m''" "cr_tier demo_create = Standard" "cr_shape demo_create = demo_shape" by (simp_all add: demo_create_def)
  have eq: "demo_started = svc_bump 0 ((in_memory demo_ctx 0)\<lparr>
      sv_store := (store_starting_at (start_ms 0))\<lparr>ms_by_id := [(''pt-x'', demo_held)]\<rparr>, sv_planner := demo_pools 43104 64656\<rparr>)"
    unfolding demo_started_def svc_create_def in_memory_def svc_new_def
    by (simp add: create_replay_def demo_create_checks f sel demo_reserved Let_def case_prod_unfold demo_held_def[symmetric] id store_insert_def)
      (simp add: store_starting_at_def)
  show "sv_planner demo_started = demo_pools 43104 64656" "ms_by_id (sv_store demo_started) = [(''pt-x'', demo_held)]"
    "ms_holds (sv_store demo_started) = []"
    unfolding eq by (simp_all add: svc_bump_def bump_version_def Let_def store_starting_at_def)
qed

lemma demo_svc_reach: "service_reach demo_ctx demo_started"
proof (rule reach_step[OF reach_start step_create])
  show "create_fits demo_ctx demo_create"
    by (simp add: create_fits_def fits_u32_def demo_create_def demo_svc_headroom footprint_def u32_max_def)
  show "svc_create demo_ctx (\<lambda>s. s) (in_memory demo_ctx 0) 0 ''x'' (''a'', ''b'', ''c'') ''acme'' None ''f'' demo_create None
      = (fst (svc_create demo_ctx (\<lambda>s. s) (in_memory demo_ctx 0) 0 ''x'' (''a'', ''b'', ''c'') ''acme'' None ''f'' demo_create None), demo_started)"
    by (simp add: demo_started_def)
qed

lemma demo_held_fields:
  "pt_id demo_held = ''pt-x''" "pt_tenant demo_held = ''acme''" "pt_model demo_held = ''m''" "pt_tier demo_held = Standard" "pt_sku demo_held = Regional"
  "pt_state demo_held = Scheduled" "pt_regions demo_held = [\<lparr>rs_region = ''eu'', rs_cus = 2\<rparr>, \<lparr>rs_region = ''us'', rs_cus = 3\<rparr>]"
  "pt_effective_regions demo_held = []" "pt_failover_headroom demo_held = []" "pt_shape demo_held = demo_shape" "pt_version demo_held = 1"
  "pt_placements demo_held = [\<lparr>pl_region = ''eu'', pl_pool = ''m''\<rparr>, \<lparr>pl_region = ''us'', pl_pool = ''m''\<rparr>]"
  "pt_term_start demo_held = 1000" "pt_pending_changes demo_held = None"
  by (simp_all add: demo_held_def record_placements_def new_reservation_def Let_def demo_create_def demo_svc_headroom sort_key_def)

lemma demo_shares: "held_shares demo_held = [\<lparr>rs_region = ''eu'', rs_cus = 2\<rparr>, \<lparr>rs_region = ''us'', rs_cus = 3\<rparr>]"
  "pooled demo_ctx demo_held = [\<lparr>ps_region = ''eu'', ps_pool = ''m'', ps_cus = 2\<rparr>, \<lparr>ps_region = ''us'', ps_pool = ''m'', ps_cus = 3\<rparr>]"
  by (simp_all add: held_shares_def pt_effective_def demo_held_fields footprint_def pooled_def on_pools_def pool_of_def List.map_filter_simps)

text \<open>A change of the split to one region, with room for longer contexts or not.\<close>

definition demo_shift :: "shape option \<Rightarrow> update_request" where
  "demo_shift sh = update_request_default\<lparr>up_regions := Some [\<lparr>rs_region = ''eu'', rs_cus = 4\<rparr>], up_shape := sh\<rparr>"

lemma demo_replace:
  assumes "context_ceiling sh \<le> 8192"
  shows "replace_regions demo_ctx sh [\<lparr>rs_region = ''eu'', rs_cus = 4\<rparr>] (start_work demo_started demo_held) =
     (Inr (), \<lparr>wk_pt = (record_placements [\<lparr>ps_region = ''eu'', ps_pool = ''m'', ps_cus = 4\<rparr>] demo_held)
         \<lparr>pt_regions := [\<lparr>rs_region = ''eu'', rs_cus = 4\<rparr>], pt_effective_regions := [], pt_failover_headroom := []\<rparr>,
       wk_planner = demo_pools 86208 0,
       wk_ops = [Released Standard (pooled demo_ctx demo_held), Reserved Standard [\<lparr>ps_region = ''eu'', ps_pool = ''m'', ps_cus = 4\<rparr>]]\<rparr>)"
proof -
  have rel: "planner_release (demo_pools 43104 64656) Standard (pooled demo_ctx demo_held) = demo_pools 0 0"
    by (simp add: demo_shares planner_release_def release_share_def costs_share_def demo_plan_eval)
  have res: "plan_reserve (demo_pools 0 0) ''m'' Standard (claims_for demo_ctx demo_held [\<lparr>rs_region = ''eu'', rs_cus = 4\<rparr>]) sh 1000
      = (Inr [\<lparr>ps_region = ''eu'', ps_pool = ''m'', ps_cus = 4\<rparr>], demo_pools 86208 0)"
    using assms by (simp add: claims_for_def demo_shares pool_of_def demo_held_fields demo_plan_eval)
  show ?thesis
    using rel res by (simp add: replace_regions_def Let_def start_work_def work_release_def work_reserve_def demo_started_eq demo_held_fields
        demo_svc_headroom footprint_def)
qed

abbreviation "longer_contexts \<equiv> demo_shape\<lparr>context_ceiling := 8192\<rparr>"

lemma demo_apply:
  assumes "shopt = None \<or> shopt = Some longer_contexts"
  obtains pt where "apply_update demo_ctx (sv_store demo_started) 0 (demo_shift shopt) (start_work demo_started demo_held) =
     (Inr (), \<lparr>wk_pt = pt, wk_planner = demo_pools 86208 0,
       wk_ops = [Released Standard (pooled demo_ctx demo_held), Reserved Standard [\<lparr>ps_region = ''eu'', ps_pool = ''m'', ps_cus = 4\<rparr>]]\<rparr>)"
    "pt_model pt = ''m''" "pt_shape pt = (case shopt of None \<Rightarrow> demo_shape | Some s \<Rightarrow> s)" "pt_regions pt \<noteq> pt_regions demo_held"
proof -
  let ?sh = "case shopt of None \<Rightarrow> demo_shape | Some s \<Rightarrow> s"
  have sel: "up_name (demo_shift shopt) = None" "up_tier (demo_shift shopt) = None" "up_boundary_policy (demo_shift shopt) = None"
    "up_auto_renew (demo_shift shopt) = None" "up_rebalance (demo_shift shopt) = None" "up_shape (demo_shift shopt) = shopt"
    "up_regions (demo_shift shopt) = Some [\<lparr>rs_region = ''eu'', rs_cus = 4\<rparr>]"
    by (simp_all add: demo_shift_def update_request_default_def)
  have w: "wk_pt (start_work demo_started demo_held) = demo_held" by (simp add: start_work_def)
  have open': "sales_open (sv_store demo_started) 0 m rs = Inr ()" for m rs
    by (simp add: sales_open_def holds_def demo_started_eq)
  let ?pt = "(record_placements [\<lparr>ps_region = ''eu'', ps_pool = ''m'', ps_cus = 4\<rparr>] demo_held)
         \<lparr>pt_regions := [\<lparr>rs_region = ''eu'', rs_cus = 4\<rparr>], pt_effective_regions := [], pt_failover_headroom := []\<rparr>"
  have "context_ceiling ?sh \<le> 8192" using assms by (auto simp: demo_shape_def)
  note rep = demo_replace[OF this]
  have check: "check_shape (demo_pools 86208 0) ''m'' (claims_for demo_ctx ?pt (held_shares ?pt)) longer_contexts = Inr ()"
    by (simp add: held_shares_def pt_effective_def footprint_def claims_for_def pool_of_def record_placements_def demo_held_fields
        demo_plan_eval sort_key_def)
  let ?fin = "refresh_totals demo_ctx (if shopt = None then ?pt else push_event 0 EvShapeUpdated (?pt\<lparr>pt_shape := ?sh\<rparr>))"
  let ?ops = "[Released Standard (pooled demo_ctx demo_held), Reserved Standard [\<lparr>ps_region = ''eu'', ps_pool = ''m'', ps_cus = 4\<rparr>]]"
  let ?w = "\<lparr>wk_pt = ?pt, wk_planner = demo_pools 86208 0, wk_ops = ?ops\<rparr>"
  have w': "(start_work demo_started demo_held)\<lparr>wk_pt := demo_held\<rparr> = start_work demo_started demo_held" by (simp add: start_work_def)
  have longer: "longer_contexts \<noteq> demo_shape" by (simp add: demo_shape_def)
  have ptsel: "pt_shape ?pt = demo_shape" "pt_model ?pt = ''m''" by (simp_all add: record_placements_def demo_held_fields)
  have regions: "upd_regions demo_ctx (sv_store demo_started) 0 True ?sh (demo_shift shopt) (start_work demo_started demo_held) = (Inr None, ?w)"
    unfolding upd_regions_def sel option.case Let_def open' sum.case if_True rep w by (simp add: demo_held_fields and_then_def)
  have shape: "upd_shape demo_ctx 0 (demo_shift shopt) ?w
      = (Inr (), ?w\<lparr>wk_pt := if shopt = None then ?pt else push_event 0 EvShapeUpdated (?pt\<lparr>pt_shape := ?sh\<rparr>)\<rparr>)"
    using assms
  proof
    assume s: "shopt = None"
    show ?thesis unfolding upd_shape_def sel unfolding s option.case by simp
  next
    assume s: "shopt = Some longer_contexts"
    show ?thesis unfolding upd_shape_def sel unfolding s option.case Let_def work.select_convs ptsel check using longer by simp
  qed
  have "apply_update demo_ctx (sv_store demo_started) 0 (demo_shift shopt) (start_work demo_started demo_held) =
     (Inr (), \<lparr>wk_pt = ?fin, wk_planner = demo_pools 86208 0, wk_ops = ?ops\<rparr>)"
    unfolding apply_update_def Let_def w upd_name_def upd_boundary_policy_def upd_auto_renew_def upd_rebalance_def upd_tier_def
      sel option.case w' and_then_def prod.case sum.case demo_held_fields
    by (simp only: regions shape prod.case sum.case upd_schedule_def simp_thms if_True work.select_convs work.update_convs)
  then show thesis
    by (rule that) (use assms in \<open>auto simp: refresh_totals_def Let_def push_event_def record_placements_def demo_held_fields\<close>)
qed

lemma demo_checks:
  assumes "shopt = None \<or> shopt = Some longer_contexts"
  shows "update_checks demo_ctx st tenant None (demo_shift shopt) demo_held = Inr ()"
proof -
  have "validate_regions (cx_config demo_ctx) ''m'' Regional [\<lparr>rs_region = ''eu'', rs_cus = 4\<rparr>] = Inr ()"
    by (simp add: demo_ctx_def demo_service_config_def validate_regions_def MAX_REGIONS_def demo_regions_for)
  then show ?thesis
    using assms demo_validate(2) demo_shapes(2)
    by (auto simp: update_checks_def check_version_def check_then_def option_check_def demo_shift_def update_request_default_def
        demo_held_fields is_live_def)
qed

text \<open>The write of the example's update fails.\<close>

lemma demo_failed_write:
  assumes "shopt = None \<or> shopt = Some longer_contexts"
  shows "svc_update demo_ctx demo_started 0 ''acme'' ''pt-x'' None (demo_shift shopt) (Some (VersionConflict ''pt-x'')) =
     (Inl (Conflict ''concurrent_modification''),
      demo_started\<lparr>sv_planner := undo demo_ctx ''m'' (case shopt of None \<Rightarrow> demo_shape | Some s \<Rightarrow> s)
        [Released Standard (pooled demo_ctx demo_held), Reserved Standard [\<lparr>ps_region = ''eu'', ps_pool = ''m'', ps_cus = 4\<rparr>]]
        (demo_pools 86208 0)\<rparr>)"
proof -
  from demo_apply[OF assms] obtain pt where
    a: "apply_update demo_ctx (sv_store demo_started) 0 (demo_shift shopt) (start_work demo_started demo_held) =
     (Inr (), \<lparr>wk_pt = pt, wk_planner = demo_pools 86208 0,
       wk_ops = [Released Standard (pooled demo_ctx demo_held), Reserved Standard [\<lparr>ps_region = ''eu'', ps_pool = ''m'', ps_cus = 4\<rparr>]]\<rparr>)"
    "pt_model pt = ''m''" "pt_shape pt = (case shopt of None \<Rightarrow> demo_shape | Some s \<Rightarrow> s)" "pt \<noteq> demo_held" by metis
  have "store_get (sv_store demo_started) ''acme'' ''pt-x'' = Some demo_held"
    by (simp add: store_get_def demo_started_eq demo_held_fields)
  then show ?thesis
    using a(4) touched_tidy(8,9)[where pt = pt and now = 0]
    by (simp add: svc_update_def demo_checks[OF assms] a(1-3) Let_def store_write_def)
qed

section \<open>Claims\<close>

text \<open>
  C1. Capacity accounts agree. In every state the service reaches by creating, updating, moving
  and deleting reservations and by lifecycle passes, with requests whose shares fit 32 bits, the
  planner's counter of each pool is exactly what the live reservations hold there, and stays
  within what the pool will ever have. Writes may fail on the way, with one exception: an update
  that asks for longer contexts than the reservation has is a step only if it succeeds, because its
  rollback can lose capacity. Rebalancing passes are not steps, because one that is refused capacity
  leaves it booked.
\<close>

theorem capacity_accounts_agree:
  assumes "config_ok ctx" and "service_reach ctx sv"
  shows "planner_reserved (sv_planner sv) key = (\<Sum>pt\<leftarrow>list_live (sv_store sv). hold_cost ctx (sv_planner sv) pt key)
    \<and> planner_reserved (sv_planner sv) key \<le> planner_room (planner_start ctx) key (cx_timestamp_max ctx)"
proof -
  note acc = reach_accounted[OF assms(2,1)]
  have "planner_room (sv_planner sv) = planner_room (planner_start ctx)"
    using same_plan_view(2)[OF accountedD(5)[OF acc]] by auto
  then have "planner_reserved (sv_planner sv) key \<le> planner_room (planner_start ctx) key (cx_timestamp_max ctx)"
    using accountedD(1)[OF acc] by (simp add: plan_good_def within_final_def)
  then show ?thesis using accountedD(6)[OF acc, of key] unfolding mem_store.live_sum_def by blast
qed

text \<open>One live reservation of 2 CUs in \<open>eu\<close> and 3 in \<open>us\<close>.\<close>

theorem capacity_accounts_agree_witness:
  "planner_reserved (sv_planner demo_started) (''eu'', ''m'')
     = (\<Sum>pt\<leftarrow>list_live (sv_store demo_started). hold_cost demo_ctx (sv_planner demo_started) pt (''eu'', ''m''))
   \<and> planner_reserved (sv_planner demo_started) (''eu'', ''m'') = 43104"
  using capacity_accounts_agree[OF demo_config_ok demo_svc_reach, of "(''eu'', ''m'')"]
  by (simp add: demo_started_eq planner_reserved_def reserved_in_def pool_key_of_def demo_pools_def)

text \<open>
  C8. A failed request changes nothing, unless it is an update to longer contexts: whether validation,
  capacity or the write to the store refuses a create, a delete, a move, or an update that asks for
  no longer contexts than the reservation has, every planner call it made is taken back, and the
  store, the counters and the version are exactly what they were. The state is one the service
  reaches without rebalancing passes and without failed updates to longer contexts, and the shares
  of a create or an update fit 32 bits.
\<close>

theorem failed_request_changes_nothing:
  assumes "config_ok ctx" and "service_reach ctx sv"
  shows "(create_fits ctx cr \<longrightarrow> svc_create ctx sha256_hex sv now suffix ids tenant idem fingerprint cr fault = (Inl e, sv') \<longrightarrow> sv' = sv)
    \<and> (store_get (sv_store sv) tenant pid = Some a \<longrightarrow> update_fits ctx a req \<longrightarrow> update_narrows a req
        \<longrightarrow> svc_update ctx sv now tenant pid if_match req fault = (Inl e, sv') \<longrightarrow> sv' = sv)
    \<and> (svc_delete ctx sv now tenant pid if_match fault = (Inl e, sv') \<longrightarrow> sv' = sv)
    \<and> (svc_move_to_pool ctx sv now pid region pool fault = (Inl e, sv') \<longrightarrow> sv' = sv)"
proof -
  note acc = reach_accounted[OF assms(2,1)]
  show ?thesis
    using svc_create_result(2)[OF acc, of cr sha256_hex now suffix ids tenant idem fingerprint fault "Inl e" sv' e]
      svc_update_result(2)[OF acc, of tenant pid a req now if_match fault "Inl e" sv' e]
      svc_delete_result(2)[OF acc, of now tenant pid if_match fault "Inl e" sv' e]
      svc_move_to_pool_result(2)[OF acc, of now pid region pool fault "Inl e" sv' e]
    by blast
qed

theorem failed_request_changes_nothing_witness:
  "snd (svc_update demo_ctx demo_started 0 ''acme'' ''pt-x'' None (demo_shift None) (Some (VersionConflict ''pt-x''))) = demo_started
   \<and> fst (svc_update demo_ctx demo_started 0 ''acme'' ''pt-x'' None (demo_shift None) (Some (VersionConflict ''pt-x'')))
     = Inl (Conflict ''concurrent_modification'')"
proof -
  have g: "store_get (sv_store demo_started) ''acme'' ''pt-x'' = Some demo_held"
    by (simp add: store_get_def demo_started_eq demo_held_fields)
  have f: "update_fits demo_ctx demo_held (demo_shift None)" "update_narrows demo_held (demo_shift None)"
    by (simp_all add: update_fits_def fits_u32_def demo_held_fields demo_svc_headroom footprint_def demo_shift_def update_request_default_def
        u32_max_def update_narrows_def requested_shape_def)
  show ?thesis
    using failed_request_changes_nothing[OF demo_config_ok demo_svc_reach] g f demo_failed_write[of None]
    by (metis fst_conv snd_conv)
qed

text \<open>
  C9. The lifecycle pass ends and catches up: with a calendar on which adding months leads
  forward, the loop over the terms that ran out returns for every reservation, however many
  terms were missed, and afterwards every live reservation whose write succeeded has started if
  its start has come and is in a term that has not run out.
\<close>

theorem lifecycle_ends_and_catches_up:
  assumes "config_ok ctx" and "service_reach ctx sv" and "forward_calendar ctx now"
  shows "\<exists>sv' rep. svc_lifecycle ctx now fault sv = Some (sv', rep)
    \<and> (\<forall>pt\<in>set (list_live (sv_store sv')). fault (pt_id pt) = None \<longrightarrow> caught_up now pt)"
  using svc_lifecycle_result[OF reach_accounted[OF assms(2,1)] assms(3)] by blast

theorem lifecycle_ends_and_catches_up_witness:
  "\<exists>sv' rep. svc_lifecycle demo_ctx 9000000000000000 (\<lambda>_. None) demo_started = Some (sv', rep)
    \<and> list_all (caught_up 9000000000000000) (list_live (sv_store sv'))"
  using lifecycle_ends_and_catches_up[OF demo_config_ok demo_svc_reach demo_calendar, of 9000000000000000 "\<lambda>_. None"]
  by (simp add: list_all_iff)

lemma held_cost_live: "held_cost mp (map (holding ctx) pts) key = (\<Sum>pt\<leftarrow>pts. hold_cost ctx mp pt key)"
  by (simp add: held_cost_def hold_cost_def holding_def comp_def)

lemma restore_same_plan:
  assumes "planner_ok mp"
  shows "same_plan (planner_restore mp live) mp"
  using restore_pools(1)[of "mp_pools mp" "expected_micro (mp_costs mp) live"] expected_micro_wanted[of mp live] assms
  by (simp add: same_plan_def planner_restore_def planner_ok_def)

lemma reserved_pools: "key \<notin> pool_key_of ` set (mp_pools mp) \<Longrightarrow> planner_reserved mp key = 0"
  by (auto simp: planner_reserved_def reserved_in_def filter_empty_conv)

text \<open>
  C10. A restart rebuilds the planner. For a service in a state it reaches with requests within 32
  bits, without rebalancing passes and without updates to longer contexts that fail, a service
  started over the stored reservations, which reserves for each what it holds, has the planner the
  running service had, and reconciling the running service against its reservations finds no drift
  and changes nothing.
\<close>

theorem restart_rebuilds_planner:
  assumes "config_ok ctx" and "service_reach ctx sv"
  shows "sv_planner (with_store ctx now (sv_store sv)) = sv_planner sv
    \<and> svc_reconcile ctx (costs_from_config (sc_plan (cx_config ctx))) sv = (Inr [], sv)"
proof -
  note acc = reach_accounted[OF assms(2,1)]
  note a = accountedD[OF acc]
  let ?p = "planner_start ctx" and ?live = "map (holding ctx) (list_live (sv_store sv))"
  have ok: "planner_ok ?p" and zero: "planner_reserved ?p key = 0" for key
    using assms(1) planner_new_ok by (simp_all add: config_ok_def planner_start_def Let_def)
  have costs: "mp_costs (sv_planner sv) = mp_costs ?p" "mp_costs ?p = costs_from_config (sc_plan (cx_config ctx))" "mp_pending (sv_planner sv) = Map.empty"
    "pools_fixed (mp_pools (sv_planner sv)) = pools_fixed (mp_pools ?p)"
    using a(5) by (simp_all add: same_plan_def planner_start_def Let_def memory_planner_new_def)
  have sum: "planner_reserved (sv_planner sv) key = held_cost (sv_planner sv) ?live key" for key
    using a(6)[of key] by (simp add: held_cost_live mem_store.live_sum_def)
  have hc: "held_cost (sv_planner sv) ?live = held_cost ?p ?live"
    by (intro ext) (simp add: held_cost_live hold_cost_same_plan[OF a(5)])
  have keys: "pool_key_of ` set (mp_pools (sv_planner sv)) = pool_key_of ` set (mp_pools ?p)"
    using pools_fixed_keys[OF costs(4)] by (metis list.set_map)
  have "planner_restore ?p ?live = sv_planner sv"
  proof (rule planner_eqI)
    show "same_plan (planner_restore ?p ?live) (sv_planner sv)"
      by (rule same_plan_trans[OF restore_same_plan[OF ok] same_plan_sym[OF a(5)]])
    then show "planner_ok (planner_restore ?p ?live)" using same_plan_view(3) a(4) by blast
    show "planner_reserved (planner_restore ?p ?live) key = planner_reserved (sv_planner sv) key" for key
      using reserved_pools[of key "sv_planner sv"] sum[of key] hc keys
      by (simp add: planner_restore_reserved[OF ok] zero)
  qed
  then have restart: "sv_planner (with_store ctx now (sv_store sv)) = sv_planner sv"
    by (simp add: with_store_def init_version_def svc_restore_def svc_new_def Let_def bump_version_def)
  have d: "pools_distinct (mp_pools (sv_planner sv))" using a(4) by (simp add: planner_ok_def)
  let ?e = "expected_micro (costs_from_config (sc_plan (cx_config ctx))) ?live"
  have clean: "\<not> drifted ?e p" if p: "p \<in> set (mp_pools (sv_planner sv))" for p
    using reserved_in_member(1)[OF d p] sum[of "pool_key_of p"] expected_micro_wanted[of "sv_planner sv" ?live "pool_key_of p"] costs(1,2)
    by (simp add: drifted_def planner_reserved_def)
  then have "map (reconciled ?e (mp_pending (sv_planner sv))) (mp_pools (sv_planner sv)) = mp_pools (sv_planner sv)"
    by (intro map_idI) (simp add: reconciled_def corrected_def)
  moreover have "(\<lambda>key. case find (\<lambda>p. pool_key_of p = key) (mp_pools (sv_planner sv)) of
      None \<Rightarrow> mp_pending (sv_planner sv) key | Some p \<Rightarrow> pending_after ?e (mp_pending (sv_planner sv)) p) = Map.empty"
  proof
    fix key
    show "(case find (\<lambda>p. pool_key_of p = key) (mp_pools (sv_planner sv)) of
      None \<Rightarrow> mp_pending (sv_planner sv) key | Some p \<Rightarrow> pending_after ?e (mp_pending (sv_planner sv)) p) = None"
      using clean costs(3) by (auto simp: pending_after_def dest: find_SomeD split: option.split)
  qed
  ultimately have "planner_reconcile (sv_planner sv) ?e = (Inr [], sv_planner sv)"
    using clean costs(3) by (simp add: planner_reconcile_spec[OF a(4)] filter_empty_conv)
  then show ?thesis using restart by (simp add: svc_reconcile_def Let_def)
qed

theorem restart_rebuilds_planner_witness:
  "sv_planner (with_store demo_ctx 5 (sv_store demo_started)) = demo_pools 43104 64656
   \<and> fst (svc_reconcile demo_ctx (costs_from_config (sc_plan (cx_config demo_ctx))) demo_started) = Inr []"
  using restart_rebuilds_planner[OF demo_config_ok demo_svc_reach, of 5] by (simp add: demo_started_eq)

text \<open>
  C23. A rollback can lose capacity. There are a valid configuration, a state the service reaches and
  an update to longer contexts whose write to the store fails such that the request is refused and
  the stored reservations stay as they were, while the planner's counter of a pool on which they hold
  capacity drops to zero. The rollback reserves what was given back with the new shape, and the pool,
  which the reservation leaves because it does not serve the new contexts, refuses it; the planner
  would sell that capacity again.
\<close>

theorem rollback_loses_capacity:
  "\<exists>ctx sv tenant pid a req fault key sv'. config_ok ctx \<and> service_reach ctx sv
     \<and> store_get (sv_store sv) tenant pid = Some a \<and> update_fits ctx a req \<and> \<not> update_narrows a req
     \<and> svc_update ctx sv 0 tenant pid None req (Some fault) = (Inl (Conflict ''concurrent_modification''), sv')
     \<and> list_live (sv_store sv') = list_live (sv_store sv)
     \<and> 0 < (\<Sum>pt\<leftarrow>list_live (sv_store sv'). hold_cost ctx (sv_planner sv) pt key)
     \<and> planner_reserved (sv_planner sv) key = (\<Sum>pt\<leftarrow>list_live (sv_store sv). hold_cost ctx (sv_planner sv) pt key)
     \<and> planner_reserved (sv_planner sv') key = 0"
proof -
  have "planner_release (demo_pools 86208 0) Standard [\<lparr>ps_region = ''eu'', ps_pool = ''m'', ps_cus = 4\<rparr>] = demo_pools 0 0"
    by (simp add: planner_release_def release_share_def costs_share_def demo_plan_eval)
  moreover have "plan_reserve (demo_pools 0 0) ''m'' Standard (as_claims (pooled demo_ctx demo_held)) longer_contexts (cx_timestamp_max demo_ctx)
      = (Inl (ShapeUnsupported ''us'' ''m'' 4096 8192), demo_pools 0 0)"
    by (simp add: as_claims_def demo_shares demo_plan_eval iter_max_def max_by_key_def)
  ultimately have "undo demo_ctx ''m'' longer_contexts
      [Released Standard (pooled demo_ctx demo_held), Reserved Standard [\<lparr>ps_region = ''eu'', ps_pool = ''m'', ps_cus = 4\<rparr>]]
      (demo_pools 86208 0) = demo_pools 0 0"
    by (simp add: undo_def)
  then have failed: "svc_update demo_ctx demo_started 0 ''acme'' ''pt-x'' None (demo_shift (Some longer_contexts)) (Some (VersionConflict ''pt-x''))
      = (Inl (Conflict ''concurrent_modification''), demo_started\<lparr>sv_planner := demo_pools 0 0\<rparr>)"
    using demo_failed_write[of "Some longer_contexts"] by simp
  have g: "store_get (sv_store demo_started) ''acme'' ''pt-x'' = Some demo_held"
    by (simp add: store_get_def demo_started_eq demo_held_fields)
  have f: "update_fits demo_ctx demo_held (demo_shift (Some longer_contexts))" "\<not> update_narrows demo_held (demo_shift (Some longer_contexts))"
    by (simp_all add: update_fits_def fits_u32_def demo_held_fields demo_svc_headroom footprint_def demo_shift_def update_request_default_def
        u32_max_def update_narrows_def requested_shape_def demo_shape_def)
  have pools: "planner_reserved (demo_pools eu us) (''us'', ''m'') = us" for eu us
    by (simp add: planner_reserved_def reserved_in_def pool_key_of_def demo_pools_def)
  have sum: "planner_reserved (sv_planner demo_started) (''us'', ''m'')
      = (\<Sum>pt\<leftarrow>list_live (sv_store demo_started). hold_cost demo_ctx (sv_planner demo_started) pt (''us'', ''m''))"
    using accountedD(6)[OF reach_accounted[OF demo_svc_reach demo_config_ok], of "(''us'', ''m'')"] by (simp add: mem_store.live_sum_def)
  then have "0 < (\<Sum>pt\<leftarrow>list_live (sv_store demo_started). hold_cost demo_ctx (sv_planner demo_started) pt (''us'', ''m''))"
    using pools demo_started_eq(1) by simp
  with sum failed g f pools demo_config_ok demo_svc_reach show ?thesis
    by (intro exI[of _ demo_ctx] exI[of _ demo_started] exI[of _ "''acme''"] exI[of _ "''pt-x''"] exI[of _ demo_held]
        exI[of _ "demo_shift (Some longer_contexts)"] exI[of _ "VersionConflict ''pt-x''"] exI[of _ "(''us'', ''m'')"]
        exI[of _ "demo_started\<lparr>sv_planner := demo_pools 0 0\<rparr>"]) simp
qed

end
