(* ===== verification/Entitlement_Claims.thy ===== *)
theory Entitlement_Claims
  imports Service_Claims
begin

text \<open>
  What the service guarantees about keys, incidents and the snapshots its gateways enforce, in
  every state it reaches: the keys a deployment accepts, the open incidents of a region, when
  the automatic check fails a region over, and that the capacity a snapshot hands out is held
  by the planner even while a region is down.
\<close>

declare split_paired_All [simp del] split_paired_Ex [simp del]

section \<open>Snapshots\<close>

lemma activation_bounds: "0 \<le> activation f t" "activation f t \<le> 1"
  by (auto simp: activation_def split: option.split)

lemma foldl_max_ge: "(m::real) \<le> foldl max m xs"
proof (induction xs arbitrary: m)
  case (Cons y xs)
  show ?case using Cons.IH[of "max m y"] by simp
qed simp

lemma foldl_max_le: "\<forall>x\<in>set xs. x \<le> b \<Longrightarrow> (m::real) \<le> b \<Longrightarrow> foldl max m xs \<le> b"
  by (induction xs arbitrary: m) auto

lemma foldl_max_in: "x \<in> set xs \<Longrightarrow> x \<le> foldl max (m::real) xs"
proof (induction xs arbitrary: m)
  case (Cons y xs)
  have "y \<le> foldl max (max m y) xs" by (rule order_trans[OF _ foldl_max_ge]) simp
  then show ?case using Cons by auto
qed simp

text \<open>Only the shares of failing regions count, and at most in full.\<close>

lemma failover_cus_bound:
  assumes one: "\<forall>f\<in>set fs. rf_region f = failing"
  shows "failover_cus shares fs t \<le> (\<Sum>s\<leftarrow>filter (\<lambda>s. fs_from_region s = failing) shares. real (fs_cus s))"
proof -
  have b: "foldl max 0 (map (\<lambda>f. activation f t) (filter (\<lambda>f. rf_region f = r) fs)) \<le> (if r = failing then 1 else 0)" for r
  proof (cases "r = failing")
    case True
    then show ?thesis using foldl_max_le[of "map (\<lambda>f. activation f t) (filter (\<lambda>f. rf_region f = r) fs)" 1 0] activation_bounds by auto
  next
    case False
    then have none: "filter (\<lambda>f. rf_region f = r) fs = []" using one by (auto simp: filter_empty_conv)
    show ?thesis using False by (simp add: none)
  qed
  have "real (fs_cus s) * foldl max 0 (map (\<lambda>f. activation f t) (filter (\<lambda>f. rf_region f = fs_from_region s) fs))
      \<le> (if fs_from_region s = failing then real (fs_cus s) else 0)" for s
    using mult_left_mono[OF b[of "fs_from_region s"], of "real (fs_cus s)"] by (cases "fs_from_region s = failing") simp_all
  then have "failover_cus shares fs t \<le> (\<Sum>s\<leftarrow>shares. if fs_from_region s = failing then real (fs_cus s) else 0)"
    unfolding failover_cus_def by (rule sum_list_mono)
  then show ?thesis by (simp add: sum_list_map_filter')
qed

lemma distinct_map_filter_key:
  assumes "distinct (map f xs)" and "\<And>x y. g x = Some y \<Longrightarrow> h y = f x"
  shows "distinct (map h (List.map_filter g xs))"
  using assms(1)
proof (induction xs)
  case (Cons x xs)
  have "h y \<notin> h ` set (List.map_filter g xs)" if "g x = Some y" for y
    using Cons.prems assms(2) that by (fastforce simp: set_map_filter)
  then show ?case using Cons by (auto simp: List.map_filter_simps split: option.split)
qed (simp add: List.map_filter_simps)

text \<open>The dormant share a region holds for the failing one is within its headroom.\<close>

lemma failover_shares_bound:
  assumes d: "distinct (map rs_region (pt_effective pt))"
  shows "(\<Sum>s\<leftarrow>filter (\<lambda>s. fs_from_region s = failing) (failover_shares ctx pt region). real (fs_cus s))
    \<le> real (share_of (svc_headroom ctx (pt_sku pt) (pt_effective pt)) region)"
proof (cases "pt_sku pt = MultiRegion")
  case True
  let ?ts = "failover_targets (sc_regions (cx_config ctx)) (pt_effective pt)"
    and ?xs = "filter (\<lambda>s. fs_from_region s = failing) (failover_shares ctx pt region)"
  have fst: "distinct (map fst (filter (\<lambda>(_, to). to = region) ?ts))"
    using failover_targets_fst[OF d, of "sc_regions (cx_config ctx)"] by (simp add: distinct_map_filter)
  have "distinct (map fs_from_region (failover_shares ctx pt region))"
    using True unfolding failover_shares_def by (auto intro!: distinct_map_filter_key[OF fst])
  then have "distinct (map fs_from_region ?xs)" by (simp add: distinct_map_filter)
  moreover have "set (map fs_from_region ?xs) \<subseteq> {failing}" by auto
  ultimately have "length ?xs \<le> 1" using distinct_card[of "map fs_from_region ?xs"] card_mono[of "{failing}" "set (map fs_from_region ?xs)"] by simp
  then consider "?xs = []" | s where "?xs = [s]" by (cases ?xs) auto
  then show ?thesis
  proof cases
    case (2 s)
    then have s: "s \<in> set (failover_shares ctx pt region)" "fs_from_region s = failing" by (auto simp: filter_eq_Cons_iff)
    then obtain r where r: "(failing, region) \<in> set ?ts" "find (\<lambda>r. rs_region r = failing) (pt_effective pt) = Some r" "fs_cus s = rs_cus r"
      using True by (auto simp: failover_shares_def set_map_filter)
    have "rs_cus r = share_of (pt_effective pt) failing" using r(2) by (simp add: share_of_def)
    then show ?thesis using headroom_covers[OF r(1)] r(3) True 2 by (simp add: svc_headroom_def)
  qed simp
qed (simp add: failover_shares_def)

lemma footprint_put_regions:
  "map rs_region (footprint_put h rs) = (if rs_region h \<in> rs_region ` set rs then map rs_region rs else map rs_region rs @ [rs_region h])"
  by (induction rs) auto

lemma footprint_regions: "\<exists>zs. map rs_region (footprint rs hs) = map rs_region rs @ zs"
  unfolding footprint_def
proof (induction hs arbitrary: rs)
  case (Cons h hs)
  obtain zs where "map rs_region (foldl (\<lambda>out h. footprint_put h out) (footprint_put h rs) hs) = map rs_region (footprint_put h rs) @ zs"
    using Cons by blast
  then show ?case by (auto simp: footprint_put_regions split: if_splits)
qed simp

lemma svc_headroom_distinct: "distinct (map rs_region (svc_headroom ctx sk regions))"
  using headroom_share[of "sc_regions (cx_config ctx)" regions] by (cases sk) (auto simp: svc_headroom_def headroom_def)

lemma held_share:
  assumes "headroom_current ctx pt"
  shows "share_of (held_shares pt) region
    = share_of (pt_effective pt) region + share_of (svc_headroom ctx (pt_sku pt) (pt_effective pt)) region"
  using assms svc_headroom_distinct by (simp add: held_shares_def headroom_current_def share_of_footprint)

lemma entry_fields:
  assumes "reservation_entry ctx region pt = Some r"
  obtains share pool where "find (\<lambda>r. rs_region r = region) (pt_effective pt) = Some share" "pool_of ctx pt region = Some pool"
    "re_id r = pt_id pt" "re_cus r = rs_cus share" "re_failover r = failover_shares ctx pt region"
  using assms by (auto simp: reservation_entry_def bind_eq_Some_conv split: option.splits)

lemma snapshot_entry:
  assumes "svc_snapshot ctx ts_string sv now region = (Some sn, sv')" and "r \<in> set (sn_reservations sn)"
  obtains pt where "pt \<in> set (list_live (sv_store sv))" "reservation_entry ctx region pt = Some r"
  using assms by (auto simp: svc_snapshot_def sync_version_def Let_def serving_live_def set_map_filter split: if_splits)

lemma entry_within_held:
  assumes ok: "stored_ok ctx pt" "distinct (map rs_region (held_shares pt))" and r: "reservation_entry ctx region pt = Some r"
    and one: "\<forall>f\<in>set fs. rf_region f = failing"
  shows "real (share_of (pt_effective pt) region) \<le> real (re_cus r) + failover_cus (re_failover r) fs t"
    and "real (re_cus r) + failover_cus (re_failover r) fs t \<le> real (share_of (held_shares pt) region)"
    and "\<exists>pool. \<lparr>ps_region = region, ps_pool = pool, ps_cus = share_of (held_shares pt) region\<rparr> \<in> set (pooled ctx pt)"
proof -
  from r obtain share pool where e: "find (\<lambda>r. rs_region r = region) (pt_effective pt) = Some share" "pool_of ctx pt region = Some pool"
    "re_cus r = rs_cus share" "re_failover r = failover_shares ctx pt region" by (rule entry_fields)
  have hr: "headroom_current ctx pt" using ok(1) by (simp add: stored_ok_def)
  obtain zs where zs: "map rs_region (held_shares pt) = map rs_region (pt_effective pt) @ zs"
    using footprint_regions unfolding held_shares_def by blast
  then have d: "distinct (map rs_region (pt_effective pt))" using ok(2) by simp
  have c: "re_cus r = share_of (pt_effective pt) region" using e(1,3) by (simp add: share_of_def)
  have "0 \<le> failover_cus (re_failover r) fs t"
    unfolding failover_cus_def using foldl_max_ge by (intro sum_list_nonneg) auto
  then show "real (share_of (pt_effective pt) region) \<le> real (re_cus r) + failover_cus (re_failover r) fs t" using c by simp
  show "real (re_cus r) + failover_cus (re_failover r) fs t \<le> real (share_of (held_shares pt) region)"
    using failover_cus_bound[OF one, of "re_failover r" t] failover_shares_bound[OF d, of failing ctx region]
    unfolding held_share[OF hr] c e(4) by simp
  have "region \<in> set (map rs_region (held_shares pt))" using e(1) zs by (auto simp: find_Some_iff)
  then obtain h where h: "h \<in> set (held_shares pt)" "rs_region h = region" by auto
  then have "rs_cus h = share_of (held_shares pt) region" using share_of_in[OF ok(2)] by auto
  then show "\<exists>pool. \<lparr>ps_region = region, ps_pool = pool, ps_cus = share_of (held_shares pt) region\<rparr> \<in> set (pooled ctx pt)"
    using h e(2) by (auto simp: pooled_def on_pools_def set_map_filter intro!: exI[of _ pool] bexI[of _ h])
qed

text \<open>The pool a reservation of a snapshot draws on in its region, and what a CU of it costs there.\<close>

definition pool_at :: "service_ctx \<Rightarrow> service \<Rightarrow> string \<Rightarrow> reservation_entitlement \<Rightarrow> string option" where
  "pool_at ctx sv region r =
     Option.bind (find (\<lambda>pt. pt_id pt = re_id r) (list_live (sv_store sv))) (\<lambda>pt. pool_of ctx pt region)"

definition cu_micro :: "memory_planner \<Rightarrow> string \<Rightarrow> string \<Rightarrow> tier \<Rightarrow> nat" where
  "cu_micro p region pool t = (case per_cu (mp_costs p) region pool t of None \<Rightarrow> 0 | Some c \<Rightarrow> c)"

lemma share_cost_micro:
  assumes "narrow_costs p" and "cus \<le> u32_max"
  shows "share_cost p t region pool cus = cu_micro p region pool t * cus"
proof (cases "per_cu (mp_costs p) region pool t")
  case (Some c)
  then have "c < 4294967296" using assms(1) by (simp add: narrow_costs_def per_cu_def)
  then have "c * cus \<le> 4294967295 * 4294967295" using assms(2) by (intro mult_mono) (simp_all add: u32_max_def)
  then have "c * cus < 18446744073709551616" by simp
  then show ?thesis using Some by (simp add: share_cost_def planner_cost_def costs_share_def cu_micro_def u64_mul_exact)
qed (simp add: share_cost_def planner_cost_def costs_share_def cu_micro_def)

lemma live_distinct: "store_ok st \<Longrightarrow> distinct (map pt_id (list_live st))"
proof -
  assume ok: "store_ok st"
  then have "map (pt_id \<circ> snd) (ms_by_id st) = map fst (ms_by_id st)" by (auto simp: store_ok_def)
  moreover have "distinct (map fst (ms_by_id st))" using ok by (simp add: store_ok_def)
  ultimately have "distinct (map pt_id (map snd (ms_by_id st)))" by (metis map_map)
  then show ?thesis unfolding list_live_def by (rule distinct_map_filter)
qed

lemma pool_at_entry:
  assumes "store_ok (sv_store sv)" and "pt \<in> set (list_live (sv_store sv))" and "reservation_entry ctx region pt = Some r"
  shows "pool_at ctx sv region r = pool_of ctx pt region" and "re_tier r = pt_tier pt"
proof -
  have r: "re_id r = pt_id pt" using assms(3) by (rule entry_fields) simp
  have "find (\<lambda>pt. pt_id pt = re_id r) (list_live (sv_store sv)) \<noteq> None" using assms(2) r by (auto simp: find_None_iff)
  then obtain x where x: "find (\<lambda>pt. pt_id pt = re_id r) (list_live (sv_store sv)) = Some x" by blast
  then have "x = pt" using find_SomeD[OF x] assms(2) r live_distinct[OF assms(1)] by (auto simp: distinct_map inj_on_def)
  then show "pool_at ctx sv region r = pool_of ctx pt region" by (simp add: pool_at_def x)
  show "re_tier r = pt_tier pt" using assms(3) by (auto simp: reservation_entry_def split: option.splits)
qed

lemma sum_entries_le:
  fixes f :: "'b \<Rightarrow> real" and h :: "'a \<Rightarrow> real"
  assumes "\<And>x. x \<in> set xs \<Longrightarrow> 0 \<le> h x" and "\<And>x y. x \<in> set xs \<Longrightarrow> g x = Some y \<Longrightarrow> P y \<Longrightarrow> f y \<le> h x"
  shows "(\<Sum>y\<leftarrow>filter P (map snd (List.map_filter (\<lambda>x. map_option (Pair x) (g x)) xs)). f y) \<le> (\<Sum>x\<leftarrow>xs. h x)"
  using assms
proof (induction xs)
  case (Cons x xs)
  have IH: "(\<Sum>y\<leftarrow>filter P (map snd (List.map_filter (\<lambda>x. map_option (Pair x) (g x)) xs)). f y) \<le> (\<Sum>x\<leftarrow>xs. h x)"
    using Cons.prems by (intro Cons.IH) auto
  show ?case
  proof (cases "g x")
    case None
    then show ?thesis using IH Cons.prems(1)[of x] by (simp add: List.map_filter_simps)
  next
    case (Some y)
    then show ?thesis using IH Cons.prems(1)[of x] Cons.prems(2)[of x y] by (cases "P y") (simp_all add: List.map_filter_simps)
  qed
qed (simp add: List.map_filter_simps)

lemma real_sum_list: "(\<Sum>x\<leftarrow>xs. real (h x)) = real (\<Sum>x\<leftarrow>xs. h x)"
  by (induction xs) simp_all

lemma sum_serving_le:
  fixes h :: "provisioned_throughput \<Rightarrow> nat"
  shows "(\<Sum>pt\<leftarrow>serving_live sv. h pt) \<le> (\<Sum>pt\<leftarrow>list_live (sv_store sv). h pt)"
proof -
  have "mset (map h (serving_live sv)) = mset (map h (filter (\<lambda>pt. pt_state pt = Active \<or> pt_state pt = PendingCancellation) (list_live (sv_store sv))))"
    by (simp add: serving_live_def)
  then have "(\<Sum>pt\<leftarrow>serving_live sv. h pt)
      = (\<Sum>pt\<leftarrow>filter (\<lambda>pt. pt_state pt = Active \<or> pt_state pt = PendingCancellation) (list_live (sv_store sv)). h pt)"
    by (metis sum_mset_sum_list)
  then show ?thesis by (simp add: sum_list_filter_le_nat)
qed

lemma live_reservation:
  assumes "config_ok ctx" and "service_reach ctx sv" and "pt \<in> set (list_live (sv_store sv))"
  shows "stored_ok ctx pt" "distinct (map rs_region (held_shares pt))" "seated ctx (sv_planner sv) (context_ceiling (pt_shape pt)) pt"
    "\<forall>s\<in>set (held_shares pt). rs_cus s \<le> u32_max"
  using reach_accounted[OF assms(2,1)] assms(3) reach_keyed[OF assms(2)] keyed_live
  by (auto simp: accounted_def reservation_ok_def shares_ok_def)

text \<open>An entitlement, at the cost of a CU, is within what the reservation holds on its pool.\<close>

lemma entry_cost_le:
  assumes "config_ok ctx" and "service_reach ctx sv" and pt: "pt \<in> set (list_live (sv_store sv))" "reservation_entry ctx region pt = Some x"
    and "pool_at ctx sv region x = Some q" and "\<forall>f\<in>set (sn_failovers sn). rf_region f = failing"
  shows "real (cu_micro (sv_planner sv) region q (re_tier x)) * effective_cus sn x t \<le> real (hold_cost ctx (sv_planner sv) pt (region, q))"
proof -
  note a = accountedD[OF reach_accounted[OF assms(2,1)]] and live = live_reservation[OF assms(1,2) pt(1)]
  have "share_of (held_shares pt) region \<le> u32_max"
    using live(4) by (auto simp: share_of_def split: option.split dest: find_SomeD)
  then have "hold_cost ctx (sv_planner sv) pt (region, q) = cu_micro (sv_planner sv) region q (pt_tier pt) * share_of (held_shares pt) region"
    using assms(5) pool_at_entry[OF a(3) pt] share_cost_micro[OF a(2)] by (simp add: hold_cost_at[OF live(2)] hold_at_def)
  moreover have "effective_cus sn x t \<le> real (share_of (held_shares pt) region)"
    using entry_within_held(2)[OF live(1,2) pt(2) assms(6)] by (simp add: effective_cus_def)
  ultimately show ?thesis using pool_at_entry(2)[OF a(3) pt] by (simp add: mult_left_mono)
qed

text \<open>
  C24. What the gateways of a region are told to serve is booked by the planner. In every state the
  service reaches with requests within 32 bits, without rebalancing passes and without updates to
  longer contexts that fail, each reservation in the snapshot of a region is a live one whose
  entitlement there is at least its share in effect; and while at most one region is failing, the
  entitlement with the failed region's share, at any moment of the failover or its return, is within
  what the reservation holds on a pool of that region, and the entitlements of all reservations of
  the snapshot on a pool, each at the planner's cost of a CU, are together within what the planner's
  counter of that pool has booked.
\<close>

theorem snapshot_within_reserved:
  assumes "config_ok ctx" and "service_reach ctx sv"
    and "svc_snapshot ctx ts_string sv now region = (Some sn, sv')" and "r \<in> set (sn_reservations sn)"
    and "\<forall>f\<in>set (sn_failovers sn). rf_region f = failing"
  shows "(\<exists>pt pool cus. pt \<in> set (list_live (sv_store sv)) \<and> pt_id pt = re_id r
      \<and> \<lparr>ps_region = region, ps_pool = pool, ps_cus = cus\<rparr> \<in> set (pooled ctx pt)
      \<and> pool_at ctx sv region r = Some pool \<and> per_cu (mp_costs (sv_planner sv)) region pool (re_tier r) \<noteq> None
      \<and> real (share_of (pt_effective pt) region) \<le> effective_cus sn r t \<and> effective_cus sn r t \<le> real cus)
    \<and> (\<Sum>x\<leftarrow>filter (\<lambda>x. pool_at ctx sv region x = Some q) (sn_reservations sn).
          real (cu_micro (sv_planner sv) region q (re_tier x)) * effective_cus sn x t)
      \<le> real (planner_reserved (sv_planner sv) (region, q))"
proof -
  note a = accountedD[OF reach_accounted[OF assms(2,1)]]
  from snapshot_entry[OF assms(3,4)] obtain pt where pt: "pt \<in> set (list_live (sv_store sv))" "reservation_entry ctx region pt = Some r" .
  note live = live_reservation[OF assms(1,2) pt(1)]
  note e = entry_within_held[OF live(1,2) pt(2) assms(5)]
  from e(3) obtain pool where pool: "\<lparr>ps_region = region, ps_pool = pool, ps_cus = share_of (held_shares pt) region\<rparr> \<in> set (pooled ctx pt)" by blast
  then have at: "region \<in> rs_region ` set (held_shares pt)" "pool_of ctx pt region = Some pool"
    by (auto simp: pooled_def on_pools_def set_map_filter)
  have "pt_id pt = re_id r" using pt(2) by (rule entry_fields) simp
  moreover have "per_cu (mp_costs (sv_planner sv)) region pool (pt_tier pt) \<noteq> None"
    using live(3) at by (fastforce simp: seated_def seat_def)
  ultimately have one: "\<exists>pt pool cus. pt \<in> set (list_live (sv_store sv)) \<and> pt_id pt = re_id r
      \<and> \<lparr>ps_region = region, ps_pool = pool, ps_cus = cus\<rparr> \<in> set (pooled ctx pt)
      \<and> pool_at ctx sv region r = Some pool \<and> per_cu (mp_costs (sv_planner sv)) region pool (re_tier r) \<noteq> None
      \<and> real (share_of (pt_effective pt) region) \<le> effective_cus sn r t \<and> effective_cus sn r t \<le> real cus"
    using pt(1) pool at pool_at_entry[OF a(3) pt] e(1,2)[of t] unfolding effective_cus_def
    by (intro exI[of _ pt] exI[of _ pool] exI[of _ "share_of (held_shares pt) region"]) simp
  let ?h = "\<lambda>pt. hold_cost ctx (sv_planner sv) pt (region, q)"
  have sn: "sn_reservations sn = map snd (List.map_filter (\<lambda>pt. map_option (Pair pt) (reservation_entry ctx region pt)) (serving_live sv))"
    using assms(3) by (auto simp: svc_snapshot_def sync_version_def Let_def serving_live_def split: if_splits)
  have "(\<Sum>x\<leftarrow>filter (\<lambda>x. pool_at ctx sv region x = Some q) (sn_reservations sn).
      real (cu_micro (sv_planner sv) region q (re_tier x)) * effective_cus sn x t) \<le> (\<Sum>pt\<leftarrow>serving_live sv. real (?h pt))"
    unfolding sn by (rule sum_entries_le) (use entry_cost_le[OF assms(1,2) _ _ _ assms(5)] in \<open>auto simp: serving_live_def\<close>)
  also have "\<dots> = real (\<Sum>pt\<leftarrow>serving_live sv. ?h pt)" by (rule real_sum_list)
  also have "\<dots> \<le> real (\<Sum>pt\<leftarrow>list_live (sv_store sv). ?h pt)" using sum_serving_le by (simp only: of_nat_le_iff)
  also have "\<dots> = real (planner_reserved (sv_planner sv) (region, q))" using a(6)[of "(region, q)"] by (simp add: mem_store.live_sum_def)
  finally show ?thesis using one by blast
qed

text \<open>A Multi-region reservation of 2 CUs in \<open>eu\<close> and 3 in \<open>us\<close>, each region backing the other.\<close>

definition demo_multi :: create_request where
  "demo_multi = demo_create\<lparr>cr_sku := MultiRegion, cr_start_at := None\<rparr>"

definition demo_multi_started :: service where
  "demo_multi_started = snd (svc_create demo_ctx (\<lambda>s. s) (in_memory demo_ctx 0) 0 ''x'' (''a'', ''b'', ''c'') ''acme'' None ''f'' demo_multi None)"

lemma demo_multi_headroom:
  "svc_headroom demo_ctx MultiRegion [\<lparr>rs_region = ''eu'', rs_cus = 2\<rparr>, \<lparr>rs_region = ''us'', rs_cus = 3\<rparr>]
     = [\<lparr>rs_region = ''eu'', rs_cus = 3\<rparr>, \<lparr>rs_region = ''us'', rs_cus = 2\<rparr>]"
  by (simp add: svc_headroom_def headroom_def demo_ctx_def demo_service_config_def failover_targets_def failover_target_def
      config_region_def max_by_def smaller_share_def List.map_filter_def share_of_def)

lemma demo_multi_checks: "create_checks demo_ctx (store_starting_at v) 0 ''acme'' demo_multi = Inr 0"
proof -
  have "validate_regions (cx_config demo_ctx) ''m'' MultiRegion [\<lparr>rs_region = ''eu'', rs_cus = 2\<rparr>, \<lparr>rs_region = ''us'', rs_cus = 3\<rparr>] = Inr ()"
    by (simp add: demo_ctx_def demo_service_config_def validate_regions_def MAX_REGIONS_def demo_regions_for residency_zone_def config_region_def)
  then have "validate_create (cx_config demo_ctx) demo_multi = Inr ()"
    using demo_validate demo_shapes by (simp add: validate_create_def demo_multi_def demo_create_def validate_tier_def check_then_def)
  then show ?thesis
    by (simp add: create_checks_def demo_multi_def demo_create_def sales_open_def holds_def store_starting_at_def create_start_def
        ensure_name_free_def store_list_def)
qed

definition demo_multi_held :: provisioned_throughput where
  "demo_multi_held = record_placements [\<lparr>ps_region = ''eu'', ps_pool = ''m'', ps_cus = 5\<rparr>, \<lparr>ps_region = ''us'', ps_pool = ''m'', ps_cus = 5\<rparr>]
     (new_reservation demo_ctx 0 ''x'' ''acme'' (snd (issue_key (\<lambda>s. s) (''a'', ''b'', ''c'') 0)) 0 demo_multi)"

lemma demo_multi_reserved:
  "plan_reserve (planner_start demo_ctx) ''m'' Standard
     (unplaced [\<lparr>rs_region = ''eu'', rs_cus = 5\<rparr>, \<lparr>rs_region = ''us'', rs_cus = 5\<rparr>]) demo_shape 0
   = (Inr [\<lparr>ps_region = ''eu'', ps_pool = ''m'', ps_cus = 5\<rparr>, \<lparr>ps_region = ''us'', ps_pool = ''m'', ps_cus = 5\<rparr>], demo_pools 107760 107760)"
  by (simp add: demo_planner_start unplaced_def demo_plan_eval demo_shape_def)

lemma demo_multi_store: "ms_by_id (sv_store demo_multi_started) = [(''pt-x'', demo_multi_held)]" "svc_incidents demo_multi_started = []"
proof -
  have id: "pt_id demo_multi_held = ''pt-x''" by (simp add: demo_multi_held_def new_reservation_def Let_def record_placements_def)
  have f: "footprint (cr_regions demo_multi) (svc_headroom demo_ctx (cr_sku demo_multi) (cr_regions demo_multi))
      = [\<lparr>rs_region = ''eu'', rs_cus = 5\<rparr>, \<lparr>rs_region = ''us'', rs_cus = 5\<rparr>]"
    by (simp add: demo_multi_def demo_create_def demo_multi_headroom footprint_def)
  have sel: "cr_model demo_multi = ''m''" "cr_tier demo_multi = Standard" "cr_shape demo_multi = demo_shape"
    by (simp_all add: demo_multi_def demo_create_def)
  have eq: "demo_multi_started = svc_bump 0 ((in_memory demo_ctx 0)\<lparr>
      sv_store := (store_starting_at (start_ms 0))\<lparr>ms_by_id := [(''pt-x'', demo_multi_held)]\<rparr>, sv_planner := demo_pools 107760 107760\<rparr>)"
    unfolding demo_multi_started_def svc_create_def in_memory_def svc_new_def
    by (simp add: create_replay_def demo_multi_checks f sel demo_multi_reserved Let_def case_prod_unfold demo_multi_held_def[symmetric] id store_insert_def)
      (simp add: store_starting_at_def)
  show "ms_by_id (sv_store demo_multi_started) = [(''pt-x'', demo_multi_held)]" "svc_incidents demo_multi_started = []"
    unfolding eq by (simp_all add: svc_bump_def bump_version_def Let_def store_starting_at_def svc_incidents_def)
qed

lemma demo_multi_reach: "service_reach demo_ctx demo_multi_started"
proof (rule reach_step[OF reach_start step_create])
  show "create_fits demo_ctx demo_multi"
    by (simp add: create_fits_def fits_u32_def demo_multi_def demo_create_def demo_multi_headroom footprint_def u32_max_def)
  show "svc_create demo_ctx (\<lambda>s. s) (in_memory demo_ctx 0) 0 ''x'' (''a'', ''b'', ''c'') ''acme'' None ''f'' demo_multi None
      = (fst (svc_create demo_ctx (\<lambda>s. s) (in_memory demo_ctx 0) 0 ''x'' (''a'', ''b'', ''c'') ''acme'' None ''f'' demo_multi None), demo_multi_started)"
    by (simp add: demo_multi_started_def)
qed

text \<open>An operator declares \<open>eu\<close> down; \<open>us\<close> then serves the whole reservation.\<close>

definition demo_down :: service where
  "demo_down = snd (svc_declare_incident demo_ctx demo_multi_started 1000000 ''y''
     \<lparr>di_region = ''eu'', di_started_at = None, di_description = ''power''\<rparr> None)"

lemma demo_down_reach: "service_reach demo_ctx demo_down"
  by (rule reach_step[OF demo_multi_reach step_declare]) (simp add: demo_down_def prod_eq_iff)

lemma demo_down_parts:
  "ms_by_id (sv_store demo_down) = [(''pt-x'', demo_multi_held)]"
  "svc_incidents demo_down = [\<lparr>ri_id = ''inc-y'', ri_region = ''eu'', ri_started_at = 1000000, ri_ended_at = None,
     ri_description = ''power'', ri_declared_at = 1000000, ri_source = Operator\<rparr>]"
proof -
  have eq: "demo_down = svc_bump 1000000 (demo_multi_started\<lparr>sv_store := (sv_store demo_multi_started)\<lparr>ms_incidents :=
     [\<lparr>ri_id = ''inc-y'', ri_region = ''eu'', ri_started_at = 1000000, ri_ended_at = None,
     ri_description = ''power'', ri_declared_at = 1000000, ri_source = Operator\<rparr>]\<rparr>\<rparr>)"
    using demo_multi_store(2)
    by (simp add: demo_down_def svc_declare_incident_def open_incident_def insert_incident_def Let_def svc_incidents_def
        demo_ctx_def demo_service_config_def trim_def is_space_def from_mins_def)
  show "ms_by_id (sv_store demo_down) = [(''pt-x'', demo_multi_held)]"
    "svc_incidents demo_down = [\<lparr>ri_id = ''inc-y'', ri_region = ''eu'', ri_started_at = 1000000, ri_ended_at = None,
     ri_description = ''power'', ri_declared_at = 1000000, ri_source = Operator\<rparr>]"
    unfolding eq using demo_multi_store(1) by (simp_all add: svc_bump_def bump_version_def Let_def svc_incidents_def)
qed

lemma demo_multi_fields:
  "pt_id demo_multi_held = ''pt-x''" "pt_tenant demo_multi_held = ''acme''" "pt_model demo_multi_held = ''m''" "pt_tier demo_multi_held = Standard"
  "pt_sku demo_multi_held = MultiRegion" "pt_state demo_multi_held = Active" "pt_shape demo_multi_held = demo_shape"
  "pt_effective demo_multi_held = [\<lparr>rs_region = ''eu'', rs_cus = 2\<rparr>, \<lparr>rs_region = ''us'', rs_cus = 3\<rparr>]"
  "pt_placements demo_multi_held = [\<lparr>pl_region = ''eu'', pl_pool = ''m''\<rparr>, \<lparr>pl_region = ''us'', pl_pool = ''m''\<rparr>]"
  by (simp_all add: demo_multi_held_def record_placements_def new_reservation_def Let_def demo_multi_def demo_create_def
      pt_effective_def sort_key_def)

definition demo_entry :: reservation_entitlement where
  "demo_entry = \<lparr>re_id = ''pt-x'', re_tenant = ''acme'', re_model = ''m'', re_cus = 3, re_tier = Standard, re_profile = ''test'',
     re_shape = demo_shape, re_failover = [\<lparr>fs_from_region = ''eu'', fs_cus = 2\<rparr>]\<rparr>"

lemma demo_reservation_entry: "reservation_entry demo_ctx ''us'' demo_multi_held = Some demo_entry"
  by (simp add: reservation_entry_def demo_multi_fields pool_of_def config_pool_def demo_ctx_def demo_service_config_def two_pools_def
      failover_shares_def failover_targets_def failover_target_def config_region_def max_by_def smaller_share_def
      List.map_filter_def pool_id_def demo_entry_def)

definition demo_snapshot :: snapshot where
  "demo_snapshot = the (fst (svc_snapshot demo_ctx (\<lambda>_. ''now'') demo_down 2000000 ''us''))"

lemma demo_snapshot_parts:
  "svc_snapshot demo_ctx (\<lambda>_. ''now'') demo_down 2000000 ''us'' = (Some demo_snapshot, snd (sync_version demo_down))"
  "sn_reservations demo_snapshot = [demo_entry]"
  "sn_failovers demo_snapshot = [\<lparr>rf_region = ''eu'', rf_incident = ''inc-y'', rf_started_at_ms = 1, rf_ended_at_ms = None, rf_return_ramp_ms = 600000\<rparr>]"
proof -
  have live: "serving_live sv = [demo_multi_held]" if "ms_by_id (sv_store sv) = [(''pt-x'', demo_multi_held)]" for sv
    using that by (simp add: serving_live_def list_live_def is_live_def demo_multi_fields)
  have store: "sv_store (snd (sync_version demo_down)) = sv_store demo_down" by (simp add: sync_version_def Let_def)
  have l: "serving_live (snd (sync_version demo_down)) = [demo_multi_held]" using live[of "snd (sync_version demo_down)"] demo_down_parts(1) store by simp
  have i: "svc_incidents (snd (sync_version demo_down)) = svc_incidents demo_down" using store by (simp add: svc_incidents_def)
  have r: "list_ex (\<lambda>r. rc_name r = ''us'') (sc_regions (cx_config demo_ctx))" "return_ramp demo_ctx = 600000000000"
    by (simp_all add: demo_ctx_def demo_service_config_def return_ramp_def from_mins_def)
  note unf = svc_snapshot_def Let_def case_prod_unfold l List.map_filter_simps demo_reservation_entry
  show "svc_snapshot demo_ctx (\<lambda>_. ''now'') demo_down 2000000 ''us'' = (Some demo_snapshot, snd (sync_version demo_down))"
    "sn_reservations demo_snapshot = [demo_entry]"
    "sn_failovers demo_snapshot = [\<lparr>rf_region = ''eu'', rf_incident = ''inc-y'', rf_started_at_ms = 1, rf_ended_at_ms = None, rf_return_ramp_ms = 600000\<rparr>]"
    using r by (simp_all add: demo_snapshot_def unf svc_failovers_def i demo_down_parts(2) failover_in_force_def ms_of_def)
qed

theorem snapshot_within_reserved_witness:
  "effective_cus demo_snapshot demo_entry 5 = 5
   \<and> (\<exists>pt pool cus. pt \<in> set (list_live (sv_store demo_down)) \<and> pt_id pt = ''pt-x''
        \<and> \<lparr>ps_region = ''us'', ps_pool = pool, ps_cus = cus\<rparr> \<in> set (pooled demo_ctx pt) \<and> 5 \<le> real cus
        \<and> real (cu_micro (sv_planner demo_down) ''us'' pool Standard) * 5 \<le> real (planner_reserved (sv_planner demo_down) (''us'', pool)))"
proof -
  have e: "effective_cus demo_snapshot demo_entry 5 = 5"
    by (simp add: effective_cus_def failover_cus_def demo_snapshot_parts activation_def demo_entry_def)
  have "demo_entry \<in> set (sn_reservations demo_snapshot)" "\<forall>f\<in>set (sn_failovers demo_snapshot). rf_region f = ''eu''"
    by (simp_all add: demo_snapshot_parts)
  note s = snapshot_within_reserved[OF demo_config_ok demo_down_reach demo_snapshot_parts(1) this]
  obtain pt pool cus where pt: "pt \<in> set (list_live (sv_store demo_down))" "pt_id pt = re_id demo_entry"
    "\<lparr>ps_region = ''us'', ps_pool = pool, ps_cus = cus\<rparr> \<in> set (pooled demo_ctx pt)"
    "pool_at demo_ctx demo_down ''us'' demo_entry = Some pool" "effective_cus demo_snapshot demo_entry 5 \<le> real cus"
    using conjunct1[OF s[of 5]] by blast
  have id: "re_id demo_entry = ''pt-x''" "re_tier demo_entry = Standard" by (simp_all add: demo_entry_def)
  have "real (cu_micro (sv_planner demo_down) ''us'' pool Standard) * 5 \<le> real (planner_reserved (sv_planner demo_down) (''us'', pool))"
    using conjunct2[OF s[of 5 pool]] by (simp add: demo_snapshot_parts(2) pt(4) e id(2))
  then show ?thesis using e pt id(1) by (intro conjI exI[of _ pt] exI[of _ pool] exI[of _ cus]) simp_all
qed

section \<open>Keys\<close>

lemma current_key_exists: "deployment_ok d \<Longrightarrow> \<exists>k. current_key d = Some k"
proof -
  assume "deployment_ok d"
  then have "filter is_current (dp_api_keys d) \<noteq> []" by (auto simp: deployment_ok_def)
  then show ?thesis using find_None_iff[of is_current "dp_api_keys d"] by (auto simp: current_key_def filter_empty_conv)
qed

lemma map_filter_total: "\<forall>x\<in>set xs. \<exists>y. f x = Some y \<Longrightarrow> length (List.map_filter f xs) = length xs"
  by (induction xs) (auto simp: List.map_filter_simps)

text \<open>
  C25. Keys. In every state the service reaches, a reservation has between one and ten deployments with
  distinct ids and names, and each deployment has exactly one current key, at most two
  rotated-out ones, distinct key ids and a share within (0, 1]. So no deployment is missing
  from the snapshots, and at most three keys of a deployment are accepted.
\<close>

theorem one_current_key:
  assumes "service_reach ctx sv" and "store_get (sv_store sv) tenant pid = Some pt"
  shows "1 \<le> length (pt_deployments pt) \<and> length (pt_deployments pt) \<le> MAX_DEPLOYMENTS
    \<and> distinct (map dp_id (pt_deployments pt)) \<and> distinct (map dp_name (pt_deployments pt))
    \<and> list_all (\<lambda>d. length (filter is_current (dp_api_keys d)) = 1 \<and> length (dp_api_keys d) \<le> 1 + MAX_PREVIOUS_KEYS
         \<and> distinct (map ak_id (dp_api_keys d))
         \<and> (case dp_max_share d of None \<Rightarrow> True | Some s \<Rightarrow> 0 < s \<and> s \<le> 1)) (pt_deployments pt)
    \<and> length (deployment_entitlements now pt) = length (pt_deployments pt)"
proof -
  have ok: "keys_ok pt" using reach_keyed[OF assms(1)] keyed_entry store_get_entry[OF assms(2)] by (auto simp: stored_ok_def)
  then have "\<forall>d\<in>set (pt_deployments pt). \<exists>k. current_key d = Some k" using current_key_exists by (auto simp: keys_ok_def list_all_iff)
  then have "length (deployment_entitlements now pt) = length (pt_deployments pt)"
    unfolding deployment_entitlements_def by (intro map_filter_total) auto
  then show ?thesis using ok unfolding keys_ok_def by (simp add: list_all_iff deployment_ok_def)
qed

text \<open>After a rotation the old key and the new one are both accepted.\<close>

definition demo_rotated :: service where
  "demo_rotated = snd (the (rotate_key (\<lambda>s. s) demo_multi_started 1000000 (''p'', ''q'', ''r'') ''acme'' ''pt-x'' None None
     \<lparr>rk_grace_minutes = Some 5\<rparr> None))"

lemma demo_multi_keys:
  "pt_deployments demo_multi_held = [\<lparr>dp_id = ''dep-'', dp_name = ''default'', dp_max_share = None,
     dp_api_keys = [\<lparr>ak_id = ''key-c'', ak_prefix = ''ptk_ab'', ak_sha256 = ''ptk_ab'', ak_created_at = 0, ak_expires_at = None\<rparr>],
     dp_created_at = 0\<rparr>]"
  "pt_version demo_multi_held = 1"
  by (simp_all add: demo_multi_held_def record_placements_def new_reservation_def Let_def issue_key_def)

lemma demo_multi_get: "store_get (sv_store demo_multi_started) ''acme'' ''pt-x'' = Some demo_multi_held"
  by (simp add: store_get_def demo_multi_store demo_multi_fields)

definition demo_two_keys :: "api_key list" where
  "demo_two_keys =
     [\<lparr>ak_id = ''key-c'', ak_prefix = ''ptk_ab'', ak_sha256 = ''ptk_ab'', ak_created_at = 0, ak_expires_at = Some 300001000000\<rparr>,
      \<lparr>ak_id = ''key-r'', ak_prefix = ''ptk_pq'', ak_sha256 = ''ptk_pq'', ak_created_at = 1000000, ak_expires_at = None\<rparr>]"

definition demo_rotated_held :: provisioned_throughput where
  "demo_rotated_held = touched 1000000 (tidy_placements (push_event 1000000 (EvKeyRotated ''dep-'' ''key-r'' ''key-c'' (Some 300001000000))
     (demo_multi_held\<lparr>pt_deployments := [\<lparr>dp_id = ''dep-'', dp_name = ''default'', dp_max_share = None,
        dp_api_keys = demo_two_keys, dp_created_at = 0\<rparr>]\<rparr>)))"

lemma demo_rotate:
  "\<exists>r. rotate_key (\<lambda>s. s) demo_multi_started 1000000 (''p'', ''q'', ''r'') ''acme'' ''pt-x'' None None
     \<lparr>rk_grace_minutes = Some 5\<rparr> None = Some (r, demo_rotated)"
  "store_get (sv_store demo_rotated) ''acme'' ''pt-x'' = Some demo_rotated_held"
proof -
  note e = load_live_def svc_get_def demo_multi_get check_version_def check_then_def demo_multi_fields is_live_def
    deployment_index_def demo_multi_keys prune_expired_keys_def key_live_def issue_key_def rotate_deployment_def rotate_keys_def
    current_key_def is_current_def newest_first_def MAX_PREVIOUS_KEYS_def MAX_KEY_GRACE_MINUTES_def from_mins_def Let_def
  have ids: "pt_id demo_rotated_held = ''pt-x''" "pt_tenant demo_rotated_held = ''acme''"
    by (simp_all add: demo_rotated_held_def touched_def tidy_placements_def push_event_def demo_multi_fields)
  have upd: "store_update (sv_store demo_multi_started) demo_rotated_held 1
      = Inr ((sv_store demo_multi_started)\<lparr>ms_by_id := [(''pt-x'', demo_rotated_held)]\<rparr>)"
    by (simp add: store_update_def ids demo_multi_store demo_multi_keys)
  have eq: "rotate_key (\<lambda>s. s) demo_multi_started 1000000 (''p'', ''q'', ''r'') ''acme'' ''pt-x'' None None
     \<lparr>rk_grace_minutes = Some 5\<rparr> None = Some (Inr (demo_rotated_held, ''ptk_pq''),
       svc_bump 1000000 (demo_multi_started\<lparr>sv_store := (sv_store demo_multi_started)\<lparr>ms_by_id := [(''pt-x'', demo_rotated_held)]\<rparr>\<rparr>))"
    by (simp add: rotate_key_def e sort_key_def svc_persist_def store_write_def demo_two_keys_def[symmetric] demo_rotated_held_def[symmetric] upd[simplified])
  then show "\<exists>r. rotate_key (\<lambda>s. s) demo_multi_started 1000000 (''p'', ''q'', ''r'') ''acme'' ''pt-x'' None None
     \<lparr>rk_grace_minutes = Some 5\<rparr> None = Some (r, demo_rotated)" by (simp add: demo_rotated_def)
  show "store_get (sv_store demo_rotated) ''acme'' ''pt-x'' = Some demo_rotated_held"
    by (simp add: demo_rotated_def eq svc_bump_def bump_version_def Let_def store_get_def ids)
qed

lemma demo_rotated_reach: "service_reach demo_ctx demo_rotated"
proof -
  from demo_rotate(1) obtain r where "rotate_key (\<lambda>s. s) demo_multi_started 1000000 (''p'', ''q'', ''r'') ''acme'' ''pt-x'' None None
     \<lparr>rk_grace_minutes = Some 5\<rparr> None = Some (r, demo_rotated)" ..
  then show ?thesis
    by (rule reach_step[OF demo_multi_reach step_rotate_key[rotated]]) (simp add: key_id_fresh_def demo_multi_get demo_multi_keys)
qed

lemma demo_rotated_deployments: "pt_deployments demo_rotated_held = [\<lparr>dp_id = ''dep-'', dp_name = ''default'', dp_max_share = None,
    dp_api_keys = demo_two_keys, dp_created_at = 0\<rparr>]"
  by (simp add: demo_rotated_held_def touched_def tidy_placements_def push_event_def)

theorem one_current_key_witness:
  "length (deployment_entitlements 2000000 demo_rotated_held) = 1
   \<and> list_all (\<lambda>d. length (filter is_current (dp_api_keys d)) = 1) (pt_deployments demo_rotated_held)
   \<and> map (\<lambda>d. length (dp_api_keys d)) (pt_deployments demo_rotated_held) = [2]"
proof (intro conjI)
  note k = one_current_key[OF demo_rotated_reach demo_rotate(2), of 2000000]
  show "length (deployment_entitlements 2000000 demo_rotated_held) = 1" using k by (simp add: demo_rotated_deployments)
  show "list_all (\<lambda>d. length (filter is_current (dp_api_keys d)) = 1) (pt_deployments demo_rotated_held)"
    using k by (simp add: list_all_iff)
  show "map (\<lambda>d. length (dp_api_keys d)) (pt_deployments demo_rotated_held) = [2]"
    by (simp add: demo_rotated_deployments demo_two_keys_def)
qed

section \<open>Incidents and automatic failover\<close>

text \<open>
  Incidents. In every state the service reaches, incident ids are distinct, a region has at most
  one open incident, and an incident that has ended did so no earlier than it started.
\<close>

theorem one_open_incident_per_region:
  assumes "service_reach ctx sv" and "i \<in> set (svc_incidents sv)"
  shows "(\<forall>j\<in>set (svc_incidents sv). ri_region j = ri_region i \<longrightarrow> ri_ended_at i = None \<longrightarrow> ri_ended_at j = None \<longrightarrow> j = i)
    \<and> (\<forall>j\<in>set (svc_incidents sv). ri_id j = ri_id i \<longrightarrow> j = i)
    \<and> (case ri_ended_at i of None \<Rightarrow> True | Some e \<Rightarrow> ri_started_at i \<le> e)"
proof -
  have ok: "incidents_ok (svc_incidents sv)" using reach_keyed[OF assms(1)] by blast
  then have "inj_on ri_region (set (filter is_open (svc_incidents sv)))" "inj_on ri_id (set (svc_incidents sv))"
    by (simp_all add: incidents_ok_def distinct_map)
  then show ?thesis using assms(2) ok by (auto simp: inj_on_def is_open_def incidents_ok_def list_all_iff)
qed

theorem one_open_incident_per_region_witness:
  "ri_region (hd (svc_incidents demo_down)) = ''eu'' \<and> ri_ended_at (hd (svc_incidents demo_down)) = None
   \<and> filter (\<lambda>j. ri_region j = ''eu'' \<and> ri_ended_at j = None) (svc_incidents demo_down) = [hd (svc_incidents demo_down)]"
  using one_open_incident_per_region[OF demo_down_reach, of "hd (svc_incidents demo_down)"] by (simp add: demo_down_parts(2))

text \<open>What one turn of the check declares.\<close>

lemma failover_turn_declares:
  assumes "failover_turn ctx now uid fault describe statuses incidents (rep, sv) s = (rep', sv')"
  shows "fr_declared rep' = fr_declared rep
    \<or> (\<exists>iid. fr_declared rep' = fr_declared rep @ [(iid, st_region s)] \<and> st_health s = Down
         \<and> find (\<lambda>i. ri_region i = st_region s \<and> ri_ended_at i = None) incidents = None
         \<and> flowing (heartbeat_timeout ctx) now statuses (st_region s))"
proof -
  have "ri_region i = region" if "open_incident sv now u region t d src f = (Inr i, sv1)" for u region t d src f i sv1
    using that by (auto simp: open_incident_def Let_def split: if_splits sum.splits)
  then show ?thesis using assms
    by (auto simp: failover_turn_def Let_def split: health.splits option.splits prod.splits sum.splits if_splits)
qed

lemma failover_fold_declares:
  assumes "foldl (failover_turn ctx now uid fault describe statuses incidents) (rep, sv) ss = (rep', sv')"
    and "(iid, region) \<in> set (fr_declared rep')" and "(iid, region) \<notin> set (fr_declared rep)"
  shows "\<exists>s\<in>set ss. st_region s = region \<and> st_health s = Down
    \<and> find (\<lambda>i. ri_region i = region \<and> ri_ended_at i = None) incidents = None
    \<and> flowing (heartbeat_timeout ctx) now statuses region"
  using assms
proof (induction ss arbitrary: rep sv)
  case (Cons s ss)
  obtain rep1 sv1 where t: "failover_turn ctx now uid fault describe statuses incidents (rep, sv) s = (rep1, sv1)" by fastforce
  show ?case
  proof (cases "(iid, region) \<in> set (fr_declared rep1)")
    case True
    then show ?thesis using failover_turn_declares[OF t] Cons.prems(3) by auto
  next
    case False
    then show ?thesis using Cons.IH[of rep1 sv1] Cons.prems t by auto
  qed
qed simp

lemma status_Down:
  assumes "st_health (region_status_of region gws now timeout) = Down"
  shows "\<exists>g\<in>set gws. gh_region g = region"
    and "g \<in> set gws \<Longrightarrow> gh_region g = region \<Longrightarrow> gh_last_serving_at g = Some t \<Longrightarrow> timeout < now - t"
  using assms by (auto simp: region_status_of_def Let_def filter_empty_conv split: if_splits option.splits)

lemma status_serving_since:
  assumes "st_serving_since (region_status_of region gws now timeout) = Some t"
  shows "\<exists>g\<in>set gws. gh_region g = region \<and> gh_serving_since g = Some t \<and> (\<exists>l. gh_last_serving_at g = Some l \<and> now - l \<le> timeout)"
  using min_by_key_SomeD(1)[OF assms[unfolded region_status_of_def Let_def, simplified]]
  by (auto simp: set_map_filter split: option.splits)

text \<open>
  C26. Automatic failover needs proof. The check declares a region down only if gateways of that region
  are known and none reported serving within the heartbeat timeout, no incident is open there,
  and a gateway of another region is serving now and has served without a break for at least
  the timeout: an outage of the control plane itself, after which every region looks stale, fails
  no region over.
\<close>

theorem automatic_failover_needs_proof:
  assumes "run_failover ctx sv now uid fault describe = (rep, sv')" and "(iid, region) \<in> set (fr_declared rep)"
  shows "(\<exists>g\<in>set (gateway_heartbeats (sv_store sv)). gh_region g = region)
    \<and> (\<forall>g\<in>set (gateway_heartbeats (sv_store sv)). gh_region g = region \<longrightarrow>
         (case gh_last_serving_at g of None \<Rightarrow> True | Some t \<Rightarrow> heartbeat_timeout ctx < now - t))
    \<and> (\<forall>i\<in>set (svc_incidents sv). ri_region i = region \<longrightarrow> ri_ended_at i \<noteq> None)
    \<and> (\<exists>g\<in>set (gateway_heartbeats (sv_store sv)). gh_region g \<noteq> region
         \<and> (\<exists>l t. gh_last_serving_at g = Some l \<and> now - l \<le> heartbeat_timeout ctx
               \<and> gh_serving_since g = Some t \<and> heartbeat_timeout ctx \<le> now - t))"
proof -
  let ?gws = "gateway_heartbeats (sv_store sv)"
  have "foldl (failover_turn ctx now uid fault describe (region_statuses ctx sv now) (svc_incidents sv))
      (\<lparr>fr_declared = [], fr_resolved = []\<rparr>, sv) (region_statuses ctx sv now) = (rep, sv')"
    using assms by (auto simp: run_failover_def Let_def split: if_splits)
  from failover_fold_declares[OF this assms(2)]
  obtain s where s: "s \<in> set (region_statuses ctx sv now)" "st_region s = region" "st_health s = Down"
    and free: "find (\<lambda>i. ri_region i = region \<and> ri_ended_at i = None) (svc_incidents sv) = None"
    and flow: "flowing (heartbeat_timeout ctx) now (region_statuses ctx sv now) region" by auto
  from s(1) obtain c :: region_config where c: "s = region_status_of (rc_name c) ?gws now (heartbeat_timeout ctx)" by (auto simp: region_statuses_def)
  then have name: "rc_name c = region" using s(2) by (simp add: region_status_of_def Let_def)
  note down = status_Down[OF s(3)[unfolded c name]]
  from flow obtain o' t where o': "o' \<in> set (region_statuses ctx sv now)" "st_region o' \<noteq> region" "st_serving_since o' = Some t"
    "heartbeat_timeout ctx \<le> now - t" by (auto simp: flowing_def list_ex_iff split: option.splits)
  from o'(1) obtain c' :: region_config where c': "o' = region_status_of (rc_name c') ?gws now (heartbeat_timeout ctx)" by (auto simp: region_statuses_def)
  then have name': "rc_name c' \<noteq> region" using o'(2) by (simp add: region_status_of_def Let_def)
  from status_serving_since[OF o'(3)[unfolded c']] obtain g l where g: "g \<in> set ?gws" "gh_region g = rc_name c'"
    "gh_serving_since g = Some t" "gh_last_serving_at g = Some l" "now - l \<le> heartbeat_timeout ctx" by blast
  have "\<exists>g\<in>set ?gws. gh_region g \<noteq> region \<and> (\<exists>l t. gh_last_serving_at g = Some l \<and> now - l \<le> heartbeat_timeout ctx
      \<and> gh_serving_since g = Some t \<and> heartbeat_timeout ctx \<le> now - t)"
    by (rule bexI[OF _ g(1)]) (use g o'(4) name' in simp)
  moreover have "\<forall>i\<in>set (svc_incidents sv). ri_region i = region \<longrightarrow> ri_ended_at i \<noteq> None" using free by (auto simp: find_None_iff)
  ultimately show ?thesis using down by (auto split: option.split)
qed

text \<open>The gateway in \<open>eu\<close> falls silent while the one in \<open>us\<close> keeps reporting.\<close>

definition auto_ctx :: service_ctx where
  "auto_ctx = demo_ctx\<lparr>cx_config := demo_service_config\<lparr>sc_failover := (sc_failover demo_service_config)\<lparr>fc_auto_declare := True\<rparr>\<rparr>\<rparr>"

definition auto_beat :: "string \<Rightarrow> int \<Rightarrow> service \<Rightarrow> service" where
  "auto_beat region s sv = svc_heartbeat auto_ctx sv (s * 1000000000) region
     \<lparr>hb_gateway_id = ''g'', hb_serving = True, hb_snapshot_version = 1, hb_key_id = None\<rparr>"

definition auto_service :: service where
  "auto_service = auto_beat ''us'' 100 (auto_beat ''us'' 50 (auto_beat ''us'' 0 (auto_beat ''eu'' 0 (in_memory auto_ctx 0))))"

lemma auto_service_parts:
  "gateway_heartbeats (sv_store auto_service) =
     [\<lparr>gh_region = ''eu'', gh_gateway_id = ''g'', gh_last_seen = 0, gh_serving = True, gh_key_id = None,
       gh_last_serving_at = Some 0, gh_serving_since = Some 0\<rparr>,
      \<lparr>gh_region = ''us'', gh_gateway_id = ''g'', gh_last_seen = 100000000000, gh_serving = True, gh_key_id = None,
       gh_last_serving_at = Some 100000000000, gh_serving_since = Some 0\<rparr>]"
  "svc_incidents auto_service = []" "heartbeat_timeout auto_ctx = 60000000000"
proof -
  show t: "heartbeat_timeout auto_ctx = 60000000000"
    by (simp add: heartbeat_timeout_def auto_ctx_def demo_service_config_def)
  show "gateway_heartbeats (sv_store auto_service) =
     [\<lparr>gh_region = ''eu'', gh_gateway_id = ''g'', gh_last_seen = 0, gh_serving = True, gh_key_id = None,
       gh_last_serving_at = Some 0, gh_serving_since = Some 0\<rparr>,
      \<lparr>gh_region = ''us'', gh_gateway_id = ''g'', gh_last_seen = 100000000000, gh_serving = True, gh_key_id = None,
       gh_last_serving_at = Some 100000000000, gh_serving_since = Some 0\<rparr>]" "svc_incidents auto_service = []"
    by (simp_all add: auto_service_def auto_beat_def svc_heartbeat_def record_heartbeat_def next_heartbeat_def t Let_def
        in_memory_def svc_new_def store_starting_at_def gateway_heartbeats_def svc_incidents_def)
qed

lemma auto_declared:
  "fr_declared (fst (run_failover auto_ctx auto_service 100000000000 (\<lambda>_. ''z'') (\<lambda>_. None) (\<lambda>_. ''down''))) = [(''inc-z'', ''eu'')]"
proof -
  have regions: "sc_regions (cx_config auto_ctx) = [\<lparr>rc_name = ''eu'', rc_pair = None, rc_residency = None\<rparr>, \<lparr>rc_name = ''us'', rc_pair = None, rc_residency = None\<rparr>]"
    "fc_auto_declare (sc_failover (cx_config auto_ctx))"
    by (simp_all add: auto_ctx_def demo_service_config_def)
  have none: "ms_incidents (sv_store auto_service) = []" using auto_service_parts(2) by (simp add: svc_incidents_def)
  show ?thesis
    by (simp add: run_failover_def Let_def region_statuses_def regions auto_service_parts region_status_of_def failover_turn_def flowing_def
        List.map_filter_simps min_by_key_def max_by_key_def open_incident_def insert_incident_def none count_key_def)
qed

theorem automatic_failover_needs_proof_witness:
  "(\<exists>g\<in>set (gateway_heartbeats (sv_store auto_service)). gh_region g \<noteq> ''eu'' \<and> gh_serving_since g = Some 0)
   \<and> fr_declared (fst (run_failover auto_ctx auto_service 100000000000 (\<lambda>_. ''z'') (\<lambda>_. None) (\<lambda>_. ''down''))) = [(''inc-z'', ''eu'')]"
proof
  show "fr_declared (fst (run_failover auto_ctx auto_service 100000000000 (\<lambda>_. ''z'') (\<lambda>_. None) (\<lambda>_. ''down''))) = [(''inc-z'', ''eu'')]"
    by (rule auto_declared)
  show "\<exists>g\<in>set (gateway_heartbeats (sv_store auto_service)). gh_region g \<noteq> ''eu'' \<and> gh_serving_since g = Some 0"
    using automatic_failover_needs_proof[OF prod.collapse[symmetric], of "''inc-z''" "''eu''" auto_ctx auto_service 100000000000
        "\<lambda>_. ''z''" "\<lambda>_. None" "\<lambda>_. ''down''"] auto_declared
    by (auto simp: auto_service_parts)
qed

end
