(* ===== verification/Sla.thy ===== *)
theory Sla
  imports Telemetry
begin

text \<open>
  The SLA evaluation of \<open>sla.rs\<close> is exact: percentiles are nearest ranks, the evaluated
  windows partition the eligible requests, every record is accounted for in the report, and
  the credit is bounded.
\<close>

section \<open>Nearest-rank percentiles\<close>

lemma length_filter_le_index:
  assumes "\<And>i. k \<le> i \<Longrightarrow> i < length xs \<Longrightarrow> \<not> p (xs ! i)"
  shows "length (filter p xs) \<le> k"
proof -
  have "{i. i < length xs \<and> p (xs ! i)} \<subseteq> {..<k}" using assms by (auto simp: not_less[symmetric])
  then have "card {i. i < length xs \<and> p (xs ! i)} \<le> card {..<k}" by (intro card_mono) auto
  then show ?thesis by (simp add: length_filter_conv_card)
qed

lemma length_filter_ge_index:
  assumes "\<And>i. i < k \<Longrightarrow> p (xs ! i)" "k \<le> length xs"
  shows "k \<le> length (filter p xs)"
proof -
  have "{..<k} \<subseteq> {i. i < length xs \<and> p (xs ! i)}" using assms by auto
  then have "card {..<k} \<le> card {i. i < length xs \<and> p (xs ! i)}" by (intro card_mono) auto
  then show ?thesis by (simp add: length_filter_conv_card)
qed

lemma percentile_nth:
  assumes "vs \<noteq> []" "0 < q" "q \<le> 1"
  obtains k where "percentile vs q = Some (vs ! k)" "k < length vs"
    "q * real (length vs) \<le> real (Suc k)" "real k < q * real (length vs)"
proof -
  let ?n = "real (length vs)"
  define rank where "rank = nat \<lceil>q * ?n\<rceil>"
  have n: "0 < ?n" using assms(1) by simp
  have "0 < q * ?n" using assms(2) n by simp
  then have pos: "0 < \<lceil>q * ?n\<rceil>" by simp
  have "q * ?n \<le> 1 * ?n" using assms(3) by (intro mult_right_mono) auto
  then have "\<lceil>q * ?n\<rceil> \<le> int (length vs)" by (simp add: ceiling_le_iff)
  then have r: "1 \<le> rank" "rank \<le> length vs" unfolding rank_def using pos by linarith+
  have real_rank: "real rank = of_int \<lceil>q * ?n\<rceil>" using pos by (simp add: rank_def)
  have "clamp 0 1 q = q" "clamp 1 (length vs) rank = rank"
    using assms(2,3) r by (auto simp: clamp_def)
  then have "percentile vs q = Some (vs ! (rank - 1))"
    using assms(1) by (simp add: percentile_def rank_def)
  moreover have "q * ?n \<le> real (Suc (rank - 1))" using r real_rank by (simp add: le_of_int_ceiling)
  moreover have "real (rank - 1) < q * ?n"
    using r real_rank ceiling_correct[of "q * ?n"] by (simp add: of_nat_diff)
  ultimately show thesis using r that[of "rank - 1"] by simp
qed

text \<open>
  The percentile is the smallest sample with at least the share \<open>q\<close> of the samples at or
  below it, the definition of \<open>stats.rs\<close>.
\<close>

lemma percentile_smallest:
  assumes "sorted vs" "vs \<noteq> []" "0 < q" "q \<le> 1"
  obtains x where "percentile vs q = Some x" "x \<in> set vs"
    "q * real (length vs) \<le> real (length (filter (\<lambda>v. v \<le> x) vs))"
    "\<And>y. y < x \<Longrightarrow> real (length (filter (\<lambda>v. v \<le> y) vs)) < q * real (length vs)"
proof -
  obtain k where k: "percentile vs q = Some (vs ! k)" "k < length vs"
    "q * real (length vs) \<le> real (Suc k)" "real k < q * real (length vs)"
    using percentile_nth[OF assms(2-4)] .
  have "Suc k \<le> length (filter (\<lambda>v. v \<le> vs ! k) vs)"
    using k(2) by (intro length_filter_ge_index) (auto intro: sorted_nth_mono[OF assms(1)])
  moreover have "length (filter (\<lambda>v. v \<le> y) vs) \<le> k" if "y < vs ! k" for y
  proof (rule length_filter_le_index)
    fix i
    assume "k \<le> i" "i < length vs"
    then have "vs ! k \<le> vs ! i" by (rule sorted_nth_mono[OF assms(1)])
    then show "\<not> vs ! i \<le> y" using that by simp
  qed
  ultimately show thesis using that[of "vs ! k"] k by fastforce
qed

lemma within_target_iff:
  "within_target (percentile (sort xs) (95/100))
     \<longleftrightarrow> 95/100 * real (length xs) \<le> real (length (filter (\<lambda>v. v \<le> 1) xs))"
proof (cases "xs = []")
  case True
  then show ?thesis by (simp add: within_target_def percentile_def)
next
  case False
  have cnt: "length (filter p (sort xs)) = length (filter p xs)" for p
    by (metis mset_filter mset_sort size_mset)
  have ne: "sort xs \<noteq> []" using False by (metis length_0_conv length_sort)
  have q: "(0::real) < 95/100" "(95/100::real) \<le> 1" by simp_all
  obtain x where "percentile (sort xs) (95/100) = Some x"
    "95/100 * real (length (sort xs)) \<le> real (length (filter (\<lambda>v. v \<le> x) (sort xs)))"
    "\<forall>y. y < x \<longrightarrow> real (length (filter (\<lambda>v. v \<le> y) (sort xs))) < 95/100 * real (length (sort xs))"
    using percentile_smallest[OF sorted_sort ne q] by metis
  then have x: "percentile (sort xs) (95/100) = Some x"
    "95/100 * real (length xs) \<le> real (length (filter (\<lambda>v. v \<le> x) xs))"
    "\<And>y. y < x \<Longrightarrow> real (length (filter (\<lambda>v. v \<le> y) xs)) < 95/100 * real (length xs)"
    unfolding cnt length_sort by blast+
  show ?thesis
  proof
    assume "within_target (percentile (sort xs) (95/100))"
    then have "x \<le> 1" unfolding within_target_def x(1) by simp
    then have "length (filter (\<lambda>v. v \<le> x) xs) \<le> length (filter (\<lambda>v. v \<le> 1) xs)"
      by (induction xs) auto
    then show "95/100 * real (length xs) \<le> real (length (filter (\<lambda>v. v \<le> 1) xs))" using x(2) by linarith
  next
    assume "95/100 * real (length xs) \<le> real (length (filter (\<lambda>v. v \<le> 1) xs))"
    then have "\<not> 1 < x" using x(3)[of 1] by linarith
    then show "within_target (percentile (sort xs) (95/100))" unfolding within_target_def x(1) by simp
  qed
qed

section \<open>Five-minute windows\<close>

abbreviation window_idx :: "stored_record \<Rightarrow> nat" where
  "window_idx s \<equiv> sr_at_ms s div WINDOW_MS"

definition window_of :: "tier \<Rightarrow> nat \<Rightarrow> stored_record list \<Rightarrow> sla_window" where
  "window_of t i xs =
     (let ys = filter (\<lambda>s. window_idx s = i) xs
      in \<lparr>sw_start_ms = i * WINDOW_MS, sw_end_ms = (i + 1) * WINDOW_MS,
          sw_ttft = List.map_filter (\<lambda>s. ttft_ratio t (sr_record s)) ys,
          sw_tpot = List.map_filter (\<lambda>s. tpot_ratio t (sr_record s)) ys,
          sw_requests = length ys\<rparr>)"

lemma window_of_sel [simp]:
  "sw_start_ms (window_of t i xs) = i * WINDOW_MS" "sw_end_ms (window_of t i xs) = (i + 1) * WINDOW_MS"
  "sw_ttft (window_of t i xs) = List.map_filter (\<lambda>s. ttft_ratio t (sr_record s)) (filter (\<lambda>s. window_idx s = i) xs)"
  "sw_tpot (window_of t i xs) = List.map_filter (\<lambda>s. tpot_ratio t (sr_record s)) (filter (\<lambda>s. window_idx s = i) xs)"
  "sw_requests (window_of t i xs) = length (filter (\<lambda>s. window_idx s = i) xs)"
  by (simp_all add: window_of_def Let_def)

lemma map_filter_snoc: "List.map_filter f (xs @ [x]) = List.map_filter f xs @ opt_list (f x)"
  by (simp add: List.map_filter_def opt_list_def split: option.split)

lemma raw_windows_map_of:
  "map_of (foldl (raw_put t) [] xs) = (\<lambda>i. if i \<in> window_idx ` set xs then Some (window_of t i xs) else None)
   \<and> sorted (map fst (foldl (raw_put t) [] xs)) \<and> distinct (map fst (foldl (raw_put t) [] xs))"
proof (induction xs rule: rev_induct)
  case Nil
  then show ?case by (simp add: fun_eq_iff)
next
  case (snoc s xs)
  let ?raw = "foldl (raw_put t) [] xs" and ?i = "window_idx s"
  have old: "map_of ?raw = (\<lambda>i. if i \<in> window_idx ` set xs then Some (window_of t i xs) else None)"
    and key: "sorted (map fst ?raw) \<and> distinct (map fst ?raw)" using snoc.IH by blast+
  have none: "filter (\<lambda>x. window_idx x = ?i) xs = []" if "?i \<notin> window_idx ` set xs"
    unfolding filter_empty_conv using that by (metis imageI)
  have "raw_put t raw s = bt_put ?i (window_of t ?i (xs @ [s])) raw"
    if "map_of raw = (\<lambda>i. if i \<in> window_idx ` set xs then Some (window_of t i xs) else None)" for raw
    unfolding raw_put_def Let_def that
    by (cases "?i \<in> window_idx ` set xs")
      (simp_all add: window_of_def Let_def map_filter_snoc none sla_window_default_def
        opt_list_def List.map_filter_simps split: option.split)
  from this[OF old] have put: "raw_put t ?raw s = bt_put ?i (window_of t ?i (xs @ [s])) ?raw" .
  have "window_of t i (xs @ [s]) = window_of t i xs" if "i \<noteq> ?i" for i
    using that by (simp add: window_of_def)
  then show ?case
    unfolding foldl_append foldl_Cons foldl_Nil put using key sorted_distinct_bt_put[OF key] by (auto simp: old fun_eq_iff)
qed

lemma raw_windows_list:
  fixes t records
  defines "E \<equiv> filter (\<lambda>s. is_eligible (sr_record s)) records"
  obtains ks where "map snd (raw_windows t records) = map (\<lambda>i. window_of t i E) ks"
    "sorted ks" "distinct ks" "set ks = window_idx ` set E"
proof -
  let ?raw = "raw_windows t records"
  have raw: "map_of ?raw = (\<lambda>i. if i \<in> window_idx ` set E then Some (window_of t i E) else None)"
    and key: "sorted (map fst ?raw)" "distinct (map fst ?raw)"
    using raw_windows_map_of[of t E] by (simp_all add: raw_windows_def E_def)
  have val: "v = window_of t i E" if "(i, v) \<in> set ?raw" for i v
    using map_of_is_SomeI[OF key(2) that] unfolding raw by (simp split: if_splits)
  have "map snd ?raw = map (\<lambda>i. window_of t i E) (map fst ?raw)" using val by auto
  moreover have "set (map fst ?raw) = window_idx ` set E"
  proof -
    have "i \<in> set (map fst ?raw) \<longleftrightarrow> map_of ?raw i \<noteq> None" for i by (simp add: map_of_eq_None_iff)
    also have "map_of ?raw i \<noteq> None \<longleftrightarrow> i \<in> window_idx ` set E" for i unfolding raw by simp
    finally show ?thesis by blast
  qed
  ultimately show thesis using key that by blast
qed

section \<open>Merging\<close>

definition spaced :: "sla_window list \<Rightarrow> bool" where
  "spaced vs \<longleftrightarrow> sorted_wrt (\<lambda>v w. sw_end_ms v \<le> sw_start_ms w) vs \<and> (\<forall>w\<in>set vs. sw_start_ms w < sw_end_ms w)"

definition joined :: "sla_window list \<Rightarrow> sla_window \<Rightarrow> bool" where
  "joined chunk w \<longleftrightarrow>
     chunk \<noteq> [] \<and> sw_start_ms w = sw_start_ms (hd chunk) \<and> sw_end_ms w = sw_end_ms (last chunk) \<and>
     sw_ttft w = concat (map sw_ttft chunk) \<and> sw_tpot w = concat (map sw_tpot chunk) \<and>
     sw_requests w = sum_list (map sw_requests chunk)"

lemma joined_single: "joined [w] (absorb (sla_window_default\<lparr>sw_start_ms := sw_start_ms w\<rparr>) w)"
  by (simp add: joined_def absorb_def sla_window_default_def)

lemma joined_absorb:
  assumes "joined c v" "joined d w" "spaced (c @ d)"
  shows "joined (c @ d) (absorb v w)"
proof -
  have ne: "c \<noteq> []" "d \<noteq> []" using assms(1,2) by (simp_all add: joined_def)
  have "sw_end_ms (hd c) \<le> sw_start_ms (hd d)" "sw_end_ms (last c) \<le> sw_start_ms (last d)"
    "sw_start_ms (hd c) < sw_end_ms (hd c)" "sw_start_ms (last d) < sw_end_ms (last d)"
    using assms(3) ne by (auto simp: spaced_def sorted_wrt_append)
  then show ?thesis using assms(1,2) ne by (simp add: joined_def absorb_def)
qed

lemma spaced_append: "spaced (xs @ ys) \<Longrightarrow> spaced xs \<and> spaced ys"
  by (auto simp: spaced_def sorted_wrt_append)

lemma merge_loop:
  assumes "spaced vs"
  shows "\<exists>chunks rest. vs = concat chunks @ rest
    \<and> list_all2 joined chunks (fst (foldl merge_step ([], None) vs))
    \<and> (\<forall>w\<in>set (fst (foldl merge_step ([], None) vs)). MIN_WINDOW_REQUESTS \<le> sw_requests w)
    \<and> (case snd (foldl merge_step ([], None) vs) of None \<Rightarrow> rest = [] | Some c \<Rightarrow> joined rest c)"
  using assms
proof (induction vs rule: rev_induct)
  case Nil
  then show ?case by (intro exI[of _ "[]"]) simp
next
  case (snoc w vs)
  obtain merged cur where st: "foldl merge_step ([], None) vs = (merged, cur)" by fastforce
  obtain chunks rest where IH: "vs = concat chunks @ rest" "list_all2 joined chunks merged"
    "\<forall>w\<in>set merged. MIN_WINDOW_REQUESTS \<le> sw_requests w"
    "case cur of None \<Rightarrow> rest = [] | Some c \<Rightarrow> joined rest c"
    using snoc.IH spaced_append[OF snoc.prems] unfolding st by auto
  define c where "c = absorb (case cur of Some c \<Rightarrow> c | None \<Rightarrow> sla_window_default\<lparr>sw_start_ms := sw_start_ms w\<rparr>) w"
  have "spaced (rest @ [w])" using snoc.prems spaced_append by (metis IH(1) append_assoc)
  then have j: "joined (rest @ [w]) c"
    using IH(4) joined_single joined_absorb[OF _ _ \<open>spaced (rest @ [w])\<close>]
    by (cases cur) (auto simp: c_def joined_def)
  have step: "foldl merge_step ([], None) (vs @ [w]) =
      (if MIN_WINDOW_REQUESTS \<le> sw_requests c then (merged @ [c], None) else (merged, Some c))"
    by (simp add: st merge_step_def c_def Let_def)
  show ?case
  proof (cases "MIN_WINDOW_REQUESTS \<le> sw_requests c")
    case True
    have "list_all2 joined (chunks @ [rest @ [w]]) (merged @ [c])"
      using IH(2) j by (intro list_all2_appendI) simp_all
    then show ?thesis unfolding step using True IH(1,3)
      by (intro exI[of _ "chunks @ [rest @ [w]]"] exI[of _ "[]"]) simp
  next
    case False
    then show ?thesis unfolding step using IH j
      by (intro exI[of _ chunks] exI[of _ "rest @ [w]"]) simp
  qed
qed

lemma merge_chunks:
  assumes "spaced vs"
  defines "ws \<equiv> merge_tail (foldl merge_step ([], None) vs)"
  shows "\<exists>chunks. concat chunks = vs \<and> list_all2 joined chunks ws"
    and "1 < length ws \<Longrightarrow> w \<in> set ws \<Longrightarrow> MIN_WINDOW_REQUESTS \<le> sw_requests w"
proof -
  obtain merged cur where st: "foldl merge_step ([], None) vs = (merged, cur)" by fastforce
  obtain chunks rest where IH: "vs = concat chunks @ rest" "list_all2 joined chunks merged"
    "\<forall>w\<in>set merged. MIN_WINDOW_REQUESTS \<le> sw_requests w"
    "case cur of None \<Rightarrow> rest = [] | Some c \<Rightarrow> joined rest c"
    using merge_loop[OF assms(1)] unfolding st by auto
  have "(\<exists>chunks. concat chunks = vs \<and> list_all2 joined chunks ws)
      \<and> (1 < length ws \<longrightarrow> (\<forall>w\<in>set ws. MIN_WINDOW_REQUESTS \<le> sw_requests w))"
  proof (cases cur)
    case None
    then have "ws = merged" by (simp add: ws_def st merge_tail_def)
    then show ?thesis using IH None by (intro conjI exI[of _ chunks]) simp_all
  next
    case (Some c)
    show ?thesis
    proof (cases merged rule: rev_cases)
      case Nil
      then have "chunks = []" "ws = [c]" using IH(2) Some by (simp_all add: ws_def st merge_tail_def)
      then show ?thesis using IH Some by (intro conjI exI[of _ "[rest]"]) simp_all
    next
      case (snoc ms l)
      obtain cs d where c: "chunks = cs @ [d]" "list_all2 joined cs ms" "joined d l"
        using IH(2) unfolding snoc list_all2_append2 list_all2_Cons2 by auto
      have ws: "ws = ms @ [absorb l c]" by (simp add: ws_def st merge_tail_def Some snoc)
      have "spaced (d @ rest)" using assms(1) spaced_append by (metis IH(1) append_assoc c(1) concat_append concat.simps append_Nil2)
      then have "joined (d @ rest) (absorb l c)" using c(3) IH(4) Some by (auto intro: joined_absorb)
      then have "list_all2 joined (cs @ [d @ rest]) ws" unfolding ws using c(2)
        by (intro list_all2_appendI) simp_all
      moreover have "concat (cs @ [d @ rest]) = vs" using IH(1) c(1) by simp
      moreover have "\<forall>w\<in>set ws. MIN_WINDOW_REQUESTS \<le> sw_requests w"
        using IH(3) by (auto simp: ws snoc absorb_def)
      ultimately show ?thesis by blast
    qed
  qed
  then show "\<exists>chunks. concat chunks = vs \<and> list_all2 joined chunks ws"
    and "1 < length ws \<Longrightarrow> w \<in> set ws \<Longrightarrow> MIN_WINDOW_REQUESTS \<le> sw_requests w" by blast+
qed

lemma joined_spaced:
  assumes "list_all2 joined chunks ws" "spaced (concat chunks)"
  shows "sorted_wrt (\<lambda>v w. sw_end_ms v \<le> sw_start_ms w) ws"
  using assms
proof (induction rule: list_all2_induct)
  case Nil
  then show ?case by simp
next
  case (Cons c cs w ws)
  have "sw_end_ms w \<le> sw_start_ms v" if v: "v \<in> set ws" for v
  proof -
    obtain d where d: "d \<in> set cs" "joined d v" using Cons(2) v
      by (metis in_set_conv_nth list_all2_conv_all_nth)
    then have "last c \<in> set c" "hd d \<in> set (concat cs)" using Cons(1) by (auto simp: joined_def intro!: bexI[OF _ d(1)])
    then have "sw_end_ms (last c) \<le> sw_start_ms (hd d)"
      using Cons.prems unfolding spaced_def concat.simps sorted_wrt_append by blast
    then show ?thesis using Cons(1) d(2) by (simp add: joined_def)
  qed
  moreover have "spaced (concat cs)" using spaced_append[of c "concat cs"] Cons.prems by simp
  ultimately show ?case using Cons.IH by simp
qed

lemma map_eq_concat:
  "map f xs = concat yss \<Longrightarrow> \<exists>xss. concat xss = xs \<and> yss = map (map f) xss"
proof (induction yss arbitrary: xs)
  case Nil
  then show ?case by (intro exI[of _ "[]"]) simp
next
  case (Cons ys yss)
  then obtain as bs where "xs = as @ bs" "map f as = ys" "map f bs = concat yss"
    by (auto simp: map_eq_append_conv)
  moreover from Cons.IH[OF this(3)] obtain xss where "concat xss = bs" "yss = map (map f) xss" by blast
  ultimately show ?case by (intro exI[of _ "as # xss"]) simp
qed

lemma mset_concat_filter:
  "distinct ks \<Longrightarrow> mset (concat (map (\<lambda>i. filter (\<lambda>s. g s = i) xs) ks)) = mset (filter (\<lambda>s. g s \<in> set ks) xs)"
proof (induction ks)
  case Nil
  then show ?case by simp
next
  case (Cons k ks)
  have "filter_mset (\<lambda>s. g s = k \<or> g s \<in> set ks) (mset xs)
      = filter_mset (\<lambda>s. g s = k) (mset xs) + filter_mset (\<lambda>s. g s \<in> set ks) (mset xs)"
    using Cons.prems by (induction xs) auto
  then show ?case using Cons by simp
qed

lemma map_filter_concat: "List.map_filter f (concat xss) = concat (map (List.map_filter f) xss)"
  by (induction xss) (simp_all add: List.map_filter_def)

lemma mset_map_filter_cong:
  "mset xs = mset ys \<Longrightarrow> mset (List.map_filter f xs) = mset (List.map_filter f ys)"
  by (simp add: List.map_filter_def)

section \<open>The windows partition the eligible requests\<close>

definition in_window :: "sla_window \<Rightarrow> stored_record \<Rightarrow> bool" where
  "in_window w s \<longleftrightarrow> sw_start_ms w \<le> sr_at_ms s \<and> sr_at_ms s < sw_end_ms w"

definition window_exact :: "tier \<Rightarrow> stored_record list \<Rightarrow> sla_window \<Rightarrow> bool" where
  "window_exact t E w \<longleftrightarrow>
     sw_requests w = length (filter (in_window w) E) \<and>
     mset (sw_ttft w) = mset (List.map_filter (\<lambda>s. ttft_ratio t (sr_record s)) (filter (in_window w) E)) \<and>
     mset (sw_tpot w) = mset (List.map_filter (\<lambda>s. tpot_ratio t (sr_record s)) (filter (in_window w) E))"

lemma window_pos [simp]: "0 < WINDOW_MS"
  by (simp add: WINDOW_MS_def)

lemma spaced_windows: "sorted ks \<Longrightarrow> distinct ks \<Longrightarrow> spaced (map (\<lambda>i. window_of t i E) ks)"
proof (induction ks)
  case Nil
  then show ?case by (simp add: spaced_def)
next
  case (Cons k ks)
  have "(k + 1) * WINDOW_MS \<le> i * WINDOW_MS" if "i \<in> set ks" for i
    using Cons.prems that by (intro mult_right_mono) (auto simp: Suc_le_eq nat_less_le)
  then show ?case using Cons by (auto simp: spaced_def)
qed

lemma joined_in_window:
  assumes "joined (map (\<lambda>i. window_of t i E) ks) w" "sorted (pre @ ks @ post)" "distinct (pre @ ks @ post)"
    and "window_idx s \<in> set (pre @ ks @ post)"
  shows "in_window w s \<longleftrightarrow> window_idx s \<in> set ks"
proof -
  have ne: "ks \<noteq> []" using assms(1) by (simp add: joined_def)
  have se: "sw_start_ms w = hd ks * WINDOW_MS" "sw_end_ms w = (last ks + 1) * WINDOW_MS"
    using assms(1) ne by (simp_all add: joined_def hd_map last_map)
  have "in_window w s \<longleftrightarrow> hd ks \<le> window_idx s \<and> window_idx s < last ks + 1"
    unfolding in_window_def se by (simp add: less_eq_div_iff_mult_less_eq div_less_iff_less_mult mult.commute)
  also have "\<dots> \<longleftrightarrow> window_idx s \<in> set ks"
  proof
    assume "window_idx s \<in> set ks"
    then show "hd ks \<le> window_idx s \<and> window_idx s < last ks + 1"
      using assms(2) ne by (cases ks rule: rev_cases) (auto simp: sorted_append neq_Nil_conv hd_append)
  next
    have outside: "x < k" if "x \<in> set pre" "k \<in> set ks" for x k
      using assms(2,3) that by (fastforce simp: sorted_append nat_less_le)
    have outside': "k < x" if "x \<in> set post" "k \<in> set ks" for x k
      using assms(2,3) that by (fastforce simp: sorted_append nat_less_le)
    assume b: "hd ks \<le> window_idx s \<and> window_idx s < last ks + 1"
    have "x < hd ks" if "x \<in> set pre" for x
      using outside[OF that hd_in_set[OF ne]] .
    moreover have "last ks < x" if "x \<in> set post" for x
      using outside'[OF that last_in_set[OF ne]] .
    ultimately show "window_idx s \<in> set ks" using b assms(4) by fastforce
  qed
  finally show ?thesis .
qed

lemma joined_exact:
  assumes "joined (map (\<lambda>i. window_of t i E) ks) w" "sorted (pre @ ks @ post)" "distinct (pre @ ks @ post)"
    and "window_idx ` set E = set (pre @ ks @ post)"
  shows "window_exact t E w"
proof -
  let ?in = "filter (in_window w) E" and ?parts = "map (\<lambda>i. filter (\<lambda>s. window_idx s = i) E) ks"
  have "?in = filter (\<lambda>s. window_idx s \<in> set ks) E"
    using joined_in_window[OF assms(1-3)] assms(4) by (intro filter_cong) auto
  then have m: "mset (concat ?parts) = mset ?in"
    using mset_concat_filter[of ks window_idx E] assms(3) by simp
  have "sw_requests w = length (concat ?parts)"
    using assms(1) by (simp add: joined_def length_concat comp_def)
  also have "\<dots> = length ?in" using arg_cong[OF m, of size] by (simp only: size_mset)
  finally have "sw_requests w = length ?in" .
  moreover have "sw_ttft w = List.map_filter (\<lambda>s. ttft_ratio t (sr_record s)) (concat ?parts)"
    "sw_tpot w = List.map_filter (\<lambda>s. tpot_ratio t (sr_record s)) (concat ?parts)"
    using assms(1) by (simp_all add: joined_def map_filter_concat comp_def)
  ultimately show ?thesis unfolding window_exact_def by (simp only: mset_map_filter_cong[OF m])
qed

lemma merged_exact:
  fixes t records
  defines "E \<equiv> filter (\<lambda>s. is_eligible (sr_record s)) records" and "ws \<equiv> merged_windows t records"
  shows "w \<in> set ws \<Longrightarrow> window_exact t E w"
    and "s \<in> set E \<Longrightarrow> \<exists>w\<in>set ws. in_window w s"
    and "sorted_wrt (\<lambda>v w. sw_end_ms v \<le> sw_start_ms w) ws"
    and "1 < length ws \<Longrightarrow> w \<in> set ws \<Longrightarrow> MIN_WINDOW_REQUESTS \<le> sw_requests w"
proof -
  obtain ks where ks: "map snd (raw_windows t records) = map (\<lambda>i. window_of t i E) ks"
    "sorted ks" "distinct ks" "set ks = window_idx ` set E"
    unfolding E_def by (rule raw_windows_list)
  let ?vs = "map (\<lambda>i. window_of t i E) ks"
  have sp: "spaced ?vs" using ks(2,3) by (rule spaced_windows)
  have ws: "ws = merge_tail (foldl merge_step ([], None) ?vs)" by (simp add: ws_def merged_windows_def ks(1))
  obtain chunks where ch: "concat chunks = ?vs" "list_all2 joined chunks ws"
    using merge_chunks(1)[OF sp] unfolding ws by blast
  obtain kss where kss: "concat kss = ks" "chunks = map (map (\<lambda>i. window_of t i E)) kss"
    using map_eq_concat[of "\<lambda>i. window_of t i E" ks chunks] ch(1) by auto
  show "sorted_wrt (\<lambda>v w. sw_end_ms v \<le> sw_start_ms w) ws"
    using joined_spaced[OF ch(2)] sp ch(1) by simp
  show "1 < length ws \<Longrightarrow> w \<in> set ws \<Longrightarrow> MIN_WINDOW_REQUESTS \<le> sw_requests w"
    unfolding ws by (rule merge_chunks(2)[OF sp])
  have split: "\<exists>pre post. ks = pre @ c @ post" if "c \<in> set kss" for c
    using split_list[OF that] kss(1) by (metis concat_append concat.simps(2) append_assoc)
  show "window_exact t E w" if w: "w \<in> set ws"
  proof -
    obtain c where c: "c \<in> set kss" "joined (map (\<lambda>i. window_of t i E) c) w"
      using ch(2) w unfolding kss(2) list_all2_map1 by (metis in_set_conv_nth list_all2_conv_all_nth)
    obtain pre post where ppo: "ks = pre @ c @ post" using split[OF c(1)] by blast
    show ?thesis using joined_exact[OF c(2)] ks(2-4) unfolding ppo by metis
  qed
  show "\<exists>w\<in>set ws. in_window w s" if s: "s \<in> set E"
  proof -
    have "window_idx s \<in> set (concat kss)" using s ks(4) kss(1) by blast
    then obtain c where c: "c \<in> set kss" "window_idx s \<in> set c" by auto
    obtain w where w: "w \<in> set ws" "joined (map (\<lambda>i. window_of t i E) c) w"
      using ch(2) c(1) unfolding kss(2) list_all2_map1 by (metis in_set_conv_nth list_all2_conv_all_nth)
    obtain pre post where ppo: "ks = pre @ c @ post" using split[OF c(1)] by blast
    have "in_window w s"
      using joined_in_window[OF w(2), of pre post s] ks(2,3) c(2) unfolding ppo by simp
    then show ?thesis using w(1) by blast
  qed
qed

lemma in_one_window:
  "sorted_wrt (\<lambda>v w. sw_end_ms v \<le> sw_start_ms w) ws \<Longrightarrow> length (filter (\<lambda>w. in_window w s) ws) \<le> 1"
proof (induction ws)
  case Nil
  then show ?case by simp
next
  case (Cons w ws)
  show ?case
  proof (cases "in_window w s")
    case True
    then have "\<not> in_window v s" if "v \<in> set ws" for v
      using Cons.prems that by (force simp: in_window_def)
    then have "filter (\<lambda>w. in_window w s) ws = []" by (simp add: filter_empty_conv)
    then show ?thesis by simp
  qed (use Cons in simp)
qed

lemma in_exactly_one_window:
  assumes "s \<in> set records" "is_eligible (sr_record s)"
  shows "length (filter (\<lambda>w. in_window w s) (merged_windows t records)) = 1"
proof -
  have "filter (\<lambda>w. in_window w s) (merged_windows t records) \<noteq> []"
    using merged_exact(2)[of s records t] assms by (auto simp: filter_empty_conv)
  then have "1 \<le> length (filter (\<lambda>w. in_window w s) (merged_windows t records))"
    by (simp add: Suc_le_eq)
  then show ?thesis using in_one_window[OF merged_exact(3)[of t records], of s] by simp
qed

lemma sum_count_swap:
  "sum_list (map (\<lambda>w. length (filter (P w) xs)) ws) = sum_list (map (\<lambda>x. length (filter (\<lambda>w. P w x) ws)) xs)"
proof (induction ws)
  case (Cons w ws)
  have "length (filter (P w) xs) + sum_list (map (\<lambda>x. length (filter (\<lambda>w. P w x) ws)) xs)
      = sum_list (map (\<lambda>x. length (filter (\<lambda>w. P w x) (w # ws))) xs)"
    by (induction xs) auto
  then show ?case using Cons.IH by simp
qed simp

lemma requests_total:
  "sum_list (map sw_requests (merged_windows t records)) = length (filter (\<lambda>s. is_eligible (sr_record s)) records)"
proof -
  let ?E = "filter (\<lambda>s. is_eligible (sr_record s)) records" and ?ws = "merged_windows t records"
  have "sum_list (map sw_requests ?ws) = sum_list (map (\<lambda>w. length (filter (in_window w) ?E)) ?ws)"
    using merged_exact(1)[of _ t records] by (intro arg_cong[of _ _ sum_list] map_cong refl) (auto simp: window_exact_def)
  also have "\<dots> = sum_list (map (\<lambda>s. length (filter (\<lambda>w. in_window w s) ?ws)) ?E)" by (rule sum_count_swap)
  also have "\<dots> = sum_list (map (\<lambda>s. 1) ?E)"
    using in_exactly_one_window[of _ records t] by (intro arg_cong[of _ _ sum_list] map_cong refl) auto
  finally show ?thesis by (simp add: sum_list_triv)
qed

text \<open>
  The SLA windows of a month are an exact partition of its eligible requests: each window
  holds the latency ratios of exactly the eligible requests that fall into its time span,
  the spans come in order and do not overlap, every eligible request falls into exactly one,
  every window holds at least a hundred requests unless it is the only one, and a window is
  met exactly when at least 95% of its requests are within their own target, for the first
  token and for the time per token.
\<close>

theorem sla_windows_partition:
  fixes t records rfc3339
  defines "E \<equiv> filter (\<lambda>s. is_eligible (sr_record s)) records"
    and "ws \<equiv> merged_windows t records"
    and "good \<equiv> \<lambda>xs. 95/100 * real (length xs) \<le> real (length (filter (\<lambda>v. v \<le> 1) xs))"
  shows "sla_windows rfc3339 t records = map (window_result_of rfc3339) ws
       \<and> list_all (window_exact t E) ws
       \<and> sorted_wrt (\<lambda>v w. sw_end_ms v \<le> sw_start_ms w) ws
       \<and> list_all (\<lambda>s. length (filter (\<lambda>w. in_window w s) ws) = 1) E
       \<and> (length ws \<le> 1 \<or> list_all (\<lambda>w. 100 \<le> sw_requests w) ws)
       \<and> list_all (\<lambda>w. wr_met (window_result_of rfc3339 w) \<longleftrightarrow> good (sw_ttft w) \<and> good (sw_tpot w)) ws"
proof (intro conjI)
  show "sla_windows rfc3339 t records = map (window_result_of rfc3339) ws"
    by (simp add: sla_windows_def ws_def)
  show "list_all (window_exact t E) ws" unfolding list_all_iff E_def ws_def using merged_exact(1) by blast
  show "sorted_wrt (\<lambda>v w. sw_end_ms v \<le> sw_start_ms w) ws" unfolding ws_def by (rule merged_exact(3))
  show "list_all (\<lambda>s. length (filter (\<lambda>w. in_window w s) ws) = 1) E"
    unfolding list_all_iff E_def ws_def using in_exactly_one_window by auto
  show "length ws \<le> 1 \<or> list_all (\<lambda>w. 100 \<le> sw_requests w) ws"
    using merged_exact(4)[of t records, folded ws_def]
    unfolding list_all_iff MIN_WINDOW_REQUESTS_def not_less[symmetric] by blast
  show "list_all (\<lambda>w. wr_met (window_result_of rfc3339 w) \<longleftrightarrow> good (sw_ttft w) \<and> good (sw_tpot w)) ws"
    unfolding list_all_iff good_def window_result_of_def Let_def by (simp only: within_target_iff window_result.select_convs) simp
qed

section \<open>Every record is accounted for\<close>

lemma sum_bt_put:
  fixes v :: nat
  assumes "sorted (map fst xs)" "distinct (map fst xs)"
  shows "sum_list (map snd (bt_put k v xs)) + (case map_of xs k of None \<Rightarrow> 0 | Some n \<Rightarrow> n)
       = sum_list (map snd xs) + v"
  using assms
proof (induction xs)
  case Nil
  then show ?case by simp
next
  case (Cons a xs)
  have "map_of xs k = None" if "k < fst a"
    using Cons.prems(1) that by (force simp: map_of_eq_None_iff)
  then show ?case using Cons by (cases a) (auto split: option.splits)
qed

definition excluded_total :: "exclusions \<Rightarrow> nat" where
  "excluded_total e =
     ex_out_of_shape e + ex_over_entitlement e + ex_rejected e + ex_errors e +
     ex_cancelled_before_first_token e + sum_list (map snd (ex_excluded_periods e))"

text \<open>A completed in-shape request without a traffic class: the one kind no counter names.\<close>

definition unclassed :: "usage_record \<Rightarrow> bool" where
  "unclassed r \<longleftrightarrow> ur_outcome r = Ok \<and> ur_class r = None \<and> ur_in_shape r"

definition periods_sorted :: "exclusions \<Rightarrow> bool" where
  "periods_sorted e \<longleftrightarrow>
     sorted (map fst (ex_excluded_periods e)) \<and> distinct (map fst (ex_excluded_periods e))"

lemma exclude_period_total:
  assumes "periods_sorted e"
  shows "excluded_total (exclude_period reason e) = excluded_total e + 1"
    and "periods_sorted (exclude_period reason e)"
proof -
  have k: "sorted (map fst (ex_excluded_periods e))" "distinct (map fst (ex_excluded_periods e))"
    using assms by (simp_all add: periods_sorted_def)
  let ?n = "case map_of (ex_excluded_periods e) reason of None \<Rightarrow> 0 | Some n \<Rightarrow> n"
  have "sum_list (map snd (bt_put reason (?n + 1) (ex_excluded_periods e)))
      = sum_list (map snd (ex_excluded_periods e)) + 1"
    using sum_bt_put[OF k, of reason "?n + 1"] by linarith
  then show "excluded_total (exclude_period reason e) = excluded_total e + 1"
    by (simp add: excluded_total_def exclude_period_def)
  show "periods_sorted (exclude_period reason e)"
    using sorted_distinct_bt_put[of "ex_excluded_periods e"] k by (simp add: periods_sorted_def exclude_period_def)
qed

lemma exclude_record_total:
  assumes "\<not> is_eligible r"
  shows "excluded_total (exclude_record r e) + (if unclassed r then 1 else 0) = excluded_total e + 1"
    and "periods_sorted (exclude_record r e) = periods_sorted e"
proof -
  consider "ur_class r = None" | "ur_class r = Some Provisioned" | "ur_class r \<in> {Some Burst, Some Spillover, Some Payg}"
    by (cases "ur_class r") (metis traffic_class.exhaust insertCI, metis traffic_class.exhaust insertCI)
  then show "excluded_total (exclude_record r e) + (if unclassed r then 1 else 0) = excluded_total e + 1"
    using assms by cases (cases "ur_outcome r";
        auto simp: exclude_record_def excluded_total_def unclassed_def is_eligible_def)+
  show "periods_sorted (exclude_record r e) = periods_sorted e"
    by (cases "ur_outcome r") (simp_all add: exclude_record_def periods_sorted_def)
qed

lemma classify_accounts:
  defines "n \<equiv> \<lambda>xs. length (filter (\<lambda>s. unclassed (sr_record s)) xs)"
  shows "excluded_total (fst (classify info xs)) + length (snd (classify info xs)) + n xs = length xs
       \<and> periods_sorted (fst (classify info xs))
       \<and> list_all (\<lambda>s. is_eligible (sr_record s)) (snd (classify info xs))"
proof (induction xs rule: rev_induct)
  case Nil
  then show ?case by (simp add: classify_def excluded_total_def exclusions_default_def periods_sorted_def n_def)
next
  case (snoc s xs)
  obtain e c where st: "classify info xs = (e, c)" by fastforce
  have step: "classify info (xs @ [s]) = classify_record info (e, c) s"
    using st by (simp add: classify_def)
  have elig: "\<not> unclassed (sr_record s)" if "is_eligible (sr_record s)"
    using that by (auto simp: unclassed_def is_eligible_def)
  note IH = snoc.IH[unfolded st fst_conv snd_conv]
  show ?case
  proof (cases "is_eligible (sr_record s)")
    case False
    then have "classify info (xs @ [s]) = (exclude_record (sr_record s) e, c)"
      by (simp add: step classify_record_def)
    then show ?thesis using IH exclude_record_total[OF False, of e] by (simp add: n_def split: if_splits)
  next
    case True
    have n: "n (xs @ [s]) = n xs" using elig[OF True] by (simp add: n_def)
    show ?thesis
    proof (cases "find (\<lambda>w. covers w (sr_region s) (sr_at_ms s)) (rv_exclusions info)")
      case None
      then have "classify info (xs @ [s]) = (e, c @ [s])" using True by (simp add: step classify_record_def)
      then show ?thesis using IH n True by simp
    next
      case (Some w)
      then have "classify info (xs @ [s]) = (exclude_period (ew_reason w) e, c)"
        using True by (simp add: step classify_record_def)
      then show ?thesis using IH n exclude_period_total[of e "ew_reason w"] by simp
    qed
  qed
qed

text \<open>
  The SLA report accounts for every usage record and bounds the credit. The requests it
  evaluates and those it lists as excluded add up to the records of the month, but for
  completed in-shape requests that carry no traffic class. The attainment is between 0 and
  100 per cent, a credit is due exactly when it is below 99.8, and it is at most half of the
  monthly price.
\<close>

theorem sla_report_accounts:
  fixes rfc3339 info records month period fin
  defines "rep \<equiv> sla_report_of rfc3339 info records month period fin"
  shows "rp_eligible_requests rep + excluded_total (rp_excluded rep)
           + length (filter (\<lambda>s. unclassed (sr_record s)) records) = length records
       \<and> 0 \<le> rp_attainment_pct rep \<and> rp_attainment_pct rep \<le> 100
       \<and> (rp_credit_pct rep = 0 \<longleftrightarrow> 998/10 \<le> rp_attainment_pct rep)
       \<and> rp_credit_amount rep \<le> rv_monthly_price info div 2"
proof -
  obtain e c where st: "classify info records = (e, c)" by fastforce
  note acc = classify_accounts[of info records, unfolded st fst_conv snd_conv]
  let ?ws = "sla_windows rfc3339 (rv_tier info) c"
  have "rp_eligible_requests rep = sum_list (map wr_requests ?ws)"
    by (simp add: rep_def sla_report_of_def st Let_def)
  also have "\<dots> = sum_list (map sw_requests (merged_windows (rv_tier info) c))"
    by (simp add: sla_windows_def window_result_of_def comp_def Let_def)
  also have "\<dots> = length c" using acc by (simp add: requests_total list_all_iff)
  finally have el: "rp_eligible_requests rep = length c" .
  have at: "0 \<le> attainment ?ws" "attainment ?ws \<le> 100"
    by (auto simp: attainment_def divide_le_eq)
  have "u64_mul p k div 100 \<le> p div 2" if "k \<le> 50" for p k
  proof -
    have "u64_mul p k \<le> p * 50" unfolding u64_mul_def using that by (meson mod_less_eq_dividend mult_le_mono2 order_trans)
    then show ?thesis by linarith
  qed
  moreover have "credit_pct a \<le> 50" "credit_pct a = 0 \<longleftrightarrow> 998/10 \<le> a" for a by (auto simp: credit_pct_def)
  ultimately show ?thesis
    using el acc at by (simp add: rep_def sla_report_of_def st Let_def)
qed

end
