(* ===== verification/Usage_Report.thy ===== *)
theory Usage_Report
  imports Sla
begin

text \<open>
  Usage reports and the HTTP handlers of \<open>pt-telemetry\<close> (\<open>usage.rs\<close>, \<open>api.rs\<close>). The
  series of a report is built by one pass over the records with two nested loops; it is
  shown equal to filtering the records bucket by bucket. Parsing of timestamps, months and
  JSON belongs to libraries and is a parameter; error messages are dropped, their status and
  code kept. The handlers are modelled over the in-memory store, which cannot fail.
\<close>

section \<open>Statistics (usage.rs)\<close>

definition MAX_BUCKETS :: nat where
  "MAX_BUCKETS = 2000"

datatype granularity = Minute | FiveMinutes | Hour | Day

definition granularity_parse :: "string \<Rightarrow> granularity option" where
  "granularity_parse s =
     (if s = ''1m'' then Some Minute else if s = ''5m'' then Some FiveMinutes
      else if s = ''1h'' then Some Hour else if s = ''1d'' then Some Day else None)"

fun granularity_as_str :: "granularity \<Rightarrow> string" where
  "granularity_as_str Minute = ''1m''"
| "granularity_as_str FiveMinutes = ''5m''"
| "granularity_as_str Hour = ''1h''"
| "granularity_as_str Day = ''1d''"

fun granularity_millis :: "granularity \<Rightarrow> nat" where
  "granularity_millis Minute = 60000"
| "granularity_millis FiveMinutes = 300000"
| "granularity_millis Hour = 3600000"
| "granularity_millis Day = 86400000"

record token_totals =
  tt_uncached_prefill :: nat
  tt_cached_prefill :: nat
  tt_decode :: nat

record usage_stats =
  us_requests :: served_counts
  us_rejected :: "(string \<times> nat) list"
  us_errors :: nat
  us_cancelled :: nat
  us_out_of_shape :: nat
  us_tokens :: token_totals
  us_wu_actual :: real
  us_wu_provisioned :: real
  us_utilisation :: real
  us_ttft_ms :: "percentiles option"
  us_tpot_ms :: "percentiles option"
  us_cache_hit_rate :: "real option"

definition usage_stats_default :: usage_stats where
  "usage_stats_default =
     \<lparr>us_requests = served_counts_default, us_rejected = [], us_errors = 0, us_cancelled = 0,
      us_out_of_shape = 0, us_tokens = \<lparr>tt_uncached_prefill = 0, tt_cached_prefill = 0, tt_decode = 0\<rparr>,
      us_wu_actual = 0, us_wu_provisioned = 0, us_utilisation = 0, us_ttft_ms = None, us_tpot_ms = None,
      us_cache_hit_rate = None\<rparr>"

definition stats_outcome :: "outcome \<Rightarrow> usage_stats \<Rightarrow> usage_stats" where
  "stats_outcome oc s =
     (case oc of
        Rejected reason \<Rightarrow>
          let k = reject_reason_as_str reason;
              n = (case map_of (us_rejected s) k of None \<Rightarrow> 0 | Some n \<Rightarrow> n)
          in s\<lparr>us_rejected := bt_put k (n + 1) (us_rejected s)\<rparr>
      | OutcomeError _ \<Rightarrow> s\<lparr>us_errors := us_errors s + 1\<rparr>
      | ClientCancelled \<Rightarrow> s\<lparr>us_cancelled := us_cancelled s + 1\<rparr>
      | Ok \<Rightarrow> s)"

text \<open>One turn of the loop of \<open>stats\<close>, with the latencies collected so far.\<close>

definition stats_step ::
  "usage_stats \<times> real list \<times> real list \<Rightarrow> stored_record \<Rightarrow> usage_stats \<times> real list \<times> real list" where
  "stats_step st rec =
     (let (s, ttft, tpot) = st;
          r = sr_record rec;
          s1 = s\<lparr>us_requests := count_class (ur_class r) (us_requests s)\<rparr>;
          s2 = stats_outcome (ur_outcome r) s1;
          s3 = (if ur_class r \<noteq> None \<and> \<not> ur_in_shape r then s2\<lparr>us_out_of_shape := us_out_of_shape s2 + 1\<rparr> else s2);
          tk = us_tokens s3;
          s4 = s3\<lparr>us_tokens := \<lparr>tt_uncached_prefill = tt_uncached_prefill tk + tb_uncached_prefill (ur_tokens r),
                                tt_cached_prefill = tt_cached_prefill tk + tb_cached_prefill (ur_tokens r),
                                tt_decode = tt_decode tk + tb_decode (ur_tokens r)\<rparr>,
                  us_wu_actual := us_wu_actual s3 + ur_wu_actual r\<rparr>
      in if ur_class r = Some Provisioned
         then let s5 = s4\<lparr>us_wu_provisioned := us_wu_provisioned s4 + ur_wu_actual r\<rparr>
              in if ur_in_shape r \<and> ur_outcome r = Ok
                 then (s5, ttft @ opt_list (ttft_ms (ur_timings r)), tpot @ opt_list (tpot_ms (ur_timings r)))
                 else (s5, ttft, tpot)
         else (s4, ttft, tpot))"

definition stats_of :: "stored_record list \<Rightarrow> real \<Rightarrow> nat \<Rightarrow> usage_stats" where
  "stats_of records entitlement_wu_s millis =
     (let (s, ttft, tpot) = foldl stats_step (usage_stats_default, [], []) records;
          capacity = entitlement_wu_s * real millis / 1000;
          prompt = tt_uncached_prefill (us_tokens s) + tt_cached_prefill (us_tokens s)
      in s\<lparr>us_utilisation := (if 0 < capacity then us_wu_provisioned s / capacity else 0),
            us_ttft_ms := percentiles_of ttft,
            us_tpot_ms := percentiles_of tpot,
            us_cache_hit_rate := (if 0 < prompt then Some (real (tt_cached_prefill (us_tokens s)) / real prompt) else None)\<rparr>)"

record shape_report =
  shp_declared :: shape
  shp_observed_input_p95 :: "nat option"
  shp_observed_input_max :: "nat option"
  shp_observed_output_p95 :: "nat option"
  shp_in_shape_fraction :: "real option"

definition shape_report_of :: "reservation_info \<Rightarrow> stored_record list \<Rightarrow> shape_report" where
  "shape_report_of info records =
     (let served = filter (\<lambda>r. ur_class (sr_record r) \<noteq> None) records;
          input = sort (map (\<lambda>r. real (input_of (sr_record r))) served);
          output = sort (map (\<lambda>r. real (tb_decode (ur_tokens (sr_record r)))) served);
          in_shape = length (filter (\<lambda>r. ur_in_shape (sr_record r)) served)
      in \<lparr>shp_declared = rv_shape info,
          shp_observed_input_p95 = map_option f64_as_u64 (percentile input (95/100)),
          shp_observed_input_max = (if input = [] then None else Some (f64_as_u64 (last input))),
          shp_observed_output_p95 = map_option f64_as_u64 (percentile output (95/100)),
          shp_in_shape_fraction = (if served = [] then None else Some (real in_shape / real (length served)))\<rparr>)"

text \<open>The suggestions of a report, with the numbers of their texts.\<close>

datatype advice_item =
    OutsideShape real
  | InputAboveDeclared nat nat
  | OutputAboveDeclared nat nat
  | EntitlementUsedUp nat
  | HighUtilisation real

definition advice :: "reservation_info \<Rightarrow> usage_stats \<Rightarrow> shape_report \<Rightarrow> advice_item list" where
  "advice info s shape =
     (case shp_in_shape_fraction shape of
        Some f \<Rightarrow> if f < 99/100 then [OutsideShape (100 * (1 - f))] else [] | None \<Rightarrow> [])
     @ (case shp_observed_input_p95 shape of
          Some p \<Rightarrow> if input_p95 (rv_shape info) < p then [InputAboveDeclared p (input_p95 (rv_shape info))] else []
        | None \<Rightarrow> [])
     @ (case shp_observed_output_p95 shape of
          Some p \<Rightarrow> if output_p95 (rv_shape info) < p then [OutputAboveDeclared p (output_p95 (rv_shape info))] else []
        | None \<Rightarrow> [])
     @ (case map_of (us_rejected s) ''entitlement_exhausted'' of Some n \<Rightarrow> [EntitlementUsedUp n] | None \<Rightarrow> [])
     @ (if 9/10 < us_utilisation s then [HighUtilisation (100 * us_utilisation s)] else [])"

section \<open>The series of a report\<close>

record usage_bucket =
  ub_start :: string
  ub_stats :: usage_stats

record usage_report =
  urp_reservation :: string
  urp_deployment :: "string option"
  urp_from :: string
  urp_to :: string
  urp_granularity :: string
  urp_entitlement_wu_per_s :: real
  urp_summary :: usage_stats
  urp_shape :: shape_report
  urp_advice :: "advice_item list"
  urp_series :: "usage_bucket list"

text \<open>The inner loop: the records before the end of the bucket are consumed, those from its
  start on are collected.\<close>

fun scan_bucket :: "nat \<Rightarrow> nat \<Rightarrow> stored_record list \<Rightarrow> stored_record list \<times> stored_record list" where
  "scan_bucket start stop [] = ([], [])"
| "scan_bucket start stop (r # rs) =
     (if sr_at_ms r < stop
      then let (b, rest) = scan_bucket start stop rs
           in (if start \<le> sr_at_ms r then r # b else b, rest)
      else ([], r # rs))"

text \<open>The outer loop. The step of a granularity is positive, which the recursion uses.\<close>

function usage_series ::
  "(nat \<Rightarrow> string) \<Rightarrow> real \<Rightarrow> granularity \<Rightarrow> nat \<Rightarrow> nat \<Rightarrow> stored_record list \<Rightarrow> usage_bucket list" where
  "usage_series rfc3339 ent g to_ms start records =
     (if start < to_ms
      then let stop = start + granularity_millis g;
               (in_bucket, rest) = scan_bucket start stop records
           in \<lparr>ub_start = rfc3339 start, ub_stats = stats_of in_bucket ent (granularity_millis g)\<rparr>
              # usage_series rfc3339 ent g to_ms stop rest
      else [])"
  by pat_completeness auto

lemma granularity_millis_pos [simp]: "0 < granularity_millis g"
  by (cases g) simp_all

termination usage_series
  by (relation "measure (\<lambda>(_, _, g, to_ms, start, _). to_ms - start)") (auto intro: diff_less_mono2)

declare usage_series.simps [simp del]

definition usage_report_of ::
  "(nat \<Rightarrow> string) \<Rightarrow> reservation_info \<Rightarrow> stored_record list \<Rightarrow> nat \<Rightarrow> nat \<Rightarrow> granularity \<Rightarrow> usage_report" where
  "usage_report_of rfc3339 info records from_ms to_ms g =
     (let step = granularity_millis g;
          first = from_ms div step * step;
          series = usage_series rfc3339 (rv_entitlement_wu_s info) g to_ms first records;
          summary = stats_of records (rv_entitlement_wu_s info) (to_ms - from_ms);
          shape = shape_report_of info records
      in \<lparr>urp_reservation = rv_id info, urp_deployment = None, urp_from = rfc3339 from_ms,
          urp_to = rfc3339 to_ms, urp_granularity = granularity_as_str g,
          urp_entitlement_wu_per_s = rv_entitlement_wu_s info, urp_summary = summary, urp_shape = shape,
          urp_advice = advice info summary shape, urp_series = series\<rparr>)"

section \<open>HTTP handlers (api.rs)\<close>

definition MAX_BATCH :: nat where
  "MAX_BATCH = 5000"

definition MAX_RANGE_MS :: nat where
  "MAX_RANGE_MS = 35 * 86400000"

definition DAY_MS :: nat where
  "DAY_MS = 86400000"

record directory =
  dir_tenant_for_key :: "string \<Rightarrow> string option"
  dir_region_for_token :: "string \<Rightarrow> string option"
  dir_reservation :: "string \<Rightarrow> string \<Rightarrow> string + reservation_info option"
  dir_now_ms :: nat

datatype telemetry_response =
    TelError nat string
  | TelIngested ingest_result
  | TelUsage usage_report
  | TelSla sla_report
  | TelSession session_report

text \<open>The header is \<open>None\<close> when it is missing or not visible ASCII.\<close>

definition bearer :: "string option \<Rightarrow> string option" where
  "bearer header =
     (case header of None \<Rightarrow> None | Some v \<Rightarrow> map_option trim (strip_prefix ''Bearer '' v))"

definition api_ingest ::
  "(string \<Rightarrow> string + usage_record list) \<Rightarrow> directory \<Rightarrow> string option \<Rightarrow> string \<Rightarrow> usage_inner
   \<Rightarrow> telemetry_response \<times> usage_inner" where
  "api_ingest from_slice dir header body store =
     (case Option.bind (bearer header) (dir_region_for_token dir) of
        None \<Rightarrow> (TelError 401 ''invalid_region_token'', store)
      | Some region \<Rightarrow>
          (case from_slice body of
             Inl _ \<Rightarrow> (TelError 422 ''invalid_json'', store)
           | Inr records \<Rightarrow>
               if MAX_BATCH < length records then (TelError 413 ''batch_too_large'', store)
               else let (result, store') = usage_append region records (dir_now_ms dir) store
                    in (TelIngested result, store')))"

definition api_reservation ::
  "directory \<Rightarrow> string option \<Rightarrow> string \<Rightarrow> telemetry_response + reservation_info" where
  "api_reservation dir header rid =
     (case Option.bind (bearer header) (dir_tenant_for_key dir) of
        None \<Rightarrow> Inl (TelError 401 ''invalid_api_key'')
      | Some tenant \<Rightarrow>
          (case dir_reservation dir tenant rid of
             Inl _ \<Rightarrow> Inl (TelError 503 ''store_unavailable'')
           | Inr None \<Rightarrow> Inl (TelError 404 ''not_found'')
           | Inr (Some info) \<Rightarrow> Inr info))"

record range_query =
  q_from :: "string option"
  q_to :: "string option"
  q_granularity :: "string option"
  q_deployment :: "string option"

text \<open>\<open>parse_timestamp\<close> is the timestamp parser of the time library, in milliseconds.\<close>

definition parse_ms :: "(string \<Rightarrow> int option) \<Rightarrow> string \<Rightarrow> telemetry_response + nat" where
  "parse_ms parse_timestamp v =
     (case parse_timestamp v of
        None \<Rightarrow> Inl (TelError 422 ''invalid_time'') | Some t \<Rightarrow> Inr (nat (max t 0)))"

definition parse_opt ::
  "(string \<Rightarrow> int option) \<Rightarrow> string option \<Rightarrow> nat \<Rightarrow> telemetry_response + nat" where
  "parse_opt parse_timestamp v dflt =
     (case v of None \<Rightarrow> Inr dflt | Some s \<Rightarrow> parse_ms parse_timestamp s)"

definition api_range ::
  "(string \<Rightarrow> int option) \<Rightarrow> range_query \<Rightarrow> nat \<Rightarrow> telemetry_response + nat \<times> nat" where
  "api_range parse_timestamp q now_ms =
     (case parse_opt parse_timestamp (q_to q) now_ms of
        Inl e \<Rightarrow> Inl e
      | Inr to_ms \<Rightarrow>
          (case parse_opt parse_timestamp (q_from q) (to_ms - DAY_MS) of
             Inl e \<Rightarrow> Inl e
           | Inr from_ms \<Rightarrow>
               if to_ms \<le> from_ms then Inl (TelError 422 ''invalid_range'')
               else if MAX_RANGE_MS < to_ms - from_ms then Inl (TelError 422 ''invalid_range'')
               else Inr (from_ms, to_ms)))"

definition api_granularity :: "string option \<Rightarrow> nat \<Rightarrow> granularity option" where
  "api_granularity g width =
     (case g of
        None \<Rightarrow> (case find (\<lambda>g. width div granularity_millis g \<le> 300) [Minute, FiveMinutes, Hour, Day] of
                   None \<Rightarrow> Some Day | Some g \<Rightarrow> Some g)
      | Some s \<Rightarrow> granularity_parse s)"

definition api_usage_report ::
  "(nat \<Rightarrow> string) \<Rightarrow> (string \<Rightarrow> int option) \<Rightarrow> directory \<Rightarrow> string option \<Rightarrow> string \<Rightarrow> range_query \<Rightarrow> usage_inner
   \<Rightarrow> telemetry_response" where
  "api_usage_report rfc3339 parse_timestamp dir header rid q store =
     (case api_reservation dir header rid of
        Inl e \<Rightarrow> e
      | Inr info \<Rightarrow>
          (case api_range parse_timestamp q (dir_now_ms dir) of
             Inl e \<Rightarrow> e
           | Inr (from_ms, to_ms) \<Rightarrow>
               (case api_granularity (q_granularity q) (to_ms - from_ms) of
                  None \<Rightarrow> TelError 422 ''invalid_granularity''
                | Some g \<Rightarrow>
                    if MAX_BUCKETS < u64_div_ceil (to_ms - from_ms) (granularity_millis g)
                    then TelError 422 ''too_many_points''
                    else let all_recs = usage_range (rv_tenant info) (rv_id info) from_ms to_ms store;
                             records = (case q_deployment q of
                                          None \<Rightarrow> all_recs
                                        | Some d \<Rightarrow> filter (\<lambda>r. ur_deployment (sr_record r) = d) all_recs)
                         in TelUsage ((usage_report_of rfc3339 info records from_ms to_ms g)
                              \<lparr>urp_deployment := q_deployment q\<rparr>))))"

definition api_sla_report ::
  "(nat \<Rightarrow> string) \<Rightarrow> (nat \<Rightarrow> string) \<Rightarrow> (string \<Rightarrow> (nat \<times> nat) option) \<Rightarrow> directory \<Rightarrow> string option \<Rightarrow> string
   \<Rightarrow> string option \<Rightarrow> usage_inner \<Rightarrow> telemetry_response" where
  "api_sla_report rfc3339 month_of month_bounds dir header rid month store =
     (case api_reservation dir header rid of
        Inl e \<Rightarrow> e
      | Inr info \<Rightarrow>
          let now = dir_now_ms dir;
              mon = (case month of None \<Rightarrow> month_of now | Some m \<Rightarrow> m)
          in case month_bounds mon of
               None \<Rightarrow> TelError 422 ''invalid_month''
             | Some (start, stop) \<Rightarrow>
                 let period_end = min stop (max now start);
                     records = usage_range (rv_tenant info) (rv_id info) start stop store
                 in TelSla (sla_report_of rfc3339 info records mon (start, period_end) (stop \<le> now)))"

definition api_session_report ::
  "(nat \<Rightarrow> string) \<Rightarrow> (string \<Rightarrow> int option) \<Rightarrow> directory \<Rightarrow> string option \<Rightarrow> string \<Rightarrow> string \<Rightarrow> range_query
   \<Rightarrow> usage_inner \<Rightarrow> telemetry_response" where
  "api_session_report rfc3339 parse_timestamp dir header rid session q store =
     (case api_reservation dir header rid of
        Inl e \<Rightarrow> e
      | Inr info \<Rightarrow>
          (case api_range parse_timestamp q (dir_now_ms dir) of
             Inl e \<Rightarrow> e
           | Inr (from_ms, to_ms) \<Rightarrow>
               (case session_report_of rfc3339 session (usage_range (rv_tenant info) (rv_id info) from_ms to_ms store) of
                  None \<Rightarrow> TelError 404 ''session_not_found''
                | Some r \<Rightarrow> TelSession r)))"

section \<open>One pass equals filtering bucket by bucket\<close>

lemma scan_bucket_filter:
  "sorted (map sr_at_ms rs) \<Longrightarrow>
   scan_bucket start stop rs = (filter (\<lambda>r. start \<le> sr_at_ms r \<and> sr_at_ms r < stop) rs, filter (\<lambda>r. stop \<le> sr_at_ms r) rs)"
proof (induction rs)
  case Nil
  then show ?case by simp
next
  case (Cons r rs)
  show ?case
  proof (cases "sr_at_ms r < stop")
    case True
    then show ?thesis using Cons by simp
  next
    case False
    then have "\<forall>x\<in>set (r # rs). stop \<le> sr_at_ms x" using Cons.prems by auto
    then have "filter (\<lambda>x. stop \<le> sr_at_ms x) (r # rs) = r # rs"
      "filter (\<lambda>x. start \<le> sr_at_ms x \<and> sr_at_ms x < stop) (r # rs) = []"
      by (auto simp: filter_id_conv filter_empty_conv)
    then show ?thesis using False by simp
  qed
qed

lemma div_ceil_step:
  assumes "0 < b" "0 < (a::nat)"
  shows "u64_div_ceil a b = Suc (u64_div_ceil (a - b) b)"
proof (cases "a \<le> b")
  case True
  then show ?thesis using assms by (cases "a = b") (auto simp: u64_div_ceil_def)
next
  case False
  then obtain d where "a = b + d" by (metis less_imp_add_positive not_le)
  then show ?thesis using assms by (simp add: u64_div_ceil_def)
qed

definition bucket_records :: "nat \<Rightarrow> nat \<Rightarrow> stored_record list \<Rightarrow> stored_record list" where
  "bucket_records start step records = filter (\<lambda>r. start \<le> sr_at_ms r \<and> sr_at_ms r < start + step) records"

lemma usage_series_buckets:
  fixes g :: granularity
  defines "step \<equiv> granularity_millis g"
  assumes "sorted (map sr_at_ms records)"
  shows "usage_series rfc3339 ent g to_ms start records =
    map (\<lambda>k. \<lparr>ub_start = rfc3339 (start + k * step), ub_stats = stats_of (bucket_records (start + k * step) step records) ent step\<rparr>)
      [0..<u64_div_ceil (to_ms - start) step]"
  using assms(2)
proof (induction "to_ms - start" arbitrary: start records rule: less_induct)
  case less
  have pos: "0 < step" by (simp add: step_def)
  show ?case
  proof (cases "start < to_ms")
    case False
    then show ?thesis by (subst usage_series.simps) (simp add: u64_div_ceil_def)
  next
    case True
    let ?rest = "filter (\<lambda>r. start + step \<le> sr_at_ms r) records"
    let ?n = "u64_div_ceil (to_ms - (start + step)) step"
    have n: "u64_div_ceil (to_ms - start) step = Suc ?n"
      using div_ceil_step[OF pos, of "to_ms - start"] True by simp
    have later: "bucket_records (start + (step + k * step)) step ?rest = bucket_records (start + (step + k * step)) step records" for k
      by (auto simp: bucket_records_def add.assoc intro!: filter_cong)
    have "usage_series rfc3339 ent g to_ms start records =
        \<lparr>ub_start = rfc3339 start, ub_stats = stats_of (bucket_records start step records) ent step\<rparr>
        # usage_series rfc3339 ent g to_ms (start + step) ?rest"
      using True by (subst usage_series.simps)
        (simp add: scan_bucket_filter[OF less.prems] bucket_records_def step_def Let_def)
    also have "usage_series rfc3339 ent g to_ms (start + step) ?rest =
        map (\<lambda>k. \<lparr>ub_start = rfc3339 (start + Suc k * step), ub_stats = stats_of (bucket_records (start + Suc k * step) step records) ent step\<rparr>)
          [0..<?n]"
      using less.hyps[of "start + step" ?rest] True pos sorted_filter[OF less.prems]
      by (simp add: later add.assoc)
    finally show ?thesis unfolding n
      by (simp add: upt_conv_Cons map_Suc_upt[symmetric] comp_def del: upt_Suc)
  qed
qed

lemma filter_adjacent:
  assumes "sorted (map sr_at_ms rs)" "a \<le> b" "b \<le> c"
  shows "filter (\<lambda>r. a \<le> sr_at_ms r \<and> sr_at_ms r < b) rs @ filter (\<lambda>r. b \<le> sr_at_ms r \<and> sr_at_ms r < c) rs
       = filter (\<lambda>r. a \<le> sr_at_ms r \<and> sr_at_ms r < c) rs"
  using assms
proof (induction rs)
  case Nil
  then show ?case by simp
next
  case (Cons r rs)
  show ?case
  proof (cases "b \<le> sr_at_ms r")
    case True
    then have "filter (\<lambda>x. a \<le> sr_at_ms x \<and> sr_at_ms x < b) (r # rs) = []"
      using Cons.prems by (auto simp: filter_empty_conv)
    moreover have "filter (\<lambda>x. b \<le> sr_at_ms x \<and> sr_at_ms x < c) (r # rs)
        = filter (\<lambda>x. a \<le> sr_at_ms x \<and> sr_at_ms x < c) (r # rs)"
      using True Cons.prems by (intro filter_cong) auto
    ultimately show ?thesis by simp
  next
    case False
    then show ?thesis using Cons by auto
  qed
qed

lemma buckets_concat:
  assumes "sorted (map sr_at_ms rs)"
  shows "concat (map (\<lambda>k. bucket_records (start + k * step) step rs) [0..<n])
       = filter (\<lambda>r. start \<le> sr_at_ms r \<and> sr_at_ms r < start + n * step) rs"
proof (induction n)
  case 0
  then show ?case by (simp add: filter_empty_conv)
next
  case (Suc n)
  have "filter (\<lambda>r. start \<le> sr_at_ms r \<and> sr_at_ms r < start + n * step) rs
      @ filter (\<lambda>r. start + n * step \<le> sr_at_ms r \<and> sr_at_ms r < start + n * step + step) rs
      = filter (\<lambda>r. start \<le> sr_at_ms r \<and> sr_at_ms r < start + n * step + step) rs"
    by (rule filter_adjacent[OF assms]) simp_all
  then show ?case using Suc by (simp add: bucket_records_def ac_simps)
qed

lemma series_points:
  fixes from_ms to_ms g
  assumes "from_ms \<le> to_ms"
  defines "step \<equiv> granularity_millis g"
  defines "n \<equiv> u64_div_ceil (to_ms - from_ms div step * step) step"
  shows "to_ms \<le> from_ms div step * step + n * step" "n \<le> u64_div_ceil (to_ms - from_ms) step + 1"
proof -
  let ?first = "from_ms div step * step"
  have pos: "0 < step" by (simp add: step_def)
  have le: "?first \<le> from_ms" by simp
  have lt: "from_ms < ?first + step" using dividend_less_div_times[OF pos, of from_ms] by simp
  note a = u64_div_ceil_bounds[OF pos, of "to_ms - ?first", folded n_def]
  note b = u64_div_ceil_bounds[OF pos, of "to_ms - from_ms"]
  show "to_ms \<le> ?first + n * step" using a(1) by linarith
  have "n * step < (u64_div_ceil (to_ms - from_ms) step + 2) * step"
    using a(2) b(1) lt le assms(1) by (simp add: add_mult_distrib)
  then have "n < u64_div_ceil (to_ms - from_ms) step + 2" by (metis mult_less_cancel2)
  then show "n \<le> u64_div_ceil (to_ms - from_ms) step + 1" by simp
qed

text \<open>
  C28. The usage series is built in one pass with nested loops, and that pass equals the plain
  definition: for records in time order and within the period, as the store returns them,
  bucket \<open>k\<close> carries the statistics of exactly the records that fall into it, the buckets
  taken together are all records in order, and their number exceeds the number of steps of
  the period by at most one.
\<close>

theorem usage_series_equals_filtering:
  fixes rfc3339 info records from_ms to_ms g
  defines "step \<equiv> granularity_millis g"
  defines "first \<equiv> from_ms div step * step"
  defines "n \<equiv> u64_div_ceil (to_ms - first) step"
  assumes "sorted (map sr_at_ms records)" and "from_ms \<le> to_ms"
    and "list_all (\<lambda>r. from_ms \<le> sr_at_ms r \<and> sr_at_ms r < to_ms) records"
  shows "urp_series (usage_report_of rfc3339 info records from_ms to_ms g) =
           map (\<lambda>k. \<lparr>ub_start = rfc3339 (first + k * step),
                     ub_stats = stats_of (bucket_records (first + k * step) step records) (rv_entitlement_wu_s info) step\<rparr>)
             [0..<n]
       \<and> concat (map (\<lambda>k. bucket_records (first + k * step) step records) [0..<n]) = records
       \<and> n \<le> u64_div_ceil (to_ms - from_ms) step + 1"
proof -
  note pts = series_points[OF assms(5), of g, folded step_def, folded first_def, folded n_def]
  have "first \<le> from_ms" by (simp add: first_def)
  then have "filter (\<lambda>r. first \<le> sr_at_ms r \<and> sr_at_ms r < first + n * step) records = records"
    using assms(6) pts(1) by (auto simp: filter_id_conv list_all_iff)
  then show ?thesis
    using usage_series_buckets[OF assms(4), of rfc3339 "rv_entitlement_wu_s info" g to_ms first, folded step_def, folded n_def]
      buckets_concat[OF assms(4), of first step n] pts(2)
    by (simp add: usage_report_of_def Let_def step_def first_def)
qed

definition demo_info :: reservation_info where
  "demo_info =
     \<lparr>rv_id = ''pt-1'', rv_tenant = ''acme'', rv_tier = Standard, rv_cus = 1, rv_entitlement_wu_s = 1,
      rv_monthly_price = 1000, rv_currency = ''USD'',
      rv_shape = \<lparr>input_p95 = 1, input_max = 1, output_p95 = 1, context_ceiling = 1, cache_hit_ratio = 0,
                  burst_factor = 1\<rparr>, rv_exclusions = []\<rparr>"

theorem usage_series_equals_filtering_witness:
  "concat (map (\<lambda>k. bucket_records (k * 60000) 60000
       [stored ''eu'' 0 (demo_usage ''a'' 70000), stored ''eu'' 0 (demo_usage ''b'' 130000)]) [0..<3])
     = [stored ''eu'' 0 (demo_usage ''a'' 70000), stored ''eu'' 0 (demo_usage ''b'' 130000)]
   \<and> length (urp_series (usage_report_of (\<lambda>_. []) demo_info
       [stored ''eu'' 0 (demo_usage ''a'' 70000), stored ''eu'' 0 (demo_usage ''b'' 130000)] 50000 170000 Minute)) = 3"
  using usage_series_equals_filtering[of "[stored ''eu'' 0 (demo_usage ''a'' 70000), stored ''eu'' 0 (demo_usage ''b'' 130000)]"
      50000 170000 "\<lambda>_. []" demo_info Minute]
  by (simp add: stored_def demo_usage_def ingest_at_def u64_div_ceil_def)

text \<open>
  The limit on points is not exact. The handler refuses a query that would give more than
  2000 points by the length of the period, but the series starts at the step before
  \<open>from\<close>, so a period of exactly 2000 steps that does not start on a step is accepted and
  gives 2001 points.
\<close>

theorem usage_points_above_limit:
  fixes rfc3339
  defines "dir \<equiv> \<lparr>dir_tenant_for_key = \<lambda>_. Some ''acme'', dir_region_for_token = \<lambda>_. None,
                   dir_reservation = \<lambda>_ _. Inr (Some demo_info), dir_now_ms = 120030000\<rparr>"
    and "q \<equiv> \<lparr>q_from = Some ''f'', q_to = None, q_granularity = Some ''1m'', q_deployment = None\<rparr>"
  shows "MAX_BUCKETS = 2000
       \<and> (\<exists>rep. api_usage_report rfc3339 (\<lambda>_. Some 30000) dir (Some ''Bearer k'') ''pt-1'' q usage_empty = TelUsage rep
              \<and> length (urp_series rep) = 2001)"
proof -
  have "api_usage_report rfc3339 (\<lambda>_. Some 30000) dir (Some ''Bearer k'') ''pt-1'' q usage_empty
      = TelUsage ((usage_report_of rfc3339 demo_info [] 30000 120030000 Minute)\<lparr>urp_deployment := None\<rparr>)"
    by (simp add: api_usage_report_def api_reservation_def api_range_def parse_opt_def parse_ms_def dir_def q_def
        bearer_def strip_prefix_def api_granularity_def granularity_parse_def MAX_RANGE_MS_def MAX_BUCKETS_def
        u64_div_ceil_def usage_range_def usage_empty_def demo_info_def)
  moreover have "length (urp_series (usage_report_of rfc3339 demo_info [] 30000 120030000 Minute)) = 2001"
    by (simp add: usage_report_of_def usage_series_buckets u64_div_ceil_def Let_def)
  ultimately show ?thesis by (simp add: MAX_BUCKETS_def)
qed

end
