(* ===== verification/Billing.thy ===== *)
theory Billing
  imports Incidents Sla
begin

text \<open>
  Monthly invoices (\<open>billing.rs\<close>) and the reservation directory of the control plane
  (\<open>telemetry.rs\<close>): the rate timeline of a reservation from its events, fee, spillover and
  credit lines, drafts, and the finalisation that stores an invoice. The calendar and the
  formatting of a percentage come from libraries and are parameters. Amounts are integers of minor units.
\<close>

section \<open>Configuration and dates\<close>

record payg_price =
  pp_model :: string
  pp_input_per_mtok :: nat
  pp_cached_input_per_mtok :: nat
  pp_output_per_mtok :: nat

record telemetry_config =
  tc_wu_per_cu :: real
  tc_change_grace_minutes :: nat
  tc_failover_window_minutes :: nat

text \<open>The parts of the configuration that only billing and telemetry read.\<close>

record billing_config =
  bc_payg_prices :: "payg_price list"
  bc_telemetry :: telemetry_config
  bc_finalize_grace_hours :: nat
  bc_tenants :: "string list"

definition payg_price_for :: "billing_config \<Rightarrow> string \<Rightarrow> payg_price option" where
  "payg_price_for bc model = find (\<lambda>p. pp_model p = model) (bc_payg_prices bc)"

text \<open>
  \<open>cl_first y m\<close> is the first instant of a month in UTC and \<open>cl_next y m\<close> of the one after it,
  if they exist; \<open>cl_year_month\<close> the year and month of an instant. \<open>cl_rfc3339\<close> prints
  milliseconds, \<open>cl_fixed2\<close> a number with two decimals.
\<close>

record calendar =
  cl_first :: "int \<Rightarrow> int \<Rightarrow> timestamp option"
  cl_next :: "int \<Rightarrow> int \<Rightarrow> timestamp option"
  cl_year_month :: "timestamp \<Rightarrow> int \<times> int"
  cl_rfc3339 :: "nat \<Rightarrow> string"
  cl_fixed2 :: "real \<Rightarrow> string"

text \<open>Printing and parsing of integers, as \<open>format!\<close> with a minimal width and \<open>str::parse\<close> do it.\<close>

fun nat_digits :: "nat \<Rightarrow> string" where
  "nat_digits n = (if n < 10 then [char_of (48 + n)] else nat_digits (n div 10) @ [char_of (48 + n mod 10)])"

declare nat_digits.simps [simp del]

definition pad_int :: "nat \<Rightarrow> int \<Rightarrow> string" where
  "pad_int w i =
     (let ds = nat_digits (nat \<bar>i\<bar>);
          sign = (if i < 0 then ''-'' else [])
      in sign @ replicate (w - length sign - length ds) (CHR ''0'') @ ds)"

definition is_digit :: "char \<Rightarrow> bool" where
  "is_digit c \<longleftrightarrow> (48 :: nat) \<le> of_char c \<and> of_char c \<le> (57 :: nat)"

definition digits_value :: "string \<Rightarrow> nat" where
  "digits_value s = foldl (\<lambda>n c. n * 10 + (of_char c - 48)) 0 s"

definition parse_int :: "int \<Rightarrow> int \<Rightarrow> string \<Rightarrow> int option" where
  "parse_int lo hi s =
     (let (neg, ds) = (case s of
            [] \<Rightarrow> (False, [])
          | c # cs \<Rightarrow> if c = CHR ''-'' then (True, cs) else if c = CHR ''+'' then (False, cs) else (False, s))
      in if ds = [] \<or> \<not> list_all is_digit ds then None
         else let v = (if neg then - int (digits_value ds) else int (digits_value ds))
              in if lo \<le> v \<and> v \<le> hi then Some v else None)"

definition month_bounds :: "calendar \<Rightarrow> string \<Rightarrow> (timestamp \<times> timestamp) option" where
  "month_bounds cal period =
     (case split_once (CHR ''-'') period of
        None \<Rightarrow> None
      | Some (y, m) \<Rightarrow>
          if length m \<noteq> 2 then None
          else case (parse_int (- 32768) 32767 y, parse_int (- 128) 127 m) of
            (Some yy, Some mm) \<Rightarrow>
              (case (cl_first cal yy mm, cl_next cal yy mm) of
                 (Some a, Some b) \<Rightarrow> Some (a, b)
               | _ \<Rightarrow> None)
          | _ \<Rightarrow> None)"

definition period_of :: "calendar \<Rightarrow> timestamp \<Rightarrow> string" where
  "period_of cal t = (case cl_year_month cal t of (y, m) \<Rightarrow> pad_int 4 y @ ''-'' @ pad_int 2 m)"

definition previous_period :: "calendar \<Rightarrow> string \<Rightarrow> string option" where
  "previous_period cal period =
     map_option (\<lambda>(start, _). period_of cal (start - 1000000000)) (month_bounds cal period)"

section \<open>The rate timeline\<close>

record rate_segment =
  sg_from :: timestamp
  sg_to :: timestamp
  sg_cus :: nat
  sg_tier :: tier
  sg_monthly :: nat

record timeline =
  tl_out :: "rate_segment list"
  tl_open :: "timestamp option"
  tl_cus :: nat
  tl_tier :: tier
  tl_monthly :: nat

text \<open>The closure \<open>change\<close>: close the open stretch at \<open>t\<close>, and open the next one there if it goes on.\<close>

definition tl_change :: "timestamp \<Rightarrow> bool \<Rightarrow> timeline \<Rightarrow> timeline" where
  "tl_change t still tm =
     (let out = (case tl_open tm of
            None \<Rightarrow> tl_out tm
          | Some from \<Rightarrow>
              if from < t
              then tl_out tm @ [\<lparr>sg_from = from, sg_to = t, sg_cus = tl_cus tm, sg_tier = tl_tier tm, sg_monthly = tl_monthly tm\<rparr>]
              else tl_out tm)
      in tm\<lparr>tl_out := out, tl_open := (if still then Some t else None)\<rparr>)"

definition tl_event :: "(tier \<Rightarrow> nat \<Rightarrow> nat) \<Rightarrow> timeline \<Rightarrow> event \<Rightarrow> timeline" where
  "tl_event price_of tm e =
     (let active = (tl_open tm \<noteq> None)
      in case ev_kind e of
           EvCreated c m \<Rightarrow> tm\<lparr>tl_cus := c, tl_monthly := m\<rparr>
         | EvActivated c t m \<Rightarrow>
             let tm = tl_change (ev_at e) False tm;
                 cus = (case c of None \<Rightarrow> tl_cus tm | Some c \<Rightarrow> c);
                 tier = (case t of None \<Rightarrow> tl_tier tm | Some t \<Rightarrow> t);
                 monthly = (case m of None \<Rightarrow> price_of tier cus | Some m \<Rightarrow> m)
             in tm\<lparr>tl_cus := cus, tl_tier := tier, tl_monthly := monthly, tl_open := Some (ev_at e)\<rparr>
         | EvCapacityIncreased region from to charge c m \<Rightarrow>
             let tm = tl_change (ev_at e) active tm;
                 cus = (case c of None \<Rightarrow> u32_add (tl_cus tm) (to - from) | Some c \<Rightarrow> c)
             in tm\<lparr>tl_cus := cus, tl_monthly := (case m of None \<Rightarrow> price_of (tl_tier tm) cus | Some m \<Rightarrow> m)\<rparr>
         | EvChangeApplied t regions m \<Rightarrow>
             let tm = tl_change (ev_at e) active tm;
                 cus = total_cus regions
             in tm\<lparr>tl_tier := t, tl_cus := cus, tl_monthly := (case m of None \<Rightarrow> price_of t cus | Some m \<Rightarrow> m)\<rparr>
         | EvRenewed from to m \<Rightarrow> (tl_change (ev_at e) active tm)\<lparr>tl_monthly := m\<rparr>
         | EvEnded \<Rightarrow> tl_change (ev_at e) False tm
         | EvCancelled \<Rightarrow> tl_change (ev_at e) False tm
         | _ \<Rightarrow> tm)"

definition rate_timeline ::
  "provisioned_throughput \<Rightarrow> timestamp \<Rightarrow> (tier \<Rightarrow> nat \<Rightarrow> nat) \<Rightarrow> rate_segment list" where
  "rate_timeline pt until price_of =
     (let start = \<lparr>tl_out = [], tl_open = None, tl_cus = pt_cus pt, tl_tier = pt_tier pt,
                   tl_monthly = price_of (pt_tier pt) (pt_cus pt)\<rparr>;
          tm = foldl (tl_event price_of) start (filter (\<lambda>e. ev_at e < until) (sort_key ev_at (pt_events pt)))
      in case tl_open tm of
           None \<Rightarrow> tl_out tm
         | Some from \<Rightarrow>
             let stop = (if pt_state pt = PendingCancellation then min until (pt_term_end pt) else until)
             in if from < stop
                then tl_out tm @ [\<lparr>sg_from = from, sg_to = stop, sg_cus = tl_cus tm, sg_tier = tl_tier tm, sg_monthly = tl_monthly tm\<rparr>]
                else tl_out tm)"

section \<open>Lines\<close>

text \<open>Casts to \<open>i64\<close>: from \<open>u64\<close> it wraps, from \<open>f64\<close> it saturates.\<close>

definition u64_as_i64 :: "nat \<Rightarrow> int" where
  "u64_as_i64 n = (if n < 2 ^ 63 then int n else int n - 2 ^ 64)"

definition f64_as_i64 :: "real \<Rightarrow> int" where
  "f64_as_i64 x = max (- (2 ^ 63)) (min (2 ^ 63 - 1) (if 0 \<le> x then \<lfloor>x\<rfloor> else \<lceil>x\<rceil>))"

fun tier_name :: "tier \<Rightarrow> string" where
  "tier_name Interactive = ''Interactive''"
| "tier_name Agentic = ''Agentic''"
| "tier_name Standard = ''Standard''"

definition fee_line :: "provisioned_throughput \<Rightarrow> timestamp \<Rightarrow> timestamp \<Rightarrow> rate_segment \<Rightarrow> invoice_line option" where
  "fee_line pt start stop s =
     (let from = max (sg_from s) start; to = min (sg_to s) stop
      in if to \<le> from then None
         else let fraction = span_secs from to / span_secs start stop
              in Some \<lparr>il_kind = ReservationFee, il_reservation = pt_id pt, il_reservation_name = pt_name pt,
                       il_description = pt_name pt @ '': '' @ nat_digits (sg_cus s) @ '' CU '' @ tier_name (sg_tier s) @ '' ('' @ pt_model pt @ '')'',
                       il_from = from, il_to = to, il_quantity = f64_round (fraction * 1000000) / 1000000, il_unit = ''month'',
                       il_unit_price = u64_as_i64 (sg_monthly s),
                       il_amount = f64_as_i64 (f64_round (real (sg_monthly s) * fraction))\<rparr>)"

definition fee_lines ::
  "provisioned_throughput \<Rightarrow> timestamp \<Rightarrow> timestamp \<Rightarrow> timestamp \<Rightarrow> (tier \<Rightarrow> nat \<Rightarrow> nat) \<Rightarrow> invoice_line list" where
  "fee_lines pt start stop until price_of =
     List.map_filter (fee_line pt start stop) (rate_timeline pt (min until stop) price_of)"

definition ran :: "usage_record \<Rightarrow> bool" where
  "ran r \<longleftrightarrow> (case ur_outcome r of Ok \<Rightarrow> True | ClientCancelled \<Rightarrow> True | _ \<Rightarrow> False)"

definition spilled :: "stored_record list \<Rightarrow> usage_record list" where
  "spilled records = filter (\<lambda>r. ur_class r = Some Spillover \<and> ran r) (map sr_record records)"

definition spillover_line ::
  "provisioned_throughput \<Rightarrow> timestamp \<Rightarrow> timestamp \<Rightarrow> string \<times> nat \<times> nat \<Rightarrow> invoice_line" where
  "spillover_line pt start stop x =
     (case x of (what, tokens, per_mtok) \<Rightarrow>
        \<lparr>il_kind = SpilloverLine, il_reservation = pt_id pt, il_reservation_name = pt_name pt,
         il_description = pt_name pt @ '': spillover '' @ what @ '' tokens at PAYG price'',
         il_from = start, il_to = stop, il_quantity = real tokens / 1000000, il_unit = ''1M tokens'',
         il_unit_price = u64_as_i64 per_mtok,
         il_amount = f64_as_i64 (f64_round (real tokens * real per_mtok / 1000000))\<rparr>)"

definition spillover_lines ::
  "provisioned_throughput \<Rightarrow> stored_record list \<Rightarrow> payg_price \<Rightarrow> timestamp \<Rightarrow> timestamp \<Rightarrow> invoice_line list" where
  "spillover_lines pt records price start stop =
     (let rs = spilled records
      in map (spillover_line pt start stop) (filter (\<lambda>(_, tokens, _). 0 < tokens)
           [(''input'', sum_list (map (\<lambda>r. tb_uncached_prefill (ur_tokens r)) rs), pp_input_per_mtok price),
            (''cached input'', sum_list (map (\<lambda>r. tb_cached_prefill (ur_tokens r)) rs), pp_cached_input_per_mtok price),
            (''output'', sum_list (map (\<lambda>r. tb_decode (ur_tokens r)) rs), pp_output_per_mtok price)]))"

definition credit_line ::
  "calendar \<Rightarrow> provisioned_throughput \<Rightarrow> nat \<Rightarrow> real \<Rightarrow> int \<Rightarrow> timestamp \<Rightarrow> timestamp \<Rightarrow> invoice_line option" where
  "credit_line cal pt pct attainment_pct fee start stop =
     (if 0 < pct \<and> 0 < fee
      then Some \<lparr>il_kind = SlaCredit, il_reservation = pt_id pt, il_reservation_name = pt_name pt,
                 il_description = pt_name pt @ '': SLA credit, '' @ cl_fixed2 cal attainment_pct @ ''% attainment'',
                 il_from = start, il_to = stop, il_quantity = real pct, il_unit = ''percent'', il_unit_price = fee,
                 il_amount = - (fee * int pct div 100)\<rparr>
      else None)"

section \<open>The reservation directory (telemetry.rs)\<close>

definition change_reason :: "event_kind \<Rightarrow> string option" where
  "change_reason k =
     (case k of
        EvActivated _ _ _ \<Rightarrow> Some ''activation''
      | EvCapacityIncreased _ _ _ _ _ _ \<Rightarrow> Some ''resize''
      | EvShapeUpdated \<Rightarrow> Some ''shape_change''
      | EvChangeApplied _ _ _ \<Rightarrow> Some ''scheduled_change''
      | EvSplitRebalanced _ _ \<Rightarrow> Some ''rebalance''
      | EvRelocated _ \<Rightarrow> Some ''relocation''
      | _ \<Rightarrow> None)"

definition change_window :: "nat \<Rightarrow> event \<Rightarrow> exclusion_window option" where
  "change_window grace e =
     map_option (\<lambda>reason. \<lparr>ew_start_ms = ms_of (ev_at e), ew_end_ms = ms_of (ev_at e) + grace, ew_reason = reason, ew_region = None\<rparr>)
       (change_reason (ev_kind e))"

definition incident_window :: "sku \<Rightarrow> nat \<Rightarrow> nat \<Rightarrow> region_incident \<Rightarrow> exclusion_window" where
  "incident_window sk failover now_ms inc =
     (let start = ms_of (ri_started_at inc);
          stop = (case ri_ended_at inc of None \<Rightarrow> max now_ms (start + 1) | Some e \<Rightarrow> ms_of e)
      in case sk of
           MultiRegion \<Rightarrow> \<lparr>ew_start_ms = start, ew_end_ms = min stop (start + failover), ew_reason = ''failover'', ew_region = None\<rparr>
         | Regional \<Rightarrow> \<lparr>ew_start_ms = start, ew_end_ms = stop, ew_reason = ''region_outage'', ew_region = Some (ri_region inc)\<rparr>)"

definition exclusion_windows ::
  "provisioned_throughput \<Rightarrow> region_incident list \<Rightarrow> telemetry_config \<Rightarrow> nat \<Rightarrow> exclusion_window list" where
  "exclusion_windows pt incidents config now_ms =
     (let grace = tc_change_grace_minutes config * 60000;
          failover = tc_failover_window_minutes config * 60000;
          changes = filter (\<lambda>w. ew_start_ms w < ew_end_ms w) (List.map_filter (change_window grace) (pt_events pt));
          outages = map (incident_window (pt_sku pt) failover now_ms)
            (filter (\<lambda>inc. list_ex (\<lambda>r. rs_region r = ri_region inc) (pt_regions pt)) incidents)
      in sort_key ew_start_ms (changes @ outages))"

definition cp_reservation :: "billing_config \<Rightarrow> service \<Rightarrow> timestamp \<Rightarrow> string \<Rightarrow> string \<Rightarrow> reservation_info option" where
  "cp_reservation bc sv now tenant pid =
     (case svc_get sv tenant pid of
        Inl _ \<Rightarrow> None
      | Inr pt \<Rightarrow>
          Some \<lparr>rv_id = pt_id pt, rv_tenant = pt_tenant pt, rv_tier = pt_tier pt, rv_cus = pt_cus pt,
                rv_entitlement_wu_s = real (pt_cus pt) * tc_wu_per_cu (bc_telemetry bc),
                rv_monthly_price = pr_monthly (pt_price pt), rv_currency = pr_currency (pt_price pt), rv_shape = pt_shape pt,
                rv_exclusions = exclusion_windows pt (svc_incidents sv) (bc_telemetry bc) (ms_of now)\<rparr>)"

section \<open>Invoices\<close>

definition invoice_totals :: "invoice \<Rightarrow> invoice" where
  "invoice_totals iv =
     (let subtotal = sum_list (map il_amount (filter (\<lambda>l. il_kind l \<noteq> SlaCredit) (iv_lines iv)));
          credits = sum_list (map il_amount (filter (\<lambda>l. il_kind l = SlaCredit) (iv_lines iv)))
      in iv\<lparr>iv_subtotal := subtotal, iv_credits := credits, iv_total := subtotal + credits\<rparr>)"

definition reservation_lines ::
  "service_ctx \<Rightarrow> billing_config \<Rightarrow> calendar \<Rightarrow> usage_inner \<Rightarrow> service \<Rightarrow> timestamp \<Rightarrow> string \<Rightarrow> string
   \<Rightarrow> timestamp \<Rightarrow> timestamp \<Rightarrow> provisioned_throughput \<Rightarrow> invoice_line list" where
  "reservation_lines ctx bc cal usage sv now tenant period start stop pt =
     (if stop \<le> pt_created_at pt then []
      else
        let price_of = (\<lambda>tier cus. pr_monthly (svc_price ctx tier (pt_isolation pt) (pt_sku pt) cus));
            fees = fee_lines pt start stop now price_of;
            fee = sum_list (map il_amount fees);
            records = usage_range tenant (pt_id pt) (ms_of start) (ms_of stop) usage;
            spill = (case payg_price_for bc (pt_model pt) of
                       None \<Rightarrow> [] | Some price \<Rightarrow> spillover_lines pt records price start stop);
            credit = (if stop \<le> now \<and> 0 < fee
                      then case cp_reservation bc sv now tenant (pt_id pt) of
                             None \<Rightarrow> []
                           | Some info \<Rightarrow>
                               let rep = sla_report_of (cl_rfc3339 cal) info records period (ms_of start, ms_of stop) True
                               in opt_list (credit_line cal pt (rp_credit_pct rep) (rp_attainment_pct rep) fee start stop)
                      else [])
        in fees @ spill @ credit)"

definition compute ::
  "service_ctx \<Rightarrow> billing_config \<Rightarrow> calendar \<Rightarrow> usage_inner \<Rightarrow> service \<Rightarrow> timestamp \<Rightarrow> string \<Rightarrow> string
   \<Rightarrow> service_error + invoice" where
  "compute ctx bc cal usage sv now tenant period =
     (case month_bounds cal period of
        None \<Rightarrow> Inl (Validation ''period'')
      | Some (start, stop) \<Rightarrow>
          Inr (invoice_totals
            \<lparr>iv_id = ''inv-'' @ tenant @ ''-'' @ period, iv_tenant = tenant, iv_period = period,
             iv_period_start = start, iv_period_end = stop, iv_currency = pg_currency (sc_pricing (cx_config ctx)),
             iv_status = Draft,
             iv_lines = concat (map (reservation_lines ctx bc cal usage sv now tenant period start stop) (svc_list sv tenant None True)),
             iv_subtotal = 0, iv_credits = 0, iv_total = 0, iv_generated_at = now, iv_finalized_at = None\<rparr>))"

definition svc_invoice ::
  "service_ctx \<Rightarrow> billing_config \<Rightarrow> calendar \<Rightarrow> usage_inner \<Rightarrow> service \<Rightarrow> timestamp \<Rightarrow> string \<Rightarrow> string
   \<Rightarrow> service_error + invoice" where
  "svc_invoice ctx bc cal usage sv now tenant period =
     (case get_invoice (sv_store sv) tenant period of
        Some iv \<Rightarrow> Inr iv
      | None \<Rightarrow>
          let current = period_of cal now;
              previous = (case previous_period cal current of None \<Rightarrow> [] | Some p \<Rightarrow> p)
          in if period \<noteq> current \<and> period \<noteq> previous
             then (case month_bounds cal period of None \<Rightarrow> Inl (Validation ''period'') | Some _ \<Rightarrow> Inl NotFound)
             else compute ctx bc cal usage sv now tenant period)"

text \<open>One tenant of the finalisation; \<open>fault\<close> is what the write of its invoice runs into.\<close>

definition finalize_tenant ::
  "service_ctx \<Rightarrow> billing_config \<Rightarrow> calendar \<Rightarrow> usage_inner \<Rightarrow> timestamp \<Rightarrow> string \<Rightarrow> (string \<Rightarrow> store_error option)
   \<Rightarrow> string \<Rightarrow> invoice list \<times> service \<Rightarrow> (service_error + invoice list) \<times> service" where
  "finalize_tenant ctx bc cal usage now period fault tenant st =
     (case st of (ivs, sv) \<Rightarrow>
       if get_invoice (sv_store sv) tenant period \<noteq> None then (Inr ivs, sv)
       else case compute ctx bc cal usage sv now tenant period of
         Inl e \<Rightarrow> (Inl e, sv)
       | Inr iv \<Rightarrow>
           if iv_lines iv = [] then (Inr ivs, sv)
           else
             let iv = iv\<lparr>iv_status := Final, iv_finalized_at := Some now\<rparr>
             in (case (case fault tenant of Some e \<Rightarrow> Inl e | None \<Rightarrow> insert_invoice (sv_store sv) iv) of
                   Inr st \<Rightarrow> (Inr (ivs @ [iv]), sv\<lparr>sv_store := st\<rparr>)
                 | Inl e \<Rightarrow> (case e of AlreadyExists _ \<Rightarrow> (Inr ivs, sv) | _ \<Rightarrow> (Inl (from_store_error e), sv))))"

fun finalize_each ::
  "service_ctx \<Rightarrow> billing_config \<Rightarrow> calendar \<Rightarrow> usage_inner \<Rightarrow> timestamp \<Rightarrow> string \<Rightarrow> (string \<Rightarrow> store_error option)
   \<Rightarrow> string list \<Rightarrow> invoice list \<times> service \<Rightarrow> (service_error + invoice list) \<times> service" where
  "finalize_each ctx bc cal usage now period fault [] (ivs, sv) = (Inr ivs, sv)"
| "finalize_each ctx bc cal usage now period fault (t # ts) (ivs, sv) =
     (case finalize_tenant ctx bc cal usage now period fault t (ivs, sv) of
        (Inl e, sv) \<Rightarrow> (Inl e, sv)
      | (Inr ivs, sv) \<Rightarrow> finalize_each ctx bc cal usage now period fault ts (ivs, sv))"

text \<open>None is the panic of \<open>expect\<close>, for a previous period that is not a month.\<close>

definition finalize_due ::
  "service_ctx \<Rightarrow> billing_config \<Rightarrow> calendar \<Rightarrow> usage_inner \<Rightarrow> service \<Rightarrow> timestamp \<Rightarrow> (string \<Rightarrow> store_error option)
   \<Rightarrow> ((service_error + invoice list) \<times> service) option" where
  "finalize_due ctx bc cal usage sv now fault =
     (case previous_period cal (period_of cal now) of
        None \<Rightarrow> Some (Inr [], sv)
      | Some period \<Rightarrow>
          (case month_bounds cal period of
             None \<Rightarrow> None
           | Some (_, stop) \<Rightarrow>
               if now < stop + int (bc_finalize_grace_hours bc) * 3600 * 1000000000 then Some (Inr [], sv)
               else Some (finalize_each ctx bc cal usage now period fault (bc_tenants bc) ([], sv))))"

text \<open>The drafts that \<open>list\<close> adds to the stored invoices, in the order of its loop.\<close>

fun add_drafts ::
  "service_ctx \<Rightarrow> billing_config \<Rightarrow> calendar \<Rightarrow> usage_inner \<Rightarrow> service \<Rightarrow> timestamp \<Rightarrow> string \<Rightarrow> string list \<Rightarrow> invoice list
   \<Rightarrow> service_error + invoice list" where
  "add_drafts ctx bc cal usage sv now tenant [] out = Inr out"
| "add_drafts ctx bc cal usage sv now tenant (period # ps) out =
     (if list_ex (\<lambda>i. iv_period i = period) out then add_drafts ctx bc cal usage sv now tenant ps out
      else case compute ctx bc cal usage sv now tenant period of
        Inl e \<Rightarrow> Inl e
      | Inr draft \<Rightarrow> add_drafts ctx bc cal usage sv now tenant ps (if iv_lines draft = [] then out else out @ [draft]))"

definition svc_list_invoices ::
  "service_ctx \<Rightarrow> billing_config \<Rightarrow> calendar \<Rightarrow> usage_inner \<Rightarrow> service \<Rightarrow> timestamp \<Rightarrow> string \<Rightarrow> service_error + invoice list" where
  "svc_list_invoices ctx bc cal usage sv now tenant =
     (let current = period_of cal now;
          previous = (case previous_period cal current of None \<Rightarrow> [] | Some p \<Rightarrow> p)
      in case add_drafts ctx bc cal usage sv now tenant [previous, current] (list_invoices (sv_store sv) tenant) of
           Inl e \<Rightarrow> Inl e
         | Inr out \<Rightarrow> Inr (sort_newest out))"

end
