(* ===== verification/Fees.thy ===== *)
theory Fees
  imports Billing
begin

text \<open>
  What an invoice charges: the stretches of a rate timeline are disjoint and in order, the fee of
  a month never exceeds its highest rate by more than the rounding of its lines, credits never
  exceed the fee they are for, and the totals add up.
\<close>

section \<open>Stretches of a timeline\<close>

definition stretches :: "rate_segment list \<Rightarrow> bool" where
  "stretches ss \<longleftrightarrow> sorted_wrt (\<lambda>a b. sg_to a \<le> sg_from b) ss \<and> list_all (\<lambda>s. sg_from s < sg_to s) ss"

definition ends_by :: "timestamp \<Rightarrow> rate_segment list \<Rightarrow> bool" where
  "ends_by t ss \<longleftrightarrow> list_all (\<lambda>s. sg_to s \<le> t) ss"

lemma stretches_snoc:
  "stretches ss \<Longrightarrow> ends_by (sg_from s) ss \<Longrightarrow> sg_from s < sg_to s \<Longrightarrow> stretches (ss @ [s])"
  by (auto simp: stretches_def ends_by_def sorted_wrt_append list_all_iff)

lemma ends_by_mono: "ends_by t ss \<Longrightarrow> t \<le> t' \<Longrightarrow> ends_by t' ss"
  by (auto simp: ends_by_def list_all_iff)

definition timeline_ok :: "timestamp \<Rightarrow> timeline \<Rightarrow> bool" where
  "timeline_ok t tm \<longleftrightarrow> stretches (tl_out tm) \<and> ends_by t (tl_out tm) \<and>
     (case tl_open tm of None \<Rightarrow> True | Some f \<Rightarrow> f \<le> t \<and> ends_by f (tl_out tm))"

lemma timeline_change:
  assumes "timeline_ok t tm" and "t \<le> t'"
  shows "timeline_ok t' (tl_change t' still tm)"
proof -
  have "ends_by t' (tl_out tm)" using assms ends_by_mono by (auto simp: timeline_ok_def)
  then show ?thesis using assms
    by (auto simp: timeline_ok_def tl_change_def Let_def stretches_snoc split: option.splits) (auto simp: ends_by_def)
qed

lemma timeline_fields:
  assumes "tl_out tm' = tl_out tm" and "tl_open tm' = tl_open tm"
  shows "timeline_ok t tm' = timeline_ok t tm"
  using assms by (simp add: timeline_ok_def split: option.split)

lemma timeline_mono: "timeline_ok t tm \<Longrightarrow> t \<le> t' \<Longrightarrow> timeline_ok t' tm"
  by (auto simp: timeline_ok_def intro: ends_by_mono split: option.splits)

lemma timeline_event:
  assumes "timeline_ok t tm" and "t \<le> ev_at e"
  shows "timeline_ok (ev_at e) (tl_event price_of tm e)"
proof -
  note c = timeline_change[OF assms]
  have a: "timeline_ok (ev_at e) (tm'\<lparr>tl_cus := x, tl_tier := y, tl_monthly := z, tl_open := Some (ev_at e)\<rparr>)"
    if "timeline_ok (ev_at e) tm'" for tm' x y z
    using that by (simp add: timeline_ok_def)
  have f: "timeline_ok (ev_at e) (tm'\<lparr>tl_cus := x, tl_monthly := z\<rparr>)" "timeline_ok (ev_at e) (tm'\<lparr>tl_tier := y, tl_cus := x, tl_monthly := z\<rparr>)"
    "timeline_ok (ev_at e) (tm'\<lparr>tl_monthly := z\<rparr>)" if "timeline_ok (ev_at e) tm'" for tm' x y z
    using that by (simp_all add: timeline_ok_def split: option.splits)
  show ?thesis
    using c timeline_mono[OF assms] by (cases "ev_kind e") (auto simp: tl_event_def Let_def intro: a f)
qed

lemma timeline_fold:
  "sorted (map ev_at es) \<Longrightarrow> timeline_ok t tm \<Longrightarrow> (\<forall>e\<in>set es. t \<le> ev_at e \<and> ev_at e \<le> u) \<Longrightarrow> t \<le> u
   \<Longrightarrow> timeline_ok u (foldl (tl_event price_of) tm es)"
proof (induction es arbitrary: t tm)
  case Nil
  then show ?case using timeline_mono by simp
next
  case (Cons e es)
  have "timeline_ok (ev_at e) (tl_event price_of tm e)" using timeline_event Cons.prems by simp
  then show ?case using Cons.IH[of "ev_at e" "tl_event price_of tm e"] Cons.prems by simp
qed

lemma timeline_start: "tl_out tm = [] \<Longrightarrow> tl_open tm = None \<Longrightarrow> timeline_ok t tm"
  by (simp add: timeline_ok_def stretches_def ends_by_def)

lemma sorted_filter_events: "sorted (map ev_at (filter P (sort_key ev_at es)))"
  by (simp add: sorted_filter)

lemma rate_timeline_stretches: "stretches (rate_timeline pt until price_of) \<and> ends_by until (rate_timeline pt until price_of)"
proof -
  let ?es = "filter (\<lambda>e. ev_at e < until) (sort_key ev_at (pt_events pt))"
  let ?start = "\<lparr>tl_out = [], tl_open = None, tl_cus = pt_cus pt, tl_tier = pt_tier pt, tl_monthly = price_of (pt_tier pt) (pt_cus pt)\<rparr>"
  let ?tm = "foldl (tl_event price_of) ?start ?es"
  let ?lo = "Min (insert until (ev_at ` set ?es))"
  have "timeline_ok until ?tm"
    by (rule timeline_fold[OF sorted_filter_events timeline_start, where t = ?lo]) auto
  then show ?thesis
    by (auto simp: rate_timeline_def Let_def timeline_ok_def ends_by_def list_all_iff intro!: stretches_snoc split: option.splits)
qed

section \<open>Fees\<close>

lemma f64_round_bounds: "f64_round x \<le> x + 1/2"
proof (cases "0 \<le> x")
  case False
  then show ?thesis using ceiling_correct[of "x - 1/2"] by (simp add: f64_round_def)
qed (simp add: f64_round_def)

lemma f64_round_int: "f64_round (of_int i) = of_int i"
  by (simp add: f64_round_def) linarith

lemma f64_as_i64_bounds:
  assumes "0 \<le> x"
  shows "0 \<le> f64_as_i64 (f64_round x)" "real_of_int (f64_as_i64 (f64_round x)) \<le> x + 1/2"
proof -
  obtain n where n: "f64_round x = of_int n" "0 \<le> n" using assms by (simp add: f64_round_def)
  then have "f64_as_i64 (f64_round x) = min (2 ^ 63 - 1) n" by (simp add: f64_as_i64_def)
  then show "0 \<le> f64_as_i64 (f64_round x)" "real_of_int (f64_as_i64 (f64_round x)) \<le> x + 1/2"
    using n f64_round_bounds[of x] by (simp_all add: min_def)
qed

lemma f64_as_i64_nat: "n < 2 ^ 63 \<Longrightarrow> f64_as_i64 (f64_round (real n)) = int n"
  using f64_round_int[of "int n"] by (simp add: f64_as_i64_def)

lemma fee_line_Some:
  assumes "fee_line pt start stop s = Some l"
  shows "il_kind l = ReservationFee" "il_from l = max (sg_from s) start" "il_to l = min (sg_to s) stop" "il_from l < il_to l"
    "il_amount l = f64_as_i64 (f64_round (real (sg_monthly s) * (span_secs (il_from l) (il_to l) / span_secs start stop)))"
    "start \<le> il_from l" "il_to l \<le> stop"
  using assms by (auto simp: fee_line_def Let_def split: if_splits)

lemma span_fraction:
  assumes "start \<le> a" "a < b" "b \<le> stop"
  shows "0 \<le> span_secs a b / span_secs start stop" "span_secs a b / span_secs start stop \<le> 1"
  using assms by (simp_all add: span_secs_def divide_simps)

lemma span_ratio: "span_secs a b / span_secs c d = real_of_int (b - a) / real_of_int (d - c)"
proof -
  have cancel: "x / k / (y / k) = x / y" if "k \<noteq> 0" for x y k :: real using that by simp
  show ?thesis unfolding span_secs_def by (rule cancel) simp
qed

text \<open>Parts of a month that do not overlap fit into it.\<close>

definition apart :: "invoice_line list \<Rightarrow> bool" where
  "apart ls \<longleftrightarrow> sorted_wrt (\<lambda>a b. il_to a \<le> il_from b) ls"

lemma apart_sum:
  assumes "apart ls" and "\<forall>l\<in>set ls. a \<le> il_from l \<and> il_from l < il_to l \<and> il_to l \<le> b" and "a \<le> b"
  shows "(\<Sum>l\<leftarrow>ls. il_to l - il_from l) \<le> b - a"
  using assms
proof (induction ls arbitrary: a)
  case (Cons l ls)
  have "(\<Sum>l\<leftarrow>ls. il_to l - il_from l) \<le> b - il_to l"
    using Cons.prems by (intro Cons.IH) (auto simp: apart_def)
  then show ?case using Cons.prems by simp
qed simp

lemma fee_lines_apart:
  "apart (fee_lines pt start stop until price_of)"
  "\<forall>l\<in>set (fee_lines pt start stop until price_of). il_kind l = ReservationFee \<and> start \<le> il_from l \<and> il_from l < il_to l \<and> il_to l \<le> stop \<and> 0 \<le> il_amount l"
proof -
  have "apart (List.map_filter (fee_line pt start stop) ss)" if "stretches ss" for ss
    using that
  proof (induction ss)
    case (Cons s ss)
    then have IH: "apart (List.map_filter (fee_line pt start stop) ss)" by (simp add: stretches_def)
    show ?case
    proof (cases "fee_line pt start stop s")
      case (Some l)
      have "il_to l \<le> il_from l'" if "l' \<in> set (List.map_filter (fee_line pt start stop) ss)" for l'
      proof -
        from that obtain s' where s': "s' \<in> set ss" "fee_line pt start stop s' = Some l'" by (auto simp: set_map_filter)
        then have "sg_to s \<le> sg_from s'" using Cons.prems by (auto simp: stretches_def)
        then show ?thesis using fee_line_Some[OF Some] fee_line_Some[OF s'(2)] by auto
      qed
      then show ?thesis using IH Some by (simp add: apart_def List.map_filter_simps)
    qed (use IH in \<open>simp add: List.map_filter_simps\<close>)
  qed (simp add: apart_def List.map_filter_simps)
  then show "apart (fee_lines pt start stop until price_of)"
    unfolding fee_lines_def using rate_timeline_stretches by blast
  have pos: "0 \<le> il_amount l" if "fee_line pt start stop s = Some l" for s l
    unfolding fee_line_Some(5)[OF that]
    by (rule f64_as_i64_bounds(1)[OF mult_nonneg_nonneg[OF of_nat_0_le_iff span_fraction(1)[OF fee_line_Some(6,4,7)[OF that]]]])
  show "\<forall>l\<in>set (fee_lines pt start stop until price_of). il_kind l = ReservationFee \<and> start \<le> il_from l \<and> il_from l < il_to l
      \<and> il_to l \<le> stop \<and> 0 \<le> il_amount l"
  proof
    fix l assume "l \<in> set (fee_lines pt start stop until price_of)"
    then obtain s where "fee_line pt start stop s = Some l" unfolding fee_lines_def set_map_filter by blast
    then show "il_kind l = ReservationFee \<and> start \<le> il_from l \<and> il_from l < il_to l \<and> il_to l \<le> stop \<and> 0 \<le> il_amount l"
      using fee_line_Some(1,4,6,7) pos by simp
  qed
qed

lemma fee_amount_bound:
  assumes "fee_line pt start stop s = Some l" and "sg_monthly s \<le> M"
  shows "real_of_int (il_amount l) \<le> real M * (real_of_int (il_to l - il_from l) / real_of_int (stop - start)) + 1/2"
proof -
  note f = fee_line_Some[OF assms(1)]
  let ?x = "span_secs (il_from l) (il_to l) / span_secs start stop"
  have x: "0 \<le> ?x" by (rule span_fraction(1)[OF f(6,4,7)])
  have "real_of_int (il_amount l) \<le> real (sg_monthly s) * ?x + 1/2"
    unfolding f(5) by (rule f64_as_i64_bounds(2)[OF mult_nonneg_nonneg[OF _ x]]) simp
  moreover have "real (sg_monthly s) * ?x \<le> real M * ?x" using x assms(2) by (intro mult_right_mono) simp_all
  moreover have "?x = real_of_int (il_to l - il_from l) / real_of_int (stop - start)" by (rule span_ratio)
  ultimately show ?thesis by simp
qed

lemma sum_bound:
  fixes ls :: "invoice_line list"
  assumes "\<forall>l\<in>set ls. real_of_int (il_amount l) \<le> c * (real_of_int (il_to l - il_from l) / d) + 1/2"
  shows "real_of_int (\<Sum>l\<leftarrow>ls. il_amount l) \<le> c * (real_of_int (\<Sum>l\<leftarrow>ls. il_to l - il_from l) / d) + real (length ls) / 2"
  using assms by (induction ls) (auto simp: algebra_simps add_divide_distrib diff_divide_distrib)

lemma fee_bound:
  assumes M: "\<forall>s\<in>set (rate_timeline pt (min until stop) price_of). sg_monthly s \<le> M" and "start < stop"
  shows "2 * (\<Sum>l\<leftarrow>fee_lines pt start stop until price_of. il_amount l)
    \<le> 2 * int M + int (length (fee_lines pt start stop until price_of))"
proof -
  let ?ls = "fee_lines pt start stop until price_of" and ?d = "real_of_int (stop - start)"
  have "\<forall>l\<in>set ?ls. real_of_int (il_amount l) \<le> real M * (real_of_int (il_to l - il_from l) / ?d) + 1/2"
    using M fee_amount_bound unfolding fee_lines_def set_map_filter by blast
  note b = sum_bound[OF this]
  have "(\<Sum>l\<leftarrow>?ls. il_to l - il_from l) \<le> stop - start"
    by (rule apart_sum[OF fee_lines_apart(1)]) (use fee_lines_apart(2) assms(2) in auto)
  then have "real_of_int (\<Sum>l\<leftarrow>?ls. il_to l - il_from l) / ?d \<le> 1" using assms(2) by (simp add: divide_simps)
  then have "real M * (real_of_int (\<Sum>l\<leftarrow>?ls. il_to l - il_from l) / ?d) \<le> real M"
    by (rule order_trans[OF mult_left_mono]) simp_all
  with b have "real_of_int (\<Sum>l\<leftarrow>?ls. il_amount l) \<le> real M + real (length ?ls) / 2" by linarith
  then have "real_of_int (2 * (\<Sum>l\<leftarrow>?ls. il_amount l)) \<le> real_of_int (2 * int M + int (length ?ls))" by simp
  then show ?thesis by (simp only: of_int_le_iff)
qed

lemma full_month_line:
  assumes "sg_from s \<le> start" "stop \<le> sg_to s" "start < stop" "sg_monthly s < 2 ^ 63"
  obtains l where "fee_line pt start stop s = Some l" "il_amount l = int (sg_monthly s)"
proof -
  have one: "span_secs start stop / span_secs start stop = 1" using assms(3) by (simp add: span_secs_def)
  have ends: "max (sg_from s) start = start" "min (sg_to s) stop = stop" "\<not> stop \<le> start" using assms(1-3) by simp_all
  show thesis
    by (rule that, unfold fee_line_def Let_def ends if_not_P[OF ends(3)] one, rule refl) (simp add: f64_as_i64_nat[OF assms(4)])
qed

text \<open>
  C29. A month is billed once. The fee lines of a reservation cover parts of the month that do not
  overlap, in order, none negative; with every rate at most \<open>M\<close>, the fee exceeds \<open>M\<close> by no more
  than half a minor unit for each line; and a rate that holds through the whole month is billed
  alone and exactly.
\<close>

theorem month_billed_once:
  assumes "start < stop" and "\<forall>s\<in>set (rate_timeline pt (min until stop) price_of). sg_monthly s \<le> M" and "M < 2 ^ 63"
  shows "sorted_wrt (\<lambda>a b. il_to a \<le> il_from b) (fee_lines pt start stop until price_of)
    \<and> list_all (\<lambda>l. start \<le> il_from l \<and> il_from l < il_to l \<and> il_to l \<le> stop \<and> 0 \<le> il_amount l) (fee_lines pt start stop until price_of)
    \<and> 2 * (\<Sum>l\<leftarrow>fee_lines pt start stop until price_of. il_amount l) \<le> 2 * int M + int (length (fee_lines pt start stop until price_of))
    \<and> (\<forall>s\<in>set (rate_timeline pt (min until stop) price_of). sg_from s \<le> start \<longrightarrow> stop \<le> sg_to s \<longrightarrow>
         map il_amount (fee_lines pt start stop until price_of) = [int (sg_monthly s)])"
proof (intro conjI ballI impI)
  show "sorted_wrt (\<lambda>a b. il_to a \<le> il_from b) (fee_lines pt start stop until price_of)"
    using fee_lines_apart(1) by (simp add: apart_def)
  show "list_all (\<lambda>l. start \<le> il_from l \<and> il_from l < il_to l \<and> il_to l \<le> stop \<and> 0 \<le> il_amount l) (fee_lines pt start stop until price_of)"
    using fee_lines_apart(2) by (auto simp: list_all_iff)
  show "2 * (\<Sum>l\<leftarrow>fee_lines pt start stop until price_of. il_amount l) \<le> 2 * int M + int (length (fee_lines pt start stop until price_of))"
    by (rule fee_bound[OF assms(2,1)])
  fix s assume s: "s \<in> set (rate_timeline pt (min until stop) price_of)" "sg_from s \<le> start" "stop \<le> sg_to s"
  have m: "sg_monthly s < 2 ^ 63" using assms(2,3) s(1) by fastforce
  obtain l where l: "fee_line pt start stop s = Some l" "il_amount l = int (sg_monthly s)" by (rule full_month_line[OF s(2,3) assms(1) m])
  from s(1) obtain xs ys where t: "rate_timeline pt (min until stop) price_of = xs @ s # ys" by (auto simp: in_set_conv_decomp)
  have st: "stretches (xs @ s # ys)" using rate_timeline_stretches[of pt "min until stop" price_of] t by simp
  have none: "List.map_filter (fee_line pt start stop) zs = []" if "\<forall>z\<in>set zs. sg_to z \<le> start \<or> stop \<le> sg_from z" for zs
    using that by (induction zs) (auto simp: List.map_filter_simps fee_line_def Let_def)
  have "List.map_filter (fee_line pt start stop) xs = []" "List.map_filter (fee_line pt start stop) ys = []"
    by (rule none, use st s(2) in \<open>force simp: stretches_def sorted_wrt_append\<close>)
      (rule none, use st s(3) in \<open>force simp: stretches_def sorted_wrt_append\<close>)
  then show "map il_amount (fee_lines pt start stop until price_of) = [int (sg_monthly s)]"
    unfolding fee_lines_def t using l by (simp add: List.map_filter_def)
qed

definition demo_billed :: provisioned_throughput where
  "demo_billed = demo_reservation\<lparr>pt_auto_renew := False, pt_events :=
     [\<lparr>ev_at = 0, ev_kind = EvCreated 2 200\<rparr>, \<lparr>ev_at = 10, ev_kind = EvActivated (Some 2) (Some Standard) (Some 200)\<rparr>,
      \<lparr>ev_at = 20, ev_kind = EvCapacityIncreased ''eu'' 2 4 0 (Some 4) (Some 400)\<rparr>]\<rparr>"

lemma demo_billed_timeline:
  "rate_timeline demo_billed 40 p =
     [\<lparr>sg_from = 10, sg_to = 20, sg_cus = 2, sg_tier = Standard, sg_monthly = 200\<rparr>,
      \<lparr>sg_from = 20, sg_to = 40, sg_cus = 4, sg_tier = Standard, sg_monthly = 400\<rparr>]"
  by (simp add: rate_timeline_def demo_billed_def demo_reservation_def tl_event_def tl_change_def)

theorem month_billed_once_witness:
  "2 * (\<Sum>l\<leftarrow>fee_lines demo_billed 0 40 100 (\<lambda>_ _. 100). il_amount l)
     \<le> 2 * 400 + int (length (fee_lines demo_billed 0 40 100 (\<lambda>_ _. 100)))
   \<and> map il_amount (fee_lines demo_billed 0 40 100 (\<lambda>_ _. 100)) = [50, 200]
   \<and> map il_amount (fee_lines demo_billed 20 40 100 (\<lambda>_ _. 100)) = [400]"
proof (intro conjI)
  show "2 * (\<Sum>l\<leftarrow>fee_lines demo_billed 0 40 100 (\<lambda>_ _. 100). il_amount l)
     \<le> 2 * 400 + int (length (fee_lines demo_billed 0 40 100 (\<lambda>_ _. 100)))"
    using month_billed_once[of 0 40 demo_billed 100 "\<lambda>_ _. 100" 400] by (simp add: demo_billed_timeline)
  show "map il_amount (fee_lines demo_billed 0 40 100 (\<lambda>_ _. 100)) = [50, 200]"
    by (simp add: fee_lines_def demo_billed_timeline fee_line_def List.map_filter_simps span_secs_def f64_round_def f64_as_i64_def)
  show "map il_amount (fee_lines demo_billed 20 40 100 (\<lambda>_ _. 100)) = [400]"
    using month_billed_once[of 20 40 demo_billed 100 "\<lambda>_ _. 100" 400] by (simp add: demo_billed_timeline)
qed

text \<open>
  A term that has run out is still billed. A reservation that is not renewed and stays Active
  until the lifecycle loop has caught up is billed up to the moment asked for, past the end of
  its term; only a pending cancellation stops at the end of the term.
\<close>

theorem billed_past_the_term:
  "pt_state demo_billed = Active \<and> \<not> pt_auto_renew demo_billed \<and> pt_term_end demo_billed = 30
   \<and> map sg_to (rate_timeline demo_billed 40 p) = [20, 40]
   \<and> map sg_to (rate_timeline (demo_billed\<lparr>pt_state := PendingCancellation\<rparr>) 40 p) = [20, 30]"
  by (simp add: demo_billed_timeline)
    (simp add: rate_timeline_def demo_billed_def demo_reservation_def tl_event_def tl_change_def)

section \<open>Invoices\<close>

lemma credit_pct_100: "credit_pct x \<le> 100"
  by (simp add: credit_pct_def)

definition fee_sum :: "invoice_line list \<Rightarrow> int" where
  "fee_sum ls = (\<Sum>l\<leftarrow>filter (\<lambda>l. il_kind l = ReservationFee) ls. il_amount l)"

definition credit_sum :: "invoice_line list \<Rightarrow> int" where
  "credit_sum ls = (\<Sum>l\<leftarrow>filter (\<lambda>l. il_kind l = SlaCredit) ls. il_amount l)"

lemma spillover_lines_kind: "l \<in> set (spillover_lines pt records price start stop) \<Longrightarrow> il_kind l = SpilloverLine \<and> 0 \<le> il_amount l"
  using f64_as_i64_bounds(1) by (auto simp: spillover_lines_def spillover_line_def Let_def split: if_splits)

text \<open>Lines of one reservation: the credit is for its own fee, and no larger.\<close>

lemma credit_line_amount:
  assumes "credit_line cal pt pct a fee start stop = Some l" and "pct \<le> 100"
  shows "il_kind l = SlaCredit" "- fee \<le> il_amount l" "il_amount l \<le> 0"
proof -
  have l: "0 < fee" "il_amount l = - (fee * int pct div 100)" "il_kind l = SlaCredit" using assms(1) by (auto simp: credit_line_def split: if_splits)
  have "fee * int pct \<le> fee * 100" using l(1) assms(2) by simp
  then have "fee * int pct div 100 \<le> fee" by simp
  then show "il_kind l = SlaCredit" "- fee \<le> il_amount l" "il_amount l \<le> 0" using l by (simp_all add: pos_imp_zdiv_nonneg_iff)
qed

lemma filter_none: "\<forall>x\<in>set xs. \<not> P x \<Longrightarrow> filter P xs = []"
  by (simp add: filter_empty_conv)

lemma reservation_lines_sound:
  fixes ctx bc cal usage sv now tenant period start stop pt
  defines "ls \<equiv> reservation_lines ctx bc cal usage sv now tenant period start stop pt"
  shows "credit_sum ls \<le> 0 \<and> - fee_sum ls \<le> credit_sum ls \<and> 0 \<le> fee_sum ls
    \<and> (\<forall>l\<in>set ls. il_kind l = SpilloverLine \<longrightarrow> 0 \<le> il_amount l)"
proof (cases "stop \<le> pt_created_at pt")
  case True
  then show ?thesis by (simp add: ls_def reservation_lines_def fee_sum_def credit_sum_def)
next
  case False
  define fees where "fees = fee_lines pt start stop now (\<lambda>tier cus. pr_monthly (svc_price ctx tier (pt_isolation pt) (pt_sku pt) cus))"
  obtain spill credit where ls: "ls = fees @ spill @ credit"
    and spill: "\<forall>l\<in>set spill. il_kind l = SpilloverLine \<and> 0 \<le> il_amount l"
    and credit: "credit = [] \<or> (\<exists>l p a. credit = [l] \<and> p \<le> 100 \<and> credit_line cal pt p a (\<Sum>l\<leftarrow>fees. il_amount l) start stop = Some l)"
  proof (rule that)
    let ?records = "usage_range tenant (pt_id pt) (ms_of start) (ms_of stop) usage"
    let ?spill = "case payg_price_for bc (pt_model pt) of None \<Rightarrow> [] | Some price \<Rightarrow> spillover_lines pt ?records price start stop"
    let ?credit = "if stop \<le> now \<and> 0 < (\<Sum>l\<leftarrow>fees. il_amount l)
        then case cp_reservation bc sv now tenant (pt_id pt) of None \<Rightarrow> []
          | Some info \<Rightarrow> let rep = sla_report_of (cl_rfc3339 cal) info ?records period (ms_of start, ms_of stop) True
                         in opt_list (credit_line cal pt (rp_credit_pct rep) (rp_attainment_pct rep) (\<Sum>l\<leftarrow>fees. il_amount l) start stop)
        else []"
    show "ls = fees @ ?spill @ ?credit"
      using False unfolding ls_def reservation_lines_def Let_def fees_def by simp
    show "\<forall>l\<in>set ?spill. il_kind l = SpilloverLine \<and> 0 \<le> il_amount l" using spillover_lines_kind by (auto split: option.split)
    have p: "rp_credit_pct (sla_report_of r info records period x c) \<le> 100" for r info records x c
      using credit_pct_100 by (simp add: sla_report_of_def Let_def case_prod_unfold)
    show "?credit = [] \<or> (\<exists>l p a. ?credit = [l] \<and> p \<le> 100 \<and> credit_line cal pt p a (\<Sum>l\<leftarrow>fees. il_amount l) start stop = Some l)"
      using p by (auto simp: Let_def opt_list_def split: option.split) blast
  qed
  have fees: "\<forall>l\<in>set fees. il_kind l = ReservationFee \<and> 0 \<le> il_amount l" using fee_lines_apart(2) unfolding fees_def by blast
  then have "0 \<le> (\<Sum>l\<leftarrow>fees. il_amount l)" by (intro sum_list_nonneg) auto
  moreover have "filter (\<lambda>l. il_kind l = ReservationFee) fees = fees" "filter (\<lambda>l. il_kind l = SlaCredit) fees = []"
    "filter (\<lambda>l. il_kind l = ReservationFee) spill = []" "filter (\<lambda>l. il_kind l = SlaCredit) spill = []"
    using fees spill by (auto simp: filter_empty_conv filter_id_conv)
  moreover have "\<forall>l\<in>set credit. il_kind l = SlaCredit" "(\<Sum>l\<leftarrow>credit. il_amount l) \<le> 0" "- (\<Sum>l\<leftarrow>fees. il_amount l) \<le> (\<Sum>l\<leftarrow>credit. il_amount l)"
    using credit credit_line_amount calculation(1) by fastforce+
  moreover from this(1) have "filter (\<lambda>l. il_kind l = SlaCredit) credit = credit" "filter (\<lambda>l. il_kind l = ReservationFee) credit = []"
    by (auto simp: filter_empty_conv filter_id_conv)
  ultimately show ?thesis using fees spill unfolding ls fee_sum_def credit_sum_def by auto
qed

lemma sums_append [simp]:
  "fee_sum (xs @ ys) = fee_sum xs + fee_sum ys" "credit_sum (xs @ ys) = credit_sum xs + credit_sum ys"
  by (simp_all add: fee_sum_def credit_sum_def)

lemma sums_concat:
  assumes "\<forall>ls\<in>set lss. credit_sum ls \<le> 0 \<and> - fee_sum ls \<le> credit_sum ls \<and> 0 \<le> fee_sum ls
      \<and> (\<forall>l\<in>set ls. il_kind l = SpilloverLine \<longrightarrow> 0 \<le> il_amount l)"
  shows "credit_sum (concat lss) \<le> 0 \<and> - fee_sum (concat lss) \<le> credit_sum (concat lss)
      \<and> (\<forall>l\<in>set (concat lss). il_kind l = SpilloverLine \<longrightarrow> 0 \<le> il_amount l)"
  using assms by (induction lss) (auto simp: fee_sum_def[of "[]"] credit_sum_def[of "[]"])

lemma sum_by_kind:
  "(\<Sum>l\<leftarrow>ls. il_amount l) = fee_sum ls + credit_sum ls + (\<Sum>l\<leftarrow>filter (\<lambda>l. il_kind l = SpilloverLine) ls. il_amount l)"
  "(\<Sum>l\<leftarrow>filter (\<lambda>l. il_kind l \<noteq> SlaCredit) ls. il_amount l) + credit_sum ls = (\<Sum>l\<leftarrow>ls. il_amount l)"
proof -
  show "(\<Sum>l\<leftarrow>ls. il_amount l) = fee_sum ls + credit_sum ls + (\<Sum>l\<leftarrow>filter (\<lambda>l. il_kind l = SpilloverLine) ls. il_amount l)"
  proof (induction ls)
    case (Cons l ls)
    then show ?case by (cases "il_kind l") (simp_all add: fee_sum_def credit_sum_def)
  qed (simp add: fee_sum_def credit_sum_def)
  show "(\<Sum>l\<leftarrow>filter (\<lambda>l. il_kind l \<noteq> SlaCredit) ls. il_amount l) + credit_sum ls = (\<Sum>l\<leftarrow>ls. il_amount l)"
    by (induction ls) (simp_all add: credit_sum_def)
qed

lemma running_month_no_credit:
  assumes "now < stop"
  shows "credit_sum (reservation_lines ctx bc cal usage sv now tenant period start stop pt) = 0"
proof -
  have "filter (\<lambda>l. il_kind l = SlaCredit) (fee_lines pt start stop now price_of) = []" for price_of
    using fee_lines_apart(2)[of pt start stop now price_of] by (auto simp: filter_empty_conv)
  moreover have "filter (\<lambda>l. il_kind l = SlaCredit) (spillover_lines pt records price start stop) = []" for records price
    using spillover_lines_kind by (fastforce simp: filter_empty_conv)
  ultimately show ?thesis using assms by (simp add: reservation_lines_def Let_def credit_sum_def split: option.split)
qed

lemma credit_sum_concat: "\<forall>ls\<in>set lss. credit_sum ls = 0 \<Longrightarrow> credit_sum (concat lss) = 0"
  by (induction lss) (simp_all add: credit_sum_def[of "[]"])

text \<open>
  Invoices add up. A period that is not a month is refused; any other invoice is a draft whose total is
  the sum of its lines, whose credits are zero or negative, zero while the month is running, and
  never more than the fees, so that no invoice is negative.
\<close>

theorem invoice_adds_up:
  "case compute ctx bc cal usage sv now tenant period of
     Inl e \<Rightarrow> month_bounds cal period = None \<and> e = Validation ''period''
   | Inr iv \<Rightarrow> iv_status iv = Draft \<and> iv_total iv = (\<Sum>l\<leftarrow>iv_lines iv. il_amount l) \<and> iv_total iv = iv_subtotal iv + iv_credits iv
       \<and> iv_credits iv \<le> 0 \<and> - (\<Sum>l\<leftarrow>filter (\<lambda>l. il_kind l = ReservationFee) (iv_lines iv). il_amount l) \<le> iv_credits iv
       \<and> 0 \<le> iv_total iv \<and> (iv_period_end iv \<le> now \<or> iv_credits iv = 0)"
proof (cases "month_bounds cal period")
  case None
  then show ?thesis by (simp add: compute_def)
next
  case (Some b)
  obtain start stop where b: "b = (start, stop)" by (cases b)
  let ?ls = "concat (map (reservation_lines ctx bc cal usage sv now tenant period start stop) (svc_list sv tenant None True))"
  have s: "credit_sum ?ls \<le> 0 \<and> - fee_sum ?ls \<le> credit_sum ?ls \<and> (\<forall>l\<in>set ?ls. il_kind l = SpilloverLine \<longrightarrow> 0 \<le> il_amount l)"
    by (rule sums_concat) (use reservation_lines_sound in auto)
  then have "0 \<le> (\<Sum>l\<leftarrow>filter (\<lambda>l. il_kind l = SpilloverLine) ?ls. il_amount l)" by (intro sum_list_nonneg) auto
  then have pos: "0 \<le> (\<Sum>l\<leftarrow>?ls. il_amount l)" using s sum_by_kind(1)[of ?ls] by linarith
  have "stop \<le> now \<or> credit_sum ?ls = 0"
  proof (cases "stop \<le> now")
    case False
    then show ?thesis using running_month_no_credit[of now stop] by (intro disjI2 credit_sum_concat) (auto simp: not_le)
  qed simp
  then show ?thesis using Some b s pos sum_by_kind(2)[of ?ls]
    unfolding compute_def by (simp add: invoice_totals_def Let_def credit_sum_def fee_sum_def)
qed

end
