(* ===== verification/Finalize.thy ===== *)
theory Finalize
  imports Fees Service_Claims
begin

text \<open>
  Periods and finalisation: a period that is printed parses back to its month, and the monthly
  finalisation stores each invoice once, keeps what is stored and loses no tenant.
\<close>

section \<open>Periods\<close>

lemma char_digit: "d < 10 \<Longrightarrow> is_digit (char_of (48 + d :: nat))"
  by (simp add: is_digit_def of_char_of)

lemma zero_digit: "is_digit (CHR ''0'')"
  by (simp add: is_digit_def)

lemma digits_value_snoc: "digits_value (s @ [c]) = digits_value s * 10 + (of_char c - 48)"
  by (simp add: digits_value_def)

lemma nat_digits_inverse: "digits_value (nat_digits n) = n \<and> list_all is_digit (nat_digits n) \<and> nat_digits n \<noteq> []"
proof (induction n rule: nat_digits.induct)
  case (1 n)
  show ?case
  proof (cases "n < 10")
    case True
    then show ?thesis using digits_value_snoc[of "[]"] by (subst (1 2 3) nat_digits.simps) (simp add: char_digit of_char_of digits_value_def)
  next
    case False
    have "nat_digits n = nat_digits (n div 10) @ [char_of (48 + n mod 10)]" using False by (subst nat_digits.simps) simp
    then show ?thesis using 1 False by (simp add: digits_value_snoc char_digit of_char_of)
  qed
qed

lemma digits_value_zeros: "digits_value (replicate k (CHR ''0'') @ s) = digits_value s"
  by (induction k) (simp_all add: digits_value_def)

lemma pad_int_nat:
  assumes "0 \<le> i"
  shows "list_all is_digit (pad_int w i)" "pad_int w i \<noteq> []" "int (digits_value (pad_int w i)) = i"
  using assms nat_digits_inverse[of "nat \<bar>i\<bar>"] zero_digit
  by (auto simp: pad_int_def Let_def digits_value_zeros list_all_iff)

lemma not_digit: "\<not> is_digit (CHR ''-'')" "\<not> is_digit (CHR ''+'')"
  by (simp_all add: is_digit_def)

lemma parse_pad_int:
  assumes "0 \<le> i" and "lo \<le> i" and "i \<le> hi"
  shows "parse_int lo hi (pad_int w i) = Some i"
proof -
  obtain c cs where p: "pad_int w i = c # cs" using pad_int_nat(2)[OF assms(1)] by (cases "pad_int w i") auto
  then have "is_digit c" using pad_int_nat(1)[OF assms(1), of w] by simp
  then have "c \<noteq> CHR ''-''" "c \<noteq> CHR ''+''" using not_digit by auto
  then show ?thesis using assms pad_int_nat[OF assms(1), of w] unfolding p parse_int_def by (simp add: p)
qed

lemma pad_int_2: "0 \<le> i \<Longrightarrow> i < 100 \<Longrightarrow> length (pad_int 2 i) = 2"
  by (simp add: pad_int_def Let_def nat_digits.simps[of "nat i"] nat_digits.simps[of "nat i div 10"])

lemma split_once_digits:
  assumes "list_all is_digit a"
  shows "split_once (CHR ''-'') (a @ ''-'' @ b) = Some (a, b)"
proof -
  have "\<forall>x\<in>set a. x \<noteq> CHR ''-''" using assms not_digit by (auto simp: list_all_iff)
  then show ?thesis by (simp add: split_once_def takeWhile_append dropWhile_append)
qed

text \<open>What the calendar promises of an instant: a year of four digits, and a month that holds it.\<close>

definition in_month :: "calendar \<Rightarrow> timestamp \<Rightarrow> timestamp \<Rightarrow> timestamp \<Rightarrow> bool" where
  "in_month cal t a b \<longleftrightarrow>
     (case cl_year_month cal t of
        (y, m) \<Rightarrow> 0 \<le> y \<and> y \<le> 9999 \<and> 1 \<le> m \<and> m \<le> 12 \<and> cl_first cal y m = Some a \<and> cl_next cal y m = Some b)
     \<and> a \<le> t \<and> t < b"

lemma month_of_period:
  assumes "in_month cal t a b"
  shows "month_bounds cal (period_of cal t) = Some (a, b)"
proof -
  obtain y m where ym: "cl_year_month cal t = (y, m)" by (cases "cl_year_month cal t")
  have b: "0 \<le> y" "y \<le> 9999" "1 \<le> m" "m \<le> 12" "cl_first cal y m = Some a" "cl_next cal y m = Some b"
    using assms by (simp_all add: in_month_def ym)
  then show ?thesis
    unfolding month_bounds_def period_of_def ym prod.case split_once_digits[OF pad_int_nat(1)[OF b(1)]] option.case
    by (simp add: pad_int_2 parse_pad_int)
qed

text \<open>
  A period parses back to its month. The period printed for an instant is read as the month
  that holds it, the previous period is the month that ends where this one begins, and the
  finalisation of that month does not panic.
\<close>

theorem period_roundtrip:
  assumes "in_month cal now a b" and "in_month cal (a - 1000000000) c a"
  shows "month_bounds cal (period_of cal now) = Some (a, b)
    \<and> Option.bind (previous_period cal (period_of cal now)) (month_bounds cal) = Some (c, a)
    \<and> finalize_due ctx bc cal usage sv now fault \<noteq> None"
  using month_of_period[OF assms(1)] month_of_period[OF assms(2)]
  by (simp add: previous_period_def finalize_due_def)

text \<open>April and May 2026.\<close>

definition spring_2026 :: calendar where
  "spring_2026 =
     \<lparr>cl_first = (\<lambda>y m. if (y, m) = (2026, 4) then Some 1775001600000000000
                       else if (y, m) = (2026, 5) then Some 1777593600000000000 else None),
      cl_next = (\<lambda>y m. if (y, m) = (2026, 4) then Some 1777593600000000000
                      else if (y, m) = (2026, 5) then Some 1780272000000000000 else None),
      cl_year_month = (\<lambda>t. if t < 1777593600000000000 then (2026, 4) else (2026, 5)),
      cl_rfc3339 = (\<lambda>_. []), cl_fixed2 = (\<lambda>_. [])\<rparr>"

theorem period_roundtrip_witness:
  "in_month spring_2026 1778000000000000000 1777593600000000000 1780272000000000000
   \<and> month_bounds spring_2026 (period_of spring_2026 1778000000000000000) = Some (1777593600000000000, 1780272000000000000)
   \<and> Option.bind (previous_period spring_2026 (period_of spring_2026 1778000000000000000)) (month_bounds spring_2026)
       = Some (1775001600000000000, 1777593600000000000)"
proof -
  have m: "in_month spring_2026 1778000000000000000 1777593600000000000 1780272000000000000"
    "in_month spring_2026 (1777593600000000000 - 1000000000) 1775001600000000000 1777593600000000000"
    by (simp_all add: in_month_def spring_2026_def)
  show ?thesis using m(1) period_roundtrip[OF m] by blast
qed

section \<open>Finalisation\<close>

text \<open>The store after a finalisation: the same but for more invoices.\<close>

definition but_invoices :: "service \<Rightarrow> service" where
  "but_invoices sv = sv\<lparr>sv_store := (sv_store sv)\<lparr>ms_invoices := []\<rparr>\<rparr>"

definition invoiced :: "service \<Rightarrow> service \<Rightarrow> bool" where
  "invoiced sv sv' \<longleftrightarrow> but_invoices sv' = but_invoices sv
     \<and> (\<forall>t p iv. get_invoice (sv_store sv) t p = Some iv \<longrightarrow> get_invoice (sv_store sv') t p = Some iv)"

lemma invoiced_refl: "invoiced sv sv"
  by (simp add: invoiced_def)

lemma invoiced_trans: "invoiced a b \<Longrightarrow> invoiced b c \<Longrightarrow> invoiced a c"
  by (simp add: invoiced_def)

lemma compute_but_invoices:
  "compute ctx bc cal usage (but_invoices sv) now tenant period = compute ctx bc cal usage sv now tenant period"
proof -
  have l: "svc_list (but_invoices sv) = svc_list sv" by (intro ext) (simp add: svc_list_def but_invoices_def store_list_def)
  have g: "svc_get (but_invoices sv) = svc_get sv" by (intro ext) (simp add: svc_get_def store_get_def but_invoices_def)
  have n: "svc_incidents (but_invoices sv) = svc_incidents sv" by (simp add: svc_incidents_def but_invoices_def)
  have c: "cp_reservation bc (but_invoices sv) = cp_reservation bc sv"
    by (intro ext) (simp add: cp_reservation_def g n split: sum.split)
  have r: "reservation_lines ctx bc cal usage (but_invoices sv) = reservation_lines ctx bc cal usage sv"
    unfolding reservation_lines_def c ..
  show ?thesis unfolding compute_def l r ..
qed

lemma compute_invoices:
  "invoiced sv sv' \<Longrightarrow> compute ctx bc cal usage sv' now tenant period = compute ctx bc cal usage sv now tenant period"
  using compute_but_invoices[of ctx bc cal usage sv] compute_but_invoices[of ctx bc cal usage sv'] by (simp add: invoiced_def)

definition finalized :: "timestamp \<Rightarrow> service \<Rightarrow> service \<Rightarrow> invoice \<Rightarrow> bool" where
  "finalized now sv sv' iv \<longleftrightarrow> iv_status iv = Final \<and> iv_finalized_at iv = Some now \<and> iv_lines iv \<noteq> []
     \<and> get_invoice (sv_store sv) (iv_tenant iv) (iv_period iv) = None
     \<and> get_invoice (sv_store sv') (iv_tenant iv) (iv_period iv) = Some iv"

lemma finalized_mono:
  assumes "finalized now sv sv' iv" and "invoiced sv\<^sub>0 sv" and "invoiced sv' sv\<^sub>1"
  shows "finalized now sv\<^sub>0 sv\<^sub>1 iv"
proof -
  have "get_invoice (sv_store sv\<^sub>0) (iv_tenant iv) (iv_period iv) = None"
    using assms(1,2) by (cases "get_invoice (sv_store sv\<^sub>0) (iv_tenant iv) (iv_period iv)") (auto simp: finalized_def invoiced_def)
  then show ?thesis using assms by (simp add: finalized_def invoiced_def)
qed

lemma compute_identity:
  "compute ctx bc cal usage sv now tenant period = Inr iv \<Longrightarrow> iv_tenant iv = tenant \<and> iv_period iv = period"
  by (auto simp: compute_def invoice_totals_def Let_def split: option.splits)

lemma insert_invoice_stores:
  assumes "insert_invoice (sv_store sv) iv = Inr st"
  shows "invoiced sv (sv\<lparr>sv_store := st\<rparr>)" "get_invoice (sv_store sv) (iv_tenant iv) (iv_period iv) = None"
    "get_invoice st (iv_tenant iv) (iv_period iv) = Some iv"
  using assms by (auto simp: insert_invoice_def invoiced_def but_invoices_def get_invoice_def update_conv split: if_splits)

text \<open>Nothing is left to do for a tenant whose invoice is stored or would have no lines.\<close>

definition settled ::
  "service_ctx \<Rightarrow> billing_config \<Rightarrow> calendar \<Rightarrow> usage_inner \<Rightarrow> timestamp \<Rightarrow> string \<Rightarrow> service \<Rightarrow> string \<Rightarrow> bool" where
  "settled ctx bc cal usage now period sv t \<longleftrightarrow> get_invoice (sv_store sv) t period \<noteq> None
     \<or> (case compute ctx bc cal usage sv now t period of Inl _ \<Rightarrow> False | Inr iv \<Rightarrow> iv_lines iv = [])"

lemma settled_mono:
  assumes "settled ctx bc cal usage now period sv t" and "invoiced sv sv'"
  shows "settled ctx bc cal usage now period sv' t"
  using assms compute_invoices[OF assms(2), of ctx bc cal usage now t period] by (auto simp: settled_def invoiced_def)

lemma finalize_tenant_step:
  assumes "finalize_tenant ctx bc cal usage now period fault t (ivs, sv) = (r, sv')"
  shows "invoiced sv sv'"
    and "r = Inr ivs' \<Longrightarrow> \<exists>new. ivs' = ivs @ new \<and> list_all (finalized now sv sv') new"
    and "fault t = None \<Longrightarrow> month_bounds cal period \<noteq> None \<Longrightarrow> (\<exists>ivs'. r = Inr ivs') \<and> settled ctx bc cal usage now period sv' t"
proof -
  have nothing: "invoiced sv sv'
      \<and> (r = Inr ivs' \<longrightarrow> (\<exists>new. ivs' = ivs @ new \<and> list_all (finalized now sv sv') new))
      \<and> (fault t = None \<longrightarrow> month_bounds cal period \<noteq> None \<longrightarrow> (\<exists>ivs'. r = Inr ivs') \<and> settled ctx bc cal usage now period sv' t)"
  proof (cases "settled ctx bc cal usage now period sv t")
    case True
    then have "(r, sv') = (Inr ivs, sv)"
      using assms by (auto simp: settled_def finalize_tenant_def split: sum.splits if_splits)
    then show ?thesis using True invoiced_refl by simp
  next
    case False
    then have none: "get_invoice (sv_store sv) t period = None" by (simp add: settled_def)
    show ?thesis
    proof (cases "compute ctx bc cal usage sv now t period")
      case (Inl e)
      then have "month_bounds cal period = None" by (auto simp: compute_def split: option.splits)
      then show ?thesis using assms none Inl invoiced_refl by (auto simp: finalize_tenant_def)
    next
      case (Inr iv)
      define fin where "fin = iv\<lparr>iv_status := Final, iv_finalized_at := Some now\<rparr>"
      have fin: "iv_tenant fin = t" "iv_period fin = period" "iv_lines fin \<noteq> []" "iv_status fin = Final" "iv_finalized_at fin = Some now"
        using compute_identity[OF Inr] False Inr by (simp_all add: fin_def settled_def)
      obtain st where st: "insert_invoice (sv_store sv) fin = Inr st"
        using none by (simp add: insert_invoice_def get_invoice_def fin)
      note stores = insert_invoice_stores[OF st]
      show ?thesis
      proof (cases "fault t")
        case None
        then have "r = Inr (ivs @ [fin])" "sv' = sv\<lparr>sv_store := st\<rparr>"
          using assms none Inr st fin(3) by (simp_all add: finalize_tenant_def fin_def Let_def)
        then show ?thesis using stores fin by (auto simp: finalized_def settled_def)
      next
        case (Some e)
        then have "sv' = sv" "r = Inr ivs \<or> (\<exists>e. r = Inl e)"
          using assms none Inr fin(3) by (auto simp: finalize_tenant_def fin_def Let_def split: store_error.splits)
        then show ?thesis using Some invoiced_refl by auto
      qed
    qed
  qed
  then show "invoiced sv sv'"
    and "r = Inr ivs' \<Longrightarrow> \<exists>new. ivs' = ivs @ new \<and> list_all (finalized now sv sv') new"
    and "fault t = None \<Longrightarrow> month_bounds cal period \<noteq> None \<Longrightarrow> (\<exists>ivs'. r = Inr ivs') \<and> settled ctx bc cal usage now period sv' t"
    by blast+
qed

lemma finalize_each_steps:
  assumes "finalize_each ctx bc cal usage now period fault ts (ivs, sv) = (r, sv')"
  shows "invoiced sv sv'
    \<and> (\<forall>ivs'. r = Inr ivs' \<longrightarrow> (\<exists>new. ivs' = ivs @ new \<and> list_all (finalized now sv sv') new))
    \<and> ((\<forall>t. fault t = None) \<longrightarrow> month_bounds cal period \<noteq> None \<longrightarrow>
         (\<exists>ivs'. r = Inr ivs') \<and> list_all (settled ctx bc cal usage now period sv') ts)"
  using assms
proof (induction ts arbitrary: ivs sv)
  case Nil
  then show ?case using invoiced_refl by auto
next
  case (Cons t ts)
  obtain r\<^sub>1 sv\<^sub>1 where one: "finalize_tenant ctx bc cal usage now period fault t (ivs, sv) = (r\<^sub>1, sv\<^sub>1)"
    by (cases "finalize_tenant ctx bc cal usage now period fault t (ivs, sv)")
  note step = finalize_tenant_step[OF one]
  show ?case
  proof (cases r\<^sub>1)
    case (Inl e)
    then have "r = Inl e" "sv' = sv\<^sub>1" using Cons.prems one by auto
    then show ?thesis using step Inl by auto
  next
    case (Inr ivs\<^sub>1)
    then have "finalize_each ctx bc cal usage now period fault ts (ivs\<^sub>1, sv\<^sub>1) = (r, sv')" using Cons.prems one by simp
    note IH = Cons.IH[OF this]
    have i: "invoiced sv sv'" "invoiced sv\<^sub>1 sv'" using step(1) IH invoiced_trans by blast+
    obtain new\<^sub>1 where new\<^sub>1: "ivs\<^sub>1 = ivs @ new\<^sub>1" "list_all (finalized now sv sv\<^sub>1) new\<^sub>1" using step(2)[OF Inr] by blast
    have a: "list_all (finalized now sv sv') new\<^sub>1"
      using new\<^sub>1(2) finalized_mono[OF _ invoiced_refl i(2)] by (auto simp: list_all_iff)
    have "\<exists>new. ivs' = ivs @ new \<and> list_all (finalized now sv sv') new" if r: "r = Inr ivs'" for ivs'
    proof -
      obtain new where "ivs' = ivs\<^sub>1 @ new" "list_all (finalized now sv\<^sub>1 sv') new" using IH r by blast
      then show ?thesis using a new\<^sub>1(1) finalized_mono[OF _ step(1) invoiced_refl] by (auto simp: list_all_iff)
    qed
    moreover have "settled ctx bc cal usage now period sv' t" if "\<forall>t. fault t = None" "month_bounds cal period \<noteq> None"
      by (rule settled_mono[OF _ i(2)]) (use step(3) that in simp)
    ultimately show ?thesis using IH i(1) by simp
  qed
qed

lemma finalize_each_settled:
  "list_all (settled ctx bc cal usage now period sv) ts \<Longrightarrow> finalize_each ctx bc cal usage now period fault ts (ivs, sv) = (Inr ivs, sv)"
  by (induction ts) (auto simp: settled_def finalize_tenant_def split: sum.splits)

text \<open>
  C30. An invoice is finalised once. The finalisation changes nothing in the store but adds invoices
  and keeps every stored one; what it returns is final, has lines, was not stored before and is
  stored now; without a failing write it succeeds, and running it again does nothing.
\<close>

theorem finalized_once:
  assumes "finalize_due ctx bc cal usage sv now fault = Some (r, sv')"
  shows "sv'\<lparr>sv_store := (sv_store sv')\<lparr>ms_invoices := ms_invoices (sv_store sv)\<rparr>\<rparr> = sv
    \<and> (\<forall>t p iv. get_invoice (sv_store sv) t p = Some iv \<longrightarrow> get_invoice (sv_store sv') t p = Some iv)
    \<and> (\<forall>ivs. r = Inr ivs \<longrightarrow> list_all (\<lambda>iv. iv_status iv = Final \<and> iv_finalized_at iv = Some now \<and> iv_lines iv \<noteq> []
          \<and> get_invoice (sv_store sv) (iv_tenant iv) (iv_period iv) = None
          \<and> get_invoice (sv_store sv') (iv_tenant iv) (iv_period iv) = Some iv) ivs)
    \<and> ((\<forall>t. fault t = None) \<longrightarrow> (\<exists>ivs. r = Inr ivs) \<and> finalize_due ctx bc cal usage sv' now fault = Some (Inr [], sv'))"
proof -
  have all: "invoiced sv sv' \<and> (\<forall>ivs. r = Inr ivs \<longrightarrow> list_all (finalized now sv sv') ivs)
    \<and> ((\<forall>t. fault t = None) \<longrightarrow> (\<exists>ivs. r = Inr ivs) \<and> finalize_due ctx bc cal usage sv' now fault = Some (Inr [], sv'))"
  proof (cases "(r, sv') = (Inr [], sv)")
    case True
    then show ?thesis using assms invoiced_refl by simp
  next
    case False
    then obtain period a b where p: "previous_period cal (period_of cal now) = Some period" "month_bounds cal period = Some (a, b)"
      "\<not> now < b + int (bc_finalize_grace_hours bc) * 3600 * 1000000000"
      "finalize_each ctx bc cal usage now period fault (bc_tenants bc) ([], sv) = (r, sv')"
      using assms by (auto simp: finalize_due_def split: option.splits prod.splits if_splits)
    note steps = finalize_each_steps[OF p(4)]
    then show ?thesis using p(1-3) finalize_each_settled by (auto simp: finalize_due_def)
  qed
  moreover have "sv'\<lparr>sv_store := (sv_store sv')\<lparr>ms_invoices := ms_invoices (sv_store sv)\<rparr>\<rparr> = sv" if "invoiced sv sv'"
  proof -
    have "but_invoices sv' = but_invoices sv" using that by (simp add: invoiced_def)
    then show ?thesis by (cases sv; cases sv'; cases "sv_store sv"; cases "sv_store sv'") (simp add: but_invoices_def)
  qed
  ultimately show ?thesis unfolding invoiced_def finalized_def by blast
qed

definition demo_billing :: billing_config where
  "demo_billing = \<lparr>bc_payg_prices = [], bc_telemetry = \<lparr>tc_wu_per_cu = 1, tc_change_grace_minutes = 0, tc_failover_window_minutes = 0\<rparr>,
     bc_finalize_grace_hours = 24, bc_tenants = [''acme'']\<rparr>"

definition demo_april_pt :: provisioned_throughput where
  "demo_april_pt = demo_reservation\<lparr>pt_created_at := 1775001600000000000, pt_events :=
     [\<lparr>ev_at = 1775001600000000000, ev_kind = EvActivated (Some 2) (Some Standard) (Some 200)\<rparr>]\<rparr>"

definition demo_april :: service where
  "demo_april = \<lparr>sv_store = (store_starting_at 0)\<lparr>ms_by_id := [(''pt-1'', demo_april_pt)]\<rparr>,
     sv_planner = sv_planner demo_started, sv_changes = 0\<rparr>"

lemma demo_april_lines:
  "reservation_lines demo_ctx demo_billing spring_2026 usage_empty demo_april 1778200000000000000 ''acme'' p
     1775001600000000000 1777593600000000000 demo_april_pt \<noteq> []"
proof -
  have "rate_timeline demo_april_pt 1777593600000000000 q =
      [\<lparr>sg_from = 1775001600000000000, sg_to = 1777593600000000000, sg_cus = 2, sg_tier = Standard, sg_monthly = 200\<rparr>]" for q
    by (simp add: rate_timeline_def demo_april_pt_def demo_reservation_def tl_event_def tl_change_def)
  then have "fee_lines demo_april_pt 1775001600000000000 1777593600000000000 1778200000000000000 q \<noteq> []" for q
    by (simp add: fee_lines_def fee_line_def List.map_filter_simps)
  moreover have "pt_created_at demo_april_pt < 1777593600000000000" by (simp add: demo_april_pt_def)
  ultimately show ?thesis by (simp add: reservation_lines_def Let_def)
qed

lemma demo_april_finalize:
  "\<exists>iv sv'. finalize_due demo_ctx demo_billing spring_2026 usage_empty demo_april 1778200000000000000 (\<lambda>_. None) = Some (Inr [iv], sv')"
proof -
  let ?now = "1778200000000000000 :: int"
  define p where "p = period_of spring_2026 (1777593600000000000 - 1000000000)"
  have m: "in_month spring_2026 ?now 1777593600000000000 1780272000000000000"
    "in_month spring_2026 (1777593600000000000 - 1000000000) 1775001600000000000 1777593600000000000"
    by (simp_all add: in_month_def spring_2026_def)
  have b: "month_bounds spring_2026 p = Some (1775001600000000000, 1777593600000000000)"
    using month_of_period[OF m(2)] by (simp only: p_def)
  have prev: "previous_period spring_2026 (period_of spring_2026 ?now) = Some p"
    by (simp add: previous_period_def month_of_period[OF m(1)] p_def)
  have list: "svc_list demo_april ''acme'' None True = [demo_april_pt]"
    by (simp add: svc_list_def store_list_def demo_april_def store_starting_at_def demo_april_pt_def demo_reservation_def)
  have none: "map_of (ms_invoices (sv_store demo_april)) k = None" for k by (simp add: demo_april_def store_starting_at_def)
  have "\<exists>iv. compute demo_ctx demo_billing spring_2026 usage_empty demo_april ?now ''acme'' p = Inr iv \<and> iv_lines iv \<noteq> []"
    using demo_april_lines[of p] by (simp add: compute_def b list invoice_totals_def Let_def)
  then obtain iv where iv: "compute demo_ctx demo_billing spring_2026 usage_empty demo_april ?now ''acme'' p = Inr iv" "iv_lines iv \<noteq> []"
    by blast
  have bc: "bc_tenants demo_billing = [''acme'']" "bc_finalize_grace_hours demo_billing = 24" by (simp_all add: demo_billing_def)
  show ?thesis
    unfolding finalize_due_def prev option.case b prod.case bc
    by (simp add: finalize_tenant_def get_invoice_def none iv insert_invoice_def Let_def)
qed

theorem finalized_once_witness:
  "case finalize_due demo_ctx demo_billing spring_2026 usage_empty demo_april 1778200000000000000 (\<lambda>_. None) of
     Some (Inr [iv], sv') \<Rightarrow> iv_status iv = Final \<and> get_invoice (sv_store sv') (iv_tenant iv) (iv_period iv) = Some iv
       \<and> finalize_due demo_ctx demo_billing spring_2026 usage_empty sv' 1778200000000000000 (\<lambda>_. None) = Some (Inr [], sv')
   | _ \<Rightarrow> False"
proof -
  obtain iv sv' where f: "finalize_due demo_ctx demo_billing spring_2026 usage_empty demo_april 1778200000000000000 (\<lambda>_. None) = Some (Inr [iv], sv')"
    using demo_april_finalize by blast
  then show ?thesis using finalized_once[OF f] by simp
qed

end
