(* ===== verification/Quote.thy ===== *)
theory Quote
  imports Incidents Sla "HOL-Library.Log_Nat"
begin

text \<open>
  Quotes (\<open>quote.rs\<close>): the demand of a declared shape, a sample trace or the recent usage of a
  reservation, the CUs it needs in each region and tier, and the recommendation. Messages are
  constructors; the order in which a \<open>HashMap\<close> gives its values is a parameter.
\<close>

section \<open>Requests and workloads\<close>

definition SUSTAINED_WINDOW_MS :: nat where
  "SUSTAINED_WINDOW_MS = 3600000"

definition PEAK_WINDOW_MS :: nat where
  "PEAK_WINDOW_MS = 10000"

definition MIN_TRACE_SPAN_MS :: nat where
  "MIN_TRACE_SPAN_MS = 60000"

definition MAX_TRACE :: nat where
  "MAX_TRACE = 100000"

definition DEFAULT_LOOKBACK_DAYS :: nat where
  "DEFAULT_LOOKBACK_DAYS = 7"

definition f64_min_positive :: real where
  "f64_min_positive = 1 / 2 ^ 1022"

record trace_entry =
  te_offset_ms :: nat
  te_input_tokens :: nat
  te_cached_tokens :: nat
  te_output_tokens :: nat
  te_wu :: "real option"

record quote_request =
  qr_model :: "string option"
  qr_tier :: "tier option"
  qr_isolation :: "pool_isolation option"
  qr_sku :: "sku option"
  qr_regions :: "string list option"
  qr_shape :: "shape option"
  qr_requests_per_minute :: "real option"
  qr_avg_input_tokens :: "nat option"
  qr_avg_output_tokens :: "nat option"
  qr_trace :: "trace_entry list option"
  qr_from_reservation :: "string option"
  qr_lookback_days :: "nat option"

text \<open>\<open>Analytic\<close>: requests per minute, input, cached and output tokens, burst factor.\<close>

datatype workload =
    Analytic real nat nat nat real
  | Trace "trace_entry list"

record quote_demand =
  qd_requests_per_minute :: real
  qd_avg_input_tokens :: real
  qd_avg_output_tokens :: real
  qd_wu_per_request :: real
  qd_sustained :: real
  qd_peak :: real

definition request_wu :: "performance_profile \<Rightarrow> tier \<Rightarrow> nat \<Rightarrow> nat \<Rightarrow> nat \<Rightarrow> real" where
  "request_wu profile t input cached output =
     (let cached = min cached input;
          kv = estimate_kv_token_seconds input output (tpot_target_s t)
      in work_units profile (work_breakdown_new (input - cached) cached output kv))"

text \<open>Sums per window, in the order in which the windows are first seen.\<close>

definition add_to_bucket :: "nat \<Rightarrow> (nat \<times> real) list \<Rightarrow> nat \<times> real \<Rightarrow> (nat \<times> real) list" where
  "add_to_bucket window_ms buckets p =
     (let k = fst p div window_ms
      in AList.update k ((case map_of buckets k of None \<Rightarrow> 0 | Some v \<Rightarrow> v) + snd p) buckets)"

definition busiest :: "(nat \<times> real) list \<Rightarrow> nat \<Rightarrow> nat \<Rightarrow> real" where
  "busiest points window_ms span_ms =
     (let buckets = foldl (add_to_bucket window_ms) [] points;
          most = foldl max 0 (map snd buckets)
      in most / (real (min window_ms span_ms) / 1000))"

definition entry_wu :: "performance_profile \<Rightarrow> tier \<Rightarrow> trace_entry \<Rightarrow> real" where
  "entry_wu profile t e =
     (case te_wu e of
        Some w \<Rightarrow> w
      | None \<Rightarrow> request_wu profile t (te_input_tokens e) (te_cached_tokens e) (te_output_tokens e))"

text \<open>Traces are never empty here: the handler refuses an empty one, and history has an entry per region.\<close>

definition trace_span :: "trace_entry list \<Rightarrow> nat \<times> nat" where
  "trace_span es =
     (let offsets = map te_offset_ms es;
          first = (case min_by_key (\<lambda>x. x) offsets of None \<Rightarrow> 0 | Some n \<Rightarrow> n);
          last = (case iter_max offsets of None \<Rightarrow> 0 | Some n \<Rightarrow> n)
      in (first, max (last - first) MIN_TRACE_SPAN_MS))"

fun workload_demand :: "performance_profile \<Rightarrow> tier \<Rightarrow> workload \<Rightarrow> quote_demand" where
  "workload_demand profile t (Analytic rpm input cached output factor) =
     (let wu = request_wu profile t input cached output;
          sustained = rpm / 60 * wu
      in \<lparr>qd_requests_per_minute = rpm, qd_avg_input_tokens = real input, qd_avg_output_tokens = real output,
          qd_wu_per_request = wu, qd_sustained = sustained, qd_peak = sustained * max factor 1\<rparr>)"
| "workload_demand profile t (Trace entries) =
     (let (first, span) = trace_span entries;
          points = map (\<lambda>e. (te_offset_ms e - first, entry_wu profile t e)) entries;
          counts = map (\<lambda>p. (fst p, 1)) points;
          n = real (length entries)
      in \<lparr>qd_requests_per_minute = busiest counts SUSTAINED_WINDOW_MS span * 60,
          qd_avg_input_tokens = (\<Sum>e\<leftarrow>entries. real (te_input_tokens e)) / n,
          qd_avg_output_tokens = (\<Sum>e\<leftarrow>entries. real (te_output_tokens e)) / n,
          qd_wu_per_request = (\<Sum>p\<leftarrow>points. snd p) / n,
          qd_sustained = busiest points SUSTAINED_WINDOW_MS span,
          qd_peak = busiest points PEAK_WINDOW_MS span\<rparr>)"

section \<open>The observed shape\<close>

text \<open>\<open>u64::next_power_of_two\<close>, which wraps to 0.\<close>

definition next_power_of_two :: "nat \<Rightarrow> nat" where
  "next_power_of_two n = 2 ^ floorlog 2 (n - 1) mod 18446744073709551616"

definition trace_p95 :: "nat list \<Rightarrow> nat" where
  "trace_p95 v = sort v ! (clamp 1 (length v) (f64_as_u64 (of_int \<lceil>real (length v) * (95/100)\<rceil>)) - 1)"

definition observed_shape :: "nat \<Rightarrow> workload \<Rightarrow> shape option" where
  "observed_shape model_max_context w =
     (case w of
        Analytic _ _ _ _ _ \<Rightarrow> None
      | Trace entries \<Rightarrow>
          let served = filter (\<lambda>e. 0 < te_input_tokens e) entries
          in if served = [] then None
             else
               let largest_input = (case iter_max (map te_input_tokens served) of None \<Rightarrow> 0 | Some n \<Rightarrow> n);
                   context = (case iter_max (map (\<lambda>e. u64_add (te_input_tokens e) (te_output_tokens e)) served) of
                                None \<Rightarrow> 0 | Some n \<Rightarrow> n);
                   total_input = u64_sum (map te_input_tokens served);
                   total_cached = u64_sum (map (\<lambda>e. min (te_cached_tokens e) (te_input_tokens e)) served)
               in Some \<lparr>input_p95 = trace_p95 (map te_input_tokens served), input_max = largest_input,
                        output_p95 = max (trace_p95 (map te_output_tokens served)) 1,
                        context_ceiling = min (next_power_of_two (max context 1024)) model_max_context,
                        cache_hit_ratio = (if 0 < total_input then real total_cached / real total_input else 0),
                        burst_factor = 1\<rparr>)"

section \<open>Sizing\<close>

datatype quote_note =
    BurstCovers real nat
  | BeyondBurst real nat
  | ContextTooLong string nat
  | EnoughFrom string nat tier timestamp
  | OnlyAvailable string nat tier

text \<open>\<open>size\<close>: recommended and peak CUs, the policy suggested for peaks, and notes.\<close>

definition quote_size :: "quote_demand \<Rightarrow> real \<Rightarrow> nat \<times> nat \<times> boundary_policy option \<times> quote_note list" where
  "quote_size d wu_per_cu =
     (let recommended = max (f64_as_u32 (of_int \<lceil>qd_sustained d / (wu_per_cu * TARGET_UTILISATION)\<rceil>)) 1;
          peak = max (f64_as_u32 (of_int \<lceil>qd_peak d / wu_per_cu\<rceil>)) 1
      in if recommended < peak
         then let ratio = qd_peak d / (real recommended * wu_per_cu)
              in if ratio \<le> 10
                 then let multiple = max (of_int \<lceil>ratio * 10\<rceil> / 10) (11/10)
                      in (recommended, peak,
                          Some (boundary_policy_default\<lparr>bp_burst := Some (burst_policy_default\<lparr>max_rate_multiple := multiple\<rparr>)\<rparr>),
                          [BurstCovers ratio peak])
                 else (recommended, peak, Some (boundary_policy_default\<lparr>bp_spillover := True\<rparr>), [BeyondBurst ratio peak])
         else (recommended, peak, None, []))"

section \<open>Sources\<close>

record quote_current =
  qc_reservation :: string
  qc_tier :: tier
  qc_cus :: nat
  qc_regions :: "region_share list"
  qc_lookback_days :: nat
  qc_requests_seen :: nat

datatype source_kind = SourceShape | SourceTrace | SourceReservation

record quote_source =
  qs_model :: string
  qs_workloads :: "(string \<times> workload) list"
  qs_regions :: "string list"
  qs_tier :: "tier option"
  qs_kind :: source_kind
  qs_shape :: shape
  qs_current :: "quote_current option"
  qs_pools :: "(string \<times> string) list"
  qs_sku :: "sku option"

text \<open>A stored record as an entry of its region; errors are no demand.\<close>

definition history_entry :: "stored_record \<Rightarrow> (string \<times> trace_entry) option" where
  "history_entry s =
     (let r = sr_record s;
          entry = (\<lambda>wu. (sr_region s,
            \<lparr>te_offset_ms = sr_at_ms s,
             te_input_tokens = u64_add (tb_uncached_prefill (ur_tokens r)) (tb_cached_prefill (ur_tokens r)),
             te_cached_tokens = tb_cached_prefill (ur_tokens r), te_output_tokens = tb_decode (ur_tokens r), te_wu = Some wu\<rparr>))
      in case ur_outcome r of
           OutcomeError _ \<Rightarrow> None
         | _ \<Rightarrow> Some (entry (case ur_class r of None \<Rightarrow> ur_wu_estimated r | Some _ \<Rightarrow> ur_wu_actual r)))"

definition by_region :: "stored_record list \<Rightarrow> (string \<times> trace_entry list) list" where
  "by_region records =
     foldl (\<lambda>out (region, e). AList.update region ((case map_of out region of None \<Rightarrow> [] | Some v \<Rightarrow> v) @ [e]) out)
       [] (List.map_filter history_entry records)"

definition source_from_reservation ::
  "service_ctx \<Rightarrow> usage_inner \<Rightarrow> service \<Rightarrow> timestamp \<Rightarrow> string \<Rightarrow> quote_request \<Rightarrow> string \<Rightarrow> service_error + quote_source" where
  "source_from_reservation ctx usage sv now tenant req pid =
     (case svc_get sv tenant pid of
        Inl e \<Rightarrow> Inl e
      | Inr pt \<Rightarrow>
          if (case qr_model req of None \<Rightarrow> False | Some m \<Rightarrow> m \<noteq> pt_model pt) then Inl (Validation ''model'')
          else
            let days = (case qr_lookback_days req of None \<Rightarrow> DEFAULT_LOOKBACK_DAYS | Some d \<Rightarrow> d)
            in if \<not> (1 \<le> days \<and> days \<le> 30) then Inl (Validation ''lookback_days'')
               else
                 let records = usage_range tenant pid (ms_of now - days * 86400000) (ms_of now) usage;
                     groups = by_region records
                 in if groups = [] then Inl (Validation ''from_reservation'')
                    else Inr
                      \<lparr>qs_model = pt_model pt, qs_workloads = map (\<lambda>(r, e). (r, Trace e)) groups,
                       qs_regions = map rs_region (pt_regions pt), qs_tier = Some (pt_tier pt), qs_kind = SourceReservation,
                       qs_shape = pt_shape pt,
                       qs_current = Some \<lparr>qc_reservation = pt_id pt, qc_tier = pt_tier pt, qc_cus = pt_cus pt,
                         qc_regions = pt_regions pt, qc_lookback_days = days, qc_requests_seen = length records\<rparr>,
                       qs_pools = List.map_filter (\<lambda>r. map_option (Pair (rs_region r)) (pool_of ctx pt (rs_region r))) (pt_regions pt),
                       qs_sku = Some (pt_sku pt)\<rparr>)"

definition source_of_workload ::
  "service_ctx \<Rightarrow> string \<Rightarrow> workload \<Rightarrow> source_kind \<Rightarrow> shape \<Rightarrow> quote_source" where
  "source_of_workload ctx model w kind sh =
     \<lparr>qs_model = model, qs_workloads = [([], w)], qs_regions = regions_for (sc_plan (cx_config ctx)) model,
      qs_tier = None, qs_kind = kind, qs_shape = sh, qs_current = None, qs_pools = [], qs_sku = None\<rparr>"

definition source_from_shape ::
  "service_ctx \<Rightarrow> quote_request \<Rightarrow> string \<Rightarrow> model_config \<Rightarrow> shape \<Rightarrow> service_error + quote_source" where
  "source_from_shape ctx req mid model sh =
     (case validate_shape model sh of
        Inl e \<Rightarrow> Inl e
      | Inr _ \<Rightarrow>
          (case qr_requests_per_minute req of
             None \<Rightarrow> Inl (Validation ''requests_per_minute'')
           | Some rpm \<Rightarrow>
               if \<not> 0 < rpm then Inl (Validation ''requests_per_minute'')
               else
                 let input = (case qr_avg_input_tokens req of None \<Rightarrow> max (input_p95 sh div 2) 1 | Some n \<Rightarrow> n);
                     output = (case qr_avg_output_tokens req of None \<Rightarrow> max (output_p95 sh div 2) 1 | Some n \<Rightarrow> n);
                     cached = f64_as_u64 (f64_round (real input * cache_hit_ratio sh))
                 in Inr (source_of_workload ctx mid (Analytic rpm input cached output (burst_factor sh)) SourceShape sh)))"

text \<open>None is the panic of \<open>expect\<close> on a trace without a served request.\<close>

definition source_from_trace ::
  "service_ctx \<Rightarrow> quote_request \<Rightarrow> string \<Rightarrow> model_config \<Rightarrow> (service_error + quote_source) option" where
  "source_from_trace ctx req mid model =
     (let trace = (case qr_trace req of None \<Rightarrow> [] | Some t \<Rightarrow> t)
      in if trace = [] \<or> MAX_TRACE < length trace then Some (Inl (Validation ''trace''))
         else if list_ex (\<lambda>e. te_input_tokens e < te_cached_tokens e) trace then Some (Inl (Validation ''trace''))
         else map_option (\<lambda>sh. Inr (source_of_workload ctx mid (Trace trace) SourceTrace sh))
                (observed_shape (mc_max_context model) (Trace trace)))"

definition quote_resolve ::
  "service_ctx \<Rightarrow> usage_inner \<Rightarrow> service \<Rightarrow> timestamp \<Rightarrow> string \<Rightarrow> quote_request \<Rightarrow> (service_error + quote_source) option" where
  "quote_resolve ctx usage sv now tenant req =
     (let sources = of_bool (qr_shape req \<noteq> None) + of_bool (qr_trace req \<noteq> None) + of_bool (qr_from_reservation req \<noteq> None) :: nat
      in if sources \<noteq> 1 then Some (Inl (Validation ''source''))
         else case qr_from_reservation req of
           Some pid \<Rightarrow> Some (source_from_reservation ctx usage sv now tenant req pid)
         | None \<Rightarrow>
             (case qr_model req of
                None \<Rightarrow> Some (Inl (Validation ''model''))
              | Some mid \<Rightarrow>
                  (case validate_model (cx_config ctx) mid of
                     Inl e \<Rightarrow> Some (Inl e)
                   | Inr model \<Rightarrow>
                       (case qr_shape req of
                          Some sh \<Rightarrow> Some (source_from_shape ctx req mid model sh)
                        | None \<Rightarrow> source_from_trace ctx req mid model))))"

section \<open>Quotes\<close>

record per_cu_rates =
  pc_requests_per_minute :: real
  pc_input_tokens_per_minute :: real
  pc_output_tokens_per_minute :: real

record region_quote =
  rq_region :: string
  rq_tier :: tier
  rq_profile :: string
  rq_demand :: quote_demand
  rq_recommended_cus :: nat
  rq_peak_cus :: nat
  rq_per_cu :: per_cu_rates
  rq_price :: price
  rq_ttft_p95_ms :: real
  rq_tpot_p95_ms :: real
  rq_available_cus :: nat
  rq_available_from :: "timestamp option"
  rq_serves_context :: bool
  rq_feasible :: bool
  rq_boundary_policy :: "boundary_policy option"
  rq_notes :: "quote_note list"

datatype quote_summary =
    Increase nat nat
  | WouldCover nat
  | Fits
  | LowestPriced nat tier string

record recommendation =
  rc_regions :: "string list"
  rc_tier :: tier
  rc_cus :: nat
  rc_monthly_price :: nat
  rc_summary :: quote_summary

record quote_response =
  qp_model :: string
  qp_kind :: source_kind
  qp_isolation :: pool_isolation
  qp_current :: "quote_current option"
  qp_observed_shape :: "shape option"
  qp_quotes :: "region_quote list"
  qp_recommendation :: "recommendation option"

text \<open>What a reservation being resized holds in a region, in micro-replicas at its own tier.\<close>

definition current_micro :: "costs \<Rightarrow> quote_current option \<Rightarrow> string \<Rightarrow> string \<Rightarrow> nat" where
  "current_micro costs current region pool =
     (case current of
        None \<Rightarrow> 0
      | Some c \<Rightarrow>
          (case find (\<lambda>r. rs_region r = region) (qc_regions c) of
             None \<Rightarrow> 0
           | Some share \<Rightarrow>
               (case costs_share costs (qc_tier c) \<lparr>ps_region = region, ps_pool = pool, ps_cus = rs_cus share\<rparr> of
                  None \<Rightarrow> 0 | Some n \<Rightarrow> n)))"

text \<open>The first scheduled arrival that makes enough room: sorted dates without duplicates.\<close>

definition arrival_dates :: "control_plane_config \<Rightarrow> string \<Rightarrow> string \<Rightarrow> timestamp \<Rightarrow> timestamp list" where
  "arrival_dates plan region model now =
     remdups_adj (sort (concat (map (\<lambda>p. dates_after (schedule_from_config plan) region (pool_id p) now) (pools_for plan region model))))"

definition room_from ::
  "control_plane_config \<Rightarrow> memory_planner \<Rightarrow> string \<Rightarrow> string \<Rightarrow> tier \<Rightarrow> timestamp \<Rightarrow> nat \<Rightarrow> nat \<Rightarrow> timestamp option" where
  "room_from plan mp region model t now current recommended =
     find (\<lambda>d. recommended \<le> u32_add (case available_cus mp region model t d of None \<Rightarrow> 0 | Some n \<Rightarrow> n) current)
       (arrival_dates plan region model now)"

definition tier_quote ::
  "service_ctx \<Rightarrow> memory_planner \<Rightarrow> timestamp \<Rightarrow> quote_source \<Rightarrow> pool_isolation \<Rightarrow> sku \<Rightarrow> string \<Rightarrow> workload \<Rightarrow> capacity_config
   \<Rightarrow> performance_profile \<Rightarrow> bool \<Rightarrow> tier \<Rightarrow> region_quote" where
  "tier_quote ctx mp now src isolation sk region w capacity profile serves_context t =
     (let plan = sc_plan (cx_config ctx);
          costs = costs_from_config plan;
          model = qs_model src;
          micro = current_micro costs (qs_current src) region (pool_id capacity);
          current = (case cus_in costs region (pool_id capacity) t micro of None \<Rightarrow> 0 | Some n \<Rightarrow> n);
          available = u32_add (case available_cus mp region model t now of None \<Rightarrow> 0 | Some n \<Rightarrow> n) current;
          demand = workload_demand profile t w;
          (recommended, peak, policy, notes) = quote_size demand (cp_wu_per_cu plan);
          feasible = (serves_context \<and> recommended \<le> available);
          available_from = (if serves_context \<and> \<not> feasible
                            then room_from plan mp region model t now current recommended else None);
          more = (if \<not> serves_context then [ContextTooLong region (cc_max_context capacity)]
                  else if available < recommended
                  then (case available_from of
                          Some d \<Rightarrow> [EnoughFrom region available t d]
                        | None \<Rightarrow> [OnlyAvailable region available t])
                  else []);
          rpm_per_cu = cp_wu_per_cu plan * 60 / max (qd_wu_per_request demand) f64_min_positive
      in \<lparr>rq_region = region, rq_tier = t, rq_profile = prof_name profile, rq_demand = demand,
          rq_recommended_cus = recommended, rq_peak_cus = peak,
          rq_per_cu = \<lparr>pc_requests_per_minute = rpm_per_cu,
                       pc_input_tokens_per_minute = rpm_per_cu * qd_avg_input_tokens demand,
                       pc_output_tokens_per_minute = rpm_per_cu * qd_avg_output_tokens demand\<rparr>,
          rq_price = svc_price ctx t isolation sk recommended,
          rq_ttft_p95_ms = ttft_target_ms t (input_p95 (qs_shape src))
            (f64_as_u64 (real (input_p95 (qs_shape src)) * cache_hit_ratio (qs_shape src))),
          rq_tpot_p95_ms = tpot_target_ms t (f64_as_u64 (qd_avg_output_tokens demand)),
          rq_available_cus = available, rq_available_from = available_from, rq_serves_context = serves_context,
          rq_feasible = feasible, rq_boundary_policy = policy, rq_notes = notes @ more\<rparr>)"

definition workload_for :: "quote_source \<Rightarrow> string \<Rightarrow> workload option" where
  "workload_for src region =
     (case map_of (qs_workloads src) region of Some w \<Rightarrow> Some w | None \<Rightarrow> map_of (qs_workloads src) [])"

text \<open>The quotes of one region; None is the panic of \<open>expect\<close> on a pool or profile that is not configured.\<close>

definition region_quotes ::
  "service_ctx \<Rightarrow> memory_planner \<Rightarrow> timestamp \<Rightarrow> quote_source \<Rightarrow> pool_isolation \<Rightarrow> sku \<Rightarrow> tier list \<Rightarrow> string
   \<Rightarrow> region_quote list option" where
  "region_quotes ctx mp now src isolation sk tiers region =
     (let plan = sc_plan (cx_config ctx)
      in case workload_for src region of
           None \<Rightarrow> Some []
         | Some w \<Rightarrow>
             (case (case Option.bind (map_of (qs_pools src) region) (config_pool plan region) of
                      Some c \<Rightarrow> Some c | None \<Rightarrow> capacity_for plan region (qs_model src)) of
                None \<Rightarrow> None
              | Some capacity \<Rightarrow>
                  (case config_profile plan (cc_profile capacity) of
                     None \<Rightarrow> None
                   | Some profile \<Rightarrow>
                       let serves_context =
                         (case check_shape mp (qs_model src) [\<lparr>cl_region = region, cl_pool = None, cl_cus = 1\<rparr>] (qs_shape src) of
                            Inl _ \<Rightarrow> False | Inr _ \<Rightarrow> True)
                       in Some (map (tier_quote ctx mp now src isolation sk region w capacity profile serves_context) tiers))))"

fun all_quotes ::
  "service_ctx \<Rightarrow> memory_planner \<Rightarrow> timestamp \<Rightarrow> quote_source \<Rightarrow> pool_isolation \<Rightarrow> sku \<Rightarrow> tier list \<Rightarrow> string list
   \<Rightarrow> region_quote list option" where
  "all_quotes ctx mp now src isolation sk tiers [] = Some []"
| "all_quotes ctx mp now src isolation sk tiers (r # rs) =
     (case region_quotes ctx mp now src isolation sk tiers r of
        None \<Rightarrow> None
      | Some qs \<Rightarrow> map_option (\<lambda>more. qs @ more) (all_quotes ctx mp now src isolation sk tiers rs))"

text \<open>\<open>q.tier as u8\<close>\<close>

fun tier_index :: "tier \<Rightarrow> nat" where
  "tier_index Interactive = 0"
| "tier_index Agentic = 1"
| "tier_index Standard = 2"

definition recommend_resize ::
  "service_ctx \<Rightarrow> pool_isolation \<Rightarrow> sku \<Rightarrow> string list \<Rightarrow> region_quote list \<Rightarrow> quote_current \<Rightarrow> recommendation option" where
  "recommend_resize ctx isolation sk regions quotes c =
     map_option (\<lambda>_.
       let recommended = foldl u32_add 0 (map rq_recommended_cus
             (List.map_filter (\<lambda>r. find (\<lambda>q. rq_region q = r \<and> rq_tier q = qc_tier c) quotes) regions));
           summary = (if qc_cus c < recommended then Increase (qc_cus c) recommended
                      else if recommended < qc_cus c then WouldCover recommended else Fits)
       in \<lparr>rc_regions = regions, rc_tier = qc_tier c, rc_cus = recommended,
           rc_monthly_price = pr_monthly (svc_price ctx (qc_tier c) isolation sk recommended), rc_summary = summary\<rparr>)
     (find (\<lambda>q. rq_tier q = qc_tier c) quotes)"

definition recommend_cheapest :: "region_quote list \<Rightarrow> recommendation option" where
  "recommend_cheapest quotes =
     map_option (\<lambda>q. \<lparr>rc_regions = [rq_region q], rc_tier = rq_tier q, rc_cus = rq_recommended_cus q,
                      rc_monthly_price = pr_monthly (rq_price q),
                      rc_summary = LowestPriced (rq_recommended_cus q) (rq_tier q) (rq_region q)\<rparr>)
       (min_by_key (\<lambda>q. (pr_monthly (rq_price q), tier_index (rq_tier q))) (filter rq_feasible quotes))"

definition fill_burst :: "region_quote list \<Rightarrow> shape \<Rightarrow> shape" where
  "fill_burst quotes s =
     (case quotes of
        [] \<Rightarrow> s
      | q # _ \<Rightarrow>
          let ratio = qd_peak (rq_demand q) / max (qd_sustained (rq_demand q)) f64_min_positive
          in s\<lparr>burst_factor := clamp 1 20 (f64_round (ratio * 10) / 10)\<rparr>)"

text \<open>\<open>first\<close> is the first value in the iteration order of the map of workloads.\<close>

definition quote ::
  "service_ctx \<Rightarrow> ((string \<times> workload) list \<Rightarrow> workload option) \<Rightarrow> usage_inner \<Rightarrow> service \<Rightarrow> timestamp \<Rightarrow> string \<Rightarrow> quote_request
   \<Rightarrow> (service_error + quote_response) option" where
  "quote ctx first usage sv now tenant req =
     (case quote_resolve ctx usage sv now tenant req of
        None \<Rightarrow> None
      | Some (Inl e) \<Rightarrow> Some (Inl e)
      | Some (Inr src) \<Rightarrow>
          (case validate_model (cx_config ctx) (qs_model src) of
             Inl e \<Rightarrow> Some (Inl e)
           | Inr model \<Rightarrow>
               (case (case (case qr_tier req of Some t \<Rightarrow> Some t | None \<Rightarrow> qs_tier src) of
                        Some t \<Rightarrow> (case validate_tier model t of Inl e \<Rightarrow> Inl e | Inr _ \<Rightarrow> Inr [t])
                      | None \<Rightarrow> Inr (mc_tiers model)) of
                  Inl e \<Rightarrow> Some (Inl e)
                | Inr tiers \<Rightarrow>
                    let regions = (case qr_regions req of Some rs \<Rightarrow> rs | None \<Rightarrow> qs_regions src);
                        isolation = (case qr_isolation req of Some i \<Rightarrow> i | None \<Rightarrow> Shared);
                        sk = (case qr_sku req of Some s \<Rightarrow> s | None \<Rightarrow> (case qs_sku src of Some s \<Rightarrow> s | None \<Rightarrow> Regional))
                    in if regions = [] \<or> list_ex (\<lambda>r. capacity_for (sc_plan (cx_config ctx)) r (qs_model src) = None) regions
                       then Some (Inl (Validation ''regions''))
                       else map_option (\<lambda>quotes. Inr
                           \<lparr>qp_model = qs_model src, qp_kind = qs_kind src, qp_isolation = isolation, qp_current = qs_current src,
                            qp_observed_shape = (if qs_kind src = SourceShape then None
                               else map_option (fill_burst quotes) (Option.bind (first (qs_workloads src)) (observed_shape (mc_max_context model)))),
                            qp_quotes = quotes,
                            qp_recommendation = (case qs_current src of
                               Some c \<Rightarrow> recommend_resize ctx isolation sk regions quotes c
                             | None \<Rightarrow> recommend_cheapest quotes)\<rparr>)
                         (all_quotes ctx (sv_planner sv) now src isolation sk tiers regions))))"

end
