(* ===== verification/Quote_Claims.thy ===== *)
theory Quote_Claims
  imports Quote Service_Claims
begin

text \<open>
  What a quote promises: the sizing covers the demand and no smaller one does, the windows of a
  trace are the busiest ones, the observed shape can be used to create a reservation, a
  feasible quote can be reserved, and when the handler panics.
\<close>

section \<open>Sizing\<close>

lemma above_one: "1 < max m (1 :: nat) \<Longrightarrow> max m 1 = m \<and> 1 < m"
  by simp

lemma cus_for:
  fixes x :: real
  assumes "0 \<le> x" and "x \<le> 4294967295"
  defines "n \<equiv> max (f64_as_u32 (of_int \<lceil>x\<rceil>)) 1"
  shows "x \<le> real n" "1 < n \<Longrightarrow> real (n - 1) < x" "1 \<le> n"
proof -
  have "\<lceil>x\<rceil> \<le> 4294967295" using assms(2) by (simp add: ceiling_le_iff)
  then have n: "n = max (nat \<lceil>x\<rceil>) 1" using assms(1) unfolding n_def f64_as_u32_def by simp
  have c: "x \<le> real (nat \<lceil>x\<rceil>)" by (rule real_nat_ceiling_ge)
  then show "x \<le> real n" unfolding n by simp
  show "1 \<le> n" unfolding n by simp
  assume gt: "1 < n"
  then have "n = nat \<lceil>x\<rceil>" "1 < nat \<lceil>x\<rceil>" using above_one unfolding n by blast+
  then have "real n = of_int \<lceil>x\<rceil>" by (simp add: of_nat_nat)
  moreover have "real (n - 1) = real n - 1" using gt by (simp add: of_nat_diff)
  ultimately have "real (n - 1) = of_int (\<lceil>x\<rceil> - 1)" by simp
  also have "\<dots> < x" using ceiling_correct[of x] by simp
  finally show "real (n - 1) < x" .
qed

lemma divided_cus:
  fixes x w :: real
  assumes "0 < w" "0 \<le> x" "x \<le> 4294967295 * w"
  defines "n \<equiv> max (f64_as_u32 (of_int \<lceil>x / w\<rceil>)) 1"
  shows "x \<le> real n * w" "1 < n \<Longrightarrow> real (n - 1) * w < x" "1 \<le> n"
  using cus_for[of "x / w"] assms(1-3) unfolding n_def by (simp_all add: pos_divide_le_eq pos_less_divide_eq)

text \<open>
  C31. The sizing covers the demand. With the recommended CUs the busiest hour uses at most four
  fifths of the entitlement, and with one CU less it would use more; the peak CUs cover the
  peak, and no fewer would. A policy is suggested exactly when the peak needs more than the
  recommendation; it passes validation, and a suggested burst rate covers the peak.
\<close>

theorem sizing_covers_demand:
  assumes "0 < w" and "0 \<le> qd_sustained d" and "0 \<le> qd_peak d"
    and "qd_sustained d \<le> 4294967295 * (w * TARGET_UTILISATION)" and "qd_peak d \<le> 4294967295 * w"
    and size: "quote_size d w = (recommended, peak, policy, notes)"
  shows "1 \<le> recommended \<and> qd_sustained d \<le> 4/5 * (real recommended * w)
    \<and> (1 < recommended \<longrightarrow> 4/5 * (real (recommended - 1) * w) < qd_sustained d)
    \<and> qd_peak d \<le> real peak * w \<and> (1 < peak \<longrightarrow> real (peak - 1) * w < qd_peak d)
    \<and> (policy = None \<longleftrightarrow> peak \<le> recommended)
    \<and> (\<forall>p. policy = Some p \<longrightarrow> validate_boundary_policy p = Inr ()
         \<and> (case bp_burst p of Some b \<Rightarrow> qd_peak d \<le> max_rate_multiple b * (real recommended * w)
            | None \<Rightarrow> bp_spillover p \<and> 10 * (real recommended * w) < qd_peak d))"
proof -
  have u: "w * TARGET_UTILISATION = 4/5 * w" "0 < w * TARGET_UTILISATION" using assms(1) by (simp_all add: TARGET_UTILISATION_def)
  have r: "recommended = max (f64_as_u32 (of_int \<lceil>qd_sustained d / (w * TARGET_UTILISATION)\<rceil>)) 1"
    and p: "peak = max (f64_as_u32 (of_int \<lceil>qd_peak d / w\<rceil>)) 1"
    using size by (auto simp: quote_size_def Let_def split: if_splits)
  note rec = divided_cus[OF u(2) assms(2,4), folded r] and pk = divided_cus[OF assms(1,3,5), folded p]
  have pos: "0 < real recommended * w" using rec(3) assms(1) by simp
  have none: "policy = None \<longleftrightarrow> peak \<le> recommended"
    using size r p by (auto simp: quote_size_def Let_def split: if_splits)
  have some: "validate_boundary_policy q = Inr ()
      \<and> (case bp_burst q of Some b \<Rightarrow> qd_peak d \<le> max_rate_multiple b * (real recommended * w)
         | None \<Rightarrow> bp_spillover q \<and> 10 * (real recommended * w) < qd_peak d)" if q: "policy = Some q" for q
  proof -
    define ratio where "ratio = qd_peak d / (real recommended * w)"
    have peak: "qd_peak d = ratio * (real recommended * w)" using pos by (auto simp: ratio_def)
    show ?thesis
    proof (cases "ratio \<le> 10")
      case True
      have "ratio * 10 \<le> of_int \<lceil>ratio * 10\<rceil>" "\<lceil>ratio * 10\<rceil> \<le> 100" using True by (simp_all add: le_of_int_ceiling ceiling_le_iff)
      then have m: "ratio \<le> max (of_int \<lceil>ratio * 10\<rceil> / 10) (11/10)" "max (of_int \<lceil>ratio * 10\<rceil> / 10) (11/10) \<le> (10 :: real)"
        by (simp_all add: le_max_iff_disj)
      have "q = boundary_policy_default\<lparr>bp_burst := Some (burst_policy_default\<lparr>max_rate_multiple := max (of_int \<lceil>ratio * 10\<rceil> / 10) (11/10)\<rparr>)\<rparr>"
        using size q r True by (auto simp: quote_size_def Let_def ratio_def split: if_splits)
      then show ?thesis using m pos
        by (simp add: validate_boundary_policy_def boundary_policy_default_def burst_policy_default_def peak mult_right_mono)
    next
      case False
      then have "q = boundary_policy_default\<lparr>bp_spillover := True\<rparr>"
        using size q r by (auto simp: quote_size_def Let_def ratio_def split: if_splits)
      then show ?thesis using False pos by (simp add: validate_boundary_policy_def boundary_policy_default_def peak mult_less_cancel_right_pos[OF pos] del: times_divide_eq_left)
    qed
  qed
  show ?thesis using rec pk none some by (simp add: TARGET_UTILISATION_def algebra_simps)
qed

section \<open>Busiest windows\<close>

definition window_total :: "nat \<Rightarrow> (nat \<times> real) list \<Rightarrow> nat \<Rightarrow> real" where
  "window_total w points k = (\<Sum>p\<leftarrow>filter (\<lambda>p. fst p div w = k) points. snd p)"

lemma buckets_total:
  "map_of (foldl (add_to_bucket w) [] points) k
     = (if \<exists>p\<in>set points. fst p div w = k then Some (window_total w points k) else None)"
proof (induction points rule: rev_induct)
  case (snoc p points)
  then show ?case by (auto simp: add_to_bucket_def Let_def update_conv window_total_def filter_empty_conv sum_list_eq_0_iff)
qed simp

lemma buckets_distinct: "distinct (map fst (foldl (add_to_bucket w) [] points))"
  by (induction points rule: rev_induct) (simp_all add: add_to_bucket_def Let_def distinct_update)

lemma foldl_max: "foldl max (a :: real) xs = Max (insert a (set xs))"
proof (induction xs arbitrary: a)
  case (Cons x xs)
  have "Max (insert (max a x) (set xs)) = Max (insert a (insert x (set xs)))" by (cases "xs = []") (simp_all add: max.assoc)
  then show ?case using Cons by simp
qed simp

text \<open>
  The busiest window of a trace. The one pass over the points gives the largest total of the
  points of any one window, or zero, divided by the length of a window or of the trace.
\<close>

theorem busiest_equals_reference:
  "busiest points w s = Max (insert 0 ((\<lambda>p. window_total w points (fst p div w)) ` set points)) / (real (min w s) / 1000)"
proof -
  let ?b = "foldl (add_to_bucket w) [] points"
  have "(k, v) \<in> set ?b \<longleftrightarrow> map_of ?b k = Some v" for k v using buckets_distinct by (simp add: map_of_eq_Some_iff)
  then have "snd ` set ?b = (\<lambda>p. window_total w points (fst p div w)) ` set points"
    by (intro set_eqI) (simp add: image_iff Bex_def buckets_total, metis)
  then show ?thesis by (simp add: busiest_def Let_def foldl_max)
qed

section \<open>The observed shape\<close>

lemma iter_max_Some:
  assumes "xs \<noteq> []"
  obtains m where "iter_max xs = Some m" "m \<in> set xs" "\<forall>x\<in>set xs. x \<le> m"
  using max_by_key_SomeD[of "\<lambda>x. x" xs] assms by (cases "max_by_key (\<lambda>x. x) xs") (auto simp: iter_max_def)

lemma trace_p95_in: "v \<noteq> [] \<Longrightarrow> trace_p95 v \<in> set v"
proof -
  assume "v \<noteq> []"
  then have "1 \<le> length v" by (cases v) auto
  then have "clamp 1 (length v) x - 1 < length (sort v)" for x
    using clamp_bounds[of 1 "length v" x] unfolding length_sort by linarith
  then show ?thesis unfolding trace_p95_def using nth_mem set_sort by metis
qed

lemma next_power_of_two_bounds:
  assumes "n \<le> 2 ^ 63"
  shows "n \<le> next_power_of_two n"
proof (cases "n \<le> 1")
  case True
  then show ?thesis by (simp add: next_power_of_two_def floorlog_def)
next
  case False
  have "n - 1 < 2 ^ floorlog 2 (n - 1)" using False floorlog_bounds[of "n - 1" 2] by simp
  moreover have "floorlog 2 (n - 1) \<le> 63" using floorlog_le_iff[of 2 "n - 1" 63] assms False by simp
  then have "(2 :: nat) ^ floorlog 2 (n - 1) \<le> 2 ^ 63" by (intro power_increasing) simp_all
  then have "next_power_of_two n = 2 ^ floorlog 2 (n - 1)" by (simp add: next_power_of_two_def)
  ultimately show ?thesis by simp
qed

lemma trace_p95_le: "v \<noteq> [] \<Longrightarrow> \<forall>x\<in>set v. x \<le> m \<Longrightarrow> trace_p95 v \<le> m"
  using trace_p95_in by blast

lemma trace_total:
  fixes c :: nat
  assumes "length es \<le> MAX_TRACE" and "\<forall>e\<in>set es. f e \<le> c" and "c < 2 ^ 47"
  shows "sum_list (map f es) < 18446744073709551616"
proof -
  have "sum_list (map f es) \<le> length es * c" using assms(2) by (induction es) auto
  also have "\<dots> \<le> MAX_TRACE * 2 ^ 47" using assms(1,3) by (intro mult_le_mono) simp_all
  finally show ?thesis by (simp add: MAX_TRACE_def)
qed

text \<open>The cached share of the input, of requests that fit the model.\<close>

lemma cached_share:
  assumes "length es \<le> MAX_TRACE" and "c < 2 ^ 47" and "\<forall>e\<in>set es. te_input_tokens e \<le> c"
  defines "cached \<equiv> u64_sum (map (\<lambda>e. min (te_cached_tokens e) (te_input_tokens e)) es)"
    and "input \<equiv> u64_sum (map te_input_tokens es)"
  shows "0 \<le> (if 0 < input then real cached / real input else 0) \<and> (if 0 < input then real cached / real input else 0) \<le> 1"
proof -
  have "\<forall>e\<in>set es. min (te_cached_tokens e) (te_input_tokens e) \<le> c" using assms(3) by (auto simp: min_le_iff_disj)
  then have "cached = sum_list (map (\<lambda>e. min (te_cached_tokens e) (te_input_tokens e)) es)" "input = sum_list (map te_input_tokens es)"
    unfolding cached_def input_def by (intro u64_sum_exact trace_total[OF assms(1) _ assms(2)] assms(3); simp)+
  moreover have "sum_list (map (\<lambda>e. min (te_cached_tokens e) (te_input_tokens e)) es) \<le> sum_list (map te_input_tokens es)"
    by (intro sum_list_mono) simp
  ultimately show ?thesis by (simp add: divide_le_eq)
qed

lemma observed_shape_fields:
  assumes "length es \<le> MAX_TRACE" and "c < 2 ^ 47"
    and fit: "\<forall>e\<in>set es. 0 < te_input_tokens e \<longrightarrow> te_input_tokens e + te_output_tokens e \<le> c"
    and shape: "observed_shape c (Trace es) = Some sh"
  shows "input_p95 sh \<le> input_max sh" "input_max sh \<le> context_ceiling sh" "1 \<le> output_p95 sh" "output_p95 sh \<le> context_ceiling sh"
    "context_ceiling sh \<le> c" "0 \<le> cache_hit_ratio sh" "cache_hit_ratio sh \<le> 1" "burst_factor sh = 1"
    "\<forall>e\<in>set es. 0 < te_input_tokens e \<longrightarrow> te_input_tokens e \<le> input_max sh \<and> te_input_tokens e + te_output_tokens e \<le> context_ceiling sh"
proof -
  define served where "served = filter (\<lambda>e. 0 < te_input_tokens e) es"
  have ne: "served \<noteq> []" using shape by (auto simp: observed_shape_def served_def Let_def split: if_splits)
  have fits: "\<forall>e\<in>set served. 0 < te_input_tokens e \<and> te_input_tokens e + te_output_tokens e \<le> c" using fit by (auto simp: served_def)
  obtain mi where mi: "iter_max (map te_input_tokens served) = Some mi" "mi \<in> te_input_tokens ` set served"
    "\<forall>e\<in>set served. te_input_tokens e \<le> mi"
    using iter_max_Some[of "map te_input_tokens served"] ne by auto
  have add: "map (\<lambda>e. u64_add (te_input_tokens e) (te_output_tokens e)) served = map (\<lambda>e. te_input_tokens e + te_output_tokens e) served"
    using fits assms(2) by (auto simp: u64_add_def)
  obtain mx where mx: "iter_max (map (\<lambda>e. te_input_tokens e + te_output_tokens e) served) = Some mx"
    "mx \<in> (\<lambda>e. te_input_tokens e + te_output_tokens e) ` set served"
    "\<forall>e\<in>set served. te_input_tokens e + te_output_tokens e \<le> mx"
    using iter_max_Some[of "map (\<lambda>e. te_input_tokens e + te_output_tokens e) served"] ne by auto
  define cl where "cl = min (next_power_of_two (max mx 1024)) c"
  have "mx \<le> c" using mx(2) fits by auto
  moreover have "max mx 1024 \<le> next_power_of_two (max mx 1024)" using \<open>mx \<le> c\<close> assms(2) by (intro next_power_of_two_bounds) simp
  ultimately have cl: "mx \<le> cl" "cl \<le> c" by (auto simp: cl_def)
  have len: "length served \<le> MAX_TRACE" using assms(1) length_filter_le[of _ es] unfolding served_def by (rule order_trans[rotated])
  have le: "\<forall>e\<in>set served. te_input_tokens e \<le> c" "\<forall>e\<in>set served. te_output_tokens e \<le> cl" using fits mx(3) cl(1) by force+
  have p: "trace_p95 (map te_input_tokens served) \<le> mi" "trace_p95 (map te_output_tokens served) \<le> cl"
    using trace_p95_le[of "map te_input_tokens served"] trace_p95_le[of "map te_output_tokens served"] ne mi(3) le(2) by simp_all
  have m: "1 \<le> mi" "mi \<le> mx" using mi(2) mx(3) fits by force+
  note sh = shape[unfolded observed_shape_def workload.case Let_def served_def[symmetric] add mi(1) mx(1) option.case cl_def[symmetric] if_not_P[OF ne] option.inject, symmetric]
  show "input_p95 sh \<le> input_max sh" "input_max sh \<le> context_ceiling sh" "1 \<le> output_p95 sh" "output_p95 sh \<le> context_ceiling sh"
    "context_ceiling sh \<le> c" "0 \<le> cache_hit_ratio sh" "cache_hit_ratio sh \<le> 1" "burst_factor sh = 1"
    "\<forall>e\<in>set es. 0 < te_input_tokens e \<longrightarrow> te_input_tokens e \<le> input_max sh \<and> te_input_tokens e + te_output_tokens e \<le> context_ceiling sh"
    unfolding sh using p m cl cached_share[OF len assms(2) le(1)] mi(3) mx(3) by (auto simp: served_def)
qed

lemma fill_burst_fields:
  "input_p95 (fill_burst quotes sh) = input_p95 sh" "input_max (fill_burst quotes sh) = input_max sh"
  "output_p95 (fill_burst quotes sh) = output_p95 sh" "context_ceiling (fill_burst quotes sh) = context_ceiling sh"
  "cache_hit_ratio (fill_burst quotes sh) = cache_hit_ratio sh"
  "burst_factor sh = 1 \<Longrightarrow> 1 \<le> burst_factor (fill_burst quotes sh) \<and> burst_factor (fill_burst quotes sh) \<le> 20"
  using clamp_bounds[of 1 "20 :: real"] by (auto simp: fill_burst_def Let_def split: list.split)

text \<open>
  The observed shape can be used. For a trace within the limits of the request, whose served
  requests fit the model, the shape that the quote reports, its burst factor filled in, passes
  the validation of a new reservation and every served request is in shape.
\<close>

theorem observed_shape_usable:
  assumes "length es \<le> MAX_TRACE" and "mc_max_context model < 2 ^ 47"
    and "\<forall>e\<in>set es. 0 < te_input_tokens e \<longrightarrow> te_input_tokens e + te_output_tokens e \<le> mc_max_context model"
    and "observed_shape (mc_max_context model) (Trace es) = Some sh"
  shows "validate_shape model (fill_burst quotes sh) = Inr ()
    \<and> (\<forall>e\<in>set es. 0 < te_input_tokens e \<longrightarrow> is_in_shape (fill_burst quotes sh) (te_input_tokens e) (te_output_tokens e))"
proof -
  note f = observed_shape_fields[OF assms]
  have "validate_shape model (fill_burst quotes sh) = Inr ()"
    unfolding validate_shape_def fill_burst_fields using fill_burst_fields(6)[OF f(8)] f(1-7) by auto
  moreover have "u64_saturating_add a b \<le> a + b" for a b by (simp add: u64_saturating_add_def)
  ultimately show ?thesis using f(9) unfolding is_in_shape_def fill_burst_fields by (meson order_trans)
qed

section \<open>Feasible quotes\<close>

lemma tier_quote_new:
  fixes q :: region_quote
  assumes "qs_current src = None" and q: "q = tier_quote ctx mp now src isolation sk region w capacity profile serves t" and "rq_feasible q"
  shows "\<exists>n. available_cus mp region (qs_model src) t now = Some n \<and> rq_recommended_cus q \<le> n" "1 \<le> rq_recommended_cus q" "serves"
    "rq_region q = region" "rq_tier q = t"
proof -
  have zero: "(case cus_in costs region (pool_id capacity) t (current_micro costs (qs_current src) region (pool_id capacity)) of None \<Rightarrow> 0 | Some n \<Rightarrow> n) = 0" for costs
    using assms(1) by (simp add: current_micro_def cus_in_def split: option.split)
  obtain rec peak policy ns where size: "quote_size (workload_demand profile t w) (cp_wu_per_cu (sc_plan (cx_config ctx))) = (rec, peak, policy, ns)"
    by (cases "quote_size (workload_demand profile t w) (cp_wu_per_cu (sc_plan (cx_config ctx)))")
  then have one: "1 \<le> rec" by (auto simp: quote_size_def Let_def split: if_splits)
  have r: "rq_recommended_cus q = rec" "serves \<and> rec \<le> u32_add (case available_cus mp region (qs_model src) t now of None \<Rightarrow> 0 | Some n \<Rightarrow> n) 0"
    using assms(3) unfolding q tier_quote_def Let_def size zero by simp_all
  have "u32_add a 0 \<le> a" for a by (simp add: u32_add_def)
  then have "\<exists>n. available_cus mp region (qs_model src) t now = Some n \<and> rec \<le> n"
    using r(2) one by (cases "available_cus mp region (qs_model src) t now") (auto simp: u32_add_def intro: order_trans)
  then show "\<exists>n. available_cus mp region (qs_model src) t now = Some n \<and> rq_recommended_cus q \<le> n" "1 \<le> rq_recommended_cus q" "serves"
    "rq_region q = region" "rq_tier q = t"
    using r one unfolding q tier_quote_def Let_def size by simp_all
qed

text \<open>A claim for at most the CUs that a pool has free can be taken there.\<close>

lemma available_can_take:
  assumes "available_cus mp region model t start = Some n" and "1 \<le> cus" and "cus \<le> n"
    and "\<forall>p\<in>set (mp_pools mp). pv_region p = region \<longrightarrow> pv_model p = model \<longrightarrow> context_ceiling sh \<le> pv_max_context p"
  shows "\<exists>shs mp'. planner_reserve mp model t [\<lparr>cl_region = region, cl_pool = None, cl_cus = cus\<rparr>] sh start = Some (Inr shs, mp')"
proof -
  let ?c = "\<lparr>cl_region = region, cl_pool = None, cl_cus = cus\<rparr>"
  let ?ps = "filter (\<lambda>p. pv_region p = region \<and> pv_model p = model) (mp_pools mp)"
  have "iter_max (List.map_filter (\<lambda>p. cus_in (mp_costs mp) (pv_region p) (pv_pool p) t (free_at p (mp_schedule mp) start)) ?ps) = Some n"
    using assms(1) by (simp add: available_cus_def planner_available_at_def largest_free_cus_def)
  then have "n \<in> set (List.map_filter (\<lambda>p. cus_in (mp_costs mp) (pv_region p) (pv_pool p) t (free_at p (mp_schedule mp) start)) ?ps)"
    using max_by_key_SomeD[of "\<lambda>x. x"] unfolding iter_max_def by blast
  then obtain p per where p: "p \<in> set (mp_pools mp)" "pv_region p = region" "pv_model p = model"
    "per_cu (mp_costs mp) (pv_region p) (pv_pool p) t = Some per" "n = min (free_at p (mp_schedule mp) start div per) u32_max"
    by (auto simp: set_map_filter cus_in_def)
  then have le: "cus \<le> free_at p (mp_schedule mp) start div per" using assms(3) by simp
  then have "cus * per \<le> free_at p (mp_schedule mp) start" using assms(2) by (cases "per = 0") (auto simp: less_eq_div_iff_mult_less_eq)
  then have "u64_mul per cus \<le> free_at p (mp_schedule mp) start"
    unfolding u64_mul_def by (metis mod_less_eq_dividend mult.commute order_trans)
  then have "can_take_claim ?c model t sh start (mp_costs mp) (mp_schedule mp) p"
    using p assms(4) by (simp add: can_take_claim_def)
  then have "\<not> (\<exists>e. place ?c model t sh (Some start) (mp_pools mp) (mp_costs mp) (mp_schedule mp) = Inl e)"
    using p(1) place_error_iff by blast
  then obtain pool need where "place ?c model t sh (Some start) (mp_pools mp) (mp_costs mp) (mp_schedule mp) = Inr (Some (pool, need))"
    using place_never_none by (metis not_None_eq old.sum.exhaust surj_pair)
  then show ?thesis by (simp add: planner_reserve_def)
qed

lemma region_quotes_member:
  assumes "region_quotes ctx mp now src isolation sk tiers r = Some qs" and "q \<in> set qs"
  shows "\<exists>w capacity profile serves t. q = tier_quote ctx mp now src isolation sk r w capacity profile serves t"
  using assms by (auto simp: region_quotes_def Let_def simp del: check_shape.simps split: option.splits) ((rule exI)+, rule refl)+

lemma all_quotes_member:
  assumes "all_quotes ctx mp now src isolation sk tiers rs = Some qs" and "q \<in> set qs"
  shows "\<exists>r w capacity profile serves t. q = tier_quote ctx mp now src isolation sk r w capacity profile serves t"
  using assms
proof (induction rs arbitrary: qs)
  case (Cons r rs)
  then obtain a b where "region_quotes ctx mp now src isolation sk tiers r = Some a" "all_quotes ctx mp now src isolation sk tiers rs = Some b" "qs = a @ b"
    by (auto split: option.splits)
  then show ?case using Cons.IH[of b] Cons.prems(2) region_quotes_member[of ctx mp now src isolation sk tiers r a q] by auto
qed simp

lemma quote_done:
  assumes "quote ctx first usage sv now tenant req = Some (Inr resp)"
  obtains src isolation sk tiers regions where
    "quote_resolve ctx usage sv now tenant req = Some (Inr src)"
    "all_quotes ctx (sv_planner sv) now src isolation sk tiers regions = Some (qp_quotes resp)"
    "qp_recommendation resp = (case qs_current src of
        Some c \<Rightarrow> recommend_resize ctx isolation sk regions (qp_quotes resp) c | None \<Rightarrow> recommend_cheapest (qp_quotes resp))"
  using assms unfolding quote_def Let_def
  by (cases "quote_resolve ctx usage sv now tenant req") (auto split: sum.splits if_splits option.splits)

lemma new_source:
  assumes "quote_resolve ctx usage sv now tenant req = Some (Inr src)" and "qr_from_reservation req = None"
  shows "qs_current src = None"
  using assms by (auto simp: quote_resolve_def source_from_shape_def source_from_trace_def source_of_workload_def Let_def
      split: option.splits sum.splits if_splits)

text \<open>
  C32. A feasible quote can be reserved. Where every pool of the model in the region serves the
  context, a quote for a new reservation that is called feasible names a number of CUs that
  the planner reserves there and then, and some recommendation is made that is no dearer.
\<close>

theorem feasible_quote_can_be_reserved:
  assumes "quote ctx first usage sv now tenant req = Some (Inr resp)" and "qr_from_reservation req = None"
    and "quote_resolve ctx usage sv now tenant req = Some (Inr src)"
    and "q \<in> set (qp_quotes resp)" and "rq_feasible q"
    and "\<forall>p\<in>set (mp_pools (sv_planner sv)). pv_region p = rq_region q \<longrightarrow> pv_model p = qs_model src
           \<longrightarrow> context_ceiling (qs_shape src) \<le> pv_max_context p"
  shows "(\<exists>shs mp'. planner_reserve (sv_planner sv) (qs_model src) (rq_tier q)
            [\<lparr>cl_region = rq_region q, cl_pool = None, cl_cus = rq_recommended_cus q\<rparr>] (qs_shape src) now = Some (Inr shs, mp'))
    \<and> (\<exists>r. qp_recommendation resp = Some r \<and> rc_monthly_price r \<le> pr_monthly (rq_price q))"
proof -
  obtain isolation sk tiers regions where
    all: "all_quotes ctx (sv_planner sv) now src isolation sk tiers regions = Some (qp_quotes resp)"
    and rec: "qp_recommendation resp = (case qs_current src of
        Some c \<Rightarrow> recommend_resize ctx isolation sk regions (qp_quotes resp) c | None \<Rightarrow> recommend_cheapest (qp_quotes resp))"
    using quote_done[OF assms(1)] assms(3) by (metis option.inject sum.inject(2))
  note new = new_source[OF assms(3,2)]
  obtain r w capacity profile serves t where q: "q = tier_quote ctx (sv_planner sv) now src isolation sk r w capacity profile serves t"
    using all_quotes_member[OF all assms(4)] by blast
  note tq = tier_quote_new[OF new q assms(5)]
  obtain n where n: "available_cus (sv_planner sv) r (qs_model src) t now = Some n" "rq_recommended_cus q \<le> n" using tq(1) by blast
  have "\<exists>shs mp'. planner_reserve (sv_planner sv) (qs_model src) (rq_tier q)
      [\<lparr>cl_region = rq_region q, cl_pool = None, cl_cus = rq_recommended_cus q\<rparr>] (qs_shape src) now = Some (Inr shs, mp')"
    using available_can_take[OF n(1) tq(2) n(2), of "qs_shape src"] assms(6) by (simp add: tq(4,5))
  moreover have "\<exists>r. recommend_cheapest (qp_quotes resp) = Some r \<and> rc_monthly_price r \<le> pr_monthly (rq_price q)"
  proof -
    let ?key = "\<lambda>q. (pr_monthly (rq_price q), tier_index (rq_tier q))" and ?qs = "filter rq_feasible (qp_quotes resp)"
    have in_qs: "q \<in> set ?qs" using assms(4,5) by simp
    then obtain m where m: "min_by_key ?key ?qs = Some m" by (metis empty_iff list.set(1) min_by_key_None_iff not_None_eq)
    then have "?key m \<le> ?key q" using min_by_key_SomeD[OF m] in_qs by blast
    then show ?thesis using m by (auto simp: recommend_cheapest_def)
  qed
  ultimately show ?thesis using rec new by simp
qed

section \<open>Panics\<close>

lemma capacity_for_in: "capacity_for config r m = Some c \<Longrightarrow> c \<in> set (cp_capacity config)"
  by (auto simp: capacity_for_def pools_for_def Let_def find_Some_iff nth_mem split: option.splits list.splits)
    (metis (no_types, lifting) filter_is_subset list.set_intros(1) nth_mem subsetD)+

lemma config_pool_in: "config_pool config r p = Some c \<Longrightarrow> c \<in> set (cp_capacity config)"
  by (auto simp: config_pool_def find_Some_iff)

lemma region_quotes_total:
  assumes "\<forall>c\<in>set (cp_capacity (sc_plan (cx_config ctx))). config_profile (sc_plan (cx_config ctx)) (cc_profile c) \<noteq> None"
    and "capacity_for (sc_plan (cx_config ctx)) r (qs_model src) \<noteq> None"
  shows "region_quotes ctx mp now src isolation sk tiers r \<noteq> None"
proof -
  let ?plan = "sc_plan (cx_config ctx)"
  obtain c where c: "(case Option.bind (map_of (qs_pools src) r) (config_pool ?plan r) of
      Some c \<Rightarrow> Some c | None \<Rightarrow> capacity_for ?plan r (qs_model src)) = Some c"
    using assms(2) by (cases "Option.bind (map_of (qs_pools src) r) (config_pool ?plan r)") auto
  then have "c \<in> set (cp_capacity ?plan)"
    using capacity_for_in config_pool_in by (auto split: option.splits Option.bind_splits)
  then obtain pr where "config_profile ?plan (cc_profile c) = Some pr" using assms(1) by blast
  then show ?thesis unfolding region_quotes_def Let_def c by (simp split: option.split)
qed

lemma all_quotes_total:
  assumes "\<forall>c\<in>set (cp_capacity (sc_plan (cx_config ctx))). config_profile (sc_plan (cx_config ctx)) (cc_profile c) \<noteq> None"
    and "\<not> list_ex (\<lambda>r. capacity_for (sc_plan (cx_config ctx)) r (qs_model src) = None) rs"
  shows "all_quotes ctx mp now src isolation sk tiers rs \<noteq> None"
  using assms(2)
proof (induction rs)
  case (Cons r rs)
  then have "region_quotes ctx mp now src isolation sk tiers r \<noteq> None" by (intro region_quotes_total[OF assms(1)]) simp
  then show ?case using Cons by auto
qed simp

lemma quote_None:
  assumes "\<forall>c\<in>set (cp_capacity (sc_plan (cx_config ctx))). config_profile (sc_plan (cx_config ctx)) (cc_profile c) \<noteq> None"
  shows "quote ctx first usage sv now tenant req = None \<longleftrightarrow> quote_resolve ctx usage sv now tenant req = None"
proof (cases "quote_resolve ctx usage sv now tenant req")
  case (Some r)
  show ?thesis
  proof (cases r)
    case (Inr src)
    have "all_quotes ctx mp now src isolation sk tiers rs = None \<Longrightarrow> list_ex (\<lambda>r. capacity_for (sc_plan (cx_config ctx)) r (qs_model src) = None) rs"
      for mp isolation sk tiers rs using all_quotes_total[OF assms] by blast
    then show ?thesis using Some Inr by (simp add: quote_def Let_def split: sum.split) blast
  qed (simp add: Some quote_def)
qed (simp add: quote_def)

text \<open>
  C33. When a quote panics. With a profile for every configured pool, the handler panics exactly on
  a trace that passes all its checks but in which no request has an input token, and answers
  every other request.
\<close>

theorem quote_panics_exactly:
  assumes "\<forall>c\<in>set (cp_capacity (sc_plan (cx_config ctx))). config_profile (sc_plan (cx_config ctx)) (cc_profile c) \<noteq> None"
  shows "quote ctx first usage sv now tenant req = None \<longleftrightarrow>
    qr_shape req = None \<and> qr_from_reservation req = None
    \<and> (\<exists>mid es. qr_model req = Some mid \<and> config_model (cx_config ctx) mid \<noteq> None \<and> qr_trace req = Some es
         \<and> 1 \<le> length es \<and> length es \<le> 100000 \<and> list_all (\<lambda>e. te_input_tokens e = 0 \<and> te_cached_tokens e = 0) es)"
proof -
  have none: "observed_shape m (Trace es) = None \<longleftrightarrow> list_all (\<lambda>e. te_input_tokens e = 0) es" for m es
    by (auto simp: observed_shape_def Let_def filter_empty_conv list_all_iff)
  have tr: "source_from_trace ctx req mid m = None \<longleftrightarrow> (\<exists>es. qr_trace req = Some es \<and> es \<noteq> [] \<and> length es \<le> 100000
      \<and> list_all (\<lambda>e. te_input_tokens e = 0 \<and> te_cached_tokens e = 0) es)" for mid m
  proof -
    have "list_all (\<lambda>e. te_input_tokens e = 0 \<and> te_cached_tokens e = 0) es \<longleftrightarrow>
        \<not> list_ex (\<lambda>e. te_input_tokens e < te_cached_tokens e) es \<and> list_all (\<lambda>e. te_input_tokens e = 0) es" for es
      by (induction es) auto
    then show ?thesis by (cases "qr_trace req") (auto simp: source_from_trace_def none MAX_TRACE_def not_less)
  qed
  show ?thesis
    unfolding quote_None[OF assms] quote_resolve_def Let_def
    by (cases "qr_shape req"; cases "qr_from_reservation req"; cases "qr_trace req"; cases "qr_model req")
      (auto simp: tr validate_model_def Suc_le_eq split: option.split)
qed

section \<open>Examples\<close>

definition demo_demand_sizes :: quote_demand where
  "demo_demand_sizes = \<lparr>qd_requests_per_minute = 0, qd_avg_input_tokens = 0, qd_avg_output_tokens = 0, qd_wu_per_request = 1,
     qd_sustained = 1600, qd_peak = 4500\<rparr>"

theorem sizing_covers_demand_witness:
  "fst (quote_size demo_demand_sizes 1000) = 2 \<and> fst (snd (quote_size demo_demand_sizes 1000)) = 5
   \<and> qd_sustained demo_demand_sizes \<le> 4/5 * (2 * 1000) \<and> qd_peak demo_demand_sizes \<le> 5 * 1000"
proof -
  have s: "quote_size demo_demand_sizes 1000 = (2, 5,
      Some (boundary_policy_default\<lparr>bp_burst := Some (burst_policy_default\<lparr>max_rate_multiple := 23/10\<rparr>)\<rparr>), [BurstCovers (9/4) 5])"
    by (simp add: quote_size_def demo_demand_sizes_def TARGET_UTILISATION_def f64_as_u32_def)
  show ?thesis
    using sizing_covers_demand[OF _ _ _ _ _ s] by (simp add: s) (simp add: demo_demand_sizes_def TARGET_UTILISATION_def)
qed

definition demo_entry_of :: "nat \<Rightarrow> nat \<Rightarrow> nat \<Rightarrow> trace_entry" where
  "demo_entry_of input cached output = \<lparr>te_offset_ms = 0, te_input_tokens = input, te_cached_tokens = cached, te_output_tokens = output, te_wu = None\<rparr>"

theorem observed_shape_usable_witness:
  "case observed_shape 8192 (Trace [demo_entry_of 2000 500 100, demo_entry_of 0 0 5]) of
     None \<Rightarrow> False
   | Some sh \<Rightarrow> context_ceiling sh = 4096 \<and> validate_shape \<lparr>mc_id = ''m'', mc_max_context = 8192, mc_tiers = [Standard]\<rparr> (fill_burst [] sh) = Inr ()
       \<and> is_in_shape (fill_burst [] sh) 2000 100"
proof -
  let ?es = "[demo_entry_of 2000 500 100, demo_entry_of 0 0 5]" and ?m = "\<lparr>mc_id = ''m'', mc_max_context = 8192, mc_tiers = [Standard]\<rparr>"
  obtain sh where sh: "observed_shape 8192 (Trace ?es) = Some sh" "context_ceiling sh = 4096"
    by (simp add: observed_shape_def demo_entry_of_def iter_max_def max_by_key_def u64_add_def next_power_of_two_def Let_def) (simp add: compute_floorlog)
  show ?thesis
    using observed_shape_usable[of ?es ?m sh "[]"] sh by (simp add: demo_entry_of_def MAX_TRACE_def)
qed

definition demo_quote :: quote_request where
  "demo_quote = \<lparr>qr_model = Some ''m'', qr_tier = None, qr_isolation = None, qr_sku = None, qr_regions = Some [''eu''], qr_shape = Some demo_shape,
     qr_requests_per_minute = Some 60, qr_avg_input_tokens = Some 1000, qr_avg_output_tokens = Some 0, qr_trace = None,
     qr_from_reservation = None, qr_lookback_days = None\<rparr>"

lemma demo_quote_source:
  "quote_resolve demo_ctx usage sv now ''acme'' demo_quote
     = Some (Inr (source_of_workload demo_ctx ''m'' (Analytic 60 1000 0 0 1) SourceShape demo_shape))"
  using demo_validate(2) demo_shapes(1)
  by (simp add: quote_resolve_def demo_quote_def source_from_shape_def) (simp add: demo_shape_def f64_round_def f64_as_u64_def)

lemma demo_quote_size:
  "quote_size (workload_demand example_profile t (Analytic 60 1000 0 0 1)) 1000 = (2, 1, None, [])"
  by (simp add: quote_size_def request_wu_def work_units_def work_breakdown_new_def estimate_kv_token_seconds_def example_profile_def
      TARGET_UTILISATION_def f64_as_u32_def Let_def)

definition demo_quote_service :: service where
  "demo_quote_service = \<lparr>sv_store = store_starting_at 0, sv_planner = demo_pools 0 0, sv_changes = 0\<rparr>"

lemma demo_quote_region:
  "\<exists>q. region_quotes demo_ctx (demo_pools 0 0) 0 (source_of_workload demo_ctx ''m'' (Analytic 60 1000 0 0 1) SourceShape demo_shape)
     Shared Regional [Standard] ''eu'' = Some [q] \<and> rq_feasible q \<and> rq_recommended_cus q = 2 \<and> rq_region q = ''eu'' \<and> rq_tier q = Standard"
proof -
  have cfg: "sc_plan (cx_config demo_ctx) = two_pools" by (simp add: demo_ctx_def demo_service_config_def)
  have cap: "capacity_for two_pools ''eu'' ''m'' = Some \<lparr>cc_region = ''eu'', cc_model = ''m'', cc_pool = None, cc_replicas = 1, cc_max_context = 8192, cc_profile = ''test''\<rparr>"
    by (simp add: capacity_for_def pools_for_def two_pools_def pool_id_def)
  have prof: "config_profile two_pools ''test'' = Some example_profile" by (simp add: config_profile_def two_pools_def example_profile_def)
  have wu: "cp_wu_per_cu two_pools = 1000" by (simp add: two_pools_def)
  have av: "available_cus (demo_pools 0 0) ''eu'' ''m'' Standard 0 = Some 46"
    by (simp add: available_cus_def planner_available_at_def largest_free_cus_def demo_pools_def iter_max_def max_by_key_def cus_in_def
        two_pools_costs per_cu_def free_at_def added_by_def arrivals_def List.map_filter_simps u32_max_def)
  have shp: "check_shape (demo_pools 0 0) ''m'' [\<lparr>cl_region = ''eu'', cl_pool = None, cl_cus = 1\<rparr>] demo_shape = Inr ()"
    by (simp add: demo_pools_def place_def place_candidates_def demo_shape_def)
  show ?thesis
    unfolding region_quotes_def Let_def cfg
    by (simp add: workload_for_def source_of_workload_def cap prof shp[simplified] tier_quote_def cfg wu demo_quote_size av
        current_micro_def cus_in_def u32_add_def Let_def split: option.split del: workload_demand.simps)
qed

theorem feasible_quote_can_be_reserved_witness:
  "case quote demo_ctx (\<lambda>_. None) usage_empty demo_quote_service 0 ''acme'' demo_quote of
     Some (Inr resp) \<Rightarrow>
       (case qp_quotes resp of
          [q] \<Rightarrow> rq_feasible q \<and> (\<exists>shs mp'. planner_reserve (demo_pools 0 0) ''m'' Standard
             [\<lparr>cl_region = ''eu'', cl_pool = None, cl_cus = 2\<rparr>] demo_shape 0 = Some (Inr shs, mp'))
        | _ \<Rightarrow> False)
   | _ \<Rightarrow> False"
proof -
  let ?src = "source_of_workload demo_ctx ''m'' (Analytic 60 1000 0 0 1) SourceShape demo_shape"
  obtain q where q: "region_quotes demo_ctx (demo_pools 0 0) 0 ?src Shared Regional [Standard] ''eu'' = Some [q]"
    "rq_feasible q" "rq_recommended_cus q = 2" "rq_region q = ''eu''" "rq_tier q = Standard"
    using demo_quote_region by blast
  have m: "qs_model ?src = ''m''" "qs_tier ?src = None" "qs_sku ?src = None" "qs_shape ?src = demo_shape" by (simp_all add: source_of_workload_def)
  have req: "qr_tier demo_quote = None" "qr_regions demo_quote = Some [''eu'']" "qr_isolation demo_quote = None" "qr_sku demo_quote = None"
    "qr_from_reservation demo_quote = None"
    by (simp_all add: demo_quote_def)
  have cap: "capacity_for (sc_plan (cx_config demo_ctx)) ''eu'' ''m'' \<noteq> None"
    by (simp add: demo_ctx_def demo_service_config_def capacity_for_def pools_for_def two_pools_def pool_id_def)
  have sv: "sv_planner demo_quote_service = demo_pools 0 0" by (simp add: demo_quote_service_def)
  obtain resp where resp: "quote demo_ctx (\<lambda>_. None) usage_empty demo_quote_service 0 ''acme'' demo_quote = Some (Inr resp)" "qp_quotes resp = [q]"
    using q(1) cap unfolding quote_def demo_quote_source by (simp add: m demo_validate(2) req Let_def sv)
  have "q \<in> set (qp_quotes resp)" by (simp add: resp(2))
  from feasible_quote_can_be_reserved[OF resp(1) req(5) demo_quote_source this q(2)]
  have "\<exists>shs mp'. planner_reserve (demo_pools 0 0) ''m'' Standard [\<lparr>cl_region = ''eu'', cl_pool = None, cl_cus = 2\<rparr>] demo_shape 0 = Some (Inr shs, mp')"
    unfolding sv m q(3-5) by (simp add: demo_pools_def demo_shape_def)
  then show ?thesis using resp q(2) by simp
qed

theorem quote_panics_exactly_witness:
  "quote demo_ctx (\<lambda>_. None) usage_empty demo_quote_service 0 ''acme''
     (demo_quote\<lparr>qr_shape := None, qr_trace := Some [demo_entry_of 0 0 100]\<rparr>) = None
   \<and> quote demo_ctx (\<lambda>_. None) usage_empty demo_quote_service 0 ''acme'' demo_quote \<noteq> None"
proof -
  have ok: "\<forall>c\<in>set (cp_capacity (sc_plan (cx_config demo_ctx))). config_profile (sc_plan (cx_config demo_ctx)) (cc_profile c) \<noteq> None"
    by (simp add: demo_ctx_def demo_service_config_def two_pools_def config_profile_def example_profile_def)
  have m: "config_model (cx_config demo_ctx) ''m'' \<noteq> None" by (simp add: config_model_def demo_ctx_def demo_service_config_def)
  show ?thesis unfolding quote_panics_exactly[OF ok] using m by (simp add: demo_quote_def demo_entry_of_def)
qed

section \<open>A feasible quote that is refused\<close>

text \<open>Two pools of the model in one region: short contexts with room, long contexts without.\<close>

definition split_pools :: control_plane_config where
  "split_pools = \<lparr>cp_capacity =
       [\<lparr>cc_region = ''eu'', cc_model = ''m'', cc_pool = None, cc_replicas = 1, cc_max_context = 2048, cc_profile = ''test''\<rparr>,
        \<lparr>cc_region = ''eu'', cc_model = ''m'', cc_pool = Some ''long'', cc_replicas = 1, cc_max_context = 8192, cc_profile = ''test''\<rparr>],
     cp_capacity_changes = [], cp_profiles = [example_profile], cp_wu_per_cu = 1000\<rparr>"

definition split_ctx :: service_ctx where
  "split_ctx = demo_ctx\<lparr>cx_config := demo_service_config\<lparr>sc_plan := split_pools\<rparr>\<rparr>"

definition split_planner :: memory_planner where
  "split_planner = \<lparr>mp_pools =
       [\<lparr>pv_region = ''eu'', pv_pool = ''m'', pv_model = ''m'', pv_capacity = 1000000, pv_reserved = 0, pv_max_context = 2048\<rparr>,
        \<lparr>pv_region = ''eu'', pv_pool = ''long'', pv_model = ''m'', pv_capacity = 1000000, pv_reserved = 1000000, pv_max_context = 8192\<rparr>],
     mp_costs = costs_from_config split_pools, mp_schedule = Map.empty, mp_pending = Map.empty\<rparr>"

lemma split_costs: "costs_from_config split_pools (''eu'', ''m'', Standard) = Some 21552" "costs_from_config split_pools (''eu'', ''long'', Standard) = Some 21552"
  by (simp_all add: costs_from_config_def split_pools_def config_profile_def example_profile_def
      TIERS_def costs_of_tier_def costs_insert_def for_tier_def pool_id_def micro_per_cu_demo)

lemma split_region:
  "\<exists>q. region_quotes split_ctx split_planner 0 (source_of_workload split_ctx ''m'' (Analytic 60 1000 0 0 1) SourceShape demo_shape)
     Shared Regional [Standard] ''eu'' = Some [q] \<and> rq_feasible q \<and> rq_recommended_cus q = 2"
proof -
  have cfg: "sc_plan (cx_config split_ctx) = split_pools" by (simp add: split_ctx_def)
  have cap: "capacity_for split_pools ''eu'' ''m'' = Some \<lparr>cc_region = ''eu'', cc_model = ''m'', cc_pool = None, cc_replicas = 1, cc_max_context = 2048, cc_profile = ''test''\<rparr>"
    by (simp add: capacity_for_def pools_for_def split_pools_def pool_id_def)
  have prof: "config_profile split_pools ''test'' = Some example_profile" by (simp add: config_profile_def split_pools_def example_profile_def)
  have wu: "cp_wu_per_cu split_pools = 1000" by (simp add: split_pools_def)
  have av: "available_cus split_planner ''eu'' ''m'' Standard 0 = Some 46"
    by (simp add: available_cus_def planner_available_at_def largest_free_cus_def split_planner_def iter_max_def max_by_key_def cus_in_def
        split_costs per_cu_def free_at_def added_by_def arrivals_def List.map_filter_simps u32_max_def)
  have shp: "check_shape split_planner ''m'' [\<lparr>cl_region = ''eu'', cl_pool = None, cl_cus = 1\<rparr>] demo_shape = Inr ()"
    by (simp add: split_planner_def place_def place_candidates_def demo_shape_def)
  show ?thesis
    unfolding region_quotes_def Let_def cfg
    by (simp add: workload_for_def source_of_workload_def cap prof shp[simplified] tier_quote_def cfg wu demo_quote_size av
        current_micro_def cus_in_def u32_add_def Let_def split: option.split del: workload_demand.simps)
qed

text \<open>
  A feasible quote can be refused. Where a region has two pools of a model, the free CUs are
  looked up over all pools and the context over any pool: the quote is feasible, yet the pool
  with room does not serve the context, and the planner refuses the CUs of the quote.
\<close>

theorem feasible_quote_refused:
  "(case quote split_ctx (\<lambda>_. None) usage_empty (demo_quote_service\<lparr>sv_planner := split_planner\<rparr>) 0 ''acme'' demo_quote of
     Some (Inr resp) \<Rightarrow> map rq_feasible (qp_quotes resp) = [True] \<and> map rq_recommended_cus (qp_quotes resp) = [2]
   | _ \<Rightarrow> False)
   \<and> fst (plan_reserve split_planner ''m'' Standard [\<lparr>cl_region = ''eu'', cl_pool = None, cl_cus = 2\<rparr>] demo_shape 0)
     = Inl (CapacityUnavailable ''eu'' ''m'' Standard 2 0 None)"
proof (intro conjI)
  let ?src = "source_of_workload split_ctx ''m'' (Analytic 60 1000 0 0 1) SourceShape demo_shape"
  obtain q where q: "region_quotes split_ctx split_planner 0 ?src Shared Regional [Standard] ''eu'' = Some [q]"
    "rq_feasible q" "rq_recommended_cus q = 2" using split_region by blast
  have v: "validate_model (cx_config split_ctx) ''m'' = Inr \<lparr>mc_id = ''m'', mc_max_context = 8192, mc_tiers = [Standard]\<rparr>"
    by (simp add: validate_model_def config_model_def split_ctx_def demo_service_config_def)
  have src: "quote_resolve split_ctx usage sv now ''acme'' demo_quote = Some (Inr ?src)" for usage sv now
    using v demo_shapes(1)
    by (simp add: quote_resolve_def demo_quote_def source_from_shape_def) (simp add: demo_shape_def f64_round_def f64_as_u64_def)
  have m: "qs_model ?src = ''m''" "qs_tier ?src = None" "qs_sku ?src = None" by (simp_all add: source_of_workload_def)
  have req: "qr_tier demo_quote = None" "qr_regions demo_quote = Some [''eu'']" "qr_isolation demo_quote = None" "qr_sku demo_quote = None"
    by (simp_all add: demo_quote_def)
  have cap: "capacity_for (sc_plan (cx_config split_ctx)) ''eu'' ''m'' \<noteq> None"
    by (simp add: split_ctx_def capacity_for_def pools_for_def split_pools_def pool_id_def)
  show "case quote split_ctx (\<lambda>_. None) usage_empty (demo_quote_service\<lparr>sv_planner := split_planner\<rparr>) 0 ''acme'' demo_quote of
     Some (Inr resp) \<Rightarrow> map rq_feasible (qp_quotes resp) = [True] \<and> map rq_recommended_cus (qp_quotes resp) = [2]
   | _ \<Rightarrow> False"
    using q cap unfolding quote_def src by (simp add: m v req Let_def)
  show "fst (plan_reserve split_planner ''m'' Standard [\<lparr>cl_region = ''eu'', cl_pool = None, cl_cus = 2\<rparr>] demo_shape 0)
     = Inl (CapacityUnavailable ''eu'' ''m'' Standard 2 0 None)"
    by (simp add: plan_reserve_def planner_reserve_def place_def place_candidates_def place_costed_def split_planner_def split_costs per_cu_def
        free_at_def added_by_def arrivals_def u64_mul_def demo_shape_def place_unavailable_def iter_max_def max_by_key_def min_by_key_def
        cus_in_def fits_from_def dates_after_def List.map_filter_simps)
qed

end
