(* ===== verification/Gateway.thy ===== *)
theory Gateway
  imports Limiter Output_Estimate Prefix_Cache Quota Incidents
begin

text \<open>
  The gateway's runtime state (\<open>pt-gateway/state.rs\<close>) and the choice of a coordinator
  (\<open>quota.rs\<close>): entitlements built from a snapshot, leases, local rates and demand reports. Limiters and estimators are shared between
  an old view, a new view and the requests in flight, so they live in a store and a view holds
  their addresses. The monotonic clock (\<open>now\<close>) and the wall clock (\<open>now_ms\<close>) are arguments, and so
  is the hash of a key.
\<close>

section \<open>State (state.rs)\<close>

record gw_reservation =
  gr_id :: string
  gr_tenant :: string
  gr_model :: string
  gr_cus :: nat
  gr_wu_per_cu :: real
  gr_failover :: "failover_share list"
  gr_failovers :: "region_failover list"
  gr_tier :: tier
  gr_profile :: performance_profile
  gr_shape :: shape
  gr_limiter :: nat

record gw_deployment =
  gd_id :: string
  gd_reservation :: gw_reservation
  gd_estimator :: nat
  gd_max_share :: "real option"
  gd_cap :: "nat option"

definition gw_failover_cus :: "gw_reservation \<Rightarrow> nat \<Rightarrow> real" where
  "gw_failover_cus r now_ms =
     (if gr_failover r = [] then 0 else failover_cus (gr_failover r) (gr_failovers r) now_ms)"

definition gw_entitlement_wu_s :: "gw_reservation \<Rightarrow> nat \<Rightarrow> real" where
  "gw_entitlement_wu_s r now_ms = (real (gr_cus r) + gw_failover_cus r now_ms) * gr_wu_per_cu r"

datatype entitlement_source = StaticSource | SnapshotSource string | PendingSource string

record entitlements =
  en_version :: nat
  en_source :: entitlement_source
  en_applied_at :: instant
  en_generated_at :: "string option"
  en_key_id :: "string option"
  en_by_key_hash :: "(string \<times> (gw_deployment \<times> nat option)) list"
  en_by_deployment :: "(string \<times> gw_deployment) list"
  en_reservations :: "(string \<times> gw_reservation) list"

definition entitlements_empty :: "entitlement_source \<Rightarrow> instant \<Rightarrow> entitlements" where
  "entitlements_empty source now =
     \<lparr>en_version = 0, en_source = source, en_applied_at = now, en_generated_at = None, en_key_id = None,
      en_by_key_hash = [], en_by_deployment = [], en_reservations = []\<rparr>"

record lease_state =
  lt_rate :: real
  lt_expires_at :: instant
  lt_gateways :: nat

record quota_shares =
  gq_assumed_gateways :: nat
  gq_decay :: duration
  gq_leases :: "(string \<times> lease_state) list"
  gq_demand :: "(string \<times> real) list"

datatype quota_mode = QuotaDisabled | Unleased | Leased | Fallback

fun quota_mode_as_str :: "quota_mode \<Rightarrow> string" where
  "quota_mode_as_str QuotaDisabled = ''disabled''"
| "quota_mode_as_str Unleased = ''unleased''"
| "quota_mode_as_str Leased = ''lease''"
| "quota_mode_as_str Fallback = ''fallback''"

text \<open>The rate from the lease of a reservation; \<open>min\<close> of a quotient by a zero decay is one.\<close>

definition quota_rate :: "quota_shares \<Rightarrow> string \<Rightarrow> real \<Rightarrow> instant \<Rightarrow> real \<times> quota_mode" where
  "quota_rate q rid entitlement now =
     (case map_of (gq_leases q) rid of
        None \<Rightarrow> (entitlement / real (gq_assumed_gateways q), Unleased)
      | Some l \<Rightarrow>
          if now < lt_expires_at l then (min (lt_rate l) entitlement, Leased)
          else
            let target = 1/2 * entitlement / real (max (lt_gateways l) 1);
                t = (if gq_decay q = 0 then 1 else min (as_secs_f64 (now - lt_expires_at l) / as_secs_f64 (gq_decay q)) 1)
            in (clamp 0 entitlement (lt_rate l + (target - lt_rate l) * t), Fallback))"

datatype skip_reason = UnknownProfile string string | NoCus string | NoDeployments string

record apply_report =
  ar_version :: nat
  ar_reservations :: nat
  ar_deployments :: nat
  ar_skipped :: "skip_reason list"

datatype apply_error =
    WrongRegion string string
  | Stale nat nat
  | StaticConfig

record gateway_state =
  gw_current :: entitlements
  gw_quota :: "quota_shares option"
  gw_profiles :: "(string \<times> performance_profile) list"
  gw_wu_per_cu :: real
  gw_limiters :: "limiter_state list"
  gw_estimators :: "output_estimator list"
  gw_prefix_cache :: "prefix_cache option"

definition deployment_for_key :: "gateway_state \<Rightarrow> (string \<Rightarrow> string) \<Rightarrow> nat \<Rightarrow> string \<Rightarrow> gw_deployment option" where
  "deployment_for_key gw sha256 now_ms api_key =
     (case map_of (en_by_key_hash (gw_current gw)) (sha256 api_key) of
        None \<Rightarrow> None
      | Some (dep, expires_at) \<Rightarrow>
          (case expires_at of
             Some e \<Rightarrow> if e \<le> now_ms then None else Some dep
           | None \<Rightarrow> Some dep))"

definition local_rate :: "gateway_state \<Rightarrow> string \<Rightarrow> real \<Rightarrow> instant \<Rightarrow> real \<times> quota_mode" where
  "local_rate gw rid entitlement now =
     (case gw_quota gw of None \<Rightarrow> (entitlement, QuotaDisabled) | Some q \<Rightarrow> quota_rate q rid entitlement now)"

section \<open>Local rates\<close>

definition limiter_at :: "gateway_state \<Rightarrow> nat \<Rightarrow> limiter_state" where
  "limiter_at gw a = gw_limiters gw ! a"

definition put_limiter :: "nat \<Rightarrow> limiter_state \<Rightarrow> gateway_state \<Rightarrow> gateway_state" where
  "put_limiter a st gw = gw\<lparr>gw_limiters := (gw_limiters gw)[a := st]\<rparr>"

text \<open>Changes under one percent are skipped.\<close>

definition worth_resizing :: "real \<Rightarrow> real \<Rightarrow> bool" where
  "worth_resizing target current \<longleftrightarrow>
     1 / 1000000000 < \<bar>target - current\<bar> \<and> 1/100 * max current target \<le> \<bar>target - current\<bar>"

definition limiter_rate :: "gateway_state \<Rightarrow> nat \<Rightarrow> real" where
  "limiter_rate gw a = entitlement_wu_s (lm_config (limiter_at gw a))"

definition refresh_reservation :: "instant \<Rightarrow> nat \<Rightarrow> gateway_state \<Rightarrow> gw_reservation \<Rightarrow> gateway_state" where
  "refresh_reservation now now_ms gw r =
     (let target = fst (local_rate gw (gr_id r) (gw_entitlement_wu_s r now_ms) now)
      in if worth_resizing target (limiter_rate gw (gr_limiter r))
         then put_limiter (gr_limiter r)
                (reconfigure (limiter_at gw (gr_limiter r)) (limiter_config_new target) (lm_policy (limiter_at gw (gr_limiter r))) now) gw
         else gw)"

definition cap_rate :: "gateway_state \<Rightarrow> gw_deployment \<Rightarrow> real option" where
  "cap_rate gw d = map_option (\<lambda>share. share * limiter_rate gw (gr_limiter (gd_reservation d))) (gd_max_share d)"

definition refresh_cap :: "instant \<Rightarrow> gateway_state \<Rightarrow> gw_deployment \<Rightarrow> gateway_state" where
  "refresh_cap now gw d =
     (case (gd_cap d, cap_rate gw d) of
        (Some cap, Some target) \<Rightarrow>
          if worth_resizing target (limiter_rate gw cap)
          then put_limiter cap (reconfigure (limiter_at gw cap) (limiter_config_new target) boundary_policy_default now) gw
          else gw
      | _ \<Rightarrow> gw)"

definition refresh_caps :: "gateway_state \<Rightarrow> instant \<Rightarrow> gateway_state" where
  "refresh_caps gw now = foldl (refresh_cap now) gw (map snd (en_by_deployment (gw_current gw)))"

definition refresh_local_rates :: "gateway_state \<Rightarrow> instant \<Rightarrow> nat \<Rightarrow> gateway_state" where
  "refresh_local_rates gw now now_ms =
     refresh_caps (foldl (refresh_reservation now now_ms) gw (map snd (en_reservations (gw_current gw)))) now"

definition record_lease :: "instant \<Rightarrow> (string \<times> lease_state) list \<Rightarrow> lease \<Rightarrow> (string \<times> lease_state) list" where
  "record_lease expires leases l =
     AList.update (ls_id l) \<lparr>lt_rate = max (ls_rate_wu_s l) 0, lt_expires_at = expires, lt_gateways = ls_active_gateways l\<rparr> leases"

definition apply_leases :: "gateway_state \<Rightarrow> renew_response \<Rightarrow> instant \<Rightarrow> nat \<Rightarrow> gateway_state" where
  "apply_leases gw resp received now_ms =
     (case gw_quota gw of
        None \<Rightarrow> gw
      | Some q \<Rightarrow>
          let leases = foldl (record_lease (received + from_millis (rs_ttl_ms resp))) (gq_leases q) (rs_leases resp)
          in refresh_local_rates (gw\<lparr>gw_quota := Some (q\<lparr>gq_leases := leases\<rparr>)\<rparr>) received now_ms)"

section \<open>Demand\<close>

text \<open>One reservation of the report: its attempted work is taken from the limiter and smoothed.\<close>

definition demand_entry ::
  "quota_shares \<Rightarrow> real \<Rightarrow> instant \<Rightarrow> nat \<Rightarrow> gw_reservation \<Rightarrow> gateway_state \<times> (string \<times> real) list
   \<Rightarrow> reservation_demand \<times> gateway_state \<times> (string \<times> real) list" where
  "demand_entry q secs now now_ms r st =
     (case st of (gw, demand) \<Rightarrow>
        let (attempted, l) = take_attempted_wu (limiter_at gw (gr_limiter r));
            now_rate = attempted / secs;
            before = (case map_of demand (gr_id r) of None \<Rightarrow> now_rate | Some d \<Rightarrow> d);
            d = 1/2 * before + 1/2 * now_rate;
            held = (case map_of (gq_leases q) (gr_id r) of None \<Rightarrow> 0 | Some l \<Rightarrow> if now < lt_expires_at l then lt_rate l else 0)
        in (\<lparr>rd_id = gr_id r, rd_entitlement_wu_s = gw_entitlement_wu_s r now_ms, rd_snapshot_version = en_version (gw_current gw),
             rd_demand_wu_s = Finite d, rd_held_wu_s = Finite held\<rparr>,
            put_limiter (gr_limiter r) l gw, AList.update (gr_id r) d demand))"

fun demand_entries ::
  "quota_shares \<Rightarrow> real \<Rightarrow> instant \<Rightarrow> nat \<Rightarrow> gw_reservation list \<Rightarrow> gateway_state \<times> (string \<times> real) list
   \<Rightarrow> reservation_demand list \<times> gateway_state \<times> (string \<times> real) list" where
  "demand_entries q secs now now_ms [] st = ([], st)"
| "demand_entries q secs now now_ms (r # rs) st =
     (let (e, st) = demand_entry q secs now now_ms r st; (es, st) = demand_entries q secs now now_ms rs st in (e # es, st))"

definition demand_report :: "gateway_state \<Rightarrow> duration \<Rightarrow> instant \<Rightarrow> nat \<Rightarrow> reservation_demand list \<times> gateway_state" where
  "demand_report gw elapsed now now_ms =
     (case gw_quota gw of
        None \<Rightarrow> ([], gw)
      | Some q \<Rightarrow>
          let secs = max (as_secs_f64 elapsed) (1/1000);
              kept = filter (\<lambda>(rid, _). map_of (en_reservations (gw_current gw)) rid \<noteq> None) (gq_demand q);
              (es, gw, demand) = demand_entries q secs now now_ms (map snd (en_reservations (gw_current gw))) (gw, kept)
          in (es, gw\<lparr>gw_quota := Some (q\<lparr>gq_demand := demand\<rparr>)\<rparr>))"

section \<open>Applying a snapshot\<close>

definition new_limiter :: "limiter_config \<Rightarrow> boundary_policy \<Rightarrow> instant \<Rightarrow> gateway_state \<Rightarrow> nat \<times> gateway_state" where
  "new_limiter config policy now gw =
     (length (gw_limiters gw), gw\<lparr>gw_limiters := gw_limiters gw @ [limiter_new config policy now]\<rparr>)"

text \<open>One reservation of the snapshot: skipped, or with the limiter it had, reconfigured, or a new one.\<close>

definition build_reservation ::
  "deployment_entitlement list \<Rightarrow> region_failover list \<Rightarrow> instant \<Rightarrow> nat \<Rightarrow> entitlements
   \<Rightarrow> (string \<times> gw_reservation) list \<times> skip_reason list \<times> gateway_state \<Rightarrow> reservation_entitlement
   \<Rightarrow> (string \<times> gw_reservation) list \<times> skip_reason list \<times> gateway_state" where
  "build_reservation deployments failovers now now_ms prev st r =
     (case st of (vw, skipped, gw) \<Rightarrow>
        case map_of (gw_profiles gw) (re_profile r) of
          None \<Rightarrow> (vw, skipped @ [UnknownProfile (re_id r) (re_profile r)], gw)
        | Some profile \<Rightarrow>
            if re_cus r < 1 then (vw, skipped @ [NoCus (re_id r)], gw)
            else
              (case find (\<lambda>d. de_reservation d = re_id r) deployments of
                 None \<Rightarrow> (vw, skipped @ [NoDeployments (re_id r)], gw)
               | Some first \<Rightarrow>
                   let active = failover_cus (re_failover r) failovers now_ms;
                       entitlement = (real (re_cus r) + active) * gw_wu_per_cu gw;
                       config = limiter_config_new (fst (local_rate gw (re_id r) entitlement now));
                       policy = de_boundary_policy first;
                       (a, gw) = (case map_of (en_reservations prev) (re_id r) of
                          Some p \<Rightarrow> (gr_limiter p, put_limiter (gr_limiter p) (reconfigure (limiter_at gw (gr_limiter p)) config policy now) gw)
                        | None \<Rightarrow> new_limiter config policy now gw)
                   in (AList.update (re_id r)
                         \<lparr>gr_id = re_id r, gr_tenant = re_tenant r, gr_model = re_model r, gr_cus = re_cus r,
                          gr_wu_per_cu = gw_wu_per_cu gw, gr_failover = re_failover r, gr_failovers = failovers,
                          gr_tier = re_tier r, gr_profile = profile, gr_shape = re_shape r, gr_limiter = a\<rparr> vw,
                       skipped, gw)))"

definition build_estimator :: "entitlements \<Rightarrow> deployment_entitlement \<Rightarrow> gw_reservation \<Rightarrow> gateway_state \<Rightarrow> nat \<times> gateway_state" where
  "build_estimator prev d r gw =
     (case map_of (en_by_deployment prev) (de_id d) of
        Some p \<Rightarrow>
          if gr_id (gd_reservation p) = de_reservation d then (gd_estimator p, gw)
          else (length (gw_estimators gw), gw\<lparr>gw_estimators := gw_estimators gw @ [estimator_new (output_p95 (gr_shape r))]\<rparr>)
      | None \<Rightarrow> (length (gw_estimators gw), gw\<lparr>gw_estimators := gw_estimators gw @ [estimator_new (output_p95 (gr_shape r))]\<rparr>))"

definition build_cap :: "entitlements \<Rightarrow> deployment_entitlement \<Rightarrow> gw_reservation \<Rightarrow> real option \<Rightarrow> instant \<Rightarrow> gateway_state \<Rightarrow> nat option \<times> gateway_state" where
  "build_cap prev d r max_share now gw =
     (case max_share of
        None \<Rightarrow> (None, gw)
      | Some share \<Rightarrow>
          let config = limiter_config_new (share * limiter_rate gw (gr_limiter r))
          in case Option.bind (map_of (en_by_deployment prev) (de_id d)) gd_cap of
               Some a \<Rightarrow> (Some a, put_limiter a (reconfigure (limiter_at gw a) config boundary_policy_default now) gw)
             | None \<Rightarrow> (let (a, gw) = new_limiter config boundary_policy_default now gw in (Some a, gw)))"

definition build_deployment ::
  "instant \<Rightarrow> entitlements \<Rightarrow> entitlements \<times> gateway_state \<Rightarrow> deployment_entitlement \<Rightarrow> entitlements \<times> gateway_state" where
  "build_deployment now prev st d =
     (case st of (vw, gw) \<Rightarrow>
        case map_of (en_reservations vw) (de_reservation d) of
          None \<Rightarrow> (vw, gw)
        | Some r \<Rightarrow>
            let (e, gw) = build_estimator prev d r gw;
                max_share = (case de_max_share d of None \<Rightarrow> None | Some s \<Rightarrow> if 0 < s \<and> s \<le> 1 then Some s else None);
                (cap, gw) = build_cap prev d r max_share now gw;
                dep = \<lparr>gd_id = de_id d, gd_reservation = r, gd_estimator = e, gd_max_share = max_share, gd_cap = cap\<rparr>;
                keys = AList.update (de_api_key_sha256 d) (dep, None) (en_by_key_hash vw);
                keys = foldl (\<lambda>keys old. AList.update (pk_api_key_sha256 old) (dep, Some (pk_expires_at_ms old)) keys) keys (de_previous_keys d)
            in (vw\<lparr>en_by_key_hash := keys, en_by_deployment := AList.update (de_id d) dep (en_by_deployment vw)\<rparr>, gw))"

definition gw_build ::
  "gateway_state \<Rightarrow> nat \<Rightarrow> entitlement_source \<Rightarrow> reservation_entitlement list \<Rightarrow> deployment_entitlement list \<Rightarrow> region_failover list
   \<Rightarrow> instant \<Rightarrow> nat \<Rightarrow> entitlements \<times> apply_report \<times> gateway_state" where
  "gw_build gw version source reservations deployments failovers now now_ms =
     (let prev = gw_current gw;
          (rs, skipped, gw) = foldl (build_reservation deployments failovers now now_ms prev) ([], [], gw) reservations;
          vw = (entitlements_empty source now)\<lparr>en_version := version, en_reservations := rs\<rparr>;
          (vw, gw) = foldl (build_deployment now prev) (vw, gw) deployments
      in (vw, \<lparr>ar_version = version, ar_reservations = length rs, ar_deployments = length (en_by_deployment vw), ar_skipped = skipped\<rparr>, gw))"

text \<open>
  \<open>other\<close> is what happens to the state between the build and the write lock on the view, such as
  another apply that wins: the version is compared again under the lock, and a snapshot that is
  no longer newer is dropped although its build has already reconfigured the limiters it shares.
\<close>

definition apply_signed_snapshot ::
  "(gateway_state \<Rightarrow> gateway_state) \<Rightarrow> gateway_state \<Rightarrow> snapshot \<Rightarrow> string option \<Rightarrow> instant \<Rightarrow> nat
   \<Rightarrow> (apply_error + apply_report) \<times> gateway_state" where
  "apply_signed_snapshot other gw sn key_id now now_ms =
     (case (case en_source (gw_current gw) of
              StaticSource \<Rightarrow> None | SnapshotSource region \<Rightarrow> Some region | PendingSource region \<Rightarrow> Some region) of
        None \<Rightarrow> (Inl StaticConfig, gw)
      | Some region \<Rightarrow>
          if sn_region sn \<noteq> region then (Inl (WrongRegion region (sn_region sn)), gw)
          else if sn_version sn \<le> en_version (gw_current gw) then (Inl (Stale (en_version (gw_current gw)) (sn_version sn)), gw)
          else
            let (vw, report, gw) = gw_build gw (sn_version sn) (SnapshotSource region) (sn_reservations sn) (sn_deployments sn) (sn_failovers sn) now now_ms;
                vw = vw\<lparr>en_generated_at := Some (sn_generated_at sn), en_key_id := key_id\<rparr>;
                gw = other gw
            in if sn_version sn \<le> en_version (gw_current gw) then (Inl (Stale (en_version (gw_current gw)) (sn_version sn)), gw)
               else (Inr report, gw\<lparr>gw_current := vw\<rparr>))"

definition apply_snapshot ::
  "(gateway_state \<Rightarrow> gateway_state) \<Rightarrow> gateway_state \<Rightarrow> snapshot \<Rightarrow> instant \<Rightarrow> nat \<Rightarrow> (apply_error + apply_report) \<times> gateway_state" where
  "apply_snapshot other gw sn now now_ms = apply_signed_snapshot other gw sn None now now_ms"

section \<open>The coordinator that answers (quota.rs)\<close>

text \<open>
  The loop of \<open>renew_once\<close> over the coordinator URLs, from the one that answered last; \<open>answer\<close> is
  what a URL returns. None is the panic of a client without a URL.
\<close>

fun renew_try :: "(string \<Rightarrow> 'e + renew_response) \<Rightarrow> string list \<Rightarrow> nat \<Rightarrow> nat list \<Rightarrow> 'e option \<Rightarrow> ('e + nat \<times> renew_response) option" where
  "renew_try answer urls start [] err = map_option Inl err"
| "renew_try answer urls start (i # is) err =
     (let n = (start + i) mod length urls
      in case answer (urls ! n) of
           Inr resp \<Rightarrow> Some (Inr (n, resp))
         | Inl e \<Rightarrow> renew_try answer urls start is (Some e))"

definition renew_once ::
  "(string \<Rightarrow> reservation_demand list \<Rightarrow> 'e + renew_response) \<Rightarrow> string list \<Rightarrow> nat \<Rightarrow> gateway_state \<Rightarrow> duration \<Rightarrow> instant \<Rightarrow> instant \<Rightarrow> nat
   \<Rightarrow> (('e + unit) \<times> nat \<times> gateway_state) option" where
  "renew_once answer urls start gw elapsed asked received now_ms =
     (let (req, gw) = demand_report gw elapsed asked now_ms
      in map_option (\<lambda>r. case r of
             Inl e \<Rightarrow> (Inl e, start, gw)
           | Inr (n, resp) \<Rightarrow> (Inr (), n, apply_leases gw resp received now_ms))
           (renew_try (\<lambda>url. answer url req) urls start [0..<length urls] None))"

text \<open>One round of the renewal task: whatever the answer, the limiters move on.\<close>

definition renew_round ::
  "(string \<Rightarrow> reservation_demand list \<Rightarrow> 'e + renew_response) \<Rightarrow> string list \<Rightarrow> nat \<Rightarrow> gateway_state \<Rightarrow> duration \<Rightarrow> instant \<Rightarrow> instant \<Rightarrow> instant \<Rightarrow> nat
   \<Rightarrow> (nat \<times> gateway_state) option" where
  "renew_round answer urls start gw elapsed asked received now now_ms =
     map_option (\<lambda>(_, n, gw). (n, refresh_local_rates gw now now_ms)) (renew_once answer urls start gw elapsed asked received now_ms)"

end
