(* ===== verification/Sse.thy ===== *)
theory Sse
  imports PT_Prelude "HOL-Library.Sublist"
begin

text \<open>
  The gateway's inspection of streamed completions (\<open>pt-gateway/sse.rs\<close>). A byte is a \<open>char\<close>, a
  stream arrives in chunks, and the inspector splits it into events, forwards them and records
  when content starts and stops and what usage the engine reports. The JSON parser
  (\<open>serde_json::from_str\<close>) is an argument; the values it returns are those of \<open>serde_json::Value\<close>.
\<close>

section \<open>JSON values and text\<close>

datatype json =
    JNull
  | JBool bool
  | JPosInt nat
  | JNegInt int
  | JFloat real
  | JString string
  | JArray "json list"
  | JObject "(string \<times> json) list"

fun json_get :: "string \<Rightarrow> json \<Rightarrow> json option" where
  "json_get k (JObject kvs) = map_of kvs k"
| "json_get k _ = None"

fun as_u64 :: "json \<Rightarrow> nat option" where
  "as_u64 (JPosInt n) = Some n"
| "as_u64 _ = None"

fun as_str :: "json \<Rightarrow> string option" where
  "as_str (JString s) = Some s"
| "as_str _ = None"

fun as_array :: "json \<Rightarrow> json list option" where
  "as_array (JArray vs) = Some vs"
| "as_array _ = None"

fun as_bool :: "json \<Rightarrow> bool option" where
  "as_bool (JBool b) = Some b"
| "as_bool _ = None"

text \<open>\<open>Value::pointer\<close> with object keys only.\<close>

fun json_pointer :: "string list \<Rightarrow> json \<Rightarrow> json option" where
  "json_pointer [] v = Some v"
| "json_pointer (k # ks) v = Option.bind (json_get k v) (json_pointer ks)"

text \<open>
  \<open>str::from_utf8\<close>: the well-formed sequences of one to four bytes, without overlong forms,
  surrogates and code points above 10FFFF.
\<close>

definition cont_byte :: "nat \<Rightarrow> bool" where
  "cont_byte b \<longleftrightarrow> 128 \<le> b \<and> b \<le> 191"

fun utf8_ok :: "nat list \<Rightarrow> bool" where
  "utf8_ok [] = True"
| "utf8_ok (a # bs) =
     (if a < 128 then utf8_ok bs
      else case bs of
        [] \<Rightarrow> False
      | b # cs \<Rightarrow>
          if 194 \<le> a \<and> a \<le> 223 then cont_byte b \<and> utf8_ok cs
          else case cs of
            [] \<Rightarrow> False
          | c # ds \<Rightarrow>
              if 224 \<le> a \<and> a \<le> 239
              then (if a = 224 then 160 \<le> b \<and> b \<le> 191 else if a = 237 then 128 \<le> b \<and> b \<le> 159 else cont_byte b)
                   \<and> cont_byte c \<and> utf8_ok ds
              else case ds of
                [] \<Rightarrow> False
              | d # es \<Rightarrow>
                  240 \<le> a \<and> a \<le> 244
                  \<and> (if a = 240 then 144 \<le> b \<and> b \<le> 191 else if a = 244 then 128 \<le> b \<and> b \<le> 143 else cont_byte b)
                  \<and> cont_byte c \<and> cont_byte d \<and> utf8_ok es)"

definition valid_utf8 :: "string \<Rightarrow> bool" where
  "valid_utf8 s = utf8_ok (map of_char s)"

text \<open>\<open>str::lines\<close>: a line ends at a line feed, and a carriage return before it is dropped.\<close>

definition LF :: char where "LF = CHR 0x0A"
definition CR :: char where "CR = CHR 0x0D"

fun strip_cr :: "string \<Rightarrow> string" where
  "strip_cr [] = []"
| "strip_cr [c] = (if c = CR then [] else [c])"
| "strip_cr (c # d # cs) = c # strip_cr (d # cs)"

fun lines_from :: "string \<Rightarrow> string \<Rightarrow> string list" where
  "lines_from line [] = (if line = [] then [] else [line])"
| "lines_from line (c # cs) = (if c = LF then strip_cr line # lines_from [] cs else lines_from (line @ [c]) cs)"

definition str_lines :: "string \<Rightarrow> string list" where
  "str_lines s = lines_from [] s"

text \<open>\<open>str::trim_start\<close>: the white space of Unicode, as UTF-8.\<close>

definition wide_spaces :: "nat list list" where
  "wide_spaces =
     [[194, 133], [194, 160], [225, 154, 128]] @ map (\<lambda>b. [226, 128, b]) ([128..<139] @ [168, 169, 175]) @ [[226, 129, 159], [227, 128, 128]]"

fun trim_start :: "string \<Rightarrow> string" where
  "trim_start [] = []"
| "trim_start (c # cs) =
     (if is_space c then trim_start cs
      else case find (\<lambda>w. map of_char (take (length w) (c # cs)) = w) wide_spaces of
             Some w \<Rightarrow> trim_start (drop (length w - 1) cs)
           | None \<Rightarrow> c # cs)"

fun join_lines :: "string list \<Rightarrow> string" where
  "join_lines [] = []"
| "join_lines [l] = l"
| "join_lines (l # ls) = l @ [LF] @ join_lines ls"

section \<open>Observations (sse.rs)\<close>

record engine_usage =
  eu_prompt_tokens :: nat
  eu_cached_tokens :: nat
  eu_completion_tokens :: nat

definition engine_usage_from_json :: "json \<Rightarrow> engine_usage option" where
  "engine_usage_from_json v =
     (case json_get ''usage'' v of
        None \<Rightarrow> None
      | Some u \<Rightarrow>
          if u = JNull then None
          else case Option.bind (json_get ''prompt_tokens'' u) as_u64 of
            None \<Rightarrow> None
          | Some p \<Rightarrow>
              let c = (case Option.bind (json_pointer [''prompt_tokens_details'', ''cached_tokens''] u) as_u64 of None \<Rightarrow> 0 | Some n \<Rightarrow> n)
              in case Option.bind (json_get ''completion_tokens'' u) as_u64 of
                   None \<Rightarrow> None
                 | Some n \<Rightarrow> Some \<lparr>eu_prompt_tokens = p, eu_cached_tokens = c, eu_completion_tokens = n\<rparr>)"

record observations =
  ob_usage :: "engine_usage option"
  ob_first_content_at :: "instant option"
  ob_last_content_at :: "instant option"
  ob_content_chunks :: nat

definition observations_default :: observations where
  "observations_default = \<lparr>ob_usage = None, ob_first_content_at = None, ob_last_content_at = None, ob_content_chunks = 0\<rparr>"

record sse_inspector =
  si_buf :: string
  si_strip_usage_chunk :: bool

definition sse_new :: "bool \<Rightarrow> sse_inspector" where
  "sse_new strip = \<lparr>si_buf = [], si_strip_usage_chunk = strip\<rparr>"

section \<open>Events\<close>

text \<open>\<open>slice::windows\<close>.\<close>

definition windows :: "nat \<Rightarrow> 'a list \<Rightarrow> 'a list list" where
  "windows n xs = map (\<lambda>i. take n (drop i xs)) [0..<Suc (length xs) - n]"

definition find_event_end :: "string \<Rightarrow> nat option" where
  "find_event_end buf =
     (let lf = map_option (\<lambda>i. i + 2) (position (\<lambda>w. w = [LF, LF]) (windows 2 buf));
          crlf = map_option (\<lambda>i. i + 4) (position (\<lambda>w. w = [CR, LF, CR, LF]) (windows 4 buf))
      in case (lf, crlf) of
           (Some a, Some b) \<Rightarrow> Some (min a b)
         | (Some a, None) \<Rightarrow> Some a
         | (None, b) \<Rightarrow> b)"

definition event_data :: "string \<Rightarrow> string" where
  "event_data event = join_lines (map trim_start (List.map_filter (strip_prefix ''data:'') (str_lines event)))"

definition has_content :: "json \<Rightarrow> bool" where
  "has_content v =
     (case Option.bind (json_get ''choices'' v) as_array of
        None \<Rightarrow> False
      | Some cs \<Rightarrow> list_ex (\<lambda>c. case Option.bind (json_pointer [''delta'', ''content''] c) as_str of None \<Rightarrow> False | Some s \<Rightarrow> s \<noteq> []) cs)"

definition usage_only :: "json \<Rightarrow> bool" where
  "usage_only v = (case Option.bind (json_get ''choices'' v) as_array of None \<Rightarrow> True | Some cs \<Rightarrow> cs = [])"

definition sse_inspect :: "(string \<Rightarrow> json option) \<Rightarrow> bool \<Rightarrow> string \<Rightarrow> observations \<Rightarrow> instant \<Rightarrow> bool \<times> observations" where
  "sse_inspect parse strip event obs now =
     (if \<not> valid_utf8 event then (True, obs)
      else let data = event_data event
      in if data = [] \<or> data = ''[DONE]'' then (True, obs)
         else case parse data of
           None \<Rightarrow> (True, obs)
         | Some v \<Rightarrow>
             let obs = (if has_content v
                        then obs\<lparr>ob_content_chunks := ob_content_chunks obs + 1,
                                 ob_first_content_at := (case ob_first_content_at obs of None \<Rightarrow> Some now | Some t \<Rightarrow> Some t),
                                 ob_last_content_at := Some now\<rparr>
                        else obs)
             in case engine_usage_from_json v of
                  None \<Rightarrow> (True, obs)
                | Some u \<Rightarrow> (\<not> (usage_only v \<and> strip), obs\<lparr>ob_usage := Some u\<rparr>))"

text \<open>The loop of \<open>push\<close>: it ends because an event is never empty.\<close>

lemma find_event_end_bounds: "find_event_end buf = Some e \<Longrightarrow> 2 \<le> e"
  unfolding find_event_end_def by (auto simp: Let_def split: option.splits)

function push_loop ::
  "(string \<Rightarrow> json option) \<Rightarrow> bool \<Rightarrow> instant \<Rightarrow> string \<Rightarrow> observations \<Rightarrow> string \<Rightarrow> string \<times> string \<times> observations" where
  "push_loop parse strip now buf obs out =
     (case find_event_end buf of
        None \<Rightarrow> (buf, out, obs)
      | Some e \<Rightarrow>
          let event = take e buf; (forward, obs) = sse_inspect parse strip event obs now
          in push_loop parse strip now (drop e buf) obs (if forward then out @ event else out))"
  by pat_completeness auto
termination
proof (relation "measure (\<lambda>(_, _, _, buf, _, _). length buf)")
  fix parse strip now buf obs out e event p forward obs'
  assume "find_event_end buf = Some e"
  then have "2 \<le> e" "buf \<noteq> []" using find_event_end_bounds by (auto simp: find_event_end_def windows_def)
  then show "((parse, strip, now, drop e buf, obs', if forward then out @ event else out), parse, strip, now, buf, obs, out)
      \<in> measure (\<lambda>(_, _, _, buf, _, _). length buf)" by simp
qed simp

definition sse_push :: "(string \<Rightarrow> json option) \<Rightarrow> sse_inspector \<Rightarrow> string \<Rightarrow> observations \<Rightarrow> instant \<Rightarrow> string \<times> sse_inspector \<times> observations" where
  "sse_push parse si chunk obs now =
     (let (buf, out, obs) = push_loop parse (si_strip_usage_chunk si) now (si_buf si @ chunk) obs []
      in (out, si\<lparr>si_buf := buf\<rparr>, obs))"

definition sse_finish :: "sse_inspector \<Rightarrow> string \<times> sse_inspector" where
  "sse_finish si = (si_buf si, si\<lparr>si_buf := []\<rparr>)"

section \<open>Where events end\<close>

text \<open>Where an event ends: a blank line, in either form, is complete there.\<close>

definition ends_at :: "string \<Rightarrow> nat \<Rightarrow> bool" where
  "ends_at buf e \<longleftrightarrow> e \<le> length buf \<and> (suffix [LF, LF] (take e buf) \<or> suffix [CR, LF, CR, LF] (take e buf))"

lemma suffix_take_iff:
  assumes "e \<le> length buf"
  shows "suffix pat (take e buf) \<longleftrightarrow> length pat \<le> e \<and> take (length pat) (drop (e - length pat) buf) = pat"
proof
  assume "suffix pat (take e buf)"
  then obtain us where us: "take e buf = us @ pat" by (auto simp: suffix_def)
  then have l: "e = length us + length pat" using assms by (metis length_append length_take min.absorb2)
  have "drop (length us) (take e buf) = pat" using us by simp
  then show "length pat \<le> e \<and> take (length pat) (drop (e - length pat) buf) = pat" using l by (simp add: drop_take)
next
  assume a: "length pat \<le> e \<and> take (length pat) (drop (e - length pat) buf) = pat"
  then have "drop (e - length pat) (take e buf) = pat" by (simp add: drop_take)
  then show "suffix pat (take e buf)" by (metis suffix_drop)
qed

lemma position_Some: "position p xs = Some i \<longleftrightarrow> i < length xs \<and> p (xs ! i) \<and> (\<forall>j<i. \<not> p (xs ! j))"
proof (induction xs arbitrary: i)
  case (Cons x xs)
  show ?case by (cases i) (auto simp: Cons.IH less_Suc_eq_0_disj)
qed simp

lemma window_at:
  "i < length (windows n buf) \<longleftrightarrow> i + n \<le> length buf"
  "i < length (windows (length pat) buf) \<Longrightarrow> windows (length pat) buf ! i = pat \<longleftrightarrow> suffix pat (take (i + length pat) buf)"
  by (auto simp: windows_def suffix_take_iff)

lemma first_window:
  "map_option (\<lambda>i. i + length pat) (position (\<lambda>w. w = pat) (windows (length pat) buf)) = Some e
   \<longleftrightarrow> e \<le> length buf \<and> suffix pat (take e buf) \<and> (\<forall>e'<e. \<not> suffix pat (take e' buf))" (is "?l \<longleftrightarrow> ?r")
proof
  assume ?l
  then obtain i where i: "position (\<lambda>w. w = pat) (windows (length pat) buf) = Some i" "e = i + length pat" by auto
  have a: "i < length (windows (length pat) buf)" "windows (length pat) buf ! i = pat" "\<And>j. j < i \<Longrightarrow> windows (length pat) buf ! j \<noteq> pat"
    using i(1) unfolding position_Some by auto
  have "\<not> suffix pat (take e' buf)" if "e' < e" for e'
  proof
    assume s: "suffix pat (take e' buf)"
    have "e' \<le> length buf" using that a(1) i(2) by (simp add: window_at)
    then have "length pat \<le> e'" using s by (simp add: suffix_take_iff)
    then have j: "e' - length pat < i" using that i(2) by simp
    then show False
      using a(1) a(3)[OF j] s \<open>length pat \<le> e'\<close> window_at(2)[of "e' - length pat" pat buf] by simp
  qed
  then show ?r using a window_at(2)[OF a(1)] i(2) by (simp add: window_at(1))
next
  assume r: ?r
  then have n: "length pat \<le> e" using suffix_take_iff[of e buf pat] by blast
  have "position (\<lambda>w. w = pat) (windows (length pat) buf) = Some (e - length pat)"
    unfolding position_Some using r n window_at(2)[of _ pat buf] by (auto simp: window_at(1))
  then show ?l using n by simp
qed

lemma no_window:
  "position (\<lambda>w. w = pat) (windows (length pat) buf) = None \<longleftrightarrow> (\<forall>e\<le>length buf. \<not> suffix pat (take e buf))" (is "?l \<longleftrightarrow> ?r")
proof
  assume l: ?l
  show ?r
  proof (intro allI impI notI)
    fix e assume e: "e \<le> length buf" "suffix pat (take e buf)"
    then have n: "length pat \<le> e" by (simp add: suffix_take_iff)
    then have "e - length pat < length (windows (length pat) buf)" using e(1) by (simp add: window_at(1))
    with window_at(2)[OF this] n e(2) l show False by (auto simp: position_None_iff dest: nth_mem)
  qed
next
  assume r: ?r
  then show ?l unfolding position_None_iff using window_at by (metis in_set_conv_nth)
qed

lemma find_event_end_Some: "find_event_end buf = Some e \<longleftrightarrow> ends_at buf e \<and> (\<forall>e'<e. \<not> ends_at buf e')"
  and find_event_end_None: "find_event_end buf = None \<longleftrightarrow> (\<forall>e. \<not> ends_at buf e)"
proof -
  let ?a = "map_option (\<lambda>i. i + 2) (position (\<lambda>w. w = [LF, LF]) (windows 2 buf))"
  let ?b = "map_option (\<lambda>i. i + 4) (position (\<lambda>w. w = [CR, LF, CR, LF]) (windows 4 buf))"
  have a: "?a = Some x \<longleftrightarrow> x \<le> length buf \<and> suffix [LF, LF] (take x buf) \<and> (\<forall>y<x. \<not> suffix [LF, LF] (take y buf))" for x
    using first_window[of "[LF, LF]" buf x] by (simp add: numeral_2_eq_2)
  have b: "?b = Some x \<longleftrightarrow> x \<le> length buf \<and> suffix [CR, LF, CR, LF] (take x buf) \<and> (\<forall>y<x. \<not> suffix [CR, LF, CR, LF] (take y buf))" for x
    using first_window[of "[CR, LF, CR, LF]" buf x] by (simp add: eval_nat_numeral)
  have a0: "?a = None \<longleftrightarrow> (\<forall>x\<le>length buf. \<not> suffix [LF, LF] (take x buf))"
    using no_window[of "[LF, LF]" buf] by (simp add: numeral_2_eq_2)
  have b0: "?b = None \<longleftrightarrow> (\<forall>x\<le>length buf. \<not> suffix [CR, LF, CR, LF] (take x buf))"
    using no_window[of "[CR, LF, CR, LF]" buf] by (simp add: eval_nat_numeral)
  have f: "find_event_end buf = (case (?a, ?b) of (Some a, Some b) \<Rightarrow> Some (min a b) | (Some a, None) \<Rightarrow> Some a | (None, b) \<Rightarrow> b)"
    by (simp add: find_event_end_def Let_def)
  show none: "find_event_end buf = None \<longleftrightarrow> (\<forall>e. \<not> ends_at buf e)"
    unfolding f ends_at_def using a0 b0 by (cases ?a; cases ?b) auto
  have some: "ends_at buf e \<and> (\<forall>e'<e. \<not> ends_at buf e')" if "find_event_end buf = Some e" for e
  proof (cases ?a)
    case None
    then have "?b = Some e" using that unfolding f by simp
    then show ?thesis using None a0 b[of e] unfolding ends_at_def by auto
  next
    case (Some x)
    note x = Some[unfolded a]
    show ?thesis
    proof (cases ?b)
      case None
      then have "e = x" using that Some unfolding f by auto
      then show ?thesis using None b0 x unfolding ends_at_def by auto
    next
      case (Some y)
      note y = Some[unfolded b]
      have "e = min x y" using that \<open>?a = Some x\<close> Some unfolding f by auto
      then show ?thesis using x y unfolding ends_at_def by (auto simp: min_def)
    qed
  qed
  show "find_event_end buf = Some e \<longleftrightarrow> ends_at buf e \<and> (\<forall>e'<e. \<not> ends_at buf e')"
  proof
    assume e: "ends_at buf e \<and> (\<forall>e'<e. \<not> ends_at buf e')"
    then obtain x where "find_event_end buf = Some x" using none by fastforce
    with some[OF this] e show "find_event_end buf = Some e" by (metis linorder_neqE_nat)
  qed (rule some)
qed

lemma ends_at_append: "e \<le> length buf \<Longrightarrow> ends_at (buf @ c) e = ends_at buf e"
  by (simp add: ends_at_def)

lemma find_event_end_append: "find_event_end buf = Some e \<Longrightarrow> find_event_end (buf @ c) = Some e"
  unfolding find_event_end_Some using ends_at_append by (metis ends_at_def less_imp_le_nat order.trans)

section \<open>Splitting a stream\<close>

text \<open>The reference: the complete events of a byte string, and what is left.\<close>

function split_events :: "string \<Rightarrow> string list \<times> string" where
  "split_events buf =
     (case find_event_end buf of
        None \<Rightarrow> ([], buf)
      | Some e \<Rightarrow> let (es, rest) = split_events (drop e buf) in (take e buf # es, rest))"
  by pat_completeness auto
termination
proof (relation "measure length")
  fix buf e assume "find_event_end buf = Some e"
  then have "2 \<le> e" "ends_at buf e" using find_event_end_bounds find_event_end_Some by auto
  then have "0 < length buf" unfolding ends_at_def by linarith
  then show "(drop e buf, buf) \<in> measure length" using \<open>2 \<le> e\<close> by simp
qed simp

declare split_events.simps [simp del] push_loop.simps [simp del]

lemma split_events_concat: "concat (fst (split_events buf)) @ snd (split_events buf) = buf"
proof (induction buf rule: split_events.induct)
  case (1 buf)
  show ?case
  proof (cases "find_event_end buf")
    case (Some e)
    then show ?thesis using "1.IH"[OF Some] by (simp add: split_events.simps[of buf] case_prod_unfold Let_def)
  qed (simp add: split_events.simps[of buf])
qed

lemma split_rest: "find_event_end (snd (split_events buf)) = None"
proof (induction buf rule: split_events.induct)
  case (1 buf)
  show ?case
  proof (cases "find_event_end buf")
    case (Some e)
    then show ?thesis using "1.IH"[OF Some] by (simp add: split_events.simps[of buf] case_prod_unfold Let_def)
  qed (simp add: split_events.simps[of buf])
qed

lemma split_events_append:
  "split_events (buf @ c) =
   (fst (split_events buf) @ fst (split_events (snd (split_events buf) @ c)), snd (split_events (snd (split_events buf) @ c)))"
proof (induction buf rule: split_events.induct)
  case (1 buf)
  show ?case
  proof (cases "find_event_end buf")
    case (Some e)
    then have "e \<le> length buf" by (simp add: find_event_end_Some ends_at_def)
    then show ?thesis using "1.IH"[OF Some] Some find_event_end_append[OF Some, of c]
      by (simp add: split_events.simps[of buf] split_events.simps[of "buf @ c"] case_prod_unfold Let_def)
  qed (simp add: split_events.simps[of buf])
qed

text \<open>What inspection does to one event, in order, and which events it forwards.\<close>

fun inspect_all :: "(string \<Rightarrow> json option) \<Rightarrow> bool \<Rightarrow> instant \<Rightarrow> string list \<Rightarrow> observations \<Rightarrow> observations" where
  "inspect_all parse strip now [] obs = obs"
| "inspect_all parse strip now (e # es) obs = inspect_all parse strip now es (snd (sse_inspect parse strip e obs now))"

definition forwards :: "(string \<Rightarrow> json option) \<Rightarrow> bool \<Rightarrow> string \<Rightarrow> bool" where
  "forwards parse strip event = fst (sse_inspect parse strip event observations_default 0)"

lemma forwards_any: "fst (sse_inspect parse strip event obs now) = forwards parse strip event"
  by (simp add: forwards_def sse_inspect_def Let_def split: option.split)

lemma push_loop_split:
  "push_loop parse strip now buf obs out =
   (snd (split_events buf), out @ concat (filter (forwards parse strip) (fst (split_events buf))),
    inspect_all parse strip now (fst (split_events buf)) obs)"
proof (induction buf arbitrary: obs out rule: split_events.induct)
  case (1 buf)
  show ?case
  proof (cases "find_event_end buf")
    case (Some e)
    then show ?thesis using "1.IH"[OF Some] forwards_any[of parse strip "take e buf" obs now]
      by (simp add: push_loop.simps[of parse strip now buf] split_events.simps[of buf] case_prod_unfold Let_def)
  qed (simp add: split_events.simps[of buf] push_loop.simps[of parse strip now buf])
qed

section \<open>What the client receives\<close>

text \<open>The chunks of a stream with the times they arrive, as the loop over the upstream pushes them.\<close>

fun push_all :: "(string \<Rightarrow> json option) \<Rightarrow> sse_inspector \<Rightarrow> (string \<times> instant) list \<Rightarrow> observations \<Rightarrow> string list \<times> sse_inspector \<times> observations" where
  "push_all parse si [] obs = ([], si, obs)"
| "push_all parse si ((c, t) # cs) obs =
     (let (out, si, obs) = sse_push parse si c obs t; (outs, si, obs) = push_all parse si cs obs in (out # outs, si, obs))"

text \<open>The parts of the observations that do not depend on the time.\<close>

definition counted :: "observations \<Rightarrow> engine_usage option \<times> nat" where
  "counted obs = (ob_usage obs, ob_content_chunks obs)"

lemma inspect_counted:
  "counted obs = counted obs' \<Longrightarrow> counted (snd (sse_inspect parse strip e obs t)) = counted (snd (sse_inspect parse strip e obs' t'))"
  by (simp add: counted_def sse_inspect_def Let_def split: option.split)

lemma inspect_all_counted:
  "counted obs = counted obs' \<Longrightarrow> counted (inspect_all parse strip t es obs) = counted (inspect_all parse strip t' es obs')"
proof (induction es arbitrary: obs obs')
  case (Cons e es)
  show ?case unfolding inspect_all.simps by (rule Cons.IH[OF inspect_counted[OF Cons.prems]])
qed simp

lemma inspect_all_append: "inspect_all parse strip t (es @ es') obs = inspect_all parse strip t es' (inspect_all parse strip t es obs)"
  by (induction es arbitrary: obs) simp_all

lemma sse_push_split:
  "sse_push parse si c obs t =
   (concat (filter (forwards parse (si_strip_usage_chunk si)) (fst (split_events (si_buf si @ c)))),
    si\<lparr>si_buf := snd (split_events (si_buf si @ c))\<rparr>,
    inspect_all parse (si_strip_usage_chunk si) t (fst (split_events (si_buf si @ c))) obs)"
  by (simp add: sse_push_def push_loop_split)

lemma push_all_ConsE:
  assumes "push_all parse si ((c, u) # cs) obs = (outs, si', obs')"
  obtains outs1 where "outs = concat (filter (forwards parse (si_strip_usage_chunk si)) (fst (split_events (si_buf si @ c)))) # outs1"
    "push_all parse (si\<lparr>si_buf := snd (split_events (si_buf si @ c))\<rparr>) cs
       (inspect_all parse (si_strip_usage_chunk si) u (fst (split_events (si_buf si @ c))) obs) = (outs1, si', obs')"
  using assms that unfolding push_all.simps sse_push_split Let_def prod.case
  by (cases "push_all parse (si\<lparr>si_buf := snd (split_events (si_buf si @ c))\<rparr>) cs
       (inspect_all parse (si_strip_usage_chunk si) u (fst (split_events (si_buf si @ c))) obs)") auto

text \<open>
  Pushing the chunks of a stream one by one does what inspecting the whole stream would,
  however it was cut: the bytes sent are the forwarded events, in order, the buffer is the
  incomplete rest, and the usage and content count are those of the events.
\<close>

lemma push_all_split:
  assumes "push_all parse si cs obs = (outs, si', obs')" and "find_event_end (si_buf si) = None"
  defines "events \<equiv> fst (split_events (si_buf si @ concat (map fst cs)))"
  shows "concat outs = concat (filter (forwards parse (si_strip_usage_chunk si)) events)
    \<and> si' = si\<lparr>si_buf := snd (split_events (si_buf si @ concat (map fst cs)))\<rparr>
    \<and> counted obs' = counted (inspect_all parse (si_strip_usage_chunk si) t events obs)"
  using assms(1,2) unfolding events_def
proof (induction cs arbitrary: si obs outs)
  case Nil
  then have "split_events (si_buf si) = ([], si_buf si)" using split_events.simps[of "si_buf si"] by (simp only: option.case Nil.prems(2))
  then show ?case using Nil by simp
next
  case (Cons x cs)
  obtain c u where x: "x = (c, u)" by (cases x)
  let ?strip = "si_strip_usage_chunk si" and ?now = "split_events (si_buf si @ c)"
  let ?si = "si\<lparr>si_buf := snd ?now\<rparr>" and ?obs = "inspect_all parse (si_strip_usage_chunk si) u (fst (split_events (si_buf si @ c))) obs"
  obtain outs1 where o: "outs = concat (filter (forwards parse ?strip) (fst ?now)) # outs1" "push_all parse ?si cs ?obs = (outs1, si', obs')"
    by (rule push_all_ConsE[OF Cons.prems(1)[unfolded x]])
  note IH = Cons.IH[OF o(2)]
  have app: "split_events (si_buf si @ concat (map fst (x # cs)))
      = (fst ?now @ fst (split_events (snd ?now @ concat (map fst cs))), snd (split_events (snd ?now @ concat (map fst cs))))"
    using split_events_append[of "si_buf si @ c" "concat (map fst cs)"] by (simp add: x)
  have "counted ?obs = counted (inspect_all parse ?strip t (fst ?now) obs)" by (intro inspect_all_counted) simp
  then show ?case using IH split_rest inspect_all_counted[of ?obs "inspect_all parse ?strip t (fst ?now) obs" parse ?strip t _ t]
    unfolding app by (simp add: o(1) inspect_all_append)
qed

lemma forwards_everything: "forwards parse False e"
  by (simp add: forwards_def sse_inspect_def Let_def split: option.split)

text \<open>Content is timed by the chunk that completes its event, so the times move forward.\<close>

definition timed :: "instant \<Rightarrow> observations \<Rightarrow> bool" where
  "timed t obs \<longleftrightarrow> (case (ob_first_content_at obs, ob_last_content_at obs) of
      (None, None) \<Rightarrow> ob_content_chunks obs = 0 | (Some f, Some l) \<Rightarrow> f \<le> l \<and> l \<le> t \<and> 0 < ob_content_chunks obs | _ \<Rightarrow> False)"

lemma timed_later: "timed t obs \<Longrightarrow> t \<le> u \<Longrightarrow> timed u obs"
  by (auto simp: timed_def split: option.splits)

lemma inspect_timed: "timed t obs \<Longrightarrow> timed t (snd (sse_inspect parse strip e obs t))"
  by (auto simp: timed_def sse_inspect_def Let_def split: option.splits)

lemma inspect_all_timed: "timed t obs \<Longrightarrow> timed t (inspect_all parse strip t es obs)"
  by (induction es arbitrary: obs) (simp_all add: inspect_timed)

lemma push_all_timed:
  assumes "push_all parse si cs obs = (outs, si', obs')" and "sorted (t # map snd cs)" and "timed t obs"
  shows "timed (List.last (t # map snd cs)) obs'"
  using assms
proof (induction cs arbitrary: si obs outs t)
  case (Cons x cs)
  obtain c u where x: "x = (c, u)" by (cases x)
  let ?si = "si\<lparr>si_buf := snd (split_events (si_buf si @ c))\<rparr>"
  let ?obs = "inspect_all parse (si_strip_usage_chunk si) u (fst (split_events (si_buf si @ c))) obs"
  obtain outs1 where "outs = concat (filter (forwards parse (si_strip_usage_chunk si)) (fst (split_events (si_buf si @ c)))) # outs1"
    and "push_all parse ?si cs ?obs = (outs1, si', obs')"
    by (rule push_all_ConsE[OF Cons.prems(1)[unfolded x]])
  moreover have "timed u ?obs"
  proof (rule inspect_all_timed)
    show "timed u obs" using Cons.prems(2) x by (intro timed_later[OF Cons.prems(3)]) simp
  qed
  ultimately show ?case using Cons.IH[of ?si ?obs outs1 u] Cons.prems(2) by (simp add: x)
qed simp

text \<open>
  C39. A stream is inspected the same however it is cut. For two chunkings of the same bytes, the
  client receives the same bytes, the rest flushed at the end is the same, and so are the usage
  and the content count that settlement uses. If the client asked for usage, it receives exactly
  the engine's bytes; otherwise exactly the events that are not usage-only. The last content is
  never before the first.
\<close>

theorem chunking_does_not_matter:
  assumes "concat (map fst cs) = concat (map fst cs')"
    and "push_all parse (sse_new strip) cs observations_default = (outs, si, obs)"
    and "push_all parse (sse_new strip) cs' observations_default = (outs', si', obs')"
  shows "concat outs = concat outs' \<and> fst (sse_finish si) = fst (sse_finish si')
    \<and> ob_usage obs = ob_usage obs' \<and> ob_content_chunks obs = ob_content_chunks obs'
    \<and> concat outs @ fst (sse_finish si) =
        (if strip then concat (filter (forwards parse True) (fst (split_events (concat (map fst cs))))) @ snd (split_events (concat (map fst cs)))
         else concat (map fst cs))
    \<and> (sorted (map snd cs) \<longrightarrow> (case (ob_first_content_at obs, ob_last_content_at obs) of
          (None, None) \<Rightarrow> ob_content_chunks obs = 0 | (Some f, Some l) \<Rightarrow> f \<le> l \<and> 0 < ob_content_chunks obs | _ \<Rightarrow> False))"
proof -
  let ?s = "split_events (concat (map fst cs))"
  have new: "si_buf (sse_new strip) = []" "si_strip_usage_chunk (sse_new strip) = strip" by (simp_all add: sse_new_def)
  have empty: "find_event_end (si_buf (sse_new strip)) = None" by (simp add: new find_event_end_def windows_def)
  note a = push_all_split[OF assms(2) empty, of 0, unfolded new append_Nil]
  note b = push_all_split[OF assms(3) empty, of 0, unfolded new append_Nil, folded assms(1)]
  have counts: "counted obs = counted obs'" using a b by simp
  have out: "concat outs @ si_buf si = concat (filter (forwards parse strip) (fst ?s)) @ snd ?s" using a by (simp add: sse_new_def)
  have whole: "\<not> strip \<Longrightarrow> concat outs @ si_buf si = concat (map fst cs)"
    using out split_events_concat[of "concat (map fst cs)"] by (simp add: forwards_everything)
  have times: "timed (List.last (0 # map snd cs)) obs" if "sorted (map snd cs)"
    using that by (intro push_all_timed[OF assms(2)]) (simp_all add: timed_def observations_default_def)
  have "sorted (map snd cs) \<longrightarrow> (case (ob_first_content_at obs, ob_last_content_at obs) of
          (None, None) \<Rightarrow> ob_content_chunks obs = 0 | (Some f, Some l) \<Rightarrow> f \<le> l \<and> 0 < ob_content_chunks obs | _ \<Rightarrow> False)"
    using times unfolding timed_def by (auto split: option.splits)
  moreover have "concat outs = concat outs'" "si = si'" using a b by simp_all
  moreover have "concat outs @ fst (sse_finish si) = (if strip then concat (filter (forwards parse True) (fst ?s)) @ snd ?s else concat (map fst cs))"
    using out whole by (auto simp: sse_finish_def)
  ultimately show ?thesis using counts by (simp add: counted_def)
qed

text \<open>A parser that knows two bodies is enough to see content, usage and a stripped chunk.\<close>

definition demo_parse :: "string \<Rightarrow> json option" where
  "demo_parse s =
     (if s = ''C'' then Some (JObject [(''choices'', JArray [JObject [(''delta'', JObject [(''content'', JString ''hi'')])]])])
      else if s = ''U'' then Some (JObject [(''choices'', JArray []),
        (''usage'', JObject [(''prompt_tokens'', JPosInt 10), (''completion_tokens'', JPosInt 2)])])
      else None)"

definition demo_stream :: string where
  "demo_stream = ''data: C'' @ [LF, LF] @ ''data: U'' @ [CR, LF, CR, LF] @ ''da''"

theorem chunking_does_not_matter_witness:
  "(case (push_all demo_parse (sse_new True) [(demo_stream, 7)] observations_default,
          push_all demo_parse (sse_new True) [(take 11 demo_stream, 5), (drop 11 demo_stream, 9)] observations_default) of
      ((outs, si, obs), (outs', si', obs')) \<Rightarrow>
        concat outs = concat outs' \<and> fst (sse_finish si) = fst (sse_finish si') \<and> ob_usage obs = ob_usage obs')
   \<and> snd (snd (push_all demo_parse (sse_new True) [(demo_stream, 7)] observations_default))
      = \<lparr>ob_usage = Some \<lparr>eu_prompt_tokens = 10, eu_cached_tokens = 0, eu_completion_tokens = 2\<rparr>,
         ob_first_content_at = Some 7, ob_last_content_at = Some 7, ob_content_chunks = 1\<rparr>"
proof
  let ?whole = "[(demo_stream, 7)]" and ?cut = "[(take 11 demo_stream, 5), (drop 11 demo_stream, 9)]"
  obtain outs si obs where w: "push_all demo_parse (sse_new True) ?whole observations_default = (outs, si, obs)" by (rule prod_cases3)
  obtain outs' si' obs' where c: "push_all demo_parse (sse_new True) ?cut observations_default = (outs', si', obs')" by (rule prod_cases3)
  have "concat (map fst ?whole) = concat (map fst ?cut)" by simp
  from chunking_does_not_matter[OF this w c]
  show "case (push_all demo_parse (sse_new True) ?whole observations_default, push_all demo_parse (sse_new True) ?cut observations_default) of
      ((outs, si, obs), (outs', si', obs')) \<Rightarrow>
        concat outs = concat outs' \<and> fst (sse_finish si) = fst (sse_finish si') \<and> ob_usage obs = ob_usage obs'"
    unfolding w c prod.case by blast
  show "snd (snd (push_all demo_parse (sse_new True) [(demo_stream, 7)] observations_default))
      = \<lparr>ob_usage = Some \<lparr>eu_prompt_tokens = 10, eu_cached_tokens = 0, eu_completion_tokens = 2\<rparr>,
         ob_first_content_at = Some 7, ob_last_content_at = Some 7, ob_content_chunks = 1\<rparr>"
    by code_simp
qed

end
