(* ===== verification/Image_Tokens.thy ===== *)
theory Image_Tokens
  imports Sse "HOL-Library.Log_Nat"
begin

text \<open>
  What an image part of a request costs (\<open>pt-tokenize/image.rs\<close>): the size of an inline image
  from its header (PNG, GIF, WebP, JPEG), and the tiling of the model's vision encoder. Bytes are
  natural numbers below 256; the base64 decoders are arguments.
\<close>

section \<open>Tiling (image.rs)\<close>

record image_tiling =
  it_tile_px :: nat
  it_tokens_per_tile :: nat
  it_max_tiles :: nat
  it_base_tokens :: nat

definition tile_edge :: "image_tiling \<Rightarrow> real" where
  "tile_edge t = real (max (it_tile_px t) 1)"

definition tiles :: "image_tiling \<Rightarrow> real \<Rightarrow> real \<Rightarrow> real" where
  "tiles t w h = of_int \<lceil>w / tile_edge t\<rceil> * of_int \<lceil>h / tile_edge t\<rceil>"

text \<open>An image whose edges are within one tile costs at most one, so the loop below ends.\<close>

lemma tile_edge_pos: "1 \<le> tile_edge t"
  by (simp add: tile_edge_def)

lemma one_tile:
  assumes "\<bar>w\<bar> \<le> tile_edge t" and "\<bar>h\<bar> \<le> tile_edge t"
  shows "tiles t w h \<le> 1"
proof -
  have unit: "\<lceil>x / tile_edge t\<rceil> \<in> {-1, 0, 1}" if "\<bar>x\<bar> \<le> tile_edge t" for x
  proof -
    have "- 1 \<le> x / tile_edge t" "x / tile_edge t \<le> 1"
      using that tile_edge_pos[of t] by (simp_all add: le_divide_eq divide_le_eq abs_le_iff)
    then have "\<lceil>x / tile_edge t\<rceil> = - 1 \<or> \<lceil>x / tile_edge t\<rceil> = 0 \<or> \<lceil>x / tile_edge t\<rceil> = 1" by linarith
    then show ?thesis by blast
  qed
  show ?thesis using unit[OF assms(1)] unit[OF assms(2)] by (auto simp: tiles_def)
qed

definition shrink_steps :: "image_tiling \<Rightarrow> real \<Rightarrow> real \<Rightarrow> nat" where
  "shrink_steps t w h = nat \<lceil>log (10/9) (max \<bar>w\<bar> \<bar>h\<bar> / tile_edge t)\<rceil>"

lemma shrink_decreases:
  assumes "real (max (it_max_tiles t) 1) < tiles t w h"
  shows "shrink_steps t (9/10 * w) (9/10 * h) < shrink_steps t w h"
proof -
  let ?m = "max \<bar>w\<bar> \<bar>h\<bar>"
  have "1 < tiles t w h" using assms by (simp add: max_def split: if_splits)
  then have "tile_edge t < ?m" using one_tile[of w t h] by linarith
  then have m: "1 < ?m / tile_edge t" using tile_edge_pos[of t] by (simp add: less_divide_eq)
  have "max \<bar>9/10 * w\<bar> \<bar>9/10 * h\<bar> = 9/10 * ?m" by (auto simp: abs_mult max_def)
  then have "log (10/9) (max \<bar>9/10 * w\<bar> \<bar>9/10 * h\<bar> / tile_edge t) = log (10/9) (9/10 * (?m / tile_edge t))"
    by (simp only: times_divide_eq_right)
  also have "\<dots> = log (10/9) (9/10) + log (10/9) (?m / tile_edge t)" using m by (intro log_mult_pos) linarith+
  also have "log (10/9) (9/10 :: real) = - 1" using log_inverse[of "10/9 :: real" "10/9"] by (simp add: inverse_eq_divide)
  finally have "log (10/9) (max \<bar>9/10 * w\<bar> \<bar>9/10 * h\<bar> / tile_edge t) = log (10/9) (?m / tile_edge t) - 1" by simp
  moreover have "0 < log (10/9) (?m / tile_edge t)" using m by simp
  ultimately show ?thesis unfolding shrink_steps_def by simp
qed

function shrink :: "image_tiling \<Rightarrow> real \<Rightarrow> real \<Rightarrow> real \<times> real" where
  "shrink t w h = (if real (max (it_max_tiles t) 1) < tiles t w h then shrink t (9/10 * w) (9/10 * h) else (w, h))"
  by pat_completeness auto
termination
  by (relation "measure (\<lambda>(t, w, h). shrink_steps t w h)") (use shrink_decreases in auto)

declare shrink.simps [simp del]

definition tiling_tokens :: "image_tiling \<Rightarrow> nat \<Rightarrow> nat \<Rightarrow> nat" where
  "tiling_tokens t width height =
     (let (w, h) = shrink t (real (max width 1)) (real (max height 1))
      in u64_add (it_base_tokens t) (u64_mul (f64_as_u64 (tiles t w h)) (it_tokens_per_tile t)))"

section \<open>Headers\<close>

definition be32 :: "nat list \<Rightarrow> nat \<Rightarrow> nat option" where
  "be32 b i = (if i + 4 \<le> length b then Some (((b ! i * 256 + b ! (i + 1)) * 256 + b ! (i + 2)) * 256 + b ! (i + 3)) else None)"

definition le32 :: "nat list \<Rightarrow> nat \<Rightarrow> nat option" where
  "le32 b i = (if i + 4 \<le> length b then Some (((b ! (i + 3) * 256 + b ! (i + 2)) * 256 + b ! (i + 1)) * 256 + b ! i) else None)"

definition le16 :: "nat list \<Rightarrow> nat \<Rightarrow> nat option" where
  "le16 b i = (if i + 2 \<le> length b then Some (b ! (i + 1) * 256 + b ! i) else None)"

definition be16 :: "nat list \<Rightarrow> nat \<Rightarrow> nat option" where
  "be16 b i = (if i + 2 \<le> length b then Some (b ! i * 256 + b ! (i + 1)) else None)"

definition le24 :: "nat list \<Rightarrow> nat \<Rightarrow> nat option" where
  "le24 b i = (if i + 3 \<le> length b then Some ((b ! (i + 2) * 256 + b ! (i + 1)) * 256 + b ! i) else None)"

definition both :: "nat option \<Rightarrow> nat option \<Rightarrow> (nat \<times> nat) option" where
  "both w h = (case (w, h) of (Some w, Some h) \<Rightarrow> Some (w, h) | _ \<Rightarrow> None)"

definition starts_with :: "nat list \<Rightarrow> nat list \<Rightarrow> bool" where
  "starts_with p b \<longleftrightarrow> take (length p) b = p"

definition png_magic :: "nat list" where "png_magic = [137, 80, 78, 71, 13, 10, 26, 10]"
definition gif87 :: "nat list" where "gif87 = [71, 73, 70, 56, 55, 97]"
definition gif89 :: "nat list" where "gif89 = [71, 73, 70, 56, 57, 97]"
definition riff :: "nat list" where "riff = [82, 73, 70, 70]"
definition webp :: "nat list" where "webp = [87, 69, 66, 80]"

definition slice :: "nat list \<Rightarrow> nat \<Rightarrow> nat \<Rightarrow> nat list option" where
  "slice b i j = (if j \<le> length b then Some (take (j - i) (drop i b)) else None)"

definition webp_dimensions :: "nat list \<Rightarrow> (nat \<times> nat) option" where
  "webp_dimensions b =
     (case slice b 12 16 of
        None \<Rightarrow> None
      | Some k \<Rightarrow>
          if k = [86, 80, 56, 88] then both (map_option Suc (le24 b 24)) (map_option Suc (le24 b 27))
          else if k = [86, 80, 56, 32] then both (map_option (\<lambda>n. n mod 16384) (le16 b 26)) (map_option (\<lambda>n. n mod 16384) (le16 b 28))
          else if k = [86, 80, 56, 76]
          then map_option (\<lambda>bits. (bits mod 16384 + 1, bits div 16384 mod 16384 + 1)) (le32 b 21)
          else None)"

text \<open>The walk over the segments of a JPEG, to the first start of frame.\<close>

definition standalone :: "nat \<Rightarrow> bool" where
  "standalone m \<longleftrightarrow> m = 216 \<or> 208 \<le> m \<and> m \<le> 215 \<or> m = 1"

definition start_of_frame :: "nat \<Rightarrow> bool" where
  "start_of_frame m \<longleftrightarrow> 192 \<le> m \<and> m \<le> 207 \<and> m \<noteq> 196 \<and> m \<noteq> 200 \<and> m \<noteq> 204"

function jpeg_walk :: "nat list \<Rightarrow> nat \<Rightarrow> (nat \<times> nat) option" where
  "jpeg_walk b i =
     (if length b < i + 4 then None
      else if b ! i \<noteq> 255 then None
      else let marker = b ! (i + 1)
      in if standalone marker then jpeg_walk b (i + 2)
         else case be16 b (i + 2) of
           None \<Rightarrow> None
         | Some len \<Rightarrow>
             if start_of_frame marker then both (be16 b (i + 7)) (be16 b (i + 5))
             else jpeg_walk b (i + (2 + len)))"
  by pat_completeness auto
termination
  by (relation "measure (\<lambda>(b, i). length b - i)") auto

declare jpeg_walk.simps [simp del]

definition dimensions :: "nat list \<Rightarrow> (nat \<times> nat) option" where
  "dimensions b =
     (if starts_with png_magic b then both (be32 b 16) (be32 b 20)
      else if starts_with gif87 b \<or> starts_with gif89 b then both (le16 b 6) (le16 b 8)
      else if starts_with riff b \<and> slice b 8 12 = Some webp then webp_dimensions b
      else if starts_with [255, 216] b then jpeg_walk b 2
      else None)"

section \<open>Inline images\<close>

text \<open>Slicing a \<open>str\<close> inside a character panics.\<close>

datatype slice_panic = NotACharBoundary nat

definition char_boundary :: "string \<Rightarrow> nat \<Rightarrow> bool" where
  "char_boundary s i \<longleftrightarrow> i = length s \<or> i < length s \<and> \<not> cont_byte (of_char (s ! i))"

definition str_to :: "string \<Rightarrow> nat \<Rightarrow> slice_panic + string" where
  "str_to s i = (if char_boundary s i then Inr (take i s) else Inl (NotACharBoundary i))"

definition ends_with :: "string \<Rightarrow> string \<Rightarrow> bool" where
  "ends_with p s = suffix p s"

definition trim_end_matches :: "char \<Rightarrow> string \<Rightarrow> string" where
  "trim_end_matches c s = rev (dropWhile (\<lambda>d. d = c) (rev s))"

type_synonym base64 = "string \<Rightarrow> nat list option"

definition data_url_dimensions :: "base64 \<Rightarrow> base64 \<Rightarrow> string \<Rightarrow> slice_panic + (nat \<times> nat) option" where
  "data_url_dimensions standard no_pad url =
     (case Option.bind (strip_prefix ''data:'' url) (split_once (CHR '','')) of
        None \<Rightarrow> Inr None
      | Some (meta, payload) \<Rightarrow>
          if \<not> ends_with '';base64'' meta then Inr None
          else let n = min (length payload) (256 * 1024 div 3 * 4) div 4 * 4
          in case str_to payload n of
               Inl e \<Rightarrow> Inl e
             | Inr p \<Rightarrow>
                 let data = trim_end_matches (CHR ''='') p
                 in case (case standard data of Some bytes \<Rightarrow> Some bytes | None \<Rightarrow> no_pad data) of
                      None \<Rightarrow> Inr None
                    | Some bytes \<Rightarrow> Inr (dimensions bytes))"

definition or_else :: "'a option \<Rightarrow> 'a option \<Rightarrow> 'a option" where
  "or_else a b = (case a of Some x \<Rightarrow> Some x | None \<Rightarrow> b)"

definition str_at :: "string list \<Rightarrow> json \<Rightarrow> string option" where
  "str_at path v = Option.bind (json_pointer path v) as_str"

definition part_tokens :: "base64 \<Rightarrow> base64 \<Rightarrow> json \<Rightarrow> image_tiling option \<Rightarrow> nat \<Rightarrow> slice_panic + nat option" where
  "part_tokens standard no_pad part tiling flat =
     (case Option.bind (json_get ''type'' part) as_str of
        None \<Rightarrow> Inr None
      | Some kind \<Rightarrow>
          if kind \<noteq> ''image_url'' \<and> kind \<noteq> ''image'' \<and> kind \<noteq> ''input_image'' then Inr None
          else
            let url = (if kind = ''image_url'' then or_else (str_at [''image_url'', ''url''] part) (str_at [''image_url''] part)
                       else or_else (or_else (str_at [''image_url''] part) (str_at [''url''] part)) (str_at [''image''] part))
            in case tiling of
                 None \<Rightarrow> Inr (Some flat)
               | Some t \<Rightarrow>
                   if or_else (str_at [''image_url'', ''detail''] part) (str_at [''detail''] part) = Some ''low''
                   then Inr (Some (max (it_base_tokens t) (it_tokens_per_tile t)))
                   else case url of
                     None \<Rightarrow> Inr (Some flat)
                   | Some u \<Rightarrow>
                       (case data_url_dimensions standard no_pad u of
                          Inl e \<Rightarrow> Inl e
                        | Inr None \<Rightarrow> Inr (Some flat)
                        | Inr (Some (w, h)) \<Rightarrow> Inr (Some (tiling_tokens t w h))))"

section \<open>What an image can cost\<close>

lemma shrink_fits: "case shrink t w h of (w', h') \<Rightarrow> tiles t w' h' \<le> real (max (it_max_tiles t) 1)"
proof (induction t w h rule: shrink.induct)
  case (1 t w h)
  then show ?case by (cases "real (max (it_max_tiles t) 1) < tiles t w h") (simp_all add: shrink.simps[of t w h])
qed

lemma shrink_pos: "0 < w \<Longrightarrow> 0 < h \<Longrightarrow> case shrink t w h of (w', h') \<Rightarrow> 0 < w' \<and> 0 < h'"
proof (induction t w h rule: shrink.induct)
  case (1 t w h)
  then show ?case by (cases "real (max (it_max_tiles t) 1) < tiles t w h") (simp_all add: shrink.simps[of t w h])
qed

lemma tiles_pos: "0 < w \<Longrightarrow> 0 < h \<Longrightarrow> 1 \<le> tiles t w h"
proof -
  assume "0 < w" "0 < h"
  then have "1 \<le> \<lceil>w / tile_edge t\<rceil>" "1 \<le> \<lceil>h / tile_edge t\<rceil>" using tile_edge_pos[of t] by (simp_all add: le_ceiling_iff)
  then have "1 * 1 \<le> (of_int \<lceil>w / tile_edge t\<rceil> :: real) * of_int \<lceil>h / tile_edge t\<rceil>" by (intro mult_mono) linarith+
  then show ?thesis by (simp add: tiles_def)
qed

text \<open>
  The downscaling loop ends for every image and tiling, and what it leaves costs at least one
  tile and at most the tiling's limit, whatever size the header claims, if that limit fits 64 bits.
\<close>

lemma image_cost_bounded:
  assumes "it_base_tokens t + max (it_max_tiles t) 1 * it_tokens_per_tile t < 18446744073709551616"
  shows "it_base_tokens t + it_tokens_per_tile t \<le> tiling_tokens t width height"
    and "tiling_tokens t width height \<le> it_base_tokens t + max (it_max_tiles t) 1 * it_tokens_per_tile t"
proof -
  obtain w h where s: "shrink t (real (max width 1)) (real (max height 1)) = (w, h)" by fastforce
  have "0 < w" "0 < h" using shrink_pos[of "real (max width 1)" "real (max height 1)" t] unfolding s by auto
  then have lo: "1 \<le> tiles t w h" by (rule tiles_pos)
  have hi: "tiles t w h \<le> real (max (it_max_tiles t) 1)" using shrink_fits[of t "real (max width 1)" "real (max height 1)"] unfolding s by simp
  have "1 \<le> nat \<lfloor>tiles t w h\<rfloor>" "nat \<lfloor>tiles t w h\<rfloor> \<le> max (it_max_tiles t) 1" using lo hi by linarith+
  then have n: "1 \<le> f64_as_u64 (tiles t w h)" "f64_as_u64 (tiles t w h) \<le> max (it_max_tiles t) 1"
    unfolding f64_as_u64_def by linarith+
  then have m: "f64_as_u64 (tiles t w h) * it_tokens_per_tile t \<le> max (it_max_tiles t) 1 * it_tokens_per_tile t"
    by (intro mult_right_mono) auto
  have fits: "it_base_tokens t + f64_as_u64 (tiles t w h) * it_tokens_per_tile t < 18446744073709551616" using assms m by linarith
  then have fits': "f64_as_u64 (tiles t w h) * it_tokens_per_tile t < 18446744073709551616" by linarith
  have "tiling_tokens t width height = it_base_tokens t + f64_as_u64 (tiles t w h) * it_tokens_per_tile t"
    unfolding tiling_tokens_def s by (simp add: u64_mul_exact[of "f64_as_u64 (tiles t w h)"] u64_add_exact fits fits')
  then show "it_base_tokens t + it_tokens_per_tile t \<le> tiling_tokens t width height"
    "tiling_tokens t width height \<le> it_base_tokens t + max (it_max_tiles t) 1 * it_tokens_per_tile t"
    using mult_right_mono[OF n(1), of "it_tokens_per_tile t"] m by simp_all
qed

section \<open>Sizes are read back\<close>

definition be_bytes :: "nat \<Rightarrow> nat \<Rightarrow> nat list" where
  "be_bytes n x = map (\<lambda>i. x div 256 ^ (n - 1 - i) mod 256) [0..<n]"

definition png_image :: "nat \<Rightarrow> nat \<Rightarrow> nat list \<Rightarrow> nat list" where
  "png_image w h rest = png_magic @ [0, 0, 0, 13, 73, 72, 68, 82] @ be_bytes 4 w @ be_bytes 4 h @ rest"

definition gif_image :: "nat \<Rightarrow> nat \<Rightarrow> nat list \<Rightarrow> nat list" where
  "gif_image w h rest = gif89 @ [w mod 256, w div 256] @ [h mod 256, h div 256] @ rest"

text \<open>A JPEG: metadata segments, then the frame header, with the length each segment declares.\<close>

definition jpeg_segment :: "nat \<times> nat list \<Rightarrow> nat list" where
  "jpeg_segment s = (case s of (m, payload) \<Rightarrow> [255, m] @ be_bytes 2 (length payload + 2) @ payload)"

definition segment_ok :: "nat \<times> nat list \<Rightarrow> bool" where
  "segment_ok s = (case s of (m, payload) \<Rightarrow> \<not> standalone m \<and> \<not> start_of_frame m \<and> length payload + 2 < 65536)"

definition jpeg_image :: "(nat \<times> nat list) list \<Rightarrow> nat \<Rightarrow> nat \<Rightarrow> nat list \<Rightarrow> nat list" where
  "jpeg_image segments w h rest =
     [255, 216] @ concat (map jpeg_segment segments) @ [255, 192, 0, 17, 8] @ be_bytes 2 h @ be_bytes 2 w @ rest"

lemma be_bytes_2: "be_bytes 2 x = [x div 256 mod 256, x mod 256]"
  by (simp add: be_bytes_def upt_rec)

lemma be_bytes_4: "be_bytes 4 x = [x div 16777216 mod 256, x div 65536 mod 256, x div 256 mod 256, x mod 256]"
  by (simp add: be_bytes_def upt_rec)

lemma join_16: "x < 65536 \<Longrightarrow> x div 256 mod 256 * 256 + x mod 256 = (x :: nat)"
  by (simp add: div_mult_mod_eq)

lemma join_32:
  fixes x :: nat
  assumes "x < 4294967296"
  shows "((x div 16777216 mod 256 * 256 + x div 65536 mod 256) * 256 + x div 256 mod 256) * 256 + x mod 256 = x"
proof -
  have a: "x div 65536 = x div 256 div 256" "x div 16777216 = x div 256 div 256 div 256"
    using div_mult2_eq[of x 256 256] div_mult2_eq[of x 65536 256] div_mult2_eq[of x 256 256] by simp_all
  have "x div 256 div 256 div 256 < 256" using assms unfolding a(2)[symmetric] by (simp add: less_mult_imp_div_less)
  then have "x div 16777216 mod 256 = x div 256 div 256 div 256" unfolding a by simp
  then show ?thesis unfolding a by (simp only: div_mult_mod_eq)
qed

lemma jpeg_walk_segment:
  assumes "\<not> length b < i + 4" "b ! i = 255" "b ! (i + 1) = m" "\<not> standalone m" "\<not> start_of_frame m" "be16 b (i + 2) = Some len"
  shows "jpeg_walk b i = jpeg_walk b (i + (2 + len))"
  by (subst jpeg_walk.simps) (use assms in simp)

lemma jpeg_walk_frame:
  assumes "\<not> length b < i + 4" "b ! i = 255" "b ! (i + 1) = m" "\<not> standalone m" "start_of_frame m" "be16 b (i + 2) = Some len"
  shows "jpeg_walk b i = both (be16 b (i + 7)) (be16 b (i + 5))"
  by (subst jpeg_walk.simps) (use assms in simp)

lemma jpeg_skip:
  assumes "list_all segment_ok segments"
  shows "jpeg_walk (pre @ concat (map jpeg_segment segments) @ rest) (length pre)
    = jpeg_walk (pre @ concat (map jpeg_segment segments) @ rest) (length pre + length (concat (map jpeg_segment segments)))"
  using assms
proof (induction segments arbitrary: pre)
  case (Cons s segments)
  obtain m payload where s: "s = (m, payload)" by (cases s)
  let ?tail = "concat (map jpeg_segment segments) @ rest" and ?b = "pre @ concat (map jpeg_segment (s # segments)) @ rest"
  have b: "?b = pre @ [255, m] @ be_bytes 2 (length payload + 2) @ payload @ ?tail" by (simp add: s jpeg_segment_def)
  have n: "?b ! length pre = 255" "?b ! (length pre + 1) = m" "\<not> length ?b < length pre + 4"
    unfolding b by (simp_all add: nth_append be_bytes_2)
  have len: "be16 ?b (length pre + 2) = Some (length payload + 2)"
    using Cons.prems join_16[of "length payload + 2"] unfolding b by (simp add: be16_def nth_append be_bytes_2 s segment_ok_def)
  have "jpeg_walk ?b (length pre) = jpeg_walk ?b (length pre + (2 + (length payload + 2)))"
    using Cons.prems by (intro jpeg_walk_segment[OF n(3,1,2) _ _ len]) (simp_all add: s segment_ok_def)
  also have "\<dots> = jpeg_walk ?b (length (pre @ jpeg_segment s))" by (simp add: s jpeg_segment_def be_bytes_2)
  also have "\<dots> = jpeg_walk ?b (length (pre @ jpeg_segment s) + length (concat (map jpeg_segment segments)))"
    using Cons.IH[of "pre @ jpeg_segment s"] Cons.prems by simp
  finally show ?case by (simp add: add.assoc)
qed simp

text \<open>
  The sizes of inline images are read back: a PNG with any 32-bit edges, a GIF and a JPEG with
  any 16-bit edges, the JPEG behind any list of metadata segments.
\<close>

theorem image_size_roundtrip:
  assumes "w < 65536" and "h < 65536" and "list_all segment_ok segments" and "x < 4294967296" and "y < 4294967296"
  shows "dimensions (png_image x y rest) = Some (x, y)
    \<and> dimensions (gif_image w h rest) = Some (w, h)
    \<and> dimensions (jpeg_image segments w h rest) = Some (w, h)"
proof -
  have png: "dimensions (png_image x y rest) = Some (x, y)"
    using join_32[OF assms(4)] join_32[OF assms(5)]
    by (simp add: dimensions_def png_image_def starts_with_def png_magic_def be32_def both_def be_bytes_4)
  have gif: "dimensions (gif_image w h rest) = Some (w, h)"
    using assms(1,2) by (simp add: dimensions_def gif_image_def starts_with_def png_magic_def gif87_def gif89_def le16_def both_def)
  let ?b = "jpeg_image segments w h rest" and ?n = "2 + length (concat (map jpeg_segment segments))"
  have "dimensions ?b = jpeg_walk ?b 2"
    by (simp add: dimensions_def jpeg_image_def starts_with_def png_magic_def gif87_def gif89_def riff_def)
  also have "\<dots> = jpeg_walk ?b ?n"
    using jpeg_skip[OF assms(3), of "[255, 216]" "[255, 192, 0, 17, 8] @ be_bytes 2 h @ be_bytes 2 w @ rest"]
    by (simp add: jpeg_image_def numeral_2_eq_2)
  also have "\<dots> = both (be16 ?b (?n + 7)) (be16 ?b (?n + 5))"
    by (rule jpeg_walk_frame[where m = 192 and len = 17])
      (simp_all add: jpeg_image_def nth_append be_bytes_2 standalone_def start_of_frame_def be16_def)
  also have "\<dots> = Some (w, h)"
    using join_16[OF assms(1)] join_16[OF assms(2)] by (simp add: jpeg_image_def nth_append be_bytes_2 be16_def both_def)
  finally have jpeg: "dimensions ?b = Some (w, h)" .
  show ?thesis using png gif jpeg by blast
qed

theorem image_size_roundtrip_witness:
  "dimensions (png_image 100000 2 []) = Some (100000, 2)
   \<and> dimensions (gif_image 320 240 []) = Some (320, 240)
   \<and> dimensions (jpeg_image [(224, [1, 2, 3])] 320 240 []) = Some (320, 240)"
  by (rule image_size_roundtrip) (simp_all add: segment_ok_def standalone_def start_of_frame_def)

text \<open>A payload that is not ASCII can be cut inside a character, and the slice panics.\<close>

lemma inline_image_panics:
  "data_url_dimensions standard no_pad (''data:image/png;base64,abc'' @ [CHR 0xC3, CHR 0xA9]) = Inl (NotACharBoundary 4)"
  by (simp add: data_url_dimensions_def strip_prefix_def ends_with_def split_once_def suffix_def str_to_def char_boundary_def cont_byte_def)

lemma ascii_payload_never_panics:
  assumes "list_all (\<lambda>c. of_char c < (128 :: nat)) payload" and "n \<le> length payload"
  shows "str_to payload n = Inr (take n payload)"
proof -
  have "\<not> cont_byte (of_char (payload ! n))" if "n < length payload"
    using assms(1) that by (auto simp: cont_byte_def list_all_length not_le)
  then show ?thesis using assms(2) by (auto simp: str_to_def char_boundary_def)
qed

end
