(* ===== verification/Tokenize.thy ===== *)
theory Tokenize
  imports Image_Tokens PT_Core "HOL-Library.AList" "HOL-Library.Word"
begin

text \<open>
  Input token counting (\<open>pt-tokenize\<close>: \<open>lib.rs\<close> and the framing of \<open>template.rs\<close>). A model's
  tokenizer (\<open>tokenizers::Tokenizer::encode_fast\<close>), its rendered chat template (\<open>minijinja\<close>) and the
  process's random hasher are arguments: a tokenizer returns a count or fails, a template
  returns text or fails, the hasher maps the hashed strings to a 64-bit key. Token counts are
  64-bit and their sums wrap.
\<close>

section \<open>Constants and types (lib.rs)\<close>

definition DEFAULT_BYTES_PER_TOKEN :: real where "DEFAULT_BYTES_PER_TOKEN = 4"
definition CHUNK_BYTES :: nat where "CHUNK_BYTES = 16 * 1024"
definition EWMA_ALPHA :: real where "EWMA_ALPHA = 5/100"

datatype count_method = TokenizerMethod | RatioMethod

record token_count =
  tc_tokens :: nat
  tc_per_message :: "nat list"
  tc_framing :: nat
  tc_exact :: bool
  tc_deferred :: "(string \<times> string) list"

record model_tokenizer =
  mt_encode :: "string \<Rightarrow> nat option"
  mt_overhead :: nat
  mt_template :: "(json \<Rightarrow> json option \<Rightarrow> string option) option"
  mt_image_tokens :: nat
  mt_image :: "image_tiling option"

record learned =
  ln_bytes_per_token :: "real option"
  ln_engine_to_estimate :: "real option"
  ln_observations :: nat
  ln_exact_messages :: nat
  ln_estimated_messages :: nat
  ln_template_errors :: nat

definition learned_default :: learned where
  "learned_default = \<lparr>ln_bytes_per_token = None, ln_engine_to_estimate = None, ln_observations = 0,
     ln_exact_messages = 0, ln_estimated_messages = 0, ln_template_errors = 0\<rparr>"

record token_cache =
  kc_counts :: "(64 word \<times> nat) list"
  kc_order :: "64 word list"
  kc_capacity :: nat

record tokenizers =
  tz_models :: "(string \<times> model_tokenizer) list"
  tz_learned :: "(string \<times> learned) list"
  tz_cache :: token_cache
  tz_filling :: "64 word list"

definition with_models :: "(string \<times> model_tokenizer) list \<Rightarrow> nat \<Rightarrow> tokenizers" where
  "with_models models cache_entries =
     \<lparr>tz_models = models, tz_learned = [], tz_cache = \<lparr>kc_counts = [], kc_order = [], kc_capacity = cache_entries\<rparr>, tz_filling = []\<rparr>"

definition ratio_only :: tokenizers where
  "ratio_only = with_models [] 0"

section \<open>The cache\<close>

definition cache_get :: "token_cache \<Rightarrow> 64 word \<Rightarrow> nat option" where
  "cache_get c key = map_of (kc_counts c) key"

fun cache_evict :: "nat \<Rightarrow> (64 word \<times> nat) list \<Rightarrow> 64 word list \<Rightarrow> (64 word \<times> nat) list \<times> 64 word list" where
  "cache_evict capacity counts [] = (counts, [])"
| "cache_evict capacity counts (old # order) =
     (if capacity < length (old # order) then cache_evict capacity (AList.delete old counts) order else (counts, old # order))"

definition cache_insert :: "token_cache \<Rightarrow> 64 word \<Rightarrow> nat \<Rightarrow> token_cache" where
  "cache_insert c key tokens =
     (if kc_capacity c = 0 then c
      else let order = (if map_of (kc_counts c) key = None then kc_order c @ [key] else kc_order c);
               (counts, order) = cache_evict (kc_capacity c) (AList.update key tokens (kc_counts c)) order
           in c\<lparr>kc_counts := counts, kc_order := order\<rparr>)"

section \<open>Encoding\<close>

definition ewma :: "real option \<Rightarrow> real \<Rightarrow> real" where
  "ewma prev x = (case prev of Some p \<Rightarrow> p + EWMA_ALPHA * (x - p) | None \<Rightarrow> x)"

definition ratio_tokens :: "nat \<Rightarrow> real \<Rightarrow> nat" where
  "ratio_tokens bytes ratio = f64_as_u64 (of_int \<lceil>real bytes / ratio\<rceil>)"

definition ascii_whitespace :: "char \<Rightarrow> bool" where
  "ascii_whitespace c \<longleftrightarrow> of_char c \<in> {9, 10, 12, 13, 32 :: nat}"

text \<open>The end of a chunk: the next word start at or after \<open>e\<close>.\<close>

function word_end :: "string \<Rightarrow> nat \<Rightarrow> nat" where
  "word_end str e =
     (if e < length str \<and> \<not> (str ! e = CHR '' '' \<and> \<not> ascii_whitespace (str ! (e - 1))) then word_end str (e + 1) else e)"
  by pat_completeness auto
termination by (relation "measure (\<lambda>(str, e). length str - e)") auto

declare word_end.simps [simp del]

lemma word_end_ge: "e \<le> word_end str e"
proof (induction str e rule: word_end.induct)
  case (1 str e)
  then show ?case
    by (cases "e < length str \<and> \<not> (str ! e = CHR '' '' \<and> \<not> ascii_whitespace (str ! (e - 1)))") (auto simp: word_end.simps[of str e])
qed

text \<open>Chunks have a positive size, the constant above.\<close>

function split_from :: "string \<Rightarrow> nat \<Rightarrow> nat \<Rightarrow> string list" where
  "split_from str chunk start =
     (if start < length str \<and> 0 < chunk
      then let e = word_end str (min (start + chunk) (length str))
           in take (e - start) (drop start str) # split_from str chunk e
      else [])"
  by pat_completeness auto
termination
proof (relation "measure (\<lambda>(str, chunk, start). length str - start)")
  fix str chunk start e
  assume a: "start < length (str :: string) \<and> 0 < (chunk :: nat)" and "e = word_end str (min (start + chunk) (length str))"
  then have "start < e" using word_end_ge[of "min (start + chunk) (length str)" str] by linarith
  then show "((str, chunk, e), str, chunk, start) \<in> measure (\<lambda>(str, chunk, start). length str - start)" using a by auto
qed simp

declare split_from.simps [simp del]

definition split_at_words :: "string \<Rightarrow> nat \<Rightarrow> string list" where
  "split_at_words str chunk = split_from str chunk 0"

fun encode_batch :: "(string \<Rightarrow> nat option) \<Rightarrow> string list \<Rightarrow> nat option" where
  "encode_batch enc [] = Some 0"
| "encode_batch enc (c # cs) =
     (case enc c of None \<Rightarrow> None | Some n \<Rightarrow> map_option (\<lambda>m. n + m) (encode_batch enc cs))"

definition encode :: "(string \<Rightarrow> nat option) \<Rightarrow> string \<Rightarrow> nat" where
  "encode enc str =
     (if str = [] then 0
      else let fallback = ratio_tokens (length str) DEFAULT_BYTES_PER_TOKEN
      in if length str \<le> CHUNK_BYTES then (case enc str of None \<Rightarrow> fallback | Some n \<Rightarrow> n)
         else case encode_batch enc (split_at_words str CHUNK_BYTES) of None \<Rightarrow> fallback | Some n \<Rightarrow> n)"

section \<open>Counting\<close>

type_synonym hasher = "string list \<Rightarrow> 64 word"

definition tz_tokenizer :: "tokenizers \<Rightarrow> string \<Rightarrow> model_tokenizer option" where
  "tz_tokenizer tz model = or_else (map_of (tz_models tz) model) (map_of (tz_models tz) ''*'')"

definition tz_method :: "tokenizers \<Rightarrow> string \<Rightarrow> count_method" where
  "tz_method tz model = (if tz_tokenizer tz model \<noteq> None then TokenizerMethod else RatioMethod)"

definition message_key :: "hasher \<Rightarrow> string \<Rightarrow> model_tokenizer \<Rightarrow> string \<Rightarrow> string \<Rightarrow> 64 word" where
  "message_key hash model t role content =
     (if mt_template t \<noteq> None then hash [''text'', model, content] else hash [model, role, content])"

definition uncached_bytes :: "hasher \<Rightarrow> tokenizers \<Rightarrow> string \<Rightarrow> (string \<times> string) list \<Rightarrow> nat" where
  "uncached_bytes hash tz model messages =
     (case tz_tokenizer tz model of
        None \<Rightarrow> 0
      | Some t \<Rightarrow>
          sum_list (map (\<lambda>(r, c). length r + length c)
            (filter (\<lambda>(r, c). cache_get (tz_cache tz) (message_key hash model t r c) = None) messages)))"

definition learned_of :: "tokenizers \<Rightarrow> string \<Rightarrow> learned" where
  "learned_of tz model = (case map_of (tz_learned tz) model of None \<Rightarrow> learned_default | Some l \<Rightarrow> l)"

definition put_learned :: "string \<Rightarrow> learned \<Rightarrow> tokenizers \<Rightarrow> tokenizers" where
  "put_learned model l tz = tz\<lparr>tz_learned := AList.update model l (tz_learned tz)\<rparr>"

definition bytes_per_token :: "tokenizers \<Rightarrow> string \<Rightarrow> real" where
  "bytes_per_token tz model =
     (case Option.bind (map_of (tz_learned tz) model) ln_bytes_per_token of None \<Rightarrow> DEFAULT_BYTES_PER_TOKEN | Some r \<Rightarrow> r)"

definition tally :: "tokenizers \<Rightarrow> string \<Rightarrow> nat \<Rightarrow> nat \<Rightarrow> tokenizers" where
  "tally tz model exact estimated =
     (let l = learned_of tz model
      in put_learned model (l\<lparr>ln_exact_messages := ln_exact_messages l + exact, ln_estimated_messages := ln_estimated_messages l + estimated\<rparr>) tz)"

definition message_tokens :: "model_tokenizer \<Rightarrow> string \<Rightarrow> string \<Rightarrow> nat" where
  "message_tokens t role content =
     (case mt_template t of
        Some _ \<Rightarrow> encode (mt_encode t) content
      | None \<Rightarrow> u64_add (u64_add (mt_overhead t) (encode (mt_encode t) role)) (encode (mt_encode t) content))"

definition put_count :: "64 word \<Rightarrow> nat \<Rightarrow> tokenizers \<Rightarrow> tokenizers" where
  "put_count key n tz = tz\<lparr>tz_cache := cache_insert (tz_cache tz) key n\<rparr>"

definition tz_tokenize :: "tokenizers \<Rightarrow> string \<Rightarrow> model_tokenizer \<Rightarrow> 64 word \<Rightarrow> string \<Rightarrow> string \<Rightarrow> nat \<times> tokenizers" where
  "tz_tokenize tz model t key role content =
     (let content_tokens = encode (mt_encode t) content;
          n = message_tokens t role content;
          tz = put_count key n tz
      in if 256 \<le> length content \<and> 0 < content_tokens
         then let r = real (length content) / real content_tokens; l = learned_of tz model
              in (n, put_learned model (l\<lparr>ln_bytes_per_token := Some (ewma (ln_bytes_per_token l) r)\<rparr>) tz)
         else (n, tz))"

section \<open>Framing (template.rs)\<close>

text \<open>
  The marks are private-use code points, here in UTF-8. The texts of a conversation are
  replaced by numbered marks before it is rendered and the marks removed afterwards.
\<close>

definition OPEN_MARK :: string where "OPEN_MARK = [CHR 0xEE, CHR 0x80, CHR 0x80]"
definition CLOSE_MARK :: string where "CLOSE_MARK = [CHR 0xEE, CHR 0x80, CHR 0x81]"

definition mark :: "nat \<Rightarrow> string" where
  "mark n = OPEN_MARK @ to_string n @ CLOSE_MARK"

fun set_key :: "string \<Rightarrow> json \<Rightarrow> json \<Rightarrow> json" where
  "set_key k v (JObject kvs) = JObject (AList.update k v kvs)"
| "set_key k v j = j"

definition is_image :: "json \<Rightarrow> bool" where
  "is_image p \<longleftrightarrow> Option.bind (json_get ''type'' p) as_str \<in> {Some ''image_url'', Some ''image'', Some ''input_image''}"

fun mark_parts :: "json list \<Rightarrow> nat \<Rightarrow> nat \<Rightarrow> json list \<times> nat \<times> nat" where
  "mark_parts [] n images = ([], n, images)"
| "mark_parts (p # ps) n images =
     (let images = (if is_image p then images + 1 else images);
          (p, n) = (case Option.bind (json_get ''text'' p) as_str of Some _ \<Rightarrow> (set_key ''text'' (JString (mark n)) p, n + 1) | None \<Rightarrow> (p, n));
          (ps, n, images) = mark_parts ps n images
      in (p # ps, n, images))"

fun mark_messages :: "json list \<Rightarrow> nat \<Rightarrow> nat \<Rightarrow> json list \<times> nat \<times> nat" where
  "mark_messages [] n images = ([], n, images)"
| "mark_messages (m # ms) n images =
     (let (m, n, images) =
        (case json_get ''content'' m of
           Some (JString _) \<Rightarrow> (set_key ''content'' (JString (mark n)) m, n + 1, images)
         | Some (JArray parts) \<Rightarrow> (let (ps, n, images) = mark_parts parts n images in (set_key ''content'' (JArray ps) m, n, images))
         | _ \<Rightarrow> (m, n, images));
          (ms, n, images) = mark_messages ms n images
      in (m # ms, n, images))"

fun strip_marks :: "bool \<Rightarrow> string \<Rightarrow> string" where
  "strip_marks inside [] = []"
| "strip_marks inside (c # cs) =
     (if take 3 (c # cs) = OPEN_MARK then strip_marks True (drop 2 cs)
      else if take 3 (c # cs) = CLOSE_MARK then strip_marks False (drop 2 cs)
      else if inside then strip_marks inside cs
      else c # strip_marks inside cs)"

record framing =
  fr_text :: string
  fr_images :: nat

definition tools_given :: "json option \<Rightarrow> json option" where
  "tools_given tools = (case tools of None \<Rightarrow> None
     | Some t \<Rightarrow> (case as_array t of None \<Rightarrow> None | Some a \<Rightarrow> if a = [] then None else Some t))"

definition template_framing :: "(json \<Rightarrow> json option \<Rightarrow> string option) \<Rightarrow> json \<Rightarrow> json option \<Rightarrow> framing option" where
  "template_framing render messages tools =
     (let (marked, images) =
        (case messages of
           JArray ms \<Rightarrow> (let (ms, _, images) = mark_messages ms 0 0 in (JArray ms, images))
         | other \<Rightarrow> (other, 0))
      in map_option (\<lambda>rendered. \<lparr>fr_text = strip_marks False rendered, fr_images = images\<rparr>) (render marked (tools_given tools)))"

section \<open>Counting a request\<close>

text \<open>Image tokens of a message; a panic of the size reader is passed on.\<close>

fun image_sum :: "base64 \<Rightarrow> base64 \<Rightarrow> image_tiling option \<Rightarrow> nat \<Rightarrow> nat \<Rightarrow> json list \<Rightarrow> slice_panic + nat" where
  "image_sum std no_pad tiling flat acc [] = Inr acc"
| "image_sum std no_pad tiling flat acc (p # ps) =
     (case part_tokens std no_pad p tiling flat of
        Inl e \<Rightarrow> Inl e
      | Inr n \<Rightarrow> image_sum std no_pad tiling flat (case n of None \<Rightarrow> acc | Some k \<Rightarrow> u64_add acc k) ps)"

definition content_parts :: "json \<Rightarrow> json list" where
  "content_parts m = (case Option.bind (json_get ''content'' m) as_array of None \<Rightarrow> [] | Some ps \<Rightarrow> ps)"

text \<open>The loop over the messages: the counts of the messages there are, and what was added so far.\<close>

fun add_images :: "base64 \<Rightarrow> base64 \<Rightarrow> model_tokenizer \<Rightarrow> nat \<Rightarrow> json list \<Rightarrow> nat list \<Rightarrow> slice_panic + (nat list \<times> nat)" where
  "add_images std no_pad t added [] per = Inr (per, added)"
| "add_images std no_pad t added (m # ms) per =
     (case image_sum std no_pad (mt_image t) (mt_image_tokens t) 0 (content_parts m) of
        Inl e \<Rightarrow> Inl e
      | Inr images \<Rightarrow>
          (case per of
             [] \<Rightarrow> add_images std no_pad t added ms []
           | n # per \<Rightarrow>
               (case add_images std no_pad t (u64_add added images) ms per of
                  Inl e \<Rightarrow> Inl e
                | Inr (per, added) \<Rightarrow> Inr (u64_add n images # per, added))))"

definition request_messages :: "(string \<times> string) list \<Rightarrow> json option \<Rightarrow> json" where
  "request_messages messages request =
     (case Option.bind request (json_get ''messages'') of
        Some m \<Rightarrow> m
      | None \<Rightarrow> JArray (map (\<lambda>(r, c). JObject [(''role'', JString r), (''content'', JString c)]) messages))"

fun add_overheads :: "model_tokenizer \<Rightarrow> nat \<Rightarrow> (string \<times> string) list \<Rightarrow> nat list \<Rightarrow> nat list \<times> nat" where
  "add_overheads t added ((role, c) # ms) (n # per) =
     (let extra = u64_add (mt_overhead t) (encode (mt_encode t) role);
          (per, added) = add_overheads t (u64_add added extra) ms per
      in (u64_add n extra # per, added))"
| "add_overheads t added _ per = (per, added)"

definition add_first :: "nat \<Rightarrow> nat list \<Rightarrow> nat list" where
  "add_first n per = (case per of [] \<Rightarrow> [] | f # per \<Rightarrow> u64_add f n # per)"

definition framing_tokens :: "hasher \<Rightarrow> string \<Rightarrow> model_tokenizer \<Rightarrow> string \<Rightarrow> tokenizers \<Rightarrow> nat \<times> tokenizers" where
  "framing_tokens hash model t str tz =
     (let key = hash [''framing'', model, str]
      in case cache_get (tz_cache tz) key of
           Some n \<Rightarrow> (n, tz)
         | None \<Rightarrow> (let n = encode (mt_encode t) str in (n, put_count key n tz)))"

definition add_framing ::
  "base64 \<Rightarrow> base64 \<Rightarrow> hasher \<Rightarrow> tokenizers \<Rightarrow> string \<Rightarrow> model_tokenizer \<Rightarrow> (string \<times> string) list \<Rightarrow> json option \<Rightarrow> nat list
   \<Rightarrow> slice_panic + (nat list \<times> nat \<times> tokenizers)" where
  "add_framing std no_pad hash tz model t messages request per =
     (let json = request_messages messages request
      in case add_images std no_pad t 0 (case as_array json of None \<Rightarrow> [] | Some ms \<Rightarrow> ms) per of
           Inl e \<Rightarrow> Inl e
         | Inr (per, added) \<Rightarrow>
             (case mt_template t of
                None \<Rightarrow> Inr (per, added, tz)
              | Some render \<Rightarrow>
                  (case template_framing render json (Option.bind request (json_get ''tools'')) of
                     Some f \<Rightarrow>
                       (let (n, tz) = framing_tokens hash model t (fr_text f) tz in Inr (add_first n per, u64_add added n, tz))
                   | None \<Rightarrow>
                       (let l = learned_of tz model;
                            tz = put_learned model (l\<lparr>ln_template_errors := ln_template_errors l + 1\<rparr>) tz;
                            (per, added) = add_overheads t added messages per
                        in Inr (per, added, tz)))))"

text \<open>The loop of \<open>count_within\<close>: cached, tokenized within the budget, or estimated.\<close>

record count_state =
  cs_left :: nat
  cs_per :: "nat list"
  cs_deferred :: "(string \<times> string) list"
  cs_exact :: nat
  cs_estimated :: nat
  cs_tz :: tokenizers

definition count_message_within :: "hasher \<Rightarrow> string \<Rightarrow> model_tokenizer \<Rightarrow> real \<Rightarrow> count_state \<Rightarrow> string \<times> string \<Rightarrow> count_state" where
  "count_message_within hash model t ratio cs msg =
     (case msg of (role, content) \<Rightarrow>
        let tz = cs_tz cs; key = message_key hash model t role content; bytes = length role + length content
        in case cache_get (tz_cache tz) key of
             Some n \<Rightarrow> cs\<lparr>cs_per := cs_per cs @ [n], cs_exact := cs_exact cs + 1\<rparr>
           | None \<Rightarrow>
               if bytes \<le> cs_left cs
               then let (n, tz) = tz_tokenize tz model t key role content
                    in cs\<lparr>cs_left := cs_left cs - bytes, cs_per := cs_per cs @ [n], cs_exact := cs_exact cs + 1, cs_tz := tz\<rparr>
               else let n = (case mt_template t of
                               Some _ \<Rightarrow> ratio_tokens (length content) ratio
                             | None \<Rightarrow> u64_add (u64_add (mt_overhead t) (ratio_tokens (length role) ratio)) (ratio_tokens (length content) ratio));
                        cs = cs\<lparr>cs_per := cs_per cs @ [n], cs_estimated := cs_estimated cs + 1\<rparr>
                    in if key \<in> set (tz_filling tz) then cs
                       else cs\<lparr>cs_deferred := cs_deferred cs @ [(role, content)], cs_tz := tz\<lparr>tz_filling := key # tz_filling tz\<rparr>\<rparr>)"

definition count_within ::
  "base64 \<Rightarrow> base64 \<Rightarrow> hasher \<Rightarrow> tokenizers \<Rightarrow> string \<Rightarrow> (string \<times> string) list \<Rightarrow> json option \<Rightarrow> nat
   \<Rightarrow> slice_panic + (token_count \<times> tokenizers)" where
  "count_within std no_pad hash tz model messages request budget =
     (let ratio = bytes_per_token tz model
      in case tz_tokenizer tz model of
           None \<Rightarrow>
             (let per = map (\<lambda>(r, c). u64_add (u64_add message_overhead (ratio_tokens (length r) ratio)) (ratio_tokens (length c) ratio)) messages
              in Inr (\<lparr>tc_tokens = u64_sum per, tc_per_message = per, tc_framing = 0, tc_exact = False, tc_deferred = []\<rparr>,
                      tally tz model 0 (length messages)))
         | Some t \<Rightarrow>
             (let cs = foldl (count_message_within hash model t ratio)
                         \<lparr>cs_left = budget, cs_per = [], cs_deferred = [], cs_exact = 0, cs_estimated = 0, cs_tz = tz\<rparr> messages;
                  tz = tally (cs_tz cs) model (cs_exact cs) (cs_estimated cs)
              in case add_framing std no_pad hash tz model t messages request (cs_per cs) of
                   Inl e \<Rightarrow> Inl e
                 | Inr (per, framing, tz) \<Rightarrow>
                     Inr (\<lparr>tc_tokens = u64_sum per, tc_per_message = per, tc_framing = framing,
                           tc_exact = (cs_estimated cs = 0), tc_deferred = cs_deferred cs\<rparr>, tz)))"

definition tz_fill :: "hasher \<Rightarrow> tokenizers \<Rightarrow> string \<Rightarrow> (string \<times> string) list \<Rightarrow> tokenizers" where
  "tz_fill hash tz model messages =
     (case tz_tokenizer tz model of
        None \<Rightarrow> tz
      | Some t \<Rightarrow>
          foldl (\<lambda>tz (role, content).
            let key = message_key hash model t role content;
                tz = (if cache_get (tz_cache tz) key = None then snd (tz_tokenize tz model t key role content) else tz)
            in tz\<lparr>tz_filling := removeAll key (tz_filling tz)\<rparr>) tz messages)"

definition tz_observe :: "tokenizers \<Rightarrow> string \<Rightarrow> nat \<Rightarrow> nat \<Rightarrow> nat \<Rightarrow> nat \<Rightarrow> tokenizers" where
  "tz_observe tz model messages bytes estimate engine =
     (if engine = 0 \<or> estimate = 0 then tz
      else
        let l = learned_of tz model;
            l = l\<lparr>ln_observations := ln_observations l + 1,
                  ln_engine_to_estimate := Some (ewma (ln_engine_to_estimate l) (real engine / real estimate))\<rparr>;
            content = engine - message_overhead * messages;
            l = (if tz_tokenizer tz model = None \<and> 0 < content \<and> 0 < bytes
                 then l\<lparr>ln_bytes_per_token := Some (ewma (ln_bytes_per_token l) (clamp 1 16 (real bytes / real content)))\<rparr>
                 else l)
        in put_learned model l tz)"

end
