(* ===== verification/Chat.thy ===== *)
theory Chat
  imports Gateway Tokenize
begin

text \<open>
  The admission path of the gateway (\<open>pt-gateway/chat.rs\<close>): authenticate, count, estimate, admit,
  forward, stream back and settle. Instants are arguments, one per point where the source reads
  the clock; the engine's answer is an input. The gateway has no affinity configured, or the
  request was forwarded to it: handing a request to another replica (\<open>affinity.rs\<close>) is not modelled.
\<close>

section \<open>State\<close>

record chat_app =
  ap_gw :: gateway_state
  ap_tokens :: tokenizers
  ap_inline_bytes :: nat
  ap_sink :: "usage_record list"
  ap_background :: "(string \<times> (string \<times> string) list) list"

record settlement =
  sm_dep :: gw_deployment
  sm_ticket :: "admit_ticket option"
  sm_cap_ticket :: "admit_ticket option"
  sm_request_id :: string
  sm_session_id :: "string option"
  sm_received_at :: instant
  sm_received_at_ms :: nat
  sm_input_tokens :: nat
  sm_prompt_bytes :: nat
  sm_message_count :: nat
  sm_prefix_keys :: "nat list"
  sm_matched_tokens :: nat
  sm_wu_est :: real
  sm_in_shape :: bool
  sm_class :: "traffic_class option"
  sm_queued_for :: duration
  sm_obs :: observations
  sm_outcome :: outcome
  sm_engine_accepted :: bool
  sm_streamed :: bool

section \<open>Settlement\<close>

definition duration_ms :: "duration \<Rightarrow> real" where
  "duration_ms d = as_secs_f64 d * 1000"

definition settle_emit :: "settlement \<Rightarrow> chat_app \<Rightarrow> real \<Rightarrow> real \<Rightarrow> token_breakdown \<Rightarrow> instant \<Rightarrow> chat_app" where
  "settle_emit s app wu_actual kv tokens now =
     (let ttft = map_option (\<lambda>f. f - sm_received_at s) (ob_first_content_at (sm_obs s));
          tpot = (case (sm_streamed s, ob_first_content_at (sm_obs s), ob_last_content_at (sm_obs s)) of
                    (True, Some f, Some l) \<Rightarrow> if 1 < tb_decode tokens then Some (duration_ms (l - f) / real (tb_decode tokens - 1)) else None
                  | _ \<Rightarrow> None);
          res = gd_reservation (sm_dep s)
      in app\<lparr>ap_sink := ap_sink app @
           [\<lparr>ur_request_id = sm_request_id s, ur_received_at_ms = sm_received_at_ms s, ur_tenant = gr_tenant res,
             ur_reservation = gr_id res, ur_deployment = gd_id (sm_dep s), ur_class = sm_class s, ur_session_id = sm_session_id s,
             ur_tokens = tokens, ur_kv_token_seconds = kv, ur_wu_estimated = sm_wu_est s, ur_wu_actual = wu_actual,
             ur_timings = \<lparr>queue_ms = duration_ms (sm_queued_for s), ttft_ms = map_option duration_ms ttft,
               total_ms = duration_ms (now - sm_received_at s), tpot_ms = tpot\<rparr>,
             ur_in_shape = sm_in_shape s, ur_outcome = sm_outcome s, ur_profile = prof_name (gr_profile res)\<rparr>]\<rparr>)"

definition charged_tokens :: "settlement \<Rightarrow> token_breakdown" where
  "charged_tokens s =
     (case ob_usage (sm_obs s) of
        Some u \<Rightarrow> \<lparr>tb_uncached_prefill = eu_prompt_tokens u - eu_cached_tokens u, tb_cached_prefill = eu_cached_tokens u,
                   tb_decode = eu_completion_tokens u\<rparr>
      | None \<Rightarrow>
          if sm_engine_accepted s
          then \<lparr>tb_uncached_prefill = sm_input_tokens s, tb_cached_prefill = 0, tb_decode = ob_content_chunks (sm_obs s)\<rparr>
          else \<lparr>tb_uncached_prefill = 0, tb_cached_prefill = 0, tb_decode = 0\<rparr>)"

definition charged_kv :: "settlement \<Rightarrow> real" where
  "charged_kv s =
     (let t = charged_tokens s; prompt = tb_uncached_prefill t + tb_cached_prefill t
      in case (sm_streamed s, ob_first_content_at (sm_obs s), ob_last_content_at (sm_obs s)) of
           (True, Some first, Some last') \<Rightarrow> measured_kv_token_seconds prompt (tb_decode t) (as_secs_f64 (last' - first))
         | _ \<Rightarrow> estimate_kv_token_seconds prompt (tb_decode t) (tpot_target_s (gr_tier (gd_reservation (sm_dep s)))))"

definition charged_wu :: "settlement \<Rightarrow> real" where
  "charged_wu s =
     (let t = charged_tokens s
      in work_units (gr_profile (gd_reservation (sm_dep s)))
           (work_breakdown_new (tb_uncached_prefill t) (tb_cached_prefill t) (tb_decode t) (charged_kv s)))"

definition learn_prefix :: "settlement \<Rightarrow> instant \<Rightarrow> gateway_state \<Rightarrow> gateway_state" where
  "learn_prefix s now gw =
     (case gw_prefix_cache gw of
        None \<Rightarrow> gw
      | Some index \<Rightarrow>
          if \<not> sm_engine_accepted s then gw
          else let index = (case ob_usage (sm_obs s) of
                              Some u \<Rightarrow> prefix_observe index (gr_model (gd_reservation (sm_dep s))) (sm_matched_tokens s) (eu_cached_tokens u)
                            | None \<Rightarrow> index)
               in gw\<lparr>gw_prefix_cache := Some (prefix_record index (sm_prefix_keys s) now)\<rparr>)"

definition settle_limiter :: "nat \<Rightarrow> admit_ticket \<Rightarrow> real \<Rightarrow> instant \<Rightarrow> gateway_state \<Rightarrow> gateway_state" where
  "settle_limiter a ticket wu now gw = put_limiter a (limiter_settle (limiter_at gw a) ticket wu now) gw"

definition settle_cap :: "settlement \<Rightarrow> real \<Rightarrow> instant \<Rightarrow> gateway_state \<Rightarrow> gateway_state" where
  "settle_cap s wu now gw =
     (case (gd_cap (sm_dep s), sm_cap_ticket s) of (Some cap, Some t) \<Rightarrow> settle_limiter cap t wu now gw | _ \<Rightarrow> gw)"

definition record_output :: "settlement \<Rightarrow> gateway_state \<Rightarrow> gateway_state" where
  "record_output s gw =
     (if sm_outcome s = Ok
      then let e = gd_estimator (sm_dep s)
           in gw\<lparr>gw_estimators := (gw_estimators gw)[e := estimator_record (gw_estimators gw ! e) (tb_decode (charged_tokens s))]\<rparr>
      else gw)"

definition settlement_finish :: "settlement \<Rightarrow> chat_app \<Rightarrow> instant \<Rightarrow> chat_app \<times> settlement" where
  "settlement_finish s app now =
     (case sm_ticket s of
        None \<Rightarrow> (app\<lparr>ap_gw := settle_cap s 0 now (ap_gw app)\<rparr>, s\<lparr>sm_cap_ticket := None\<rparr>)
      | Some ticket \<Rightarrow>
          let res = gd_reservation (sm_dep s); wu = charged_wu s;
              tokens = (case ob_usage (sm_obs s) of
                          Some u \<Rightarrow> tz_observe (ap_tokens app) (gr_model res) (sm_message_count s) (sm_prompt_bytes s) (sm_input_tokens s) (eu_prompt_tokens u)
                        | None \<Rightarrow> ap_tokens app);
              gw = learn_prefix s now (ap_gw app);
              gw = settle_limiter (gr_limiter res) ticket wu now gw;
              gw = settle_cap s wu now gw;
              gw = record_output s gw
          in (settle_emit s (app\<lparr>ap_gw := gw, ap_tokens := tokens\<rparr>) wu (charged_kv s) (charged_tokens s) now,
              s\<lparr>sm_ticket := None, sm_cap_ticket := None\<rparr>))"

section \<open>Requests\<close>

definition ascii_lower :: "char \<Rightarrow> char" where
  "ascii_lower c = (let n = of_char c :: nat in if 65 \<le> n \<and> n \<le> 90 then char_of (n + 32) else c)"

definition bearer_token :: "(string \<Rightarrow> string option) \<Rightarrow> string option" where
  "bearer_token headers = map_option trim (Option.bind (headers ''authorization'') (strip_prefix ''Bearer ''))"

definition message_text :: "json \<Rightarrow> string option" where
  "message_text m =
     (case json_get ''content'' m of
        None \<Rightarrow> Some []
      | Some JNull \<Rightarrow> Some []
      | Some (JString s) \<Rightarrow> Some s
      | Some (JArray parts) \<Rightarrow> Some (join_lines (List.map_filter (\<lambda>p. Option.bind (json_get ''text'' p) as_str) parts))
      | Some _ \<Rightarrow> None)"

fun parse_all :: "json list \<Rightarrow> (string \<times> string) list option" where
  "parse_all [] = Some []"
| "parse_all (m # ms) =
     (case (Option.bind (json_get ''role'' m) as_str, message_text m) of
        (Some role, Some str) \<Rightarrow> map_option (\<lambda>rest. (role, str) # rest) (parse_all ms)
      | _ \<Rightarrow> None)"

definition parse_messages :: "json \<Rightarrow> (string \<times> string) list option" where
  "parse_messages req =
     (case Option.bind (json_get ''messages'' req) as_array of
        None \<Rightarrow> None | Some ms \<Rightarrow> if ms = [] then None else parse_all ms)"

text \<open>
  What the client gets. The last three are no response: the handler panicked, or its future was
  dropped because the client went away, in the queue or after the request was forwarded.
\<close>

datatype chat_response =
    ChatError nat string
  | RejectResponse reject_reason nat nat
  | EngineStatus nat string
  | FullBody string
  | StreamBody "string list"
  | ServerPanic
  | DroppedInQueue
  | DroppedForwarded

definition reject_response :: "settlement \<Rightarrow> chat_app \<Rightarrow> reject_reason \<Rightarrow> duration \<Rightarrow> instant \<Rightarrow> chat_response \<times> chat_app" where
  "reject_response s app reason retry_after now =
     (let a = gr_limiter (gd_reservation (sm_dep s));
          (st, l) = limiter_status (limiter_at (ap_gw app) a) now;
          remaining = max (ls_level_wu st) 0;
          retry_secs = f64_as_u64 (max (of_int \<lceil>as_secs_f64 retry_after\<rceil>) 1)
      in (RejectResponse reason retry_secs (f64_as_u64 (of_int \<lfloor>remaining\<rfloor>)), app\<lparr>ap_gw := put_limiter a l (ap_gw app)\<rparr>))"

section \<open>Admission\<close>

datatype admission = Admitted settlement | RejectedBy reject_reason duration settlement | AdmissionPanic settlement | Abandoned settlement

definition no_tokens :: token_breakdown where
  "no_tokens = \<lparr>tb_uncached_prefill = 0, tb_cached_prefill = 0, tb_decode = 0\<rparr>"

text \<open>The cap of a deployment: nothing but an admission lets the request through.\<close>

definition admit_cap :: "settlement \<Rightarrow> chat_app \<Rightarrow> admit_request \<Rightarrow> instant \<Rightarrow> (admission + settlement) \<times> chat_app" where
  "admit_cap s app req now =
     (case gd_cap (sm_dep s) of
        None \<Rightarrow> (Inr s, app)
      | Some cap \<Rightarrow>
          let (d, l) = admit (limiter_at (ap_gw app) cap) req None now;
              app = app\<lparr>ap_gw := put_limiter cap l (ap_gw app)\<rparr>
          in case d of
               Inl _ \<Rightarrow> (Inl (AdmissionPanic s), app)
             | Inr (Admit t) \<Rightarrow> (Inr (s\<lparr>sm_cap_ticket := Some t\<rparr>), app)
             | Inr (Reject _ retry_after) \<Rightarrow> (Inl (RejectedBy DeploymentCapExhausted retry_after s), app)
             | Inr (Queue slot) \<Rightarrow>
                 (Inl (RejectedBy DeploymentCapExhausted (from_secs 1) s),
                  app\<lparr>ap_gw := put_limiter cap (drop_slot l slot) (ap_gw app)\<rparr>))"

text \<open>
  The loop of the reservation's limiter. The instants are those of its attempts. When they run out
  the client went away while the handler slept: its future is dropped, and the slot with it.
\<close>

definition leave_queue :: "nat \<Rightarrow> queue_slot option \<Rightarrow> chat_app \<Rightarrow> chat_app" where
  "leave_queue a slot app =
     (case slot of
        None \<Rightarrow> app
      | Some sl \<Rightarrow> app\<lparr>ap_gw := put_limiter a (drop_slot (limiter_at (ap_gw app) a) sl) (ap_gw app)\<rparr>)"

fun admit_loop :: "settlement \<Rightarrow> chat_app \<Rightarrow> admit_request \<Rightarrow> queue_slot option \<Rightarrow> instant list \<Rightarrow> admission \<times> chat_app" where
  "admit_loop s app req slot [] = (Abandoned s, leave_queue (gr_limiter (gd_reservation (sm_dep s))) slot app)"
| "admit_loop s app req slot (now # ticks) =
     (let a = gr_limiter (gd_reservation (sm_dep s));
          (d, l) = admit (limiter_at (ap_gw app) a) req slot now;
          app = app\<lparr>ap_gw := put_limiter a l (ap_gw app)\<rparr>
      in case d of
           Inl _ \<Rightarrow> (AdmissionPanic s, app)
         | Inr (Admit t) \<Rightarrow>
             (Admitted (s\<lparr>sm_class := Some (tk_class t), sm_queued_for := tk_queued_for t, sm_ticket := Some t\<rparr>), app)
         | Inr (Queue sl) \<Rightarrow> admit_loop s app req (Some sl) ticks
         | Inr (Reject reason retry_after) \<Rightarrow> (RejectedBy reason retry_after s, app))"

definition admit_all :: "settlement \<Rightarrow> chat_app \<Rightarrow> admit_request \<Rightarrow> instant \<Rightarrow> instant list \<Rightarrow> admission \<times> chat_app" where
  "admit_all s app req cap_now ticks =
     (case admit_cap s app req cap_now of
        (Inl a, app) \<Rightarrow> (a, app)
      | (Inr s, app) \<Rightarrow> admit_loop s app req None ticks)"

section \<open>Forwarding\<close>

datatype engine_pool = MainEngine | PaygEngine

record upstream_request =
  up_base :: engine_pool
  up_tenant :: string
  up_reservation :: string
  up_class :: traffic_class
  up_wu_estimate :: real
  up_prompt_tokens :: nat
  up_weight :: real
  up_session_id :: "string option"
  up_failover :: bool
  up_body :: json

definition upstream_of :: "settlement \<Rightarrow> chat_app \<Rightarrow> json \<Rightarrow> traffic_class \<Rightarrow> nat \<Rightarrow> upstream_request" where
  "upstream_of s app req cls now_ms =
     (let res = gd_reservation (sm_dep s);
          stream = (Option.bind (json_get ''stream'' req) as_bool = Some True)
      in \<lparr>up_base = (case cls of Spillover \<Rightarrow> PaygEngine | Payg \<Rightarrow> PaygEngine | Provisioned \<Rightarrow> MainEngine | Burst \<Rightarrow> MainEngine),
          up_tenant = gr_tenant res, up_reservation = gr_id res, up_class = cls, up_wu_estimate = sm_wu_est s,
          up_prompt_tokens = sm_input_tokens s, up_weight = limiter_rate (ap_gw app) (gr_limiter res),
          up_session_id = sm_session_id s, up_failover = (cls = Provisioned \<and> 0 < gw_failover_cus res now_ms),
          up_body = (if stream then set_key ''stream_options'' (JObject [(''include_usage'', JBool True)]) req else req)\<rparr>)"

text \<open>
  What becomes of the forwarded request: the engine cannot be reached, refuses, answers with a body (or
  breaks off), or streams; or the client goes away while the gateway waits for the engine's answer, or, once
  it was accepted, for the rest of the body. A stream ends by itself, breaks, or the client goes away; the
  instants are those at which the gateway sees the item.
\<close>

datatype stream_item = Chunk string instant | Broken string instant | EndOfStream instant | ClientGone instant

datatype engine_answer =
    Unreachable string instant
  | Refused nat string instant
  | Body string instant
  | BodyBroken string instant
  | Streaming "stream_item list" instant
  | ClientLeft bool instant

fun stream_run ::
  "(string \<Rightarrow> json option) \<Rightarrow> sse_inspector \<Rightarrow> settlement \<Rightarrow> chat_app \<Rightarrow> stream_item list \<Rightarrow> instant \<Rightarrow> string list \<times> chat_app \<times> settlement" where
  "stream_run parse si s app [] dropped = (let (app, s) = settlement_finish s app dropped in ([], app, s))"
| "stream_run parse si s app (Chunk bytes now # items) dropped =
     (let (out, si, obs) = sse_push parse si bytes (sm_obs s) now;
          (outs, app, s) = stream_run parse si (s\<lparr>sm_obs := obs\<rparr>) app items dropped
      in (if out = [] then outs else out # outs, app, s))"
| "stream_run parse si s app (Broken e now # items) dropped =
     (let (app, s) = settlement_finish (s\<lparr>sm_outcome := OutcomeError e\<rparr>) app now;
          (app, s) = settlement_finish s app dropped
      in ([], app, s))"
| "stream_run parse si s app (EndOfStream now # items) dropped =
     (let (rest, si) = sse_finish si;
          (app, s) = settlement_finish (s\<lparr>sm_outcome := Ok\<rparr>) app dropped
      in (if rest = [] then [] else [rest], app, s))"
| "stream_run parse si s app (ClientGone now # items) dropped =
     (let (app, s) = settlement_finish s app now in ([], app, s))"

definition serve_answer ::
  "(string \<Rightarrow> json option) \<Rightarrow> json \<Rightarrow> settlement \<Rightarrow> chat_app \<Rightarrow> engine_answer \<Rightarrow> chat_response \<times> chat_app \<times> settlement" where
  "serve_answer parse req s app answer =
     (case answer of
        Unreachable e now \<Rightarrow>
          (let (app, s) = settlement_finish (s\<lparr>sm_outcome := OutcomeError e\<rparr>) app now in (ChatError 502 ''engine_unavailable'', app, s))
      | Refused status e now \<Rightarrow>
          (let (app, s) = settlement_finish (s\<lparr>sm_outcome := OutcomeError e\<rparr>) app now in (EngineStatus status e, app, s))
      | Body body now \<Rightarrow>
          (let obs = (sm_obs s)\<lparr>ob_usage := Option.bind (parse body) engine_usage_from_json,
                                ob_first_content_at := Some now, ob_last_content_at := Some now\<rparr>;
               (app, s) = settlement_finish (s\<lparr>sm_engine_accepted := True, sm_obs := obs, sm_outcome := Ok\<rparr>) app now
           in (FullBody body, app, s))
      | BodyBroken e now \<Rightarrow>
          (let (app, s) = settlement_finish (s\<lparr>sm_engine_accepted := True, sm_outcome := OutcomeError e\<rparr>) app now
           in (ChatError 502 ''engine_error'', app, s))
      | Streaming items dropped \<Rightarrow>
          (let wants = (Option.bind (json_pointer [''stream_options'', ''include_usage''] req) as_bool = Some True);
               (outs, app, s) = stream_run parse (sse_new (\<not> wants)) (s\<lparr>sm_engine_accepted := True, sm_streamed := True\<rparr>) app items dropped
           in (StreamBody outs, app, s))
      | ClientLeft accepted now \<Rightarrow>
          (let (app, s) = settlement_finish (s\<lparr>sm_engine_accepted := accepted\<rparr>) app now in (DroppedForwarded, app, s)))"

section \<open>The handler\<close>

text \<open>Counting: inline when everything is cached, else on the blocking pool, where a panic is an error.\<close>

definition count_request ::
  "base64 \<Rightarrow> base64 \<Rightarrow> hasher \<Rightarrow> chat_app \<Rightarrow> string \<Rightarrow> (string \<times> string) list \<Rightarrow> json \<Rightarrow> (chat_response + token_count) \<times> chat_app" where
  "count_request std no_pad hash app model messages req =
     (let or_null = (\<lambda>k. case json_get k req of None \<Rightarrow> JNull | Some v \<Rightarrow> v);
          inline = (uncached_bytes hash (ap_tokens app) model messages = 0);
          request = (if inline then req else JObject [(''messages'', or_null ''messages''), (''tools'', or_null ''tools'')])
      in case count_within std no_pad hash (ap_tokens app) model messages (Some request) (ap_inline_bytes app) of
           Inl _ \<Rightarrow> (Inl (if inline then ServerPanic else ChatError 500 ''internal_error''), app)
         | Inr (c, tz) \<Rightarrow>
             (Inr c, app\<lparr>ap_tokens := tz,
                         ap_background := (if tc_deferred c = [] then ap_background app else ap_background app @ [(model, tc_deferred c)])\<rparr>))"

definition run_background :: "hasher \<Rightarrow> chat_app \<Rightarrow> chat_app" where
  "run_background hash app =
     (case ap_background app of
        [] \<Rightarrow> app
      | (model, deferred) # rest \<Rightarrow> app\<lparr>ap_tokens := tz_fill hash (ap_tokens app) model deferred, ap_background := rest\<rparr>)"

record chat_clock =
  ck_received_at :: instant
  ck_received_at_ms :: nat
  ck_predict :: instant
  ck_cap :: instant
  ck_admit :: "instant list"
  ck_reject :: instant
  ck_drop :: instant
  ck_forward_ms :: nat

definition new_settlement ::
  "chat_app \<Rightarrow> gw_deployment \<Rightarrow> json \<Rightarrow> (string \<Rightarrow> string option) \<Rightarrow> (string \<times> string) list \<Rightarrow> token_count \<Rightarrow> nat list \<Rightarrow> string \<Rightarrow> chat_clock \<Rightarrow> settlement" where
  "new_settlement app dep req headers messages cnt keys request_id ck =
     (let res = gd_reservation dep; input_tokens = tc_tokens cnt;
          prediction = (case gw_prefix_cache (ap_gw app) of
                          Some c \<Rightarrow> predict c (gr_model res) keys (tc_per_message cnt) (ck_predict ck)
                        | None \<Rightarrow> \<lparr>pd_matched_tokens = 0, pd_expected_cached = 0\<rparr>);
          cached_est = min (pd_expected_cached prediction) input_tokens;
          max_tokens = Option.bind (or_else (json_get ''max_completion_tokens'' req) (json_get ''max_tokens'' req)) as_u64;
          decode_est = estimate (gw_estimators (ap_gw app) ! gd_estimator dep) max_tokens;
          kv_est = estimate_kv_token_seconds input_tokens decode_est (tpot_target_s (gr_tier res))
      in \<lparr>sm_dep = dep, sm_ticket = None, sm_cap_ticket = None, sm_request_id = request_id, sm_session_id = headers ''x-pt-session-id'',
          sm_received_at = ck_received_at ck, sm_received_at_ms = ck_received_at_ms ck, sm_input_tokens = input_tokens,
          sm_prompt_bytes = sum_list (map (\<lambda>(r, c). length r + length c) messages), sm_message_count = length messages,
          sm_prefix_keys = keys, sm_matched_tokens = pd_matched_tokens prediction,
          sm_wu_est = work_units (gr_profile res) (work_breakdown_new (input_tokens - cached_est) cached_est decode_est kv_est),
          sm_in_shape = is_in_shape (gr_shape res) input_tokens (case max_tokens of None \<Rightarrow> decode_est | Some n \<Rightarrow> n),
          sm_class = None, sm_queued_for = 0, sm_obs = observations_default, sm_outcome = ClientCancelled,
          sm_engine_accepted = False, sm_streamed = False\<rparr>)"

text \<open>
  From the admission to the end: rejections are recorded at once, and dropping settles the rest. A
  handler dropped in the queue has no ticket yet, so settling it refunds the cap and records nothing.
\<close>

definition run_request ::
  "(string \<Rightarrow> json option) \<Rightarrow> json \<Rightarrow> bool \<Rightarrow> settlement \<Rightarrow> chat_app \<Rightarrow> (upstream_request \<Rightarrow> engine_answer) \<Rightarrow> chat_clock
   \<Rightarrow> chat_response \<times> chat_app \<times> settlement" where
  "run_request parse req cont s app engine ck =
     (case admit_all s app \<lparr>estimated_wu = sm_wu_est s, continuation = cont, received_at = ck_received_at ck\<rparr> (ck_cap ck) (ck_admit ck) of
        (Admitted s, app) \<Rightarrow>
          (let cls = (case sm_class s of Some c \<Rightarrow> c | None \<Rightarrow> Provisioned);
               (resp, app, s) = serve_answer parse req s app (engine (upstream_of s app req cls (ck_forward_ms ck)))
           in (resp, app, s))
      | (RejectedBy reason retry_after s, app) \<Rightarrow>
          (let s = s\<lparr>sm_outcome := Rejected reason\<rparr>;
               app = settle_emit s app 0 0 no_tokens (ck_reject ck);
               (resp, app) = reject_response s app reason retry_after (ck_reject ck);
               (app, s) = settlement_finish s app (ck_drop ck)
           in (resp, app, s))
      | (AdmissionPanic s, app) \<Rightarrow> (let (app, s) = settlement_finish s app (ck_drop ck) in (ServerPanic, app, s))
      | (Abandoned s, app) \<Rightarrow> (let (app, s) = settlement_finish s app (ck_drop ck) in (DroppedInQueue, app, s)))"

definition chat_completions ::
  "(string \<Rightarrow> json option) \<Rightarrow> base64 \<Rightarrow> base64 \<Rightarrow> hasher \<Rightarrow> (string \<Rightarrow> (string \<times> string) list \<Rightarrow> nat) \<Rightarrow> (string \<Rightarrow> string)
   \<Rightarrow> chat_app \<Rightarrow> (string \<Rightarrow> string option) \<Rightarrow> string \<Rightarrow> string \<Rightarrow> (upstream_request \<Rightarrow> engine_answer) \<Rightarrow> chat_clock
   \<Rightarrow> chat_response \<times> chat_app" where
  "chat_completions parse std no_pad hash prefix_hash sha256 app headers body request_id engine ck =
     (case Option.bind (bearer_token headers) (deployment_for_key (ap_gw app) sha256 (ck_received_at_ms ck)) of
        None \<Rightarrow> (ChatError 401 ''invalid_api_key'', app)
      | Some dep \<Rightarrow>
          (case parse body of
             Some (JObject kvs) \<Rightarrow>
               (let req = JObject kvs; res = gd_reservation dep
                in if (case Option.bind (json_get ''model'' req) as_str of None \<Rightarrow> False | Some m \<Rightarrow> m \<noteq> gr_model res)
                   then (ChatError 400 ''model_not_found'', app)
                   else case parse_messages req of
                     None \<Rightarrow> (ChatError 400 ''invalid_request_error'', app)
                   | Some messages \<Rightarrow>
                       (let keys = (if gw_prefix_cache (ap_gw app) = None then [] else prefix_keys prefix_hash (gr_id res) messages)
                        in case count_request std no_pad hash app (gr_model res) messages req of
                             (Inl resp, app) \<Rightarrow> (resp, app)
                           | (Inr cnt, app) \<Rightarrow>
                               (let s = new_settlement app dep req headers messages cnt keys request_id ck;
                                    cont = (case headers ''x-pt-priority'' of None \<Rightarrow> False | Some p \<Rightarrow> map ascii_lower p = ''continuation'');
                                    (resp, app, s) = run_request parse req cont s app engine ck
                                in (resp, app))))
           | _ \<Rightarrow> (ChatError 400 ''invalid_request_error'', app)))"

end
