(* ===== verification/Gateway_Claims.thy ===== *)
theory Gateway_Claims
  imports Gateway
begin

text \<open>
  What a gateway enforces: its local rate never exceeds the entitlement and follows the lease,
  limiters follow the rate within the tolerance, and a snapshot is served exactly: its
  reservations, its keys and no others, with the limiters of the view before.
\<close>

section \<open>Rates\<close>

definition leases_ok :: "quota_shares \<Rightarrow> bool" where
  "leases_ok q \<longleftrightarrow> 1 \<le> gq_assumed_gateways q \<and> (\<forall>rid l. map_of (gq_leases q) rid = Some l \<longrightarrow> 0 \<le> lt_rate l)"

lemma record_leases_ok:
  assumes "\<forall>rid l. map_of leases rid = Some l \<longrightarrow> 0 \<le> lt_rate l"
  shows "\<forall>rid l. map_of (foldl (record_lease e) leases ls) rid = Some l \<longrightarrow> 0 \<le> lt_rate l"
  using assms
proof (induction ls arbitrary: leases)
  case (Cons x ls)
  have "\<forall>rid l. map_of (record_lease e leases x) rid = Some l \<longrightarrow> 0 \<le> lt_rate l"
    using Cons.prems by (auto simp: record_lease_def update_conv split: if_splits)
  then show ?case using Cons.IH by simp
qed simp

lemma share_le: "1 \<le> n \<Longrightarrow> 0 \<le> e \<Longrightarrow> e / n \<le> (e :: real)"
proof -
  assume "1 \<le> n" "0 \<le> e"
  then have "e * 1 \<le> e * n" by (intro mult_left_mono)
  then show "e / n \<le> e" using \<open>1 \<le> n\<close> by (simp add: divide_le_eq)
qed

lemma quota_rate_bounds:
  assumes "leases_ok q" and "0 \<le> e"
  shows "0 \<le> fst (quota_rate q rid e now)" "fst (quota_rate q rid e now) \<le> e"
proof -
  have "1 \<le> real (gq_assumed_gateways q)" using assms(1) by (simp add: leases_ok_def)
  then have share: "0 \<le> e / real (gq_assumed_gateways q)" "e / real (gq_assumed_gateways q) \<le> e"
    using assms(2) share_le[of "real (gq_assumed_gateways q)" e] by simp_all
  have clamped: "0 \<le> clamp 0 e x" "clamp 0 e x \<le> e" for x using clamp_bounds[OF assms(2), of x] by simp_all
  show "0 \<le> fst (quota_rate q rid e now)" "fst (quota_rate q rid e now) \<le> e"
    using assms by (auto simp: quota_rate_def leases_ok_def Let_def share clamped split: option.split)
qed

lemma clamp_id: "lo \<le> x \<Longrightarrow> x \<le> hi \<Longrightarrow> clamp lo hi x = (x :: real)"
  by (auto simp: clamp_def)

text \<open>How the fallback moves: at the last lease when it expires, at half the equal share after the decay.\<close>

lemma fallback_ends:
  assumes "map_of (gq_leases q) rid = Some l" and "lt_expires_at l + gq_decay q \<le> now" and "0 \<le> e"
  shows "quota_rate q rid e now = (e / 2 / real (max (lt_gateways l) 1), Fallback)"
proof -
  have t: "(if gq_decay q = 0 then 1 else min (as_secs_f64 (now - lt_expires_at l) / as_secs_f64 (gq_decay q)) 1) = (1 :: real)"
    using assms(2) by (auto simp: as_secs_f64_def min_def divide_simps)
  have "e / 2 / real (max (lt_gateways l) 1) \<le> e / 2" using assms(3) by (intro share_le) auto
  moreover have "0 \<le> e / 2 / real (max (lt_gateways l) 1)" using assms(3) by (intro divide_nonneg_nonneg) auto
  ultimately have "clamp 0 e (e / 2 / real (max (lt_gateways l) 1)) = e / 2 / real (max (lt_gateways l) 1)"
    using assms(3) by (intro clamp_id) linarith+
  then have "clamp 0 e (1/2 * e / real (max (lt_gateways l) 1)) = e / 2 / real (max (lt_gateways l) 1)" by simp
  then show ?thesis using assms(1,2) t unfolding quota_rate_def Let_def by (auto simp del: max_def min_def)
qed

text \<open>
  C38. The local rate respects the entitlement and the lease. With leases that are not negative,
  which is how responses are recorded, the rate is between zero and the entitlement; a live
  lease bounds it; without a lease it is an equal share of the assumed gateways; and after the
  decay of an expired lease it is half an equal share of the gateways last seen.
\<close>

theorem local_rate_within_entitlement:
  assumes "gw_quota gw = Some q" and "leases_ok q" and "0 \<le> e"
  shows "0 \<le> fst (local_rate gw rid e now) \<and> fst (local_rate gw rid e now) \<le> e
    \<and> (case map_of (gq_leases q) rid of
         None \<Rightarrow> local_rate gw rid e now = (e / real (gq_assumed_gateways q), Unleased)
       | Some l \<Rightarrow> (now < lt_expires_at l \<longrightarrow> local_rate gw rid e now = (min (lt_rate l) e, Leased))
           \<and> (lt_expires_at l + gq_decay q \<le> now \<longrightarrow> local_rate gw rid e now = (e / 2 / real (max (lt_gateways l) 1), Fallback)))
    \<and> (\<exists>q'. gw_quota (apply_leases gw resp received now_ms) = Some q' \<and> leases_ok q')"
proof -
  have rate: "local_rate gw rid e now = quota_rate q rid e now" by (simp add: local_rate_def assms(1))
  have kept: "gw_quota (refresh_local_rates g t ms) = gw_quota g" for g t ms
  proof -
    have "gw_quota (refresh_cap t g d) = gw_quota g" for g d
      by (auto simp: refresh_cap_def put_limiter_def split: option.splits)
    then have "gw_quota (foldl (refresh_cap t) g ds) = gw_quota g" for g ds by (induction ds arbitrary: g) simp_all
    moreover have "gw_quota (refresh_reservation t ms g r) = gw_quota g" for g r
      by (simp add: refresh_reservation_def put_limiter_def Let_def)
    then have "gw_quota (foldl (refresh_reservation t ms) g rs) = gw_quota g" for g rs by (induction rs arbitrary: g) simp_all
    ultimately show ?thesis by (simp add: refresh_local_rates_def refresh_caps_def)
  qed
  have leased: "map_of (gq_leases q) rid = Some l \<Longrightarrow> now < lt_expires_at l \<Longrightarrow> quota_rate q rid e now = (min (lt_rate l) e, Leased)" for l
    by (simp add: quota_rate_def)
  have unleased: "map_of (gq_leases q) rid = None \<Longrightarrow> quota_rate q rid e now = (e / real (gq_assumed_gateways q), Unleased)"
    by (simp add: quota_rate_def)
  have "\<exists>q'. gw_quota (apply_leases gw resp received now_ms) = Some q' \<and> leases_ok q'"
    using assms(1,2) record_leases_ok[of "gq_leases q"] by (simp add: apply_leases_def Let_def kept leases_ok_def)
  then show ?thesis
    using quota_rate_bounds[OF assms(2,3)] leased unleased fallback_ends[OF _ _ assms(3)]
    unfolding rate by (auto split: option.split)
qed

section \<open>Limiters follow the rate\<close>

lemma reconfigure_rate: "lm_config (reconfigure st config policy now) = config"
  by (auto simp: reconfigure_def Let_def case_prod_unfold)

definition near :: "real \<Rightarrow> real \<Rightarrow> bool" where
  "near target current \<longleftrightarrow> \<not> worth_resizing target current"

lemma near_refl: "near x x"
  by (simp add: near_def worth_resizing_def)

text \<open>
  The limiter of a reservation (left) or of a deployment's cap (right). In a separate view no two
  of them share a limiter, and every address is in the store.
\<close>

definition address :: "(string \<times> gw_reservation) list \<Rightarrow> (string \<times> gw_deployment) list \<Rightarrow> string + string \<Rightarrow> nat option" where
  "address rs ds owner =
     (case owner of Inl rid \<Rightarrow> map_option gr_limiter (map_of rs rid) | Inr did \<Rightarrow> Option.bind (map_of ds did) gd_cap)"

definition separate :: "gateway_state \<Rightarrow> bool" where
  "separate gw \<longleftrightarrow>
     (let rs = en_reservations (gw_current gw); ds = en_by_deployment (gw_current gw)
      in distinct (map fst rs) \<and> distinct (map fst ds)
         \<and> (\<forall>u a. address rs ds u = Some a \<longrightarrow> a < length (gw_limiters gw))
         \<and> (\<forall>u v a. address rs ds u = Some a \<longrightarrow> address rs ds v = Some a \<longrightarrow> u = v))"

lemma separate_views:
  assumes "separate gw"
  defines "rs \<equiv> en_reservations (gw_current gw)" and "ds \<equiv> en_by_deployment (gw_current gw)"
  shows "distinct (map gr_limiter (map snd rs))" "\<forall>r\<in>set (map snd rs). gr_limiter r < length (gw_limiters gw)"
    "r \<in> set (map snd rs) \<Longrightarrow> d \<in> set (map snd ds) \<Longrightarrow> gd_cap d \<noteq> Some (gr_limiter r)"
proof -
  have sep: "distinct (map fst rs)" "distinct (map fst ds)"
    "\<And>u a. address rs ds u = Some a \<Longrightarrow> a < length (gw_limiters gw)"
    "\<And>u v a. address rs ds u = Some a \<Longrightarrow> address rs ds v = Some a \<Longrightarrow> u = v"
    using assms(1) unfolding separate_def Let_def rs_def ds_def by blast+
  have left: "address rs ds (Inl k) = Some (gr_limiter r)" if "(k, r) \<in> set rs" for k r
    using that sep(1) by (simp add: address_def)
  have right: "address rs ds (Inr k) = gd_cap d" if "(k, d) \<in> set ds" for k d
    using that sep(2) by (simp add: address_def)
  have keys: "x = y" if "x \<in> set rs" "y \<in> set rs" "gr_limiter (snd x) = gr_limiter (snd y)" for x y
  proof -
    have "Inl (fst x) = (Inl (fst y) :: string + string)"
      using left[of "fst x" "snd x"] left[of "fst y" "snd y"] that by (intro sep(4)) auto
    then show ?thesis using that(1,2) sep(1) by (metis eq_key_imp_eq_value prod.collapse sum.inject(1))
  qed
  have "distinct rs" using sep(1) by (metis distinct_map)
  then show "distinct (map gr_limiter (map snd rs))"
    using keys by (auto simp: distinct_map inj_on_def)
  show "\<forall>r\<in>set (map snd rs). gr_limiter r < length (gw_limiters gw)" using sep(3) left by force
  assume "r \<in> set (map snd rs)" "d \<in> set (map snd ds)"
  then obtain k k' where "(k, r) \<in> set rs" "(k', d) \<in> set ds" by auto
  then show "gd_cap d \<noteq> Some (gr_limiter r)" using sep(4)[OF left, of k r "Inr k'"] right by auto
qed

lemma refresh_reservation_fields [simp]:
  "gw_current (refresh_reservation now ms gw r) = gw_current gw" "gw_quota (refresh_reservation now ms gw r) = gw_quota gw"
  "length (gw_limiters (refresh_reservation now ms gw r)) = length (gw_limiters gw)"
  by (simp_all add: refresh_reservation_def put_limiter_def Let_def)

lemma refresh_cap_fields [simp]:
  "gw_current (refresh_cap now gw d) = gw_current gw" "gw_quota (refresh_cap now gw d) = gw_quota gw"
  "length (gw_limiters (refresh_cap now gw d)) = length (gw_limiters gw)"
  by (auto simp: refresh_cap_def put_limiter_def split: option.splits)

lemma refresh_caps_fields [simp]:
  "gw_current (foldl (refresh_cap now) gw ds) = gw_current gw" "gw_quota (foldl (refresh_cap now) gw ds) = gw_quota gw"
  "length (gw_limiters (foldl (refresh_cap now) gw ds)) = length (gw_limiters gw)"
  by (induction ds arbitrary: gw) simp_all

lemma refresh_other:
  "a \<noteq> gr_limiter r \<Longrightarrow> limiter_at (refresh_reservation now ms gw r) a = limiter_at gw a"
  by (simp add: refresh_reservation_def put_limiter_def limiter_at_def Let_def)

lemma refresh_cap_other: "gd_cap d \<noteq> Some a \<Longrightarrow> limiter_at (refresh_cap now gw d) a = limiter_at gw a"
  by (auto simp: refresh_cap_def put_limiter_def limiter_at_def split: option.splits)

lemma refresh_own:
  assumes "gr_limiter r < length (gw_limiters gw)"
  shows "near (fst (local_rate gw (gr_id r) (gw_entitlement_wu_s r ms) now)) (limiter_rate (refresh_reservation now ms gw r) (gr_limiter r))"
  using assms by (auto simp: refresh_reservation_def Let_def limiter_rate_def limiter_at_def put_limiter_def reconfigure_rate limiter_config_new_def near_refl)
    (simp add: near_def limiter_at_def)

lemma refresh_all:
  assumes "distinct (map gr_limiter rs)" and "\<forall>r\<in>set rs. gr_limiter r < length (gw_limiters gw)" and "r \<in> set rs"
  shows "near (fst (local_rate gw (gr_id r) (gw_entitlement_wu_s r ms) now)) (limiter_rate (foldl (refresh_reservation now ms) gw rs) (gr_limiter r))"
  using assms
proof (induction rs arbitrary: gw)
  case (Cons x rs)
  have same: "local_rate (refresh_reservation now ms gw x) = local_rate gw" by (intro ext) (simp add: local_rate_def)
  have keep: "limiter_at (foldl (refresh_reservation now ms) g rs) a = limiter_at g a" if "a \<notin> gr_limiter ` set rs" for g a
    using that by (induction rs arbitrary: g) (auto simp: refresh_other)
  show ?case
  proof (cases "r = x")
    case True
    then show ?thesis using Cons.prems refresh_own[of x gw] keep by (simp add: limiter_rate_def)
  next
    case False
    then show ?thesis using Cons.prems Cons.IH[of "refresh_reservation now ms gw x"] by (simp add: same)
  qed
qed simp

text \<open>
  Limiters follow the rate. After a refresh, the rate of every reservation's limiter is within
  one percent of the larger of the two, or a billionth, of its local rate at that moment.
\<close>

theorem refresh_follows_rate:
  fixes gw :: gateway_state and r :: gw_reservation and now :: instant and now_ms :: nat
  assumes "separate gw" and "map_of (en_reservations (gw_current gw)) rid = Some r"
  defines "target \<equiv> fst (local_rate gw (gr_id r) (gw_entitlement_wu_s r now_ms) now)"
    and "rate \<equiv> limiter_rate (refresh_local_rates gw now now_ms) (gr_limiter r)"
  shows "\<bar>target - rate\<bar> \<le> 1 / 1000000000 \<or> \<bar>target - rate\<bar> < 1/100 * max rate target"
proof -
  let ?rs = "map snd (en_reservations (gw_current gw))" and ?ds = "map snd (en_by_deployment (gw_current gw))"
  let ?g = "foldl (refresh_reservation now now_ms) gw ?rs"
  have fields: "gw_current (foldl (refresh_reservation now now_ms) g rs) = gw_current g" for g rs by (induction rs arbitrary: g) simp_all
  have r: "r \<in> set ?rs" using map_of_SomeD[OF assms(2)] by force
  note d = separate_views(1,2)[OF assms(1)] separate_views(3)[OF assms(1) r]
  have keep: "limiter_at (foldl (refresh_cap now) g ds) a = limiter_at g a" if "\<forall>d\<in>set ds. gd_cap d \<noteq> Some a" for g ds a
    using that by (induction ds arbitrary: g) (auto simp: refresh_cap_other)
  have "rate = limiter_rate ?g (gr_limiter r)"
    unfolding rate_def refresh_local_rates_def refresh_caps_def fields limiter_rate_def using keep[of ?ds] d(3) by auto
  then have "near target rate" using refresh_all[OF d(1,2) r] by (simp add: target_def)
  then show ?thesis unfolding near_def worth_resizing_def by linarith
qed

section \<open>Applying a snapshot\<close>

text \<open>
  While a view is built, every limiter it holds is the one its owner had before or one allocated
  since, and no two owners share one.
\<close>

definition building :: "(string + string \<Rightarrow> nat option) \<Rightarrow> nat \<Rightarrow> (string + string \<Rightarrow> nat option) \<Rightarrow> nat \<Rightarrow> bool" where
  "building prev n0 m n \<longleftrightarrow>
     n0 \<le> n \<and> (\<forall>u a. m u = Some a \<longrightarrow> a < n \<and> (prev u = Some a \<or> n0 \<le> a)) \<and> (\<forall>u v a. m u = Some a \<longrightarrow> m v = Some a \<longrightarrow> u = v)"

definition own_limiters :: "(string + string \<Rightarrow> nat option) \<Rightarrow> nat \<Rightarrow> bool" where
  "own_limiters m n \<longleftrightarrow> (\<forall>u a. m u = Some a \<longrightarrow> a < n) \<and> (\<forall>u v a. m u = Some a \<longrightarrow> m v = Some a \<longrightarrow> u = v)"

lemma building_put:
  assumes "building prev n0 m n" and "own_limiters prev n0" and "prev u = Some a \<and> n' = n \<or> a = n \<and> n' = Suc n"
  shows "building prev n0 (m(u \<mapsto> a)) n'"
proof -
  have "v = u" if v: "m v = Some a" for v
  proof -
    have "prev u = Some a" using assms(1,3) v unfolding building_def by auto
    then have "a < n0" using assms(2) unfolding own_limiters_def by blast
    then have "prev v = Some a" using assms(1) v unfolding building_def by force
    then show "v = u" using \<open>prev u = Some a\<close> assms(2) unfolding own_limiters_def by blast
  qed
  moreover have "a < n'" using assms unfolding building_def own_limiters_def by force
  ultimately show ?thesis using assms unfolding building_def by (auto simp: less_Suc_eq)
qed

lemma building_drop: "building prev n0 m n \<Longrightarrow> building prev n0 (m(u := None)) n"
  by (auto simp: building_def)

lemma separate_own:
  "separate gw \<Longrightarrow> own_limiters (address (en_reservations (gw_current gw)) (en_by_deployment (gw_current gw))) (length (gw_limiters gw))"
  unfolding separate_def own_limiters_def Let_def by blast

lemma address_reservation: "address (AList.update k r rs) ds = (address rs ds)(Inl k \<mapsto> gr_limiter r)"
  by (rule ext) (auto simp: address_def update_conv split: sum.split)

lemma address_deployment: "address rs (AList.update k d ds) = (address rs ds)(Inr k := gd_cap d)"
  by (rule ext) (auto simp: address_def update_conv split: sum.split)

lemma put_limiter_fields [simp]:
  "gw_current (put_limiter a st gw) = gw_current gw" "gw_quota (put_limiter a st gw) = gw_quota gw"
  "gw_profiles (put_limiter a st gw) = gw_profiles gw" "gw_wu_per_cu (put_limiter a st gw) = gw_wu_per_cu gw"
  "length (gw_limiters (put_limiter a st gw)) = length (gw_limiters gw)"
  by (simp_all add: put_limiter_def)

text \<open>What a reservation needs to be served.\<close>

definition servable :: "gateway_state \<Rightarrow> deployment_entitlement list \<Rightarrow> reservation_entitlement \<Rightarrow> bool" where
  "servable gw deployments r \<longleftrightarrow>
     map_of (gw_profiles gw) (re_profile r) \<noteq> None \<and> 1 \<le> re_cus r \<and> list_ex (\<lambda>d. de_reservation d = re_id r) deployments"

text \<open>The reservations of the view are those of the entitlements: identity, size, tier and shape.\<close>

definition serves_entitlement :: "gateway_state \<Rightarrow> region_failover list \<Rightarrow> reservation_entitlement \<Rightarrow> gw_reservation \<Rightarrow> bool" where
  "serves_entitlement gw failovers r s \<longleftrightarrow>
     gr_id s = re_id r \<and> gr_tenant s = re_tenant r \<and> gr_model s = re_model r \<and> gr_cus s = re_cus r \<and> gr_tier s = re_tier r
     \<and> gr_shape s = re_shape r \<and> gr_failover s = re_failover r \<and> gr_failovers s = failovers
     \<and> gr_wu_per_cu s = gw_wu_per_cu gw \<and> map_of (gw_profiles gw) (re_profile r) = Some (gr_profile s)"

lemma build_reservation_cases:
  fixes gw gw' :: gateway_state
  assumes "build_reservation deployments failovers now ms prev (vw, sk, gw) r = (vw', sk', gw')"
  shows "gw_profiles gw' = gw_profiles gw \<and> gw_wu_per_cu gw' = gw_wu_per_cu gw \<and> gw_current gw' = gw_current gw
    \<and> (if servable gw deployments r
        then \<exists>s. vw' = AList.update (re_id r) s vw \<and> serves_entitlement gw failovers r s \<and> sk' = sk
              \<and> (case map_of (en_reservations prev) (re_id r) of
                   Some p \<Rightarrow> gr_limiter s = gr_limiter p \<and> length (gw_limiters gw') = length (gw_limiters gw)
                 | None \<Rightarrow> gr_limiter s = length (gw_limiters gw) \<and> length (gw_limiters gw') = Suc (length (gw_limiters gw)))
        else vw' = vw \<and> gw' = gw \<and> (\<exists>reason. sk' = sk @ [reason]))"
proof (cases "servable gw deployments r")
  case False
  then consider "map_of (gw_profiles gw) (re_profile r) = None"
    | profile where "map_of (gw_profiles gw) (re_profile r) = Some profile" "re_cus r < 1"
    | profile where "map_of (gw_profiles gw) (re_profile r) = Some profile" "find (\<lambda>d. de_reservation d = re_id r) deployments = None"
    unfolding servable_def list_ex_iff find_None_iff by fastforce
  then show ?thesis by cases (use assms False in \<open>auto simp: build_reservation_def split: if_splits\<close>)
next
  case True
  have "find (\<lambda>d. de_reservation d = re_id r) deployments \<noteq> None"
    using True unfolding servable_def list_ex_iff find_None_iff by blast
  then obtain profile first where p: "map_of (gw_profiles gw) (re_profile r) = Some profile" "\<not> re_cus r < 1"
    "find (\<lambda>d. de_reservation d = re_id r) deployments = Some first"
    using True unfolding servable_def by auto
  show ?thesis
  proof (cases "map_of (en_reservations prev) (re_id r)")
    case None
    then show ?thesis using assms True p unfolding build_reservation_def new_limiter_def by (auto simp: Let_def serves_entitlement_def)
  next
    case (Some x)
    then show ?thesis using assms True p unfolding build_reservation_def by (auto simp: Let_def serves_entitlement_def)
  qed
qed

lemma update_entry: "(k, x) \<in> set (AList.update k' y xs) \<Longrightarrow> k = k' \<and> x = y \<or> (k, x) \<in> set xs"
  by (induction xs) (auto split: if_splits)

lemma update_keys_set: "set (map fst (AList.update k y xs)) = insert k (set (map fst xs))"
  by (induction xs) auto

lemma servable_cong:
  "gw_profiles gw' = gw_profiles gw \<Longrightarrow> servable gw' = servable gw"
  "gw_profiles gw' = gw_profiles gw \<Longrightarrow> gw_wu_per_cu gw' = gw_wu_per_cu gw \<Longrightarrow> serves_entitlement gw' = serves_entitlement gw"
  by (auto simp: servable_def serves_entitlement_def fun_eq_iff)

text \<open>The first loop of the build: what it keeps after any number of reservations.\<close>

definition reservations_built ::
  "gateway_state \<Rightarrow> deployment_entitlement list \<Rightarrow> region_failover list \<Rightarrow> reservation_entitlement list
   \<Rightarrow> (string \<times> gw_reservation) list \<times> skip_reason list \<times> gateway_state \<Rightarrow> bool" where
  "reservations_built gw0 deployments failovers done st \<longleftrightarrow>
     (case st of (vw, sk, gw) \<Rightarrow>
        gw_profiles gw = gw_profiles gw0 \<and> gw_wu_per_cu gw = gw_wu_per_cu gw0 \<and> gw_current gw = gw_current gw0
        \<and> distinct (map fst vw) \<and> set (map fst vw) = re_id ` {r \<in> set done. servable gw0 deployments r}
        \<and> (\<forall>(k, s) \<in> set vw. \<exists>r\<in>set done. servable gw0 deployments r \<and> re_id r = k \<and> serves_entitlement gw0 failovers r s)
        \<and> length sk = length (filter (\<lambda>r. \<not> servable gw0 deployments r) done)
        \<and> (separate gw0 \<longrightarrow> building (address (en_reservations (gw_current gw0)) (en_by_deployment (gw_current gw0))) (length (gw_limiters gw0))
              (address vw []) (length (gw_limiters gw)))
        \<and> (\<forall>(k, s) \<in> set vw. \<forall>p. map_of (en_reservations (gw_current gw0)) k = Some p \<longrightarrow> gr_limiter s = gr_limiter p))"

lemma reservations_step:
  fixes gw0 :: gateway_state
  assumes "reservations_built gw0 deployments failovers done st"
  shows "reservations_built gw0 deployments failovers (done @ [r]) (build_reservation deployments failovers now ms (gw_current gw0) st r)"
proof -
  obtain vw sk gw where st: "st = (vw, sk, gw)" by (cases st)
  obtain vw' sk' gw' where st': "build_reservation deployments failovers now ms (gw_current gw0) st r = (vw', sk', gw')"
    by (cases "build_reservation deployments failovers now ms (gw_current gw0) st r")
  note pre = assms[unfolded reservations_built_def st prod.case]
  have same: "servable gw = servable gw0" "serves_entitlement gw = serves_entitlement gw0" using pre by (auto intro!: servable_cong)
  note step = build_reservation_cases[OF st'[unfolded st], unfolded same]
  show ?thesis
  proof (cases "servable gw0 deployments r")
    case False
    then show ?thesis using step pre unfolding st' reservations_built_def prod.case by auto
  next
    case True
    then obtain s where s: "vw' = AList.update (re_id r) s vw" "serves_entitlement gw0 failovers r s" "sk' = sk"
      and a: "case map_of (en_reservations (gw_current gw0)) (re_id r) of
                   Some p \<Rightarrow> gr_limiter s = gr_limiter p \<and> length (gw_limiters gw') = length (gw_limiters gw)
                 | None \<Rightarrow> gr_limiter s = length (gw_limiters gw) \<and> length (gw_limiters gw') = Suc (length (gw_limiters gw))"
      using step by auto
    let ?prev = "address (en_reservations (gw_current gw0)) (en_by_deployment (gw_current gw0))"
    have "?prev (Inl (re_id r)) = Some (gr_limiter s) \<and> length (gw_limiters gw') = length (gw_limiters gw)
      \<or> gr_limiter s = length (gw_limiters gw) \<and> length (gw_limiters gw') = Suc (length (gw_limiters gw))"
      using a by (auto simp: address_def split: option.splits)
    then have b: "separate gw0 \<Longrightarrow> building ?prev (length (gw_limiters gw0)) (address vw' []) (length (gw_limiters gw'))"
      using pre building_put[OF _ separate_own] unfolding s(1) address_reservation by blast
    have mem: "(k, x) \<in> set vw' \<Longrightarrow> k = re_id r \<and> x = s \<or> (k, x) \<in> set vw" for k x
      unfolding s(1) using update_entry by force
    have d: "distinct (map fst vw')" "set (map fst vw') = insert (re_id r) (set (map fst vw))"
      using pre update_keys_set[of "re_id r" s vw] unfolding s(1) by (simp_all add: distinct_update)
    show ?thesis unfolding st' reservations_built_def prod.case
    proof (intro conjI)
      show "set (map fst vw') = re_id ` {x \<in> set (done @ [r]). servable gw0 deployments x}" using d(2) pre True by auto
      show "\<forall>(k, x) \<in> set vw'. \<exists>y\<in>set (done @ [r]). servable gw0 deployments y \<and> re_id y = k \<and> serves_entitlement gw0 failovers y x"
        using mem pre True s(2) by fastforce
      show "\<forall>(k, x) \<in> set vw'. \<forall>p. map_of (en_reservations (gw_current gw0)) k = Some p \<longrightarrow> gr_limiter x = gr_limiter p"
        using mem pre a by fastforce
    qed (use step pre True s(3) b d(1) in auto)
  qed
qed

lemma reservations_all:
  fixes gw0 :: gateway_state
  assumes "reservations_built gw0 deployments failovers done st"
  shows "reservations_built gw0 deployments failovers (done @ rs) (foldl (build_reservation deployments failovers now ms (gw_current gw0)) st rs)"
  using assms
proof (induction rs arbitrary: "done" st)
  case (Cons r rs)
  show ?case using Cons.IH[OF reservations_step[OF Cons.prems]] by simp
qed simp

text \<open>The keys of a deployment: its own, and those rotated out with their expiry.\<close>

definition key_of :: "deployment_entitlement \<Rightarrow> string \<Rightarrow> nat option \<Rightarrow> bool" where
  "key_of d h until \<longleftrightarrow>
     h = de_api_key_sha256 d \<and> until = None
     \<or> list_ex (\<lambda>old. h = pk_api_key_sha256 old \<and> until = Some (pk_expires_at_ms old)) (de_previous_keys d)"

lemma previous_keys_entries:
  "(h, v) \<in> set (foldl (\<lambda>keys old. AList.update (pk_api_key_sha256 old) (dep, Some (pk_expires_at_ms old)) keys) keys olds) \<Longrightarrow>
   (h, v) \<in> set keys \<or> (\<exists>old\<in>set olds. h = pk_api_key_sha256 old \<and> v = (dep, Some (pk_expires_at_ms old)))"
proof (induction olds arbitrary: keys)
  case (Cons old olds)
  then show ?case using update_entry by fastforce
qed simp

lemma previous_keys_all:
  "set (map fst (foldl (\<lambda>keys old. AList.update (pk_api_key_sha256 old) (dep, Some (pk_expires_at_ms old)) keys) keys olds))
   = set (map fst keys) \<union> pk_api_key_sha256 ` set olds"
  by (induction olds arbitrary: keys) (simp_all add: update_keys_set del: set_map)

lemma build_estimator_fields [simp]:
  "gw_limiters (snd (build_estimator prev d r gw)) = gw_limiters gw"
  "gw_current (snd (build_estimator prev d r gw)) = gw_current gw"
  by (auto simp: build_estimator_def split: option.split)

lemma build_cap_address:
  fixes gw gw' :: gateway_state
  assumes "build_cap prev d r share now gw = (cap, gw')"
  shows "gw_current gw' = gw_current gw
    \<and> (case cap of
         None \<Rightarrow> length (gw_limiters gw') = length (gw_limiters gw)
       | Some a \<Rightarrow> address (en_reservations prev) (en_by_deployment prev) (Inr (de_id d)) = Some a \<and> length (gw_limiters gw') = length (gw_limiters gw)
           \<or> a = length (gw_limiters gw) \<and> length (gw_limiters gw') = Suc (length (gw_limiters gw)))"
  using assms by (auto simp: build_cap_def new_limiter_def address_def Let_def split: option.splits)

lemma build_deployment_cases:
  fixes gw gw' :: gateway_state
  assumes "build_deployment now prev (vw, gw) d = (vw', gw')"
  shows "en_reservations vw' = en_reservations vw \<and> en_version vw' = en_version vw \<and> en_source vw' = en_source vw
    \<and> gw_current gw' = gw_current gw
    \<and> (case map_of (en_reservations vw) (de_reservation d) of
         None \<Rightarrow> vw' = vw \<and> gw' = gw
       | Some r \<Rightarrow> \<exists>dep. gd_id dep = de_id d \<and> gd_reservation dep = r
           \<and> en_by_deployment vw' = AList.update (de_id d) dep (en_by_deployment vw)
           \<and> en_by_key_hash vw' = foldl (\<lambda>keys old. AList.update (pk_api_key_sha256 old) (dep, Some (pk_expires_at_ms old)) keys)
                (AList.update (de_api_key_sha256 d) (dep, None) (en_by_key_hash vw)) (de_previous_keys d)
           \<and> (case gd_cap dep of
                None \<Rightarrow> length (gw_limiters gw') = length (gw_limiters gw)
              | Some a \<Rightarrow> address (en_reservations prev) (en_by_deployment prev) (Inr (de_id d)) = Some a \<and> length (gw_limiters gw') = length (gw_limiters gw)
                  \<or> a = length (gw_limiters gw) \<and> length (gw_limiters gw') = Suc (length (gw_limiters gw))))"
proof (cases "map_of (en_reservations vw) (de_reservation d)")
  case None
  then show ?thesis using assms by (simp add: build_deployment_def)
next
  case (Some r)
  obtain e g1 where e: "build_estimator prev d r gw = (e, g1)" by (cases "build_estimator prev d r gw")
  define share where "share = (case de_max_share d of None \<Rightarrow> None | Some s \<Rightarrow> if 0 < s \<and> s \<le> 1 then Some s else None)"
  obtain cap g2 where c: "build_cap prev d r share now g1 = (cap, g2)" by (cases "build_cap prev d r share now g1")
  have g1: "gw_limiters g1 = gw_limiters gw" "gw_current g1 = gw_current gw"
    using build_estimator_fields[of prev d r gw] unfolding e by simp_all
  note cap = build_cap_address[OF c, unfolded g1]
  show ?thesis using assms cap unfolding Some build_deployment_def share_def[symmetric] Let_def e c prod.case option.case
    by (auto simp: Some e c intro!: exI[of _ "\<lparr>gd_id = de_id d, gd_reservation = r, gd_estimator = e, gd_max_share = share, gd_cap = cap\<rparr>"])
qed

text \<open>The second loop of the build.\<close>

definition deployments_built ::
  "gateway_state \<Rightarrow> (string \<times> gw_reservation) list \<Rightarrow> nat \<Rightarrow> entitlement_source \<Rightarrow> deployment_entitlement list \<Rightarrow> entitlements \<times> gateway_state \<Rightarrow> bool" where
  "deployments_built gw0 rs version source done st \<longleftrightarrow>
     (case st of (vw, gw) \<Rightarrow>
        en_reservations vw = rs \<and> en_version vw = version \<and> en_source vw = source \<and> gw_current gw = gw_current gw0
        \<and> distinct (map fst (en_by_deployment vw))
        \<and> (\<forall>(h, dep, until) \<in> set (en_by_key_hash vw). \<exists>d\<in>set done. gd_id dep = de_id d \<and> key_of d h until
              \<and> map_of rs (de_reservation d) = Some (gd_reservation dep))
        \<and> (\<forall>d\<in>set done. map_of rs (de_reservation d) \<noteq> None \<longrightarrow>
              insert (de_api_key_sha256 d) (pk_api_key_sha256 ` set (de_previous_keys d)) \<subseteq> set (map fst (en_by_key_hash vw)))
        \<and> (separate gw0 \<longrightarrow> building (address (en_reservations (gw_current gw0)) (en_by_deployment (gw_current gw0))) (length (gw_limiters gw0))
              (address rs (en_by_deployment vw)) (length (gw_limiters gw))))"

lemma deployments_step:
  fixes gw0 :: gateway_state
  assumes "deployments_built gw0 rs version source done st"
  shows "deployments_built gw0 rs version source (done @ [d]) (build_deployment now (gw_current gw0) st d)"
proof -
  obtain vw gw where st: "st = (vw, gw)" by (cases st)
  obtain vw' gw' where st': "build_deployment now (gw_current gw0) st d = (vw', gw')" by (cases "build_deployment now (gw_current gw0) st d")
  note pre = assms[unfolded deployments_built_def st prod.case]
  note step = build_deployment_cases[OF st'[unfolded st]]
  have rs: "en_reservations vw = rs" using pre by blast
  show ?thesis
  proof (cases "map_of rs (de_reservation d)")
    case None
    then have "vw' = vw" "gw' = gw" using step unfolding rs by simp_all
    then show ?thesis using pre None unfolding st' deployments_built_def prod.case by auto
  next
    case (Some r)
    let ?prev = "address (en_reservations (gw_current gw0)) (en_by_deployment (gw_current gw0))"
    obtain dep where dep: "gd_id dep = de_id d" "gd_reservation dep = r" "en_by_deployment vw' = AList.update (de_id d) dep (en_by_deployment vw)"
      and keys: "en_by_key_hash vw' = foldl (\<lambda>keys old. AList.update (pk_api_key_sha256 old) (dep, Some (pk_expires_at_ms old)) keys)
                (AList.update (de_api_key_sha256 d) (dep, None) (en_by_key_hash vw)) (de_previous_keys d)"
      and cap: "case gd_cap dep of
                None \<Rightarrow> length (gw_limiters gw') = length (gw_limiters gw)
              | Some a \<Rightarrow> ?prev (Inr (de_id d)) = Some a \<and> length (gw_limiters gw') = length (gw_limiters gw)
                  \<or> a = length (gw_limiters gw) \<and> length (gw_limiters gw') = Suc (length (gw_limiters gw))"
      using step Some unfolding rs by auto
    have kept: "\<forall>d\<in>set done. map_of rs (de_reservation d) \<noteq> None \<longrightarrow>
              insert (de_api_key_sha256 d) (pk_api_key_sha256 ` set (de_previous_keys d)) \<subseteq> set (map fst (en_by_key_hash vw))" using pre by blast
    have before: "\<forall>(h, dep, until) \<in> set (en_by_key_hash vw). \<exists>d\<in>set done. gd_id dep = de_id d \<and> key_of d h until
              \<and> map_of rs (de_reservation d) = Some (gd_reservation dep)" using pre by blast
    have sound: "dep' = dep \<and> key_of d h until \<or> (h, dep', until) \<in> set (en_by_key_hash vw)"
      if "(h, dep', until) \<in> set (en_by_key_hash vw')" for h dep' until
      using previous_keys_entries[OF that[unfolded keys]] update_entry[of h "(dep', until)"] by (auto simp: key_of_def list_ex_iff)
    have all: "set (map fst (en_by_key_hash vw'))
        = insert (de_api_key_sha256 d) (pk_api_key_sha256 ` set (de_previous_keys d)) \<union> set (map fst (en_by_key_hash vw))"
      unfolding keys previous_keys_all update_keys_set by blast
    have b: "building ?prev (length (gw_limiters gw0)) (address rs (en_by_deployment vw')) (length (gw_limiters gw'))" if sep: "separate gw0"
    proof -
      have old: "building ?prev (length (gw_limiters gw0)) (address rs (en_by_deployment vw)) (length (gw_limiters gw))" using pre sep by blast
      show ?thesis
        using building_drop[OF old] building_put[OF old separate_own[OF sep]] cap unfolding dep(3) address_deployment by (auto split: option.splits)
    qed
    show ?thesis unfolding st' deployments_built_def prod.case
    proof (intro conjI)
      show "distinct (map fst (en_by_deployment vw'))" unfolding dep(3) using pre by (simp add: distinct_update)
      show "\<forall>(h, dep', until) \<in> set (en_by_key_hash vw'). \<exists>x\<in>set (done @ [d]). gd_id dep' = de_id x \<and> key_of x h until
              \<and> map_of rs (de_reservation x) = Some (gd_reservation dep')"
      proof (safe)
        fix h dep' until assume "(h, dep', until) \<in> set (en_by_key_hash vw')"
        then consider "dep' = dep" "key_of d h until" | "(h, dep', until) \<in> set (en_by_key_hash vw)" using sound by blast
        then show "\<exists>x\<in>set (done @ [d]). gd_id dep' = de_id x \<and> key_of x h until \<and> map_of rs (de_reservation x) = Some (gd_reservation dep')"
        proof cases
          case 1
          then show ?thesis using dep(1,2) Some by simp
        next
          case 2
          show ?thesis using bspec[OF before 2] by auto
        qed
      qed
      show "\<forall>x\<in>set (done @ [d]). map_of rs (de_reservation x) \<noteq> None \<longrightarrow>
              insert (de_api_key_sha256 x) (pk_api_key_sha256 ` set (de_previous_keys x)) \<subseteq> set (map fst (en_by_key_hash vw'))"
      proof (intro ballI impI)
        fix x assume x: "x \<in> set (done @ [d])" "map_of rs (de_reservation x) \<noteq> None"
        then consider "x = d" | "x \<in> set done" by auto
        then show "insert (de_api_key_sha256 x) (pk_api_key_sha256 ` set (de_previous_keys x)) \<subseteq> set (map fst (en_by_key_hash vw'))"
        proof cases
          case 2
          show ?thesis unfolding all using kept[rule_format, OF 2 x(2)] by blast
        qed (unfold all, blast)
      qed
    qed (use step pre b in auto)
  qed
qed

lemma deployments_all:
  fixes gw0 :: gateway_state
  assumes "deployments_built gw0 rs version source done st"
  shows "deployments_built gw0 rs version source (done @ ds) (foldl (build_deployment now (gw_current gw0)) st ds)"
  using assms
proof (induction ds arbitrary: "done" st)
  case (Cons d ds)
  show ?case using Cons.IH[OF deployments_step[OF Cons.prems]] by simp
qed simp

text \<open>The state once the view of a snapshot is built, before it is swapped in.\<close>

definition built_by :: "gateway_state \<Rightarrow> snapshot \<Rightarrow> instant \<Rightarrow> nat \<Rightarrow> gateway_state" where
  "built_by gw sn now ms = snd (snd (gw_build gw (sn_version sn) (SnapshotSource (sn_region sn))
     (sn_reservations sn) (sn_deployments sn) (sn_failovers sn) now ms))"

lemma apply_cases:
  fixes gw gw' :: gateway_state
  assumes "apply_signed_snapshot other gw sn key_id now ms = (Inr report, gw')"
  obtains region rs sk gw1 vw gw2 where
    "en_source (gw_current gw) \<in> {SnapshotSource region, PendingSource region}" "sn_region sn = region" "en_version (gw_current gw) < sn_version sn"
    "foldl (build_reservation (sn_deployments sn) (sn_failovers sn) now ms (gw_current gw)) ([], [], gw) (sn_reservations sn) = (rs, sk, gw1)"
    "foldl (build_deployment now (gw_current gw)) ((entitlements_empty (SnapshotSource region) now)\<lparr>en_version := sn_version sn, en_reservations := rs\<rparr>, gw1)
       (sn_deployments sn) = (vw, gw2)"
    "gw' = (other gw2)\<lparr>gw_current := vw\<lparr>en_generated_at := Some (sn_generated_at sn), en_key_id := key_id\<rparr>\<rparr>"
    "en_version (gw_current (other gw2)) < sn_version sn"
    "report = \<lparr>ar_version = sn_version sn, ar_reservations = length rs, ar_deployments = length (en_by_deployment vw), ar_skipped = sk\<rparr>"
  using assms that unfolding apply_signed_snapshot_def gw_build_def Let_def
  by (auto split: entitlement_source.splits if_splits prod.splits option.splits)

lemma apply_built:
  fixes gw gw' :: gateway_state
  assumes "apply_signed_snapshot other gw sn key_id now ms = (Inr report, gw')"
  obtains region sk gw1 gw2 where
    "en_source (gw_current gw) \<in> {SnapshotSource region, PendingSource region}" "sn_region sn = region" "en_version (gw_current gw) < sn_version sn"
    "reservations_built gw (sn_deployments sn) (sn_failovers sn) (sn_reservations sn) (en_reservations (gw_current gw'), sk, gw1)"
    "deployments_built gw (en_reservations (gw_current gw')) (sn_version sn) (SnapshotSource region) (sn_deployments sn) (gw_current gw', gw2)"
    "gw' = (other gw2)\<lparr>gw_current := gw_current gw'\<rparr>" "en_version (gw_current (other gw2)) < sn_version sn"
    "gw2 = built_by gw sn now ms" "ar_skipped report = sk" "ar_reservations report = length (en_reservations (gw_current gw'))"
proof -
  from assms obtain region rs sk gw1 vw gw2 where
    src: "en_source (gw_current gw) \<in> {SnapshotSource region, PendingSource region}" "sn_region sn = region" "en_version (gw_current gw) < sn_version sn"
    and rs: "foldl (build_reservation (sn_deployments sn) (sn_failovers sn) now ms (gw_current gw)) ([], [], gw) (sn_reservations sn) = (rs, sk, gw1)"
    and ds: "foldl (build_deployment now (gw_current gw)) ((entitlements_empty (SnapshotSource region) now)\<lparr>en_version := sn_version sn, en_reservations := rs\<rparr>, gw1)
       (sn_deployments sn) = (vw, gw2)"
    and gw': "gw' = (other gw2)\<lparr>gw_current := vw\<lparr>en_generated_at := Some (sn_generated_at sn), en_key_id := key_id\<rparr>\<rparr>"
    and late: "en_version (gw_current (other gw2)) < sn_version sn"
    and report: "report = \<lparr>ar_version = sn_version sn, ar_reservations = length rs, ar_deployments = length (en_by_deployment vw), ar_skipped = sk\<rparr>"
    by (rule apply_cases)
  have "reservations_built gw (sn_deployments sn) (sn_failovers sn) [] ([], [], gw)"
    by (auto simp: reservations_built_def building_def address_def split: sum.splits)
  then have r: "reservations_built gw (sn_deployments sn) (sn_failovers sn) (sn_reservations sn) (rs, sk, gw1)"
    using reservations_all[of gw _ _ "[]" _ "sn_reservations sn" now ms] rs by (metis append_Nil)
  have "deployments_built gw rs (sn_version sn) (SnapshotSource region) []
      ((entitlements_empty (SnapshotSource region) now)\<lparr>en_version := sn_version sn, en_reservations := rs\<rparr>, gw1)"
    using r unfolding deployments_built_def reservations_built_def by (simp add: entitlements_empty_def)
  then have d: "deployments_built gw rs (sn_version sn) (SnapshotSource region) (sn_deployments sn) (vw, gw2)"
    using deployments_all[of gw rs _ _ "[]" _ "sn_deployments sn" now] ds by (metis append_Nil)
  have "en_reservations (gw_current gw') = rs" using d unfolding gw' deployments_built_def by simp
  moreover have "deployments_built gw rs (sn_version sn) (SnapshotSource region) (sn_deployments sn) (gw_current gw', gw2)"
    using d unfolding gw' deployments_built_def by simp
  moreover have "gw2 = built_by gw sn now ms" using rs ds src(2) by (simp add: built_by_def gw_build_def Let_def)
  ultimately show thesis using that src r report gw' late by simp
qed

lemma served_reservation:
  fixes gw1 :: gateway_state
  assumes "reservations_built gw deployments failovers done (rs, sk, gw1)" and "map_of rs k = Some s"
  obtains r where "r \<in> set done" "servable gw deployments r" "re_id r = k" "serves_entitlement gw failovers r s"
proof -
  have "\<forall>(k, s) \<in> set rs. \<exists>r\<in>set done. servable gw deployments r \<and> re_id r = k \<and> serves_entitlement gw failovers r s"
    using assms(1) unfolding reservations_built_def prod.case by blast
  from bspec[OF this map_of_SomeD[OF assms(2)]] show thesis using that by auto
qed

text \<open>
  C3. Only the keys of the last applied snapshot work. A key that authenticates is the current key
  of one of its deployments, or a key rotated out of it that has not expired at that
  millisecond, and the deployment draws on a reservation of that snapshot, with the size, tier
  and shape it has there.
\<close>

theorem keys_of_the_snapshot:
  assumes "apply_signed_snapshot other gw sn key_id now ms = (Inr report, gw')"
    and "deployment_for_key gw' sha256 at_ms api_key = Some dep"
  shows "\<exists>d r. d \<in> set (sn_deployments sn) \<and> r \<in> set (sn_reservations sn)
    \<and> gd_id dep = de_id d \<and> re_id r = de_reservation d
    \<and> (sha256 api_key = de_api_key_sha256 d
       \<or> list_ex (\<lambda>old. sha256 api_key = pk_api_key_sha256 old \<and> at_ms < pk_expires_at_ms old) (de_previous_keys d))
    \<and> servable gw (sn_deployments sn) r \<and> serves_entitlement gw (sn_failovers sn) r (gd_reservation dep)"
proof -
  obtain region sk gw1 gw2 where
    rs: "reservations_built gw (sn_deployments sn) (sn_failovers sn) (sn_reservations sn) (en_reservations (gw_current gw'), sk, gw1)"
    and ds: "deployments_built gw (en_reservations (gw_current gw')) (sn_version sn) (SnapshotSource region) (sn_deployments sn) (gw_current gw', gw2)"
    using assms(1) by (rule apply_built)
  have "\<exists>until. (sha256 api_key, dep, until) \<in> set (en_by_key_hash (gw_current gw')) \<and> (\<forall>e. until = Some e \<longrightarrow> at_ms < e)"
    using assms(2) unfolding deployment_for_key_def by (force dest!: map_of_SomeD split: option.splits if_splits)
  then obtain until where key: "(sha256 api_key, dep, until) \<in> set (en_by_key_hash (gw_current gw'))"
    and live: "\<And>e. until = Some e \<Longrightarrow> at_ms < e" by blast
  have "\<forall>(h, dep, until) \<in> set (en_by_key_hash (gw_current gw')). \<exists>d\<in>set (sn_deployments sn). gd_id dep = de_id d \<and> key_of d h until
              \<and> map_of (en_reservations (gw_current gw')) (de_reservation d) = Some (gd_reservation dep)"
    using ds unfolding deployments_built_def prod.case by blast
  from bspec[OF this key] obtain d where d: "d \<in> set (sn_deployments sn)" "gd_id dep = de_id d" "key_of d (sha256 api_key) until"
    "map_of (en_reservations (gw_current gw')) (de_reservation d) = Some (gd_reservation dep)" by auto
  obtain r where "r \<in> set (sn_reservations sn)" "servable gw (sn_deployments sn) r" "re_id r = de_reservation d"
    "serves_entitlement gw (sn_failovers sn) r (gd_reservation dep)" by (rule served_reservation[OF rs d(4)])
  moreover have "sha256 api_key = de_api_key_sha256 d
       \<or> list_ex (\<lambda>old. sha256 api_key = pk_api_key_sha256 old \<and> at_ms < pk_expires_at_ms old) (de_previous_keys d)"
    using d(3) live unfolding key_of_def list_ex_iff by auto
  ultimately show ?thesis using d(1,2) by blast
qed

text \<open>
  What a limiter keeps when the rate or the policy of its reservation changes: the level, debt
  included, and the burst credit are the old ones refilled to now and clamped to the new limits,
  and the queue and the demand counted so far are untouched.
\<close>

definition carries_over :: "limiter_config \<Rightarrow> boundary_policy \<Rightarrow> instant \<Rightarrow> limiter_state \<Rightarrow> limiter_state \<Rightarrow> bool" where
  "carries_over config policy now st st' \<longleftrightarrow>
     lm_config st' = config \<and> lm_policy st' = policy \<and> lm_queued_wu st' = lm_queued_wu st \<and> lm_attempted_wu st' = lm_attempted_wu st
     \<and> (if lm_config st = config \<and> lm_policy st = policy then st' = st
        else bk_level (lm_provisioned st') = min (bk_level (snd (refill (lm_provisioned st) now))) (entitlement_wu_s config * capacity_s config)
          \<and> (\<forall>p c. bp_burst policy = Some p \<and> credit_of (state_refill st now) = Some c \<longrightarrow>
               credit_of st' = Some (min c (entitlement_wu_s config * max_credit_seconds p))))"

lemma reconfigure_carries_over: "carries_over config policy now st (reconfigure st config policy now)"
proof (cases "lm_config st = config \<and> lm_policy st = policy")
  case True
  then show ?thesis by (simp add: carries_over_def reconfigure_def)
next
  case False
  then have "lm_policy (reconfigure st config policy now) = policy"
    by (simp add: reconfigure_def Let_def case_prod_unfold)
  then show ?thesis using False reconfigure_keeps_level[of st config policy now]
    unfolding carries_over_def reconfigure_rate by auto
qed

text \<open>The rate the snapshot gives a reservation here, and the boundary policy of its first deployment.\<close>

definition snapshot_config :: "gateway_state \<Rightarrow> region_failover list \<Rightarrow> instant \<Rightarrow> nat \<Rightarrow> reservation_entitlement \<Rightarrow> limiter_config" where
  "snapshot_config gw failovers now ms r =
     limiter_config_new (fst (local_rate gw (re_id r)
       ((real (re_cus r) + failover_cus (re_failover r) failovers ms) * gw_wu_per_cu gw) now))"

definition snapshot_policy :: "deployment_entitlement list \<Rightarrow> reservation_entitlement \<Rightarrow> boundary_policy" where
  "snapshot_policy deployments r =
     (case find (\<lambda>d. de_reservation d = re_id r) deployments of
        None \<Rightarrow> boundary_policy_default | Some first \<Rightarrow> de_boundary_policy first)"

lemma limiter_at_put: "b < length (gw_limiters gw) \<Longrightarrow> limiter_at (put_limiter a st gw) b = (if a = b then st else limiter_at gw b)"
  by (auto simp: limiter_at_def put_limiter_def nth_list_update)

lemma limiter_at_new:
  "b < length (gw_limiters gw) \<Longrightarrow> limiter_at (gw\<lparr>gw_limiters := gw_limiters gw @ [st]\<rparr>) b = limiter_at gw b"
  by (simp add: limiter_at_def nth_append)

text \<open>One turn of the first loop changes one limiter of the view before, that of its reservation.\<close>

lemma build_reservation_limiters:
  fixes gw gw' :: gateway_state
  assumes "build_reservation deployments failovers now ms prev (vw, sk, gw) r = (vw', sk', gw')" and "a < length (gw_limiters gw)"
  shows "gw_quota gw' = gw_quota gw"
    and "limiter_at gw' a =
      (if servable gw deployments r \<and> map_option gr_limiter (map_of (en_reservations prev) (re_id r)) = Some a
       then reconfigure (limiter_at gw a) (snapshot_config gw failovers now ms r) (snapshot_policy deployments r) now
       else limiter_at gw a)"
proof -
  have "gw_quota gw' = gw_quota gw \<and> limiter_at gw' a =
      (if servable gw deployments r \<and> map_option gr_limiter (map_of (en_reservations prev) (re_id r)) = Some a
       then reconfigure (limiter_at gw a) (snapshot_config gw failovers now ms r) (snapshot_policy deployments r) now
       else limiter_at gw a)"
  proof (cases "servable gw deployments r")
    case False
    then show ?thesis using build_reservation_cases[OF assms(1)] by simp
  next
    case True
    have "find (\<lambda>d. de_reservation d = re_id r) deployments \<noteq> None"
      using True unfolding servable_def list_ex_iff find_None_iff by blast
    then obtain profile first where p: "map_of (gw_profiles gw) (re_profile r) = Some profile" "\<not> re_cus r < 1"
      "find (\<lambda>d. de_reservation d = re_id r) deployments = Some first"
      using True unfolding servable_def by auto
    show ?thesis using assms True p unfolding build_reservation_def snapshot_config_def snapshot_policy_def
      by (cases "map_of (en_reservations prev) (re_id r)") (auto simp: Let_def limiter_at_put limiter_at_new new_limiter_def)
  qed
  then show "gw_quota gw' = gw_quota gw" "limiter_at gw' a =
      (if servable gw deployments r \<and> map_option gr_limiter (map_of (en_reservations prev) (re_id r)) = Some a
       then reconfigure (limiter_at gw a) (snapshot_config gw failovers now ms r) (snapshot_policy deployments r) now
       else limiter_at gw a)" by simp_all
qed

lemma build_reservation_kept:
  fixes gw gw' :: gateway_state
  assumes "build_reservation deployments failovers now ms prev (vw, sk, gw) r = (vw', sk', gw')"
  shows "servable gw' = servable gw" "length (gw_limiters gw) \<le> length (gw_limiters gw')"
    "gw_quota gw' = gw_quota gw \<Longrightarrow> snapshot_config gw' = snapshot_config gw"
proof -
  have fields: "gw_profiles gw' = gw_profiles gw" "gw_wu_per_cu gw' = gw_wu_per_cu gw"
    using build_reservation_cases[OF assms] by simp_all
  then show "servable gw' = servable gw" by (intro servable_cong)
  show "length (gw_limiters gw) \<le> length (gw_limiters gw')"
    using build_reservation_cases[OF assms] by (auto split: if_splits option.splits)
  show "gw_quota gw' = gw_quota gw \<Longrightarrow> snapshot_config gw' = snapshot_config gw"
    using fields by (simp add: snapshot_config_def local_rate_def fun_eq_iff)
qed

lemma reservation_limiters:
  fixes gw gw' :: gateway_state
  assumes "foldl (build_reservation deployments failovers now ms prev) (vw, sk, gw) rs = (vw', sk', gw')"
    and "a < length (gw_limiters gw)" and "distinct (map re_id rs)"
    and "\<And>rid. map_option gr_limiter (map_of (en_reservations prev) rid) = Some a \<longleftrightarrow> rid = k"
  shows "length (gw_limiters gw) \<le> length (gw_limiters gw')" 
    and "limiter_at gw' a = (case find (\<lambda>r. servable gw deployments r \<and> re_id r = k) rs of
           None \<Rightarrow> limiter_at gw a
         | Some r \<Rightarrow> reconfigure (limiter_at gw a) (snapshot_config gw failovers now ms r) (snapshot_policy deployments r) now)"
proof -
  have "length (gw_limiters gw) \<le> length (gw_limiters gw') \<and> limiter_at gw' a = (case find (\<lambda>r. servable gw deployments r \<and> re_id r = k) rs of
           None \<Rightarrow> limiter_at gw a
         | Some r \<Rightarrow> reconfigure (limiter_at gw a) (snapshot_config gw failovers now ms r) (snapshot_policy deployments r) now)"
    using assms(1-3)
  proof (induction rs arbitrary: vw sk gw)
    case (Cons r rs)
    obtain vw1 sk1 gw1 where one: "build_reservation deployments failovers now ms prev (vw, sk, gw) r = (vw1, sk1, gw1)"
      by (cases "build_reservation deployments failovers now ms prev (vw, sk, gw) r")
    note lim = build_reservation_limiters[OF one Cons.prems(2)]
    note same = build_reservation_kept(1,2)[OF one] build_reservation_kept(3)[OF one lim(1)]
    have more: "foldl (build_reservation deployments failovers now ms prev) (vw1, sk1, gw1) rs = (vw', sk', gw')"
      "a < length (gw_limiters gw1)" "distinct (map re_id rs)" using Cons.prems one same(2) by simp_all
    note IH = Cons.IH[OF more, unfolded same(1,3)]
    show ?case
    proof (cases "servable gw deployments r \<and> re_id r = k")
      case True
      then have "find (\<lambda>r. servable gw deployments r \<and> re_id r = k) rs = None"
        using Cons.prems(3) unfolding find_None_iff by (metis distinct.simps(2) image_eqI list.simps(9) list.set_map)
      then show ?thesis using True IH lim(2) assms(4)[of "re_id r"] same(2) by simp
    next
      case False
      then have at: "limiter_at gw1 a = limiter_at gw a" using lim(2) assms(4)[of "re_id r"] by auto
      have rest: "find (\<lambda>x. servable gw deployments x \<and> re_id x = k) (r # rs) = find (\<lambda>x. servable gw deployments x \<and> re_id x = k) rs"
        using False by auto
      show ?thesis unfolding rest using IH[unfolded at] le_trans[OF same(2)] by blast
    qed
  qed simp
  then show "length (gw_limiters gw) \<le> length (gw_limiters gw')"
    "limiter_at gw' a = (case find (\<lambda>r. servable gw deployments r \<and> re_id r = k) rs of
           None \<Rightarrow> limiter_at gw a
         | Some r \<Rightarrow> reconfigure (limiter_at gw a) (snapshot_config gw failovers now ms r) (snapshot_policy deployments r) now)" by blast+
qed

text \<open>The second loop changes only the limiters of caps.\<close>

lemma build_deployment_limiters:
  fixes gw gw' :: gateway_state
  assumes "build_deployment now prev (vw, gw) d = (vw', gw')" and "a < length (gw_limiters gw)"
    and "Option.bind (map_of (en_by_deployment prev) (de_id d)) gd_cap \<noteq> Some a"
  shows "limiter_at gw' a = limiter_at gw a \<and> a < length (gw_limiters gw')"
proof -
  have e: "limiter_at (snd (build_estimator prev d r gw)) a = limiter_at gw a" for r by (simp add: limiter_at_def)
  have cap: "limiter_at (snd (build_cap prev d r share now g)) a = limiter_at g a \<and> a < length (gw_limiters (snd (build_cap prev d r share now g)))"
    if "a < length (gw_limiters g)" for r share g
    using assms(3) that by (auto simp: build_cap_def Let_def limiter_at_put limiter_at_new new_limiter_def split: option.split)
  show ?thesis using assms(1,2) e cap[of "snd (build_estimator prev d _ gw)"]
    by (auto simp: build_deployment_def Let_def case_prod_unfold split: option.splits)
qed

lemma deployment_limiters:
  fixes gw gw' :: gateway_state
  assumes "foldl (build_deployment now prev) (vw, gw) ds = (vw', gw')" and "a < length (gw_limiters gw)"
    and "\<And>did. Option.bind (map_of (en_by_deployment prev) did) gd_cap \<noteq> Some a"
  shows "limiter_at gw' a = limiter_at gw a"
  using assms(1,2)
proof (induction ds arbitrary: vw gw)
  case (Cons d ds)
  obtain vw1 gw1 where one: "build_deployment now prev (vw, gw) d = (vw1, gw1)" by (cases "build_deployment now prev (vw, gw) d")
  note lim = build_deployment_limiters[OF one Cons.prems(2) assms(3)]
  have "foldl (build_deployment now prev) (vw1, gw1) ds = (vw', gw')" using Cons.prems(1) one by simp
  from Cons.IH[OF this] lim show ?case by simp
qed simp

text \<open>What a build leaves in the limiter of a reservation that was served before.\<close>

lemma built_limiter:
  assumes "separate gw" and "distinct (map re_id (sn_reservations sn))"
    and "map_of (en_reservations (gw_current gw)) (re_id r) = Some p"
    and "r \<in> set (sn_reservations sn)" and "servable gw (sn_deployments sn) r"
  shows "limiter_at (built_by gw sn now ms) (gr_limiter p)
     = reconfigure (limiter_at gw (gr_limiter p)) (snapshot_config gw (sn_failovers sn) now ms r) (snapshot_policy (sn_deployments sn) r) now"
proof -
  let ?prev = "gw_current gw" and ?a = "gr_limiter p"
  let ?at = "address (en_reservations ?prev) (en_by_deployment ?prev)"
  have at: "?at (Inl (re_id r)) = Some ?a" using assms(3) by (simp add: address_def)
  have own: "\<And>u. ?at u = Some ?a \<Longrightarrow> u = Inl (re_id r)" and len: "?a < length (gw_limiters gw)"
    using assms(1) at unfolding separate_def Let_def by blast+
  have res: "map_option gr_limiter (map_of (en_reservations ?prev) rid) = Some ?a \<longleftrightarrow> rid = re_id r" for rid
    using own[of "Inl rid"] at by (auto simp: address_def)
  have dep: "Option.bind (map_of (en_by_deployment ?prev) did) gd_cap \<noteq> Some ?a" for did
    using own[of "Inr did"] by (auto simp: address_def)
  obtain rs sk gw1 where one: "foldl (build_reservation (sn_deployments sn) (sn_failovers sn) now ms ?prev) ([], [], gw) (sn_reservations sn) = (rs, sk, gw1)"
    by (cases "foldl (build_reservation (sn_deployments sn) (sn_failovers sn) now ms ?prev) ([], [], gw) (sn_reservations sn)")
  obtain vw gw2 where two: "foldl (build_deployment now ?prev)
      ((entitlements_empty (SnapshotSource (sn_region sn)) now)\<lparr>en_version := sn_version sn, en_reservations := rs\<rparr>, gw1) (sn_deployments sn) = (vw, gw2)"
    by (cases "foldl (build_deployment now ?prev)
      ((entitlements_empty (SnapshotSource (sn_region sn)) now)\<lparr>en_version := sn_version sn, en_reservations := rs\<rparr>, gw1) (sn_deployments sn)")
  note first = reservation_limiters[OF one len assms(2) res]
  have "find (\<lambda>x. servable gw (sn_deployments sn) x \<and> re_id x = re_id r) (sn_reservations sn) \<noteq> None"
    using assms(4,5) by (auto simp: find_None_iff)
  then obtain x where x: "find (\<lambda>x. servable gw (sn_deployments sn) x \<and> re_id x = re_id r) (sn_reservations sn) = Some x" by blast
  then have "x \<in> set (sn_reservations sn)" "re_id x = re_id r" by (auto simp: find_Some_iff)
  then have "x = r" using assms(2,4) by (auto simp: distinct_map inj_on_def)
  moreover have "built_by gw sn now ms = gw2" using one two by (simp add: built_by_def gw_build_def Let_def)
  ultimately show ?thesis using deployment_limiters[OF two _ dep] first len x by simp
qed

lemma apply_error_cases:
  fixes gw gw' :: gateway_state
  assumes "apply_signed_snapshot other gw sn key_id now ms = (Inl e, gw')"
  shows "gw' = gw \<and> (e = StaticConfig \<or> e = Stale (en_version (gw_current gw)) (sn_version sn) \<and> sn_version sn \<le> en_version (gw_current gw)
          \<or> (\<exists>region. e = WrongRegion region (sn_region sn) \<and> sn_region sn \<noteq> region))
        \<or> gw' = other (built_by gw sn now ms) \<and> e = Stale (en_version (gw_current gw')) (sn_version sn)
          \<and> en_version (gw_current gw) < sn_version sn \<and> sn_version sn \<le> en_version (gw_current gw')"
  using assms unfolding apply_signed_snapshot_def built_by_def Let_def
  by (auto split: entitlement_source.splits if_splits prod.splits option.splits)

lemma view_of_snapshot:
  fixes gw gw1 gw2 :: gateway_state
  assumes "reservations_built gw (sn_deployments sn) (sn_failovers sn) (sn_reservations sn) (en_reservations vw, sk, gw1)"
    and "deployments_built gw (en_reservations vw) version source (sn_deployments sn) (vw, gw2)"
  shows "en_version vw = version"
    and "set (map fst (en_reservations vw)) = re_id ` set (filter (servable gw (sn_deployments sn)) (sn_reservations sn))"
    and "length sk = length (filter (\<lambda>r. \<not> servable gw (sn_deployments sn) r) (sn_reservations sn))"
    and "list_all (\<lambda>d. map_of (en_reservations vw) (de_reservation d) = None
      \<or> set (de_api_key_sha256 d # map pk_api_key_sha256 (de_previous_keys d)) \<subseteq> set (map fst (en_by_key_hash vw))) (sn_deployments sn)"
    and "map_of (en_reservations (gw_current gw)) rid = Some x \<Longrightarrow> map_of (en_reservations vw) rid = Some r' \<Longrightarrow> gr_limiter r' = gr_limiter x"
    and "separate gw \<Longrightarrow> length (gw_limiters gw2) \<le> length (gw_limiters gw3) \<Longrightarrow> gw_current gw3 = vw \<Longrightarrow> separate gw3"
proof -
  note r = assms(1)[unfolded reservations_built_def prod.case] and d = assms(2)[unfolded deployments_built_def prod.case]
  show "en_version vw = version" and "set (map fst (en_reservations vw)) = re_id ` set (filter (servable gw (sn_deployments sn)) (sn_reservations sn))"
    and "length sk = length (filter (\<lambda>r. \<not> servable gw (sn_deployments sn) r) (sn_reservations sn))"
    using r d by simp_all
  have all: "\<forall>d\<in>set (sn_deployments sn). map_of (en_reservations vw) (de_reservation d) \<noteq> None \<longrightarrow>
      insert (de_api_key_sha256 d) (pk_api_key_sha256 ` set (de_previous_keys d)) \<subseteq> set (map fst (en_by_key_hash vw))" using d by blast
  show "list_all (\<lambda>d. map_of (en_reservations vw) (de_reservation d) = None
      \<or> set (de_api_key_sha256 d # map pk_api_key_sha256 (de_previous_keys d)) \<subseteq> set (map fst (en_by_key_hash vw))) (sn_deployments sn)"
    using all by (auto simp: list_all_iff)
  have lim: "\<forall>(k, s) \<in> set (en_reservations vw). \<forall>p. map_of (en_reservations (gw_current gw)) k = Some p \<longrightarrow> gr_limiter s = gr_limiter p"
    using r by blast
  show "gr_limiter r' = gr_limiter x" if "map_of (en_reservations (gw_current gw)) rid = Some x" "map_of (en_reservations vw) rid = Some r'"
    using bspec[OF lim map_of_SomeD[OF that(2)]] that(1) by simp
  assume "separate gw" and l: "length (gw_limiters gw2) \<le> length (gw_limiters gw3)" "gw_current gw3 = vw"
  then have b: "building (address (en_reservations (gw_current gw)) (en_by_deployment (gw_current gw))) (length (gw_limiters gw))
        (address (en_reservations vw) (en_by_deployment vw)) (length (gw_limiters gw2))" using d by blast
  have distinct: "distinct (map fst (en_reservations vw))" "distinct (map fst (en_by_deployment vw))" using r d by blast+
  have "a < length (gw_limiters gw3)" if "address (en_reservations vw) (en_by_deployment vw) u = Some a" for u a
    using b l(1) that unfolding building_def by fastforce
  then show "separate gw3" using b distinct unfolding separate_def building_def Let_def l(2) by blast
qed

text \<open>
  C37. What applying a snapshot does, whatever happens to the gateway between the build of the view
  and the swap (\<open>other\<close>). Static configuration, another region and a version that is not newer are
  refused and nothing changes. If another apply wins during the build the snapshot is refused as
  stale too, but by then its build has happened: what is left is the state after the build, and
  the limiters there are already reconfigured. Otherwise the version grows, past the one current at
  the swap as well; the reservations served are exactly those of the snapshot with a known profile,
  a CU and a deployment, and each of the others is in the report; every key of a served deployment
  is known; a reservation that was served before keeps its limiter. In a view whose limiters are
  not shared and with a snapshot that names a reservation once, the build leaves the kept limiter
  with its level, debt and burst credit refilled to now and clamped to the new limits, and its queue
  and demand as they were; and no two reservations or caps of the new view share a limiter either,
  if \<open>other\<close> takes no limiter out of the store.
\<close>

theorem snapshot_applied:
  assumes "apply_signed_snapshot other gw sn key_id now ms = (result, gw')"
  shows "(case result of
      Inl e \<Rightarrow>
        gw' = gw \<and> (e = StaticConfig \<or> e = Stale (en_version (gw_current gw)) (sn_version sn) \<and> sn_version sn \<le> en_version (gw_current gw)
          \<or> (\<exists>region. e = WrongRegion region (sn_region sn) \<and> sn_region sn \<noteq> region))
        \<or> gw' = other (built_by gw sn now ms) \<and> e = Stale (en_version (gw_current gw')) (sn_version sn)
          \<and> en_version (gw_current gw) < sn_version sn \<and> sn_version sn \<le> en_version (gw_current gw')
    | Inr report \<Rightarrow>
        en_version (gw_current gw) < en_version (gw_current gw') \<and> en_version (gw_current gw') = sn_version sn
        \<and> gw' = (other (built_by gw sn now ms))\<lparr>gw_current := gw_current gw'\<rparr>
        \<and> en_version (gw_current (other (built_by gw sn now ms))) < en_version (gw_current gw')
        \<and> set (map fst (en_reservations (gw_current gw'))) = re_id ` set (filter (servable gw (sn_deployments sn)) (sn_reservations sn))
        \<and> length (ar_skipped report) = length (filter (\<lambda>r. \<not> servable gw (sn_deployments sn) r) (sn_reservations sn))
        \<and> list_all (\<lambda>d. map_of (en_reservations (gw_current gw')) (de_reservation d) = None
              \<or> set (de_api_key_sha256 d # map pk_api_key_sha256 (de_previous_keys d)) \<subseteq> set (map fst (en_by_key_hash (gw_current gw')))) (sn_deployments sn)
        \<and> (\<forall>rid r r'. map_of (en_reservations (gw_current gw)) rid = Some r \<and> map_of (en_reservations (gw_current gw')) rid = Some r' \<longrightarrow> gr_limiter r' = gr_limiter r)
        \<and> (separate gw \<and> length (gw_limiters (built_by gw sn now ms)) \<le> length (gw_limiters (other (built_by gw sn now ms))) \<longrightarrow> separate gw'))
    \<and> (separate gw \<and> distinct (map re_id (sn_reservations sn)) \<longrightarrow>
        (\<forall>r p. r \<in> set (sn_reservations sn) \<and> servable gw (sn_deployments sn) r \<and> map_of (en_reservations (gw_current gw)) (re_id r) = Some p \<longrightarrow>
          carries_over (snapshot_config gw (sn_failovers sn) now ms r) (snapshot_policy (sn_deployments sn) r) now
            (limiter_at gw (gr_limiter p)) (limiter_at (built_by gw sn now ms) (gr_limiter p))))"
proof (rule conjI, goal_cases)
  case 1
  show ?case
  proof (cases result)
    case (Inl e)
    then show ?thesis using apply_error_cases[OF assms[unfolded Inl]] by simp
  next
    case (Inr report)
    obtain region sk gw1 gw2 where
      v: "en_version (gw_current gw) < sn_version sn"
      and rs: "reservations_built gw (sn_deployments sn) (sn_failovers sn) (sn_reservations sn) (en_reservations (gw_current gw'), sk, gw1)"
      and ds: "deployments_built gw (en_reservations (gw_current gw')) (sn_version sn) (SnapshotSource region) (sn_deployments sn) (gw_current gw', gw2)"
      and l: "gw' = (other gw2)\<lparr>gw_current := gw_current gw'\<rparr>" and late: "en_version (gw_current (other gw2)) < sn_version sn"
      and gw2: "gw2 = built_by gw sn now ms" and sk: "ar_skipped report = sk"
      using apply_built[OF assms[unfolded Inr]] by metis
    note built = view_of_snapshot[OF rs ds]
    have "gw_limiters gw' = gw_limiters (other gw2)" using arg_cong[OF l, of gw_limiters] by simp
    then have sep: "separate gw \<and> length (gw_limiters gw2) \<le> length (gw_limiters (other gw2)) \<longrightarrow> separate gw'" using built(6) by simp
    have ver: "en_version (gw_current gw) < en_version (gw_current gw')" "en_version (gw_current (other gw2)) < en_version (gw_current gw')"
      using v late built(1) by simp_all
    show ?thesis unfolding Inr sum.case gw2[symmetric] sk
      by (intro conjI ver l sep built(1-4)) (use built(5) in blast)
  qed
next
  case 2
  show ?case using built_limiter[of gw sn _ _ now ms] reconfigure_carries_over by metis
qed

section \<open>A gateway of two, with one reservation and a rotated key\<close>

definition demo_gateway :: gateway_state where
  "demo_gateway =
     \<lparr>gw_current = entitlements_empty (PendingSource ''eu'') 0,
      gw_quota = Some \<lparr>gq_assumed_gateways = 2, gq_decay = 1000,
        gq_leases = [(''r-1'', \<lparr>lt_rate = 30, lt_expires_at = 100, lt_gateways = 4\<rparr>)], gq_demand = []\<rparr>,
      gw_profiles = [(''test'', example_profile)], gw_wu_per_cu = 10, gw_limiters = [], gw_estimators = [], gw_prefix_cache = None\<rparr>"

definition demo_entitlement :: "string \<Rightarrow> nat \<Rightarrow> reservation_entitlement" where
  "demo_entitlement rid cus =
     \<lparr>re_id = rid, re_tenant = ''acme'', re_model = ''m'', re_cus = cus, re_tier = Standard, re_profile = ''test'',
      re_shape = \<lparr>input_p95 = 1, input_max = 2, output_p95 = 1, context_ceiling = 4, cache_hit_ratio = 0, burst_factor = 1\<rparr>,
      re_failover = []\<rparr>"

definition demo_gateway_snapshot :: snapshot where
  "demo_gateway_snapshot =
     \<lparr>sn_region = ''eu'', sn_version = 5, sn_generated_at = ''t'',
      sn_reservations = [demo_entitlement ''r-1'' 10, demo_entitlement ''r-2'' 0],
      sn_deployments = [\<lparr>de_id = ''d-1'', de_reservation = ''r-1'', de_api_key_sha256 = ''new'',
        de_previous_keys = [\<lparr>pk_api_key_sha256 = ''old'', pk_expires_at_ms = 50\<rparr>], de_max_share = Some (1/2), de_boundary_policy = boundary_policy_default\<rparr>],
      sn_failovers = []\<rparr>"

definition demo_served :: gateway_state where
  "demo_served = snd (apply_signed_snapshot (\<lambda>g. g) demo_gateway demo_gateway_snapshot None 0 0)"

lemmas gateway_eval =
  demo_gateway_def demo_entitlement_def demo_gateway_snapshot_def apply_signed_snapshot_def gw_build_def
  build_reservation_def build_deployment_def build_cap_def build_estimator_def new_limiter_def entitlements_empty_def

lemma demo_applies: "\<exists>report. apply_signed_snapshot (\<lambda>g. g) demo_gateway demo_gateway_snapshot None 0 0 = (Inr report, demo_served)"
  unfolding demo_served_def by (simp add: gateway_eval Let_def)

lemma demo_separate: "separate demo_gateway"
  by (auto simp: separate_def demo_gateway_def entitlements_empty_def address_def split: sum.splits)

text \<open>The next snapshot, with more CUs, and an apply of a newer one that wins while it is built.\<close>

definition demo_next_snapshot :: snapshot where
  "demo_next_snapshot = demo_gateway_snapshot\<lparr>sn_version := 6, sn_reservations := [demo_entitlement ''r-1'' 20]\<rparr>"

definition demo_winner :: "gateway_state \<Rightarrow> gateway_state" where
  "demo_winner gw = gw\<lparr>gw_current := (gw_current gw)\<lparr>en_version := 7\<rparr>\<rparr>"

lemma demo_served_separate: "separate demo_served"
  by (auto simp: separate_def demo_served_def gateway_eval Let_def address_def split: sum.splits if_splits option.splits)

lemma demo_next_served:
  "r = demo_entitlement ''r-1'' 20 \<Longrightarrow> servable demo_served (sn_deployments demo_next_snapshot) r
     \<and> (\<exists>p. map_of (en_reservations (gw_current demo_served)) (re_id r) = Some p \<and> gr_limiter p = 0)
     \<and> r \<in> set (sn_reservations demo_next_snapshot) \<and> distinct (map re_id (sn_reservations demo_next_snapshot))"
  by (simp add: servable_def demo_next_snapshot_def demo_served_def gateway_eval Let_def)

lemma demo_late:
  "fst (apply_signed_snapshot demo_winner demo_served demo_next_snapshot None 0 0) = Inl (Stale 7 6)
   \<and> en_version (gw_current demo_served) = 5"
  by (simp add: demo_winner_def demo_next_snapshot_def demo_served_def gateway_eval Let_def case_prod_unfold split: option.splits)

theorem snapshot_applied_witness:
  "en_version (gw_current demo_served) = 5
   \<and> set (map fst (en_reservations (gw_current demo_served))) = {''r-1''}
   \<and> {''new'', ''old''} \<subseteq> set (map fst (en_by_key_hash (gw_current demo_served)))
   \<and> separate demo_served
   \<and> (let (result, late) = apply_signed_snapshot demo_winner demo_served demo_next_snapshot None 0 0
      in result = Inl (Stale 7 6) \<and> late = demo_winner (built_by demo_served demo_next_snapshot 0 0))
   \<and> carries_over (snapshot_config demo_served [] 0 0 (demo_entitlement ''r-1'' 20)) boundary_policy_default 0
       (limiter_at demo_served 0) (limiter_at (built_by demo_served demo_next_snapshot 0 0) 0)"
proof -
  obtain report where r: "apply_signed_snapshot (\<lambda>g. g) demo_gateway demo_gateway_snapshot None 0 0 = (Inr report, demo_served)"
    using demo_applies by blast
  note a = conjunct1[OF snapshot_applied[OF r], unfolded sum.case]
  have "re_id ` set (filter (servable demo_gateway (sn_deployments demo_gateway_snapshot)) (sn_reservations demo_gateway_snapshot)) = {''r-1''}"
    by (simp add: servable_def demo_gateway_snapshot_def demo_gateway_def demo_entitlement_def)
  then have served: "set (map fst (en_reservations (gw_current demo_served))) = {''r-1''}" using a by metis
  then have "map_of (en_reservations (gw_current demo_served)) ''r-1'' \<noteq> None" by (simp add: map_of_eq_None_iff)
  moreover have "list_all (\<lambda>d. map_of (en_reservations (gw_current demo_served)) (de_reservation d) = None
      \<or> set (de_api_key_sha256 d # map pk_api_key_sha256 (de_previous_keys d)) \<subseteq> set (map fst (en_by_key_hash (gw_current demo_served))))
      (sn_deployments demo_gateway_snapshot)" using a by blast
  ultimately have keys: "{''new'', ''old''} \<subseteq> set (map fst (en_by_key_hash (gw_current demo_served)))"
    by (auto simp: demo_gateway_snapshot_def)
  have version: "en_version (gw_current demo_served) = sn_version demo_gateway_snapshot" "separate demo_served" using a demo_separate by blast+
  obtain late where l: "apply_signed_snapshot demo_winner demo_served demo_next_snapshot None 0 0 = (Inl (Stale 7 6), late)"
    using demo_late by (cases "apply_signed_snapshot demo_winner demo_served demo_next_snapshot None 0 0") simp
  have "late = demo_winner (built_by demo_served demo_next_snapshot 0 0)"
    using conjunct1[OF snapshot_applied[OF l], unfolded sum.case] demo_late by auto
  moreover have "carries_over (snapshot_config demo_served (sn_failovers demo_next_snapshot) 0 0 (demo_entitlement ''r-1'' 20))
      (snapshot_policy (sn_deployments demo_next_snapshot) (demo_entitlement ''r-1'' 20)) 0
       (limiter_at demo_served 0) (limiter_at (built_by demo_served demo_next_snapshot 0 0) 0)"
    using conjunct2[OF snapshot_applied[OF l]] demo_next_served[OF refl] version(2) by metis
  then have "carries_over (snapshot_config demo_served [] 0 0 (demo_entitlement ''r-1'' 20)) boundary_policy_default 0
       (limiter_at demo_served 0) (limiter_at (built_by demo_served demo_next_snapshot 0 0) 0)"
    by (simp add: demo_next_snapshot_def demo_gateway_snapshot_def snapshot_policy_def demo_entitlement_def)
  ultimately show ?thesis using served keys version l by (simp add: demo_gateway_snapshot_def)
qed

theorem keys_of_the_snapshot_witness:
  "deployment_for_key demo_served (\<lambda>k. k) 49 ''old'' \<noteq> None \<and> deployment_for_key demo_served (\<lambda>k. k) 50 ''old'' = None"
proof -
  obtain report where r: "apply_signed_snapshot (\<lambda>g. g) demo_gateway demo_gateway_snapshot None 0 0 = (Inr report, demo_served)"
    using demo_applies by blast
  have "deployment_for_key demo_served (\<lambda>k. k) 49 ''old'' \<noteq> None"
    by (simp add: demo_served_def deployment_for_key_def gateway_eval Let_def)
  moreover have "deployment_for_key demo_served (\<lambda>k. k) 50 ''old'' = None"
  proof (rule ccontr)
    assume "deployment_for_key demo_served (\<lambda>k. k) 50 ''old'' \<noteq> None"
    then obtain dep where "deployment_for_key demo_served (\<lambda>k. k) 50 ''old'' = Some dep" by blast
    from keys_of_the_snapshot[OF r this] show False by (auto simp: demo_gateway_snapshot_def)
  qed
  ultimately show ?thesis by blast
qed

theorem local_rate_within_entitlement_witness:
  "local_rate demo_gateway ''r-1'' 100 99 = (30, Leased) \<and> local_rate demo_gateway ''r-1'' 100 1100 = (100 / 8, Fallback)
   \<and> local_rate demo_gateway ''r-2'' 100 0 = (50, Unleased)"
proof -
  let ?q = "\<lparr>gq_assumed_gateways = 2, gq_decay = 1000, gq_leases = [(''r-1'', \<lparr>lt_rate = 30, lt_expires_at = 100, lt_gateways = 4\<rparr>)], gq_demand = []\<rparr>"
  have q: "gw_quota demo_gateway = Some ?q" "leases_ok ?q" by (simp_all add: demo_gateway_def leases_ok_def)
  show ?thesis
    using local_rate_within_entitlement[OF q, of 100 "''r-1''" 99] local_rate_within_entitlement[OF q, of 100 "''r-1''" 1100]
      local_rate_within_entitlement[OF q, of 100 "''r-2''" 0] by simp
qed

theorem refresh_follows_rate_witness:
  "\<bar>30 - limiter_rate (refresh_local_rates demo_served 99 0) 0\<bar> \<le> 1 / 1000000000
   \<or> \<bar>30 - limiter_rate (refresh_local_rates demo_served 99 0) 0\<bar> < 1/100 * max (limiter_rate (refresh_local_rates demo_served 99 0) 0) 30"
proof -
  note sep = demo_served_separate
  obtain r where r: "map_of (en_reservations (gw_current demo_served)) ''r-1'' = Some r" "gr_limiter r = 0" "gr_id r = ''r-1''"
    "gw_entitlement_wu_s r 0 = 100"
    by (simp add: demo_served_def gateway_eval Let_def gw_entitlement_wu_s_def gw_failover_cus_def)
  have "gw_quota demo_served = gw_quota demo_gateway" by (simp add: demo_served_def gateway_eval Let_def)
  then have "fst (local_rate demo_served ''r-1'' 100 99) = 30" by (simp add: local_rate_def demo_gateway_def quota_rate_def)
  then show ?thesis using refresh_follows_rate[OF sep r(1), of 0 99] by (simp only: r)
qed

end
