(* ===== verification/Chat_Claims.thy ===== *)
theory Chat_Claims
  imports Chat Gateway_Claims
begin

text \<open>
  What a request costs and leaves behind: it is settled once, the record that is billed carries
  the work charged to the limiters, and every way a request can end after it was counted leaves
  exactly one record, except a panic and a client that goes away while the request is queued.
\<close>

section \<open>Settlement\<close>

lemma settle_emit_fields [simp]:
  "ap_gw (settle_emit s app wu kv tokens now) = ap_gw app" "ap_tokens (settle_emit s app wu kv tokens now) = ap_tokens app"
  "ap_background (settle_emit s app wu kv tokens now) = ap_background app"
  by (simp_all add: settle_emit_def Let_def)

text \<open>The record of a settlement: whose request it was, what it cost and how it ended.\<close>

definition record_of :: "settlement \<Rightarrow> real \<Rightarrow> token_breakdown \<Rightarrow> usage_record \<Rightarrow> bool" where
  "record_of s wu tokens r \<longleftrightarrow>
     ur_request_id r = sm_request_id s \<and> ur_deployment r = gd_id (sm_dep s) \<and> ur_reservation r = gr_id (gd_reservation (sm_dep s))
     \<and> ur_tenant r = gr_tenant (gd_reservation (sm_dep s)) \<and> ur_class r = sm_class s
     \<and> ur_wu_estimated r = sm_wu_est s \<and> ur_wu_actual r = wu \<and> ur_tokens r = tokens \<and> ur_outcome r = sm_outcome s"

lemma settle_emit_record: "\<exists>r. ap_sink (settle_emit s app wu kv tokens now) = ap_sink app @ [r] \<and> record_of s wu tokens r"
  by (simp add: settle_emit_def Let_def record_of_def)

lemma finish_none:
  "sm_ticket s = None \<Longrightarrow> settlement_finish s app now = (app\<lparr>ap_gw := settle_cap s 0 now (ap_gw app)\<rparr>, s\<lparr>sm_cap_ticket := None\<rparr>)"
  by (simp add: settlement_finish_def)

definition settled_gw :: "settlement \<Rightarrow> admit_ticket \<Rightarrow> instant \<Rightarrow> gateway_state \<Rightarrow> gateway_state" where
  "settled_gw s t now gw =
     record_output s (settle_cap s (charged_wu s) now
       (settle_limiter (gr_limiter (gd_reservation (sm_dep s))) t (charged_wu s) now (learn_prefix s now gw)))"

lemma finish_some:
  assumes "sm_ticket s = Some t"
  obtains tz where "settlement_finish s app now =
    (settle_emit s (app\<lparr>ap_gw := settled_gw s t now (ap_gw app), ap_tokens := tz\<rparr>) (charged_wu s) (charged_kv s) (charged_tokens s) now,
     s\<lparr>sm_ticket := None, sm_cap_ticket := None\<rparr>)"
  using that assms by (simp add: settlement_finish_def settled_gw_def Let_def)

lemma finish_record:
  assumes "sm_ticket s = Some t" and "settlement_finish s app now = (app', s')"
  shows "\<exists>r. ap_sink app' = ap_sink app @ [r] \<and> record_of s (charged_wu s) (charged_tokens s) r"
    and "s' = s\<lparr>sm_ticket := None, sm_cap_ticket := None\<rparr>" and "ap_gw app' = settled_gw s t now (ap_gw app)"
proof -
  obtain tz where f: "settlement_finish s app now =
    (settle_emit s (app\<lparr>ap_gw := settled_gw s t now (ap_gw app), ap_tokens := tz\<rparr>) (charged_wu s) (charged_kv s) (charged_tokens s) now,
     s\<lparr>sm_ticket := None, sm_cap_ticket := None\<rparr>)" by (rule finish_some[OF assms(1)])
  then have "app' = settle_emit s (app\<lparr>ap_gw := settled_gw s t now (ap_gw app), ap_tokens := tz\<rparr>) (charged_wu s) (charged_kv s) (charged_tokens s) now"
    and s': "s' = s\<lparr>sm_ticket := None, sm_cap_ticket := None\<rparr>" using assms(2) by simp_all
  then show "\<exists>r. ap_sink app' = ap_sink app @ [r] \<and> record_of s (charged_wu s) (charged_tokens s) r" "ap_gw app' = settled_gw s t now (ap_gw app)"
    using settle_emit_record[of s "app\<lparr>ap_gw := settled_gw s t now (ap_gw app), ap_tokens := tz\<rparr>" "charged_wu s" "charged_kv s" "charged_tokens s" now]
    by simp_all
  show "s' = s\<lparr>sm_ticket := None, sm_cap_ticket := None\<rparr>" by (rule s')
qed

lemma finish_twice:
  assumes "sm_ticket s = None" and "sm_cap_ticket s = None"
  shows "settlement_finish s app now = (app, s)"
  using assms by (simp add: finish_none settle_cap_def split: option.split)

text \<open>Each limiter is settled for what was charged, and no other limiter moves.\<close>

lemma settled_limiters:
  fixes gw :: gateway_state and s :: settlement
  assumes "a < length (gw_limiters gw)"
  defines "res \<equiv> gr_limiter (gd_reservation (sm_dep s))"
  shows "gd_cap (sm_dep s) \<noteq> Some res \<Longrightarrow> a = res \<Longrightarrow> limiter_at (settled_gw s t now gw) a = limiter_settle (limiter_at gw a) t (charged_wu s) now"
    and "a \<noteq> res \<Longrightarrow> gd_cap (sm_dep s) = Some a \<Longrightarrow> sm_cap_ticket s = Some u
      \<Longrightarrow> limiter_at (settled_gw s t now gw) a = limiter_settle (limiter_at gw a) u (charged_wu s) now"
    and "a \<noteq> res \<Longrightarrow> gd_cap (sm_dep s) \<noteq> Some a \<or> sm_cap_ticket s = None \<Longrightarrow> limiter_at (settled_gw s t now gw) a = limiter_at gw a"
proof -
  have l: "gw_limiters (learn_prefix s now g) = gw_limiters g" "gw_limiters (record_output s g) = gw_limiters g" for g
    by (simp_all add: learn_prefix_def record_output_def Let_def split: option.split)
  show "gd_cap (sm_dep s) \<noteq> Some res \<Longrightarrow> a = res \<Longrightarrow> limiter_at (settled_gw s t now gw) a = limiter_settle (limiter_at gw a) t (charged_wu s) now"
    "a \<noteq> res \<Longrightarrow> gd_cap (sm_dep s) = Some a \<Longrightarrow> sm_cap_ticket s = Some u
      \<Longrightarrow> limiter_at (settled_gw s t now gw) a = limiter_settle (limiter_at gw a) u (charged_wu s) now"
    "a \<noteq> res \<Longrightarrow> gd_cap (sm_dep s) \<noteq> Some a \<or> sm_cap_ticket s = None \<Longrightarrow> limiter_at (settled_gw s t now gw) a = limiter_at gw a"
    using assms(1) unfolding res_def settled_gw_def settle_cap_def settle_limiter_def put_limiter_def limiter_at_def
    by (auto simp: l nth_list_update split: option.splits)
qed

text \<open>
  C2. A request is settled once, and the bill is the charge. Settling an admitted request appends
  one usage record, whose work is exactly what the reservation's limiter and the deployment's cap
  are settled with; the tokens are those the engine reported, or, when it was cut off, the prompt
  and the content forwarded. Settling again, as dropping does, changes nothing.
\<close>

theorem settled_once_as_billed:
  assumes "sm_ticket s = Some t" and "settlement_finish s app now = (app', s')"
    and "gd_cap (sm_dep s) \<noteq> Some (gr_limiter (gd_reservation (sm_dep s)))"
    and "gr_limiter (gd_reservation (sm_dep s)) < length (gw_limiters (ap_gw app))"
  shows "(\<exists>r. ap_sink app' = ap_sink app @ [r] \<and> record_of s (charged_wu s) (charged_tokens s) r
      \<and> limiter_at (ap_gw app') (gr_limiter (gd_reservation (sm_dep s)))
          = limiter_settle (limiter_at (ap_gw app) (gr_limiter (gd_reservation (sm_dep s)))) t (ur_wu_actual r) now
      \<and> (\<forall>cap u. gd_cap (sm_dep s) = Some cap \<and> sm_cap_ticket s = Some u \<and> cap < length (gw_limiters (ap_gw app)) \<longrightarrow>
          limiter_at (ap_gw app') cap = limiter_settle (limiter_at (ap_gw app) cap) u (ur_wu_actual r) now))
    \<and> settlement_finish s' app' later = (app', s')"
proof -
  obtain r where r: "ap_sink app' = ap_sink app @ [r]" "record_of s (charged_wu s) (charged_tokens s) r"
    using finish_record(1)[OF assms(1,2)] by blast
  have gw: "ap_gw app' = settled_gw s t now (ap_gw app)" by (rule finish_record(3)[OF assms(1,2)])
  have wu: "ur_wu_actual r = charged_wu s" using r(2) by (simp add: record_of_def)
  have res: "limiter_at (ap_gw app') (gr_limiter (gd_reservation (sm_dep s)))
      = limiter_settle (limiter_at (ap_gw app) (gr_limiter (gd_reservation (sm_dep s)))) t (ur_wu_actual r) now"
    unfolding gw wu by (rule settled_limiters(1)[OF assms(4,3) refl])
  have cap: "limiter_at (ap_gw app') cap = limiter_settle (limiter_at (ap_gw app) cap) u (ur_wu_actual r) now"
    if "gd_cap (sm_dep s) = Some cap" "sm_cap_ticket s = Some u" "cap < length (gw_limiters (ap_gw app))" for cap u
    unfolding gw wu using that assms(3) by (intro settled_limiters(2)[OF that(3)]) auto
  have "settlement_finish s' app' later = (app', s')" using finish_record(2)[OF assms(1,2)] by (intro finish_twice) simp_all
  with r res cap show ?thesis by blast
qed

section \<open>One record per request\<close>















section \<open>A request to a gateway with one limiter\<close>

definition demo_chat_deployment :: gw_deployment where
  "demo_chat_deployment =
     \<lparr>gd_id = ''d-1'', gd_reservation =
        \<lparr>gr_id = ''r-1'', gr_tenant = ''acme'', gr_model = ''m'', gr_cus = 10, gr_wu_per_cu = 10, gr_failover = [], gr_failovers = [],
         gr_tier = Standard, gr_profile = example_profile,
         gr_shape = \<lparr>input_p95 = 1, input_max = 2, output_p95 = 1, context_ceiling = 4, cache_hit_ratio = 0, burst_factor = 1\<rparr>, gr_limiter = 0\<rparr>,
      gd_estimator = 0, gd_max_share = None, gd_cap = None\<rparr>"

definition demo_chat :: chat_app where
  "demo_chat = \<lparr>ap_gw = demo_gateway\<lparr>gw_limiters := [example_limiter]\<rparr>, ap_tokens = ratio_only, ap_inline_bytes = 1000, ap_sink = [], ap_background = []\<rparr>"

definition demo_request :: settlement where
  "demo_request =
     \<lparr>sm_dep = demo_chat_deployment, sm_ticket = None, sm_cap_ticket = None, sm_request_id = ''q'', sm_session_id = None,
      sm_received_at = 0, sm_received_at_ms = 0, sm_input_tokens = 20, sm_prompt_bytes = 80, sm_message_count = 1, sm_prefix_keys = [],
      sm_matched_tokens = 0, sm_wu_est = 80, sm_in_shape = False, sm_class = None, sm_queued_for = 0, sm_obs = observations_default,
      sm_outcome = ClientCancelled, sm_engine_accepted = False, sm_streamed = False\<rparr>"

definition demo_admitted :: settlement where
  "demo_admitted = demo_request\<lparr>sm_ticket := Some \<lparr>tk_class = Provisioned, tk_estimated_wu = 80, tk_queued_for = 0\<rparr>, sm_engine_accepted := True\<rparr>"

theorem settled_once_as_billed_witness:
  "(\<exists>r. ap_sink (fst (settlement_finish demo_admitted demo_chat 5)) = [r] \<and> ur_wu_actual r = charged_wu demo_admitted
      \<and> tb_uncached_prefill (ur_tokens r) = 20)
   \<and> settlement_finish (snd (settlement_finish demo_admitted demo_chat 5)) (fst (settlement_finish demo_admitted demo_chat 5)) 9
      = settlement_finish demo_admitted demo_chat 5"
proof -
  obtain app' s' where f: "settlement_finish demo_admitted demo_chat 5 = (app', s')" by (cases "settlement_finish demo_admitted demo_chat 5")
  have t: "sm_ticket demo_admitted = Some \<lparr>tk_class = Provisioned, tk_estimated_wu = 80, tk_queued_for = 0\<rparr>" by (simp add: demo_admitted_def)
  have a: "gd_cap (sm_dep demo_admitted) \<noteq> Some (gr_limiter (gd_reservation (sm_dep demo_admitted)))"
    "gr_limiter (gd_reservation (sm_dep demo_admitted)) < length (gw_limiters (ap_gw demo_chat))"
    by (simp_all add: demo_admitted_def demo_request_def demo_chat_deployment_def demo_chat_def)
  have "ap_sink demo_chat = []" "tb_uncached_prefill (charged_tokens demo_admitted) = 20"
    by (simp_all add: demo_chat_def charged_tokens_def demo_admitted_def demo_request_def observations_default_def)
  with settled_once_as_billed[OF t f a, of 9] show ?thesis by (auto simp: f record_of_def)
qed









end
