(* ===== verification/Tokenize_Claims.thy ===== *)
theory Tokenize_Claims
  imports Tokenize
begin

text \<open>
  What the token counts mean: the per-message cache is bounded and never changes a count, a
  budget that covers the request makes the count exact, and the learned ratios stay in range.
\<close>

section \<open>The cache\<close>

definition token_cache_ok :: "token_cache \<Rightarrow> bool" where
  "token_cache_ok c \<longleftrightarrow> distinct (kc_order c) \<and> set (kc_order c) = dom (map_of (kc_counts c)) \<and> length (kc_order c) \<le> kc_capacity c"

lemma cache_evict_ok:
  assumes "cache_evict capacity counts order = (counts', order')" and "distinct order" and "set order = dom (map_of counts)"
  shows "distinct order' \<and> set order' = dom (map_of counts') \<and> length order' \<le> capacity
    \<and> map_of counts' \<subseteq>\<^sub>m map_of counts"
  using assms
proof (induction order arbitrary: counts)
  case (Cons old order)
  show ?case
  proof (cases "capacity < length (old # order)")
    case True
    have dom: "set order = dom (map_of (AList.delete old counts))" using Cons.prems(2,3) by (auto simp: delete_conv')
    have "map_of (AList.delete old counts) \<subseteq>\<^sub>m map_of counts" by (auto simp: delete_conv map_le_def)
    then show ?thesis using Cons.IH[of "AList.delete old counts"] Cons.prems True dom by (auto intro: map_le_trans)
  qed (use Cons.prems in auto)
qed auto

lemma insert_order:
  fixes c :: token_cache and key :: "64 word"
  assumes "token_cache_ok c"
  defines "order \<equiv> if map_of (kc_counts c) key = None then kc_order c @ [key] else kc_order c"
  shows "distinct order" "set order = dom (map_of (AList.update key n (kc_counts c)))"
  using assms unfolding token_cache_ok_def by (auto simp: update_conv' domIff)

lemma cache_insert_ok:
  assumes "token_cache_ok c"
  shows "token_cache_ok (cache_insert c key n)"
proof (cases "kc_capacity c = 0")
  case False
  let ?order = "if map_of (kc_counts c) key = None then kc_order c @ [key] else kc_order c"
  obtain counts order where e: "cache_evict (kc_capacity c) (AList.update key n (kc_counts c)) ?order = (counts, order)" by fastforce
  from cache_evict_ok[OF e insert_order[OF assms]] show ?thesis using False e by (simp add: token_cache_ok_def cache_insert_def)
qed (use assms in \<open>simp add: cache_insert_def\<close>)

lemma cache_insert_get:
  assumes "token_cache_ok c" and "cache_get (cache_insert c key n) k = Some m"
  shows "k = key \<and> m = n \<or> cache_get c k = Some m"
proof (cases "kc_capacity c = 0")
  case False
  let ?order = "if map_of (kc_counts c) key = None then kc_order c @ [key] else kc_order c"
  obtain counts order where e: "cache_evict (kc_capacity c) (AList.update key n (kc_counts c)) ?order = (counts, order)" by fastforce
  from cache_evict_ok[OF e insert_order[OF assms(1)]] have "map_of counts \<subseteq>\<^sub>m map_of (AList.update key n (kc_counts c))" by blast
  moreover have "map_of counts k = Some m" using assms(2) False e by (simp add: cache_get_def cache_insert_def)
  ultimately have "map_of (AList.update key n (kc_counts c)) k = Some m" by (metis domI map_le_def)
  then show ?thesis by (auto simp: cache_get_def update_conv split: if_splits)
qed (use assms in \<open>simp add: cache_insert_def\<close>)

section \<open>Sound counts\<close>

text \<open>
  What the source hashes: the model, role and text of a message, or, where the model has a chat
  template, a tag, the model and the text; and a tag, the model and the framing.
\<close>

definition message_input :: "string \<Rightarrow> model_tokenizer \<Rightarrow> string \<Rightarrow> string \<Rightarrow> string list" where
  "message_input model t role content =
     (if mt_template t \<noteq> None then [''text'', model, content] else [model, role, content])"

lemma message_key_input: "message_key hash model t role content = hash (message_input model t role content)"
  by (simp add: message_key_def message_input_def)

text \<open>
  Two inputs coincide when a model is named like a tag: a message in the role \<open>m\<close> to a model named
  \<open>text\<close> without a template is hashed as the same text sent to the model \<open>m\<close> with one. The counts
  below are of models that are not named like a tag.
\<close>

lemma tag_collision:
  assumes "mt_template t = None" and "mt_template u \<noteq> None"
  shows "message_key hash ''text'' t m content = message_key hash m u role content"
  using assms by (simp add: message_key_def)

definition named_ok :: "string \<Rightarrow> bool" where
  "named_ok model \<longleftrightarrow> model \<noteq> ''text'' \<and> model \<noteq> ''framing''"

text \<open>
  Every cached count is what tokenizing gives for an input its key is the hash of. The inputs hashed
  so far are a set \<open>K\<close>; the hasher is random and 64 bits wide, so it cannot be injective, and what
  counting relies on is that no two of these inputs collide.
\<close>

definition stands_for :: "tokenizers \<Rightarrow> string list \<Rightarrow> nat \<Rightarrow> bool" where
  "stands_for tz x n \<longleftrightarrow>
     (\<exists>model t. named_ok model \<and> tz_tokenizer tz model = Some t
        \<and> ((\<exists>role content. x = message_input model t role content \<and> n = message_tokens t role content)
           \<or> (\<exists>str. x = [''framing'', model, str] \<and> n = encode (mt_encode t) str)))"

definition sound_entry :: "hasher \<Rightarrow> string list set \<Rightarrow> tokenizers \<Rightarrow> 64 word \<Rightarrow> nat \<Rightarrow> bool" where
  "sound_entry hash K tz key n \<longleftrightarrow> (\<exists>x\<in>K. key = hash x \<and> stands_for tz x n)"

definition counts_sound :: "hasher \<Rightarrow> string list set \<Rightarrow> tokenizers \<Rightarrow> bool" where
  "counts_sound hash K tz \<longleftrightarrow> token_cache_ok (tz_cache tz) \<and> (\<forall>key n. cache_get (tz_cache tz) key = Some n \<longrightarrow> sound_entry hash K tz key n)"

lemma sound_entry_cong: "tz_models tz' = tz_models tz \<Longrightarrow> sound_entry hash K tz' = sound_entry hash K tz"
  by (simp add: sound_entry_def stands_for_def tz_tokenizer_def fun_eq_iff)

lemma put_learned_fields [simp]:
  "tz_models (put_learned model l tz) = tz_models tz" "tz_cache (put_learned model l tz) = tz_cache tz"
  "tz_filling (put_learned model l tz) = tz_filling tz"
  by (simp_all add: put_learned_def)

lemma put_count_fields [simp]:
  "tz_models (put_count key n tz) = tz_models tz" "tz_cache (put_count key n tz) = cache_insert (tz_cache tz) key n"
  "tz_filling (put_count key n tz) = tz_filling tz"
  by (simp_all add: put_count_def)

lemma counts_sound_cong:
  "tz_models tz' = tz_models tz \<Longrightarrow> tz_cache tz' = tz_cache tz \<Longrightarrow> counts_sound hash K tz' = counts_sound hash K tz"
  using sound_entry_cong[of tz' tz hash K] by (simp add: counts_sound_def)

lemma put_learned_sound [simp]: "counts_sound hash K (put_learned model l tz) = counts_sound hash K tz"
  by (rule counts_sound_cong) simp_all

lemma put_count_sound:
  assumes "counts_sound hash K tz" and "sound_entry hash K tz key n"
  shows "counts_sound hash K (put_count key n tz)"
  using assms cache_insert_ok[of "tz_cache tz"] cache_insert_get[of "tz_cache tz" key n] sound_entry_cong[of "put_count key n tz" tz hash K]
  unfolding counts_sound_def by (simp del: put_count_fields add: put_count_fields(2)) (metis put_count_fields(1))

text \<open>An input stands for one count, so without collisions a cached count is the count.\<close>

lemma stands_for_unique:
  assumes "stands_for tz x n"
  shows "named_ok model \<Longrightarrow> tz_tokenizer tz model = Some t \<Longrightarrow> x = message_input model t role content \<Longrightarrow> n = message_tokens t role content"
    and "tz_tokenizer tz model = Some t \<Longrightarrow> x = [''framing'', model, str] \<Longrightarrow> n = encode (mt_encode t) str"
proof -
  obtain m u where mu: "named_ok m" "tz_tokenizer tz m = Some u"
    and e: "(\<exists>r c. x = message_input m u r c \<and> n = message_tokens u r c) \<or> (\<exists>s. x = [''framing'', m, s] \<and> n = encode (mt_encode u) s)"
    using assms unfolding stands_for_def by blast
  show "n = message_tokens t role content" if "named_ok model" "tz_tokenizer tz model = Some t" "x = message_input model t role content"
    using e mu that by (auto simp: message_input_def named_ok_def message_tokens_def split: if_splits option.splits)
  show "n = encode (mt_encode t) str" if "tz_tokenizer tz model = Some t" "x = [''framing'', model, str]"
    using e mu that by (auto simp: message_input_def named_ok_def split: if_splits)
qed

lemma cached_stands_for:
  assumes "counts_sound hash K tz" and "inj_on hash K" and "x \<in> K" and "cache_get (tz_cache tz) (hash x) = Some n"
  shows "stands_for tz x n"
proof -
  obtain y where "y \<in> K" "hash x = hash y" "stands_for tz y n" using assms(1,4) unfolding counts_sound_def sound_entry_def by blast
  then show ?thesis using assms(2,3) by (metis inj_onD)
qed

lemma tokenize_sound:
  assumes "counts_sound hash K tz" and "named_ok model" and "tz_tokenizer tz model = Some t" and "message_input model t role content \<in> K"
  shows "fst (tz_tokenize tz model t (message_key hash model t role content) role content) = message_tokens t role content
    \<and> counts_sound hash K (snd (tz_tokenize tz model t (message_key hash model t role content) role content))
    \<and> tz_models (snd (tz_tokenize tz model t (message_key hash model t role content) role content)) = tz_models tz"
proof -
  have "sound_entry hash K tz (message_key hash model t role content) (message_tokens t role content)"
    using assms(2-4) unfolding sound_entry_def stands_for_def message_key_input by blast
  then have "counts_sound hash K (put_count (message_key hash model t role content) (message_tokens t role content) tz)"
    by (rule put_count_sound[OF assms(1)])
  then show ?thesis by (simp add: tz_tokenize_def Let_def)
qed

section \<open>Counting a request\<close>

text \<open>
  The reference: every message tokenized, and the framing, with no cache and no budget. Its sums
  are those of 64-bit integers, as in the source.
\<close>

definition exact_count ::
  "base64 \<Rightarrow> base64 \<Rightarrow> model_tokenizer \<Rightarrow> (string \<times> string) list \<Rightarrow> json option \<Rightarrow> slice_panic + (nat list \<times> nat)" where
  "exact_count std no_pad t messages request =
     (let json = request_messages messages request
      in case add_images std no_pad t 0 (case as_array json of None \<Rightarrow> [] | Some ms \<Rightarrow> ms) (map (\<lambda>(r, c). message_tokens t r c) messages) of
           Inl e \<Rightarrow> Inl e
         | Inr (per, added) \<Rightarrow>
             (case mt_template t of
                None \<Rightarrow> Inr (per, added)
              | Some render \<Rightarrow>
                  (case template_framing render json (Option.bind request (json_get ''tools'')) of
                     Some f \<Rightarrow> Inr (add_first (encode (mt_encode t) (fr_text f)) per, u64_add added (encode (mt_encode t) (fr_text f)))
                   | None \<Rightarrow> Inr (add_overheads t added messages per))))"

text \<open>What counting a request hashes.\<close>

definition request_inputs :: "string \<Rightarrow> model_tokenizer \<Rightarrow> (string \<times> string) list \<Rightarrow> json option \<Rightarrow> string list set" where
  "request_inputs model t messages request =
     set (map (\<lambda>(r, c). message_input model t r c) messages)
     \<union> (case mt_template t of
          None \<Rightarrow> {}
        | Some render \<Rightarrow>
            (case template_framing render (request_messages messages request) (Option.bind request (json_get ''tools'')) of
               None \<Rightarrow> {} | Some f \<Rightarrow> {[''framing'', model, fr_text f]}))"

lemma count_loop_sound:
  fixes cs :: count_state and ratio :: real
  assumes "counts_sound hash K (cs_tz cs)" and "inj_on hash K" and "named_ok model" and "tz_tokenizer (cs_tz cs) model = Some t"
    and "sum_list (map (\<lambda>(r, c). length r + length c) messages) \<le> cs_left cs"
    and "set (map (\<lambda>(r, c). message_input model t r c) messages) \<subseteq> K"
  defines "cs' \<equiv> foldl (count_message_within hash model t ratio) cs messages"
  shows "counts_sound hash K (cs_tz cs') \<and> tz_models (cs_tz cs') = tz_models (cs_tz cs)
    \<and> cs_per cs' = cs_per cs @ map (\<lambda>(r, c). message_tokens t r c) messages
    \<and> cs_estimated cs' = cs_estimated cs \<and> cs_deferred cs' = cs_deferred cs \<and> cs_exact cs' = cs_exact cs + length messages"
  using assms(1-6) unfolding cs'_def
proof (induction messages arbitrary: cs)
  case (Cons m messages)
  obtain role content where m: "m = (role, content)" by (cases m)
  let ?key = "message_key hash model t role content" and ?next = "count_message_within hash model t ratio cs m"
  have fits: "length role + length content \<le> cs_left cs" using Cons.prems(5) by (simp add: m)
  have used: "message_input model t role content \<in> K" using Cons.prems(6) by (simp add: m)
  have tok: "tz_tokenizer tz model = Some t" if "tz_models tz = tz_models (cs_tz cs)" for tz
    using that Cons.prems(4) by (simp add: tz_tokenizer_def)
  note ts = tokenize_sound[OF Cons.prems(1,3,4) used]
  have step: "counts_sound hash K (cs_tz ?next) \<and> tz_models (cs_tz ?next) = tz_models (cs_tz cs)
      \<and> cs_per ?next = cs_per cs @ [message_tokens t role content] \<and> cs_estimated ?next = cs_estimated cs
      \<and> cs_deferred ?next = cs_deferred cs \<and> cs_exact ?next = cs_exact cs + 1
      \<and> cs_left cs - (length role + length content) \<le> cs_left ?next"
  proof (cases "cache_get (tz_cache (cs_tz cs)) ?key")
    case None
    then show ?thesis using ts fits by (simp add: count_message_within_def m Let_def case_prod_unfold)
  next
    case (Some n)
    have "n = message_tokens t role content"
      using stands_for_unique(1)[OF cached_stands_for[OF Cons.prems(1,2) used Some[unfolded message_key_input]] Cons.prems(3,4) refl] .
    then show ?thesis using Cons.prems(1) Some by (simp add: count_message_within_def m)
  qed
  have "sum_list (map (\<lambda>(r, c). length r + length c) messages) \<le> cs_left cs - (length role + length content)"
    using Cons.prems(5) by (simp add: m)
  then have "sum_list (map (\<lambda>(r, c). length r + length c) messages) \<le> cs_left ?next" using step by linarith
  with Cons.IH[of ?next] step tok Cons.prems(2,3,6) show ?case by (simp add: m)
qed simp

lemma framing_tokens_sound:
  assumes "counts_sound hash K tz" and "inj_on hash K" and "named_ok model" and "tz_tokenizer tz model = Some t"
    and "[''framing'', model, str] \<in> K"
  shows "fst (framing_tokens hash model t str tz) = encode (mt_encode t) str \<and> counts_sound hash K (snd (framing_tokens hash model t str tz))"
proof (cases "cache_get (tz_cache tz) (hash [''framing'', model, str])")
  case None
  have "sound_entry hash K tz (hash [''framing'', model, str]) (encode (mt_encode t) str)"
    using assms(3-5) unfolding sound_entry_def stands_for_def by blast
  then show ?thesis using None put_count_sound[OF assms(1)] by (simp add: framing_tokens_def Let_def)
next
  case (Some n)
  have "n = encode (mt_encode t) str" using stands_for_unique(2)[OF cached_stands_for[OF assms(1,2,5) Some] assms(4) refl] .
  then show ?thesis using Some assms(1) by (simp add: framing_tokens_def Let_def)
qed

lemma add_framing_sound:
  assumes "counts_sound hash K tz" and "inj_on hash K" and "named_ok model" and "tz_tokenizer tz model = Some t"
    and "request_inputs model t messages request \<subseteq> K"
  shows "(case add_framing std no_pad hash tz model t messages request (map (\<lambda>(r, c). message_tokens t r c) messages) of
      Inl e \<Rightarrow> exact_count std no_pad t messages request = Inl e
    | Inr (per, n, tz') \<Rightarrow> exact_count std no_pad t messages request = Inr (per, n) \<and> counts_sound hash K tz')"
proof -
  let ?j = "request_messages messages request"
  let ?images = "add_images std no_pad t 0 (case as_array ?j of None \<Rightarrow> [] | Some ms \<Rightarrow> ms) (map (\<lambda>(r, c). message_tokens t r c) messages)"
  have f: "fst (framing_tokens hash model t (fr_text fr) tz) = encode (mt_encode t) (fr_text fr)
      \<and> counts_sound hash K (snd (framing_tokens hash model t (fr_text fr) tz))"
    if "mt_template t = Some render" "template_framing render ?j (Option.bind request (json_get ''tools'')) = Some fr" for render fr
    using assms(5) that by (intro framing_tokens_sound[OF assms(1-4)]) (simp add: request_inputs_def)
  show ?thesis
    using assms(1) f unfolding add_framing_def exact_count_def Let_def
    by (cases ?images) (auto simp: case_prod_unfold split: option.splits)
qed

text \<open>
  C40. A count within budget is exact, whatever is cached. For a model whose name is not one of the two
  tags the keys are built with, as long as no two of the inputs hashed so far, those of this request
  among them, collide in the 64-bit hash, and with a sound cache and a budget that covers the
  request, the count of a request is that of the reference which tokenizes every message and the
  template's framing anew, in the same 64-bit arithmetic; nothing is deferred, the count is the sum
  of the messages, in 64 bits and exactly if the sum fits, and the cache stays bounded and sound. A
  panic is one of the reference too.
\<close>

theorem counting_is_exact:
  assumes "inj_on hash K" and "request_inputs model t messages request \<subseteq> K" and "counts_sound hash K tz"
    and "named_ok model" and "tz_tokenizer tz model = Some t"
    and "sum_list (map (\<lambda>(r, c). length r + length c) messages) \<le> budget"
  shows "case count_within std no_pad hash tz model messages request budget of
      Inl e \<Rightarrow> exact_count std no_pad t messages request = Inl e
    | Inr (c, tz') \<Rightarrow> exact_count std no_pad t messages request = Inr (tc_per_message c, tc_framing c)
        \<and> tc_tokens c = u64_sum (tc_per_message c)
        \<and> (sum_list (tc_per_message c) < 18446744073709551616 \<longrightarrow> tc_tokens c = sum_list (tc_per_message c))
        \<and> tc_exact c \<and> tc_deferred c = [] \<and> counts_sound hash K tz'"
proof -
  let ?cs = "foldl (count_message_within hash model t (bytes_per_token tz model))
    \<lparr>cs_left = budget, cs_per = [], cs_deferred = [], cs_exact = 0, cs_estimated = 0, cs_tz = tz\<rparr> messages"
  have "set (map (\<lambda>(r, c). message_input model t r c) messages) \<subseteq> K" using assms(2) unfolding request_inputs_def by blast
  then have cs: "counts_sound hash K (cs_tz ?cs)" "tz_models (cs_tz ?cs) = tz_models tz"
    "cs_per ?cs = map (\<lambda>(r, c). message_tokens t r c) messages" "cs_estimated ?cs = 0" "cs_deferred ?cs = []"
    using count_loop_sound[of hash K "\<lparr>cs_left = budget, cs_per = [], cs_deferred = [], cs_exact = 0, cs_estimated = 0, cs_tz = tz\<rparr>" model t messages] assms
    by simp_all
  let ?tz = "tally (cs_tz ?cs) model (cs_exact ?cs) (cs_estimated ?cs)"
  have t: "counts_sound hash K ?tz" "tz_tokenizer ?tz model = Some t"
    using cs(1,2) assms(5) by (simp_all add: tally_def Let_def tz_tokenizer_def)
  from add_framing_sound[OF t(1) assms(1,4) t(2) assms(2), of std no_pad] show ?thesis
    using assms(5) cs(4,5) u64_sum_exact unfolding count_within_def Let_def cs(3)[symmetric]
    by (cases "add_framing std no_pad hash ?tz model t messages request (cs_per ?cs)") (auto split: prod.splits)
qed

definition demo_tokenizer :: model_tokenizer where
  "demo_tokenizer = \<lparr>mt_encode = (\<lambda>s. Some (length s)), mt_overhead = 3, mt_template = None, mt_image_tokens = 576, mt_image = None\<rparr>"

definition demo_tokenizers :: tokenizers where
  "demo_tokenizers = with_models [(''m'', demo_tokenizer)] 10"

definition demo_messages :: "(string \<times> string) list" where
  "demo_messages = [(''user'', ''hello''), (''user'', ''hi'')]"

text \<open>A hash of 64 bits under which the inputs of these messages do not collide.\<close>

definition demo_hash :: hasher where
  "demo_hash x = of_nat (length (concat x))"

theorem counting_is_exact_witness:
  "\<exists>c tz'. count_within (\<lambda>_. None) (\<lambda>_. None) demo_hash demo_tokenizers ''m'' demo_messages None 100 = Inr (c, tz')
     \<and> tc_per_message c = [12, 9] \<and> tc_tokens c = 21 \<and> tc_exact c"
proof -
  let ?K = "request_inputs ''m'' demo_tokenizer demo_messages None"
  let ?count = "count_within (\<lambda>_. None) (\<lambda>_. None) demo_hash demo_tokenizers ''m'' demo_messages None 100"
  have "?K = {[''m'', ''user'', ''hello''], [''m'', ''user'', ''hi'']}"
    by (simp add: request_inputs_def demo_tokenizer_def demo_messages_def message_input_def)
  then have h: "inj_on demo_hash ?K" by (simp add: demo_hash_def)
  have s: "counts_sound demo_hash ?K demo_tokenizers"
    by (simp add: counts_sound_def demo_tokenizers_def with_models_def token_cache_ok_def cache_get_def)
  have t: "tz_tokenizer demo_tokenizers ''m'' = Some demo_tokenizer" by (simp add: demo_tokenizers_def with_models_def tz_tokenizer_def or_else_def)
  have e: "exact_count (\<lambda>_. None) (\<lambda>_. None) demo_tokenizer demo_messages None = Inr ([12, 9], 0)"
    by (simp add: exact_count_def request_messages_def content_parts_def message_tokens_def encode_def CHUNK_BYTES_def
        demo_tokenizer_def demo_messages_def u64_add_def)
  have b: "sum_list (map (\<lambda>(r, c). length r + length c) demo_messages) \<le> 100" by (simp add: demo_messages_def)
  have c: "case ?count of
      Inl e \<Rightarrow> exact_count (\<lambda>_. None) (\<lambda>_. None) demo_tokenizer demo_messages None = Inl e
    | Inr (c, tz') \<Rightarrow> exact_count (\<lambda>_. None) (\<lambda>_. None) demo_tokenizer demo_messages None = Inr (tc_per_message c, tc_framing c)
        \<and> tc_tokens c = u64_sum (tc_per_message c)
        \<and> (sum_list (tc_per_message c) < 18446744073709551616 \<longrightarrow> tc_tokens c = sum_list (tc_per_message c))
        \<and> tc_exact c \<and> tc_deferred c = [] \<and> counts_sound demo_hash ?K tz'"
    by (rule counting_is_exact[OF h subset_refl s _ t b]) (simp add: named_ok_def)
  show ?thesis
  proof (cases ?count)
    case (Inr x)
    obtain a b where x: "x = (a, b)" by (cases x)
    have p: "tc_per_message a = [12, 9]" using c e unfolding Inr x by simp
    have "tc_tokens a = 21" "tc_exact a" using c unfolding Inr x by (simp_all add: p)
    then show ?thesis using p Inr x by blast
  qed (use c e in simp)
qed

end
