(* ===== verification/Spec2Isabelle.thy ===== *)
theory Spec2Isabelle
  imports Limiter Prefix_Cache Output_Estimate Quota_Service Dispatch Operator Entitlement_Claims Usage_Report Finalize Quote_Claims
    Chat_Claims Tokenize_Claims
begin

text \<open>
  Provisioned throughput: capacity of a model-serving fleet sold in capacity units (CU) and
  enforced in work units (WU) per second. A control plane sells reservations against pools and
  splits them over regions; a quota service leases each reservation's entitlement to the
  gateways of a region; a gateway admits requests against its lease; a router queues and
  places admitted requests on workers; an operator sizes the pools.

  \<^bold>\<open>Theories and sources\<close> (paths under \<open>src/crates\<close>).

  \<^item> \<open>PT_Prelude\<close>: instants and durations in nanoseconds, saturating and wrapping
    arithmetic, the iterator methods and ordered maps of the standard library, list lemmas.
  \<^item> \<open>PT_Core\<close>: \<open>pt-core\<close>. Tiers, the cost model, shapes, terms, usage records.
  \<^item> \<open>Bucket\<close>, \<open>Limiter\<close>: \<open>pt-admission\<close> (\<open>bucket.rs\<close>, \<open>burst.rs\<close>, \<open>policy.rs\<close>,
    \<open>limiter.rs\<close>). A debt bucket, the burst bank and the limiter of one reservation; each
    method is one step, because the limiter holds its lock throughout. Shown: admission stays
    within the entitlement in every reachable state, queued work equals the slots held, each
    decision charges one account, announced waits are exact.
  \<^item> \<open>Prefix_Cache\<close>, \<open>Output_Estimate\<close>: \<open>pt-admission\<close> (\<open>prefix.rs\<close>, \<open>estimator.rs\<close>).
    The cache of sent prefixes with its eviction and learned hit rates, and the quantile sketch
    behind the output estimate. Shown: the cache refines the history of its writes within its
    capacity, a prediction stays within the prompt, the estimate is within two percent of the
    exact percentile.
  \<^item> \<open>Gateway\<close>, \<open>Gateway_Claims\<close>: \<open>pt-gateway\<close> (\<open>state.rs\<close>, \<open>quota.rs\<close>). The view a snapshot
    builds, leases and local rates, demand reports and the renewal round. A limiter is shared by
    the view before, the view after and the requests in flight, so limiters live in a store and
    views hold addresses. Applying a snapshot takes what happens between its build and the swap as
    an argument, so that an apply that is overtaken is covered. Shown: only keys of the last
    snapshot work, exactly its servable reservations are served, limiters are kept with their level,
    debt and credit and never shared, the local rate is within the entitlement and limiters follow it.
  \<^item> \<open>Sse\<close>, \<open>Chat\<close>, \<open>Chat_Claims\<close>: \<open>pt-gateway\<close> (\<open>sse.rs\<close>, \<open>chat.rs\<close>). The inspection of
    streamed events, and the path of a request through authentication, counting, the cap and
    the limiter, forwarding, streaming and settlement. Shown: the chunking of a stream does not
    matter, a request is settled once and billed what it is charged, and it leaves one record
    however it ends, except by a panic or when its client goes away while it is queued, which leave
    none.
  \<^item> \<open>Image_Tokens\<close>, \<open>Tokenize\<close>, \<open>Tokenize_Claims\<close>: \<open>pt-tokenize\<close>. Image sizes and tiling,
    the framing of a chat template, and counting with a cache and a byte budget. Shown: the
    downscaling loop ends within the tile limit, sizes are read back from PNG, GIF and JPEG
    headers, a count within budget is exact whatever is cached as long as the 64-bit keys in use do
    not collide and no model is named like a tag of the keys, the cache is bounded.
  \<^item> \<open>Quota\<close>, \<open>Election\<close>, \<open>Quota_Service\<close>: \<open>pt-quota\<close> and \<open>pt-election\<close>. The
    max-min fair allocator, the lease coordinator, leader election over a lease with
    compare-and-swap writes, and the service that grants only while it leads. Election is a
    step relation whose reads and writes take time, so every interleaving of replicas is
    covered. Shown: live grants never exceed the entitlement, at most one replica serves, a
    take-over starts after the old grants have expired.
  \<^item> \<open>Scheduler\<close>, \<open>Workers\<close>, \<open>Dispatch\<close>: \<open>pt-router\<close>. Weighted fair queues per
    traffic class with a starvation guard, worker selection and preemption, and the dispatcher
    that composes them. Shown: requests are conserved, dispatch order, bounded waiting of
    pay-as-you-go, exact worker accounts, safe and complete dispatch.
  \<^item> \<open>Planner\<close>: \<open>pt-control-plane\<close> (\<open>capacity.rs\<close>, \<open>planner.rs\<close>, lookups of
    \<open>config.rs\<close>). Costs per tier, scheduled arrivals, best-fit placement, the in-memory
    counters. The planner's contract is the locale \<open>capacity_planner\<close> over a ledger of lots.
    Shown: no oversale at any moment, sales within what the replicas deliver, best fit,
    correction of drift on the second run.
  \<^item> \<open>Regions\<close>: \<open>rebalance.rs\<close>, \<open>failover.rs\<close> and the parts of \<open>model.rs\<close> they use.
    Shown: rebalancing keeps the contract, headroom covers one region's failure, steering stays
    within the footprint, serving runs are unbroken.
  \<^item> \<open>Model\<close>, \<open>Store\<close>, \<open>Validate\<close>, \<open>Service\<close>: \<open>model.rs\<close>, \<open>store.rs\<close>,
    \<open>validate.rs\<close>, \<open>pricing.rs\<close>, \<open>service.rs\<close> and the start-up of \<open>lib.rs\<close>. The
    reservation record, the in-memory store (contract: locale \<open>reservation_store\<close>), the
    checks of a request, and the operations of the reservation service: create, update,
    delete, move, the lifecycle pass, reconciliation and restoring at start-up. A request is a
    sequence of planner calls and one store write, with the roll-back the code does when a
    later step fails.
  \<^item> \<open>Telemetry\<close>, \<open>Sla\<close>, \<open>Usage_Report\<close>: \<open>pt-telemetry\<close>. The usage store (contract: locale
    \<open>usage_store\<close>), statistics and sessions, the SLA windows and reports, and the API handlers.
    Shown: a request is counted once, SLA windows partition the eligible requests, credits are
    in range, the one-pass series equals filtering each bucket.
  \<^item> \<open>Deployments\<close>, \<open>Incidents\<close>: the rest of \<open>service.rs\<close>. Deployments and inference keys;
    sales holds, incidents, heartbeats, the automatic failover check, steering, the snapshots
    of \<open>pt-entitlement\<close>, and the rebalancing pass.
  \<^item> \<open>Rollback\<close>, \<open>Accounts\<close>, \<open>Requests\<close>, \<open>Ledger\<close>, \<open>Lifecycle\<close>: the proofs
    about the service. Undoing a request restores the planner; every step of a request changes
    the planner by what it records in the reservation; the lifecycle loop ends.
  \<^item> \<open>Reachable\<close>: the step relation \<open>service_step\<close>, its reachable states and their invariants.
    A step is a request of the service whose shares fit 32 bits, the lifecycle pass, the failover
    check or the publication of a snapshot, and any write may fail. Two things are left out, because
    after them the accounts need not agree: an update to longer contexts that fails
    (\<open>rollback_loses_capacity\<close>), and the rebalancing pass, which is modelled but is not a step.
    \<open>Service_Claims\<close> and \<open>Entitlement_Claims\<close> hold the properties of the states reached by these
    steps: planner and store agree, a request that fails changes nothing unless it is an update to
    longer contexts, the lifecycle pass catches up, a restart rebuilds the planner; the entitlements
    of a snapshot are within what the planner's counters have booked, a deployment has one current
    key, a region one open incident, and a region is declared down only on proof.
  \<^item> \<open>Billing\<close>, \<open>Fees\<close>, \<open>Finalize\<close>: \<open>billing.rs\<close> and \<open>telemetry.rs\<close>. Rate timelines, the
    lines of an invoice, drafts and finalisation. Shown: a month is billed once, invoices add up
    and are never negative, periods parse back, an invoice is finalised once.
  \<^item> \<open>Quote\<close>, \<open>Quote_Claims\<close>: \<open>quote.rs\<close>. The demand of a workload, the sizing, the observed
    shape and the recommendation. Shown: the sizing covers the demand and no smaller one does,
    the observed shape can be used, a feasible quote can be reserved where all pools serve the
    context (and need not otherwise), and exactly when the handler panics.
  \<^item> \<open>Operator\<close>: \<open>pt-operator\<close> (\<open>sizing.rs\<close>, \<open>drain.rs\<close>, \<open>spares.rs\<close>) over
    \<open>pt-crds\<close>. Shown: the floor is the least that carries the demand, failover sizing
    covers the failover, role counts add up and respect the cap as long as floor and headroom fit 32
    bits, spares come only from beyond the minimum.

  \<^bold>\<open>How the components meet.\<close> The limiter's buckets satisfy the locale
  \<open>entitlement_meter\<close>, the coordinator uses the allocator through \<open>share_allocator\<close>, the
  elector a lease store through \<open>lease_backend\<close>, reports read usage through \<open>usage_store\<close>, the dispatcher the scheduler through
  \<open>request_bag\<close>, the service the planner through \<open>capacity_planner\<close>; each is interpreted on
  the model of the code that provides it.

  \<^bold>\<open>Modelling decisions.\<close> A float is a real number; a float that the source tests with
  \<open>is_finite\<close> is a \<open>f64_wire\<close>. Counters that would need more than \<open>2^64\<close> events to wrap are
  natural numbers; products and sums that a configuration can drive to the width wrap
  (\<open>u32_add\<close>, \<open>u64_add\<close>, \<open>u64_mul\<close>), and the claims about them name the width condition, saturating ones
  saturate. The CUs of a reservation are summed as natural numbers (\<open>total_cus\<close>), and the operations
  that depend on it assume that the sum fits. A panic is an error value or \<open>None\<close>,
  and where it cannot happen that is proved. Loops are structural recursions or have a
  termination measure; the catch-up loop of the lifecycle pass is a \<open>partial_function\<close> that
  is proved to return. No definition uses fuel; the queueing loop of a request takes the instants
  of its attempts, and when there are no more the client went away while it slept. Code outside the sources (the JSON parser,
  tokenizers, the template engine, base64, hashes, the serving engine's answers) is an argument.
  Hash maps are association lists or functions,
  ordered maps sorted association lists. Time is an argument of every operation that reads a
  clock. Log lines and metrics are dropped.

  \<^bold>\<open>Not modelled.\<close> HTTP, TLS, DNS, Kubernetes and SQL bindings, serialisation and signatures,
  the loading of tokenizers and templates, dashboards, and the mock engine: they are I/O or calls
  to libraries. Also left out: the gateway's choice of a replica (\<open>affinity.rs\<close>), which hashes
  with a library, its snapshot polling and usage export, the operator's plan and failover demand,
  and the validation of configuration files.
\<close>

end
